(* ===== verification/FE_Prelude.thy ===== *)
theory FE_Prelude
  imports Main "HOL-Library.Word" "HOL-Library.Multiset"
begin

text \<open>
  Shared vocabulary of the FlowEdge development: the names of the machine integers, the
  generic lemmas on lists and words that the components share, and the two interfaces that
  several components implement.

  \<^item> \<open>reach\<close> and the locale \<open>inductive_invariant\<close>: a state machine given by its initial
    states and its step relation, and the rule that an inductive invariant holds in every
    reachable state.
  \<^item> \<open>fifo_run\<close> and the locale \<open>bounded_fifo\<close>: the contract of a bounded first-in
    first-out buffer. The event buffer and the shared-memory ring interpret it.
\<close>

unbundle bit_operations_syntax

section \<open>Machine integers\<close>

type_synonym u8 = "8 word"
type_synonym u16 = "16 word"
type_synonym u32 = "32 word"
type_synonym u64 = "64 word"
type_synonym byte = "8 word"

text \<open>
  \<open>std::size_t\<close> is 64 bits wide on every supported target. Sizes and indices are modelled
  as \<open>nat\<close>; wherever the source compares against the largest size, the model compares
  against \<open>SIZE_MAX\<close>.
\<close>

abbreviation SIZE_MAX :: nat where
  "SIZE_MAX \<equiv> 18446744073709551615"

abbreviation U64_MAX :: u64 where
  "U64_MAX \<equiv> 18446744073709551615"

abbreviation U32_MAX :: u32 where
  "U32_MAX \<equiv> 4294967295"

named_theorems wire_simps \<open>sizes, offsets and constants of the wire formats\<close>
named_theorems enum_simps \<open>the numeric values of the scoped enumerations\<close>

section \<open>State machines\<close>

inductive reach :: "('s \<Rightarrow> bool) \<Rightarrow> ('s \<Rightarrow> 's \<Rightarrow> bool) \<Rightarrow> 's \<Rightarrow> bool"
  for init step where
  reach_init: "init s \<Longrightarrow> reach init step s"
| reach_step: "reach init step s \<Longrightarrow> step s t \<Longrightarrow> reach init step t"

section \<open>Runs of a bounded buffer\<close>

datatype 'a fifo_op = Push 'a | Pop

text \<open>
  \<open>fifo_run push pop ops q = (accepted, popped, q')\<close>: the elements the buffer accepted and
  the elements it delivered, in order, and the final buffer.
\<close>

fun fifo_run ::
  "('a \<Rightarrow> 'q \<Rightarrow> bool \<times> 'q) \<Rightarrow> ('q \<Rightarrow> 'a option \<times> 'q) \<Rightarrow> 'a fifo_op list \<Rightarrow> 'q
    \<Rightarrow> 'a list \<times> 'a list \<times> 'q" where
  "fifo_run push pop [] q = ([], [], q)"
| "fifo_run push pop (Push x # ops) q =
     (let (ok, q1) = push x q; (acc, out, q2) = fifo_run push pop ops q1
      in (if ok then x # acc else acc, out, q2))"
| "fifo_run push pop (Pop # ops) q =
     (let (r, q1) = pop q; (acc, out, q2) = fifo_run push pop ops q1
      in (acc, (case r of None \<Rightarrow> out | Some y \<Rightarrow> y # out), q2))"

section \<open>Overwriting a block of an array\<close>

text \<open>\<open>blit dst off src\<close> is \<open>std::memcpy(dst + off, src, |src|)\<close> for a block in range.\<close>

definition blit :: "'a list \<Rightarrow> nat \<Rightarrow> 'a list \<Rightarrow> 'a list" where
  "blit dst off src = take off dst @ src @ drop (off + length src) dst"

section \<open>Circular buffers\<close>

text \<open>\<open>n\<close> elements of a circular buffer, from position \<open>start\<close> on.\<close>

definition ring_view :: "'a list \<Rightarrow> nat \<Rightarrow> nat \<Rightarrow> 'a list" where
  "ring_view xs start n = map (\<lambda>i. xs ! ((start + i) mod length xs)) [0 ..< n]"

section \<open>Lemmas on circular buffers\<close>

lemma sum_list_map_update:
  fixes f :: "'a \<Rightarrow> 'b :: comm_monoid_add"
  shows "i < length xs \<Longrightarrow> sum_list (map f (xs[i := y])) + f (xs ! i) = sum_list (map f xs) + f y"
proof (induction xs arbitrary: i)
  case (Cons x xs)
  then show ?case by (cases i) (simp_all add: ac_simps)
qed simp

lemma length_ring_view [simp]: "length (ring_view xs start n) = n"
  by (simp add: ring_view_def)

lemma ring_view_0 [simp]: "ring_view xs start 0 = []"
  by (simp add: ring_view_def)

lemma mod_add_neq:
  assumes "i < n" "n < (m :: nat)"
  shows "(start + i) mod m \<noteq> (start + n) mod m"
proof
  assume "(start + i) mod m = (start + n) mod m"
  then have "m dvd (start + n) - (start + i)"
    using assms(1) mod_eq_dvd_iff_nat [of "start + i" "start + n" m] by simp
  then have "m \<le> n - i" using assms(1) by (intro dvd_imp_le) auto
  with assms show False by simp
qed

lemma ring_view_push:
  assumes "n < length xs"
  shows "ring_view (xs[(start + n) mod length xs := x]) start (Suc n) = ring_view xs start n @ [x]"
proof -
  have "map (\<lambda>i. xs[(start + n) mod length xs := x] ! ((start + i) mod length xs)) [0 ..< n] = ring_view xs start n"
    unfolding ring_view_def by (rule map_cong) (simp_all add: mod_add_neq [OF _ assms, symmetric])
  moreover have "0 < length xs" using assms by linarith
  ultimately show ?thesis by (simp add: ring_view_def)
qed

lemma ring_view_Suc: "ring_view xs start (Suc n) = xs ! (start mod length xs) # ring_view xs (Suc start) n"
  by (simp add: ring_view_def upt_conv_Cons map_Suc_upt [symmetric] del: upt_Suc)

lemma ring_view_start_mod: "ring_view xs (start mod length xs) n = ring_view xs start n"
  by (simp add: ring_view_def mod_add_left_eq)

section \<open>Lemmas on lists\<close>

lemma length_blit [simp]: "off + length src \<le> length dst \<Longrightarrow> length (blit dst off src) = length dst"
  by (simp add: blit_def)

lemma nth_blit:
  assumes "off + length src \<le> length dst"
  shows "blit dst off src ! i =
    (if off \<le> i \<and> i < off + length src then src ! (i - off) else dst ! i)"
proof -
  have len: "length (take off dst) = off" using assms by simp
  show ?thesis
  proof (cases "i < off")
    case True
    then show ?thesis using len by (simp add: blit_def nth_append)
  next
    case False
    then show ?thesis
      using assms len by (auto simp: blit_def nth_append)
  qed
qed

lemma take_blit_same [simp]:
  "off + length src \<le> length dst \<Longrightarrow> take (length src) (drop off (blit dst off src)) = src"
  by (simp add: blit_def)

lemma blit_0: "blit dst 0 src = src @ drop (length src) dst"
  by (simp add: blit_def)

lemma blit_same: "off + n \<le> length dst \<Longrightarrow> blit dst off (take n (drop off dst)) = dst"
  by (rule nth_equalityI) (auto simp: nth_blit)

lemma last_butlast_mset: "xs \<noteq> [] \<Longrightarrow> mset xs = add_mset (last xs) (mset (butlast xs))"
  by (cases xs rule: rev_cases) auto

lemma distinct_mset_subset:
  assumes "mset xs \<subseteq># mset ys" "distinct ys"
  shows "distinct xs"
proof -
  have "count (mset xs) a \<le> 1" for a
  proof -
    have "count (mset ys) a \<le> 1" using assms(2) by (metis distinct_count_atmost_1 order_refl zero_le_one)
    with mset_subset_eq_count [OF assms(1), of a] show ?thesis by simp
  qed
  then have "count (mset xs) a = (if a \<in> set xs then 1 else 0)" for a
    by (metis One_nat_def count_mset_0_iff le_neq_implies_less less_one)
  then show ?thesis by (simp add: distinct_count_atmost_1)
qed

lemma find_SomeD: "find P xs = Some x \<Longrightarrow> x \<in> set xs \<and> P x"
  by (induction xs) (auto split: if_splits)

lemma find_None_conv: "find P xs = None \<longleftrightarrow> (\<forall>x \<in> set xs. \<not> P x)"
  by (induction xs) auto

section \<open>Lemmas on words\<close>

lemma word_odd_mult_inj:
  fixes a :: "'a::len word"
  assumes "b * a = 1"
  shows "x * a = y * a \<longleftrightarrow> x = y" and "a * x = a * y \<longleftrightarrow> x = y"
proof -
  have right: "z * a * b = z" for z
    using assms by (metis mult.assoc mult.commute mult.right_neutral)
  show "x * a = y * a \<longleftrightarrow> x = y"
    using right by metis
  then show "a * x = a * y \<longleftrightarrow> x = y"
    by (simp add: mult.commute)
qed

lemma word_rotl_inj [simp]: "word_rotl n x = word_rotl n y \<longleftrightarrow> x = y"
  by (metis word_rot_lr)

lemma word_xor_left_inj [simp]: "(x XOR a = y XOR a) \<longleftrightarrow> x = (y :: 'a::len word)"
  by (metis xor.assoc xor.right_neutral xor_self_eq)

lemma word_xor_right_inj [simp]: "(a XOR x = a XOR y) \<longleftrightarrow> x = (y :: 'a::len word)"
  by (metis word_xor_left_inj xor.commute)

lemma word_le_max [simp]: "(x :: u64) \<le> U64_MAX"
  by (simp add: word_le_nat_alt) (use unsigned_less [of x, where ?'a = nat] in simp)

lemma unat_u64_le_max [simp]: "unat (x :: u64) \<le> SIZE_MAX"
  using unsigned_less [of x, where ?'a = nat] by simp

lemma unat_U64_MAX: "unat U64_MAX = 18446744073709551615"
  by simp

lemma unat_of_nat_u64: "n \<le> SIZE_MAX \<Longrightarrow> unat (of_nat n :: u64) = n"
  by (simp add: unat_of_nat)

lemma unat_max_minus: "unat (U64_MAX - x) = SIZE_MAX - unat (x :: u64)"
  by (simp add: unat_sub)

lemma unat_add_no_overflow:
  "unat (a :: u64) + unat b \<le> SIZE_MAX \<Longrightarrow> unat (a + b) = unat a + unat b"
  by (simp add: unat_word_ariths)

lemma unat_mult_no_overflow:
  "unat (a :: u64) * unat b \<le> SIZE_MAX \<Longrightarrow> unat (a * b) = unat a * unat b"
  by (simp add: unat_word_ariths)

section \<open>Interfaces\<close>

text \<open>An inductive invariant holds in every reachable state.\<close>

locale inductive_invariant =
  fixes init :: "'s \<Rightarrow> bool" and step :: "'s \<Rightarrow> 's \<Rightarrow> bool" and inv :: "'s \<Rightarrow> bool"
  assumes init_inv: "init s \<Longrightarrow> inv s"
    and step_inv: "step s t \<Longrightarrow> inv s \<Longrightarrow> inv t"
begin

lemma reach_inv: "reach init step s \<Longrightarrow> inv s"
  by (induction rule: reach.induct) (auto intro: init_inv step_inv)

end

text \<open>
  A bounded buffer. \<open>accepts\<close> says which elements the buffer can hold at all (the source
  refuses an invalid event and an oversized payload); \<open>contents\<close> is the abstraction to a
  list, oldest element first.
\<close>

locale bounded_fifo =
  fixes push :: "'a \<Rightarrow> 'q \<Rightarrow> bool \<times> 'q"
    and pop :: "'q \<Rightarrow> 'a option \<times> 'q"
    and contents :: "'q \<Rightarrow> 'a list"
    and capacity :: "'q \<Rightarrow> nat"
    and accepts :: "'q \<Rightarrow> 'a \<Rightarrow> bool"
    and invar :: "'q \<Rightarrow> bool"
  assumes bounded: "invar q \<Longrightarrow> length (contents q) \<le> capacity q"
    and push_invar: "invar q \<Longrightarrow> invar (snd (push x q))"
    and push_capacity: "invar q \<Longrightarrow> capacity (snd (push x q)) = capacity q"
    and push_ok: "invar q \<Longrightarrow>
      fst (push x q) \<longleftrightarrow> accepts q x \<and> length (contents q) < capacity q"
    and push_contents: "invar q \<Longrightarrow>
      contents (snd (push x q)) = (if fst (push x q) then contents q @ [x] else contents q)"
    and pop_invar: "invar q \<Longrightarrow> invar (snd (pop q))"
    and pop_capacity: "invar q \<Longrightarrow> capacity (snd (pop q)) = capacity q"
    and pop_result: "invar q \<Longrightarrow>
      fst (pop q) = (case contents q of [] \<Rightarrow> None | x # xs \<Rightarrow> Some x)"
    and pop_contents: "invar q \<Longrightarrow> contents (snd (pop q)) = tl (contents q)"
begin

text \<open>
  First in, first out, without loss or duplication: what was delivered followed by what is
  still buffered is what was buffered followed by what was accepted.
\<close>

lemma fifo_order:
  assumes "invar q" and "fifo_run push pop ops q = (acc, out, q')"
  shows "out @ contents q' = contents q @ acc \<and> invar q' \<and> capacity q' = capacity q"
  using assms
proof (induction ops arbitrary: q acc out)
  case Nil
  then show ?case by simp
next
  case (Cons op ops)
  show ?case
  proof (cases op)
    case (Push x)
    obtain acc1 out1 q1 where run: "fifo_run push pop ops (snd (push x q)) = (acc1, out1, q1)"
      by (metis prod_cases3)
    have eqs: "q1 = q'" "out1 = out" "acc = (if fst (push x q) then x # acc1 else acc1)"
      using Cons.prems(2) run Push by (auto simp: Let_def split_def)
    from Cons.IH [OF push_invar [OF Cons.prems(1)] run [unfolded eqs(1)]]
      push_contents [OF Cons.prems(1)] push_capacity [OF Cons.prems(1)]
    show ?thesis by (auto simp: eqs)
  next
    case Pop
    obtain acc1 out1 q1 where run: "fifo_run push pop ops (snd (pop q)) = (acc1, out1, q1)"
      by (metis prod_cases3)
    have eqs: "q1 = q'" "acc1 = acc"
      "out = (case fst (pop q) of None \<Rightarrow> out1 | Some y \<Rightarrow> y # out1)"
      using Cons.prems(2) run Pop by (auto simp: Let_def split_def split: option.splits)
    from Cons.IH [OF pop_invar [OF Cons.prems(1)] run [unfolded eqs(1)]] eqs pop_contents [OF Cons.prems(1)]
      pop_result [OF Cons.prems(1)] pop_capacity [OF Cons.prems(1)]
    show ?thesis by (cases "contents q") auto
  qed
qed

lemma fifo_delivers_prefix:
  assumes "invar q" and "contents q = []" and "fifo_run push pop ops q = (acc, out, q')"
  shows "out = take (length out) acc"
  using fifo_order [OF assms(1,3)] assms(2) by (metis append_eq_conv_conj append_Nil)

end

end
