(* ===== verification/Byte_Codec.thy ===== *)
theory Byte_Codec
  imports FE_Prelude
begin

text \<open>
  The little-endian byte codecs: \<open>write_le\<close> and \<open>read_le\<close> of core/protocol/byte_codec.h and
  the bounded cursors \<open>StateWriter\<close> and \<open>StateReader\<close> of relay/jobs/state_codec.h.

  A template over \<open>std::integral\<close> is a function on \<open>'a::len word\<close>: \<open>sizeof(Integer)\<close> is
  \<open>LENGTH('a) div 8\<close> and a signed integer is its two's complement bit pattern, which is what
  the source casts to before it shifts. A \<open>std::span\<close> of bytes is a byte list. A span
  accessed out of range is undefined behaviour in the source: the callers check the range
  first, and every lemma below carries that range as its hypothesis.
\<close>

section \<open>core/protocol/byte_codec.h\<close>

definition le_byte :: "'a::len word \<Rightarrow> nat \<Rightarrow> byte" where
  "le_byte bits index = ucast (drop_bit (index * 8) bits AND 0xff)"

definition write_le :: "byte list \<Rightarrow> nat \<Rightarrow> 'a::len word \<Rightarrow> byte list" where
  "write_le destination offset bits =
     fold (\<lambda>index d. d[offset + index := le_byte bits index]) [0..<LENGTH('a) div 8] destination"

definition read_le :: "byte list \<Rightarrow> nat \<Rightarrow> 'a::len word" where
  "read_le source offset =
     fold (\<lambda>index v. v OR push_bit (index * 8) (ucast (source ! (offset + index))))
       [0..<LENGTH('a) div 8] 0"

section \<open>relay/jobs/state_codec.h\<close>

datatype StateCodecError = StateCodecError_kTruncated

record StateWriter =
  sw_destination :: "byte list"
  sw_position :: nat

definition sw_remaining :: "StateWriter \<Rightarrow> nat" where
  "sw_remaining w = length (sw_destination w) - sw_position w"

definition sw_write :: "StateWriter \<Rightarrow> 'a::len word \<Rightarrow> bool \<times> StateWriter" where
  "sw_write w bits =
     (if sw_remaining w < LENGTH('a) div 8 then (False, w)
      else (True, w\<lparr>sw_destination := write_le (sw_destination w) (sw_position w) bits,
                     sw_position := sw_position w + LENGTH('a) div 8\<rparr>))"

definition sw_write_float :: "StateWriter \<Rightarrow> u32 \<Rightarrow> bool \<times> StateWriter" where
  "sw_write_float w bits = sw_write w bits"

definition sw_write_bytes :: "StateWriter \<Rightarrow> byte list \<Rightarrow> bool \<times> StateWriter" where
  "sw_write_bytes w bytes =
     (if length bytes > sw_remaining w then (False, w)
      else (True, fold (\<lambda>b w'. w'\<lparr>sw_destination := (sw_destination w')[sw_position w' := b],
                                  sw_position := Suc (sw_position w')\<rparr>) bytes w))"

record StateReader =
  sr_source :: "byte list"
  sr_position :: nat

definition sr_remaining :: "StateReader \<Rightarrow> nat" where
  "sr_remaining r = length (sr_source r) - sr_position r"

definition sr_read :: "StateReader \<Rightarrow> (StateCodecError + 'a::len word) \<times> StateReader" where
  "sr_read r =
     (if sr_remaining r < LENGTH('a) div 8 then (Inl StateCodecError_kTruncated, r)
      else (Inr (read_le (sr_source r) (sr_position r)),
            r\<lparr>sr_position := sr_position r + LENGTH('a) div 8\<rparr>))"

definition sr_read_float :: "StateReader \<Rightarrow> (StateCodecError + u32) \<times> StateReader" where
  "sr_read_float r = sr_read r"

definition sr_read_bytes :: "StateReader \<Rightarrow> nat \<Rightarrow> (StateCodecError + byte list) \<times> StateReader" where
  "sr_read_bytes r bytes =
     (if bytes > sr_remaining r then (Inl StateCodecError_kTruncated, r)
      else (Inr (take bytes (drop (sr_position r) (sr_source r))),
            r\<lparr>sr_position := sr_position r + bytes\<rparr>))"

definition sw_wf :: "StateWriter \<Rightarrow> bool" where
  "sw_wf w \<longleftrightarrow> sw_position w \<le> length (sw_destination w)"

section \<open>Writing is a block copy of the little-endian bytes\<close>

definition le_bytes :: "'a::len word \<Rightarrow> byte list" where
  "le_bytes w = map (le_byte w) [0..<LENGTH('a) div 8]"

lemma length_le_bytes [simp]: "length (le_bytes (w :: 'a::len word)) = LENGTH('a) div 8"
  by (simp add: le_bytes_def)

lemma fold_update_blit:
  "off + n \<le> length d \<Longrightarrow>
    fold (\<lambda>i d. d[off + i := f i]) [0..<n] d = blit d off (map f [0..<n])"
proof (induction n)
  case 0
  then show ?case by (simp add: blit_def)
next
  case (Suc n)
  then have "fold (\<lambda>i d. d[off + i := f i]) [0..<Suc n] d =
      (blit d off (map f [0..<n]))[off + n := f n]"
    by simp
  also have "\<dots> = blit d off (map f [0..<Suc n])"
    using Suc.prems by (intro nth_equalityI) (auto simp: nth_blit nth_list_update nth_append)
  finally show ?case .
qed

lemma write_le_blit:
  fixes w :: "'a::len word"
  assumes "off + LENGTH('a) div 8 \<le> length d"
  shows "write_le d off w = blit d off (le_bytes w)"
  using fold_update_blit [OF assms] by (simp add: write_le_def le_bytes_def)

lemma length_write_le [simp]: "length (write_le d off w) = length d"
proof -
  have "length (fold (\<lambda>i d. d[off + i := f i]) xs d) = length d" for f :: "nat \<Rightarrow> byte" and xs d
    by (induction xs arbitrary: d) auto
  then show ?thesis by (simp add: write_le_def)
qed

lemma nth_write_le:
  fixes w :: "'a::len word"
  assumes "off + LENGTH('a) div 8 \<le> length d"
  shows "write_le d off w ! k =
    (if off \<le> k \<and> k < off + LENGTH('a) div 8 then le_byte w (k - off) else d ! k)"
  using assms by (auto simp: write_le_blit nth_blit le_bytes_def)

section \<open>Reading inverts writing\<close>

lemma bit_le_byte: "bit (le_byte w i) k \<longleftrightarrow> k < 8 \<and> bit w (i * 8 + k)"
proof -
  have "bit (0xff :: 'b::len word) k \<longleftrightarrow> k < 8 \<and> k < LENGTH('b)"
  proof -
    have "(0xff :: 'b word) = mask 8" by (simp add: mask_eq_exp_minus_1)
    then show ?thesis by (auto simp only: bit_mask_iff possible_bit_word)
  qed
  then show ?thesis
    by (auto simp: le_byte_def bit_ucast_iff bit_and_iff bit_drop_bit_eq dest: bit_imp_le_length)
qed

lemma bit_fold_or:
  "bit (fold (\<lambda>i v. v OR f i) xs v0) k \<longleftrightarrow> bit v0 k \<or> (\<exists>i \<in> set xs. bit (f i :: 'a::len word) k)"
  by (induction xs arbitrary: v0) (auto simp: bit_or_iff)

lemma bit_read_le:
  "bit (read_le s off :: 'a::len word) k \<longleftrightarrow>
    k div 8 < LENGTH('a) div 8 \<and> bit (s ! (off + k div 8)) (k mod 8)"
    (is "?l \<longleftrightarrow> ?r")
proof -
  let ?byte = "\<lambda>i. push_bit (i * 8) (ucast (s ! (off + i)) :: 'a word)"
  have l: "?l \<longleftrightarrow> (\<exists>i < LENGTH('a) div 8. bit (?byte i) k)"
    by (auto simp: read_le_def bit_fold_or)
  have b: "bit (?byte i) k \<longleftrightarrow> i * 8 \<le> k \<and> k < LENGTH('a) \<and> bit (s ! (off + i)) (k - i * 8)" for i
    by (simp only: bit_push_bit_iff bit_ucast_iff possible_bit_word) auto
  have unique: "i = k div 8" "k - i * 8 = k mod 8" if "bit (?byte i) k" for i
  proof -
    from that b have "i * 8 \<le> k" "bit (s ! (off + i)) (k - i * 8)" by blast+
    moreover from this(2) have "k - i * 8 < 8" by (auto dest: bit_imp_le_length)
    ultimately obtain r where "k = i * 8 + r" "r < 8" by (metis le_add_diff_inverse)
    then show "i = k div 8" "k - i * 8 = k mod 8" by auto
  qed
  show ?thesis
  proof
    assume ?l
    with l obtain i where i: "i < LENGTH('a) div 8" "bit (?byte i) k" by blast
    with unique [OF i(2)] b [of i] show ?r by simp
  next
    assume r: ?r
    have "k div 8 * 8 \<le> k" "k - k div 8 * 8 = k mod 8"
      by (simp_all add: minus_div_mult_eq_mod)
    moreover have "k < LENGTH('a)" using r by (metis div_le_mono leD not_less)
    ultimately have "bit (?byte (k div 8)) k" using r b by simp
    with l r show ?l by blast
  qed
qed

lemma read_le_cong:
  assumes "\<And>i. i < LENGTH('a) div 8 \<Longrightarrow> s ! (off + i) = s' ! (off' + i)"
  shows "(read_le s off :: 'a::len word) = read_le s' off'"
  by (rule bit_word_eqI) (use assms in \<open>auto simp: bit_read_le\<close>)

lemma read_write_le_same:
  fixes w :: "'a::len word"
  assumes "off + LENGTH('a) div 8 \<le> length d" and "8 dvd LENGTH('a)"
  shows "read_le (write_le d off w) off = w"
proof (rule bit_word_eqI)
  fix k
  assume k: "k < LENGTH('a)"
  with assms(2) have "k div 8 < LENGTH('a) div 8" by auto
  moreover have "k div 8 * 8 + k mod 8 = k" by simp
  ultimately show "bit (read_le (write_le d off w) off :: 'a word) k \<longleftrightarrow> bit w k"
    using assms(1) by (simp add: bit_read_le nth_write_le bit_le_byte)
qed

lemma read_write_le_other:
  fixes w :: "'a::len word"
  assumes "off + LENGTH('a) div 8 \<le> length d"
    and "off + LENGTH('a) div 8 \<le> off' \<or> off' + LENGTH('b) div 8 \<le> off"
  shows "(read_le (write_le d off w) off' :: 'b::len word) = read_le d off'"
  by (rule read_le_cong) (use assms in \<open>auto simp: nth_write_le\<close>)

text \<open>The bytes of a value that was read are the bytes of the buffer.\<close>

lemma le_byte_read_le:
  assumes "i < LENGTH('a) div 8"
  shows "le_byte (read_le s off :: 'a::len word) i = s ! (off + i)"
proof (rule bit_word_eqI)
  fix k :: nat
  assume k: "k < LENGTH(8)"
  have "(i * 8 + k) div 8 = i" "(i * 8 + k) mod 8 = k" using k by simp_all
  with assms k show "bit (le_byte (read_le s off :: 'a word) i) k \<longleftrightarrow> bit (s ! (off + i)) k"
    by (simp add: bit_le_byte bit_read_le)
qed

lemma read_le_le_bytes:
  fixes w :: "'a::len word"
  assumes "8 dvd LENGTH('a)" and "take (LENGTH('a) div 8) (drop off s) = le_bytes w"
    and "off + LENGTH('a) div 8 \<le> length s"
  shows "read_le s off = w"
proof -
  have "s ! (off + i) = write_le (replicate (LENGTH('a) div 8) 0) 0 w ! (0 + i)"
    if "i < LENGTH('a) div 8" for i
  proof -
    have "s ! (off + i) = take (LENGTH('a) div 8) (drop off s) ! i"
      using that assms(3) by simp
    then show ?thesis using that assms(2) by (simp add: nth_write_le le_bytes_def)
  qed
  then have "(read_le s off :: 'a word) = read_le (write_le (replicate (LENGTH('a) div 8) 0) 0 w) 0"
    by (rule read_le_cong)
  then show ?thesis using assms(1) by (simp add: read_write_le_same)
qed

lemma le_bytes_inj:
  assumes "8 dvd LENGTH('a)" and "le_bytes (v :: 'a::len word) = le_bytes w"
  shows "v = w"
proof -
  have reread: "read_le (le_bytes u) 0 = u" for u :: "'a word"
    by (rule read_le_le_bytes [OF assms(1)]) (simp_all only: drop_0 length_le_bytes take_all order_refl add_0)
  show ?thesis by (metis reread assms(2))
qed

section \<open>Rebuilding a buffer field by field\<close>

text \<open>
  If a buffer under construction already agrees with \<open>s\<close> up to offset \<open>k\<close>, writing the
  field that \<open>s\<close> holds at \<open>k\<close> extends the agreement over that field.
\<close>

lemma take_blit_extend:
  assumes "take k d = take k s" "k + length b \<le> length d" "k + length b \<le> length s"
    and "take (length b) (drop k s) = b"
  shows "take (k + length b) (blit d k b) = take (k + length b) s"
proof -
  have "take (k + length b) (blit d k b) = take k s @ b"
    using assms(1,2,3) by (simp add: blit_def)
  also have "\<dots> = take (k + length b) s"
    using assms(4) by (simp add: take_add)
  finally show ?thesis .
qed

lemma take_write_le_extend:
  fixes w :: "'a::len word"
  assumes "take k d = take k s" "k + LENGTH('a) div 8 \<le> length d" "k + LENGTH('a) div 8 \<le> length s"
    and "w = read_le s k"
  shows "take (k + LENGTH('a) div 8) (write_le d k w) = take (k + LENGTH('a) div 8) s"
proof -
  have "take (LENGTH('a) div 8) (drop k s) = le_bytes w"
    by (rule nth_equalityI) (use assms(3,4) in \<open>auto simp: le_bytes_def le_byte_read_le\<close>)
  then show ?thesis
    using take_blit_extend [of k d s "le_bytes w"] assms(1-3) by (simp add: write_le_blit)
qed

lemma take_blit_extendI:
  "take k d = take k s \<Longrightarrow> m = k + length b \<Longrightarrow> m \<le> length d \<Longrightarrow> m \<le> length s \<Longrightarrow>
    take (length b) (drop k s) = b \<Longrightarrow> take m (blit d k b) = take m s"
  using take_blit_extend by blast

lemma take_write_le_extendI:
  fixes w :: "'a::len word"
  shows "take k d = take k s \<Longrightarrow> m = k + LENGTH('a) div 8 \<Longrightarrow> m \<le> length d \<Longrightarrow> m \<le> length s \<Longrightarrow>
    w = read_le s k \<Longrightarrow> take m (write_le d k w) = take m s"
  using take_write_le_extend by blast

lemma read_le_blit_other:
  assumes "off + length b \<le> length d"
    and "off + length b \<le> off' \<or> off' + LENGTH('a) div 8 \<le> off"
  shows "(read_le (blit d off b) off' :: 'a::len word) = read_le d off'"
  by (rule read_le_cong) (use assms in \<open>auto simp: nth_blit\<close>)

lemma take_drop_write_le_other:
  fixes w :: "'a::len word"
  assumes "off + LENGTH('a) div 8 \<le> length d"
    and "off + LENGTH('a) div 8 \<le> k \<or> k + n \<le> off"
  shows "take n (drop k (write_le d off w)) = take n (drop k d)"
  by (rule nth_equalityI) (use assms in \<open>auto simp: nth_write_le\<close>)

lemma take_drop_blit_other:
  assumes "off + length b \<le> length d" and "off + length b \<le> k \<or> k + n \<le> off"
  shows "take n (drop k (blit d off b)) = take n (drop k d)"
  by (rule nth_equalityI) (use assms in \<open>auto simp: nth_blit\<close>)

lemmas take_write_le_other = take_drop_write_le_other [where k = 0, simplified]
lemmas take_blit_other = take_drop_blit_other [where k = 0, simplified]

lemma fold_bytes_blit:
  "off + n \<le> length d \<Longrightarrow> length bs = n \<Longrightarrow>
    fold (\<lambda>i d. d[off + i := bs ! i]) [0..<n] d = blit d off bs"
  using fold_update_blit [of off "length bs" d "(!) bs"] by (auto simp: map_nth)

lemma take_blit_same_0: "length src = n \<Longrightarrow> take n (blit dst 0 src) = src"
  by (simp add: blit_0)

lemma take_drop_blit_same:
  "off + n \<le> length dst \<Longrightarrow> length src = n \<Longrightarrow> take n (drop off (blit dst off src)) = src"
  by auto

lemmas header_read_simps = fold_bytes_blit read_write_le_same read_write_le_other
  read_le_blit_other take_write_le_other take_blit_other take_drop_write_le_other take_drop_blit_other
  take_blit_same_0 take_drop_blit_same

lemma map_nth_slice: "k + n \<le> length s \<Longrightarrow> map (\<lambda>i. s ! (k + i)) [0..<n] = take n (drop k s)"
  by (rule nth_equalityI) auto

lemma write_le_append:
  fixes w :: "'a::len word"
  assumes "off + LENGTH('a) div 8 \<le> length d"
  shows "write_le (d @ e) off w = write_le d off w @ e"
  using assms by (simp add: write_le_blit blit_def)

lemma blit_append: "off + length b \<le> length d \<Longrightarrow> blit (d @ e) off b = blit d off b @ e"
  by (simp add: blit_def)

section \<open>The bounded cursors\<close>

lemma fold_write_bytes:
  "sw_position w + length bs \<le> length (sw_destination w) \<Longrightarrow>
   fold (\<lambda>b w'. w'\<lparr>sw_destination := (sw_destination w')[sw_position w' := b],
                   sw_position := Suc (sw_position w')\<rparr>) bs w
   = w\<lparr>sw_destination := blit (sw_destination w) (sw_position w) bs,
       sw_position := sw_position w + length bs\<rparr>"
proof (induction bs arbitrary: w)
  case Nil
  then show ?case by (simp add: blit_def)
next
  case (Cons b bs)
  let ?w = "w\<lparr>sw_destination := (sw_destination w)[sw_position w := b], sw_position := Suc (sw_position w)\<rparr>"
  have "blit ((sw_destination w)[sw_position w := b]) (Suc (sw_position w)) bs
      = blit (sw_destination w) (sw_position w) (b # bs)"
    using Cons.prems by (intro nth_equalityI) (auto simp: nth_blit nth_list_update nth_Cons')
  with Cons.IH [of ?w] Cons.prems show ?case by simp
qed

lemma sw_write_wf: "sw_wf w \<Longrightarrow> sw_wf (snd (sw_write w v))"
  by (auto simp: sw_wf_def sw_write_def sw_remaining_def)

lemma sw_write_bytes_wf: "sw_wf w \<Longrightarrow> sw_wf (snd (sw_write_bytes w bs))"
  by (auto simp: sw_wf_def sw_write_bytes_def sw_remaining_def fold_write_bytes)

lemma sr_read_after_sw_write:
  fixes v :: "'a::len word"
  assumes "sw_wf w" "sw_write w v = (True, w')" "8 dvd LENGTH('a)"
  shows "sr_read \<lparr>sr_source = sw_destination w', sr_position = sw_position w\<rparr> =
    (Inr v, \<lparr>sr_source = sw_destination w', sr_position = sw_position w'\<rparr>)"
  using assms
  by (auto simp: sw_write_def sr_read_def sw_remaining_def sr_remaining_def sw_wf_def
      read_write_le_same split: if_splits)

lemma sr_read_bytes_after_sw_write_bytes:
  assumes "sw_wf w" "sw_write_bytes w bs = (True, w')"
  shows "sr_read_bytes \<lparr>sr_source = sw_destination w', sr_position = sw_position w\<rparr> (length bs) =
    (Inr bs, \<lparr>sr_source = sw_destination w', sr_position = sw_position w'\<rparr>)"
  using assms
  by (auto simp: sw_write_bytes_def sr_read_bytes_def sw_remaining_def sr_remaining_def sw_wf_def
      fold_write_bytes split: if_splits)

end
