(* ===== verification/Model_Identity.thy ===== *)
theory Model_Identity
  imports Byte_Codec
begin

text \<open>
  core/protocol/model_identity.{h,cc}: the 128-bit content fingerprints used for model
  compatibility, replay and corruption detection, together with the \<open>TensorView\<close> of
  core/loader/safetensors.h and the protocol constants of core/protocol/contracts.h that they
  read. A \<open>const std::byte*\<close> cursor with its end pointer is the list of bytes that remain.

  Every mixing step of the hash is a bijection of the accumulator and, for a fixed
  accumulator, injective in the word it absorbs. The lemmas derive from that which single
  changes the fingerprint is certain to notice.
\<close>

section \<open>Constants of core/protocol/contracts.h\<close>

definition FE_PROTOCOL_VERSION :: u32 where [wire_simps]: "FE_PROTOCOL_VERSION = 1"
definition FE_MODEL_DIGEST_BYTES :: nat where [wire_simps]: "FE_MODEL_DIGEST_BYTES = 16"

definition FE_PRECISION_UNKNOWN :: u32 where [enum_simps]: "FE_PRECISION_UNKNOWN = 0"
definition FE_PRECISION_F32 :: u32 where [enum_simps]: "FE_PRECISION_F32 = 1"
definition FE_PRECISION_BF16 :: u32 where [enum_simps]: "FE_PRECISION_BF16 = 2"
definition FE_PRECISION_MIXED :: u32 where [enum_simps]: "FE_PRECISION_MIXED = 3"

type_synonym ModelDigest = "u8 list"

record ModelIdentity =
  mi_digest :: ModelDigest
  mi_architecture :: u32
  mi_precision :: u32
  mi_d_model :: u64
  mi_n_layers :: u64
  mi_d_inner :: u64
  mi_d_state :: u64
  mi_d_conv :: u64
  mi_action_dim :: u64
  mi_condition_dim :: u64

section \<open>core/loader/safetensors.h: TensorView\<close>

datatype Dtype = F32 | BF16 | INT8 | Unsupported

fun dtype_code :: "Dtype \<Rightarrow> u8" where
  "dtype_code F32 = 0"
| "dtype_code BF16 = 1"
| "dtype_code INT8 = 2"
| "dtype_code Unsupported = 3"

text \<open>\<open>tv_data\<close> is the block of \<open>bytes\<close> bytes that the data pointer refers to.\<close>

record TensorView =
  tv_data :: "byte list"
  tv_dtype :: Dtype
  tv_shape :: "u64 list"
  tv_name :: "byte list"
  tv_ndim :: u8

definition tv_bytes :: "TensorView \<Rightarrow> u64" where
  "tv_bytes t = of_nat (length (tv_data t))"

definition name_view :: "TensorView \<Rightarrow> byte list" where
  "name_view t = takeWhile (\<lambda>c. c \<noteq> 0) (tv_name t)"

definition find_tensor :: "TensorView list \<Rightarrow> byte list \<Rightarrow> TensorView option" where
  "find_tensor ts name = find (\<lambda>t. name_view t = name) ts"

section \<open>core/protocol/model_identity.cc\<close>

definition kPrime1 :: u64 where "kPrime1 = 11400714785074694791"
definition kPrime2 :: u64 where "kPrime2 = 14029467366897019727"
definition kPrime3 :: u64 where "kPrime3 = 1609587929392839161"
definition kPrime4 :: u64 where "kPrime4 = 9650029242287828579"
definition kPrime5 :: u64 where "kPrime5 = 2870177450012600261"

definition read_u64 :: "byte list \<Rightarrow> u64" where
  "read_u64 source = read_le source 0"

definition read_u32 :: "byte list \<Rightarrow> u32" where
  "read_u32 source = read_le source 0"

definition hash_round :: "u64 \<Rightarrow> u64 \<Rightarrow> u64" where
  "hash_round accumulator input = word_rotl 31 (accumulator + input * kPrime2) * kPrime1"

definition avalanche :: "u64 \<Rightarrow> u64" where
  "avalanche v0 =
     (let v1 = v0 XOR drop_bit 33 v0;
          v2 = v1 * kPrime2;
          v3 = v2 XOR drop_bit 29 v2;
          v4 = v3 * kPrime3
      in v4 XOR drop_bit 32 v4)"

text \<open>The loop over 32-byte blocks: four lanes and the remaining bytes.\<close>

fun hash_blocks :: "u64 \<times> u64 \<times> u64 \<times> u64 \<Rightarrow> byte list \<Rightarrow> (u64 \<times> u64 \<times> u64 \<times> u64) \<times> byte list" where
  "hash_blocks (lane1, lane2, lane3, lane4) cursor =
     (if length cursor < 32 then ((lane1, lane2, lane3, lane4), cursor)
      else hash_blocks
        (hash_round lane1 (read_u64 cursor),
         hash_round lane2 (read_u64 (drop 8 cursor)),
         hash_round lane3 (read_u64 (drop 16 cursor)),
         hash_round lane4 (read_u64 (drop 24 cursor)))
        (drop 32 cursor))"

definition hash_merge :: "u64 \<times> u64 \<times> u64 \<times> u64 \<Rightarrow> u64" where
  "hash_merge lanes = (case lanes of (lane1, lane2, lane3, lane4) \<Rightarrow>
     fold (\<lambda>lane hash. (hash XOR hash_round 0 lane) * kPrime1 + kPrime4)
       [lane1, lane2, lane3, lane4]
       (word_rotl 1 lane1 + word_rotl 7 lane2 + word_rotl 12 lane3 + word_rotl 18 lane4))"

fun hash_words :: "u64 \<Rightarrow> byte list \<Rightarrow> u64 \<times> byte list" where
  "hash_words hash cursor =
     (if length cursor < 8 then (hash, cursor)
      else hash_words
        (word_rotl 27 (hash XOR hash_round 0 (read_u64 cursor)) * kPrime1 + kPrime4)
        (drop 8 cursor))"

definition hash_half :: "u64 \<Rightarrow> byte list \<Rightarrow> u64 \<times> byte list" where
  "hash_half hash cursor =
     (if length cursor < 4 then (hash, cursor)
      else (word_rotl 23 (hash XOR ucast (read_u32 cursor) * kPrime1) * kPrime2 + kPrime3,
            drop 4 cursor))"

fun hash_tail :: "u64 \<Rightarrow> byte list \<Rightarrow> u64" where
  "hash_tail hash [] = hash"
| "hash_tail hash (b # cursor) = hash_tail (word_rotl 11 (hash XOR ucast b * kPrime5) * kPrime1) cursor"

definition hash64 :: "byte list \<Rightarrow> u64 \<Rightarrow> u64" where
  "hash64 bytes seed =
     (if bytes = [] then avalanche (seed + kPrime5)
      else
        let (hash0, cursor0) =
              (if length bytes \<ge> 32
               then (case hash_blocks (seed + kPrime1 + kPrime2, seed + kPrime2, seed, seed - kPrime1) bytes
                     of (lanes, cursor) \<Rightarrow> (hash_merge lanes, cursor))
               else (seed + kPrime5, bytes));
            (hash1, cursor1) = hash_words (hash0 + of_nat (length bytes)) cursor0;
            (hash2, cursor2) = hash_half hash1 cursor1
        in avalanche (hash_tail hash2 cursor2))"

definition combine :: "u64 \<Rightarrow> u64 \<Rightarrow> u64" where
  "combine accumulator v = word_rotl 27 (accumulator XOR hash_round 0 v) * kPrime1 + kPrime4"

definition make_digest :: "u64 \<Rightarrow> u64 \<Rightarrow> ModelDigest" where
  "make_digest first second =
     map (\<lambda>i. ucast (drop_bit (8 * i) first)) [0..<8] @
     map (\<lambda>i. ucast (drop_bit (8 * i) second)) [0..<8]"

definition fingerprint_bytes :: "byte list \<Rightarrow> ModelDigest" where
  "fingerprint_bytes bytes =
     (let first = hash64 bytes 0x243f6a8885a308d3;
          second = avalanche (first XOR of_nat (length bytes) XOR 0x13198a2e03707344)
      in make_digest first second)"

text \<open>The 64-bit checksum that the ring and the snapshot keep of a fingerprint.\<close>

definition checksum64 :: "byte list \<Rightarrow> u64" where
  "checksum64 payload =
     (let digest = fingerprint_bytes payload
      in fold (\<lambda>i v. v OR push_bit (8 * i) (ucast (digest ! i))) [0..<8] 0)"

definition tensor_step :: "TensorView \<Rightarrow> u64 \<times> u64 \<Rightarrow> u64 \<times> u64" where
  "tensor_step tensor acc =
     (let (first, second) = acc;
          name_hash = hash64 (name_view tensor) kPrime3;
          first = combine first name_hash;
          second = combine second (word_rotl 17 name_hash);
          format = ucast (dtype_code (tv_dtype tensor)) OR push_bit 8 (ucast (tv_ndim tensor));
          first = combine first format;
          second = combine second (format XOR tv_bytes tensor);
          (first, second) =
            fold (\<lambda>i (first, second). (combine first (tv_shape tensor ! i),
                                        combine second (word_rotl 23 (tv_shape tensor ! i))))
              [0..<unat (tv_ndim tensor)] (first, second);
          content = hash64 (tv_data tensor) kPrime5
      in (combine first content, combine second (word_rotl 31 content XOR tv_bytes tensor)))"

definition fingerprint_tensors :: "TensorView list \<Rightarrow> ModelDigest" where
  "fingerprint_tensors tensors =
     (let (first, second) =
            fold tensor_step tensors
              (combine 0x243f6a8885a308d3 (of_nat (length tensors)),
               combine 0x13198a2e03707344 (of_nat (length tensors)))
      in make_digest (avalanche first) (avalanche second))"

definition checkpoint_precision :: "TensorView list \<Rightarrow> u32" where
  "checkpoint_precision tensors =
     (let (f32, bf16) = fold (\<lambda>t (f, b). (f \<or> tv_dtype t = F32, b \<or> tv_dtype t = BF16)) tensors (False, False)
      in if f32 \<and> bf16 then FE_PRECISION_MIXED
         else if bf16 then FE_PRECISION_BF16
         else if f32 then FE_PRECISION_F32
         else FE_PRECISION_UNKNOWN)"

declare hash_blocks.simps [simp del] hash_words.simps [simp del]

lemmas prime_defs = kPrime1_def kPrime2_def kPrime3_def kPrime4_def kPrime5_def

section \<open>Every mixing step is injective\<close>

lemma prime_mult_inj [simp]:
  "x * kPrime1 = y * kPrime1 \<longleftrightarrow> x = y"
  "x * kPrime2 = y * kPrime2 \<longleftrightarrow> x = y"
  "x * kPrime3 = y * kPrime3 \<longleftrightarrow> x = y"
  "x * kPrime5 = y * kPrime5 \<longleftrightarrow> x = y"
proof -
  have "(614540362697595703 :: u64) * kPrime1 = 1" by (simp add: kPrime1_def)
  then show "x * kPrime1 = y * kPrime1 \<longleftrightarrow> x = y" by (rule word_odd_mult_inj)
  have "(839798700976720815 :: u64) * kPrime2 = 1" by (simp add: kPrime2_def)
  then show "x * kPrime2 = y * kPrime2 \<longleftrightarrow> x = y" by (rule word_odd_mult_inj)
  have "(16855272203555305545 :: u64) * kPrime3 = 1" by (simp add: kPrime3_def)
  then show "x * kPrime3 = y * kPrime3 \<longleftrightarrow> x = y" by (rule word_odd_mult_inj)
  have "(14236653164957433613 :: u64) * kPrime5 = 1" by (simp add: kPrime5_def)
  then show "x * kPrime5 = y * kPrime5 \<longleftrightarrow> x = y" by (rule word_odd_mult_inj)
qed

lemma xorshift_inj:
  fixes x y :: "'a::len word"
  assumes "0 < s" and "x XOR drop_bit s x = y XOR drop_bit s y"
  shows "x = y"
proof -
  have step: "bit x k \<longleftrightarrow> bit y k" if "bit x (k + s) \<longleftrightarrow> bit y (k + s)" for k
  proof -
    have "bit (x XOR drop_bit s x) k \<longleftrightarrow> bit (y XOR drop_bit s y) k" using assms(2) by simp
    with that show ?thesis by (auto simp: bit_xor_iff bit_drop_bit_eq add.commute)
  qed
  have "bit x k \<longleftrightarrow> bit y k" for k
  proof (induction "LENGTH('a) - k" arbitrary: k rule: less_induct)
    case less
    show ?case
    proof (cases "k < LENGTH('a)")
      case True
      with less [of "k + s"] assms(1) have "bit x (k + s) \<longleftrightarrow> bit y (k + s)" by simp
      then show ?thesis by (rule step)
    next
      case False
      then show ?thesis by (auto dest: bit_imp_le_length)
    qed
  qed
  then show ?thesis by (simp add: bit_eq_iff)
qed

lemma avalanche_inj [simp]: "avalanche x = avalanche y \<longleftrightarrow> x = y"
proof
  assume "avalanche x = avalanche y"
  then show "x = y"
    unfolding avalanche_def Let_def
    by (metis (no_types, lifting) xorshift_inj prime_mult_inj(2,3) zero_less_numeral)
qed simp

lemma hash_round_inj [simp]:
  "hash_round a v = hash_round a w \<longleftrightarrow> v = w"
  "hash_round a v = hash_round b v \<longleftrightarrow> a = b"
  by (simp_all add: hash_round_def)

lemma combine_inj [simp]:
  "combine a v = combine a w \<longleftrightarrow> v = w"
  "combine a v = combine b v \<longleftrightarrow> a = b"
  by (simp_all add: combine_def)

lemma make_digest_inj: "make_digest a b = make_digest c d \<Longrightarrow> a = c \<and> b = d"
proof -
  have bytes: "map (\<lambda>i. ucast (drop_bit (8 * i) x)) [0..<8] = (le_bytes x :: byte list)" for x :: u64
  proof -
    have "ucast (drop_bit (8 * i) x) = le_byte x i" if "i < 8" for i
      by (rule bit_word_eqI) (auto simp: bit_le_byte bit_ucast_iff bit_drop_bit_eq mult.commute)
    then show ?thesis by (simp add: le_bytes_def)
  qed
  assume "make_digest a b = make_digest c d"
  then have "le_bytes a = le_bytes c" "le_bytes b = le_bytes d"
    by (simp_all add: make_digest_def bytes)
  then show ?thesis by (simp add: le_bytes_inj)
qed

lemma length_make_digest [simp]: "length (make_digest a b) = 16"
  by (simp add: make_digest_def)

lemma length_fingerprint_bytes [simp]: "length (fingerprint_bytes bs) = 16"
  by (simp add: fingerprint_bytes_def Let_def)

lemma length_fingerprint_tensors [simp]: "length (fingerprint_tensors ts) = 16"
  by (simp add: fingerprint_tensors_def split_def Let_def)

text \<open>The 64-bit checksum is the first hash lane.\<close>

lemma checksum64_hash64: "checksum64 bs = hash64 bs 0x243f6a8885a308d3"
proof -
  let ?h = "hash64 bs 0x243f6a8885a308d3"
  have byte: "fingerprint_bytes bs ! i = le_byte ?h i" if "i < 8" for i
    using that
    by (simp add: fingerprint_bytes_def Let_def make_digest_def nth_append)
      (rule bit_word_eqI, auto simp: bit_le_byte bit_ucast_iff bit_drop_bit_eq mult.commute)
  have "checksum64 bs = read_le (fingerprint_bytes bs) 0"
    by (simp add: checksum64_def read_le_def Let_def mult.commute)
  also have "\<dots> = read_le (write_le (replicate 8 0) 0 ?h) 0"
    by (rule read_le_cong) (simp add: byte nth_write_le)
  also have "\<dots> = ?h" by (rule read_write_le_same) simp_all
  finally show ?thesis .
qed

section \<open>A corrupted byte behind the last full block changes the fingerprint\<close>

lemma read_le_inj:
  assumes "length xs = LENGTH('a) div 8" and "length ys = LENGTH('a) div 8"
    and "(read_le (xs @ r) 0 :: 'a::len word) = read_le (ys @ r') 0"
  shows "xs = ys"
proof (rule nth_equalityI)
  show "length xs = length ys" using assms by simp
  fix i
  assume i: "i < length xs"
  then have "le_byte (read_le (xs @ r) 0 :: 'a word) i = (xs @ r) ! (0 + i)"
    "le_byte (read_le (ys @ r') 0 :: 'a word) i = (ys @ r') ! (0 + i)"
    using assms(1) by (simp_all only: le_byte_read_le)
  with assms i show "xs ! i = ys ! i" by (simp add: nth_append)
qed

text \<open>The part of \<open>hash64\<close> after the 32-byte blocks.\<close>

definition hash_rest :: "u64 \<Rightarrow> byte list \<Rightarrow> u64" where
  "hash_rest hash cursor =
     (let (hash1, cursor1) = hash_words hash cursor; (hash2, cursor2) = hash_half hash1 cursor1
      in avalanche (hash_tail hash2 cursor2))"

lemma hash_tail_inj: "hash_tail h bs = hash_tail h' bs \<longleftrightarrow> h = h'"
  by (induction bs arbitrary: h h') auto

lemma hash_rest_word:
  assumes "length ws = 8"
  shows "hash_rest h (ws @ bs) = hash_rest (word_rotl 27 (h XOR hash_round 0 (read_u64 (ws @ bs))) * kPrime1 + kPrime4) bs"
  using assms by (subst hash_rest_def, subst hash_words.simps) (simp add: hash_rest_def)

lemma hash_rest_short:
  "length bs < 8 \<Longrightarrow> hash_rest h bs = (case hash_half h bs of (h2, c2) \<Rightarrow> avalanche (hash_tail h2 c2))"
  by (subst hash_rest_def, subst hash_words.simps) simp

lemma hash_rest_short_inj: "length bs < 8 \<Longrightarrow> hash_rest h bs = hash_rest h' bs \<longleftrightarrow> h = h'"
  by (simp add: hash_rest_short hash_half_def hash_tail_inj)

lemma hash_rest_inj: "hash_rest h bs = hash_rest h' bs \<longleftrightarrow> h = h'"
proof (induction bs arbitrary: h h' rule: length_induct)
  case (1 bs)
  show ?case
  proof (cases "length bs < 8")
    case True
    then show ?thesis by (rule hash_rest_short_inj)
  next
    case False
    define ws r where "ws = take 8 bs" and "r = drop 8 bs"
    with False have "bs = ws @ r" "length ws = 8" "length r < length bs" by auto
    with "1.IH" show ?thesis by (simp add: hash_rest_word)
  qed
qed

lemma ucast_widen_inj:
  assumes "LENGTH('b::len) \<le> LENGTH('a::len)" and "(ucast (x :: 'b word) :: 'a word) = ucast y"
  shows "x = y"
proof (rule bit_word_eqI)
  fix n
  assume n: "n < LENGTH('b)"
  have "bit (ucast x :: 'a word) n \<longleftrightarrow> bit (ucast y :: 'a word) n" using assms(2) by simp
  then show "bit x n \<longleftrightarrow> bit y n" using assms(1) n by (simp add: bit_ucast_iff)
qed

lemma hash_tail_detects:
  "x \<noteq> y \<Longrightarrow> hash_tail h (a @ x # b) \<noteq> hash_tail h (a @ y # b)"
proof (induction a arbitrary: h)
  case Nil
  then have "(ucast x :: u64) \<noteq> ucast y" using ucast_widen_inj [where ?'a = 64 and x = x] by auto
  then show ?case by (simp add: hash_tail_inj)
next
  case (Cons c a)
  then show ?case by simp
qed

lemma append_Cons_split:
  assumes "n \<le> length (a @ x # b)"
  obtains (left) b1 b2 where "b = b1 @ b2" "length (a @ x # b1) = n"
    "a @ x # b = (a @ x # b1) @ b2" "a @ y # b = (a @ y # b1) @ b2"
  | (right) a1 a2 where "a = a1 @ a2" "length a1 = n"
    "a @ x # b = a1 @ (a2 @ x # b)" "a @ y # b = a1 @ (a2 @ y # b)"
proof (cases "n \<le> length a")
  case True
  then show ?thesis
    by (intro right [of "take n a" "drop n a"]) simp_all
next
  case False
  define m where "m = n - Suc (length a)"
  have m: "m \<le> length b" "n = Suc (length a) + m" using False assms by (auto simp: m_def)
  then show ?thesis
    by (intro left [of "take m b" "drop m b"]) simp_all
qed

lemma hash_rest_short_detects:
  assumes "x \<noteq> y" and "length (a @ x # b) < 8"
  shows "hash_rest h (a @ x # b) \<noteq> hash_rest h (a @ y # b)"
proof (cases "length (a @ x # b) < 4")
  case True
  with assms show ?thesis
    by (simp add: hash_rest_short hash_half_def hash_tail_detects)
next
  case False
  then have "4 \<le> length (a @ x # b)" by simp
  then show ?thesis
  proof (cases rule: append_Cons_split [where y = y])
    case (left b1 b2)
    have "read_u32 ((a @ x # b1) @ b2) \<noteq> read_u32 ((a @ y # b1) @ b2)"
      using read_le_inj [of "a @ x # b1" "a @ y # b1" b2 b2, where ?'a = 32] left(2) assms(1)
      by (auto simp: read_u32_def)
    then have "(ucast (read_u32 ((a @ x # b1) @ b2)) :: u64) \<noteq> ucast (read_u32 ((a @ y # b1) @ b2))"
      using ucast_widen_inj [where ?'a = 64 and ?'b = 32] by auto
    moreover have "hash_half h (a @ z # b) =
        (word_rotl 23 (h XOR ucast (read_u32 ((a @ z # b1) @ b2)) * kPrime1) * kPrime2 + kPrime3, b2)" for z
    proof -
      have z: "length (a @ z # b1) = 4" "a @ z # b = (a @ z # b1) @ b2" using left by simp_all
      then have "drop 4 (a @ z # b) = b2" by (metis append_eq_conv_conj)
      with z show ?thesis by (simp add: hash_half_def)
    qed
    ultimately show ?thesis using assms(2) by (simp add: hash_rest_short hash_tail_inj)
  next
    case (right a1 a2)
    have "read_u32 (a1 @ r) = read_u32 (a1 @ r')" for r r'
      unfolding read_u32_def using right(2) by (intro read_le_cong) (simp add: nth_append)
    with assms right show ?thesis
      by (simp add: hash_rest_short hash_half_def) (metis hash_tail_detects)
  qed
qed

lemma hash_rest_detects:
  assumes "x \<noteq> y"
  shows "hash_rest h (a @ x # b) \<noteq> hash_rest h (a @ y # b)"
proof (induction "length (a @ x # b)" arbitrary: a b h rule: less_induct)
  case less
  show ?case
  proof (cases "length (a @ x # b) < 8")
    case True
    with assms show ?thesis by (rule hash_rest_short_detects)
  next
    case False
    then have "8 \<le> length (a @ x # b)" by simp
    then show ?thesis
    proof (cases rule: append_Cons_split [where y = y])
      case (left b1 b2)
      have "read_u64 ((a @ x # b1) @ b2) \<noteq> read_u64 ((a @ y # b1) @ b2)"
        using read_le_inj [of "a @ x # b1" "a @ y # b1" b2 b2, where ?'a = 64] left(2) assms
        by (auto simp: read_u64_def)
      moreover have "length (a @ y # b1) = 8" using left(2) by simp
      ultimately show ?thesis
        unfolding left(3,4) hash_rest_word [OF left(2)] hash_rest_word [OF \<open>length (a @ y # b1) = 8\<close>]
        by (simp add: hash_rest_inj)
    next
      case (right a1 a2)
      have "read_u64 (a1 @ r) = read_u64 (a1 @ r')" for r r'
        unfolding read_u64_def using right(2) by (intro read_le_cong) (simp add: nth_append)
      then have same: "read_u64 (a1 @ a2 @ x # b) = read_u64 (a1 @ a2 @ y # b)" .
      have "length (a2 @ x # b) < length (a @ x # b)" using right(1,2) by simp
      note IH = less [OF this]
      show ?thesis
        unfolding right(3,4) hash_rest_word [OF right(2)] same by (rule IH)
    qed
  qed
qed

lemma hash_blocks_rest:
  "snd (hash_blocks lanes cursor) = drop (32 * (length cursor div 32)) cursor"
proof (induction lanes cursor rule: hash_blocks.induct)
  case (1 l1 l2 l3 l4 cursor)
  show ?case
  proof (cases "length cursor < 32")
    case True
    then show ?thesis by (subst hash_blocks.simps) simp
  next
    case False
    then have "length cursor div 32 = Suc ((length cursor - 32) div 32)"
      by (simp add: le_div_geq)
    with 1 False show ?thesis by (subst hash_blocks.simps) (simp add: add.commute)
  qed
qed

lemma hash_blocks_block:
  assumes "length blk = 32"
  shows "hash_blocks (l1, l2, l3, l4) (blk @ c) = hash_blocks
    (hash_round l1 (read_u64 (blk @ c)), hash_round l2 (read_u64 (drop 8 blk @ c)),
     hash_round l3 (read_u64 (drop 16 blk @ c)), hash_round l4 (read_u64 (drop 24 blk @ c))) c"
  using assms by (subst hash_blocks.simps) simp

lemma read_u64_prefix: "8 \<le> length w \<Longrightarrow> read_u64 (w @ c) = read_u64 (w @ d)"
  unfolding read_u64_def by (rule read_le_cong) (simp add: nth_append)

lemma hash_blocks_prefix:
  assumes "length pre = 32 * n" "length c < 32" "length d < 32"
  shows "fst (hash_blocks lanes (pre @ c)) = fst (hash_blocks lanes (pre @ d))"
  using assms(1)
proof (induction n arbitrary: pre lanes)
  case 0
  obtain l1 l2 l3 l4 where "lanes = (l1, l2, l3, l4)" by (cases lanes)
  with 0 assms(2,3) show ?case by (simp add: hash_blocks.simps [of l1 l2 l3 l4])
next
  case (Suc n)
  obtain l1 l2 l3 l4 where lanes: "lanes = (l1, l2, l3, l4)" by (cases lanes)
  define blk rest where "blk = take 32 pre" and "rest = drop 32 pre"
  with Suc.prems have split: "pre = blk @ rest" "length blk = 32" "length rest = 32 * n" by simp_all
  have "read_u64 (drop k blk @ rest @ c) = read_u64 (drop k blk @ rest @ d)" if "k \<le> 24" for k
    by (rule read_u64_prefix) (use that split(2) in simp)
  from this [of 0] this [of 8] this [of 16] this [of 24] Suc.IH [OF split(3)]
  show ?case by (simp add: lanes split(1) hash_blocks_block [OF split(2)])
qed

lemma hash64_rest:
  "bytes \<noteq> [] \<Longrightarrow> hash64 bytes seed =
    hash_rest ((if length bytes \<ge> 32
                then hash_merge (fst (hash_blocks (seed + kPrime1 + kPrime2, seed + kPrime2, seed, seed - kPrime1) bytes))
                else seed + kPrime5) + of_nat (length bytes))
      (drop (32 * (length bytes div 32)) bytes)"
  by (auto simp: hash64_def hash_rest_def hash_blocks_rest Let_def split_def)

lemma hash64_detects:
  assumes "x \<noteq> y" and "32 * (length (a @ x # b) div 32) \<le> length a"
  shows "hash64 (a @ x # b) seed \<noteq> hash64 (a @ y # b) seed"
proof -
  let ?n = "32 * (length (a @ x # b) div 32)"
  have len: "length (a @ y # b) = length (a @ x # b)" by simp
  have short: "length (drop ?n a @ z # b) < 32" for z using assms(2) by simp
  have "fst (hash_blocks l (take ?n a @ drop ?n a @ x # b)) =
      fst (hash_blocks l (take ?n a @ drop ?n a @ y # b))" for l
    by (rule hash_blocks_prefix [where n = "length (a @ x # b) div 32"])
      (use assms(2) short in simp_all)
  then have pre: "fst (hash_blocks l (a @ x # b)) = fst (hash_blocks l (a @ y # b))" for l
    by (metis append.assoc append_take_drop_id)
  have rest: "drop ?n (a @ z # b) = drop ?n a @ z # b" for z using assms(2) by simp
  have ne: "a @ x # b \<noteq> []" "a @ y # b \<noteq> []" by simp_all
  show ?thesis
    unfolding hash64_rest [OF ne(1)] hash64_rest [OF ne(2)] len pre rest
    by (rule hash_rest_detects [OF assms(1)])
qed

lemma fingerprint_bytes_hash:
  "hash64 xs 0x243f6a8885a308d3 \<noteq> hash64 ys 0x243f6a8885a308d3 \<Longrightarrow>
    fingerprint_bytes xs \<noteq> fingerprint_bytes ys"
  by (auto simp: fingerprint_bytes_def Let_def dest: make_digest_inj)

section \<open>Tensor fingerprints\<close>

definition tensor_words :: "TensorView \<Rightarrow> u64 list" where
  "tensor_words t =
     [hash64 (name_view t) kPrime3,
      ucast (dtype_code (tv_dtype t)) OR push_bit 8 (ucast (tv_ndim t))] @
     map (\<lambda>i. tv_shape t ! i) [0..<unat (tv_ndim t)] @ [hash64 (tv_data t) kPrime5]"

definition absorb :: "u64 list \<Rightarrow> u64 \<Rightarrow> u64" where
  "absorb = fold (\<lambda>v a. combine a v)"

lemma fst_fold_combine:
  "fst (fold (\<lambda>i p. (combine (fst p) (f i), combine (snd p) (g i))) xs p) =
    fold (\<lambda>i a. combine a (f i)) xs (fst p)"
  by (induction xs arbitrary: p) simp_all

lemma fst_tensor_step: "fst (tensor_step t acc) = absorb (tensor_words t) (fst acc)"
  by (cases acc)
    (simp add: tensor_step_def tensor_words_def absorb_def Let_def split_def fold_map o_def fst_fold_combine)

lemma fst_fold_tensor_step:
  "fst (fold tensor_step ts acc) = absorb (concat (map tensor_words ts)) (fst acc)"
  by (induction ts arbitrary: acc) (simp_all add: fst_tensor_step absorb_def)

lemma absorb_inj [simp]: "absorb vs a = absorb vs b \<longleftrightarrow> a = b"
  by (induction vs arbitrary: a b) (simp_all add: absorb_def)

lemma absorb_detects: "v \<noteq> w \<Longrightarrow> absorb (p @ v # q) a \<noteq> absorb (p @ w # q) a"
  by (simp add: absorb_def) (simp add: absorb_def [symmetric])

lemma fingerprint_tensors_words:
  assumes "length ts = length us"
    and "concat (map tensor_words ts) = p @ v # q" "concat (map tensor_words us) = p @ w # q"
    and "v \<noteq> w"
  shows "fingerprint_tensors ts \<noteq> fingerprint_tensors us"
proof
  assume "fingerprint_tensors ts = fingerprint_tensors us"
  then have "absorb (concat (map tensor_words ts)) (combine 0x243f6a8885a308d3 (of_nat (length ts))) =
      absorb (concat (map tensor_words us)) (combine 0x243f6a8885a308d3 (of_nat (length us)))"
    by (auto simp: fingerprint_tensors_def Let_def split_def fst_fold_tensor_step dest: make_digest_inj)
  with assms absorb_detects [OF assms(4)] show False by simp
qed

section \<open>Properties\<close>

text \<open>
  Corrupting a single byte of a buffer, anywhere behind its last complete 32-byte block
  (for a buffer shorter than 32 bytes: anywhere), always changes \<open>fingerprint_bytes\<close>.
\<close>

theorem fingerprint_detects_tail_byte:
  assumes "x \<noteq> y" and "32 * (length (a @ x # b) div 32) \<le> length a"
  shows "fingerprint_bytes (a @ x # b) \<noteq> fingerprint_bytes (a @ y # b)"
  by (intro fingerprint_bytes_hash hash64_detects assms)

theorem fingerprint_detects_tail_byte_witness:
  "fingerprint_bytes [1, 2, 3] \<noteq> fingerprint_bytes [1, 7, 3]"
  using fingerprint_detects_tail_byte [of 2 7 "[1]" "[3]"] by simp

text \<open>
  Corrupting one byte of the weights of one tensor of a checkpoint, behind the last
  complete 32-byte block of that tensor, always changes the model fingerprint, whatever the
  other tensors are.
\<close>

theorem fingerprint_tensors_detects_tail_byte:
  assumes "tv_data t = a @ x # b" and "x \<noteq> y" and "32 * (length (a @ x # b) div 32) \<le> length a"
  shows "fingerprint_tensors (pre @ t # suf) \<noteq>
    fingerprint_tensors (pre @ t\<lparr>tv_data := a @ y # b\<rparr> # suf)"
proof (rule fingerprint_tensors_words)
  let ?t = "t\<lparr>tv_data := a @ y # b\<rparr>"
  let ?hd = "butlast (tensor_words t)"
  let ?p = "concat (map tensor_words pre) @ ?hd" and ?q = "concat (map tensor_words suf)"
  have "tensor_words t = ?hd @ [hash64 (a @ x # b) kPrime5]"
    using assms(1) by (simp add: tensor_words_def butlast_append)
  moreover have "tensor_words ?t = ?hd @ [hash64 (a @ y # b) kPrime5]"
    by (simp add: tensor_words_def name_view_def butlast_append)
  ultimately show "concat (map tensor_words (pre @ t # suf)) = ?p @ hash64 (a @ x # b) kPrime5 # ?q"
    and "concat (map tensor_words (pre @ ?t # suf)) = ?p @ hash64 (a @ y # b) kPrime5 # ?q"
    by simp_all
  show "hash64 (a @ x # b) kPrime5 \<noteq> hash64 (a @ y # b) kPrime5"
    using assms(2,3) by (rule hash64_detects)
qed simp

definition example_tensor :: TensorView where
  "example_tensor = \<lparr>tv_data = [5, 6, 7, 8], tv_dtype = F32, tv_shape = [1, 1, 0, 0],
     tv_name = [119, 0], tv_ndim = 2\<rparr>"

theorem fingerprint_tensors_detects_tail_byte_witness:
  "fingerprint_tensors [example_tensor] \<noteq> fingerprint_tensors [example_tensor\<lparr>tv_data := [5, 6, 9, 8]\<rparr>]"
  using fingerprint_tensors_detects_tail_byte [of example_tensor "[5, 6]" 7 "[8]" 9 "[]" "[]"]
  by (simp add: example_tensor_def)

end
