(* ===== verification/Snapshot.thy ===== *)
theory Snapshot
  imports Model_Identity
begin

text \<open>
  core/protocol/snapshot.{h,cc}: the portable decode-state snapshot. A snapshot is a 96-byte
  header (magic, version, flags, the identity of the model, the payload size and the payload
  checksum) followed by the payload. \<open>export_decode_snapshot\<close> returns the destination buffer
  as it is left behind; \<open>import_decode_snapshot\<close> returns the payload buffer.
\<close>

section \<open>Definitions\<close>

definition kDecodeSnapshotHeaderBytes :: nat where [wire_simps]: "kDecodeSnapshotHeaderBytes = 96"

record SnapshotError =
  se_code :: int
  se_message :: string

definition decode_snapshot_bytes :: "nat \<Rightarrow> nat" where
  "decode_snapshot_bytes payload_bytes =
     (if payload_bytes \<le> SIZE_MAX - kDecodeSnapshotHeaderBytes
      then kDecodeSnapshotHeaderBytes + payload_bytes else 0)"

definition kSnapshotMagic :: "byte list" where
  "kSnapshotMagic = [0x46, 0x45, 0x53, 0x4e, 0x41, 0x50, 0x30, 0x31]"

definition kSnapshotVersion :: u16 where "kSnapshotVersion = 1"

definition payload_checksum :: "byte list \<Rightarrow> u64" where
  "payload_checksum payload =
     (let digest = fingerprint_bytes payload
      in fold (\<lambda>i v. v OR push_bit (8 * i) (ucast (digest ! i))) [0..<8] 0)"

definition snapshot_header :: "ModelIdentity \<Rightarrow> byte list \<Rightarrow> byte list \<Rightarrow> byte list" where
  "snapshot_header identity payload d0 =
     (let d1 = blit d0 0 kSnapshotMagic;
          d2 = write_le d1 8 kSnapshotVersion;
          d3 = write_le d2 10 (of_nat kDecodeSnapshotHeaderBytes :: u16);
          d4 = write_le d3 12 (0 :: u32);
          d5 = write_le d4 16 (mi_architecture identity);
          d6 = write_le d5 20 (mi_precision identity);
          d7 = fold (\<lambda>i d. d[24 + i := mi_digest identity ! i]) [0..<length (mi_digest identity)] d6;
          d8 = write_le d7 40 (mi_d_model identity);
          d9 = write_le d8 48 (mi_n_layers identity);
          d10 = write_le d9 56 (mi_d_inner identity);
          d11 = write_le d10 64 (mi_d_state identity);
          d12 = write_le d11 72 (mi_d_conv identity);
          d13 = write_le d12 80 (of_nat (length payload) :: u64)
      in write_le d13 88 (payload_checksum payload))"

definition export_decode_snapshot ::
  "ModelIdentity \<Rightarrow> byte list \<Rightarrow> byte list \<Rightarrow> SnapshotError + byte list" where
  "export_decode_snapshot identity payload destination =
     (let required = decode_snapshot_bytes (length payload)
      in if required = 0 \<or> length destination < required
         then Inl \<lparr>se_code = 1, se_message = ''Decode snapshot destination is too small''\<rparr>
         else Inr (blit (snapshot_header identity payload (blit destination 0 (replicate required 0)))
                     kDecodeSnapshotHeaderBytes payload))"

definition import_decode_snapshot ::
  "ModelIdentity \<Rightarrow> byte list \<Rightarrow> byte list \<Rightarrow> SnapshotError + byte list" where
  "import_decode_snapshot expected source payload =
     (if length source < kDecodeSnapshotHeaderBytes
      then Inl \<lparr>se_code = 1, se_message = ''Decode snapshot is truncated''\<rparr>
      else if take (length kSnapshotMagic) source \<noteq> kSnapshotMagic
      then Inl \<lparr>se_code = 10, se_message = ''Decode snapshot magic is invalid''\<rparr>
      else if (read_le source 8 :: u16) \<noteq> kSnapshotVersion \<or>
              unat (read_le source 10 :: u16) \<noteq> kDecodeSnapshotHeaderBytes
      then Inl \<lparr>se_code = 9, se_message = ''Decode snapshot version is unsupported''\<rparr>
      else if (read_le source 12 :: u32) \<noteq> 0
      then Inl \<lparr>se_code = 10, se_message = ''Decode snapshot header flags are invalid''\<rparr>
      else
        let state_bytes = unat (read_le source 80 :: u64)
        in if state_bytes \<noteq> length payload \<or>
              state_bytes > length source - kDecodeSnapshotHeaderBytes \<or>
              length source \<noteq> kDecodeSnapshotHeaderBytes + state_bytes
           then Inl \<lparr>se_code = 1, se_message = ''Decode snapshot size is incompatible or truncated''\<rparr>
           else
             let digest = map (\<lambda>i. source ! (24 + i)) [0..<FE_MODEL_DIGEST_BYTES];
                 is_compatible = (read_le source 16 = mi_architecture expected \<and>
                               read_le source 20 = mi_precision expected \<and>
                               digest = mi_digest expected \<and>
                               read_le source 40 = mi_d_model expected \<and>
                               read_le source 48 = mi_n_layers expected \<and>
                               read_le source 56 = mi_d_inner expected \<and>
                               read_le source 64 = mi_d_state expected \<and>
                               read_le source 72 = mi_d_conv expected);
                 encoded_payload = drop kDecodeSnapshotHeaderBytes source
             in if \<not> is_compatible
                then Inl \<lparr>se_code = 9, se_message = ''Decode snapshot belongs to an incompatible model''\<rparr>
                else if read_le source 88 \<noteq> payload_checksum encoded_payload
                then Inl \<lparr>se_code = 10, se_message = ''Decode snapshot checksum mismatch''\<rparr>
                else Inr (blit payload 0 encoded_payload))"

text \<open>A \<open>ModelDigest\<close> is an array of sixteen bytes.\<close>

definition identity_wf :: "ModelIdentity \<Rightarrow> bool" where
  "identity_wf i \<longleftrightarrow> length (mi_digest i) = FE_MODEL_DIGEST_BYTES"

section \<open>Lemmas\<close>

lemma length_kSnapshotMagic [simp]: "length kSnapshotMagic = 8"
  by (simp add: kSnapshotMagic_def)

lemmas snapshot_consts = kDecodeSnapshotHeaderBytes_def FE_MODEL_DIGEST_BYTES_def

lemma payload_checksum_hash64: "payload_checksum bs = hash64 bs 0x243f6a8885a308d3"
  using checksum64_hash64 by (simp add: payload_checksum_def checksum64_def)

lemma length_snapshot_header:
  "96 \<le> length d \<Longrightarrow> identity_wf i \<Longrightarrow> length (snapshot_header i p d) = length d"
  by (simp add: snapshot_header_def Let_def identity_wf_def snapshot_consts fold_bytes_blit)

lemma snapshot_header_fields:
  assumes "96 \<le> length d" "identity_wf i"
  shows "take 8 (snapshot_header i p d) = kSnapshotMagic"
    "read_le (snapshot_header i p d) 8 = kSnapshotVersion"
    "read_le (snapshot_header i p d) 10 = (96 :: u16)"
    "read_le (snapshot_header i p d) 12 = (0 :: u32)"
    "read_le (snapshot_header i p d) 16 = mi_architecture i"
    "read_le (snapshot_header i p d) 20 = mi_precision i"
    "take 16 (drop 24 (snapshot_header i p d)) = mi_digest i"
    "read_le (snapshot_header i p d) 40 = mi_d_model i"
    "read_le (snapshot_header i p d) 48 = mi_n_layers i"
    "read_le (snapshot_header i p d) 56 = mi_d_inner i"
    "read_le (snapshot_header i p d) 64 = mi_d_state i"
    "read_le (snapshot_header i p d) 72 = mi_d_conv i"
    "read_le (snapshot_header i p d) 80 = (of_nat (length p) :: u64)"
    "read_le (snapshot_header i p d) 88 = payload_checksum p"
  using assms
  by (simp_all add: snapshot_header_def Let_def identity_wf_def snapshot_consts header_read_simps)

definition snapshot_image :: "ModelIdentity \<Rightarrow> byte list \<Rightarrow> byte list" where
  "snapshot_image i p = snapshot_header i p (replicate 96 0) @ p"

lemma blit_header_payload:
  assumes "length h = k + length p"
  shows "blit h k p = take k h @ p"
  using assms by (simp add: blit_def)

lemma snapshot_header_append:
  assumes "length d = 96" "identity_wf i"
  shows "snapshot_header i p (d @ e) = snapshot_header i p d @ e"
  using assms
  by (simp add: snapshot_header_def Let_def identity_wf_def snapshot_consts fold_bytes_blit
      write_le_append blit_append)

lemma export_image:
  assumes "identity_wf i" "length p \<le> SIZE_MAX - 96" "length destination = 96 + length p"
  shows "export_decode_snapshot i p destination = Inr (snapshot_image i p)"
proof -
  have "replicate (96 + length p) (0 :: byte) = replicate 96 0 @ replicate (length p) 0"
    by (rule replicate_add)
  then show ?thesis
    using assms
    by (simp add: export_decode_snapshot_def decode_snapshot_bytes_def snapshot_consts blit_0
        snapshot_header_append snapshot_image_def blit_def length_snapshot_header del: replicate.simps)
qed

lemma image_fields:
  assumes "identity_wf i"
  shows "length (snapshot_image i p) = 96 + length p"
    "drop 96 (snapshot_image i p) = p"
    "take 8 (snapshot_image i p) = kSnapshotMagic"
    "take 16 (drop 24 (snapshot_image i p)) = mi_digest i"
    "off + LENGTH('a) div 8 \<le> 96 \<Longrightarrow>
      (read_le (snapshot_image i p) off :: 'a::len word) = read_le (snapshot_header i p (replicate 96 0)) off"
  using assms
  by (auto simp: snapshot_image_def length_snapshot_header snapshot_header_fields nth_append
      intro!: read_le_cong)

text \<open>A snapshot that was accepted is, byte for byte, the image of its model and its payload.\<close>

lemma accepted_is_image:
  assumes imp: "import_decode_snapshot i s buf = Inr q" and wf: "identity_wf i"
  shows "s = snapshot_image i q" and "length q = length buf"
proof -
  let ?p = "drop 96 s" and ?d = "replicate 96 0 :: byte list"
  from imp have len: "96 \<le> length s" and q: "q = ?p"
    and magic: "take 8 s = kSnapshotMagic"
    and f: "(read_le s 8 :: u16) = kSnapshotVersion" "unat (read_le s 10 :: u16) = 96" "(read_le s 12 :: u32) = 0"
      "read_le s 16 = mi_architecture i" "read_le s 20 = mi_precision i" "read_le s 40 = mi_d_model i"
      "read_le s 48 = mi_n_layers i" "read_le s 56 = mi_d_inner i" "read_le s 64 = mi_d_state i"
      "read_le s 72 = mi_d_conv i" "read_le s 88 = payload_checksum ?p"
    and size: "unat (read_le s 80 :: u64) = length ?p" "length buf = length ?p"
    and digest: "take 16 (drop 24 s) = mi_digest i"
    by (auto simp: import_decode_snapshot_def Let_def snapshot_consts map_nth_slice blit_0
        split: if_splits)
  have "(read_le s 10 :: u16) = of_nat (unat (read_le s 10 :: u16))"
    "(read_le s 80 :: u64) = of_nat (unat (read_le s 80 :: u64))"
    by simp_all
  with f(2) size(1) have f': "(read_le s 10 :: u16) = 96" "read_le s 80 = (of_nat (length ?p) :: u64)"
    by simp_all
  have "take 96 (snapshot_header i ?p ?d) = take 96 s"
    using len wf f f' magic digest
    by (simp only: snapshot_header_def Let_def identity_wf_def snapshot_consts fold_bytes_blit
        length_write_le length_blit length_replicate length_kSnapshotMagic)
      (intro take_write_le_extendI take_blit_extendI, simp_all)
  then have "snapshot_header i ?p ?d = take 96 s"
    using wf by (simp add: length_snapshot_header)
  then show "s = snapshot_image i q"
    by (simp add: snapshot_image_def q)
  show "length q = length buf" using q size by simp
qed

section \<open>Properties\<close>

text \<open>
  C36: Exporting a decode state for a model and importing the result for the same model
  succeeds and returns the payload, for every payload that fits a size.
\<close>

theorem snapshot_roundtrip:
  assumes "identity_wf i" and "length p \<le> SIZE_MAX - kDecodeSnapshotHeaderBytes"
    and "length destination = decode_snapshot_bytes (length p)" and "length buf = length p"
  shows "\<exists>s. export_decode_snapshot i p destination = Inr s \<and> import_decode_snapshot i s buf = Inr p"
proof -
  have "length destination = 96 + length p" and len: "length p \<le> SIZE_MAX - 96"
    using assms(2,3) by (simp_all add: decode_snapshot_bytes_def snapshot_consts)
  then have "export_decode_snapshot i p destination = Inr (snapshot_image i p)"
    using assms(1) by (intro export_image)
  moreover have "import_decode_snapshot i (snapshot_image i p) buf = Inr p"
    using assms(1,4) len image_fields(3,4) [OF assms(1), of p]
    by (simp add: import_decode_snapshot_def Let_def snapshot_consts image_fields
        snapshot_header_fields map_nth_slice unat_of_nat_u64 blit_0)
  ultimately show ?thesis by blast
qed

definition example_identity :: ModelIdentity where
  "example_identity = \<lparr>mi_digest = replicate 16 7, mi_architecture = 1, mi_precision = 1, mi_d_model = 768,
     mi_n_layers = 24, mi_d_inner = 1536, mi_d_state = 16, mi_d_conv = 4, mi_action_dim = 7,
     mi_condition_dim = 768\<rparr>"

theorem snapshot_roundtrip_witness:
  "\<exists>s. export_decode_snapshot example_identity [1, 2, 3] (replicate 99 0) = Inr s \<and>
     import_decode_snapshot example_identity s [0, 0, 0] = Inr [1, 2, 3]"
proof -
  have "identity_wf example_identity"
    by (simp add: identity_wf_def example_identity_def FE_MODEL_DIGEST_BYTES_def)
  then show ?thesis
    using snapshot_roundtrip [of example_identity "[1, 2, 3]" "replicate 99 0" "[0, 0, 0]"]
    by (simp add: decode_snapshot_bytes_def kDecodeSnapshotHeaderBytes_def)
qed

text \<open>
  The snapshot format has exactly one encoding: whatever buffer \<open>import_decode_snapshot\<close>
  accepts for a model is, byte for byte, what \<open>export_decode_snapshot\<close> writes for that model
  and the payload it returned. No header byte is ignored.
\<close>

theorem snapshot_canonical:
  assumes "import_decode_snapshot i s buf = Inr p" and "identity_wf i" and "length s \<le> SIZE_MAX"
  shows "export_decode_snapshot i p s = Inr s"
proof -
  have s: "s = snapshot_image i p" using accepted_is_image(1) [OF assms(1,2)] .
  then have "length s = 96 + length p" using image_fields(1) [OF assms(2)] by simp
  then have "export_decode_snapshot i p s = Inr (snapshot_image i p)"
    using assms(2,3) by (intro export_image) simp_all
  with s show ?thesis by simp
qed

theorem snapshot_canonical_witness:
  "\<exists>s. import_decode_snapshot example_identity s [0, 0, 0] = Inr [1, 2, 3] \<and>
     export_decode_snapshot example_identity [1, 2, 3] s = Inr s"
proof -
  have wf: "identity_wf example_identity"
    by (simp add: identity_wf_def example_identity_def FE_MODEL_DIGEST_BYTES_def)
  let ?s = "snapshot_image example_identity [1, 2, 3]"
  have imp: "import_decode_snapshot example_identity ?s [0, 0, 0] = Inr [1, 2, 3]"
    using image_fields(3,4) [OF wf, of "[1, 2, 3]"]
    by (simp add: import_decode_snapshot_def Let_def snapshot_consts image_fields wf
        snapshot_header_fields map_nth_slice blit_0)
  then have "export_decode_snapshot example_identity [1, 2, 3] ?s = Inr ?s"
    by (rule snapshot_canonical [OF _ wf]) (simp add: image_fields wf)
  with imp show ?thesis by blast
qed

text \<open>
  A snapshot whose payload was damaged in one byte behind the last complete 32-byte block
  is refused with error code 10.
\<close>

theorem snapshot_corruption_detected:
  assumes "identity_wf i" and "x \<noteq> y" and "32 * (length (a @ x # b) div 32) \<le> length a"
    and "length (a @ x # b) \<le> SIZE_MAX - kDecodeSnapshotHeaderBytes"
    and "export_decode_snapshot i (a @ x # b) destination = Inr (h @ a @ x # b)"
    and "length destination = decode_snapshot_bytes (length (a @ x # b))"
    and "length buf = length (a @ x # b)"
  shows "import_decode_snapshot i (h @ a @ y # b) buf =
    Inl \<lparr>se_code = 10, se_message = ''Decode snapshot checksum mismatch''\<rparr>"
proof -
  let ?p = "a @ x # b"
  have len: "length ?p \<le> SIZE_MAX - 96" "length destination = 96 + length ?p"
    using assms(4,6) by (simp_all add: decode_snapshot_bytes_def snapshot_consts)
  then have "h @ ?p = snapshot_image i ?p"
    using assms(1,5) export_image [OF assms(1), of ?p destination] by simp
  then have h: "h = snapshot_header i ?p (replicate 96 0)" by (simp add: snapshot_image_def)
  then have lh: "length h = 96" using assms(1) by (simp add: length_snapshot_header)
  have rd: "(read_le (h @ q) off :: 'a::len word) = read_le h off" if "off + LENGTH('a) div 8 \<le> 96" for off q
    by (rule read_le_cong) (use that lh in \<open>simp add: nth_append\<close>)
  have "payload_checksum ?p \<noteq> payload_checksum (a @ y # b)"
    unfolding payload_checksum_hash64 by (rule hash64_detects [OF assms(2,3)])
  moreover have "unat (read_le h 80 :: u64) = length ?p"
    unfolding h snapshot_header_fields(13) [of "replicate 96 0" i ?p, simplified length_replicate, OF order_refl assms(1)]
    using len(1) by (intro unat_of_nat_u64) simp
  ultimately show ?thesis
    using assms(1,7) len lh snapshot_header_fields(1,7) [of "replicate 96 0" i ?p]
    by (simp add: import_decode_snapshot_def Let_def snapshot_consts rd h [symmetric]
        snapshot_header_fields(2-12,14) [of "replicate 96 0" i ?p, folded h] map_nth_slice)
qed

theorem snapshot_corruption_detected_witness:
  "\<exists>h. export_decode_snapshot example_identity [1, 2, 3] (replicate 99 0) = Inr (h @ [1, 2, 3]) \<and>
     import_decode_snapshot example_identity (h @ [1, 7, 3]) [0, 0, 0] =
       Inl \<lparr>se_code = 10, se_message = ''Decode snapshot checksum mismatch''\<rparr>"
proof -
  have wf: "identity_wf example_identity"
    by (simp add: identity_wf_def example_identity_def FE_MODEL_DIGEST_BYTES_def)
  let ?h = "snapshot_header example_identity [1, 2, 3] (replicate 96 0)"
  have e: "export_decode_snapshot example_identity [1, 2, 3] (replicate 99 0) = Inr (?h @ [1, 2, 3])"
    using export_image [OF wf, of "[1, 2, 3]" "replicate 99 0"] by (simp add: snapshot_image_def)
  then show ?thesis
    using snapshot_corruption_detected [OF wf, of 2 7 "[1]" "[3]" "replicate 99 0" ?h "[0, 0, 0]"]
    by (auto simp: decode_snapshot_bytes_def kDecodeSnapshotHeaderBytes_def)
qed

end
