(* ===== verification/Arena.thy ===== *)
theory Arena
  imports FE_Prelude
begin

text \<open>
  core/arena/arena.h: the bump allocator that owns every byte of an engine after load. A
  pointer is its address, a natural number; the null pointer is the address 0. An arena is the
  pair of its cursor and its end. \<open>std::align\<close> is modelled from its specification: it moves the
  pointer up to the next multiple of the alignment and fails when the block then no longer
  fits. The template parameters \<open>Align\<close>, \<open>sizeof(T)\<close> are ordinary arguments.
\<close>

section \<open>Definitions\<close>

definition kSimdAlign :: nat where "kSimdAlign = 64"

record Arena =
  ar_cursor :: nat
  ar_end :: nat

definition make_arena :: "nat \<Rightarrow> nat \<Rightarrow> Arena" where
  "make_arena data size_bytes = \<lparr>ar_cursor = data, ar_end = data + size_bytes\<rparr>"

definition align_up_to :: "nat \<Rightarrow> nat \<Rightarrow> nat" where
  "align_up_to alignment p = (p + (alignment - 1)) div alignment * alignment"

definition std_align :: "nat \<Rightarrow> nat \<Rightarrow> nat \<Rightarrow> nat \<Rightarrow> nat option" where
  "std_align alignment size_bytes p space =
     (let aligned = align_up_to alignment p
      in if space < size_bytes \<or> aligned - p > space - size_bytes \<or> aligned = 0 then None else Some aligned)"

definition arena_alloc :: "nat \<Rightarrow> nat \<Rightarrow> Arena \<Rightarrow> nat option \<times> Arena" where
  "arena_alloc alignment n a =
     (let space = ar_end a - ar_cursor a
      in case std_align alignment n (ar_cursor a) space of
           None \<Rightarrow> (None, a)
         | Some p \<Rightarrow> (Some p, a\<lparr>ar_cursor := p + n\<rparr>))"

definition arena_alloc_array :: "nat \<Rightarrow> nat \<Rightarrow> nat \<Rightarrow> Arena \<Rightarrow> nat option \<times> Arena" where
  "arena_alloc_array size_of_T alignment cnt a =
     (if cnt > SIZE_MAX div size_of_T then (None, a)
      else arena_alloc alignment (cnt * size_of_T) a)"

text \<open>A span is its address and its element cnt; the empty span is \<open>(0, 0)\<close>.\<close>

definition arena_alloc_span :: "nat \<Rightarrow> nat \<Rightarrow> nat \<Rightarrow> Arena \<Rightarrow> (nat \<times> nat) \<times> Arena" where
  "arena_alloc_span size_of_T alignment cnt a =
     (case arena_alloc_array size_of_T alignment cnt a of
        (Some p, a') \<Rightarrow> ((p, cnt), a')
      | (None, a') \<Rightarrow> ((0, 0), a'))"

definition arena_mark :: "Arena \<Rightarrow> nat" where
  "arena_mark a = ar_cursor a"

definition arena_reset_to :: "nat \<Rightarrow> Arena \<Rightarrow> Arena" where
  "arena_reset_to m a = a\<lparr>ar_cursor := m\<rparr>"

definition sub_arena :: "nat \<Rightarrow> Arena \<Rightarrow> Arena \<times> Arena" where
  "sub_arena bytes a =
     (case arena_alloc kSimdAlign bytes a of
        (Some p, a') \<Rightarrow> (make_arena p bytes, a')
      | (None, a') \<Rightarrow> (make_arena 0 0, a'))"

definition arena_wf :: "Arena \<Rightarrow> bool" where
  "arena_wf a \<longleftrightarrow> ar_cursor a \<le> ar_end a"

text \<open>A sequence of allocation requests; the blocks \<open>(address, size)\<close> that were granted.\<close>

fun alloc_seq :: "(nat \<times> nat) list \<Rightarrow> Arena \<Rightarrow> (nat \<times> nat) list \<times> Arena" where
  "alloc_seq [] a = ([], a)"
| "alloc_seq ((alignment, n) # rs) a =
     (let (r, a1) = arena_alloc alignment n a; (blocks, a2) = alloc_seq rs a1
      in ((case r of None \<Rightarrow> blocks | Some p \<Rightarrow> (p, n) # blocks), a2))"

section \<open>Lemmas\<close>

lemma align_up_to_ge: "0 < al \<Longrightarrow> p \<le> align_up_to al p"
proof -
  assume "0 < al"
  have "p + (al - 1) = (p + (al - 1)) div al * al + (p + (al - 1)) mod al"
    by simp
  moreover have "(p + (al - 1)) mod al < al" using \<open>0 < al\<close> by simp
  ultimately have "p + (al - 1) < (p + (al - 1)) div al * al + al" by linarith
  then show ?thesis using \<open>0 < al\<close> unfolding align_up_to_def by linarith
qed

lemma align_up_to_dvd: "al dvd align_up_to al p"
  by (simp add: align_up_to_def)

lemma align_up_to_less: "0 < al \<Longrightarrow> align_up_to al p < p + al"
proof -
  assume "0 < al"
  have "align_up_to al p \<le> p + (al - 1)" by (simp add: align_up_to_def)
  with \<open>0 < al\<close> show ?thesis by simp
qed

lemma arena_alloc_SomeD:
  assumes "arena_wf a" "0 < al" "arena_alloc al n a = (Some p, a')"
  shows "al dvd p" "ar_cursor a \<le> p" "p + n \<le> ar_end a" "0 < p"
    "a' = a\<lparr>ar_cursor := p + n\<rparr>" "arena_wf a'" "p < ar_cursor a + al"
proof -
  from assms(3) have p: "p = align_up_to al (ar_cursor a)" "p \<noteq> 0"
    and a': "a' = a\<lparr>ar_cursor := p + n\<rparr>"
    and fit: "n \<le> ar_end a - ar_cursor a" "p - ar_cursor a \<le> ar_end a - ar_cursor a - n"
    by (auto simp: arena_alloc_def std_align_def Let_def split: option.splits if_splits)
  show ge: "ar_cursor a \<le> p" using p(1) align_up_to_ge [OF assms(2)] by simp
  show "p < ar_cursor a + al" using p(1) align_up_to_less [OF assms(2)] by simp
  show "al dvd p" using p(1) align_up_to_dvd by simp
  show "a' = a\<lparr>ar_cursor := p + n\<rparr>" by (fact a')
  show "0 < p" using p(2) by simp
  show le: "p + n \<le> ar_end a" using ge fit assms(1) by (simp add: arena_wf_def)
  show "arena_wf a'" using a' le by (simp add: arena_wf_def)
qed

lemma arena_alloc_None: "arena_alloc al n a = (None, a') \<Longrightarrow> a' = a"
  by (auto simp: arena_alloc_def split: option.splits)

lemma alloc_seq_ConsE:
  assumes "alloc_seq ((al, n) # rs) a = (blocks, a')"
  obtains r a1 bs where "arena_alloc al n a = (r, a1)" "alloc_seq rs a1 = (bs, a')"
    "blocks = (case r of None \<Rightarrow> bs | Some p \<Rightarrow> (p, n) # bs)"
proof -
  obtain r a1 where r: "arena_alloc al n a = (r, a1)" by fastforce
  obtain bs a2 where "alloc_seq rs a1 = (bs, a2)" by fastforce
  with r assms that show ?thesis by simp
qed

lemma alloc_seq_blocks:
  assumes "arena_wf a" "\<forall>(al, n) \<in> set rs. 0 < al" "alloc_seq rs a = (blocks, a')"
  shows "arena_wf a' \<and> ar_end a' = ar_end a \<and> ar_cursor a \<le> ar_cursor a' \<and>
    (\<forall>(p, n) \<in> set blocks. ar_cursor a \<le> p \<and> p + n \<le> ar_cursor a') \<and>
    sorted_wrt (\<lambda>(p, n) (q, m). p + n \<le> q) blocks"
  using assms
proof (induction rs a arbitrary: blocks a' rule: alloc_seq.induct)
  case (1 a)
  then show ?case by simp
next
  case (2 al n rs a)
  obtain r a1 bs where r: "arena_alloc al n a = (r, a1)"
    and bs: "alloc_seq rs a1 = (bs, a')" "blocks = (case r of None \<Rightarrow> bs | Some p \<Rightarrow> (p, n) # bs)"
    using "2.prems"(3) by (rule alloc_seq_ConsE)
  have al: "0 < al" "\<forall>(al, n) \<in> set rs. 0 < al" using "2.prems"(2) by auto
  show ?case
  proof (cases r)
    case None
    with r have "a1 = a" using arena_alloc_None by blast
    with "2.IH" [of "(r, a1)" r a1 bs a'] r bs al "2.prems"(1) None show ?thesis by simp
  next
    case (Some p)
    note D = arena_alloc_SomeD [OF "2.prems"(1) al(1) r [unfolded Some]]
    have "arena_wf a' \<and> ar_end a' = ar_end a1 \<and> ar_cursor a1 \<le> ar_cursor a' \<and>
      (\<forall>(p, n) \<in> set bs. ar_cursor a1 \<le> p \<and> p + n \<le> ar_cursor a') \<and>
      sorted_wrt (\<lambda>(p, n) (q, m). p + n \<le> q) bs"
      using "2.IH" [of "(r, a1)" r a1 bs a'] r bs al D(6) by simp
    with D bs(2) Some show ?thesis by fastforce
  qed
qed

lemma alloc_seq_aligned:
  assumes "alloc_seq rs a = (blocks, a')" and "(p, n) \<in> set blocks"
  shows "\<exists>al. (al, n) \<in> set rs \<and> al dvd p"
  using assms
proof (induction rs a arbitrary: blocks a' rule: alloc_seq.induct)
  case (2 al m rs a)
  obtain r a1 bs where r: "arena_alloc al m a = (r, a1)" "alloc_seq rs a1 = (bs, a')"
    "blocks = (case r of None \<Rightarrow> bs | Some q \<Rightarrow> (q, m) # bs)"
    using "2.prems"(1) by (rule alloc_seq_ConsE)
  have "al dvd q" if "r = Some q" for q
    using that r(1) align_up_to_dvd
    by (auto simp: arena_alloc_def std_align_def Let_def split: option.splits if_splits)
  with "2.IH" [of "(r, a1)" r a1 bs a'] r "2.prems"(2) show ?case
    by (fastforce split: option.splits)
qed simp

section \<open>Properties\<close>

text \<open>
  C40: Every block the arena grants in a sequence of allocations is aligned as requested and
  lies inside the slab, the granted blocks do not overlap, and the arena never moves its end.
\<close>

theorem arena_blocks_disjoint:
  assumes "arena_wf a" and "\<forall>(al, n) \<in> set rs. 0 < al" and "alloc_seq rs a = (blocks, a')"
  shows "sorted_wrt (\<lambda>(p, n) (q, m). p + n \<le> q) blocks \<and>
    (\<forall>(p, n) \<in> set blocks. ar_cursor a \<le> p \<and> p + n \<le> ar_end a \<and>
       (\<exists>al. (al, n) \<in> set rs \<and> al dvd p)) \<and>
    arena_wf a' \<and> ar_end a' = ar_end a"
  using alloc_seq_blocks [OF assms] alloc_seq_aligned [OF assms(3)]
  by (fastforce simp: arena_wf_def)

theorem arena_blocks_disjoint_witness:
  "alloc_seq [(64, 10), (16, 100), (64, 8), (1, 500)] (make_arena 1000 200) = ([(1024, 10), (1040, 100), (1152, 8)], \<lparr>ar_cursor = 1160, ar_end = 1200\<rparr>) \<and>
   sorted_wrt (\<lambda>(p, n) (q, m). p + n \<le> q) [(1024, 10), (1040, 100), (1152, 8 :: nat)]"
proof -
  have run: "alloc_seq [(64, 10), (16, 100), (64, 8), (1, 500)] (make_arena 1000 200) =
    ([(1024, 10), (1040, 100), (1152, 8)], \<lparr>ar_cursor = 1160, ar_end = 1200\<rparr>)"
    by (simp add: arena_alloc_def std_align_def make_arena_def align_up_to_def Let_def)
  have "arena_wf (make_arena 1000 200)" by (simp add: arena_wf_def make_arena_def)
  from arena_blocks_disjoint [OF this _ run] run show ?thesis by simp
qed

text \<open>
  \<open>alloc\<close> succeeds exactly when the aligned block fits into what is left, and a refused
  request leaves the arena as it was.
\<close>

theorem arena_alloc_exact:
  assumes "arena_wf a" and "0 < al" and "0 < ar_cursor a"
  shows "arena_alloc al n a =
    (if align_up_to al (ar_cursor a) + n \<le> ar_end a
     then (Some (align_up_to al (ar_cursor a)), a\<lparr>ar_cursor := align_up_to al (ar_cursor a) + n\<rparr>)
     else (None, a))"
  using assms align_up_to_ge [OF assms(2), of "ar_cursor a"]
  by (auto simp: arena_alloc_def std_align_def Let_def arena_wf_def)

theorem arena_alloc_exact_witness:
  "arena_alloc 64 40 (make_arena 1000 64) = (Some 1024, \<lparr>ar_cursor = 1064, ar_end = 1064\<rparr>) \<and>
   arena_alloc 64 41 (make_arena 1000 64) = (None, make_arena 1000 64)"
proof -
  have "arena_wf (make_arena 1000 64)" "0 < ar_cursor (make_arena 1000 64)"
    by (simp_all add: arena_wf_def make_arena_def)
  then show ?thesis
    using arena_alloc_exact [of "make_arena 1000 64" 64 40] arena_alloc_exact [of "make_arena 1000 64" 64 41]
    by (simp add: make_arena_def align_up_to_def)
qed

text \<open>
  A sub-arena is carved out of its parent: it is aligned for SIMD, lies inside the parent's
  free space, and the parent continues behind it, so nothing either arena grants later overlaps
  the other.
\<close>

theorem sub_arena_disjoint:
  assumes "arena_wf a" and "sub_arena bytes a = (s, a')" and "ar_end s \<noteq> 0"
  shows "kSimdAlign dvd ar_cursor s \<and> ar_end s = ar_cursor s + bytes \<and> ar_cursor a \<le> ar_cursor s \<and>
    ar_end s \<le> ar_cursor a' \<and> ar_end a' = ar_end a \<and> arena_wf s \<and> arena_wf a'"
proof -
  from assms(2,3) obtain p where p: "arena_alloc kSimdAlign bytes a = (Some p, a')" "s = make_arena p bytes"
    by (auto simp: sub_arena_def make_arena_def split: prod.splits option.splits)
  from arena_alloc_SomeD [OF assms(1) _ p(1)] p(2) show ?thesis
    by (auto simp: kSimdAlign_def make_arena_def arena_wf_def)
qed

theorem sub_arena_disjoint_witness:
  "sub_arena 100 (make_arena 1000 200) = (make_arena 1024 100, \<lparr>ar_cursor = 1124, ar_end = 1200\<rparr>) \<and>
   kSimdAlign dvd ar_cursor (make_arena 1024 100)"
proof -
  have s: "sub_arena 100 (make_arena 1000 200) = (make_arena 1024 100, \<lparr>ar_cursor = 1124, ar_end = 1200\<rparr>)"
    by (simp add: sub_arena_def arena_alloc_def std_align_def make_arena_def align_up_to_def Let_def kSimdAlign_def)
  have "arena_wf (make_arena 1000 200)" by (simp add: arena_wf_def make_arena_def)
  from sub_arena_disjoint [OF this s] s show ?thesis by (simp add: make_arena_def)
qed

end
