(* ===== verification/FE_Float.thy ===== *)
theory FE_Float
  imports Complex_Main FE_Prelude
begin

text \<open>
  IEEE floating point as the comparisons of the source see it. A value is a finite number, an
  infinity with its sign (\<open>True\<close> is negative), or a NaN. The finite values are rationals, since every finite
  binary value is one; the source code modelled over this type only compares, classifies,
  negates and copies such values, so that no rounding is involved. A comparison with a NaN is
  false.
\<close>

datatype fp = Fin rat | Inf bool | NaN

fun isfinite :: "fp \<Rightarrow> bool" where
  "isfinite (Fin _) = True"
| "isfinite _ = False"

fun fp_lt :: "fp \<Rightarrow> fp \<Rightarrow> bool" where
  "fp_lt (Fin x) (Fin y) = (x < y)"
| "fp_lt (Fin x) (Inf s) = (\<not> s)"
| "fp_lt (Inf s) (Fin y) = s"
| "fp_lt (Inf s) (Inf t) = (s \<and> \<not> t)"
| "fp_lt NaN _ = False"
| "fp_lt _ NaN = False"

definition fp_gt :: "fp \<Rightarrow> fp \<Rightarrow> bool" where
  "fp_gt x y = fp_lt y x"

fun fp_eq :: "fp \<Rightarrow> fp \<Rightarrow> bool" where
  "fp_eq (Fin x) (Fin y) = (x = y)"
| "fp_eq (Inf s) (Inf t) = (s = t)"
| "fp_eq _ _ = False"

fun fp_val :: "fp \<Rightarrow> rat" where
  "fp_val (Fin x) = x"
| "fp_val _ = 0"

lemma isfinite_conv: "isfinite x \<longleftrightarrow> (\<exists>r. x = Fin r)"
  by (cases x) auto

lemma isfiniteE [elim?]: "isfinite x \<Longrightarrow> (\<And>r. x = Fin r \<Longrightarrow> P) \<Longrightarrow> P"
  by (auto simp: isfinite_conv)

lemma fp_lt_finite: "isfinite x \<Longrightarrow> isfinite y \<Longrightarrow> fp_lt x y \<longleftrightarrow> fp_val x < fp_val y"
  by (auto simp: isfinite_conv)

lemma fp_eq_finite: "isfinite x \<Longrightarrow> isfinite y \<Longrightarrow> fp_eq x y \<longleftrightarrow> fp_val x = fp_val y"
  by (auto simp: isfinite_conv)

lemmas fp_finite = fp_lt_finite fp_eq_finite fp_gt_def

end
