(* ===== verification/Deadline_Flow.thy ===== *)
theory Deadline_Flow
  imports FE_Float
begin

text \<open>
  core/protocol/deadline_flow.h: the selector that picks, for one execution lane, the
  trajectory plan of highest quality that still meets the deadline. The arrays
  \<open>plans_\<close>/\<open>estimates_\<close> with their shared \<open>count_\<close> are the lists of their used entries.
  Times are 64-bit words. The properties show that \<open>select\<close> is optimal among the feasible
  plans, where feasibility is stated over unbounded naturals, and that the latency estimates
  never drop below a plan's declared latency in any run of the lane.
\<close>

section \<open>Definitions\<close>

record ExecutionPlan =
  ep_id :: u32
  ep_steps :: u32
  ep_solver :: u32
  ep_precision :: u32
  ep_trace_id :: u32
  ep_hardware_mask :: u64
  ep_latency_ns :: u64
  ep_memory_bytes :: u64
  ep_quality :: fp

record PlanContext =
  pc_slack_ns :: u64
  pc_buffered_actions :: u64
  pc_period_ns :: u64
  pc_reserve_ns :: u64
  pc_switch_ns :: u64
  pc_available_memory_bytes :: u64
  pc_hardware_mask :: u64
  pc_minimum_quality :: fp
  pc_healthy :: bool

datatype PlanError = PlanError_kInvalidPortfolio

record DeadlineFlow =
  df_plans :: "ExecutionPlan list"
  df_estimates :: "u64 list"
  df_last :: "u32 option"

definition kMaxPlans :: nat where "kMaxPlans = 32"

definition plan_invalid :: "ExecutionPlan \<Rightarrow> bool" where
  "plan_invalid plan \<longleftrightarrow>
     ep_steps plan = 0 \<or> ep_latency_ns plan = 0 \<or> ep_hardware_mask plan = 0 \<or>
     \<not> isfinite (ep_quality plan) \<or> fp_lt (ep_quality plan) (Fin 0) \<or> fp_gt (ep_quality plan) (Fin 1)"

fun create_plans :: "ExecutionPlan list \<Rightarrow> DeadlineFlow \<Rightarrow> PlanError + DeadlineFlow" where
  "create_plans [] df = Inr df"
| "create_plans (plan # plans) df =
     (if plan_invalid plan then Inl PlanError_kInvalidPortfolio
      else if list_ex (\<lambda>q. ep_id q = ep_id plan) (df_plans df) then Inl PlanError_kInvalidPortfolio
      else create_plans plans
        (df\<lparr>df_plans := df_plans df @ [plan], df_estimates := df_estimates df @ [ep_latency_ns plan]\<rparr>))"

definition df_create :: "ExecutionPlan list \<Rightarrow> PlanError + DeadlineFlow" where
  "df_create plans =
     (if plans = [] \<or> length plans > kMaxPlans then Inl PlanError_kInvalidPortfolio
      else create_plans plans \<lparr>df_plans = [], df_estimates = [], df_last = None\<rparr>)"

definition context_budget :: "PlanContext \<Rightarrow> u64" where
  "context_budget c =
     (let buffer_ns = (if pc_period_ns c \<noteq> 0 \<and> pc_buffered_actions c > U64_MAX div pc_period_ns c
                       then U64_MAX else pc_buffered_actions c * pc_period_ns c)
      in if pc_buffered_actions c = 0 then pc_slack_ns c else min (pc_slack_ns c) buffer_ns)"

definition plan_switching :: "DeadlineFlow \<Rightarrow> PlanContext \<Rightarrow> ExecutionPlan \<Rightarrow> u64" where
  "plan_switching df c plan =
     (case df_last df of None \<Rightarrow> 0 | Some l \<Rightarrow> if l \<noteq> ep_id plan then pc_switch_ns c else 0)"

text \<open>One iteration of the loop in \<open>select\<close>: the best index so far and its cost.\<close>

definition select_step ::
  "DeadlineFlow \<Rightarrow> PlanContext \<Rightarrow> u64 \<Rightarrow> nat \<Rightarrow> nat option \<times> u64 \<Rightarrow> nat option \<times> u64" where
  "select_step df c budget i best_pair =
     (let (best, best_cost) = best_pair; plan = df_plans df ! i; est = df_estimates df ! i
      in if (ep_hardware_mask plan AND pc_hardware_mask c) \<noteq> ep_hardware_mask plan \<or>
            ep_memory_bytes plan > pc_available_memory_bytes c \<or>
            fp_lt (ep_quality plan) (pc_minimum_quality c)
         then (best, best_cost)
         else
           let switching = plan_switching df c plan; available = budget - pc_reserve_ns c
           in if switching > available \<or> est > available - switching then (best, best_cost)
              else
                let cost = est + switching
                in case best of
                     None \<Rightarrow> (Some i, cost)
                   | Some b \<Rightarrow>
                       if fp_gt (ep_quality plan) (ep_quality (df_plans df ! b)) \<or>
                          fp_eq (ep_quality plan) (ep_quality (df_plans df ! b)) \<and> cost < best_cost
                       then (Some i, cost) else (best, best_cost))"

definition df_select :: "DeadlineFlow \<Rightarrow> PlanContext \<Rightarrow> u32 option" where
  "df_select df c =
     (if \<not> pc_healthy c \<or> \<not> isfinite (pc_minimum_quality c) \<or>
         fp_lt (pc_minimum_quality c) (Fin 0) \<or> fp_gt (pc_minimum_quality c) (Fin 1) then None
      else
        let budget = context_budget c
        in if budget \<le> pc_reserve_ns c then None
           else map_option (\<lambda>b. ep_id (df_plans df ! b))
             (fst (fold (select_step df c budget) [0 ..< length (df_plans df)] (None, U64_MAX))))"

fun observe_at :: "u32 \<Rightarrow> u64 \<Rightarrow> ExecutionPlan list \<Rightarrow> u64 list \<Rightarrow> u64 list option" where
  "observe_at i lat (p # ps) (e # es) =
     (if ep_id p \<noteq> i then map_option ((#) e) (observe_at i lat ps es)
      else Some (max (max (ep_latency_ns p) lat) (e - e div 8) # es))"
| "observe_at i lat _ _ = None"

definition df_observe :: "u32 \<Rightarrow> u64 \<Rightarrow> DeadlineFlow \<Rightarrow> bool \<times> DeadlineFlow" where
  "df_observe i latency_ns df =
     (if latency_ns = 0 then (False, df)
      else case observe_at i latency_ns (df_plans df) (df_estimates df) of
             None \<Rightarrow> (False, df)
           | Some es \<Rightarrow> (True, df\<lparr>df_estimates := es, df_last := Some i\<rparr>))"

section \<open>Specification\<close>

definition df_wf :: "DeadlineFlow \<Rightarrow> bool" where
  "df_wf df \<longleftrightarrow> length (df_plans df) \<le> kMaxPlans \<and> length (df_estimates df) = length (df_plans df) \<and>
     distinct (map ep_id (df_plans df)) \<and> list_all (\<lambda>p. \<not> plan_invalid p) (df_plans df) \<and>
     list_all2 (\<lambda>p e. ep_latency_ns p \<le> e) (df_plans df) (df_estimates df)"

text \<open>The time a plan needs and the time the context grants, without a machine width.\<close>

definition plan_cost :: "DeadlineFlow \<Rightarrow> PlanContext \<Rightarrow> nat \<Rightarrow> nat" where
  "plan_cost df c i = unat (df_estimates df ! i) + unat (plan_switching df c (df_plans df ! i))"

definition granted_ns :: "PlanContext \<Rightarrow> nat" where
  "granted_ns c =
     (if pc_buffered_actions c = 0 then unat (pc_slack_ns c)
      else min (unat (pc_slack_ns c)) (unat (pc_buffered_actions c) * unat (pc_period_ns c)))"

definition context_ok :: "PlanContext \<Rightarrow> bool" where
  "context_ok c \<longleftrightarrow> pc_healthy c \<and> isfinite (pc_minimum_quality c) \<and>
     0 \<le> fp_val (pc_minimum_quality c) \<and> fp_val (pc_minimum_quality c) \<le> 1"

definition quality_at :: "DeadlineFlow \<Rightarrow> nat \<Rightarrow> rat" where
  "quality_at df i = fp_val (ep_quality (df_plans df ! i))"

definition feasible :: "DeadlineFlow \<Rightarrow> PlanContext \<Rightarrow> nat \<Rightarrow> bool" where
  "feasible df c i \<longleftrightarrow> i < length (df_plans df) \<and>
     (ep_hardware_mask (df_plans df ! i) AND pc_hardware_mask c) = ep_hardware_mask (df_plans df ! i) \<and>
     ep_memory_bytes (df_plans df ! i) \<le> pc_available_memory_bytes c \<and>
     fp_val (pc_minimum_quality c) \<le> quality_at df i \<and>
     unat (pc_reserve_ns c) < granted_ns c \<and>
     plan_cost df c i + unat (pc_reserve_ns c) \<le> granted_ns c"

definition better_or_equal :: "DeadlineFlow \<Rightarrow> PlanContext \<Rightarrow> nat \<Rightarrow> nat \<Rightarrow> bool" where
  "better_or_equal df c i j \<longleftrightarrow> quality_at df j < quality_at df i \<or>
     quality_at df j = quality_at df i \<and> plan_cost df c i \<le> plan_cost df c j"

inductive lane_step :: "DeadlineFlow \<Rightarrow> DeadlineFlow \<Rightarrow> bool" where
  "df_observe i latency_ns df = (ok, df') \<Longrightarrow> lane_step df df'"

inductive_cases lane_stepE: "lane_step df df'"


section \<open>Lemmas\<close>

lemma unat_context_budget: "unat (context_budget c) = granted_ns c"
proof -
  let ?a = "unat (pc_buffered_actions c)" and ?p = "unat (pc_period_ns c)" and ?s = "unat (pc_slack_ns c)"
  have min_u: "unat (min x y) = min (unat x) (unat y)" for x y :: u64
    by (auto simp: min_def word_le_nat_alt)
  have s: "?s \<le> SIZE_MAX" by simp
  show ?thesis
  proof (cases "pc_buffered_actions c = 0")
    case True
    then show ?thesis by (simp add: context_budget_def granted_ns_def)
  next
    case nz: False
    show ?thesis
    proof (cases "pc_period_ns c \<noteq> 0 \<and> pc_buffered_actions c > U64_MAX div pc_period_ns c")
      case True
      then have "SIZE_MAX div ?p < ?a" "0 < ?p" by (auto simp: word_less_nat_alt unat_div unat_gt_0)
      then have "SIZE_MAX < ?a * ?p"
        by (metis div_less_iff_less_mult)
      with s have "min ?s (?a * ?p) = ?s" by (simp add: min_def del: unat_u64_le_max)
      with nz True show ?thesis
        unfolding context_budget_def granted_ns_def Let_def by (simp add: min_u min_def del: unsigned_1)
    next
      case False
      then have "?a * ?p \<le> SIZE_MAX"
      proof (cases "pc_period_ns c = 0")
        case nzp: False
        with False have "?a \<le> SIZE_MAX div ?p" "0 < ?p"
          by (auto simp: word_less_nat_alt unat_div unat_gt_0 not_less)
        then show ?thesis by (simp add: less_eq_div_iff_mult_less_eq)
      qed simp
      with False nz show ?thesis
        unfolding context_budget_def granted_ns_def Let_def by (auto simp: min_u unat_mult_no_overflow)
    qed
  qed
qed

lemma plan_invalid_iff: "\<not> plan_invalid p \<longleftrightarrow>
  ep_steps p \<noteq> 0 \<and> ep_latency_ns p \<noteq> 0 \<and> ep_hardware_mask p \<noteq> 0 \<and>
  isfinite (ep_quality p) \<and> 0 \<le> fp_val (ep_quality p) \<and> fp_val (ep_quality p) \<le> 1"
  by (auto simp: plan_invalid_def fp_finite)

lemma df_wf_finite: "df_wf df \<Longrightarrow> i < length (df_plans df) \<Longrightarrow> isfinite (ep_quality (df_plans df ! i))"
  by (simp add: df_wf_def list_all_length plan_invalid_iff)

text \<open>The two guards of the loop say exactly that the plan is feasible.\<close>

lemma fits_iff:
  fixes sw av e :: u64
  shows "\<not> (sw > av \<or> e > av - sw) \<longleftrightarrow> unat e + unat sw \<le> unat av"
  by (auto simp: word_less_nat_alt unat_sub_if_size not_less word_size)

lemma select_step_feasible:
  assumes wf: "df_wf df" and ok: "context_ok c" and i: "i < length (df_plans df)"
    and bud: "budget = context_budget c" and res: "pc_reserve_ns c < budget"
  shows "select_step df c budget i (best, bc) =
    (if feasible df c i then
       case best of None \<Rightarrow> (Some i, of_nat (plan_cost df c i))
       | Some b \<Rightarrow>
           if fp_gt (ep_quality (df_plans df ! i)) (ep_quality (df_plans df ! b)) \<or>
              fp_eq (ep_quality (df_plans df ! i)) (ep_quality (df_plans df ! b)) \<and> of_nat (plan_cost df c i) < bc
           then (Some i, of_nat (plan_cost df c i)) else (best, bc)
     else (best, bc))"
proof -
  let ?p = "df_plans df ! i"
  have q: "fp_lt (ep_quality ?p) (pc_minimum_quality c) \<longleftrightarrow> quality_at df i < fp_val (pc_minimum_quality c)"
    using df_wf_finite [OF wf i] ok by (simp add: fp_lt_finite context_ok_def quality_at_def)
  have av: "unat (budget - pc_reserve_ns c) = granted_ns c - unat (pc_reserve_ns c)"
    and r: "unat (pc_reserve_ns c) < granted_ns c"
    using res bud unat_context_budget [of c] by (auto simp: unat_sub word_less_nat_alt word_le_nat_alt)
  have fit: "\<not> (plan_switching df c ?p > budget - pc_reserve_ns c \<or>
      df_estimates df ! i > budget - pc_reserve_ns c - plan_switching df c ?p) \<longleftrightarrow>
      plan_cost df c i + unat (pc_reserve_ns c) \<le> granted_ns c"
    unfolding fits_iff av plan_cost_def using r by auto
  have cost: "df_estimates df ! i + plan_switching df c ?p = of_nat (plan_cost df c i)"
    by (simp add: plan_cost_def)
  let ?G1 = "(ep_hardware_mask ?p AND pc_hardware_mask c) \<noteq> ep_hardware_mask ?p \<or>
    ep_memory_bytes ?p > pc_available_memory_bytes c \<or> fp_lt (ep_quality ?p) (pc_minimum_quality c)"
  let ?G2 = "plan_switching df c ?p > budget - pc_reserve_ns c \<or>
    df_estimates df ! i > budget - pc_reserve_ns c - plan_switching df c ?p"
  have fe: "feasible df c i \<longleftrightarrow> \<not> ?G1 \<and> \<not> ?G2"
    unfolding fit feasible_def using q r i by (auto simp: not_less)
  show ?thesis
    unfolding select_step_def Let_def cost split_conv fe by (cases ?G1; cases ?G2; simp only: simp_thms if_True if_False)
qed

text \<open>After the loop has seen the first \<open>k\<close> plans, the best index is feasible and no worse than any.\<close>

definition select_inv :: "DeadlineFlow \<Rightarrow> PlanContext \<Rightarrow> nat \<Rightarrow> nat option \<times> u64 \<Rightarrow> bool" where
  "select_inv df c k bp \<longleftrightarrow>
     (case fst bp of
        None \<Rightarrow> (\<forall>j < k. \<not> feasible df c j)
      | Some b \<Rightarrow> feasible df c b \<and> b < k \<and> snd bp = of_nat (plan_cost df c b) \<and>
          (\<forall>j < k. feasible df c j \<longrightarrow> better_or_equal df c b j))"

lemma feasible_cost_bound: "feasible df c i \<Longrightarrow> plan_cost df c i \<le> SIZE_MAX"
  using unat_context_budget [of c] unat_u64_le_max [of "context_budget c"] by (simp add: feasible_def)

lemma select_step_inv:
  assumes wf: "df_wf df" and ok: "context_ok c" and i: "i < length (df_plans df)"
    and bud: "budget = context_budget c" and res: "pc_reserve_ns c < budget"
    and inv: "select_inv df c i bp"
  shows "select_inv df c (Suc i) (select_step df c budget i bp)"
proof (cases "feasible df c i")
  case False
  then have "select_step df c budget i bp = bp"
    using select_step_feasible [OF assms(1-5), of "fst bp" "snd bp"] by simp
  with inv False show ?thesis by (auto simp: select_inv_def less_Suc_eq split: option.splits)
next
  case True
  note cb = feasible_cost_bound [OF True]
  show ?thesis
  proof (cases "fst bp")
    case None
    then have "select_step df c budget i bp = (Some i, of_nat (plan_cost df c i))"
      using select_step_feasible [OF assms(1-5), of "fst bp" "snd bp"] True by (cases bp) simp
    with None inv True show ?thesis
      by (auto simp: select_inv_def less_Suc_eq better_or_equal_def)
  next
    case (Some b)
    with inv have b: "feasible df c b" "b < i" "snd bp = of_nat (plan_cost df c b)"
      and le: "\<forall>j < i. feasible df c j \<longrightarrow> better_or_equal df c b j" by (auto simp: select_inv_def)
    have fin: "isfinite (ep_quality (df_plans df ! i))" "isfinite (ep_quality (df_plans df ! b))"
      using df_wf_finite [OF wf] i b(2) by auto
    have less: "(of_nat (plan_cost df c i) < (of_nat (plan_cost df c b) :: u64)) \<longleftrightarrow> plan_cost df c i < plan_cost df c b"
      using cb feasible_cost_bound [OF b(1)] by (simp add: word_less_nat_alt unat_of_nat_u64)
    have eq: "select_step df c budget i bp =
      (if quality_at df b < quality_at df i \<or> quality_at df i = quality_at df b \<and> plan_cost df c i < plan_cost df c b
       then (Some i, of_nat (plan_cost df c i)) else bp)"
      using select_step_feasible [OF assms(1-5), of "fst bp" "snd bp"] True Some b(3) fin less
      by (cases bp) (simp add: fp_finite quality_at_def)
    show ?thesis
      unfolding eq using True b le Some
      by (auto simp: select_inv_def less_Suc_eq better_or_equal_def)
  qed
qed

lemma select_fold_inv:
  assumes "df_wf df" "context_ok c" "budget = context_budget c" "pc_reserve_ns c < budget"
    and "k \<le> length (df_plans df)"
  shows "select_inv df c k (fold (select_step df c budget) [0 ..< k] (None, U64_MAX))"
  using assms(5)
proof (induction k)
  case 0
  then show ?case by (simp add: select_inv_def)
next
  case (Suc k)
  with select_step_inv [OF assms(1,2) _ assms(3,4)] show ?case by simp
qed

lemma create_plans_wf:
  assumes "create_plans plans df = Inr df'" and "df_wf df" and "length (df_plans df) + length plans \<le> kMaxPlans"
  shows "df_wf df' \<and> df_plans df' = df_plans df @ plans \<and> df_last df' = df_last df"
  using assms
proof (induction plans df rule: create_plans.induct)
  case (2 plan plans df)
  let ?d = "df\<lparr>df_plans := df_plans df @ [plan], df_estimates := df_estimates df @ [ep_latency_ns plan]\<rparr>"
  have ok: "\<not> plan_invalid plan" "\<not> list_ex (\<lambda>q. ep_id q = ep_id plan) (df_plans df)"
    "create_plans plans ?d = Inr df'"
    using "2.prems"(1) by (auto split: if_splits)
  have "df_wf ?d"
    using "2.prems"(2,3) ok by (auto simp: df_wf_def list_ex_iff intro: list_all2_appendI)
  with "2.IH" [OF ok(1,2,3)] "2.prems"(3) show ?case by simp
qed simp

lemma observe_at_spec:
  assumes "list_all2 (\<lambda>p e. ep_latency_ns p \<le> e) ps es"
    and "observe_at i lat ps es = Some es'"
  shows "list_all2 (\<lambda>p e. ep_latency_ns p \<le> e) ps es' \<and> length es' = length es"
  using assms
proof (induction i lat ps es arbitrary: es' rule: observe_at.induct)
  case (1 i lat p ps e es)
  then show ?case by (auto simp: le_max_iff_disj split: if_splits)
qed auto

lemma observe_at_None:
  assumes "length es = length ps" "observe_at i lat ps es = None"
  shows "i \<notin> ep_id ` set ps"
  using assms
  by (induction i lat ps es rule: observe_at.induct) (auto split: if_splits)

lemma observe_at_Some:
  assumes "length es = length ps" "observe_at i lat ps es = Some es'"
  shows "\<exists>k < length ps. ep_id (ps ! k) = i \<and>
    es' = es[k := max (max (ep_latency_ns (ps ! k)) lat) (es ! k - es ! k div 8)]"
  using assms
proof (induction i lat ps es arbitrary: es' rule: observe_at.induct)
  case (1 i lat p ps e es)
  show ?case
  proof (cases "ep_id p = i")
    case True
    with "1.prems" show ?thesis by (intro exI [of _ 0]) auto
  next
    case False
    with "1.prems" obtain es1 where es1: "observe_at i lat ps es = Some es1" "es' = e # es1" by auto
    with "1.IH" [OF False _ es1(1)] "1.prems"(1) obtain k where "k < length ps" "ep_id (ps ! k) = i"
      "es1 = es[k := max (max (ep_latency_ns (ps ! k)) lat) (es ! k - es ! k div 8)]" by auto
    with es1 show ?thesis by (intro exI [of _ "Suc k"]) auto
  qed
qed auto

lemma unat_minus_eighth: "unat (e - e div 8) = unat e - unat e div 8" for e :: u64
  by (simp add: unat_sub word_le_nat_alt unat_div)

lemma df_observe_wf: "df_wf df \<Longrightarrow> df_wf (snd (df_observe i lat df))"
  using observe_at_spec [of "df_plans df" "df_estimates df" i lat]
  by (auto simp: df_observe_def df_wf_def split: option.splits)

interpretation lane: inductive_invariant "\<lambda>df. \<exists>plans. df_create plans = Inr df" lane_step df_wf
proof
  fix df
  assume "\<exists>plans. df_create plans = Inr df"
  then show "df_wf df"
    using create_plans_wf by (fastforce simp: df_create_def df_wf_def split: if_splits)
next
  fix df df'
  assume "lane_step df df'" "df_wf df"
  then show "df_wf df'" by (metis df_observe_wf lane_stepE snd_conv)
qed

section \<open>Properties\<close>

text \<open>
  C37: In every state a lane can reach from a created portfolio by recording latencies,
  \<open>select\<close> answers an unhealthy or invalid context with no plan; otherwise it returns a plan
  exactly when some plan is feasible (capable hardware, enough memory and quality, and
  estimate plus switching cost plus reserve within the granted time, computed without
  overflow), and the returned plan is feasible and of the highest quality, cheapest first.
\<close>

theorem select_optimal:
  assumes "reach (\<lambda>df. \<exists>plans. df_create plans = Inr df) lane_step df"
  shows "case df_select df c of
      None \<Rightarrow> \<not> (context_ok c \<and> (\<exists>i. feasible df c i))
    | Some k \<Rightarrow> context_ok c \<and> (\<exists>i. feasible df c i \<and> ep_id (df_plans df ! i) = k \<and>
        (\<forall>j. feasible df c j \<longrightarrow> better_or_equal df c i j))"
proof -
  have wf: "df_wf df" using assms by (rule lane.reach_inv)
  let ?n = "length (df_plans df)" and ?b = "context_budget c"
  let ?f = "fold (select_step df c ?b) [0 ..< ?n] (None, U64_MAX)"
  have ok: "(\<not> pc_healthy c \<or> \<not> isfinite (pc_minimum_quality c) \<or>
      fp_lt (pc_minimum_quality c) (Fin 0) \<or> fp_gt (pc_minimum_quality c) (Fin 1)) \<longleftrightarrow> \<not> context_ok c"
    by (auto simp: context_ok_def fp_finite)
  have res: "?b \<le> pc_reserve_ns c \<longleftrightarrow> \<not> unat (pc_reserve_ns c) < granted_ns c"
    using unat_context_budget [of c] by (auto simp: word_le_nat_alt)
  show ?thesis
  proof (cases "context_ok c \<and> pc_reserve_ns c < ?b")
    case False
    then have "df_select df c = None" unfolding df_select_def ok Let_def by auto
    with False res show ?thesis by (auto simp: feasible_def not_less)
  next
    case True
    then have sel: "df_select df c = map_option (\<lambda>b. ep_id (df_plans df ! b)) (fst ?f)"
      unfolding df_select_def ok Let_def by auto
    have "select_inv df c ?n ?f" using select_fold_inv [OF wf _ refl] True by simp
    moreover have "feasible df c j \<Longrightarrow> j < ?n" for j by (simp add: feasible_def)
    ultimately show ?thesis
      unfolding sel using True by (auto simp: select_inv_def split: option.splits)
  qed
qed

definition demo_plan :: "u32 \<Rightarrow> u64 \<Rightarrow> rat \<Rightarrow> ExecutionPlan" where
  "demo_plan i lat q = \<lparr>ep_id = i, ep_steps = 4, ep_solver = 0, ep_precision = 0, ep_trace_id = 0,
     ep_hardware_mask = 1, ep_latency_ns = lat, ep_memory_bytes = 10, ep_quality = Fin q\<rparr>"

definition demo_flow :: DeadlineFlow where
  "demo_flow = \<lparr>df_plans = [demo_plan 1 100 (1/2), demo_plan 2 900 1, demo_plan 3 300 (3/4)],
     df_estimates = [100, 900, 300], df_last = None\<rparr>"

definition demo_context :: PlanContext where
  "demo_context = \<lparr>pc_slack_ns = 1000, pc_buffered_actions = 5, pc_period_ns = 100, pc_reserve_ns = 50,
     pc_switch_ns = 20, pc_available_memory_bytes = 100, pc_hardware_mask = 1,
     pc_minimum_quality = Fin 0, pc_healthy = True\<rparr>"

theorem select_optimal_witness:
  "df_select demo_flow demo_context = Some 3 \<and>
   (\<exists>i. feasible demo_flow demo_context i \<and> ep_id (df_plans demo_flow ! i) = 3 \<and>
     (\<forall>j. feasible demo_flow demo_context j \<longrightarrow> better_or_equal demo_flow demo_context i j))"
proof -
  have "df_create [demo_plan 1 100 (1/2), demo_plan 2 900 1, demo_plan 3 300 (3/4)] = Inr demo_flow"
    by (simp add: df_create_def kMaxPlans_def plan_invalid_def demo_plan_def fp_gt_def demo_flow_def)
  then have r: "reach (\<lambda>df. \<exists>plans. df_create plans = Inr df) lane_step demo_flow"
    by (blast intro: reach_init)
  have sel: "df_select demo_flow demo_context = Some 3"
    by (simp add: df_select_def demo_flow_def demo_context_def demo_plan_def context_budget_def
        select_step_def plan_switching_def fp_gt_def Let_def upt_rec)
  show ?thesis using select_optimal [OF r, of demo_context] unfolding sel by simp
qed

text \<open>
  Recording a latency for a known plan raises the estimate to at least the measured and the
  declared latency, never lowers it by more than an eighth, marks the plan as the last one and
  touches no other estimate; an unknown plan or a zero latency changes nothing.
\<close>

theorem observe_estimate:
  assumes "df_wf df"
  shows "case df_observe i lat df of
      (False, df') \<Rightarrow> df' = df \<and> (lat = 0 \<or> i \<notin> ep_id ` set (df_plans df))
    | (True, df') \<Rightarrow> lat \<noteq> 0 \<and> df_last df' = Some i \<and> df_plans df' = df_plans df \<and>
        (\<exists>k < length (df_plans df). ep_id (df_plans df ! k) = i \<and>
           lat \<le> df_estimates df' ! k \<and> ep_latency_ns (df_plans df ! k) \<le> df_estimates df' ! k \<and>
           unat (df_estimates df ! k) - unat (df_estimates df ! k) div 8 \<le> unat (df_estimates df' ! k) \<and>
           (\<forall>j. j \<noteq> k \<longrightarrow> df_estimates df' ! j = df_estimates df ! j))"
proof (cases "lat = 0")
  case True
  then show ?thesis by (simp add: df_observe_def)
next
  case False
  have len: "length (df_estimates df) = length (df_plans df)" using assms by (simp add: df_wf_def)
  show ?thesis
  proof (cases "observe_at i lat (df_plans df) (df_estimates df)")
    case None
    with False observe_at_None [OF len None] show ?thesis by (simp add: df_observe_def)
  next
    case (Some es)
    obtain k where k: "k < length (df_plans df)" "ep_id (df_plans df ! k) = i"
      and es: "es = (df_estimates df)[k := max (max (ep_latency_ns (df_plans df ! k)) lat)
        (df_estimates df ! k - df_estimates df ! k div 8)]"
      using observe_at_Some [OF len Some] by blast
    have "es ! k = max (max (ep_latency_ns (df_plans df ! k)) lat)
        (df_estimates df ! k - df_estimates df ! k div 8)"
      using k es len by simp
    then have "lat \<le> es ! k \<and> ep_latency_ns (df_plans df ! k) \<le> es ! k \<and>
        unat (df_estimates df ! k) - unat (df_estimates df ! k) div 8 \<le> unat (es ! k)"
      by (auto simp: max_def word_le_nat_alt unat_minus_eighth)
    moreover have "\<forall>j. j \<noteq> k \<longrightarrow> es ! j = df_estimates df ! j" using es by simp
    ultimately show ?thesis using False Some k by (auto simp: df_observe_def)
  qed
qed

theorem observe_estimate_witness:
  "fst (df_observe 2 1200 demo_flow) \<and> df_estimates (snd (df_observe 2 1200 demo_flow)) = [100, 1200, 300] \<and>
   df_observe 9 1200 demo_flow = (False, demo_flow)"
proof -
  have wf: "df_wf demo_flow"
    by (simp add: df_wf_def demo_flow_def kMaxPlans_def plan_invalid_def demo_plan_def fp_gt_def)
  have "df_observe 2 1200 demo_flow = (True, demo_flow\<lparr>df_estimates := [100, 1200, 300], df_last := Some 2\<rparr>)"
    by (simp add: df_observe_def demo_flow_def demo_plan_def max_def)
  moreover have "\<not> fst (df_observe 9 1200 demo_flow)"
    by (simp add: df_observe_def demo_flow_def demo_plan_def)
  with observe_estimate [OF wf, where i = 9 and lat = 1200] have "df_observe 9 1200 demo_flow = (False, demo_flow)"
    by (auto split: prod.splits bool.splits)
  ultimately show ?thesis by simp
qed

end
