(* ===== verification/Messages.thy ===== *)
theory Messages
  imports Model_Identity FE_Float
begin

text \<open>
  relay/protocol/messages.h, with the structures of core/protocol/contracts.h it carries: the
  envelope every relay message starts with, the condition and action messages of the head
  workers and their validation. A message keeps the fixed-size payload array of the source, so
  the model states what \<open>wire_size\<close> says of the part in use. Compile-time sizes
  (\<open>sizeof\<close>, \<open>offsetof\<close>) are named constants with the values the static assertions of the
  source fix; the dimensions have their default build values.
\<close>

section \<open>Definitions\<close>

subsection \<open>The C structures of the protocol\<close>

definition FE_ACTION_RUNNING :: u32 where [enum_simps]: "FE_ACTION_RUNNING = 0"
definition FE_ACTION_COMPLETE :: u32 where [enum_simps]: "FE_ACTION_COMPLETE = 1"
definition FE_ACTION_CANCELLED :: u32 where [enum_simps]: "FE_ACTION_CANCELLED = 2"
definition FE_ACTION_FAILED :: u32 where [enum_simps]: "FE_ACTION_FAILED = 3"

record fe_model_metadata =
  fmm_struct_size :: u32
  fmm_protocol_version :: u32
  fmm_architecture :: u32
  fmm_precision :: u32
  fmm_model_digest :: ModelDigest
  fmm_d_model :: u64
  fmm_n_layers :: u64
  fmm_d_inner :: u64
  fmm_d_state :: u64
  fmm_d_conv :: u64
  fmm_action_dim :: u64
  fmm_condition_dim :: u64
  fmm_decode_snapshot_bytes :: u64

record fe_condition_metadata =
  fcm_struct_size :: u32
  fcm_protocol_version :: u32
  fcm_solver :: u32
  fcm_reserved :: u32
  fcm_model_digest :: ModelDigest
  fcm_timestamp_ns :: u64
  fcm_deadline_ns :: u64
  fcm_generation :: u64
  fcm_condition_dim :: u64
  fcm_action_dim :: u64
  fcm_solver_steps :: u64
  fcm_remaining_nfe :: u64

record fe_action_metadata =
  fam_struct_size :: u32
  fam_protocol_version :: u32
  fam_solver :: u32
  fam_status :: u32
  fam_model_digest :: ModelDigest
  fam_timestamp_ns :: u64
  fam_deadline_ns :: u64
  fam_generation :: u64
  fam_condition_dim :: u64
  fam_action_dim :: u64
  fam_remaining_nfe :: u64

definition sizeof_fe_model_metadata :: nat where "sizeof_fe_model_metadata = 96"
definition sizeof_fe_condition_metadata :: nat where [wire_simps]: "sizeof_fe_condition_metadata = 88"
definition sizeof_fe_action_metadata :: nat where [wire_simps]: "sizeof_fe_action_metadata = 80"

subsection \<open>The envelope\<close>

type_synonym MessageKind = u16
type_synonym RelayActionCode = u32

definition kMessageMagic :: u32 where [enum_simps]: "kMessageMagic = 0x31455246"
definition kMessageVersion :: u16 where [enum_simps]: "kMessageVersion = 1"
definition kMaxConditionDim :: nat where [wire_simps]: "kMaxConditionDim = 4096"
definition kMaxActionDim :: nat where [wire_simps]: "kMaxActionDim = 1024"

definition MessageKind_kUnknown :: MessageKind where [enum_simps]: "MessageKind_kUnknown = 0"
definition MessageKind_kCondition :: MessageKind where [enum_simps]: "MessageKind_kCondition = 1"
definition MessageKind_kAction :: MessageKind where [enum_simps]: "MessageKind_kAction = 2"
definition MessageKind_kShutdown :: MessageKind where [enum_simps]: "MessageKind_kShutdown = 3"
definition MessageKind_kJobRequest :: MessageKind where [enum_simps]: "MessageKind_kJobRequest = 4"
definition MessageKind_kJobResult :: MessageKind where [enum_simps]: "MessageKind_kJobResult = 5"
definition MessageKind_kJobEvent :: MessageKind where [enum_simps]: "MessageKind_kJobEvent = 6"
definition MessageKind_kJobControlRequest :: MessageKind where [enum_simps]: "MessageKind_kJobControlRequest = 7"
definition MessageKind_kJobControlResponse :: MessageKind where [enum_simps]: "MessageKind_kJobControlResponse = 8"

definition RelayAction_kInference :: RelayActionCode where [enum_simps]: "RelayAction_kInference = 0"
definition RelayAction_kRejectedStale :: RelayActionCode where [enum_simps]: "RelayAction_kRejectedStale = 1"
definition RelayAction_kRejectedDeadline :: RelayActionCode where [enum_simps]: "RelayAction_kRejectedDeadline = 2"
definition RelayAction_kRejectedCapacity :: RelayActionCode where [enum_simps]: "RelayAction_kRejectedCapacity = 3"
definition RelayAction_kExpired :: RelayActionCode where [enum_simps]: "RelayAction_kExpired = 4"

record MessageEnvelope =
  me_magic :: u32
  me_version :: u16
  me_kind :: MessageKind
  me_struct_size :: u32
  me_flags :: u32
  me_sequence :: u64
  me_session_id :: u64

definition sizeof_MessageEnvelope :: nat where [wire_simps]: "sizeof_MessageEnvelope = 32"

definition default_envelope :: MessageEnvelope where
  "default_envelope = \<lparr>me_magic = kMessageMagic, me_version = kMessageVersion,
     me_kind = MessageKind_kUnknown, me_struct_size = 0, me_flags = 0, me_sequence = 0, me_session_id = 0\<rparr>"

datatype ProtocolResult = PR_kSuccess | PR_kInvalidEnvelope | PR_kDimensionExceeded | PR_kInvalidMetadata

definition valid_envelope :: "MessageEnvelope \<Rightarrow> MessageKind \<Rightarrow> nat \<Rightarrow> bool" where
  "valid_envelope e expected expected_size \<longleftrightarrow>
     me_magic e = kMessageMagic \<and> me_version e = kMessageVersion \<and> me_kind e = expected \<and>
     unat (me_struct_size e) = expected_size \<and> me_flags e = 0"

subsection \<open>Condition, action and control messages\<close>

record ConditionMessage =
  cm_envelope :: MessageEnvelope
  cm_metadata :: fe_condition_metadata
  cm_payload :: "fp list"

record ActionMessage =
  am_envelope :: MessageEnvelope
  am_metadata :: fe_action_metadata
  am_action :: "fp list"

record ControlMessage =
  ctl_envelope :: MessageEnvelope
  ctl_reason :: u64

definition clamp_dim :: "u64 \<Rightarrow> nat \<Rightarrow> nat" where
  "clamp_dim d limit = min (unat d) limit"

definition condition_values :: "ConditionMessage \<Rightarrow> fp list" where
  "condition_values m = take (clamp_dim (fcm_condition_dim (cm_metadata m)) kMaxConditionDim) (cm_payload m)"

definition noise_values :: "ConditionMessage \<Rightarrow> fp list" where
  "noise_values m =
     (let condition = clamp_dim (fcm_condition_dim (cm_metadata m)) kMaxConditionDim;
          action = clamp_dim (fcm_action_dim (cm_metadata m)) kMaxActionDim
      in take action (drop condition (cm_payload m)))"

definition default_condition :: ConditionMessage where
  "default_condition = \<lparr>cm_envelope = default_envelope\<lparr>me_kind := MessageKind_kCondition\<rparr>,
     cm_metadata = \<lparr>fcm_struct_size = 0, fcm_protocol_version = 0, fcm_solver = 0, fcm_reserved = 0,
       fcm_model_digest = replicate 16 0, fcm_timestamp_ns = 0, fcm_deadline_ns = 0, fcm_generation = 0,
       fcm_condition_dim = 0, fcm_action_dim = 0, fcm_solver_steps = 0, fcm_remaining_nfe = 0\<rparr>,
     cm_payload = replicate (kMaxConditionDim + kMaxActionDim) (Fin 0)\<rparr>"

definition make_shutdown_message :: "u64 \<Rightarrow> u64 \<Rightarrow> u64 \<Rightarrow> ControlMessage" where
  "make_shutdown_message sequence session_id reason =
     \<lparr>ctl_envelope = default_envelope\<lparr>me_kind := MessageKind_kShutdown, me_struct_size := 40,
        me_sequence := sequence, me_session_id := session_id\<rparr>,
      ctl_reason = reason\<rparr>"

definition wire_size_condition :: "ConditionMessage \<Rightarrow> nat" where
  "wire_size_condition m =
     (let condition = clamp_dim (fcm_condition_dim (cm_metadata m)) kMaxConditionDim;
          action = clamp_dim (fcm_action_dim (cm_metadata m)) kMaxActionDim
      in (sizeof_MessageEnvelope + sizeof_fe_condition_metadata) + (condition + action) * 4)"

definition wire_size_action :: "ActionMessage \<Rightarrow> nat" where
  "wire_size_action m =
     (let action = clamp_dim (fam_action_dim (am_metadata m)) kMaxActionDim
      in (sizeof_MessageEnvelope + sizeof_fe_action_metadata) + action * 4)"

definition required_nfe :: "u64 \<Rightarrow> u32 \<Rightarrow> u64" where
  "required_nfe steps solver =
     (let per_step = (if solver = 2 then 4 else if solver = 1 then 2 else 1)
      in if steps > U64_MAX div per_step then U64_MAX else steps * per_step)"

definition validate_condition :: "ConditionMessage \<Rightarrow> ProtocolResult" where
  "validate_condition m =
     (let e = cm_envelope m; d = cm_metadata m
      in if me_magic e \<noteq> kMessageMagic \<or> me_version e \<noteq> kMessageVersion \<or>
            me_kind e \<noteq> MessageKind_kCondition \<or> me_flags e \<noteq> 0 then PR_kInvalidEnvelope
         else if unat (fcm_condition_dim d) > kMaxConditionDim \<or> unat (fcm_action_dim d) > kMaxActionDim
           then PR_kDimensionExceeded
         else if unat (me_struct_size e) \<noteq> wire_size_condition m then PR_kInvalidEnvelope
         else if unat (fcm_struct_size d) < sizeof_fe_condition_metadata \<or>
                 fcm_protocol_version d \<noteq> FE_PROTOCOL_VERSION \<or> fcm_reserved d \<noteq> 0 \<or>
                 fcm_solver d > 2 \<or> fcm_solver_steps d = 0 \<or>
                 fcm_remaining_nfe d \<noteq> required_nfe (fcm_solver_steps d) (fcm_solver d) \<or>
                 (fcm_deadline_ns d \<noteq> 0 \<and> fcm_deadline_ns d < fcm_timestamp_ns d)
           then PR_kInvalidMetadata
         else PR_kSuccess)"

definition validate_action :: "ActionMessage \<Rightarrow> ProtocolResult" where
  "validate_action m =
     (let e = am_envelope m; d = am_metadata m
      in if me_magic e \<noteq> kMessageMagic \<or> me_version e \<noteq> kMessageVersion \<or>
            me_kind e \<noteq> MessageKind_kAction \<or> me_flags e > RelayAction_kExpired then PR_kInvalidEnvelope
         else if unat (fam_condition_dim d) > kMaxConditionDim \<or> unat (fam_action_dim d) > kMaxActionDim
           then PR_kDimensionExceeded
         else if unat (me_struct_size e) \<noteq> wire_size_action m then PR_kInvalidEnvelope
         else if unat (fam_struct_size d) < sizeof_fe_action_metadata \<or>
                 fam_protocol_version d \<noteq> FE_PROTOCOL_VERSION \<or> fam_solver d > 2 \<or>
                 fam_status d > FE_ACTION_FAILED \<or>
                 (me_flags e \<noteq> RelayAction_kInference \<and> fam_status d \<noteq> FE_ACTION_FAILED)
           then PR_kInvalidMetadata
         else PR_kSuccess)"

definition action_code :: "ActionMessage \<Rightarrow> RelayActionCode" where
  "action_code m = me_flags (am_envelope m)"

definition relay_action_code_to_string :: "RelayActionCode \<Rightarrow> string" where
  "relay_action_code_to_string code =
     (if code = RelayAction_kInference then ''inference''
      else if code = RelayAction_kRejectedStale then ''rejected_stale''
      else if code = RelayAction_kRejectedDeadline then ''rejected_deadline''
      else if code = RelayAction_kRejectedCapacity then ''rejected_capacity''
      else if code = RelayAction_kExpired then ''expired''
      else ''unknown'')"

definition compatible_condition :: "ConditionMessage \<Rightarrow> fe_model_metadata \<Rightarrow> bool" where
  "compatible_condition m model \<longleftrightarrow>
     validate_condition m = PR_kSuccess \<and> fmm_protocol_version model = FE_PROTOCOL_VERSION \<and>
     fcm_condition_dim (cm_metadata m) = fmm_condition_dim model \<and>
     fcm_action_dim (cm_metadata m) = fmm_action_dim model \<and>
     fcm_model_digest (cm_metadata m) = fmm_model_digest model"

definition compatible_action :: "ActionMessage \<Rightarrow> fe_model_metadata \<Rightarrow> bool" where
  "compatible_action m model \<longleftrightarrow>
     validate_action m = PR_kSuccess \<and> fmm_protocol_version model = FE_PROTOCOL_VERSION \<and>
     fam_condition_dim (am_metadata m) = fmm_condition_dim model \<and>
     fam_action_dim (am_metadata m) = fmm_action_dim model \<and>
     fam_model_digest (am_metadata m) = fmm_model_digest model"

definition make_condition_message ::
  "ConditionMessage \<Rightarrow> fe_model_metadata \<Rightarrow> u64 \<Rightarrow> u64 \<Rightarrow> u64 \<Rightarrow> u64 \<Rightarrow> u64 \<Rightarrow> u64 \<Rightarrow> u32
    \<Rightarrow> fp list \<Rightarrow> fp list \<Rightarrow> ProtocolResult \<times> ConditionMessage" where
  "make_condition_message destination model sequence session_id timestamp_ns deadline_ns generation
      steps solver condition noise =
     (if fmm_protocol_version model \<noteq> FE_PROTOCOL_VERSION \<or> steps = 0 \<or> solver > 2 \<or>
         (deadline_ns \<noteq> 0 \<and> deadline_ns < timestamp_ns) then (PR_kInvalidMetadata, destination)
      else if length condition \<noteq> unat (fmm_condition_dim model) \<or>
              length noise \<noteq> unat (fmm_action_dim model) \<or>
              length condition > kMaxConditionDim \<or> length noise > kMaxActionDim
        then (PR_kDimensionExceeded, destination)
      else
        let md = \<lparr>fcm_struct_size = of_nat sizeof_fe_condition_metadata,
                  fcm_protocol_version = FE_PROTOCOL_VERSION, fcm_solver = solver, fcm_reserved = 0,
                  fcm_model_digest = fmm_model_digest model, fcm_timestamp_ns = timestamp_ns,
                  fcm_deadline_ns = deadline_ns, fcm_generation = generation,
                  fcm_condition_dim = fmm_condition_dim model, fcm_action_dim = fmm_action_dim model,
                  fcm_solver_steps = steps,
                  fcm_remaining_nfe = required_nfe steps solver\<rparr>;
            d1 = destination\<lparr>cm_metadata := md,
                  cm_envelope := default_envelope\<lparr>me_kind := MessageKind_kCondition,
                    me_sequence := sequence, me_session_id := session_id\<rparr>\<rparr>;
            d2 = d1\<lparr>cm_envelope := (cm_envelope d1)\<lparr>me_struct_size := of_nat (wire_size_condition d1)\<rparr>\<rparr>;
            c = clamp_dim (fcm_condition_dim md) kMaxConditionDim
        in (PR_kSuccess, d2\<lparr>cm_payload := blit (blit (cm_payload d2) 0 condition) c noise\<rparr>))"

definition make_rejected_action :: "ConditionMessage \<Rightarrow> u64 \<Rightarrow> RelayActionCode \<Rightarrow> ActionMessage" where
  "make_rejected_action request timestamp_ns code =
     (let r = cm_metadata request;
          d1 = \<lparr>am_envelope = default_envelope\<lparr>me_kind := MessageKind_kAction, me_flags := code,
                  me_sequence := me_sequence (cm_envelope request),
                  me_session_id := me_session_id (cm_envelope request)\<rparr>,
                am_metadata = \<lparr>fam_struct_size = of_nat sizeof_fe_action_metadata,
                  fam_protocol_version = FE_PROTOCOL_VERSION, fam_solver = fcm_solver r,
                  fam_status = FE_ACTION_FAILED, fam_model_digest = fcm_model_digest r,
                  fam_timestamp_ns = timestamp_ns, fam_deadline_ns = fcm_deadline_ns r,
                  fam_generation = fcm_generation r, fam_condition_dim = fcm_condition_dim r,
                  fam_action_dim = fcm_action_dim r, fam_remaining_nfe = fcm_remaining_nfe r\<rparr>,
                am_action = replicate kMaxActionDim (Fin 0)\<rparr>
      in d1\<lparr>am_envelope := (am_envelope d1)\<lparr>me_struct_size := of_nat (wire_size_action d1)\<rparr>\<rparr>)"

section \<open>Lemmas\<close>

lemma default_envelope_sel [simp]:
  "me_magic default_envelope = kMessageMagic" "me_version default_envelope = kMessageVersion"
  "me_flags default_envelope = 0"
  by (simp_all add: default_envelope_def)

lemma wire_size_condition_bound: "wire_size_condition m \<le> 20600"
  by (simp add: wire_size_condition_def Let_def clamp_dim_def wire_simps)

lemma wire_size_action_bound: "wire_size_action m \<le> 4208"
  by (simp add: wire_size_action_def Let_def clamp_dim_def wire_simps)

lemma unat_of_nat_u32: "n \<le> 4294967295 \<Longrightarrow> unat (of_nat n :: u32) = n"
  by (simp add: unat_of_nat)

text \<open>\<open>required_nfe\<close> is the product of the steps and the solver's evaluations, saturated.\<close>

lemma required_nfe_saturates:
  "unat (required_nfe steps solver) =
     min SIZE_MAX (unat steps * (if solver = 2 then 4 else if solver = 1 then 2 else 1))"
proof -
  define k :: u64 where "k = (if solver = 2 then 4 else if solver = 1 then 2 else 1)"
  have k: "unat k = (if solver = 2 then 4 else if solver = 1 then 2 else 1)" "0 < unat k"
    by (simp_all add: k_def)
  have "steps > U64_MAX div k \<longleftrightarrow> SIZE_MAX < unat steps * unat k"
    using k(2) by (simp add: word_less_nat_alt unat_div div_less_iff_less_mult)
  then show ?thesis
    unfolding required_nfe_def Let_def k_def [symmetric] k(1) [symmetric]
    by (auto simp: unat_mult_no_overflow not_less)
qed

lemma condition_message_built:
  assumes "length (cm_payload dst) = kMaxConditionDim + kMaxActionDim"
  shows "case make_condition_message dst model sq sid ts dl gen steps solver condition noise of
      (PR_kSuccess, m) \<Rightarrow> compatible_condition m model \<and> condition_values m = condition \<and>
         noise_values m = noise \<and> length (cm_payload m) = length (cm_payload dst) \<and>
         me_sequence (cm_envelope m) = sq \<and> me_session_id (cm_envelope m) = sid
    | (_, m) \<Rightarrow> m = dst \<and> \<not> (fmm_protocol_version model = FE_PROTOCOL_VERSION \<and> steps \<noteq> 0 \<and>
         solver \<le> 2 \<and> (dl = 0 \<or> ts \<le> dl) \<and> length condition = unat (fmm_condition_dim model) \<and>
         length noise = unat (fmm_action_dim model) \<and>
         length condition \<le> kMaxConditionDim \<and> length noise \<le> kMaxActionDim)"
proof (cases "fmm_protocol_version model \<noteq> FE_PROTOCOL_VERSION \<or> steps = 0 \<or> solver > 2 \<or> (dl \<noteq> 0 \<and> dl < ts)")
  case True
  then show ?thesis by (auto simp: make_condition_message_def not_less)
next
  case meta: False
  show ?thesis
  proof (cases "length condition \<noteq> unat (fmm_condition_dim model) \<or> length noise \<noteq> unat (fmm_action_dim model) \<or>
      length condition > kMaxConditionDim \<or> length noise > kMaxActionDim")
    case True
    with meta show ?thesis unfolding make_condition_message_def by auto
  next
    case False
    define md where "md = \<lparr>fcm_struct_size = of_nat sizeof_fe_condition_metadata,
      fcm_protocol_version = FE_PROTOCOL_VERSION, fcm_solver = solver, fcm_reserved = 0,
      fcm_model_digest = fmm_model_digest model, fcm_timestamp_ns = ts, fcm_deadline_ns = dl,
      fcm_generation = gen, fcm_condition_dim = fmm_condition_dim model,
      fcm_action_dim = fmm_action_dim model, fcm_solver_steps = steps,
      fcm_remaining_nfe = required_nfe steps solver\<rparr>"
    define m where "m = snd (make_condition_message dst model sq sid ts dl gen steps solver condition noise)"
    have m: "make_condition_message dst model sq sid ts dl gen steps solver condition noise = (PR_kSuccess, m)"
      and pay0: "cm_payload m = blit (blit (cm_payload dst) 0 condition)
        (clamp_dim (fmm_condition_dim model) kMaxConditionDim) noise"
      and md: "cm_metadata m = md"
      and env: "cm_envelope m = default_envelope\<lparr>me_kind := MessageKind_kCondition, me_sequence := sq,
        me_session_id := sid, me_struct_size := of_nat (wire_size_condition m)\<rparr>"
      unfolding m_def make_condition_message_def if_not_P [OF meta] if_not_P [OF False] Let_def md_def
      by (simp_all add: wire_size_condition_def Let_def)
    have dims: "clamp_dim (fmm_condition_dim model) kMaxConditionDim = length condition"
      "clamp_dim (fmm_action_dim model) kMaxActionDim = length noise"
      using False by (simp_all add: clamp_dim_def)
    have len: "length condition + length noise \<le> length (cm_payload dst)" using assms False by simp
    have pay: "cm_payload m = condition @ noise @ drop (length condition + length noise) (cm_payload dst)"
      using len pay0 dims by (simp add: blit_def add.commute)
    have ws: "unat (of_nat (wire_size_condition m) :: u32) = wire_size_condition m"
      using wire_size_condition_bound [of m] by (simp add: unat_of_nat_u32)
    have vm: "\<not> (unat (fcm_condition_dim md) > kMaxConditionDim \<or> unat (fcm_action_dim md) > kMaxActionDim)"
      "\<not> (dl \<noteq> 0 \<and> dl < ts)" "\<not> solver > 2" "steps \<noteq> 0" "fmm_protocol_version model = FE_PROTOCOL_VERSION"
      using meta False by (auto simp: md_def)
    have "validate_condition m = PR_kSuccess"
      unfolding validate_condition_def Let_def md if_not_P [OF vm(1)] env
      using vm(2-4) by (auto simp: ws md_def wire_simps)
    then have "compatible_condition m model"
      using vm(5) by (simp add: compatible_condition_def md md_def)
    moreover have "condition_values m = condition" "noise_values m = noise"
      using pay dims by (simp_all add: condition_values_def noise_values_def Let_def md md_def)
    moreover have "me_sequence (cm_envelope m) = sq" "me_session_id (cm_envelope m) = sid"
      by (simp_all add: env)
    ultimately show ?thesis using m pay len by simp
  qed
qed

section \<open>Properties\<close>

text \<open>
  A condition message that \<open>make_condition_message\<close> builds for a model passes that model's
  compatibility test, which includes \<open>validate\<close>, and the receiver reads exactly the
  condition and noise vectors that were passed in, whatever the reused message held before. It
  is built exactly when the arguments are admissible; otherwise the destination is untouched.
\<close>

theorem condition_message_roundtrip:
  assumes "length (cm_payload dst) = kMaxConditionDim + kMaxActionDim"
  shows "case make_condition_message dst model sq sid ts dl gen steps solver condition noise of
      (PR_kSuccess, m) \<Rightarrow> compatible_condition m model \<and> condition_values m = condition \<and>
         noise_values m = noise \<and> length (cm_payload m) = length (cm_payload dst) \<and>
         me_sequence (cm_envelope m) = sq \<and> me_session_id (cm_envelope m) = sid
    | (_, m) \<Rightarrow> m = dst \<and> \<not> (fmm_protocol_version model = FE_PROTOCOL_VERSION \<and> steps \<noteq> 0 \<and>
         solver \<le> 2 \<and> (dl = 0 \<or> ts \<le> dl) \<and> length condition = unat (fmm_condition_dim model) \<and>
         length noise = unat (fmm_action_dim model) \<and>
         length condition \<le> kMaxConditionDim \<and> length noise \<le> kMaxActionDim)"
  using assms by (rule condition_message_built)

definition demo_model :: fe_model_metadata where
  "demo_model = \<lparr>fmm_struct_size = 96, fmm_protocol_version = FE_PROTOCOL_VERSION, fmm_architecture = 2,
     fmm_precision = 1, fmm_model_digest = replicate 16 7, fmm_d_model = 8, fmm_n_layers = 1, fmm_d_inner = 8,
     fmm_d_state = 2, fmm_d_conv = 2, fmm_action_dim = 1, fmm_condition_dim = 2, fmm_decode_snapshot_bytes = 0\<rparr>"

definition blank_condition :: ConditionMessage where
  "blank_condition = \<lparr>cm_envelope = default_envelope,
     cm_metadata = \<lparr>fcm_struct_size = 0, fcm_protocol_version = 0, fcm_solver = 0, fcm_reserved = 0,
       fcm_model_digest = replicate 16 0, fcm_timestamp_ns = 0, fcm_deadline_ns = 0, fcm_generation = 0,
       fcm_condition_dim = 0, fcm_action_dim = 0, fcm_solver_steps = 0, fcm_remaining_nfe = 0\<rparr>,
     cm_payload = replicate (kMaxConditionDim + kMaxActionDim) (Fin 0)\<rparr>"

theorem condition_message_roundtrip_witness:
  "\<exists>m. make_condition_message blank_condition demo_model 1 2 10 20 3 4 1 [Fin 1, Fin 2] [Fin 3] = (PR_kSuccess, m) \<and>
     compatible_condition m demo_model \<and> condition_values m = [Fin 1, Fin 2] \<and> noise_values m = [Fin 3]"
proof -
  have len: "length (cm_payload blank_condition) = kMaxConditionDim + kMaxActionDim"
    by (simp add: blank_condition_def)
  have "fst (make_condition_message blank_condition demo_model 1 2 10 20 3 4 1 [Fin 1, Fin 2] [Fin 3]) = PR_kSuccess"
    by (simp add: make_condition_message_def demo_model_def wire_simps Let_def)
  with condition_message_roundtrip [OF len, where model = demo_model and sq = 1 and sid = 2 and
      ts = 10 and dl = 20 and gen = 3 and steps = 4 and solver = 1 and condition = "[Fin 1, Fin 2]" and noise = "[Fin 3]"]
  show ?thesis by (auto split: prod.splits)
qed

end
