(* ===== verification/Job_Control.thy ===== *)
theory Job_Control
  imports Messages
begin

text \<open>
  relay/protocol/job_control.h: the operator protocol of the worker pool. A response carries
  the pool status as counters and bit masks over at most eight workers.
\<close>

section \<open>Definitions\<close>

type_synonym JobControlOperation = u32
type_synonym JobControlCode = u32

definition kJobControlProtocolVersion :: u32 where [enum_simps]: "kJobControlProtocolVersion = 2"
definition kAllJobWorkers :: u32 where [enum_simps]: "kAllJobWorkers = 4294967295"
definition kMaxJobControlWorkers :: u32 where [enum_simps]: "kMaxJobControlWorkers = 8"

definition ControlOp_kStatus :: JobControlOperation where [enum_simps]: "ControlOp_kStatus = 1"
definition ControlOp_kDrainWorker :: JobControlOperation where [enum_simps]: "ControlOp_kDrainWorker = 2"
definition ControlOp_kResumeWorker :: JobControlOperation where [enum_simps]: "ControlOp_kResumeWorker = 3"
definition ControlOp_kShutdown :: JobControlOperation where [enum_simps]: "ControlOp_kShutdown = 4"
definition ControlOp_kRecoverWorker :: JobControlOperation where [enum_simps]: "ControlOp_kRecoverWorker = 5"

definition ControlCode_kSuccess :: JobControlCode where [enum_simps]: "ControlCode_kSuccess = 0"
definition ControlCode_kInvalidRequest :: JobControlCode where [enum_simps]: "ControlCode_kInvalidRequest = 1"
definition ControlCode_kInvalidWorker :: JobControlCode where [enum_simps]: "ControlCode_kInvalidWorker = 2"
definition ControlCode_kAlreadyDraining :: JobControlCode where [enum_simps]: "ControlCode_kAlreadyDraining = 3"
definition ControlCode_kWouldStrandWork :: JobControlCode where [enum_simps]: "ControlCode_kWouldStrandWork = 4"
definition ControlCode_kWorkerNotDrained :: JobControlCode where [enum_simps]: "ControlCode_kWorkerNotDrained = 5"
definition ControlCode_kWorkerQuarantined :: JobControlCode where [enum_simps]: "ControlCode_kWorkerQuarantined = 6"
definition ControlCode_kWorkerNotQuarantined :: JobControlCode where [enum_simps]: "ControlCode_kWorkerNotQuarantined = 7"

record JobControlRequestMetadata =
  jcqm_struct_size :: u32
  jcqm_protocol_version :: u32
  jcqm_operation :: JobControlOperation
  jcqm_worker_index :: u32
  jcqm_reserved :: u64

record JobControlStatus =
  jcs_worker_count :: u32
  jcs_accepting_workers :: u32
  jcs_busy_workers :: u32
  jcs_queued_jobs :: u32
  jcs_draining_mask :: u32
  jcs_drained_mask :: u32
  jcs_bound_mask :: u32
  jcs_quarantined_mask :: u32
  jcs_worker_failures :: u64
  jcs_worker_quarantines :: u64
  jcs_qos_rejections :: u64
  jcs_requests_received :: u64
  jcs_requests_accepted :: u64
  jcs_requests_rejected :: u64
  jcs_results_published :: u64
  jcs_corrupt_inputs :: u64
  jcs_publish_blocked :: u64

record JobControlResponseMetadata =
  jcrm_struct_size :: u32
  jcrm_protocol_version :: u32
  jcrm_operation :: JobControlOperation
  jcrm_code :: JobControlCode
  jcrm_worker_index :: u32
  jcrm_reserved :: u32
  jcrm_status :: JobControlStatus

record JobControlRequest =
  jcq_envelope :: MessageEnvelope
  jcq_metadata :: JobControlRequestMetadata

record JobControlResponse =
  jcr_envelope :: MessageEnvelope
  jcr_metadata :: JobControlResponseMetadata

definition sizeof_JobControlRequestMetadata :: nat where [wire_simps]: "sizeof_JobControlRequestMetadata = 24"
definition sizeof_JobControlRequest :: nat where [wire_simps]: "sizeof_JobControlRequest = 56"
definition sizeof_JobControlResponseMetadata :: nat where [wire_simps]: "sizeof_JobControlResponseMetadata = 128"
definition sizeof_JobControlResponse :: nat where [wire_simps]: "sizeof_JobControlResponse = 160"

definition default_control_status :: JobControlStatus where
  "default_control_status = \<lparr>jcs_worker_count = 0, jcs_accepting_workers = 0, jcs_busy_workers = 0,
     jcs_queued_jobs = 0, jcs_draining_mask = 0, jcs_drained_mask = 0, jcs_bound_mask = 0,
     jcs_quarantined_mask = 0, jcs_worker_failures = 0, jcs_worker_quarantines = 0, jcs_qos_rejections = 0,
     jcs_requests_received = 0, jcs_requests_accepted = 0, jcs_requests_rejected = 0,
     jcs_results_published = 0, jcs_corrupt_inputs = 0, jcs_publish_blocked = 0\<rparr>"

definition default_control_request :: JobControlRequest where
  "default_control_request =
     \<lparr>jcq_envelope = default_envelope\<lparr>me_kind := MessageKind_kJobControlRequest\<rparr>,
      jcq_metadata = \<lparr>jcqm_struct_size = of_nat sizeof_JobControlRequestMetadata,
        jcqm_protocol_version = kJobControlProtocolVersion, jcqm_operation = ControlOp_kStatus,
        jcqm_worker_index = kAllJobWorkers, jcqm_reserved = 0\<rparr>\<rparr>"

definition default_control_response :: JobControlResponse where
  "default_control_response =
     \<lparr>jcr_envelope = default_envelope\<lparr>me_kind := MessageKind_kJobControlResponse\<rparr>,
      jcr_metadata = \<lparr>jcrm_struct_size = of_nat sizeof_JobControlResponseMetadata,
        jcrm_protocol_version = kJobControlProtocolVersion, jcrm_operation = ControlOp_kStatus,
        jcrm_code = ControlCode_kSuccess, jcrm_worker_index = kAllJobWorkers, jcrm_reserved = 0,
        jcrm_status = default_control_status\<rparr>\<rparr>"

definition valid_job_control_operation :: "JobControlOperation \<Rightarrow> bool" where
  "valid_job_control_operation operation \<longleftrightarrow>
     operation \<ge> ControlOp_kStatus \<and> operation \<le> ControlOp_kRecoverWorker"

definition valid_job_control_code :: "JobControlCode \<Rightarrow> bool" where
  "valid_job_control_code code \<longleftrightarrow> code \<ge> ControlCode_kSuccess \<and> code \<le> ControlCode_kWorkerNotQuarantined"

definition requires_worker :: "JobControlOperation \<Rightarrow> bool" where
  "requires_worker operation \<longleftrightarrow> operation = ControlOp_kDrainWorker \<or>
     operation = ControlOp_kResumeWorker \<or> operation = ControlOp_kRecoverWorker"

definition valid_worker_target :: "JobControlOperation \<Rightarrow> u32 \<Rightarrow> bool" where
  "valid_worker_target operation worker_index \<longleftrightarrow>
     (let has_worker = (worker_index \<noteq> kAllJobWorkers) in requires_worker operation = has_worker)"

definition validate_control_request :: "JobControlRequest \<Rightarrow> ProtocolResult" where
  "validate_control_request r =
     (if \<not> valid_envelope (jcq_envelope r) MessageKind_kJobControlRequest sizeof_JobControlRequest
        then PR_kInvalidEnvelope
      else if unat (jcqm_struct_size (jcq_metadata r)) \<noteq> sizeof_JobControlRequestMetadata \<or>
              jcqm_protocol_version (jcq_metadata r) \<noteq> kJobControlProtocolVersion \<or>
              \<not> valid_job_control_operation (jcqm_operation (jcq_metadata r)) \<or>
              jcqm_reserved (jcq_metadata r) \<noteq> 0 \<or>
              \<not> valid_worker_target (jcqm_operation (jcq_metadata r)) (jcqm_worker_index (jcq_metadata r))
        then PR_kInvalidMetadata
      else PR_kSuccess)"

definition worker_mask :: "u32 \<Rightarrow> u32" where
  "worker_mask worker_count = (if worker_count = 0 then 0 else push_bit (unat worker_count) 1 - 1)"

definition validate_control_response :: "JobControlResponse \<Rightarrow> ProtocolResult" where
  "validate_control_response r =
     (if \<not> valid_envelope (jcr_envelope r) MessageKind_kJobControlResponse sizeof_JobControlResponse
        then PR_kInvalidEnvelope
      else let d = jcr_metadata r; s = jcrm_status d
        in if unat (jcrm_struct_size d) \<noteq> sizeof_JobControlResponseMetadata \<or>
              jcrm_protocol_version d \<noteq> kJobControlProtocolVersion \<or>
              \<not> valid_job_control_operation (jcrm_operation d) \<or> \<not> valid_job_control_code (jcrm_code d) \<or>
              jcrm_reserved d \<noteq> 0 \<or> \<not> valid_worker_target (jcrm_operation d) (jcrm_worker_index d)
           then PR_kInvalidMetadata
           else if jcs_worker_count s > kMaxJobControlWorkers \<or>
                   jcs_accepting_workers s > jcs_worker_count s \<or> jcs_busy_workers s > jcs_worker_count s
           then PR_kInvalidMetadata
           else let valid_mask = worker_mask (jcs_worker_count s)
             in if ((jcs_draining_mask s OR jcs_drained_mask s OR jcs_bound_mask s OR jcs_quarantined_mask s)
                     AND NOT valid_mask) \<noteq> 0 \<or>
                   (jcs_drained_mask s AND NOT (jcs_draining_mask s)) \<noteq> 0 \<or>
                   (jcs_quarantined_mask s AND NOT (jcs_draining_mask s)) \<noteq> 0
                then PR_kInvalidMetadata
                else PR_kSuccess)"

definition make_job_control_request :: "u64 \<Rightarrow> u64 \<Rightarrow> JobControlOperation \<Rightarrow> u32 \<Rightarrow> JobControlRequest" where
  "make_job_control_request sequence session_id operation worker_index =
     (let r = default_control_request
      in r\<lparr>jcq_envelope := (jcq_envelope r)\<lparr>me_struct_size := of_nat sizeof_JobControlRequest,
             me_sequence := sequence, me_session_id := session_id\<rparr>,
           jcq_metadata := (jcq_metadata r)\<lparr>jcqm_operation := operation, jcqm_worker_index := worker_index\<rparr>\<rparr>)"

definition job_control_operation_to_string :: "JobControlOperation \<Rightarrow> string" where
  "job_control_operation_to_string operation =
     (if operation = ControlOp_kStatus then ''status''
      else if operation = ControlOp_kDrainWorker then ''drain''
      else if operation = ControlOp_kResumeWorker then ''resume''
      else if operation = ControlOp_kShutdown then ''shutdown''
      else if operation = ControlOp_kRecoverWorker then ''recover''
      else ''unknown'')"

definition job_control_code_to_string :: "JobControlCode \<Rightarrow> string" where
  "job_control_code_to_string code =
     (if code = ControlCode_kSuccess then ''success''
      else if code = ControlCode_kInvalidRequest then ''invalid_request''
      else if code = ControlCode_kInvalidWorker then ''invalid_worker''
      else if code = ControlCode_kAlreadyDraining then ''already_draining''
      else if code = ControlCode_kWouldStrandWork then ''would_strand_work''
      else if code = ControlCode_kWorkerNotDrained then ''worker_not_drained''
      else if code = ControlCode_kWorkerQuarantined then ''worker_quarantined''
      else if code = ControlCode_kWorkerNotQuarantined then ''worker_not_quarantined''
      else ''unknown'')"

section \<open>Lemmas\<close>

lemma worker_mask_bit:
  assumes "n \<le> 32"
  shows "bit (worker_mask (of_nat n)) i \<longleftrightarrow> i < n"
proof (cases "n = 0")
  case True
  then show ?thesis by (simp add: worker_mask_def)
next
  case False
  have un: "unat (of_nat n :: u32) = n" using assms by (simp add: unat_of_nat)
  with False have "(of_nat n :: u32) \<noteq> 0" by (metis unat_0)
  then have "worker_mask (of_nat n) = mask n"
    using un by (simp add: worker_mask_def mask_eq_decr_exp push_bit_eq_mult)
  then show ?thesis using assms by (auto simp: bit_mask_iff)
qed

end
