(* ===== verification/Shared_Ring.thy ===== *)
theory Shared_Ring
  imports Model_Identity
begin

text \<open>
  relay/shared_memory/shared_memory_ring.\{h,cc\}: the single-producer single-consumer ring in
  shared memory through which the relay processes talk.

  The mapping is its header fields, the two sequence counters and the bytes behind the header;
  a slot is addressed by its byte offset, as in the source, and its header fields are read and
  written in little-endian order at the offsets of \<open>SlotHeader\<close>. The counters are 64-bit words
  that wrap around. Two models share these definitions: the sequential operations \<open>try_push\<close>
  and \<open>try_pop\<close>, which implement the bounded FIFO contract, and in \<open>Ring_Concurrency\<close>
  the interleaving of a producer and a consumer at the granularity of their memory accesses.
\<close>

section \<open>Definitions\<close>

subsection \<open>Layout\<close>

definition kRingMagic :: u32 where "kRingMagic = 0x31475246"
definition kRingVersion :: u32 where "kRingVersion = 1"
definition kAlignment :: u64 where "kAlignment = 64"
definition sizeof_RingHeader :: nat where "sizeof_RingHeader = 192"
definition sizeof_SlotHeader :: nat where "sizeof_SlotHeader = 16"

record RingConfig =
  rc_capacity :: u32
  rc_slot_bytes :: u32

datatype RingResult = RR_kSuccess | RR_kEmpty | RR_kFull | RR_kTooLarge | RR_kDestinationTooSmall | RR_kCorrupt

record RingMem =
  rg_magic :: u32
  rg_version :: u32
  rg_capacity :: u32
  rg_slot_bytes :: u32
  rg_mapping_bytes :: u64
  rg_write_sequence :: u64
  rg_read_sequence :: u64
  rg_slots :: "byte list"

definition align_up :: "u64 \<Rightarrow> u64" where
  "align_up v = (v + kAlignment - 1) AND NOT (kAlignment - 1)"

definition slot_stride :: "u32 \<Rightarrow> u64" where
  "slot_stride slot_bytes = align_up (of_nat sizeof_SlotHeader + ucast slot_bytes)"

definition has_single_bit :: "u32 \<Rightarrow> bool" where
  "has_single_bit x \<longleftrightarrow> list_ex (\<lambda>k. x = push_bit k 1) [0 ..< 32]"

definition required_bytes :: "RingConfig \<Rightarrow> u64" where
  "required_bytes c =
     (if rc_capacity c < 2 \<or> \<not> has_single_bit (rc_capacity c) \<or> rc_slot_bytes c = 0 then 0
      else let stride = slot_stride (rc_slot_bytes c)
        in if stride > (U64_MAX - of_nat sizeof_RingHeader) div ucast (rc_capacity c) then 0
           else of_nat sizeof_RingHeader + stride * ucast (rc_capacity c))"

text \<open>The byte offset of the slot of a sequence number, relative to the end of the header.\<close>

definition slot_offset :: "RingMem \<Rightarrow> u64 \<Rightarrow> nat" where
  "slot_offset r s =
     (let index = unat (s AND ucast (rg_capacity r - 1))
      in index * unat (slot_stride (rg_slot_bytes r)))"

definition ring_checksum :: "byte list \<Rightarrow> u64" where
  "ring_checksum payload =
     (let digest = fingerprint_bytes payload
      in fold (\<lambda>i v. v OR push_bit (8 * i) (ucast (digest ! i))) [0..<8] 0)"

definition posix_name :: "string \<Rightarrow> string" where
  "posix_name name =
     (let n = (if name = [] \<or> hd name \<noteq> CHR ''/'' then CHR ''/'' # name else name)
      in hd n # map (\<lambda>c. if c = CHR ''/'' then CHR ''_'' else c) (tl n))"

text \<open>
  \<open>validate_mapping\<close> of a mapping of the given size; \<open>None\<close> is the null mapping. The lock-free
  test is a static property of the platform: \<open>is_always_lock_free\<close> is asserted in the source.
\<close>

definition validate_mapping :: "RingMem option \<Rightarrow> nat \<Rightarrow> string + unit" where
  "validate_mapping mapping bytes =
     (case mapping of
        None \<Rightarrow> Inl ''Shared-memory ring is smaller than its header''
      | Some state \<Rightarrow>
          if bytes < sizeof_RingHeader then Inl ''Shared-memory ring is smaller than its header''
          else
            let expected = required_bytes \<lparr>rc_capacity = rg_capacity state, rc_slot_bytes = rg_slot_bytes state\<rparr>
            in if rg_magic state \<noteq> kRingMagic \<or> rg_version state \<noteq> kRingVersion \<or> expected = 0 \<or>
                  rg_mapping_bytes state \<noteq> expected \<or> bytes < unat expected
               then Inl ''Shared-memory ring header is incompatible or corrupt''
               else Inr ())"

text \<open>What \<open>create\<close> leaves in a fresh mapping of \<open>required_bytes\<close> bytes.\<close>

definition format_ring :: "RingConfig \<Rightarrow> RingMem" where
  "format_ring c = \<lparr>rg_magic = kRingMagic, rg_version = kRingVersion, rg_capacity = rc_capacity c,
     rg_slot_bytes = rc_slot_bytes c, rg_mapping_bytes = required_bytes c,
     rg_write_sequence = 0, rg_read_sequence = 0,
     rg_slots = replicate (unat (required_bytes c) - sizeof_RingHeader) 0\<rparr>"

subsection \<open>The fields of a slot\<close>

definition slot_bytes_field :: "RingMem \<Rightarrow> u64 \<Rightarrow> u32" where
  "slot_bytes_field r s = read_le (rg_slots r) (slot_offset r s)"

definition slot_reserved_field :: "RingMem \<Rightarrow> u64 \<Rightarrow> u32" where
  "slot_reserved_field r s = read_le (rg_slots r) (slot_offset r s + 4)"

definition slot_checksum_field :: "RingMem \<Rightarrow> u64 \<Rightarrow> u64" where
  "slot_checksum_field r s = read_le (rg_slots r) (slot_offset r s + 8)"

definition slot_payload :: "RingMem \<Rightarrow> u64 \<Rightarrow> byte list" where
  "slot_payload r s =
     take (unat (slot_bytes_field r s)) (drop (slot_offset r s + sizeof_SlotHeader) (rg_slots r))"

definition put_slot_bytes :: "u64 \<Rightarrow> u32 \<Rightarrow> RingMem \<Rightarrow> RingMem" where
  "put_slot_bytes s v r = r\<lparr>rg_slots := write_le (rg_slots r) (slot_offset r s) v\<rparr>"

definition put_slot_reserved :: "u64 \<Rightarrow> u32 \<Rightarrow> RingMem \<Rightarrow> RingMem" where
  "put_slot_reserved s v r = r\<lparr>rg_slots := write_le (rg_slots r) (slot_offset r s + 4) v\<rparr>"

definition put_slot_checksum :: "u64 \<Rightarrow> u64 \<Rightarrow> RingMem \<Rightarrow> RingMem" where
  "put_slot_checksum s v r = r\<lparr>rg_slots := write_le (rg_slots r) (slot_offset r s + 8) v\<rparr>"

definition put_slot_payload :: "u64 \<Rightarrow> byte list \<Rightarrow> RingMem \<Rightarrow> RingMem" where
  "put_slot_payload s payload r =
     r\<lparr>rg_slots := blit (rg_slots r) (slot_offset r s + sizeof_SlotHeader) payload\<rparr>"

subsection \<open>The operations\<close>

definition ring_config :: "RingMem option \<Rightarrow> RingConfig" where
  "ring_config mapping =
     (case mapping of None \<Rightarrow> \<lparr>rc_capacity = 16, rc_slot_bytes = 0\<rparr>
      | Some r \<Rightarrow> \<lparr>rc_capacity = rg_capacity r, rc_slot_bytes = rg_slot_bytes r\<rparr>)"

definition ring_size :: "RingMem option \<Rightarrow> u64" where
  "ring_size mapping =
     (case mapping of None \<Rightarrow> 0 | Some r \<Rightarrow> rg_write_sequence r - rg_read_sequence r)"

definition ring_try_push :: "byte list \<Rightarrow> RingMem option \<Rightarrow> RingResult \<times> RingMem option" where
  "ring_try_push payload mapping =
     (case mapping of
        None \<Rightarrow> (RR_kTooLarge, None)
      | Some r \<Rightarrow>
          if length payload > unat (rg_slot_bytes r) then (RR_kTooLarge, Some r)
          else
            let w = rg_write_sequence r; rd = rg_read_sequence r
            in if w - rd \<ge> ucast (rg_capacity r) then (RR_kFull, Some r)
               else
                 let r1 = put_slot_bytes w (of_nat (length payload)) r;
                     r2 = put_slot_reserved w 0 r1;
                     r3 = put_slot_checksum w (ring_checksum payload) r2;
                     r4 = put_slot_payload w payload r3
                 in (RR_kSuccess, Some (r4\<lparr>rg_write_sequence := w + 1\<rparr>)))"

text \<open>The result, \<open>bytes_read\<close>, the destination and the mapping.\<close>

definition ring_try_pop ::
  "byte list \<Rightarrow> RingMem option \<Rightarrow> RingResult \<times> nat \<times> byte list \<times> RingMem option" where
  "ring_try_pop destination mapping =
     (case mapping of
        None \<Rightarrow> (RR_kCorrupt, 0, destination, None)
      | Some r \<Rightarrow>
          let rd = rg_read_sequence r; w = rg_write_sequence r
          in if rd = w then (RR_kEmpty, 0, destination, Some r)
             else if slot_bytes_field r rd > rg_slot_bytes r \<or> slot_reserved_field r rd \<noteq> 0
               then (RR_kCorrupt, 0, destination, Some (r\<lparr>rg_read_sequence := rd + 1\<rparr>))
             else if length destination < unat (slot_bytes_field r rd)
               then (RR_kDestinationTooSmall, 0, destination, Some r)
             else
               let payload = slot_payload r rd
               in if slot_checksum_field r rd \<noteq> ring_checksum payload
                  then (RR_kCorrupt, 0, destination, Some (r\<lparr>rg_read_sequence := rd + 1\<rparr>))
                  else (RR_kSuccess, length payload, blit destination 0 payload,
                        Some (r\<lparr>rg_read_sequence := rd + 1\<rparr>)))"

section \<open>Abstraction\<close>

text \<open>
  A ring is well formed when its header validates, the slot area has the size the header
  promises, and the number of used slots, the wrapped difference of the counters, is at most
  the capacity.
\<close>

definition ring_used :: "RingMem \<Rightarrow> nat" where
  "ring_used r = unat (rg_write_sequence r - rg_read_sequence r)"

definition ring_shape :: "RingMem \<Rightarrow> bool" where
  "ring_shape r \<longleftrightarrow>
     required_bytes \<lparr>rc_capacity = rg_capacity r, rc_slot_bytes = rg_slot_bytes r\<rparr> \<noteq> 0 \<and>
     length (rg_slots r) =
       unat (required_bytes \<lparr>rc_capacity = rg_capacity r, rc_slot_bytes = rg_slot_bytes r\<rparr>) - sizeof_RingHeader"

definition slot_holds :: "RingMem \<Rightarrow> u64 \<Rightarrow> byte list \<Rightarrow> bool" where
  "slot_holds r s msg \<longleftrightarrow> length msg \<le> unat (rg_slot_bytes r) \<and>
     slot_bytes_field r s = of_nat (length msg) \<and> slot_reserved_field r s = 0 \<and>
     slot_checksum_field r s = ring_checksum msg \<and> slot_payload r s = msg"

definition ring_seq :: "RingMem \<Rightarrow> nat \<Rightarrow> u64" where
  "ring_seq r i = rg_read_sequence r + of_nat i"

definition ring_contents :: "RingMem \<Rightarrow> byte list list" where
  "ring_contents r = map (\<lambda>i. slot_payload r (ring_seq r i)) [0 ..< ring_used r]"

definition ring_invar :: "RingMem \<Rightarrow> bool" where
  "ring_invar r \<longleftrightarrow> ring_shape r \<and> ring_used r \<le> unat (rg_capacity r) \<and>
     (\<forall>i < ring_used r. slot_holds r (ring_seq r i) (slot_payload r (ring_seq r i)))"

section \<open>Lemmas\<close>

subsection \<open>Layout arithmetic\<close>

lemma unat_and_mask: "unat (w AND mask k :: 'a::len word) = unat w mod 2 ^ k"
  by (simp add: take_bit_eq_mask [symmetric] unsigned_take_bit_eq take_bit_nat_def)

lemma unat_and_not_mask: "unat (w AND NOT (mask k) :: 'a::len word) = unat w - unat w mod 2 ^ k"
proof -
  have "w - (w AND mask k) = w AND NOT (w AND mask k)"
    by (rule disjunctive_diff) (simp add: bit_and_iff)
  also have "\<dots> = w AND NOT (mask k)"
    by (rule bit_word_eqI) (auto simp: bit_and_iff bit_not_iff_eq bit_or_iff)
  finally have eq: "w AND NOT (mask k) = w - (w AND mask k)" ..
  have "w AND mask k \<le> w" by (simp add: word_le_nat_alt unat_and_mask)
  then show ?thesis by (simp add: eq unat_sub unat_and_mask)
qed

lemma kAlignment_mask: "kAlignment - 1 = mask 6"
  by (simp add: kAlignment_def mask_eq_exp_minus_1)

lemma unat_align_up: "unat v + 63 \<le> SIZE_MAX \<Longrightarrow> unat (align_up v) = (unat v + 63) - (unat v + 63) mod 64"
proof -
  assume v: "unat v + 63 \<le> SIZE_MAX"
  have "v + kAlignment - 1 = v + 63" by (simp add: kAlignment_def)
  moreover have "unat (v + 63) = unat v + 63" using v by (subst unat_add_no_overflow) simp_all
  ultimately show ?thesis
    unfolding align_up_def kAlignment_mask by (simp only: unat_and_not_mask) simp
qed

lemma unat_ucast_u32 [simp]: "unat (ucast (x :: u32) :: u64) = unat x"
  using unsigned_less [of x, where ?'a = nat] by (simp add: unsigned_ucast_eq take_bit_nat_def)

lemma unat_slot_stride:
  "unat (slot_stride b) = (unat b + 79) - (unat b + 79) mod 64"
proof -
  have b: "unat b < 4294967296" using unsigned_less [of b, where ?'a = nat] by simp
  have "unat (of_nat sizeof_SlotHeader + ucast b :: u64) = 16 + unat b"
    using b by (simp add: sizeof_SlotHeader_def unat_word_ariths)
  then show ?thesis using b by (simp add: slot_stride_def unat_align_up add.commute)
qed

lemma slot_stride_fits: "sizeof_SlotHeader + unat b \<le> unat (slot_stride b)"
  using mod_less_divisor [of 64 "unat b + 79"] by (simp add: unat_slot_stride sizeof_SlotHeader_def)

lemma slot_stride_aligned: "64 dvd unat (slot_stride b)"
  by (simp add: unat_slot_stride dvd_minus_mod)

lemma has_single_bitE:
  assumes "has_single_bit c"
  obtains k where "k < 32" "c = push_bit k 1" "unat c = 2 ^ k" "c - 1 = mask k"
proof -
  obtain k where k: "k < 32" "c = push_bit k 1" using assms by (auto simp: has_single_bit_def list_ex_iff)
  have "(2 :: nat) ^ k < 2 ^ 32" using k(1) by (intro power_strict_increasing) simp_all
  then have "unat (of_nat (2 ^ k) :: u32) = 2 ^ k" unfolding unat_of_nat by simp
  then have "unat (push_bit k 1 :: u32) = 2 ^ k" by (simp add: push_bit_eq_mult)
  moreover have "c - 1 = mask k" using k(2) by (simp add: mask_eq_exp_minus_1 push_bit_eq_mult)
  ultimately show ?thesis using that k by simp
qed

definition slot_index :: "RingMem \<Rightarrow> u64 \<Rightarrow> nat" where
  "slot_index r s = unat (s AND ucast (rg_capacity r - 1))"

lemma slot_offset_index: "slot_offset r s = slot_index r s * unat (slot_stride (rg_slot_bytes r))"
  by (simp add: slot_offset_def slot_index_def Let_def)

lemma required_bytesE:
  assumes "required_bytes c \<noteq> 0"
  obtains k where "k < 32" "unat (rc_capacity c) = 2 ^ k" "2 \<le> unat (rc_capacity c)" "rc_capacity c - 1 = mask k" "rc_slot_bytes c \<noteq> 0"
    "unat (required_bytes c) = sizeof_RingHeader + unat (slot_stride (rc_slot_bytes c)) * 2 ^ k"
proof -
  let ?st = "slot_stride (rc_slot_bytes c)" and ?c = "ucast (rc_capacity c) :: u64"
  have g: "\<not> (rc_capacity c < 2 \<or> \<not> has_single_bit (rc_capacity c) \<or> rc_slot_bytes c = 0)"
    "\<not> ?st > (U64_MAX - of_nat sizeof_RingHeader) div ?c"
    using assms unfolding required_bytes_def Let_def by metis+
  have req: "required_bytes c = of_nat sizeof_RingHeader + ?st * ?c"
    unfolding required_bytes_def Let_def if_not_P [OF g(1)] if_not_P [OF g(2)] ..
  obtain k where k: "k < 32" "unat (rc_capacity c) = 2 ^ k" "rc_capacity c - 1 = mask k"
    using g(1) has_single_bitE by blast
  have cap: "unat ?c = 2 ^ k" using k(2) by simp
  have "unat ?st * 2 ^ k \<le> SIZE_MAX - 192"
  proof -
    have "unat ?st \<le> (SIZE_MAX - 192) div 2 ^ k"
      using g(2) by (simp add: word_less_nat_alt unat_div k(2) not_less sizeof_RingHeader_def)
    then show ?thesis by (simp add: less_eq_div_iff_mult_less_eq)
  qed
  then have "unat (required_bytes c) = sizeof_RingHeader + unat ?st * 2 ^ k"
    unfolding req by (subst unat_add_no_overflow) (simp_all add: sizeof_RingHeader_def unat_mult_no_overflow k(2))
  moreover have "2 \<le> unat (rc_capacity c)" using g(1) by (simp add: word_less_nat_alt not_less)
  ultimately show ?thesis using that k g(1) by blast
qed

text \<open>The arithmetic content of a well-formed ring.\<close>

lemma ring_shapeE:
  assumes "ring_shape r"
  obtains k where "k < 32" "unat (rg_capacity r) = 2 ^ k" "2 \<le> unat (rg_capacity r)"
    "\<And>s. slot_index r s = unat s mod 2 ^ k"
    "length (rg_slots r) = unat (slot_stride (rg_slot_bytes r)) * 2 ^ k"
proof -
  from assms obtain k where k: "k < 32" "unat (rg_capacity r) = 2 ^ k" "2 \<le> unat (rg_capacity r)" "rg_capacity r - 1 = mask k"
    "unat (required_bytes \<lparr>rc_capacity = rg_capacity r, rc_slot_bytes = rg_slot_bytes r\<rparr>) =
      sizeof_RingHeader + unat (slot_stride (rg_slot_bytes r)) * 2 ^ k"
    unfolding ring_shape_def by (auto elim: required_bytesE)
  have "(ucast (mask k :: u32) :: u64) = mask k"
    using k(1) by (intro bit_word_eqI) (auto simp: bit_ucast_iff bit_mask_iff)
  then have "slot_index r s = unat s mod 2 ^ k" for s
    by (simp add: slot_index_def k(4) unat_and_mask)
  with that k assms show ?thesis by (simp add: ring_shape_def)
qed

lemma slot_in_bounds:
  assumes "ring_shape r"
  shows "slot_offset r s + unat (slot_stride (rg_slot_bytes r)) \<le> length (rg_slots r)"
proof -
  obtain k where k: "slot_index r s = unat s mod 2 ^ k" "length (rg_slots r) = unat (slot_stride (rg_slot_bytes r)) * 2 ^ k"
    using ring_shapeE [OF assms] by metis
  have "Suc (slot_index r s) \<le> 2 ^ k" using k(1) by (simp add: Suc_leI)
  then have "Suc (slot_index r s) * unat (slot_stride (rg_slot_bytes r)) \<le> 2 ^ k * unat (slot_stride (rg_slot_bytes r))"
    by (rule mult_le_mono1)
  then show ?thesis by (simp add: slot_offset_index k(2) mult.commute add.commute)
qed

lemma slots_disjoint:
  assumes "slot_index r s \<noteq> slot_index r t"
  shows "slot_offset r s + unat (slot_stride (rg_slot_bytes r)) \<le> slot_offset r t \<or>
    slot_offset r t + unat (slot_stride (rg_slot_bytes r)) \<le> slot_offset r s"
proof -
  have aux: "i < j \<Longrightarrow> i * st + st \<le> j * st" for i j st :: nat
    using mult_le_mono1 [of "Suc i" j st] by simp
  from assms show ?thesis using aux by (auto simp: slot_offset_index neq_iff)
qed

text \<open>Slots of nearby sequence numbers differ, across the wrap-around of the counters too.\<close>

lemma slot_index_neq:
  assumes "ring_shape r" "i < j" "j - i < unat (rg_capacity r)"
  shows "slot_index r (s + of_nat i) \<noteq> slot_index r (s + of_nat j)"
proof -
  obtain k where k: "k < 32" "unat (rg_capacity r) = 2 ^ k" "\<And>s. slot_index r s = unat s mod 2 ^ k"
    using ring_shapeE [OF assms(1)] by metis
  have dvd: "(2 :: nat) ^ k dvd 2 ^ 64" using k(1) by (intro le_imp_power_dvd) simp
  have idx: "slot_index r (s + of_nat n) = (unat s + n) mod 2 ^ k" for n
  proof -
    have "unat (s + of_nat n) = (unat s + n) mod 2 ^ 64" by (simp add: unat_word_ariths unat_of_nat mod_add_right_eq)
    then show ?thesis using dvd by (simp add: k(3) mod_mod_cancel)
  qed
  have "(unat s + i + 0) mod 2 ^ k \<noteq> (unat s + i + (j - i)) mod 2 ^ k"
    using assms(2,3) k(2) by (intro mod_add_neq) auto
  then show ?thesis using assms(2) by (simp add: idx)
qed

subsection \<open>Writing one slot leaves the others alone\<close>

text \<open>Two byte arrays that agree outside a block.\<close>

definition same_outside :: "nat \<Rightarrow> nat \<Rightarrow> byte list \<Rightarrow> byte list \<Rightarrow> bool" where
  "same_outside off n b b' \<longleftrightarrow> length b' = length b \<and>
     (\<forall>i < length b. i < off \<or> off + n \<le> i \<longrightarrow> b' ! i = b ! i)"

lemma same_outside_trans: "same_outside off n b b1 \<Longrightarrow> same_outside off n b1 b2 \<Longrightarrow> same_outside off n b b2"
  by (auto simp: same_outside_def)

lemma same_outside_write_le:
  fixes v :: "'a::len word"
  assumes "off \<le> off'" "off' + LENGTH('a) div 8 \<le> off + n" "off + n \<le> length b"
  shows "same_outside off n b (write_le b off' v)"
  using assms by (auto simp: same_outside_def nth_write_le)

lemma same_outside_blit:
  assumes "off \<le> off'" "off' + length x \<le> off + n" "off + n \<le> length b"
  shows "same_outside off n b (blit b off' x)"
  using assms by (auto simp: same_outside_def nth_blit)

lemma same_outside_read_le:
  assumes "same_outside off n b b'" "off' + LENGTH('a) div 8 \<le> length b"
    "off' + LENGTH('a) div 8 \<le> off \<or> off + n \<le> off'"
  shows "(read_le b' off' :: 'a::len word) = read_le b off'"
  by (rule read_le_cong) (use assms in \<open>auto simp: same_outside_def\<close>)

lemma same_outside_take:
  assumes "same_outside off n b b'" "off' + k \<le> off \<or> off + n \<le> off'"
  shows "take k (drop off' b') = take k (drop off' b)"
  using assms by (auto simp: same_outside_def intro!: nth_equalityI)

lemma slot_index_slots [simp]: "slot_index (r\<lparr>rg_slots := b\<rparr>) s = slot_index r s"
  by (simp add: slot_index_def)

lemma slot_offset_upd [simp]:
  "slot_offset (r\<lparr>rg_slots := b\<rparr>) s = slot_offset r s"
  "slot_offset (r\<lparr>rg_write_sequence := v\<rparr>) s = slot_offset r s"
  "slot_offset (r\<lparr>rg_read_sequence := v\<rparr>) s = slot_offset r s"
  by (simp_all add: slot_offset_def)

lemma ring_shape_upd [simp]:
  "length b = length (rg_slots r) \<Longrightarrow> ring_shape (r\<lparr>rg_slots := b\<rparr>) = ring_shape r"
  "ring_shape (r\<lparr>rg_write_sequence := v\<rparr>) = ring_shape r"
  "ring_shape (r\<lparr>rg_read_sequence := v\<rparr>) = ring_shape r"
  by (simp_all add: ring_shape_def)

lemma slot_fields_upd [simp]:
  "slot_bytes_field (r\<lparr>rg_write_sequence := v\<rparr>) s = slot_bytes_field r s"
  "slot_bytes_field (r\<lparr>rg_read_sequence := v\<rparr>) s = slot_bytes_field r s"
  "slot_payload (r\<lparr>rg_write_sequence := v\<rparr>) s = slot_payload r s"
  "slot_payload (r\<lparr>rg_read_sequence := v\<rparr>) s = slot_payload r s"
  "slot_holds (r\<lparr>rg_write_sequence := v\<rparr>) s m = slot_holds r s m"
  "slot_holds (r\<lparr>rg_read_sequence := v\<rparr>) s m = slot_holds r s m"
  by (simp_all add: slot_bytes_field_def slot_payload_def slot_holds_def slot_reserved_field_def slot_checksum_field_def)

text \<open>A write inside the slot of \<open>s\<close> does not change what a slot with another index holds.\<close>

lemma slot_holds_other:
  assumes sh: "ring_shape r" and so: "same_outside (slot_offset r s) (unat (slot_stride (rg_slot_bytes r))) (rg_slots r) b"
    and ne: "slot_index r s \<noteq> slot_index r t"
  shows "slot_holds r t m \<Longrightarrow> slot_holds (r\<lparr>rg_slots := b\<rparr>) t m"
    "slot_holds r t m \<Longrightarrow> slot_payload (r\<lparr>rg_slots := b\<rparr>) t = slot_payload r t"
proof -
  let ?st = "unat (slot_stride (rg_slot_bytes r))" and ?o = "slot_offset r t"
  have bd: "?o + ?st \<le> length (rg_slots r)" "16 + unat (rg_slot_bytes r) \<le> ?st"
    using slot_in_bounds [OF sh] slot_stride_fits by (auto simp: sizeof_SlotHeader_def)
  have dj: "?o + ?st \<le> slot_offset r s \<or> slot_offset r s + ?st \<le> ?o" using slots_disjoint [OF ne] by blast
  have hdr: "(read_le b ?o :: u32) = read_le (rg_slots r) ?o" "(read_le b (?o + 4) :: u32) = read_le (rg_slots r) (?o + 4)"
    "(read_le b (?o + 8) :: u64) = read_le (rg_slots r) (?o + 8)"
    by (rule same_outside_read_le [OF so]; use bd dj in auto)+
  have pay: "take k (drop (?o + 16) b) = take k (drop (?o + 16) (rg_slots r))" if "k \<le> unat (rg_slot_bytes r)" for k
    by (rule same_outside_take [OF so]) (use bd dj that in auto)
  assume h: "slot_holds r t m"
  then have n: "unat (slot_bytes_field r t) \<le> unat (rg_slot_bytes r)"
    using unsigned_less [of "rg_slot_bytes r", where ?'a = nat] by (auto simp: slot_holds_def unat_of_nat)
  show p: "slot_payload (r\<lparr>rg_slots := b\<rparr>) t = slot_payload r t"
    using hdr(1) pay [OF n] by (simp add: slot_payload_def slot_bytes_field_def sizeof_SlotHeader_def)
  show "slot_holds (r\<lparr>rg_slots := b\<rparr>) t m"
    using h p hdr by (simp add: slot_holds_def slot_bytes_field_def slot_reserved_field_def slot_checksum_field_def)
qed

text \<open>The four writes of a push fill the slot of the write counter and nothing else.\<close>

definition fill_slot :: "u64 \<Rightarrow> byte list \<Rightarrow> RingMem \<Rightarrow> RingMem" where
  "fill_slot s payload r = put_slot_payload s payload (put_slot_checksum s (ring_checksum payload)
     (put_slot_reserved s 0 (put_slot_bytes s (of_nat (length payload)) r)))"

lemmas put_slot_defs = put_slot_bytes_def put_slot_reserved_def put_slot_checksum_def put_slot_payload_def

lemma fill_slot_same_outside:
  assumes "ring_shape r" "length payload \<le> unat (rg_slot_bytes r)"
  shows "same_outside (slot_offset r s) (unat (slot_stride (rg_slot_bytes r))) (rg_slots r) (rg_slots (fill_slot s payload r))"
proof -
  let ?o = "slot_offset r s" and ?n = "unat (slot_stride (rg_slot_bytes r))"
  have bd: "?o + ?n \<le> length (rg_slots r)" "16 + length payload \<le> ?n"
    using slot_in_bounds [OF assms(1)] slot_stride_fits [of "rg_slot_bytes r"] assms(2) by (simp_all add: sizeof_SlotHeader_def)
  define b1 where "b1 = write_le (rg_slots r) ?o (of_nat (length payload) :: u32)"
  define b2 where "b2 = write_le b1 (?o + 4) (0 :: u32)"
  define b3 where "b3 = write_le b2 (?o + 8) (ring_checksum payload)"
  define b4 where "b4 = blit b3 (?o + 16) payload"
  have "same_outside ?o ?n (rg_slots r) b1" unfolding b1_def by (rule same_outside_write_le) (use bd in simp_all)
  moreover have "same_outside ?o ?n b1 b2" unfolding b2_def by (rule same_outside_write_le) (use bd in \<open>simp_all add: b1_def\<close>)
  moreover have "same_outside ?o ?n b2 b3" unfolding b3_def
    by (rule same_outside_write_le) (use bd in \<open>simp_all add: b1_def b2_def\<close>)
  moreover have "same_outside ?o ?n b3 b4" unfolding b4_def
    by (rule same_outside_blit) (use bd in \<open>simp_all add: b1_def b2_def b3_def\<close>)
  ultimately have "same_outside ?o ?n (rg_slots r) b4" by (meson same_outside_trans)
  moreover have "rg_slots (fill_slot s payload r) = b4"
    by (simp add: fill_slot_def put_slot_defs b1_def b2_def b3_def b4_def sizeof_SlotHeader_def)
  ultimately show ?thesis by simp
qed

lemma fill_slot_eq: "fill_slot s payload r = r\<lparr>rg_slots := rg_slots (fill_slot s payload r)\<rparr>"
  by (simp add: fill_slot_def put_slot_defs)

lemma fill_slot_holds:
  assumes sh: "ring_shape r" and len: "length payload \<le> unat (rg_slot_bytes r)"
  shows "slot_holds (fill_slot s payload r) s payload"
proof -
  let ?o = "slot_offset r s" and ?b = "rg_slots r"
  have bd: "?o + 16 + length payload \<le> length ?b"
    using slot_in_bounds [OF sh, of s] slot_stride_fits [of "rg_slot_bytes r"] len by (simp add: sizeof_SlotHeader_def)
  have n: "unat (of_nat (length payload) :: u32) = length payload"
    using len unsigned_less [of "rg_slot_bytes r", where ?'a = nat] by (simp add: unat_of_nat)
  show ?thesis
    unfolding slot_holds_def slot_payload_def slot_bytes_field_def slot_reserved_field_def slot_checksum_field_def
      fill_slot_def put_slot_defs
    using bd len n
    by (simp add: header_read_simps sizeof_SlotHeader_def)
qed

subsection \<open>The sequential operations\<close>

lemma ring_seq_upd [simp]:
  "ring_seq (r\<lparr>rg_slots := b\<rparr>) i = ring_seq r i" "ring_seq (r\<lparr>rg_write_sequence := v\<rparr>) i = ring_seq r i"
  "ring_seq (r\<lparr>rg_read_sequence := rg_read_sequence r + 1\<rparr>) i = ring_seq r (Suc i)"
  by (simp_all add: ring_seq_def)

lemma ring_seq_write: "ring_seq r (ring_used r) = rg_write_sequence r"
  by (simp add: ring_seq_def ring_used_def)

lemma capacity_u32: "unat (rg_capacity r) < 4294967296"
  using unsigned_less [of "rg_capacity r", where ?'a = nat] by simp

text \<open>Counting used slots across the wrap-around.\<close>

lemma ring_used_push:
  assumes "ring_used r < unat (rg_capacity r)"
  shows "unat (rg_write_sequence r + 1 - rg_read_sequence r) = Suc (ring_used r)"
proof -
  have eq: "rg_write_sequence r + 1 - rg_read_sequence r = (rg_write_sequence r - rg_read_sequence r) + 1" by simp
  have "unat ((rg_write_sequence r - rg_read_sequence r) + 1) = Suc (ring_used r)"
    using assms capacity_u32 [of r] by (subst unat_add_no_overflow) (simp_all add: ring_used_def)
  then show ?thesis unfolding eq .
qed

lemma ring_used_pop:
  assumes "0 < ring_used r"
  shows "unat (rg_write_sequence r - (rg_read_sequence r + 1)) = ring_used r - 1"
proof -
  have "1 \<le> rg_write_sequence r - rg_read_sequence r"
    using assms by (simp add: ring_used_def word_le_nat_alt)
  then have "unat ((rg_write_sequence r - rg_read_sequence r) - 1) = ring_used r - 1"
    by (simp add: unat_sub ring_used_def)
  then show ?thesis by (simp add: diff_diff_eq [symmetric])
qed

lemma ring_full_iff: "rg_write_sequence r - rg_read_sequence r \<ge> ucast (rg_capacity r) \<longleftrightarrow> unat (rg_capacity r) \<le> ring_used r"
  by (simp add: word_le_nat_alt ring_used_def)

lemma ring_empty_iff: "rg_read_sequence r = rg_write_sequence r \<longleftrightarrow> ring_used r = 0"
  by (auto simp: ring_used_def unat_eq_0)

lemma ring_try_push_eq:
  assumes "length payload \<le> unat (rg_slot_bytes r)" "ring_used r < unat (rg_capacity r)"
  shows "ring_try_push payload (Some r) =
    (RR_kSuccess, Some ((fill_slot (rg_write_sequence r) payload r)\<lparr>rg_write_sequence := rg_write_sequence r + 1\<rparr>))"
proof -
  have "\<not> rg_write_sequence r - rg_read_sequence r \<ge> ucast (rg_capacity r)" using assms(2) by (simp only: ring_full_iff not_le)
  then show ?thesis using assms(1) by (simp add: ring_try_push_def fill_slot_def Let_def)
qed

lemma ring_push_invar:
  assumes inv: "ring_invar r" and len: "length payload \<le> unat (rg_slot_bytes r)" and room: "ring_used r < unat (rg_capacity r)"
  defines "r' \<equiv> (fill_slot (rg_write_sequence r) payload r)\<lparr>rg_write_sequence := rg_write_sequence r + 1\<rparr>"
  shows "ring_invar r'" "ring_contents r' = ring_contents r @ [payload]"
proof -
  let ?w = "rg_write_sequence r" and ?f = "fill_slot (rg_write_sequence r) payload r"
  have sh: "ring_shape r" and hold: "\<And>i. i < ring_used r \<Longrightarrow> slot_holds r (ring_seq r i) (slot_payload r (ring_seq r i))"
    using inv by (auto simp: ring_invar_def)
  note so = fill_slot_same_outside [OF sh len, of ?w]
  have feq: "?f = r\<lparr>rg_slots := rg_slots ?f\<rparr>" by (rule fill_slot_eq)
  have lenb: "length (rg_slots ?f) = length (rg_slots r)" using so by (simp add: same_outside_def)
  have sel: "rg_read_sequence ?f = rg_read_sequence r" "rg_capacity ?f = rg_capacity r"
    by (simp_all add: fill_slot_def put_slot_defs)
  have used: "ring_used r' = Suc (ring_used r)"
    using ring_used_push [OF room] by (simp add: ring_used_def r'_def sel)
  have sq: "ring_seq r' i = ring_seq r i" for i by (simp add: r'_def ring_seq_def sel)
  have ne: "slot_index r ?w \<noteq> slot_index r (ring_seq r i)" if "i < ring_used r" for i
  proof -
    have "ring_used r - i < unat (rg_capacity r)" using room by simp
    from slot_index_neq [OF sh that this, of "rg_read_sequence r"] show ?thesis
      by (simp add: ring_seq_def ring_used_def eq_commute)
  qed
  have old: "slot_payload r' (ring_seq r i) = slot_payload r (ring_seq r i)"
    "slot_holds r' (ring_seq r i) (slot_payload r (ring_seq r i))" if i: "i < ring_used r" for i
    using slot_holds_other [OF sh so ne [OF i] hold [OF i]] feq by (simp_all add: r'_def)
  have new: "slot_holds r' (ring_seq r (ring_used r)) payload"
    using fill_slot_holds [OF sh len] by (simp add: r'_def ring_seq_write)
  then have newp: "slot_payload r' (ring_seq r (ring_used r)) = payload" by (simp add: slot_holds_def)
  show "ring_contents r' = ring_contents r @ [payload]"
    using old(1) newp by (simp add: ring_contents_def used sq)
  have "ring_shape r'" unfolding r'_def by (subst feq) (simp add: lenb sh)
  moreover have "rg_capacity r' = rg_capacity r" by (simp add: r'_def sel)
  ultimately show "ring_invar r'"
    using room old new newp by (auto simp: ring_invar_def used sq less_Suc_eq)
qed

lemma ring_pop_invar:
  assumes inv: "ring_invar r" and ne: "0 < ring_used r"
  defines "r' \<equiv> r\<lparr>rg_read_sequence := rg_read_sequence r + 1\<rparr>"
  shows "ring_invar r'" "ring_contents r' = tl (ring_contents r)"
    "hd (ring_contents r) = slot_payload r (rg_read_sequence r)"
    "slot_holds r (rg_read_sequence r) (slot_payload r (rg_read_sequence r))"
proof -
  have used: "ring_used r' = ring_used r - 1" using ring_used_pop [OF ne] by (simp add: ring_used_def r'_def)
  obtain n where n: "ring_used r = Suc n" using ne by (cases "ring_used r") auto
  have sq: "ring_seq r' i = ring_seq r (Suc i)" for i by (simp add: r'_def)
  show "ring_contents r' = tl (ring_contents r)"
    by (simp add: ring_contents_def used sq n upt_conv_Cons map_Suc_upt [symmetric] del: upt_Suc) (simp add: r'_def)
  show "ring_invar r'"
    using inv by (auto simp: ring_invar_def used sq n) (auto simp: r'_def)
  have s0: "ring_seq r 0 = rg_read_sequence r" by (simp add: ring_seq_def)
  then show "hd (ring_contents r) = slot_payload r (rg_read_sequence r)"
    by (simp add: ring_contents_def n upt_conv_Cons del: upt_Suc)
  show "slot_holds r (rg_read_sequence r) (slot_payload r (rg_read_sequence r))"
    using inv ne s0 by (metis ring_invar_def)
qed

lemma ring_try_pop_eq:
  assumes inv: "ring_invar r"
  shows "ring_try_pop destination (Some r) =
    (case ring_contents r of
       [] \<Rightarrow> (RR_kEmpty, 0, destination, Some r)
     | msg # _ \<Rightarrow> if length destination < length msg then (RR_kDestinationTooSmall, 0, destination, Some r)
         else (RR_kSuccess, length msg, blit destination 0 msg, Some (r\<lparr>rg_read_sequence := rg_read_sequence r + 1\<rparr>)))"
proof (cases "ring_used r = 0")
  case True
  then show ?thesis using ring_empty_iff by (simp add: ring_try_pop_def Let_def ring_contents_def)
next
  case False
  let ?s = "rg_read_sequence r" and ?m = "slot_payload r (rg_read_sequence r)"
  obtain xs where c: "ring_contents r = ?m # xs"
    using ring_pop_invar(3) [OF inv] False by (cases "ring_contents r") (auto simp: ring_contents_def)
  have h: "slot_holds r ?s ?m" using ring_pop_invar(4) [OF inv] False by simp
  have n: "unat (slot_bytes_field r ?s) = length ?m" "length ?m \<le> unat (rg_slot_bytes r)"
    using h unsigned_less [of "rg_slot_bytes r", where ?'a = nat] by (auto simp: slot_holds_def unat_of_nat)
  have g: "\<not> rg_read_sequence r = rg_write_sequence r" using False ring_empty_iff by simp
  have "slot_bytes_field r ?s \<le> rg_slot_bytes r" using n by (simp add: word_le_nat_alt)
  then show ?thesis
    using h g n unfolding c list.case by (simp add: ring_try_pop_def Let_def slot_holds_def not_less)
qed

subsection \<open>The bounded FIFO\<close>

definition ring_push :: "byte list \<Rightarrow> RingMem \<Rightarrow> bool \<times> RingMem" where
  "ring_push payload r =
     (case ring_try_push payload (Some r) of (res, m) \<Rightarrow> (res = RR_kSuccess, the m))"

text \<open>A consumer whose destination can hold any slot.\<close>

definition ring_pop :: "RingMem \<Rightarrow> byte list option \<times> RingMem" where
  "ring_pop r =
     (case ring_try_pop (replicate (unat (rg_slot_bytes r)) 0) (Some r) of
        (res, n, destination, m) \<Rightarrow> (if res = RR_kSuccess then Some (take n destination) else None, the m))"

lemma ring_contents_bound:
  assumes "ring_invar r" "msg \<in> set (ring_contents r)"
  shows "length msg \<le> unat (rg_slot_bytes r)"
  using assms by (auto simp: ring_contents_def ring_invar_def slot_holds_def)

lemma ring_push_eq:
  "ring_push payload r =
    (if length payload \<le> unat (rg_slot_bytes r) \<and> ring_used r < unat (rg_capacity r)
     then (True, (fill_slot (rg_write_sequence r) payload r)\<lparr>rg_write_sequence := rg_write_sequence r + 1\<rparr>)
     else (False, r))"
proof (cases "length payload \<le> unat (rg_slot_bytes r)")
  case True
  show ?thesis
  proof (cases "ring_used r < unat (rg_capacity r)")
    case room: True
    with True show ?thesis by (simp add: ring_push_def ring_try_push_eq)
  next
    case False
    then have "rg_write_sequence r - rg_read_sequence r \<ge> ucast (rg_capacity r)" by (simp only: ring_full_iff not_less)
    with True False show ?thesis by (simp add: ring_push_def ring_try_push_def Let_def)
  qed
next
  case False
  then show ?thesis by (simp add: ring_push_def ring_try_push_def)
qed

lemma ring_pop_eq:
  assumes "ring_invar r"
  shows "ring_pop r = (case ring_contents r of [] \<Rightarrow> (None, r)
    | msg # _ \<Rightarrow> (Some msg, r\<lparr>rg_read_sequence := rg_read_sequence r + 1\<rparr>))"
proof (cases "ring_contents r")
  case Nil
  then show ?thesis by (simp add: ring_pop_def ring_try_pop_eq [OF assms])
next
  case (Cons msg msgs)
  then have "length msg \<le> unat (rg_slot_bytes r)" using ring_contents_bound [OF assms] by simp
  with Cons show ?thesis by (simp add: ring_pop_def ring_try_pop_eq [OF assms] blit_0)
qed

interpretation ring_fifo: bounded_fifo ring_push ring_pop ring_contents "\<lambda>r. unat (rg_capacity r)"
  "\<lambda>r payload. length payload \<le> unat (rg_slot_bytes r)" ring_invar
proof
  fix r payload
  assume inv: "ring_invar r"
  have used: "length (ring_contents r) = ring_used r" by (simp add: ring_contents_def)
  have pop: "ring_pop r = (case ring_contents r of [] \<Rightarrow> (None, r)
    | msg # _ \<Rightarrow> (Some msg, r\<lparr>rg_read_sequence := rg_read_sequence r + 1\<rparr>))"
    by (rule ring_pop_eq [OF inv])
  show "length (ring_contents r) \<le> unat (rg_capacity r)" using inv used by (simp add: ring_invar_def)
  show "unat (rg_capacity (snd (ring_push payload r))) = unat (rg_capacity r)"
    by (simp add: ring_push_eq fill_slot_def put_slot_defs)
  show "fst (ring_push payload r) \<longleftrightarrow> length payload \<le> unat (rg_slot_bytes r) \<and> length (ring_contents r) < unat (rg_capacity r)"
    by (simp add: ring_push_eq used)
  show "ring_invar (snd (ring_push payload r))" using ring_push_invar(1) [OF inv] inv by (simp add: ring_push_eq)
  show "ring_contents (snd (ring_push payload r)) =
      (if fst (ring_push payload r) then ring_contents r @ [payload] else ring_contents r)"
    using ring_push_invar(2) [OF inv] by (simp add: ring_push_eq)
  show "ring_invar (snd (ring_pop r))"
    using ring_pop_invar(1) [OF inv] inv used by (cases "ring_contents r") (auto simp: pop)
  show "unat (rg_capacity (snd (ring_pop r))) = unat (rg_capacity r)"
    by (cases "ring_contents r") (auto simp: pop)
  show "fst (ring_pop r) = (case ring_contents r of [] \<Rightarrow> None | x # xs \<Rightarrow> Some x)"
    by (cases "ring_contents r") (auto simp: pop)
  show "ring_contents (snd (ring_pop r)) = tl (ring_contents r)"
    using ring_pop_invar(2) [OF inv] used by (cases "ring_contents r") (auto simp: pop)
qed

lemma format_ring_invar:
  assumes "required_bytes c \<noteq> 0"
  shows "ring_invar (format_ring c)" "ring_contents (format_ring c) = []"
proof -
  have "\<lparr>rc_capacity = rg_capacity (format_ring c), rc_slot_bytes = rg_slot_bytes (format_ring c)\<rparr> = c"
    by (simp add: format_ring_def)
  then show "ring_invar (format_ring c)" "ring_contents (format_ring c) = []"
    using assms by (simp_all add: ring_invar_def ring_shape_def ring_contents_def ring_used_def)
      (simp_all add: format_ring_def)
qed

subsection \<open>Pushing and popping by cases\<close>

lemma try_push_cases:
  assumes "ring_invar r" "ring_try_push bs (Some r) = (res, ring)"
  obtains (pushed) r' where "res = RR_kSuccess" "ring = Some r'" "ring_invar r'" "ring_contents r' = ring_contents r @ [bs]"
      "rg_slot_bytes r' = rg_slot_bytes r"
  | (refused) "res \<noteq> RR_kSuccess" "ring = Some r"
proof (cases "length bs \<le> unat (rg_slot_bytes r) \<and> ring_used r < unat (rg_capacity r)")
  case True
  let ?r = "(fill_slot (rg_write_sequence r) bs r)\<lparr>rg_write_sequence := rg_write_sequence r + 1\<rparr>"
  have "rg_slot_bytes ?r = rg_slot_bytes r" by (simp add: fill_slot_def put_slot_defs)
  then show ?thesis
    using that(1) True ring_try_push_eq [of bs r] ring_push_invar [OF assms(1), of bs] assms(2) by simp
next
  case False
  then show ?thesis
    using that(2) assms(2) ring_full_iff [of r] by (auto simp: ring_try_push_def Let_def split: if_splits)
qed

lemma try_pop_cases:
  assumes "ring_invar r" "ring_try_pop dest (Some r) = (res, n, dest', ring)"
  obtains (popped) r' bs where "res = RR_kSuccess" "ring = Some r'" "ring_invar r'" "ring_contents r = bs # ring_contents r'"
      "rg_slot_bytes r' = rg_slot_bytes r" "length bs \<le> unat (rg_slot_bytes r)" "n = length bs" "dest' = blit dest 0 bs" "length bs \<le> length dest"
  | (kept) "res = RR_kEmpty \<or> res = RR_kDestinationTooSmall" "ring = Some r" "dest' = dest"
proof (cases "ring_contents r")
  case Nil
  then show ?thesis using that(2) assms ring_try_pop_eq [OF assms(1), of dest] by simp
next
  case (Cons bs xs)
  then have used: "0 < ring_used r" by (cases "ring_used r") (simp_all add: ring_contents_def)
  have bound: "length bs \<le> unat (rg_slot_bytes r)" using ring_contents_bound [OF assms(1)] Cons by simp
  show ?thesis
    using that assms(2) ring_try_pop_eq [OF assms(1), of dest] Cons ring_pop_invar(1,2) [OF assms(1) used] bound
    by (auto split: if_splits)
qed

section \<open>Properties\<close>

text \<open>
  C4: The shared-memory ring is a bounded first-in first-out queue of messages: from any well
  formed state, whatever the values of its 64-bit counters, over any sequence of pushes and
  pops the messages delivered followed by those still in the slots are exactly those that were
  in the slots followed by those accepted, in order and byte for byte, also when the counters
  wrap around; the ring stays well formed and never holds more than its capacity.
\<close>

theorem ring_fifo_order:
  assumes "ring_invar r" and "fifo_run ring_push ring_pop ops r = (accepted, delivered, r')"
  shows "delivered @ ring_contents r' = ring_contents r @ accepted \<and> ring_invar r' \<and>
    length (ring_contents r') \<le> unat (rg_capacity r)"
  using ring_fifo.fifo_order [OF assms] ring_fifo.bounded by metis

definition demo_ring :: RingMem where
  "demo_ring = (format_ring \<lparr>rc_capacity = 2, rc_slot_bytes = 8\<rparr>)
     \<lparr>rg_write_sequence := U64_MAX, rg_read_sequence := U64_MAX\<rparr>"

lemma demo_ring_config: "required_bytes \<lparr>rc_capacity = 2, rc_slot_bytes = 8\<rparr> = 320"
proof -
  have "has_single_bit 2" unfolding has_single_bit_def list_ex_iff by (rule bexI [of _ 1]) simp_all
  then show ?thesis
    by (simp add: required_bytes_def Let_def slot_stride_def align_up_def kAlignment_def
        sizeof_SlotHeader_def sizeof_RingHeader_def)
qed

lemma demo_ring_ok: "ring_invar demo_ring" "ring_contents demo_ring = []" "rg_slot_bytes demo_ring = 8" "rg_capacity demo_ring = 2"
proof -
  show sel: "rg_slot_bytes demo_ring = 8" "rg_capacity demo_ring = 2" by (simp_all add: demo_ring_def format_ring_def)
  have used: "ring_used demo_ring = 0" by (simp add: ring_used_def demo_ring_def)
  have "ring_shape demo_ring"
    using demo_ring_config by (simp add: ring_shape_def sel) (simp add: demo_ring_def format_ring_def demo_ring_config)
  then show "ring_invar demo_ring" "ring_contents demo_ring = []"
    by (simp_all add: ring_invar_def ring_contents_def used)
qed

theorem ring_fifo_order_witness:
  "\<exists>r'. fifo_run ring_push ring_pop [Push [1, 2], Push [3], Push [4], Pop] demo_ring = ([[1, 2], [3]], [[1, 2]], r') \<and>
     ring_contents r' = [[3]]"
proof -
  note ok = demo_ring_ok
  let ?r1 = "snd (ring_push [1, 2] demo_ring)" let ?r2 = "snd (ring_push [3] ?r1)" let ?r3 = "snd (ring_push [4] ?r2)"
  have sb: "rg_slot_bytes (snd (ring_push x q)) = rg_slot_bytes q" "rg_capacity (snd (ring_push x q)) = rg_capacity q" for x q
    by (simp_all add: ring_push_eq fill_slot_def put_slot_defs)
  have p1: "fst (ring_push [1, 2] demo_ring)" "ring_contents ?r1 = [[1, 2]]" "ring_invar ?r1"
    using ring_fifo.push_ok [OF ok(1), of "[1, 2]"] ring_fifo.push_contents [OF ok(1), of "[1, 2]"]
      ring_fifo.push_invar [OF ok(1), of "[1, 2]"] ok by simp_all
  have p2: "fst (ring_push [3] ?r1)" "ring_contents ?r2 = [[1, 2], [3]]" "ring_invar ?r2"
    using ring_fifo.push_ok [OF p1(3), of "[3]"] ring_fifo.push_contents [OF p1(3), of "[3]"]
      ring_fifo.push_invar [OF p1(3), of "[3]"] p1 ok sb by simp_all
  have p3: "\<not> fst (ring_push [4] ?r2)" "ring_contents ?r3 = [[1, 2], [3]]" "ring_invar ?r3"
    using ring_fifo.push_ok [OF p2(3), of "[4]"] ring_fifo.push_contents [OF p2(3), of "[4]"]
      ring_fifo.push_invar [OF p2(3), of "[4]"] p2 ok sb by simp_all
  have run: "fifo_run ring_push ring_pop [Push [1, 2], Push [3], Push [4], Pop] demo_ring =
      ([[1, 2], [3]], [[1, 2]], snd (ring_pop ?r3))"
    using p1(1) p2(1) p3(1) ring_fifo.pop_result [OF p3(3)] p3(2) by (simp add: split_def)
  show ?thesis using ring_fifo_order [OF ok(1) run] run ok(2) by simp
qed

text \<open>
  C34: Any mapping that \<open>open\<close> accepts is laid out safely: the capacity is a power of two, every
  sequence number addresses a slot whose header and largest payload lie inside the mapping at a
  64-byte aligned offset, and two sequence numbers less than a capacity apart address disjoint
  slots. A ring that \<open>create\<close> formats is accepted, and is empty.
\<close>

theorem ring_layout_safe:
  assumes "validate_mapping (Some r) bytes = Inr ()"
  shows "(\<exists>k < 32. unat (rg_capacity r) = 2 ^ k) \<and>
    (\<forall>s. sizeof_RingHeader + slot_offset r s + sizeof_SlotHeader + unat (rg_slot_bytes r) \<le> bytes) \<and>
    (\<forall>s. 64 dvd slot_offset r s) \<and>
    (\<forall>s d. 0 < d \<and> d < unat (rg_capacity r) \<longrightarrow>
       slot_offset r s + sizeof_SlotHeader + unat (rg_slot_bytes r) \<le> slot_offset r (s + of_nat d) \<or>
       slot_offset r (s + of_nat d) + sizeof_SlotHeader + unat (rg_slot_bytes r) \<le> slot_offset r s) \<and>
    (\<forall>c. required_bytes c \<noteq> 0 \<longrightarrow>
       validate_mapping (Some (format_ring c)) (unat (required_bytes c)) = Inr () \<and>
       ring_contents (format_ring c) = [])"
proof -
  define req where "req = required_bytes \<lparr>rc_capacity = rg_capacity r, rc_slot_bytes = rg_slot_bytes r\<rparr>"
  have req: "req \<noteq> 0" "unat req \<le> bytes"
    using assms by (auto simp: validate_mapping_def req_def Let_def not_less split: if_splits)
  let ?q = "r\<lparr>rg_slots := replicate (unat req - sizeof_RingHeader) 0\<rparr>"
  have sh: "ring_shape ?q" using req(1) by (simp add: ring_shape_def req_def)
  have q: "slot_offset ?q s = slot_offset r s" "slot_index ?q s = slot_index r s" "rg_slot_bytes ?q = rg_slot_bytes r"
    "rg_capacity ?q = rg_capacity r" for s by simp_all
  obtain k where k: "k < 32" "unat (rg_capacity r) = 2 ^ k" using ring_shapeE [OF sh] q(4) by metis
  have bd: "sizeof_RingHeader + slot_offset r s + sizeof_SlotHeader + unat (rg_slot_bytes r) \<le> bytes" for s
  proof -
    obtain j where "unat req = sizeof_RingHeader + unat (slot_stride (rg_slot_bytes r)) * 2 ^ j"
      using required_bytesE [OF req(1) [unfolded req_def]] unfolding req_def by (metis RingConfig.select_convs(2))
    then have "sizeof_RingHeader \<le> unat req" by simp
    with slot_in_bounds [OF sh, of s] slot_stride_fits [of "rg_slot_bytes r"] req(2) show ?thesis by simp
  qed
  have al: "64 dvd slot_offset r s" for s unfolding slot_offset_index using slot_stride_aligned by simp
  have dj: "slot_offset r s + sizeof_SlotHeader + unat (rg_slot_bytes r) \<le> slot_offset r (s + of_nat d) \<or>
       slot_offset r (s + of_nat d) + sizeof_SlotHeader + unat (rg_slot_bytes r) \<le> slot_offset r s"
    if "0 < d \<and> d < unat (rg_capacity r)" for s d
    using slots_disjoint [OF slot_index_neq [OF sh, of 0 d s]] that slot_stride_fits [of "rg_slot_bytes r"] by auto
  have fmt: "validate_mapping (Some (format_ring c)) (unat (required_bytes c)) = Inr () \<and> ring_contents (format_ring c) = []"
    if c: "required_bytes c \<noteq> 0" for c
  proof -
    have eta: "\<lparr>rc_capacity = rg_capacity (format_ring c), rc_slot_bytes = rg_slot_bytes (format_ring c)\<rparr> = c"
      by (simp add: format_ring_def)
    obtain j where "unat (required_bytes c) = sizeof_RingHeader + unat (slot_stride (rc_slot_bytes c)) * 2 ^ j"
      using required_bytesE [OF c] by metis
    then show ?thesis using c format_ring_invar [OF c]
      unfolding validate_mapping_def option.case eta by (simp add: Let_def) (simp add: format_ring_def)
  qed
  show ?thesis using k bd al dj fmt by blast
qed

theorem ring_layout_safe_witness:
  "validate_mapping (Some demo_ring) 320 = Inr () \<and> (\<forall>s. sizeof_RingHeader + slot_offset demo_ring s + 24 \<le> 320)"
proof -
  have v: "validate_mapping (Some demo_ring) 320 = Inr ()"
    using demo_ring_config
    by (simp add: validate_mapping_def demo_ring_ok(3,4) Let_def) (simp add: demo_ring_def format_ring_def demo_ring_config sizeof_RingHeader_def)
  have u: "sizeof_SlotHeader + unat (rg_slot_bytes demo_ring) = 24" by (simp add: demo_ring_ok(3) sizeof_SlotHeader_def)
  have "\<forall>s. sizeof_RingHeader + slot_offset demo_ring s + sizeof_SlotHeader + unat (rg_slot_bytes demo_ring) \<le> 320"
    using ring_layout_safe [OF v] by blast
  with v u show ?thesis by (simp only: add.assoc) simp
qed

text \<open>
  C35: \<open>try_pop\<close> is safe on arbitrary slot bytes, as left behind by a crashed or faulty peer: it
  writes at most the destination's size, delivers only a payload whose length fits the slot and
  whose checksum matches, leaves the destination alone otherwise, steps over a corrupt slot so
  that the ring cannot get stuck on it, and keeps the slot when the ring is empty or the
  destination too small.
\<close>

theorem ring_pop_robust:
  assumes "ring_shape r" and "ring_try_pop destination (Some r) = (res, n, destination', m)"
  shows "\<exists>r'. m = Some r' \<and> rg_slots r' = rg_slots r \<and> rg_write_sequence r' = rg_write_sequence r \<and>
    rg_read_sequence r' = rg_read_sequence r + (if res = RR_kSuccess \<or> res = RR_kCorrupt then 1 else 0) \<and>
    length destination' = length destination \<and> n \<le> length destination \<and>
    (res = RR_kSuccess \<longrightarrow> n \<le> unat (rg_slot_bytes r) \<and>
       destination' = take n (drop (slot_offset r (rg_read_sequence r) + sizeof_SlotHeader) (rg_slots r)) @ drop n destination \<and>
       slot_checksum_field r (rg_read_sequence r) = ring_checksum (take n destination')) \<and>
    (res \<noteq> RR_kSuccess \<longrightarrow> destination' = destination \<and> n = 0) \<and>
    res \<noteq> RR_kFull \<and> res \<noteq> RR_kTooLarge"
proof -
  let ?s = "rg_read_sequence r" let ?n = "unat (slot_bytes_field r ?s)"
  have len: "length (slot_payload r ?s) = ?n" if "slot_bytes_field r ?s \<le> rg_slot_bytes r"
    using slot_in_bounds [OF assms(1), of ?s] slot_stride_fits [of "rg_slot_bytes r"] that
    by (simp add: slot_payload_def word_le_nat_alt)
  show ?thesis
  proof (cases "?s = rg_write_sequence r \<or> slot_bytes_field r ?s > rg_slot_bytes r \<or> slot_reserved_field r ?s \<noteq> 0 \<or>
      length destination < ?n \<or> slot_checksum_field r ?s \<noteq> ring_checksum (slot_payload r ?s)")
    case True
    with assms(2) show ?thesis by (auto simp: ring_try_pop_def Let_def split: if_splits)
  next
    case False
    then have "res = RR_kSuccess \<and> n = ?n \<and> destination' = slot_payload r ?s @ drop ?n destination \<and>
        m = Some (r\<lparr>rg_read_sequence := ?s + 1\<rparr>)"
      using assms(2) len by (auto simp: ring_try_pop_def Let_def blit_0)
    with False len show ?thesis by (auto simp: slot_payload_def word_le_nat_alt not_less)
  qed
qed

definition corrupt_ring :: RingMem where
  "corrupt_ring = demo_ring\<lparr>rg_write_sequence := 0, rg_slots := replicate 128 255\<rparr>"

theorem ring_pop_robust_witness:
  "\<exists>r'. ring_try_pop [7, 7] (Some corrupt_ring) = (RR_kCorrupt, 0, [7, 7], Some r') \<and> rg_read_sequence r' = 0"
proof -
  have sh: "ring_shape corrupt_ring"
    using demo_ring_config demo_ring_ok by (simp add: corrupt_ring_def ring_shape_def sizeof_RingHeader_def)
  have off: "slot_offset corrupt_ring U64_MAX = 64"
    by (simp add: slot_offset_def corrupt_ring_def demo_ring_ok Let_def slot_stride_def align_up_def kAlignment_def sizeof_SlotHeader_def)
  have "slot_bytes_field corrupt_ring U64_MAX = 4294967295"
    unfolding slot_bytes_field_def off
    by (simp add: corrupt_ring_def read_le_def upt_rec)
  moreover have sel: "rg_read_sequence corrupt_ring = U64_MAX" "rg_write_sequence corrupt_ring = 0" "rg_slot_bytes corrupt_ring = 8"
    by (simp_all add: corrupt_ring_def demo_ring_ok) (simp add: demo_ring_def)
  ultimately have "fst (ring_try_pop [7, 7] (Some corrupt_ring)) = RR_kCorrupt"
    by (simp add: ring_try_pop_def Let_def)
  then obtain n d m where run: "ring_try_pop [7, 7] (Some corrupt_ring) = (RR_kCorrupt, n, d, m)"
    by (metis prod.collapse)
  with ring_pop_robust [OF sh run] run sel(1) show ?thesis by auto
qed

end
