(* ===== verification/Ring_Concurrency.thy ===== *)
theory Ring_Concurrency
  imports Shared_Ring
begin

text \<open>
  The shared-memory ring under concurrency. One producer process runs \<open>try_push\<close> and one
  consumer process runs \<open>try_pop\<close>, and their memory accesses interleave arbitrarily: each load
  of a counter, each store into a slot and each store of a counter is a step of its own. The
  release store of a counter and the acquire load by the peer order the slot accesses, so the
  interleaving of these steps is what the peer can observe. A program counter holds the values
  the function has in its local variables at that point. The history of published and consumed
  messages is recorded beside the ring.

  The invariant is inductive over both step relations. It shows that the consumer never sees a
  half-written slot and that messages arrive unchanged and in order.
\<close>

section \<open>Definitions\<close>

datatype producer_pc =
    PIdle
  | PLoaded "byte list" u64 \<comment> \<open>write counter loaded\<close>
  | PWriting "byte list" u64 nat \<comment> \<open>room seen; number of slot stores done\<close>

datatype consumer_pc =
    CIdle
  | CLoaded u64 \<comment> \<open>read counter loaded\<close>
  | CNonEmpty u64 \<comment> \<open>write counter loaded, ring not empty\<close>
  | CHeader u64 u32 \<comment> \<open>slot header accepted\<close>
  | CVerified u64 u32 \<comment> \<open>checksum verified\<close>
  | CCopied u64 "byte list" \<comment> \<open>payload copied to the destination\<close>
  | CCorrupt u64 \<comment> \<open>slot found corrupt\<close>

record ring_system =
  sys_ring :: RingMem
  sys_prod :: producer_pc
  sys_cons :: consumer_pc
  sys_sent :: "byte list list"
  sys_received :: "byte list list"
  sys_corrupt :: nat

definition raw_payload :: "RingMem \<Rightarrow> u64 \<Rightarrow> u32 \<Rightarrow> byte list" where
  "raw_payload r s n = take (unat n) (drop (slot_offset r s + sizeof_SlotHeader) (rg_slots r))"

inductive producer_step :: "ring_system \<Rightarrow> ring_system \<Rightarrow> bool" where
  p_load: "sys_prod s = PIdle \<Longrightarrow> length p \<le> unat (rg_slot_bytes (sys_ring s)) \<Longrightarrow>
    producer_step s (s\<lparr>sys_prod := PLoaded p (rg_write_sequence (sys_ring s))\<rparr>)"
| p_full: "sys_prod s = PLoaded p w \<Longrightarrow>
    w - rg_read_sequence (sys_ring s) \<ge> ucast (rg_capacity (sys_ring s)) \<Longrightarrow>
    producer_step s (s\<lparr>sys_prod := PIdle\<rparr>)"
| p_room: "sys_prod s = PLoaded p w \<Longrightarrow>
    \<not> w - rg_read_sequence (sys_ring s) \<ge> ucast (rg_capacity (sys_ring s)) \<Longrightarrow>
    producer_step s (s\<lparr>sys_prod := PWriting p w 0\<rparr>)"
| p_bytes: "sys_prod s = PWriting p w 0 \<Longrightarrow>
    producer_step s (s\<lparr>sys_prod := PWriting p w 1,
      sys_ring := put_slot_bytes w (of_nat (length p)) (sys_ring s)\<rparr>)"
| p_reserved: "sys_prod s = PWriting p w 1 \<Longrightarrow>
    producer_step s (s\<lparr>sys_prod := PWriting p w 2, sys_ring := put_slot_reserved w 0 (sys_ring s)\<rparr>)"
| p_checksum: "sys_prod s = PWriting p w 2 \<Longrightarrow>
    producer_step s (s\<lparr>sys_prod := PWriting p w 3,
      sys_ring := put_slot_checksum w (ring_checksum p) (sys_ring s)\<rparr>)"
| p_payload: "sys_prod s = PWriting p w 3 \<Longrightarrow>
    producer_step s (s\<lparr>sys_prod := PWriting p w 4, sys_ring := put_slot_payload w p (sys_ring s)\<rparr>)"
| p_publish: "sys_prod s = PWriting p w 4 \<Longrightarrow>
    producer_step s (s\<lparr>sys_prod := PIdle, sys_sent := sys_sent s @ [p],
      sys_ring := (sys_ring s)\<lparr>rg_write_sequence := w + 1\<rparr>\<rparr>)"

text \<open>\<open>dest\<close> is the size of the consumer's destination in this call.\<close>

inductive consumer_step :: "ring_system \<Rightarrow> ring_system \<Rightarrow> bool" where
  c_load: "sys_cons s = CIdle \<Longrightarrow>
    consumer_step s (s\<lparr>sys_cons := CLoaded (rg_read_sequence (sys_ring s))\<rparr>)"
| c_empty: "sys_cons s = CLoaded rd \<Longrightarrow> rd = rg_write_sequence (sys_ring s) \<Longrightarrow>
    consumer_step s (s\<lparr>sys_cons := CIdle\<rparr>)"
| c_nonempty: "sys_cons s = CLoaded rd \<Longrightarrow> rd \<noteq> rg_write_sequence (sys_ring s) \<Longrightarrow>
    consumer_step s (s\<lparr>sys_cons := CNonEmpty rd\<rparr>)"
| c_bad_header: "sys_cons s = CNonEmpty rd \<Longrightarrow>
    slot_bytes_field (sys_ring s) rd > rg_slot_bytes (sys_ring s) \<or> slot_reserved_field (sys_ring s) rd \<noteq> 0 \<Longrightarrow>
    consumer_step s (s\<lparr>sys_cons := CCorrupt rd\<rparr>)"
| c_header: "sys_cons s = CNonEmpty rd \<Longrightarrow>
    \<not> (slot_bytes_field (sys_ring s) rd > rg_slot_bytes (sys_ring s) \<or> slot_reserved_field (sys_ring s) rd \<noteq> 0) \<Longrightarrow>
    consumer_step s (s\<lparr>sys_cons := CHeader rd (slot_bytes_field (sys_ring s) rd)\<rparr>)"
| c_too_small: "sys_cons s = CHeader rd n \<Longrightarrow> dest < unat n \<Longrightarrow>
    consumer_step s (s\<lparr>sys_cons := CIdle\<rparr>)"
| c_bad_sum: "sys_cons s = CHeader rd n \<Longrightarrow>
    slot_checksum_field (sys_ring s) rd \<noteq> ring_checksum (raw_payload (sys_ring s) rd n) \<Longrightarrow>
    consumer_step s (s\<lparr>sys_cons := CCorrupt rd\<rparr>)"
| c_sum: "sys_cons s = CHeader rd n \<Longrightarrow>
    slot_checksum_field (sys_ring s) rd = ring_checksum (raw_payload (sys_ring s) rd n) \<Longrightarrow>
    consumer_step s (s\<lparr>sys_cons := CVerified rd n\<rparr>)"
| c_copy: "sys_cons s = CVerified rd n \<Longrightarrow>
    consumer_step s (s\<lparr>sys_cons := CCopied rd (raw_payload (sys_ring s) rd n)\<rparr>)"
| c_consume: "sys_cons s = CCopied rd msg \<Longrightarrow>
    consumer_step s (s\<lparr>sys_cons := CIdle, sys_received := sys_received s @ [msg],
      sys_ring := (sys_ring s)\<lparr>rg_read_sequence := rd + 1\<rparr>\<rparr>)"
| c_skip: "sys_cons s = CCorrupt rd \<Longrightarrow>
    consumer_step s (s\<lparr>sys_cons := CIdle, sys_corrupt := sys_corrupt s + 1,
      sys_ring := (sys_ring s)\<lparr>rg_read_sequence := rd + 1\<rparr>\<rparr>)"

inductive ring_step :: "ring_system \<Rightarrow> ring_system \<Rightarrow> bool" where
  step_producer: "producer_step s t \<Longrightarrow> ring_step s t"
| step_consumer: "consumer_step s t \<Longrightarrow> ring_step s t"

inductive_cases ring_stepE: "ring_step s t"

text \<open>Both processes start outside the functions on an empty, freshly validated ring.\<close>

definition ring_start :: "ring_system \<Rightarrow> bool" where
  "ring_start s \<longleftrightarrow> ring_invar (sys_ring s) \<and> ring_contents (sys_ring s) = [] \<and>
     sys_prod s = PIdle \<and> sys_cons s = CIdle \<and> sys_sent s = [] \<and> sys_received s = [] \<and> sys_corrupt s = 0"

text \<open>What the producer has established about its slot after \<open>k\<close> stores.\<close>

definition slot_filled :: "RingMem \<Rightarrow> u64 \<Rightarrow> byte list \<Rightarrow> nat \<Rightarrow> bool" where
  "slot_filled r w p k \<longleftrightarrow>
     (1 \<le> k \<longrightarrow> slot_bytes_field r w = of_nat (length p)) \<and>
     (2 \<le> k \<longrightarrow> slot_reserved_field r w = 0) \<and>
     (3 \<le> k \<longrightarrow> slot_checksum_field r w = ring_checksum p) \<and>
     (4 \<le> k \<longrightarrow> take (length p) (drop (slot_offset r w + sizeof_SlotHeader) (rg_slots r)) = p)"

fun producer_ok :: "RingMem \<Rightarrow> producer_pc \<Rightarrow> bool" where
  "producer_ok r PIdle = True"
| "producer_ok r (PLoaded p w) = (w = rg_write_sequence r \<and> length p \<le> unat (rg_slot_bytes r))"
| "producer_ok r (PWriting p w k) =
     (w = rg_write_sequence r \<and> length p \<le> unat (rg_slot_bytes r) \<and> ring_used r < unat (rg_capacity r) \<and>
      slot_filled r w p k)"

fun consumer_ok :: "RingMem \<Rightarrow> consumer_pc \<Rightarrow> bool" where
  "consumer_ok r CIdle = True"
| "consumer_ok r (CLoaded rd) = (rd = rg_read_sequence r)"
| "consumer_ok r (CNonEmpty rd) = (rd = rg_read_sequence r \<and> ring_contents r \<noteq> [])"
| "consumer_ok r (CHeader rd n) =
     (rd = rg_read_sequence r \<and> ring_contents r \<noteq> [] \<and> n = of_nat (length (hd (ring_contents r))))"
| "consumer_ok r (CVerified rd n) =
     (rd = rg_read_sequence r \<and> ring_contents r \<noteq> [] \<and> n = of_nat (length (hd (ring_contents r))))"
| "consumer_ok r (CCopied rd msg) =
     (rd = rg_read_sequence r \<and> ring_contents r \<noteq> [] \<and> msg = hd (ring_contents r))"
| "consumer_ok r (CCorrupt rd) = False"

definition system_inv :: "ring_system \<Rightarrow> bool" where
  "system_inv s \<longleftrightarrow> ring_invar (sys_ring s) \<and> producer_ok (sys_ring s) (sys_prod s) \<and>
     consumer_ok (sys_ring s) (sys_cons s) \<and>
     sys_received s @ ring_contents (sys_ring s) = sys_sent s \<and> sys_corrupt s = 0"

section \<open>Lemmas\<close>

text \<open>A store into the slot of the write counter does not disturb the live slots.\<close>

lemma write_slot_keeps:
  assumes inv: "ring_invar r" and room: "ring_used r < unat (rg_capacity r)"
    and so: "same_outside (slot_offset r (rg_write_sequence r)) (unat (slot_stride (rg_slot_bytes r))) (rg_slots r) b"
  shows "ring_invar (r\<lparr>rg_slots := b\<rparr>)" "ring_contents (r\<lparr>rg_slots := b\<rparr>) = ring_contents r"
proof -
  let ?r = "r\<lparr>rg_slots := b\<rparr>"
  have sh: "ring_shape r" and hold: "\<And>i. i < ring_used r \<Longrightarrow> slot_holds r (ring_seq r i) (slot_payload r (ring_seq r i))"
    using inv by (auto simp: ring_invar_def)
  have used: "ring_used ?r = ring_used r" by (simp add: ring_used_def)
  have ne: "slot_index r (rg_write_sequence r) \<noteq> slot_index r (ring_seq r i)" if "i < ring_used r" for i
  proof -
    have "ring_used r - i < unat (rg_capacity r)" using room by simp
    from slot_index_neq [OF sh that this, of "rg_read_sequence r"] show ?thesis
      by (simp add: ring_seq_def ring_used_def eq_commute)
  qed
  have keep: "slot_payload ?r (ring_seq r i) = slot_payload r (ring_seq r i)"
    "slot_holds ?r (ring_seq r i) (slot_payload r (ring_seq r i))" if i: "i < ring_used r" for i
    using slot_holds_other [OF sh so ne [OF i] hold [OF i]] by simp_all
  show "ring_contents ?r = ring_contents r" using keep(1) by (simp add: ring_contents_def used)
  have "ring_shape ?r" using so sh by (simp add: same_outside_def)
  then show "ring_invar ?r" using inv keep by (auto simp: ring_invar_def used)
qed

text \<open>Advancing the write counter publishes a filled slot.\<close>

lemma publish_slot:
  assumes inv: "ring_invar r" and room: "ring_used r < unat (rg_capacity r)" and h: "slot_holds r (rg_write_sequence r) p"
  defines "r' \<equiv> r\<lparr>rg_write_sequence := rg_write_sequence r + 1\<rparr>"
  shows "ring_invar r'" "ring_contents r' = ring_contents r @ [p]"
proof -
  have used: "ring_used r' = Suc (ring_used r)" using ring_used_push [OF room] by (simp add: ring_used_def r'_def)
  have sq: "ring_seq r' i = ring_seq r i" for i by (simp add: r'_def)
  have p: "slot_payload r (ring_seq r (ring_used r)) = p" using h by (simp add: slot_holds_def ring_seq_write)
  then show "ring_contents r' = ring_contents r @ [p]" by (simp add: ring_contents_def used sq) (simp add: r'_def)
  show "ring_invar r'"
    using inv room h p by (auto simp: ring_invar_def used sq less_Suc_eq ring_seq_write) (auto simp: r'_def)
qed

lemma slot_filled_holds:
  assumes "length p \<le> unat (rg_slot_bytes r)" "slot_filled r w p 4"
  shows "slot_holds r w p"
proof -
  have "unat (of_nat (length p) :: u32) = length p"
    using assms(1) unsigned_less [of "rg_slot_bytes r", where ?'a = nat] by (simp add: unat_of_nat)
  then show ?thesis using assms by (simp add: slot_filled_def slot_holds_def slot_payload_def)
qed

text \<open>Each of the four stores stays inside the slot and extends what is established.\<close>

lemma producer_store:
  assumes sh: "ring_shape r" and len: "length p \<le> unat (rg_slot_bytes r)" and f: "slot_filled r w p k"
  shows "k = 0 \<Longrightarrow> slot_filled (put_slot_bytes w (of_nat (length p)) r) w p 1"
    "k = 1 \<Longrightarrow> slot_filled (put_slot_reserved w 0 r) w p 2"
    "k = 2 \<Longrightarrow> slot_filled (put_slot_checksum w (ring_checksum p) r) w p 3"
    "k = 3 \<Longrightarrow> slot_filled (put_slot_payload w p r) w p 4"
proof -
  have bd: "slot_offset r w + 16 + length p \<le> length (rg_slots r)"
    using slot_in_bounds [OF sh, of w] slot_stride_fits [of "rg_slot_bytes r"] len by (simp add: sizeof_SlotHeader_def)
  note defs = slot_filled_def put_slot_defs slot_bytes_field_def slot_reserved_field_def slot_checksum_field_def sizeof_SlotHeader_def
  show "k = 0 \<Longrightarrow> slot_filled (put_slot_bytes w (of_nat (length p)) r) w p 1"
    using bd by (simp add: defs header_read_simps)
  show "k = 1 \<Longrightarrow> slot_filled (put_slot_reserved w 0 r) w p 2"
    using bd f by (simp add: defs header_read_simps)
  show "k = 2 \<Longrightarrow> slot_filled (put_slot_checksum w (ring_checksum p) r) w p 3"
    using bd f by (simp add: defs header_read_simps)
  show "k = 3 \<Longrightarrow> slot_filled (put_slot_payload w p r) w p 4"
    using bd f by (simp add: defs header_read_simps)
qed

definition store_in_slot :: "u64 \<Rightarrow> RingMem \<Rightarrow> RingMem \<Rightarrow> bool" where
  "store_in_slot w r r' \<longleftrightarrow> r' = r\<lparr>rg_slots := rg_slots r'\<rparr> \<and>
     same_outside (slot_offset r w) (unat (slot_stride (rg_slot_bytes r))) (rg_slots r) (rg_slots r')"

lemma producer_store_outside:
  assumes sh: "ring_shape r" and len: "length p \<le> unat (rg_slot_bytes r)"
  shows "store_in_slot w r (put_slot_bytes w v r)" "store_in_slot w r (put_slot_reserved w v r)"
    "store_in_slot w r (put_slot_checksum w c r)" "store_in_slot w r (put_slot_payload w p r)"
proof -
  have "slot_offset r w + unat (slot_stride (rg_slot_bytes r)) \<le> length (rg_slots r)"
    "16 + length p \<le> unat (slot_stride (rg_slot_bytes r))"
    using slot_in_bounds [OF sh, of w] slot_stride_fits [of "rg_slot_bytes r"] len by (simp_all add: sizeof_SlotHeader_def)
  then show "store_in_slot w r (put_slot_bytes w v r)" "store_in_slot w r (put_slot_reserved w v r)"
    "store_in_slot w r (put_slot_checksum w c r)" "store_in_slot w r (put_slot_payload w p r)"
    unfolding store_in_slot_def put_slot_defs
    by (simp_all add: same_outside_write_le same_outside_blit sizeof_SlotHeader_def)
qed

lemma store_in_slot_sel:
  assumes "store_in_slot w r r'"
  shows "rg_write_sequence r' = rg_write_sequence r" "rg_read_sequence r' = rg_read_sequence r"
    "rg_slot_bytes r' = rg_slot_bytes r" "rg_capacity r' = rg_capacity r"
proof -
  obtain b where "r' = r\<lparr>rg_slots := b\<rparr>" using assms unfolding store_in_slot_def by blast
  then show "rg_write_sequence r' = rg_write_sequence r" "rg_read_sequence r' = rg_read_sequence r"
    "rg_slot_bytes r' = rg_slot_bytes r" "rg_capacity r' = rg_capacity r" by simp_all
qed

text \<open>One store of the producer preserves the invariant.\<close>

lemma store_step_inv:
  assumes inv: "system_inv s" and pc: "sys_prod s = PWriting p w k"
    and out: "store_in_slot w (sys_ring s) r'"
    and filled: "slot_filled r' w p k'"
  shows "system_inv (s\<lparr>sys_prod := PWriting p w k', sys_ring := r'\<rparr>)"
proof -
  let ?r = "sys_ring s"
  have ok: "ring_invar ?r" "w = rg_write_sequence ?r" "length p \<le> unat (rg_slot_bytes ?r)" "ring_used ?r < unat (rg_capacity ?r)"
    using inv pc by (simp_all add: system_inv_def)
  have keep: "ring_invar r'" "ring_contents r' = ring_contents ?r"
    using write_slot_keeps [OF ok(1,4)] out unfolding store_in_slot_def ok(2) by metis+
  note sel = store_in_slot_sel [OF out]
  have used: "ring_used r' = ring_used ?r" by (simp add: ring_used_def sel)
  have "consumer_ok r' (sys_cons s)"
    using inv by (cases "sys_cons s") (simp_all add: system_inv_def keep(2) sel)
  then show ?thesis
    using inv keep ok filled by (simp add: system_inv_def sel used)
qed

lemma producer_step_inv:
  assumes step: "producer_step s t" and inv: "system_inv s"
  shows "system_inv t"
  using step
proof cases
  case (p_load p)
  then show ?thesis using inv by (simp add: system_inv_def)
next
  case (p_full p w)
  then show ?thesis using inv by (simp add: system_inv_def)
next
  case (p_room p w)
  have "ring_used (sys_ring s) < unat (rg_capacity (sys_ring s))"
    using p_room(2,3) inv ring_full_iff [of "sys_ring s"] by (simp add: system_inv_def)
  then show ?thesis using p_room inv by (simp add: system_inv_def slot_filled_def)
next
  case (p_bytes p w)
  have ok: "ring_shape (sys_ring s)" "length p \<le> unat (rg_slot_bytes (sys_ring s))" "slot_filled (sys_ring s) w p 0"
    using inv p_bytes(2) by (auto simp: system_inv_def ring_invar_def)
  show ?thesis unfolding p_bytes(1)
    by (rule store_step_inv [OF inv p_bytes(2) producer_store_outside(1) [OF ok(1,2)] producer_store(1) [OF ok refl]])
next
  case (p_reserved p w)
  have ok: "ring_shape (sys_ring s)" "length p \<le> unat (rg_slot_bytes (sys_ring s))" "slot_filled (sys_ring s) w p 1"
    using inv p_reserved(2) by (auto simp: system_inv_def ring_invar_def)
  show ?thesis unfolding p_reserved(1)
    by (rule store_step_inv [OF inv p_reserved(2) producer_store_outside(2) [OF ok(1,2)] producer_store(2) [OF ok refl]])
next
  case (p_checksum p w)
  have ok: "ring_shape (sys_ring s)" "length p \<le> unat (rg_slot_bytes (sys_ring s))" "slot_filled (sys_ring s) w p 2"
    using inv p_checksum(2) by (auto simp: system_inv_def ring_invar_def)
  show ?thesis unfolding p_checksum(1)
    by (rule store_step_inv [OF inv p_checksum(2) producer_store_outside(3) [OF ok(1,2)] producer_store(3) [OF ok refl]])
next
  case (p_payload p w)
  have ok: "ring_shape (sys_ring s)" "length p \<le> unat (rg_slot_bytes (sys_ring s))" "slot_filled (sys_ring s) w p 3"
    using inv p_payload(2) by (auto simp: system_inv_def ring_invar_def)
  show ?thesis unfolding p_payload(1)
    by (rule store_step_inv [OF inv p_payload(2) producer_store_outside(4) [OF ok(1,2)] producer_store(4) [OF ok refl]])
next
  case (p_publish p w)
  let ?r = "sys_ring s"
  have ok: "ring_invar ?r" "ring_used ?r < unat (rg_capacity ?r)" "w = rg_write_sequence ?r"
    "slot_holds ?r (rg_write_sequence ?r) p"
    using inv p_publish(2) slot_filled_holds by (auto simp: system_inv_def)
  note pub = publish_slot [OF ok(1,2,4)]
  have "consumer_ok (?r\<lparr>rg_write_sequence := rg_write_sequence ?r + 1\<rparr>) (sys_cons s)"
    using inv by (cases "sys_cons s") (auto simp: system_inv_def pub(2))
  then show ?thesis using p_publish inv ok(3) pub by (simp add: system_inv_def)
qed

lemma live_slot:
  assumes "ring_invar r" "ring_contents r \<noteq> []"
  shows "slot_holds r (rg_read_sequence r) (hd (ring_contents r))"
    "raw_payload r (rg_read_sequence r) (of_nat (length (hd (ring_contents r)))) = hd (ring_contents r)"
    "slot_bytes_field r (rg_read_sequence r) \<le> rg_slot_bytes r"
proof -
  have ne: "0 < ring_used r" using assms(2) by (auto simp: ring_contents_def)
  show h: "slot_holds r (rg_read_sequence r) (hd (ring_contents r))"
    using ring_pop_invar(3,4) [OF assms(1) ne] by simp
  then show "raw_payload r (rg_read_sequence r) (of_nat (length (hd (ring_contents r)))) = hd (ring_contents r)"
    by (metis raw_payload_def slot_payload_def slot_holds_def)
  show "slot_bytes_field r (rg_read_sequence r) \<le> rg_slot_bytes r"
    using h unsigned_less [of "rg_slot_bytes r", where ?'a = nat]
    by (auto simp: slot_holds_def word_le_nat_alt unat_of_nat)
qed

lemma consumer_step_inv:
  assumes step: "consumer_step s t" and inv: "system_inv s"
  shows "system_inv t"
  using step
proof cases
  case (c_nonempty rd)
  then show ?thesis
    using inv ring_empty_iff [of "sys_ring s"] by (auto simp: system_inv_def ring_contents_def)
next
  case (c_bad_header rd)
  then have "ring_invar (sys_ring s)" "ring_contents (sys_ring s) \<noteq> []" "rd = rg_read_sequence (sys_ring s)"
    using inv by (simp_all add: system_inv_def)
  with live_slot [OF this(1,2)] c_bad_header(3) have False by (auto simp: slot_holds_def)
  then show ?thesis ..
next
  case (c_header rd)
  then have "ring_invar (sys_ring s)" "ring_contents (sys_ring s) \<noteq> []" "rd = rg_read_sequence (sys_ring s)"
    using inv by (simp_all add: system_inv_def)
  with live_slot [OF this(1,2)] c_header inv show ?thesis by (simp add: system_inv_def slot_holds_def)
next
  case (c_bad_sum rd n)
  then have "ring_invar (sys_ring s)" "ring_contents (sys_ring s) \<noteq> []" "rd = rg_read_sequence (sys_ring s)"
    "n = of_nat (length (hd (ring_contents (sys_ring s))))"
    using inv by (simp_all add: system_inv_def)
  with live_slot [OF this(1,2)] c_bad_sum(3) have False by (simp add: slot_holds_def)
  then show ?thesis ..
next
  case (c_copy rd n)
  then have "ring_invar (sys_ring s)" "ring_contents (sys_ring s) \<noteq> []" using inv by (simp_all add: system_inv_def)
  with live_slot [OF this] c_copy inv show ?thesis by (simp add: system_inv_def)
next
  case (c_consume rd msg)
  let ?r = "sys_ring s" let ?r' = "?r\<lparr>rg_read_sequence := rg_read_sequence ?r + 1\<rparr>"
  have ok: "ring_invar ?r" "ring_contents ?r \<noteq> []" "rd = rg_read_sequence ?r" "msg = hd (ring_contents ?r)"
    using inv c_consume(2) by (simp_all add: system_inv_def)
  have ne: "0 < ring_used ?r" using ok(2) by (auto simp: ring_contents_def)
  have used: "ring_used ?r' \<le> ring_used ?r" using ring_used_pop [OF ne] by (simp add: ring_used_def)
  have "slot_filled ?r' w p k = slot_filled ?r w p k" for w p k
    by (simp add: slot_filled_def slot_reserved_field_def slot_checksum_field_def)
  then have "producer_ok ?r' (sys_prod s)"
    using inv used by (cases "sys_prod s") (auto simp: system_inv_def)
  then show ?thesis
    using c_consume inv ok ring_pop_invar(1,2) [OF ok(1) ne] by (simp add: system_inv_def)
qed (use inv in \<open>auto simp: system_inv_def\<close>)

interpretation ring_conc: inductive_invariant ring_start ring_step system_inv
proof
  show "ring_start s \<Longrightarrow> system_inv s" for s by (simp add: ring_start_def system_inv_def)
  show "ring_step s t \<Longrightarrow> system_inv s \<Longrightarrow> system_inv t" for s t
    by (erule ring_stepE) (auto intro: producer_step_inv consumer_step_inv)
qed

section \<open>Properties\<close>

text \<open>
  C5: In every interleaving of a producer and a consumer on a ring, at the granularity of
  single loads and stores, the messages received so far, followed by the messages in the ring,
  are exactly the messages sent, in order and unchanged; the consumer never takes the corrupt
  branch, and the ring never overflows.
\<close>

theorem ring_concurrent_fifo:
  assumes "reach ring_start ring_step s"
  shows "sys_received s @ ring_contents (sys_ring s) = sys_sent s \<and> sys_corrupt s = 0 \<and>
    (\<forall>rd. sys_cons s \<noteq> CCorrupt rd) \<and> ring_used (sys_ring s) \<le> unat (rg_capacity (sys_ring s))"
proof -
  have "system_inv s" using assms by (rule ring_conc.reach_inv)
  then show ?thesis by (cases "sys_cons s") (auto simp: system_inv_def ring_invar_def)
qed

definition demo_system :: ring_system where
  "demo_system = \<lparr>sys_ring = demo_ring, sys_prod = PIdle, sys_cons = CIdle, sys_sent = [], sys_received = [], sys_corrupt = 0\<rparr>"

theorem ring_concurrent_fifo_witness:
  "\<exists>s. reach ring_start ring_step s \<and> sys_sent s = [[1, 2]] \<and> sys_received s = [] \<and> ring_contents (sys_ring s) = [[1, 2]]"
proof -
  let ?S = "reach ring_start ring_step"
  have step: "?S s \<Longrightarrow> producer_step s t \<Longrightarrow> ?S t" for s t by (blast intro: reach_step step_producer)
  have 0: "?S demo_system" using demo_ring_ok by (intro reach_init) (simp add: ring_start_def demo_system_def)
  define w where "w = rg_write_sequence demo_ring"
  have room: "\<not> w - rg_read_sequence demo_ring \<ge> ucast (rg_capacity demo_ring)"
    by (simp add: w_def demo_ring_ok(4)) (simp add: demo_ring_def)
  note 1 = step [OF 0 p_load [of demo_system "[1, 2]"], simplified demo_system_def, simplified, folded w_def, simplified demo_ring_ok(3), simplified]
  note 2 = step [OF 1 p_room [of _ "[1, 2]" w], simplified room, simplified]
  note 3 = step [OF 2 p_bytes [of _ "[1, 2]" w], simplified]
  note 4 = step [OF 3 p_reserved [of _ "[1, 2]" w], simplified]
  note 5 = step [OF 4 p_checksum [of _ "[1, 2]" w], simplified]
  note 6 = step [OF 5 p_payload [of _ "[1, 2]" w], simplified]
  note 7 = step [OF 6 p_publish [of _ "[1, 2]" w], simplified]
  note 8 = 7 [OF room]
  show ?thesis by (rule exI, intro conjI, rule 8) (use ring_concurrent_fifo [OF 8] in simp_all)
qed

end
