(* ===== verification/Job_Types.thy ===== *)
theory Job_Types
  imports Model_Identity
begin

text \<open>
  relay/jobs/job_types.h: the vocabulary of the cooperative job runtime. A scoped enumeration
  that arrives over the wire or from a backend can hold any value of its underlying type, so it
  is modelled as the word it is stored in, with one constant per enumerator; the validity tests
  of the source then have the content they have in the source. The error codes never leave the
  process and are a datatype. \<open>job_progress_split\<close> reads the word-level progress test as
  arithmetic on naturals.
\<close>

section \<open>Definitions\<close>

type_synonym JobKind = u16
type_synonym JobState = u16
type_synonym JobServiceClass = u32

definition kCooperativeJobVersion :: u32 where [enum_simps]: "kCooperativeJobVersion = 1"

definition JobKind_kUnknown :: JobKind where [enum_simps]: "JobKind_kUnknown = 0"
definition JobKind_kIterative :: JobKind where [enum_simps]: "JobKind_kIterative = 1"
definition JobKind_kStreaming :: JobKind where [enum_simps]: "JobKind_kStreaming = 2"
definition JobKind_kSpeculative :: JobKind where [enum_simps]: "JobKind_kSpeculative = 3"

definition JobState_kReady :: JobState where [enum_simps]: "JobState_kReady = 0"
definition JobState_kRunning :: JobState where [enum_simps]: "JobState_kRunning = 1"
definition JobState_kComplete :: JobState where [enum_simps]: "JobState_kComplete = 2"
definition JobState_kCancelled :: JobState where [enum_simps]: "JobState_kCancelled = 3"
definition JobState_kFailed :: JobState where [enum_simps]: "JobState_kFailed = 4"

definition ServiceClass_kBestEffort :: JobServiceClass where [enum_simps]: "ServiceClass_kBestEffort = 0"
definition ServiceClass_kInteractive :: JobServiceClass where [enum_simps]: "ServiceClass_kInteractive = 1"
definition ServiceClass_kCritical :: JobServiceClass where [enum_simps]: "ServiceClass_kCritical = 2"

record JobDescriptor =
  jd_protocol_version :: u32
  jd_kind :: JobKind
  jd_reserved :: u16
  jd_model_digest :: ModelDigest
  jd_state_schema :: u64
  jd_session_id :: u64
  jd_generation :: u64
  jd_deadline_ns :: u64
  jd_total_work_units :: u64

definition default_descriptor :: JobDescriptor where
  "default_descriptor = \<lparr>jd_protocol_version = kCooperativeJobVersion, jd_kind = JobKind_kUnknown,
     jd_reserved = 0, jd_model_digest = replicate FE_MODEL_DIGEST_BYTES 0, jd_state_schema = 0,
     jd_session_id = 0, jd_generation = 0, jd_deadline_ns = 0, jd_total_work_units = 0\<rparr>"

record JobProgress =
  jp_state :: JobState
  jp_reserved0 :: u16
  jp_reserved1 :: u32
  jp_completed_work_units :: u64
  jp_remaining_work_units :: u64

definition make_progress :: "JobState \<Rightarrow> u64 \<Rightarrow> u64 \<Rightarrow> JobProgress" where
  "make_progress state completed remaining =
     \<lparr>jp_state = state, jp_reserved0 = 0, jp_reserved1 = 0,
      jp_completed_work_units = completed, jp_remaining_work_units = remaining\<rparr>"

definition default_progress :: JobProgress where
  "default_progress = make_progress JobState_kReady 0 0"

datatype JobErrorCode = JE_kInvalidDescriptor | JE_kInvalidState | JE_kInvalidBudget
  | JE_kCallbackFailed | JE_kCallbackContract | JE_kCapsuleInvalid | JE_kCapsuleIncompatible
  | JE_kBufferTooSmall

datatype JobError = JobError (je_code: JobErrorCode) (je_message: string)

definition valid_job_kind :: "JobKind \<Rightarrow> bool" where
  "valid_job_kind kind \<longleftrightarrow>
     kind = JobKind_kIterative \<or> kind = JobKind_kStreaming \<or> kind = JobKind_kSpeculative"

definition valid_job_state :: "JobState \<Rightarrow> bool" where
  "valid_job_state state \<longleftrightarrow> state \<ge> JobState_kReady \<and> state \<le> JobState_kFailed"

definition valid_job_service_class :: "JobServiceClass \<Rightarrow> bool" where
  "valid_job_service_class c \<longleftrightarrow> c \<ge> ServiceClass_kBestEffort \<and> c \<le> ServiceClass_kCritical"

definition job_kind_to_string :: "JobKind \<Rightarrow> string" where
  "job_kind_to_string kind =
     (if kind = JobKind_kIterative then ''iterative''
      else if kind = JobKind_kStreaming then ''streaming''
      else if kind = JobKind_kSpeculative then ''speculative''
      else ''unknown'')"

definition job_state_to_string :: "JobState \<Rightarrow> string" where
  "job_state_to_string state =
     (if state = JobState_kReady then ''ready''
      else if state = JobState_kRunning then ''running''
      else if state = JobState_kComplete then ''complete''
      else if state = JobState_kCancelled then ''cancelled''
      else if state = JobState_kFailed then ''failed''
      else ''unknown'')"

definition job_service_class_to_string :: "JobServiceClass \<Rightarrow> string" where
  "job_service_class_to_string c =
     (if c = ServiceClass_kBestEffort then ''best_effort''
      else if c = ServiceClass_kInteractive then ''interactive''
      else if c = ServiceClass_kCritical then ''critical''
      else ''unknown'')"

definition job_terminal :: "JobState \<Rightarrow> bool" where
  "job_terminal state \<longleftrightarrow>
     state = JobState_kComplete \<or> state = JobState_kCancelled \<or> state = JobState_kFailed"

definition valid_job_progress :: "JobDescriptor \<Rightarrow> JobProgress \<Rightarrow> bool" where
  "valid_job_progress d p \<longleftrightarrow>
     (if \<not> valid_job_state (jp_state p) \<or>
         jp_completed_work_units p > jd_total_work_units d \<or>
         jp_remaining_work_units p \<noteq> jd_total_work_units d - jp_completed_work_units p then False
      else if jp_state p = JobState_kReady then jp_completed_work_units p = 0
      else if jp_state p = JobState_kRunning then jp_completed_work_units p < jd_total_work_units d
      else if jp_state p = JobState_kComplete then jp_completed_work_units p = jd_total_work_units d
      else True)"

definition valid_job_descriptor :: "JobDescriptor \<Rightarrow> bool" where
  "valid_job_descriptor d \<longleftrightarrow>
     (let has_digest = fold (\<lambda>b acc. acc \<or> b \<noteq> 0) (jd_model_digest d) False
      in jd_protocol_version d = kCooperativeJobVersion \<and> valid_job_kind (jd_kind d) \<and>
         jd_state_schema d \<noteq> 0 \<and> jd_total_work_units d \<noteq> 0 \<and> has_digest)"

section \<open>Lemmas\<close>

lemma fold_or_nonzero: "fold (\<lambda>b acc. acc \<or> b \<noteq> 0) xs a \<longleftrightarrow> a \<or> (\<exists>b \<in> set xs. b \<noteq> 0)"
  by (induction xs arbitrary: a) auto

lemma valid_job_descriptor_iff:
  "valid_job_descriptor d \<longleftrightarrow> jd_protocol_version d = kCooperativeJobVersion \<and>
     valid_job_kind (jd_kind d) \<and> jd_state_schema d \<noteq> 0 \<and> jd_total_work_units d \<noteq> 0 \<and>
     (\<exists>b \<in> set (jd_model_digest d). b \<noteq> 0)"
  by (simp add: valid_job_descriptor_def fold_or_nonzero Let_def)

lemma make_progress_sel [simp]:
  "jp_state (make_progress s c r) = s"
  "jp_completed_work_units (make_progress s c r) = c"
  "jp_remaining_work_units (make_progress s c r) = r"
  "jp_reserved0 (make_progress s c r) = 0"
  "jp_reserved1 (make_progress s c r) = 0"
  by (simp_all add: make_progress_def)

lemma valid_job_state_cases:
  "valid_job_state s \<longleftrightarrow> s = JobState_kReady \<or> s = JobState_kRunning \<or> job_terminal s"
proof
  assume "valid_job_state s"
  then have "unat s \<le> 4" by (simp add: valid_job_state_def enum_simps word_le_nat_alt)
  then have "unat s = 0 \<or> unat s = 1 \<or> unat s = 2 \<or> unat s = 3 \<or> unat s = 4" by linarith
  then show "s = JobState_kReady \<or> s = JobState_kRunning \<or> job_terminal s"
    unfolding job_terminal_def enum_simps word_unat_eq_iff by simp
next
  assume "s = JobState_kReady \<or> s = JobState_kRunning \<or> job_terminal s"
  then show "valid_job_state s" by (auto simp: valid_job_state_def job_terminal_def enum_simps)
qed

text \<open>What the progress test means over the naturals: completed and remaining split the total.\<close>

lemma job_progress_split:
  "valid_job_progress d p \<Longrightarrow>
   unat (jp_completed_work_units p) + unat (jp_remaining_work_units p) = unat (jd_total_work_units d)"
  by (auto simp: valid_job_progress_def word_less_nat_alt unat_sub word_le_nat_alt not_less split: if_splits)

lemma valid_job_progress_start:
  "jd_total_work_units d \<noteq> 0 \<Longrightarrow> valid_job_progress d (make_progress JobState_kReady 0 (jd_total_work_units d))"
  by (simp add: valid_job_progress_def valid_job_state_def enum_simps)

lemma valid_job_progress_failed:
  "valid_job_progress d (make_progress JobState_kFailed 0 (jd_total_work_units d))"
  by (simp add: valid_job_progress_def valid_job_state_def enum_simps)

text \<open>A valid progress may be turned into a cancelled or failed one at any point.\<close>

lemma valid_job_progress_abort:
  "valid_job_progress d p \<Longrightarrow> s = JobState_kCancelled \<or> s = JobState_kFailed \<Longrightarrow>
   valid_job_progress d (p\<lparr>jp_state := s\<rparr>)"
  by (auto simp: valid_job_progress_def valid_job_state_def enum_simps split: if_splits)

end
