(* ===== verification/State_Capsule.thy ===== *)
theory State_Capsule
  imports Job_Types Byte_Codec
begin

text \<open>
  relay/jobs/state_capsule.\{h,cc\}: the portable encoding of a running job, used to migrate it
  between workers. The layout is a 96-byte header, the backend's payload and a 16-byte
  fingerprint of both. The properties show that reading inverts writing, that every accepted
  capsule is what the writer produces, and that damage is refused.
\<close>

section \<open>Definitions\<close>

definition kStateCapsuleHeaderBytes :: nat where [wire_simps]: "kStateCapsuleHeaderBytes = 96"
definition kStateCapsuleChecksumBytes :: nat where [wire_simps]: "kStateCapsuleChecksumBytes = 16"

datatype StateCapsuleErrorCode = SC_kBufferTooSmall | SC_kTruncated | SC_kInvalidHeader
  | SC_kUnsupportedVersion | SC_kInvalidMetadata | SC_kChecksumMismatch

datatype StateCapsuleError = StateCapsuleError (sce_code: StateCapsuleErrorCode) (sce_message: string)

record StateCapsuleMetadata =
  scm_descriptor :: JobDescriptor
  scm_state :: JobState
  scm_completed_work_units :: u64

record StateCapsuleView =
  scv_metadata :: StateCapsuleMetadata
  scv_payload :: "byte list"

definition state_capsule_bytes :: "nat \<Rightarrow> nat" where
  "state_capsule_bytes payload_bytes =
     (let overhead = kStateCapsuleHeaderBytes + kStateCapsuleChecksumBytes
      in if payload_bytes \<le> SIZE_MAX - overhead then overhead + payload_bytes else 0)"

definition kCapsuleMagic :: "byte list" where
  "kCapsuleMagic = [0x46, 0x45, 0x43, 0x41, 0x50, 0x30, 0x30, 0x31]"

definition kCapsuleVersion :: u16 where "kCapsuleVersion = 1"

definition valid_progress :: "StateCapsuleMetadata \<Rightarrow> bool" where
  "valid_progress m \<longleftrightarrow>
     (if \<not> valid_job_descriptor (scm_descriptor m) \<or> \<not> valid_job_state (scm_state m) \<or>
         scm_completed_work_units m > jd_total_work_units (scm_descriptor m) then False
      else if scm_state m = JobState_kReady then scm_completed_work_units m = 0
      else if scm_state m = JobState_kRunning then
        scm_completed_work_units m < jd_total_work_units (scm_descriptor m)
      else if scm_state m = JobState_kComplete then
        scm_completed_work_units m = jd_total_work_units (scm_descriptor m)
      else True)"

text \<open>The header as it is written into the cleared first 96 bytes of the destination.\<close>

definition capsule_header :: "StateCapsuleMetadata \<Rightarrow> nat \<Rightarrow> byte list \<Rightarrow> byte list" where
  "capsule_header m payload_bytes d0 =
     (let j = scm_descriptor m;
          d1 = blit d0 0 kCapsuleMagic;
          d2 = write_le d1 8 kCapsuleVersion;
          d3 = write_le d2 10 (of_nat kStateCapsuleHeaderBytes :: u16);
          d4 = write_le d3 12 (jd_kind j);
          d5 = write_le d4 14 (scm_state m);
          d6 = write_le d5 16 (0 :: u32);
          d7 = write_le d6 20 (0 :: u32);
          d8 = fold (\<lambda>i d. d[24 + i := jd_model_digest j ! i]) [0..<length (jd_model_digest j)] d7;
          d9 = write_le d8 40 (jd_session_id j);
          d10 = write_le d9 48 (jd_generation j);
          d11 = write_le d10 56 (jd_deadline_ns j);
          d12 = write_le d11 64 (jd_total_work_units j);
          d13 = write_le d12 72 (scm_completed_work_units m);
          d14 = write_le d13 80 (of_nat payload_bytes :: u64)
      in write_le d14 88 (jd_state_schema j))"

text \<open>
  When the payload already lies in the destination the source skips the copy; as a value the
  copy is then the identity, so one definition covers both.
\<close>

definition write_state_capsule ::
  "StateCapsuleMetadata \<Rightarrow> byte list \<Rightarrow> byte list \<Rightarrow> StateCapsuleError + (nat \<times> byte list)" where
  "write_state_capsule metadata payload destination =
     (if \<not> valid_progress metadata
      then Inl (StateCapsuleError SC_kInvalidMetadata ''State capsule metadata is invalid'')
      else
        let required = state_capsule_bytes (length payload)
        in if required = 0 \<or> length destination < required
           then Inl (StateCapsuleError SC_kBufferTooSmall ''State capsule destination is too small'')
           else
             let cleared = blit destination 0 (replicate kStateCapsuleHeaderBytes 0);
                 headed = capsule_header metadata (length payload) cleared;
                 filled = blit headed kStateCapsuleHeaderBytes payload;
                 checksum_offset = kStateCapsuleHeaderBytes + length payload;
                 checksum = fingerprint_bytes (take checksum_offset filled)
             in Inr (required,
                  fold (\<lambda>i d. d[checksum_offset + i := checksum ! i]) [0..<length checksum] filled))"

definition read_state_capsule :: "byte list \<Rightarrow> StateCapsuleError + StateCapsuleView" where
  "read_state_capsule source =
     (if length source < kStateCapsuleHeaderBytes + kStateCapsuleChecksumBytes
      then Inl (StateCapsuleError SC_kTruncated ''State capsule is truncated'')
      else if take (length kCapsuleMagic) source \<noteq> kCapsuleMagic
      then Inl (StateCapsuleError SC_kInvalidHeader ''State capsule magic is invalid'')
      else if (read_le source 8 :: u16) \<noteq> kCapsuleVersion \<or>
              unat (read_le source 10 :: u16) \<noteq> kStateCapsuleHeaderBytes
      then Inl (StateCapsuleError SC_kUnsupportedVersion ''State capsule version is unsupported'')
      else if (read_le source 16 :: u32) \<noteq> 0 \<or> (read_le source 20 :: u32) \<noteq> 0
      then Inl (StateCapsuleError SC_kInvalidHeader ''State capsule flags are invalid'')
      else
        let payload_u64 = (read_le source 80 :: u64); payload_bytes = unat payload_u64
        in if payload_bytes > SIZE_MAX
           then Inl (StateCapsuleError SC_kInvalidMetadata ''State capsule payload is too large'')
           else
             let required = state_capsule_bytes payload_bytes
             in if required = 0 \<or> length source \<noteq> required
                then Inl (StateCapsuleError SC_kTruncated ''State capsule size is incompatible or truncated'')
                else
                  let checksum_offset = kStateCapsuleHeaderBytes + payload_bytes;
                      checksum = fingerprint_bytes (take checksum_offset source)
                  in if list_ex (\<lambda>i. source ! (checksum_offset + i) \<noteq> checksum ! i) [0..<length checksum]
                     then Inl (StateCapsuleError SC_kChecksumMismatch ''State capsule checksum mismatch'')
                     else
                       let metadata =
                             \<lparr>scm_descriptor = default_descriptor
                                \<lparr>jd_kind := read_le source 12,
                                 jd_model_digest := map (\<lambda>i. source ! (24 + i)) [0..<FE_MODEL_DIGEST_BYTES],
                                 jd_session_id := read_le source 40,
                                 jd_generation := read_le source 48,
                                 jd_deadline_ns := read_le source 56,
                                 jd_total_work_units := read_le source 64,
                                 jd_state_schema := read_le source 88\<rparr>,
                              scm_state = read_le source 14,
                              scm_completed_work_units = read_le source 72\<rparr>
                       in if \<not> valid_progress metadata
                          then Inl (StateCapsuleError SC_kInvalidMetadata ''State capsule metadata is invalid'')
                          else Inr \<lparr>scv_metadata = metadata,
                                 scv_payload = take payload_bytes (drop kStateCapsuleHeaderBytes source)\<rparr>)"

text \<open>The digest array has sixteen bytes.\<close>

definition capsule_wf :: "StateCapsuleMetadata \<Rightarrow> bool" where
  "capsule_wf m \<longleftrightarrow> length (jd_model_digest (scm_descriptor m)) = FE_MODEL_DIGEST_BYTES"

section \<open>Lemmas\<close>

lemma length_kCapsuleMagic [simp]: "length kCapsuleMagic = 8"
  by (simp add: kCapsuleMagic_def)

lemmas capsule_consts = kStateCapsuleHeaderBytes_def kStateCapsuleChecksumBytes_def FE_MODEL_DIGEST_BYTES_def

lemma length_capsule_header:
  "96 \<le> length d \<Longrightarrow> capsule_wf m \<Longrightarrow> length (capsule_header m n d) = length d"
  by (simp add: capsule_header_def Let_def capsule_wf_def capsule_consts fold_bytes_blit)

lemma capsule_header_fields:
  assumes "96 \<le> length d" "capsule_wf m"
  shows "take 8 (capsule_header m n d) = kCapsuleMagic"
    "read_le (capsule_header m n d) 8 = kCapsuleVersion"
    "read_le (capsule_header m n d) 10 = (96 :: u16)"
    "read_le (capsule_header m n d) 12 = jd_kind (scm_descriptor m)"
    "read_le (capsule_header m n d) 14 = scm_state m"
    "read_le (capsule_header m n d) 16 = (0 :: u32)"
    "read_le (capsule_header m n d) 20 = (0 :: u32)"
    "take 16 (drop 24 (capsule_header m n d)) = jd_model_digest (scm_descriptor m)"
    "read_le (capsule_header m n d) 40 = jd_session_id (scm_descriptor m)"
    "read_le (capsule_header m n d) 48 = jd_generation (scm_descriptor m)"
    "read_le (capsule_header m n d) 56 = jd_deadline_ns (scm_descriptor m)"
    "read_le (capsule_header m n d) 64 = jd_total_work_units (scm_descriptor m)"
    "read_le (capsule_header m n d) 72 = scm_completed_work_units m"
    "read_le (capsule_header m n d) 80 = (of_nat n :: u64)"
    "read_le (capsule_header m n d) 88 = jd_state_schema (scm_descriptor m)"
  using assms
  by (simp_all add: capsule_header_def Let_def capsule_wf_def capsule_consts header_read_simps)

lemma capsule_header_append:
  assumes "length d = 96" "capsule_wf m"
  shows "capsule_header m n (d @ e) = capsule_header m n d @ e"
  using assms
  by (simp add: capsule_header_def Let_def capsule_wf_def capsule_consts fold_bytes_blit
      write_le_append blit_append)

text \<open>The bytes of a capsule: header, payload and fingerprint.\<close>

definition capsule_body :: "StateCapsuleMetadata \<Rightarrow> byte list \<Rightarrow> byte list" where
  "capsule_body m p = capsule_header m (length p) (replicate 96 0) @ p"

definition capsule_image :: "StateCapsuleMetadata \<Rightarrow> byte list \<Rightarrow> byte list" where
  "capsule_image m p = capsule_body m p @ fingerprint_bytes (capsule_body m p)"

lemma length_capsule_body: "capsule_wf m \<Longrightarrow> length (capsule_body m p) = 96 + length p"
  by (simp add: capsule_body_def length_capsule_header)

lemma length_capsule_image: "capsule_wf m \<Longrightarrow> length (capsule_image m p) = 112 + length p"
  by (simp add: capsule_image_def length_capsule_body length_fingerprint_bytes)

lemma write_capsule_image:
  assumes "valid_progress m" "capsule_wf m" "length p \<le> SIZE_MAX - 112" "112 + length p \<le> length destination"
  shows "write_state_capsule m p destination = Inr (112 + length p, capsule_image m p @ drop (112 + length p) destination)"
proof -
  let ?d = "drop 96 destination"
  have split: "blit destination 0 (replicate 96 0) = replicate 96 0 @ ?d" by (simp add: blit_0)
  have headed: "capsule_header m (length p) (replicate 96 0 @ ?d) = capsule_header m (length p) (replicate 96 0) @ ?d"
    using assms(2) by (intro capsule_header_append) simp_all
  have len: "length (capsule_header m (length p) (replicate 96 0)) = 96"
    using assms(2) by (simp add: length_capsule_header)
  have filled: "blit (capsule_header m (length p) (replicate 96 0) @ ?d) 96 p = capsule_body m p @ drop (96 + length p) destination"
    using assms(4) len by (simp add: blit_def capsule_body_def add.commute)
  have "length (capsule_body m p) = 96 + length p" using assms(2) by (rule length_capsule_body)
  then have "take (96 + length p) (capsule_body m p @ drop (96 + length p) destination) = capsule_body m p" by simp
  moreover have "fold (\<lambda>i d. d[96 + length p + i := fingerprint_bytes (capsule_body m p) ! i]) [0..<16]
      (capsule_body m p @ drop (96 + length p) destination) = capsule_image m p @ drop (112 + length p) destination"
    using assms(4) length_capsule_body [OF assms(2), of p]
    by (subst fold_bytes_blit) (simp_all add: length_fingerprint_bytes capsule_image_def blit_def add.commute)
  ultimately show ?thesis
    using assms(1,3,4) split headed filled
    by (simp add: write_state_capsule_def state_capsule_bytes_def capsule_consts Let_def length_fingerprint_bytes)
qed

text \<open>Header fields are read from an image as from the header.\<close>

lemma image_read:
  assumes "capsule_wf m" "off + LENGTH('a) div 8 \<le> 96"
  shows "(read_le (capsule_image m p) off :: 'a::len word) = read_le (capsule_header m (length p) (replicate 96 0)) off"
  by (rule read_le_cong)
    (use assms in \<open>simp add: capsule_image_def capsule_body_def nth_append length_capsule_header\<close>)

lemma image_slices:
  assumes "capsule_wf m"
  shows "take 8 (capsule_image m p) = kCapsuleMagic"
    "take 16 (drop 24 (capsule_image m p)) = jd_model_digest (scm_descriptor m)"
    "take (length p) (drop 96 (capsule_image m p)) = p"
    "take (96 + length p) (capsule_image m p) = capsule_body m p"
    "drop (96 + length p) (capsule_image m p) = fingerprint_bytes (capsule_body m p)"
  using assms capsule_header_fields(1,8) [of "replicate 96 0" m "length p"]
  by (simp_all add: capsule_image_def capsule_body_def length_capsule_header)

lemma list_ex_neq_digest:
  assumes "k + 16 = length s" "length c = 16"
  shows "list_ex (\<lambda>i. s ! (k + i) \<noteq> c ! i) [0..<16] \<longleftrightarrow> drop k s \<noteq> c"
proof -
  have "drop k s = c \<longleftrightarrow> (\<forall>i < 16. s ! (k + i) = c ! i)"
    using assms by (auto simp: list_eq_iff_nth_eq)
  then show ?thesis by (auto simp: list_ex_iff)
qed

text \<open>What the reader reconstructs: the descriptor without the reserved field.\<close>

definition portable :: "StateCapsuleMetadata \<Rightarrow> StateCapsuleMetadata" where
  "portable m = m\<lparr>scm_descriptor := (scm_descriptor m)\<lparr>jd_reserved := 0\<rparr>\<rparr>"

lemma valid_progress_portable: "valid_progress (portable m) = valid_progress m"
  by (simp add: valid_progress_def portable_def valid_job_descriptor_def)

lemma valid_progress_version: "valid_progress m \<Longrightarrow> jd_protocol_version (scm_descriptor m) = kCooperativeJobVersion"
  by (simp add: valid_progress_def valid_job_descriptor_def Let_def split: if_splits)

lemma read_capsule_image:
  assumes v: "valid_progress m" and wf: "capsule_wf m" and len: "length p \<le> SIZE_MAX - 112"
  shows "read_state_capsule (capsule_image m p) = Inr \<lparr>scv_metadata = portable m, scv_payload = p\<rparr>"
proof -
  let ?s = "capsule_image m p"
  note hf = capsule_header_fields [of "replicate 96 0" m "length p", simplified, OF wf]
  note rd = image_read [OF wf, of _ p]
  have L: "length ?s = 112 + length p" using wf by (rule length_capsule_image)
  have n: "unat (read_le ?s 80 :: u64) = length p"
    using len by (simp add: rd hf unat_of_nat_u64)
  have req: "state_capsule_bytes (length p) = 112 + length p"
    using len by (simp add: state_capsule_bytes_def capsule_consts)
  have ck: "\<not> list_ex (\<lambda>i. ?s ! (96 + length p + i) \<noteq> fingerprint_bytes (take (96 + length p) ?s) ! i) [0..<16]"
    using list_ex_neq_digest [of "96 + length p" ?s "fingerprint_bytes (capsule_body m p)"] L
    by (simp add: image_slices [OF wf])
  have dig: "map (\<lambda>i. ?s ! (24 + i)) [0..<16] = jd_model_digest (scm_descriptor m)"
    using L by (simp add: map_nth_slice image_slices [OF wf])
  have md: "\<lparr>scm_descriptor = default_descriptor\<lparr>jd_kind := read_le ?s 12, jd_model_digest := map (\<lambda>i. ?s ! (24 + i)) [0..<16],
      jd_session_id := read_le ?s 40, jd_generation := read_le ?s 48, jd_deadline_ns := read_le ?s 56,
      jd_total_work_units := read_le ?s 64, jd_state_schema := read_le ?s 88\<rparr>,
      scm_state = read_le ?s 14, scm_completed_work_units = read_le ?s 72\<rparr> = portable m"
    using valid_progress_version [OF v] by (simp add: rd hf dig portable_def default_descriptor_def)
  show ?thesis
    unfolding read_state_capsule_def Let_def capsule_consts n md req length_fingerprint_bytes
    using L ck v len
    by (simp add: rd hf image_slices [OF wf] valid_progress_portable)
qed

text \<open>A capsule that is accepted is, byte for byte, an image of what was read from it.\<close>

lemma accepted_capsule:
  assumes "read_state_capsule s = Inr v"
  shows "s = capsule_image (scv_metadata v) (scv_payload v)" "valid_progress (scv_metadata v)" "capsule_wf (scv_metadata v)"
    "portable (scv_metadata v) = scv_metadata v" "length (scv_payload v) \<le> SIZE_MAX - 112"
proof -
  let ?n = "unat (read_le s 80 :: u64)"
  define m where "m = \<lparr>scm_descriptor = default_descriptor\<lparr>jd_kind := read_le s 12, jd_model_digest := map (\<lambda>i. s ! (24 + i)) [0..<16],
      jd_session_id := read_le s 40, jd_generation := read_le s 48, jd_deadline_ns := read_le s 56,
      jd_total_work_units := read_le s 64, jd_state_schema := read_le s 88\<rparr>,
      scm_state = read_le s 14, scm_completed_work_units = read_le s 72\<rparr>"
  have g: "112 \<le> length s" "take 8 s = kCapsuleMagic" "(read_le s 8 :: u16) = kCapsuleVersion" "unat (read_le s 10 :: u16) = 96"
      "(read_le s 16 :: u32) = 0" "(read_le s 20 :: u32) = 0"
      "state_capsule_bytes ?n \<noteq> 0" "length s = state_capsule_bytes ?n"
      "\<not> list_ex (\<lambda>i. s ! (96 + ?n + i) \<noteq> fingerprint_bytes (take (96 + ?n) s) ! i) [0..<16]"
      "valid_progress m" "v = \<lparr>scv_metadata = m, scv_payload = take ?n (drop 96 s)\<rparr>"
    using assms unfolding read_state_capsule_def Let_def capsule_consts length_fingerprint_bytes m_def [symmetric]
    by (simp_all split: if_splits)
  have n: "length s = 112 + ?n" "?n \<le> SIZE_MAX - 112"
    using g(7,8) by (auto simp: state_capsule_bytes_def capsule_consts split: if_splits)
  let ?p = "take ?n (drop 96 s)"
  have lp: "length ?p = ?n" using n by simp
  have dig: "jd_model_digest (scm_descriptor m) = take 16 (drop 24 s)"
    using n by (simp add: m_def map_nth_slice)
  have wf: "capsule_wf m" using n by (simp add: capsule_wf_def dig FE_MODEL_DIGEST_BYTES_def)
  have "(read_le s 10 :: u16) = of_nat (unat (read_le s 10 :: u16))" by simp
  with g(4) have f10: "(read_le s 10 :: u16) = 96" by simp
  have f80: "(read_le s 80 :: u64) = of_nat (length ?p)" by (simp only: lp) simp
  have "take 96 (capsule_header m (length ?p) (replicate 96 0)) = take 96 s"
    using n wf g(2,3,5,6) f10 f80 dig
    by (simp only: capsule_header_def Let_def capsule_wf_def capsule_consts fold_bytes_blit
        length_write_le length_blit length_replicate length_kCapsuleMagic)
      (intro take_write_le_extendI take_blit_extendI, simp_all add: m_def)
  then have "capsule_header m (length ?p) (replicate 96 0) = take 96 s"
    using wf by (simp add: length_capsule_header)
  then have body: "capsule_body m ?p = take (96 + ?n) s"
    by (simp add: capsule_body_def take_add)
  have "drop (96 + ?n) s = fingerprint_bytes (take (96 + ?n) s)"
    using g(9) list_ex_neq_digest [of "96 + ?n" s] n(1) by simp
  then have "capsule_image m ?p = s" unfolding capsule_image_def body by (metis append_take_drop_id)
  then show "s = capsule_image (scv_metadata v) (scv_payload v)" using g(11) by simp
  show "valid_progress (scv_metadata v)" "capsule_wf (scv_metadata v)" using g(10,11) wf by simp_all
  show "portable (scv_metadata v) = scv_metadata v"
    unfolding g(11) by (simp add: portable_def m_def default_descriptor_def)
  show "length (scv_payload v) \<le> SIZE_MAX - 112" using g(11) n(2) by simp
qed

text \<open>What a successful write leaves reads back.\<close>

lemma capsule_read_back:
  assumes wf: "capsule_wf m" and w: "write_state_capsule m p destination = Inr (n, d)"
  shows "read_state_capsule (take n d) = Inr \<lparr>scv_metadata = portable m, scv_payload = p\<rparr>"
proof -
  have g: "valid_progress m" "length p \<le> SIZE_MAX - 112" "112 + length p \<le> length destination"
    using w by (auto simp: write_state_capsule_def state_capsule_bytes_def capsule_consts Let_def split: if_splits)
  then have "n = 112 + length p" "d = capsule_image m p @ drop (112 + length p) destination"
    using w write_capsule_image [OF g(1) wf g(2,3)] by auto
  then have "take n d = capsule_image m p" using length_capsule_image [OF wf, of p] by simp
  then show ?thesis using read_capsule_image [OF g(1) wf g(2)] by simp
qed

section \<open>Properties\<close>

text \<open>
  C28: Reading back a written capsule returns the payload and the metadata, with the descriptor's
  reserved field cleared, and touches nothing of the destination behind the capsule; writing
  succeeds exactly when the metadata is valid and the destination large enough.
\<close>

theorem capsule_roundtrip:
  assumes "capsule_wf m"
  shows "case write_state_capsule m p destination of
      Inl _ \<Rightarrow> \<not> valid_progress m \<or> SIZE_MAX < 112 + length p \<or> length destination < 112 + length p
    | Inr (n, d) \<Rightarrow> valid_progress m \<and> n = 112 + length p \<and> length d = length destination \<and>
        drop n d = drop n destination \<and>
        read_state_capsule (take n d) = Inr \<lparr>scv_metadata = portable m, scv_payload = p\<rparr>"
proof (cases "valid_progress m \<and> length p \<le> SIZE_MAX - 112 \<and> 112 + length p \<le> length destination")
  case True
  then have w: "write_state_capsule m p destination = Inr (112 + length p, capsule_image m p @ drop (112 + length p) destination)"
    using assms by (intro write_capsule_image) simp_all
  have L: "length (capsule_image m p) = 112 + length p" using assms by (rule length_capsule_image)
  show ?thesis using True w L read_capsule_image [OF _ assms] by simp
next
  case False
  then show ?thesis
    by (auto simp: write_state_capsule_def state_capsule_bytes_def capsule_consts Let_def)
qed

definition demo_capsule :: StateCapsuleMetadata where
  "demo_capsule = \<lparr>scm_descriptor = \<lparr>jd_protocol_version = 1, jd_kind = JobKind_kStreaming, jd_reserved = 5,
       jd_model_digest = replicate 15 0 @ [9], jd_state_schema = 2, jd_session_id = 7, jd_generation = 3,
       jd_deadline_ns = 99, jd_total_work_units = 10\<rparr>,
     scm_state = JobState_kRunning, scm_completed_work_units = 4\<rparr>"

lemma demo_capsule_ok: "capsule_wf demo_capsule" "valid_progress demo_capsule"
  by (simp_all add: capsule_wf_def demo_capsule_def FE_MODEL_DIGEST_BYTES_def valid_progress_def
      valid_job_descriptor_iff valid_job_kind_def valid_job_state_def enum_simps)

theorem capsule_roundtrip_witness:
  "\<exists>d. write_state_capsule demo_capsule [1, 2, 3] (replicate 200 0) = Inr (115, d) \<and>
     read_state_capsule (take 115 d) = Inr \<lparr>scv_metadata = portable demo_capsule, scv_payload = [1, 2, 3]\<rparr>"
  using capsule_roundtrip [OF demo_capsule_ok(1), of "[1, 2, 3]" "replicate 200 0"] demo_capsule_ok(2)
  by (auto split: sum.splits prod.splits)

text \<open>
  The capsule encoding is canonical: whatever bytes \<open>read_state_capsule\<close> accepts are
  exactly what \<open>write_state_capsule\<close> produces for the metadata and payload it returned, so
  two different buffers never decode to the same job state, and no byte is ignored.
\<close>

theorem capsule_canonical:
  assumes "read_state_capsule s = Inr v"
  shows "write_state_capsule (scv_metadata v) (scv_payload v) s = Inr (length s, s)"
proof -
  note a = accepted_capsule [OF assms]
  have L: "length s = 112 + length (scv_payload v)" using a(1) length_capsule_image [OF a(3)] by metis
  have "write_state_capsule (scv_metadata v) (scv_payload v) s =
      Inr (112 + length (scv_payload v), capsule_image (scv_metadata v) (scv_payload v) @ drop (112 + length (scv_payload v)) s)"
    by (rule write_capsule_image [OF a(2,3,5)]) (simp add: L)
  with L a(1) show ?thesis by simp
qed

theorem capsule_canonical_witness:
  "\<exists>s v. read_state_capsule s = Inr v \<and> write_state_capsule (scv_metadata v) (scv_payload v) s = Inr (length s, s)"
proof -
  have "read_state_capsule (capsule_image demo_capsule [1, 2]) = Inr \<lparr>scv_metadata = portable demo_capsule, scv_payload = [1, 2]\<rparr>"
    by (rule read_capsule_image [OF demo_capsule_ok(2,1)]) simp
  from capsule_canonical [OF this] this show ?thesis by blast
qed

end
