(* ===== verification/Cooperative_Job.thy ===== *)
theory Cooperative_Job
  imports State_Capsule
begin

text \<open>
  relay/jobs/cooperative_job.\{h,cc\}: the state machine that drives a workload through its
  backend's callbacks in bounded slices.

  The backend is code the runtime only calls: its context is a value of an arbitrary type
  \<open>'b\<close>, and its callbacks are the fields of \<open>CooperativeJobOps\<close>, functions that take and
  return the context; a null function pointer is \<open>None\<close>. Nothing is assumed about a backend, so
  every property holds for a faulty one. A callback can return any byte as its step, hence
  \<open>BackendStep\<close> is a byte.
\<close>

section \<open>Definitions\<close>

type_synonym BackendStep = u8

definition BackendStep_kInProgress :: BackendStep where [enum_simps]: "BackendStep_kInProgress = 0"
definition BackendStep_kComplete :: BackendStep where [enum_simps]: "BackendStep_kComplete = 1"
definition BackendStep_kFailed :: BackendStep where [enum_simps]: "BackendStep_kFailed = 2"

record BackendAdvance =
  ba_step :: BackendStep
  ba_completed_work_units :: u64

record 'b CooperativeJobOps =
  op_begin :: "('b \<Rightarrow> bool \<times> 'b) option"
  op_advance :: "('b \<Rightarrow> u64 \<Rightarrow> BackendAdvance \<times> 'b) option"
  op_cancel :: "('b \<Rightarrow> 'b) option"
  op_state_bytes :: "('b \<Rightarrow> nat) option"
  op_save_state :: "('b \<Rightarrow> nat \<Rightarrow> (byte list) option) option"
  op_load_state :: "('b \<Rightarrow> byte list \<Rightarrow> bool \<times> 'b) option"

text \<open>
  \<open>save_state\<close> fills a span of the given size and reports success, so it is the bytes it
  leaves in that span, or nothing on failure; the model cuts or pads them to the span. What a
  failed export leaves in the destination is not modelled: the callers discard it.
\<close>

record 'b CooperativeJob =
  cj_context :: 'b
  cj_descriptor :: JobDescriptor
  cj_operations :: "'b CooperativeJobOps"
  cj_state :: JobState
  cj_completed_work_units :: u64

definition same_descriptor :: "JobDescriptor \<Rightarrow> JobDescriptor \<Rightarrow> bool" where
  "same_descriptor l r \<longleftrightarrow> jd_protocol_version l = jd_protocol_version r \<and> jd_kind l = jd_kind r \<and>
     jd_model_digest l = jd_model_digest r \<and> jd_state_schema l = jd_state_schema r \<and>
     jd_session_id l = jd_session_id r \<and> jd_generation l = jd_generation r \<and>
     jd_deadline_ns l = jd_deadline_ns r \<and> jd_total_work_units l = jd_total_work_units r"

definition cj_bind :: "'b option \<Rightarrow> JobDescriptor \<Rightarrow> 'b CooperativeJobOps \<Rightarrow> JobError + 'b CooperativeJob" where
  "cj_bind context descriptor operations =
     (case context of
        None \<Rightarrow> Inl (JobError JE_kInvalidDescriptor ''Cooperative job binding is incomplete'')
      | Some c \<Rightarrow>
          if \<not> valid_job_descriptor descriptor \<or> op_begin operations = None \<or> op_advance operations = None \<or>
             op_cancel operations = None \<or> op_state_bytes operations = None \<or>
             op_save_state operations = None \<or> op_load_state operations = None
          then Inl (JobError JE_kInvalidDescriptor ''Cooperative job binding is incomplete'')
          else Inr \<lparr>cj_context = c, cj_descriptor = descriptor, cj_operations = operations,
                    cj_state = JobState_kReady, cj_completed_work_units = 0\<rparr>)"

definition cj_progress :: "'b CooperativeJob \<Rightarrow> JobProgress" where
  "cj_progress j = make_progress (cj_state j) (cj_completed_work_units j)
     (jd_total_work_units (cj_descriptor j) - cj_completed_work_units j)"

definition cj_state_bytes :: "'b CooperativeJob \<Rightarrow> nat" where
  "cj_state_bytes j = the (op_state_bytes (cj_operations j)) (cj_context j)"

definition cj_capsule_bytes :: "'b CooperativeJob \<Rightarrow> nat" where
  "cj_capsule_bytes j = state_capsule_bytes (cj_state_bytes j)"

definition cj_start :: "'b CooperativeJob \<Rightarrow> (JobError + JobProgress) \<times> 'b CooperativeJob" where
  "cj_start j =
     (if cj_state j \<noteq> JobState_kReady
      then (Inl (JobError JE_kInvalidState ''Cooperative job has already started''), j)
      else
        let (ok, c) = the (op_begin (cj_operations j)) (cj_context j); j1 = j\<lparr>cj_context := c\<rparr>
        in if \<not> ok
           then (Inl (JobError JE_kCallbackFailed ''Cooperative job begin callback failed''),
                 j1\<lparr>cj_state := JobState_kFailed\<rparr>)
           else let j2 = j1\<lparr>cj_state := JobState_kRunning\<rparr> in (Inr (cj_progress j2), j2))"

definition cj_cancel_before :: "u64 \<Rightarrow> 'b CooperativeJob \<Rightarrow> JobProgress \<times> 'b CooperativeJob" where
  "cj_cancel_before generation j =
     (let j1 = (if \<not> job_terminal (cj_state j) \<and> generation > jd_generation (cj_descriptor j)
                then j\<lparr>cj_context := the (op_cancel (cj_operations j)) (cj_context j),
                       cj_state := JobState_kCancelled\<rparr>
                else j)
      in (cj_progress j1, j1))"

definition cj_advance ::
  "u64 \<Rightarrow> u64 \<Rightarrow> 'b CooperativeJob \<Rightarrow> (JobError + JobProgress) \<times> 'b CooperativeJob" where
  "cj_advance work_budget cancel_before_generation j =
     (if job_terminal (cj_state j) then (Inr (cj_progress j), j)
      else if cj_state j \<noteq> JobState_kRunning
      then (Inl (JobError JE_kInvalidState ''Cooperative job must be started before advance''), j)
      else if cancel_before_generation > jd_generation (cj_descriptor j)
      then let (p, j1) = cj_cancel_before cancel_before_generation j in (Inr p, j1)
      else if work_budget = 0
      then (Inl (JobError JE_kInvalidBudget ''Cooperative job work budget must be non-zero''), j)
      else
        let remaining = jd_total_work_units (cj_descriptor j) - cj_completed_work_units j;
            callback_budget = min (min remaining work_budget) U64_MAX;
            (result, c) = the (op_advance (cj_operations j)) (cj_context j) callback_budget;
            j1 = j\<lparr>cj_context := c\<rparr>
        in if ba_step result \<noteq> BackendStep_kInProgress \<and> ba_step result \<noteq> BackendStep_kComplete \<and>
              ba_step result \<noteq> BackendStep_kFailed
           then (Inl (JobError JE_kCallbackContract ''Cooperative job callback returned an invalid state''),
                 j1\<lparr>cj_state := JobState_kFailed\<rparr>)
           else if ba_step result = BackendStep_kFailed
           then (Inl (JobError JE_kCallbackFailed ''Cooperative job advance callback failed''),
                 j1\<lparr>cj_state := JobState_kFailed\<rparr>)
           else if ba_completed_work_units result = 0 \<or> ba_completed_work_units result > callback_budget \<or>
                   ba_completed_work_units result > remaining
           then (Inl (JobError JE_kCallbackContract ''Cooperative job callback reported invalid progress''),
                 j1\<lparr>cj_state := JobState_kFailed\<rparr>)
           else
             let j2 = j1\<lparr>cj_completed_work_units := cj_completed_work_units j1 + ba_completed_work_units result\<rparr>;
                 exhausted = (cj_completed_work_units j2 = jd_total_work_units (cj_descriptor j2))
             in if (ba_step result = BackendStep_kComplete) \<noteq> exhausted
                then (Inl (JobError JE_kCallbackContract ''Cooperative job completion disagrees with its budget''),
                      j2\<lparr>cj_state := JobState_kFailed\<rparr>)
                else let j3 = j2\<lparr>cj_state := (if exhausted then JobState_kComplete else JobState_kRunning)\<rparr>
                  in (Inr (cj_progress j3), j3))"

definition fit_span :: "nat \<Rightarrow> byte list \<Rightarrow> byte list" where
  "fit_span n bytes = take n (bytes @ replicate n 0)"

definition cj_export_capsule :: "byte list \<Rightarrow> 'b CooperativeJob \<Rightarrow> JobError + (nat \<times> byte list)" where
  "cj_export_capsule destination j =
     (if cj_state j = JobState_kReady
      then Inl (JobError JE_kInvalidState ''Cooperative job must start before state export'')
      else
        let payload_bytes = cj_state_bytes j; required = state_capsule_bytes payload_bytes
        in if required = 0 \<or> length destination < required
           then Inl (JobError JE_kBufferTooSmall ''Cooperative job capsule buffer is too small'')
           else case the (op_save_state (cj_operations j)) (cj_context j) payload_bytes of
               None \<Rightarrow> Inl (JobError JE_kCallbackFailed ''Cooperative job state export failed'')
             | Some saved \<Rightarrow>
                 let payload = fit_span payload_bytes saved;
                     written = write_state_capsule
                       \<lparr>scm_descriptor = cj_descriptor j, scm_state = cj_state j,
                        scm_completed_work_units = cj_completed_work_units j\<rparr>
                       payload (blit destination kStateCapsuleHeaderBytes payload)
                 in case written of
                      Inl e \<Rightarrow> Inl (JobError JE_kCapsuleInvalid (sce_message e))
                    | Inr w \<Rightarrow> Inr w)"

definition cj_restore_capsule ::
  "byte list \<Rightarrow> 'b CooperativeJob \<Rightarrow> (JobError + JobProgress) \<times> 'b CooperativeJob" where
  "cj_restore_capsule source j =
     (if cj_state j \<noteq> JobState_kReady
      then (Inl (JobError JE_kInvalidState ''Only a fresh cooperative job can restore a capsule''), j)
      else case read_state_capsule source of
          Inl e \<Rightarrow> (Inl (JobError JE_kCapsuleInvalid (sce_message e)), j)
        | Inr capsule \<Rightarrow>
            if scm_state (scv_metadata capsule) = JobState_kReady
            then (Inl (JobError JE_kCapsuleInvalid ''A ready state capsule cannot resume execution''), j)
            else if \<not> same_descriptor (cj_descriptor j) (scm_descriptor (scv_metadata capsule))
            then (Inl (JobError JE_kCapsuleIncompatible ''State capsule belongs to an incompatible job''), j)
            else
              let (ok, c) = the (op_load_state (cj_operations j)) (cj_context j) (scv_payload capsule);
                  j1 = j\<lparr>cj_context := c\<rparr>
              in if \<not> ok
                 then (Inl (JobError JE_kCallbackFailed ''Cooperative job state import failed''), j1)
                 else let j2 = j1\<lparr>cj_state := scm_state (scv_metadata capsule),
                                cj_completed_work_units := scm_completed_work_units (scv_metadata capsule)\<rparr>
                   in (Inr (cj_progress j2), j2))"

section \<open>The state machine\<close>

text \<open>Any call on a job, with any arguments and any backend.\<close>

inductive job_step :: "'b CooperativeJob \<Rightarrow> 'b CooperativeJob \<Rightarrow> bool" where
  js_start: "cj_start j = (r, j') \<Longrightarrow> job_step j j'"
| js_advance: "cj_advance budget generation j = (r, j') \<Longrightarrow> job_step j j'"
| js_cancel: "cj_cancel_before generation j = (p, j') \<Longrightarrow> job_step j j'"
| js_restore: "cj_restore_capsule source j = (r, j') \<Longrightarrow> job_step j j'"

inductive_cases job_stepE: "job_step j j'"

definition job_bound :: "'b CooperativeJob \<Rightarrow> bool" where
  "job_bound j \<longleftrightarrow> (\<exists>c d ops. cj_bind c d ops = Inr j)"

definition job_inv :: "'b CooperativeJob \<Rightarrow> bool" where
  "job_inv j \<longleftrightarrow> valid_job_descriptor (cj_descriptor j) \<and> valid_job_progress (cj_descriptor j) (cj_progress j)"

section \<open>Lemmas\<close>

lemma cj_progress_sel [simp]:
  "jp_state (cj_progress j) = cj_state j" "jp_completed_work_units (cj_progress j) = cj_completed_work_units j"
  "jp_remaining_work_units (cj_progress j) = jd_total_work_units (cj_descriptor j) - cj_completed_work_units j"
  by (simp_all add: cj_progress_def)

lemma job_inv_iff:
  "job_inv j \<longleftrightarrow> valid_job_descriptor (cj_descriptor j) \<and> valid_job_state (cj_state j) \<and>
     cj_completed_work_units j \<le> jd_total_work_units (cj_descriptor j) \<and>
     (cj_state j = JobState_kReady \<longrightarrow> cj_completed_work_units j = 0) \<and>
     (cj_state j = JobState_kRunning \<longrightarrow> cj_completed_work_units j < jd_total_work_units (cj_descriptor j)) \<and>
     (cj_state j = JobState_kComplete \<longrightarrow> cj_completed_work_units j = jd_total_work_units (cj_descriptor j))"
  by (auto simp: job_inv_def valid_job_progress_def not_less enum_simps)

lemma cj_bind_inv: "cj_bind c d ops = Inr j \<Longrightarrow> job_inv j"
  by (auto simp: cj_bind_def job_inv_iff valid_job_state_def enum_simps split: option.splits if_splits)

lemma valid_states [simp]:
  "valid_job_state JobState_kFailed" "valid_job_state JobState_kRunning" "valid_job_state JobState_kComplete"
  "valid_job_state JobState_kCancelled" "valid_job_state JobState_kReady"
  by (simp_all add: valid_job_state_def enum_simps)

lemma job_states_distinct [simp]:
  "JobState_kFailed \<noteq> JobState_kReady" "JobState_kFailed \<noteq> JobState_kRunning" "JobState_kFailed \<noteq> JobState_kComplete"
  "JobState_kCancelled \<noteq> JobState_kReady" "JobState_kCancelled \<noteq> JobState_kRunning" "JobState_kCancelled \<noteq> JobState_kComplete"
  "JobState_kRunning \<noteq> JobState_kReady" "JobState_kRunning \<noteq> JobState_kComplete" "JobState_kComplete \<noteq> JobState_kReady"
  "JobState_kReady \<noteq> JobState_kRunning" "JobState_kReady \<noteq> JobState_kComplete" "JobState_kComplete \<noteq> JobState_kRunning"
  "JobState_kReady \<noteq> JobState_kFailed" "JobState_kReady \<noteq> JobState_kCancelled" "JobState_kRunning \<noteq> JobState_kFailed"
  "JobState_kRunning \<noteq> JobState_kCancelled"
  by (simp_all add: enum_simps)

lemma job_terminal_simps [simp]:
  "\<not> job_terminal JobState_kReady" "\<not> job_terminal JobState_kRunning" "job_terminal JobState_kComplete"
  "job_terminal JobState_kCancelled" "job_terminal JobState_kFailed"
  by (simp_all add: job_terminal_def enum_simps)

lemma cj_start_inv: "job_inv j \<Longrightarrow> job_inv (snd (cj_start j))"
  by (auto simp: cj_start_def job_inv_iff Let_def valid_job_descriptor_iff word_less_nat_alt unat_gt_0
      split: prod.splits)

lemma cj_cancel_inv: "job_inv j \<Longrightarrow> job_inv (snd (cj_cancel_before g j))"
  by (auto simp: cj_cancel_before_def job_inv_iff Let_def)

text \<open>Work added within the remaining amount does not wrap around.\<close>

lemma add_within_remaining:
  fixes t c x :: u64
  assumes "c \<le> t" "x \<le> t - c"
  shows "unat (c + x) = unat c + unat x" "c + x \<le> t" "t - (c + x) = t - c - x" "unat c + unat x \<le> unat t"
proof -
  have x: "unat x \<le> unat t - unat c" "unat c \<le> unat t"
    using assms by (simp_all add: word_le_nat_alt unat_sub)
  then show s: "unat (c + x) = unat c + unat x"
    using unat_u64_le_max [of t] by (intro unat_add_no_overflow) linarith
  show "unat c + unat x \<le> unat t" using x by linarith
  then show "c + x \<le> t" by (simp add: word_le_nat_alt s)
  show "t - (c + x) = t - c - x" by simp
qed

lemma cj_advance_inv:
  assumes inv: "job_inv j"
  shows "job_inv (snd (cj_advance budget g j))"
proof -
  let ?rem = "jd_total_work_units (cj_descriptor j) - cj_completed_work_units j"
  obtain result c where call: "the (op_advance (cj_operations j)) (cj_context j) (min (min ?rem budget) U64_MAX) = (result, c)"
    by fastforce
  have le: "cj_completed_work_units j \<le> jd_total_work_units (cj_descriptor j)" using inv by (simp add: job_inv_iff)
  have add: "cj_completed_work_units j + ba_completed_work_units result \<le> jd_total_work_units (cj_descriptor j)"
    if "\<not> ba_completed_work_units result > ?rem"
    using add_within_remaining(2) [OF le] that by simp
  have base: "valid_job_descriptor (cj_descriptor j)" using inv by (simp add: job_inv_iff)
  have cancel: "job_inv (snd (cj_cancel_before g j))" using inv by (rule cj_cancel_inv)
  show ?thesis
  proof (cases "job_terminal (cj_state j) \<or> cj_state j \<noteq> JobState_kRunning \<or> g > jd_generation (cj_descriptor j) \<or> budget = 0")
    case True
    then show ?thesis using inv cancel by (auto simp: cj_advance_def Let_def split: prod.splits)
  next
    case False
    then show ?thesis
      unfolding cj_advance_def Let_def call
      using base le add by (auto simp: job_inv_iff order.not_eq_order_implies_strict)
  qed
qed

lemma cj_restore_inv:
  assumes inv: "job_inv j"
  shows "job_inv (snd (cj_restore_capsule source j))"
proof (cases "read_state_capsule source")
  case (Inl e)
  then show ?thesis using inv by (simp add: cj_restore_capsule_def)
next
  case (Inr v)
  have v: "valid_progress (scv_metadata v)" using accepted_capsule(2) [OF Inr] .
  show ?thesis
  proof (cases "cj_state j = JobState_kReady \<and> same_descriptor (cj_descriptor j) (scm_descriptor (scv_metadata v))")
    case True
    then have "jd_total_work_units (cj_descriptor j) = jd_total_work_units (scm_descriptor (scv_metadata v))"
      by (simp add: same_descriptor_def)
    then show ?thesis
      using inv v Inr True
      by (auto simp: cj_restore_capsule_def job_inv_iff valid_progress_def Let_def not_less split: prod.splits if_splits)
  next
    case False
    then show ?thesis using inv Inr by (auto simp: cj_restore_capsule_def)
  qed
qed

interpretation job_machine: inductive_invariant job_bound job_step job_inv
proof
  show "job_bound j \<Longrightarrow> job_inv j" for j :: "'b CooperativeJob" by (auto simp: job_bound_def intro: cj_bind_inv)
  show "job_step j j' \<Longrightarrow> job_inv j \<Longrightarrow> job_inv j'" for j j' :: "'b CooperativeJob"
    by (erule job_stepE) (metis cj_start_inv cj_advance_inv cj_cancel_inv cj_restore_inv snd_conv)+
qed

text \<open>Repeated slices.\<close>

fun advance_all :: "(u64 \<times> u64) list \<Rightarrow> 'b CooperativeJob \<Rightarrow> 'b CooperativeJob" where
  "advance_all [] j = j"
| "advance_all ((budget, generation) # slices) j = advance_all slices (snd (cj_advance budget generation j))"

lemma advance_terminal: "job_terminal (cj_state j) \<Longrightarrow> cj_advance b g j = (Inr (cj_progress j), j)"
  by (simp add: cj_advance_def)

lemma advance_all_terminal: "job_terminal (cj_state j) \<Longrightarrow> advance_all slices j = j"
  by (induction slices) (auto simp: advance_terminal)

lemma cj_advance_descriptor: "cj_descriptor (snd (cj_advance b g j)) = cj_descriptor j"
  by (simp add: cj_advance_def cj_cancel_before_def Let_def split: prod.splits)

text \<open>A slice of a running job ends it or shrinks what is left, whatever the backend does.\<close>

lemma cj_advance_decreases:
  fixes b g :: u64
  assumes inv: "job_inv j" and run: "cj_state j = JobState_kRunning" and b: "b \<noteq> 0"
  defines "j' \<equiv> snd (cj_advance b g j)"
  shows "job_terminal (cj_state j') \<or> cj_state j' = JobState_kRunning \<and>
    unat (cj_completed_work_units j) < unat (cj_completed_work_units j')"
proof -
  let ?rem = "jd_total_work_units (cj_descriptor j) - cj_completed_work_units j"
  obtain result c where call: "the (op_advance (cj_operations j)) (cj_context j) (min (min ?rem b) U64_MAX) = (result, c)"
    by fastforce
  have le: "cj_completed_work_units j \<le> jd_total_work_units (cj_descriptor j)" using inv by (simp add: job_inv_iff)
  have grow: "unat (cj_completed_work_units j) < unat (cj_completed_work_units j + ba_completed_work_units result)"
    if "ba_completed_work_units result \<noteq> 0" "\<not> ba_completed_work_units result > ?rem"
    using add_within_remaining(1) [OF le] that by (auto simp: not_less unat_gt_0)
  show ?thesis
  proof (cases "g > jd_generation (cj_descriptor j)")
    case True
    then show ?thesis using run by (simp add: j'_def cj_advance_def cj_cancel_before_def Let_def)
  next
    case False
    then show ?thesis using run b grow unfolding j'_def cj_advance_def Let_def call by auto
  qed
qed

lemma advance_all_ends:
  assumes "job_inv j" "cj_state j = JobState_kRunning" "\<forall>(b, g) \<in> set slices. b \<noteq> 0"
    "unat (jd_total_work_units (cj_descriptor j)) - unat (cj_completed_work_units j) \<le> length slices"
  shows "job_terminal (cj_state (advance_all slices j))"
  using assms
proof (induction slices arbitrary: j)
  case Nil
  then have "unat (jd_total_work_units (cj_descriptor j)) \<le> unat (cj_completed_work_units j)" by simp
  with Nil.prems(1,2) show ?case by (simp add: job_inv_iff word_less_nat_alt)
next
  case (Cons slice slices)
  obtain b g where slice: "slice = (b, g)" by fastforce
  let ?j = "snd (cj_advance b g j)"
  have "b \<noteq> 0" using Cons.prems(3) slice by simp
  from cj_advance_decreases [OF Cons.prems(1,2) this, of g]
  show ?case
  proof
    assume "job_terminal (cj_state ?j)"
    then show ?thesis by (simp add: slice advance_all_terminal)
  next
    assume more: "cj_state ?j = JobState_kRunning \<and> unat (cj_completed_work_units j) < unat (cj_completed_work_units ?j)"
    have "job_terminal (cj_state (advance_all slices ?j))"
      using Cons.prems(3,4) more
      by (intro Cons.IH cj_advance_inv [OF Cons.prems(1)]) (auto simp: cj_advance_descriptor)
    then show ?thesis by (simp add: slice)
  qed
qed

section \<open>Properties\<close>

text \<open>
  In every state a job can reach, for every backend, including one that returns nonsense,
  the reported progress is valid: completed and remaining work add up to the total without
  wrap-around, a ready job has done nothing, a running job has work left, and a complete job has
  none.
\<close>

theorem job_progress_valid:
  assumes "reach job_bound job_step j"
  shows "valid_job_progress (cj_descriptor j) (cj_progress j) \<and>
    unat (cj_completed_work_units j) + unat (jp_remaining_work_units (cj_progress j)) =
      unat (jd_total_work_units (cj_descriptor j)) \<and>
    (cj_state j = JobState_kRunning \<longrightarrow> 0 < unat (jp_remaining_work_units (cj_progress j)))"
proof -
  have inv: "job_inv j" using assms by (rule job_machine.reach_inv)
  then have v: "valid_job_progress (cj_descriptor j) (cj_progress j)" by (simp add: job_inv_def)
  have "cj_state j = JobState_kRunning \<Longrightarrow> cj_completed_work_units j < jd_total_work_units (cj_descriptor j)"
    using inv by (simp add: job_inv_iff)
  then show ?thesis using v job_progress_split [OF v] by (auto simp: word_less_nat_alt)
qed

definition count_ops :: "nat CooperativeJobOps" where
  "count_ops = \<lparr>op_begin = Some (\<lambda>c. (True, c)),
     op_advance = Some (\<lambda>c b. (\<lparr>ba_step = (if c + 1 = 3 then BackendStep_kComplete else BackendStep_kInProgress),
       ba_completed_work_units = 1\<rparr>, c + 1)),
     op_cancel = Some (\<lambda>c. c), op_state_bytes = Some (\<lambda>c. 1),
     op_save_state = Some (\<lambda>c n. Some [of_nat c]),
     op_load_state = Some (\<lambda>c bs. (True, unat (hd bs)))\<rparr>"

definition count_descriptor :: JobDescriptor where
  "count_descriptor = \<lparr>jd_protocol_version = 1, jd_kind = JobKind_kIterative, jd_reserved = 0,
     jd_model_digest = replicate 15 0 @ [1], jd_state_schema = 1, jd_session_id = 8, jd_generation = 2,
     jd_deadline_ns = 0, jd_total_work_units = 3\<rparr>"

definition count_job :: "JobState \<Rightarrow> nat \<Rightarrow> nat CooperativeJob" where
  "count_job st c = \<lparr>cj_context = c, cj_descriptor = count_descriptor, cj_operations = count_ops,
     cj_state = st, cj_completed_work_units = of_nat c\<rparr>"

lemma count_valid: "valid_job_descriptor count_descriptor"
  by (simp add: valid_job_descriptor_iff count_descriptor_def valid_job_kind_def enum_simps)

lemma count_bind: "cj_bind (Some 0) count_descriptor count_ops = Inr (count_job JobState_kReady 0)"
  using count_valid by (simp add: cj_bind_def count_ops_def count_job_def)

lemma count_start: "cj_start (count_job JobState_kReady 0) = (Inr (make_progress JobState_kRunning 0 3), count_job JobState_kRunning 0)"
  by (simp add: cj_start_def count_job_def count_ops_def count_descriptor_def cj_progress_def)

lemma count_advance: "cj_advance 5 0 (count_job JobState_kRunning 0) = (Inr (make_progress JobState_kRunning 1 2), count_job JobState_kRunning 1)"
  by (simp add: cj_advance_def count_job_def count_ops_def count_descriptor_def cj_progress_def Let_def enum_simps job_terminal_def min_def)

theorem job_progress_valid_witness:
  "reach job_bound job_step (count_job JobState_kRunning 1) \<and>
   valid_job_progress count_descriptor (cj_progress (count_job JobState_kRunning 1))"
proof -
  have "reach job_bound job_step (count_job JobState_kReady 0)"
    by (rule reach_init) (use count_bind in \<open>auto simp: job_bound_def\<close>)
  then have "reach job_bound job_step (count_job JobState_kRunning 0)"
    by (rule reach_step) (rule js_start [OF count_start])
  then have r: "reach job_bound job_step (count_job JobState_kRunning 1)"
    by (rule reach_step) (rule js_advance [OF count_advance])
  from job_progress_valid [OF r] r show ?thesis by (simp add: count_job_def)
qed

text \<open>
  A terminal state is final: no call on a complete, cancelled or failed job changes it or
  calls into the backend's context again.
\<close>

theorem job_terminal_final:
  assumes "job_terminal (cj_state j)" and "job_step j j'"
  shows "j' = j"
  using assms(2,1)
  by (elim job_stepE)
    (auto simp: cj_start_def cj_cancel_before_def cj_restore_capsule_def advance_terminal Let_def job_terminal_def enum_simps)

theorem job_terminal_final_witness:
  "job_step (count_job JobState_kComplete 3) (snd (cj_cancel_before 9 (count_job JobState_kComplete 3))) \<and>
   snd (cj_cancel_before 9 (count_job JobState_kComplete 3)) = count_job JobState_kComplete 3"
proof -
  have t: "job_terminal (cj_state (count_job JobState_kComplete 3))" by (simp add: count_job_def)
  have s: "job_step (count_job JobState_kComplete 3) (snd (cj_cancel_before 9 (count_job JobState_kComplete 3)))"
    by (rule js_cancel [where p = "fst (cj_cancel_before 9 (count_job JobState_kComplete 3))" and generation = 9]) simp
  from job_terminal_final [OF t s] s show ?thesis by blast
qed

text \<open>
  C30: A running job ends after at most as many non-empty slices as it has work units left, for
  every backend, every slice size and every cancellation request in between: no backend can
  keep a job running for ever.
\<close>

theorem job_ends:
  assumes "reach job_bound job_step j" and "cj_state j = JobState_kRunning" and "\<forall>(b, g) \<in> set slices. b \<noteq> 0"
    and "unat (jp_remaining_work_units (cj_progress j)) \<le> length slices"
  shows "job_terminal (cj_state (advance_all slices j))"
proof -
  have inv: "job_inv j" using assms(1) by (rule job_machine.reach_inv)
  then have "cj_completed_work_units j \<le> jd_total_work_units (cj_descriptor j)" by (simp add: job_inv_iff)
  with assms(4) show ?thesis
    by (intro advance_all_ends [OF inv assms(2,3)]) (simp add: unat_sub)
qed

theorem job_ends_witness: "job_terminal (cj_state (advance_all [(1, 0), (7, 0), (2, 0)] (count_job JobState_kRunning 0)))"
proof (rule job_ends)
  show "reach job_bound job_step (count_job JobState_kRunning 0)"
  proof (rule reach_step)
    show "reach job_bound job_step (count_job JobState_kReady 0)"
      by (rule reach_init) (use count_bind in \<open>auto simp: job_bound_def\<close>)
    show "job_step (count_job JobState_kReady 0) (count_job JobState_kRunning 0)" by (rule js_start [OF count_start])
  qed
qed (simp_all add: count_job_def count_descriptor_def cj_progress_def)

text \<open>
  C29: Migration preserves a job. If a started job exports a capsule, a fresh job with the same
  descriptor that restores it gets exactly the bytes the first backend saved, and then has the
  same state and the same completed and remaining work.
\<close>

theorem job_migration:
  assumes "job_inv j" and "length (jd_model_digest (cj_descriptor j)) = FE_MODEL_DIGEST_BYTES"
    and "cj_export_capsule destination j = Inr (n, d)"
    and "cj_state fresh = JobState_kReady" and "same_descriptor (cj_descriptor fresh) (cj_descriptor j)"
    and "the (op_save_state (cj_operations j)) (cj_context j) (cj_state_bytes j) = Some saved"
    and "the (op_load_state (cj_operations fresh)) (cj_context fresh) (fit_span (cj_state_bytes j) saved) = (True, c)"
  shows "\<exists>fresh'. cj_restore_capsule (take n d) fresh = (Inr (cj_progress j), fresh') \<and> cj_context fresh' = c \<and>
    cj_progress fresh' = cj_progress j"
proof -
  let ?m = "\<lparr>scm_descriptor = cj_descriptor j, scm_state = cj_state j, scm_completed_work_units = cj_completed_work_units j\<rparr>"
  let ?p = "fit_span (cj_state_bytes j) saved"
  have started: "cj_state j \<noteq> JobState_kReady"
    and w: "write_state_capsule ?m ?p (blit destination kStateCapsuleHeaderBytes ?p) = Inr (n, d)"
    using assms(3,6) by (auto simp: cj_export_capsule_def Let_def split: if_splits sum.splits)
  have wf: "capsule_wf ?m" using assms(2) by (simp add: capsule_wf_def)
  have rd: "read_state_capsule (take n d) = Inr \<lparr>scv_metadata = portable ?m, scv_payload = ?p\<rparr>"
    using capsule_read_back [OF wf w] .
  have sd: "same_descriptor (cj_descriptor fresh) (scm_descriptor (portable ?m))"
    using assms(5) by (simp add: same_descriptor_def portable_def)
  have tot: "jd_total_work_units (cj_descriptor fresh) = jd_total_work_units (cj_descriptor j)"
    using assms(5) by (simp add: same_descriptor_def)
  show ?thesis
    using assms(4,7) rd sd started tot
    by (simp add: cj_restore_capsule_def portable_def cj_progress_def)
qed

theorem job_migration_witness:
  "\<exists>d fresh'. cj_export_capsule (replicate 200 0) (count_job JobState_kRunning 1) = Inr (113, d) \<and>
     cj_restore_capsule (take 113 d) (count_job JobState_kReady 0) = (Inr (make_progress JobState_kRunning 1 2), fresh') \<and>
     cj_context fresh' = 1"
proof -
  define j where "j = count_job JobState_kRunning 1"
  have sel: "cj_descriptor j = count_descriptor" "cj_operations j = count_ops" "cj_context j = 1" "cj_state j = JobState_kRunning"
    "cj_completed_work_units j = 1" "cj_state_bytes j = 1"
    by (simp_all add: j_def count_job_def cj_state_bytes_def count_ops_def)
  have inv: "job_inv j"
    using count_valid by (simp add: job_inv_iff sel) (simp add: count_descriptor_def)
  have dig: "length (jd_model_digest (cj_descriptor j)) = FE_MODEL_DIGEST_BYTES"
    by (simp add: sel count_descriptor_def FE_MODEL_DIGEST_BYTES_def)
  have save: "the (op_save_state (cj_operations j)) (cj_context j) (cj_state_bytes j) = Some [1]"
    by (simp add: sel count_ops_def)
  have fit: "fit_span (cj_state_bytes j) [1] = [1]" by (simp add: fit_span_def sel)
  let ?m = "\<lparr>scm_descriptor = count_descriptor, scm_state = JobState_kRunning, scm_completed_work_units = 1\<rparr>"
  have m1: "valid_progress ?m"
    using count_valid by (simp add: valid_progress_def) (simp add: count_descriptor_def)
  have m2: "capsule_wf ?m" using dig by (simp add: capsule_wf_def sel)
  have "write_state_capsule ?m [1] (blit (replicate 200 0) 96 [1]) =
      Inr (112 + length [1 :: byte], capsule_image ?m [1] @ drop (112 + length [1 :: byte]) (blit (replicate 200 0) 96 [1]))"
    by (rule write_capsule_image [OF m1 m2]) simp_all
  then obtain d where exp: "cj_export_capsule (replicate 200 0) j = Inr (113, d)"
    using save fit
    by (simp add: cj_export_capsule_def sel state_capsule_bytes_def capsule_consts Let_def)
  have load: "the (op_load_state (cj_operations (count_job JobState_kReady 0))) (cj_context (count_job JobState_kReady 0))
      (fit_span (cj_state_bytes j) [1]) = (True, 1)"
    unfolding fit by (simp add: count_job_def count_ops_def)
  have pr: "cj_progress j = make_progress JobState_kRunning 1 2" by (simp add: cj_progress_def sel) (simp add: count_descriptor_def)
  have "\<exists>fresh'. cj_restore_capsule (take 113 d) (count_job JobState_kReady 0) = (Inr (cj_progress j), fresh') \<and> cj_context fresh' = 1 \<and>
      cj_progress fresh' = cj_progress j"
    by (rule job_migration [OF inv dig exp _ _ save load]) (simp_all add: count_job_def same_descriptor_def sel)
  with exp pr show ?thesis unfolding j_def by auto
qed

end
