(* ===== verification/Job_Messages.thy ===== *)
theory Job_Messages
  imports Messages Job_Types
begin

text \<open>
  relay/protocol/job_messages.h: the request and result messages of the generic job runtime.
  The message builders write into a reused message object, so they take the destination and
  return it; only the first \<open>payload_bytes\<close> bytes of its payload array are overwritten.
  The properties show that a built message validates and reads back, and that \<open>validate\<close>
  accepts a result only if its code, state and progress agree.
\<close>

section \<open>Definitions\<close>

type_synonym JobResultCode = u32

definition kMaxJobPayloadBytes :: nat where [wire_simps]: "kMaxJobPayloadBytes = 65536"

definition ResultCode_kProgress :: JobResultCode where [enum_simps]: "ResultCode_kProgress = 0"
definition ResultCode_kComplete :: JobResultCode where [enum_simps]: "ResultCode_kComplete = 1"
definition ResultCode_kCancelled :: JobResultCode where [enum_simps]: "ResultCode_kCancelled = 2"
definition ResultCode_kFailed :: JobResultCode where [enum_simps]: "ResultCode_kFailed = 3"
definition ResultCode_kRejectedStale :: JobResultCode where [enum_simps]: "ResultCode_kRejectedStale = 4"
definition ResultCode_kRejectedDeadline :: JobResultCode where [enum_simps]: "ResultCode_kRejectedDeadline = 5"
definition ResultCode_kRejectedCapacity :: JobResultCode where [enum_simps]: "ResultCode_kRejectedCapacity = 6"
definition ResultCode_kAdapterNotFound :: JobResultCode where [enum_simps]: "ResultCode_kAdapterNotFound = 7"
definition ResultCode_kInvalidRequest :: JobResultCode where [enum_simps]: "ResultCode_kInvalidRequest = 8"
definition ResultCode_kRejectedQos :: JobResultCode where [enum_simps]: "ResultCode_kRejectedQos = 9"

record JobRequestMetadata =
  jrqm_struct_size :: u32
  jrqm_service_class :: JobServiceClass
  jrqm_descriptor :: JobDescriptor
  jrqm_timestamp_ns :: u64
  jrqm_payload_bytes :: u64

record JobResultMetadata =
  jrsm_struct_size :: u32
  jrsm_service_class :: JobServiceClass
  jrsm_descriptor :: JobDescriptor
  jrsm_progress :: JobProgress
  jrsm_timestamp_ns :: u64
  jrsm_payload_bytes :: u64

record JobRequestMessage =
  jrq_envelope :: MessageEnvelope
  jrq_metadata :: JobRequestMetadata
  jrq_payload :: "byte list"

record JobResultMessage =
  jrs_envelope :: MessageEnvelope
  jrs_metadata :: JobResultMetadata
  jrs_payload :: "byte list"

definition sizeof_JobRequestMetadata :: nat where [wire_simps]: "sizeof_JobRequestMetadata = 88"
definition sizeof_JobResultMetadata :: nat where [wire_simps]: "sizeof_JobResultMetadata = 112"

definition default_request :: JobRequestMessage where
  "default_request = \<lparr>jrq_envelope = default_envelope\<lparr>me_kind := MessageKind_kJobRequest\<rparr>,
     jrq_metadata = \<lparr>jrqm_struct_size = 0, jrqm_service_class = ServiceClass_kBestEffort,
       jrqm_descriptor = default_descriptor, jrqm_timestamp_ns = 0, jrqm_payload_bytes = 0\<rparr>,
     jrq_payload = replicate kMaxJobPayloadBytes 0\<rparr>"

definition default_result :: JobResultMessage where
  "default_result = \<lparr>jrs_envelope = default_envelope\<lparr>me_kind := MessageKind_kJobResult\<rparr>,
     jrs_metadata = \<lparr>jrsm_struct_size = 0, jrsm_service_class = ServiceClass_kBestEffort,
       jrsm_descriptor = default_descriptor, jrsm_progress = default_progress,
       jrsm_timestamp_ns = 0, jrsm_payload_bytes = 0\<rparr>,
     jrs_payload = replicate kMaxJobPayloadBytes 0\<rparr>"

definition request_payload_values :: "JobRequestMessage \<Rightarrow> byte list" where
  "request_payload_values m =
     take (min (unat (jrqm_payload_bytes (jrq_metadata m))) kMaxJobPayloadBytes) (jrq_payload m)"

definition result_payload_values :: "JobResultMessage \<Rightarrow> byte list" where
  "result_payload_values m =
     take (min (unat (jrsm_payload_bytes (jrs_metadata m))) kMaxJobPayloadBytes) (jrs_payload m)"

definition wire_size_request :: "JobRequestMessage \<Rightarrow> nat" where
  "wire_size_request m = sizeof_MessageEnvelope + sizeof_JobRequestMetadata +
     min (unat (jrqm_payload_bytes (jrq_metadata m))) kMaxJobPayloadBytes"

definition wire_size_result :: "JobResultMessage \<Rightarrow> nat" where
  "wire_size_result m = sizeof_MessageEnvelope + sizeof_JobResultMetadata +
     min (unat (jrsm_payload_bytes (jrs_metadata m))) kMaxJobPayloadBytes"

definition valid_job_result_code :: "JobResultCode \<Rightarrow> bool" where
  "valid_job_result_code code \<longleftrightarrow> code \<ge> ResultCode_kProgress \<and> code \<le> ResultCode_kRejectedQos"

definition code_state_compatible :: "JobResultCode \<Rightarrow> JobState \<Rightarrow> bool" where
  "code_state_compatible code state \<longleftrightarrow>
     (if code = ResultCode_kProgress then state = JobState_kReady \<or> state = JobState_kRunning
      else if code = ResultCode_kComplete then state = JobState_kComplete
      else if code = ResultCode_kCancelled then state = JobState_kCancelled
      else state = JobState_kFailed)"

definition result_code :: "JobState \<Rightarrow> JobResultCode" where
  "result_code state =
     (if state = JobState_kComplete then ResultCode_kComplete
      else if state = JobState_kCancelled then ResultCode_kCancelled
      else if state = JobState_kFailed then ResultCode_kFailed
      else ResultCode_kProgress)"

definition job_result_code :: "JobResultMessage \<Rightarrow> JobResultCode" where
  "job_result_code m = me_flags (jrs_envelope m)"

definition job_result_code_to_string :: "JobResultCode \<Rightarrow> string" where
  "job_result_code_to_string code =
     (if code = ResultCode_kProgress then ''progress''
      else if code = ResultCode_kComplete then ''complete''
      else if code = ResultCode_kCancelled then ''cancelled''
      else if code = ResultCode_kFailed then ''failed''
      else if code = ResultCode_kRejectedStale then ''rejected_stale''
      else if code = ResultCode_kRejectedDeadline then ''rejected_deadline''
      else if code = ResultCode_kRejectedCapacity then ''rejected_capacity''
      else if code = ResultCode_kAdapterNotFound then ''adapter_not_found''
      else if code = ResultCode_kInvalidRequest then ''invalid_request''
      else if code = ResultCode_kRejectedQos then ''rejected_qos''
      else ''unknown'')"

definition validate_request :: "JobRequestMessage \<Rightarrow> ProtocolResult" where
  "validate_request m =
     (let e = jrq_envelope m; d = jrq_metadata m
      in if me_magic e \<noteq> kMessageMagic \<or> me_version e \<noteq> kMessageVersion \<or>
            me_kind e \<noteq> MessageKind_kJobRequest \<or> me_flags e \<noteq> 0 \<or>
            unat (me_struct_size e) \<noteq> wire_size_request m then PR_kInvalidEnvelope
         else if unat (jrqm_payload_bytes d) > kMaxJobPayloadBytes then PR_kDimensionExceeded
         else if unat (jrqm_struct_size d) \<noteq> sizeof_JobRequestMetadata \<or>
                 \<not> valid_job_service_class (jrqm_service_class d) \<or>
                 \<not> valid_job_descriptor (jrqm_descriptor d) \<or>
                 me_session_id e \<noteq> jd_session_id (jrqm_descriptor d) \<or>
                 (jd_deadline_ns (jrqm_descriptor d) \<noteq> 0 \<and>
                  jd_deadline_ns (jrqm_descriptor d) < jrqm_timestamp_ns d)
           then PR_kInvalidMetadata
         else PR_kSuccess)"

definition validate_result :: "JobResultMessage \<Rightarrow> ProtocolResult" where
  "validate_result m =
     (let e = jrs_envelope m; d = jrs_metadata m; code = job_result_code m
      in if me_magic e \<noteq> kMessageMagic \<or> me_version e \<noteq> kMessageVersion \<or>
            me_kind e \<noteq> MessageKind_kJobResult \<or> \<not> valid_job_result_code code \<or>
            unat (me_struct_size e) \<noteq> wire_size_result m then PR_kInvalidEnvelope
         else if unat (jrsm_payload_bytes d) > kMaxJobPayloadBytes then PR_kDimensionExceeded
         else if unat (jrsm_struct_size d) \<noteq> sizeof_JobResultMetadata \<or>
                 \<not> valid_job_service_class (jrsm_service_class d) \<or>
                 \<not> valid_job_descriptor (jrsm_descriptor d) \<or>
                 me_session_id e \<noteq> jd_session_id (jrsm_descriptor d) \<or>
                 \<not> valid_job_progress (jrsm_descriptor d) (jrsm_progress d) \<or>
                 \<not> code_state_compatible code (jp_state (jrsm_progress d))
           then PR_kInvalidMetadata
         else PR_kSuccess)"

definition make_job_request ::
  "JobRequestMessage \<Rightarrow> u64 \<Rightarrow> JobDescriptor \<Rightarrow> u64 \<Rightarrow> byte list \<Rightarrow> JobServiceClass
    \<Rightarrow> ProtocolResult \<times> JobRequestMessage" where
  "make_job_request destination sequence descriptor timestamp_ns payload service_class =
     (if \<not> valid_job_descriptor descriptor \<or> \<not> valid_job_service_class service_class \<or>
         (jd_deadline_ns descriptor \<noteq> 0 \<and> jd_deadline_ns descriptor < timestamp_ns)
        then (PR_kInvalidMetadata, destination)
      else if length payload > kMaxJobPayloadBytes then (PR_kDimensionExceeded, destination)
      else
        let d1 = destination
              \<lparr>jrq_envelope := default_envelope\<lparr>me_kind := MessageKind_kJobRequest, me_sequence := sequence,
                 me_session_id := jd_session_id descriptor\<rparr>,
               jrq_metadata := \<lparr>jrqm_struct_size = of_nat sizeof_JobRequestMetadata,
                 jrqm_service_class = service_class, jrqm_descriptor = descriptor,
                 jrqm_timestamp_ns = timestamp_ns, jrqm_payload_bytes = of_nat (length payload)\<rparr>\<rparr>;
            d2 = d1\<lparr>jrq_envelope := (jrq_envelope d1)\<lparr>me_struct_size := of_nat (wire_size_request d1)\<rparr>\<rparr>
        in (PR_kSuccess, d2\<lparr>jrq_payload := blit (jrq_payload d2) 0 payload\<rparr>))"

definition make_job_result ::
  "JobResultMessage \<Rightarrow> u64 \<Rightarrow> JobDescriptor \<Rightarrow> JobProgress \<Rightarrow> u64 \<Rightarrow> JobResultCode \<Rightarrow> byte list
    \<Rightarrow> JobServiceClass \<Rightarrow> ProtocolResult \<times> JobResultMessage" where
  "make_job_result destination sequence descriptor progress timestamp_ns code payload service_class =
     (if \<not> valid_job_descriptor descriptor \<or> \<not> valid_job_progress descriptor progress \<or>
         \<not> valid_job_result_code code \<or> \<not> code_state_compatible code (jp_state progress) \<or>
         \<not> valid_job_service_class service_class then (PR_kInvalidMetadata, destination)
      else if length payload > kMaxJobPayloadBytes then (PR_kDimensionExceeded, destination)
      else
        let d1 = destination
              \<lparr>jrs_envelope := default_envelope\<lparr>me_kind := MessageKind_kJobResult, me_flags := code,
                 me_sequence := sequence, me_session_id := jd_session_id descriptor\<rparr>,
               jrs_metadata := \<lparr>jrsm_struct_size = of_nat sizeof_JobResultMetadata,
                 jrsm_service_class = service_class, jrsm_descriptor = descriptor,
                 jrsm_progress = progress, jrsm_timestamp_ns = timestamp_ns,
                 jrsm_payload_bytes = of_nat (length payload)\<rparr>\<rparr>;
            d2 = d1\<lparr>jrs_envelope := (jrs_envelope d1)\<lparr>me_struct_size := of_nat (wire_size_result d1)\<rparr>\<rparr>
        in (PR_kSuccess, d2\<lparr>jrs_payload := blit (jrs_payload d2) 0 payload\<rparr>))"

definition make_rejected_job_result ::
  "JobResultMessage \<Rightarrow> JobRequestMessage \<Rightarrow> u64 \<Rightarrow> JobResultCode \<Rightarrow> ProtocolResult \<times> JobResultMessage" where
  "make_rejected_job_result destination request timestamp_ns code =
     (if code \<noteq> ResultCode_kRejectedStale \<and> code \<noteq> ResultCode_kRejectedDeadline \<and>
         code \<noteq> ResultCode_kRejectedCapacity \<and> code \<noteq> ResultCode_kAdapterNotFound \<and>
         code \<noteq> ResultCode_kInvalidRequest \<and> code \<noteq> ResultCode_kRejectedQos
        then (PR_kInvalidMetadata, destination)
      else make_job_result destination (me_sequence (jrq_envelope request))
             (jrqm_descriptor (jrq_metadata request))
             (make_progress JobState_kFailed 0 (jd_total_work_units (jrqm_descriptor (jrq_metadata request))))
             timestamp_ns code [] (jrqm_service_class (jrq_metadata request)))"

text \<open>The fixed-size payload arrays.\<close>

definition request_wf :: "JobRequestMessage \<Rightarrow> bool" where
  "request_wf m \<longleftrightarrow> length (jrq_payload m) = kMaxJobPayloadBytes"

definition result_wf :: "JobResultMessage \<Rightarrow> bool" where
  "result_wf m \<longleftrightarrow> length (jrs_payload m) = kMaxJobPayloadBytes"

section \<open>Lemmas\<close>

lemma wire_size_request_bound: "wire_size_request m \<le> 65656"
  by (simp add: wire_size_request_def wire_simps)

lemma wire_size_result_bound: "wire_size_result m \<le> 65680"
  by (simp add: wire_size_result_def wire_simps)

lemma unat_payload_length: "length payload \<le> kMaxJobPayloadBytes \<Longrightarrow> unat (of_nat (length payload) :: u64) = length payload"
  by (rule unat_of_nat_u64) (simp add: wire_simps)

definition request_args_ok :: "JobDescriptor \<Rightarrow> u64 \<Rightarrow> byte list \<Rightarrow> JobServiceClass \<Rightarrow> bool" where
  "request_args_ok d ts payload c \<longleftrightarrow> valid_job_descriptor d \<and> valid_job_service_class c \<and>
     (jd_deadline_ns d = 0 \<or> ts \<le> jd_deadline_ns d) \<and> length payload \<le> kMaxJobPayloadBytes"

definition result_args_ok :: "JobDescriptor \<Rightarrow> JobProgress \<Rightarrow> JobResultCode \<Rightarrow> byte list \<Rightarrow> JobServiceClass \<Rightarrow> bool" where
  "result_args_ok d p code payload c \<longleftrightarrow> valid_job_descriptor d \<and> valid_job_progress d p \<and>
     valid_job_result_code code \<and> code_state_compatible code (jp_state p) \<and>
     valid_job_service_class c \<and> length payload \<le> kMaxJobPayloadBytes"

lemma make_job_request_fails:
  "\<not> request_args_ok d ts payload c \<Longrightarrow>
   snd (make_job_request dst sq d ts payload c) = dst \<and> fst (make_job_request dst sq d ts payload c) \<noteq> PR_kSuccess"
  by (auto simp: make_job_request_def request_args_ok_def not_less)

lemma make_job_request_ok:
  assumes "request_args_ok d ts payload c" and "request_wf dst"
  obtains m where "make_job_request dst sq d ts payload c = (PR_kSuccess, m)"
    "validate_request m = PR_kSuccess" "request_payload_values m = payload" "request_wf m"
    "jrqm_descriptor (jrq_metadata m) = d" "jrqm_service_class (jrq_metadata m) = c"
    "me_sequence (jrq_envelope m) = sq" "jrqm_timestamp_ns (jrq_metadata m) = ts"
proof -
  define m where "m = snd (make_job_request dst sq d ts payload c)"
  have g: "\<not> (\<not> valid_job_descriptor d \<or> \<not> valid_job_service_class c \<or> (jd_deadline_ns d \<noteq> 0 \<and> jd_deadline_ns d < ts))"
    "\<not> length payload > kMaxJobPayloadBytes"
    using assms(1) by (auto simp: request_args_ok_def not_less)
  have run: "make_job_request dst sq d ts payload c = (PR_kSuccess, m)"
    and pay: "jrq_payload m = blit (jrq_payload dst) 0 payload"
    and md: "jrq_metadata m = \<lparr>jrqm_struct_size = of_nat sizeof_JobRequestMetadata, jrqm_service_class = c,
       jrqm_descriptor = d, jrqm_timestamp_ns = ts, jrqm_payload_bytes = of_nat (length payload)\<rparr>"
    and env: "jrq_envelope m = default_envelope\<lparr>me_kind := MessageKind_kJobRequest, me_sequence := sq,
        me_session_id := jd_session_id d, me_struct_size := of_nat (wire_size_request m)\<rparr>"
    unfolding m_def make_job_request_def if_not_P [OF g(1)] if_not_P [OF g(2)] Let_def
    by (simp_all add: wire_size_request_def)
  have n: "unat (of_nat (length payload) :: u64) = length payload" using g(2) by (simp add: unat_payload_length)
  have ws: "unat (of_nat (wire_size_request m) :: u32) = wire_size_request m"
    using wire_size_request_bound [of m] by (simp add: unat_of_nat_u32)
  have "validate_request m = PR_kSuccess"
    unfolding validate_request_def Let_def md env using g by (auto simp: ws n wire_simps)
  moreover have "request_payload_values m = payload" "request_wf m"
    using g(2) assms(2) by (simp_all add: request_payload_values_def request_wf_def pay md n blit_0 not_less)
  ultimately show ?thesis using that run md env by simp
qed

lemma make_job_result_fails:
  "\<not> result_args_ok d p code payload c \<Longrightarrow>
   snd (make_job_result dst sq d p ts code payload c) = dst \<and> fst (make_job_result dst sq d p ts code payload c) \<noteq> PR_kSuccess"
  by (auto simp: make_job_result_def result_args_ok_def not_less)

lemma make_job_result_ok:
  assumes "result_args_ok d p code payload c" and "result_wf dst"
  obtains m where "make_job_result dst sq d p ts code payload c = (PR_kSuccess, m)"
    "validate_result m = PR_kSuccess" "result_payload_values m = payload" "result_wf m"
    "jrsm_descriptor (jrs_metadata m) = d" "jrsm_service_class (jrs_metadata m) = c"
    "jrsm_progress (jrs_metadata m) = p" "me_sequence (jrs_envelope m) = sq" "job_result_code m = code"
    "jrsm_timestamp_ns (jrs_metadata m) = ts"
proof -
  define m where "m = snd (make_job_result dst sq d p ts code payload c)"
  have g: "\<not> (\<not> valid_job_descriptor d \<or> \<not> valid_job_progress d p \<or> \<not> valid_job_result_code code \<or>
      \<not> code_state_compatible code (jp_state p) \<or> \<not> valid_job_service_class c)"
    "\<not> length payload > kMaxJobPayloadBytes"
    using assms(1) by (auto simp: result_args_ok_def not_less)
  have run: "make_job_result dst sq d p ts code payload c = (PR_kSuccess, m)"
    and pay: "jrs_payload m = blit (jrs_payload dst) 0 payload"
    and md: "jrs_metadata m = \<lparr>jrsm_struct_size = of_nat sizeof_JobResultMetadata, jrsm_service_class = c,
       jrsm_descriptor = d, jrsm_progress = p, jrsm_timestamp_ns = ts, jrsm_payload_bytes = of_nat (length payload)\<rparr>"
    and env: "jrs_envelope m = default_envelope\<lparr>me_kind := MessageKind_kJobResult, me_flags := code,
        me_sequence := sq, me_session_id := jd_session_id d, me_struct_size := of_nat (wire_size_result m)\<rparr>"
    unfolding m_def make_job_result_def if_not_P [OF g(1)] if_not_P [OF g(2)] Let_def
    by (simp_all add: wire_size_result_def)
  have n: "unat (of_nat (length payload) :: u64) = length payload" using g(2) by (simp add: unat_payload_length)
  have ws: "unat (of_nat (wire_size_result m) :: u32) = wire_size_result m"
    using wire_size_result_bound [of m] by (simp add: unat_of_nat_u32)
  have code: "job_result_code m = code" by (simp add: job_result_code_def env)
  have "validate_result m = PR_kSuccess"
    unfolding validate_result_def Let_def md env code using g by (auto simp: ws n wire_simps)
  moreover have "result_payload_values m = payload" "result_wf m"
    using g(2) assms(2) by (simp_all add: result_payload_values_def result_wf_def pay md n blit_0 not_less)
  ultimately show ?thesis using that run md env code by simp
qed

lemma result_wf_make_job_result: "result_wf dst \<Longrightarrow> result_wf (snd (make_job_result dst sq d p ts code payload c))"
  by (cases "result_args_ok d p code payload c")
    (metis make_job_result_ok snd_conv, metis make_job_result_fails)

lemma result_code_compatible:
  "valid_job_state s \<Longrightarrow> code_state_compatible (result_code s) s \<and> valid_job_result_code (result_code s)"
  by (auto simp: valid_job_state_cases job_terminal_def code_state_compatible_def result_code_def
      valid_job_result_code_def enum_simps)

lemma valid_job_progress_state: "valid_job_progress d p \<Longrightarrow> valid_job_state (jp_state p)"
  by (simp add: valid_job_progress_def split: if_splits)

text \<open>What a validated request guarantees to the worker that receives it.\<close>

lemma validate_request_SuccessD:
  assumes "validate_request m = PR_kSuccess"
  shows "valid_job_descriptor (jrqm_descriptor (jrq_metadata m))"
    "valid_job_service_class (jrqm_service_class (jrq_metadata m))"
    "unat (jrqm_payload_bytes (jrq_metadata m)) \<le> kMaxJobPayloadBytes"
    "me_session_id (jrq_envelope m) = jd_session_id (jrqm_descriptor (jrq_metadata m))"
  using assms by (auto simp: validate_request_def Let_def split: if_splits)

lemma make_rejected_ok:
  assumes "validate_request rq = PR_kSuccess" and "result_wf dst"
    and "ResultCode_kRejectedStale \<le> code" "code \<le> ResultCode_kRejectedQos"
  shows "\<exists>m. make_rejected_job_result dst rq ts code = (PR_kSuccess, m) \<and>
    validate_result m = PR_kSuccess \<and> job_result_code m = code \<and> result_payload_values m = [] \<and>
    jrsm_descriptor (jrs_metadata m) = jrqm_descriptor (jrq_metadata rq) \<and>
    me_sequence (jrs_envelope m) = me_sequence (jrq_envelope rq) \<and> result_wf m"
proof -
  let ?d = "jrqm_descriptor (jrq_metadata rq)" and ?c = "jrqm_service_class (jrq_metadata rq)"
  let ?p = "make_progress JobState_kFailed 0 (jd_total_work_units ?d)"
  have nat: "4 \<le> unat code" "unat code \<le> 9" using assms(3,4) by (simp_all add: enum_simps word_le_nat_alt)
  then have set: "unat code \<in> {4, 5, 6, 7, 8, 9}" by auto
  have "result_args_ok ?d ?p code [] ?c"
    using validate_request_SuccessD [OF assms(1)] nat valid_job_progress_failed [of ?d]
    by (auto simp: result_args_ok_def valid_job_result_code_def code_state_compatible_def enum_simps word_le_nat_alt)
  then obtain m where "make_job_result dst (me_sequence (jrq_envelope rq)) ?d ?p ts code [] ?c = (PR_kSuccess, m)"
    "validate_result m = PR_kSuccess" "result_payload_values m = []" "jrsm_descriptor (jrs_metadata m) = ?d"
    "me_sequence (jrs_envelope m) = me_sequence (jrq_envelope rq)" "job_result_code m = code" "result_wf m"
    using make_job_result_ok [OF _ assms(2)] by metis
  moreover have "code = 4 \<or> code = 5 \<or> code = 6 \<or> code = 7 \<or> code = 8 \<or> code = 9"
    using set unfolding word_unat_eq_iff by simp
  ultimately show ?thesis unfolding make_rejected_job_result_def enum_simps by auto
qed

section \<open>Properties\<close>

text \<open>
  A request built by \<open>make_job_request\<close> into any reused message validates, carries the
  given descriptor and service class, and yields exactly the given payload, however much stale
  data the message held; it is built exactly when the arguments are admissible, and otherwise
  the destination is left as it was.
\<close>

theorem job_request_roundtrip:
  assumes "request_wf dst"
  shows "case make_job_request dst sq d ts payload c of
      (PR_kSuccess, m) \<Rightarrow> request_args_ok d ts payload c \<and> validate_request m = PR_kSuccess \<and>
         request_payload_values m = payload \<and> jrqm_descriptor (jrq_metadata m) = d \<and>
         jrqm_service_class (jrq_metadata m) = c \<and> me_sequence (jrq_envelope m) = sq \<and> request_wf m
    | (_, m) \<Rightarrow> \<not> request_args_ok d ts payload c \<and> m = dst"
proof (cases "request_args_ok d ts payload c")
  case True
  obtain m where "make_job_request dst sq d ts payload c = (PR_kSuccess, m)"
    "validate_request m = PR_kSuccess" "request_payload_values m = payload" "request_wf m"
    "jrqm_descriptor (jrq_metadata m) = d" "jrqm_service_class (jrq_metadata m) = c" "me_sequence (jrq_envelope m) = sq"
    by (rule make_job_request_ok [OF True assms])
  with True show ?thesis by simp
next
  case False
  then show ?thesis
    using make_job_request_fails [OF False, of dst sq]
    by (auto split: prod.splits ProtocolResult.splits)
qed

definition demo_descriptor :: JobDescriptor where
  "demo_descriptor = \<lparr>jd_protocol_version = 1, jd_kind = JobKind_kIterative, jd_reserved = 0,
     jd_model_digest = replicate 15 0 @ [7], jd_state_schema = 3, jd_session_id = 42, jd_generation = 5,
     jd_deadline_ns = 1000, jd_total_work_units = 4\<rparr>"

lemma demo_descriptor_valid: "valid_job_descriptor demo_descriptor"
  by (simp add: valid_job_descriptor_iff demo_descriptor_def valid_job_kind_def enum_simps)

theorem job_request_roundtrip_witness:
  "\<exists>m. make_job_request default_request 9 demo_descriptor 10 [1, 2, 3] ServiceClass_kCritical = (PR_kSuccess, m) \<and>
     validate_request m = PR_kSuccess \<and> request_payload_values m = [1, 2, 3]"
proof -
  have wf: "request_wf default_request" by (simp add: request_wf_def default_request_def)
  have "request_args_ok demo_descriptor 10 [1, 2, 3] ServiceClass_kCritical"
    using demo_descriptor_valid
    by (simp add: request_args_ok_def valid_job_service_class_def enum_simps demo_descriptor_def wire_simps)
  with job_request_roundtrip [OF wf, where sq = 9 and d = demo_descriptor and ts = 10 and payload = "[1, 2, 3]"
      and c = ServiceClass_kCritical]
  show ?thesis by (auto split: prod.splits ProtocolResult.splits)
qed

text \<open>
  A result message that validates is consistent: its completed and remaining work units
  add up to the descriptor's total without wrap-around, a complete result has no work left, a
  progress result is not terminal, and every rejection code comes with the failed state.
\<close>

theorem validated_result_consistent:
  assumes "validate_result m = PR_kSuccess"
  shows "unat (jp_completed_work_units (jrsm_progress (jrs_metadata m))) +
      unat (jp_remaining_work_units (jrsm_progress (jrs_metadata m))) =
      unat (jd_total_work_units (jrsm_descriptor (jrs_metadata m))) \<and>
    (job_result_code m = ResultCode_kComplete \<longleftrightarrow> jp_state (jrsm_progress (jrs_metadata m)) = JobState_kComplete) \<and>
    (job_result_code m = ResultCode_kComplete \<longrightarrow> jp_remaining_work_units (jrsm_progress (jrs_metadata m)) = 0) \<and>
    (job_result_code m = ResultCode_kProgress \<longleftrightarrow> \<not> job_terminal (jp_state (jrsm_progress (jrs_metadata m)))) \<and>
    (ResultCode_kFailed \<le> job_result_code m \<longrightarrow> jp_state (jrsm_progress (jrs_metadata m)) = JobState_kFailed) \<and>
    length (result_payload_values m) \<le> kMaxJobPayloadBytes"
proof -
  let ?p = "jrsm_progress (jrs_metadata m)" and ?d = "jrsm_descriptor (jrs_metadata m)" and ?c = "job_result_code m"
  have v: "valid_job_progress ?d ?p" "code_state_compatible ?c (jp_state ?p)"
    using assms by (auto simp: validate_result_def Let_def split: if_splits)
  note st = valid_job_progress_state [OF v(1)]
  have "?c = ResultCode_kComplete \<longleftrightarrow> jp_state ?p = JobState_kComplete"
    "?c = ResultCode_kProgress \<longleftrightarrow> \<not> job_terminal (jp_state ?p)"
    "ResultCode_kFailed \<le> ?c \<longrightarrow> jp_state ?p = JobState_kFailed"
    using v(2) st unfolding valid_job_state_cases job_terminal_def code_state_compatible_def enum_simps
    by (auto simp: word_le_nat_alt split: if_splits)
  moreover from this(1) have "?c = ResultCode_kComplete \<longrightarrow> jp_remaining_work_units ?p = 0"
    using v(1) by (auto simp: valid_job_progress_def enum_simps split: if_splits)
  ultimately show ?thesis
    using job_progress_split [OF v(1)] by (simp add: result_payload_values_def)
qed

theorem validated_result_consistent_witness:
  "\<exists>m. validate_result m = PR_kSuccess \<and> job_result_code m = ResultCode_kComplete \<and>
     jp_remaining_work_units (jrsm_progress (jrs_metadata m)) = 0"
proof -
  have "result_args_ok demo_descriptor (make_progress JobState_kComplete 4 0) ResultCode_kComplete [1] ServiceClass_kBestEffort"
    using demo_descriptor_valid
    by (simp add: result_args_ok_def valid_job_service_class_def valid_job_progress_def valid_job_state_def
        valid_job_result_code_def code_state_compatible_def enum_simps demo_descriptor_def wire_simps)
  moreover have "result_wf default_result" by (simp add: result_wf_def default_result_def)
  ultimately obtain m where "validate_result m = PR_kSuccess" "job_result_code m = ResultCode_kComplete"
    using make_job_result_ok by metis
  with validated_result_consistent [of m] show ?thesis by blast
qed

end
