(* ===== verification/Job_Registry.thy ===== *)
theory Job_Registry
  imports Cooperative_Job Job_Messages
begin

text \<open>
  relay/jobs/job_registry.\{h,cc\}: the fixed-capacity table that routes a job request to the
  backend registered for its kind, model and state schema.

  A registration points to a caller-owned backend, which \<open>prepare\<close> and the running job change. The
  backends are a store from addresses to backend contexts of an arbitrary type \<open>'b\<close>, and a
  registration holds an address (\<open>None\<close> for a null pointer). A bound job holds the current context
  of its backend while it runs; its owner puts it back (\<open>rj_release\<close>) when the job leaves it.
\<close>

section \<open>Definitions\<close>

record JobRoute =
  jr_kind :: JobKind
  jr_model_digest :: ModelDigest
  jr_state_schema :: u64

definition job_route :: "JobDescriptor \<Rightarrow> JobRoute" where
  "job_route d = \<lparr>jr_kind = jd_kind d, jr_model_digest = jd_model_digest d, jr_state_schema = jd_state_schema d\<rparr>"

record 'b RoutedJobOps =
  ro_cooperative :: "'b CooperativeJobOps"
  ro_prepare :: "('b \<Rightarrow> byte list \<Rightarrow> bool \<times> 'b) option"
  ro_result :: "('b \<Rightarrow> byte list) option"

record 'b JobAdapterRegistration =
  ja_route :: JobRoute
  ja_context :: "nat option"
  ja_operations :: "'b RoutedJobOps"
  ja_max_request_bytes :: nat
  ja_max_result_bytes :: nat

datatype JobRouteErrorCode = JRE_kInvalidRegistration | JRE_kDuplicateRoute | JRE_kCapacityExceeded
  | JRE_kRegistryFrozen | JRE_kRegistryNotFrozen | JRE_kInvalidRequest | JRE_kAdapterNotFound
  | JRE_kPayloadTooLarge | JRE_kPrepareFailed | JRE_kInvalidBinding

datatype JobRouteError = JobRouteError (jre_code: JobRouteErrorCode) (jre_message: string)

record 'b RoutedJob =
  rj_job :: "'b CooperativeJob"
  rj_sequence :: u64
  rj_context :: nat
  rj_result :: "'b \<Rightarrow> byte list"
  rj_max_result_bytes :: nat
  rj_service_class :: JobServiceClass

text \<open>\<open>jg_entries\<close> are the first \<open>size()\<close> elements of the caller's span, \<open>jg_capacity\<close> its length.\<close>

record 'b JobAdapterRegistry =
  jg_entries :: "'b JobAdapterRegistration list"
  jg_capacity :: nat
  jg_frozen :: bool

definition registry_create :: "nat \<Rightarrow> 'b JobAdapterRegistry" where
  "registry_create capacity = \<lparr>jg_entries = [], jg_capacity = capacity, jg_frozen = False\<rparr>"

definition valid_operations :: "'b RoutedJobOps \<Rightarrow> bool" where
  "valid_operations ops \<longleftrightarrow>
     (let c = ro_cooperative ops
      in op_begin c \<noteq> None \<and> op_advance c \<noteq> None \<and> op_cancel c \<noteq> None \<and> op_state_bytes c \<noteq> None \<and>
         op_save_state c \<noteq> None \<and> op_load_state c \<noteq> None \<and> ro_prepare ops \<noteq> None \<and> ro_result ops \<noteq> None)"

definition valid_route :: "JobRoute \<Rightarrow> bool" where
  "valid_route route \<longleftrightarrow>
     (let has_digest = fold (\<lambda>b acc. acc \<or> b \<noteq> 0) (jr_model_digest route) False
      in valid_job_kind (jr_kind route) \<and> jr_state_schema route \<noteq> 0 \<and> has_digest)"

definition registry_add ::
  "'b JobAdapterRegistration \<Rightarrow> 'b JobAdapterRegistry \<Rightarrow> (JobRouteError + unit) \<times> 'b JobAdapterRegistry" where
  "registry_add registration g =
     (if jg_frozen g
      then (Inl (JobRouteError JRE_kRegistryFrozen ''Job adapter registry is already frozen''), g)
      else if \<not> valid_route (ja_route registration) \<or> ja_context registration = None \<or>
              \<not> valid_operations (ja_operations registration) \<or>
              ja_max_request_bytes registration > kMaxJobPayloadBytes \<or>
              ja_max_result_bytes registration > kMaxJobPayloadBytes
      then (Inl (JobRouteError JRE_kInvalidRegistration ''Job adapter registration is invalid''), g)
      else if find (\<lambda>e. ja_route e = ja_route registration) (jg_entries g) \<noteq> None
      then (Inl (JobRouteError JRE_kDuplicateRoute ''Job adapter route is already registered''), g)
      else if length (jg_entries g) = jg_capacity g
      then (Inl (JobRouteError JRE_kCapacityExceeded ''Job adapter registry capacity is exhausted''), g)
      else (Inr (), g\<lparr>jg_entries := jg_entries g @ [registration]\<rparr>))"

definition registry_freeze :: "'b JobAdapterRegistry \<Rightarrow> 'b JobAdapterRegistry" where
  "registry_freeze g = g\<lparr>jg_frozen := True\<rparr>"

definition registry_find :: "JobDescriptor \<Rightarrow> 'b JobAdapterRegistry \<Rightarrow> 'b JobAdapterRegistration option" where
  "registry_find d g =
     (if \<not> jg_frozen g \<or> \<not> valid_job_descriptor d then None
      else find (\<lambda>e. ja_route e = job_route d) (jg_entries g))"

definition registry_bind ::
  "JobRequestMessage \<Rightarrow> 'b JobAdapterRegistry \<Rightarrow> (nat \<Rightarrow> 'b) \<Rightarrow> (JobRouteError + 'b RoutedJob) \<times> (nat \<Rightarrow> 'b)" where
  "registry_bind request g backends =
     (if \<not> jg_frozen g
      then (Inl (JobRouteError JRE_kRegistryNotFrozen ''Job adapter registry must be frozen before routing''), backends)
      else if validate_request request \<noteq> PR_kSuccess
      then (Inl (JobRouteError JRE_kInvalidRequest ''Generic job request is invalid''), backends)
      else case registry_find (jrqm_descriptor (jrq_metadata request)) g of
          None \<Rightarrow> (Inl (JobRouteError JRE_kAdapterNotFound ''No adapter matches the job kind, model, and schema''), backends)
        | Some registration \<Rightarrow>
            if unat (jrqm_payload_bytes (jrq_metadata request)) > ja_max_request_bytes registration
            then (Inl (JobRouteError JRE_kPayloadTooLarge ''Generic job request exceeds the adapter payload limit''), backends)
            else
              let adr = the (ja_context registration);
                  (ok, c) = the (ro_prepare (ja_operations registration)) (backends adr) (request_payload_values request);
                  backends1 = backends(adr := c)
              in if \<not> ok
                 then (Inl (JobRouteError JRE_kPrepareFailed ''Generic job adapter rejected the request payload''), backends1)
                 else case cj_bind (Some c) (jrqm_descriptor (jrq_metadata request))
                             (ro_cooperative (ja_operations registration)) of
                     Inl _ \<Rightarrow> (Inl (JobRouteError JRE_kInvalidBinding ''Generic job adapter could not bind a cooperative job''), backends1)
                   | Inr job \<Rightarrow>
                       (Inr \<lparr>rj_job = job, rj_sequence = me_sequence (jrq_envelope request), rj_context = adr,
                             rj_result = the (ro_result (ja_operations registration)),
                             rj_max_result_bytes = ja_max_result_bytes registration,
                             rj_service_class = jrqm_service_class (jrq_metadata request)\<rparr>, backends1))"

text \<open>The calls of a routed job.\<close>

definition rj_progress :: "'b RoutedJob \<Rightarrow> JobProgress" where
  "rj_progress r = cj_progress (rj_job r)"

definition rj_start :: "'b RoutedJob \<Rightarrow> (JobError + JobProgress) \<times> 'b RoutedJob" where
  "rj_start r = (let (p, j) = cj_start (rj_job r) in (p, r\<lparr>rj_job := j\<rparr>))"

definition rj_advance :: "u64 \<Rightarrow> u64 \<Rightarrow> 'b RoutedJob \<Rightarrow> (JobError + JobProgress) \<times> 'b RoutedJob" where
  "rj_advance budget generation r = (let (p, j) = cj_advance budget generation (rj_job r) in (p, r\<lparr>rj_job := j\<rparr>))"

definition rj_cancel_before :: "u64 \<Rightarrow> 'b RoutedJob \<Rightarrow> JobProgress \<times> 'b RoutedJob" where
  "rj_cancel_before generation r = (let (p, j) = cj_cancel_before generation (rj_job r) in (p, r\<lparr>rj_job := j\<rparr>))"

definition rj_export_capsule :: "byte list \<Rightarrow> 'b RoutedJob \<Rightarrow> JobError + (nat \<times> byte list)" where
  "rj_export_capsule destination r = cj_export_capsule destination (rj_job r)"

definition rj_restore_capsule :: "byte list \<Rightarrow> 'b RoutedJob \<Rightarrow> (JobError + JobProgress) \<times> 'b RoutedJob" where
  "rj_restore_capsule source r = (let (p, j) = cj_restore_capsule source (rj_job r) in (p, r\<lparr>rj_job := j\<rparr>))"

definition rj_write_result :: "JobResultMessage \<Rightarrow> u64 \<Rightarrow> 'b RoutedJob \<Rightarrow> ProtocolResult \<times> JobResultMessage" where
  "rj_write_result destination timestamp_ns r =
     (let payload = rj_result r (cj_context (rj_job r))
      in if length payload > rj_max_result_bytes r \<or> length payload > kMaxJobPayloadBytes
         then (PR_kDimensionExceeded, destination)
         else
           let current = cj_progress (rj_job r)
           in make_job_result destination (rj_sequence r) (cj_descriptor (rj_job r)) current timestamp_ns
                (result_code (jp_state current)) payload (rj_service_class r))"

definition rj_release :: "'b RoutedJob \<Rightarrow> (nat \<Rightarrow> 'b) \<Rightarrow> nat \<Rightarrow> 'b" where
  "rj_release r backends = backends(rj_context r := cj_context (rj_job r))"

section \<open>Building a registry\<close>

inductive registry_step :: "'b JobAdapterRegistry \<Rightarrow> 'b JobAdapterRegistry \<Rightarrow> bool" where
  "registry_step g (snd (registry_add registration g))"
| "registry_step g (registry_freeze g)"

definition registry_init :: "'b JobAdapterRegistry \<Rightarrow> bool" where
  "registry_init g \<longleftrightarrow> (\<exists>capacity. g = registry_create capacity)"

definition entry_ok :: "'b JobAdapterRegistration \<Rightarrow> bool" where
  "entry_ok e \<longleftrightarrow> valid_route (ja_route e) \<and> ja_context e \<noteq> None \<and> valid_operations (ja_operations e) \<and>
     ja_max_request_bytes e \<le> kMaxJobPayloadBytes \<and> ja_max_result_bytes e \<le> kMaxJobPayloadBytes"

definition registry_inv :: "'b JobAdapterRegistry \<Rightarrow> bool" where
  "registry_inv g \<longleftrightarrow> distinct (map ja_route (jg_entries g)) \<and> length (jg_entries g) \<le> jg_capacity g \<and>
     list_all entry_ok (jg_entries g)"

section \<open>Lemmas\<close>

lemma registry_add_inv: "registry_inv g \<Longrightarrow> registry_inv (snd (registry_add e g))"
  by (auto simp: registry_inv_def registry_add_def entry_ok_def find_None_conv)

lemma registry_freeze_inv: "registry_inv g \<Longrightarrow> registry_inv (registry_freeze g)"
  by (simp add: registry_inv_def registry_freeze_def)

interpretation registry_machine: inductive_invariant registry_init registry_step registry_inv
proof unfold_locales
  show "registry_init g \<Longrightarrow> registry_inv g" for g :: "'b JobAdapterRegistry"
    by (auto simp: registry_init_def registry_create_def registry_inv_def)
  show "registry_step g h \<Longrightarrow> registry_inv g \<Longrightarrow> registry_inv h" for g h :: "'b JobAdapterRegistry"
    by (induction rule: registry_step.induct) (auto intro: registry_add_inv registry_freeze_inv)
qed

lemma registry_find_SomeD:
  assumes "registry_find d g = Some e"
  shows "jg_frozen g" "valid_job_descriptor d" "e \<in> set (jg_entries g)" "ja_route e = job_route d"
  using assms find_SomeD [of _ "jg_entries g" e] by (auto simp: registry_find_def split: if_splits)

lemma find_distinct:
  assumes "distinct (map f xs)" "x \<in> set xs"
  shows "find (\<lambda>y. f y = f x) xs = Some x"
  using assms by (induction xs) auto

lemma registry_find_iff:
  assumes "registry_inv g"
  shows "registry_find d g = Some e \<longleftrightarrow>
    jg_frozen g \<and> valid_job_descriptor d \<and> e \<in> set (jg_entries g) \<and> ja_route e = job_route d"
proof
  assume "registry_find d g = Some e"
  from registry_find_SomeD [OF this]
  show "jg_frozen g \<and> valid_job_descriptor d \<and> e \<in> set (jg_entries g) \<and> ja_route e = job_route d" by blast
next
  assume e: "jg_frozen g \<and> valid_job_descriptor d \<and> e \<in> set (jg_entries g) \<and> ja_route e = job_route d"
  then have "find (\<lambda>y. ja_route y = ja_route e) (jg_entries g) = Some e"
    using find_distinct [of ja_route "jg_entries g" e] assms by (simp add: registry_inv_def)
  with e show "registry_find d g = Some e" by (simp add: registry_find_def)
qed

lemma registry_bind_ok:
  assumes "registry_inv g" "registry_bind rq g bs = (Inr r, bs')"
  shows "jg_frozen g" "validate_request rq = PR_kSuccess" "job_inv (rj_job r)" "cj_state (rj_job r) = JobState_kReady"
    "cj_descriptor (rj_job r) = jrqm_descriptor (jrq_metadata rq)" "rj_sequence r = me_sequence (jrq_envelope rq)"
    "rj_service_class r = jrqm_service_class (jrq_metadata rq)" "rj_max_result_bytes r \<le> kMaxJobPayloadBytes"
    "\<exists>e. registry_find (jrqm_descriptor (jrq_metadata rq)) g = Some e \<and> ja_context e = Some (rj_context r) \<and>
       unat (jrqm_payload_bytes (jrq_metadata rq)) \<le> ja_max_request_bytes e \<and>
       the (ro_prepare (ja_operations e)) (bs (rj_context r)) (request_payload_values rq) = (True, cj_context (rj_job r)) \<and>
       bs' = bs(rj_context r := cj_context (rj_job r))"
proof -
  let ?d = "jrqm_descriptor (jrq_metadata rq)"
  show fz: "jg_frozen g" and v: "validate_request rq = PR_kSuccess"
    using assms(2) by (auto simp: registry_bind_def split: if_splits)
  obtain e where e: "registry_find ?d g = Some e"
    using assms(2) fz v by (cases "registry_find ?d g") (auto simp: registry_bind_def)
  have ok: "entry_ok e" using registry_find_SomeD(3) [OF e] assms(1) by (auto simp: registry_inv_def list_all_iff)
  then obtain adr where adr: "ja_context e = Some adr" by (auto simp: entry_ok_def)
  obtain okp c where p: "the (ro_prepare (ja_operations e)) (bs adr) (request_payload_values rq) = (okp, c)" by fastforce
  obtain j where j: "cj_bind (Some c) ?d (ro_cooperative (ja_operations e)) = Inr j"
    using assms(2) fz v e adr p by (auto simp: registry_bind_def Let_def split: if_splits sum.splits)
  have r: "okp" "unat (jrqm_payload_bytes (jrq_metadata rq)) \<le> ja_max_request_bytes e" "bs' = bs(adr := c)"
    "r = \<lparr>rj_job = j, rj_sequence = me_sequence (jrq_envelope rq), rj_context = adr,
       rj_result = the (ro_result (ja_operations e)), rj_max_result_bytes = ja_max_result_bytes e,
       rj_service_class = jrqm_service_class (jrq_metadata rq)\<rparr>"
    using assms(2) fz v e adr p j by (auto simp: registry_bind_def Let_def split: if_splits)
  have c: "cj_context j = c" "cj_descriptor j = ?d" "cj_state j = JobState_kReady"
    using j by (auto simp: cj_bind_def split: if_splits)
  have "job_bound j" using j unfolding job_bound_def by blast
  then show "job_inv (rj_job r)" using r(4) by (simp add: job_machine.init_inv)
  show "cj_state (rj_job r) = JobState_kReady" "cj_descriptor (rj_job r) = ?d"
    "rj_sequence r = me_sequence (jrq_envelope rq)" "rj_service_class r = jrqm_service_class (jrq_metadata rq)"
    "rj_max_result_bytes r \<le> kMaxJobPayloadBytes"
    using r(4) c ok by (simp_all add: entry_ok_def)
  show "\<exists>e. registry_find ?d g = Some e \<and> ja_context e = Some (rj_context r) \<and>
       unat (jrqm_payload_bytes (jrq_metadata rq)) \<le> ja_max_request_bytes e \<and>
       the (ro_prepare (ja_operations e)) (bs (rj_context r)) (request_payload_values rq) = (True, cj_context (rj_job r)) \<and>
       bs' = bs(rj_context r := cj_context (rj_job r))"
    using e adr r c p by auto
qed

lemma rj_write_result_ok:
  assumes "job_inv (rj_job r)" "valid_job_service_class (rj_service_class r)" "result_wf dst"
    and "length (rj_result r (cj_context (rj_job r))) \<le> rj_max_result_bytes r" "rj_max_result_bytes r \<le> kMaxJobPayloadBytes"
  obtains m where "rj_write_result dst ts r = (PR_kSuccess, m)" "validate_result m = PR_kSuccess"
    "result_payload_values m = rj_result r (cj_context (rj_job r))" "result_wf m"
    "jrsm_descriptor (jrs_metadata m) = cj_descriptor (rj_job r)" "jrsm_service_class (jrs_metadata m) = rj_service_class r"
    "jrsm_progress (jrs_metadata m) = cj_progress (rj_job r)" "me_sequence (jrs_envelope m) = rj_sequence r"
    "job_result_code m = result_code (cj_state (rj_job r))"
proof -
  let ?j = "rj_job r" let ?p = "rj_result r (cj_context ?j)"
  have v: "valid_job_progress (cj_descriptor ?j) (cj_progress ?j)" "valid_job_descriptor (cj_descriptor ?j)"
    using assms(1) by (simp_all add: job_inv_def)
  have "result_args_ok (cj_descriptor ?j) (cj_progress ?j) (result_code (cj_state ?j)) ?p (rj_service_class r)"
    using v assms(2,4,5) result_code_compatible [OF valid_job_progress_state [OF v(1)]] by (simp add: result_args_ok_def)
  from make_job_result_ok [OF this assms(3), of "rj_sequence r" ts] obtain m where
    m: "make_job_result dst (rj_sequence r) (cj_descriptor ?j) (cj_progress ?j) ts (result_code (cj_state ?j)) ?p (rj_service_class r) =
      (PR_kSuccess, m)" "validate_result m = PR_kSuccess" "result_payload_values m = ?p" "result_wf m"
    "jrsm_descriptor (jrs_metadata m) = cj_descriptor ?j" "jrsm_service_class (jrs_metadata m) = rj_service_class r"
    "jrsm_progress (jrs_metadata m) = cj_progress ?j" "me_sequence (jrs_envelope m) = rj_sequence r"
    "job_result_code m = result_code (cj_state ?j)" by blast
  show ?thesis
    by (rule that [of m]) (use m assms(4,5) in \<open>simp_all add: rj_write_result_def Let_def\<close>)
qed

lemma registry_add_exact:
  assumes "registry_inv g"
  shows "fst (registry_add e g) = Inr () \<longleftrightarrow>
    \<not> jg_frozen g \<and> entry_ok e \<and> ja_route e \<notin> ja_route ` set (jg_entries g) \<and> length (jg_entries g) < jg_capacity g"
proof -
  have "find (\<lambda>x. ja_route x = ja_route e) (jg_entries g) = None \<longleftrightarrow> ja_route e \<notin> ja_route ` set (jg_entries g)"
    unfolding find_None_conv by (auto simp: image_iff)
  then show ?thesis using assms by (auto simp: registry_add_def entry_ok_def registry_inv_def not_less)
qed

lemma registry_add_refused: "fst (registry_add e g) \<noteq> Inr () \<Longrightarrow> snd (registry_add e g) = g"
  by (auto simp: registry_add_def split: if_splits)

lemma registry_add_find:
  assumes inv: "registry_inv g" and a: "registry_add e g = (Inr (), g')" "valid_job_descriptor d"
  shows "registry_find d (registry_freeze g') =
    (if job_route d = ja_route e then Some e else registry_find d (registry_freeze g))"
proof -
  have g': "g' = g\<lparr>jg_entries := jg_entries g @ [e]\<rparr>" using a(1) by (auto simp: registry_add_def split: if_splits)
  have inv': "registry_inv (registry_freeze g')" using registry_freeze_inv [OF registry_add_inv [OF inv, of e]] a(1) by simp
  show ?thesis
  proof (cases "job_route d = ja_route e")
    case True
    then show ?thesis
      using registry_find_iff [OF inv', of d e] a(2) by (simp add: g' registry_freeze_def)
  next
    case False
    have "find (\<lambda>x. ja_route x = job_route d) (xs @ [e]) = find (\<lambda>x. ja_route x = job_route d) xs" for xs
      using False by (induction xs) auto
    with False show ?thesis by (simp add: g' registry_freeze_def registry_find_def)
  qed
qed

lemma job_step_descriptor:
  assumes "job_step j k"
  shows "cj_descriptor k = cj_descriptor j"
  using assms
proof cases
  case (js_start r)
  then show ?thesis by (auto simp: cj_start_def Let_def split: if_splits prod.splits)
next
  case (js_advance budget generation r)
  then show ?thesis using cj_advance_descriptor by (metis snd_conv)
next
  case (js_cancel generation p)
  then show ?thesis by (auto simp: cj_cancel_before_def Let_def)
next
  case (js_restore source r)
  then show ?thesis by (auto simp: cj_restore_capsule_def Let_def split: if_splits prod.splits sum.splits)
qed

section \<open>Properties\<close>

text \<open>
  C31: Looking a route up after a registration. In every registry that calls of \<open>add\<close> and
  \<open>freeze\<close> can build, a successful \<open>add\<close> makes exactly the new route resolve to the new adapter
  and leaves every other route as it was; \<open>add\<close> succeeds exactly for a valid registration of a
  new route while the registry is open and has room, and otherwise changes nothing.
\<close>

theorem registry_routing:
  assumes "reach registry_init registry_step g"
  shows "(registry_add e g = (Inr (), g') \<and> valid_job_descriptor d \<longrightarrow>
      registry_find d (registry_freeze g') =
        (if job_route d = ja_route e then Some e else registry_find d (registry_freeze g))) \<and>
    (fst (registry_add e g) = Inr () \<longleftrightarrow>
      \<not> jg_frozen g \<and> entry_ok e \<and> ja_route e \<notin> ja_route ` set (jg_entries g) \<and> length (jg_entries g) < jg_capacity g) \<and>
    (fst (registry_add e g) \<noteq> Inr () \<longrightarrow> snd (registry_add e g) = g)"
proof -
  have inv: "registry_inv g" using assms by (rule registry_machine.reach_inv)
  show ?thesis
    by (intro conjI registry_add_exact [OF inv] impI registry_add_refused registry_add_find [OF inv]) auto
qed

definition count_registration :: "nat JobAdapterRegistration" where
  "count_registration = \<lparr>ja_route = job_route count_descriptor, ja_context = Some 0,
     ja_operations = \<lparr>ro_cooperative = count_ops, ro_prepare = Some (\<lambda>c bs. (True, 0)), ro_result = Some (\<lambda>c. [of_nat c])\<rparr>,
     ja_max_request_bytes = 64, ja_max_result_bytes = 64\<rparr>"

definition count_registry :: "nat JobAdapterRegistry" where
  "count_registry = \<lparr>jg_entries = [count_registration], jg_capacity = 2, jg_frozen = True\<rparr>"

lemma count_registration_ok: "entry_ok count_registration"
  by (simp add: entry_ok_def count_registration_def valid_route_def valid_operations_def count_ops_def job_route_def
      count_descriptor_def valid_job_kind_def fold_or_nonzero enum_simps wire_simps)

lemma count_add: "registry_add count_registration (registry_create 2) = (Inr (), count_registry\<lparr>jg_frozen := False\<rparr>)"
  using count_registration_ok by (simp add: registry_add_def registry_create_def count_registry_def entry_ok_def)

theorem registry_routing_witness:
  "registry_find count_descriptor (registry_freeze (count_registry\<lparr>jg_frozen := False\<rparr>)) = Some count_registration"
proof -
  have "reach registry_init registry_step (registry_create 2 :: nat JobAdapterRegistry)"
    by (rule reach_init) (auto simp: registry_init_def)
  from registry_routing(1) [OF this, of count_registration _ count_descriptor] count_add count_valid
  show ?thesis by (simp add: count_registration_def)
qed

text \<open>
  C32: A request that a frozen registry binds runs under its own identity: the job starts ready,
  with the request's descriptor, on the backend registered for its route, prepared with exactly
  the payload of the request; and whatever state the job reaches, the result it writes is a valid
  message with the request's sequence number and service class and the code of that state,
  provided the backend's result fits the size it was registered with.
\<close>

theorem routed_job_result:
  assumes "reach registry_init registry_step g" and "registry_bind rq g backends = (Inr r, backends')"
    and "reach (\<lambda>j. j = rj_job r) job_step j"
    and "length (rj_result r (cj_context j)) \<le> rj_max_result_bytes r" and "result_wf destination"
  shows "cj_state (rj_job r) = JobState_kReady \<and> cj_descriptor (rj_job r) = jrqm_descriptor (jrq_metadata rq) \<and>
    (\<exists>e. registry_find (jrqm_descriptor (jrq_metadata rq)) g = Some e \<and> ja_context e = Some (rj_context r) \<and>
       the (ro_prepare (ja_operations e)) (backends (rj_context r)) (request_payload_values rq) = (True, cj_context (rj_job r))) \<and>
    (\<exists>m. rj_write_result destination ts (r\<lparr>rj_job := j\<rparr>) = (PR_kSuccess, m) \<and> validate_result m = PR_kSuccess \<and>
       result_payload_values m = rj_result r (cj_context j) \<and>
       jrsm_descriptor (jrs_metadata m) = jrqm_descriptor (jrq_metadata rq) \<and>
       me_sequence (jrs_envelope m) = me_sequence (jrq_envelope rq) \<and> job_result_code m = result_code (cj_state j))"
proof -
  note b = registry_bind_ok [OF registry_machine.reach_inv [OF assms(1)] assms(2)]
  have inv: "job_inv j \<and> cj_descriptor j = cj_descriptor (rj_job r)" using assms(3)
    by (induction rule: reach.induct) (auto simp: b(3) job_step_descriptor intro: job_machine.step_inv)
  have sc: "valid_job_service_class (rj_service_class r)" using b(7) validate_request_SuccessD(2) [OF b(2)] by simp
  have "\<exists>m. rj_write_result destination ts (r\<lparr>rj_job := j\<rparr>) = (PR_kSuccess, m) \<and> validate_result m = PR_kSuccess \<and>
      result_payload_values m = rj_result r (cj_context j) \<and>
      jrsm_descriptor (jrs_metadata m) = jrqm_descriptor (jrq_metadata rq) \<and>
      me_sequence (jrs_envelope m) = me_sequence (jrq_envelope rq) \<and> job_result_code m = result_code (cj_state j)"
    by (rule rj_write_result_ok [of "r\<lparr>rj_job := j\<rparr>" destination ts]) (use inv sc assms(4,5) b(5,6,8) in auto)
  then show ?thesis using b(4,5,9) by blast
qed

definition count_request :: JobRequestMessage where
  "count_request = snd (make_job_request default_request 11 count_descriptor 5 [] ServiceClass_kInteractive)"

lemma default_wf: "request_wf default_request" "result_wf default_result"
  by (simp_all add: request_wf_def result_wf_def default_request_def default_result_def)

lemma count_request_ok:
  "validate_request count_request = PR_kSuccess" "jrqm_descriptor (jrq_metadata count_request) = count_descriptor"
  "request_payload_values count_request = []" "request_wf count_request" "me_sequence (jrq_envelope count_request) = 11"
  "jrqm_payload_bytes (jrq_metadata count_request) = 0"
proof -
  have ok: "request_args_ok count_descriptor 5 [] ServiceClass_kInteractive"
    using count_valid by (simp add: request_args_ok_def valid_job_service_class_def enum_simps) (simp add: count_descriptor_def)
  obtain m where m: "make_job_request default_request 11 count_descriptor 5 [] ServiceClass_kInteractive = (PR_kSuccess, m)"
    "validate_request m = PR_kSuccess" "request_payload_values m = []" "request_wf m"
    "jrqm_descriptor (jrq_metadata m) = count_descriptor" "jrqm_service_class (jrq_metadata m) = ServiceClass_kInteractive"
    "me_sequence (jrq_envelope m) = 11" "jrqm_timestamp_ns (jrq_metadata m) = 5"
    by (rule make_job_request_ok [OF ok default_wf(1), of 11])
  show "validate_request count_request = PR_kSuccess" "jrqm_descriptor (jrq_metadata count_request) = count_descriptor"
    "request_payload_values count_request = []" "request_wf count_request" "me_sequence (jrq_envelope count_request) = 11"
    using m by (simp_all add: count_request_def)
  show "jrqm_payload_bytes (jrq_metadata count_request) = 0"
    using ok by (auto simp: count_request_def make_job_request_def request_args_ok_def Let_def not_less default_request_def)
qed

definition count_routed :: "nat RoutedJob" where
  "count_routed = \<lparr>rj_job = count_job JobState_kReady 0, rj_sequence = 11, rj_context = 0, rj_result = (\<lambda>c. [of_nat c]),
     rj_max_result_bytes = 64, rj_service_class = ServiceClass_kInteractive\<rparr>"

lemma count_registry_reach: "reach registry_init registry_step count_registry"
proof -
  have "reach registry_init registry_step (registry_create 2 :: nat JobAdapterRegistry)"
    by (rule reach_init) (auto simp: registry_init_def)
  from reach_step [OF this registry_step.intros(1), of count_registration]
  have "reach registry_init registry_step (count_registry\<lparr>jg_frozen := False\<rparr>)" by (simp add: count_add)
  from reach_step [OF this registry_step.intros(2)] show ?thesis by (simp add: registry_freeze_def count_registry_def)
qed

lemma count_find: "registry_find count_descriptor count_registry = Some count_registration"
  using count_valid by (simp add: registry_find_def count_registry_def count_registration_def)

lemma count_registry_bind: "fst (registry_bind count_request count_registry (\<lambda>_. 7)) = Inr count_routed"
proof -
  have "jrqm_service_class (jrq_metadata count_request) = ServiceClass_kInteractive"
    using count_valid by (simp add: count_request_def make_job_request_def Let_def valid_job_service_class_def enum_simps)
      (simp add: count_descriptor_def)
  then show ?thesis
    using count_request_ok count_find count_bind
    by (simp add: registry_bind_def count_routed_def) (simp add: count_registry_def count_registration_def)
qed

theorem routed_job_result_witness:
  "\<exists>m. rj_write_result default_result 9 (count_routed\<lparr>rj_job := count_job JobState_kRunning 0\<rparr>) = (PR_kSuccess, m) \<and>
     validate_result m = PR_kSuccess \<and> me_sequence (jrs_envelope m) = 11"
proof -
  obtain bs where b: "registry_bind count_request count_registry (\<lambda>_. 7) = (Inr count_routed, bs)"
    using count_registry_bind by (metis prod.collapse)
  have "reach (\<lambda>j. j = rj_job count_routed) job_step (count_job JobState_kReady 0)"
    by (rule reach_init) (simp add: count_routed_def)
  from reach_step [OF this js_start [OF count_start]]
  have j: "reach (\<lambda>j. j = rj_job count_routed) job_step (count_job JobState_kRunning 0)" .
  show ?thesis
    using routed_job_result [OF count_registry_reach b j _ default_wf(2), of 9] count_request_ok(5)
    by (simp add: count_routed_def) blast
qed

end
