(* ===== verification/Job_Events.thy ===== *)
theory Job_Events
  imports Job_Messages
begin

text \<open>
  relay/protocol/job_events.h and relay/telemetry/job_event_buffer.\{h,cc\}: the job lifecycle
  events and the bounded queue that carries them from the coordinator to the telemetry
  publisher. The queue is a circular buffer with read and write indices; it is shown to
  implement the bounded FIFO contract of the prelude, restricted to events that validate.
\<close>

section \<open>Definitions\<close>

subsection \<open>Events\<close>

type_synonym JobEventKind = u16

definition kJobEventVersion :: u16 where [enum_simps]: "kJobEventVersion = 1"
definition kNoWorker :: u32 where [enum_simps]: "kNoWorker = 4294967295"

definition EventKind_kUnknown :: JobEventKind where [enum_simps]: "EventKind_kUnknown = 0"
definition EventKind_kAdmitted :: JobEventKind where [enum_simps]: "EventKind_kAdmitted = 1"
definition EventKind_kDispatched :: JobEventKind where [enum_simps]: "EventKind_kDispatched = 2"
definition EventKind_kStarted :: JobEventKind where [enum_simps]: "EventKind_kStarted = 3"
definition EventKind_kProgress :: JobEventKind where [enum_simps]: "EventKind_kProgress = 4"
definition EventKind_kPreempted :: JobEventKind where [enum_simps]: "EventKind_kPreempted = 5"
definition EventKind_kMigrationStarted :: JobEventKind where [enum_simps]: "EventKind_kMigrationStarted = 6"
definition EventKind_kMigrationCompleted :: JobEventKind where [enum_simps]: "EventKind_kMigrationCompleted = 7"
definition EventKind_kCompleted :: JobEventKind where [enum_simps]: "EventKind_kCompleted = 8"
definition EventKind_kCancelled :: JobEventKind where [enum_simps]: "EventKind_kCancelled = 9"
definition EventKind_kFailed :: JobEventKind where [enum_simps]: "EventKind_kFailed = 10"
definition EventKind_kRejected :: JobEventKind where [enum_simps]: "EventKind_kRejected = 11"

record JobEventTiming =
  jet_queue_ns :: u64
  jet_execution_ns :: u64
  jet_end_to_end_ns :: u64
  jet_cancellation_ns :: u64

record JobEventMetadata =
  jem_struct_size :: u32
  jem_protocol_version :: u16
  jem_event :: JobEventKind
  jem_descriptor :: JobDescriptor
  jem_progress :: JobProgress
  jem_timestamp_ns :: u64
  jem_timing :: JobEventTiming
  jem_related_generation :: u64
  jem_worker_index :: u32
  jem_peer_worker_index :: u32
  jem_queue_depth :: u32
  jem_result_code :: JobResultCode
  jem_service_class :: JobServiceClass
  jem_reserved2 :: u32

record JobEventMessage =
  jev_envelope :: MessageEnvelope
  jev_metadata :: JobEventMetadata

record JobEventDetails =
  jdt_event :: JobEventKind
  jdt_descriptor :: JobDescriptor
  jdt_progress :: JobProgress
  jdt_timestamp_ns :: u64
  jdt_timing :: JobEventTiming
  jdt_related_generation :: u64
  jdt_worker_index :: u32
  jdt_peer_worker_index :: u32
  jdt_queue_depth :: u32
  jdt_result_code :: JobResultCode
  jdt_service_class :: JobServiceClass

definition sizeof_JobEventMetadata :: nat where [wire_simps]: "sizeof_JobEventMetadata = 168"
definition sizeof_JobEventMessage :: nat where [wire_simps]: "sizeof_JobEventMessage = 200"

definition default_timing :: JobEventTiming where
  "default_timing = \<lparr>jet_queue_ns = 0, jet_execution_ns = 0, jet_end_to_end_ns = 0, jet_cancellation_ns = 0\<rparr>"

definition default_event :: JobEventMessage where
  "default_event =
     \<lparr>jev_envelope = default_envelope\<lparr>me_kind := MessageKind_kJobEvent\<rparr>,
      jev_metadata = \<lparr>jem_struct_size = 0, jem_protocol_version = kJobEventVersion,
        jem_event = EventKind_kUnknown, jem_descriptor = default_descriptor,
        jem_progress = default_progress, jem_timestamp_ns = 0, jem_timing = default_timing,
        jem_related_generation = 0, jem_worker_index = kNoWorker, jem_peer_worker_index = kNoWorker,
        jem_queue_depth = 0, jem_result_code = ResultCode_kProgress,
        jem_service_class = ServiceClass_kBestEffort, jem_reserved2 = 0\<rparr>\<rparr>"

definition valid_job_event_kind :: "JobEventKind \<Rightarrow> bool" where
  "valid_job_event_kind event \<longleftrightarrow> event \<ge> EventKind_kAdmitted \<and> event \<le> EventKind_kRejected"

definition rejected_code :: "JobResultCode \<Rightarrow> bool" where
  "rejected_code code \<longleftrightarrow>
     code = ResultCode_kRejectedStale \<or> code = ResultCode_kRejectedDeadline \<or>
     code = ResultCode_kRejectedCapacity \<or> code = ResultCode_kAdapterNotFound \<or>
     code = ResultCode_kInvalidRequest \<or> code = ResultCode_kRejectedQos"

definition event_compatible :: "JobEventKind \<Rightarrow> JobProgress \<Rightarrow> JobResultCode \<Rightarrow> bool" where
  "event_compatible event progress code \<longleftrightarrow>
     (if event = EventKind_kUnknown then False
      else if event = EventKind_kAdmitted \<or> event = EventKind_kDispatched then
        jp_state progress = JobState_kReady \<and> code = ResultCode_kProgress
      else if event = EventKind_kStarted \<or> event = EventKind_kProgress \<or> event = EventKind_kPreempted \<or>
              event = EventKind_kMigrationStarted \<or> event = EventKind_kMigrationCompleted then
        (jp_state progress = JobState_kReady \<or> jp_state progress = JobState_kRunning) \<and> code = ResultCode_kProgress
      else if event = EventKind_kCompleted then jp_state progress = JobState_kComplete \<and> code = ResultCode_kComplete
      else if event = EventKind_kCancelled then jp_state progress = JobState_kCancelled \<and> code = ResultCode_kCancelled
      else if event = EventKind_kFailed then jp_state progress = JobState_kFailed \<and> code = ResultCode_kFailed
      else if event = EventKind_kRejected then jp_state progress = JobState_kFailed \<and> rejected_code code
      else False)"

definition job_event_kind_to_string :: "JobEventKind \<Rightarrow> string" where
  "job_event_kind_to_string event =
     (if event = EventKind_kAdmitted then ''admitted''
      else if event = EventKind_kDispatched then ''dispatched''
      else if event = EventKind_kStarted then ''started''
      else if event = EventKind_kProgress then ''progress''
      else if event = EventKind_kPreempted then ''preempted''
      else if event = EventKind_kMigrationStarted then ''migration_started''
      else if event = EventKind_kMigrationCompleted then ''migration_completed''
      else if event = EventKind_kCompleted then ''completed''
      else if event = EventKind_kCancelled then ''cancelled''
      else if event = EventKind_kFailed then ''failed''
      else if event = EventKind_kRejected then ''rejected''
      else ''unknown'')"

definition validate_event :: "JobEventMessage \<Rightarrow> ProtocolResult" where
  "validate_event m =
     (if \<not> valid_envelope (jev_envelope m) MessageKind_kJobEvent sizeof_JobEventMessage then PR_kInvalidEnvelope
      else let d = jev_metadata m
        in if unat (jem_struct_size d) \<noteq> sizeof_JobEventMetadata \<or>
              jem_protocol_version d \<noteq> kJobEventVersion \<or> jem_reserved2 d \<noteq> 0 \<or>
              \<not> valid_job_event_kind (jem_event d) \<or> \<not> valid_job_service_class (jem_service_class d) \<or>
              \<not> valid_job_descriptor (jem_descriptor d) \<or>
              \<not> valid_job_progress (jem_descriptor d) (jem_progress d) \<or>
              me_session_id (jev_envelope m) \<noteq> jd_session_id (jem_descriptor d) \<or>
              \<not> event_compatible (jem_event d) (jem_progress d) (jem_result_code d)
           then PR_kInvalidMetadata
           else PR_kSuccess)"

definition make_job_event :: "u64 \<Rightarrow> JobEventDetails \<Rightarrow> ProtocolResult \<times> JobEventMessage" where
  "make_job_event sequence details =
     (let d = default_event;
          m = d\<lparr>jev_envelope := (jev_envelope d)\<lparr>me_struct_size := of_nat sizeof_JobEventMessage,
                  me_sequence := sequence, me_session_id := jd_session_id (jdt_descriptor details)\<rparr>,
                jev_metadata := (jev_metadata d)\<lparr>jem_struct_size := of_nat sizeof_JobEventMetadata,
                  jem_protocol_version := kJobEventVersion, jem_event := jdt_event details,
                  jem_descriptor := jdt_descriptor details, jem_progress := jdt_progress details,
                  jem_timestamp_ns := jdt_timestamp_ns details, jem_timing := jdt_timing details,
                  jem_related_generation := jdt_related_generation details,
                  jem_worker_index := jdt_worker_index details,
                  jem_peer_worker_index := jdt_peer_worker_index details,
                  jem_queue_depth := jdt_queue_depth details, jem_result_code := jdt_result_code details,
                  jem_service_class := jdt_service_class details\<rparr>\<rparr>
      in (validate_event m, m))"

subsection \<open>The event buffer\<close>

datatype JobEventBufferResult = JEB_kSuccess | JEB_kInvalid | JEB_kFull

record JobEventBuffer =
  jeb_storage :: "JobEventMessage list"
  jeb_read :: nat
  jeb_write :: nat
  jeb_size :: nat
  jeb_dropped :: u64

text \<open>
  The outcome of the allocation in \<open>create\<close> is a parameter: \<open>None\<close> when it succeeds, and
  otherwise what the caught exception says, if it is a \<open>std::exception\<close>.
\<close>

definition jeb_create :: "string option option \<Rightarrow> nat \<Rightarrow> string + JobEventBuffer" where
  "jeb_create alloc_failure capacity =
     (if capacity = 0 then Inl ''Generic Relay event capacity must be non-zero''
      else case alloc_failure of
             Some (Some what) \<Rightarrow> Inl (''Failed to allocate generic Relay event buffer: '' @ what)
           | Some None \<Rightarrow> Inl ''Failed to allocate generic Relay event buffer''
           | None \<Rightarrow> Inr \<lparr>jeb_storage = replicate capacity default_event, jeb_read = 0, jeb_write = 0,
                         jeb_size = 0, jeb_dropped = 0\<rparr>)"

definition jeb_try_push :: "JobEventMessage \<Rightarrow> JobEventBuffer \<Rightarrow> JobEventBufferResult \<times> JobEventBuffer" where
  "jeb_try_push event b =
     (if validate_event event \<noteq> PR_kSuccess then (JEB_kInvalid, b)
      else if jeb_size b = length (jeb_storage b) then (JEB_kFull, b\<lparr>jeb_dropped := jeb_dropped b + 1\<rparr>)
      else (JEB_kSuccess,
            b\<lparr>jeb_storage := (jeb_storage b)[jeb_write b := event],
              jeb_write := (jeb_write b + 1) mod length (jeb_storage b),
              jeb_size := jeb_size b + 1\<rparr>))"

definition jeb_front :: "JobEventBuffer \<Rightarrow> JobEventMessage option" where
  "jeb_front b = (if jeb_size b = 0 then None else Some (jeb_storage b ! jeb_read b))"

definition jeb_pop :: "JobEventBuffer \<Rightarrow> JobEventBuffer" where
  "jeb_pop b =
     (if jeb_size b = 0 then b
      else b\<lparr>jeb_read := (jeb_read b + 1) mod length (jeb_storage b), jeb_size := jeb_size b - 1\<rparr>)"

text \<open>The queue abstraction and its invariant.\<close>

definition jeb_contents :: "JobEventBuffer \<Rightarrow> JobEventMessage list" where
  "jeb_contents b = ring_view (jeb_storage b) (jeb_read b) (jeb_size b)"

definition jeb_invar :: "JobEventBuffer \<Rightarrow> bool" where
  "jeb_invar b \<longleftrightarrow> 0 < length (jeb_storage b) \<and> jeb_read b < length (jeb_storage b) \<and>
     jeb_write b = (jeb_read b + jeb_size b) mod length (jeb_storage b) \<and>
     jeb_size b \<le> length (jeb_storage b)"

definition jeb_push :: "JobEventMessage \<Rightarrow> JobEventBuffer \<Rightarrow> bool \<times> JobEventBuffer" where
  "jeb_push event b = (fst (jeb_try_push event b) = JEB_kSuccess, snd (jeb_try_push event b))"

definition jeb_take :: "JobEventBuffer \<Rightarrow> JobEventMessage option \<times> JobEventBuffer" where
  "jeb_take b = (jeb_front b, jeb_pop b)"

section \<open>Lemmas\<close>

lemma length_jeb_contents [simp]: "length (jeb_contents b) = jeb_size b"
  by (simp add: jeb_contents_def)

lemma jeb_create_invar: "jeb_create ok n = Inr b \<Longrightarrow> jeb_invar b \<and> jeb_contents b = [] \<and> length (jeb_storage b) = n"
  by (auto simp: jeb_create_def jeb_invar_def jeb_contents_def split: if_splits option.splits)

lemma jeb_push_contents:
  assumes "jeb_invar b" and "fst (jeb_try_push e b) = JEB_kSuccess"
  shows "jeb_contents (snd (jeb_try_push e b)) = jeb_contents b @ [e]" "jeb_invar (snd (jeb_try_push e b))"
proof -
  have g: "validate_event e = PR_kSuccess" "jeb_size b \<noteq> length (jeb_storage b)"
    using assms(2) by (auto simp: jeb_try_push_def split: if_splits)
  with assms(1) have lt: "jeb_size b < length (jeb_storage b)" by (simp add: jeb_invar_def)
  show "jeb_contents (snd (jeb_try_push e b)) = jeb_contents b @ [e]"
    using assms(1) g ring_view_push [OF lt]
    by (simp add: jeb_try_push_def jeb_contents_def jeb_invar_def)
  show "jeb_invar (snd (jeb_try_push e b))"
    using assms(1) g lt by (auto simp: jeb_try_push_def jeb_invar_def mod_Suc_eq)
qed

lemma jeb_pop_contents:
  assumes "jeb_invar b"
  shows "jeb_contents (jeb_pop b) = tl (jeb_contents b)" "jeb_invar (jeb_pop b)"
proof -
  show "jeb_contents (jeb_pop b) = tl (jeb_contents b)"
  proof (cases "jeb_size b")
    case 0
    then show ?thesis by (simp add: jeb_pop_def jeb_contents_def)
  next
    case (Suc n)
    then show ?thesis
      by (simp add: jeb_pop_def jeb_contents_def ring_view_Suc ring_view_start_mod)
  qed
  show "jeb_invar (jeb_pop b)"
    using assms by (cases "jeb_size b") (auto simp: jeb_pop_def jeb_invar_def mod_add_left_eq)
qed

interpretation event_fifo: bounded_fifo jeb_push jeb_take jeb_contents "\<lambda>b. length (jeb_storage b)"
  "\<lambda>b e. validate_event e = PR_kSuccess" jeb_invar
proof
  fix b e
  assume inv: "jeb_invar b"
  show "length (jeb_contents b) \<le> length (jeb_storage b)" using inv by (simp add: jeb_invar_def)
  show "length (jeb_storage (snd (jeb_push e b))) = length (jeb_storage b)"
    by (simp add: jeb_push_def jeb_try_push_def)
  show ok: "fst (jeb_push e b) \<longleftrightarrow> validate_event e = PR_kSuccess \<and> length (jeb_contents b) < length (jeb_storage b)"
    using inv by (auto simp: jeb_push_def jeb_try_push_def jeb_invar_def)
  show "jeb_invar (snd (jeb_push e b))"
  proof (cases "fst (jeb_try_push e b) = JEB_kSuccess")
    case True
    then show ?thesis using jeb_push_contents [OF inv] by (simp add: jeb_push_def)
  next
    case False
    then show ?thesis using inv by (auto simp: jeb_push_def jeb_try_push_def jeb_invar_def split: if_splits)
  qed
  show "jeb_contents (snd (jeb_push e b)) = (if fst (jeb_push e b) then jeb_contents b @ [e] else jeb_contents b)"
    using jeb_push_contents [OF inv] by (auto simp: jeb_push_def jeb_try_push_def jeb_contents_def)
  show "jeb_invar (snd (jeb_take b))" using jeb_pop_contents [OF inv] by (simp add: jeb_take_def)
  show "length (jeb_storage (snd (jeb_take b))) = length (jeb_storage b)"
    by (simp add: jeb_take_def jeb_pop_def)
  show "fst (jeb_take b) = (case jeb_contents b of [] \<Rightarrow> None | x # xs \<Rightarrow> Some x)"
    using inv by (cases "jeb_size b")
      (auto simp: jeb_take_def jeb_front_def jeb_contents_def ring_view_Suc jeb_invar_def)
  show "jeb_contents (snd (jeb_take b)) = tl (jeb_contents b)"
    using jeb_pop_contents [OF inv] by (simp add: jeb_take_def)
qed

lemma accepted_valid:
  assumes "fifo_run jeb_push jeb_take ops b = (accepted, delivered, b')"
  shows "\<forall>e \<in> set accepted. validate_event e = PR_kSuccess"
  using assms
proof (induction jeb_push jeb_take ops b arbitrary: accepted delivered rule: fifo_run.induct)
  case (2 x ops q)
  then show ?case
    by (auto simp: Let_def split: prod.splits if_splits) (auto simp: jeb_push_def jeb_try_push_def split: if_splits)
next
  case (3 ops q)
  then show ?case by (auto simp: Let_def split: prod.splits)
qed simp

text \<open>The eleven valid event kinds, by value.\<close>

lemma event_kind_groups:
  assumes "valid_job_event_kind e"
  shows "e \<in> {1, 2, 3, 4, 5, 6, 7, 8, 9, 10, 11}"
proof -
  have "1 \<le> unat e" "unat e \<le> 11" using assms by (simp_all add: valid_job_event_kind_def enum_simps word_le_nat_alt)
  then have "unat e \<in> {1, 2, 3, 4, 5, 6, 7, 8, 9, 10, 11}"
    unfolding insert_iff empty_iff by presburger
  then show ?thesis unfolding insert_iff empty_iff word_unat_eq_iff by simp
qed

section \<open>Properties\<close>

text \<open>
  The event buffer is a bounded first-in first-out queue: over any sequence of pushes and
  pops on a created buffer, the events delivered are a prefix of the events accepted, those
  still buffered are the rest, every accepted event validates, and at most \<open>capacity\<close> events
  are buffered.
\<close>

theorem event_buffer_fifo:
  assumes "jeb_create ok n = Inr b" and "fifo_run jeb_push jeb_take ops b = (accepted, delivered, b')"
  shows "delivered @ jeb_contents b' = accepted \<and> length (jeb_contents b') \<le> n \<and>
    (\<forall>e \<in> set accepted. validate_event e = PR_kSuccess)"
proof -
  note b = jeb_create_invar [OF assms(1)]
  have "delivered @ jeb_contents b' = accepted \<and> jeb_invar b' \<and> length (jeb_storage b') = n"
    using event_fifo.fifo_order [OF _ assms(2)] b by simp
  moreover have "\<forall>e \<in> set accepted. validate_event e = PR_kSuccess"
    by (rule accepted_valid [OF assms(2)])
  ultimately show ?thesis by (auto simp: jeb_invar_def)
qed

definition demo_event :: JobEventMessage where
  "demo_event = snd (make_job_event 1 \<lparr>jdt_event = EventKind_kAdmitted, jdt_descriptor = demo_descriptor,
     jdt_progress = make_progress JobState_kReady 0 4, jdt_timestamp_ns = 5, jdt_timing = default_timing,
     jdt_related_generation = 0, jdt_worker_index = kNoWorker, jdt_peer_worker_index = kNoWorker,
     jdt_queue_depth = 1, jdt_result_code = ResultCode_kProgress, jdt_service_class = ServiceClass_kCritical\<rparr>)"

lemma demo_event_valid: "validate_event demo_event = PR_kSuccess"
proof -
  have "valid_job_progress demo_descriptor (make_progress JobState_kReady 0 4)"
    by (simp add: valid_job_progress_def valid_job_state_def demo_descriptor_def enum_simps)
  then show ?thesis
    using demo_descriptor_valid
    by (simp add: demo_event_def make_job_event_def Let_def validate_event_def valid_envelope_def default_event_def
        default_envelope_def wire_simps valid_job_event_kind_def valid_job_service_class_def event_compatible_def enum_simps)
qed

theorem event_buffer_fifo_witness:
  "\<exists>b b'. jeb_create None 2 = Inr b \<and>
     fifo_run jeb_push jeb_take [Push demo_event, Push default_event, Pop, Pop] b = ([demo_event], [demo_event], b') \<and>
     jeb_contents b' = []"
proof -
  define b where "b = \<lparr>jeb_storage = replicate 2 default_event, jeb_read = 0, jeb_write = 0, jeb_size = 0, jeb_dropped = 0\<rparr>"
  have c: "jeb_create None 2 = Inr b" by (simp add: jeb_create_def b_def)
  have "validate_event default_event \<noteq> PR_kSuccess"
    by (simp add: validate_event_def valid_envelope_def default_event_def default_envelope_def wire_simps)
  then have "\<exists>b'. fifo_run jeb_push jeb_take [Push demo_event, Push default_event, Pop, Pop] b = ([demo_event], [demo_event], b')"
    using demo_event_valid
    by (simp add: b_def jeb_push_def jeb_try_push_def jeb_take_def jeb_front_def jeb_pop_def numeral_2_eq_2)
  then obtain b' where run: "fifo_run jeb_push jeb_take [Push demo_event, Push default_event, Pop, Pop] b = ([demo_event], [demo_event], b')"
    by blast
  have "jeb_contents b' = []" using event_buffer_fifo [OF c run] by simp
  with c run show ?thesis by blast
qed

text \<open>
  \<open>make_job_event\<close> reports success exactly when the resulting event validates, and what
  validates is coherent: admission and dispatch events are about a job that has done no work,
  no event of a running job carries a terminal result, and a rejection carries a rejection code
  and the failed state.
\<close>

theorem job_event_coherent:
  assumes "make_job_event sequence details = (PR_kSuccess, m)"
  shows "validate_event m = PR_kSuccess \<and> jem_event (jev_metadata m) = jdt_event details \<and>
    me_session_id (jev_envelope m) = jd_session_id (jdt_descriptor details) \<and>
    (jdt_event details \<le> EventKind_kDispatched \<longrightarrow> jp_completed_work_units (jdt_progress details) = 0) \<and>
    (jdt_event details \<le> EventKind_kMigrationCompleted \<longrightarrow> \<not> job_terminal (jp_state (jdt_progress details))) \<and>
    (EventKind_kCompleted \<le> jdt_event details \<longrightarrow> job_terminal (jp_state (jdt_progress details))) \<and>
    (jdt_event details = EventKind_kRejected \<longleftrightarrow> rejected_code (jdt_result_code details))"
proof -
  have v: "validate_event m = PR_kSuccess" using assms by (auto simp: make_job_event_def Let_def)
  have sel: "jem_event (jev_metadata m) = jdt_event details" "jem_descriptor (jev_metadata m) = jdt_descriptor details"
    "jem_progress (jev_metadata m) = jdt_progress details" "jem_result_code (jev_metadata m) = jdt_result_code details"
    "me_session_id (jev_envelope m) = jd_session_id (jdt_descriptor details)"
    using assms by (auto simp: make_job_event_def Let_def)
  have k: "valid_job_event_kind (jdt_event details)" "valid_job_progress (jdt_descriptor details) (jdt_progress details)"
    "event_compatible (jdt_event details) (jdt_progress details) (jdt_result_code details)"
    using v by (auto simp: validate_event_def Let_def sel split: if_splits)
  have ready: "jp_state (jdt_progress details) = JobState_kReady \<Longrightarrow> jp_completed_work_units (jdt_progress details) = 0"
    using k(2) by (simp add: valid_job_progress_def split: if_splits)
  show ?thesis
    using v sel k(3) ready event_kind_groups [OF k(1)]
    by (auto simp: event_compatible_def job_terminal_def rejected_code_def enum_simps word_le_nat_alt)
qed

theorem job_event_coherent_witness:
  "\<exists>m details. make_job_event 1 details = (PR_kSuccess, m) \<and> jdt_event details = EventKind_kAdmitted \<and>
     \<not> job_terminal (jp_state (jdt_progress details))"
proof -
  define det where "det = \<lparr>jdt_event = EventKind_kAdmitted, jdt_descriptor = demo_descriptor,
     jdt_progress = make_progress JobState_kReady 0 4, jdt_timestamp_ns = 5, jdt_timing = default_timing,
     jdt_related_generation = 0, jdt_worker_index = kNoWorker, jdt_peer_worker_index = kNoWorker,
     jdt_queue_depth = 1, jdt_result_code = ResultCode_kProgress, jdt_service_class = ServiceClass_kCritical\<rparr>"
  have run: "make_job_event 1 det = (PR_kSuccess, demo_event)"
    using demo_event_valid by (simp add: demo_event_def det_def make_job_event_def Let_def)
  have "jdt_event det = EventKind_kAdmitted" by (simp add: det_def)
  moreover have "\<not> job_terminal (jp_state (jdt_progress det))"
    using job_event_coherent [OF run] by (simp add: det_def enum_simps)
  ultimately show ?thesis using run by blast
qed

end
