(* ===== verification/Std_Heap.thy ===== *)
theory Std_Heap
  imports FE_Prelude
begin

text \<open>
  The heap algorithms of the C++ standard library that the scheduler uses, as sifts over an
  array with the caller's comparison: \<open>std::push_heap\<close>, \<open>std::pop_heap\<close>, \<open>std::make_heap\<close> and
  \<open>std::max_element\<close>. The comparison of every client orders elements by a key, the element with
  the smallest key at the front; the lemmas take that key as their parameter.

  The locale \<open>keyed_heap\<close> states what the standard promises of these algorithms: the result is
  a permutation, a heap, and the front is extremal. It is interpreted by the sifts, and the
  scheduler's lemmas use only the contract.
\<close>

section \<open>Definitions\<close>

definition hpar :: "nat \<Rightarrow> nat" where
  "hpar j = (j - 1) div 2"

definition swap_at :: "nat \<Rightarrow> nat \<Rightarrow> 'a list \<Rightarrow> 'a list" where
  "swap_at i j xs = xs[i := xs ! j, j := xs ! i]"

function sift_up :: "('a \<Rightarrow> 'a \<Rightarrow> bool) \<Rightarrow> 'a list \<Rightarrow> nat \<Rightarrow> 'a list" where
  "sift_up cmp xs i =
     (if i = 0 then xs
      else let p = hpar i
        in if cmp (xs ! p) (xs ! i) then sift_up cmp (swap_at p i xs) p else xs)"
  by pat_completeness auto
termination by (relation "measure (\<lambda>(_, _, i). i)") (auto simp: hpar_def)

definition best_child :: "('a \<Rightarrow> 'a \<Rightarrow> bool) \<Rightarrow> 'a list \<Rightarrow> nat \<Rightarrow> nat \<Rightarrow> nat" where
  "best_child cmp xs i n =
     (let l = 2 * i + 1 in if l + 1 < n \<and> cmp (xs ! l) (xs ! (l + 1)) then l + 1 else l)"

function sift_down :: "('a \<Rightarrow> 'a \<Rightarrow> bool) \<Rightarrow> 'a list \<Rightarrow> nat \<Rightarrow> nat \<Rightarrow> 'a list" where
  "sift_down cmp xs i n =
     (if 2 * i + 1 \<ge> n then xs
      else let c = best_child cmp xs i n
        in if cmp (xs ! i) (xs ! c) then sift_down cmp (swap_at i c xs) c n else xs)"
  by pat_completeness auto
termination by (relation "measure (\<lambda>(_, _, i, n). n - i)") (auto simp: best_child_def Let_def)

declare sift_up.simps [simp del] sift_down.simps [simp del]

definition push_heap :: "('a \<Rightarrow> 'a \<Rightarrow> bool) \<Rightarrow> 'a list \<Rightarrow> 'a list" where
  "push_heap cmp xs = (if xs = [] then xs else sift_up cmp xs (length xs - 1))"

definition pop_heap :: "('a \<Rightarrow> 'a \<Rightarrow> bool) \<Rightarrow> 'a list \<Rightarrow> 'a list" where
  "pop_heap cmp xs =
     (if length xs \<le> 1 then xs
      else sift_down cmp (swap_at 0 (length xs - 1) xs) 0 (length xs - 1))"

definition make_heap :: "('a \<Rightarrow> 'a \<Rightarrow> bool) \<Rightarrow> 'a list \<Rightarrow> 'a list" where
  "make_heap cmp xs = fold (\<lambda>i ys. sift_down cmp ys i (length ys)) (rev [0 ..< length xs div 2]) xs"

text \<open>The first element that no other element exceeds.\<close>

fun max_element :: "('a \<Rightarrow> 'a \<Rightarrow> bool) \<Rightarrow> 'a list \<Rightarrow> 'a option" where
  "max_element cmp [] = None"
| "max_element cmp (x # xs) =
     (case max_element cmp xs of None \<Rightarrow> Some x | Some y \<Rightarrow> if cmp x y then Some y else Some x)"

definition is_heap_by :: "('a \<Rightarrow> 'k::linorder) \<Rightarrow> 'a list \<Rightarrow> bool" where
  "is_heap_by k xs \<longleftrightarrow> (\<forall>j. 0 < j \<and> j < length xs \<longrightarrow> k (xs ! hpar j) \<le> k (xs ! j))"

section \<open>Interface\<close>

locale keyed_heap =
  fixes push :: "('a \<Rightarrow> 'a \<Rightarrow> bool) \<Rightarrow> 'a list \<Rightarrow> 'a list"
    and pop :: "('a \<Rightarrow> 'a \<Rightarrow> bool) \<Rightarrow> 'a list \<Rightarrow> 'a list"
    and make :: "('a \<Rightarrow> 'a \<Rightarrow> bool) \<Rightarrow> 'a list \<Rightarrow> 'a list"
    and heap :: "('a \<Rightarrow> 'k::linorder) \<Rightarrow> 'a list \<Rightarrow> bool"
  assumes heap_Nil: "heap k []"
    and heap_front: "heap k xs \<Longrightarrow> x \<in> set xs \<Longrightarrow> k (hd xs) \<le> k x"
    and push_heap: "(\<And>x y. cmp x y \<longleftrightarrow> k y < k x) \<Longrightarrow> heap k xs \<Longrightarrow> heap k (push cmp (xs @ [x]))"
    and push_mset: "mset (push cmp xs) = mset xs"
    and pop_heap: "(\<And>x y. cmp x y \<longleftrightarrow> k y < k x) \<Longrightarrow> heap k xs \<Longrightarrow> heap k (butlast (pop cmp xs))"
    and pop_mset: "mset (pop cmp xs) = mset xs"
    and pop_last: "xs \<noteq> [] \<Longrightarrow> last (pop cmp xs) = hd xs"
    and make_heap: "(\<And>x y. cmp x y \<longleftrightarrow> k y < k x) \<Longrightarrow> heap k (make cmp xs)"
    and make_mset: "mset (make cmp xs) = mset xs"
begin

lemma push_set: "set (push cmp xs) = set xs" and pop_set: "set (pop cmp xs) = set xs"
  and make_set: "set (make cmp xs) = set xs"
  using push_mset pop_mset make_mset by (metis set_mset_mset)+

lemma push_length: "length (push cmp xs) = length xs" and pop_length: "length (pop cmp xs) = length xs"
  and make_length: "length (make cmp xs) = length xs"
  using push_mset pop_mset make_mset by (metis size_mset)+

text \<open>Taking the front out of a heap: what is removed is minimal, and the rest is a heap.\<close>

lemma pop_split:
  assumes "\<And>x y. cmp x y \<longleftrightarrow> k y < k x" "heap k xs" "xs \<noteq> []"
  shows "mset xs = add_mset (last (pop cmp xs)) (mset (butlast (pop cmp xs)))"
    "\<forall>x \<in> set xs. k (last (pop cmp xs)) \<le> k x" "heap k (butlast (pop cmp xs))"
proof -
  have "pop cmp xs \<noteq> []" using assms(3) pop_length [of cmp xs] by auto
  then show "mset xs = add_mset (last (pop cmp xs)) (mset (butlast (pop cmp xs)))"
    using last_butlast_mset pop_mset [of cmp xs] by metis
  show "\<forall>x \<in> set xs. k (last (pop cmp xs)) \<le> k x"
    using pop_last [OF assms(3)] heap_front [OF assms(2)] by simp
  show "heap k (butlast (pop cmp xs))" using pop_heap [OF assms(1,2)] .
qed

end

section \<open>Lemmas\<close>

lemma length_swap_at [simp]: "length (swap_at i j xs) = length xs"
  by (simp add: swap_at_def)

lemma nth_swap_at:
  "i < length xs \<Longrightarrow> j < length xs \<Longrightarrow>
   swap_at i j xs ! m = (if m = j then xs ! i else if m = i then xs ! j else xs ! m)"
  by (auto simp: swap_at_def nth_list_update)

lemma mset_swap_at: "i < length xs \<Longrightarrow> j < length xs \<Longrightarrow> mset (swap_at i j xs) = mset xs"
  by (simp add: swap_at_def mset_swap)

lemma hpar_less: "0 < j \<Longrightarrow> hpar j < j"
  by (simp add: hpar_def)

lemma hpar_children: "0 < j \<Longrightarrow> hpar j = i \<longleftrightarrow> j = 2 * i + 1 \<or> j = 2 * i + 2"
  by (auto simp: hpar_def)

lemma sift_up_length [simp]: "length (sift_up cmp xs i) = length xs"
  by (induction cmp xs i rule: sift_up.induct) (subst sift_up.simps, simp add: Let_def)

lemma sift_up_mset: "i < length xs \<Longrightarrow> mset (sift_up cmp xs i) = mset xs"
proof (induction cmp xs i rule: sift_up.induct)
  case (1 cmp xs i)
  show ?case
  proof (cases "i = 0 \<or> \<not> cmp (xs ! hpar i) (xs ! i)")
    case True
    then show ?thesis by (subst sift_up.simps) (auto simp: Let_def)
  next
    case False
    then have p: "hpar i < length xs" using hpar_less [of i] "1.prems" by simp
    with False "1.IH" [OF _ refl] "1.prems" have "mset (sift_up cmp (swap_at (hpar i) i xs) (hpar i)) = mset xs"
      by (simp add: mset_swap_at)
    with False show ?thesis by (subst sift_up.simps) (simp add: Let_def)
  qed
qed

lemma sift_up_heap:
  assumes "\<And>x y. cmp x y \<longleftrightarrow> k y < (k x :: 'k::linorder)" and "i < length xs"
    and "\<And>j. 0 < j \<Longrightarrow> j < length xs \<Longrightarrow> j \<noteq> i \<Longrightarrow> k (xs ! hpar j) \<le> k (xs ! j)"
    and "\<And>c. 0 < c \<Longrightarrow> c < length xs \<Longrightarrow> hpar c = i \<Longrightarrow> 0 < i \<Longrightarrow> k (xs ! hpar i) \<le> k (xs ! c)"
  shows "is_heap_by k (sift_up cmp xs i)"
  using assms
proof (induction cmp xs i rule: sift_up.induct)
  case (1 cmp xs i)
  note cmp = "1.prems"(1) and A = "1.prems"(3) and B = "1.prems"(4)
  show ?case
  proof (cases "i = 0 \<or> \<not> cmp (xs ! hpar i) (xs ! i)")
    case True
    then have "sift_up cmp xs i = xs" by (subst sift_up.simps) (auto simp: Let_def)
    moreover have "k (xs ! hpar j) \<le> k (xs ! j)" if "0 < j" "j < length xs" for j
      using True A [OF that] cmp that by (cases "j = i") (auto simp: not_less)
    ultimately show ?thesis by (simp add: is_heap_by_def)
  next
    case False
    let ?p = "hpar i" and ?ys = "swap_at (hpar i) i xs"
    have i: "0 < i" "i < length xs" using False "1.prems"(2) by auto
    have pl: "?p < i" using hpar_less [OF i(1)] .
    then have p: "?p < length xs" using i by simp
    have lt: "k (xs ! i) < k (xs ! ?p)" using False cmp by simp
    have sw: "?ys ! m = (if m = i then xs ! ?p else if m = ?p then xs ! i else xs ! m)" for m
      using nth_swap_at [OF p i(2)] .
    have A': "k (?ys ! hpar j) \<le> k (?ys ! j)" if j: "0 < j" "j < length ?ys" "j \<noteq> ?p" for j
    proof (cases "j = i")
      case True
      then show ?thesis using lt pl by (simp add: sw)
    next
      case ne: False
      have e: "k (xs ! hpar j) \<le> k (xs ! j)" using A j ne by simp
      have "hpar j = i \<Longrightarrow> k (xs ! ?p) \<le> k (xs ! j)" using B [of j] j i by simp
      then show ?thesis using e lt ne j pl by (auto simp: sw)
    qed
    have B': "k (?ys ! hpar ?p) \<le> k (?ys ! c)" if c: "0 < c" "c < length ?ys" "hpar c = ?p" "0 < ?p" for c
    proof -
      have pp: "hpar ?p < ?p" using hpar_less [OF c(4)] .
      have e1: "k (xs ! hpar ?p) \<le> k (xs ! ?p)" using A [of ?p] c(4) p pl by simp
      have "c \<noteq> ?p" using hpar_less [OF c(1)] c(3) by simp
      moreover have "c \<noteq> i \<Longrightarrow> k (xs ! ?p) \<le> k (xs ! c)" using A [of c] c by simp
      ultimately show ?thesis using e1 pp pl by (auto simp: sw)
    qed
    have "is_heap_by k (sift_up cmp ?ys ?p)"
    proof (rule "1.IH")
      show "?p < length ?ys" using p by simp
    qed (use False cmp A' B' in auto)
    then show ?thesis using False by (subst sift_up.simps) (simp add: Let_def)
  qed
qed

lemma best_child_props:
  assumes "2 * i + 1 < n"
  shows "best_child cmp xs i n < n" "hpar (best_child cmp xs i n) = i" "i < best_child cmp xs i n" "0 < best_child cmp xs i n"
  using assms by (auto simp: best_child_def Let_def hpar_def)

lemma best_child_min:
  assumes "\<And>x y. cmp x y \<longleftrightarrow> k y < (k x :: 'k::linorder)" "0 < j" "j < n" "hpar j = i"
  shows "k (xs ! best_child cmp xs i n) \<le> k (xs ! j)"
  using assms(2-4) hpar_children [OF assms(2), of i]
  by (auto simp: best_child_def Let_def assms(1) not_less)

lemma sift_down_length [simp]: "length (sift_down cmp xs i n) = length xs"
  by (induction cmp xs i n rule: sift_down.induct) (subst sift_down.simps, simp add: Let_def)

lemma sift_down_mset: "n \<le> length xs \<Longrightarrow> mset (sift_down cmp xs i n) = mset xs \<and>
  (\<forall>m. n \<le> m \<longrightarrow> sift_down cmp xs i n ! m = xs ! m)"
proof (induction cmp xs i n rule: sift_down.induct)
  case (1 cmp xs i n)
  let ?c = "best_child cmp xs i n"
  show ?case
  proof (cases "2 * i + 1 \<ge> n \<or> \<not> cmp (xs ! i) (xs ! ?c)")
    case True
    then have "sift_down cmp xs i n = xs" by (subst sift_down.simps) (auto simp: Let_def)
    then show ?thesis by simp
  next
    case False
    then have c: "?c < n" "i < ?c" using best_child_props [of i n cmp xs] by auto
    have l: "i < length xs" "?c < length xs" using c "1.prems" by auto
    have "mset (sift_down cmp (swap_at i ?c xs) ?c n) = mset xs \<and>
        (\<forall>m. n \<le> m \<longrightarrow> sift_down cmp (swap_at i ?c xs) ?c n ! m = xs ! m)"
      using "1.IH" [OF _ refl] False "1.prems" c l by (auto simp: mset_swap_at nth_swap_at)
    with False show ?thesis by (subst (1 2) sift_down.simps) (simp add: Let_def)
  qed
qed

lemma sift_down_heap:
  assumes "\<And>x y. cmp x y \<longleftrightarrow> k y < (k x :: 'k::linorder)" and "n \<le> length xs" and "a \<le> i"
    and "\<And>j. 0 < j \<Longrightarrow> j < n \<Longrightarrow> a \<le> hpar j \<Longrightarrow> hpar j \<noteq> i \<Longrightarrow> k (xs ! hpar j) \<le> k (xs ! j)"
    and "\<And>c. 0 < c \<Longrightarrow> c < n \<Longrightarrow> hpar c = i \<Longrightarrow> 0 < i \<Longrightarrow> a \<le> hpar i \<Longrightarrow> k (xs ! hpar i) \<le> k (xs ! c)"
    and "0 < m" "m < n" "a \<le> hpar m"
  shows "k (sift_down cmp xs i n ! hpar m) \<le> k (sift_down cmp xs i n ! m)"
  using assms
proof (induction cmp xs i n rule: sift_down.induct)
  case (1 cmp xs i n)
  note cmp = "1.prems"(1) and len = "1.prems"(2) and ai = "1.prems"(3) and D = "1.prems"(4) and E = "1.prems"(5)
  let ?c = "best_child cmp xs i n"
  show ?case
  proof (cases "2 * i + 1 \<ge> n \<or> \<not> cmp (xs ! i) (xs ! ?c)")
    case True
    then have eq: "sift_down cmp xs i n = xs" by (subst sift_down.simps) (auto simp: Let_def)
    show ?thesis
    proof (cases "hpar m = i")
      case par: True
      with "1.prems"(6,7) have "2 * i + 1 < n" using hpar_children [of m i] by auto
      with True have "k (xs ! i) \<le> k (xs ! ?c)" using cmp by (auto simp: not_less)
      also have "\<dots> \<le> k (xs ! m)" using best_child_min [OF cmp "1.prems"(6,7) par] .
      finally show ?thesis using eq par by simp
    next
      case False
      then show ?thesis using D "1.prems"(6-8) eq by simp
    qed
  next
    case False
    let ?ys = "swap_at i ?c xs"
    have c: "?c < n" "hpar ?c = i" "i < ?c" "0 < ?c" using best_child_props [of i n cmp xs] False by auto
    have l: "i < length xs" "?c < length xs" using c len by auto
    have lt: "k (xs ! ?c) < k (xs ! i)" using False cmp by simp
    have sw: "?ys ! x = (if x = ?c then xs ! i else if x = i then xs ! ?c else xs ! x)" for x
      using nth_swap_at [OF l] .
    have D': "k (?ys ! hpar j) \<le> k (?ys ! j)" if j: "0 < j" "j < n" "a \<le> hpar j" "hpar j \<noteq> ?c" for j
    proof (cases "hpar j = i")
      case True
      have "k (xs ! ?c) \<le> k (xs ! j)" using best_child_min [OF cmp j(1,2) True] .
      moreover have "j \<noteq> i" using hpar_less [OF j(1)] True by simp
      ultimately show ?thesis using True lt c(3) by (auto simp: sw)
    next
      case hp: False
      then have jc: "j \<noteq> ?c" using c(2) by auto
      show ?thesis
      proof (cases "j = i")
        case True
        with E [OF c(4,1,2)] j have "k (xs ! hpar i) \<le> k (xs ! ?c)" by simp
        then show ?thesis using True hp j(4) c(3) by (simp add: sw)
      next
        case False
        then show ?thesis using D [OF j(1,2,3) hp] jc hp j(4) by (simp add: sw)
      qed
    qed
    have E': "k (?ys ! hpar ?c) \<le> k (?ys ! d)" if d: "0 < d" "d < n" "hpar d = ?c" "0 < ?c" "a \<le> hpar ?c" for d
    proof -
      have dl: "?c < d" using hpar_less [OF d(1)] d(3) by simp
      have "k (xs ! ?c) \<le> k (xs ! d)" using D [OF d(1,2)] d(3) c(3) ai by simp
      then show ?thesis using c(2,3) dl by (auto simp: sw)
    qed
    have "k (sift_down cmp ?ys ?c n ! hpar m) \<le> k (sift_down cmp ?ys ?c n ! m)"
    proof (rule "1.IH")
      show "n \<le> length ?ys" "a \<le> ?c" using len ai c(3) by simp_all
    qed (use False cmp D' E' "1.prems"(6-8) in auto)
    then show ?thesis using False by (subst (1 2) sift_down.simps) (simp add: Let_def)
  qed
qed

lemma push_heap_heap:
  assumes "\<And>x y. cmp x y \<longleftrightarrow> k y < (k x :: 'k::linorder)" "is_heap_by k xs"
  shows "is_heap_by k (push_heap cmp (xs @ [x]))"
proof -
  have "is_heap_by k (sift_up cmp (xs @ [x]) (length xs))"
  proof (rule sift_up_heap [OF assms(1)])
    fix j assume j: "0 < j" "j < length (xs @ [x])" "j \<noteq> length xs"
    then have "j < length xs" by simp
    moreover from this hpar_less [OF j(1)] have "hpar j < length xs" by simp
    ultimately show "k ((xs @ [x]) ! hpar j) \<le> k ((xs @ [x]) ! j)"
      using assms(2) j(1) by (simp add: is_heap_by_def nth_append)
  next
    fix c assume "0 < c" "c < length (xs @ [x])" "hpar c = length xs"
    with hpar_less [of c] show "k ((xs @ [x]) ! hpar (length xs)) \<le> k ((xs @ [x]) ! c)" by simp
  qed simp
  then show ?thesis by (simp add: push_heap_def)
qed

lemma push_heap_mset: "mset (push_heap cmp xs) = mset xs"
  by (simp add: push_heap_def sift_up_mset)

lemma pop_heap_props:
  assumes "xs \<noteq> []"
  shows "mset (pop_heap cmp xs) = mset xs" "length (pop_heap cmp xs) = length xs" "last (pop_heap cmp xs) = hd xs"
proof -
  let ?n = "length xs - 1" let ?ys = "swap_at 0 (length xs - 1) xs"
  have l: "0 < length xs" "?n < length xs" using assms by auto
  show len: "length (pop_heap cmp xs) = length xs" by (simp add: pop_heap_def)
  show "mset (pop_heap cmp xs) = mset xs"
    using sift_down_mset [of ?n ?ys cmp 0] l by (simp add: pop_heap_def mset_swap_at)
  show "last (pop_heap cmp xs) = hd xs"
  proof (cases "length xs \<le> 1")
    case True
    with assms show ?thesis by (cases xs) (auto simp: pop_heap_def)
  next
    case False
    have "pop_heap cmp xs \<noteq> []" using len assms by (metis length_0_conv)
    then have "last (pop_heap cmp xs) = pop_heap cmp xs ! ?n" by (simp add: last_conv_nth len)
    also have "\<dots> = ?ys ! ?n" using False sift_down_mset [of ?n ?ys cmp 0] by (simp add: pop_heap_def)
    also have "\<dots> = hd xs" using nth_swap_at [OF l(1,2)] assms by (simp add: hd_conv_nth)
    finally show ?thesis .
  qed
qed

lemma pop_heap_heap:
  assumes "\<And>x y. cmp x y \<longleftrightarrow> k y < (k x :: 'k::linorder)" "is_heap_by k xs"
  shows "is_heap_by k (butlast (pop_heap cmp xs))"
proof (cases "length xs \<le> 1")
  case True
  then have "butlast (pop_heap cmp xs) = []" by (cases xs) (auto simp: pop_heap_def)
  then show ?thesis by (simp add: is_heap_by_def)
next
  case False
  let ?n = "length xs - 1" let ?ys = "swap_at 0 (length xs - 1) xs"
  have l: "0 < length xs" "?n < length xs" using False by auto
  have sw: "?ys ! m = (if m = ?n then xs ! 0 else if m = 0 then xs ! ?n else xs ! m)" for m
    using nth_swap_at [OF l] .
  have edge: "k (sift_down cmp ?ys 0 ?n ! hpar m) \<le> k (sift_down cmp ?ys 0 ?n ! m)" if m: "0 < m" "m < ?n" for m
  proof (rule sift_down_heap [OF assms(1), where a = 0])
    fix j assume j: "0 < j" "j < ?n" "hpar j \<noteq> 0"
    then have ne: "j \<noteq> ?n" "hpar j \<noteq> ?n" "j < length xs" using hpar_less [OF j(1)] by simp_all
    have "?ys ! hpar j = xs ! hpar j" "?ys ! j = xs ! j"
      using sw [of j] sw [of "hpar j"] ne j by simp_all
    moreover have "k (xs ! hpar j) \<le> k (xs ! j)" using assms(2) j(1) ne(3) unfolding is_heap_by_def by blast
    ultimately show "k (?ys ! hpar j) \<le> k (?ys ! j)" by (simp only:)
  qed (use m in auto)
  show ?thesis
    unfolding is_heap_by_def
  proof (intro allI impI)
    fix j assume j: "0 < j \<and> j < length (butlast (pop_heap cmp xs))"
    then have "j < ?n" "hpar j < ?n" using hpar_less [of j] False by (simp_all add: pop_heap_def)
    then show "k (butlast (pop_heap cmp xs) ! hpar j) \<le> k (butlast (pop_heap cmp xs) ! j)"
      using False edge j by (simp add: pop_heap_def nth_butlast)
  qed
qed

lemma make_heap_fold:
  assumes "\<And>x y. cmp x y \<longleftrightarrow> k y < (k x :: 'k::linorder)" "a \<le> length xs div 2"
  defines "ys \<equiv> fold (\<lambda>i ys. sift_down cmp ys i (length ys)) (rev [a ..< length xs div 2]) xs"
  shows "length ys = length xs \<and> mset ys = mset xs \<and>
    (\<forall>m. 0 < m \<and> m < length xs \<and> a \<le> hpar m \<longrightarrow> k (ys ! hpar m) \<le> k (ys ! m))"
  using assms(2) unfolding ys_def
proof (induction "length xs div 2 - a" arbitrary: a)
  case 0
  then have "a = length xs div 2" by simp
  moreover have "\<not> length xs div 2 \<le> hpar m" if "0 < m" "m < length xs" for m
    using that by (simp add: hpar_def)
  ultimately show ?case by auto
next
  case (Suc d)
  have a: "a < length xs div 2" using Suc.hyps(2) by simp
  let ?zs = "fold (\<lambda>i ys. sift_down cmp ys i (length ys)) (rev [Suc a ..< length xs div 2]) xs"
  have IH: "length ?zs = length xs" "mset ?zs = mset xs"
    "\<And>m. 0 < m \<Longrightarrow> m < length xs \<Longrightarrow> Suc a \<le> hpar m \<Longrightarrow> k (?zs ! hpar m) \<le> k (?zs ! m)"
    using Suc.hyps(1) [of "Suc a"] Suc.hyps(2) a by auto
  have step: "fold (\<lambda>i ys. sift_down cmp ys i (length ys)) (rev [a ..< length xs div 2]) xs = sift_down cmp ?zs a (length ?zs)"
    using a by (simp add: upt_conv_Cons)
  have "k (sift_down cmp ?zs a (length ?zs) ! hpar m) \<le> k (sift_down cmp ?zs a (length ?zs) ! m)"
    if m: "0 < m" "m < length xs" "a \<le> hpar m" for m
  proof (rule sift_down_heap [OF assms(1), where a = a])
    fix j assume "0 < j" "j < length ?zs" "a \<le> hpar j" "hpar j \<noteq> a"
    then show "k (?zs ! hpar j) \<le> k (?zs ! j)" using IH by simp
  next
    fix c assume "0 < a" "a \<le> hpar a"
    then show "k (?zs ! hpar a) \<le> k (?zs ! c)" using hpar_less [of a] by simp
  qed (use m IH in auto)
  then show ?case unfolding step using IH sift_down_mset [of "length ?zs" ?zs cmp a] by simp
qed

lemma heap_front_min: "is_heap_by k xs \<Longrightarrow> j < length xs \<Longrightarrow> k (xs ! 0) \<le> k (xs ! j)"
proof (induction j rule: less_induct)
  case (less j)
  show ?case
  proof (cases "j = 0")
    case False
    then have "hpar j < j" by (simp add: hpar_less)
    with less have "k (xs ! 0) \<le> k (xs ! hpar j)" by simp
    also have "\<dots> \<le> k (xs ! j)" using less.prems False by (simp add: is_heap_by_def)
    finally show ?thesis .
  qed simp
qed

interpretation std_heap: keyed_heap push_heap pop_heap make_heap is_heap_by
proof
  fix k :: "'a \<Rightarrow> 'k::linorder" and cmp :: "'a \<Rightarrow> 'a \<Rightarrow> bool" and xs :: "'a list" and x :: 'a
  show "is_heap_by k []" by (simp add: is_heap_by_def)
  show "is_heap_by k xs \<Longrightarrow> x \<in> set xs \<Longrightarrow> k (hd xs) \<le> k x"
    by (metis heap_front_min hd_conv_nth in_set_conv_nth length_pos_if_in_set length_greater_0_conv)
  show "mset (push_heap cmp xs) = mset xs" by (rule push_heap_mset)
  show "mset (pop_heap cmp xs) = mset xs"
    using pop_heap_props(1) [of xs cmp] by (cases "xs = []") (auto simp: pop_heap_def)
  show "xs \<noteq> [] \<Longrightarrow> last (pop_heap cmp xs) = hd xs" by (rule pop_heap_props(3))
  show "is_heap_by k (push_heap cmp (xs @ [x]))" if "\<And>x y. cmp x y \<longleftrightarrow> k y < k x" "is_heap_by k xs"
    using push_heap_heap [OF that] .
  show "is_heap_by k (butlast (pop_heap cmp xs))" if "\<And>x y. cmp x y \<longleftrightarrow> k y < k x" "is_heap_by k xs"
    using pop_heap_heap [OF that] .
  show "is_heap_by k (make_heap cmp xs)" if "\<And>x y. cmp x y \<longleftrightarrow> k y < k x"
    using make_heap_fold [where k = k and cmp = cmp and a = 0 and xs = xs, OF that] by (simp add: make_heap_def is_heap_by_def)
  show "mset (make_heap cmp xs) = mset xs"
  proof -
    have "mset (fold (\<lambda>i ys. sift_down cmp ys i (length ys)) is ys) = mset ys" for "is" and ys :: "'a list"
      by (induction "is" arbitrary: ys) (simp_all add: sift_down_mset)
    then show ?thesis by (simp add: make_heap_def)
  qed
qed

lemma max_element_None: "max_element cmp xs = None \<longleftrightarrow> xs = []"
  by (cases xs) (auto split: option.splits)

lemma max_element_Some:
  assumes "\<And>x y. cmp x y \<longleftrightarrow> k x < (k y :: 'k::linorder)" "max_element cmp xs = Some m"
  shows "m \<in> set xs \<and> (\<forall>x \<in> set xs. k x \<le> k m)"
  using assms(2)
proof (induction xs arbitrary: m)
  case (Cons x xs)
  show ?case
  proof (cases "max_element cmp xs")
    case None
    with Cons.prems show ?thesis by (simp add: max_element_None)
  next
    case (Some y)
    have y: "y \<in> set xs" "\<forall>z \<in> set xs. k z \<le> k y" using Cons.IH [OF Some] by simp_all
    have m: "m = (if k x < k y then y else x)" using Cons.prems Some assms(1) [of x y] by (simp split: if_splits)
    show ?thesis
    proof (cases "k x < k y")
      case True
      with m y show ?thesis by auto
    next
      case False
      with m y show ?thesis by (auto simp: not_less intro: order_trans)
    qed
  qed
qed simp

end
