(* ===== verification/Edf_Scheduler.thy ===== *)
theory Edf_Scheduler
  imports Messages Std_Heap
begin

text \<open>
  relay/scheduler/edf_scheduler.\{h,cc\}: the bounded earliest-deadline-first queue of condition
  messages with freshness and admission control.

  The queue is an array of message slots, a heap of slot numbers, a stack of free slots and the
  slot lent to the caller by the last \<open>pop\<close>. An optional out-parameter is a flag that says
  whether the caller passed one, and the message written to it, if any, is part of the result.
  The scratch vector \<open>admission_jobs_\<close> is local to \<open>admissible\<close>. \<open>std::sort\<close> may order messages
  with equal keys either way; the model keeps their order.

  \<open>edf_key\<close> is the order the comparison \<open>later\<close> induces: deadline first, then the newer
  generation, then the sequence number; it is an instance of \<open>linorder\<close>, so the heap contract
  applies to it.
\<close>

section \<open>Definitions\<close>

datatype SubmitResult = SR_kAccepted | SR_kAcceptedAndEvicted | SR_kStale | SR_kDeadlineUnreachable
  | SR_kInvalid | SR_kFull

record AdmissionPolicy =
  ap_nanoseconds_per_nfe :: u64
  ap_reserve_ns :: u64

record ActiveLane =
  al_generation :: u64
  al_remaining_nfe :: u64

definition kMaxWorkers :: nat where "kMaxWorkers = 8"

record AdmissionContext =
  ac_now_ns :: u64
  ac_worker_count :: nat
  ac_active :: "ActiveLane list"

record SchedulerStats =
  ss_accepted :: u64
  ss_stale :: u64
  ss_unreachable :: u64
  ss_expired :: u64
  ss_evicted :: u64
  ss_full :: u64

record EdfScheduler =
  es_capacity :: nat
  es_newest_generation :: u64
  es_admission :: AdmissionPolicy
  es_storage :: "ConditionMessage list"
  es_heap :: "nat list"
  es_free_slots :: "nat list"
  es_borrowed :: "nat option"
  es_stats :: SchedulerStats

definition deadline_key :: "ConditionMessage \<Rightarrow> u64" where
  "deadline_key m = (if fcm_deadline_ns (cm_metadata m) = 0 then U64_MAX else fcm_deadline_ns (cm_metadata m))"

definition saturating_add :: "u64 \<Rightarrow> u64 \<Rightarrow> u64" where
  "saturating_add left right = (if left > U64_MAX - right then U64_MAX else left + right)"

definition saturating_multiply :: "u64 \<Rightarrow> u64 \<Rightarrow> u64" where
  "saturating_multiply left right =
     (if right \<noteq> 0 \<and> left > U64_MAX div right then U64_MAX else left * right)"

definition edf_create :: "nat \<Rightarrow> AdmissionPolicy \<Rightarrow> EdfScheduler" where
  "edf_create capacity policy =
     (let c = max capacity 1
      in \<lparr>es_capacity = c, es_newest_generation = 0, es_admission = policy,
          es_storage = replicate c default_condition, es_heap = [], es_free_slots = rev [0 ..< c],
          es_borrowed = None,
          es_stats = \<lparr>ss_accepted = 0, ss_stale = 0, ss_unreachable = 0, ss_expired = 0, ss_evicted = 0, ss_full = 0\<rparr>\<rparr>)"

definition edf_later :: "ConditionMessage \<Rightarrow> ConditionMessage \<Rightarrow> bool" where
  "edf_later left right \<longleftrightarrow>
     (let left_deadline = deadline_key left; right_deadline = deadline_key right
      in if left_deadline \<noteq> right_deadline then left_deadline > right_deadline
         else if fcm_generation (cm_metadata left) \<noteq> fcm_generation (cm_metadata right)
         then fcm_generation (cm_metadata left) < fcm_generation (cm_metadata right)
         else me_sequence (cm_envelope left) > me_sequence (cm_envelope right))"

definition edf_earlier :: "ConditionMessage \<Rightarrow> ConditionMessage \<Rightarrow> bool" where
  "edf_earlier left right = edf_later right left"

datatype edf_key = EdfKey (ek_deadline: u64) (ek_generation: u64) (ek_sequence: u64)

instantiation edf_key :: linorder
begin

definition less_edf_key :: "edf_key \<Rightarrow> edf_key \<Rightarrow> bool" where
  "a < b \<longleftrightarrow> ek_deadline a < ek_deadline b \<or>
     ek_deadline a = ek_deadline b \<and> (ek_generation b < ek_generation a \<or>
       ek_generation a = ek_generation b \<and> ek_sequence a < ek_sequence b)"

definition less_eq_edf_key :: "edf_key \<Rightarrow> edf_key \<Rightarrow> bool" where
  "(a :: edf_key) \<le> b \<longleftrightarrow> a < b \<or> a = b"

instance
proof
  fix x y z :: edf_key
  show "x < y \<longleftrightarrow> x \<le> y \<and> \<not> y \<le> x" by (auto simp: less_edf_key_def less_eq_edf_key_def)
  show "x \<le> x" by (simp add: less_eq_edf_key_def)
  show "x \<le> y \<Longrightarrow> y \<le> z \<Longrightarrow> x \<le> z" by (auto simp: less_edf_key_def less_eq_edf_key_def)
  show "x \<le> y \<Longrightarrow> y \<le> x \<Longrightarrow> x = y" by (auto simp: less_edf_key_def less_eq_edf_key_def)
  show "x \<le> y \<or> y \<le> x"
    by (cases x; cases y) (auto simp: less_edf_key_def less_eq_edf_key_def neq_iff)
qed

end

definition key_of :: "ConditionMessage \<Rightarrow> edf_key" where
  "key_of m = EdfKey (deadline_key m) (fcm_generation (cm_metadata m)) (me_sequence (cm_envelope m))"

text \<open>The comparisons the source passes to the heap algorithms.\<close>

definition slot_later :: "EdfScheduler \<Rightarrow> nat \<Rightarrow> nat \<Rightarrow> bool" where
  "slot_later s left right = edf_later (es_storage s ! left) (es_storage s ! right)"

definition slot_earlier :: "EdfScheduler \<Rightarrow> nat \<Rightarrow> nat \<Rightarrow> bool" where
  "slot_earlier s left right = edf_earlier (es_storage s ! left) (es_storage s ! right)"

definition edf_rebuild :: "EdfScheduler \<Rightarrow> EdfScheduler" where
  "edf_rebuild s = s\<lparr>es_heap := make_heap (slot_later s) (es_heap s)\<rparr>"

definition copy_into :: "nat \<Rightarrow> ConditionMessage \<Rightarrow> EdfScheduler \<Rightarrow> EdfScheduler" where
  "copy_into slot m s =
     (let n = clamp_dim (fcm_condition_dim (cm_metadata m)) kMaxConditionDim +
              clamp_dim (fcm_action_dim (cm_metadata m)) kMaxActionDim;
          old = es_storage s ! slot
      in s\<lparr>es_storage := (es_storage s)[slot := m\<lparr>cm_payload := take n (cm_payload m) @ drop n (cm_payload old)\<rparr>]\<rparr>)"

definition release_borrowed :: "EdfScheduler \<Rightarrow> EdfScheduler" where
  "release_borrowed s =
     (case es_borrowed s of None \<Rightarrow> s
      | Some slot \<Rightarrow> s\<lparr>es_free_slots := es_free_slots s @ [slot], es_borrowed := None\<rparr>)"

definition worst_slot :: "EdfScheduler \<Rightarrow> nat option" where
  "worst_slot s = max_element (slot_earlier s) (es_heap s)"

text \<open>The index of the first minimum of the first \<open>n\<close> entries.\<close>

definition min_lane :: "u64 list \<Rightarrow> nat \<Rightarrow> nat" where
  "min_lane av n = fold (\<lambda>i best. if av ! i < av ! best then i else best) [1 ..< n] 0"

fun admit_jobs :: "AdmissionPolicy \<Rightarrow> nat \<Rightarrow> u64 list \<Rightarrow> ConditionMessage list \<Rightarrow> bool" where
  "admit_jobs policy worker_count av [] = True"
| "admit_jobs policy worker_count av (job # jobs) =
     (let lane = min_lane av worker_count;
          duration = saturating_multiply (fcm_remaining_nfe (cm_metadata job)) (ap_nanoseconds_per_nfe policy);
          deadline = fcm_deadline_ns (cm_metadata job)
      in if av ! lane > deadline \<or> duration > deadline - av ! lane then False
         else let finish = av ! lane + duration
           in if ap_reserve_ns policy > deadline - finish then False
              else admit_jobs policy worker_count (av[lane := finish]) jobs)"

definition lane_available :: "AdmissionPolicy \<Rightarrow> AdmissionContext \<Rightarrow> u64 \<Rightarrow> nat \<Rightarrow> u64" where
  "lane_available policy context generation lane =
     (let active = ac_active context ! lane
      in if al_remaining_nfe active = 0 \<or> al_generation active < generation then ac_now_ns context
         else saturating_add (ac_now_ns context)
                (saturating_multiply (al_remaining_nfe active) (ap_nanoseconds_per_nfe policy)))"

definition available_lanes :: "AdmissionPolicy \<Rightarrow> AdmissionContext \<Rightarrow> u64 \<Rightarrow> nat \<Rightarrow> u64 list" where
  "available_lanes policy context generation worker_count =
     map (\<lambda>lane. if lane < worker_count then lane_available policy context generation lane
                 else ac_now_ns context) [0 ..< kMaxWorkers]"

definition displaced_slot :: "ConditionMessage \<Rightarrow> EdfScheduler \<Rightarrow> nat option" where
  "displaced_slot m s =
     (if length (es_heap s) \<ge> es_capacity s
      then case worst_slot s of
             None \<Rightarrow> None
           | Some w \<Rightarrow> if edf_earlier m (es_storage s ! w) then Some w else None
      else None)"

definition admission_jobs :: "ConditionMessage \<Rightarrow> EdfScheduler \<Rightarrow> ConditionMessage list" where
  "admission_jobs m s =
     sort_key key_of (m # map ((!) (es_storage s))
       (filter (\<lambda>slot. displaced_slot m s \<noteq> Some slot \<and>
          fcm_generation (cm_metadata (es_storage s ! slot)) \<ge> fcm_generation (cm_metadata m) \<and>
          fcm_deadline_ns (cm_metadata (es_storage s ! slot)) \<noteq> 0) (es_heap s)))"

definition admission_workers :: "AdmissionContext \<Rightarrow> nat" where
  "admission_workers context = min (max (ac_worker_count context) 1) kMaxWorkers"

definition edf_admissible :: "ConditionMessage \<Rightarrow> AdmissionContext \<Rightarrow> EdfScheduler \<Rightarrow> bool" where
  "edf_admissible m context s =
     (if ap_nanoseconds_per_nfe (es_admission s) = 0 \<or> ac_now_ns context = 0 \<or>
         fcm_deadline_ns (cm_metadata m) = 0 then True
      else if fcm_deadline_ns (cm_metadata m) \<le> ac_now_ns context then False
      else admit_jobs (es_admission s) (admission_workers context)
             (available_lanes (es_admission s) context (fcm_generation (cm_metadata m)) (admission_workers context))
             (admission_jobs m s))"

text \<open>The three ways \<open>submit\<close> changes the queue: dropping stale messages, filling a free slot, replacing the worst.\<close>

definition edf_purge :: "u64 \<Rightarrow> EdfScheduler \<Rightarrow> EdfScheduler" where
  "edf_purge generation s =
     (if generation > es_newest_generation s
      then
        let keep = (\<lambda>slot. fcm_generation (cm_metadata (es_storage s ! slot)) \<ge> generation)
        in edf_rebuild (s\<lparr>es_newest_generation := generation,
             es_heap := filter keep (es_heap s),
             es_free_slots := es_free_slots s @ filter (\<lambda>slot. \<not> keep slot) (es_heap s),
             es_stats := (es_stats s)\<lparr>ss_stale := ss_stale (es_stats s) +
               of_nat (length (es_heap s) - length (filter keep (es_heap s)))\<rparr>\<rparr>)
      else s)"

definition edf_enqueue :: "ConditionMessage \<Rightarrow> EdfScheduler \<Rightarrow> EdfScheduler" where
  "edf_enqueue m s =
     (let slot = last (es_free_slots s);
          s1 = copy_into slot m (s\<lparr>es_free_slots := butlast (es_free_slots s)\<rparr>);
          s2 = s1\<lparr>es_heap := push_heap (slot_later s1) (es_heap s1 @ [slot])\<rparr>
      in s2\<lparr>es_stats := (es_stats s2)\<lparr>ss_accepted := ss_accepted (es_stats s2) + 1\<rparr>\<rparr>)"

definition edf_evict :: "nat \<Rightarrow> ConditionMessage \<Rightarrow> EdfScheduler \<Rightarrow> EdfScheduler" where
  "edf_evict w m s =
     (let s1 = edf_rebuild (copy_into w m s)
      in s1\<lparr>es_stats := (es_stats s1)\<lparr>ss_accepted := ss_accepted (es_stats s1) + 1,
               ss_evicted := ss_evicted (es_stats s1) + 1\<rparr>\<rparr>)"

definition edf_submit ::
  "ConditionMessage \<Rightarrow> AdmissionContext \<Rightarrow> bool \<Rightarrow> EdfScheduler \<Rightarrow> SubmitResult \<times> ActionMessage option \<times> EdfScheduler" where
  "edf_submit m context wants_displaced s0 =
     (let s = release_borrowed s0; generation = fcm_generation (cm_metadata m)
      in if validate_condition m \<noteq> PR_kSuccess then (SR_kInvalid, None, s)
         else if generation < es_newest_generation s
         then (SR_kStale, None, s\<lparr>es_stats := (es_stats s)\<lparr>ss_stale := ss_stale (es_stats s) + 1\<rparr>\<rparr>)
         else if \<not> edf_admissible m context s
         then (SR_kDeadlineUnreachable, None,
               s\<lparr>es_stats := (es_stats s)\<lparr>ss_unreachable := ss_unreachable (es_stats s) + 1\<rparr>\<rparr>)
         else
           let s1 = edf_purge generation s;
               full = (SR_kFull, None, s1\<lparr>es_stats := (es_stats s1)\<lparr>ss_full := ss_full (es_stats s1) + 1\<rparr>\<rparr>)
           in if length (es_heap s1) < es_capacity s1 then (SR_kAccepted, None, edf_enqueue m s1)
              else
                case worst_slot s1 of
                  None \<Rightarrow> full
                | Some w \<Rightarrow>
                    if edf_earlier m (es_storage s1 ! w)
                    then (SR_kAcceptedAndEvicted,
                          if wants_displaced
                          then Some (make_rejected_action (es_storage s1 ! w) (ac_now_ns context) RelayAction_kRejectedCapacity)
                          else None,
                          edf_evict w m s1)
                    else full)"

function pop_loop :: "u64 \<Rightarrow> bool \<Rightarrow> EdfScheduler \<Rightarrow> ConditionMessage option \<times> ActionMessage option \<times> EdfScheduler" where
  "pop_loop now_ns wants_rejection s =
     (if es_heap s = [] then (None, None, s)
      else
        let h = pop_heap (slot_later s) (es_heap s);
            slot = last h;
            s1 = s\<lparr>es_heap := butlast h\<rparr>;
            m = es_storage s ! slot
        in if fcm_generation (cm_metadata m) < es_newest_generation s
           then pop_loop now_ns wants_rejection
                  (s1\<lparr>es_free_slots := es_free_slots s1 @ [slot],
                      es_stats := (es_stats s1)\<lparr>ss_stale := ss_stale (es_stats s1) + 1\<rparr>\<rparr>)
           else if fcm_deadline_ns (cm_metadata m) \<noteq> 0 \<and> fcm_deadline_ns (cm_metadata m) \<le> now_ns
           then
             let s2 = s1\<lparr>es_free_slots := es_free_slots s1 @ [slot],
                         es_stats := (es_stats s1)\<lparr>ss_expired := ss_expired (es_stats s1) + 1\<rparr>\<rparr>
             in if wants_rejection then (None, Some (make_rejected_action m now_ns RelayAction_kExpired), s2)
                else pop_loop now_ns wants_rejection s2
           else (Some m, None, s1\<lparr>es_borrowed := Some slot\<rparr>))"
  by pat_completeness auto
termination
  by (relation "measure (\<lambda>(_, _, s). length (es_heap s))") (auto simp: std_heap.pop_length)

declare pop_loop.simps [simp del]

definition edf_pop :: "u64 \<Rightarrow> bool \<Rightarrow> EdfScheduler \<Rightarrow> ConditionMessage option \<times> ActionMessage option \<times> EdfScheduler" where
  "edf_pop now_ns wants_rejection s = pop_loop now_ns wants_rejection (release_borrowed s)"

section \<open>Invariant and abstraction\<close>

text \<open>The queue as a multiset of messages.\<close>

definition queued :: "EdfScheduler \<Rightarrow> ConditionMessage multiset" where
  "queued s = image_mset ((!) (es_storage s)) (mset (es_heap s))"

definition slot_key :: "EdfScheduler \<Rightarrow> nat \<Rightarrow> edf_key" where
  "slot_key s slot = key_of (es_storage s ! slot)"

text \<open>
  Every slot is queued, free or lent, exactly once; the heap is ordered by the key; every queued
  message is valid and of the newest generation.
\<close>

definition edf_inv :: "EdfScheduler \<Rightarrow> bool" where
  "edf_inv s \<longleftrightarrow> 0 < es_capacity s \<and> length (es_storage s) = es_capacity s \<and>
     mset (es_heap s) + mset (es_free_slots s) + (case es_borrowed s of None \<Rightarrow> {#} | Some b \<Rightarrow> {#b#}) =
       mset [0 ..< es_capacity s] \<and>
     is_heap_by (slot_key s) (es_heap s) \<and>
     (\<forall>slot \<in> set (es_heap s). validate_condition (es_storage s ! slot) = PR_kSuccess \<and>
        fcm_generation (cm_metadata (es_storage s ! slot)) = es_newest_generation s)"

text \<open>What of a message counts: everything but the unused tail of the payload array.\<close>

definition same_message :: "ConditionMessage \<Rightarrow> ConditionMessage \<Rightarrow> bool" where
  "same_message a b \<longleftrightarrow> cm_envelope a = cm_envelope b \<and> cm_metadata a = cm_metadata b \<and>
     condition_values a = condition_values b \<and> noise_values a = noise_values b"

text \<open>What \<open>pop\<close> promises: \<open>E\<close> are the expired messages it dropped on the way.\<close>

definition expired :: "u64 \<Rightarrow> ConditionMessage \<Rightarrow> bool" where
  "expired now m \<longleftrightarrow> fcm_deadline_ns (cm_metadata m) \<noteq> 0 \<and> fcm_deadline_ns (cm_metadata m) \<le> now"

definition pop_promise ::
  "u64 \<Rightarrow> EdfScheduler \<Rightarrow> ConditionMessage option \<times> ActionMessage option \<times> EdfScheduler \<Rightarrow> bool" where
  "pop_promise now s r \<longleftrightarrow>
     (case r of
        (Some m, rej, s') \<Rightarrow>
          rej = None \<and> \<not> expired now m \<and> (\<forall>x \<in># queued s'. key_of m \<le> key_of x) \<and>
          (\<exists>E. (\<forall>e \<in># E. expired now e) \<and> queued s = E + add_mset m (queued s'))
      | (None, None, s') \<Rightarrow> queued s' = {#} \<and> (\<forall>e \<in># queued s. expired now e)
      | (None, Some a, s') \<Rightarrow>
          (\<exists>e. expired now e \<and> a = make_rejected_action e now RelayAction_kExpired \<and>
             queued s = add_mset e (queued s') \<and> (\<forall>x \<in># queued s'. key_of e \<le> key_of x)))"

text \<open>What \<open>submit\<close> promises on each of its outcomes; \<open>Q\<close> is what is left of the queue without stale messages.\<close>

definition submit_promise ::
  "ConditionMessage \<Rightarrow> AdmissionContext \<Rightarrow> bool \<Rightarrow> EdfScheduler \<Rightarrow> SubmitResult \<times> ActionMessage option \<times> EdfScheduler \<Rightarrow> bool" where
  "submit_promise m c d s r \<longleftrightarrow>
     (let (result, displaced, s') = r; generation = fcm_generation (cm_metadata m);
          Q = filter_mset (\<lambda>x. generation \<le> fcm_generation (cm_metadata x)) (queued s)
      in case result of
           SR_kInvalid \<Rightarrow> validate_condition m \<noteq> PR_kSuccess \<and> queued s' = queued s
         | SR_kStale \<Rightarrow> generation < es_newest_generation s \<and> queued s' = queued s
         | SR_kDeadlineUnreachable \<Rightarrow> \<not> edf_admissible m c (release_borrowed s) \<and> queued s' = queued s
         | SR_kAccepted \<Rightarrow>
             size Q < es_capacity s \<and> es_newest_generation s' = generation \<and>
             (\<exists>m'. same_message m' m \<and> queued s' = add_mset m' Q)
         | SR_kAcceptedAndEvicted \<Rightarrow>
             size Q = es_capacity s \<and> es_newest_generation s' = generation \<and>
             (\<exists>m' worst. same_message m' m \<and> worst \<in># Q \<and> (\<forall>x \<in># Q. key_of x \<le> key_of worst) \<and>
                key_of m < key_of worst \<and> add_mset worst (queued s') = add_mset m' Q \<and>
                displaced = (if d then Some (make_rejected_action worst (ac_now_ns c) RelayAction_kRejectedCapacity) else None))
         | SR_kFull \<Rightarrow>
             size Q = es_capacity s \<and> es_newest_generation s' = generation \<and> queued s' = Q \<and>
             (\<forall>x \<in># Q. key_of x \<le> key_of m))"

text \<open>The clients of the queue: any sequence of submissions and removals, at any time.\<close>

inductive edf_step :: "EdfScheduler \<Rightarrow> EdfScheduler \<Rightarrow> bool" where
  "edf_step s (snd (snd (edf_submit m c d s)))"
| "edf_step s (snd (snd (edf_pop now w s)))"

definition edf_init :: "EdfScheduler \<Rightarrow> bool" where
  "edf_init s \<longleftrightarrow> (\<exists>capacity policy. s = edf_create capacity policy)"

text \<open>
  The exact admission test: \<open>L\<close> are the times the workers become free, each job goes to the
  worker that is free first, and each finishes the reserve before its deadline. Unbounded integers.
\<close>

fun meets_deadlines :: "nat \<Rightarrow> nat multiset \<Rightarrow> (nat \<times> nat) list \<Rightarrow> bool" where
  "meets_deadlines reserve L [] = True"
| "meets_deadlines reserve L ((duration, deadline) # jobs) =
     (let start = Min (set_mset L)
      in start + duration + reserve \<le> deadline \<and>
         meets_deadlines reserve (add_mset (start + duration) (L - {#start#})) jobs)"


section \<open>Lemmas\<close>

lemma edf_later_key: "edf_later a b \<longleftrightarrow> key_of b < key_of a"
  by (auto simp: edf_later_def key_of_def less_edf_key_def Let_def)

lemma slot_later_key: "slot_later s x y \<longleftrightarrow> slot_key s y < slot_key s x"
  by (simp add: slot_later_def slot_key_def edf_later_key)

lemma slot_earlier_key: "slot_earlier s x y \<longleftrightarrow> slot_key s x < slot_key s y"
  by (simp add: slot_earlier_def slot_key_def edf_earlier_def edf_later_key)

lemma slot_key_upd [simp]:
  "slot_key (s\<lparr>es_heap := h\<rparr>) = slot_key s" "slot_key (s\<lparr>es_stats := st\<rparr>) = slot_key s"
  "slot_key (s\<lparr>es_free_slots := f\<rparr>) = slot_key s" "slot_key (s\<lparr>es_borrowed := b\<rparr>) = slot_key s"
  "slot_key (s\<lparr>es_newest_generation := g\<rparr>) = slot_key s"
  by (simp_all add: slot_key_def fun_eq_iff)

lemma key_of_copy [simp]: "key_of (m\<lparr>cm_payload := p\<rparr>) = key_of m"
  by (simp add: key_of_def deadline_key_def)

lemma validate_copy [simp]: "validate_condition (m\<lparr>cm_payload := p\<rparr>) = validate_condition m"
  by (simp add: validate_condition_def wire_size_condition_def Let_def)

lemma same_message_copy:
  assumes "length (cm_payload m) = kMaxConditionDim + kMaxActionDim"
    and "n = clamp_dim (fcm_condition_dim (cm_metadata m)) kMaxConditionDim + clamp_dim (fcm_action_dim (cm_metadata m)) kMaxActionDim"
  shows "same_message (m\<lparr>cm_payload := take n (cm_payload m) @ rest\<rparr>) m"
proof -
  let ?c = "clamp_dim (fcm_condition_dim (cm_metadata m)) kMaxConditionDim"
  let ?a = "clamp_dim (fcm_action_dim (cm_metadata m)) kMaxActionDim"
  have "?c + ?a \<le> length (cm_payload m)" using assms(1) by (simp add: clamp_dim_def add_mono)
  then show ?thesis
    using assms(2) by (auto simp: same_message_def condition_values_def noise_values_def Let_def drop_take)
qed

lemma borrowed_release: "es_borrowed (release_borrowed s) = None"
  by (simp add: release_borrowed_def split: option.splits)

lemma release_borrowed_sel [simp]:
  "es_heap (release_borrowed s) = es_heap s" "es_storage (release_borrowed s) = es_storage s"
  "es_capacity (release_borrowed s) = es_capacity s" "es_newest_generation (release_borrowed s) = es_newest_generation s"
  "es_admission (release_borrowed s) = es_admission s"
  by (simp_all add: release_borrowed_def split: option.splits)

lemma queued_release [simp]: "queued (release_borrowed s) = queued s"
  by (simp add: queued_def)

lemma release_borrowed_inv: "edf_inv s \<Longrightarrow> edf_inv (release_borrowed s)"
  by (cases "es_borrowed s") (simp_all add: edf_inv_def release_borrowed_def)

lemma edf_inv_stats: "edf_inv (s\<lparr>es_stats := st\<rparr>) = edf_inv s"
  by (simp add: edf_inv_def)

lemma edf_inv_slots:
  assumes "edf_inv s"
  shows "set (es_heap s) \<subseteq> {0 ..< es_capacity s}" "set (es_free_slots s) \<subseteq> {0 ..< es_capacity s}"
    "distinct (es_heap s)" "set (es_heap s) \<inter> set (es_free_slots s) = {}" "length (es_heap s) \<le> es_capacity s"
    "es_borrowed s = None \<Longrightarrow> length (es_heap s) + length (es_free_slots s) = es_capacity s"
proof -
  let ?b = "case es_borrowed s of None \<Rightarrow> {#} | Some b \<Rightarrow> {#b#}"
  have m: "mset (es_heap s) + mset (es_free_slots s) + ?b = mset [0 ..< es_capacity s]"
    using assms by (simp add: edf_inv_def)
  then have sub: "mset (es_heap s @ es_free_slots s) \<subseteq># mset [0 ..< es_capacity s]"
    by (metis mset_append mset_subset_eq_add_left)
  then have d: "distinct (es_heap s @ es_free_slots s)"
    using distinct_mset_subset [OF sub] by simp
  show "distinct (es_heap s)" "set (es_heap s) \<inter> set (es_free_slots s) = {}" using d by auto
  have "set (es_heap s @ es_free_slots s) \<subseteq> set [0 ..< es_capacity s]"
    using set_mset_mono [OF sub] by (simp only: set_mset_mset)
  then show "set (es_heap s) \<subseteq> {0 ..< es_capacity s}" "set (es_free_slots s) \<subseteq> {0 ..< es_capacity s}" by auto
  have "size (mset (es_heap s) + mset (es_free_slots s) + ?b) = es_capacity s" by (simp only: m) simp
  then show "length (es_heap s) \<le> es_capacity s"
    "es_borrowed s = None \<Longrightarrow> length (es_heap s) + length (es_free_slots s) = es_capacity s" by simp_all
qed

lemma is_heap_by_cong:
  assumes "\<And>x. x \<in> set xs \<Longrightarrow> k x = k' x"
  shows "is_heap_by k xs = is_heap_by k' xs"
proof -
  have "hpar j < length xs" if "0 < j" "j < length xs" for j using hpar_less [OF that(1)] that(2) by simp
  with assms show ?thesis by (auto simp: is_heap_by_def)
qed

lemma edf_rebuild_inv:
  assumes "0 < es_capacity s" "length (es_storage s) = es_capacity s"
    and "mset (es_heap s) + mset (es_free_slots s) + (case es_borrowed s of None \<Rightarrow> {#} | Some b \<Rightarrow> {#b#}) = mset [0 ..< es_capacity s]"
    and "\<forall>slot \<in> set (es_heap s). validate_condition (es_storage s ! slot) = PR_kSuccess \<and>
        fcm_generation (cm_metadata (es_storage s ! slot)) = es_newest_generation s"
  shows "edf_inv (edf_rebuild s)" "queued (edf_rebuild s) = queued s"
proof -
  show "queued (edf_rebuild s) = queued s"
    by (simp add: queued_def edf_rebuild_def std_heap.make_mset)
  show "edf_inv (edf_rebuild s)"
    using assms std_heap.make_heap [of "slot_later s" "slot_key s" "es_heap s", OF slot_later_key]
    by (simp add: edf_inv_def edf_rebuild_def std_heap.make_mset std_heap.make_set)
qed

lemma edf_purge_inv:
  assumes inv: "edf_inv s" and g: "es_newest_generation s \<le> g"
  shows "edf_inv (edf_purge g s)" "es_newest_generation (edf_purge g s) = g"
    "es_borrowed (edf_purge g s) = es_borrowed s" "es_capacity (edf_purge g s) = es_capacity s"
    "queued (edf_purge g s) = filter_mset (\<lambda>m. g \<le> fcm_generation (cm_metadata m)) (queued s)"
proof -
  let ?keep = "\<lambda>slot. g \<le> fcm_generation (cm_metadata (es_storage s ! slot))"
  have gen: "\<forall>slot \<in> set (es_heap s). fcm_generation (cm_metadata (es_storage s ! slot)) = es_newest_generation s"
    using inv by (simp add: edf_inv_def)
  show "es_newest_generation (edf_purge g s) = g" using g by (auto simp: edf_purge_def edf_rebuild_def Let_def)
  show "es_borrowed (edf_purge g s) = es_borrowed s" "es_capacity (edf_purge g s) = es_capacity s"
    by (simp_all add: edf_purge_def edf_rebuild_def Let_def)
  let ?s = "s\<lparr>es_newest_generation := g, es_heap := filter ?keep (es_heap s),
      es_free_slots := es_free_slots s @ filter (\<lambda>slot. \<not> ?keep slot) (es_heap s),
      es_stats := (es_stats s)\<lparr>ss_stale := ss_stale (es_stats s) + of_nat (length (es_heap s) - length (filter ?keep (es_heap s)))\<rparr>\<rparr>"
  have "edf_inv (edf_purge g s) \<and> queued (edf_purge g s) = filter_mset (\<lambda>m. g \<le> fcm_generation (cm_metadata m)) (queued s)"
  proof (cases "g > es_newest_generation s")
    case True
    have "mset (filter ?keep (es_heap s)) + mset (filter (\<lambda>x. \<not> ?keep x) (es_heap s)) = mset (es_heap s)"
      by (simp add: multiset_partition [symmetric])
    then have "edf_inv (edf_rebuild ?s)" "queued (edf_rebuild ?s) = queued ?s"
      using inv gen True by (intro edf_rebuild_inv; force simp: edf_inv_def ac_simps split: option.splits)+
    moreover have "queued ?s = filter_mset (\<lambda>m. g \<le> fcm_generation (cm_metadata m)) (queued s)"
      by (simp add: queued_def filter_mset_image_mset)
    ultimately show ?thesis using True by (simp add: edf_purge_def Let_def)
  next
    case False
    then have "g = es_newest_generation s" using g by simp
    then have "filter ?keep (es_heap s) = es_heap s" using gen by (simp add: filter_id_conv)
    then have "filter_mset (\<lambda>m. g \<le> fcm_generation (cm_metadata m)) (queued s) = queued s"
      by (simp add: queued_def filter_mset_image_mset mset_filter [symmetric] del: mset_filter)
    with inv False show ?thesis by (simp add: edf_purge_def)
  qed
  then show "edf_inv (edf_purge g s)"
    "queued (edf_purge g s) = filter_mset (\<lambda>m. g \<le> fcm_generation (cm_metadata m)) (queued s)" by simp_all
qed

lemma copy_into_sel [simp]:
  "es_heap (copy_into slot m s) = es_heap s" "es_free_slots (copy_into slot m s) = es_free_slots s"
  "es_capacity (copy_into slot m s) = es_capacity s" "es_borrowed (copy_into slot m s) = es_borrowed s"
  "es_newest_generation (copy_into slot m s) = es_newest_generation s"
  "length (es_storage (copy_into slot m s)) = length (es_storage s)"
  by (simp_all add: copy_into_def Let_def)

lemma copy_into_other: "x \<noteq> slot \<Longrightarrow> es_storage (copy_into slot m s) ! x = es_storage s ! x"
  by (simp add: copy_into_def Let_def)

lemma copy_into_same:
  assumes "slot < length (es_storage s)"
  shows "validate_condition (es_storage (copy_into slot m s) ! slot) = validate_condition m"
    "cm_metadata (es_storage (copy_into slot m s) ! slot) = cm_metadata m"
    "key_of (es_storage (copy_into slot m s) ! slot) = key_of m"
    "length (cm_payload m) = kMaxConditionDim + kMaxActionDim \<Longrightarrow> same_message (es_storage (copy_into slot m s) ! slot) m"
  using assms same_message_copy [of m, OF _ refl] by (simp_all add: copy_into_def Let_def)

lemma edf_enqueue_inv:
  assumes inv: "edf_inv s" and room: "length (es_heap s) < es_capacity s" "es_borrowed s = None"
    and m: "validate_condition m = PR_kSuccess" "fcm_generation (cm_metadata m) = es_newest_generation s"
  shows "edf_inv (edf_enqueue m s)" "es_borrowed (edf_enqueue m s) = None"
    "es_newest_generation (edf_enqueue m s) = es_newest_generation s" "es_capacity (edf_enqueue m s) = es_capacity s"
    "\<exists>m'. queued (edf_enqueue m s) = add_mset m' (queued s) \<and> cm_metadata m' = cm_metadata m \<and>
       (length (cm_payload m) = kMaxConditionDim + kMaxActionDim \<longrightarrow> same_message m' m)"
proof -
  let ?f = "es_free_slots s" let ?slot = "last ?f"
  let ?s1 = "copy_into ?slot m (s\<lparr>es_free_slots := butlast ?f\<rparr>)"
  have ne: "?f \<noteq> []" using edf_inv_slots(6) [OF inv room(2)] room(1) by auto
  then have sf: "?slot \<in> set ?f" by simp
  have slot: "?slot < length (es_storage s)" "?slot \<notin> set (es_heap s)"
    using edf_inv_slots(2,4) [OF inv] sf inv by (auto simp: edf_inv_def)
  note same = copy_into_same [of ?slot "s\<lparr>es_free_slots := butlast ?f\<rparr>" m]
  have other: "es_storage ?s1 ! x = es_storage s ! x" if "x \<in> set (es_heap s)" for x
    using copy_into_other [of x ?slot m] that slot(2) by (metis EdfScheduler.select_convs(4) EdfScheduler.surjective EdfScheduler.update_convs(6))
  have "is_heap_by (slot_key ?s1) (es_heap s) = is_heap_by (slot_key s) (es_heap s)"
    by (rule is_heap_by_cong) (simp add: slot_key_def other)
  then have heap: "is_heap_by (slot_key ?s1) (push_heap (slot_later ?s1) (es_heap s @ [?slot]))"
    using std_heap.push_heap [of "slot_later ?s1" "slot_key ?s1", OF slot_later_key] inv by (simp add: edf_inv_def)
  have part: "mset (es_heap s) + add_mset ?slot (mset (butlast ?f)) = mset [0 ..< es_capacity s]"
    using inv room(2) last_butlast_mset [OF ne] by (simp add: edf_inv_def)
  have enq: "edf_enqueue m s = ?s1\<lparr>es_heap := push_heap (slot_later ?s1) (es_heap s @ [?slot]),
      es_stats := (es_stats ?s1)\<lparr>ss_accepted := ss_accepted (es_stats ?s1) + 1\<rparr>\<rparr>"
    by (simp add: edf_enqueue_def Let_def)
  show "es_borrowed (edf_enqueue m s) = None" "es_newest_generation (edf_enqueue m s) = es_newest_generation s"
    "es_capacity (edf_enqueue m s) = es_capacity s" by (simp_all add: enq room(2))
  have valid: "validate_condition (es_storage ?s1 ! x) = PR_kSuccess \<and>
      fcm_generation (cm_metadata (es_storage ?s1 ! x)) = es_newest_generation s" if "x = ?slot \<or> x \<in> set (es_heap s)" for x
    using that inv m same(1,2) slot(1) other by (auto simp: edf_inv_def)
  show "edf_inv (edf_enqueue m s)"
    unfolding edf_inv_def enq
    using inv heap part valid room(2)
    by (auto simp: edf_inv_def std_heap.push_mset std_heap.push_set)
  have img: "image_mset ((!) (es_storage ?s1)) (mset (es_heap s)) = queued s"
    unfolding queued_def by (rule image_mset_cong) (simp add: other)
  have "queued (edf_enqueue m s) = image_mset ((!) (es_storage ?s1)) (mset (es_heap s @ [?slot]))"
    by (simp add: queued_def enq std_heap.push_mset)
  then have "queued (edf_enqueue m s) = add_mset (es_storage ?s1 ! ?slot) (queued s)" by (simp add: img)
  then show "\<exists>m'. queued (edf_enqueue m s) = add_mset m' (queued s) \<and> cm_metadata m' = cm_metadata m \<and>
       (length (cm_payload m) = kMaxConditionDim + kMaxActionDim \<longrightarrow> same_message m' m)"
    using same(2,4) slot(1) by auto
qed

lemma edf_evict_inv:
  assumes inv: "edf_inv s" and w: "w \<in> set (es_heap s)"
    and m: "validate_condition m = PR_kSuccess" "fcm_generation (cm_metadata m) = es_newest_generation s"
  shows "edf_inv (edf_evict w m s)" "es_borrowed (edf_evict w m s) = es_borrowed s"
    "es_newest_generation (edf_evict w m s) = es_newest_generation s" "es_capacity (edf_evict w m s) = es_capacity s"
    "\<exists>m'. add_mset (es_storage s ! w) (queued (edf_evict w m s)) = add_mset m' (queued s) \<and>
       cm_metadata m' = cm_metadata m \<and> (length (cm_payload m) = kMaxConditionDim + kMaxActionDim \<longrightarrow> same_message m' m)"
proof -
  let ?s1 = "copy_into w m s"
  have wl: "w < length (es_storage s)" using edf_inv_slots(1) [OF inv] w inv by (auto simp: edf_inv_def)
  note same = copy_into_same [OF wl, of m]
  have valid: "\<forall>x \<in> set (es_heap ?s1). validate_condition (es_storage ?s1 ! x) = PR_kSuccess \<and>
      fcm_generation (cm_metadata (es_storage ?s1 ! x)) = es_newest_generation ?s1"
  proof
    fix x assume "x \<in> set (es_heap ?s1)"
    then show "validate_condition (es_storage ?s1 ! x) = PR_kSuccess \<and>
      fcm_generation (cm_metadata (es_storage ?s1 ! x)) = es_newest_generation ?s1"
      using inv m same(1,2) copy_into_other [of x w m s] by (cases "x = w") (auto simp: edf_inv_def)
  qed
  have "edf_inv (edf_rebuild ?s1)" and q: "queued (edf_rebuild ?s1) = queued ?s1"
    using inv valid by (intro edf_rebuild_inv; simp add: edf_inv_def)+
  then show "edf_inv (edf_evict w m s)" by (simp add: edf_evict_def Let_def edf_inv_stats)
  show "es_borrowed (edf_evict w m s) = es_borrowed s" "es_newest_generation (edf_evict w m s) = es_newest_generation s"
    "es_capacity (edf_evict w m s) = es_capacity s" by (simp_all add: edf_evict_def Let_def edf_rebuild_def)
  obtain H where H: "mset (es_heap s) = add_mset w H" using w by (metis mset_add set_mset_mset)
  have "w \<notin># H"
  proof
    assume "w \<in># H"
    then have "2 \<le> count (mset (es_heap s)) w" by (simp add: H Suc_le_eq)
    with edf_inv_slots(3) [OF inv] show False by (simp add: distinct_count_atmost_1 split: if_splits)
  qed
  then have "image_mset ((!) (es_storage ?s1)) H = image_mset ((!) (es_storage s)) H"
    by (intro image_mset_cong) (metis copy_into_other)
  then have "queued ?s1 = add_mset (es_storage ?s1 ! w) (image_mset ((!) (es_storage s)) H)"
    "queued s = add_mset (es_storage s ! w) (image_mset ((!) (es_storage s)) H)"
    by (simp_all add: queued_def H)
  moreover have "queued (edf_evict w m s) = queued ?s1"
    using q by (simp add: edf_evict_def Let_def queued_def)
  ultimately show "\<exists>m'. add_mset (es_storage s ! w) (queued (edf_evict w m s)) = add_mset m' (queued s) \<and>
       cm_metadata m' = cm_metadata m \<and> (length (cm_payload m) = kMaxConditionDim + kMaxActionDim \<longrightarrow> same_message m' m)"
    using same(2,4) by (intro exI [of _ "es_storage ?s1 ! w"]) (simp add: add_mset_commute)
qed

lemma edf_submit_inv:
  assumes inv: "edf_inv s"
  shows "edf_inv (snd (snd (edf_submit m c d s)))"
proof -
  let ?s = "release_borrowed s" let ?g = "fcm_generation (cm_metadata m)" let ?s1 = "edf_purge ?g ?s"
  have r: "edf_inv ?s" "es_borrowed ?s = None" using release_borrowed_inv [OF inv] borrowed_release by simp_all
  show ?thesis
  proof (cases "validate_condition m \<noteq> PR_kSuccess \<or> ?g < es_newest_generation ?s \<or> \<not> edf_admissible m c ?s")
    case True
    then show ?thesis using r(1) by (auto simp: edf_submit_def Let_def edf_inv_stats)
  next
    case False
    then have v: "validate_condition m = PR_kSuccess" "es_newest_generation ?s \<le> ?g" by auto
    note p = edf_purge_inv [OF r(1) v(2)]
    have b: "es_borrowed ?s1 = None" using p(3) r(2) by simp
    have enq: "edf_inv (edf_enqueue m ?s1)" if "length (es_heap ?s1) < es_capacity ?s1"
      using edf_enqueue_inv(1) [OF p(1) that b v(1)] p(2) by simp
    have ev: "edf_inv (edf_evict w m ?s1)" if "worst_slot ?s1 = Some w" for w
    proof -
      have "w \<in> set (es_heap ?s1)"
        using max_element_Some [of "slot_earlier ?s1" "slot_key ?s1", OF slot_earlier_key] that by (simp add: worst_slot_def)
      then show ?thesis using edf_evict_inv(1) [OF p(1) _ v(1)] p(2) by simp
    qed
    show ?thesis
      using False enq ev p(1) by (auto simp: edf_submit_def Let_def edf_inv_stats split: option.splits)
  qed
qed

lemma edf_create_inv: "edf_inv (edf_create capacity policy)" "queued (edf_create capacity policy) = {#}"
  by (simp_all add: edf_inv_def edf_create_def Let_def queued_def std_heap.heap_Nil max_def)

lemma edf_create_sel:
  "es_heap (edf_create capacity policy) = []" "es_admission (edf_create capacity policy) = policy"
  by (simp_all add: edf_create_def Let_def)

text \<open>Taking the front slot out of the heap.\<close>

lemma edf_front:
  assumes inv: "edf_inv s" and ne: "es_heap s \<noteq> []"
    and h: "h = pop_heap (slot_later s) (es_heap s)"
  shows "edf_inv (s\<lparr>es_heap := butlast h, es_free_slots := es_free_slots s @ [last h], es_stats := st\<rparr>)"
    "es_borrowed s = None \<Longrightarrow> edf_inv (s\<lparr>es_heap := butlast h, es_borrowed := Some (last h)\<rparr>)"
    "queued s = add_mset (es_storage s ! last h) (queued (s\<lparr>es_heap := butlast h\<rparr>))"
    "\<forall>x \<in># queued (s\<lparr>es_heap := butlast h\<rparr>). key_of (es_storage s ! last h) \<le> key_of x"
    "fcm_generation (cm_metadata (es_storage s ! last h)) = es_newest_generation s"
proof -
  have hp: "is_heap_by (slot_key s) (es_heap s)" using inv by (simp add: edf_inv_def)
  note split = std_heap.pop_split [of "slot_later s" "slot_key s" "es_heap s", OF slot_later_key hp ne, folded h]
  have sets: "set (es_heap s) = insert (last h) (set (butlast h))"
    using arg_cong [OF split(1), of set_mset] by simp
  show "edf_inv (s\<lparr>es_heap := butlast h, es_free_slots := es_free_slots s @ [last h], es_stats := st\<rparr>)"
    using inv split(1,3) sets by (simp add: edf_inv_def)
  show "edf_inv (s\<lparr>es_heap := butlast h, es_borrowed := Some (last h)\<rparr>)" if "es_borrowed s = None"
    using inv split(1,3) sets that by (simp add: edf_inv_def)
  show "queued s = add_mset (es_storage s ! last h) (queued (s\<lparr>es_heap := butlast h\<rparr>))"
    by (simp add: queued_def split(1))
  show "\<forall>x \<in># queued (s\<lparr>es_heap := butlast h\<rparr>). key_of (es_storage s ! last h) \<le> key_of x"
    using split(2) sets by (auto simp: queued_def slot_key_def)
  show "fcm_generation (cm_metadata (es_storage s ! last h)) = es_newest_generation s"
    using inv sets by (simp add: edf_inv_def)
qed

lemma queued_upd [simp]:
  "queued (s\<lparr>es_free_slots := f\<rparr>) = queued s" "queued (s\<lparr>es_borrowed := b\<rparr>) = queued s"
  "queued (s\<lparr>es_stats := st\<rparr>) = queued s"
  by (simp_all add: queued_def)

lemma pop_promise_skip:
  assumes "expired now e" "queued s = add_mset e (queued s1)" "pop_promise now s1 r"
    and "fst r = None \<longrightarrow> fst (snd r) = None"
  shows "pop_promise now s r"
proof -
  obtain out rej s' where r: "r = (out, rej, s')" by (cases r) auto
  show ?thesis
  proof (cases out)
    case None
    with assms r show ?thesis by (simp add: pop_promise_def)
  next
    case (Some m)
    with assms(3) r obtain E where "\<forall>e \<in># E. expired now e" "queued s1 = E + add_mset m (queued s')"
      by (auto simp: pop_promise_def)
    with assms(1,2) have "\<forall>e \<in># add_mset e E. expired now e" "queued s = add_mset e E + add_mset m (queued s')"
      by auto
    with assms(3) r Some show ?thesis by (auto simp: pop_promise_def)
  qed
qed

lemma pop_loop_ok:
  assumes "edf_inv s" "es_borrowed s = None"
  shows "edf_inv (snd (snd (pop_loop now w s))) \<and> pop_promise now s (pop_loop now w s) \<and>
    (\<not> w \<longrightarrow> fst (snd (pop_loop now w s)) = None)"
  using assms
proof (induction now w s rule: pop_loop.induct)
  case (1 now w s)
  show ?case
  proof (cases "es_heap s = []")
    case True
    then have run: "pop_loop now w s = (None, None, s)" by (simp add: pop_loop.simps [of now w s])
    show ?thesis unfolding run using True "1.prems" by (simp add: pop_promise_def queued_def)
  next
    case False
    define h where h: "h = pop_heap (slot_later s) (es_heap s)"
    let ?m = "es_storage s ! last h"
    note f = edf_front [OF "1.prems"(1) False h]
    have stale: "\<not> fcm_generation (cm_metadata ?m) < es_newest_generation s" using f(5) by simp
    define s2 where s2: "s2 = s\<lparr>es_heap := butlast h, es_free_slots := es_free_slots s @ [last h],
      es_stats := (es_stats s)\<lparr>ss_expired := ss_expired (es_stats s) + 1\<rparr>\<rparr>"
    have i2: "edf_inv s2" "es_borrowed s2 = None" "queued s = add_mset ?m (queued s2)"
      "queued s2 = queued (s\<lparr>es_heap := butlast h\<rparr>)"
      using f(1,3) "1.prems"(2) by (simp_all add: s2)
    have run: "pop_loop now w s =
      (if expired now ?m
       then if w then (None, Some (make_rejected_action ?m now RelayAction_kExpired), s2) else pop_loop now w s2
       else (Some ?m, None, s\<lparr>es_heap := butlast h, es_borrowed := Some (last h)\<rparr>))"
      using False stale by (simp add: pop_loop.simps [of now w s] Let_def h [symmetric] s2 expired_def)
    show ?thesis
    proof (cases "expired now ?m")
      case e: True
      show ?thesis
      proof (cases w)
        case True
        with e run i2 f(4) show ?thesis by (auto simp: pop_promise_def)
      next
        case False
        have "edf_inv (snd (snd (pop_loop now w s2))) \<and> pop_promise now s2 (pop_loop now w s2) \<and>
          (\<not> w \<longrightarrow> fst (snd (pop_loop now w s2)) = None)"
          by (rule "1.IH"(2) [OF \<open>es_heap s \<noteq> []\<close> h refl refl refl])
            (use stale e False i2 in \<open>simp_all add: expired_def s2\<close>)
        with False e run pop_promise_skip [OF e i2(3)] show ?thesis by auto
      qed
    next
      case ne: False
      with run f(2) "1.prems"(2) have "edf_inv (snd (snd (pop_loop now w s)))" by simp
      moreover have "\<exists>E. (\<forall>e \<in># E. expired now e) \<and>
          queued s = E + add_mset ?m (queued (s\<lparr>es_heap := butlast h, es_borrowed := Some (last h)\<rparr>))"
        using f(3) by (intro exI [of _ "{#}"]) simp
      ultimately show ?thesis unfolding run using ne f(4) by (simp add: pop_promise_def)
    qed
  qed
qed

lemma edf_pop_ok:
  assumes "edf_inv s"
  shows "edf_inv (snd (snd (edf_pop now w s)))" "pop_promise now s (edf_pop now w s)"
    "\<not> w \<Longrightarrow> fst (snd (edf_pop now w s)) = None"
  using pop_loop_ok [OF release_borrowed_inv [OF assms] borrowed_release, of now w]
  unfolding edf_pop_def pop_promise_def queued_release by simp_all

lemma edf_submit_ok:
  assumes inv: "edf_inv s" and pl: "length (cm_payload m) = kMaxConditionDim + kMaxActionDim"
  shows "submit_promise m c d s (edf_submit m c d s)"
proof -
  let ?s = "release_borrowed s" let ?g = "fcm_generation (cm_metadata m)" let ?s1 = "edf_purge ?g ?s"
  let ?Q = "filter_mset (\<lambda>x. ?g \<le> fcm_generation (cm_metadata x)) (queued s)"
  have r: "edf_inv ?s" "es_borrowed ?s = None" using release_borrowed_inv [OF inv] borrowed_release by simp_all
  show ?thesis
  proof (cases "validate_condition m \<noteq> PR_kSuccess \<or> ?g < es_newest_generation ?s \<or> \<not> edf_admissible m c ?s")
    case True
    then show ?thesis by (auto simp: edf_submit_def submit_promise_def Let_def)
  next
    case False
    then have v: "validate_condition m = PR_kSuccess" "es_newest_generation ?s \<le> ?g" by auto
    note p = edf_purge_inv [OF r(1) v(2)]
    have q: "queued ?s1 = ?Q" and cap: "es_capacity ?s1 = es_capacity s" and b: "es_borrowed ?s1 = None"
      using p r(2) by simp_all
    have len: "size ?Q = length (es_heap ?s1)" unfolding q [symmetric] by (simp add: queued_def)
    have run: "edf_submit m c d s =
      (if length (es_heap ?s1) < es_capacity ?s1 then (SR_kAccepted, None, edf_enqueue m ?s1)
       else case worst_slot ?s1 of
          None \<Rightarrow> (SR_kFull, None, ?s1\<lparr>es_stats := (es_stats ?s1)\<lparr>ss_full := ss_full (es_stats ?s1) + 1\<rparr>\<rparr>)
        | Some w \<Rightarrow>
            if edf_earlier m (es_storage ?s1 ! w)
            then (SR_kAcceptedAndEvicted,
                  if d then Some (make_rejected_action (es_storage ?s1 ! w) (ac_now_ns c) RelayAction_kRejectedCapacity) else None,
                  edf_evict w m ?s1)
            else (SR_kFull, None, ?s1\<lparr>es_stats := (es_stats ?s1)\<lparr>ss_full := ss_full (es_stats ?s1) + 1\<rparr>\<rparr>))"
      using False by (simp add: edf_submit_def Let_def)
    show ?thesis
    proof (cases "length (es_heap ?s1) < es_capacity ?s1")
      case True
      note e = edf_enqueue_inv [OF p(1) True b v(1)]
      show ?thesis using True run e(3,5) p(2) q cap pl len by (auto simp: submit_promise_def)
    next
      case full: False
      with edf_inv_slots(5) [OF p(1)] have eqc: "size ?Q = es_capacity s" using len cap by simp
      have "es_heap ?s1 \<noteq> []" using full p(1) by (auto simp: edf_inv_def)
      then obtain w where w: "worst_slot ?s1 = Some w"
        unfolding worst_slot_def by (metis max_element_None not_None_eq)
      then have wm: "w \<in> set (es_heap ?s1)" "\<forall>x \<in> set (es_heap ?s1). slot_key ?s1 x \<le> slot_key ?s1 w"
        using max_element_Some [of "slot_earlier ?s1" "slot_key ?s1", OF slot_earlier_key] by (simp_all add: worst_slot_def)
      have wq: "es_storage ?s1 ! w \<in># ?Q" "\<forall>x \<in># ?Q. key_of x \<le> key_of (es_storage ?s1 ! w)"
        using wm unfolding q [symmetric] by (auto simp: queued_def slot_key_def)
      show ?thesis
      proof (cases "edf_earlier m (es_storage ?s1 ! w)")
        case True
        then have lt: "key_of m < key_of (es_storage ?s1 ! w)" by (simp add: edf_earlier_def edf_later_key)
        note e = edf_evict_inv [OF p(1) wm(1) v(1)]
        from e(5) p(2) q pl obtain m' where "add_mset (es_storage ?s1 ! w) (queued (edf_evict w m ?s1)) = add_mset m' ?Q"
          "same_message m' m" by auto
        with full True w run e(3) p(2) wq lt eqc show ?thesis
          by (auto simp: submit_promise_def Let_def)
      next
        case False
        then have "\<forall>x \<in># ?Q. key_of x \<le> key_of m"
          using wq(2) by (auto simp: edf_earlier_def edf_later_key not_less intro: order_trans)
        with full False w run p(2) q eqc show ?thesis by (simp add: submit_promise_def Let_def)
      qed
    qed
  qed
qed

interpretation edf_machine: inductive_invariant edf_init edf_step edf_inv
proof unfold_locales
  show "edf_init s \<Longrightarrow> edf_inv s" for s using edf_create_inv(1) by (auto simp: edf_init_def)
  show "edf_step s t \<Longrightarrow> edf_inv s \<Longrightarrow> edf_inv t" for s t
    by (induction rule: edf_step.induct) (auto intro: edf_submit_inv edf_pop_ok(1))
qed

subsection \<open>Admission\<close>

lemma fold_min_lane:
  assumes "b < k"
  shows "let r = fold (\<lambda>i best. if av ! i < (av ! best :: u64) then i else best) [k ..< n] b
    in r < max k n \<and> (\<forall>i \<in> {k ..< n} \<union> {b}. av ! r \<le> av ! i)"
proof (induction n)
  case 0
  then show ?case using assms by simp
next
  case (Suc n)
  then show ?case by (auto simp: Let_def less_Suc_eq not_le le_max_iff_disj intro: order_trans [OF less_imp_le])
qed

lemma min_lane_least:
  assumes "0 < n" "i < n"
  shows "min_lane av n < n" "av ! min_lane av n \<le> av ! i"
proof -
  note m = fold_min_lane [of 0 1 av n, folded min_lane_def, unfolded Let_def, OF zero_less_one]
  show "min_lane av n < n" using m assms by simp
  show "av ! min_lane av n \<le> av ! i" using m assms by (cases i) auto
qed

lemma Min_lanes:
  assumes "0 < n" "length av = n"
  shows "Min (set_mset (mset (map unat av))) = unat (av ! min_lane av n)"
proof (rule Min_eqI)
  show "unat (av ! min_lane av n) \<in> set_mset (mset (map unat av))"
    using min_lane_least(1) [OF assms(1) assms(1)] assms(2) by simp
  show "unat (av ! min_lane av n) \<le> y" if "y \<in> set_mset (mset (map unat av))" for y
    using that assms min_lane_least(2) by (auto simp: in_set_conv_nth word_le_nat_alt)
qed simp

text \<open>The source keeps eight lanes and uses the first \<open>n\<close>.\<close>

lemma min_lane_take:
  assumes "n \<le> length av"
  shows "min_lane (take n av) n = min_lane av n"
proof -
  have "fold (\<lambda>i best. if take n av ! i < take n av ! best then i else best) is b =
        fold (\<lambda>i best. if av ! i < av ! best then i else best) is b" if "set is \<subseteq> {..< n}" "b < n" for "is" b
    using that by (induction "is" arbitrary: b) auto
  moreover have "set [1 ..< n] \<subseteq> {..< n}" by auto
  ultimately show ?thesis unfolding min_lane_def by (cases "n = 0") (simp, blast)
qed

lemma saturating_multiply_unat:
  "unat (saturating_multiply a b) = min (unat a * unat b) SIZE_MAX"
proof (cases "b \<noteq> 0 \<and> a > U64_MAX div b")
  case True
  then have "0 < unat b" by (simp add: unat_gt_0)
  moreover have "SIZE_MAX div unat b < unat a" using True by (simp add: word_less_nat_alt unat_div)
  ultimately have "SIZE_MAX < unat a * unat b" by (simp add: div_less_iff_less_mult)
  with True show ?thesis by (simp add: saturating_multiply_def)
next
  case False
  have "unat a * unat b \<le> SIZE_MAX"
  proof (cases "b = 0")
    case False
    with \<open>\<not> (b \<noteq> 0 \<and> a > U64_MAX div b)\<close> have "unat a \<le> SIZE_MAX div unat b" "0 < unat b"
      by (simp_all add: word_less_nat_alt unat_div unat_gt_0)
    then show ?thesis by (simp add: less_eq_div_iff_mult_less_eq)
  qed simp
  moreover have "saturating_multiply a b = a * b" unfolding saturating_multiply_def using False by (rule if_not_P)
  ultimately show ?thesis by (simp add: unat_mult_no_overflow)
qed

lemma saturating_add_unat:
  "unat (saturating_add left right) = min (unat left + unat right) SIZE_MAX"
proof (cases "left > U64_MAX - right")
  case True
  then show ?thesis by (simp add: saturating_add_def word_less_nat_alt unat_max_minus)
next
  case False
  then have "unat left + unat right \<le> SIZE_MAX"
    using unat_u64_le_max [of right] unfolding word_less_nat_alt unat_max_minus by linarith
  with False show ?thesis by (simp add: saturating_add_def unat_add_no_overflow)
qed

definition job_terms :: "AdmissionPolicy \<Rightarrow> ConditionMessage \<Rightarrow> nat \<times> nat" where
  "job_terms policy m = (unat (fcm_remaining_nfe (cm_metadata m)) * unat (ap_nanoseconds_per_nfe policy),
     unat (fcm_deadline_ns (cm_metadata m)))"

lemma admit_jobs_exact:
  assumes "0 < n" "n \<le> length av" "\<forall>a \<in> set (take n av). a \<noteq> 0"
  shows "admit_jobs policy n av jobs \<longleftrightarrow>
    meets_deadlines (unat (ap_reserve_ns policy)) (mset (map unat (take n av))) (map (job_terms policy) jobs)"
  using assms
proof (induction jobs arbitrary: av)
  case Nil
  then show ?case by simp
next
  case (Cons job jobs)
  define lane where "lane = min_lane av n"
  define exact where "exact = unat (fcm_remaining_nfe (cm_metadata job)) * unat (ap_nanoseconds_per_nfe policy)"
  define duration where "duration = saturating_multiply (fcm_remaining_nfe (cm_metadata job)) (ap_nanoseconds_per_nfe policy)"
  define deadline where "deadline = fcm_deadline_ns (cm_metadata job)"
  have lane: "lane < n" using min_lane_least(1) [OF Cons.prems(1,1)] by (simp add: lane_def)
  have start: "Min (set_mset (mset (map unat (take n av)))) = unat (av ! lane)"
    using Min_lanes [OF Cons.prems(1), of "take n av"] Cons.prems(2) lane by (simp add: min_lane_take lane_def)
  have pos: "0 < unat (av ! lane)"
    using Cons.prems(2,3) lane by (auto simp: unat_gt_0 set_conv_nth)
  have dur: "unat duration = min exact SIZE_MAX"
    by (simp add: duration_def exact_def saturating_multiply_unat)
  have dl: "unat deadline \<le> SIZE_MAX" by simp
  let ?ok = "unat (av ! lane) + exact + unat (ap_reserve_ns policy) \<le> unat deadline"
  have guard1: "\<not> (av ! lane > deadline \<or> duration > deadline - av ! lane) \<longleftrightarrow> unat (av ! lane) + exact \<le> unat deadline"
  proof (cases "av ! lane > deadline")
    case True
    then show ?thesis by (simp add: word_less_nat_alt)
  next
    case False
    then have "unat (deadline - av ! lane) = unat deadline - unat (av ! lane)" by (simp add: unat_sub)
    moreover have "unat (av ! lane) \<le> unat deadline" using False by (simp add: word_less_nat_alt)
    moreover have "unat deadline - unat (av ! lane) < SIZE_MAX" using dl pos by arith
    ultimately show ?thesis using False dur by (auto simp: word_less_nat_alt min_def)
  qed
  show ?case
  proof (cases "unat (av ! lane) + exact \<le> unat deadline")
    case False
    then show ?thesis
      using guard1 start
      by (simp add: Let_def lane_def [symmetric] duration_def [symmetric] deadline_def [symmetric] job_terms_def exact_def [symmetric])
  next
    case True
    define finish where "finish = av ! lane + duration"
    have fin: "unat finish = unat (av ! lane) + exact"
      using True dur dl unat_add_no_overflow [of "av ! lane" duration] unfolding finish_def by linarith
    have guard2: "\<not> ap_reserve_ns policy > deadline - finish \<longleftrightarrow> ?ok"
    proof -
      have "unat (deadline - finish) = unat deadline - unat finish"
        using True fin by (simp add: unat_sub word_le_nat_alt)
      then show ?thesis using True fin by (auto simp: word_less_nat_alt)
    qed
    have upd: "take n (av[lane := finish]) = (take n av)[lane := finish]"
      using lane by (simp add: take_update_swap)
    have lanes: "mset (map unat (take n (av[lane := finish]))) =
        add_mset (unat (av ! lane) + exact) (mset (map unat (take n av)) - {#unat (av ! lane)#})"
      using lane Cons.prems(2) by (simp only: upd map_update) (simp add: mset_update fin)
    have "\<forall>a \<in> set (take n (av[lane := finish])). a \<noteq> 0"
    proof
      fix a assume "a \<in> set (take n (av[lane := finish]))"
      then have "a = finish \<or> a \<in> set (take n av)" unfolding upd using set_update_subset_insert by fastforce
      then show "a \<noteq> 0" using Cons.prems(3) fin pos by auto
    qed
    then have IH: "admit_jobs policy n (av[lane := finish]) jobs \<longleftrightarrow>
        meets_deadlines (unat (ap_reserve_ns policy)) (mset (map unat (take n (av[lane := finish])))) (map (job_terms policy) jobs)"
      using Cons.IH Cons.prems(1,2) by simp
    have jt: "job_terms policy job = (exact, unat deadline)" by (simp add: job_terms_def exact_def deadline_def)
    show ?thesis
      using guard1 guard2 True start IH [unfolded lanes]
      by (auto simp: Let_def jt lane_def [symmetric] duration_def [symmetric] deadline_def [symmetric]
          finish_def [symmetric])
  qed
qed

lemma edf_admissible_exact:
  assumes on: "ap_nanoseconds_per_nfe (es_admission s) \<noteq> 0" "ac_now_ns c \<noteq> 0" "fcm_deadline_ns (cm_metadata m) \<noteq> 0"
  shows "edf_admissible m c s \<longleftrightarrow>
    ac_now_ns c < fcm_deadline_ns (cm_metadata m) \<and>
    meets_deadlines (unat (ap_reserve_ns (es_admission s)))
      (mset (map (\<lambda>lane. unat (lane_available (es_admission s) c (fcm_generation (cm_metadata m)) lane)) [0 ..< admission_workers c]))
      (map (job_terms (es_admission s)) (admission_jobs m s))"
proof -
  let ?n = "admission_workers c"
  let ?f = "lane_available (es_admission s) c (fcm_generation (cm_metadata m))"
  let ?av = "available_lanes (es_admission s) c (fcm_generation (cm_metadata m)) ?n"
  have n: "0 < ?n" "?n \<le> length ?av" "?n \<le> kMaxWorkers"
    by (simp_all add: admission_workers_def kMaxWorkers_def available_lanes_def)
  have tk: "take ?n ?av = map ?f [0 ..< ?n]"
    using n(3) by (simp add: available_lanes_def take_map take_upt)
  have "saturating_add (ac_now_ns c) b \<noteq> 0" for b
  proof -
    have "0 < unat (saturating_add (ac_now_ns c) b)" using on(2) by (simp add: saturating_add_unat unat_gt_0)
    then show ?thesis by (metis less_irrefl unat_0)
  qed
  then have "?f lane \<noteq> 0" for lane using on(2) by (simp add: lane_available_def Let_def)
  then have nz: "\<forall>a \<in> set (take ?n ?av). a \<noteq> 0" by (simp add: tk)
  show ?thesis
    using on admit_jobs_exact [OF n(1,2) nz] by (auto simp: edf_admissible_def tk comp_def not_le)
qed







section \<open>Properties\<close>

text \<open>
  C7: In every state the scheduler reaches by any sequence of submissions and removals, each of
  its slots is queued, free or lent to the caller, exactly once (no slot is lost or handed out
  twice), the queue is within its capacity, and every queued message is valid and of the newest
  generation seen.
\<close>

theorem edf_slots_conserved:
  assumes "reach edf_init edf_step s"
  shows "mset (es_heap s) + mset (es_free_slots s) + (case es_borrowed s of None \<Rightarrow> {#} | Some b \<Rightarrow> {#b#}) =
      mset [0 ..< es_capacity s] \<and>
    size (queued s) \<le> es_capacity s \<and>
    (\<forall>m \<in># queued s. validate_condition m = PR_kSuccess \<and> fcm_generation (cm_metadata m) = es_newest_generation s)"
proof -
  have inv: "edf_inv s" using edf_machine.reach_inv [OF assms] .
  have "size (queued s) \<le> es_capacity s" using edf_inv_slots(5) [OF inv] by (simp add: queued_def)
  with inv show ?thesis by (auto simp: edf_inv_def queued_def)
qed

definition demo_policy :: AdmissionPolicy where
  "demo_policy = \<lparr>ap_nanoseconds_per_nfe = 10, ap_reserve_ns = 5\<rparr>"

definition demo_condition :: ConditionMessage where
  "demo_condition = snd (make_condition_message blank_condition demo_model 1 2 10 200 3 4 1 [Fin 1, Fin 2] [Fin 3])"

definition demo_context :: AdmissionContext where
  "demo_context = \<lparr>ac_now_ns = 100, ac_worker_count = 2,
     ac_active = replicate kMaxWorkers \<lparr>al_generation = 0, al_remaining_nfe = 0\<rparr>\<rparr>"

definition demo_edf :: EdfScheduler where
  "demo_edf = snd (snd (edf_submit demo_condition demo_context False (edf_create 2 demo_policy)))"

lemma demo_edf_reach: "reach edf_init edf_step demo_edf"
proof -
  have "reach edf_init edf_step (edf_create 2 demo_policy)"
    by (rule reach_init) (auto simp: edf_init_def)
  then show ?thesis unfolding demo_edf_def by (rule reach_step) (rule edf_step.intros(1))
qed

lemma demo_condition_facts:
  "validate_condition demo_condition = PR_kSuccess" "length (cm_payload demo_condition) = kMaxConditionDim + kMaxActionDim"
  "fcm_deadline_ns (cm_metadata demo_condition) = 200" "fcm_remaining_nfe (cm_metadata demo_condition) = 8"
  "fcm_generation (cm_metadata demo_condition) = 3"
  by (simp_all add: demo_condition_def make_condition_message_def demo_model_def blank_condition_def wire_simps Let_def
      validate_condition_def wire_size_condition_def valid_envelope_def clamp_dim_def required_nfe_def blit_def)

lemma demo_admission:
  "admission_jobs demo_condition (edf_create 2 demo_policy) = [demo_condition]" "admission_workers demo_context = 2"
  "lane < 2 \<Longrightarrow> lane_available demo_policy demo_context 3 lane = 100"
  by (simp_all add: admission_jobs_def edf_create_sel admission_workers_def lane_available_def demo_context_def kMaxWorkers_def)

lemma upt_0_2: "[0 ..< 2] = [0, 1 :: nat]"
  by (simp add: upt_rec)

lemma demo_admissible: "edf_admissible demo_condition demo_context (edf_create 2 demo_policy)"
  by (subst edf_admissible_exact)
    (simp_all add: demo_admission upt_0_2 demo_condition_facts job_terms_def edf_create_sel,
     simp_all add: demo_context_def demo_policy_def)

lemma demo_submit: "fst (edf_submit demo_condition demo_context d (edf_create 2 demo_policy)) = SR_kAccepted"
proof -
  have "release_borrowed (edf_create 2 demo_policy) = edf_create 2 demo_policy"
    by (simp add: release_borrowed_def edf_create_def)
  then show ?thesis
    using demo_admissible demo_condition_facts(1)
    by (simp add: edf_submit_def Let_def edf_purge_def edf_rebuild_def edf_create_def std_heap.make_length
        demo_condition_facts(5))
qed

lemma demo_edf_queued: "\<exists>m. same_message m demo_condition \<and> queued demo_edf = {#m#}"
  using edf_submit_ok [OF edf_create_inv(1) demo_condition_facts(2), of demo_context False 2 demo_policy]
    demo_submit [of False] edf_create_inv(2) [of 2 demo_policy]
  by (auto simp: submit_promise_def demo_edf_def Let_def split: prod.splits)

theorem edf_slots_conserved_witness:
  "size (queued demo_edf) \<le> es_capacity demo_edf \<and>
   mset (es_heap demo_edf) + mset (es_free_slots demo_edf) +
     (case es_borrowed demo_edf of None \<Rightarrow> {#} | Some b \<Rightarrow> {#b#}) = mset [0 ..< es_capacity demo_edf]"
  using edf_slots_conserved [OF demo_edf_reach] by simp

text \<open>
  C8: What \<open>pop\<close> returns in a reachable state. A message it returns is not expired and no queued
  message has an earlier deadline (ties: newer generation, lower sequence number), and it is removed
  from the queue together with expired messages only; a null result without a rejection means that the
  queue was empty or held expired messages only; a rejection names the expired message that was first.
\<close>

theorem edf_pop_earliest:
  assumes "reach edf_init edf_step s"
  shows "case edf_pop now w s of
      (Some m, rej, s') \<Rightarrow>
        rej = None \<and> \<not> expired now m \<and> (\<forall>x \<in># queued s'. key_of m \<le> key_of x) \<and>
        (\<exists>E. (\<forall>e \<in># E. expired now e) \<and> queued s = E + add_mset m (queued s'))
    | (None, None, s') \<Rightarrow> queued s' = {#} \<and> (\<forall>e \<in># queued s. expired now e)
    | (None, Some a, s') \<Rightarrow>
        w \<and> (\<exists>e. expired now e \<and> a = make_rejected_action e now RelayAction_kExpired \<and>
           queued s = add_mset e (queued s') \<and> (\<forall>x \<in># queued s'. key_of e \<le> key_of x))"
  using edf_pop_ok(2) [OF edf_machine.reach_inv [OF assms], of now w]
    edf_pop_ok(3) [OF edf_machine.reach_inv [OF assms], of w now]
  by (cases w; cases "edf_pop now w s") (auto simp: pop_promise_def split: option.splits)

theorem edf_pop_earliest_witness:
  "\<exists>m s'. edf_pop 150 True demo_edf = (Some m, None, s') \<and> same_message m demo_condition \<and> queued s' = {#}"
proof -
  obtain m where m: "same_message m demo_condition" "queued demo_edf = {#m#}" using demo_edf_queued by blast
  then have "\<not> expired 150 m" by (simp add: expired_def same_message_def demo_condition_facts)
  with m edf_pop_earliest [OF demo_edf_reach, of 150 True] show ?thesis
    by (auto split: prod.splits option.splits simp: union_is_single add_eq_conv_ex)
qed

text \<open>
  C9: What \<open>submit\<close> does in a reachable state, on each of its six outcomes. A refusal leaves the
  queue as it was, apart from messages of an older generation; an accepted message is stored with
  its condition and noise values; an eviction takes the message that is last in deadline order,
  only for one that comes before it; \<open>kFull\<close> is returned only when the queue is full of messages
  that do not come after the new one.
\<close>

theorem edf_submit_effect:
  assumes "reach edf_init edf_step s" "length (cm_payload m) = kMaxConditionDim + kMaxActionDim"
  shows "let (result, displaced, s') = edf_submit m c d s; generation = fcm_generation (cm_metadata m);
      Q = filter_mset (\<lambda>x. generation \<le> fcm_generation (cm_metadata x)) (queued s)
    in case result of
         SR_kInvalid \<Rightarrow> validate_condition m \<noteq> PR_kSuccess \<and> queued s' = queued s
       | SR_kStale \<Rightarrow> generation < es_newest_generation s \<and> queued s' = queued s
       | SR_kDeadlineUnreachable \<Rightarrow> \<not> edf_admissible m c (release_borrowed s) \<and> queued s' = queued s
       | SR_kAccepted \<Rightarrow>
           size Q < es_capacity s \<and> es_newest_generation s' = generation \<and>
           (\<exists>m'. same_message m' m \<and> queued s' = add_mset m' Q)
       | SR_kAcceptedAndEvicted \<Rightarrow>
           size Q = es_capacity s \<and> es_newest_generation s' = generation \<and>
           (\<exists>m' worst. same_message m' m \<and> worst \<in># Q \<and> (\<forall>x \<in># Q. key_of x \<le> key_of worst) \<and>
              key_of m < key_of worst \<and> add_mset worst (queued s') = add_mset m' Q \<and>
              displaced = (if d then Some (make_rejected_action worst (ac_now_ns c) RelayAction_kRejectedCapacity) else None))
       | SR_kFull \<Rightarrow>
           size Q = es_capacity s \<and> es_newest_generation s' = generation \<and> queued s' = Q \<and>
           (\<forall>x \<in># Q. key_of x \<le> key_of m)"
  using edf_submit_ok [OF edf_machine.reach_inv [OF assms(1)] assms(2), of c d]
  unfolding submit_promise_def .

theorem edf_submit_effect_witness:
  "\<exists>m s'. edf_submit demo_condition demo_context True (edf_create 2 demo_policy) = (SR_kAccepted, None, s') \<and>
     same_message m demo_condition \<and> queued s' = {#m#}"
proof -
  have init: "reach edf_init edf_step (edf_create 2 demo_policy)" by (rule reach_init) (auto simp: edf_init_def)
  have "fst (snd (edf_submit demo_condition demo_context True (edf_create 2 demo_policy))) = None"
    using demo_submit [of True] by (auto simp: edf_submit_def Let_def split: if_splits option.splits)
  with edf_submit_effect [OF init demo_condition_facts(2), of demo_context True] demo_submit [of True]
    edf_create_inv(2) [of 2 demo_policy]
  show ?thesis by (cases "edf_submit demo_condition demo_context True (edf_create 2 demo_policy)") auto
qed




end
