(* ===== verification/Job_Pool.thy ===== *)
theory Job_Pool
  imports Job_Registry Job_Events Edf_Scheduler
begin

text \<open>
  relay/worker/job_worker_pool.\{h,cc\}, job_worker_pool_internal.h and
  job_worker_pool_runtime.cc: bounded earliest-deadline-first execution of job requests on up to
  eight worker lanes, with per-session freshness, quality-of-service reserves, deadline admission,
  draining, migration and quarantine.

  The coordinator's calls are functions on the pool record. A worker thread is a lane whose local
  variables \<open>routed\<close> and \<open>progress\<close> are part of its slot, and its loop \<open>run_slot\<close> is cut into
  steps: taking a request (\<open>worker_begin\<close>), one iteration of the slice loop (\<open>worker_slice\<close>) and
  publishing the result (\<open>worker_finish\<close>). The environment of the pool is explicit:
  \<open>monotonic_ns\<close> reads the next value of the clock \<open>jp_clock\<close>, an arbitrary sequence, and each
  lane has its own store of backends. A call of the coordinator is one step: between two of its
  accesses a worker can only publish a state that the call has already passed or has yet to read.
\<close>

section \<open>Definitions\<close>

subsection \<open>Policies\<close>

record JobCostPolicy =
  jc_iterative_ns :: u64
  jc_streaming_ns :: u64
  jc_speculative_ns :: u64
  jc_reserve_ns :: u64

definition job_cost :: "JobCostPolicy \<Rightarrow> JobKind \<Rightarrow> u64" where
  "job_cost policy kind =
     (if kind = JobKind_kIterative then jc_iterative_ns policy
      else if kind = JobKind_kStreaming then jc_streaming_ns policy
      else if kind = JobKind_kSpeculative then jc_speculative_ns policy
      else 0)"

record JobQosPolicy =
  jq_interactive_reserve_slots :: nat
  jq_critical_reserve_slots :: nat

definition reserved_slots :: "JobQosPolicy \<Rightarrow> JobServiceClass \<Rightarrow> nat" where
  "reserved_slots policy service_class =
     (if service_class = ServiceClass_kBestEffort
        then jq_interactive_reserve_slots policy + jq_critical_reserve_slots policy
      else if service_class = ServiceClass_kInteractive then jq_critical_reserve_slots policy
      else if service_class = ServiceClass_kCritical then 0
      else jq_interactive_reserve_slots policy + jq_critical_reserve_slots policy)"

text \<open>Zero disables automatic quarantine.\<close>

record WorkerSupervisionPolicy =
  ws_consecutive_failure_threshold :: nat

datatype JobSubmitResult = JSR_kAccepted | JSR_kStale | JSR_kDeadlineUnreachable | JSR_kInvalid
  | JSR_kAdapterNotFound | JSR_kFull | JSR_kQosCapacity

datatype WorkerRecoveryResult = WRR_kRecovered | WRR_kNotQuarantined | WRR_kNotDrained | WRR_kInvalidWorker

datatype WorkerDrainResult = WDR_kStarted | WDR_kAlreadyDraining | WDR_kWouldStrandWork | WDR_kInvalidWorker

record JobWorkerTiming =
  wt_dispatched_ns :: u64
  wt_started_ns :: u64
  wt_finished_ns :: u64

datatype LaneState = LS_kIdle | LS_kRequested | LS_kRunning | LS_kMigrationReady | LS_kReady | LS_kDrained

record WorkerBinding =
  wb_numa_node :: u32
  wb_logical_cpu :: u32
  wb_bound :: bool

record SessionWatermark =
  sw_session_id :: u64
  sw_generation :: u64
  sw_occupied :: bool

definition default_session :: SessionWatermark where
  "default_session = \<lparr>sw_session_id = 0, sw_generation = 0, sw_occupied = False\<rparr>"

subsection \<open>State\<close>

text \<open>The last two fields are the backends of the lane and the local variables of its thread.\<close>

record 'b Slot =
  sl_registry :: "'b JobAdapterRegistry"
  sl_index :: nat
  sl_work_quantum :: u64
  sl_request :: JobRequestMessage
  sl_result :: JobResultMessage
  sl_migration_storage :: "byte list"
  sl_state :: LaneState
  sl_drain_requested :: bool
  sl_migrate_requested :: bool
  sl_session_id :: u64
  sl_generation :: u64
  sl_remaining_work_units :: u64
  sl_cancel_generation :: u64
  sl_preempted_ns :: u64
  sl_dispatched_ns :: u64
  sl_started_ns :: u64
  sl_finished_ns :: u64
  sl_binding :: WorkerBinding
  sl_migration_bytes :: nat
  sl_resume_bytes :: nat
  sl_resume_completed_work_units :: u64
  sl_migration_started_ns :: u64
  sl_migration_completed_ns :: u64
  sl_migration_source :: u32
  sl_execution_failed :: bool
  sl_events_published :: bool
  sl_consecutive_failures :: nat
  sl_quarantined :: bool
  sl_backends :: "nat \<Rightarrow> 'b"
  sl_thread :: "('b RoutedJob \<times> (JobError + JobProgress)) option"

record 'b JobWorkerPool =
  jp_slots :: "'b Slot list"
  jp_queue_storage :: "JobRequestMessage list"
  jp_queue_order :: "nat list"
  jp_free_queue_slots :: "nat list"
  jp_sessions :: "SessionWatermark list"
  jp_cost_policy :: JobCostPolicy
  jp_qos_policy :: JobQosPolicy
  jp_supervision_policy :: WorkerSupervisionPolicy
  jp_work_quantum :: u64
  jp_ready_index :: "nat option"
  jp_events :: "JobEventBuffer option"
  jp_dispatch_cursor :: nat
  jp_ready_cursor :: nat
  jp_migration_capacity_bytes :: nat
  jp_failure_count :: u64
  jp_quarantine_count :: u64
  jp_qos_rejection_count :: u64
  jp_clock :: "nat \<Rightarrow> u64"
  jp_ticks :: nat

definition monotonic_ns :: "'b JobWorkerPool \<Rightarrow> u64 \<times> 'b JobWorkerPool" where
  "monotonic_ns p = (jp_clock p (jp_ticks p), p\<lparr>jp_ticks := jp_ticks p + 1\<rparr>)"

definition upd_slot :: "nat \<Rightarrow> ('b Slot \<Rightarrow> 'b Slot) \<Rightarrow> 'b JobWorkerPool \<Rightarrow> 'b JobWorkerPool" where
  "upd_slot i f p = p\<lparr>jp_slots := (jp_slots p)[i := f (jp_slots p ! i)]\<rparr>"

subsection \<open>Requests\<close>

definition request_deadline_key :: "JobRequestMessage \<Rightarrow> u64" where
  "request_deadline_key m =
     (if jd_deadline_ns (jrqm_descriptor (jrq_metadata m)) = 0 then U64_MAX
      else jd_deadline_ns (jrqm_descriptor (jrq_metadata m)))"

definition request_earlier :: "JobRequestMessage \<Rightarrow> JobRequestMessage \<Rightarrow> bool" where
  "request_earlier left right =
     (if request_deadline_key left \<noteq> request_deadline_key right
        then request_deadline_key left < request_deadline_key right
      else if jrqm_service_class (jrq_metadata left) \<noteq> jrqm_service_class (jrq_metadata right)
        then jrqm_service_class (jrq_metadata left) > jrqm_service_class (jrq_metadata right)
      else if jrqm_timestamp_ns (jrq_metadata left) \<noteq> jrqm_timestamp_ns (jrq_metadata right)
        then jrqm_timestamp_ns (jrq_metadata left) < jrqm_timestamp_ns (jrq_metadata right)
      else me_sequence (jrq_envelope left) < me_sequence (jrq_envelope right))"

definition elapsed :: "u64 \<Rightarrow> u64 \<Rightarrow> u64" where
  "elapsed start end_ns = (if start \<noteq> 0 \<and> end_ns \<ge> start then end_ns - start else 0)"

text \<open>\<open>memcpy(&destination, &source, wire_size(source))\<close>: all but the unused tail of the payload.\<close>

definition copy_request :: "JobRequestMessage \<Rightarrow> JobRequestMessage \<Rightarrow> JobRequestMessage" where
  "copy_request source destination =
     (let n = wire_size_request source - (sizeof_MessageEnvelope + sizeof_JobRequestMetadata)
      in source\<lparr>jrq_payload := take n (jrq_payload source) @ drop n (jrq_payload destination)\<rparr>)"

definition registration_accepts :: "'b JobAdapterRegistry \<Rightarrow> JobRequestMessage \<Rightarrow> bool" where
  "registration_accepts registry request =
     (case registry_find (jrqm_descriptor (jrq_metadata request)) registry of
        None \<Rightarrow> False
      | Some registration \<Rightarrow>
          unat (jrqm_payload_bytes (jrq_metadata request)) \<le> ja_max_request_bytes registration)"

definition make_failed_result :: "JobResultMessage \<Rightarrow> JobRequestMessage \<Rightarrow> u64 \<Rightarrow> JobResultCode \<Rightarrow> JobResultMessage" where
  "make_failed_result result request timestamp_ns code =
     (let (written, m) = make_job_result result (me_sequence (jrq_envelope request))
            (jrqm_descriptor (jrq_metadata request))
            (make_progress JobState_kFailed 0 (jd_total_work_units (jrqm_descriptor (jrq_metadata request))))
            timestamp_ns code [] (jrqm_service_class (jrq_metadata request))
      in if written \<noteq> PR_kSuccess then default_result else m)"

subsection \<open>Creation\<close>

definition default_slot :: "'b JobAdapterRegistry \<Rightarrow> nat \<Rightarrow> u64 \<Rightarrow> nat \<Rightarrow> (nat \<Rightarrow> 'b) \<Rightarrow> 'b Slot" where
  "default_slot registry index work_quantum migration_capacity_bytes backends =
     \<lparr>sl_registry = registry, sl_index = index, sl_work_quantum = work_quantum,
      sl_request = default_request, sl_result = default_result,
      sl_migration_storage = replicate migration_capacity_bytes 0, sl_state = LS_kIdle,
      sl_drain_requested = False, sl_migrate_requested = False, sl_session_id = 0, sl_generation = 0,
      sl_remaining_work_units = 0, sl_cancel_generation = 0, sl_preempted_ns = 0, sl_dispatched_ns = 0,
      sl_started_ns = 0, sl_finished_ns = 0,
      sl_binding = \<lparr>wb_numa_node = 0, wb_logical_cpu = 0, wb_bound = False\<rparr>,
      sl_migration_bytes = 0, sl_resume_bytes = 0, sl_resume_completed_work_units = 0,
      sl_migration_started_ns = 0, sl_migration_completed_ns = 0, sl_migration_source = kNoWorker,
      sl_execution_failed = False, sl_events_published = False, sl_consecutive_failures = 0,
      sl_quarantined = False, sl_backends = backends, sl_thread = None\<rparr>"

text \<open>
  The lane's backends come with its registry; \<open>alloc_failure\<close> is the outcome of the allocations
  and thread starts, as for the event buffer.
\<close>

definition pool_create ::
  "string option option \<Rightarrow> ('b JobAdapterRegistry \<times> (nat \<Rightarrow> 'b)) list \<Rightarrow> nat \<Rightarrow> JobCostPolicy \<Rightarrow> nat \<Rightarrow> u64
    \<Rightarrow> JobEventBuffer option \<Rightarrow> nat \<Rightarrow> JobQosPolicy \<Rightarrow> WorkerSupervisionPolicy \<Rightarrow> (nat \<Rightarrow> u64)
    \<Rightarrow> string + 'b JobWorkerPool" where
  "pool_create alloc_failure lane_registries queue_capacity cost_policy max_sessions work_quantum events
     migration_capacity_bytes qos_policy supervision_policy clock =
     (if lane_registries = [] \<or> length lane_registries > 8
        then Inl ''Generic Relay worker count must be in the range 1..8''
      else if queue_capacity = 0 \<or> max_sessions = 0 \<or> work_quantum = 0
        then Inl ''Generic Relay queue, session, and work limits must be non-zero''
      else if jq_interactive_reserve_slots qos_policy \<ge> queue_capacity \<or>
              jq_critical_reserve_slots qos_policy \<ge> queue_capacity \<or>
              jq_interactive_reserve_slots qos_policy > queue_capacity - 1 - jq_critical_reserve_slots qos_policy
        then Inl ''Generic Relay QoS reserves must leave one best-effort queue slot''
      else if list_ex (\<lambda>(g, _). \<not> jg_frozen g \<or> length (jg_entries g) = 0) lane_registries
        then Inl ''Every generic Relay worker lane requires a frozen adapter registry''
      else case alloc_failure of
          Some (Some what) \<Rightarrow> Inl (''Failed to create generic Relay worker pool: '' @ what)
        | Some None \<Rightarrow> Inl ''Failed to create generic Relay worker pool''
        | None \<Rightarrow> Inr
            \<lparr>jp_slots = map (\<lambda>(index, g, backends). default_slot g index work_quantum migration_capacity_bytes backends)
               (zip [0 ..< length lane_registries] lane_registries),
             jp_queue_storage = replicate queue_capacity default_request, jp_queue_order = [],
             jp_free_queue_slots = rev [0 ..< queue_capacity],
             jp_sessions = replicate max_sessions default_session, jp_cost_policy = cost_policy,
             jp_qos_policy = qos_policy, jp_supervision_policy = supervision_policy,
             jp_work_quantum = work_quantum, jp_ready_index = None, jp_events = events,
             jp_dispatch_cursor = 0, jp_ready_cursor = 0,
             jp_migration_capacity_bytes = migration_capacity_bytes, jp_failure_count = 0,
             jp_quarantine_count = 0, jp_qos_rejection_count = 0, jp_clock = clock, jp_ticks = 0\<rparr>)"

subsection \<open>Observers\<close>

definition lane_busy :: "'b Slot \<Rightarrow> bool" where
  "lane_busy s \<longleftrightarrow> sl_state s = LS_kRequested \<or> sl_state s = LS_kRunning \<or> sl_state s = LS_kMigrationReady"

definition pool_busy_count :: "'b JobWorkerPool \<Rightarrow> nat" where
  "pool_busy_count p = length (filter lane_busy (jp_slots p))"

definition pool_has_idle :: "'b JobWorkerPool \<Rightarrow> bool" where
  "pool_has_idle p = list_ex (\<lambda>s. \<not> sl_drain_requested s \<and> sl_state s = LS_kIdle) (jp_slots p)"

definition pool_worker_binding :: "nat \<Rightarrow> 'b JobWorkerPool \<Rightarrow> WorkerBinding" where
  "pool_worker_binding index p =
     (if index \<ge> length (jp_slots p) then \<lparr>wb_numa_node = 0, wb_logical_cpu = 0, wb_bound = False\<rparr>
      else sl_binding (jp_slots p ! index))"

definition accepting_worker_count :: "'b JobWorkerPool \<Rightarrow> nat" where
  "accepting_worker_count p = length (filter (\<lambda>s. \<not> sl_drain_requested s) (jp_slots p))"

definition worker_busy :: "nat \<Rightarrow> 'b JobWorkerPool \<Rightarrow> bool" where
  "worker_busy index p \<longleftrightarrow> index < length (jp_slots p) \<and> lane_busy (jp_slots p ! index)"

definition worker_draining :: "nat \<Rightarrow> 'b JobWorkerPool \<Rightarrow> bool" where
  "worker_draining index p \<longleftrightarrow> index < length (jp_slots p) \<and> sl_drain_requested (jp_slots p ! index)"

definition worker_drained :: "nat \<Rightarrow> 'b JobWorkerPool \<Rightarrow> bool" where
  "worker_drained index p \<longleftrightarrow> index < length (jp_slots p) \<and> sl_state (jp_slots p ! index) = LS_kDrained"

definition worker_quarantined :: "nat \<Rightarrow> 'b JobWorkerPool \<Rightarrow> bool" where
  "worker_quarantined index p \<longleftrightarrow> index < length (jp_slots p) \<and> sl_quarantined (jp_slots p ! index)"

definition worker_consecutive_failures :: "nat \<Rightarrow> 'b JobWorkerPool \<Rightarrow> nat" where
  "worker_consecutive_failures index p =
     (if index < length (jp_slots p) then sl_consecutive_failures (jp_slots p ! index) else 0)"

definition can_remove_worker :: "nat \<Rightarrow> 'b JobWorkerPool \<Rightarrow> bool" where
  "can_remove_worker index p =
     list_all (\<lambda>queue_slot.
       let queued = jp_queue_storage p ! queue_slot
       in \<not> registration_accepts (sl_registry (jp_slots p ! index)) queued \<or>
          list_ex (\<lambda>candidate. sl_index candidate \<noteq> index \<and> \<not> sl_quarantined candidate \<and>
            \<not> sl_drain_requested candidate \<and> registration_accepts (sl_registry candidate) queued) (jp_slots p))
       (jp_queue_order p)"

subsection \<open>Sessions\<close>

definition session_index :: "u64 \<Rightarrow> 'b JobWorkerPool \<Rightarrow> nat option" where
  "session_index session_id p =
     find (\<lambda>i. sw_occupied (jp_sessions p ! i) \<and> sw_session_id (jp_sessions p ! i) = session_id) [0 ..< length (jp_sessions p)]"

definition free_session :: "'b JobWorkerPool \<Rightarrow> nat option" where
  "free_session p = find (\<lambda>i. \<not> sw_occupied (jp_sessions p ! i)) [0 ..< length (jp_sessions p)]"

definition has_session_capacity :: "u64 \<Rightarrow> 'b JobWorkerPool \<Rightarrow> bool" where
  "has_session_capacity session_id p \<longleftrightarrow>
     session_index session_id p \<noteq> None \<or> list_ex (\<lambda>entry. \<not> sw_occupied entry) (jp_sessions p)"

definition pool_stale :: "JobRequestMessage \<Rightarrow> 'b JobWorkerPool \<Rightarrow> bool" where
  "pool_stale request p \<longleftrightarrow>
     (case session_index (jd_session_id (jrqm_descriptor (jrq_metadata request))) p of
        None \<Rightarrow> False
      | Some i \<Rightarrow> jd_generation (jrqm_descriptor (jrq_metadata request)) < sw_generation (jp_sessions p ! i))"

definition supports_any :: "JobRequestMessage \<Rightarrow> 'b JobWorkerPool \<Rightarrow> bool" where
  "supports_any request p = list_ex (\<lambda>s. registration_accepts (sl_registry s) request) (jp_slots p)"

definition has_accepting_worker :: "JobRequestMessage \<Rightarrow> 'b JobWorkerPool \<Rightarrow> bool" where
  "has_accepting_worker request p =
     list_ex (\<lambda>s. \<not> sl_drain_requested s \<and> registration_accepts (sl_registry s) request) (jp_slots p)"

definition has_qos_capacity :: "JobServiceClass \<Rightarrow> 'b JobWorkerPool \<Rightarrow> bool" where
  "has_qos_capacity service_class p \<longleftrightarrow>
     length (jp_queue_storage p) - length (jp_queue_order p) > reserved_slots (jp_qos_policy p) service_class"

subsection \<open>Deadline admission\<close>

text \<open>\<open>None\<close> where the source gives up and admits: a busy lane without a cost estimate.\<close>

definition pool_lane_available :: "'b JobWorkerPool \<Rightarrow> u64 \<Rightarrow> JobDescriptor \<Rightarrow> 'b Slot \<Rightarrow> u64 option" where
  "pool_lane_available p now_ns candidate s =
     (if sl_drain_requested s then Some U64_MAX
      else if sl_state s = LS_kIdle then Some now_ns
      else if sl_state s = LS_kReady then Some U64_MAX
      else
        let active = jrqm_descriptor (jrq_metadata (sl_request s));
            active_cost = job_cost (jp_cost_policy p) (jd_kind active)
        in if active_cost = 0 then None
           else
             let remaining = (if jd_session_id active = jd_session_id candidate \<and> jd_generation active < jd_generation candidate
                              then min (sl_remaining_work_units s) (jp_work_quantum p) else sl_remaining_work_units s)
             in Some (saturating_add now_ns (saturating_multiply remaining active_cost)))"

definition best_lane :: "'b JobWorkerPool \<Rightarrow> u64 list \<Rightarrow> JobRequestMessage \<Rightarrow> nat option" where
  "best_lane p available_at job =
     fold (\<lambda>lane best.
       if available_at ! lane = U64_MAX \<or> \<not> registration_accepts (sl_registry (jp_slots p ! lane)) job then best
       else case best of None \<Rightarrow> Some lane
          | Some b \<Rightarrow> if available_at ! lane < available_at ! b then Some lane else best)
       [0 ..< length (jp_slots p)] None"

fun pool_admit :: "'b JobWorkerPool \<Rightarrow> u64 list \<Rightarrow> JobRequestMessage list \<Rightarrow> bool" where
  "pool_admit p available_at [] = True"
| "pool_admit p available_at (job # jobs) =
     (let descriptor = jrqm_descriptor (jrq_metadata job); unit_cost = job_cost (jp_cost_policy p) (jd_kind descriptor)
      in if unit_cost = 0 then True
         else case best_lane p available_at job of
             None \<Rightarrow> False
           | Some lane \<Rightarrow>
               let duration = saturating_multiply (jd_total_work_units descriptor) unit_cost; start = available_at ! lane
               in if start > jd_deadline_ns descriptor \<or> duration > jd_deadline_ns descriptor - start then False
                  else let finish = start + duration
                    in if jc_reserve_ns (jp_cost_policy p) > jd_deadline_ns descriptor - finish then False
                       else pool_admit p (available_at[lane := finish]) jobs)"

text \<open>Any sort by the comparison of the source; equal requests keep their order.\<close>

fun insert_request :: "JobRequestMessage \<Rightarrow> JobRequestMessage list \<Rightarrow> JobRequestMessage list" where
  "insert_request x [] = [x]"
| "insert_request x (y # ys) = (if request_earlier y x then y # insert_request x ys else x # y # ys)"

definition pool_admission_jobs :: "JobRequestMessage \<Rightarrow> 'b JobWorkerPool \<Rightarrow> JobRequestMessage list" where
  "pool_admission_jobs request p =
     (let candidate = jrqm_descriptor (jrq_metadata request)
      in foldr insert_request
           (request # filter (\<lambda>queued. let descriptor = jrqm_descriptor (jrq_metadata queued)
              in \<not> (pool_stale queued p \<or> jd_deadline_ns descriptor = 0 \<or>
                    (jd_session_id descriptor = jd_session_id candidate \<and>
                     jd_generation descriptor < jd_generation candidate)))
             (map ((!) (jp_queue_storage p)) (jp_queue_order p))) [])"

definition pool_admissible :: "JobRequestMessage \<Rightarrow> u64 \<Rightarrow> 'b JobWorkerPool \<Rightarrow> bool" where
  "pool_admissible request now_ns p =
     (let candidate = jrqm_descriptor (jrq_metadata request)
      in if job_cost (jp_cost_policy p) (jd_kind candidate) = 0 \<or> now_ns = 0 \<or> jd_deadline_ns candidate = 0 then True
         else if jd_deadline_ns candidate \<le> now_ns then False
         else let lanes = map (pool_lane_available p now_ns candidate) (jp_slots p)
           in if None \<in> set lanes then True
              else pool_admit p (map the lanes) (pool_admission_jobs request p))"

subsection \<open>Events and rejections\<close>

definition event_details :: "JobEventKind \<Rightarrow> JobDescriptor \<Rightarrow> JobProgress \<Rightarrow> u64 \<Rightarrow> JobServiceClass \<Rightarrow> JobEventDetails" where
  "event_details event descriptor progress timestamp_ns service_class =
     \<lparr>jdt_event = event, jdt_descriptor = descriptor, jdt_progress = progress, jdt_timestamp_ns = timestamp_ns,
      jdt_timing = default_timing, jdt_related_generation = 0, jdt_worker_index = kNoWorker,
      jdt_peer_worker_index = kNoWorker, jdt_queue_depth = 0, jdt_result_code = ResultCode_kProgress,
      jdt_service_class = service_class\<rparr>"

definition pool_emit :: "u64 \<Rightarrow> JobEventDetails \<Rightarrow> 'b JobWorkerPool \<Rightarrow> 'b JobWorkerPool" where
  "pool_emit sequence details p =
     (case jp_events p of
        None \<Rightarrow> p
      | Some events \<Rightarrow>
          let (r, event) = make_job_event sequence details
          in if r = PR_kSuccess then p\<lparr>jp_events := Some (snd (jeb_try_push event events))\<rparr> else p)"

text \<open>The time given by the caller, or read from the clock.\<close>

definition time_or_now :: "u64 \<Rightarrow> 'b JobWorkerPool \<Rightarrow> u64 \<times> 'b JobWorkerPool" where
  "time_or_now now_ns p = (if now_ns = 0 then monotonic_ns p else (now_ns, p))"

definition publish_rejection ::
  "JobResultMessage option \<Rightarrow> JobRequestMessage \<Rightarrow> u64 \<Rightarrow> JobResultCode \<Rightarrow> 'b JobWorkerPool
    \<Rightarrow> JobResultMessage option \<times> 'b JobWorkerPool" where
  "publish_rejection destination request now_ns code p =
     (let written = map_option (\<lambda>d. snd (make_rejected_job_result
              (d\<lparr>jrs_envelope := default_envelope, jrs_metadata := jrs_metadata default_result\<rparr>) request now_ns code)) destination;
          (timestamp_ns, p1) = time_or_now now_ns p;
          descriptor = jrqm_descriptor (jrq_metadata request)
      in (written, pool_emit (me_sequence (jrq_envelope request))
            ((event_details EventKind_kRejected descriptor
               (make_progress JobState_kFailed 0 (jd_total_work_units descriptor)) timestamp_ns
               (jrqm_service_class (jrq_metadata request)))\<lparr>jdt_result_code := code\<rparr>) p1))"

definition record_worker_failure :: "nat \<Rightarrow> 'b JobWorkerPool \<Rightarrow> 'b JobWorkerPool" where
  "record_worker_failure index p =
     (let p1 = upd_slot index (\<lambda>s. s\<lparr>sl_consecutive_failures := sl_consecutive_failures s + 1\<rparr>)
                 (p\<lparr>jp_failure_count := jp_failure_count p + 1\<rparr>);
          s = jp_slots p1 ! index; threshold = ws_consecutive_failure_threshold (jp_supervision_policy p1)
      in if sl_quarantined s \<or> threshold = 0 \<or> sl_consecutive_failures s < threshold \<or>
            \<not> can_remove_worker (sl_index s) p1 then p1
         else upd_slot index (\<lambda>s. s\<lparr>sl_quarantined := True, sl_drain_requested := True\<rparr>)
                (p1\<lparr>jp_quarantine_count := jp_quarantine_count p1 + 1\<rparr>))"

subsection \<open>Dispatch and migration\<close>

definition request_expired :: "u64 \<Rightarrow> JobRequestMessage \<Rightarrow> bool" where
  "request_expired now_ns request \<longleftrightarrow>
     jd_deadline_ns (jrqm_descriptor (jrq_metadata request)) \<noteq> 0 \<and>
     jd_deadline_ns (jrqm_descriptor (jrq_metadata request)) \<le> now_ns"

text \<open>The position of the request the lane takes: the first in deadline order it can run or has to reject.\<close>

definition takes_request :: "'b JobWorkerPool \<Rightarrow> 'b Slot \<Rightarrow> u64 \<Rightarrow> JobRequestMessage \<Rightarrow> bool" where
  "takes_request p s dispatched_ns request \<longleftrightarrow>
     (pool_stale request p \<or> request_expired dispatched_ns request) \<or> registration_accepts (sl_registry s) request"

definition select_position :: "'b JobWorkerPool \<Rightarrow> 'b Slot \<Rightarrow> u64 \<Rightarrow> nat option" where
  "select_position p s dispatched_ns =
     fold (\<lambda>position selected.
       let request = jp_queue_storage p ! (jp_queue_order p ! position)
       in if \<not> takes_request p s dispatched_ns request then selected
          else case selected of
              None \<Rightarrow> Some position
            | Some q \<Rightarrow> if request_earlier request (jp_queue_storage p ! (jp_queue_order p ! q)) then Some position else selected)
       [0 ..< length (jp_queue_order p)] None"

definition load_slot :: "JobRequestMessage \<Rightarrow> u64 \<Rightarrow> 'b Slot \<Rightarrow> 'b Slot" where
  "load_slot request dispatched_ns s =
     s\<lparr>sl_request := copy_request request (sl_request s),
       sl_session_id := jd_session_id (jrqm_descriptor (jrq_metadata request)),
       sl_generation := jd_generation (jrqm_descriptor (jrq_metadata request)),
       sl_remaining_work_units := jd_total_work_units (jrqm_descriptor (jrq_metadata request)),
       sl_cancel_generation := 0, sl_preempted_ns := 0, sl_dispatched_ns := dispatched_ns,
       sl_started_ns := 0, sl_finished_ns := 0, sl_migration_bytes := 0, sl_resume_bytes := 0,
       sl_resume_completed_work_units := 0, sl_migration_started_ns := 0, sl_migration_completed_ns := 0,
       sl_migration_source := kNoWorker, sl_migrate_requested := False, sl_events_published := False\<rparr>"

definition reject_in_slot :: "u64 \<Rightarrow> JobResultCode \<Rightarrow> 'b Slot \<Rightarrow> 'b Slot" where
  "reject_in_slot dispatched_ns code s =
     s\<lparr>sl_result := snd (make_rejected_job_result (sl_result s) (sl_request s) dispatched_ns code),
       sl_started_ns := dispatched_ns, sl_finished_ns := dispatched_ns, sl_state := LS_kReady\<rparr>"

definition dispatched_event :: "'b Slot \<Rightarrow> u64 \<Rightarrow> nat \<Rightarrow> JobEventDetails" where
  "dispatched_event s dispatched_ns queue_depth =
     (let d = jrqm_descriptor (jrq_metadata (sl_request s))
      in (event_details EventKind_kDispatched d (make_progress JobState_kReady 0 (jd_total_work_units d))
            dispatched_ns (jrqm_service_class (jrq_metadata (sl_request s))))
           \<lparr>jdt_worker_index := of_nat (sl_index s), jdt_queue_depth := of_nat queue_depth\<rparr>)"

definition settle_slot :: "'b JobWorkerPool \<Rightarrow> u64 \<Rightarrow> 'b Slot \<Rightarrow> 'b Slot" where
  "settle_slot p dispatched_ns s =
     (if pool_stale (sl_request s) p then reject_in_slot dispatched_ns ResultCode_kRejectedStale s
      else if request_expired dispatched_ns (sl_request s) then reject_in_slot dispatched_ns ResultCode_kRejectedDeadline s
      else s\<lparr>sl_state := LS_kRequested\<rparr>)"

definition dequeue :: "nat \<Rightarrow> 'b JobWorkerPool \<Rightarrow> 'b JobWorkerPool" where
  "dequeue position p =
     p\<lparr>jp_queue_order := take position (jp_queue_order p) @ drop (Suc position) (jp_queue_order p),
       jp_free_queue_slots := jp_free_queue_slots p @ [jp_queue_order p ! position]\<rparr>"

definition dispatch_one :: "nat \<Rightarrow> 'b JobWorkerPool \<Rightarrow> bool \<times> 'b JobWorkerPool" where
  "dispatch_one index p0 =
     (if sl_drain_requested (jp_slots p0 ! index) then (False, p0)
      else
        let (dispatched_ns, p) = monotonic_ns p0
        in case select_position p (jp_slots p ! index) dispatched_ns of
             None \<Rightarrow> (False, p)
           | Some position \<Rightarrow>
               let request = jp_queue_storage p ! (jp_queue_order p ! position);
                   p1 = upd_slot index (load_slot request dispatched_ns) (dequeue position p);
                   s = jp_slots p1 ! index;
                   p2 = pool_emit (me_sequence (jrq_envelope (sl_request s)))
                          (dispatched_event s dispatched_ns (length (jp_queue_order p1))) p1
               in (True, upd_slot index (settle_slot p2 dispatched_ns) p2))"

definition migration_target :: "'b JobWorkerPool \<Rightarrow> 'b Slot \<Rightarrow> 'b Slot \<Rightarrow> bool" where
  "migration_target p source candidate \<longleftrightarrow>
     \<not> (sl_index candidate = sl_index source \<or> sl_drain_requested candidate \<or>
        \<not> registration_accepts (sl_registry candidate) (sl_request source) \<or>
        length (sl_migration_storage candidate) < sl_migration_bytes source)"

text \<open>A migrated job moves to its new lane; the two slots that change are written one after the other.\<close>

definition receive_migration :: "'b Slot \<Rightarrow> 'b Slot \<Rightarrow> 'b Slot" where
  "receive_migration source s =
     s\<lparr>sl_migration_storage := blit (sl_migration_storage s) 0 (take (sl_migration_bytes source) (sl_migration_storage source)),
       sl_request := copy_request (sl_request source) (sl_request s),
       sl_session_id := sl_session_id source, sl_generation := sl_generation source,
       sl_remaining_work_units := sl_remaining_work_units source,
       sl_cancel_generation := sl_cancel_generation source, sl_preempted_ns := sl_preempted_ns source,
       sl_dispatched_ns := sl_dispatched_ns source, sl_started_ns := sl_started_ns source, sl_finished_ns := 0,
       sl_resume_bytes := sl_migration_bytes source,
       sl_resume_completed_work_units := sl_resume_completed_work_units source,
       sl_migration_started_ns := sl_migration_started_ns source, sl_migration_completed_ns := 0,
       sl_migration_source := of_nat (sl_index source), sl_migration_bytes := 0,
       sl_events_published := False, sl_execution_failed := False, sl_state := LS_kRequested\<rparr>"

definition leave_migration :: "'b Slot \<Rightarrow> 'b Slot" where
  "leave_migration s = s\<lparr>sl_migration_bytes := 0, sl_remaining_work_units := 0, sl_session_id := 0,
     sl_generation := 0, sl_state := LS_kDrained\<rparr>"

definition resume_here :: "'b Slot \<Rightarrow> 'b Slot" where
  "resume_here s = s\<lparr>sl_resume_bytes := sl_migration_bytes s, sl_migration_bytes := 0,
     sl_migrate_requested := False, sl_migration_started_ns := 0, sl_state := LS_kRequested\<rparr>"

definition handoff_one :: "nat \<Rightarrow> 'b JobWorkerPool \<Rightarrow> 'b JobWorkerPool" where
  "handoff_one i p =
     (let source = jp_slots p ! i
      in if sl_state source \<noteq> LS_kMigrationReady then p
         else
           let target = (\<lambda>j. migration_target p source (jp_slots p ! j))
           in case find (\<lambda>j. target j \<and> sl_state (jp_slots p ! j) = LS_kIdle) [0 ..< length (jp_slots p)] of
                None \<Rightarrow> if list_ex target [0 ..< length (jp_slots p)] then p else upd_slot i resume_here p
              | Some j \<Rightarrow> upd_slot j (receive_migration source) (upd_slot i leave_migration p))"

definition handoff_migrations :: "'b JobWorkerPool \<Rightarrow> 'b JobWorkerPool" where
  "handoff_migrations p = fold handoff_one [0 ..< length (jp_slots p)] p"

definition pump_step :: "nat \<Rightarrow> 'b JobWorkerPool \<Rightarrow> 'b JobWorkerPool" where
  "pump_step checked p =
     (if jp_queue_order p = [] then p
      else
        let index = (jp_dispatch_cursor p + checked) mod length (jp_slots p); s = jp_slots p ! index
        in if sl_drain_requested s \<or> sl_state s \<noteq> LS_kIdle then p
           else let (dispatched, p1) = dispatch_one index p
             in if dispatched then p1\<lparr>jp_dispatch_cursor := (index + 1) mod length (jp_slots p1)\<rparr> else p1)"

definition pump :: "'b JobWorkerPool \<Rightarrow> 'b JobWorkerPool" where
  "pump p =
     (let p1 = (if jp_migration_capacity_bytes p \<noteq> 0 then handoff_migrations p else p)
      in fold pump_step [0 ..< length (jp_slots p1)] p1)"

subsection \<open>Cancellation and submission\<close>

definition cancel_lane :: "u64 \<Rightarrow> u64 \<Rightarrow> u64 \<Rightarrow> nat \<Rightarrow> 'b JobWorkerPool \<Rightarrow> 'b JobWorkerPool" where
  "cancel_lane session_id watermark now_ns index p =
     (let s = jp_slots p ! index
      in if sl_session_id s \<noteq> session_id \<or> sl_generation s \<ge> watermark then p
         else if lane_busy s then
           let d = jrqm_descriptor (jrq_metadata (sl_request s)); remaining = sl_remaining_work_units s
           in pool_emit (me_sequence (jrq_envelope (sl_request s)))
                ((event_details EventKind_kPreempted d
                   (make_progress JobState_kRunning (jd_total_work_units d - remaining) remaining) now_ns
                   (jrqm_service_class (jrq_metadata (sl_request s))))
                 \<lparr>jdt_related_generation := watermark, jdt_worker_index := of_nat index\<rparr>)
                (upd_slot index (\<lambda>s. s\<lparr>sl_cancel_generation := max (sl_cancel_generation s) watermark,
                                      sl_preempted_ns := now_ns\<rparr>) p)
         else if sl_state s = LS_kReady then
           upd_slot index (\<lambda>s. s\<lparr>sl_result := snd (make_rejected_job_result (sl_result s) (sl_request s) now_ns
                                    ResultCode_kRejectedStale)\<rparr>) p
         else p)"

definition cancel_lanes :: "u64 \<Rightarrow> u64 \<Rightarrow> 'b JobWorkerPool \<Rightarrow> 'b JobWorkerPool" where
  "cancel_lanes session_id watermark p =
     (let (now_ns, p1) = monotonic_ns p
      in pump (fold (cancel_lane session_id watermark now_ns) [0 ..< length (jp_slots p1)] p1))"

definition pool_cancel_before :: "u64 \<Rightarrow> u64 \<Rightarrow> 'b JobWorkerPool \<Rightarrow> 'b JobWorkerPool" where
  "pool_cancel_before session_id generation p =
     (case session_index session_id p of
        None \<Rightarrow>
          (case free_session p of
             None \<Rightarrow> p
           | Some i \<Rightarrow> cancel_lanes session_id generation
               (p\<lparr>jp_sessions := (jp_sessions p)[i := \<lparr>sw_session_id = session_id, sw_generation = generation, sw_occupied = True\<rparr>]\<rparr>))
      | Some i \<Rightarrow>
          let watermark = max (sw_generation (jp_sessions p ! i)) generation
          in cancel_lanes session_id watermark
               (p\<lparr>jp_sessions := (jp_sessions p)[i := (jp_sessions p ! i)\<lparr>sw_generation := watermark\<rparr>]\<rparr>))"

definition enqueue_request :: "JobRequestMessage \<Rightarrow> 'b JobWorkerPool \<Rightarrow> 'b JobWorkerPool" where
  "enqueue_request request p =
     (let queue_slot = last (jp_free_queue_slots p)
      in p\<lparr>jp_free_queue_slots := butlast (jp_free_queue_slots p),
           jp_queue_storage := (jp_queue_storage p)[queue_slot := copy_request request (jp_queue_storage p ! queue_slot)],
           jp_queue_order := jp_queue_order p @ [queue_slot]\<rparr>)"

definition watermark_session :: "JobDescriptor \<Rightarrow> 'b JobWorkerPool \<Rightarrow> 'b JobWorkerPool" where
  "watermark_session d p =
     (case session_index (jd_session_id d) p of
        None \<Rightarrow> p\<lparr>jp_sessions := (jp_sessions p)[the (free_session p) :=
             \<lparr>sw_session_id = jd_session_id d, sw_generation = jd_generation d, sw_occupied = True\<rparr>]\<rparr>
      | Some i \<Rightarrow>
          if jd_generation d > sw_generation (jp_sessions p ! i)
          then pool_cancel_before (jd_session_id d) (jd_generation d)
                 (p\<lparr>jp_sessions := (jp_sessions p)[i := (jp_sessions p ! i)\<lparr>sw_generation := jd_generation d\<rparr>]\<rparr>)
          else p)"

definition pool_submit ::
  "JobRequestMessage \<Rightarrow> u64 \<Rightarrow> JobResultMessage option \<Rightarrow> 'b JobWorkerPool
    \<Rightarrow> JobSubmitResult \<times> JobResultMessage option \<times> 'b JobWorkerPool" where
  "pool_submit request now_ns rejection p =
     (let reject = (\<lambda>result code q. (result, publish_rejection rejection request now_ns code q));
          d = jrqm_descriptor (jrq_metadata request)
      in if validate_request request \<noteq> PR_kSuccess then reject JSR_kInvalid ResultCode_kInvalidRequest p
         else if \<not> supports_any request p then reject JSR_kAdapterNotFound ResultCode_kAdapterNotFound p
         else if \<not> has_accepting_worker request p then reject JSR_kFull ResultCode_kRejectedCapacity p
         else if pool_stale request p then reject JSR_kStale ResultCode_kRejectedStale p
         else if \<not> has_session_capacity (jd_session_id d) p \<or> length (jp_queue_order p) = length (jp_queue_storage p)
         then reject JSR_kFull ResultCode_kRejectedCapacity p
         else if \<not> has_qos_capacity (jrqm_service_class (jrq_metadata request)) p
         then reject JSR_kQosCapacity ResultCode_kRejectedQos (p\<lparr>jp_qos_rejection_count := jp_qos_rejection_count p + 1\<rparr>)
         else if \<not> pool_admissible request now_ns p then reject JSR_kDeadlineUnreachable ResultCode_kRejectedDeadline p
         else
           let p1 = enqueue_request request p;
               (timestamp_ns, p2) = time_or_now now_ns p1;
               p3 = pool_emit (me_sequence (jrq_envelope request))
                      ((event_details EventKind_kAdmitted d (make_progress JobState_kReady 0 (jd_total_work_units d))
                         timestamp_ns (jrqm_service_class (jrq_metadata request)))
                       \<lparr>jdt_queue_depth := of_nat (length (jp_queue_order p2))\<rparr>) p2
           in (JSR_kAccepted, rejection, pump (watermark_session d p3)))"

definition pool_release_session :: "u64 \<Rightarrow> 'b JobWorkerPool \<Rightarrow> bool \<times> 'b JobWorkerPool" where
  "pool_release_session session_id p =
     (case session_index session_id p of
        None \<Rightarrow> (True, p)
      | Some i \<Rightarrow>
          if list_ex (\<lambda>slot. jd_session_id (jrqm_descriptor (jrq_metadata (jp_queue_storage p ! slot))) = session_id) (jp_queue_order p)
          then (False, p)
          else if list_ex (\<lambda>s. sl_state s \<noteq> LS_kIdle \<and> sl_session_id s = session_id) (jp_slots p)
          then (False, p)
          else (True, p\<lparr>jp_sessions := (jp_sessions p)[i := default_session]\<rparr>))"

subsection \<open>Draining and recovery\<close>

definition request_worker_drain :: "nat \<Rightarrow> 'b JobWorkerPool \<Rightarrow> WorkerDrainResult \<times> 'b JobWorkerPool" where
  "request_worker_drain index p =
     (if index \<ge> length (jp_slots p) then (WDR_kInvalidWorker, p)
      else if sl_drain_requested (jp_slots p ! index) then (WDR_kAlreadyDraining, p)
      else if \<not> can_remove_worker index p then (WDR_kWouldStrandWork, p)
      else
        let p1 = upd_slot index (\<lambda>s. s\<lparr>sl_drain_requested := True\<rparr>) p; s = jp_slots p1 ! index
        in if sl_state s = LS_kIdle
           then (WDR_kStarted, upd_slot index (\<lambda>s. s\<lparr>sl_state := LS_kDrained, sl_session_id := 0, sl_generation := 0\<rparr>) p1)
           else
             let p2 = (if (sl_state s = LS_kRequested \<or> sl_state s = LS_kRunning) \<and>
                          sl_migration_source s = kNoWorker \<and> jp_migration_capacity_bytes p1 \<noteq> 0
                       then upd_slot index (\<lambda>s. s\<lparr>sl_migrate_requested :=
                              list_ex (\<lambda>candidate. sl_index candidate \<noteq> index \<and> \<not> sl_drain_requested candidate \<and>
                                registration_accepts (sl_registry candidate) (sl_request s)) (jp_slots p1)\<rparr>) p1
                       else p1)
             in (WDR_kStarted, pump p2))"

definition reopen_lane :: "'b Slot \<Rightarrow> 'b Slot" where
  "reopen_lane s = s\<lparr>sl_migrate_requested := False, sl_drain_requested := False, sl_state := LS_kIdle\<rparr>"

definition resume_worker :: "nat \<Rightarrow> 'b JobWorkerPool \<Rightarrow> bool \<times> 'b JobWorkerPool" where
  "resume_worker index p =
     (if index \<ge> length (jp_slots p) then (False, p)
      else if sl_quarantined (jp_slots p ! index) \<or> sl_state (jp_slots p ! index) \<noteq> LS_kDrained then (False, p)
      else (True, pump (upd_slot index reopen_lane p)))"

definition recover_worker :: "nat \<Rightarrow> 'b JobWorkerPool \<Rightarrow> WorkerRecoveryResult \<times> 'b JobWorkerPool" where
  "recover_worker index p =
     (if index \<ge> length (jp_slots p) then (WRR_kInvalidWorker, p)
      else if \<not> sl_quarantined (jp_slots p ! index) then (WRR_kNotQuarantined, p)
      else if sl_state (jp_slots p ! index) \<noteq> LS_kDrained then (WRR_kNotDrained, p)
      else (WRR_kRecovered,
            pump (upd_slot index (\<lambda>s. reopen_lane (s\<lparr>sl_consecutive_failures := 0, sl_quarantined := False\<rparr>)) p)))"

subsection \<open>Results\<close>

text \<open>A lane whose result has been consumed becomes idle, or drained when draining was requested.\<close>

definition vacate_lane :: "'b Slot \<Rightarrow> 'b Slot" where
  "vacate_lane s =
     (if sl_drain_requested s then s\<lparr>sl_session_id := 0, sl_generation := 0, sl_state := LS_kDrained\<rparr>
      else s\<lparr>sl_state := LS_kIdle\<rparr>)"

definition terminal_event :: "JobResultCode \<Rightarrow> JobEventKind" where
  "terminal_event code =
     (if code = ResultCode_kComplete then EventKind_kCompleted
      else if code = ResultCode_kCancelled then EventKind_kCancelled
      else if rejected_code code then EventKind_kRejected else EventKind_kFailed)"

definition emit_started :: "nat \<Rightarrow> 'b Slot \<Rightarrow> 'b JobWorkerPool \<Rightarrow> 'b JobWorkerPool" where
  "emit_started index s p =
     (let d = jrqm_descriptor (jrq_metadata (sl_request s)); c = jrqm_service_class (jrq_metadata (sl_request s));
          sequence = me_sequence (jrq_envelope (sl_request s));
          migrated = sl_migration_source s \<noteq> kNoWorker;
          p1 = pool_emit sequence
                 ((event_details EventKind_kStarted d (make_progress JobState_kRunning 0 (jd_total_work_units d))
                    (sl_started_ns s) c)
                  \<lparr>jdt_worker_index := (if migrated then sl_migration_source s else of_nat index)\<rparr>) p;
          moved = make_progress JobState_kRunning (sl_resume_completed_work_units s)
                    (jd_total_work_units d - sl_resume_completed_work_units s)
      in if \<not> migrated then p1
         else
           let p2 = pool_emit sequence
                 ((event_details EventKind_kMigrationStarted d moved (sl_migration_started_ns s) c)
                  \<lparr>jdt_worker_index := sl_migration_source s, jdt_peer_worker_index := of_nat index\<rparr>) p1
           in if sl_migration_completed_ns s = 0 then p2
              else pool_emit sequence
                 ((event_details EventKind_kMigrationCompleted d moved (sl_migration_completed_ns s) c)
                  \<lparr>jdt_worker_index := of_nat index, jdt_peer_worker_index := sl_migration_source s\<rparr>) p2)"

definition emit_result :: "nat \<Rightarrow> 'b JobWorkerPool \<Rightarrow> 'b JobWorkerPool" where
  "emit_result index p =
     (let s = jp_slots p ! index; code = job_result_code (sl_result s); m = jrs_metadata (sl_result s);
          p1 = (if rejected_code code then p else emit_started index s p);
          requested = jrqm_timestamp_ns (jrq_metadata (sl_request s))
      in pool_emit (me_sequence (jrs_envelope (sl_result s)))
           ((event_details (terminal_event code) (jrsm_descriptor m) (jrsm_progress m) (sl_finished_ns s)
              (jrqm_service_class (jrq_metadata (sl_request s))))
            \<lparr>jdt_timing := \<lparr>jet_queue_ns = elapsed requested (sl_started_ns s),
                 jet_execution_ns = elapsed (sl_started_ns s) (sl_finished_ns s),
                 jet_end_to_end_ns = elapsed requested (sl_finished_ns s),
                 jet_cancellation_ns = elapsed (sl_preempted_ns s) (sl_finished_ns s)\<rparr>,
             jdt_worker_index := of_nat index, jdt_result_code := code\<rparr>) p1)"

text \<open>The scan of \<open>ready_result\<close> over the values of \<open>checked\<close> that are left.\<close>

fun ready_scan :: "nat list \<Rightarrow> 'b JobWorkerPool \<Rightarrow> JobResultMessage option \<times> 'b JobWorkerPool" where
  "ready_scan [] p = (None, p)"
| "ready_scan (checked # rest) p =
     (let index = (jp_ready_cursor p + checked) mod length (jp_slots p)
      in if sl_state (jp_slots p ! index) \<noteq> LS_kReady then ready_scan rest p
         else
           let execution_failed = sl_execution_failed (jp_slots p ! index);
               p1 = upd_slot index (\<lambda>s. s\<lparr>sl_execution_failed := False\<rparr>) p;
               valid_result = (validate_result (sl_result (jp_slots p1 ! index)) = PR_kSuccess);
               p2 = (if execution_failed \<or> \<not> valid_result then record_worker_failure index p1 else p1)
           in if \<not> valid_result
              then
                let p3 = upd_slot index (\<lambda>s. vacate_lane (s\<lparr>sl_migration_source := kNoWorker,
                                           sl_resume_completed_work_units := 0\<rparr>)) p2
                in ready_scan rest (pump (p3\<lparr>jp_ready_cursor := (index + 1) mod length (jp_slots p3)\<rparr>))
              else
                let p3 = (if job_result_code (sl_result (jp_slots p2 ! index)) = ResultCode_kComplete
                          then upd_slot index (\<lambda>s. s\<lparr>sl_consecutive_failures := 0\<rparr>) p2 else p2);
                    p4 = (if sl_events_published (jp_slots p3 ! index) then p3
                          else upd_slot index (\<lambda>s. s\<lparr>sl_events_published := True\<rparr>) (emit_result index p3))
                in (Some (sl_result (jp_slots p4 ! index)), p4\<lparr>jp_ready_index := Some index\<rparr>))"

definition ready_result :: "'b JobWorkerPool \<Rightarrow> JobResultMessage option \<times> 'b JobWorkerPool" where
  "ready_result p =
     (let p1 = (if jp_migration_capacity_bytes p \<noteq> 0 then handoff_migrations p else p)
      in case jp_ready_index p1 of
           None \<Rightarrow> ready_scan [0 ..< length (jp_slots p1)] p1
         | Some i \<Rightarrow>
             if sl_state (jp_slots p1 ! i) = LS_kReady then (Some (sl_result (jp_slots p1 ! i)), p1)
             else ready_scan [0 ..< length (jp_slots p1)] (p1\<lparr>jp_ready_index := None\<rparr>))"

definition ready_timing :: "'b JobWorkerPool \<Rightarrow> JobWorkerTiming" where
  "ready_timing p =
     (case jp_ready_index p of
        None \<Rightarrow> \<lparr>wt_dispatched_ns = 0, wt_started_ns = 0, wt_finished_ns = 0\<rparr>
      | Some i \<Rightarrow>
          let s = jp_slots p ! i
          in if sl_state s \<noteq> LS_kReady then \<lparr>wt_dispatched_ns = 0, wt_started_ns = 0, wt_finished_ns = 0\<rparr>
             else \<lparr>wt_dispatched_ns = sl_dispatched_ns s, wt_started_ns = sl_started_ns s, wt_finished_ns = sl_finished_ns s\<rparr>)"

definition release_ready_result :: "'b JobWorkerPool \<Rightarrow> 'b JobWorkerPool" where
  "release_ready_result p =
     (case jp_ready_index p of
        None \<Rightarrow> p
      | Some i \<Rightarrow>
          pump (upd_slot i (\<lambda>s. vacate_lane (s\<lparr>sl_remaining_work_units := 0, sl_migration_source := kNoWorker,
                                  sl_resume_completed_work_units := 0\<rparr>))
            (p\<lparr>jp_ready_cursor := (i + 1) mod length (jp_slots p), jp_ready_index := None\<rparr>)))"

text \<open>The state after the worker threads have been joined.\<close>

definition pool_stop :: "'b JobWorkerPool \<Rightarrow> 'b JobWorkerPool" where
  "pool_stop p = p\<lparr>jp_slots := [], jp_queue_order := [], jp_ready_index := None\<rparr>"

subsection \<open>Worker threads\<close>

text \<open>Thread start: what the operating system says about the placement of the thread.\<close>

definition worker_start :: "WorkerBinding \<Rightarrow> nat \<Rightarrow> 'b JobWorkerPool \<Rightarrow> 'b JobWorkerPool" where
  "worker_start binding index p = upd_slot index (\<lambda>s. s\<lparr>sl_binding := binding\<rparr>) p"

definition clear_result :: "'b Slot \<Rightarrow> 'b Slot" where
  "clear_result s = s\<lparr>sl_result := (sl_result s)\<lparr>jrs_envelope := default_envelope,
     jrs_metadata := jrs_metadata default_result\<rparr>, sl_execution_failed := False\<rparr>"

text \<open>The result is published last.\<close>

definition publish_ready :: "nat \<Rightarrow> 'b JobWorkerPool \<Rightarrow> 'b JobWorkerPool" where
  "publish_ready index p =
     (let (now_ns, p1) = monotonic_ns p
      in upd_slot index (\<lambda>s. s\<lparr>sl_remaining_work_units := 0, sl_finished_ns := now_ns, sl_state := LS_kReady\<rparr>) p1)"

definition worker_bind_failed :: "nat \<Rightarrow> JobRouteError \<Rightarrow> 'b JobWorkerPool \<Rightarrow> 'b JobWorkerPool" where
  "worker_bind_failed index e p =
     (let code = (if jre_code e = JRE_kAdapterNotFound then ResultCode_kAdapterNotFound else ResultCode_kFailed);
          (now_ns, p1) = monotonic_ns p
      in publish_ready index (upd_slot index (\<lambda>s. s\<lparr>sl_result := make_failed_result (sl_result s) (sl_request s) now_ns code,
            sl_execution_failed := True\<rparr>) p1))"

definition begin_job :: "bool \<Rightarrow> 'b Slot \<Rightarrow> 'b RoutedJob \<Rightarrow> (JobError + JobProgress) \<times> 'b RoutedJob" where
  "begin_job resuming s routed =
     (if resuming then rj_restore_capsule (take (sl_resume_bytes s) (sl_migration_storage s)) routed else rj_start routed)"

definition apply_cancel :: "u64 \<Rightarrow> (JobError + JobProgress) \<times> 'b RoutedJob \<Rightarrow> (JobError + JobProgress) \<times> 'b RoutedJob" where
  "apply_cancel cancel_generation r =
     (if \<not> isl (fst r) \<and> cancel_generation > jd_generation (cj_descriptor (rj_job (snd r)))
      then let (progress, routed) = rj_cancel_before cancel_generation (snd r) in (Inr progress, routed)
      else r)"

definition worker_run :: "nat \<Rightarrow> bool \<Rightarrow> 'b RoutedJob \<Rightarrow> 'b JobWorkerPool \<Rightarrow> 'b JobWorkerPool" where
  "worker_run index resuming routed p =
     (let s = jp_slots p ! index;
          started = apply_cancel (sl_cancel_generation s) (begin_job resuming s routed);
          failed = isl (fst started);
          (now_ns, p1) = (if resuming \<and> \<not> failed then monotonic_ns p else (sl_migration_completed_ns s, p))
      in upd_slot index (\<lambda>s. s\<lparr>sl_state := LS_kRunning, sl_resume_bytes := 0, sl_migration_completed_ns := now_ns,
            sl_execution_failed := sl_execution_failed s \<or> failed,
            sl_thread := Some (snd started, fst started)\<rparr>) p1)"

definition worker_begin :: "nat \<Rightarrow> 'b JobWorkerPool \<Rightarrow> 'b JobWorkerPool" where
  "worker_begin index p0 =
     (let resuming = (sl_resume_bytes (jp_slots p0 ! index) \<noteq> 0);
          p1 = upd_slot index clear_result p0;
          p2 = (if resuming then p1
                else let (now_ns, q) = monotonic_ns p1 in upd_slot index (\<lambda>s. s\<lparr>sl_started_ns := now_ns\<rparr>) q);
          s = jp_slots p2 ! index;
          (routed, backends) = registry_bind (sl_request s) (sl_registry s) (sl_backends s);
          p3 = upd_slot index (\<lambda>s. s\<lparr>sl_backends := backends\<rparr>) p2
      in case routed of
           Inl e \<Rightarrow> worker_bind_failed index e p3
         | Inr r \<Rightarrow> worker_run index resuming r p3)"

definition running_progress :: "JobError + JobProgress \<Rightarrow> bool" where
  "running_progress progress = (case progress of Inl _ \<Rightarrow> False | Inr p \<Rightarrow> jp_state p = JobState_kRunning)"

definition advance_lane :: "'b RoutedJob \<Rightarrow> 'b Slot \<Rightarrow> 'b Slot" where
  "advance_lane routed s =
     (let (progress, routed1) = rj_advance (sl_work_quantum s) (sl_cancel_generation s) routed;
          s1 = s\<lparr>sl_thread := Some (routed1, progress)\<rparr>
      in case progress of
           Inl _ \<Rightarrow> s1\<lparr>sl_execution_failed := True\<rparr>
         | Inr pr \<Rightarrow> s1\<lparr>sl_remaining_work_units := jp_remaining_work_units pr\<rparr>)"

text \<open>One iteration of the loop; the job keeps the lane, or it has been exported and leaves it.\<close>

definition worker_slice :: "nat \<Rightarrow> 'b JobWorkerPool \<Rightarrow> 'b JobWorkerPool" where
  "worker_slice index p =
     (let s = jp_slots p ! index
      in case sl_thread s of
           Some (routed, Inr progress) \<Rightarrow>
             if sl_migration_storage s = [] \<or> \<not> sl_migrate_requested s then upd_slot index (advance_lane routed) p
             else
               let (now_ns, p1) = monotonic_ns p
               in case rj_export_capsule (sl_migration_storage s) routed of
                    Inr (n, bytes) \<Rightarrow>
                      upd_slot index (\<lambda>s. s\<lparr>sl_migration_started_ns := now_ns, sl_migration_storage := bytes,
                        sl_migration_bytes := n, sl_resume_completed_work_units := jp_completed_work_units progress,
                        sl_remaining_work_units := jp_remaining_work_units progress,
                        sl_backends := rj_release routed (sl_backends s), sl_thread := None,
                        sl_state := LS_kMigrationReady\<rparr>) p1
                  | Inl _ \<Rightarrow> upd_slot index (\<lambda>s. advance_lane routed
                        (s\<lparr>sl_migration_started_ns := now_ns, sl_migrate_requested := False\<rparr>)) p1
         | _ \<Rightarrow> p)"

definition worker_finish :: "nat \<Rightarrow> 'b JobWorkerPool \<Rightarrow> 'b JobWorkerPool" where
  "worker_finish index p =
     (let s = jp_slots p ! index
      in case sl_thread s of
           None \<Rightarrow> p
         | Some (routed, progress) \<Rightarrow>
             let (now_ns, p1) = monotonic_ns p;
                 (p2, result, failed) =
                   (if sl_execution_failed s
                    then (p1, make_failed_result (sl_result s) (sl_request s) now_ns ResultCode_kFailed, True)
                    else
                      let (written, m) = rj_write_result (sl_result s) now_ns routed
                      in if written = PR_kSuccess then (p1, m, False)
                         else let (later_ns, q) = monotonic_ns p1
                           in (q, make_failed_result m (sl_request s) later_ns ResultCode_kFailed, True))
             in publish_ready index
                  (upd_slot index (\<lambda>s. s\<lparr>sl_result := result\<lparr>jrs_metadata := (jrs_metadata result)
                       \<lparr>jrsm_service_class := jrqm_service_class (jrq_metadata (sl_request s))\<rparr>\<rparr>,
                     sl_execution_failed := failed, sl_backends := rj_release routed (sl_backends s),
                     sl_thread := None\<rparr>) p2))"

section \<open>The pool as a state machine\<close>

text \<open>
  The calls of the coordinator and the steps of the worker threads that neither take in nor give
  away a job, and then all calls and steps, in any order.
\<close>

inductive pool_quiet :: "'b JobWorkerPool \<Rightarrow> 'b JobWorkerPool \<Rightarrow> bool" where
  pq_cancel: "pool_quiet p (pool_cancel_before session_id generation p)"
| pq_release_session: "pool_quiet p (snd (pool_release_session session_id p))"
| pq_drain: "pool_quiet p (snd (request_worker_drain index p))"
| pq_resume: "pool_quiet p (snd (resume_worker index p))"
| pq_recover: "pool_quiet p (snd (recover_worker index p))"
| pq_ready: "pool_quiet p (snd (ready_result p))"
| pq_start: "index < length (jp_slots p) \<Longrightarrow> pool_quiet p (worker_start binding index p)"
| pq_begin: "index < length (jp_slots p) \<Longrightarrow> sl_state (jp_slots p ! index) = LS_kRequested \<Longrightarrow>
    pool_quiet p (worker_begin index p)"
| pq_slice: "index < length (jp_slots p) \<Longrightarrow> sl_thread (jp_slots p ! index) = Some (routed, progress) \<Longrightarrow>
    running_progress progress \<Longrightarrow> pool_quiet p (worker_slice index p)"
| pq_finish: "index < length (jp_slots p) \<Longrightarrow> sl_thread (jp_slots p ! index) = Some (routed, progress) \<Longrightarrow>
    \<not> running_progress progress \<Longrightarrow> pool_quiet p (worker_finish index p)"

inductive pool_step :: "'b JobWorkerPool \<Rightarrow> 'b JobWorkerPool \<Rightarrow> bool" where
  ps_submit: "pool_submit request now_ns rejection p = (r, rejection', p') \<Longrightarrow> request_wf request \<Longrightarrow> pool_step p p'"
| ps_release: "pool_step p (release_ready_result p)"
| ps_quiet: "pool_quiet p p' \<Longrightarrow> pool_step p p'"

inductive_cases pool_quietE: "pool_quiet p p'"

inductive_cases pool_stepE: "pool_step p p'"

definition pool_init :: "'b JobWorkerPool \<Rightarrow> bool" where
  "pool_init p \<longleftrightarrow>
     (\<exists>alloc lanes capacity cost sessions quantum events migration qos supervision clock.
        pool_create alloc lanes capacity cost sessions quantum events migration qos supervision clock = Inr p \<and>
        (\<forall>(g, backends) \<in> set lanes. reach registry_init registry_step g))"

end
