(* ===== verification/Job_Pool_Invariant.thy ===== *)
theory Job_Pool_Invariant
  imports Job_Pool "HOL-Library.Product_Lexorder"
begin

text \<open>
  The invariant of the worker pool and the multiset of pending jobs, and that every call of the
  coordinator and every step of a worker keeps them. \<open>pending\<close> counts each request once, whether it
  is queued, on a lane or finished and not yet released; payload bytes beyond the request's size
  are not part of it.

  The lemmas go bottom up: an update of one slot (\<open>upd_slot_keeps\<close>), the emitted events and clock
  readings, which change neither, one dispatch, one hand-over, and then the loops as folds over
  steps that keep the invariant (\<open>fold_keeps\<close>).
\<close>

section \<open>Definitions\<close>

type_synonym request_view = "MessageEnvelope \<times> JobRequestMetadata \<times> byte list"

definition view_request :: "JobRequestMessage \<Rightarrow> request_view" where
  "view_request m = (jrq_envelope m, jrq_metadata m, request_payload_values m)"

definition occupied :: "'b Slot \<Rightarrow> bool" where
  "occupied s \<longleftrightarrow> lane_busy s \<or> sl_state s = LS_kReady"

definition lane_jobs :: "'b Slot \<Rightarrow> request_view multiset" where
  "lane_jobs s = (if occupied s then {#view_request (sl_request s)#} else {#})"

definition queued_jobs :: "'b JobWorkerPool \<Rightarrow> request_view multiset" where
  "queued_jobs p = image_mset (\<lambda>q. view_request (jp_queue_storage p ! q)) (mset (jp_queue_order p))"

definition pending :: "'b JobWorkerPool \<Rightarrow> request_view multiset" where
  "pending p = queued_jobs p + sum_list (map lane_jobs (jp_slots p))"

definition result_for :: "JobRequestMessage \<Rightarrow> JobResultMessage \<Rightarrow> bool" where
  "result_for rq m \<longleftrightarrow> validate_result m = PR_kSuccess \<and> jrsm_descriptor (jrs_metadata m) = jrqm_descriptor (jrq_metadata rq) \<and>
     me_sequence (jrs_envelope m) = me_sequence (jrq_envelope rq) \<and>
     jrsm_service_class (jrs_metadata m) = jrqm_service_class (jrq_metadata rq) \<and> job_result_code m \<noteq> ResultCode_kProgress"

definition thread_ok :: "'b Slot \<Rightarrow> 'b RoutedJob \<Rightarrow> JobError + JobProgress \<Rightarrow> bool" where
  "thread_ok s r progress \<longleftrightarrow> job_inv (rj_job r) \<and>
     cj_descriptor (rj_job r) = jrqm_descriptor (jrq_metadata (sl_request s)) \<and>
     rj_sequence r = me_sequence (jrq_envelope (sl_request s)) \<and>
     rj_service_class r = jrqm_service_class (jrq_metadata (sl_request s)) \<and>
     rj_max_result_bytes r \<le> kMaxJobPayloadBytes \<and>
     sl_execution_failed s = isl progress \<and>
     (\<forall>q. progress = Inr q \<longrightarrow> q = cj_progress (rj_job r) \<and> cj_state (rj_job r) \<noteq> JobState_kReady)"

definition slot_ok :: "'b Slot \<Rightarrow> bool" where
  "slot_ok s \<longleftrightarrow> sl_work_quantum s \<noteq> 0 \<and> registry_inv (sl_registry s) \<and> jg_frozen (sl_registry s) \<and> result_wf (sl_result s) \<and>
     request_wf (sl_request s) \<and> (sl_quarantined s \<longrightarrow> sl_drain_requested s) \<and>
     (sl_state s = LS_kDrained \<or> sl_state s = LS_kMigrationReady \<or> sl_migrate_requested s \<longrightarrow> sl_drain_requested s) \<and>
     (occupied s \<longrightarrow> validate_request (sl_request s) = PR_kSuccess \<and>
        sl_session_id s = jd_session_id (jrqm_descriptor (jrq_metadata (sl_request s))) \<and>
        sl_generation s = jd_generation (jrqm_descriptor (jrq_metadata (sl_request s)))) \<and>
     (sl_state s = LS_kReady \<longrightarrow> result_for (sl_request s) (sl_result s)) \<and>
     (sl_state s = LS_kRunning \<longleftrightarrow> sl_thread s \<noteq> None) \<and>
     (\<forall>r progress. sl_thread s = Some (r, progress) \<longrightarrow> thread_ok s r progress)"

definition slots_ok :: "'b JobWorkerPool \<Rightarrow> bool" where
  "slots_ok p \<longleftrightarrow> jp_slots p \<noteq> [] \<and> (\<forall>i < length (jp_slots p). sl_index (jp_slots p ! i) = i \<and> slot_ok (jp_slots p ! i))"

definition queue_ok :: "'b JobWorkerPool \<Rightarrow> bool" where
  "queue_ok p \<longleftrightarrow> mset (jp_queue_order p) + mset (jp_free_queue_slots p) = mset [0 ..< length (jp_queue_storage p)] \<and>
     (\<forall>m \<in> set (jp_queue_storage p). request_wf m) \<and>
     (\<forall>q \<in> set (jp_queue_order p). validate_request (jp_queue_storage p ! q) = PR_kSuccess \<and>
        has_accepting_worker (jp_queue_storage p ! q) p)"

definition ready_ok :: "'b JobWorkerPool \<Rightarrow> bool" where
  "ready_ok p \<longleftrightarrow>
     (\<forall>i. jp_ready_index p = Some i \<longrightarrow> i < length (jp_slots p) \<and> sl_state (jp_slots p ! i) = LS_kReady)"

definition pool_inv :: "'b JobWorkerPool \<Rightarrow> bool" where
  "pool_inv p \<longleftrightarrow> slots_ok p \<and> queue_ok p \<and> ready_ok p"

text \<open>What a call on a pool of \<open>n\<close> lanes that neither accepts nor releases a job does.\<close>

definition keeps :: "nat \<Rightarrow> ('b JobWorkerPool \<Rightarrow> 'b JobWorkerPool) \<Rightarrow> bool" where
  "keeps n f \<longleftrightarrow> (\<forall>p. pool_inv p \<and> length (jp_slots p) = n \<longrightarrow>
     pool_inv (f p) \<and> pending (f p) = pending p \<and> length (jp_slots (f p)) = n)"

section \<open>Lemmas\<close>

lemma keepsI:
  assumes "\<And>p. pool_inv p \<Longrightarrow> length (jp_slots p) = n \<Longrightarrow>
    pool_inv (f p) \<and> pending (f p) = pending p \<and> length (jp_slots (f p)) = length (jp_slots p)"
  shows "keeps n f"
  using assms by (simp add: keeps_def)

lemma keepsD:
  assumes "keeps (length (jp_slots p)) f" "pool_inv p"
  shows "pool_inv (f p)" "pending (f p) = pending p" "length (jp_slots (f p)) = length (jp_slots p)"
  using assms by (simp_all add: keeps_def)

lemma fold_keeps:
  assumes "\<And>x. x \<in> set xs \<Longrightarrow> keeps n (f x)"
  shows "keeps n (fold f xs)"
  using assms by (induction xs) (auto simp: keeps_def)

lemma keeps_comp: "keeps n f \<Longrightarrow> keeps n g \<Longrightarrow> keeps n (\<lambda>p. f (g p))"
  by (simp add: keeps_def)

lemma keeps_if: "keeps n f \<Longrightarrow> keeps n g \<Longrightarrow> keeps n (\<lambda>p. if b p then f p else g p)"
  by (simp add: keeps_def)

lemma keeps_id: "keeps n (\<lambda>p. p)"
  by (simp add: keeps_def)

subsection \<open>Requests\<close>

lemma copy_request_sel [simp]:
  "jrq_envelope (copy_request a b) = jrq_envelope a" "jrq_metadata (copy_request a b) = jrq_metadata a"
  by (simp_all add: copy_request_def Let_def)

lemma copy_request_view:
  assumes "request_wf a" "request_wf b"
  shows "view_request (copy_request a b) = view_request a" "request_wf (copy_request a b)"
    "validate_request (copy_request a b) = validate_request a"
proof -
  let ?n = "min (unat (jrqm_payload_bytes (jrq_metadata a))) kMaxJobPayloadBytes"
  have n: "wire_size_request a - (sizeof_MessageEnvelope + sizeof_JobRequestMetadata) = ?n"
    by (simp add: wire_size_request_def)
  have "?n \<le> length (jrq_payload a)" using assms(1) by (simp add: request_wf_def)
  then show "view_request (copy_request a b) = view_request a" "request_wf (copy_request a b)"
    using assms by (simp_all add: view_request_def request_payload_values_def copy_request_def n request_wf_def Let_def)
  show "validate_request (copy_request a b) = validate_request a"
    by (simp add: validate_request_def wire_size_request_def)
qed

lemma registration_accepts_copy [simp]: "registration_accepts g (copy_request a b) = registration_accepts g a"
  by (simp add: registration_accepts_def split: option.splits)

lemma has_accepting_copy [simp]: "has_accepting_worker (copy_request a b) p = has_accepting_worker a p"
  by (simp add: has_accepting_worker_def)

subsection \<open>Parts of the state that do not matter\<close>

lemma pool_inv_upd [simp]:
  "pool_inv (p\<lparr>jp_events := e\<rparr>) = pool_inv p" "pool_inv (p\<lparr>jp_ticks := t\<rparr>) = pool_inv p"
  "pool_inv (p\<lparr>jp_dispatch_cursor := c\<rparr>) = pool_inv p" "pool_inv (p\<lparr>jp_ready_cursor := c\<rparr>) = pool_inv p"
  "pool_inv (p\<lparr>jp_failure_count := n\<rparr>) = pool_inv p" "pool_inv (p\<lparr>jp_quarantine_count := n\<rparr>) = pool_inv p"
  "pool_inv (p\<lparr>jp_qos_rejection_count := n\<rparr>) = pool_inv p" "pool_inv (p\<lparr>jp_sessions := ss\<rparr>) = pool_inv p"
  by (simp_all add: pool_inv_def slots_ok_def queue_ok_def ready_ok_def has_accepting_worker_def)

lemma pending_upd [simp]:
  "pending (p\<lparr>jp_events := e\<rparr>) = pending p" "pending (p\<lparr>jp_ticks := t\<rparr>) = pending p"
  "pending (p\<lparr>jp_dispatch_cursor := c\<rparr>) = pending p" "pending (p\<lparr>jp_ready_cursor := c\<rparr>) = pending p"
  "pending (p\<lparr>jp_failure_count := n\<rparr>) = pending p" "pending (p\<lparr>jp_quarantine_count := n\<rparr>) = pending p"
  "pending (p\<lparr>jp_qos_rejection_count := n\<rparr>) = pending p" "pending (p\<lparr>jp_sessions := ss\<rparr>) = pending p"
  "pending (p\<lparr>jp_ready_index := r\<rparr>) = pending p" "pending (p\<lparr>jp_free_queue_slots := fs\<rparr>) = pending p"
  by (simp_all add: pending_def queued_jobs_def)

lemma pool_stale_cong: "jp_sessions p = jp_sessions p' \<Longrightarrow> pool_stale r p = pool_stale r p'"
  by (cases "session_index (jd_session_id (jrqm_descriptor (jrq_metadata r))) p'") (simp_all add: pool_stale_def session_index_def)

lemma pool_emit_events: "\<exists>e. pool_emit sq d p = p\<lparr>jp_events := e\<rparr>"
proof (cases "pool_emit sq d p = p")
  case True
  then show ?thesis by (intro exI [of _ "jp_events p"]) simp
next
  case False
  then show ?thesis by (auto simp: pool_emit_def Let_def split: option.splits prod.splits if_splits)
qed

lemma pool_emit_sel [simp]:
  "jp_slots (pool_emit sq d p) = jp_slots p" "jp_sessions (pool_emit sq d p) = jp_sessions p"
  "jp_queue_order (pool_emit sq d p) = jp_queue_order p" "jp_queue_storage (pool_emit sq d p) = jp_queue_storage p"
  "jp_free_queue_slots (pool_emit sq d p) = jp_free_queue_slots p" "jp_ready_index (pool_emit sq d p) = jp_ready_index p"
  "jp_migration_capacity_bytes (pool_emit sq d p) = jp_migration_capacity_bytes p"
  "jp_supervision_policy (pool_emit sq d p) = jp_supervision_policy p"
  "pool_inv (pool_emit sq d p) = pool_inv p" "pending (pool_emit sq d p) = pending p"
  using pool_emit_events [of sq d p] by auto

lemma monotonic_sel [simp]:
  "jp_slots (snd (monotonic_ns p)) = jp_slots p" "jp_sessions (snd (monotonic_ns p)) = jp_sessions p"
  "jp_queue_order (snd (monotonic_ns p)) = jp_queue_order p" "jp_queue_storage (snd (monotonic_ns p)) = jp_queue_storage p"
  "jp_free_queue_slots (snd (monotonic_ns p)) = jp_free_queue_slots p" "jp_ready_index (snd (monotonic_ns p)) = jp_ready_index p"
  "jp_migration_capacity_bytes (snd (monotonic_ns p)) = jp_migration_capacity_bytes p"
  "pool_inv (snd (monotonic_ns p)) = pool_inv p" "pending (snd (monotonic_ns p)) = pending p"
  by (simp_all add: monotonic_ns_def)

lemma time_or_now_sel [simp]:
  "jp_slots (snd (time_or_now t p)) = jp_slots p" "jp_sessions (snd (time_or_now t p)) = jp_sessions p"
  "jp_queue_order (snd (time_or_now t p)) = jp_queue_order p" "jp_queue_storage (snd (time_or_now t p)) = jp_queue_storage p"
  "jp_free_queue_slots (snd (time_or_now t p)) = jp_free_queue_slots p"
  "pool_inv (snd (time_or_now t p)) = pool_inv p" "pending (snd (time_or_now t p)) = pending p"
  by (simp_all add: time_or_now_def)

subsection \<open>Updating one slot\<close>

lemma sum_list_update_mset:
  "i < length xs \<Longrightarrow> sum_list (xs[i := x]) + xs ! i = sum_list xs + (x :: 'a multiset)"
  by (induction xs arbitrary: i) (auto simp: ac_simps split: nat.splits)

lemma pending_upd_slot:
  assumes "i < length (jp_slots p)"
  shows "pending (upd_slot i f p) + lane_jobs (jp_slots p ! i) = pending p + lane_jobs (f (jp_slots p ! i))"
  using assms sum_list_update_mset [of i "map lane_jobs (jp_slots p)" "lane_jobs (f (jp_slots p ! i))"]
  by (simp add: pending_def queued_jobs_def upd_slot_def map_update ac_simps)

lemma upd_slot_sel [simp]:
  "length (jp_slots (upd_slot i f p)) = length (jp_slots p)" "jp_sessions (upd_slot i f p) = jp_sessions p"
  "jp_queue_order (upd_slot i f p) = jp_queue_order p" "jp_queue_storage (upd_slot i f p) = jp_queue_storage p"
  "jp_free_queue_slots (upd_slot i f p) = jp_free_queue_slots p" "jp_ready_index (upd_slot i f p) = jp_ready_index p"
  "jp_migration_capacity_bytes (upd_slot i f p) = jp_migration_capacity_bytes p"
  "jp_supervision_policy (upd_slot i f p) = jp_supervision_policy p"
  by (simp_all add: upd_slot_def)

lemma nth_upd_slot: "i < length (jp_slots p) \<Longrightarrow> jp_slots (upd_slot i f p) ! j = (if j = i then f (jp_slots p ! i) else jp_slots p ! j)"
  by (simp add: upd_slot_def)

text \<open>The lane stays as ready for new work as it was.\<close>

definition lane_like :: "'b Slot \<Rightarrow> 'b Slot \<Rightarrow> bool" where
  "lane_like s t \<longleftrightarrow> sl_index t = sl_index s \<and> sl_registry t = sl_registry s \<and> (sl_drain_requested t \<longrightarrow> sl_drain_requested s)"

lemma has_accepting_upd_slot:
  assumes "i < length (jp_slots p)" "lane_like (jp_slots p ! i) (f (jp_slots p ! i))" "has_accepting_worker rq p"
  shows "has_accepting_worker rq (upd_slot i f p)"
proof -
  obtain j where j: "j < length (jp_slots p)" "\<not> sl_drain_requested (jp_slots p ! j)" "registration_accepts (sl_registry (jp_slots p ! j)) rq"
    using assms(3) by (auto simp: has_accepting_worker_def list_ex_iff in_set_conv_nth)
  then have "jp_slots (upd_slot i f p) ! j \<in> set (jp_slots (upd_slot i f p))" by simp
  moreover have "\<not> sl_drain_requested (jp_slots (upd_slot i f p) ! j) \<and> registration_accepts (sl_registry (jp_slots (upd_slot i f p) ! j)) rq"
    using j assms(1,2) by (auto simp: nth_upd_slot lane_like_def)
  ultimately show ?thesis by (auto simp: has_accepting_worker_def list_ex_iff)
qed

lemma upd_slot_inv:
  assumes "pool_inv p" "i < length (jp_slots p)" "slot_ok (f (jp_slots p ! i))" "lane_like (jp_slots p ! i) (f (jp_slots p ! i))"
    and "jp_ready_index p = Some i \<Longrightarrow> sl_state (f (jp_slots p ! i)) = LS_kReady"
  shows "pool_inv (upd_slot i f p)"
proof -
  have "slots_ok (upd_slot i f p)"
    using assms(1-4) by (auto simp: pool_inv_def slots_ok_def nth_upd_slot lane_like_def upd_slot_def nth_list_update)
  moreover have "queue_ok (upd_slot i f p)"
    using assms(1,2,4) has_accepting_upd_slot [where f = f, OF assms(2,4)] by (auto simp: pool_inv_def queue_ok_def)
  moreover have "ready_ok (upd_slot i f p)"
    using assms(1,2,5) by (auto simp: pool_inv_def ready_ok_def nth_upd_slot split: option.splits)
  ultimately show ?thesis by (simp add: pool_inv_def)
qed

lemma upd_slot_pending:
  assumes "i < length (jp_slots p)" "lane_jobs (f (jp_slots p ! i)) = lane_jobs (jp_slots p ! i)"
  shows "pending (upd_slot i f p) = pending p"
  using pending_upd_slot [OF assms(1), of f] assms(2) by simp

lemma pool_inv_slot:
  assumes "pool_inv p" "i < length (jp_slots p)"
  shows "slot_ok (jp_slots p ! i)" "sl_index (jp_slots p ! i) = i"
  using assms by (simp_all add: pool_inv_def slots_ok_def)

subsection \<open>The request a lane takes\<close>

definition request_key :: "JobRequestMessage \<Rightarrow> u64 \<times> u32 \<times> u64 \<times> u64" where
  "request_key m = (request_deadline_key m, U32_MAX - jrqm_service_class (jrq_metadata m),
     jrqm_timestamp_ns (jrq_metadata m), me_sequence (jrq_envelope m))"

lemma max_minus_less: "U32_MAX - a < U32_MAX - b \<longleftrightarrow> b < a" "U32_MAX - a = U32_MAX - b \<longleftrightarrow> a = b"
proof -
  have m: "x \<le> U32_MAX" for x :: u32
    using unsigned_less [of x, where ?'a = nat] by (simp add: word_le_nat_alt)
  have u: "unat (U32_MAX - x) = 4294967295 - unat x" for x :: u32 using m [of x] by (simp add: unat_sub)
  have b: "unat x \<le> 4294967295" for x :: u32 using m [of x] by (simp add: word_le_nat_alt)
  show "U32_MAX - a < U32_MAX - b \<longleftrightarrow> b < a"
    unfolding word_less_nat_alt u using b [of a] b [of b] by linarith
  show "U32_MAX - a = U32_MAX - b \<longleftrightarrow> a = b"
    unfolding word_unat_eq_iff u using b [of a] b [of b] by linarith
qed

lemma request_earlier_key: "request_earlier a b \<longleftrightarrow> request_key a < request_key b"
  by (auto simp: request_earlier_def request_key_def less_prod_def' max_minus_less)

lemma fold_select:
  fixes key :: "nat \<Rightarrow> 'k::linorder" and P :: "nat \<Rightarrow> bool" and n :: nat
  defines "step \<equiv> \<lambda>position selected. if \<not> P position then selected
      else case selected of None \<Rightarrow> Some position | Some q \<Rightarrow> if key position < key q then Some position else selected"
  shows "case fold step [0 ..< n] None of
      None \<Rightarrow> \<forall>j < n. \<not> P j
    | Some k \<Rightarrow> k < n \<and> P k \<and> (\<forall>j < n. P j \<longrightarrow> key k \<le> key j)"
proof (induction n)
  case 0
  then show ?case by simp
next
  case (Suc n)
  then show ?case
    by (cases "fold step [0 ..< n] None") (auto simp: step_def less_Suc_eq not_less intro: less_imp_le order_trans)
qed

lemma select_position_cases:
  "case select_position p s t of
     None \<Rightarrow> \<forall>q \<in> set (jp_queue_order p). \<not> takes_request p s t (jp_queue_storage p ! q)
   | Some k \<Rightarrow> k < length (jp_queue_order p) \<and> takes_request p s t (jp_queue_storage p ! (jp_queue_order p ! k)) \<and>
       (\<forall>q \<in> set (jp_queue_order p). takes_request p s t (jp_queue_storage p ! q) \<longrightarrow>
          request_key (jp_queue_storage p ! (jp_queue_order p ! k)) \<le> request_key (jp_queue_storage p ! q))"
proof -
  have "select_position p s t = fold (\<lambda>position selected.
      if \<not> takes_request p s t (jp_queue_storage p ! (jp_queue_order p ! position)) then selected
      else case selected of None \<Rightarrow> Some position
         | Some q \<Rightarrow> if request_key (jp_queue_storage p ! (jp_queue_order p ! position)) < request_key (jp_queue_storage p ! (jp_queue_order p ! q))
             then Some position else selected) [0 ..< length (jp_queue_order p)] None"
    unfolding select_position_def request_earlier_key Let_def ..
  with fold_select [where P = "\<lambda>k. takes_request p s t (jp_queue_storage p ! (jp_queue_order p ! k))"
      and key = "\<lambda>k. request_key (jp_queue_storage p ! (jp_queue_order p ! k))" and n = "length (jp_queue_order p)"]
  show ?thesis by (auto simp: in_set_conv_nth split: option.splits)
qed

lemma mset_delete: "k < length xs \<Longrightarrow> mset xs = add_mset (xs ! k) (mset (take k xs @ drop (Suc k) xs))"
  by (subst id_take_nth_drop [of k xs]) simp_all

lemma set_delete: "k < length xs \<Longrightarrow> set (take k xs @ drop (Suc k) xs) \<subseteq> set xs"
  using set_take_subset [of k xs] set_drop_subset [of "Suc k" xs] by auto

text \<open>Taking a request out of the queue.\<close>

lemma dequeue_inv:
  assumes inv: "pool_inv p" and k: "k < length (jp_queue_order p)" and q: "q = jp_queue_order p ! k"
  shows "pool_inv (dequeue k p)" "pending p = add_mset (view_request (jp_queue_storage p ! q)) (pending (dequeue k p))"
    "validate_request (jp_queue_storage p ! q) = PR_kSuccess" "request_wf (jp_queue_storage p ! q)"
proof -
  have qs: "q \<in> set (jp_queue_order p)" using k q by simp
  have part: "mset (jp_queue_order p) + mset (jp_free_queue_slots p) = mset [0 ..< length (jp_queue_storage p)]"
    using inv by (simp add: pool_inv_def queue_ok_def)
  have "q \<in># mset [0 ..< length (jp_queue_storage p)]" unfolding part [symmetric] using qs by simp
  then have "q < length (jp_queue_storage p)" by simp
  then show "request_wf (jp_queue_storage p ! q)" using inv by (simp add: pool_inv_def queue_ok_def)
  show "validate_request (jp_queue_storage p ! q) = PR_kSuccess" using inv qs by (simp add: pool_inv_def queue_ok_def)
  note m = mset_delete [OF k, folded q]
  show "pool_inv (dequeue k p)"
    using inv part m set_delete [OF k] unfolding dequeue_def q [symmetric]
    by (auto simp: pool_inv_def slots_ok_def queue_ok_def ready_ok_def has_accepting_worker_def)
  show "pending p = add_mset (view_request (jp_queue_storage p ! q)) (pending (dequeue k p))"
    by (simp add: pending_def queued_jobs_def dequeue_def m)
qed

subsection \<open>Dispatch\<close>

lemma idle_lane:
  assumes "slot_ok s" "sl_state s = LS_kIdle"
  shows "sl_thread s = None" "\<not> occupied s" "lane_jobs s = {#}"
proof -
  have "sl_state s = LS_kRunning \<longleftrightarrow> sl_thread s \<noteq> None" using assms(1) unfolding slot_ok_def by blast
  then show "sl_thread s = None" using assms(2) by (metis LaneState.distinct(3))
  show "\<not> occupied s" "lane_jobs s = {#}" using assms(2) by (simp_all add: occupied_def lane_busy_def lane_jobs_def)
qed

lemma load_slot_ok:
  assumes "slot_ok s" "sl_state s = LS_kIdle" "request_wf rq"
  shows "slot_ok (load_slot rq t s)" "lane_like s (load_slot rq t s)" "sl_state (load_slot rq t s) = LS_kIdle"
    "view_request (sl_request (load_slot rq t s)) = view_request rq" "request_wf (sl_request (load_slot rq t s))"
    "validate_request (sl_request (load_slot rq t s)) = validate_request rq"
    "sl_session_id (load_slot rq t s) = jd_session_id (jrqm_descriptor (jrq_metadata (sl_request (load_slot rq t s))))"
    "sl_generation (load_slot rq t s) = jd_generation (jrqm_descriptor (jrq_metadata (sl_request (load_slot rq t s))))"
proof -
  have wf: "request_wf (sl_request s)" using assms(1) by (simp add: slot_ok_def)
  note c = copy_request_view [OF assms(3) wf]
  show "slot_ok (load_slot rq t s)"
    using assms idle_lane [OF assms(1,2)] c by (auto simp: slot_ok_def load_slot_def occupied_def lane_busy_def)
  show "lane_like s (load_slot rq t s)" "sl_state (load_slot rq t s) = LS_kIdle"
    "view_request (sl_request (load_slot rq t s)) = view_request rq" "request_wf (sl_request (load_slot rq t s))"
    "validate_request (sl_request (load_slot rq t s)) = validate_request rq"
    "sl_session_id (load_slot rq t s) = jd_session_id (jrqm_descriptor (jrq_metadata (sl_request (load_slot rq t s))))"
    "sl_generation (load_slot rq t s) = jd_generation (jrqm_descriptor (jrq_metadata (sl_request (load_slot rq t s))))"
    using assms(2) c by (simp_all add: load_slot_def lane_like_def)
qed

lemma rejected_result_for:
  assumes "validate_request rq = PR_kSuccess" "result_wf dst" "ResultCode_kRejectedStale \<le> code" "code \<le> ResultCode_kRejectedQos"
  shows "result_for rq (snd (make_rejected_job_result dst rq ts code))" "result_wf (snd (make_rejected_job_result dst rq ts code))"
proof -
  obtain m where m: "make_rejected_job_result dst rq ts code = (PR_kSuccess, m)" "validate_result m = PR_kSuccess"
    "job_result_code m = code" "jrsm_descriptor (jrs_metadata m) = jrqm_descriptor (jrq_metadata rq)"
    "me_sequence (jrs_envelope m) = me_sequence (jrq_envelope rq)" "result_wf m"
    using make_rejected_ok [OF assms] by blast
  have "jrsm_service_class (jrs_metadata m) = jrqm_service_class (jrq_metadata rq)"
    using m(1) by (auto simp: make_rejected_job_result_def make_job_result_def Let_def split: if_splits)
  moreover have "code \<noteq> ResultCode_kProgress" using assms(3) by (auto simp: enum_simps)
  ultimately show "result_for rq (snd (make_rejected_job_result dst rq ts code))"
    "result_wf (snd (make_rejected_job_result dst rq ts code))"
    using m by (simp_all add: result_for_def)
qed

lemma reject_code_range:
  "ResultCode_kRejectedStale \<le> ResultCode_kRejectedStale" "ResultCode_kRejectedStale \<le> ResultCode_kRejectedQos"
  "ResultCode_kRejectedStale \<le> ResultCode_kRejectedDeadline" "ResultCode_kRejectedDeadline \<le> ResultCode_kRejectedQos"
  by (simp_all add: enum_simps)

text \<open>A loaded idle lane becomes busy, or gets a rejection.\<close>

lemma settle_slot_ok:
  assumes "slot_ok s" "sl_state s = LS_kIdle" "validate_request (sl_request s) = PR_kSuccess"
    "sl_session_id s = jd_session_id (jrqm_descriptor (jrq_metadata (sl_request s)))"
    "sl_generation s = jd_generation (jrqm_descriptor (jrq_metadata (sl_request s)))"
  shows "slot_ok (settle_slot p t s)" "lane_like s (settle_slot p t s)"
    "lane_jobs (settle_slot p t s) = {#view_request (sl_request s)#}"
proof -
  have "slot_ok (reject_in_slot t code s)" if "ResultCode_kRejectedStale \<le> code" "code \<le> ResultCode_kRejectedQos" for code
    using assms idle_lane [OF assms(1,2)] rejected_result_for [OF assms(3) _ that, of "sl_result s" t]
    by (auto simp: slot_ok_def reject_in_slot_def occupied_def lane_busy_def)
  moreover have "slot_ok (s\<lparr>sl_state := LS_kRequested\<rparr>)"
    using assms idle_lane [OF assms(1,2)] by (auto simp: slot_ok_def occupied_def lane_busy_def)
  ultimately show "slot_ok (settle_slot p t s)" using reject_code_range by (simp add: settle_slot_def)
  show "lane_like s (settle_slot p t s)" "lane_jobs (settle_slot p t s) = {#view_request (sl_request s)#}"
    by (auto simp: settle_slot_def lane_like_def lane_jobs_def occupied_def lane_busy_def reject_in_slot_def)
qed

lemma dispatch_one_keeps:
  assumes inv: "pool_inv p" and i: "i < length (jp_slots p)" and idle: "sl_state (jp_slots p ! i) = LS_kIdle"
  shows "pool_inv (snd (dispatch_one i p)) \<and> pending (snd (dispatch_one i p)) = pending p \<and>
    length (jp_slots (snd (dispatch_one i p))) = length (jp_slots p)"
proof -
  define t where "t = fst (monotonic_ns p)"
  define p0 where "p0 = snd (monotonic_ns p)"
  have m: "monotonic_ns p = (t, p0)" by (simp add: t_def p0_def)
  have p0: "pool_inv p0" "pending p0 = pending p" "jp_slots p0 = jp_slots p" using inv by (simp_all add: p0_def)
  consider "sl_drain_requested (jp_slots p ! i) \<or> select_position p0 (jp_slots p ! i) t = None" |
    k where "\<not> sl_drain_requested (jp_slots p ! i)" "select_position p0 (jp_slots p ! i) t = Some k" by fastforce
  then show ?thesis
  proof cases
    case 1
    then show ?thesis using inv p0 by (auto simp: dispatch_one_def m)
  next
    case (2 k)
    have k: "k < length (jp_queue_order p0)" using select_position_cases [of p0 "jp_slots p ! i" t] 2(2) by simp
    define rq where "rq = jp_queue_storage p0 ! (jp_queue_order p0 ! k)"
    note d = dequeue_inv [OF p0(1) k refl, folded rq_def]
    define p1 where "p1 = dequeue k p0"
    have s1: "jp_slots p1 = jp_slots p" by (simp add: p1_def dequeue_def p0)
    have so: "slot_ok (jp_slots p1 ! i)" "sl_state (jp_slots p1 ! i) = LS_kIdle" "i < length (jp_slots p1)"
      using pool_inv_slot(1) [OF inv i] idle i by (simp_all add: s1)
    note l = load_slot_ok [OF so(1,2) d(4), of t]
    have ri: "jp_ready_index p1 \<noteq> Some i" using d(1) so(2) by (auto simp: pool_inv_def ready_ok_def p1_def [symmetric])
    define p2 where "p2 = upd_slot i (load_slot rq t) p1"
    have inv2: "pool_inv p2" unfolding p2_def by (rule upd_slot_inv) (use d(1) so(3) l(1,2) ri in \<open>simp_all add: p1_def\<close>)
    have pend2: "pending p2 = pending p1"
      unfolding p2_def using idle_lane(3) [OF so(1,2)] idle_lane(3) [OF l(1,3)] by (intro upd_slot_pending [OF so(3)]) simp
    have s2: "jp_slots p2 ! i = load_slot rq t (jp_slots p1 ! i)" "i < length (jp_slots p2)"
      using so(3) by (simp_all add: p2_def nth_upd_slot)
    define p3 where "p3 = pool_emit (me_sequence (jrq_envelope (sl_request (jp_slots p2 ! i))))
      (dispatched_event (jp_slots p2 ! i) t (length (jp_queue_order p2))) p2"
    have p3: "pool_inv p3" "pending p3 = pending p2" "jp_slots p3 = jp_slots p2" "jp_ready_index p3 \<noteq> Some i"
      using inv2 ri by (simp_all add: p3_def p2_def)
    have "jp_queue_order p2 = jp_queue_order p1" by (simp add: p2_def)
    then have run: "snd (dispatch_one i p) = upd_slot i (settle_slot p3 t) p3"
      using 2 by (simp add: dispatch_one_def m Let_def p0 rq_def [symmetric] p1_def [symmetric] p2_def [symmetric] p3_def)
    have "validate_request (sl_request (load_slot rq t (jp_slots p1 ! i))) = PR_kSuccess" using l(6) d(3) by simp
    note f = settle_slot_ok [OF l(1,3) this l(7,8), of p3 t]
    have "pool_inv (upd_slot i (settle_slot p3 t) p3)"
      by (rule upd_slot_inv) (use p3 s2 f in simp_all)
    moreover have "pending (upd_slot i (settle_slot p3 t) p3) = add_mset (view_request rq) (pending p3)"
      using pending_upd_slot [of i p3 "settle_slot p3 t"] s2 p3(3) f(3) l(4) idle_lane(3) [OF l(1,3)] by simp
    ultimately show ?thesis using run pend2 d(2) p0(2) p3 s1 by (simp add: p2_def p1_def)
  qed
qed

lemma pump_step_keeps: "keeps n (pump_step checked)"
proof (rule keepsI)
  fix p :: "'a JobWorkerPool" assume inv: "pool_inv p"
  let ?i = "(jp_dispatch_cursor p + checked) mod length (jp_slots p)"
  have i: "?i < length (jp_slots p)" using inv by (simp add: pool_inv_def slots_ok_def)
  show "pool_inv (pump_step checked p) \<and> pending (pump_step checked p) = pending p \<and>
    length (jp_slots (pump_step checked p)) = length (jp_slots p)"
    using dispatch_one_keeps [OF inv i] inv by (cases "dispatch_one ?i p") (auto simp: pump_step_def Let_def)
qed

subsection \<open>Migration\<close>

lemma no_thread:
  assumes "slot_ok s" "sl_state s \<noteq> LS_kRunning"
  shows "sl_thread s = None"
proof -
  have "sl_state s = LS_kRunning \<longleftrightarrow> sl_thread s \<noteq> None" using assms(1) unfolding slot_ok_def by blast
  then show ?thesis using assms(2) by metis
qed

lemma migration_slots_ok:
  assumes "slot_ok s" "sl_state s = LS_kMigrationReady"
  shows "slot_ok (resume_here s)" "lane_like s (resume_here s)" "lane_jobs (resume_here s) = lane_jobs s"
    "slot_ok (leave_migration s)" "lane_like s (leave_migration s)" "lane_jobs (leave_migration s) = {#}"
    "lane_jobs s = {#view_request (sl_request s)#}"
  using assms no_thread [OF assms(1)]
  by (auto simp: slot_ok_def resume_here_def leave_migration_def lane_like_def lane_jobs_def occupied_def lane_busy_def)

lemma receive_migration_ok:
  assumes "slot_ok s" "sl_state s = LS_kMigrationReady" "slot_ok t" "sl_state t = LS_kIdle"
  shows "slot_ok (receive_migration s t)" "lane_like t (receive_migration s t)"
    "lane_jobs (receive_migration s t) = {#view_request (sl_request s)#}"
proof -
  have wf: "request_wf (sl_request s)" "request_wf (sl_request t)" using assms(1,3) by (simp_all add: slot_ok_def)
  note c = copy_request_view [OF wf]
  show "slot_ok (receive_migration s t)"
    using assms c idle_lane(1) [OF assms(3,4)] by (auto simp: slot_ok_def receive_migration_def occupied_def lane_busy_def)
  show "lane_like t (receive_migration s t)" "lane_jobs (receive_migration s t) = {#view_request (sl_request s)#}"
    using c(1) by (simp_all add: receive_migration_def lane_like_def lane_jobs_def occupied_def lane_busy_def)
qed

lemma handoff_one_keeps:
  assumes i: "i < n"
  shows "keeps n (handoff_one i)"
proof (rule keepsI)
  fix p :: "'a JobWorkerPool" assume inv: "pool_inv p" and n: "length (jp_slots p) = n"
  let ?s = "jp_slots p ! i"
  have in': "i < length (jp_slots p)" using i n by simp
  have so: "slot_ok ?s" "sl_index ?s = i" using pool_inv_slot [OF inv in'] by simp_all
  show "pool_inv (handoff_one i p) \<and> pending (handoff_one i p) = pending p \<and>
    length (jp_slots (handoff_one i p)) = length (jp_slots p)"
  proof (cases "sl_state ?s = LS_kMigrationReady")
    case False
    then show ?thesis using inv by (simp add: handoff_one_def)
  next
    case mr: True
    note m = migration_slots_ok [OF so(1) mr]
    have ri: "jp_ready_index p \<noteq> Some i" using inv mr by (auto simp: pool_inv_def ready_ok_def)
    let ?P = "\<lambda>j. migration_target p ?s (jp_slots p ! j) \<and> sl_state (jp_slots p ! j) = LS_kIdle"
    show ?thesis
    proof (cases "find ?P [0 ..< length (jp_slots p)]")
      case None
      have "pool_inv (upd_slot i resume_here p)" by (rule upd_slot_inv) (use inv in' m ri in simp_all)
      moreover have "pending (upd_slot i resume_here p) = pending p" by (rule upd_slot_pending) (use in' m in simp_all)
      ultimately show ?thesis using mr None inv by (simp add: handoff_one_def)
    next
      case (Some j)
      from find_SomeD [OF Some] have j: "j < length (jp_slots p)" "sl_state (jp_slots p ! j) = LS_kIdle" by auto
      then have ij: "i \<noteq> j" using mr by auto
      let ?p = "upd_slot i leave_migration p"
      have so': "slot_ok (jp_slots p ! j)" using pool_inv_slot [OF inv j(1)] by simp
      have pj: "jp_slots ?p ! j = jp_slots p ! j" "j < length (jp_slots ?p)" using ij in' j(1) by (simp_all add: nth_upd_slot)
      note r = receive_migration_ok [OF so(1) mr so' j(2)]
      have rj: "jp_ready_index p \<noteq> Some j" using inv j(2) by (auto simp: pool_inv_def ready_ok_def)
      have inv1: "pool_inv ?p" by (rule upd_slot_inv) (use inv in' m ri in simp_all)
      have "pool_inv (upd_slot j (receive_migration ?s) ?p)" by (rule upd_slot_inv) (use inv1 pj r rj in simp_all)
      moreover have "pending (upd_slot j (receive_migration ?s) ?p) = pending p"
        using pending_upd_slot [OF pj(2), of "receive_migration ?s"] pending_upd_slot [OF in', of leave_migration]
          pj(1) r(3) m(6,7) idle_lane(3) [OF so' j(2)] by simp
      ultimately show ?thesis using mr Some by (simp add: handoff_one_def)
    qed
  qed
qed

lemma handoff_migrations_keeps: "keeps n handoff_migrations"
proof -
  have "keeps n (fold handoff_one [0 ..< n])" by (rule fold_keeps) (simp add: handoff_one_keeps)
  then show ?thesis by (simp add: keeps_def handoff_migrations_def)
qed

lemma pump_keeps: "keeps n pump"
proof -
  have "keeps n (fold pump_step [0 ..< n])" by (rule fold_keeps) (rule pump_step_keeps)
  then have "keeps n (\<lambda>p. fold pump_step [0 ..< length (jp_slots p)] p)" by (simp add: keeps_def)
  from keeps_comp [OF this keeps_if [OF handoff_migrations_keeps keeps_id, where b = "\<lambda>p. jp_migration_capacity_bytes p \<noteq> 0"]]
  show ?thesis by (simp only: pump_def [abs_def] Let_def)
qed

subsection \<open>Cancellation and submission\<close>

lemma upd_slot_keeps:
  assumes "pool_inv p" "i < length (jp_slots p)" "slot_ok (f (jp_slots p ! i))" "lane_like (jp_slots p ! i) (f (jp_slots p ! i))"
    and "sl_state (f (jp_slots p ! i)) = sl_state (jp_slots p ! i)" "sl_request (f (jp_slots p ! i)) = sl_request (jp_slots p ! i)"
  shows "pool_inv (upd_slot i f p) \<and> pending (upd_slot i f p) = pending p"
proof
  show "pool_inv (upd_slot i f p)"
    by (rule upd_slot_inv) (use assms in \<open>auto simp: pool_inv_def ready_ok_def\<close>)
  show "pending (upd_slot i f p) = pending p"
    by (rule upd_slot_pending) (use assms in \<open>simp_all add: lane_jobs_def occupied_def lane_busy_def\<close>)
qed

lemma slot_ok_upd [simp]:
  "slot_ok (s\<lparr>sl_cancel_generation := g\<rparr>) = slot_ok s" "slot_ok (s\<lparr>sl_preempted_ns := t\<rparr>) = slot_ok s"
  "slot_ok (s\<lparr>sl_consecutive_failures := k\<rparr>) = slot_ok s"
  "slot_ok (s\<lparr>sl_events_published := b\<rparr>) = slot_ok s"
  "slot_ok (s\<lparr>sl_binding := wb\<rparr>) = slot_ok s"
  "slot_ok (s\<lparr>sl_started_ns := t\<rparr>) = slot_ok s"
  "slot_ok (s\<lparr>sl_backends := bs\<rparr>) = slot_ok s"
  "slot_ok (s\<lparr>sl_remaining_work_units := g\<rparr>) = slot_ok s" "slot_ok (s\<lparr>sl_migration_source := src\<rparr>) = slot_ok s"
  "slot_ok (s\<lparr>sl_resume_completed_work_units := g\<rparr>) = slot_ok s" "slot_ok (s\<lparr>sl_migration_completed_ns := g\<rparr>) = slot_ok s"
  "slot_ok (s\<lparr>sl_migration_started_ns := g\<rparr>) = slot_ok s" "slot_ok (s\<lparr>sl_resume_bytes := k\<rparr>) = slot_ok s"
  "slot_ok (s\<lparr>sl_finished_ns := g\<rparr>) = slot_ok s"
  by (simp_all add: slot_ok_def thread_ok_def occupied_def lane_busy_def)

lemma cancel_lane_keeps:
  assumes i: "i < n"
  shows "keeps n (cancel_lane sid w t i)"
proof (rule keepsI)
  fix p :: "'a JobWorkerPool" assume inv: "pool_inv p" and n: "length (jp_slots p) = n"
  let ?s = "jp_slots p ! i"
  have in': "i < length (jp_slots p)" using i n by simp
  have so: "slot_ok ?s" using pool_inv_slot [OF inv in'] by simp
  let ?f = "\<lambda>s. s\<lparr>sl_cancel_generation := max (sl_cancel_generation s) w, sl_preempted_ns := t\<rparr>"
  let ?g = "\<lambda>s. s\<lparr>sl_result := snd (make_rejected_job_result (sl_result s) (sl_request s) t ResultCode_kRejectedStale)\<rparr>"
  have f: "pool_inv (upd_slot i ?f p) \<and> pending (upd_slot i ?f p) = pending p"
    by (rule upd_slot_keeps) (use inv in' so in \<open>simp_all add: lane_like_def\<close>)
  have g: "pool_inv (upd_slot i ?g p) \<and> pending (upd_slot i ?g p) = pending p" if r: "sl_state ?s = LS_kReady"
  proof (rule upd_slot_keeps)
    show "slot_ok (?g ?s)"
      using so r rejected_result_for [of "sl_request ?s" "sl_result ?s", OF _ _ reject_code_range(1,2)] no_thread [OF so]
      by (auto simp: slot_ok_def occupied_def lane_busy_def)
  qed (use inv in' in \<open>simp_all add: lane_like_def\<close>)
  show "pool_inv (cancel_lane sid w t i p) \<and> pending (cancel_lane sid w t i p) = pending p \<and>
    length (jp_slots (cancel_lane sid w t i p)) = length (jp_slots p)"
    using inv f g by (simp add: cancel_lane_def Let_def)
qed

lemma cancel_lanes_keeps: "keeps n (cancel_lanes sid w)"
proof (rule keepsI)
  fix p :: "'a JobWorkerPool" assume inv: "pool_inv p" and n: "length (jp_slots p) = n"
  obtain t p1 where m: "monotonic_ns p = (t, p1)" by (cases "monotonic_ns p")
  have p1: "pool_inv p1" "pending p1 = pending p" "length (jp_slots p1) = n"
    using inv n monotonic_sel [of p] m by simp_all
  have "keeps n (fold (cancel_lane sid w t) [0 ..< n])" by (rule fold_keeps) (simp add: cancel_lane_keeps)
  from keepsD [OF keeps_comp [OF pump_keeps this [folded p1(3)]] p1(1)] p1 n
  show "pool_inv (cancel_lanes sid w p) \<and> pending (cancel_lanes sid w p) = pending p \<and>
    length (jp_slots (cancel_lanes sid w p)) = length (jp_slots p)"
    by (simp add: cancel_lanes_def m)
qed

lemma pool_cancel_before_keeps: "keeps n (pool_cancel_before sid g)"
proof (rule keepsI)
  fix p :: "'a JobWorkerPool" assume inv: "pool_inv p" and n: "length (jp_slots p) = n"
  have c: "pool_inv (cancel_lanes sid w (p\<lparr>jp_sessions := ss\<rparr>)) \<and> pending (cancel_lanes sid w (p\<lparr>jp_sessions := ss\<rparr>)) = pending p \<and>
      length (jp_slots (cancel_lanes sid w (p\<lparr>jp_sessions := ss\<rparr>))) = length (jp_slots p)" for w ss
    using keepsD [OF cancel_lanes_keeps, of "p\<lparr>jp_sessions := ss\<rparr>" sid w] inv by simp
  show "pool_inv (pool_cancel_before sid g p) \<and> pending (pool_cancel_before sid g p) = pending p \<and>
    length (jp_slots (pool_cancel_before sid g p)) = length (jp_slots p)"
    using c inv unfolding pool_cancel_before_def by (auto simp: Let_def split: option.split)
qed

lemma watermark_session_keeps: "keeps n (watermark_session d)"
proof (rule keepsI)
  fix p :: "'a JobWorkerPool" assume inv: "pool_inv p" and n: "length (jp_slots p) = n"
  have c: "pool_inv (pool_cancel_before sid w (p\<lparr>jp_sessions := ss\<rparr>)) \<and> pending (pool_cancel_before sid w (p\<lparr>jp_sessions := ss\<rparr>)) = pending p \<and>
      length (jp_slots (pool_cancel_before sid w (p\<lparr>jp_sessions := ss\<rparr>))) = length (jp_slots p)" for sid w ss
    using keepsD [OF pool_cancel_before_keeps, of "p\<lparr>jp_sessions := ss\<rparr>" sid w] inv by simp
  show "pool_inv (watermark_session d p) \<and> pending (watermark_session d p) = pending p \<and>
    length (jp_slots (watermark_session d p)) = length (jp_slots p)"
    using c inv unfolding watermark_session_def by (auto split: option.split)
qed

lemma enqueue_request_inv:
  assumes inv: "pool_inv p" and room: "length (jp_queue_order p) \<noteq> length (jp_queue_storage p)"
    and rq: "validate_request rq = PR_kSuccess" "request_wf rq" "has_accepting_worker rq p"
  shows "pool_inv (enqueue_request rq p)" "pending (enqueue_request rq p) = add_mset (view_request rq) (pending p)"
    "jp_slots (enqueue_request rq p) = jp_slots p"
proof -
  let ?f = "jp_free_queue_slots p" let ?q = "last ?f"
  let ?m = "copy_request rq (jp_queue_storage p ! ?q)"
  have part: "mset (jp_queue_order p) + mset ?f = mset [0 ..< length (jp_queue_storage p)]"
    using inv by (simp add: pool_inv_def queue_ok_def)
  have "length (jp_queue_order p) + length ?f = length (jp_queue_storage p)"
    using arg_cong [OF part, of size] by simp
  with room have ne: "?f \<noteq> []" by auto
  have sub: "mset (jp_queue_order p @ ?f) = mset [0 ..< length (jp_queue_storage p)]" using part by simp
  then have "distinct (jp_queue_order p @ ?f)" using mset_eq_imp_distinct_iff [OF sub] by simp
  then have fresh: "?q \<notin> set (jp_queue_order p)" using ne by auto
  have "?q \<in> set (jp_queue_order p @ ?f)" using ne by simp
  then have q: "?q < length (jp_queue_storage p)" using mset_eq_setD [OF sub] by auto
  have wf: "request_wf (jp_queue_storage p ! ?q)" using inv q by (simp add: pool_inv_def queue_ok_def)
  note c = copy_request_view [OF rq(2) wf]
  have e: "enqueue_request rq p = p\<lparr>jp_free_queue_slots := butlast ?f, jp_queue_storage := (jp_queue_storage p)[?q := ?m],
      jp_queue_order := jp_queue_order p @ [?q]\<rparr>" by (simp add: enqueue_request_def Let_def)
  have acc: "has_accepting_worker r (enqueue_request rq p) = has_accepting_worker r p" for r
    by (simp add: has_accepting_worker_def e)
  show "jp_slots (enqueue_request rq p) = jp_slots p" by (simp add: e)
  have stored: "jp_queue_storage (enqueue_request rq p) ! x = (if x = ?q then ?m else jp_queue_storage p ! x)" for x
    using q by (simp add: e nth_list_update)
  have "queue_ok (enqueue_request rq p)"
    unfolding queue_ok_def acc
  proof (intro conjI ballI)
    show "mset (jp_queue_order (enqueue_request rq p)) + mset (jp_free_queue_slots (enqueue_request rq p)) =
        mset [0 ..< length (jp_queue_storage (enqueue_request rq p))]"
      using part last_butlast_mset [OF ne] by (simp add: e)
    show "request_wf m" if "m \<in> set (jp_queue_storage (enqueue_request rq p))" for m
      using that inv c(2) set_update_subset_insert [of "jp_queue_storage p" ?q ?m]
      by (auto simp: e pool_inv_def queue_ok_def)
    show "validate_request (jp_queue_storage (enqueue_request rq p) ! x) = PR_kSuccess"
      "has_accepting_worker (jp_queue_storage (enqueue_request rq p) ! x) p" if "x \<in> set (jp_queue_order (enqueue_request rq p))" for x
      using that inv rq c(3) unfolding stored by (auto simp: e pool_inv_def queue_ok_def)
  qed
  then show "pool_inv (enqueue_request rq p)"
    using inv by (simp add: pool_inv_def) (simp add: e slots_ok_def ready_ok_def)
  have "image_mset (\<lambda>x. view_request (jp_queue_storage (enqueue_request rq p) ! x)) (mset (jp_queue_order p)) = queued_jobs p"
    unfolding queued_jobs_def stored by (rule image_mset_cong) (use fresh in auto)
  then have "queued_jobs (enqueue_request rq p) = add_mset (view_request rq) (queued_jobs p)"
    using c(1) stored [of ?q] by (simp add: queued_jobs_def) (simp add: e)
  then show "pending (enqueue_request rq p) = add_mset (view_request rq) (pending p)" by (simp add: pending_def e)
qed

lemma publish_rejectionD:
  assumes "publish_rejection dst rq t code p = (x, p')"
  shows "pool_inv p' = pool_inv p \<and> pending p' = pending p \<and> jp_slots p' = jp_slots p"
proof -
  have "p' = snd (publish_rejection dst rq t code p)" using assms by simp
  then show ?thesis by (simp add: publish_rejection_def Let_def split_def)
qed

lemma pool_submit_ok:
  assumes inv: "pool_inv p" and wf: "request_wf rq" and run: "pool_submit rq t rej p = (r, rej', p')"
  shows "pool_inv p'" "pending p' = (if r = JSR_kAccepted then add_mset (view_request rq) (pending p) else pending p)"
    "length (jp_slots p') = length (jp_slots p)"
proof -
  let ?d = "jrqm_descriptor (jrq_metadata rq)"
  have "pool_inv p' \<and> pending p' = (if r = JSR_kAccepted then add_mset (view_request rq) (pending p) else pending p) \<and>
    length (jp_slots p') = length (jp_slots p)"
  proof (cases "r = JSR_kAccepted")
    case False
    then show ?thesis
      using inv run by (auto simp: pool_submit_def Let_def split_def dest!: publish_rejectionD split: if_splits)
  next
    case True
    then have g: "validate_request rq = PR_kSuccess" "has_accepting_worker rq p" "length (jp_queue_order p) \<noteq> length (jp_queue_storage p)"
      using run by (auto simp: pool_submit_def Let_def split_def split: if_splits)
    note e = enqueue_request_inv [OF inv g(3,1) wf g(2)]
    obtain sq dd where p': "p' = pump (watermark_session ?d (pool_emit sq dd (snd (time_or_now t (enqueue_request rq p)))))"
      using True run by (auto simp: pool_submit_def Let_def split_def split: if_splits)
    have "keeps (length (jp_slots p)) (\<lambda>q. pump (watermark_session ?d q))"
      by (rule keeps_comp [OF pump_keeps watermark_session_keeps])
    from this [unfolded keeps_def, rule_format, of "pool_emit sq dd (snd (time_or_now t (enqueue_request rq p)))"] e True
    show ?thesis by (simp add: p')
  qed
  then show "pool_inv p'" "pending p' = (if r = JSR_kAccepted then add_mset (view_request rq) (pending p) else pending p)"
    "length (jp_slots p') = length (jp_slots p)" by simp_all
qed

lemma pool_release_session_keeps: "keeps n (\<lambda>p. snd (pool_release_session sid p))"
  by (rule keepsI) (auto simp: pool_release_session_def split: option.split)

subsection \<open>Draining and recovery\<close>

text \<open>A lane may start draining when the queue does not depend on it.\<close>

lemma drain_slot_inv:
  assumes inv: "pool_inv p" and i: "i < length (jp_slots p)" and can: "can_remove_worker i p"
    and f: "slot_ok (f (jp_slots p ! i))" "sl_index (f (jp_slots p ! i)) = i"
      "sl_registry (f (jp_slots p ! i)) = sl_registry (jp_slots p ! i)"
    and r: "jp_ready_index p = Some i \<Longrightarrow> sl_state (f (jp_slots p ! i)) = LS_kReady"
  shows "pool_inv (upd_slot i f p)"
proof -
  have acc: "has_accepting_worker (jp_queue_storage p ! q) (upd_slot i f p)" if q: "q \<in> set (jp_queue_order p)" for q
  proof -
    let ?rq = "jp_queue_storage p ! q"
    obtain j where j: "j < length (jp_slots p)" "j \<noteq> i" "\<not> sl_drain_requested (jp_slots p ! j)"
      "registration_accepts (sl_registry (jp_slots p ! j)) ?rq"
    proof (cases "registration_accepts (sl_registry (jp_slots p ! i)) ?rq")
      case True
      then have "list_ex (\<lambda>c. sl_index c \<noteq> i \<and> \<not> sl_quarantined c \<and> \<not> sl_drain_requested c \<and>
          registration_accepts (sl_registry c) ?rq) (jp_slots p)"
        using can q by (auto simp: can_remove_worker_def list_all_iff Let_def)
      then show ?thesis using that pool_inv_slot(2) [OF inv] by (auto simp: list_ex_iff in_set_conv_nth)
    next
      case False
      have "has_accepting_worker ?rq p" using inv q by (simp add: pool_inv_def queue_ok_def)
      then obtain j where "j < length (jp_slots p)" "\<not> sl_drain_requested (jp_slots p ! j)"
        "registration_accepts (sl_registry (jp_slots p ! j)) ?rq"
        by (auto simp: has_accepting_worker_def list_ex_iff in_set_conv_nth)
      moreover from this False have "j \<noteq> i" by auto
      ultimately show ?thesis by (blast intro: that)
    qed
    have "jp_slots (upd_slot i f p) ! j \<in> set (jp_slots (upd_slot i f p))" by (rule nth_mem) (simp add: j(1))
    moreover have "jp_slots (upd_slot i f p) ! j = jp_slots p ! j" using i j(2) by (simp add: nth_upd_slot)
    ultimately show ?thesis using j unfolding has_accepting_worker_def list_ex_iff by metis
  qed
  have "slots_ok (upd_slot i f p)"
    using inv i f by (auto simp: pool_inv_def slots_ok_def nth_upd_slot upd_slot_def nth_list_update)
  moreover have "queue_ok (upd_slot i f p)" using inv acc by (auto simp: pool_inv_def queue_ok_def)
  moreover have "ready_ok (upd_slot i f p)" using inv i r by (auto simp: pool_inv_def ready_ok_def nth_upd_slot)
  ultimately show ?thesis by (simp add: pool_inv_def)
qed

lemma slot_ok_drain:
  "slot_ok s \<Longrightarrow> slot_ok (s\<lparr>sl_drain_requested := True\<rparr>)"
  "slot_ok s \<Longrightarrow> slot_ok (s\<lparr>sl_quarantined := True, sl_drain_requested := True\<rparr>)"
  "slot_ok s \<Longrightarrow> sl_drain_requested s \<Longrightarrow> slot_ok (s\<lparr>sl_migrate_requested := b\<rparr>)"
  by (auto simp: slot_ok_def thread_ok_def occupied_def lane_busy_def)

lemma lane_jobs_upd [simp]:
  "lane_jobs (s\<lparr>sl_drain_requested := b\<rparr>) = lane_jobs s"
  "lane_jobs (s\<lparr>sl_quarantined := b\<rparr>) = lane_jobs s"
  by (simp_all add: lane_jobs_def occupied_def lane_busy_def)

lemma request_worker_drain_keeps: "keeps n (\<lambda>p. snd (request_worker_drain i p))"
proof (rule keepsI)
  fix p :: "'a JobWorkerPool" assume inv: "pool_inv p"
  let ?s = "jp_slots p ! i"
  show "pool_inv (snd (request_worker_drain i p)) \<and> pending (snd (request_worker_drain i p)) = pending p \<and>
    length (jp_slots (snd (request_worker_drain i p))) = length (jp_slots p)"
  proof (cases "i \<ge> length (jp_slots p) \<or> sl_drain_requested ?s \<or> \<not> can_remove_worker i p")
    case True
    then show ?thesis using inv by (auto simp: request_worker_drain_def)
  next
    case False
    then have i: "i < length (jp_slots p)" "can_remove_worker i p" by auto
    have so: "slot_ok ?s" "sl_index ?s = i" using pool_inv_slot [OF inv i(1)] by simp_all
    have rs: "jp_ready_index p = Some i \<Longrightarrow> sl_state ?s = LS_kReady" using inv by (auto simp: pool_inv_def ready_ok_def)
    define p1 where "p1 = upd_slot i (\<lambda>s. s\<lparr>sl_drain_requested := True\<rparr>) p"
    have p1: "pool_inv p1" "pending p1 = pending p" "i < length (jp_slots p1)" "length (jp_slots p1) = length (jp_slots p)"
      unfolding p1_def
      by (rule drain_slot_inv; use inv i so rs slot_ok_drain(1) [OF so(1)] in simp)
        (use i in \<open>simp_all add: upd_slot_pending\<close>)
    have s1: "jp_slots p1 ! i = ?s\<lparr>sl_drain_requested := True\<rparr>" using i by (simp add: p1_def nth_upd_slot)
    show ?thesis
    proof (cases "sl_state ?s = LS_kIdle")
      case True
      let ?f = "\<lambda>s. s\<lparr>sl_state := LS_kDrained, sl_session_id := 0, sl_generation := 0\<rparr>"
      have "slot_ok (?f (jp_slots p1 ! i))"
        using so(1) True idle_lane [OF so(1) True] unfolding s1 by (auto simp: slot_ok_def occupied_def lane_busy_def)
      then have "pool_inv (upd_slot i ?f p1)"
        by (rule upd_slot_inv [OF p1(1,3)]) (use True rs s1 in \<open>auto simp: lane_like_def p1_def\<close>)
      moreover have "pending (upd_slot i ?f p1) = pending p1"
        by (rule upd_slot_pending) (use p1 True in \<open>simp_all add: s1 lane_jobs_def occupied_def lane_busy_def\<close>)
      ultimately show ?thesis using False True p1 by (simp add: request_worker_drain_def p1_def [symmetric] s1)
    next
      case nidle: False
      let ?g = "\<lambda>s. s\<lparr>sl_migrate_requested := list_ex (\<lambda>c. sl_index c \<noteq> i \<and> \<not> sl_drain_requested c \<and>
        registration_accepts (sl_registry c) (sl_request s)) (jp_slots p1)\<rparr>"
      have g: "pool_inv (upd_slot i ?g p1) \<and> pending (upd_slot i ?g p1) = pending p1"
        by (rule upd_slot_keeps)
          (use p1 pool_inv_slot(1) [OF p1(1,3)] in \<open>auto simp: s1 lane_like_def intro!: slot_ok_drain(3)\<close>)
      show ?thesis
        using False nidle p1 g keepsD [OF pump_keeps, of p1] keepsD [OF pump_keeps, of "upd_slot i ?g p1"]
        by (simp add: request_worker_drain_def p1_def [symmetric] s1)
    qed
  qed
qed

lemma reopen_lane_ok:
  assumes "slot_ok s" "sl_state s = LS_kDrained"
  shows "\<not> sl_quarantined s \<Longrightarrow> slot_ok (reopen_lane s)" "slot_ok (reopen_lane (s\<lparr>sl_consecutive_failures := 0, sl_quarantined := False\<rparr>))"
    "lane_like s (reopen_lane s)" "lane_like s (reopen_lane (s\<lparr>sl_consecutive_failures := 0, sl_quarantined := False\<rparr>))"
    "lane_jobs s = {#}" "lane_jobs (reopen_lane s) = {#}"
    "lane_jobs (reopen_lane (s\<lparr>sl_consecutive_failures := 0, sl_quarantined := False\<rparr>)) = {#}"
  using assms no_thread [OF assms(1)]
  by (auto simp: slot_ok_def reopen_lane_def lane_like_def lane_jobs_def occupied_def lane_busy_def)

lemma reopen_keeps:
  assumes inv: "pool_inv p" and i: "i < length (jp_slots p)" and st: "sl_state (jp_slots p ! i) = LS_kDrained"
    and f: "slot_ok (f (jp_slots p ! i))" "lane_like (jp_slots p ! i) (f (jp_slots p ! i))" "lane_jobs (f (jp_slots p ! i)) = {#}"
  shows "pool_inv (pump (upd_slot i f p)) \<and> pending (pump (upd_slot i f p)) = pending p \<and>
    length (jp_slots (pump (upd_slot i f p))) = length (jp_slots p)"
proof -
  have ri: "jp_ready_index p \<noteq> Some i" using inv st by (auto simp: pool_inv_def ready_ok_def)
  have "pool_inv (upd_slot i f p)" by (rule upd_slot_inv) (use inv i f ri in simp_all)
  moreover have "pending (upd_slot i f p) = pending p"
    by (rule upd_slot_pending) (use i f st in \<open>simp_all add: lane_jobs_def occupied_def lane_busy_def\<close>)
  ultimately show ?thesis using keepsD [OF pump_keeps, of "upd_slot i f p"] by simp
qed

lemma resume_worker_keeps: "keeps n (\<lambda>p. snd (resume_worker i p))"
proof (rule keepsI)
  fix p :: "'a JobWorkerPool" assume inv: "pool_inv p"
  show "pool_inv (snd (resume_worker i p)) \<and> pending (snd (resume_worker i p)) = pending p \<and>
    length (jp_slots (snd (resume_worker i p))) = length (jp_slots p)"
    using inv pool_inv_slot(1) [OF inv, of i] reopen_lane_ok [of "jp_slots p ! i"] reopen_keeps [OF inv, of i reopen_lane]
    by (auto simp: resume_worker_def)
qed

lemma recover_worker_keeps: "keeps n (\<lambda>p. snd (recover_worker i p))"
proof (rule keepsI)
  fix p :: "'a JobWorkerPool" assume inv: "pool_inv p"
  show "pool_inv (snd (recover_worker i p)) \<and> pending (snd (recover_worker i p)) = pending p \<and>
    length (jp_slots (snd (recover_worker i p))) = length (jp_slots p)"
    using inv pool_inv_slot(1) [OF inv, of i] reopen_lane_ok [of "jp_slots p ! i"]
      reopen_keeps [OF inv, of i "\<lambda>s. reopen_lane (s\<lparr>sl_consecutive_failures := 0, sl_quarantined := False\<rparr>)"]
    by (auto simp: recover_worker_def)
qed

lemma record_worker_failure_keeps:
  assumes inv: "pool_inv p" and i: "i < length (jp_slots p)"
  shows "pool_inv (record_worker_failure i p) \<and> pending (record_worker_failure i p) = pending p \<and>
    length (jp_slots (record_worker_failure i p)) = length (jp_slots p) \<and>
    jp_ready_index (record_worker_failure i p) = jp_ready_index p \<and>
    sl_state (jp_slots (record_worker_failure i p) ! i) = sl_state (jp_slots p ! i) \<and>
    sl_result (jp_slots (record_worker_failure i p) ! i) = sl_result (jp_slots p ! i) \<and>
    sl_request (jp_slots (record_worker_failure i p) ! i) = sl_request (jp_slots p ! i)"
proof -
  let ?f = "\<lambda>s. s\<lparr>sl_consecutive_failures := sl_consecutive_failures s + 1\<rparr>"
  let ?g = "\<lambda>s. s\<lparr>sl_quarantined := True, sl_drain_requested := True\<rparr>"
  define p1 where "p1 = upd_slot i ?f (p\<lparr>jp_failure_count := jp_failure_count p + 1\<rparr>)"
  define p2 where "p2 = p1\<lparr>jp_quarantine_count := jp_quarantine_count p1 + 1\<rparr>"
  have p1: "pool_inv p1 \<and> pending p1 = pending (p\<lparr>jp_failure_count := jp_failure_count p + 1\<rparr>)"
    unfolding p1_def by (rule upd_slot_keeps) (use inv i pool_inv_slot [OF inv i] in \<open>simp_all add: lane_like_def\<close>)
  have s1: "jp_slots p1 ! i = ?f (jp_slots p ! i)" "length (jp_slots p1) = length (jp_slots p)" "jp_ready_index p1 = jp_ready_index p"
    using i by (simp_all add: p1_def nth_upd_slot)
  have p2: "pool_inv p2" "jp_slots p2 = jp_slots p1" "jp_ready_index p2 = jp_ready_index p" "pending p2 = pending p1"
    using p1 s1 by (simp_all add: p2_def)
  have so: "slot_ok (jp_slots p1 ! i)" "sl_index (jp_slots p1 ! i) = i" using pool_inv_slot [of p1 i] p1 i s1 by simp_all
  have g: "pool_inv (upd_slot i ?g p2)" if "can_remove_worker i p1"
  proof (rule drain_slot_inv)
    show "can_remove_worker i p2" using that by (simp add: p2_def can_remove_worker_def)
    show "jp_ready_index p2 = Some i \<Longrightarrow> sl_state (?g (jp_slots p2 ! i)) = LS_kReady"
      using p2(1) by (auto simp: pool_inv_def ready_ok_def)
  qed (use p2 i s1 so slot_ok_drain(2) [OF so(1)] in simp_all)
  have pend: "pending (upd_slot i ?g p2) = pending p2" by (rule upd_slot_pending) (use i s1 p2 in simp_all)
  have gs: "jp_slots (upd_slot i ?g p2) ! i = ?g (?f (jp_slots p ! i))" using i s1 p2 by (simp add: nth_upd_slot)
  have rec: "record_worker_failure i p =
    (if sl_quarantined (jp_slots p1 ! i) \<or> ws_consecutive_failure_threshold (jp_supervision_policy p1) = 0 \<or>
        sl_consecutive_failures (jp_slots p1 ! i) < ws_consecutive_failure_threshold (jp_supervision_policy p1) \<or>
        \<not> can_remove_worker (sl_index (jp_slots p1 ! i)) p1 then p1 else upd_slot i ?g p2)"
    unfolding record_worker_failure_def Let_def p1_def p2_def ..
  show ?thesis using p1 g pend p2 s1 gs so(2) by (simp add: rec)
qed

end
