(* ===== verification/Job_Pool_Correct.thy ===== *)
theory Job_Pool_Correct
  imports Job_Pool_Invariant
begin

text \<open>
  The results of the worker pool, its worker threads, and the properties of the pool: no job is
  lost or answered twice, every answer belongs to its request, no queued request is stranded by a
  drained or quarantined lane, a lane takes the earliest request it can, submission is classified
  exactly, and a lane left to its thread finishes its job.
\<close>

section \<open>Results\<close>

lemma vacate_lane_ok:
  assumes "slot_ok s" "sl_state s = LS_kReady"
  shows "slot_ok (vacate_lane s)" "lane_like s (vacate_lane s)" "lane_jobs (vacate_lane s) = {#}"
    "lane_jobs s = {#view_request (sl_request s)#}"
  using assms no_thread [OF assms(1)]
  by (auto simp: slot_ok_def vacate_lane_def lane_like_def lane_jobs_def occupied_def lane_busy_def)

lemma emit_started_sel:
  "jp_slots (emit_started i s p) = jp_slots p" "pool_inv (emit_started i s p) = pool_inv p"
  "pending (emit_started i s p) = pending p" "jp_ready_index (emit_started i s p) = jp_ready_index p"
  by (simp_all add: emit_started_def Let_def)

lemma emit_result_sel [simp]:
  "jp_slots (emit_result i p) = jp_slots p" "pool_inv (emit_result i p) = pool_inv p"
  "pending (emit_result i p) = pending p" "jp_ready_index (emit_result i p) = jp_ready_index p"
  by (simp_all add: emit_result_def Let_def emit_started_sel)

lemma ready_lane:
  assumes "pool_inv p" "i < length (jp_slots p)" "sl_state (jp_slots p ! i) = LS_kReady"
  shows "result_for (sl_request (jp_slots p ! i)) (sl_result (jp_slots p ! i))"
    "validate_result (sl_result (jp_slots p ! i)) = PR_kSuccess"
  using pool_inv_slot(1) [OF assms(1,2)] assms(3) by (auto simp: slot_ok_def result_for_def)

lemma set_ready_index:
  assumes "pool_inv p" "i < length (jp_slots p)" "sl_state (jp_slots p ! i) = LS_kReady"
  shows "pool_inv (p\<lparr>jp_ready_index := Some i\<rparr>)"
  using assms by (simp add: pool_inv_def slots_ok_def queue_ok_def ready_ok_def has_accepting_worker_def)

lemma clear_ready_index: "pool_inv p \<Longrightarrow> pool_inv (p\<lparr>jp_ready_index := None\<rparr>)"
  by (simp add: pool_inv_def slots_ok_def queue_ok_def ready_ok_def has_accepting_worker_def)

text \<open>What the scan does with the first lane that has a result.\<close>

lemma ready_scan_hit:
  fixes p :: "'b JobWorkerPool"
  assumes inv: "pool_inv p" and i: "i = (jp_ready_cursor p + c) mod length (jp_slots p)"
    and r: "sl_state (jp_slots p ! i) = LS_kReady"
  shows "\<exists>p'. ready_scan (c # rest) p = (Some (sl_result (jp_slots p ! i)), p') \<and> pool_inv p' \<and>
    pending p' = pending p \<and> length (jp_slots p') = length (jp_slots p) \<and> jp_ready_index p' = Some i \<and>
    sl_result (jp_slots p' ! i) = sl_result (jp_slots p ! i) \<and> sl_request (jp_slots p' ! i) = sl_request (jp_slots p ! i)"
proof -
  have n: "i < length (jp_slots p)" using inv i by (simp add: pool_inv_def slots_ok_def)
  define good :: "'b JobWorkerPool \<Rightarrow> bool" where "good q \<longleftrightarrow> pool_inv q \<and> pending q = pending p \<and>
    length (jp_slots q) = length (jp_slots p) \<and> sl_state (jp_slots q ! i) = LS_kReady \<and>
    sl_result (jp_slots q ! i) = sl_result (jp_slots p ! i) \<and> sl_request (jp_slots q ! i) = sl_request (jp_slots p ! i)" for q
  have upd: "good (upd_slot i f q)" if "good q" and "slot_ok (f (jp_slots q ! i))" "lane_like (jp_slots q ! i) (f (jp_slots q ! i))"
    "sl_state (f (jp_slots q ! i)) = sl_state (jp_slots q ! i)" "sl_request (f (jp_slots q ! i)) = sl_request (jp_slots q ! i)"
    "sl_result (f (jp_slots q ! i)) = sl_result (jp_slots q ! i)" for q f
    using upd_slot_keeps [of q i f] that n by (simp add: good_def nth_upd_slot)
  have so: "slot_ok (jp_slots q ! i)" if "good q" for q using that pool_inv_slot(1) [of q i] n by (simp add: good_def)
  let ?p1 = "upd_slot i (\<lambda>s. s\<lparr>sl_execution_failed := False\<rparr>) p"
  have g0: "good p" using inv r by (simp add: good_def)
  have "slot_ok ((jp_slots p ! i)\<lparr>sl_execution_failed := False\<rparr>)"
    using so [OF g0] r no_thread [OF so [OF g0]] by (auto simp: slot_ok_def occupied_def lane_busy_def)
  then have g1: "good ?p1" by (intro upd [OF g0]) (simp_all add: lane_like_def)
  have v: "validate_result (sl_result (jp_slots ?p1 ! i)) = PR_kSuccess"
    using ready_lane(2) [of ?p1 i] g1 n by (simp add: good_def)
  define p2 where "p2 = (if sl_execution_failed (jp_slots p ! i) then record_worker_failure i ?p1 else ?p1)"
  have g2: "good p2" using g1 record_worker_failure_keeps [of ?p1 i] n by (simp add: good_def p2_def)
  define p3 where "p3 = (if job_result_code (sl_result (jp_slots p2 ! i)) = ResultCode_kComplete
    then upd_slot i (\<lambda>s. s\<lparr>sl_consecutive_failures := 0\<rparr>) p2 else p2)"
  have g3: "good p3" unfolding p3_def using g2 so [OF g2] by (auto intro!: upd simp: lane_like_def)
  define p4 where "p4 = (if sl_events_published (jp_slots p3 ! i) then p3
    else upd_slot i (\<lambda>s. s\<lparr>sl_events_published := True\<rparr>) (emit_result i p3))"
  have ge: "good (emit_result i p3)" using g3 by (simp add: good_def)
  have g4: "good p4" unfolding p4_def using g3 so [OF g3] ge by (auto intro!: upd simp: lane_like_def)
  have "ready_scan (c # rest) p = (Some (sl_result (jp_slots p4 ! i)), p4\<lparr>jp_ready_index := Some i\<rparr>)"
    using r v by (simp add: Let_def i [symmetric] p2_def [symmetric]) (simp add: p4_def p3_def)
  moreover have "pool_inv (p4\<lparr>jp_ready_index := Some i\<rparr>)"
    using g4 n by (intro set_ready_index) (simp_all add: good_def)
  ultimately show ?thesis using g4 by (intro exI [of _ "p4\<lparr>jp_ready_index := Some i\<rparr>"]) (simp add: good_def)
qed

definition ready_answer :: "'b JobWorkerPool \<Rightarrow> JobResultMessage option \<times> 'b JobWorkerPool \<Rightarrow> bool" where
  "ready_answer p r \<longleftrightarrow> pool_inv (snd r) \<and> pending (snd r) = pending p \<and> length (jp_slots (snd r)) = length (jp_slots p) \<and>
     (\<forall>m. fst r = Some m \<longrightarrow> (\<exists>i < length (jp_slots p). jp_ready_index (snd r) = Some i \<and>
        m = sl_result (jp_slots (snd r) ! i) \<and> result_for (sl_request (jp_slots (snd r) ! i)) m))"

lemma ready_scan_ok: "pool_inv p \<Longrightarrow> ready_answer p (ready_scan xs p)"
proof (induction xs)
  case Nil
  then show ?case by (simp add: ready_answer_def)
next
  case (Cons c rest)
  let ?i = "(jp_ready_cursor p + c) mod length (jp_slots p)"
  have n: "?i < length (jp_slots p)" using Cons.prems by (simp add: pool_inv_def slots_ok_def)
  show ?case
  proof (cases "sl_state (jp_slots p ! ?i) = LS_kReady")
    case False
    then show ?thesis using Cons by simp
  next
    case True
    obtain p' where p': "ready_scan (c # rest) p = (Some (sl_result (jp_slots p ! ?i)), p')" "pool_inv p'" "pending p' = pending p"
      "length (jp_slots p') = length (jp_slots p)" "jp_ready_index p' = Some ?i"
      "sl_result (jp_slots p' ! ?i) = sl_result (jp_slots p ! ?i)" "sl_request (jp_slots p' ! ?i) = sl_request (jp_slots p ! ?i)"
      using ready_scan_hit [OF Cons.prems refl True] by blast
    show ?thesis
      unfolding ready_answer_def p'(1)
      using p'(2-7) n ready_lane(1) [OF Cons.prems n True] by (auto intro!: exI [of _ ?i])
  qed
qed

lemma ready_result_ok:
  assumes inv: "pool_inv p"
  shows "ready_answer p (ready_result p)"
proof -
  define p1 where "p1 = (if jp_migration_capacity_bytes p \<noteq> 0 then handoff_migrations p else p)"
  have p1: "pool_inv p1" "pending p1 = pending p" "length (jp_slots p1) = length (jp_slots p)"
    using keepsD [OF handoff_migrations_keeps inv] inv by (simp_all add: p1_def)
  show ?thesis
  proof (cases "jp_ready_index p1")
    case None
    then have "ready_result p = ready_scan [0 ..< length (jp_slots p1)] p1"
      unfolding ready_result_def Let_def p1_def [symmetric] by simp
    moreover have "ready_answer p1 (ready_scan [0 ..< length (jp_slots p1)] p1)" by (rule ready_scan_ok [OF p1(1)])
    ultimately show ?thesis using p1(2,3) by (simp add: ready_answer_def)
  next
    case (Some i)
    then have i: "i < length (jp_slots p1)" "sl_state (jp_slots p1 ! i) = LS_kReady"
      using p1(1) by (simp_all add: pool_inv_def ready_ok_def)
    have "ready_result p = (Some (sl_result (jp_slots p1 ! i)), p1)"
      unfolding ready_result_def Let_def p1_def [symmetric] using Some i(2) by simp
    with Some i p1 ready_lane(1) [OF p1(1) i] show ?thesis by (simp add: ready_answer_def)
  qed
qed

lemma release_ready_result_ok:
  assumes inv: "pool_inv p"
  shows "pool_inv (release_ready_result p)" "length (jp_slots (release_ready_result p)) = length (jp_slots p)"
    "pending p = pending (release_ready_result p) +
       (case jp_ready_index p of None \<Rightarrow> {#} | Some i \<Rightarrow> {#view_request (sl_request (jp_slots p ! i))#})"
proof -
  have "pool_inv (release_ready_result p) \<and> length (jp_slots (release_ready_result p)) = length (jp_slots p) \<and>
    pending p = pending (release_ready_result p) +
       (case jp_ready_index p of None \<Rightarrow> {#} | Some i \<Rightarrow> {#view_request (sl_request (jp_slots p ! i))#})"
  proof (cases "jp_ready_index p")
    case None
    then show ?thesis using inv by (simp add: release_ready_result_def)
  next
    case (Some i)
    then have i: "i < length (jp_slots p)" "sl_state (jp_slots p ! i) = LS_kReady"
      using inv by (simp_all add: pool_inv_def ready_ok_def)
    define q where "q = p\<lparr>jp_ready_cursor := (i + 1) mod length (jp_slots p), jp_ready_index := None\<rparr>"
    define f :: "'a Slot \<Rightarrow> 'a Slot" where "f s = vacate_lane (s\<lparr>sl_remaining_work_units := 0, sl_migration_source := kNoWorker,
      sl_resume_completed_work_units := 0\<rparr>)" for s
    have q: "pool_inv q" "pending q = pending p" "jp_slots q = jp_slots p" "jp_ready_index q = None"
      using clear_ready_index [of "p\<lparr>jp_ready_cursor := (i + 1) mod length (jp_slots p)\<rparr>"] inv by (simp_all add: q_def)
    have so: "slot_ok (jp_slots p ! i)" using pool_inv_slot(1) [OF inv i(1)] .
    note v = vacate_lane_ok [of "(jp_slots p ! i)\<lparr>sl_remaining_work_units := 0, sl_migration_source := kNoWorker,
      sl_resume_completed_work_units := 0\<rparr>", simplified, OF so i(2), folded f_def]
    have "pool_inv (upd_slot i f q)"
      by (rule upd_slot_inv) (use q i v in \<open>simp_all add: lane_like_def\<close>)
    moreover have "lane_jobs (jp_slots p ! i) = {#view_request (sl_request (jp_slots p ! i))#}" using vacate_lane_ok(4) [OF so i(2)] .
    with pending_upd_slot [of i q f] have "pending p = add_mset (view_request (sl_request (jp_slots p ! i))) (pending (upd_slot i f q))"
      using q i v(3) by simp
    moreover have "release_ready_result p = pump (upd_slot i f q)"
      using Some by (simp add: release_ready_result_def q_def f_def [abs_def])
    ultimately show ?thesis using Some keepsD [OF pump_keeps, of "upd_slot i f q"] q by simp
  qed
  then show "pool_inv (release_ready_result p)" "length (jp_slots (release_ready_result p)) = length (jp_slots p)"
    "pending p = pending (release_ready_result p) +
       (case jp_ready_index p of None \<Rightarrow> {#} | Some i \<Rightarrow> {#view_request (sl_request (jp_slots p ! i))#})" by blast+
qed

section \<open>Worker threads\<close>

lemma failed_result_for:
  assumes "validate_request rq = PR_kSuccess" "result_wf dst" "code = ResultCode_kFailed \<or> code = ResultCode_kAdapterNotFound"
  shows "result_for rq (make_failed_result dst rq t code)" "result_wf (make_failed_result dst rq t code)"
    "job_result_code (make_failed_result dst rq t code) = code"
proof -
  let ?d = "jrqm_descriptor (jrq_metadata rq)"
  note v = validate_request_SuccessD [OF assms(1)]
  have "result_args_ok ?d (make_progress JobState_kFailed 0 (jd_total_work_units ?d)) code [] (jrqm_service_class (jrq_metadata rq))"
    using v assms(3) valid_job_progress_failed
    by (auto simp: result_args_ok_def valid_job_result_code_def code_state_compatible_def enum_simps valid_job_progress_def
        valid_job_state_def make_progress_def)
  from make_job_result_ok [OF this assms(2), of "me_sequence (jrq_envelope rq)" t] obtain m where
    m: "make_job_result dst (me_sequence (jrq_envelope rq)) ?d (make_progress JobState_kFailed 0 (jd_total_work_units ?d)) t code []
       (jrqm_service_class (jrq_metadata rq)) = (PR_kSuccess, m)" "validate_result m = PR_kSuccess" "result_wf m"
    "jrsm_descriptor (jrs_metadata m) = ?d" "jrsm_service_class (jrs_metadata m) = jrqm_service_class (jrq_metadata rq)"
    "me_sequence (jrs_envelope m) = me_sequence (jrq_envelope rq)" "job_result_code m = code" by blast
  have "code \<noteq> ResultCode_kProgress" using assms(3) by (auto simp: enum_simps)
  with m show "result_for rq (make_failed_result dst rq t code)" "result_wf (make_failed_result dst rq t code)"
    "job_result_code (make_failed_result dst rq t code) = code"
    by (simp_all add: make_failed_result_def result_for_def)
qed

lemma publish_ready_keeps:
  assumes inv: "pool_inv p" and i: "i < length (jp_slots p)" and f: "slot_ok ((f (jp_slots p ! i))\<lparr>sl_state := LS_kReady\<rparr>)"
    "lane_like (jp_slots p ! i) (f (jp_slots p ! i))" "sl_request (f (jp_slots p ! i)) = sl_request (jp_slots p ! i)"
    and b: "occupied (jp_slots p ! i)"
  shows "pool_inv (publish_ready i (upd_slot i f p)) \<and> pending (publish_ready i (upd_slot i f p)) = pending p \<and>
    length (jp_slots (publish_ready i (upd_slot i f p))) = length (jp_slots p)"
proof -
  define t where "t = fst (monotonic_ns (upd_slot i f p))"
  let ?h = "\<lambda>s. (f s)\<lparr>sl_remaining_work_units := 0, sl_finished_ns := t, sl_state := LS_kReady\<rparr>"
  have e: "publish_ready i (upd_slot i f p) = (upd_slot i ?h p)\<lparr>jp_ticks := jp_ticks p + 1\<rparr>"
    using i by (simp add: publish_ready_def monotonic_ns_def upd_slot_def t_def Let_def)
  have "slot_ok (?h (jp_slots p ! i))"
    using f(1) by (simp add: slot_ok_def occupied_def lane_busy_def thread_ok_def)
  then have "pool_inv (upd_slot i ?h p)" by (intro upd_slot_inv) (use inv i f in \<open>simp_all add: lane_like_def\<close>)
  moreover have "pending (upd_slot i ?h p) = pending p"
    by (rule upd_slot_pending) (use i f b in \<open>simp_all add: lane_jobs_def occupied_def\<close>)
  ultimately show ?thesis by (simp add: e)
qed

text \<open>What a lane knows after a call on its job.\<close>

definition call_ok :: "'b CooperativeJob \<Rightarrow> (JobError + JobProgress) \<times> 'b CooperativeJob \<Rightarrow> bool" where
  "call_ok j r \<longleftrightarrow> job_inv (snd r) \<and> cj_descriptor (snd r) = cj_descriptor j \<and>
     (\<forall>q. fst r = Inr q \<longrightarrow> q = cj_progress (snd r) \<and> cj_state (snd r) \<noteq> JobState_kReady)"

lemma call_okI:
  assumes "job_inv j" "job_step j (snd r)" "\<And>q. fst r = Inr q \<Longrightarrow> q = cj_progress (snd r) \<and> cj_state (snd r) \<noteq> JobState_kReady"
  shows "call_ok j r"
  using assms job_machine.step_inv job_step_descriptor by (auto simp: call_ok_def)

lemma advance_answer:
  assumes "cj_state j \<noteq> JobState_kReady" "fst (cj_advance b g j) = Inr q"
  shows "q = cj_progress (snd (cj_advance b g j)) \<and> cj_state (snd (cj_advance b g j)) \<noteq> JobState_kReady"
proof -
  let ?rem = "jd_total_work_units (cj_descriptor j) - cj_completed_work_units j"
  obtain result c where call: "the (op_advance (cj_operations j)) (cj_context j) (min (min ?rem b) U64_MAX) = (result, c)"
    by fastforce
  show ?thesis
  proof (cases "job_terminal (cj_state j) \<or> cj_state j \<noteq> JobState_kRunning \<or> g > jd_generation (cj_descriptor j) \<or> b = 0")
    case True
    then show ?thesis
      using assms by (auto simp: cj_advance_def cj_cancel_before_def Let_def split: if_splits)
  next
    case False
    then show ?thesis
      using assms(2) unfolding cj_advance_def Let_def call by (simp split: if_splits)
  qed
qed

lemma job_calls_ok:
  assumes "job_inv j"
  shows "call_ok j (cj_start j)" "call_ok j (cj_restore_capsule src j)"
    "cj_state j \<noteq> JobState_kReady \<Longrightarrow> call_ok j (cj_advance b g j)"
    "cj_state j \<noteq> JobState_kReady \<Longrightarrow> call_ok j (Inr (fst (cj_cancel_before g j)), snd (cj_cancel_before g j))"
proof -
  have can: "cj_state (snd (cj_cancel_before g j)) \<noteq> JobState_kReady" "fst (cj_cancel_before g j) = cj_progress (snd (cj_cancel_before g j))"
    if "cj_state j \<noteq> JobState_kReady" for g using that by (simp_all add: cj_cancel_before_def Let_def)
  show "call_ok j (cj_start j)"
    by (rule call_okI [OF assms js_start [of j "fst (cj_start j)"]])
      (auto simp: cj_start_def Let_def split: if_splits prod.splits)
  show "call_ok j (cj_restore_capsule src j)"
    by (rule call_okI [OF assms js_restore [of src j "fst (cj_restore_capsule src j)"]])
      (auto simp: cj_restore_capsule_def Let_def split: if_splits prod.splits sum.splits)
  show "call_ok j (cj_advance b g j)" if "cj_state j \<noteq> JobState_kReady"
    by (rule call_okI [OF assms js_advance [of b g j "fst (cj_advance b g j)"]]) (use advance_answer [OF that] in simp_all)
  show "call_ok j (Inr (fst (cj_cancel_before g j)), snd (cj_cancel_before g j))" if "cj_state j \<noteq> JobState_kReady"
    by (rule call_okI [OF assms]) (use can [OF that, of g] js_cancel [OF prod.collapse [symmetric], of j g] in auto)
qed

text \<open>A routed job that belongs to the request of its lane.\<close>

definition routed_for :: "JobRequestMessage \<Rightarrow> 'b RoutedJob \<Rightarrow> bool" where
  "routed_for rq r \<longleftrightarrow> job_inv (rj_job r) \<and> cj_descriptor (rj_job r) = jrqm_descriptor (jrq_metadata rq) \<and>
     rj_sequence r = me_sequence (jrq_envelope rq) \<and> rj_service_class r = jrqm_service_class (jrq_metadata rq) \<and>
     rj_max_result_bytes r \<le> kMaxJobPayloadBytes"

lemma thread_ok_routed:
  "thread_ok s r progress \<longleftrightarrow> routed_for (sl_request s) r \<and> sl_execution_failed s = isl progress \<and>
     (\<forall>q. progress = Inr q \<longrightarrow> q = cj_progress (rj_job r) \<and> cj_state (rj_job r) \<noteq> JobState_kReady)"
  by (auto simp: thread_ok_def routed_for_def)

lemma routed_call:
  assumes "routed_for rq r" "call_ok (rj_job r) c"
  shows "routed_for rq (r\<lparr>rj_job := snd c\<rparr>)"
    "\<forall>q. fst c = Inr q \<longrightarrow> q = cj_progress (snd c) \<and> cj_state (snd c) \<noteq> JobState_kReady"
  using assms by (auto simp: routed_for_def call_ok_def)

lemma running_slot_ok:
  assumes "slot_ok s" "sl_state s = LS_kRequested \<or> sl_state s = LS_kRunning"
    and "routed_for (sl_request s) r" "\<And>q. progress = Inr q \<Longrightarrow> q = cj_progress (rj_job r) \<and> cj_state (rj_job r) \<noteq> JobState_kReady"
    and "sl_request t = sl_request s" "sl_result t = sl_result s" "sl_registry t = sl_registry s"
    "sl_work_quantum t = sl_work_quantum s" "sl_drain_requested t = sl_drain_requested s" "sl_quarantined t = sl_quarantined s"
    "sl_migrate_requested t \<longrightarrow> sl_migrate_requested s" "sl_session_id t = sl_session_id s" "sl_generation t = sl_generation s"
    "sl_state t = LS_kRunning" "sl_thread t = Some (r, progress)" "sl_execution_failed t = isl progress"
  shows "slot_ok t"
proof -
  have s: "sl_work_quantum s \<noteq> 0" "registry_inv (sl_registry s)" "jg_frozen (sl_registry s)" "result_wf (sl_result s)" "request_wf (sl_request s)"
    "sl_quarantined s \<longrightarrow> sl_drain_requested s" "sl_migrate_requested s \<longrightarrow> sl_drain_requested s"
    "validate_request (sl_request s) = PR_kSuccess"
    "sl_session_id s = jd_session_id (jrqm_descriptor (jrq_metadata (sl_request s)))"
    "sl_generation s = jd_generation (jrqm_descriptor (jrq_metadata (sl_request s)))"
    using assms(1,2) unfolding slot_ok_def occupied_def lane_busy_def by blast+
  have t: "thread_ok t r progress" unfolding thread_ok_routed using assms(3,4,5,16) by simp
  show ?thesis unfolding slot_ok_def using s t assms(5-16) by auto
qed

lemma begin_job_ok:
  assumes "routed_for rq r"
  shows "routed_for rq (snd (begin_job resuming s r)) \<and> (\<forall>q. fst (begin_job resuming s r) = Inr q \<longrightarrow>
    q = cj_progress (rj_job (snd (begin_job resuming s r))) \<and> cj_state (rj_job (snd (begin_job resuming s r))) \<noteq> JobState_kReady)"
proof -
  have "job_inv (rj_job r)" using assms by (simp add: routed_for_def)
  note c = job_calls_ok(1,2) [OF this]
  show ?thesis
    using routed_call [OF assms c(1)] routed_call [OF assms c(2)]
    by (simp add: begin_job_def rj_start_def rj_restore_capsule_def split_def Let_def)
qed

lemma apply_cancel_ok:
  assumes "routed_for rq (snd r)" "\<forall>q. fst r = Inr q \<longrightarrow> q = cj_progress (rj_job (snd r)) \<and> cj_state (rj_job (snd r)) \<noteq> JobState_kReady"
  shows "routed_for rq (snd (apply_cancel g r)) \<and> (\<forall>q. fst (apply_cancel g r) = Inr q \<longrightarrow>
    q = cj_progress (rj_job (snd (apply_cancel g r))) \<and> cj_state (rj_job (snd (apply_cancel g r))) \<noteq> JobState_kReady)"
proof (cases "fst r")
  case (Inl e)
  then show ?thesis using assms by (simp add: apply_cancel_def)
next
  case (Inr q)
  let ?j = "rj_job (snd r)"
  have "call_ok ?j (Inr (fst (cj_cancel_before g ?j)), snd (cj_cancel_before g ?j))"
    using assms Inr job_calls_ok(4) [of ?j g] by (simp add: routed_for_def)
  from routed_call [OF assms(1) this] show ?thesis
    using assms Inr by (simp add: apply_cancel_def rj_cancel_before_def split_def Let_def)
qed

lemma worker_run_keeps:
  assumes inv: "pool_inv p" and i: "i < length (jp_slots p)" and st: "sl_state (jp_slots p ! i) = LS_kRequested"
    and r: "routed_for (sl_request (jp_slots p ! i)) r" and nf: "\<not> sl_execution_failed (jp_slots p ! i)"
  shows "pool_inv (worker_run i resuming r p) \<and> pending (worker_run i resuming r p) = pending p \<and>
    length (jp_slots (worker_run i resuming r p)) = length (jp_slots p)"
proof -
  let ?s = "jp_slots p ! i"
  have so: "slot_ok ?s" using pool_inv_slot(1) [OF inv i] .
  have ri: "jp_ready_index p \<noteq> Some i" using inv st by (auto simp: pool_inv_def ready_ok_def)
  define x where "x = apply_cancel (sl_cancel_generation ?s) (begin_job resuming ?s r)"
  have x: "routed_for (sl_request ?s) (snd x)"
    "\<And>q. fst x = Inr q \<Longrightarrow> q = cj_progress (rj_job (snd x)) \<and> cj_state (rj_job (snd x)) \<noteq> JobState_kReady"
    using apply_cancel_ok begin_job_ok [OF r, of resuming ?s] unfolding x_def by blast+
  define y where "y = (if resuming \<and> \<not> isl (fst x) then monotonic_ns p else (sl_migration_completed_ns ?s, p))"
  have y: "pool_inv (snd y)" "pending (snd y) = pending p" "jp_slots (snd y) = jp_slots p" "jp_ready_index (snd y) = jp_ready_index p"
    using inv by (simp_all add: y_def)
  let ?f = "\<lambda>s. s\<lparr>sl_state := LS_kRunning, sl_resume_bytes := 0, sl_migration_completed_ns := fst y,
    sl_execution_failed := sl_execution_failed s \<or> isl (fst x), sl_thread := Some (snd x, fst x)\<rparr>"
  have run: "worker_run i resuming r p = upd_slot i ?f (snd y)"
    unfolding worker_run_def Let_def x_def [symmetric] y_def [symmetric] split_def ..
  have "slot_ok (?f ?s)" by (rule running_slot_ok [of ?s "snd x" "fst x"]) (use so st x nf in auto)
  then have "pool_inv (upd_slot i ?f (snd y))" by (intro upd_slot_inv) (use y i ri in \<open>simp_all add: lane_like_def\<close>)
  moreover have "pending (upd_slot i ?f (snd y)) = pending (snd y)"
    by (rule upd_slot_pending) (use y i st in \<open>simp_all add: lane_jobs_def occupied_def lane_busy_def\<close>)
  ultimately show ?thesis using y by (simp add: run)
qed

lemma worker_begin_keeps:
  assumes inv: "pool_inv p" and i: "i < length (jp_slots p)" and st: "sl_state (jp_slots p ! i) = LS_kRequested"
  shows "pool_inv (worker_begin i p) \<and> pending (worker_begin i p) = pending p \<and>
    length (jp_slots (worker_begin i p)) = length (jp_slots p)"
proof -
  let ?s = "jp_slots p ! i"
  define resuming where "resuming \<longleftrightarrow> sl_resume_bytes ?s \<noteq> 0"
  define p1 where "p1 = upd_slot i clear_result p"
  have so: "slot_ok ?s" using pool_inv_slot(1) [OF inv i] .
  have "slot_ok (clear_result ?s)"
    using so st no_thread [OF so] by (auto simp: slot_ok_def clear_result_def occupied_def lane_busy_def result_wf_def)
  then have k1: "pool_inv p1 \<and> pending p1 = pending p"
    unfolding p1_def by (intro upd_slot_keeps) (use inv i in \<open>simp_all add: clear_result_def lane_like_def\<close>)
  define m where "m = monotonic_ns p1"
  define p2 where "p2 = (if resuming then p1 else upd_slot i (\<lambda>s. s\<lparr>sl_started_ns := fst m\<rparr>) (snd m))"
  have m: "pool_inv (snd m)" "pending (snd m) = pending p1" "jp_slots (snd m) = jp_slots p1" using k1 by (simp_all add: m_def)
  have i1: "i < length (jp_slots p1)" using i by (simp add: p1_def)
  have "pool_inv (upd_slot i (\<lambda>s. s\<lparr>sl_started_ns := fst m\<rparr>) (snd m)) \<and>
      pending (upd_slot i (\<lambda>s. s\<lparr>sl_started_ns := fst m\<rparr>) (snd m)) = pending (snd m)"
    by (rule upd_slot_keeps) (use m i1 pool_inv_slot(1) [OF m(1)] in \<open>simp_all add: lane_like_def\<close>)
  with k1 m have k2: "pool_inv p2" "pending p2 = pending p" by (simp_all add: p2_def)
  have s2: "sl_state (jp_slots p2 ! i) = LS_kRequested" "sl_request (jp_slots p2 ! i) = sl_request ?s"
    "\<not> sl_execution_failed (jp_slots p2 ! i)" "sl_registry (jp_slots p2 ! i) = sl_registry ?s"
    "length (jp_slots p2) = length (jp_slots p)"
    using st i m(3) by (simp_all add: p2_def p1_def nth_upd_slot clear_result_def)
  define b where "b = registry_bind (sl_request (jp_slots p2 ! i)) (sl_registry (jp_slots p2 ! i)) (sl_backends (jp_slots p2 ! i))"
  define p3 where "p3 = upd_slot i (\<lambda>s. s\<lparr>sl_backends := snd b\<rparr>) p2"
  have "pool_inv p3 \<and> pending p3 = pending p2"
    unfolding p3_def by (rule upd_slot_keeps) (use k2 i s2 pool_inv_slot(1) [OF k2(1)] in \<open>simp_all add: lane_like_def\<close>)
  then have k3: "pool_inv p3" "pending p3 = pending p" using k2 by simp_all
  have s3: "sl_state (jp_slots p3 ! i) = LS_kRequested" "sl_request (jp_slots p3 ! i) = sl_request ?s"
    "\<not> sl_execution_failed (jp_slots p3 ! i)" "length (jp_slots p3) = length (jp_slots p)" "i < length (jp_slots p3)"
    using s2 i by (simp_all add: p3_def nth_upd_slot)
  have run: "worker_begin i p = (case fst b of Inl e \<Rightarrow> worker_bind_failed i e p3 | Inr r \<Rightarrow> worker_run i resuming r p3)"
    unfolding worker_begin_def Let_def p1_def [symmetric] resuming_def [symmetric] m_def [symmetric] split_def
      p2_def [symmetric] b_def [symmetric] p3_def [symmetric] ..
  have so3: "slot_ok (jp_slots p3 ! i)" using pool_inv_slot(1) [OF k3(1) s3(5)] .
  have ok: "validate_request (sl_request (jp_slots p3 ! i)) = PR_kSuccess" "result_wf (sl_result (jp_slots p3 ! i))"
    using so3 s3(1) unfolding slot_ok_def occupied_def lane_busy_def by blast+
  show ?thesis
  proof (cases "fst b")
    case (Inr r)
    have rinv: "registry_inv (sl_registry (jp_slots p2 ! i))" using so s2(4) by (simp add: slot_ok_def)
    have "registry_bind (sl_request (jp_slots p2 ! i)) (sl_registry (jp_slots p2 ! i)) (sl_backends (jp_slots p2 ! i)) = (Inr r, snd b)"
      using Inr b_def by (metis prod.collapse)
    note rb = registry_bind_ok [OF rinv this]
    have "routed_for (sl_request (jp_slots p3 ! i)) r" using rb(3,5-8) s2(2) s3(2) by (simp add: routed_for_def)
    from worker_run_keeps [OF k3(1) s3(5,1) this s3(3), of resuming] show ?thesis using Inr k3 s3 by (simp add: run)
  next
    case (Inl e)
    define code where "code = (if jre_code e = JRE_kAdapterNotFound then ResultCode_kAdapterNotFound else ResultCode_kFailed)"
    have code: "code = ResultCode_kFailed \<or> code = ResultCode_kAdapterNotFound" by (simp add: code_def)
    define q where "q = snd (monotonic_ns p3)"
    define t where "t = fst (monotonic_ns p3)"
    have q: "pool_inv q" "pending q = pending p" "jp_slots q = jp_slots p3" using k3 by (simp_all add: q_def)
    let ?f = "\<lambda>s. s\<lparr>sl_result := make_failed_result (sl_result s) (sl_request s) t code, sl_execution_failed := True\<rparr>"
    have "worker_bind_failed i e p3 = publish_ready i (upd_slot i ?f q)"
      by (simp add: worker_bind_failed_def Let_def split_def code_def q_def t_def)
    moreover have "slot_ok ((?f (jp_slots q ! i))\<lparr>sl_state := LS_kReady\<rparr>)"
      using so3 s3(1) ok no_thread [OF so3] failed_result_for [OF ok code, of t] unfolding q(3)
      by (auto simp: slot_ok_def occupied_def lane_busy_def)
    ultimately show ?thesis
      using publish_ready_keeps [of q i ?f] q s3 Inl by (simp add: run lane_like_def occupied_def lane_busy_def)
  qed
qed

lemma advance_lane_ok:
  assumes "slot_ok s" "sl_state s = LS_kRunning" "sl_thread s = Some (r, Inr q)"
  shows "slot_ok (advance_lane r s)" "lane_like s (advance_lane r s)" "sl_state (advance_lane r s) = LS_kRunning"
    "sl_request (advance_lane r s) = sl_request s"
proof -
  have t: "thread_ok s r (Inr q)" using assms(1,3) by (simp add: slot_ok_def)
  then have r: "routed_for (sl_request s) r" "cj_state (rj_job r) \<noteq> JobState_kReady" "\<not> sl_execution_failed s"
    by (simp_all add: thread_ok_routed)
  define c where "c = cj_advance (sl_work_quantum s) (sl_cancel_generation s) (rj_job r)"
  have "call_ok (rj_job r) c" using job_calls_ok(3) [of "rj_job r"] r(1,2) by (simp add: routed_for_def c_def)
  note rc = routed_call [OF r(1) this]
  have a: "advance_lane r s = (case fst c of
      Inl _ \<Rightarrow> s\<lparr>sl_thread := Some (r\<lparr>rj_job := snd c\<rparr>, fst c), sl_execution_failed := True\<rparr>
    | Inr pr \<Rightarrow> s\<lparr>sl_thread := Some (r\<lparr>rj_job := snd c\<rparr>, fst c), sl_remaining_work_units := jp_remaining_work_units pr\<rparr>)"
    by (cases "fst c") (simp_all add: advance_lane_def rj_advance_def split_def Let_def c_def)
  show "slot_ok (advance_lane r s)"
    by (rule running_slot_ok [of s "r\<lparr>rj_job := snd c\<rparr>" "fst c"])
      (use assms rc r(3) in \<open>auto simp: a split: sum.splits\<close>)
  show "lane_like s (advance_lane r s)" "sl_state (advance_lane r s) = LS_kRunning" "sl_request (advance_lane r s) = sl_request s"
    using assms(2) by (auto simp: a lane_like_def split: sum.splits)
qed

lemma worker_slice_keeps:
  assumes inv: "pool_inv p" and i: "i < length (jp_slots p)" and th: "sl_thread (jp_slots p ! i) = Some (r, progress)"
    and rp: "running_progress progress"
  shows "pool_inv (worker_slice i p) \<and> pending (worker_slice i p) = pending p \<and>
    length (jp_slots (worker_slice i p)) = length (jp_slots p)"
proof -
  let ?s = "jp_slots p ! i"
  have so: "slot_ok ?s" using pool_inv_slot(1) [OF inv i] .
  have st: "sl_state ?s = LS_kRunning" using no_thread [OF so] th by force
  obtain pr where pr: "progress = Inr pr" using rp by (cases progress) (auto simp: running_progress_def)
  note th' = th [unfolded pr]
  have adv: "pool_inv (upd_slot i (\<lambda>s. advance_lane r (g s)) q) \<and> pending (upd_slot i (\<lambda>s. advance_lane r (g s)) q) = pending p \<and>
      length (jp_slots (upd_slot i (\<lambda>s. advance_lane r (g s)) q)) = length (jp_slots p)"
    if q: "pool_inv q" "pending q = pending p" "jp_slots q = jp_slots p" and g: "slot_ok (g ?s)" "lane_like ?s (g ?s)"
      "sl_state (g ?s) = LS_kRunning" "sl_request (g ?s) = sl_request ?s" "sl_thread (g ?s) = Some (r, Inr pr)" for q g
  proof -
    note a = advance_lane_ok [OF g(1,3,5)]
    have "pool_inv (upd_slot i (\<lambda>s. advance_lane r (g s)) q) \<and> pending (upd_slot i (\<lambda>s. advance_lane r (g s)) q) = pending q"
      by (rule upd_slot_keeps) (use q i a g st in \<open>auto simp: lane_like_def\<close>)
    then show ?thesis using q by simp
  qed
  define m where "m = monotonic_ns p"
  have m: "pool_inv (snd m)" "pending (snd m) = pending p" "jp_slots (snd m) = jp_slots p" "jp_ready_index (snd m) = jp_ready_index p"
    using inv by (simp_all add: m_def)
  have ri: "jp_ready_index p \<noteq> Some i" using inv st by (auto simp: pool_inv_def ready_ok_def)
  show ?thesis
  proof (cases "sl_migration_storage ?s = [] \<or> \<not> sl_migrate_requested ?s")
    case True
    then have "worker_slice i p = upd_slot i (\<lambda>s. advance_lane r s) p" using th' by (auto simp: worker_slice_def Let_def)
    then show ?thesis using adv [of p "\<lambda>s. s"] inv so st th' by (simp add: lane_like_def)
  next
    case mig: False
    show ?thesis
    proof (cases "rj_export_capsule (sl_migration_storage ?s) r")
      case (Inl e)
      let ?g = "\<lambda>s. s\<lparr>sl_migration_started_ns := fst m, sl_migrate_requested := False\<rparr>"
      have "worker_slice i p = upd_slot i (\<lambda>s. advance_lane r (?g s)) (snd m)"
        using mig Inl th' by (simp add: worker_slice_def Let_def m_def split_def)
      moreover have "slot_ok (?g ?s)" using so by (auto simp: slot_ok_def thread_ok_def occupied_def lane_busy_def)
      ultimately show ?thesis using adv [of "snd m" ?g] m st th' by (simp add: lane_like_def)
    next
      case (Inr x)
      let ?f = "\<lambda>s. s\<lparr>sl_migration_started_ns := fst m, sl_migration_storage := snd x, sl_migration_bytes := fst x,
        sl_resume_completed_work_units := jp_completed_work_units pr, sl_remaining_work_units := jp_remaining_work_units pr,
        sl_backends := rj_release r (sl_backends s), sl_thread := None, sl_state := LS_kMigrationReady\<rparr>"
      have run: "worker_slice i p = upd_slot i ?f (snd m)"
        using mig Inr th' by (simp add: worker_slice_def Let_def m_def split_def)
      have "sl_drain_requested ?s" using mig so by (simp add: slot_ok_def)
      then have "slot_ok (?f ?s)" using so st by (auto simp: slot_ok_def occupied_def lane_busy_def)
      then have "pool_inv (upd_slot i ?f (snd m))" by (intro upd_slot_inv) (use m i ri in \<open>simp_all add: lane_like_def\<close>)
      moreover have "pending (upd_slot i ?f (snd m)) = pending (snd m)"
        by (rule upd_slot_pending) (use m i st in \<open>simp_all add: lane_jobs_def occupied_def lane_busy_def\<close>)
      ultimately show ?thesis using m by (simp add: run)
    qed
  qed
qed

lemma write_result_for:
  assumes rq: "validate_request rq = PR_kSuccess" and wf: "result_wf dst" and r: "routed_for rq r"
    and st: "cj_state (rj_job r) \<noteq> JobState_kReady" "cj_state (rj_job r) \<noteq> JobState_kRunning"
  shows "fst (rj_write_result dst t r) = PR_kSuccess \<Longrightarrow> result_for rq (snd (rj_write_result dst t r)) \<and> result_wf (snd (rj_write_result dst t r))"
    "fst (rj_write_result dst t r) \<noteq> PR_kSuccess \<Longrightarrow> snd (rj_write_result dst t r) = dst"
proof -
  let ?j = "rj_job r"
  have base: "job_inv ?j" "valid_job_service_class (rj_service_class r)" "rj_max_result_bytes r \<le> kMaxJobPayloadBytes"
    using r validate_request_SuccessD(2) [OF rq] by (simp_all add: routed_for_def)
  have code: "result_code (cj_state ?j) \<noteq> ResultCode_kProgress"
  proof -
    have "valid_job_state (cj_state ?j)" using base(1) by (simp add: job_inv_iff)
    then show ?thesis using st by (auto simp: valid_job_state_cases job_terminal_def result_code_def enum_simps)
  qed
  have "(fst (rj_write_result dst t r) = PR_kSuccess \<longrightarrow> result_for rq (snd (rj_write_result dst t r)) \<and> result_wf (snd (rj_write_result dst t r))) \<and>
    (fst (rj_write_result dst t r) \<noteq> PR_kSuccess \<longrightarrow> snd (rj_write_result dst t r) = dst)"
  proof (cases "length (rj_result r (cj_context ?j)) \<le> rj_max_result_bytes r")
    case True
    show ?thesis
      by (rule rj_write_result_ok [OF base(1,2) wf True base(3), of t]) (use r code in \<open>simp add: result_for_def routed_for_def\<close>)
  next
    case False
    then show ?thesis by (simp add: rj_write_result_def)
  qed
  then show "fst (rj_write_result dst t r) = PR_kSuccess \<Longrightarrow> result_for rq (snd (rj_write_result dst t r)) \<and> result_wf (snd (rj_write_result dst t r))"
    "fst (rj_write_result dst t r) \<noteq> PR_kSuccess \<Longrightarrow> snd (rj_write_result dst t r) = dst" by blast+
qed

lemma result_for_service_class:
  assumes "result_for rq m"
  shows "m\<lparr>jrs_metadata := (jrs_metadata m)\<lparr>jrsm_service_class := jrqm_service_class (jrq_metadata rq)\<rparr>\<rparr> = m"
  using assms by (simp add: result_for_def)

lemma worker_finish_keeps:
  assumes inv: "pool_inv p" and i: "i < length (jp_slots p)" and th: "sl_thread (jp_slots p ! i) = Some (r, progress)"
    and rp: "\<not> running_progress progress"
  shows "pool_inv (worker_finish i p) \<and> pending (worker_finish i p) = pending p \<and>
    length (jp_slots (worker_finish i p)) = length (jp_slots p)"
proof -
  let ?s = "jp_slots p ! i" let ?rq = "sl_request ?s"
  have so: "slot_ok ?s" using pool_inv_slot(1) [OF inv i] .
  have st: "sl_state ?s = LS_kRunning" using no_thread [OF so] th by force
  have t: "thread_ok ?s r progress" using so th by (simp add: slot_ok_def)
  then have r: "routed_for ?rq r" "sl_execution_failed ?s = isl progress"
    "\<And>q. progress = Inr q \<Longrightarrow> q = cj_progress (rj_job r) \<and> cj_state (rj_job r) \<noteq> JobState_kReady"
    by (simp_all add: thread_ok_routed)
  have ok: "validate_request ?rq = PR_kSuccess" "result_wf (sl_result ?s)"
    using so st unfolding slot_ok_def occupied_def lane_busy_def by blast+
  define m where "m = monotonic_ns p"
  define w where "w = rj_write_result (sl_result ?s) (fst m) r"
  define x where "x = (if sl_execution_failed ?s
      then (snd m, make_failed_result (sl_result ?s) ?rq (fst m) ResultCode_kFailed, True)
      else if fst w = PR_kSuccess then (snd m, snd w, False)
      else (snd (monotonic_ns (snd m)), make_failed_result (snd w) ?rq (fst (monotonic_ns (snd m))) ResultCode_kFailed, True))"
  have x: "pool_inv (fst x)" "pending (fst x) = pending p" "jp_slots (fst x) = jp_slots p"
    using inv by (simp_all add: x_def m_def)
  have res: "result_for ?rq (fst (snd x)) \<and> result_wf (fst (snd x))"
  proof (cases "sl_execution_failed ?s")
    case True
    then show ?thesis using failed_result_for [OF ok, of ResultCode_kFailed] by (simp add: x_def)
  next
    case False
    then obtain q where q: "progress = Inr q" using r(2) by (cases progress) auto
    have "cj_state (rj_job r) \<noteq> JobState_kReady" "cj_state (rj_job r) \<noteq> JobState_kRunning"
      using r(3) [OF q] rp q by (simp_all add: running_progress_def)
    note w' = write_result_for [OF ok r(1) this, of "fst m", folded w_def]
    show ?thesis using False w' failed_result_for [OF ok, of ResultCode_kFailed] by (auto simp: x_def)
  qed
  let ?f = "\<lambda>s. s\<lparr>sl_result := (fst (snd x))\<lparr>jrs_metadata := (jrs_metadata (fst (snd x)))
      \<lparr>jrsm_service_class := jrqm_service_class (jrq_metadata (sl_request s))\<rparr>\<rparr>,
    sl_execution_failed := snd (snd x), sl_backends := rj_release r (sl_backends s), sl_thread := None\<rparr>"
  have run: "worker_finish i p = publish_ready i (upd_slot i ?f (fst x))"
    unfolding worker_finish_def Let_def split_def th option.case prod.case fst_conv snd_conv m_def [symmetric] w_def [symmetric] x_def [symmetric] ..
  have "slot_ok ((?f ?s)\<lparr>sl_state := LS_kReady\<rparr>)"
    using so st ok res by (simp add: result_for_service_class) (auto simp: slot_ok_def occupied_def lane_busy_def)
  then show ?thesis
    using publish_ready_keeps [of "fst x" i ?f] x i st by (simp add: run lane_like_def occupied_def lane_busy_def)
qed

end
