(* ===== verification/Job_Pool_Properties.thy ===== *)
theory Job_Pool_Properties
  imports Job_Pool_Correct
begin

text \<open>
  The properties of the worker pool over every interleaving of coordinator calls and worker steps:
  no job is lost or answered twice and every answer is its request's own, no queued request is
  stranded by a drained or quarantined lane, a lane takes the earliest request it can, submission
  is classified exactly, and a lane left to its thread finishes its job.
\<close>

section \<open>Definitions\<close>

text \<open>
  A run of the pool with its account: the requests accepted so far, and those released together
  with the result that answered each.
\<close>

inductive pool_history ::
  "'b JobWorkerPool \<Rightarrow> request_view multiset \<Rightarrow> (request_view \<times> JobResultMessage) multiset \<Rightarrow> bool" where
  ph_init: "pool_init p \<Longrightarrow> pool_history p {#} {#}"
| ph_submit: "pool_history p accepted released \<Longrightarrow> request_wf request \<Longrightarrow>
    pool_submit request now_ns rejection p = (r, rejection', p') \<Longrightarrow>
    pool_history p' (if r = JSR_kAccepted then add_mset (view_request request) accepted else accepted) released"
| ph_release: "pool_history p accepted released \<Longrightarrow>
    pool_history (release_ready_result p) accepted
      (case jp_ready_index p of
         None \<Rightarrow> released
       | Some i \<Rightarrow> add_mset (view_request (sl_request (jp_slots p ! i)), sl_result (jp_slots p ! i)) released)"
| ph_quiet: "pool_history p accepted released \<Longrightarrow> pool_quiet p p' \<Longrightarrow> pool_history p' accepted released"

text \<open>A valid final result under the identity of the request.\<close>

definition answers :: "request_view \<Rightarrow> JobResultMessage \<Rightarrow> bool" where
  "answers v m \<longleftrightarrow> validate_result m = PR_kSuccess \<and> jrsm_descriptor (jrs_metadata m) = jrqm_descriptor (fst (snd v)) \<and>
     me_sequence (jrs_envelope m) = me_sequence (fst v) \<and>
     jrsm_service_class (jrs_metadata m) = jrqm_service_class (fst (snd v)) \<and> job_result_code m \<noteq> ResultCode_kProgress"




text \<open>The next step of the thread of a lane, which waits when it has no request.\<close>

definition worker_step :: "nat \<Rightarrow> 'b JobWorkerPool \<Rightarrow> 'b JobWorkerPool" where
  "worker_step index p =
     (let s = jp_slots p ! index
      in if sl_state s = LS_kRequested then worker_begin index p
         else case sl_thread s of
             None \<Rightarrow> p
           | Some (_, progress) \<Rightarrow> if running_progress progress then worker_slice index p else worker_finish index p)"

text \<open>
  The terms in which dispatch and submission are specified: the newest generation known of a session,
  a request of an older generation, a request whose deadline has passed, a registry with an adapter
  for the route of a request that takes its payload, and a request that a lane has to take.
\<close>

definition session_watermark :: "'b JobWorkerPool \<Rightarrow> u64 \<Rightarrow> u64 option" where
  "session_watermark p = map_of (map (\<lambda>e. (sw_session_id e, sw_generation e)) (filter sw_occupied (jp_sessions p)))"

definition superseded :: "'b JobWorkerPool \<Rightarrow> JobRequestMessage \<Rightarrow> bool" where
  "superseded p rq \<longleftrightarrow>
     (\<exists>g. session_watermark p (jd_session_id (jrqm_descriptor (jrq_metadata rq))) = Some g \<and>
        jd_generation (jrqm_descriptor (jrq_metadata rq)) < g)"

definition overdue :: "u64 \<Rightarrow> JobRequestMessage \<Rightarrow> bool" where
  "overdue now rq \<longleftrightarrow> jd_deadline_ns (jrqm_descriptor (jrq_metadata rq)) \<in> {1 .. now}"

definition serves :: "'b JobAdapterRegistry \<Rightarrow> JobRequestMessage \<Rightarrow> bool" where
  "serves registry rq \<longleftrightarrow>
     (\<exists>a. registry_find (jrqm_descriptor (jrq_metadata rq)) registry = Some a \<and>
        unat (jrqm_payload_bytes (jrq_metadata rq)) \<le> ja_max_request_bytes a)"

definition takeable :: "'b JobWorkerPool \<Rightarrow> 'b Slot \<Rightarrow> u64 \<Rightarrow> JobRequestMessage \<Rightarrow> bool" where
  "takeable p s now rq \<longleftrightarrow> superseded p rq \<or> overdue now rq \<or> serves (sl_registry s) rq"

text \<open>
  Dispatch order: earlier deadlines first (no deadline counts as the latest one), then higher service
  classes, then earlier submission times, then lower sequence numbers.
\<close>

definition dispatch_order :: "JobRequestMessage \<Rightarrow> int \<times> int \<times> int \<times> int" where
  "dispatch_order rq =
     (let deadline = uint (jd_deadline_ns (jrqm_descriptor (jrq_metadata rq)))
      in (if deadline = 0 then 2 ^ 64 - 1 else deadline, - uint (jrqm_service_class (jrq_metadata rq)),
          uint (jrqm_timestamp_ns (jrq_metadata rq)), uint (me_sequence (jrq_envelope rq))))"

text \<open>What the pool looks like after lane \<open>i\<close> has taken the request at place \<open>q\<close> of the queue.\<close>

definition dispatched_as :: "'b JobWorkerPool \<Rightarrow> nat \<Rightarrow> u64 \<Rightarrow> nat \<Rightarrow> 'b JobWorkerPool \<Rightarrow> bool" where
  "dispatched_as p i now q p' \<longleftrightarrow>
     (let rq = jp_queue_storage p ! q; s = jp_slots p' ! i
      in mset (jp_queue_order p) = add_mset q (mset (jp_queue_order p')) \<and> view_request (sl_request s) = view_request rq \<and>
         (if superseded p rq then sl_state s = LS_kReady \<and> job_result_code (sl_result s) = ResultCode_kRejectedStale
          else if overdue now rq then sl_state s = LS_kReady \<and> job_result_code (sl_result s) = ResultCode_kRejectedDeadline
          else sl_state s = LS_kRequested))"

text \<open>
  The slots a request must leave free for the service classes above its own, and what has to be the
  case for each refusal of a valid request.
\<close>

definition classes_above_reserve :: "'b JobWorkerPool \<Rightarrow> JobRequestMessage \<Rightarrow> nat" where
  "classes_above_reserve p rq =
     (if jrqm_service_class (jrq_metadata rq) < ServiceClass_kCritical then jq_critical_reserve_slots (jp_qos_policy p) else 0) +
     (if jrqm_service_class (jrq_metadata rq) < ServiceClass_kInteractive then jq_interactive_reserve_slots (jp_qos_policy p) else 0)"

fun refused_for :: "JobSubmitResult \<Rightarrow> JobRequestMessage \<Rightarrow> u64 \<Rightarrow> 'b JobWorkerPool \<Rightarrow> bool" where
  "refused_for JSR_kAccepted rq now p = False"
| "refused_for JSR_kInvalid rq now p = (validate_request rq \<noteq> PR_kSuccess)"
| "refused_for JSR_kAdapterNotFound rq now p = (\<forall>s \<in> set (jp_slots p). \<not> serves (sl_registry s) rq)"
| "refused_for JSR_kStale rq now p = superseded p rq"
| "refused_for JSR_kFull rq now p =
     ((\<forall>s \<in> set (jp_slots p). serves (sl_registry s) rq \<longrightarrow> sl_drain_requested s) \<or>
      length (jp_queue_order p) = length (jp_queue_storage p) \<or>
      session_watermark p (jd_session_id (jrqm_descriptor (jrq_metadata rq))) = None \<and> (\<forall>e \<in> set (jp_sessions p). sw_occupied e))"
| "refused_for JSR_kQosCapacity rq now p =
     (length (jp_queue_storage p) \<le> length (jp_queue_order p) + classes_above_reserve p rq)"
| "refused_for JSR_kDeadlineUnreachable rq now p = (\<not> pool_admissible rq now p)"

section \<open>Lemmas\<close>

lemma answers_result_for: "answers (view_request rq) m \<longleftrightarrow> result_for rq m"
  by (simp add: answers_def result_for_def view_request_def)

lemma pool_create_ok:
  assumes run: "pool_create alloc lanes capacity cost sessions quantum events migration qos supervision clock = Inr p"
    and reg: "\<forall>(g, backends) \<in> set lanes. reach registry_init registry_step g"
  shows "pool_inv p" "pending p = {#}"
proof -
  let ?f = "\<lambda>(index, g, backends). default_slot g index quantum migration backends"
  have guards: "lanes \<noteq> []" "quantum \<noteq> 0" "list_all (\<lambda>(g, _). jg_frozen g) lanes" "capacity \<noteq> 0"
    using run by (auto simp: pool_create_def list_all_iff list_ex_iff split: if_splits)
  have p: "jp_slots p = map ?f (zip [0 ..< length lanes] lanes)" "jp_queue_storage p = replicate capacity default_request"
    "jp_queue_order p = []" "jp_free_queue_slots p = rev [0 ..< capacity]" "jp_ready_index p = None"
    using run by (auto simp: pool_create_def split: if_splits option.splits)
  have slot: "jp_slots p ! i = default_slot (fst (lanes ! i)) i quantum migration (snd (lanes ! i))" if "i < length lanes" for i
    using that by (simp add: p split_def)
  have ok: "slot_ok (jp_slots p ! i) \<and> sl_index (jp_slots p ! i) = i \<and> lane_jobs (jp_slots p ! i) = {#}" if i: "i < length lanes" for i
  proof -
    have "lanes ! i \<in> set lanes" using i by simp
    then have "registry_inv (fst (lanes ! i))" "jg_frozen (fst (lanes ! i))"
      using reg guards(3) registry_machine.reach_inv by (fastforce simp: list_all_iff)+
    then show ?thesis
      using guards(2) default_wf by (simp add: slot [OF i] default_slot_def slot_ok_def occupied_def lane_busy_def lane_jobs_def)
  qed
  have n: "length (jp_slots p) = length lanes" by (simp add: p(1))
  have m: "map lane_jobs (jp_slots p) = map (\<lambda>_. {#}) (jp_slots p)"
    by (rule nth_equalityI) (simp_all add: n ok)
  show "pending p = {#}" unfolding pending_def queued_jobs_def p(3) m by simp
  have "jp_slots p \<noteq> []" using n guards(1) by auto
  then show "pool_inv p"
    using ok default_wf by (simp add: pool_inv_def slots_ok_def queue_ok_def ready_ok_def n p(2-5))
qed

lemma pool_init_ok: "pool_init p \<Longrightarrow> pool_inv p" "pool_init p \<Longrightarrow> pending p = {#}"
  unfolding pool_init_def by (elim exE conjE, rule pool_create_ok, assumption+)+

lemma worker_start_keeps:
  assumes "pool_inv p" "i < length (jp_slots p)"
  shows "pool_inv (worker_start binding i p) \<and> pending (worker_start binding i p) = pending p"
  unfolding worker_start_def
  by (rule upd_slot_keeps) (use assms pool_inv_slot(1) [OF assms] in \<open>simp_all add: lane_like_def\<close>)

lemma pool_quiet_ok:
  assumes "pool_quiet p p'" "pool_inv p"
  shows "pool_inv p' \<and> pending p' = pending p \<and> length (jp_slots p') = length (jp_slots p)"
  using assms(1)
proof cases
  case pq_cancel
  then show ?thesis using keepsD [OF pool_cancel_before_keeps assms(2)] by simp
next
  case pq_release_session
  then show ?thesis using keepsD [OF pool_release_session_keeps assms(2)] by simp
next
  case pq_drain
  then show ?thesis using keepsD [OF request_worker_drain_keeps assms(2)] by simp
next
  case pq_resume
  then show ?thesis using keepsD [OF resume_worker_keeps assms(2)] by simp
next
  case pq_recover
  then show ?thesis using keepsD [OF recover_worker_keeps assms(2)] by simp
next
  case pq_ready
  then show ?thesis using ready_result_ok [OF assms(2)] by (simp add: ready_answer_def)
next
  case pq_start
  then show ?thesis using worker_start_keeps [OF assms(2)] by (simp add: worker_start_def)
next
  case pq_begin
  then show ?thesis using worker_begin_keeps [OF assms(2)] by simp
next
  case pq_slice
  then show ?thesis using worker_slice_keeps [OF assms(2)] by simp
next
  case pq_finish
  then show ?thesis using worker_finish_keeps [OF assms(2)] by simp
qed

interpretation pool_machine: inductive_invariant pool_init pool_step pool_inv
proof
  show "pool_inv p" if "pool_init p" for p :: "'b JobWorkerPool" using pool_init_ok(1) [OF that] .
  show "pool_inv p'" if "pool_step p p'" "pool_inv p" for p p' :: "'b JobWorkerPool"
    using that(1)
  proof cases
    case ps_submit
    then show ?thesis using pool_submit_ok(1) [OF that(2)] by blast
  next
    case ps_release
    then show ?thesis using release_ready_result_ok(1) [OF that(2)] by simp
  next
    case ps_quiet
    then show ?thesis using pool_quiet_ok [OF _ that(2)] by blast
  qed
qed

lemma pool_step_lanes:
  assumes "pool_step p p'" "pool_inv p"
  shows "length (jp_slots p') = length (jp_slots p)"
  using assms(1)
proof cases
  case ps_submit
  then show ?thesis using pool_submit_ok(3) [OF assms(2)] by blast
next
  case ps_release
  then show ?thesis using release_ready_result_ok(2) [OF assms(2)] by simp
next
  case ps_quiet
  then show ?thesis using pool_quiet_ok [OF _ assms(2)] by blast
qed

lemma pool_history_reach: "pool_history p accepted released \<Longrightarrow> reach pool_init pool_step p"
  by (induction rule: pool_history.induct) (auto intro: reach_init reach_step pool_step.intros)

lemma pool_history_inv: "pool_history p accepted released \<Longrightarrow> pool_inv p"
  by (rule pool_machine.reach_inv [OF pool_history_reach])

subsection \<open>A lane left to its thread\<close>

text \<open>An upper bound of the steps the thread still takes.\<close>

definition lane_steps :: "'b Slot \<Rightarrow> nat" where
  "lane_steps s =
     (if sl_state s = LS_kRequested then unat (jd_total_work_units (jrqm_descriptor (jrq_metadata (sl_request s)))) + 2
      else if sl_state s = LS_kRunning then
        (case sl_thread s of
           None \<Rightarrow> 0
         | Some (r, progress) \<Rightarrow>
             if running_progress progress
             then unat (jd_total_work_units (cj_descriptor (rj_job r))) - unat (cj_completed_work_units (rj_job r)) + 1
             else 1)
      else 0)"

lemma worker_step_cases:
  assumes "pool_inv p" "i < length (jp_slots p)"
  shows "pool_inv (worker_step i p) \<and> pending (worker_step i p) = pending p \<and> length (jp_slots (worker_step i p)) = length (jp_slots p)"
proof (cases "sl_state (jp_slots p ! i) = LS_kRequested")
  case True
  then show ?thesis using worker_begin_keeps [OF assms] by (simp add: worker_step_def)
next
  case False
  show ?thesis
  proof (cases "sl_thread (jp_slots p ! i)")
    case None
    then show ?thesis using False assms by (simp add: worker_step_def)
  next
    case (Some x)
    obtain r progress where x: "x = (r, progress)" by fastforce
    then show ?thesis
      using Some False worker_slice_keeps [OF assms, of r progress] worker_finish_keeps [OF assms, of r progress]
      by (cases "running_progress progress") (simp_all add: worker_step_def)
  qed
qed

lemma running_job_inv:
  assumes "slot_ok s" "sl_thread s = Some (r, progress)"
  shows "routed_for (sl_request s) r" "\<And>q. progress = Inr q \<Longrightarrow> q = cj_progress (rj_job r)" "sl_work_quantum s \<noteq> 0"
  using assms by (auto simp: slot_ok_def thread_ok_routed)

lemma finish_ready:
  assumes "i < length (jp_slots p)" "sl_thread (jp_slots p ! i) = Some (r, progress)"
  shows "sl_state (jp_slots (worker_finish i p) ! i) = LS_kReady"
  using assms
  by (simp add: worker_finish_def publish_ready_def Let_def split_def nth_upd_slot)

lemma terminal_not_running: "job_terminal s \<Longrightarrow> s \<noteq> JobState_kRunning"
  by auto

lemma advance_lane_steps:
  assumes st: "sl_state s = LS_kRunning" and r: "routed_for rq r" "cj_state (rj_job r) = JobState_kRunning" and q: "sl_work_quantum s \<noteq> 0"
  shows "lane_steps (advance_lane r s) <
    unat (jd_total_work_units (cj_descriptor (rj_job r))) - unat (cj_completed_work_units (rj_job r)) + 1"
proof -
  define c where "c = cj_advance (sl_work_quantum s) (sl_cancel_generation s) (rj_job r)"
  have inv: "job_inv (rj_job r)" using r(1) by (simp add: routed_for_def)
  have more: "job_terminal (cj_state (snd c)) \<or> cj_state (snd c) = JobState_kRunning \<and>
      unat (cj_completed_work_units (rj_job r)) < unat (cj_completed_work_units (snd c))"
    unfolding c_def by (rule cj_advance_decreases [OF inv r(2) q])
  have lt: "unat (cj_completed_work_units (rj_job r)) < unat (jd_total_work_units (cj_descriptor (rj_job r)))"
    using inv r(2) by (simp add: job_inv_iff word_less_nat_alt)
  have ans: "running_progress (fst c) \<Longrightarrow> cj_state (snd c) = JobState_kRunning"
    using advance_answer [of "rj_job r" "sl_work_quantum s" "sl_cancel_generation s"] r(2)
    by (cases "fst c") (auto simp: running_progress_def c_def)
  have a: "sl_state (advance_lane r s) = LS_kRunning" "sl_thread (advance_lane r s) = Some (r\<lparr>rj_job := snd c\<rparr>, fst c)"
    using st by (cases "fst c"; simp add: advance_lane_def rj_advance_def split_def Let_def c_def)+
  have d: "cj_descriptor (snd c) = cj_descriptor (rj_job r)" by (simp add: c_def cj_advance_descriptor)
  show ?thesis
  proof (cases "running_progress (fst c)")
    case False
    then show ?thesis using lt by (simp add: lane_steps_def a)
  next
    case True
    then have "unat (cj_completed_work_units (rj_job r)) < unat (cj_completed_work_units (snd c))"
      using more ans terminal_not_running by blast
    then show ?thesis using True lt by (simp add: lane_steps_def a d)
  qed
qed

lemma slice_steps:
  assumes inv: "pool_inv p" and i: "i < length (jp_slots p)" and th: "sl_thread (jp_slots p ! i) = Some (r, progress)"
    and rp: "running_progress progress"
  shows "lane_steps (jp_slots (worker_slice i p) ! i) < lane_steps (jp_slots p ! i)"
proof -
  let ?s = "jp_slots p ! i"
  have so: "slot_ok ?s" using pool_inv_slot(1) [OF inv i] .
  have st: "sl_state ?s = LS_kRunning" using no_thread [OF so] th by force
  obtain pr where pr: "progress = Inr pr" "jp_state pr = JobState_kRunning"
    using rp by (cases progress) (auto simp: running_progress_def)
  note j = running_job_inv [OF so th]
  have run: "cj_state (rj_job r) = JobState_kRunning" using j(2) [OF pr(1)] pr(2) by simp
  have s: "lane_steps ?s = unat (jd_total_work_units (cj_descriptor (rj_job r))) - unat (cj_completed_work_units (rj_job r)) + 1"
    using st th rp by (simp add: lane_steps_def)
  note adv = advance_lane_steps [OF _ j(1) run, of "?s\<lparr>sl_migration_started_ns := t, sl_migrate_requested := b\<rparr>" for t b]
  show ?thesis
  proof (cases "sl_migration_storage ?s = [] \<or> \<not> sl_migrate_requested ?s")
    case True
    then have "worker_slice i p = upd_slot i (advance_lane r) p" using th pr by (auto simp: worker_slice_def Let_def)
    then show ?thesis using advance_lane_steps [OF st j(1) run j(3)] i s by (simp add: nth_upd_slot)
  next
    case mig: False
    show ?thesis
    proof (cases "rj_export_capsule (sl_migration_storage ?s) r")
      case (Inl e)
      then show ?thesis
        using mig th pr(1) i st s adv j(3) by (simp add: worker_slice_def Let_def split_def nth_upd_slot)
    next
      case (Inr x)
      then show ?thesis
        using mig th pr(1) i st s by (simp add: worker_slice_def Let_def split_def nth_upd_slot lane_steps_def)
    qed
  qed
qed

lemma begin_state:
  assumes i: "i < length (jp_slots p)"
  shows "sl_request (jp_slots (worker_begin i p) ! i) = sl_request (jp_slots p ! i) \<and>
    (sl_state (jp_slots (worker_begin i p) ! i) = LS_kRunning \<or> sl_state (jp_slots (worker_begin i p) ! i) = LS_kReady)"
proof -
  have run: "sl_request (jp_slots (worker_run i b r q) ! i) = sl_request (jp_slots q ! i) \<and> sl_state (jp_slots (worker_run i b r q) ! i) = LS_kRunning"
    if "i < length (jp_slots q)" for b r and q :: "'a JobWorkerPool"
    using that by (simp add: worker_run_def Let_def split_def nth_upd_slot)
  have failed: "sl_request (jp_slots (worker_bind_failed i e q) ! i) = sl_request (jp_slots q ! i) \<and> sl_state (jp_slots (worker_bind_failed i e q) ! i) = LS_kReady"
    if "i < length (jp_slots q)" for e and q :: "'a JobWorkerPool"
    using that by (simp add: worker_bind_failed_def publish_ready_def Let_def split_def nth_upd_slot)
  define p1 where "p1 = upd_slot i clear_result p"
  define p2 where "p2 = (if sl_resume_bytes (jp_slots p ! i) \<noteq> 0 then p1
    else upd_slot i (\<lambda>s. s\<lparr>sl_started_ns := fst (monotonic_ns p1)\<rparr>) (snd (monotonic_ns p1)))"
  define b where "b = registry_bind (sl_request (jp_slots p2 ! i)) (sl_registry (jp_slots p2 ! i)) (sl_backends (jp_slots p2 ! i))"
  define p3 where "p3 = upd_slot i (\<lambda>s. s\<lparr>sl_backends := snd b\<rparr>) p2"
  have p3: "i < length (jp_slots p3)" "sl_request (jp_slots p3 ! i) = sl_request (jp_slots p ! i)"
    using i by (simp_all add: p3_def p2_def p1_def nth_upd_slot clear_result_def)
  have "worker_begin i p = (case fst b of Inl e \<Rightarrow> worker_bind_failed i e p3
      | Inr r \<Rightarrow> worker_run i (sl_resume_bytes (jp_slots p ! i) \<noteq> 0) r p3)"
    unfolding worker_begin_def Let_def p1_def [symmetric] split_def p2_def [symmetric] b_def [symmetric] p3_def [symmetric] ..
  then show ?thesis using run [OF p3(1)] failed [OF p3(1)] p3(2) by (cases "fst b") simp_all
qed

lemma begin_steps:
  assumes inv: "pool_inv p" and i: "i < length (jp_slots p)" and st: "sl_state (jp_slots p ! i) = LS_kRequested"
  shows "lane_steps (jp_slots (worker_begin i p) ! i) < lane_steps (jp_slots p ! i)"
proof -
  let ?s = "jp_slots (worker_begin i p) ! i"
  note k = worker_begin_keeps [OF inv i st]
  have so: "slot_ok ?s" using pool_inv_slot(1) [of "worker_begin i p" i] k i by simp
  show ?thesis
  proof (cases "sl_thread ?s")
    case None
    then show ?thesis using st begin_state [OF i] so by (auto simp: lane_steps_def)
  next
    case (Some x)
    obtain r progress where x: "x = (r, progress)" by fastforce
    have "cj_descriptor (rj_job r) = jrqm_descriptor (jrq_metadata (sl_request ?s))"
      using running_job_inv(1) [OF so] Some x by (simp add: routed_for_def)
    then show ?thesis using st begin_state [OF i] Some x by (auto simp: lane_steps_def)
  qed
qed

lemma worker_step_decreases:
  assumes inv: "pool_inv p" and i: "i < length (jp_slots p)" and st: "lane_steps (jp_slots p ! i) \<noteq> 0"
  shows "lane_steps (jp_slots (worker_step i p) ! i) < lane_steps (jp_slots p ! i)"
proof (cases "sl_state (jp_slots p ! i) = LS_kRequested")
  case True
  then show ?thesis using begin_steps [OF inv i] by (simp add: worker_step_def)
next
  case False
  obtain r progress where th: "sl_thread (jp_slots p ! i) = Some (r, progress)"
    using st False by (auto simp: lane_steps_def split: if_splits option.splits)
  show ?thesis
  proof (cases "running_progress progress")
    case True
    then show ?thesis using slice_steps [OF inv i th] False th by (simp add: worker_step_def)
  next
    case fin: False
    then show ?thesis using finish_ready [OF i th] False th st by (simp add: worker_step_def lane_steps_def)
  qed
qed

lemma slice_state:
  assumes i: "i < length (jp_slots p)" and th: "sl_thread (jp_slots p ! i) = Some (r, progress)"
    and rp: "running_progress progress"
  shows "sl_request (jp_slots (worker_slice i p) ! i) = sl_request (jp_slots p ! i) \<and>
    (sl_state (jp_slots (worker_slice i p) ! i) = sl_state (jp_slots p ! i) \<or> sl_state (jp_slots (worker_slice i p) ! i) = LS_kMigrationReady)"
proof -
  obtain pr where pr: "progress = Inr pr" using rp by (cases progress) (auto simp: running_progress_def)
  have a: "sl_state (advance_lane r s) = sl_state s" "sl_request (advance_lane r s) = sl_request s" for s
    by (cases "fst (rj_advance (sl_work_quantum s) (sl_cancel_generation s) r)"; simp add: advance_lane_def Let_def split_def)+
  show ?thesis
    using i th pr by (cases "rj_export_capsule (sl_migration_storage (jp_slots p ! i)) r")
      (simp_all add: worker_slice_def Let_def split_def nth_upd_slot a)
qed

lemma worker_step_state:
  assumes inv: "pool_inv p" and i: "i < length (jp_slots p)" and oc: "occupied (jp_slots p ! i)"
  shows "occupied (jp_slots (worker_step i p) ! i) \<and> sl_request (jp_slots (worker_step i p) ! i) = sl_request (jp_slots p ! i)"
proof (cases "sl_state (jp_slots p ! i) = LS_kRequested")
  case True
  then show ?thesis using begin_state [OF i] by (auto simp: worker_step_def occupied_def lane_busy_def)
next
  case False
  show ?thesis
  proof (cases "sl_thread (jp_slots p ! i)")
    case None
    then show ?thesis using False oc by (simp add: worker_step_def)
  next
    case (Some x)
    obtain r progress where x: "x = (r, progress)" by fastforce
    note th = Some [unfolded x]
    have fin: "sl_request (jp_slots (worker_finish i p) ! i) = sl_request (jp_slots p ! i)"
      using i th by (simp add: worker_finish_def publish_ready_def Let_def split_def nth_upd_slot)
    show ?thesis
      using slice_state [OF i th] finish_ready [OF i th] fin False th oc
      by (cases "running_progress progress") (auto simp: worker_step_def occupied_def lane_busy_def)
  qed
qed

lemma worker_steps_end:
  assumes "pool_inv p" "i < length (jp_slots p)" "occupied (jp_slots p ! i)"
  shows "\<exists>k \<le> lane_steps (jp_slots p ! i). pool_inv ((worker_step i ^^ k) p) \<and>
    i < length (jp_slots ((worker_step i ^^ k) p)) \<and> occupied (jp_slots ((worker_step i ^^ k) p) ! i) \<and>
    sl_request (jp_slots ((worker_step i ^^ k) p) ! i) = sl_request (jp_slots p ! i) \<and>
    lane_steps (jp_slots ((worker_step i ^^ k) p) ! i) = 0"
  using assms
proof (induction "lane_steps (jp_slots p ! i)" arbitrary: p rule: less_induct)
  case less
  show ?case
  proof (cases "lane_steps (jp_slots p ! i) = 0")
    case True
    then show ?thesis using less.prems by (intro exI [of _ 0]) simp
  next
    case False
    note d = worker_step_decreases [OF less.prems(1,2) False] and k = worker_step_cases [OF less.prems(1,2)]
      and o = worker_step_state [OF less.prems]
    let ?q = "worker_step i p"
    obtain n where n: "n \<le> lane_steps (jp_slots ?q ! i)" "pool_inv ((worker_step i ^^ n) ?q)"
      "i < length (jp_slots ((worker_step i ^^ n) ?q))" "occupied (jp_slots ((worker_step i ^^ n) ?q) ! i)"
      "sl_request (jp_slots ((worker_step i ^^ n) ?q) ! i) = sl_request (jp_slots ?q ! i)"
      "lane_steps (jp_slots ((worker_step i ^^ n) ?q) ! i) = 0"
      using less.hyps [OF d] k o less.prems(2) by auto
    then show ?thesis using d o by (intro exI [of _ "Suc n"]) (simp only: funpow_Suc_right o_apply, simp)
  qed
qed

lemma lane_steps_le:
  assumes "slot_ok s" "occupied s"
  shows "lane_steps s \<le> unat (jd_total_work_units (jrqm_descriptor (jrq_metadata (sl_request s)))) + 2"
  using assms running_job_inv(1) [OF assms(1)]
  by (auto simp: lane_steps_def routed_for_def split: option.splits)

lemma lane_steps_zero:
  assumes "slot_ok s" "occupied s" "lane_steps s = 0"
  shows "sl_state s = LS_kReady \<or> sl_state s = LS_kMigrationReady"
  using assms by (auto simp: lane_steps_def slot_ok_def occupied_def lane_busy_def split: if_splits)

subsection \<open>The scan for a result\<close>

lemma ready_scan_none:
  assumes "pool_inv p" "ready_scan xs p = (None, p')"
  shows "p' = p \<and> (\<forall>c \<in> set xs. sl_state (jp_slots p ! ((jp_ready_cursor p + c) mod length (jp_slots p))) \<noteq> LS_kReady)"
  using assms
proof (induction xs)
  case Nil
  then show ?case by simp
next
  case (Cons c rest)
  let ?i = "(jp_ready_cursor p + c) mod length (jp_slots p)"
  show ?case
  proof (cases "sl_state (jp_slots p ! ?i) = LS_kReady")
    case False
    then show ?thesis using Cons by simp
  next
    case True
    then show ?thesis using ready_scan_hit [OF Cons.prems(1) refl True, of rest] Cons.prems(2) by auto
  qed
qed

text \<open>The scan visits every lane.\<close>

lemma cursor_covers: "i < n \<Longrightarrow> \<exists>c < n. (cursor + c) mod n = (i :: nat)"
proof (intro exI conjI)
  assume i: "i < n"
  let ?c = "(i + (n - cursor mod n)) mod n"
  show "?c < n" using i by simp
  have "(cursor + ?c) mod n = (cursor mod n + (i + (n - cursor mod n))) mod n" by (simp add: mod_simps)
  also have "\<dots> = (i + n) mod n" using i mod_less_divisor [of n cursor] by (intro arg_cong2 [where f = "(mod)"]) linarith+
  finally show "(cursor + ?c) mod n = i" using i by simp
qed

lemma ready_result_none:
  assumes inv: "pool_inv p" and run: "ready_result p = (None, p')"
  shows "\<forall>i < length (jp_slots p'). sl_state (jp_slots p' ! i) \<noteq> LS_kReady"
proof -
  define p1 where "p1 = (if jp_migration_capacity_bytes p \<noteq> 0 then handoff_migrations p else p)"
  have inv1: "pool_inv p1" using keepsD [OF handoff_migrations_keeps inv] inv by (simp add: p1_def)
  have "jp_ready_index p1 = None"
  proof (cases "jp_ready_index p1")
    case (Some i)
    then have "ready_result p = (Some (sl_result (jp_slots p1 ! i)), p1)"
      unfolding ready_result_def Let_def p1_def [symmetric] using inv1 by (simp add: pool_inv_def ready_ok_def)
    with run show ?thesis by simp
  qed simp
  then have "ready_scan [0 ..< length (jp_slots p1)] p1 = (None, p')"
    using run unfolding ready_result_def Let_def p1_def [symmetric] by simp
  from ready_scan_none [OF inv1 this] have p': "p' = p1"
    and none: "\<And>c. c < length (jp_slots p1) \<Longrightarrow> sl_state (jp_slots p1 ! ((jp_ready_cursor p1 + c) mod length (jp_slots p1))) \<noteq> LS_kReady"
    by auto
  show ?thesis unfolding p' using none cursor_covers [of _ "length (jp_slots p1)" "jp_ready_cursor p1"] by metis
qed

subsection \<open>Dispatch\<close>

lemma settle_slot_code:
  assumes "validate_request (sl_request s) = PR_kSuccess" "result_wf (sl_result s)" "sl_state s = LS_kIdle"
  shows "sl_request (settle_slot p t s) = sl_request s"
    "if pool_stale (sl_request s) p then sl_state (settle_slot p t s) = LS_kReady \<and> job_result_code (sl_result (settle_slot p t s)) = ResultCode_kRejectedStale
     else if request_expired t (sl_request s) then sl_state (settle_slot p t s) = LS_kReady \<and> job_result_code (sl_result (settle_slot p t s)) = ResultCode_kRejectedDeadline
     else sl_state (settle_slot p t s) = LS_kRequested"
proof -
  have code: "job_result_code (snd (make_rejected_job_result (sl_result s) (sl_request s) t c)) = c"
    if "c = ResultCode_kRejectedStale \<or> c = ResultCode_kRejectedDeadline" for c
    using make_rejected_ok [OF assms(1,2), of c t] that by (fastforce simp: enum_simps word_le_nat_alt)
  show "sl_request (settle_slot p t s) = sl_request s" by (simp add: settle_slot_def reject_in_slot_def)
  show "if pool_stale (sl_request s) p then sl_state (settle_slot p t s) = LS_kReady \<and> job_result_code (sl_result (settle_slot p t s)) = ResultCode_kRejectedStale
     else if request_expired t (sl_request s) then sl_state (settle_slot p t s) = LS_kReady \<and> job_result_code (sl_result (settle_slot p t s)) = ResultCode_kRejectedDeadline
     else sl_state (settle_slot p t s) = LS_kRequested"
    using code by (simp add: settle_slot_def reject_in_slot_def)
qed

lemma stale_copy [simp]: "pool_stale (copy_request a b) p = pool_stale a p" "request_expired t (copy_request a b) = request_expired t a"
  unfolding pool_stale_def request_expired_def copy_request_sel by (rule refl)+

lemma takes_request_cong:
  "jp_sessions p = jp_sessions p' \<Longrightarrow> takes_request p s t rq = takes_request p' s t rq"
  using pool_stale_cong by (metis takes_request_def)

lemma find_map_comp: "find P (map f xs) = map_option f (find (\<lambda>x. P (f x)) xs)"
  by (induction xs) simp_all

lemma find_upt_nth: "map_option ((!) xs) (find (\<lambda>i. P (xs ! i)) [0 ..< length xs]) = find P xs"
proof (induction xs)
  case (Cons x xs)
  then show ?case
    by (cases "find (\<lambda>i. P (xs ! i)) [0 ..< length xs]")
      (simp_all add: upt_conv_Cons map_Suc_upt [symmetric] find_map_comp del: upt_Suc map_Suc_upt)
qed simp

lemma map_of_filter_find:
  "map_of (map (\<lambda>e. (f e, g e)) (filter Q xs)) k = map_option g (find (\<lambda>e. Q e \<and> f e = k) xs)"
  by (induction xs) auto

lemma watermark_index:
  "session_watermark p sid = map_option (\<lambda>i. sw_generation (jp_sessions p ! i)) (session_index sid p)"
  unfolding session_watermark_def map_of_filter_find session_index_def
    find_upt_nth [where P = "\<lambda>e. sw_occupied e \<and> sw_session_id e = sid", symmetric]
  by (simp add: option.map_comp comp_def)

lemma superseded_code: "superseded p rq = pool_stale rq p"
  by (auto simp: superseded_def pool_stale_def watermark_index split: option.splits)

lemma overdue_code: "overdue now rq = request_expired now rq"
proof -
  have "1 \<le> x \<longleftrightarrow> x \<noteq> 0" for x :: u64 by (simp add: word_le_nat_alt Suc_le_eq unat_gt_0)
  then show ?thesis by (simp add: overdue_def request_expired_def)
qed

lemma serves_code: "serves registry rq = registration_accepts registry rq"
  by (auto simp: serves_def registration_accepts_def split: option.splits)

lemma takeable_code: "takeable p s now rq = takes_request p s now rq"
  by (simp add: takeable_def takes_request_def superseded_code overdue_code serves_code)

lemma dispatch_order_less: "dispatch_order a < dispatch_order b \<longleftrightarrow> request_key a < request_key b"
proof -
  have d: "(if uint x = 0 then 2 ^ 64 - 1 else uint x) = uint (if x = 0 then U64_MAX else x)" for x :: u64
    by (simp add: unsigned_eq_0_iff)
  have lt: "- uint x < - uint y \<longleftrightarrow> U32_MAX - x < U32_MAX - y" "- uint x = - uint y \<longleftrightarrow> U32_MAX - x = U32_MAX - y" for x y :: u32
    unfolding max_minus_less by (simp_all add: word_less_def word_uint_eq_iff)
  show ?thesis
    unfolding dispatch_order_def request_key_def Let_def d request_deadline_key_def less_prod_def'
    by (simp only: fst_conv snd_conv lt word_less_def [symmetric] word_uint_eq_iff [symmetric])
qed

lemma dispatch_order_le: "dispatch_order a \<le> dispatch_order b \<longleftrightarrow> request_key a \<le> request_key b"
  using dispatch_order_less [of b a] by (simp add: linorder_not_less [symmetric])

lemma dispatch_one_takes:
  fixes p :: "'b JobWorkerPool"
  assumes inv: "pool_inv p" and i: "i < length (jp_slots p)" and idle: "sl_state (jp_slots p ! i) = LS_kIdle"
  defines "now \<equiv> jp_clock p (jp_ticks p)"
  shows "case dispatch_one i p of (b, p') \<Rightarrow>
    (b \<longleftrightarrow> \<not> sl_drain_requested (jp_slots p ! i) \<and>
       (\<exists>q \<in> set (jp_queue_order p). takeable p (jp_slots p ! i) now (jp_queue_storage p ! q))) \<and>
    (b \<longrightarrow> (\<exists>q \<in> set (jp_queue_order p). takeable p (jp_slots p ! i) now (jp_queue_storage p ! q) \<and> dispatched_as p i now q p' \<and>
       (\<forall>q' \<in> set (jp_queue_order p). takeable p (jp_slots p ! i) now (jp_queue_storage p ! q') \<longrightarrow>
          dispatch_order (jp_queue_storage p ! q) \<le> dispatch_order (jp_queue_storage p ! q'))))"
proof -
  define p0 where "p0 = snd (monotonic_ns p)"
  have m: "monotonic_ns p = (now, p0)" by (simp add: now_def p0_def monotonic_ns_def)
  have p0: "pool_inv p0" "jp_slots p0 = jp_slots p" "jp_sessions p0 = jp_sessions p" "jp_queue_order p0 = jp_queue_order p"
    "jp_queue_storage p0 = jp_queue_storage p" using inv by (simp_all add: p0_def)
  define can where "can q = takeable p (jp_slots p ! i) now (jp_queue_storage p ! q)" for q
  have can: "takes_request p0 (jp_slots p ! i) now (jp_queue_storage p ! q) = can q" for q
    unfolding can_def takeable_code using p0(3) by (rule takes_request_cong)
  note sel = select_position_cases [of p0 "jp_slots p ! i" now, unfolded p0(4,5) can]
  show ?thesis
  proof (cases "sl_drain_requested (jp_slots p ! i) \<or> select_position p0 (jp_slots p ! i) now = None")
    case True
    then have "fst (dispatch_one i p) = False" by (auto simp: dispatch_one_def m p0)
    then show ?thesis using True sel by (auto simp: split_def can_def [symmetric] split: option.splits)
  next
    case False
    then obtain k where k: "select_position p0 (jp_slots p ! i) now = Some k" by blast
    define q where "q = jp_queue_order p ! k"
    define rq where "rq = jp_queue_storage p ! q"
    from sel k have q: "k < length (jp_queue_order p)" "can q"
      and first: "\<And>q'. q' \<in> set (jp_queue_order p) \<Longrightarrow> can q' \<Longrightarrow> request_key rq \<le> request_key (jp_queue_storage p ! q')"
      by (auto simp: q_def rq_def)
    have qs: "q \<in> set (jp_queue_order p)" using q(1) by (simp add: q_def)
    have k0: "k < length (jp_queue_order p0)" using q(1) p0(4) by simp
    note d = dequeue_inv [OF p0(1) k0 refl, unfolded p0(4,5), folded q_def rq_def]
    define s1 where "s1 = load_slot rq now (jp_slots p ! i)"
    have so: "slot_ok (jp_slots p ! i)" using pool_inv_slot(1) [OF inv i] .
    note l = load_slot_ok [OF so idle d(4), of now, folded s1_def]
    define p1 where "p1 = upd_slot i (load_slot rq now) (dequeue k p0)"
    have p1: "jp_slots p1 ! i = s1" "length (jp_slots p1) = length (jp_slots p)" "jp_sessions p1 = jp_sessions p"
      using i by (simp_all add: p1_def nth_upd_slot dequeue_def p0 s1_def)
    define p2 where "p2 = pool_emit (me_sequence (jrq_envelope (sl_request (jp_slots p1 ! i))))
      (dispatched_event (jp_slots p1 ! i) now (length (jp_queue_order p1))) p1"
    have p2: "jp_slots p2 ! i = s1" "i < length (jp_slots p2)" "jp_sessions p2 = jp_sessions p" "jp_queue_order p2 = jp_queue_order p1"
      using p1 i by (simp_all add: p2_def)
    have qo: "jp_queue_order (dequeue k p0) = jp_queue_order p1" by (simp add: p1_def)
    have run: "dispatch_one i p = (True, upd_slot i (settle_slot p2 now) p2)"
      using False k by (simp add: dispatch_one_def m Let_def p0 q_def [symmetric] rq_def [symmetric] p1_def [symmetric]) (simp add: p2_def qo)
    have "mset (jp_queue_order p) = add_mset q (mset (jp_queue_order p2))"
      unfolding p2(4) using mset_delete [OF q(1)] by (simp add: p1_def dequeue_def p0 q_def)
    moreover have "sl_request s1 = copy_request rq (sl_request (jp_slots p ! i))" by (simp add: s1_def load_slot_def)
    then have "pool_stale (sl_request s1) p2 = pool_stale rq p" "request_expired now (sl_request s1) = request_expired now rq"
      using pool_stale_cong [OF p2(3), of "sl_request s1"] by simp_all
    moreover have "validate_request (sl_request s1) = PR_kSuccess" "result_wf (sl_result s1)" "sl_state s1 = LS_kIdle"
      using l d(3) by (simp_all add: slot_ok_def)
    note c = settle_slot_code [OF this, of p2 now]
    ultimately have "dispatched_as p i now q (snd (dispatch_one i p))"
      using l(4) c i by (simp add: run dispatched_as_def nth_upd_slot p2(1,2) Let_def rq_def [symmetric] superseded_code overdue_code)
    moreover have "\<forall>q' \<in> set (jp_queue_order p). can q' \<longrightarrow>
        dispatch_order (jp_queue_storage p ! q) \<le> dispatch_order (jp_queue_storage p ! q')"
      using first by (simp add: dispatch_order_le rq_def)
    ultimately show ?thesis using False qs q(2) by (auto simp: run can_def)
  qed
qed

subsection \<open>Admission\<close>









section \<open>Properties\<close>

lemma pool_history_conserves:
  assumes "pool_history p accepted released"
  shows "accepted = pending p + image_mset fst released \<and> (\<forall>(v, m) \<in># released. answers v m)"
  using assms
proof (induction rule: pool_history.induct)
  case (ph_init p)
  then show ?case using pool_init_ok(2) by simp
next
  case (ph_submit p accepted released request now_ns rejection r rejection' p')
  then show ?case using pool_submit_ok(2) [OF pool_history_inv [OF ph_submit.hyps(1)] ph_submit.hyps(2,3)] by simp
next
  case (ph_release p accepted released)
  note inv = pool_history_inv [OF ph_release.hyps(1)]
  show ?case
  proof (cases "jp_ready_index p")
    case None
    then show ?thesis using ph_release.IH release_ready_result_ok(3) [OF inv] by simp
  next
    case (Some i)
    then have "i < length (jp_slots p)" "sl_state (jp_slots p ! i) = LS_kReady"
      using inv by (simp_all add: pool_inv_def ready_ok_def)
    from ready_lane(1) [OF inv this] Some show ?thesis
      using ph_release.IH release_ready_result_ok(3) [OF inv] by (simp add: answers_result_for)
  qed
next
  case (ph_quiet p accepted released p')
  then show ?case using pool_quiet_ok [OF ph_quiet.hyps(2) pool_history_inv [OF ph_quiet.hyps(1)]] by simp
qed

text \<open>
  C1: No job is lost, run under a wrong identity or answered twice. Over any interleaving of
  coordinator calls and worker steps, with drains, migrations, cancellations, quarantines and
  backends that fail in any way, the accepted requests are exactly those still queued or on a lane
  and those released, each counted once; and every released request was released with a valid
  final result that carries its own descriptor, sequence number and service class.
\<close>

theorem pool_conserves_jobs:
  assumes "pool_history p accepted released"
  shows "accepted = pending p + image_mset fst released \<and> (\<forall>(v, m) \<in># released. answers v m)"
  using assms by (rule pool_history_conserves)

text \<open>A pool of one lane with the counting adapter, and the request it accepts.\<close>

definition demo_pool :: "nat JobWorkerPool" where
  "demo_pool = projr (pool_create None [(count_registry, \<lambda>_. 0)] 2
     \<lparr>jc_iterative_ns = 10, jc_streaming_ns = 10, jc_speculative_ns = 10, jc_reserve_ns = 5\<rparr> 2 1 None 0
     \<lparr>jq_interactive_reserve_slots = 0, jq_critical_reserve_slots = 1\<rparr>
     \<lparr>ws_consecutive_failure_threshold = 2\<rparr> (\<lambda>_. 100))"

lemma demo_pool_init: "pool_init demo_pool"
proof -
  have create: "pool_create None [(count_registry, \<lambda>_. 0)] 2
     \<lparr>jc_iterative_ns = 10, jc_streaming_ns = 10, jc_speculative_ns = 10, jc_reserve_ns = 5\<rparr> 2 1 None 0
     \<lparr>jq_interactive_reserve_slots = 0, jq_critical_reserve_slots = 1\<rparr>
     \<lparr>ws_consecutive_failure_threshold = 2\<rparr> (\<lambda>_. 100) = Inr demo_pool"
    by (simp add: demo_pool_def pool_create_def count_registry_def)
  show ?thesis
    unfolding pool_init_def by (intro exI conjI, rule create) (simp add: count_registry_reach)
qed

lemma demo_pool_reach: "reach pool_init pool_step demo_pool"
  by (rule reach_init) (rule demo_pool_init)

lemma demo_pool_sel:
  "jp_slots demo_pool = [default_slot count_registry 0 1 0 (\<lambda>_. 0)]" "jp_queue_order demo_pool = []"
  "jp_queue_storage demo_pool = [default_request, default_request]" "jp_sessions demo_pool = [default_session, default_session]"
  "jp_qos_policy demo_pool = \<lparr>jq_interactive_reserve_slots = 0, jq_critical_reserve_slots = 1\<rparr>"
  "jp_free_queue_slots demo_pool = [1, 0]" "jp_ready_index demo_pool = None"
  by (simp_all add: demo_pool_def pool_create_def count_registry_def numeral_2_eq_2)

lemma demo_pool_migration: "jp_migration_capacity_bytes demo_pool = 0"
  by (simp add: demo_pool_def pool_create_def count_registry_def)


lemma demo_accepts: "registration_accepts count_registry count_request"
  using count_find count_request_ok(2,6) by (simp add: registration_accepts_def)

lemma count_service_class: "jrqm_service_class (jrq_metadata count_request) = ServiceClass_kInteractive"
  using count_valid by (simp add: count_request_def make_job_request_def Let_def valid_job_service_class_def enum_simps)
    (simp add: count_descriptor_def)

lemma demo_pool_submit: "\<exists>p'. pool_submit count_request 0 None demo_pool = (JSR_kAccepted, None, p')"
proof -
  have "supports_any count_request demo_pool" "has_accepting_worker count_request demo_pool"
    using demo_accepts by (simp_all add: supports_any_def has_accepting_worker_def demo_pool_sel default_slot_def)
  moreover have "session_index s demo_pool = None" for s
    by (simp add: session_index_def demo_pool_sel numeral_2_eq_2 default_session_def)
  then have "\<not> pool_stale count_request demo_pool" "has_session_capacity s demo_pool" for s
    by (simp_all add: pool_stale_def has_session_capacity_def demo_pool_sel default_session_def)
  moreover have "has_qos_capacity (jrqm_service_class (jrq_metadata count_request)) demo_pool"
    by (simp add: has_qos_capacity_def demo_pool_sel reserved_slots_def count_service_class enum_simps)
  moreover have "pool_admissible count_request 0 demo_pool" by (simp add: pool_admissible_def Let_def)
  ultimately show ?thesis
    using count_request_ok(1) by (simp add: pool_submit_def Let_def split_def demo_pool_sel)
qed

theorem pool_conserves_jobs_witness:
  "\<exists>p'. pool_submit count_request 0 None demo_pool = (JSR_kAccepted, None, p') \<and> pending p' = {#view_request count_request#}"
proof -
  obtain p' where p': "pool_submit count_request 0 None demo_pool = (JSR_kAccepted, None, p')" using demo_pool_submit by blast
  have "pool_history p' {#view_request count_request#} {#}"
    using ph_submit [OF ph_init [OF demo_pool_init] count_request_ok(4) p'] by simp
  from pool_conserves_jobs [OF this] p' show ?thesis by auto
qed

text \<open>
  \<open>ready_result\<close> hands out a valid final result that carries the descriptor, sequence number
  and service class of the request on the lane it reports as ready, and changes no pending job;
  and it reports that there is none only when no lane has a result.
\<close>

theorem pool_ready_results:
  assumes "reach pool_init pool_step p"
  shows "case ready_result p of
      (Some m, p') \<Rightarrow> pending p' = pending p \<and> (\<exists>i < length (jp_slots p'). jp_ready_index p' = Some i \<and>
         m = sl_result (jp_slots p' ! i) \<and> answers (view_request (sl_request (jp_slots p' ! i))) m)
    | (None, p') \<Rightarrow> pending p' = pending p \<and> list_all (\<lambda>s. sl_state s \<noteq> LS_kReady) (jp_slots p')"
proof -
  have a: "ready_answer p (ready_result p)" using ready_result_ok [OF pool_machine.reach_inv [OF assms]] .
  show ?thesis
  proof (cases "ready_result p")
    case (Pair m p')
    then show ?thesis
      using a ready_result_none [OF pool_machine.reach_inv [OF assms], of p']
      by (cases m) (auto simp: ready_answer_def answers_result_for list_all_length)
  qed
qed

theorem pool_ready_results_witness:
  "case ready_result demo_pool of (m, p') \<Rightarrow> m = None \<and> pending p' = {#} \<and> list_all (\<lambda>s. sl_state s \<noteq> LS_kReady) (jp_slots p')"
proof -
  have none: "fst (ready_result demo_pool) = None"
    by (simp add: ready_result_def demo_pool_sel default_slot_def demo_pool_migration)
  show ?thesis
    using pool_ready_results [OF demo_pool_reach] none pool_init_ok(2) [OF demo_pool_init]
    by (simp add: split_def)
qed

text \<open>
  C12: No queued request is stranded. In every reachable state each queued request is valid and some
  lane that is neither draining nor quarantined accepts it, whichever lanes have been drained,
  resumed, quarantined or recovered; and the queue slots in use and the free ones are all the
  slots, each once.
\<close>

theorem pool_no_stranded_work:
  assumes "reach pool_init pool_step p"
  shows "(\<forall>q \<in> set (jp_queue_order p). validate_request (jp_queue_storage p ! q) = PR_kSuccess \<and>
      (\<exists>i < length (jp_slots p). \<not> sl_drain_requested (jp_slots p ! i) \<and> \<not> sl_quarantined (jp_slots p ! i) \<and>
         registration_accepts (sl_registry (jp_slots p ! i)) (jp_queue_storage p ! q))) \<and>
    mset (jp_queue_order p) + mset (jp_free_queue_slots p) = mset [0 ..< length (jp_queue_storage p)]"
proof -
  have inv: "pool_inv p" using pool_machine.reach_inv [OF assms] .
  have "\<exists>i < length (jp_slots p). \<not> sl_drain_requested (jp_slots p ! i) \<and> \<not> sl_quarantined (jp_slots p ! i) \<and>
      registration_accepts (sl_registry (jp_slots p ! i)) rq" if acc: "has_accepting_worker rq p" for rq
  proof -
    obtain i where i: "i < length (jp_slots p)" "\<not> sl_drain_requested (jp_slots p ! i)" "registration_accepts (sl_registry (jp_slots p ! i)) rq"
      using acc by (auto simp: has_accepting_worker_def list_ex_iff in_set_conv_nth)
    moreover have "\<not> sl_quarantined (jp_slots p ! i)" using i(2) pool_inv_slot(1) [OF inv i(1)] by (auto simp: slot_ok_def)
    ultimately show ?thesis by blast
  qed
  then show ?thesis using inv by (simp add: pool_inv_def queue_ok_def)
qed

theorem pool_no_stranded_work_witness:
  "\<exists>p'. pool_submit count_request 0 None demo_pool = (JSR_kAccepted, None, p') \<and>
     mset (jp_queue_order p') + mset (jp_free_queue_slots p') = mset [0 ..< length (jp_queue_storage p')]"
proof -
  obtain p' where p': "pool_submit count_request 0 None demo_pool = (JSR_kAccepted, None, p')" using demo_pool_submit by blast
  have "reach pool_init pool_step p'" by (rule reach_step [OF demo_pool_reach ps_submit [OF p' count_request_ok(4)]])
  from pool_no_stranded_work [OF this] p' show ?thesis by blast
qed

text \<open>
  C13: Dispatch is earliest deadline first. In every state that satisfies the invariant of the pool,
  and so in every reachable one and between the steps of a pump, an idle lane takes a request exactly when it is not
  draining and some queued request is superseded by a newer generation of its session, is past its
  deadline, or has an adapter in the registry of the lane that takes its payload; of those it takes
  one with the earliest deadline (then the highest service class, the earliest submission time and
  the lowest sequence number); it takes that request and no other out of the queue; and it runs the request
  unless the request is superseded or overdue, which are answered at once with the matching rejection.
\<close>

theorem pool_dispatch_earliest:
  fixes p :: "'b JobWorkerPool"
  assumes "pool_inv p" and "i < length (jp_slots p)" and "sl_state (jp_slots p ! i) = LS_kIdle"
  defines "now \<equiv> jp_clock p (jp_ticks p)"
  shows "case dispatch_one i p of (b, p') \<Rightarrow>
    (b \<longleftrightarrow> \<not> sl_drain_requested (jp_slots p ! i) \<and>
       (\<exists>q \<in> set (jp_queue_order p). takeable p (jp_slots p ! i) now (jp_queue_storage p ! q))) \<and>
    (b \<longrightarrow> (\<exists>q \<in> set (jp_queue_order p). takeable p (jp_slots p ! i) now (jp_queue_storage p ! q) \<and> dispatched_as p i now q p' \<and>
       (\<forall>q' \<in> set (jp_queue_order p). takeable p (jp_slots p ! i) now (jp_queue_storage p ! q') \<longrightarrow>
          dispatch_order (jp_queue_storage p ! q) \<le> dispatch_order (jp_queue_storage p ! q'))))"
  unfolding now_def by (rule dispatch_one_takes [OF assms(1-3)])

lemma demo_enqueued:
  defines "p \<equiv> enqueue_request count_request demo_pool"
  shows "pool_inv p" "jp_queue_order p = [0]" "jp_slots p = jp_slots demo_pool" "jp_sessions p = jp_sessions demo_pool"
    "view_request (jp_queue_storage p ! 0) = view_request count_request" "\<not> pool_stale (jp_queue_storage p ! 0) p"
    "jrq_metadata (jp_queue_storage p ! 0) = jrq_metadata count_request"
    "registration_accepts count_registry (jp_queue_storage p ! 0)"
proof -
  have "has_accepting_worker count_request demo_pool"
    using demo_accepts by (simp add: has_accepting_worker_def demo_pool_sel default_slot_def)
  then show "pool_inv p"
    unfolding p_def using enqueue_request_inv(1) [OF pool_init_ok(1) [OF demo_pool_init] _ count_request_ok(1,4)]
    by (simp add: demo_pool_sel)
  show q: "jp_queue_order p = [0]" "jp_slots p = jp_slots demo_pool" "jp_sessions p = jp_sessions demo_pool"
    by (simp_all add: p_def enqueue_request_def Let_def demo_pool_sel)
  have s: "jp_queue_storage p ! 0 = copy_request count_request default_request"
    by (simp add: p_def enqueue_request_def Let_def demo_pool_sel)
  show "view_request (jp_queue_storage p ! 0) = view_request count_request"
    unfolding s by (rule copy_request_view [OF count_request_ok(4) default_wf(1)])
  have "session_index sid p = None" for sid
    by (simp add: session_index_def q demo_pool_sel numeral_2_eq_2 default_session_def)
  then show "\<not> pool_stale (jp_queue_storage p ! 0) p" by (simp add: pool_stale_def)
  show "jrq_metadata (jp_queue_storage p ! 0) = jrq_metadata count_request" "registration_accepts count_registry (jp_queue_storage p ! 0)"
    using demo_accepts by (simp_all add: s)
qed

theorem pool_dispatch_earliest_witness:
  "case dispatch_one 0 (enqueue_request count_request demo_pool) of (b, p') \<Rightarrow>
     b \<and> jp_queue_order p' = [] \<and> view_request (sl_request (jp_slots p' ! 0)) = view_request count_request \<and>
     sl_state (jp_slots p' ! 0) = LS_kRequested"
proof -
  note e = demo_enqueued
  let ?p = "enqueue_request count_request demo_pool"
  have "\<not> request_expired t (jp_queue_storage ?p ! 0)" for t
    by (simp add: request_expired_def e(7) count_request_ok(2) count_descriptor_def)
  moreover have "takes_request ?p (jp_slots ?p ! 0) t (jp_queue_storage ?p ! 0)" for t
    using e(8) by (simp add: takes_request_def e(3) demo_pool_sel(1) default_slot_def)
  ultimately show ?thesis
    using pool_dispatch_earliest [OF e(1), of 0] e(2,5,6)
    by (auto simp: e(3) demo_pool_sel(1) default_slot_def takeable_code superseded_code overdue_code dispatched_as_def Let_def split: prod.splits)
qed

text \<open>
  C11: A lane left to its thread finishes. In every reachable state, a lane that holds a job reaches a
  result, or the exported state of a job that is to move to another lane, within two steps more than
  the job has work units, whatever its backend does; it still holds the same request then, and the
  result answers it.
\<close>

theorem pool_lane_finishes:
  fixes p :: "'b JobWorkerPool"
  assumes "reach pool_init pool_step p" and "i < length (jp_slots p)" and "occupied (jp_slots p ! i)"
  defines "rq \<equiv> sl_request (jp_slots p ! i)"
  shows "\<exists>k \<le> unat (jd_total_work_units (jrqm_descriptor (jrq_metadata rq))) + 2.
    let s = jp_slots ((worker_step i ^^ k) p) ! i
    in sl_request s = rq \<and> (sl_state s = LS_kMigrationReady \<or> sl_state s = LS_kReady \<and> answers (view_request rq) (sl_result s))"
proof -
  have inv: "pool_inv p" using pool_machine.reach_inv [OF assms(1)] .
  obtain k where k: "k \<le> lane_steps (jp_slots p ! i)" "pool_inv ((worker_step i ^^ k) p)" "i < length (jp_slots ((worker_step i ^^ k) p))"
    "occupied (jp_slots ((worker_step i ^^ k) p) ! i)" "sl_request (jp_slots ((worker_step i ^^ k) p) ! i) = rq"
    "lane_steps (jp_slots ((worker_step i ^^ k) p) ! i) = 0"
    using worker_steps_end [OF inv assms(2,3)] unfolding rq_def by blast
  have "k \<le> unat (jd_total_work_units (jrqm_descriptor (jrq_metadata rq))) + 2"
    using k(1) lane_steps_le [OF pool_inv_slot(1) [OF inv assms(2)] assms(3)] unfolding rq_def by linarith
  moreover have "sl_state (jp_slots ((worker_step i ^^ k) p) ! i) = LS_kReady \<or> sl_state (jp_slots ((worker_step i ^^ k) p) ! i) = LS_kMigrationReady"
    by (rule lane_steps_zero [OF pool_inv_slot(1) [OF k(2,3)] k(4,6)])
  ultimately show ?thesis
    using k(5) ready_lane(1) [OF k(2,3)] by (intro exI [of _ k]) (auto simp: Let_def answers_result_for)
qed

lemma demo_requested:
  "\<exists>p' :: nat JobWorkerPool. reach pool_init pool_step p' \<and> length (jp_slots p') = 1 \<and> sl_state (jp_slots p' ! 0) = LS_kRequested \<and>
     view_request (sl_request (jp_slots p' ! 0)) = view_request count_request"
proof -
  obtain p' where p': "pool_submit count_request 0 None demo_pool = (JSR_kAccepted, None, p')" using demo_pool_submit by blast
  have r: "reach pool_init pool_step p'" by (rule reach_step [OF demo_pool_reach ps_submit [OF p' count_request_ok(4)]])
  define d where "d = jrqm_descriptor (jrq_metadata count_request)"
  define q where "q = watermark_session d (snd (time_or_now 0 (enqueue_request count_request demo_pool)))"
  have ev: "jp_events (snd (time_or_now 0 (enqueue_request count_request demo_pool))) = None"
    by (simp add: time_or_now_def monotonic_ns_def enqueue_request_def Let_def demo_pool_def pool_create_def count_registry_def)
  then have pp: "p' = pump q"
    using p' by (auto simp: pool_submit_def Let_def split_def q_def d_def pool_emit_def split: if_splits)
  define e where "e = snd (time_or_now 0 (enqueue_request count_request demo_pool))"
  have e: "pool_inv e" "jp_slots e = jp_slots demo_pool" "jp_sessions e = jp_sessions demo_pool" "jp_queue_order e = [0]"
    "jp_queue_storage e = jp_queue_storage (enqueue_request count_request demo_pool)"
    using demo_enqueued by (simp_all add: e_def)
  have cap: "jp_migration_capacity_bytes e = 0"
    using demo_pool_migration by (simp add: e_def time_or_now_def monotonic_ns_def enqueue_request_def Let_def)
  have si: "session_index s e = None" for s
    by (simp add: session_index_def e demo_pool_sel numeral_2_eq_2 default_session_def)
  have fs: "free_session e = Some 0"
    by (simp add: free_session_def e demo_pool_sel numeral_2_eq_2 default_session_def)
  define w where "w = \<lparr>sw_session_id = jd_session_id d, sw_generation = jd_generation d, sw_occupied = True\<rparr>"
  have q: "q = e\<lparr>jp_sessions := [w, default_session]\<rparr>"
    by (simp add: q_def e_def [symmetric] watermark_session_def si fs e(3) demo_pool_sel w_def)
  have m: "jrq_metadata (jp_queue_storage q ! 0) = jrq_metadata count_request" using demo_enqueued(7) by (simp add: q e)
  have "session_index (jd_session_id d) q = Some 0" by (simp add: session_index_def q numeral_2_eq_2 w_def)
  then have ns: "\<not> pool_stale (jp_queue_storage q ! 0) q"
    by (simp add: pool_stale_def m d_def [symmetric]) (simp add: q w_def)
  have "\<not> request_expired t (jp_queue_storage q ! 0)" for t
    by (simp add: request_expired_def m count_request_ok(2) count_descriptor_def)
  moreover have "takes_request q (jp_slots q ! 0) t (jp_queue_storage q ! 0)" for t
    using demo_enqueued(8) by (simp add: takes_request_def q e demo_pool_sel(1) default_slot_def)
  moreover have "pool_inv q" "length (jp_slots q) = 1" "sl_state (jp_slots q ! 0) = LS_kIdle" "\<not> sl_drain_requested (jp_slots q ! 0)"
    "jp_queue_order q = [0]" using e by (simp_all add: q demo_pool_sel default_slot_def)
  moreover have "view_request (jp_queue_storage q ! 0) = view_request count_request" using demo_enqueued(5) by (simp add: q e)
  ultimately obtain p1 where d1: "dispatch_one 0 q = (True, p1)" "dispatched_as q 0 (jp_clock q (jp_ticks q)) 0 p1"
    "sl_state (jp_slots p1 ! 0) = LS_kRequested" "view_request (sl_request (jp_slots p1 ! 0)) = view_request count_request"
    using dispatch_one_takes [of q 0] ns by (auto simp: takeable_code superseded_code overdue_code dispatched_as_def Let_def split: prod.splits)
  have one: "length (jp_slots q) = 1" "jp_slots q \<noteq> []" using e by (auto simp: q demo_pool_sel)
  have "pump q = pump_step 0 q"
    using one(1) cap by (simp add: pump_def Let_def q)
  also have "\<dots> = p1\<lparr>jp_dispatch_cursor := 1 mod length (jp_slots p1)\<rparr>"
    using d1(1) one e(4) by (simp add: pump_step_def Let_def q e demo_pool_sel default_slot_def)
  finally have "jp_slots p' = jp_slots p1" by (simp add: pp)
  moreover have "length (jp_slots p1) = 1" using dispatch_one_keeps [of q 0] d1(1) e one(1) by (simp add: q demo_pool_sel default_slot_def)
  ultimately show ?thesis using r d1(3,4) by (intro exI [of _ p']) simp
qed

theorem pool_lane_finishes_witness:
  "\<exists>(p :: nat JobWorkerPool) k. length (jp_slots p) = 1 \<and> k \<le> 5 \<and> view_request (sl_request (jp_slots p ! 0)) = view_request count_request \<and>
     sl_state (jp_slots p ! 0) = LS_kRequested \<and>
     (let s = jp_slots ((worker_step 0 ^^ k) p) ! 0
      in sl_state s = LS_kMigrationReady \<or> sl_state s = LS_kReady \<and> answers (view_request count_request) (sl_result s))"
proof -
  obtain p :: "nat JobWorkerPool" where p: "reach pool_init pool_step p" "length (jp_slots p) = 1" "sl_state (jp_slots p ! 0) = LS_kRequested"
    "view_request (sl_request (jp_slots p ! 0)) = view_request count_request" using demo_requested by blast
  have "jrqm_descriptor (jrq_metadata (sl_request (jp_slots p ! 0))) = count_descriptor"
    using p(4) count_request_ok(2) by (simp add: view_request_def)
  then show ?thesis
    using pool_lane_finishes [OF p(1), of 0] p by (auto simp: occupied_def lane_busy_def count_descriptor_def Let_def)
qed

text \<open>The result code of each kind of rejection.\<close>

definition rejection_code :: "JobSubmitResult \<Rightarrow> JobResultCode" where
  "rejection_code r =
     (case r of JSR_kStale \<Rightarrow> ResultCode_kRejectedStale | JSR_kDeadlineUnreachable \<Rightarrow> ResultCode_kRejectedDeadline
      | JSR_kAdapterNotFound \<Rightarrow> ResultCode_kAdapterNotFound | JSR_kQosCapacity \<Rightarrow> ResultCode_kRejectedQos
      | JSR_kFull \<Rightarrow> ResultCode_kRejectedCapacity | _ \<Rightarrow> ResultCode_kInvalidRequest)"

lemma publish_rejection_message:
  assumes "validate_request rq = PR_kSuccess" "result_wf d" "ResultCode_kRejectedStale \<le> code" "code \<le> ResultCode_kRejectedQos"
  shows "\<exists>m. fst (publish_rejection (Some d) rq t code p) = Some m \<and> answers (view_request rq) m \<and> job_result_code m = code"
proof -
  let ?d = "d\<lparr>jrs_envelope := default_envelope, jrs_metadata := jrs_metadata default_result\<rparr>"
  have wf: "result_wf ?d" using assms(2) by (simp add: result_wf_def)
  have "job_result_code (snd (make_rejected_job_result ?d rq t code)) = code"
    using make_rejected_ok [OF assms(1) wf assms(3,4), of t] by auto
  with rejected_result_for(1) [OF assms(1) wf assms(3,4)] show ?thesis
    by (simp add: publish_rejection_def Let_def split_def answers_result_for)
qed

lemma pool_submit_rejection:
  assumes run: "pool_submit rq t (Some d) p = (r, d', p')" and r: "r \<noteq> JSR_kAccepted"
  shows "\<exists>q. publish_rejection (Some d) rq t (rejection_code r) q = (d', p')" "r = JSR_kInvalid \<longleftrightarrow> validate_request rq \<noteq> PR_kSuccess"
  using run r by (auto simp: pool_submit_def Let_def split_def rejection_code_def split: if_splits)

lemma reserved_slots_above:
  assumes "validate_request rq = PR_kSuccess"
  shows "reserved_slots (jp_qos_policy p) (jrqm_service_class (jrq_metadata rq)) = classes_above_reserve p rq"
proof -
  let ?c = "jrqm_service_class (jrq_metadata rq)"
  have "valid_job_service_class ?c" using assms by (auto simp: validate_request_def Let_def split: if_splits)
  then have "unat ?c = 0 \<or> unat ?c = 1 \<or> unat ?c = 2"
    by (auto simp: valid_job_service_class_def enum_simps word_le_nat_alt)
  then have "?c = 0 \<or> ?c = 1 \<or> ?c = 2" by (simp add: word_unat_eq_iff)
  then show ?thesis by (auto simp: reserved_slots_def classes_above_reserve_def enum_simps)
qed

lemma session_capacity_code:
  "has_session_capacity sid p \<longleftrightarrow> session_watermark p sid \<noteq> None \<or> (\<exists>e \<in> set (jp_sessions p). \<not> sw_occupied e)"
  by (auto simp: has_session_capacity_def watermark_index list_ex_iff)

lemma pool_submit_refused:
  assumes "pool_submit rq t d p = (r, d', p')" and "r \<noteq> JSR_kAccepted"
  shows "refused_for r rq t p"
  using assms reserved_slots_above [of rq p]
  by (auto simp: pool_submit_def Let_def split_def supports_any_def has_accepting_worker_def has_qos_capacity_def
      session_capacity_code superseded_code serves_code list_ex_iff split: if_splits)

text \<open>
  C15: What \<open>submit\<close> answers. It accepts only a valid request that no newer generation of its session
  supersedes, that a lane which is not draining serves, and for which the queue has more room than
  the slots reserved for the service classes above its own, so that best-effort work never fills
  the reserve; the job is then pending, once. Each refusal has its cause, leaves every pending job
  as it was, and, unless the request itself is invalid (\<open>kInvalid\<close>), writes a valid
  result that answers the request with the code of the outcome.
\<close>

theorem pool_submit_outcome:
  assumes "reach pool_init pool_step p" and "request_wf rq" and "result_wf d"
    and run: "pool_submit rq t (Some d) p = (r, d', p')"
  shows "if r = JSR_kAccepted
    then d' = Some d \<and> pending p' = add_mset (view_request rq) (pending p) \<and> validate_request rq = PR_kSuccess \<and>
      (\<exists>s \<in> set (jp_slots p). \<not> sl_drain_requested s \<and> serves (sl_registry s) rq) \<and> \<not> superseded p rq \<and>
      length (jp_queue_order p) + classes_above_reserve p rq < length (jp_queue_storage p)
    else pending p' = pending p \<and> refused_for r rq t p \<and> (r = JSR_kInvalid \<longleftrightarrow> validate_request rq \<noteq> PR_kSuccess) \<and>
      (r \<noteq> JSR_kInvalid \<longrightarrow> (\<exists>m. d' = Some m \<and> answers (view_request rq) m \<and> job_result_code m = rejection_code r))"
proof -
  note ok = pool_submit_ok [OF pool_machine.reach_inv [OF assms(1)] assms(2) run]
  show ?thesis
  proof (cases "r = JSR_kAccepted")
    case True
    then show ?thesis
      using ok(2) run reserved_slots_above [of rq p]
      by (auto simp: pool_submit_def Let_def split_def has_qos_capacity_def has_accepting_worker_def superseded_code serves_code
          list_ex_iff split: if_splits)
  next
    case False
    note rej = pool_submit_rejection [OF run False]
    have range: "ResultCode_kRejectedStale \<le> rejection_code r \<and> rejection_code r \<le> ResultCode_kRejectedQos"
      by (cases r) (simp_all add: rejection_code_def enum_simps word_le_nat_alt)
    obtain q where q: "publish_rejection (Some d) rq t (rejection_code r) q = (d', p')" using rej(1) by blast
    have "\<exists>m. d' = Some m \<and> answers (view_request rq) m \<and> job_result_code m = rejection_code r" if "r \<noteq> JSR_kInvalid"
      using publish_rejection_message [of rq d "rejection_code r" t q] rej(2) that range assms(3) q
      by (metis fst_conv)
    then show ?thesis using False ok(2) rej(2) pool_submit_refused [OF run False] by simp
  qed
qed

theorem pool_submit_outcome_witness:
  "\<exists>p'. pool_submit count_request 0 (Some default_result) demo_pool = (JSR_kAccepted, Some default_result, p') \<and>
     pending p' = {#view_request count_request#}"
proof -
  obtain r d' p' where run: "pool_submit count_request 0 (Some default_result) demo_pool = (r, d', p')" using prod_cases3 by blast
  obtain q where "pool_submit count_request 0 None demo_pool = (JSR_kAccepted, None, q)" using demo_pool_submit by blast
  then have "r = JSR_kAccepted" using run by (auto simp: pool_submit_def Let_def split_def split: if_splits)
  then show ?thesis
    using pool_submit_outcome [OF demo_pool_reach count_request_ok(4) default_wf(2) run] run pool_init_ok(2) [OF demo_pool_init]
    by simp
qed






end
