(* ===== verification/Text_Scan.thy ===== *)
theory Text_Scan
  imports FE_Prelude
begin

text \<open>
  The parts of \<open>std::string_view\<close>, \<open>std::from_chars\<close> and \<open>std::to_chars\<close> that the two JSON
  readers of the core use (core/protocol/deployment_profile.cc and core/loader/safetensors.cc),
  over HOL strings, and the lemmas about searching a text that is written as a sequence of pieces
  separated by quotes. A position that the source keeps as a pointer or an index is kept as the
  rest of the text behind it where the source only moves forward.
\<close>

section \<open>Definitions\<close>

abbreviation (input) quote :: char where "quote \<equiv> CHR 0x22"

abbreviation (input) backslash :: char where "backslash \<equiv> CHR 0x5C"

definition json_space :: "char \<Rightarrow> bool" where
  "json_space c \<longleftrightarrow> c = CHR '' '' \<or> c = CHR 0x0A \<or> c = CHR 0x0D \<or> c = CHR 0x09"

definition is_digit :: "char \<Rightarrow> bool" where
  "is_digit c \<longleftrightarrow> 48 \<le> (of_char c :: nat) \<and> (of_char c :: nat) \<le> 57"

definition digit_value :: "char \<Rightarrow> nat" where
  "digit_value c = of_char c - 48"

text \<open>\<open>find_sub needle s\<close> is \<open>s.find(needle)\<close>, and \<open>sv_find s from needle\<close> is \<open>s.find(needle, from)\<close>; \<open>None\<close> is \<open>npos\<close>.\<close>

fun find_sub :: "string \<Rightarrow> string \<Rightarrow> nat option" where
  "find_sub needle [] = (if needle = [] then Some 0 else None)"
| "find_sub needle (c # cs) =
     (if take (length needle) (c # cs) = needle then Some 0 else map_option Suc (find_sub needle cs))"

definition sv_find :: "string \<Rightarrow> nat \<Rightarrow> string \<Rightarrow> nat option" where
  "sv_find s from needle = (if from > length s then None else map_option ((+) from) (find_sub needle (drop from s)))"

text \<open>\<open>std::to_chars\<close> and \<open>std::from_chars\<close> for an unsigned 64-bit integer: the value and what is left of the text.\<close>

fun to_chars :: "nat \<Rightarrow> string" where
  "to_chars n = (if n < 10 then [char_of (48 + n)] else to_chars (n div 10) @ [char_of (48 + n mod 10)])"

declare to_chars.simps [simp del]

definition decimal_value :: "string \<Rightarrow> nat" where
  "decimal_value ds = foldl (\<lambda>v c. v * 10 + digit_value c) 0 ds"

definition from_chars_u64 :: "string \<Rightarrow> (nat \<times> string) option" where
  "from_chars_u64 s =
     (let ds = takeWhile is_digit s
      in if ds = [] \<or> decimal_value ds > SIZE_MAX then None else Some (decimal_value ds, dropWhile is_digit s))"

text \<open>Pieces, each behind a quote.\<close>

fun quoted :: "string list \<Rightarrow> string" where
  "quoted [] = []"
| "quoted (s # ss) = quote # s @ quoted ss"

section \<open>Lemmas\<close>

subsection \<open>Decimal numbers\<close>

lemma digit_char: "d < 10 \<Longrightarrow> is_digit (char_of (48 + d)) \<and> digit_value (char_of (48 + d)) = d"
  by (simp add: is_digit_def digit_value_def)

lemma to_chars_digits: "to_chars n \<noteq> [] \<and> (\<forall>c \<in> set (to_chars n). is_digit c)"
proof (induction n rule: to_chars.induct)
  case (1 n)
  then show ?case using digit_char [of n] digit_char [of "n mod 10"]
    by (subst (1 2) to_chars.simps) auto
qed

lemma decimal_value_snoc: "decimal_value (ds @ [c]) = decimal_value ds * 10 + digit_value c"
  by (simp add: decimal_value_def)

lemma decimal_to_chars: "decimal_value (to_chars n) = n"
proof (induction n rule: to_chars.induct)
  case (1 n)
  show ?case
  proof (cases "n < 10")
    case True
    then show ?thesis using digit_char [of n] by (subst to_chars.simps) (simp add: decimal_value_def)
  next
    case False
    then show ?thesis using 1 digit_char [of "n mod 10"] by (subst to_chars.simps) (simp add: decimal_value_snoc)
  qed
qed

lemma from_to_chars: "n \<le> SIZE_MAX \<Longrightarrow> from_chars_u64 (to_chars n) = Some (n, [])"
  using to_chars_digits [of n] by (simp add: from_chars_u64_def takeWhile_eq_all_conv [THEN iffD2] decimal_to_chars)

lemma digit_not_special:
  assumes "is_digit c"
  shows "c \<noteq> quote" "c \<noteq> CHR '',''" "c \<noteq> CHR ''}''" "c \<noteq> CHR ''{''" "c \<noteq> CHR ''[''" "c \<noteq> CHR '']''" "\<not> json_space c" "c \<noteq> backslash"
  using assms by (auto simp: is_digit_def json_space_def)

subsection \<open>Searching quoted pieces\<close>

lemma append_sep_eq: "q \<notin> set a \<Longrightarrow> q \<notin> set b \<Longrightarrow> a @ q # x = b @ q # y \<longleftrightarrow> a = b \<and> x = y"
  by (induction a arbitrary: b) (case_tac b; auto)+

lemma find_sub_skip:
  assumes "q \<notin> set s"
  shows "find_sub (q # needle) (s @ t) = map_option ((+) (length s)) (find_sub (q # needle) t)"
  using assms
proof (induction s)
  case Nil
  then show ?case by (simp add: option.map_ident)
next
  case (Cons c s)
  then have "find_sub (q # needle) ((c # s) @ t) = map_option Suc (map_option ((+) (length s)) (find_sub (q # needle) t))" by auto
  then show ?case by (simp add: option.map_comp comp_def)
qed

lemma find_sub_hit: "find_sub needle (needle @ t) = Some 0"
  by (cases needle; cases t) simp_all

lemma find_sub_piece:
  assumes "quote \<notin> set key" "quote \<notin> set s" "s \<noteq> key"
  shows "find_sub (quote # key @ [quote]) (quote # s @ quote # t) =
    map_option ((+) (Suc (length s))) (find_sub (quote # key @ [quote]) (quote # t))"
proof -
  have "take (length (key @ [quote])) (s @ quote # t) \<noteq> key @ [quote]"
  proof
    assume "take (length (key @ [quote])) (s @ quote # t) = key @ [quote]"
    then have "s @ quote # t = key @ quote # drop (length (key @ [quote])) (s @ quote # t)"
      by (metis append_Cons append_Nil append_assoc append_take_drop_id)
    then show False using append_sep_eq [OF assms(2,1)] assms(3) by blast
  qed
  then have "find_sub (quote # key @ [quote]) (quote # s @ quote # t) = map_option Suc (find_sub (quote # key @ [quote]) (s @ quote # t))"
    by simp
  also have "\<dots> = map_option Suc (map_option ((+) (length s)) (find_sub (quote # key @ [quote]) (quote # t)))"
    by (subst find_sub_skip [OF assms(2)]) simp
  finally show ?thesis by (simp add: option.map_comp comp_def)
qed

text \<open>The first occurrence of a quoted key among the pieces, and what follows it.\<close>

lemma find_sub_quoted:
  assumes "quote \<notin> set key" "\<forall>s \<in> set pre. quote \<notin> set s" "key \<notin> set pre"
  shows "find_sub (quote # key @ [quote]) (quoted (pre @ key # s # post)) = Some (length (quoted pre))"
  using assms(2,3)
proof (induction pre)
  case Nil
  then show ?case using find_sub_hit [of "quote # key @ [quote]" "s @ quoted post"] by simp
next
  case (Cons p pre)
  obtain t where t: "quoted (pre @ key # s # post) = quote # t" by (cases pre) auto
  with Cons find_sub_piece [OF assms(1), of p t] show ?case by auto
qed

lemma quoted_append: "quoted (a @ b) = quoted a @ quoted b"
  by (induction a) auto

lemma sv_find_quoted:
  fixes s :: string and post :: "string list"
  assumes "quote \<notin> set s0" "quote \<notin> set key" "\<forall>s \<in> set pre. quote \<notin> set s" "key \<notin> set pre"
  defines "text \<equiv> s0 @ quoted (pre @ key # s # post)"
  shows "\<exists>k. sv_find text 0 (quote # key @ [quote]) = Some k \<and> drop (k + length (quote # key @ [quote])) text = s @ quoted post"
proof (intro exI conjI)
  let ?k = "length s0 + length (quoted pre)"
  show "sv_find text 0 (quote # key @ [quote]) = Some ?k"
    using find_sub_skip [OF assms(1)] find_sub_quoted [OF assms(2-4)] by (simp add: sv_find_def text_def)
  have "text = (s0 @ quoted pre @ quote # key @ [quote]) @ s @ quoted post" by (simp add: text_def quoted_append)
  moreover have "?k + length (quote # key @ [quote]) = length (s0 @ quoted pre @ quote # key @ [quote])" by simp
  ultimately show "drop (?k + length (quote # key @ [quote])) text = s @ quoted post" by (metis append_eq_conv_conj)
qed

end
