(* ===== verification/Deployment_Profile.thy ===== *)
theory Deployment_Profile
  imports Text_Scan FE_Float
begin

text \<open>
  core/protocol/deployment_profile.\{h,cc\}: the deployment contract stored in a checkpoint's
  metadata, its validation, and its JSON reader and writer. The reader looks fields up by their
  quoted name in the whole text, as the source does; it is not a general JSON parser.

  \<open>std::strtof\<close> and \<open>std::snprintf\<close> with \<open>%.9g\<close> are parameters: \<open>strtof s\<close> is the parsed value with
  the number of characters consumed, \<open>format_g9 x\<close> the printed text. The round trip relies on what
  the C standard says of nine significant digits (\<open>FLT_DECIMAL_DIG\<close>): a finite \<open>float\<close> is read back
  as it was printed, in digits, sign, point and exponent letter only (\<open>float_text\<close>).
\<close>

section \<open>Definitions\<close>

datatype DeploymentActionUnits = Units_kNormalized | Units_kPhysical

datatype DeploymentNormalization = Norm_kNone | Norm_kMinMax

datatype DeploymentSolver = Solver_kEuler | Solver_kHeun | Solver_kRK4

datatype DeploymentProfileError = DPE_kInvalidJson | DPE_kMissingField | DPE_kInvalidField
  | DPE_kUnsupportedProfileVersion | DPE_kUnsupportedCompatibilityVersion | DPE_kInvalidObservationSchemaHash
  | DPE_kInvalidActionDim | DPE_kInvalidActionHorizon | DPE_kInvalidActionUnits | DPE_kInvalidNormalizationType
  | DPE_kInvalidNormalizationParameters | DPE_kInvalidSolverDefault | DPE_kInvalidSolverRange

definition kProfileVersion :: u32 where "kProfileVersion = 1"
definition kCompatibilityVersion :: u32 where "kCompatibilityVersion = 1"
definition kObservationSchemaHashBytes :: nat where "kObservationSchemaHashBytes = 72"
definition kMaxProfileActionDim :: nat where "kMaxProfileActionDim = 65536"
definition kMaxActionHorizon :: nat where "kMaxActionHorizon = 4096"
definition kMaxSolverSteps :: nat where "kMaxSolverSteps = 4096"

text \<open>\<open>dp_observation_schema_hash\<close> is the whole character array, its terminating NUL included.\<close>

record DeploymentProfile =
  dp_profile_version :: u32
  dp_model_compatibility_version :: u32
  dp_observation_schema_hash :: string
  dp_action_dim :: nat
  dp_action_horizon :: nat
  dp_action_units :: DeploymentActionUnits
  dp_normalization_type :: DeploymentNormalization
  dp_normalization_min :: "fp list"
  dp_normalization_max :: "fp list"
  dp_solver_default :: DeploymentSolver
  dp_solver_min_steps :: nat
  dp_solver_max_steps :: nat

definition default_profile :: DeploymentProfile where
  "default_profile = \<lparr>dp_profile_version = kProfileVersion, dp_model_compatibility_version = kCompatibilityVersion,
     dp_observation_schema_hash = replicate kObservationSchemaHashBytes (CHR 0x00), dp_action_dim = 0, dp_action_horizon = 0,
     dp_action_units = Units_kNormalized, dp_normalization_type = Norm_kNone, dp_normalization_min = [],
     dp_normalization_max = [], dp_solver_default = Solver_kEuler, dp_solver_min_steps = 0, dp_solver_max_steps = 0\<rparr>"

definition observation_schema_hash_view :: "DeploymentProfile \<Rightarrow> string" where
  "observation_schema_hash_view p = takeWhile (\<lambda>c. c \<noteq> CHR 0x00) (dp_observation_schema_hash p)"

subsection \<open>Fields\<close>

record Field =
  fd_value :: string
  fd_present :: bool
  fd_string :: bool

definition no_field :: Field where
  "no_field = \<lparr>fd_value = [], fd_present = False, fd_string = False\<rparr>"

definition trim :: "string \<Rightarrow> string" where
  "trim value = rev (dropWhile json_space (rev (dropWhile json_space value)))"

text \<open>
  The loop over a nested object or array: \<open>prev\<close> is the character before, \<open>value\<close> what has been
  read of it so far. \<open>None\<close> when the text ends first.
\<close>

fun scan_nested :: "char \<Rightarrow> char \<Rightarrow> char option \<Rightarrow> int \<Rightarrow> bool \<Rightarrow> string \<Rightarrow> string \<Rightarrow> string option" where
  "scan_nested opener closer prev depth in_string value [] = None"
| "scan_nested opener closer prev depth in_string value (ch # rest) =
     (let in_string' = (if ch = quote \<and> prev \<noteq> Some backslash then \<not> in_string else in_string)
      in if in_string' then scan_nested opener closer (Some ch) depth in_string' (value @ [ch]) rest
         else if ch = opener then scan_nested opener closer (Some ch) (depth + 1) in_string' (value @ [ch]) rest
         else if ch = closer
         then if depth - 1 = 0 then Some (value @ [ch])
              else scan_nested opener closer (Some ch) (depth - 1) in_string' (value @ [ch]) rest
         else scan_nested opener closer (Some ch) depth in_string' (value @ [ch]) rest)"

text \<open>The value of a field, from the text behind its colon; \<open>prev\<close> is the last character skipped.\<close>

definition field_value :: "char \<Rightarrow> string \<Rightarrow> Field" where
  "field_value prev rest =
     (let present = no_field\<lparr>fd_present := True\<rparr>
      in case rest of
           [] \<Rightarrow> present
         | c # cs \<Rightarrow>
             if c = quote then
               (case find_sub [quote] cs of
                  None \<Rightarrow> present\<lparr>fd_string := True\<rparr>
                | Some n \<Rightarrow> present\<lparr>fd_value := take n cs, fd_string := True\<rparr>)
             else if c = CHR ''{'' \<or> c = CHR ''['' then
               (case scan_nested c (if c = CHR ''{'' then CHR ''}'' else CHR '']'') (Some prev) 0 False [] rest of
                  None \<Rightarrow> present
                | Some v \<Rightarrow> present\<lparr>fd_value := v\<rparr>)
             else present\<lparr>fd_value := trim (takeWhile (\<lambda>ch. ch \<noteq> CHR '','' \<and> ch \<noteq> CHR ''}'') rest)\<rparr>)"

definition field :: "string \<Rightarrow> string \<Rightarrow> Field" where
  "field json key =
     (let needle = quote # key @ [quote]
      in case sv_find json 0 needle of
           None \<Rightarrow> no_field
         | Some key_pos \<Rightarrow>
             (case find_sub '':'' (drop (key_pos + length needle) json) of
                None \<Rightarrow> no_field\<lparr>fd_present := True\<rparr>
              | Some colon \<Rightarrow>
                  let behind = drop (colon + 1) (drop (key_pos + length needle) json)
                  in field_value (last (CHR '':'' # takeWhile json_space behind)) (dropWhile json_space behind)))"

subsection \<open>Values\<close>

definition parse_uint :: "string \<Rightarrow> nat option" where
  "parse_uint value0 =
     (let value = trim value0
      in if value = [] then None
         else case from_chars_u64 value of
             None \<Rightarrow> None
           | Some (parsed, rest) \<Rightarrow> if rest \<noteq> [] \<or> parsed > SIZE_MAX then None else Some parsed)"

definition parse_float :: "(string \<Rightarrow> fp \<times> nat) \<Rightarrow> string \<Rightarrow> fp option" where
  "parse_float strtof value0 =
     (let value = trim value0
      in if value = [] \<or> length value \<ge> 64 then None
         else let (parsed, consumed) = strtof value
           in if consumed \<noteq> length value \<or> \<not> isfinite parsed then None else Some parsed)"

lemma trim_length: "length (trim s) \<le> length s"
  using length_dropWhile_le [of json_space "rev (dropWhile json_space s)"] length_dropWhile_le [of json_space s]
  by (simp add: trim_def)

lemma trim_drop_less: "v \<noteq> [] \<Longrightarrow> length (trim (drop (Suc n) v)) < length v"
  using trim_length [of "drop (Suc n) v"] by (cases v) auto

text \<open>The loop over the items, for a non-empty trimmed value.\<close>

function float_items :: "(string \<Rightarrow> fp \<times> nat) \<Rightarrow> string \<Rightarrow> fp list option" where
  "float_items strtof value =
     (if value = [] then Some []
      else
        let comma = find_sub '','' value;
            item = trim (case comma of None \<Rightarrow> value | Some n \<Rightarrow> take n value)
        in case parse_float strtof item of
             None \<Rightarrow> None
           | Some x \<Rightarrow>
               (case comma of
                  None \<Rightarrow> Some [x]
                | Some n \<Rightarrow>
                    let rest = trim (drop (n + 1) value)
                    in if rest = [] then None else map_option ((#) x) (float_items strtof rest)))"
  by pat_completeness auto
termination
  by (relation "measure (\<lambda>(_, v). length v)") (simp_all add: trim_drop_less)

declare float_items.simps [simp del]

definition parse_float_array :: "(string \<Rightarrow> fp \<times> nat) \<Rightarrow> string \<Rightarrow> fp list option" where
  "parse_float_array strtof value0 =
     (let value = trim value0
      in if length value < 2 \<or> hd value \<noteq> CHR ''['' \<or> last value \<noteq> CHR '']'' then None
         else float_items strtof (trim (take (length value - 2) (drop 1 value))))"

definition hex_digit :: "char \<Rightarrow> bool" where
  "hex_digit c \<longleftrightarrow> is_digit c \<or> (97 \<le> (of_char c :: nat) \<and> (of_char c :: nat) \<le> 102) \<or>
     (65 \<le> (of_char c :: nat) \<and> (of_char c :: nat) \<le> 70)"

definition valid_hash :: "string \<Rightarrow> bool" where
  "valid_hash value \<longleftrightarrow> length value = 71 \<and> take 7 value = ''sha256:'' \<and> list_all hex_digit (drop 7 value)"

definition action_units_name :: "DeploymentActionUnits \<Rightarrow> string" where
  "action_units_name units = (if units = Units_kNormalized then ''normalized'' else ''physical'')"

definition normalization_name :: "DeploymentNormalization \<Rightarrow> string" where
  "normalization_name n = (if n = Norm_kNone then ''none'' else ''minmax'')"

definition solver_name :: "DeploymentSolver \<Rightarrow> string" where
  "solver_name solver = (case solver of Solver_kEuler \<Rightarrow> ''euler'' | Solver_kHeun \<Rightarrow> ''heun'' | Solver_kRK4 \<Rightarrow> ''rk4'')"

definition append_uint :: "string \<Rightarrow> nat \<Rightarrow> string" where
  "append_uint output value = output @ to_chars value"

definition append_float :: "(fp \<Rightarrow> string) \<Rightarrow> string \<Rightarrow> fp \<Rightarrow> string" where
  "append_float format_g9 output value =
     (let written = format_g9 value in if written = [] \<or> length written \<ge> 64 then output else output @ written)"

definition deployment_profile_error_message :: "DeploymentProfileError \<Rightarrow> string" where
  "deployment_profile_error_message error =
     (case error of
        DPE_kInvalidJson \<Rightarrow> ''deployment profile JSON is invalid''
      | DPE_kMissingField \<Rightarrow> ''deployment profile field is missing''
      | DPE_kInvalidField \<Rightarrow> ''deployment profile field is invalid''
      | DPE_kUnsupportedProfileVersion \<Rightarrow> ''deployment profile version is unsupported''
      | DPE_kUnsupportedCompatibilityVersion \<Rightarrow> ''model compatibility version is unsupported''
      | DPE_kInvalidObservationSchemaHash \<Rightarrow> ''observation_schema_hash must be sha256 followed by 64 hex digits''
      | DPE_kInvalidActionDim \<Rightarrow> ''action_dim must be between 1 and 65536''
      | DPE_kInvalidActionHorizon \<Rightarrow> ''action_horizon must be between 1 and 4096''
      | DPE_kInvalidActionUnits \<Rightarrow> ''action_units must be normalized or physical''
      | DPE_kInvalidNormalizationType \<Rightarrow> ''normalization_type must be none or minmax''
      | DPE_kInvalidNormalizationParameters \<Rightarrow> ''normalization_parameters must contain finite min/max arrays matching action_dim''
      | DPE_kInvalidSolverDefault \<Rightarrow> ''solver_default must be euler, heun, or rk4''
      | DPE_kInvalidSolverRange \<Rightarrow> ''solver_min_steps and solver_max_steps must be between 1 and 4096'')"

subsection \<open>Validation\<close>

definition bounds_ok :: "DeploymentProfile \<Rightarrow> nat \<Rightarrow> bool" where
  "bounds_ok p i \<longleftrightarrow> isfinite (dp_normalization_min p ! i) \<and> isfinite (dp_normalization_max p ! i) \<and>
     fp_lt (dp_normalization_min p ! i) (dp_normalization_max p ! i)"

definition validate_deployment_profile :: "DeploymentProfile \<Rightarrow> DeploymentProfileError + unit" where
  "validate_deployment_profile p =
     (if dp_profile_version p \<noteq> kProfileVersion then Inl DPE_kUnsupportedProfileVersion
      else if dp_model_compatibility_version p \<noteq> kCompatibilityVersion then Inl DPE_kUnsupportedCompatibilityVersion
      else if \<not> valid_hash (observation_schema_hash_view p) then Inl DPE_kInvalidObservationSchemaHash
      else if dp_action_dim p = 0 \<or> dp_action_dim p > kMaxProfileActionDim then Inl DPE_kInvalidActionDim
      else if dp_action_horizon p = 0 \<or> dp_action_horizon p > kMaxActionHorizon then Inl DPE_kInvalidActionHorizon
      else if dp_action_units p \<noteq> Units_kNormalized \<and> dp_action_units p \<noteq> Units_kPhysical then Inl DPE_kInvalidActionUnits
      else if dp_normalization_type p \<noteq> Norm_kNone \<and> dp_normalization_type p \<noteq> Norm_kMinMax
      then Inl DPE_kInvalidNormalizationType
      else if dp_normalization_type p = Norm_kNone \<and> (dp_normalization_min p \<noteq> [] \<or> dp_normalization_max p \<noteq> [])
      then Inl DPE_kInvalidNormalizationParameters
      else if dp_normalization_type p \<noteq> Norm_kNone \<and>
              (length (dp_normalization_min p) \<noteq> dp_action_dim p \<or> length (dp_normalization_max p) \<noteq> dp_action_dim p \<or>
               \<not> list_all (bounds_ok p) [0 ..< dp_action_dim p])
      then Inl DPE_kInvalidNormalizationParameters
      else if solver_name (dp_solver_default p) = [] then Inl DPE_kInvalidSolverDefault
      else if dp_solver_min_steps p = 0 \<or> dp_solver_max_steps p = 0 \<or> dp_solver_min_steps p > dp_solver_max_steps p \<or>
              dp_solver_max_steps p > kMaxSolverSteps
      then Inl DPE_kInvalidSolverRange
      else Inr ())"

subsection \<open>Reading and writing\<close>

text \<open>The strings of the enumerations as the reader accepts them.\<close>

definition read_units :: "Field \<Rightarrow> DeploymentActionUnits option" where
  "read_units f =
     (if \<not> fd_string f then None
      else if fd_value f = ''normalized'' then Some Units_kNormalized
      else if fd_value f = ''physical'' then Some Units_kPhysical else None)"

definition read_normalization :: "Field \<Rightarrow> DeploymentNormalization option" where
  "read_normalization f =
     (if \<not> fd_string f then None
      else if fd_value f = ''none'' then Some Norm_kNone
      else if fd_value f = ''minmax'' then Some Norm_kMinMax else None)"

definition read_solver :: "Field \<Rightarrow> DeploymentSolver option" where
  "read_solver f =
     (if \<not> fd_string f then None
      else if fd_value f = ''euler'' then Some Solver_kEuler
      else if fd_value f = ''heun'' then Some Solver_kHeun
      else if fd_value f = ''rk4'' then Some Solver_kRK4 else None)"

definition read_profile_u32 :: "Field \<Rightarrow> u32 option" where
  "read_profile_u32 f = (case parse_uint (fd_value f) of None \<Rightarrow> None | Some v \<Rightarrow> if v > unat U32_MAX then None else Some (of_nat v))"

definition read_bounds ::
  "(string \<Rightarrow> fp \<times> nat) \<Rightarrow> DeploymentNormalization \<Rightarrow> string \<Rightarrow> (fp list \<times> fp list) option" where
  "read_bounds strtof normalization parameters =
     (let min_values = field parameters ''min''; max_values = field parameters ''max''
      in if normalization = Norm_kMinMax then
           (if \<not> fd_present min_values \<or> \<not> fd_present max_values then None
            else case parse_float_array strtof (fd_value min_values) of
                None \<Rightarrow> None
              | Some lo \<Rightarrow> map_option (Pair lo) (parse_float_array strtof (fd_value max_values)))
         else if fd_present min_values \<or> fd_present max_values then None
         else Some ([], []))"

text \<open>\<open>None\<close> in the option list is a failed step; the first failure decides the error.\<close>

definition require :: "DeploymentProfileError \<Rightarrow> 'a option \<Rightarrow> DeploymentProfileError + 'a" where
  "require e x = (case x of None \<Rightarrow> Inl e | Some v \<Rightarrow> Inr v)"

definition and_then :: "DeploymentProfileError + 'a \<Rightarrow> ('a \<Rightarrow> DeploymentProfileError + 'b) \<Rightarrow> DeploymentProfileError + 'b" where
  "and_then x f = (case x of Inl e \<Rightarrow> Inl e | Inr v \<Rightarrow> f v)"

definition profile_keys :: "string list" where
  "profile_keys = [''profile_version'', ''model_compatibility_version'', ''observation_schema_hash'', ''action_dim'',
     ''action_horizon'', ''action_units'', ''normalization_type'', ''normalization_parameters'', ''solver_default'',
     ''solver_min_steps'', ''solver_max_steps'']"

definition read_hash :: "Field \<Rightarrow> string option" where
  "read_hash f = (if \<not> fd_string f \<or> \<not> valid_hash (fd_value f) then None else Some (fd_value f @ [CHR 0x00]))"

definition parse_deployment_profile :: "(string \<Rightarrow> fp \<times> nat) \<Rightarrow> string \<Rightarrow> DeploymentProfileError + DeploymentProfile" where
  "parse_deployment_profile strtof json0 =
     (let json = trim json0
      in if length json < 2 \<or> hd json \<noteq> CHR ''{'' \<or> last json \<noteq> CHR ''}'' then Inl DPE_kInvalidJson
         else if list_ex (\<lambda>key. \<not> fd_present (field json key)) profile_keys then Inl DPE_kMissingField
         else
           and_then (require DPE_kInvalidField (read_profile_u32 (field json ''profile_version''))) (\<lambda>version.
           and_then (require DPE_kInvalidField (read_profile_u32 (field json ''model_compatibility_version''))) (\<lambda>compatibility.
           and_then (require DPE_kInvalidObservationSchemaHash (read_hash (field json ''observation_schema_hash''))) (\<lambda>hash.
           and_then (require DPE_kInvalidActionDim (parse_uint (fd_value (field json ''action_dim'')))) (\<lambda>dim.
           and_then (require DPE_kInvalidActionHorizon (parse_uint (fd_value (field json ''action_horizon'')))) (\<lambda>horizon.
           and_then (require DPE_kInvalidActionUnits (read_units (field json ''action_units''))) (\<lambda>units.
           and_then (require DPE_kInvalidNormalizationType (read_normalization (field json ''normalization_type''))) (\<lambda>normalization.
           and_then (require DPE_kInvalidNormalizationParameters
             (if fd_value (field json ''normalization_parameters'') = [] then None
              else read_bounds strtof normalization (fd_value (field json ''normalization_parameters'')))) (\<lambda>(lo, hi).
           and_then (require DPE_kInvalidSolverDefault (read_solver (field json ''solver_default''))) (\<lambda>solver.
           and_then (require DPE_kInvalidSolverRange (parse_uint (fd_value (field json ''solver_min_steps'')))) (\<lambda>min_steps.
           and_then (require DPE_kInvalidSolverRange (parse_uint (fd_value (field json ''solver_max_steps'')))) (\<lambda>max_steps.
             let profile = \<lparr>dp_profile_version = version, dp_model_compatibility_version = compatibility,
                   dp_observation_schema_hash = hash, dp_action_dim = dim, dp_action_horizon = horizon, dp_action_units = units,
                   dp_normalization_type = normalization, dp_normalization_min = lo, dp_normalization_max = hi,
                   dp_solver_default = solver, dp_solver_min_steps = min_steps, dp_solver_max_steps = max_steps\<rparr>
             in if dp_profile_version profile \<noteq> kProfileVersion then Inl DPE_kUnsupportedProfileVersion
                else if dp_model_compatibility_version profile \<noteq> kCompatibilityVersion then Inl DPE_kUnsupportedCompatibilityVersion
                else and_then (validate_deployment_profile profile) (\<lambda>_. Inr profile)))))))))))))"

definition append_floats :: "(fp \<Rightarrow> string) \<Rightarrow> string \<Rightarrow> fp list \<Rightarrow> string" where
  "append_floats format_g9 output0 xs =
     fold (\<lambda>i output. append_float format_g9 (if i \<noteq> 0 then output @ '','' else output) (xs ! i)) [0 ..< length xs] output0"

definition json_fields :: "(fp \<Rightarrow> string) \<Rightarrow> DeploymentProfile \<Rightarrow> string" where
  "json_fields format_g9 p =
     (let o1 = append_uint ''{\"profile_version\":'' (unat (dp_profile_version p));
          o2 = append_uint (o1 @ '',\"model_compatibility_version\":'') (unat (dp_model_compatibility_version p));
          o3 = o2 @ '',\"observation_schema_hash\":\"'' @ observation_schema_hash_view p;
          o4 = append_uint (o3 @ ''\",\"action_dim\":'') (dp_action_dim p);
          o5 = append_uint (o4 @ '',\"action_horizon\":'') (dp_action_horizon p);
          o6 = o5 @ '',\"action_units\":\"'' @ action_units_name (dp_action_units p);
          o7 = o6 @ ''\",\"normalization_type\":\"'' @ normalization_name (dp_normalization_type p);
          o8 = o7 @ ''\",\"normalization_parameters\":{'';
          o9 = (if dp_normalization_type p = Norm_kMinMax
                then append_floats format_g9 (append_floats format_g9 (o8 @ ''\"min\":['') (dp_normalization_min p) @ ''],\"max\":['')
                       (dp_normalization_max p) @ '']''
                else o8);
          o10 = o9 @ ''},\"solver_default\":\"'' @ solver_name (dp_solver_default p);
          o11 = append_uint (o10 @ ''\",\"solver_min_steps\":'') (dp_solver_min_steps p);
          o12 = append_uint (o11 @ '',\"solver_max_steps\":'') (dp_solver_max_steps p)
      in o12 @ ''}'')"

definition serialize_deployment_profile :: "(fp \<Rightarrow> string) \<Rightarrow> DeploymentProfile \<Rightarrow> DeploymentProfileError + string" where
  "serialize_deployment_profile format_g9 p =
     and_then (validate_deployment_profile p) (\<lambda>_. Inr (json_fields format_g9 p))"

end
