(* ===== verification/Deployment_Profile_Correct.thy ===== *)
theory Deployment_Profile_Correct
  imports Deployment_Profile
begin

text \<open>
  The reader and the writer of deployment profiles agree: what is written for a valid profile is
  read back as that profile, and what is read is a valid profile. The written text is a list of
  keys with the pieces of their values between quotes, so a field is found at its own key and
  nowhere else.
\<close>

section \<open>Fields of a written object\<close>

definition pieces :: "(string \<times> string list) list \<Rightarrow> string list" where
  "pieces kvs = concat (map (\<lambda>(k, vs). k # vs) kvs)"

lemma pieces_append: "pieces (a @ b) = pieces a @ pieces b"
  by (simp add: pieces_def)

lemma field_quoted:
  assumes "quote \<notin> set s0" "quote \<notin> set key" "\<forall>s \<in> set pre. quote \<notin> set s" "key \<notin> set pre"
    and "\<not> json_space (hd (v @ quoted post))" "v @ quoted post \<noteq> []"
  shows "field (s0 @ quoted (pre @ key # ('':'' @ v) # post)) key = field_value (CHR '':'') (v @ quoted post)"
proof -
  obtain k where k: "sv_find (s0 @ quoted (pre @ key # ('':'' @ v) # post)) 0 (quote # key @ [quote]) = Some k"
    "drop (k + length (quote # key @ [quote])) (s0 @ quoted (pre @ key # ('':'' @ v) # post)) = ('':'' @ v) @ quoted post"
    using sv_find_quoted [OF assms(1-4), of "'':'' @ v" post] by blast
  obtain c cs where c: "v @ quoted post = c # cs" "\<not> json_space c" using assms(5,6) by (cases "v @ quoted post") auto
  show ?thesis unfolding field_def Let_def k(1) option.case k(2) using c by simp
qed

lemma field_pieces:
  assumes "distinct (map fst kvs)" "\<forall>(k, vs) \<in> set kvs. quote \<notin> set k \<and> (\<forall>s \<in> set vs. quote \<notin> set s \<and> s \<notin> fst ` set kvs)"
    and "(key, ('':'' @ v) # vs) \<in> set kvs" "quote \<notin> set s0" "v @ quoted vs \<noteq> []" "\<not> json_space (hd (v @ quoted vs))"
  shows "\<exists>t. field (s0 @ quoted (pieces kvs)) key = field_value (CHR '':'') (v @ quoted vs @ t)"
proof -
  obtain a b where ab: "kvs = a @ (key, ('':'' @ v) # vs) # b" using assms(3) by (meson split_list)
  have p: "pieces kvs = pieces a @ key # ('':'' @ v) # vs @ pieces b" by (simp add: ab pieces_def)
  have w: "quote \<notin> set k" "s \<in> set ss \<Longrightarrow> quote \<notin> set s \<and> s \<noteq> key" if "(k, ss) \<in> set a" for k s ss
    using bspec [OF assms(2), of "(k, ss)"] that by (auto simp: ab)
  have "k \<noteq> key" if "(k, ss) \<in> set a" for k ss using assms(1) that by (force simp: ab)
  with w have "\<forall>s \<in> set (pieces a). quote \<notin> set s" "key \<notin> set (pieces a)"
    by (fastforce simp: pieces_def)+
  moreover have "quote \<notin> set key" using assms(2) by (auto simp: ab)
  ultimately have "quote \<notin> set key" "\<forall>s \<in> set (pieces a). quote \<notin> set s" "key \<notin> set (pieces a)" by blast+
  note q = field_quoted [OF assms(4) this, of v "vs @ pieces b"]
  have "v @ quoted (vs @ pieces b) = (v @ quoted vs) @ quoted (pieces b)" by (simp add: quoted_append)
  then have "\<not> json_space (hd (v @ quoted (vs @ pieces b)))" "v @ quoted (vs @ pieces b) \<noteq> []"
    using assms(5,6) by (metis hd_append2, metis append_is_Nil_conv)
  from q [OF this] show ?thesis unfolding p quoted_append by blast
qed

lemma field_value_string: "quote \<notin> set s \<Longrightarrow> field_value c (quote # s @ quote # t) = \<lparr>fd_value = s, fd_present = True, fd_string = True\<rparr>"
  using find_sub_skip [of quote s "[]" "quote # t"] by (simp add: field_value_def no_field_def)

lemma trim_id: "s = [] \<or> \<not> json_space (hd s) \<and> \<not> json_space (last s) \<Longrightarrow> trim s = s"
  by (auto simp: trim_def dropWhile_eq_self_iff [THEN iffD2] hd_rev)

lemma trim_digits: "trim (to_chars n) = to_chars n"
  using to_chars_digits [of n] by (intro trim_id disjI2) (auto dest: digit_not_special(7))

lemma to_chars_first: "\<exists>c cs. to_chars n = c # cs \<and> is_digit c"
  using to_chars_digits [of n] by (cases "to_chars n") auto

lemma field_value_number:
  assumes "d = CHR '','' \<or> d = CHR ''}''"
  shows "field_value c (to_chars n @ d # t) = \<lparr>fd_value = to_chars n, fd_present = True, fd_string = False\<rparr>"
proof -
  obtain x xs where x: "to_chars n = x # xs" "is_digit x" using to_chars_first by blast
  have "takeWhile (\<lambda>ch. ch \<noteq> CHR '','' \<and> ch \<noteq> CHR ''}'') (to_chars n @ d # t) = to_chars n"
    using to_chars_digits [of n] digit_not_special(2,3) assms by (subst takeWhile_append2) auto
  then show ?thesis using x digit_not_special [OF x(2)] trim_digits [of n] by (simp add: field_value_def no_field_def)
qed

lemma parse_uint_to_chars: "n \<le> SIZE_MAX \<Longrightarrow> parse_uint (to_chars n) = Some n"
  using to_chars_digits [of n] by (simp add: parse_uint_def trim_digits from_to_chars)

text \<open>A stretch of a nested value without its brackets is read through.\<close>

lemma scan_nested_plain:
  assumes "opener \<notin> set s" "closer \<notin> set s" "backslash \<notin> set s" "prev \<noteq> Some backslash"
  shows "scan_nested opener closer prev d b v (s @ t) =
    scan_nested opener closer (if s = [] then prev else Some (last s)) d (b \<noteq> odd (count_list s quote)) (v @ s) t"
  using assms
proof (induction s arbitrary: prev b v)
  case Nil
  then show ?case by simp
next
  case (Cons ch s)
  then show ?case by (auto simp: Let_def)
qed

lemma scan_nested_brackets:
  assumes "opener \<notin> set s" "closer \<notin> set s" "backslash \<notin> set s" "even (count_list s quote)"
    "opener \<noteq> closer" "opener \<noteq> quote" "closer \<noteq> quote" "opener \<noteq> backslash" "prev \<noteq> Some backslash"
  shows "scan_nested opener closer prev 0 False [] (opener # s @ closer # t) = Some (opener # s @ [closer])"
proof -
  have l: "s \<noteq> [] \<Longrightarrow> last s \<noteq> backslash" using assms(3) by (metis last_in_set)
  show ?thesis
    using assms scan_nested_plain [OF assms(1-3), of "Some opener" 1 False "[opener]" "closer # t"] by (auto simp: Let_def)
qed

lemma field_value_nested:
  assumes "CHR ''{'' \<notin> set s" "CHR ''}'' \<notin> set s" "backslash \<notin> set s" "even (count_list s quote)"
  shows "field_value (CHR '':'') (CHR ''{'' # s @ CHR ''}'' # t) = \<lparr>fd_value = CHR ''{'' # s @ ''}'', fd_present = True, fd_string = False\<rparr>"
  using scan_nested_brackets [OF assms, of "Some (CHR '':'')" t] by (simp add: field_value_def no_field_def)

lemma field_value_array:
  assumes "CHR ''['' \<notin> set s" "CHR '']'' \<notin> set s" "backslash \<notin> set s" "even (count_list s quote)"
  shows "field_value (CHR '':'') (CHR ''['' # s @ CHR '']'' # t) = \<lparr>fd_value = CHR ''['' # s @ '']'', fd_present = True, fd_string = False\<rparr>"
  using scan_nested_brackets [OF assms, of "Some (CHR '':'')" t] by (simp add: field_value_def no_field_def)

section \<open>Arrays of numbers\<close>

text \<open>What the round trip relies on for the printed numbers.\<close>

definition float_text :: "(fp \<Rightarrow> string) \<Rightarrow> (string \<Rightarrow> fp \<times> nat) \<Rightarrow> fp \<Rightarrow> bool" where
  "float_text format_g9 strtof x \<longleftrightarrow> format_g9 x \<noteq> [] \<and> length (format_g9 x) < 64 \<and>
     (\<forall>c \<in> set (format_g9 x). is_digit c \<or> c \<in> set ''+-.e'') \<and> strtof (format_g9 x) = (x, length (format_g9 x))"

fun join_comma :: "string list \<Rightarrow> string" where
  "join_comma [] = []"
| "join_comma [s] = s"
| "join_comma (s # ss) = s @ '','' @ join_comma ss"

lemma join_comma_snoc: "join_comma (ss @ [s]) = (if ss = [] then s else join_comma ss @ '','' @ s)"
  by (induction ss rule: join_comma.induct) auto

lemma append_floats_join:
  assumes "\<forall>x \<in> set xs. float_text f strtof x"
  shows "append_floats f out xs = out @ join_comma (map f xs)"
  using assms
proof (induction xs rule: rev_induct)
  case Nil
  then show ?case by (simp add: append_floats_def)
next
  case (snoc x xs)
  have "fold (\<lambda>i output. append_float f (if i \<noteq> 0 then output @ '','' else output) ((xs @ [x]) ! i)) [0 ..< length xs] out = append_floats f out xs"
    unfolding append_floats_def by (rule fold_cong) (simp_all add: nth_append)
  then show ?case
    using snoc by (simp add: append_floats_def [of f out "xs @ [x]"] append_float_def float_text_def join_comma_snoc Let_def)
qed

lemma float_char:
  assumes "is_digit c \<or> c \<in> set ''+-.e''"
  shows "c \<noteq> quote" "c \<noteq> CHR '',''" "c \<noteq> CHR ''}''" "c \<noteq> CHR ''{''" "c \<noteq> CHR ''[''" "c \<noteq> CHR '']''" "\<not> json_space c" "c \<noteq> backslash"
proof -
  consider "is_digit c" | "c = CHR ''+''" | "c = CHR ''-''" | "c = CHR ''.''" | "c = CHR ''e''" using assms by auto
  then have "c \<noteq> quote \<and> c \<noteq> CHR '','' \<and> c \<noteq> CHR ''}'' \<and> c \<noteq> CHR ''{'' \<and> c \<noteq> CHR ''['' \<and> c \<noteq> CHR '']'' \<and> \<not> json_space c \<and> c \<noteq> backslash"
    by cases (simp add: digit_not_special, simp_all add: json_space_def)
  then show "c \<noteq> quote" "c \<noteq> CHR '',''" "c \<noteq> CHR ''}''" "c \<noteq> CHR ''{''" "c \<noteq> CHR ''[''" "c \<noteq> CHR '']''" "\<not> json_space c" "c \<noteq> backslash"
    by blast+
qed

lemma float_text_ends:
  assumes "float_text f strtof x"
  shows "trim (f x) = f x" "CHR '','' \<notin> set (f x)" "f x \<noteq> []" "\<not> json_space (hd (f x))" "\<not> json_space (last (f x))"
    "parse_float strtof (f x) = (if isfinite x then Some x else None)"
proof -
  have c: "\<forall>c \<in> set (f x). \<not> json_space c" and ne: "f x \<noteq> []" using assms float_char(7) by (auto simp: float_text_def)
  then show t: "trim (f x) = f x" and "\<not> json_space (hd (f x))" "\<not> json_space (last (f x))" "f x \<noteq> []" by (simp_all add: trim_id)
  show "CHR '','' \<notin> set (f x)" using assms float_char(2) by (auto simp: float_text_def)
  show "parse_float strtof (f x) = (if isfinite x then Some x else None)"
    using assms ne by (simp add: parse_float_def t float_text_def)
qed

lemma join_comma_ends:
  assumes "\<forall>x \<in> set xs. float_text f strtof x" "xs \<noteq> []"
  shows "join_comma (map f xs) \<noteq> []" "\<not> json_space (hd (join_comma (map f xs)))" "\<not> json_space (last (join_comma (map f xs)))"
proof -
  show "join_comma (map f xs) \<noteq> []" "\<not> json_space (hd (join_comma (map f xs)))"
    using assms float_text_ends(3,4) by (cases xs; cases "tl xs"; auto simp: hd_append)+
  obtain ys y where y: "xs = ys @ [y]" using assms(2) by (metis rev_exhaust)
  then show "\<not> json_space (last (join_comma (map f xs)))"
    using assms float_text_ends(3,5) [of f strtof y] by (simp add: join_comma_snoc)
qed

lemma float_items_join:
  assumes "\<forall>x \<in> set xs. float_text f strtof x \<and> isfinite x"
  shows "float_items strtof (join_comma (map f xs)) = Some xs"
  using assms
proof (induction xs)
  case Nil
  then show ?case by (simp add: float_items.simps)
next
  case (Cons x xs)
  note e = float_text_ends [of f strtof x]
  show ?case
  proof (cases xs)
    case Nil
    have "find_sub '','' (f x) = None" using e(2) Cons.prems find_sub_skip [of "CHR '',''" "f x" "[]" "[]"] by simp
    then show ?thesis using Cons.prems e Nil by (subst float_items.simps) simp
  next
    case (Cons y ys)
    let ?r = "join_comma (map f xs)"
    have j: "join_comma (map f (x # xs)) = f x @ CHR '','' # ?r" using Cons by simp
    have "find_sub '','' (f x @ CHR '','' # ?r) = Some (length (f x))"
      using e(2) Cons.prems find_sub_skip [of "CHR '',''" "f x" "[]" "CHR '','' # ?r"] by simp
    moreover have "trim ?r = ?r" "?r \<noteq> []" using join_comma_ends [of xs f strtof] Cons.prems Cons by (auto simp: trim_id)
    ultimately show ?thesis unfolding j using Cons.IH Cons.prems e by (subst float_items.simps) simp
  qed
qed

lemma parse_float_array_join:
  assumes "\<forall>x \<in> set xs. float_text f strtof x \<and> isfinite x"
  shows "parse_float_array strtof (CHR ''['' # join_comma (map f xs) @ '']'') = Some xs"
proof -
  let ?j = "join_comma (map f xs)"
  have t: "trim (CHR ''['' # ?j @ '']'') = CHR ''['' # ?j @ '']''" by (rule trim_id) (simp add: json_space_def)
  have "trim ?j = ?j" using join_comma_ends [of xs f strtof] assms by (cases "xs = []") (auto simp: trim_id)
  then show ?thesis using float_items_join [OF assms] by (simp add: parse_float_array_def t)
qed

lemma join_comma_chars:
  assumes "\<forall>x \<in> set xs. float_text f strtof x"
  shows "\<forall>c \<in> set (join_comma (map f xs)). is_digit c \<or> c \<in> set ''+-.e,''"
  using assms
proof (induction xs)
  case (Cons x xs)
  then show ?case by (cases xs) (auto simp: float_text_def)
qed simp

section \<open>The written text\<close>

text \<open>The piece behind the opening of the normalization parameters, and the keys with the pieces of their values.\<close>

definition parameter_pieces :: "(fp \<Rightarrow> string) \<Rightarrow> DeploymentProfile \<Rightarrow> string list" where
  "parameter_pieces f p =
     (if dp_normalization_type p = Norm_kMinMax
      then ['':{'', ''min'', '':['' @ join_comma (map f (dp_normalization_min p)) @ ''],'', ''max'',
            '':['' @ join_comma (map f (dp_normalization_max p)) @ '']},'']
      else ['':{},''])"

definition profile_pieces :: "(fp \<Rightarrow> string) \<Rightarrow> DeploymentProfile \<Rightarrow> (string \<times> string list) list" where
  "profile_pieces f p =
     [(''profile_version'', ['':'' @ to_chars (unat (dp_profile_version p)) @ '','']),
      (''model_compatibility_version'', ['':'' @ to_chars (unat (dp_model_compatibility_version p)) @ '','']),
      (''observation_schema_hash'', ['':'', observation_schema_hash_view p, '','']),
      (''action_dim'', ['':'' @ to_chars (dp_action_dim p) @ '','']),
      (''action_horizon'', ['':'' @ to_chars (dp_action_horizon p) @ '','']),
      (''action_units'', ['':'', action_units_name (dp_action_units p), '','']),
      (''normalization_type'', ['':'', normalization_name (dp_normalization_type p), '','']),
      (''normalization_parameters'', parameter_pieces f p),
      (''solver_default'', ['':'', solver_name (dp_solver_default p), '','']),
      (''solver_min_steps'', ['':'' @ to_chars (dp_solver_min_steps p) @ '','']),
      (''solver_max_steps'', ['':'' @ to_chars (dp_solver_max_steps p) @ ''}''])]"

definition floats_ok :: "(fp \<Rightarrow> string) \<Rightarrow> (string \<Rightarrow> fp \<times> nat) \<Rightarrow> DeploymentProfile \<Rightarrow> bool" where
  "floats_ok f strtof p \<longleftrightarrow> (\<forall>x \<in> set (dp_normalization_min p) \<union> set (dp_normalization_max p). float_text f strtof x)"

lemma json_fields_pieces:
  assumes "floats_ok f strtof p"
  shows "json_fields f p = ''{'' @ quoted (pieces (profile_pieces f p))"
proof -
  have f: "append_floats f out (dp_normalization_min p) = out @ join_comma (map f (dp_normalization_min p))"
    "append_floats f out (dp_normalization_max p) = out @ join_comma (map f (dp_normalization_max p))" for out
    using assms append_floats_join [of _ f strtof] by (simp_all add: floats_ok_def)
  show ?thesis
    by (simp add: json_fields_def f append_uint_def profile_pieces_def parameter_pieces_def pieces_def)
qed

lemma name_pieces:
  "quote \<notin> set (action_units_name u) \<and> action_units_name u \<notin> set profile_keys"
  "quote \<notin> set (normalization_name n) \<and> normalization_name n \<notin> set profile_keys"
  "quote \<notin> set (solver_name s) \<and> solver_name s \<notin> set profile_keys"
proof -
  show "quote \<notin> set (action_units_name u) \<and> action_units_name u \<notin> set profile_keys"
    by (cases u) (simp_all add: action_units_name_def profile_keys_def)
  show "quote \<notin> set (normalization_name n) \<and> normalization_name n \<notin> set profile_keys"
    by (cases n) (simp_all add: normalization_name_def profile_keys_def)
  show "quote \<notin> set (solver_name s) \<and> solver_name s \<notin> set profile_keys"
    by (cases s) (simp_all add: solver_name_def profile_keys_def)
qed

lemma hash_pieces:
  assumes "valid_hash h"
  shows "quote \<notin> set h" "h \<notin> set profile_keys"
proof -
  have h: "take 7 h = ''sha256:''" "\<forall>c \<in> set (drop 7 h). hex_digit c" "length h = 71"
    using assms unfolding valid_hash_def list_all_iff by blast+
  have "\<not> hex_digit quote" by (simp add: hex_digit_def is_digit_def)
  moreover have "set h = set (take 7 h) \<union> set (drop 7 h)" by (metis append_take_drop_id set_append)
  ultimately show "quote \<notin> set h" using h(1,2) by auto
  show "h \<notin> set profile_keys" using h(3) by (auto simp: profile_keys_def)
qed

lemma digits_no_quote: "quote \<notin> set (to_chars n)"
  using to_chars_digits [of n] digit_not_special(1) by blast

lemma join_no_special:
  assumes "\<forall>x \<in> set xs. float_text f strtof x"
  shows "quote \<notin> set (join_comma (map f xs))" "CHR ''['' \<notin> set (join_comma (map f xs))" "CHR '']'' \<notin> set (join_comma (map f xs))"
    "CHR ''{'' \<notin> set (join_comma (map f xs))" "CHR ''}'' \<notin> set (join_comma (map f xs))" "backslash \<notin> set (join_comma (map f xs))"
proof -
  have "c \<noteq> quote \<and> c \<noteq> CHR ''['' \<and> c \<noteq> CHR '']'' \<and> c \<noteq> CHR ''{'' \<and> c \<noteq> CHR ''}'' \<and> c \<noteq> backslash"
    if c: "c \<in> set (join_comma (map f xs))" for c
  proof -
    consider "is_digit c \<or> c \<in> set ''+-.e''" | "c = CHR '',''" using bspec [OF join_comma_chars [OF assms] c] by auto
    then show ?thesis by cases (simp_all add: float_char)
  qed
  then show "quote \<notin> set (join_comma (map f xs))" "CHR ''['' \<notin> set (join_comma (map f xs))" "CHR '']'' \<notin> set (join_comma (map f xs))"
    "CHR ''{'' \<notin> set (join_comma (map f xs))" "CHR ''}'' \<notin> set (join_comma (map f xs))" "backslash \<notin> set (join_comma (map f xs))"
    by blast+
qed

lemma profile_pieces_keys: "map fst (profile_pieces f p) = profile_keys" "distinct profile_keys"
  by (simp_all add: profile_pieces_def profile_keys_def)

lemma profile_pieces_ok:
  assumes "floats_ok f strtof p" "valid_hash (observation_schema_hash_view p)"
  shows "\<forall>(k, vs) \<in> set (profile_pieces f p). quote \<notin> set k \<and> (\<forall>s \<in> set vs. quote \<notin> set s \<and> s \<notin> fst ` set (profile_pieces f p))"
proof -
  have k: "fst ` set (profile_pieces f p) = set profile_keys" using profile_pieces_keys(1) by (metis set_map)
  have sep: "CHR '':'' # s \<notin> set profile_keys" "CHR '','' # s \<notin> set profile_keys" "''min'' \<notin> set profile_keys" "''max'' \<notin> set profile_keys" for s
    by (simp_all add: profile_keys_def)
  have "\<forall>s \<in> set (parameter_pieces f p). quote \<notin> set s \<and> s \<notin> set profile_keys"
    using assms(1) sep join_no_special(1) [of _ f strtof] by (simp add: parameter_pieces_def floats_ok_def)
  then show ?thesis
    unfolding k using sep hash_pieces [OF assms(2)] name_pieces digits_no_quote by (simp add: profile_pieces_def)
qed

text \<open>Looking the fields of a written profile up.\<close>

lemma written_field:
  assumes "floats_ok f strtof p" "valid_hash (observation_schema_hash_view p)"
    and "(key, ('':'' @ v) # vs) \<in> set (profile_pieces f p)" "v @ quoted vs \<noteq> []" "\<not> json_space (hd (v @ quoted vs))"
  shows "\<exists>t. field (json_fields f p) key = field_value (CHR '':'') (v @ quoted vs @ t)"
proof -
  have "distinct (map fst (profile_pieces f p))" by (simp add: profile_pieces_keys)
  from field_pieces [OF this profile_pieces_ok [OF assms(1,2)] assms(3) _ assms(4,5), of "''{''"]
  show ?thesis by (simp add: json_fields_pieces [OF assms(1)])
qed

lemma written_number:
  assumes "floats_ok f strtof p" "valid_hash (observation_schema_hash_view p)"
    and "(key, ['':'' @ to_chars n @ [d]]) \<in> set (profile_pieces f p)" "d = CHR '','' \<or> d = CHR ''}''"
  shows "field (json_fields f p) key = \<lparr>fd_value = to_chars n, fd_present = True, fd_string = False\<rparr>"
proof -
  obtain c cs where c: "to_chars n = c # cs" "is_digit c" using to_chars_first by blast
  obtain t where "field (json_fields f p) key = field_value (CHR '':'') ((to_chars n @ [d]) @ quoted [] @ t)"
    using written_field [OF assms(1,2), of key "to_chars n @ [d]" "[]"] assms(3) c digit_not_special(7) by auto
  then show ?thesis using field_value_number [OF assms(4)] by simp
qed

lemma written_string:
  assumes "floats_ok f strtof p" "valid_hash (observation_schema_hash_view p)"
    and "(key, ['':'', s, '','']) \<in> set (profile_pieces f p)"
  shows "field (json_fields f p) key = \<lparr>fd_value = s, fd_present = True, fd_string = True\<rparr>"
proof -
  have "quote \<notin> set s" using profile_pieces_ok [OF assms(1,2)] assms(3) by auto
  moreover obtain t where "field (json_fields f p) key = field_value (CHR '':'') (quote # s @ quote # '','' @ t)"
    using written_field [OF assms(1,2), of key "[]" "[s, '','']"] assms(3) by (auto simp: json_space_def)
  ultimately show ?thesis using field_value_string by simp
qed

definition parameter_text :: "(fp \<Rightarrow> string) \<Rightarrow> DeploymentProfile \<Rightarrow> string" where
  "parameter_text f p =
     (if dp_normalization_type p = Norm_kMinMax
      then ''{'' @ quoted [''min'', '':['' @ join_comma (map f (dp_normalization_min p)) @ ''],'', ''max'',
             '':['' @ join_comma (map f (dp_normalization_max p)) @ '']}'']
      else ''{}'')"

lemma count_list_notin: "x \<notin> set xs \<Longrightarrow> count_list xs x = 0"
  by (induction xs) auto

lemma written_parameters:
  assumes fl: "floats_ok f strtof p" and h: "valid_hash (observation_schema_hash_view p)"
  shows "field (json_fields f p) ''normalization_parameters'' = \<lparr>fd_value = parameter_text f p, fd_present = True, fd_string = False\<rparr>"
proof (cases "dp_normalization_type p = Norm_kMinMax")
  case True
  let ?lo = "join_comma (map f (dp_normalization_min p))" and ?hi = "join_comma (map f (dp_normalization_max p))"
  let ?vs = "[''min'', '':['' @ ?lo @ ''],'', ''max'', '':['' @ ?hi @ '']},'']"
  let ?inner = "quoted [''min'', '':['' @ ?lo @ ''],'', ''max'', '':['' @ ?hi @ '']'']"
  have lo: "\<forall>x \<in> set (dp_normalization_min p). float_text f strtof x" and hi: "\<forall>x \<in> set (dp_normalization_max p). float_text f strtof x"
    using fl by (auto simp: floats_ok_def)
  have m: "(''normalization_parameters'', ('':'' @ ''{'') # ?vs) \<in> set (profile_pieces f p)"
    using True by (simp add: profile_pieces_def parameter_pieces_def)
  obtain t where t: "field (json_fields f p) ''normalization_parameters'' = field_value (CHR '':'') (''{'' @ quoted ?vs @ t)"
    using written_field [OF fl h m] by (auto simp: json_space_def)
  have q: "''{'' @ quoted ?vs @ t = CHR ''{'' # ?inner @ CHR ''}'' # '','' @ t" by simp
  have "CHR ''{'' \<notin> set ?inner" "CHR ''}'' \<notin> set ?inner" "backslash \<notin> set ?inner" "even (count_list ?inner quote)"
    using join_no_special [OF lo] join_no_special [OF hi] by (simp_all add: count_list_notin)
  from field_value_nested [OF this, of "'','' @ t"] show ?thesis unfolding t q using True by (simp add: parameter_text_def)
next
  case False
  then have m: "(''normalization_parameters'', ('':'' @ ''{},'') # []) \<in> set (profile_pieces f p)"
    by (simp add: profile_pieces_def parameter_pieces_def)
  obtain t where t: "field (json_fields f p) ''normalization_parameters'' = field_value (CHR '':'') (''{},'' @ quoted [] @ t)"
    using written_field [OF fl h m] by (auto simp: json_space_def)
  then show ?thesis using field_value_nested [of "[]" "'','' @ t"] False by (simp add: parameter_text_def)
qed

lemma written_bounds:
  assumes fl: "floats_ok f strtof p" and fin: "\<forall>x \<in> set (dp_normalization_min p) \<union> set (dp_normalization_max p). isfinite x"
    and none: "dp_normalization_type p = Norm_kNone \<Longrightarrow> dp_normalization_min p = [] \<and> dp_normalization_max p = []"
  shows "read_bounds strtof (dp_normalization_type p) (parameter_text f p) = Some (dp_normalization_min p, dp_normalization_max p)"
proof (cases "dp_normalization_type p")
  case Norm_kNone
  have "field ''{}'' ''min'' = no_field" "field ''{}'' ''max'' = no_field" by (simp_all add: field_def sv_find_def)
  then show ?thesis using Norm_kNone none by (simp add: read_bounds_def parameter_text_def no_field_def)
next
  case Norm_kMinMax
  let ?lo = "join_comma (map f (dp_normalization_min p))" and ?hi = "join_comma (map f (dp_normalization_max p))"
  have lo: "\<forall>x \<in> set (dp_normalization_min p). float_text f strtof x" and hi: "\<forall>x \<in> set (dp_normalization_max p). float_text f strtof x"
    using fl by (auto simp: floats_ok_def)
  note n = join_no_special [OF lo] join_no_special [OF hi]
  have pt: "parameter_text f p = ''{'' @ quoted ([] @ ''min'' # ('':'' @ ''['' @ ?lo @ ''],'') # [''max'', '':['' @ ?hi @ '']}''])"
    "parameter_text f p = ''{'' @ quoted ([''min'', '':['' @ ?lo @ ''],''] @ ''max'' # ('':'' @ ''['' @ ?hi @ '']}'') # [])"
    using Norm_kMinMax by (simp_all add: parameter_text_def)
  have f1: "field (parameter_text f p) ''min'' = field_value (CHR '':'') (CHR ''['' # ?lo @ CHR '']'' # '','' @ quoted [''max'', '':['' @ ?hi @ '']}''])"
    unfolding pt(1) by (subst field_quoted) (simp_all add: json_space_def)
  have f2: "field (parameter_text f p) ''max'' = field_value (CHR '':'') (CHR ''['' # ?hi @ CHR '']'' # ''}'')"
    unfolding pt(2) by (subst field_quoted) (use n in \<open>simp_all add: json_space_def\<close>)
  have "parse_float_array strtof (CHR ''['' # ?lo @ '']'') = Some (dp_normalization_min p)"
    "parse_float_array strtof (CHR ''['' # ?hi @ '']'') = Some (dp_normalization_max p)"
    using parse_float_array_join lo hi fin by blast+
  then show ?thesis
    using Norm_kMinMax n field_value_array unfolding read_bounds_def f1 f2 by (simp add: count_list_notin)
qed

section \<open>Properties\<close>

lemma validate_okD:
  assumes "validate_deployment_profile p = Inr u"
  shows "dp_profile_version p = kProfileVersion" "dp_model_compatibility_version p = kCompatibilityVersion"
    "valid_hash (observation_schema_hash_view p)" "0 < dp_action_dim p" "dp_action_dim p \<le> kMaxProfileActionDim"
    "0 < dp_action_horizon p" "dp_action_horizon p \<le> kMaxActionHorizon"
    "dp_normalization_type p = Norm_kNone \<Longrightarrow> dp_normalization_min p = [] \<and> dp_normalization_max p = []"
    "dp_normalization_type p = Norm_kMinMax \<Longrightarrow> length (dp_normalization_min p) = dp_action_dim p \<and>
       length (dp_normalization_max p) = dp_action_dim p \<and> (\<forall>i < dp_action_dim p. bounds_ok p i)"
    "0 < dp_solver_min_steps p" "dp_solver_min_steps p \<le> dp_solver_max_steps p" "dp_solver_max_steps p \<le> kMaxSolverSteps"
  using assms unfolding validate_deployment_profile_def by (auto simp: list_all_iff split: if_splits)

lemma validate_finite:
  assumes "validate_deployment_profile p = Inr u"
  shows "\<forall>x \<in> set (dp_normalization_min p) \<union> set (dp_normalization_max p). isfinite x"
  using validate_okD(8,9) [OF assms] by (cases "dp_normalization_type p") (auto simp: in_set_conv_nth bounds_ok_def)

lemma terminated_hash:
  assumes "length (dp_observation_schema_hash p) = kObservationSchemaHashBytes" "CHR 0x00 \<in> set (dp_observation_schema_hash p)"
    "valid_hash (observation_schema_hash_view p)"
  shows "dp_observation_schema_hash p = observation_schema_hash_view p @ [CHR 0x00]"
proof -
  let ?h = "dp_observation_schema_hash p" and ?ne = "\<lambda>c. c \<noteq> CHR 0x00"
  have ne: "dropWhile ?ne ?h \<noteq> []" using assms(2) by auto
  have "length ?h = length (takeWhile ?ne ?h) + length (dropWhile ?ne ?h)" by (metis length_append takeWhile_dropWhile_id)
  then have "length (dropWhile ?ne ?h) = 1"
    using assms(1,3) by (simp add: valid_hash_def observation_schema_hash_view_def kObservationSchemaHashBytes_def)
  then obtain c where c: "dropWhile ?ne ?h = [c]" by (auto simp: length_Suc_conv)
  moreover have "c = CHR 0x00" using hd_dropWhile [OF ne] c by simp
  ultimately show ?thesis using takeWhile_dropWhile_id [of ?ne ?h] by (simp add: observation_schema_hash_view_def)
qed

lemma read_names:
  "read_units \<lparr>fd_value = action_units_name u, fd_present = True, fd_string = True\<rparr> = Some u"
  "read_normalization \<lparr>fd_value = normalization_name n, fd_present = True, fd_string = True\<rparr> = Some n"
  "read_solver \<lparr>fd_value = solver_name s, fd_present = True, fd_string = True\<rparr> = Some s"
proof -
  show "read_units \<lparr>fd_value = action_units_name u, fd_present = True, fd_string = True\<rparr> = Some u"
    by (cases u) (simp_all add: read_units_def action_units_name_def)
  show "read_normalization \<lparr>fd_value = normalization_name n, fd_present = True, fd_string = True\<rparr> = Some n"
    by (cases n) (simp_all add: read_normalization_def normalization_name_def)
  show "read_solver \<lparr>fd_value = solver_name s, fd_present = True, fd_string = True\<rparr> = Some s"
    by (cases s) (simp_all add: read_solver_def solver_name_def)
qed

lemma read_u32_chars: "read_profile_u32 \<lparr>fd_value = to_chars (unat (w :: u32)), fd_present = b, fd_string = c\<rparr> = Some w"
proof -
  have "unat w \<le> 4294967295" using unsigned_less [of w, where ?'a = nat] by simp
  then show ?thesis by (simp add: read_profile_u32_def parse_uint_to_chars)
qed

lemma written_text_ends:
  assumes "floats_ok f strtof p"
  shows "trim (json_fields f p) = json_fields f p" "length (json_fields f p) \<ge> 2" "hd (json_fields f p) = CHR ''{''"
    "last (json_fields f p) = CHR ''}''"
proof -
  obtain a where a: "json_fields f p = CHR ''{'' # a" using json_fields_pieces [OF assms] by simp
  obtain b where b: "json_fields f p = b @ ''}''" unfolding json_fields_def Let_def by blast
  note t = a b
  show h: "hd (json_fields f p) = CHR ''{''" using t(1) by simp
  show l: "last (json_fields f p) = CHR ''}''" using t(2) by simp
  show "trim (json_fields f p) = json_fields f p" by (rule trim_id) (simp add: h l json_space_def)
  show "length (json_fields f p) \<ge> 2" using t by (cases a; cases b) auto
qed

lemma written_profile_read:
  assumes run: "serialize_deployment_profile f p = Inr s"
    and hash: "length (dp_observation_schema_hash p) = kObservationSchemaHashBytes" "CHR 0x00 \<in> set (dp_observation_schema_hash p)"
    and fl: "floats_ok f strtof p"
  shows "parse_deployment_profile strtof s = Inr p"
proof -
  obtain u where v: "validate_deployment_profile p = Inr u" and s: "s = json_fields f p"
    using run by (auto simp: serialize_deployment_profile_def and_then_def split: sum.splits)
  note d = validate_okD [OF v]
  have le: "dp_action_dim p \<le> SIZE_MAX" "dp_action_horizon p \<le> SIZE_MAX" "dp_solver_min_steps p \<le> SIZE_MAX" "dp_solver_max_steps p \<le> SIZE_MAX"
    using d(5,7,11,12) by (simp_all add: kMaxProfileActionDim_def kMaxActionHorizon_def kMaxSolverSteps_def)
  note num = written_number [OF fl d(3)] and str = written_string [OF fl d(3)]
  have fields: "field s ''profile_version'' = \<lparr>fd_value = to_chars (unat (dp_profile_version p)), fd_present = True, fd_string = False\<rparr>"
    "field s ''model_compatibility_version'' = \<lparr>fd_value = to_chars (unat (dp_model_compatibility_version p)), fd_present = True, fd_string = False\<rparr>"
    "field s ''observation_schema_hash'' = \<lparr>fd_value = observation_schema_hash_view p, fd_present = True, fd_string = True\<rparr>"
    "field s ''action_dim'' = \<lparr>fd_value = to_chars (dp_action_dim p), fd_present = True, fd_string = False\<rparr>"
    "field s ''action_horizon'' = \<lparr>fd_value = to_chars (dp_action_horizon p), fd_present = True, fd_string = False\<rparr>"
    "field s ''action_units'' = \<lparr>fd_value = action_units_name (dp_action_units p), fd_present = True, fd_string = True\<rparr>"
    "field s ''normalization_type'' = \<lparr>fd_value = normalization_name (dp_normalization_type p), fd_present = True, fd_string = True\<rparr>"
    "field s ''normalization_parameters'' = \<lparr>fd_value = parameter_text f p, fd_present = True, fd_string = False\<rparr>"
    "field s ''solver_default'' = \<lparr>fd_value = solver_name (dp_solver_default p), fd_present = True, fd_string = True\<rparr>"
    "field s ''solver_min_steps'' = \<lparr>fd_value = to_chars (dp_solver_min_steps p), fd_present = True, fd_string = False\<rparr>"
    "field s ''solver_max_steps'' = \<lparr>fd_value = to_chars (dp_solver_max_steps p), fd_present = True, fd_string = False\<rparr>"
    unfolding s
    by (rule num [where d = "CHR '',''"], simp add: profile_pieces_def, simp)
      (rule num [where d = "CHR '',''"], simp add: profile_pieces_def, simp, rule str, simp add: profile_pieces_def,
       rule num [where d = "CHR '',''"], simp add: profile_pieces_def, simp, rule num [where d = "CHR '',''"], simp add: profile_pieces_def, simp,
       rule str, simp add: profile_pieces_def, rule str, simp add: profile_pieces_def, rule written_parameters [OF fl d(3)],
       rule str, simp add: profile_pieces_def, rule num [where d = "CHR '',''"], simp add: profile_pieces_def, simp,
       rule num [where d = "CHR ''}''"], simp add: profile_pieces_def, simp)
  have rb: "read_bounds strtof (dp_normalization_type p) (parameter_text f p) = Some (dp_normalization_min p, dp_normalization_max p)"
    by (rule written_bounds [OF fl validate_finite [OF v] d(8)])
  have pt: "parameter_text f p \<noteq> []" by (simp add: parameter_text_def)
  have eta: "\<lparr>dp_profile_version = kProfileVersion, dp_model_compatibility_version = kCompatibilityVersion,
      dp_observation_schema_hash = dp_observation_schema_hash p, dp_action_dim = dp_action_dim p,
      dp_action_horizon = dp_action_horizon p, dp_action_units = dp_action_units p,
      dp_normalization_type = dp_normalization_type p, dp_normalization_min = dp_normalization_min p,
      dp_normalization_max = dp_normalization_max p, dp_solver_default = dp_solver_default p,
      dp_solver_min_steps = dp_solver_min_steps p, dp_solver_max_steps = dp_solver_max_steps p\<rparr> = p"
    using d(1,2) by (cases p) simp
  show ?thesis
    using written_text_ends [OF fl] v d(1,2) le rb pt
    by (simp add: eta parse_deployment_profile_def s [symmetric] profile_keys_def fields require_def and_then_def read_u32_chars read_names
        read_hash_def d(3) terminated_hash [OF hash d(3), symmetric] parse_uint_to_chars)
qed

text \<open>
  C22: A profile survives its own text. What \<open>serialize_deployment_profile\<close> writes for a profile with
  a NUL-terminated hash, \<open>parse_deployment_profile\<close> reads back as exactly that profile, provided the
  C library reads each of its numbers back from the nine digits it printed.
\<close>

theorem profile_roundtrip:
  assumes "serialize_deployment_profile f p = Inr s"
    and "length (dp_observation_schema_hash p) = kObservationSchemaHashBytes" and "CHR 0x00 \<in> set (dp_observation_schema_hash p)"
    and "floats_ok f strtof p"
  shows "parse_deployment_profile strtof s = Inr p"
  by (rule written_profile_read [OF assms])

definition demo_profile :: DeploymentProfile where
  "demo_profile = default_profile\<lparr>dp_observation_schema_hash := ''sha256:'' @ replicate 64 (CHR ''a'') @ [CHR 0x00],
     dp_action_dim := 2, dp_action_horizon := 16, dp_action_units := Units_kPhysical, dp_normalization_type := Norm_kMinMax,
     dp_normalization_min := [Fin 0, Fin 0], dp_normalization_max := [Fin 1, Fin 1], dp_solver_default := Solver_kRK4,
     dp_solver_min_steps := 1, dp_solver_max_steps := 10\<rparr>"

definition demo_format :: "fp \<Rightarrow> string" where
  "demo_format x = (if x = Fin 0 then ''0'' else ''1'')"

definition demo_strtof :: "string \<Rightarrow> fp \<times> nat" where
  "demo_strtof s = (if s = ''0'' then Fin 0 else Fin 1, length s)"

lemma demo_profile_sel:
  "dp_profile_version demo_profile = kProfileVersion" "dp_model_compatibility_version demo_profile = kCompatibilityVersion"
  "dp_observation_schema_hash demo_profile = ''sha256:'' @ replicate 64 (CHR ''a'') @ [CHR 0x00]" "dp_action_dim demo_profile = 2"
  "dp_action_horizon demo_profile = 16" "dp_action_units demo_profile = Units_kPhysical" "dp_normalization_type demo_profile = Norm_kMinMax"
  "dp_normalization_min demo_profile = [Fin 0, Fin 0]" "dp_normalization_max demo_profile = [Fin 1, Fin 1]"
  "dp_solver_default demo_profile = Solver_kRK4" "dp_solver_min_steps demo_profile = 1" "dp_solver_max_steps demo_profile = 10"
  by (simp_all add: demo_profile_def default_profile_def)

lemma demo_profile_ok: "validate_deployment_profile demo_profile = Inr ()" "floats_ok demo_format demo_strtof demo_profile"
  "length (dp_observation_schema_hash demo_profile) = kObservationSchemaHashBytes" "CHR 0x00 \<in> set (dp_observation_schema_hash demo_profile)"
proof -
  have "observation_schema_hash_view demo_profile = ''sha256:'' @ replicate 64 (CHR ''a'')"
    by (simp add: observation_schema_hash_view_def demo_profile_sel takeWhile_append)
  moreover have "valid_hash (''sha256:'' @ replicate 64 (CHR ''a''))" by (simp add: valid_hash_def hex_digit_def is_digit_def list_all_iff)
  ultimately show "validate_deployment_profile demo_profile = Inr ()"
    by (simp add: validate_deployment_profile_def demo_profile_sel kMaxProfileActionDim_def kMaxActionHorizon_def kMaxSolverSteps_def
        bounds_ok_def solver_name_def upt_rec numeral_2_eq_2)
  show "floats_ok demo_format demo_strtof demo_profile"
    by (simp add: floats_ok_def demo_profile_sel float_text_def demo_format_def demo_strtof_def is_digit_def)
  show "length (dp_observation_schema_hash demo_profile) = kObservationSchemaHashBytes" "CHR 0x00 \<in> set (dp_observation_schema_hash demo_profile)"
    by (simp_all add: demo_profile_sel kObservationSchemaHashBytes_def)
qed

lemma demo_written: "serialize_deployment_profile demo_format demo_profile = Inr (json_fields demo_format demo_profile)"
  by (simp add: serialize_deployment_profile_def and_then_def demo_profile_ok(1))

theorem profile_roundtrip_witness:
  "\<exists>s. serialize_deployment_profile demo_format demo_profile = Inr s \<and> parse_deployment_profile demo_strtof s = Inr demo_profile"
  using profile_roundtrip [OF demo_written demo_profile_ok(3,4,2)] demo_written by blast

lemma and_then_Inr: "and_then x g = Inr y \<longleftrightarrow> (\<exists>v. x = Inr v \<and> g v = Inr y)"
  by (cases x) (simp_all add: and_then_def)

text \<open>
  C23: Whatever text is read, a profile that the reader returns is well formed: supported versions, a
  NUL-terminated SHA-256 name, action dimension, horizon and solver steps within their limits, and
  normalization bounds that are absent or one finite pair per action dimension with the lower bound
  below the upper one.
\<close>

theorem profile_parse_wellformed:
  assumes "parse_deployment_profile strtof s = Inr p"
  shows "dp_profile_version p = kProfileVersion \<and> dp_model_compatibility_version p = kCompatibilityVersion \<and>
    length (dp_observation_schema_hash p) = kObservationSchemaHashBytes \<and> last (dp_observation_schema_hash p) = CHR 0x00 \<and>
    valid_hash (observation_schema_hash_view p) \<and> dp_action_dim p \<in> {1 .. kMaxProfileActionDim} \<and>
    dp_action_horizon p \<in> {1 .. kMaxActionHorizon} \<and> 1 \<le> dp_solver_min_steps p \<and>
    dp_solver_min_steps p \<le> dp_solver_max_steps p \<and> dp_solver_max_steps p \<le> kMaxSolverSteps \<and>
    (case dp_normalization_type p of
       Norm_kNone \<Rightarrow> dp_normalization_min p = [] \<and> dp_normalization_max p = []
     | Norm_kMinMax \<Rightarrow> length (dp_normalization_min p) = dp_action_dim p \<and> length (dp_normalization_max p) = dp_action_dim p \<and>
         (\<forall>i < dp_action_dim p. \<exists>lo hi. dp_normalization_min p ! i = Fin lo \<and> dp_normalization_max p ! i = Fin hi \<and> lo < hi))"
proof -
  obtain fh where fh: "read_hash (field (trim s) ''observation_schema_hash'') = Some (dp_observation_schema_hash p)"
    and v: "validate_deployment_profile p = Inr ()"
    using assms unfolding parse_deployment_profile_def Let_def
    by (auto simp: and_then_Inr require_def split: if_splits option.splits)
  note d = validate_okD [OF v]
  have "length (dp_observation_schema_hash p) = kObservationSchemaHashBytes \<and> last (dp_observation_schema_hash p) = CHR 0x00"
    using fh by (auto simp: read_hash_def valid_hash_def kObservationSchemaHashBytes_def simp del: append_Cons split: if_splits
        dest: arg_cong [of _ _ length] arg_cong [of _ _ last])
  moreover have "\<exists>lo hi. dp_normalization_min p ! i = Fin lo \<and> dp_normalization_max p ! i = Fin hi \<and> lo < hi" if "bounds_ok p i" for i
    using that by (auto simp: bounds_ok_def isfinite_conv)
  ultimately show ?thesis
    using d by (cases "dp_normalization_type p") (simp_all add: Suc_le_eq)
qed

theorem profile_parse_wellformed_witness:
  "\<exists>s p. parse_deployment_profile demo_strtof s = Inr p \<and> dp_action_dim p = 2 \<and> dp_solver_max_steps p \<le> kMaxSolverSteps"
proof -
  note s = written_profile_read [OF demo_written demo_profile_ok(3,4,2)]
  from profile_parse_wellformed [OF s] have "dp_solver_max_steps demo_profile \<le> kMaxSolverSteps" by blast
  with s demo_profile_sel(4) show ?thesis by blast
qed

end
