(* ===== verification/Safetensors.thy ===== *)
theory Safetensors
  imports Deployment_Profile Model_Identity Arena
begin

text \<open>
  core/loader/safetensors.\{h,cc\}: the reader of checkpoint files. The header is scanned with the
  source's own loops (it is not a general JSON parser); the passes over the tensors (sizing, loading,
  inspection, shape lookup) are callbacks that thread their state through \<open>foreach_tensor\<close>.

  The file system is a parameter: \<open>files path\<close> is what opening, measuring and mapping the file of
  that name gives, the mapped bytes or the call that failed. Memory is a map from addresses to bytes;
  an arena hands out addresses. Sizes are natural numbers; every product and sum that the source
  guards against overflow is guarded the same way here.
\<close>

section \<open>Definitions\<close>

subsection \<open>The mapped file\<close>

datatype MapOutcome = Map_OpenFailed | Map_StatFailed | Map_BadSize | Map_Failed | Mapped "byte list"

definition mapped_file_open :: "(string \<Rightarrow> MapOutcome) \<Rightarrow> string \<Rightarrow> string + byte list" where
  "mapped_file_open files p =
     (case files p of
        Map_OpenFailed \<Rightarrow> Inl ''Failed to open safetensors file''
      | Map_StatFailed \<Rightarrow> Inl ''Failed to stat safetensors file''
      | Map_BadSize \<Rightarrow> Inl ''Safetensors file size is invalid''
      | Map_Failed \<Rightarrow> Inl ''Failed to mmap safetensors file''
      | Mapped data \<Rightarrow> Inr data)"

definition as_chars :: "byte list \<Rightarrow> string" where
  "as_chars bs = map (\<lambda>b. char_of (unat b)) bs"

text \<open>The path is copied into a zeroed buffer, so a NUL in it ends it. The result is the file and the length of its header.\<close>

definition header_json :: "(string \<Rightarrow> MapOutcome) \<Rightarrow> string \<Rightarrow> string + (byte list \<times> nat)" where
  "header_json files path =
     (if length path \<ge> 512 then Inl ''Path too long''
      else case mapped_file_open files (takeWhile (\<lambda>c. c \<noteq> CHR 0x00) path) of
          Inl e \<Rightarrow> Inl e
        | Inr data \<Rightarrow>
            if length data < 8 then Inl ''File too small''
            else let header_len = unat (read_le data 0 :: u64)
              in if header_len > length data - 8 then Inl ''Invalid header length''
                 else Inr (data, header_len))"

definition mapped_json :: "byte list \<times> nat \<Rightarrow> string" where
  "mapped_json m = as_chars (take (snd m) (drop 8 (fst m)))"

definition mapped_data :: "byte list \<times> nat \<Rightarrow> byte list" where
  "mapped_data m = drop (8 + snd m) (fst m)"

subsection \<open>Numbers\<close>

definition after_colon :: "string \<Rightarrow> string \<Rightarrow> string" where
  "after_colon json key =
     (case find_sub key json of
        None \<Rightarrow> []
      | Some pos \<Rightarrow>
          (case sv_find json (pos + length key) '':'' of None \<Rightarrow> [] | Some colon \<Rightarrow> drop (colon + 1) json))"

fun digits_u64 :: "nat \<Rightarrow> string \<Rightarrow> (nat \<times> string) option" where
  "digits_u64 v [] = Some (v, [])"
| "digits_u64 v (c # cs) =
     (if \<not> is_digit c then Some (v, c # cs)
      else if v > (SIZE_MAX - digit_value c) div 10 then None
      else digits_u64 (v * 10 + digit_value c) cs)"

lemma digits_u64_shorter: "digits_u64 v s = Some (w, rest) \<Longrightarrow> length rest \<le> length s"
  by (induction v s rule: digits_u64.induct) (auto split: if_splits)

lemma digits_u64_consumes:
  assumes "dropWhile (\<lambda>c. \<not> is_digit c \<and> c \<noteq> CHR '']'') s = c # cs" "c \<noteq> CHR '']''" "digits_u64 0 (c # cs) = Some (w, rest)"
  shows "length rest < length s"
proof -
  have "is_digit c" using hd_dropWhile [of "\<lambda>c. \<not> is_digit c \<and> c \<noteq> CHR '']''" s] assms(1,2) by auto
  then have "length rest < length (c # cs)" using assms(3) digits_u64_shorter by (fastforce split: if_splits)
  also have "\<dots> \<le> length s" using length_dropWhile_le [of "\<lambda>c. \<not> is_digit c \<and> c \<noteq> CHR '']''" s] assms(1) by simp
  finally show ?thesis .
qed

text \<open>All numbers up to the closing bracket; \<open>None\<close> is \<open>nullopt\<close>.\<close>

function u64_items :: "string \<Rightarrow> nat list option" where
  "u64_items s =
     (case dropWhile (\<lambda>c. \<not> is_digit c \<and> c \<noteq> CHR '']'') s of
        [] \<Rightarrow> None
      | c # cs \<Rightarrow>
          if c = CHR '']'' then Some []
          else case digits_u64 0 (c # cs) of
              None \<Rightarrow> None
            | Some (v, rest) \<Rightarrow> map_option ((#) v) (u64_items rest))"
  by pat_completeness auto
termination
  by (relation "measure length") (use digits_u64_consumes in auto)

declare u64_items.simps [simp del]

text \<open>The count of all numbers, and the array \<open>out\<close> of \<open>n\<close> elements.\<close>

definition parse_u64s :: "string \<Rightarrow> nat \<Rightarrow> (nat \<times> nat list) option" where
  "parse_u64s s n = map_option (\<lambda>vs. (length vs, take n (vs @ replicate n 0))) (u64_items s)"

subsection \<open>Tensors of the header\<close>

record TensorEntry =
  te_name :: string
  te_offset :: nat
  te_length :: nat
  te_shape :: "nat list"
  te_ndim :: nat
  te_bf16 :: bool
  te_supported :: bool

text \<open>An object from its opening brace to the matching closing one, braces in strings included, as in the source.\<close>

fun take_object :: "nat \<Rightarrow> string \<Rightarrow> string \<Rightarrow> (string \<times> string) option" where
  "take_object 0 obj p = Some (obj, p)"
| "take_object (Suc depth) obj [] = None"
| "take_object (Suc depth) obj (c # cs) =
     take_object (if c = CHR ''{'' then Suc (Suc depth) else if c = CHR ''}'' then depth else Suc depth) (obj @ [c]) cs"

datatype ScanStep = Scan_End bool | Scan_Fail | Scan_Object string string string

definition next_object :: "string \<Rightarrow> ScanStep" where
  "next_object p0 =
     (case dropWhile (\<lambda>c. c \<noteq> quote \<and> c \<noteq> CHR ''}'') p0 of
        [] \<Rightarrow> Scan_End False
      | c # p1 \<Rightarrow>
          if c = CHR ''}'' then Scan_End True
          else
            (case dropWhile (\<lambda>c. c \<noteq> quote) p1 of
               [] \<Rightarrow> Scan_Fail
             | _ # p2 \<Rightarrow>
                 (case dropWhile (\<lambda>c. c \<noteq> CHR ''{'' \<and> c \<noteq> CHR ''}'') p2 of
                    [] \<Rightarrow> Scan_Fail
                  | b # p3 \<Rightarrow>
                      if b = CHR ''}'' then Scan_Fail
                      else case take_object 1 ''{'' p3 of
                          None \<Rightarrow> Scan_Fail
                        | Some (obj, rest) \<Rightarrow> Scan_Object (takeWhile (\<lambda>c. c \<noteq> quote) p1) obj rest)))"

definition object_entry :: "string \<Rightarrow> string \<Rightarrow> TensorEntry option" where
  "object_entry name obj =
     (let bf16 = (find_sub ''\"BF16\"'' obj \<noteq> None); f32 = (find_sub ''\"F32\"'' obj \<noteq> None)
      in if \<not> bf16 \<and> \<not> f32
         then Some \<lparr>te_name = name, te_offset = 0, te_length = 0, te_shape = [0, 0, 0, 0], te_ndim = 0, te_bf16 = False, te_supported = False\<rparr>
         else case parse_u64s (after_colon obj ''\"shape\"'') 4 of
             None \<Rightarrow> None
           | Some (shape_count, shape) \<Rightarrow>
               if shape_count > 4 then None
               else case parse_u64s (after_colon obj ''\"data_offsets\"'') 2 of
                   None \<Rightarrow> None
                 | Some (offset_count, offs) \<Rightarrow>
                     if offset_count \<noteq> 2 \<or> offs ! 1 < offs ! 0 then None
                     else Some \<lparr>te_name = name, te_offset = offs ! 0, te_length = offs ! 1 - offs ! 0, te_shape = shape,
                            te_ndim = shape_count, te_bf16 = bf16, te_supported = True\<rparr>)"

lemma take_object_shorter: "take_object d obj p = Some (o', rest) \<Longrightarrow> length rest \<le> length p"
  by (induction d obj p rule: take_object.induct) (auto split: if_splits)

lemma next_object_shorter:
  assumes "next_object p = Scan_Object name obj rest"
  shows "length rest < length p"
proof -
  obtain c p1 q p2 b p3 where d: "dropWhile (\<lambda>c. c \<noteq> quote \<and> c \<noteq> CHR ''}'') p = c # p1" "dropWhile (\<lambda>c. c \<noteq> quote) p1 = q # p2"
    "dropWhile (\<lambda>c. c \<noteq> CHR ''{'' \<and> c \<noteq> CHR ''}'') p2 = b # p3" "take_object 1 ''{'' p3 = Some (obj, rest)"
    using assms by (auto simp: next_object_def split: list.splits if_splits option.splits prod.splits)
  have "length rest \<le> length p3" "length (b # p3) \<le> length p2" "length (q # p2) \<le> length p1" "length (c # p1) \<le> length p"
    using take_object_shorter [OF d(4)] length_dropWhile_le d(1-3) by metis+
  then show ?thesis by simp
qed

text \<open>The callback returns whether to go on and its new state.\<close>

function tensor_loop :: "(TensorEntry \<Rightarrow> 's \<Rightarrow> bool \<times> 's) \<Rightarrow> string \<Rightarrow> 's \<Rightarrow> bool \<times> 's" where
  "tensor_loop cb p s =
     (case next_object p of
        Scan_End root_closed \<Rightarrow> (root_closed, s)
      | Scan_Fail \<Rightarrow> (False, s)
      | Scan_Object name obj rest \<Rightarrow>
          (if name = ''__metadata__'' then tensor_loop cb rest s
           else (case object_entry name obj of
                   None \<Rightarrow> (False, s)
                 | Some e \<Rightarrow> (case cb e s of (go, s') \<Rightarrow> (if go then tensor_loop cb rest s' else (False, s'))))))"
  by pat_completeness auto
termination
  by (relation "measure (\<lambda>(_, p, _). length p)") (use next_object_shorter in auto)

declare tensor_loop.simps [simp del]

definition foreach_tensor :: "string \<Rightarrow> (TensorEntry \<Rightarrow> 's \<Rightarrow> bool \<times> 's) \<Rightarrow> 's \<Rightarrow> bool \<times> 's" where
  "foreach_tensor json cb s =
     (case dropWhile (\<lambda>c. c \<noteq> CHR ''{'') json of [] \<Rightarrow> (False, s) | _ # p \<Rightarrow> tensor_loop cb p s)"

subsection \<open>Spans and shapes\<close>

definition kMaxSpans :: nat where "kMaxSpans = 1024"

record TensorSpanTracker =
  ts_data_size :: nat
  ts_spans :: "(nat \<times> nat) list"

definition spans_add :: "nat \<Rightarrow> nat \<Rightarrow> TensorSpanTracker \<Rightarrow> bool \<times> TensorSpanTracker" where
  "spans_add offset len t =
     (if offset > ts_data_size t \<or> len > ts_data_size t - offset \<or> length (ts_spans t) = kMaxSpans then (False, t)
      else let end_off = offset + len
        in if list_ex (\<lambda>(existing_offset, existing_end). offset < existing_end \<and> existing_offset < end_off) (ts_spans t)
           then (False, t)
           else (True, t\<lparr>ts_spans := ts_spans t @ [(offset, end_off)]\<rparr>))"

fun shape_elements :: "nat \<Rightarrow> nat list \<Rightarrow> nat option" where
  "shape_elements elements [] = Some elements"
| "shape_elements elements (d # ds) =
     (if d > SIZE_MAX \<or> (d \<noteq> 0 \<and> elements > SIZE_MAX div d) then None else shape_elements (elements * d) ds)"

definition valid_tensor_shape :: "nat list \<Rightarrow> nat \<Rightarrow> nat \<Rightarrow> bool \<Rightarrow> bool" where
  "valid_tensor_shape shape ndim byte_len bf16 =
     (let elem = (if bf16 then 2 else 4)
      in case shape_elements 1 (take ndim shape) of
           None \<Rightarrow> False
         | Some elements \<Rightarrow> elements \<le> SIZE_MAX div elem \<and> elements * elem = byte_len)"

subsection \<open>The metadata map\<close>

lemma find_sub_bound: "find_sub needle s = Some k \<Longrightarrow> k \<le> length s"
  by (induction needle s arbitrary: k rule: find_sub.induct) (auto split: if_splits)

lemma sv_find_bound: "sv_find s from needle = Some k \<Longrightarrow> from \<le> k \<and> k \<le> length s"
  using find_sub_bound [of needle "drop from s"] by (auto simp: sv_find_def split: if_splits)

function key_scan :: "string \<Rightarrow> string \<Rightarrow> nat \<Rightarrow> nat option" where
  "key_scan json key from =
     (case sv_find json from key of
        None \<Rightarrow> None
      | Some position \<Rightarrow>
          if position > 0 \<and> position + length key < length json \<and> json ! (position - 1) = quote \<and>
             json ! (position + length key) = quote
          then Some (position - 1)
          else key_scan json key (position + 1))"
  by pat_completeness auto
termination
  by (relation "measure (\<lambda>(json, key, from). length json + 1 - from)") (auto dest: sv_find_bound)

declare key_scan.simps [simp del]

definition quoted_key_pos :: "string \<Rightarrow> string \<Rightarrow> nat option" where
  "quoted_key_pos json key = key_scan json key 0"

text \<open>The index of the brace that closes the object.\<close>

function object_scan :: "string \<Rightarrow> nat \<Rightarrow> int \<Rightarrow> bool \<Rightarrow> nat option" where
  "object_scan json index depth in_string =
     (if index \<ge> length json then None
      else
        (let ch = json ! index;
             in_string' = (if ch = quote \<and> (index = 0 \<or> json ! (index - 1) \<noteq> backslash) then \<not> in_string else in_string)
         in if in_string' then object_scan json (index + 1) depth in_string'
            else if ch = CHR ''{'' then object_scan json (index + 1) (depth + 1) in_string'
            else if ch = CHR ''}''
              then (if depth - 1 = 0 then Some index else object_scan json (index + 1) (depth - 1) in_string')
            else object_scan json (index + 1) depth in_string'))"
  by pat_completeness auto
termination
  by (relation "measure (\<lambda>(json, index, _). length json - index)") auto

declare object_scan.simps [simp del]

definition object_value :: "string \<Rightarrow> string \<Rightarrow> string" where
  "object_value json key =
     (case quoted_key_pos json key of
        None \<Rightarrow> []
      | Some key_pos \<Rightarrow>
          (case sv_find json (key_pos + length key + 2) '':'' of
             None \<Rightarrow> []
           | Some colon \<Rightarrow>
               (case sv_find json (colon + 1) ''{'' of
                  None \<Rightarrow> []
                | Some start \<Rightarrow>
                    (case object_scan json start 0 False of
                       None \<Rightarrow> []
                     | Some index \<Rightarrow> take (index - start + 1) (drop start json)))))"

record MetadataString =
  md_value :: string
  md_present :: bool
  md_valid :: bool

function string_end :: "string \<Rightarrow> nat \<Rightarrow> nat option" where
  "string_end object_text e =
     (if e \<ge> length object_text then None
      else if object_text ! e = quote \<and> object_text ! (e - 1) \<noteq> backslash then Some e
      else string_end object_text (e + 1))"
  by pat_completeness auto
termination
  by (relation "measure (\<lambda>(object_text, e). length object_text - e)") auto

declare string_end.simps [simp del]

definition metadata_string_value :: "string \<Rightarrow> string \<Rightarrow> MetadataString" where
  "metadata_string_value object_text key =
     (let present_only = \<lparr>md_value = [], md_present = True, md_valid = False\<rparr>
      in case quoted_key_pos object_text key of
           None \<Rightarrow> \<lparr>md_value = [], md_present = False, md_valid = False\<rparr>
         | Some key_pos \<Rightarrow>
             (case sv_find object_text (key_pos + length key + 2) '':'' of
                None \<Rightarrow> present_only
              | Some colon \<Rightarrow>
                  let start = colon + 1 + length (takeWhile json_space (drop (colon + 1) object_text))
                  in if start \<ge> length object_text \<or> object_text ! start \<noteq> quote then present_only
                     else case string_end object_text (start + 1) of
                         None \<Rightarrow> present_only
                       | Some e \<Rightarrow>
                           \<lparr>md_value = take (e - start - 1) (drop (start + 1) object_text), md_present = True, md_valid = True\<rparr>))"

definition escape_char :: "char \<Rightarrow> char option" where
  "escape_char c =
     (if c = quote then Some quote
      else if c = backslash then Some backslash
      else if c = CHR ''/'' then Some (CHR ''/'')
      else if c = CHR ''b'' then Some (CHR 0x08)
      else if c = CHR ''f'' then Some (CHR 0x0C)
      else if c = CHR ''n'' then Some (CHR 0x0A)
      else if c = CHR ''r'' then Some (CHR 0x0D)
      else if c = CHR ''t'' then Some (CHR 0x09)
      else None)"

fun unescape_chars :: "string \<Rightarrow> string + string" where
  "unescape_chars [] = Inr []"
| "unescape_chars (c # cs) =
     (if c \<noteq> backslash then map_sum id ((#) c) (unescape_chars cs)
      else case cs of
          [] \<Rightarrow> Inl ''Invalid escaped metadata string''
        | d # ds \<Rightarrow>
            (case escape_char d of
               None \<Rightarrow> Inl ''Unsupported escaped metadata string''
             | Some x \<Rightarrow> map_sum id ((#) x) (unescape_chars ds)))"

text \<open>The one allocation is \<open>reserve\<close>; \<open>reserve_ok n\<close> says whether it finds \<open>n\<close> bytes.\<close>

definition unescape_json_string :: "(nat \<Rightarrow> bool) \<Rightarrow> string \<Rightarrow> string + string" where
  "unescape_json_string reserve_ok escaped =
     (if reserve_ok (length escaped) then unescape_chars escaped
      else Inl ''Out of memory reading safetensors metadata'')"

definition safetensors_metadata_value ::
  "(nat \<Rightarrow> bool) \<Rightarrow> (string \<Rightarrow> MapOutcome) \<Rightarrow> string \<Rightarrow> string \<Rightarrow> string + string option" where
  "safetensors_metadata_value reserve_ok files path key =
     (case header_json files path of
        Inl e \<Rightarrow> Inl e
      | Inr m \<Rightarrow>
          let metadata = object_value (mapped_json m) ''__metadata__''
          in if metadata = [] then Inr None
             else
               let encoded = metadata_string_value metadata key
               in if \<not> md_present encoded then Inr None
                  else if \<not> md_valid encoded then Inl ''Invalid safetensors metadata value''
                  else map_sum id Some (unescape_json_string reserve_ok (md_value encoded)))"

end
