(* ===== verification/Model_Weights.thy ===== *)
theory Model_Weights
  imports Safetensors
begin

text \<open>
  core/loader/safetensors.\{h,cc\}: the passes over the tensors of a checkpoint. \<open>load_safetensors\<close>
  copies every tensor into the arena, \<open>safetensors_weight_bytes\<close> measures them,
  \<open>safetensors_tensor_shape\<close> looks one up, \<open>inspect_safetensors\<close> lists them, and \<open>ModelWeights::open\<close>
  composes measuring and loading. The state of a callback is a record; memory is a map from
  addresses to bytes. \<open>storage n\<close> is the address at which the vector of \<open>n\<close> bytes is allocated, or
  \<open>None\<close> when memory is exhausted; \<open>profile_oom\<close> says whether parsing the profile runs out of memory.
\<close>

section \<open>Definitions\<close>

subsection \<open>Views\<close>

text \<open>
  A \<open>TensorView\<close> in memory: its data is an address. \<open>view_value\<close> reads it, which gives the record of
  the theory \<open>Model_Identity\<close> that fingerprints are computed from.
\<close>

record TensorRef =
  tr_data :: nat
  tr_dtype :: Dtype
  tr_shape :: "nat list"
  tr_name :: string
  tr_bytes :: nat
  tr_ndim :: nat

definition empty_ref :: TensorRef where
  "empty_ref = \<lparr>tr_data = 0, tr_dtype = F32, tr_shape = replicate 4 0, tr_name = replicate 128 (CHR 0x00), tr_bytes = 0, tr_ndim = 0\<rparr>"

definition name_text :: "string \<Rightarrow> string" where
  "name_text buf = takeWhile (\<lambda>c. c \<noteq> CHR 0x00) buf"

definition is_f32 :: "TensorRef \<Rightarrow> bool" where "is_f32 v \<longleftrightarrow> tr_dtype v = F32"
definition is_bf16 :: "TensorRef \<Rightarrow> bool" where "is_bf16 v \<longleftrightarrow> tr_dtype v = BF16"

definition as_f32 :: "TensorRef \<Rightarrow> nat" where "as_f32 v = (if is_f32 v then tr_data v else 0)"
definition as_bf16 :: "TensorRef \<Rightarrow> nat" where "as_bf16 v = (if is_bf16 v then tr_data v else 0)"
definition as_i8 :: "TensorRef \<Rightarrow> nat" where "as_i8 v = (if tr_dtype v = INT8 then tr_data v else 0)"

definition find_tensor_ref :: "TensorRef list \<Rightarrow> string \<Rightarrow> TensorRef option" where
  "find_tensor_ref ts name = List.find (\<lambda>t. name_text (tr_name t) = name) ts"

definition view_value :: "(nat \<Rightarrow> byte) \<Rightarrow> TensorRef \<Rightarrow> TensorView" where
  "view_value mem v =
     \<lparr>tv_data = map mem [tr_data v..<tr_data v + tr_bytes v], tv_dtype = tr_dtype v, tv_shape = map of_nat (tr_shape v),
      tv_name = map (\<lambda>c. of_nat (of_char c)) (tr_name v), tv_ndim = of_nat (tr_ndim v)\<rparr>"

text \<open>\<open>memcpy\<close> of the name into a buffer, and the terminating NUL.\<close>

definition copy_name :: "string \<Rightarrow> string \<Rightarrow> string" where
  "copy_name name buf =
     (let nlen = min (length name) (length buf - 1)
      in take nlen name @ [CHR 0x00] @ drop (nlen + 1) buf)"

definition copy_shape :: "nat list \<Rightarrow> nat \<Rightarrow> nat list" where
  "copy_shape shape ndim = map (\<lambda>i. if i < ndim then shape ! i else 0) [0..<4]"

subsection \<open>Loading\<close>

definition write_mem :: "nat \<Rightarrow> byte list \<Rightarrow> (nat \<Rightarrow> byte) \<Rightarrow> nat \<Rightarrow> byte" where
  "write_mem dst bs mem = (\<lambda>i. if dst \<le> i \<and> i < dst + length bs then bs ! (i - dst) else mem i)"

record LoadState =
  ls_arena :: Arena
  ls_mem :: "nat \<Rightarrow> byte"
  ls_out :: "TensorRef list"
  ls_loaded :: nat
  ls_spans :: TensorSpanTracker

definition load_tensor :: "byte list \<Rightarrow> TensorEntry \<Rightarrow> LoadState \<Rightarrow> bool \<times> LoadState" where
  "load_tensor data e s =
     (if \<not> te_supported e then (True, s)
      else if ls_loaded s \<ge> length (ls_out s) then (False, s)
      else
        (let (added, spans) = spans_add (te_offset e) (te_length e) (ls_spans s); s1 = s\<lparr>ls_spans := spans\<rparr>
         in if \<not> added then (False, s1)
            else if \<not> valid_tensor_shape (te_shape e) (te_ndim e) (te_length e) (te_bf16 e) then (False, s1)
            else
              (case arena_alloc_array 1 kSimdAlign (te_length e) (ls_arena s1) of
                 (None, a) \<Rightarrow> (False, s1\<lparr>ls_arena := a\<rparr>)
               | (Some dst, a) \<Rightarrow>
                   let k = ls_loaded s1; old = ls_out s1 ! k;
                       tv = \<lparr>tr_data = dst, tr_dtype = (if te_bf16 e then BF16 else F32),
                             tr_shape = copy_shape (te_shape e) (te_ndim e), tr_name = copy_name (te_name e) (tr_name old),
                             tr_bytes = te_length e, tr_ndim = te_ndim e\<rparr>
                   in (True, s1\<lparr>ls_arena := a,
                          ls_mem := write_mem dst (take (te_length e) (drop (te_offset e) data)) (ls_mem s1),
                          ls_out := (ls_out s1)[k := tv], ls_loaded := k + 1\<rparr>))))"

definition load_safetensors ::
  "(string \<Rightarrow> MapOutcome) \<Rightarrow> string \<Rightarrow> Arena \<Rightarrow> (nat \<Rightarrow> byte) \<Rightarrow> TensorRef list \<Rightarrow> (string + unit) \<times> LoadState" where
  "load_safetensors files path arena mem out_views =
     (let s0 = \<lparr>ls_arena = arena, ls_mem = mem, ls_out = out_views, ls_loaded = 0, ls_spans = \<lparr>ts_data_size = 0, ts_spans = []\<rparr>\<rparr>
      in case header_json files path of
           Inl e \<Rightarrow> (Inl e, s0)
         | Inr m \<Rightarrow>
             let (ok, s) = foreach_tensor (mapped_json m) (load_tensor (mapped_data m))
                   (s0\<lparr>ls_spans := \<lparr>ts_data_size = length (mapped_data m), ts_spans = []\<rparr>\<rparr>)
             in if \<not> ok \<or> ls_loaded s = 0 then (Inl ''Failed during tensor iteration or out of bounds'', s)
                else (Inr (), s))"

subsection \<open>Measuring, lookup and inspection\<close>

definition size_tensor :: "TensorEntry \<Rightarrow> TensorSpanTracker \<times> nat \<Rightarrow> bool \<times> TensorSpanTracker \<times> nat" where
  "size_tensor e s =
     (if \<not> te_supported e then (True, s)
      else
        (let (added, spans) = spans_add (te_offset e) (te_length e) (fst s); total = snd s
         in if \<not> added \<or> \<not> valid_tensor_shape (te_shape e) (te_ndim e) (te_length e) (te_bf16 e) \<or>
               te_length e > SIZE_MAX - total
            then (False, spans, total)
            else (True, spans, total + te_length e)))"

definition safetensors_weight_bytes :: "(string \<Rightarrow> MapOutcome) \<Rightarrow> string \<Rightarrow> nat" where
  "safetensors_weight_bytes files path =
     (case header_json files path of
        Inl _ \<Rightarrow> 0
      | Inr m \<Rightarrow>
          let (ok, _, total) = foreach_tensor (mapped_json m) size_tensor (\<lparr>ts_data_size = length (mapped_data m), ts_spans = []\<rparr>, 0)
          in if ok then total else 0)"

definition shape_tensor :: "string \<Rightarrow> TensorEntry \<Rightarrow> nat list \<Rightarrow> bool \<times> nat list" where
  "shape_tensor name e shape_out =
     (if \<not> te_supported e then (True, shape_out)
      else if te_name e \<noteq> name then (True, shape_out)
      else (False, map (\<lambda>i. if i < te_ndim e then te_shape e ! i else shape_out ! i) [0..<4]))"

definition safetensors_tensor_shape :: "(string \<Rightarrow> MapOutcome) \<Rightarrow> string \<Rightarrow> string \<Rightarrow> nat list" where
  "safetensors_tensor_shape files path name =
     (case header_json files path of
        Inl _ \<Rightarrow> [0, 0, 0, 0]
      | Inr m \<Rightarrow> snd (foreach_tensor (mapped_json m) (shape_tensor name) [0, 0, 0, 0]))"

record TensorMetadata =
  tm_dtype :: Dtype
  tm_shape :: "nat list"
  tm_name :: string
  tm_bytes :: nat
  tm_ndim :: nat

definition metadata_supported :: "TensorMetadata \<Rightarrow> bool" where
  "metadata_supported m \<longleftrightarrow> tm_dtype m = F32 \<or> tm_dtype m = BF16"

record InspectState =
  is_out :: "TensorMetadata list"
  is_loaded :: nat
  is_total :: nat
  is_unsupported :: nat
  is_spans :: TensorSpanTracker

definition inspect_tensor :: "TensorEntry \<Rightarrow> InspectState \<Rightarrow> bool \<times> InspectState" where
  "inspect_tensor e s =
     (if \<not> te_supported e then (True, s\<lparr>is_unsupported := is_unsupported s + 1\<rparr>)
      else
        (let (added, spans) = spans_add (te_offset e) (te_length e) (is_spans s); s1 = s\<lparr>is_spans := spans\<rparr>; k = is_loaded s
         in if \<not> added \<or> \<not> valid_tensor_shape (te_shape e) (te_ndim e) (te_length e) (te_bf16 e) \<or>
               te_length e > SIZE_MAX - is_total s
            then (False, s1)
            else if k \<ge> length (is_out s) then (False, s1)
            else
              (True, s1\<lparr>is_out := (is_out s)[k := \<lparr>tm_dtype = (if te_bf16 e then BF16 else F32),
                             tm_shape = copy_shape (te_shape e) (te_ndim e), tm_name = copy_name (te_name e) (tm_name (is_out s ! k)),
                             tm_bytes = te_length e, tm_ndim = te_ndim e\<rparr>],
                        is_loaded := k + 1, is_total := is_total s + te_length e\<rparr>)))"

definition inspect_safetensors ::
  "(string \<Rightarrow> MapOutcome) \<Rightarrow> string \<Rightarrow> TensorMetadata list \<Rightarrow> (string + unit) \<times> InspectState" where
  "inspect_safetensors files path out_meta =
     (let s0 = \<lparr>is_out = out_meta, is_loaded = 0, is_total = 0, is_unsupported = 0, is_spans = \<lparr>ts_data_size = 0, ts_spans = []\<rparr>\<rparr>
      in case header_json files path of
           Inl e \<Rightarrow> (Inl e, s0)
         | Inr m \<Rightarrow>
             let (ok, s) = foreach_tensor (mapped_json m) inspect_tensor
                   (s0\<lparr>is_spans := \<lparr>ts_data_size = length (mapped_data m), ts_spans = []\<rparr>\<rparr>)
             in if \<not> ok then (Inl ''Failed during tensor inspection or output capacity was exceeded'', s) else (Inr (), s))"

subsection \<open>The weight store\<close>

definition kMaxTensors :: nat where "kMaxTensors = 1024"

definition kDeploymentProfileMetadataKey :: string where
  "kDeploymentProfileMetadataKey = ''flowedge.deployment_profile''"

record ModelWeights =
  mw_arena :: Arena
  mw_mem :: "nat \<Rightarrow> byte"
  mw_views :: "TensorRef list"
  mw_tensor_count :: nat
  mw_weight_bytes :: nat
  mw_deployment_profile :: "DeploymentProfile option"

text \<open>The vector is zeroed by its constructor; \<open>mem\<close> is the memory before the allocation.\<close>

definition make_model_weights :: "nat \<Rightarrow> (nat \<Rightarrow> byte) \<Rightarrow> nat \<Rightarrow> DeploymentProfile option \<Rightarrow> ModelWeights" where
  "make_model_weights base mem weight_bytes profile =
     (let n = weight_bytes + kMaxTensors * (kSimdAlign - 1)
      in \<lparr>mw_arena = make_arena base n, mw_mem = write_mem base (replicate n 0) mem, mw_views = replicate kMaxTensors empty_ref,
          mw_tensor_count = 0, mw_weight_bytes = weight_bytes, mw_deployment_profile = profile\<rparr>)"

definition tensors :: "ModelWeights \<Rightarrow> TensorRef list" where
  "tensors w = take (mw_tensor_count w) (mw_views w)"

definition open_profile ::
  "(string \<Rightarrow> fp \<times> nat) \<Rightarrow> bool \<Rightarrow> (nat \<Rightarrow> bool) \<Rightarrow> (string \<Rightarrow> MapOutcome) \<Rightarrow> string \<Rightarrow> string + DeploymentProfile option" where
  "open_profile strtof profile_oom reserve_ok files path =
     (case safetensors_metadata_value reserve_ok files path kDeploymentProfileMetadataKey of
        Inl e \<Rightarrow> Inl e
      | Inr None \<Rightarrow> Inr None
      | Inr (Some encoded) \<Rightarrow>
          if profile_oom then Inl ''Out of memory parsing deployment profile''
          else (case parse_deployment_profile strtof encoded of
              Inl e \<Rightarrow> Inl (deployment_profile_error_message e)
            | Inr p \<Rightarrow> Inr (Some p)))"

definition model_weights_open ::
  "(string \<Rightarrow> fp \<times> nat) \<Rightarrow> bool \<Rightarrow> (nat \<Rightarrow> bool) \<Rightarrow> (nat \<Rightarrow> nat option) \<Rightarrow> (nat \<Rightarrow> byte) \<Rightarrow>
   (string \<Rightarrow> MapOutcome) \<Rightarrow> string \<Rightarrow> string + ModelWeights" where
  "model_weights_open strtof profile_oom reserve_ok storage mem files path =
     (case open_profile strtof profile_oom reserve_ok files path of
        Inl e \<Rightarrow> Inl e
      | Inr profile \<Rightarrow>
          let bytes = safetensors_weight_bytes files path; alignment_padding = kMaxTensors * (kSimdAlign - 1)
          in if bytes = 0 then Inl ''Failed to load safetensors file or find supported tensors''
             else if bytes > SIZE_MAX - alignment_padding then Inl ''Checkpoint weight storage size overflows this platform''
             else (case storage (bytes + alignment_padding) of
                 None \<Rightarrow> Inl ''Out of memory loading immutable model weights''
               | Some base \<Rightarrow>
                   let w = make_model_weights base mem bytes profile;
                       (loaded, s) = load_safetensors files path (mw_arena w) (mw_mem w) (mw_views w)
                   in (case loaded of
                         Inl e \<Rightarrow> Inl e
                       | Inr _ \<Rightarrow> Inr (w\<lparr>mw_arena := ls_arena s, mw_mem := ls_mem s, mw_views := ls_out s,
                           mw_tensor_count := ls_loaded s\<rparr>))))"

end
