(* ===== verification/Model_Weights_Correct.thy ===== *)
theory Model_Weights_Correct
  imports Model_Weights
begin

text \<open>
  Correctness of the checkpoint reader. Every pass over the header visits the same list of tensor
  entries (\<open>foreach_tensor_visit\<close>), so the passes can be compared with each other: what
  \<open>safetensors_weight_bytes\<close> measures, \<open>load_safetensors\<close> can load, and what it loads are exactly the
  bytes of the file, in blocks of the arena that do not overlap.
\<close>

section \<open>One list of entries behind every pass\<close>

fun visit :: "('e \<Rightarrow> 's \<Rightarrow> bool \<times> 's) \<Rightarrow> 'e list \<Rightarrow> 's \<Rightarrow> bool \<times> 's" where
  "visit cb [] s = (True, s)"
| "visit cb (e # es) s = (case cb e s of (go, s') \<Rightarrow> if go then visit cb es s' else (False, s'))"

definition collect :: "TensorEntry \<Rightarrow> TensorEntry list \<Rightarrow> bool \<times> TensorEntry list" where
  "collect e es = (True, es @ [e])"

text \<open>Whether the root object is closed, and the entries in front of the place where the scan stops.\<close>

definition tensor_entries :: "string \<Rightarrow> bool \<times> TensorEntry list" where
  "tensor_entries json = foreach_tensor json collect []"

lemma collect_from: "tensor_loop collect p es = (fst (tensor_loop collect p []), es @ snd (tensor_loop collect p []))"
proof (induction "length p" arbitrary: p es rule: less_induct)
  case less
  show ?case
  proof (cases "next_object p")
    case (Scan_Object name obj rest)
    note IH = less [OF next_object_shorter [OF Scan_Object]]
    show ?thesis
    proof (cases "name = ''__metadata__''")
      case True
      then show ?thesis using Scan_Object IH [of es] by (simp add: tensor_loop.simps [of collect p])
    next
      case False
      then show ?thesis
        using Scan_Object IH [of "es @ [x]" for x] IH [of "[x]" for x]
        by (cases "object_entry name obj") (simp_all add: tensor_loop.simps [of collect p] collect_def)
    qed
  qed (simp_all add: tensor_loop.simps)
qed

definition finish :: "bool \<Rightarrow> bool \<times> 's \<Rightarrow> bool \<times> 's" where
  "finish root_closed r = (if fst r then (root_closed, snd r) else r)"

lemma tensor_loop_visit:
  "tensor_loop cb p s = finish (fst (tensor_loop collect p [])) (visit cb (snd (tensor_loop collect p [])) s)"
proof (induction "length p" arbitrary: p s rule: less_induct)
  case less
  show ?case
  proof (cases "next_object p")
    case (Scan_Object name obj rest)
    note IH = less [OF next_object_shorter [OF Scan_Object]]
    show ?thesis
    proof (cases "name = ''__metadata__''")
      case True
      then show ?thesis using Scan_Object IH [of s] by (simp add: tensor_loop.simps [of _ p])
    next
      case False
      show ?thesis
      proof (cases "object_entry name obj")
        case None
        then show ?thesis using Scan_Object False by (simp add: tensor_loop.simps [of _ p] finish_def)
      next
        case (Some e)
        have "tensor_loop collect p [] = (fst (tensor_loop collect rest []), e # snd (tensor_loop collect rest []))"
          using Scan_Object False Some collect_from [of rest "[e]"] by (simp add: tensor_loop.simps [of _ p] collect_def)
        then show ?thesis
          using Scan_Object False Some IH [of "snd (cb e s)"]
          by (cases "cb e s") (simp add: tensor_loop.simps [of cb p] finish_def)
      qed
    qed
  qed (simp_all add: tensor_loop.simps finish_def)
qed

lemma foreach_tensor_visit:
  "foreach_tensor json cb s = finish (fst (tensor_entries json)) (visit cb (snd (tensor_entries json)) s)"
proof (cases "dropWhile (\<lambda>c. c \<noteq> CHR ''{'') json")
  case Nil
  then show ?thesis unfolding foreach_tensor_def tensor_entries_def Nil by (simp add: finish_def)
next
  case (Cons c p)
  then show ?thesis unfolding foreach_tensor_def tensor_entries_def Cons by (simp add: tensor_loop_visit [of cb])
qed

lemma foreach_tensor_ok:
  "foreach_tensor json cb s = (True, s') \<longleftrightarrow> fst (tensor_entries json) \<and> visit cb (snd (tensor_entries json)) s = (True, s')"
  by (auto simp: foreach_tensor_visit finish_def split: if_splits) (metis prod.collapse)+

text \<open>The entries that carry data, and a rule for callbacks that skip the others.\<close>

definition supported_entries :: "string \<Rightarrow> TensorEntry list" where
  "supported_entries json = filter te_supported (snd (tensor_entries json))"

lemma visit_supported:
  assumes "visit cb es s = (True, s')"
    and skip: "\<And>e s. \<not> te_supported e \<Longrightarrow> cb e s = (True, s)"
    and step: "\<And>e s s' ds. J ds s \<Longrightarrow> te_supported e \<Longrightarrow> cb e s = (True, s') \<Longrightarrow> J (ds @ [e]) s'"
    and "J ds s"
  shows "J (ds @ filter te_supported es) s'"
  using assms(1,4)
proof (induction es arbitrary: s ds)
  case (Cons e es)
  obtain s1 where s1: "cb e s = (True, s1)" "visit cb es s1 = (True, s')"
    using Cons.prems(1) by (auto split: prod.splits if_splits)
  show ?case
  proof (cases "te_supported e")
    case True
    then show ?thesis using Cons.IH [OF s1(2) step [OF Cons.prems(2) True s1(1)]] by simp
  next
    case False
    then show ?thesis using Cons.IH [OF s1(2)] Cons.prems(2) s1(1) skip [OF False] by simp
  qed
qed simp

section \<open>Spans, shapes, names\<close>

abbreviation span_of :: "TensorEntry \<Rightarrow> nat \<times> nat" where
  "span_of e \<equiv> (te_offset e, te_offset e + te_length e)"

definition apart :: "nat \<times> nat \<Rightarrow> nat \<times> nat \<Rightarrow> bool" where
  "apart x y \<longleftrightarrow> snd x \<le> fst y \<or> snd y \<le> fst x"

lemma spans_add_True:
  assumes "spans_add off len t = (True, t')"
  shows "off + len \<le> ts_data_size t" "t' = t\<lparr>ts_spans := ts_spans t @ [(off, off + len)]\<rparr>"
    "\<forall>x \<in> set (ts_spans t). apart x (off, off + len)" "length (ts_spans t) \<noteq> kMaxSpans"
  using assms by (auto simp: spans_add_def Let_def apart_def list_ex_iff split: if_splits)

lemma shape_elements_prod: "shape_elements n ds = Some k \<Longrightarrow> k = n * prod_list ds"
  by (induction n ds rule: shape_elements.induct) (auto split: if_splits)

lemma valid_tensor_shape_bytes:
  "valid_tensor_shape shape nd len bf16 \<Longrightarrow> len = prod_list (take nd shape) * (if bf16 then 2 else 4)"
  by (auto simp: valid_tensor_shape_def Let_def split: option.splits if_splits dest: shape_elements_prod)

lemma name_view_copy:
  assumes "length buf = 128"
  shows "name_text (copy_name name buf) = name_text (take 127 name) \<and> length (copy_name name buf) = 128"
proof -
  have "name_text (s @ CHR 0x00 # r) = name_text s" for s r
    by (induction s) (auto simp: name_text_def)
  moreover have "take (min (length name) 127) name = take 127 name" by (simp add: min_def)
  ultimately show ?thesis using assms by (auto simp: copy_name_def Let_def)
qed

section \<open>Loading\<close>

definition tensor_loaded :: "byte list \<Rightarrow> (nat \<Rightarrow> byte) \<Rightarrow> TensorEntry \<Rightarrow> TensorRef \<Rightarrow> bool" where
  "tensor_loaded data mem e v \<longleftrightarrow>
     te_offset e + te_length e \<le> length data \<and>
     map mem [tr_data v..<tr_data v + tr_bytes v] = take (te_length e) (drop (te_offset e) data) \<and>
     kSimdAlign dvd tr_data v \<and> tr_bytes v = te_length e \<and>
     tr_bytes v = prod_list (take (te_ndim e) (te_shape e)) * (if te_bf16 e then 2 else 4) \<and>
     tr_dtype v = (if te_bf16 e then BF16 else F32) \<and> tr_ndim v = te_ndim e \<and>
     tr_shape v = copy_shape (te_shape e) (te_ndim e) \<and>
     name_text (tr_name v) = name_text (take 127 (te_name e))"

definition load_inv :: "byte list \<Rightarrow> Arena \<Rightarrow> (nat \<Rightarrow> byte) \<Rightarrow> nat \<Rightarrow> TensorEntry list \<Rightarrow> LoadState \<Rightarrow> bool" where
  "load_inv data a0 mem0 cap es s \<longleftrightarrow>
     ls_loaded s = length es \<and> length es \<le> length (ls_out s) \<and> length (ls_out s) = cap \<and>
     (\<forall>v \<in> set (ls_out s). length (tr_name v) = 128) \<and>
     ts_data_size (ls_spans s) = length data \<and> ts_spans (ls_spans s) = map span_of es \<and>
     sorted_wrt apart (map span_of es) \<and>
     arena_wf (ls_arena s) \<and> ar_end (ls_arena s) = ar_end a0 \<and> ar_cursor a0 \<le> ar_cursor (ls_arena s) \<and>
     list_all2 (tensor_loaded data (ls_mem s)) es (take (length es) (ls_out s)) \<and>
     (\<forall>v \<in> set (take (length es) (ls_out s)). ar_cursor a0 \<le> tr_data v \<and> tr_data v + tr_bytes v \<le> ar_cursor (ls_arena s)) \<and>
     sorted_wrt (\<lambda>v w. tr_data v + tr_bytes v \<le> tr_data w) (take (length es) (ls_out s)) \<and>
     (\<forall>i. i < ar_cursor a0 \<or> ar_end a0 \<le> i \<longrightarrow> ls_mem s i = mem0 i)"

lemma write_mem_other: "\<forall>i \<in> set is. i < dst \<Longrightarrow> map (write_mem dst bs mem) is = map mem is"
  by (auto simp: write_mem_def)

lemma write_mem_same: "map (write_mem dst bs mem) [dst..<dst + length bs] = bs"
  by (rule nth_equalityI) (auto simp: write_mem_def)

lemma tensor_loaded_keep:
  assumes "tensor_loaded data mem e v" "tr_data v + tr_bytes v \<le> dst"
  shows "tensor_loaded data (write_mem dst bs mem) e v"
proof -
  have "map (write_mem dst bs mem) [tr_data v..<tr_data v + tr_bytes v] = map mem [tr_data v..<tr_data v + tr_bytes v]"
    using assms(2) by (intro write_mem_other) auto
  then show ?thesis using assms(1) unfolding tensor_loaded_def by metis
qed

lemma load_tensor_True:
  assumes "load_tensor data e s = (True, s')" "te_supported e"
  obtains spans dst a where "ls_loaded s < length (ls_out s)"
    "spans_add (te_offset e) (te_length e) (ls_spans s) = (True, spans)"
    "valid_tensor_shape (te_shape e) (te_ndim e) (te_length e) (te_bf16 e)"
    "arena_alloc kSimdAlign (te_length e) (ls_arena s) = (Some dst, a)"
    "s' = s\<lparr>ls_spans := spans, ls_arena := a,
            ls_mem := write_mem dst (take (te_length e) (drop (te_offset e) data)) (ls_mem s),
            ls_out := (ls_out s)[ls_loaded s :=
              \<lparr>tr_data = dst, tr_dtype = (if te_bf16 e then BF16 else F32), tr_shape = copy_shape (te_shape e) (te_ndim e),
               tr_name = copy_name (te_name e) (tr_name (ls_out s ! ls_loaded s)), tr_bytes = te_length e, tr_ndim = te_ndim e\<rparr>],
            ls_loaded := ls_loaded s + 1\<rparr>"
  using assms
  by (auto simp: load_tensor_def Let_def arena_alloc_array_def split: if_splits prod.splits option.splits)

lemma load_tensor_inv:
  assumes inv: "load_inv data a0 mem0 cap es s" and e: "te_supported e" "load_tensor data e s = (True, s')"
  shows "load_inv data a0 mem0 cap (es @ [e]) s'"
proof -
  obtain spans dst a where L: "ls_loaded s < length (ls_out s)"
    "spans_add (te_offset e) (te_length e) (ls_spans s) = (True, spans)"
    "valid_tensor_shape (te_shape e) (te_ndim e) (te_length e) (te_bf16 e)"
    "arena_alloc kSimdAlign (te_length e) (ls_arena s) = (Some dst, a)"
    and s': "s' = s\<lparr>ls_spans := spans, ls_arena := a,
            ls_mem := write_mem dst (take (te_length e) (drop (te_offset e) data)) (ls_mem s),
            ls_out := (ls_out s)[ls_loaded s :=
              \<lparr>tr_data = dst, tr_dtype = (if te_bf16 e then BF16 else F32), tr_shape = copy_shape (te_shape e) (te_ndim e),
               tr_name = copy_name (te_name e) (tr_name (ls_out s ! ls_loaded s)), tr_bytes = te_length e, tr_ndim = te_ndim e\<rparr>],
            ls_loaded := ls_loaded s + 1\<rparr>" (is "_ = s\<lparr>ls_spans := _, ls_arena := _, ls_mem := ?mem, ls_out := (ls_out s)[_ := ?v], ls_loaded := _\<rparr>")
    using load_tensor_True [OF e(2,1)] by blast
  note I = inv [unfolded load_inv_def]
  have al: "0 < kSimdAlign" by (simp add: kSimdAlign_def)
  note S = spans_add_True [OF L(2)]
  note A = arena_alloc_SomeD [OF _ al L(4)]
  have wf: "arena_wf (ls_arena s)" and n: "ls_loaded s = length es" using I by blast+
  have buf: "length (tr_name (ls_out s ! length es)) = 128" using I L(1) n by auto
  have len: "length (take (te_length e) (drop (te_offset e) data)) = te_length e" using S(1) I by simp
  have new: "tensor_loaded data ?mem e ?v"
    using S(1) I A(1) [OF wf] valid_tensor_shape_bytes [OF L(3)] name_view_copy [OF buf] n
      write_mem_same [of dst "take (te_length e) (drop (te_offset e) data)" "ls_mem s"] len
    by (simp add: tensor_loaded_def)
  have views: "take (length (es @ [e])) (ls_out s') = take (length es) (ls_out s) @ [?v]"
    using L(1) n by (simp add: s' take_Suc_conv_app_nth)
  have below: "\<forall>v \<in> set (take (length es) (ls_out s)). tr_data v + tr_bytes v \<le> dst"
    using I A(2) [OF wf] by (metis le_trans)
  have "list_all2 (tensor_loaded data ?mem) es (take (length es) (ls_out s))"
  proof (rule list_all2I)
    show "\<forall>x \<in> set (zip es (take (length es) (ls_out s))). case x of (e, v) \<Rightarrow> tensor_loaded data ?mem e v"
      using I below by (auto simp: list_all2_iff intro!: tensor_loaded_keep dest: set_zip_rightD)
    show "length es = length (take (length es) (ls_out s))" using I by simp
  qed
  then have loaded: "list_all2 (tensor_loaded data (ls_mem s')) (es @ [e]) (take (length (es @ [e])) (ls_out s'))"
    unfolding views using new by (simp add: s' list_all2_appendI)
  have cur: "ls_arena s' = (ls_arena s)\<lparr>ar_cursor := dst + te_length e\<rparr>" "arena_wf (ls_arena s')" using A(5,6) [OF wf] by (simp_all add: s')
  have "\<forall>v \<in> set (take (length (es @ [e])) (ls_out s')). ar_cursor a0 \<le> tr_data v \<and> tr_data v + tr_bytes v \<le> ar_cursor (ls_arena s')"
    unfolding views using I A(2) [OF wf] below cur(1) by auto
  moreover have "sorted_wrt (\<lambda>v w. tr_data v + tr_bytes v \<le> tr_data w) (take (length (es @ [e])) (ls_out s'))"
    unfolding views using I below by (simp add: sorted_wrt_append)
  moreover have "sorted_wrt apart (map span_of (es @ [e]))" using I S(3) by (simp add: sorted_wrt_append)
  moreover have "\<forall>v \<in> set (ls_out s'). length (tr_name v) = 128"
    using I name_view_copy [OF buf] n set_update_subset_insert [of "ls_out s" "length es" ?v] by (auto simp: s')
  moreover have "ls_mem s' i = mem0 i" if "i < ar_cursor a0 \<or> ar_end a0 \<le> i" for i
    using that I A(2,3) [OF wf] len by (auto simp: s' write_mem_def)
  ultimately show ?thesis
    using I L(1) S(2) cur A(2) [OF wf] loaded unfolding load_inv_def by (auto simp: s')
qed

lemma load_tensor_skip: "\<not> te_supported e \<Longrightarrow> load_tensor data e s = (True, s)"
  by (simp add: load_tensor_def)

definition load_start :: "byte list \<Rightarrow> Arena \<Rightarrow> (nat \<Rightarrow> byte) \<Rightarrow> TensorRef list \<Rightarrow> LoadState" where
  "load_start data a mem out =
     \<lparr>ls_arena = a, ls_mem = mem, ls_out = out, ls_loaded = 0, ls_spans = \<lparr>ts_data_size = length data, ts_spans = []\<rparr>\<rparr>"

lemma load_init:
  assumes "arena_wf a" "\<forall>v \<in> set out. length (tr_name v) = 128"
  shows "load_inv data a mem (length out) [] (load_start data a mem out)"
  using assms by (simp add: load_inv_def load_start_def)

lemma load_ok_iff:
  assumes "header_json files path = Inr m"
  shows "load_safetensors files path a mem out = (Inr (), s) \<longleftrightarrow>
    foreach_tensor (mapped_json m) (load_tensor (mapped_data m)) (load_start (mapped_data m) a mem out) = (True, s) \<and> ls_loaded s \<noteq> 0"
  using assms
  by (cases "foreach_tensor (mapped_json m) (load_tensor (mapped_data m)) (load_start (mapped_data m) a mem out)")
    (auto simp: load_safetensors_def Let_def load_start_def)

lemma load_ok_header:
  "load_safetensors files path a mem out = (Inr (), s) \<Longrightarrow> \<exists>m. header_json files path = Inr m"
  by (auto simp: load_safetensors_def Let_def split: sum.splits)

lemma load_ok_inv:
  assumes "header_json files path = Inr m" "load_safetensors files path a mem out = (Inr (), s)"
    "arena_wf a" "\<forall>v \<in> set out. length (tr_name v) = 128"
  shows "load_inv (mapped_data m) a mem (length out) (supported_entries (mapped_json m)) s \<and> ls_loaded s \<noteq> 0"
proof -
  have v: "visit (load_tensor (mapped_data m)) (snd (tensor_entries (mapped_json m))) (load_start (mapped_data m) a mem out) = (True, s)"
    "ls_loaded s \<noteq> 0"
    using assms(2) by (simp_all add: load_ok_iff [OF assms(1)] foreach_tensor_ok)
  have "load_inv (mapped_data m) a mem (length out) ([] @ filter te_supported (snd (tensor_entries (mapped_json m)))) s"
  proof (rule visit_supported [OF v(1)])
    show "load_inv (mapped_data m) a mem (length out) [] (load_start (mapped_data m) a mem out)" by (rule load_init [OF assms(3,4)])
  qed (simp_all add: load_tensor_skip load_tensor_inv)
  then show ?thesis using v(2) by (simp add: supported_entries_def)
qed

section \<open>Measuring\<close>

lemma size_tensor_True:
  assumes "size_tensor e (t, tot) = (True, t', tot')" "te_supported e"
  shows "spans_add (te_offset e) (te_length e) t = (True, t')" "tot' = tot + te_length e" "te_length e \<le> SIZE_MAX"
    "valid_tensor_shape (te_shape e) (te_ndim e) (te_length e) (te_bf16 e)"
  using assms by (auto simp: size_tensor_def Let_def split: if_splits prod.splits)

lemma size_tensor_skip: "\<not> te_supported e \<Longrightarrow> size_tensor e s = (True, s)"
  by (simp add: size_tensor_def)

lemma visit_size_total:
  "visit size_tensor es (t, tot) = (True, t', n) \<Longrightarrow> n = tot + sum_list (map te_length (filter te_supported es))"
proof (induction es arbitrary: t tot)
  case (Cons e es)
  obtain t1 tot1 where "size_tensor e (t, tot) = (True, t1, tot1)" "visit size_tensor es (t1, tot1) = (True, t', n)"
    using Cons.prems by (auto split: prod.splits if_splits)
  then show ?case using Cons.IH [of t1 tot1] size_tensor_True(2) [of e t tot t1 tot1] size_tensor_skip [of e "(t, tot)"]
    by (cases "te_supported e") auto
qed simp

text \<open>What has to be free for the rest of the tensors: their bytes, and up to 63 bytes of alignment for each.\<close>

definition room :: "nat \<Rightarrow> LoadState \<Rightarrow> bool" where
  "room rest_bytes s \<longleftrightarrow>
     arena_wf (ls_arena s) \<and> 0 < ar_cursor (ls_arena s) \<and> kMaxSpans \<le> length (ls_out s) \<and>
     ls_loaded s = length (ts_spans (ls_spans s)) \<and> ls_loaded s \<le> kMaxSpans \<and>
     ar_cursor (ls_arena s) + rest_bytes + (kMaxSpans - ls_loaded s) * (kSimdAlign - 1) \<le> ar_end (ls_arena s)"

lemma arena_alloc_fits:
  assumes "arena_wf a" "0 < al" "0 < ar_cursor a" "ar_cursor a + (al - 1) + n \<le> ar_end a"
  obtains p where "arena_alloc al n a = (Some p, a\<lparr>ar_cursor := p + n\<rparr>)" "p < ar_cursor a + al" "ar_cursor a \<le> p"
proof
  let ?p = "align_up_to al (ar_cursor a)"
  have p: "ar_cursor a \<le> ?p" "?p < ar_cursor a + al" using align_up_to_ge align_up_to_less assms(2) by blast+
  then show "arena_alloc al n a = (Some ?p, a\<lparr>ar_cursor := ?p + n\<rparr>)"
    using assms by (auto simp: arena_alloc_def std_align_def Let_def arena_wf_def)
  show "?p < ar_cursor a + al" "ar_cursor a \<le> ?p" using p by blast+
qed

lemma load_tensor_fits:
  assumes e: "te_supported e" "size_tensor e (ls_spans s, tot) = (True, t', tot')"
    and room: "room (te_length e + rest) s"
  obtains s' where "load_tensor data e s = (True, s')" "ls_spans s' = t'" "room rest s'" "ls_loaded s' = ls_loaded s + 1"
proof -
  note Z = size_tensor_True [OF e(2,1)]
  note S = spans_add_True [OF Z(1)]
  note R = room [unfolded room_def]
  have lt: "ls_loaded s < kMaxSpans" using R S(4) by simp
  obtain p where p: "arena_alloc kSimdAlign (te_length e) (ls_arena s) = (Some p, (ls_arena s)\<lparr>ar_cursor := p + te_length e\<rparr>)"
    "p < ar_cursor (ls_arena s) + kSimdAlign" "ar_cursor (ls_arena s) \<le> p"
  proof (rule arena_alloc_fits [of "ls_arena s" kSimdAlign "te_length e"])
    have "1 * (kSimdAlign - 1) \<le> (kMaxSpans - ls_loaded s) * (kSimdAlign - 1)" using lt by (intro mult_le_mono1) simp
    then show "ar_cursor (ls_arena s) + (kSimdAlign - 1) + te_length e \<le> ar_end (ls_arena s)"
      using R by linarith
  qed (use R in \<open>simp_all add: kSimdAlign_def\<close>)
  let ?s' = "snd (load_tensor data e s)"
  have step: "load_tensor data e s = (True, ?s')" "ls_spans ?s' = t'" "ls_loaded ?s' = ls_loaded s + 1"
    "ls_arena ?s' = (ls_arena s)\<lparr>ar_cursor := p + te_length e\<rparr>" "length (ls_out ?s') = length (ls_out s)"
    using e(1) lt R Z p(1) by (auto simp: load_tensor_def Let_def arena_alloc_array_def)
  have "(kMaxSpans - ls_loaded s) * (kSimdAlign - 1) = (kMaxSpans - (ls_loaded s + 1)) * (kSimdAlign - 1) + (kSimdAlign - 1)"
    using lt by (metis Suc_diff_Suc Suc_eq_plus1 mult_Suc add.commute)
  then have "p + te_length e + rest + (kMaxSpans - (ls_loaded s + 1)) * (kSimdAlign - 1) \<le> ar_end (ls_arena s)"
    using R p(2) by linarith
  then have "room rest ?s'"
    using R S(2) lt p(3) by (simp add: room_def step(2-5) arena_wf_def)
  with step show ?thesis using that by blast
qed

lemma visit_load_fits:
  assumes "visit size_tensor es (ls_spans s, tot) = (True, t', n)" "room (sum_list (map te_length (filter te_supported es))) s"
  shows "\<exists>s'. visit (load_tensor data) es s = (True, s') \<and> ls_loaded s' = ls_loaded s + length (filter te_supported es)"
  using assms
proof (induction es arbitrary: s tot)
  case (Cons e es)
  obtain t1 tot1 where Z: "size_tensor e (ls_spans s, tot) = (True, t1, tot1)" "visit size_tensor es (t1, tot1) = (True, t', n)"
    using Cons.prems(1) by (auto split: prod.splits if_splits)
  show ?case
  proof (cases "te_supported e")
    case True
    have "room (te_length e + sum_list (map te_length (filter te_supported es))) s" using Cons.prems(2) True by simp
    from load_tensor_fits [OF True Z(1) this, of data] obtain s1 where s1: "load_tensor data e s = (True, s1)"
      "ls_spans s1 = t1" "room (sum_list (map te_length (filter te_supported es))) s1" "ls_loaded s1 = ls_loaded s + 1" by blast
    from Cons.IH [of s1 tot1] Z(2) s1 True show ?thesis by simp
  next
    case False
    then show ?thesis using Cons.IH [of s tot1] Z size_tensor_skip [OF False, of "(ls_spans s, tot)"] Cons.prems(2)
      by (simp add: load_tensor_skip)
  qed
qed simp

lemma weight_bytes_nonzero:
  assumes "safetensors_weight_bytes files path = n" "n \<noteq> 0"
  obtains m t where "header_json files path = Inr m" "fst (tensor_entries (mapped_json m))"
    "visit size_tensor (snd (tensor_entries (mapped_json m))) (\<lparr>ts_data_size = length (mapped_data m), ts_spans = []\<rparr>, 0) = (True, t, n)"
    "n = sum_list (map te_length (supported_entries (mapped_json m)))"
proof -
  obtain m where m: "header_json files path = Inr m"
    using assms by (auto simp: safetensors_weight_bytes_def split: sum.splits)
  obtain t where "foreach_tensor (mapped_json m) size_tensor (\<lparr>ts_data_size = length (mapped_data m), ts_spans = []\<rparr>, 0) = (True, t, n)"
    using assms m by (auto simp: safetensors_weight_bytes_def split: prod.splits if_splits)
  then have v: "fst (tensor_entries (mapped_json m))"
    "visit size_tensor (snd (tensor_entries (mapped_json m))) (\<lparr>ts_data_size = length (mapped_data m), ts_spans = []\<rparr>, 0) = (True, t, n)"
    by (simp_all add: foreach_tensor_ok)
  from that [OF m v] visit_size_total [OF v(2)] show ?thesis by (simp add: supported_entries_def)
qed

lemma load_after_sizing:
  assumes n: "safetensors_weight_bytes files path = n" "n \<noteq> 0"
    and a: "arena_wf a" "0 < ar_cursor a" "ar_cursor a + n + kMaxSpans * (kSimdAlign - 1) \<le> ar_end a" "kMaxSpans \<le> length out"
  shows "\<exists>s. load_safetensors files path a mem out = (Inr (), s)"
proof -
  obtain m t where m: "header_json files path = Inr m" "fst (tensor_entries (mapped_json m))"
    "visit size_tensor (snd (tensor_entries (mapped_json m))) (\<lparr>ts_data_size = length (mapped_data m), ts_spans = []\<rparr>, 0) = (True, t, n)"
    "n = sum_list (map te_length (supported_entries (mapped_json m)))"
    using n by (rule weight_bytes_nonzero)
  let ?s = "load_start (mapped_data m) a mem out"
  have "room (sum_list (map te_length (supported_entries (mapped_json m)))) ?s"
    using a m(4) by (simp add: room_def load_start_def)
  then obtain s where s: "visit (load_tensor (mapped_data m)) (snd (tensor_entries (mapped_json m))) ?s = (True, s)"
    "ls_loaded s = length (supported_entries (mapped_json m))"
    using visit_load_fits [of "snd (tensor_entries (mapped_json m))" ?s 0 t n "mapped_data m"] m(3)
    by (auto simp: supported_entries_def load_start_def)
  have "supported_entries (mapped_json m) \<noteq> []" using m(4) n(2) by auto
  then have "load_safetensors files path a mem out = (Inr (), s)" using s m(1,2) by (simp add: load_ok_iff [OF m(1)] foreach_tensor_ok)
  then show ?thesis by blast
qed

lemma empty_ref_name: "length (tr_name empty_ref) = 128"
  by (simp add: empty_ref_def)

section \<open>Lookup and inspection\<close>

lemma visit_shape:
  "snd (visit (shape_tensor name) es [0, 0, 0, 0]) =
     (case find (\<lambda>e. te_name e = name) (filter te_supported es) of None \<Rightarrow> [0, 0, 0, 0] | Some e \<Rightarrow> copy_shape (te_shape e) (te_ndim e))"
proof (induction es)
  case (Cons e es)
  have "[0, 0, 0, 0 :: nat] ! i = 0" if "i < 4" for i using that by (auto simp: less_Suc_eq numeral_eq_Suc)
  then have "map (\<lambda>i. if i < te_ndim e then te_shape e ! i else [0, 0, 0, 0] ! i) [0..<4] = copy_shape (te_shape e) (te_ndim e)"
    unfolding copy_shape_def by (intro map_cong) auto
  with Cons show ?case by (auto simp: shape_tensor_def)
qed simp

lemma tensor_shape_found:
  assumes "header_json files path = Inr m"
  shows "safetensors_tensor_shape files path name =
    (case find (\<lambda>e. te_name e = name) (supported_entries (mapped_json m)) of
       None \<Rightarrow> [0, 0, 0, 0] | Some e \<Rightarrow> copy_shape (te_shape e) (te_ndim e))"
  using assms visit_shape [of name "snd (tensor_entries (mapped_json m))"]
  by (simp add: safetensors_tensor_shape_def foreach_tensor_visit finish_def supported_entries_def)

lemma find_list_all2:
  "list_all2 R xs ys \<Longrightarrow> (\<And>x y. x \<in> set xs \<Longrightarrow> R x y \<Longrightarrow> P x = Q y) \<Longrightarrow> rel_option R (find P xs) (find Q ys)"
  by (induction rule: list_all2_induct) auto

lemma name_text_short: "length s \<le> 127 \<Longrightarrow> CHR 0x00 \<notin> set s \<Longrightarrow> name_text (take 127 s) = s"
  by (simp add: name_text_def takeWhile_eq_all_conv [THEN iffD2]) (metis (full_types) takeWhile_eq_all_conv)

lemma inspect_step_total:
  assumes "inspect_tensor e s = (True, s')"
  shows "\<exists>t. size_tensor e (is_spans s, is_total s) = (True, t, is_total s') \<and> is_spans s' = t \<and>
    is_loaded s' + is_unsupported s' = is_loaded s + is_unsupported s + 1 \<and> is_loaded s' = is_loaded s + (if te_supported e then 1 else 0)"
  using assms by (auto simp: inspect_tensor_def size_tensor_def Let_def split: if_splits prod.splits)

lemma visit_inspect_total:
  assumes "visit inspect_tensor es s = (True, s')"
  shows "visit size_tensor es (is_spans s, is_total s) = (True, is_spans s', is_total s') \<and>
    is_loaded s' = is_loaded s + length (filter te_supported es) \<and> is_unsupported s' = is_unsupported s + length (filter (\<lambda>e. \<not> te_supported e) es)"
  using assms
proof (induction es arbitrary: s)
  case (Cons e es)
  obtain s1 where s1: "inspect_tensor e s = (True, s1)" "visit inspect_tensor es s1 = (True, s')"
    using Cons.prems by (auto split: prod.splits if_splits)
  from Cons.IH [OF s1(2)] inspect_step_total [OF s1(1)] show ?case by auto
qed simp

section \<open>An example checkpoint\<close>

definition demo_header :: string where
  "demo_header = ''{\"b\":{\"dtype\":\"F32\",\"shape\":[1],\"data_offsets\":[2,6]},\"a\":{\"dtype\":\"BF16\",\"shape\":[1,1],\"data_offsets\":[0,2]}}''"

definition demo_data :: "byte list" where "demo_data = [1, 2, 3, 4, 5, 6]"

definition demo_checkpoint :: "byte list" where
  "demo_checkpoint = [110, 0, 0, 0, 0, 0, 0, 0] @ map (\<lambda>c. of_nat (of_char c)) demo_header @ demo_data"

definition demo_files :: "string \<Rightarrow> MapOutcome" where
  "demo_files p = (if p = ''m.safetensors'' then Mapped demo_checkpoint else Map_OpenFailed)"

lemma demo_length: "length demo_header = 110" by (simp add: demo_header_def)

lemma as_chars_of_chars: "as_chars (map (\<lambda>c. of_nat (of_char c)) s) = s"
proof -
  have "char_of (unat (of_nat (of_char c) :: byte)) = c" for c :: char
    by (simp add: unat_of_nat)
  then show ?thesis by (simp add: as_chars_def comp_def)
qed

lemma demo_open: "header_json demo_files ''m.safetensors'' = Inr (demo_checkpoint, 110)"
proof -
  have "unat (read_le demo_checkpoint 0 :: u64) = 110"
    by (simp add: demo_checkpoint_def read_le_def upt_rec)
  moreover have "length demo_checkpoint = 124" by (simp add: demo_checkpoint_def demo_length demo_data_def)
  ultimately show ?thesis by (simp add: header_json_def mapped_file_open_def demo_files_def)
qed

lemma demo_mapped: "mapped_json (demo_checkpoint, 110) = demo_header" "mapped_data (demo_checkpoint, 110) = demo_data"
  by (simp_all add: mapped_json_def mapped_data_def demo_checkpoint_def demo_length as_chars_of_chars)

definition demo_b :: TensorEntry where
  "demo_b = \<lparr>te_name = ''b'', te_offset = 2, te_length = 4, te_shape = [1, 0, 0, 0], te_ndim = 1, te_bf16 = False, te_supported = True\<rparr>"

definition demo_a :: TensorEntry where
  "demo_a = \<lparr>te_name = ''a'', te_offset = 0, te_length = 2, te_shape = [1, 1, 0, 0], te_ndim = 2, te_bf16 = True, te_supported = True\<rparr>"

lemma replicate_numeral: "replicate (numeral k) x = x # replicate (pred_numeral k) x"
  by (simp add: numeral_eq_Suc)

lemmas scan_eval = next_object_def object_entry_def parse_u64s_def u64_items.simps after_colon_def sv_find_def is_digit_def digit_value_def

lemma demo_scan:
  "next_object (tl demo_header) = Scan_Object ''b'' ''{\"dtype\":\"F32\",\"shape\":[1],\"data_offsets\":[2,6]}''
     '',\"a\":{\"dtype\":\"BF16\",\"shape\":[1,1],\"data_offsets\":[0,2]}}''"
  "next_object '',\"a\":{\"dtype\":\"BF16\",\"shape\":[1,1],\"data_offsets\":[0,2]}}'' =
     Scan_Object ''a'' ''{\"dtype\":\"BF16\",\"shape\":[1,1],\"data_offsets\":[0,2]}'' ''}''"
  "next_object ''}'' = Scan_End True"
  by (simp_all add: next_object_def demo_header_def)

lemma demo_objects:
  "object_entry ''b'' ''{\"dtype\":\"F32\",\"shape\":[1],\"data_offsets\":[2,6]}'' = Some demo_b"
  "object_entry ''a'' ''{\"dtype\":\"BF16\",\"shape\":[1,1],\"data_offsets\":[0,2]}'' = Some demo_a"
  by (simp_all add: scan_eval demo_a_def demo_b_def replicate_numeral)

lemma demo_entries: "tensor_entries demo_header = (True, [demo_b, demo_a])"
proof -
  have "dropWhile (\<lambda>c. c \<noteq> CHR ''{'') demo_header = CHR ''{'' # tl demo_header" by (simp add: demo_header_def)
  then show ?thesis
    by (simp add: tensor_entries_def foreach_tensor_def tensor_loop.simps demo_scan demo_objects collect_def)
qed

lemma demo_weight_bytes: "safetensors_weight_bytes demo_files ''m.safetensors'' = 6"
proof -
  have "visit size_tensor [demo_b, demo_a] (\<lparr>ts_data_size = 6, ts_spans = []\<rparr>, 0) = (True, \<lparr>ts_data_size = 6, ts_spans = [(2, 6), (0, 2)]\<rparr>, 6)"
    by (simp add: size_tensor_def spans_add_def valid_tensor_shape_def demo_a_def demo_b_def kMaxSpans_def Let_def)
  moreover have "length demo_data = 6" by (simp add: demo_data_def)
  ultimately show ?thesis
    by (simp add: safetensors_weight_bytes_def demo_open demo_mapped foreach_tensor_visit demo_entries finish_def)
qed

lemma demo_supported: "supported_entries demo_header = [demo_b, demo_a]"
  by (simp add: supported_entries_def demo_entries) (simp add: demo_a_def demo_b_def)

lemma demo_no_profile: "open_profile strtof profile_oom reserve_ok demo_files ''m.safetensors'' = Inr None"
proof -
  have "find_sub ''__metadata__'' demo_header = None" by (simp add: demo_header_def)
  then have "object_value demo_header ''__metadata__'' = []"
    by (simp add: object_value_def quoted_key_pos_def key_scan.simps sv_find_def)
  then show ?thesis by (simp add: open_profile_def safetensors_metadata_value_def demo_open demo_mapped)
qed

section \<open>Properties\<close>

text \<open>
  C20: When \<open>load_safetensors\<close> succeeds, every supported tensor of the header is in the output, in
  order: its data lie in the file, its view holds exactly those bytes, aligned for SIMD, with as
  many bytes as its shape and dtype give; no two tensors share bytes of the file or of the arena,
  every block lies in the free part of the arena, and memory outside it is untouched.
\<close>

theorem load_safetensors_sound:
  assumes "arena_wf a" and "\<forall>v \<in> set out. length (tr_name v) = 128"
    and "load_safetensors files path a mem out = (Inr (), s)"
  shows "\<exists>m es vs. header_json files path = Inr m \<and> es = supported_entries (mapped_json m) \<and> es \<noteq> [] \<and>
    vs = take (ls_loaded s) (ls_out s) \<and> list_all2 (tensor_loaded (mapped_data m) (ls_mem s)) es vs \<and>
    sorted_wrt apart (map span_of es) \<and> sorted_wrt (\<lambda>v w. tr_data v + tr_bytes v \<le> tr_data w) vs \<and>
    (\<forall>v \<in> set vs. ar_cursor a \<le> tr_data v \<and> tr_data v + tr_bytes v \<le> ar_end a) \<and>
    (\<forall>i. i < ar_cursor a \<or> ar_end a \<le> i \<longrightarrow> ls_mem s i = mem i)"
proof -
  obtain m where m: "header_json files path = Inr m" using load_ok_header [OF assms(3)] by blast
  note inv = load_ok_inv [OF m assms(3,1,2), unfolded load_inv_def]
  show ?thesis
    by (rule exI [of _ m], rule exI [of _ "supported_entries (mapped_json m)"], rule exI [of _ "take (ls_loaded s) (ls_out s)"])
      (use m inv in \<open>auto simp: arena_wf_def\<close>)
qed

theorem load_safetensors_sound_witness:
  "\<exists>s. load_safetensors demo_files ''m.safetensors'' (make_arena 4096 65536) (\<lambda>_. 0) (replicate 1024 empty_ref) = (Inr (), s) \<and>
     list_all2 (tensor_loaded demo_data (ls_mem s)) [demo_b, demo_a] (take (ls_loaded s) (ls_out s))"
proof -
  let ?a = "make_arena 4096 65536"
  have a: "arena_wf ?a" by (simp add: arena_wf_def make_arena_def)
  have out: "\<forall>v \<in> set (replicate 1024 empty_ref). length (tr_name v) = 128" by (simp add: empty_ref_name)
  obtain s where s: "load_safetensors demo_files ''m.safetensors'' ?a (\<lambda>_. 0) (replicate 1024 empty_ref) = (Inr (), s)"
    using load_after_sizing [OF demo_weight_bytes, of ?a "replicate 1024 empty_ref" "\<lambda>_. 0"] a
    by (auto simp: make_arena_def kMaxSpans_def kSimdAlign_def)
  from load_safetensors_sound [OF a out s] s show ?thesis by (auto simp: demo_open demo_mapped demo_supported)
qed

text \<open>
  C21: Loading never fails after measuring: when the header yields a profile or none, the measured
  size is not zero and fits, and storage is found, \<open>ModelWeights::open\<close> returns a store with every
  supported tensor of the file; their sizes add up to \<open>weight_bytes\<close>, and each lies in the storage.
\<close>

theorem model_weights_open_complete:
  assumes "open_profile strtof profile_oom reserve_ok files path = Inr profile"
    and "safetensors_weight_bytes files path = n" and "n \<noteq> 0" and "n + kMaxTensors * (kSimdAlign - 1) \<le> SIZE_MAX"
    and "storage (n + kMaxTensors * (kSimdAlign - 1)) = Some base" and "0 < base"
  shows "\<exists>w m. model_weights_open strtof profile_oom reserve_ok storage mem files path = Inr w \<and>
    header_json files path = Inr m \<and> mw_deployment_profile w = profile \<and> mw_weight_bytes w = n \<and>
    list_all2 (tensor_loaded (mapped_data m) (mw_mem w)) (supported_entries (mapped_json m)) (tensors w) \<and>
    sum_list (map tr_bytes (tensors w)) = n \<and>
    (\<forall>v \<in> set (tensors w). base \<le> tr_data v \<and> tr_data v + tr_bytes v \<le> base + n + kMaxTensors * (kSimdAlign - 1))"
proof -
  let ?w = "make_model_weights base mem n profile"
  obtain m t where m: "header_json files path = Inr m" "n = sum_list (map te_length (supported_entries (mapped_json m)))"
    using assms(2,3) by (rule weight_bytes_nonzero)
  have a: "arena_wf (mw_arena ?w)" "0 < ar_cursor (mw_arena ?w)" "kMaxSpans \<le> length (mw_views ?w)"
    "ar_cursor (mw_arena ?w) + n + kMaxSpans * (kSimdAlign - 1) \<le> ar_end (mw_arena ?w)"
    using assms(6) by (simp_all add: make_model_weights_def Let_def make_arena_def arena_wf_def kMaxSpans_def kMaxTensors_def)
  have names: "\<forall>v \<in> set (mw_views ?w). length (tr_name v) = 128" by (simp add: make_model_weights_def Let_def empty_ref_name)
  obtain s where s: "load_safetensors files path (mw_arena ?w) (mw_mem ?w) (mw_views ?w) = (Inr (), s)"
    using load_after_sizing [OF assms(2,3) a(1,2,4,3)] by blast
  note inv = load_ok_inv [OF m(1) s a(1) names, unfolded load_inv_def]
  let ?w' = "?w\<lparr>mw_arena := ls_arena s, mw_mem := ls_mem s, mw_views := ls_out s, mw_tensor_count := ls_loaded s\<rparr>"
  have "model_weights_open strtof profile_oom reserve_ok storage mem files path = Inr ?w'"
    using assms s by (simp add: model_weights_open_def Let_def)
  moreover have L: "list_all2 (tensor_loaded (mapped_data m) (mw_mem ?w')) (supported_entries (mapped_json m)) (tensors ?w')"
    using inv by (simp add: tensors_def)
  moreover have "map tr_bytes (tensors ?w') = map te_length (supported_entries (mapped_json m))"
    using L by (induction rule: list_all2_induct) (simp_all add: tensor_loaded_def)
  moreover have "\<forall>v \<in> set (tensors ?w'). base \<le> tr_data v \<and> tr_data v + tr_bytes v \<le> base + n + kMaxTensors * (kSimdAlign - 1)"
    using inv by (auto simp: tensors_def make_model_weights_def Let_def make_arena_def arena_wf_def)
  ultimately show ?thesis
    using m by (intro exI [of _ ?w'] exI [of _ m]) (simp add: make_model_weights_def Let_def)
qed

theorem model_weights_open_complete_witness:
  "\<exists>w. model_weights_open (\<lambda>_. (Fin 0, 0)) False (\<lambda>_. True) (\<lambda>n. Some 4096) (\<lambda>_. 0) demo_files ''m.safetensors'' = Inr w \<and>
     mw_weight_bytes w = 6 \<and> list_all2 (tensor_loaded demo_data (mw_mem w)) [demo_b, demo_a] (tensors w)"
  using model_weights_open_complete [OF demo_no_profile demo_weight_bytes, of "\<lambda>n. Some 4096" 4096
      "\<lambda>_. (Fin 0, 0)" False "\<lambda>_. True" "\<lambda>_. 0"]
  by (auto simp: demo_open demo_mapped demo_supported kMaxTensors_def kSimdAlign_def)

text \<open>
  The shape that \<open>safetensors_tensor_shape\<close> reads from the header for sizing is the shape of the
  tensor that \<open>find_tensor\<close> later finds under that name in the opened store, and zero for a name that
  is not there, when names fit the view's buffer.
\<close>

theorem tensor_shape_agrees:
  assumes "model_weights_open strtof profile_oom reserve_ok storage mem files path = Inr w"
    and "header_json files path = Inr m"
    and "\<forall>e \<in> set (supported_entries (mapped_json m)). length (te_name e) \<le> 127 \<and> CHR 0x00 \<notin> set (te_name e)"
  shows "safetensors_tensor_shape files path name =
    (case find_tensor_ref (tensors w) name of None \<Rightarrow> [0, 0, 0, 0] | Some v \<Rightarrow> tr_shape v)"
proof -
  obtain base profile s where
    s: "load_safetensors files path (mw_arena (make_model_weights base mem (safetensors_weight_bytes files path) profile))
          (mw_mem (make_model_weights base mem (safetensors_weight_bytes files path) profile))
          (mw_views (make_model_weights base mem (safetensors_weight_bytes files path) profile)) = (Inr (), s)"
    (is "load_safetensors _ _ (mw_arena ?w) _ _ = _")
    and w: "tensors w = take (ls_loaded s) (ls_out s)"
    using assms(1) by (auto simp: model_weights_open_def Let_def tensors_def split: sum.splits option.splits if_splits prod.splits)
  have "arena_wf (mw_arena ?w)" "\<forall>v \<in> set (mw_views ?w). length (tr_name v) = 128"
    by (simp_all add: make_model_weights_def Let_def make_arena_def arena_wf_def empty_ref_name)
  then have L: "list_all2 (tensor_loaded (mapped_data m) (ls_mem s)) (supported_entries (mapped_json m)) (tensors w)"
    using load_ok_inv [OF assms(2) s] w by (simp add: load_inv_def)
  have "rel_option (tensor_loaded (mapped_data m) (ls_mem s)) (find (\<lambda>e. te_name e = name) (supported_entries (mapped_json m)))
    (find (\<lambda>t. name_text (tr_name t) = name) (tensors w))"
    using L by (rule find_list_all2) (use assms(3) name_text_short in \<open>auto simp: tensor_loaded_def\<close>)
  then show ?thesis unfolding tensor_shape_found [OF assms(2)] find_tensor_ref_def
    by (cases rule: option.rel_cases) (simp_all add: tensor_loaded_def)
qed

theorem tensor_shape_agrees_witness:
  "\<exists>w. model_weights_open (\<lambda>_. (Fin 0, 0)) False (\<lambda>_. True) (\<lambda>n. Some 4096) (\<lambda>_. 0) demo_files ''m.safetensors'' = Inr w \<and>
     (case find_tensor_ref (tensors w) ''a'' of None \<Rightarrow> [0, 0, 0, 0] | Some v \<Rightarrow> tr_shape v) = [1, 1, 0, 0]"
proof -
  have m: "model_weights_open (\<lambda>_. (Fin 0, 0)) False (\<lambda>_. True) (\<lambda>n. Some 4096) (\<lambda>_. 0) demo_files ''m.safetensors'' \<noteq> Inl e" for e
    using load_after_sizing [OF demo_weight_bytes, of "make_arena 4096 (6 + kMaxTensors * (kSimdAlign - 1))" "replicate kMaxTensors empty_ref"
        "write_mem 4096 (replicate (6 + kMaxTensors * (kSimdAlign - 1)) 0) (\<lambda>_. 0)"]
    by (auto simp: model_weights_open_def demo_no_profile demo_weight_bytes make_model_weights_def Let_def make_arena_def arena_wf_def
        kMaxSpans_def kMaxTensors_def kSimdAlign_def)
  then obtain w where w: "model_weights_open (\<lambda>_. (Fin 0, 0)) False (\<lambda>_. True) (\<lambda>n. Some 4096) (\<lambda>_. 0) demo_files ''m.safetensors'' = Inr w"
    by (cases "model_weights_open (\<lambda>_. (Fin 0, 0)) False (\<lambda>_. True) (\<lambda>n. Some 4096) (\<lambda>_. 0) demo_files ''m.safetensors''") auto
  have "safetensors_tensor_shape demo_files ''m.safetensors'' ''a'' = [1, 1, 0, 0]"
    by (simp add: tensor_shape_found [OF demo_open] demo_mapped demo_supported demo_a_def demo_b_def copy_shape_def upt_rec)
  with tensor_shape_agrees [OF w demo_open, of "''a''"] w show ?thesis
    by (auto simp: demo_mapped demo_supported demo_a_def demo_b_def)
qed

section \<open>Two limits of the header scan\<close>

text \<open>
  A closing brace inside a metadata string ends the metadata object early: the tensor that follows is
  reported under the text between the next two quotes instead of its own name.
\<close>

lemma brace_in_metadata_renames_tensor:
  "map te_name (snd (tensor_entries
     ''{\"__metadata__\":{\"n\":\"}\"},\"w\":{\"dtype\":\"F32\",\"shape\":[1],\"data_offsets\":[0,4]}}'')) = [''},'']"
  by (simp add: tensor_entries_def foreach_tensor_def tensor_loop.simps scan_eval collect_def)

text \<open>A metadata string that ends in an escaped backslash is never closed for \<open>metadata_string_value\<close>.\<close>

lemma escaped_backslash_unterminated:
  "metadata_string_value (''{\"k\":\"a'' @ [backslash, backslash] @ ''\"}'') ''k'' = \<lparr>md_value = [], md_present = True, md_valid = False\<rparr>"
  by (simp add: metadata_string_value_def quoted_key_pos_def key_scan.simps sv_find_def string_end.simps json_space_def)

end
