(* ===== verification/FE_Rounding.thy ===== *)
theory FE_Rounding
  imports FE_Float "HOL-Library.Log_Nat"
begin

text \<open>
  IEEE binary arithmetic on the type \<open>fp\<close>: the exact result is rounded to the nearest value with
  \<open>p\<close> bits of significand, ties to even, and becomes an infinity beyond the largest exponent.
  \<open>round32\<close> and \<open>round64\<close> are the formats of \<open>float\<close> and \<open>double\<close>. The sign of a zero is not kept.
  The lemmas say what the components use: rounding is monotone, keeps the values of the format, and
  every \<open>float\<close> is a \<open>double\<close>.
\<close>

section \<open>Definitions\<close>

definition ilog2 :: "rat \<Rightarrow> int" where
  "ilog2 x =
     (let (n, d) = quotient_of x; e = bitlen n - bitlen d
      in if 2 powi e \<le> x then e else e - 1)"

definition round_half_even :: "rat \<Rightarrow> int" where
  "round_half_even x =
     (let f = \<lfloor>x\<rfloor>; r = x - of_int f
      in if r < 1 / 2 then f else if r > 1 / 2 then f + 1 else if even f then f else f + 1)"

text \<open>The exponent of the last place of a positive number.\<close>

definition ulp_exp :: "nat \<Rightarrow> int \<Rightarrow> rat \<Rightarrow> int" where
  "ulp_exp p emin x = max (ilog2 x) emin - (int p - 1)"

definition round_pos :: "nat \<Rightarrow> int \<Rightarrow> rat \<Rightarrow> rat" where
  "round_pos p emin x = of_int (round_half_even (x / 2 powi ulp_exp p emin x)) * 2 powi ulp_exp p emin x"

definition round_abs :: "nat \<Rightarrow> int \<Rightarrow> rat \<Rightarrow> rat" where
  "round_abs p emin x = (if x = 0 then 0 else if x < 0 then - round_pos p emin (- x) else round_pos p emin x)"

definition round_fp :: "nat \<Rightarrow> int \<Rightarrow> int \<Rightarrow> rat \<Rightarrow> fp" where
  "round_fp p emin emax x =
     (let y = round_abs p emin x
      in if y \<ge> 2 powi (emax + 1) then Inf False else if y \<le> - (2 powi (emax + 1)) then Inf True else Fin y)"

definition round32 :: "rat \<Rightarrow> fp" where "round32 = round_fp 24 (-126) 127"
definition round64 :: "rat \<Rightarrow> fp" where "round64 = round_fp 53 (-1022) 1023"

definition fp_le :: "fp \<Rightarrow> fp \<Rightarrow> bool" where
  "fp_le x y \<longleftrightarrow> fp_lt x y \<or> fp_eq x y"

text \<open>Operations of \<open>double\<close>; a \<open>float\<close> operand is widened, which keeps its value. \<open>to_float\<close> narrows.\<close>

fun fp_neg :: "fp \<Rightarrow> fp" where
  "fp_neg (Fin x) = Fin (- x)"
| "fp_neg (Inf s) = Inf (\<not> s)"
| "fp_neg NaN = NaN"

fun fp_abs :: "fp \<Rightarrow> fp" where
  "fp_abs (Fin x) = Fin \<bar>x\<bar>"
| "fp_abs (Inf s) = Inf False"
| "fp_abs NaN = NaN"

fun double_add :: "fp \<Rightarrow> fp \<Rightarrow> fp" where
  "double_add NaN _ = NaN"
| "double_add _ NaN = NaN"
| "double_add (Inf s) (Inf t) = (if s = t then Inf s else NaN)"
| "double_add (Inf s) (Fin _) = Inf s"
| "double_add (Fin _) (Inf t) = Inf t"
| "double_add (Fin x) (Fin y) = round64 (x + y)"

definition double_sub :: "fp \<Rightarrow> fp \<Rightarrow> fp" where
  "double_sub x y = double_add x (fp_neg y)"

fun double_mul :: "fp \<Rightarrow> fp \<Rightarrow> fp" where
  "double_mul NaN _ = NaN"
| "double_mul _ NaN = NaN"
| "double_mul (Inf s) (Inf t) = Inf (s \<noteq> t)"
| "double_mul (Inf s) (Fin y) = (if y = 0 then NaN else Inf (s \<noteq> (y < 0)))"
| "double_mul (Fin x) (Inf t) = (if x = 0 then NaN else Inf ((x < 0) \<noteq> t))"
| "double_mul (Fin x) (Fin y) = round64 (x * y)"

text \<open>Division of \<open>float\<close>; a zero divisor counts as positive.\<close>

fun float_div :: "fp \<Rightarrow> fp \<Rightarrow> fp" where
  "float_div NaN _ = NaN"
| "float_div _ NaN = NaN"
| "float_div (Inf s) (Inf t) = NaN"
| "float_div (Inf s) (Fin y) = Inf (s \<noteq> (y < 0))"
| "float_div (Fin x) (Inf t) = Fin 0"
| "float_div (Fin x) (Fin y) = (if y \<noteq> 0 then round32 (x / y) else if x = 0 then NaN else Inf (x < 0))"

fun to_float :: "fp \<Rightarrow> fp" where
  "to_float (Fin x) = round32 x"
| "to_float y = y"

text \<open>\<open>std::clamp\<close>\<close>

definition fp_clamp :: "fp \<Rightarrow> fp \<Rightarrow> fp \<Rightarrow> fp" where
  "fp_clamp v lo hi = (if fp_lt v lo then lo else if fp_lt hi v then hi else v)"

fun is_float :: "fp \<Rightarrow> bool" where
  "is_float (Fin x) = (round32 x = Fin x)"
| "is_float _ = True"

section \<open>The logarithm and the rounding to an integer\<close>

lemma ilog2_bounds:
  assumes "0 < x"
  shows "2 powi ilog2 x \<le> x \<and> x < 2 powi (ilog2 x + 1)"
proof -
  obtain n d where q: "quotient_of x = (n, d)" by fastforce
  have d: "0 < d" using quotient_of_denom_pos [OF q] .
  have x: "x = of_int n / of_int d" using quotient_of_div [OF q] .
  then have n: "0 < n" using assms d by (simp add: zero_less_divide_iff)
  let ?a = "bitlen n" and ?b = "bitlen d"
  have ab: "1 \<le> ?a" "1 \<le> ?b" using n d by (simp_all add: bitlen_alt_def)
  have pow: "of_int (2 ^ nat k) = (2 powi k :: rat)" if "0 \<le> k" for k using that by (simp add: power_int_nonneg_exp)
  have "(of_int (2 ^ nat (?a - 1)) :: rat) \<le> of_int n" "(of_int n :: rat) < of_int (2 ^ nat ?a)"
    "(of_int (2 ^ nat (?b - 1)) :: rat) \<le> of_int d" "(of_int d :: rat) < of_int (2 ^ nat ?b)"
    unfolding of_int_le_iff of_int_less_iff using bitlen_bounds n d by blast+
  then have N: "(2 powi (?a - 1) :: rat) \<le> of_int n" "(of_int n :: rat) < 2 powi ?a"
    and D: "(2 powi (?b - 1) :: rat) \<le> of_int d" "(of_int d :: rat) < 2 powi ?b"
    using pow ab by (simp_all del: of_int_power of_int_numeral)
  let ?e = "?a - ?b"
  have up: "x < 2 powi (?e + 1)"
  proof -
    have "2 powi ?a = 2 powi (?e + 1) * (2 powi (?b - 1) :: rat)" by (simp flip: power_int_add)
    also have "\<dots> \<le> 2 powi (?e + 1) * of_int d" using D(1) by (intro mult_left_mono) simp_all
    finally show ?thesis unfolding x using N(2) d by (simp add: divide_less_eq)
  qed
  have low: "2 powi (?e - 1) \<le> x"
  proof -
    have "2 powi (?e - 1) * of_int d \<le> 2 powi (?e - 1) * (2 powi ?b :: rat)" using D(2) by (intro mult_left_mono) simp_all
    also have "\<dots> = 2 powi (?a - 1)" by (simp flip: power_int_add)
    finally show ?thesis unfolding x using N(1) d by (simp add: le_divide_eq)
  qed
  show ?thesis
  proof (cases "2 powi ?e \<le> x")
    case True
    then show ?thesis using up by (simp add: ilog2_def q)
  next
    case False
    then show ?thesis using low by (simp add: ilog2_def q)
  qed
qed

lemma powi_le_iff: "(2 powi a :: rat) \<le> 2 powi b \<longleftrightarrow> a \<le> b"
  using power_int_increasing [of a b "2 :: rat"] power_int_strict_increasing [of b a "2 :: rat"] by fastforce

lemma powi_less_iff: "(2 powi a :: rat) < 2 powi b \<longleftrightarrow> a < b"
  using powi_le_iff [of b a] by auto

lemma ilog2_unique: "2 powi e \<le> x \<Longrightarrow> x < 2 powi (e + 1) \<Longrightarrow> ilog2 x = e"
proof -
  assume e: "2 powi e \<le> x" "x < 2 powi (e + 1)"
  have "0 < x" using e(1) by (rule less_le_trans [rotated]) simp
  note b = ilog2_bounds [OF this]
  have "(2 powi e :: rat) < 2 powi (ilog2 x + 1)" "(2 powi ilog2 x :: rat) < 2 powi (e + 1)" using e b by linarith+
  then show ?thesis unfolding powi_less_iff by linarith
qed

lemma ilog2_mono: "0 < x \<Longrightarrow> x \<le> y \<Longrightarrow> ilog2 x \<le> ilog2 y"
proof -
  assume "0 < x" "x \<le> y"
  then have "(2 powi ilog2 x :: rat) < 2 powi (ilog2 y + 1)" using ilog2_bounds [of x] ilog2_bounds [of y] by linarith
  then show ?thesis unfolding powi_less_iff by simp
qed

lemma round_half_even_int [simp]: "round_half_even (of_int k) = k"
  by (simp add: round_half_even_def)

lemma round_half_even_near: "round_half_even x \<in> {\<lfloor>x\<rfloor>, \<lfloor>x\<rfloor> + 1}"
  by (simp add: round_half_even_def Let_def)

lemma round_half_even_mono:
  assumes "x \<le> y"
  shows "round_half_even x \<le> round_half_even y"
proof (cases "\<lfloor>x\<rfloor> = \<lfloor>y\<rfloor>")
  case True
  then show ?thesis using assms by (auto simp: round_half_even_def Let_def)
next
  case False
  then have "\<lfloor>x\<rfloor> + 1 \<le> \<lfloor>y\<rfloor>" using floor_mono [OF assms] by simp
  then show ?thesis using round_half_even_near [of x] round_half_even_near [of y] by auto
qed

section \<open>Rounding to a format\<close>

lemma round_half_even_nonneg: "0 \<le> x \<Longrightarrow> 0 \<le> round_half_even x"
  using round_half_even_mono [of 0 x] round_half_even_int [of 0] by simp

lemma round_pos_nonneg: "0 < x \<Longrightarrow> 0 \<le> round_pos p emin x"
  by (simp add: round_pos_def round_half_even_nonneg)

lemma powi_split: "(2 powi (a + b) :: rat) = 2 powi a * 2 powi b"
  by (simp add: power_int_add)

lemma round_scaled:
  assumes "0 \<le> k" "2 powi k * q = b" "0 < q"
  shows "x \<le> b \<Longrightarrow> of_int (round_half_even (x / q)) * q \<le> b" "b \<le> x \<Longrightarrow> b \<le> of_int (round_half_even (x / q)) * q"
proof -
  have k: "(of_int (2 ^ nat k) :: rat) = 2 powi k" using assms(1) by (simp add: power_int_nonneg_exp)
  have b: "b / q = of_int (2 ^ nat k)" unfolding k using assms(2,3) by auto
  have r: "round_half_even (b / q) = 2 ^ nat k" unfolding b by (rule round_half_even_int)
  show "of_int (round_half_even (x / q)) * q \<le> b" if "x \<le> b"
  proof -
    have "x / q \<le> b / q" using that assms(3) by (simp add: divide_right_mono)
    then have "of_int (round_half_even (x / q)) \<le> (of_int (2 ^ nat k) :: rat)" unfolding of_int_le_iff r [symmetric] by (rule round_half_even_mono)
    then show ?thesis unfolding k assms(2) [symmetric] using assms(3) by (simp add: mult_right_mono)
  qed
  show "b \<le> of_int (round_half_even (x / q)) * q" if "b \<le> x"
  proof -
    have "b / q \<le> x / q" using that assms(3) by (simp add: divide_right_mono)
    then have "(of_int (2 ^ nat k) :: rat) \<le> of_int (round_half_even (x / q))" unfolding of_int_le_iff r [symmetric] by (rule round_half_even_mono)
    then show ?thesis unfolding k assms(2) [symmetric] using assms(3) by (simp add: mult_right_mono)
  qed
qed

lemma round_pos_le:
  assumes "0 < p" "0 < x" "x \<le> 2 powi e" "max (ilog2 x) emin \<le> e"
  shows "round_pos p emin x \<le> 2 powi e"
  unfolding round_pos_def
proof (rule round_scaled(1))
  show "0 \<le> e - ulp_exp p emin x" using assms(1,4) by (simp add: ulp_exp_def max_def split: if_splits)
qed (use assms(3) in \<open>simp_all flip: powi_split\<close>)

lemma round_pos_ge:
  assumes "0 < p" "2 powi e \<le> x" "e - (int p - 1) = ulp_exp p emin x"
  shows "2 powi e \<le> round_pos p emin x"
  unfolding round_pos_def
  by (rule round_scaled(2) [where k = "int p - 1"])
    (use assms(1,2) in \<open>simp_all add: assms(3) [symmetric] flip: powi_split\<close>)

lemma round_pos_mono:
  assumes p: "0 < p" and x: "0 < x" "x \<le> y"
  shows "round_pos p emin x \<le> round_pos p emin y"
proof (cases "ulp_exp p emin x = ulp_exp p emin y")
  case True
  have "round_half_even (x / 2 powi ulp_exp p emin y) \<le> round_half_even (y / 2 powi ulp_exp p emin y)"
    using x by (intro round_half_even_mono divide_right_mono) simp_all
  then show ?thesis unfolding round_pos_def True by (simp add: mult_right_mono)
next
  case False
  let ?ex = "max (ilog2 x) emin" and ?ey = "ilog2 y"
  have e: "ilog2 x \<le> ?ey" using ilog2_mono [OF x] .
  with False have ey: "?ex + 1 \<le> ?ey" "emin < ?ey" by (auto simp: ulp_exp_def)
  have "x \<le> 2 powi ?ey"
  proof -
    have "x < 2 powi (ilog2 x + 1)" using ilog2_bounds [OF x(1)] by blast
    also have "\<dots> \<le> 2 powi ?ey" unfolding powi_le_iff using ey by simp
    finally show ?thesis by simp
  qed
  then have "round_pos p emin x \<le> 2 powi ?ey" using round_pos_le [OF p x(1)] ey by simp
  also have "2 powi ?ey \<le> round_pos p emin y"
    by (rule round_pos_ge [OF p]) (use ilog2_bounds [of y] x ey in \<open>auto simp: ulp_exp_def\<close>)
  finally show ?thesis .
qed

text \<open>The positive numbers of a format: multiples of their last place.\<close>

definition on_grid :: "nat \<Rightarrow> int \<Rightarrow> rat \<Rightarrow> bool" where
  "on_grid p emin x \<longleftrightarrow> x / 2 powi ulp_exp p emin x \<in> \<int>"

lemma round_pos_grid: "on_grid p emin x \<Longrightarrow> round_pos p emin x = x"
proof -
  assume "on_grid p emin x"
  then obtain z where z: "x / 2 powi ulp_exp p emin x = of_int z" by (auto simp: on_grid_def elim: Ints_cases)
  then have "round_pos p emin x = of_int z * 2 powi ulp_exp p emin x" by (simp add: round_pos_def)
  also have "\<dots> = x" unfolding z [symmetric] by simp
  finally show ?thesis .
qed

lemma multiple_of_finer: "x / 2 powi a \<in> \<int> \<Longrightarrow> b \<le> a \<Longrightarrow> x / (2 powi b :: rat) \<in> \<int>"
proof -
  assume a: "x / 2 powi a \<in> \<int>" "b \<le> a"
  have "x / 2 powi b = x / 2 powi a * 2 powi (a - b)" by (simp add: power_int_diff)
  moreover have "(2 powi (a - b) :: rat) \<in> \<int>" using a(2) by (simp add: power_int_nonneg_exp)
  ultimately show ?thesis using Ints_mult [OF a(1)] by metis
qed

lemma grid_round_pos:
  assumes p: "0 < p" and x: "0 < x" and y: "0 < round_pos p emin x"
  shows "on_grid p emin (round_pos p emin x)"
proof -
  let ?e = "max (ilog2 x) emin" and ?y = "round_pos p emin x"
  have q: "?y / 2 powi ulp_exp p emin x \<in> \<int>" by (simp add: round_pos_def)
  have "x \<le> 2 powi (?e + 1)"
  proof -
    have "x < 2 powi (ilog2 x + 1)" using ilog2_bounds [OF x] by blast
    also have "\<dots> \<le> 2 powi (?e + 1)" unfolding powi_le_iff by simp
    finally show ?thesis by simp
  qed
  then have le: "?y \<le> 2 powi (?e + 1)" using round_pos_le [OF p x, of "?e + 1" emin] by simp
  show ?thesis
  proof (cases "?y = 2 powi (?e + 1)")
    case True
    have i: "ilog2 ?y = ?e + 1" by (rule ilog2_unique) (simp_all add: True powi_less_iff)
    have "?y / 2 powi ulp_exp p emin ?y = 2 powi (int p - 1)"
      unfolding ulp_exp_def i by (simp add: True flip: power_int_diff)
    then show ?thesis using p by (simp add: on_grid_def power_int_nonneg_exp)
  next
    case False
    then have "?y < 2 powi (?e + 1)" using le by simp
    moreover have "2 powi ilog2 ?y \<le> ?y" using ilog2_bounds [OF y] by blast
    ultimately have "(2 powi ilog2 ?y :: rat) < 2 powi (?e + 1)" by simp
    then have "ilog2 ?y \<le> ?e" unfolding powi_less_iff by simp
    then have "ulp_exp p emin ?y \<le> ulp_exp p emin x" by (simp add: ulp_exp_def)
    then show ?thesis unfolding on_grid_def using multiple_of_finer [OF q] by blast
  qed
qed

lemma round_abs_mono: "0 < p \<Longrightarrow> x \<le> y \<Longrightarrow> round_abs p emin x \<le> round_abs p emin y"
  using round_pos_mono [of p x y emin] round_pos_mono [of p "- y" "- x" emin] round_pos_nonneg [of y p emin]
    round_pos_nonneg [of "- x" p emin]
  by (auto simp: round_abs_def)

lemma round_abs_idem: "0 < p \<Longrightarrow> round_abs p emin (round_abs p emin x) = round_abs p emin x"
  using grid_round_pos [of p x emin] grid_round_pos [of p "- x" emin] round_pos_grid [of p emin "round_pos p emin x"]
    round_pos_grid [of p emin "round_pos p emin (- x)"] round_pos_nonneg [of x p emin] round_pos_nonneg [of "- x" p emin]
  by (auto simp: round_abs_def not_less order_le_less)

section \<open>Monotone and stable\<close>

lemma fp_le_simps:
  "fp_le (Fin x) (Fin y) \<longleftrightarrow> x \<le> y" "fp_le (Fin x) (Inf s) \<longleftrightarrow> \<not> s" "fp_le (Inf s) (Fin x) \<longleftrightarrow> s"
  "fp_le (Inf s) (Inf t) \<longleftrightarrow> (s \<or> \<not> t)" "\<not> fp_le NaN v" "\<not> fp_le v NaN"
  by (cases v; auto simp: fp_le_def)+

lemma fp_le_trans: "fp_le x y \<Longrightarrow> fp_le y z \<Longrightarrow> fp_le x z"
  by (cases x; cases y; cases z) (auto simp: fp_le_simps)

lemma fp_le_total: "x \<noteq> NaN \<Longrightarrow> y \<noteq> NaN \<Longrightarrow> \<not> fp_lt x y \<longleftrightarrow> fp_le y x"
  by (cases x; cases y) (auto simp: fp_le_simps)

lemma fp_lt_le: "fp_lt x y \<Longrightarrow> fp_le x y"
  by (simp add: fp_le_def)

lemma round_fp_mono: "0 < p \<Longrightarrow> x \<le> y \<Longrightarrow> fp_le (round_fp p emin emax x) (round_fp p emin emax y)"
  using round_abs_mono [of p x y emin] by (auto simp: round_fp_def Let_def fp_le_simps)

lemma round_fp_idem: "0 < p \<Longrightarrow> round_fp p emin emax x = Fin y \<Longrightarrow> round_fp p emin emax y = Fin y"
  using round_abs_idem [of p emin x] by (auto simp: round_fp_def Let_def split: if_splits)

lemmas round32_mono = round_fp_mono [of 24 _ _ "-126" 127, folded round32_def, simplified]
lemmas round64_mono = round_fp_mono [of 53 _ _ "-1022" 1023, folded round64_def, simplified]

lemma round32_float: "is_float (round32 x)"
  by (cases "round32 x") (auto simp: round32_def intro: round_fp_idem [of 24])

lemma round_not_nan: "round32 x \<noteq> NaN" "round64 x \<noteq> NaN"
  by (simp_all add: round32_def round64_def round_fp_def Let_def)

text \<open>A \<open>float\<close> is a \<open>double\<close>.\<close>

lemma round_abs_fixed_pos: "0 < x \<Longrightarrow> round_abs p emin x = x \<longleftrightarrow> on_grid p emin x"
  using round_pos_grid [of p emin x]
  by (auto simp: round_abs_def on_grid_def round_pos_def) (metis Ints_of_int nonzero_mult_div_cancel_right power_int_not_zero zero_neq_numeral)

lemma float_fixed: "round_abs 24 (-126) x = x \<Longrightarrow> round_abs 53 (-1022) x = x"
proof -
  have pos: "round_abs 53 (-1022) y = y" if y: "0 < y" "round_abs 24 (-126) y = y" for y
  proof -
    have "on_grid 24 (-126) y" using y round_abs_fixed_pos by blast
    then have "on_grid 53 (-1022) y" unfolding on_grid_def by (rule multiple_of_finer) (simp add: ulp_exp_def max_def)
    then show ?thesis using round_abs_fixed_pos [OF y(1)] by blast
  qed
  assume x: "round_abs 24 (-126) x = x"
  consider "x = 0" | "0 < x" | "0 < - x" by linarith
  then show ?thesis
  proof cases
    case 3
    then have "round_abs 24 (-126) (- x) = - x" using x by (simp add: round_abs_def)
    from pos [OF 3 this] 3 show ?thesis by (simp add: round_abs_def)
  qed (use x pos in \<open>auto simp: round_abs_def\<close>)
qed

lemma float_is_double: "round32 x = Fin x \<Longrightarrow> round64 x = Fin x"
proof -
  assume "round32 x = Fin x"
  then have x: "round_abs 24 (-126) x = x" "x < 2 powi 128" "- x < 2 powi 128"
    by (auto simp: round32_def round_fp_def Let_def split: if_splits)
  have "(2 powi 128 :: rat) \<le> 2 powi 1024" unfolding powi_le_iff by simp
  then have "x < 2 powi (1023 + 1)" "- x < 2 powi (1023 + 1)" using x(2,3) by simp_all
  then show ?thesis using float_fixed [OF x(1)] by (simp add: round64_def round_fp_def Let_def)
qed

section \<open>Clamping\<close>

lemma fp_clamp_bounds: "v \<noteq> NaN \<Longrightarrow> fp_le lo hi \<Longrightarrow> fp_le lo (fp_clamp v lo hi) \<and> fp_le (fp_clamp v lo hi) hi"
  by (cases v; cases lo; cases hi) (auto simp: fp_clamp_def fp_le_simps)

lemma fp_clamp_between:
  assumes "fp_le a v" "fp_le v b" "fp_le a w" "fp_le w b" "fp_le lo w" "fp_le w hi"
  shows "fp_le a (fp_clamp v lo hi) \<and> fp_le (fp_clamp v lo hi) b"
  using assms fp_le_trans [of a v lo] fp_le_trans [of lo w b] fp_le_trans [of hi v b] fp_le_trans [of a w hi]
  by (auto simp: fp_clamp_def fp_lt_le)

lemma fp_clamp_cases: "fp_clamp v lo hi \<in> {v, lo, hi}"
  by (simp add: fp_clamp_def)

lemma to_float_mono: "fp_le x y \<Longrightarrow> fp_le (to_float x) (to_float y)"
proof -
  have "fp_le (round32 r) (Inf False)" "fp_le (Inf True) (round32 r)" for r
    using round_not_nan(1) [of r] by (cases "round32 r"; simp add: fp_le_simps)+
  then show "fp_le x y \<Longrightarrow> fp_le (to_float x) (to_float y)"
    by (cases x; cases y) (auto simp: fp_le_simps round32_mono)
qed

lemma to_float_float: "is_float (to_float x)"
  by (cases x) (simp_all add: round32_float)

lemma double_add_mono: "x \<le> y \<Longrightarrow> isfinite c \<Longrightarrow> fp_le (double_add c (Fin x)) (double_add c (Fin y))"
  by (cases c) (auto simp: round64_mono)

end
