(* ===== verification/Action_Delivery.thy ===== *)
theory Action_Delivery
  imports Messages FE_Rounding
begin

text \<open>
  relay/protocol/action\_chunks.h and relay/client/action\_delivery.\{h,cc\}: the gate between the
  relay and a robot controller. A complete action message becomes a chunk of control steps with a
  time window; the gate accepts newer chunks of one session, blends a replacement into the chunk it
  replaces, and publishes one step per call, inside absolute limits and a limit on the change per step.

  Arithmetic on floats is that of \<open>FE_Rounding\<close>. \<open>std::lerp\<close> is a parameter, since the standard does
  not fix its rounding; \<open>lerp_ok\<close> is what the standard promises of it. The arrays of the gate keep
  their length \<open>kMaxActionDim\<close>; \<open>std::copy_n\<close> is \<open>blit\<close>.
\<close>

section \<open>Definitions\<close>

subsection \<open>Chunks\<close>

definition kActionChunkProtocolVersion :: u32 where "kActionChunkProtocolVersion = 1"

datatype ActionChunkError =
  ACE_kInvalidAction | ACE_kIncompleteAction | ACE_kInvalidShape | ACE_kInvalidTime | ACE_kExpired | ACE_kNonFinite

record ActionChunkDescriptor =
  acd_struct_size :: u32
  acd_protocol_version :: u32
  acd_control_dim :: u32
  acd_step_count :: u32
  acd_model_digest :: ModelDigest
  acd_sequence :: u64
  acd_session_id :: u64
  acd_generation :: u64
  acd_source_timestamp_ns :: u64
  acd_source_deadline_ns :: u64
  acd_produced_ns :: u64
  acd_valid_from_ns :: u64
  acd_valid_until_ns :: u64

definition sizeof_ActionChunkDescriptor :: u32 where "sizeof_ActionChunkDescriptor = 96"

record ActionChunkView =
  acv_descriptor :: ActionChunkDescriptor
  acv_values :: "fp list"

definition chunk_step :: "ActionChunkView \<Rightarrow> nat \<Rightarrow> fp list" where
  "chunk_step v index =
     (let width = unat (acd_control_dim (acv_descriptor v)); n = length (acv_values v)
      in if index \<ge> unat (acd_step_count (acv_descriptor v)) \<or> width = 0 \<or> index > n div width \<or> width > n - index * width
         then [] else take width (drop (index * width) (acv_values v)))"

definition action_chunk_error_to_string :: "ActionChunkError \<Rightarrow> string" where
  "action_chunk_error_to_string e =
     (case e of
        ACE_kInvalidAction \<Rightarrow> ''invalid_action''
      | ACE_kIncompleteAction \<Rightarrow> ''incomplete_action''
      | ACE_kInvalidShape \<Rightarrow> ''invalid_shape''
      | ACE_kInvalidTime \<Rightarrow> ''invalid_time''
      | ACE_kExpired \<Rightarrow> ''expired''
      | ACE_kNonFinite \<Rightarrow> ''non_finite'')"

definition make_action_chunk ::
  "ActionMessage \<Rightarrow> nat \<Rightarrow> u64 \<Rightarrow> u64 \<Rightarrow> u64 \<Rightarrow> ActionChunkError + ActionChunkView" where
  "make_action_chunk action control_dim produced_ns valid_from_ns step_period_ns =
     (let md = am_metadata action
      in if validate_action action \<noteq> PR_kSuccess then Inl ACE_kInvalidAction
         else if action_code action \<noteq> RelayAction_kInference \<or> fam_status md \<noteq> FE_ACTION_COMPLETE \<or> fam_remaining_nfe md \<noteq> 0
           then Inl ACE_kIncompleteAction
         else if control_dim = 0 \<or> control_dim > kMaxActionDim \<or> fam_action_dim md = 0 \<or> unat (fam_action_dim md) mod control_dim \<noteq> 0
           then Inl ACE_kInvalidShape
         else
           (let step_count = fam_action_dim md div of_nat control_dim
            in if step_count = 0 \<or> step_count > 0xFFFFFFFF \<or> step_period_ns = 0 then Inl ACE_kInvalidShape
               else if (fam_timestamp_ns md \<noteq> 0 \<and> produced_ns < fam_timestamp_ns md) \<or>
                       (fam_deadline_ns md \<noteq> 0 \<and> fam_deadline_ns md < fam_timestamp_ns md)
                 then Inl ACE_kInvalidTime
               else if fam_deadline_ns md \<noteq> 0 \<and> produced_ns > fam_deadline_ns md then Inl ACE_kExpired
               else
                 (let start = (if valid_from_ns = 0 then produced_ns else valid_from_ns)
                  in if step_count > (U64_MAX - start) div step_period_ns then Inl ACE_kInvalidTime
                     else
                       (let valid_until = start + step_count * step_period_ns; values = take (unat (fam_action_dim md)) (am_action action)
                        in if valid_until \<le> produced_ns then Inl ACE_kExpired
                           else if list_ex (\<lambda>v. \<not> isfinite v) values then Inl ACE_kNonFinite
                           else Inr \<lparr>acv_descriptor =
                                  \<lparr>acd_struct_size = sizeof_ActionChunkDescriptor, acd_protocol_version = kActionChunkProtocolVersion,
                                   acd_control_dim = of_nat control_dim, acd_step_count = ucast step_count,
                                   acd_model_digest = fam_model_digest md, acd_sequence = me_sequence (am_envelope action),
                                   acd_session_id = me_session_id (am_envelope action), acd_generation = fam_generation md,
                                   acd_source_timestamp_ns = fam_timestamp_ns md, acd_source_deadline_ns = fam_deadline_ns md,
                                   acd_produced_ns = produced_ns, acd_valid_from_ns = start, acd_valid_until_ns = valid_until\<rparr>,
                                  acv_values = values\<rparr>))))"

subsection \<open>The gate\<close>

datatype UnsafeActionPolicy = UAP_kReject | UAP_kClamp

datatype ActionChunkAcceptResult =
  AR_kAccepted | AR_kReplaced | AR_kInvalid | AR_kStale | AR_kExpired | AR_kSessionMismatch | AR_kUnsafe

datatype ActionStepError = ASE_kEmpty | ASE_kNotReady | ASE_kExpired | ASE_kUnsafe | ASE_kInvalidTime

datatype ActionDeliveryCreateError =
  ADE_kInvalidModel | ADE_kInvalidConfig | ADE_kInvalidOverlap | ADE_kLimitShapeMismatch | ADE_kInvalidLimit

definition action_delivery_create_error_to_string :: "ActionDeliveryCreateError \<Rightarrow> string" where
  "action_delivery_create_error_to_string e =
     (case e of
        ADE_kInvalidModel \<Rightarrow> ''invalid_model''
      | ADE_kInvalidConfig \<Rightarrow> ''invalid_config''
      | ADE_kInvalidOverlap \<Rightarrow> ''invalid_overlap''
      | ADE_kLimitShapeMismatch \<Rightarrow> ''limit_shape_mismatch''
      | ADE_kInvalidLimit \<Rightarrow> ''invalid_limit'')"

record ActionDeliveryConfig =
  dc_control_dim :: nat
  dc_overlap_steps :: nat
  dc_step_period_ns :: u64
  dc_max_source_age_ns :: u64
  dc_unsafe_policy :: UnsafeActionPolicy

record ActionSafetyLimits =
  lim_lower :: "fp list"
  lim_upper :: "fp list"
  lim_max_delta :: "fp list"

record ActionStepView =
  asv_values :: "fp list"
  asv_sequence :: u64
  asv_session_id :: u64
  asv_generation :: u64
  asv_step_index :: u32
  asv_blended :: bool
  asv_clamped :: bool

record ActionDeliveryCounters =
  adc_accepted :: u64
  adc_replaced :: u64
  adc_rejected_invalid :: u64
  adc_rejected_stale :: u64
  adc_rejected_expired :: u64
  adc_rejected_session :: u64
  adc_rejected_unsafe :: u64
  adc_published :: u64
  adc_blended :: u64
  adc_clamped_values :: u64
  adc_skipped_steps :: u64

definition zero_counters :: ActionDeliveryCounters where
  "zero_counters = \<lparr>adc_accepted = 0, adc_replaced = 0, adc_rejected_invalid = 0, adc_rejected_stale = 0, adc_rejected_expired = 0,
     adc_rejected_session = 0, adc_rejected_unsafe = 0, adc_published = 0, adc_blended = 0, adc_clamped_values = 0, adc_skipped_steps = 0\<rparr>"

definition default_chunk_descriptor :: ActionChunkDescriptor where
  "default_chunk_descriptor = \<lparr>acd_struct_size = sizeof_ActionChunkDescriptor, acd_protocol_version = kActionChunkProtocolVersion,
     acd_control_dim = 0, acd_step_count = 0, acd_model_digest = replicate 16 0, acd_sequence = 0, acd_session_id = 0, acd_generation = 0,
     acd_source_timestamp_ns = 0, acd_source_deadline_ns = 0, acd_produced_ns = 0, acd_valid_from_ns = 0, acd_valid_until_ns = 0\<rparr>"

record ActionDeliveryGate =
  g_config :: ActionDeliveryConfig
  g_model_digest :: ModelDigest
  g_model_action_values :: nat
  g_lower :: "fp list"
  g_upper :: "fp list"
  g_max_delta :: "fp list"
  g_active_values :: "fp list"
  g_overlap_values :: "fp list"
  g_output :: "fp list"
  g_pending_output :: "fp list"
  g_active_chunk :: ActionChunkDescriptor
  g_counters :: ActionDeliveryCounters
  g_next_step :: nat
  g_overlap_steps :: nat
  g_session_id :: u64
  g_newest_generation :: u64
  g_newest_sequence :: u64
  g_last_publish_ns :: u64
  g_active :: bool
  g_session_bound :: bool
  g_has_last_output :: bool

definition map_chunk_error :: "ActionChunkError \<Rightarrow> ActionChunkAcceptResult" where
  "map_chunk_error e =
     (case e of ACE_kExpired \<Rightarrow> AR_kExpired | ACE_kNonFinite \<Rightarrow> AR_kUnsafe | _ \<Rightarrow> AR_kInvalid)"


definition valid_model :: "fe_model_metadata \<Rightarrow> bool" where
  "valid_model model \<longleftrightarrow>
     unat (fmm_struct_size model) \<ge> sizeof_fe_model_metadata \<and> fmm_protocol_version model = FE_PROTOCOL_VERSION \<and>
     fmm_action_dim model \<noteq> 0 \<and> unat (fmm_action_dim model) \<le> kMaxActionDim"

definition make_gate :: "fe_model_metadata \<Rightarrow> ActionDeliveryConfig \<Rightarrow> ActionDeliveryGate" where
  "make_gate model config =
     (let zeros = replicate kMaxActionDim (Fin 0)
      in \<lparr>g_config = config, g_model_digest = fmm_model_digest model, g_model_action_values = unat (fmm_action_dim model),
          g_lower = zeros, g_upper = zeros, g_max_delta = zeros, g_active_values = zeros, g_overlap_values = zeros,
          g_output = zeros, g_pending_output = zeros, g_active_chunk = default_chunk_descriptor, g_counters = zero_counters,
          g_next_step = 0, g_overlap_steps = 0, g_session_id = 0, g_newest_generation = 0, g_newest_sequence = 0,
          g_last_publish_ns = 0, g_active = False, g_session_bound = False, g_has_last_output = False\<rparr>)"

definition limit_ok :: "fp \<Rightarrow> fp \<Rightarrow> fp \<Rightarrow> bool" where
  "limit_ok lower upper delta \<longleftrightarrow>
     isfinite lower \<and> isfinite upper \<and> isfinite delta \<and> \<not> fp_gt lower upper \<and> \<not> fp_lt delta (Fin 0)"

definition gate_create ::
  "fe_model_metadata \<Rightarrow> ActionDeliveryConfig \<Rightarrow> ActionSafetyLimits \<Rightarrow> ActionDeliveryCreateError + ActionDeliveryGate" where
  "gate_create model config limits =
     (if \<not> valid_model model then Inl ADE_kInvalidModel
      else if dc_control_dim config = 0 \<or> dc_control_dim config > kMaxActionDim \<or>
              unat (fmm_action_dim model) mod dc_control_dim config \<noteq> 0 \<or> dc_step_period_ns config = 0
        then Inl ADE_kInvalidConfig
      else
        (let step_count = unat (fmm_action_dim model) div dc_control_dim config; n = dc_control_dim config
         in if dc_overlap_steps config > step_count then Inl ADE_kInvalidOverlap
            else if length (lim_lower limits) \<noteq> n \<or> length (lim_upper limits) \<noteq> n \<or> length (lim_max_delta limits) \<noteq> n
              then Inl ADE_kLimitShapeMismatch
            else if list_ex (\<lambda>i. \<not> limit_ok (lim_lower limits ! i) (lim_upper limits ! i) (lim_max_delta limits ! i)) [0..<n]
              then Inl ADE_kInvalidLimit
            else
              (let gate = make_gate model config
               in Inr (gate\<lparr>g_lower := blit (g_lower gate) 0 (lim_lower limits), g_upper := blit (g_upper gate) 0 (lim_upper limits),
                        g_max_delta := blit (g_max_delta gate) 0 (lim_max_delta limits)\<rparr>))))"

definition within_absolute_limits :: "fp list \<Rightarrow> ActionDeliveryGate \<Rightarrow> bool" where
  "within_absolute_limits vs g \<longleftrightarrow>
     list_all (\<lambda>i. let component = i mod dc_control_dim (g_config g)
                   in \<not> (fp_lt (vs ! i) (g_lower g ! component) \<or> fp_gt (vs ! i) (g_upper g ! component))) [0..<length vs]"

abbreviation counted :: "(ActionDeliveryCounters \<Rightarrow> ActionDeliveryCounters) \<Rightarrow> ActionDeliveryGate \<Rightarrow> ActionDeliveryGate" where
  "counted f g \<equiv> g\<lparr>g_counters := f (g_counters g)\<rparr>"

abbreviation (input) "count_invalid \<equiv> adc_rejected_invalid_update (\<lambda>n. n + 1)"
abbreviation (input) "count_stale \<equiv> adc_rejected_stale_update (\<lambda>n. n + 1)"
abbreviation (input) "count_expired \<equiv> adc_rejected_expired_update (\<lambda>n. n + 1)"
abbreviation (input) "count_session \<equiv> adc_rejected_session_update (\<lambda>n. n + 1)"
abbreviation (input) "count_unsafe \<equiv> adc_rejected_unsafe_update (\<lambda>n. n + 1)"

definition copy_overlap :: "nat \<Rightarrow> nat \<Rightarrow> nat \<Rightarrow> fp list \<Rightarrow> fp list \<Rightarrow> fp list" where
  "copy_overlap control_dim old_step steps active overlap =
     fold (\<lambda>step buf. blit buf (step * control_dim) (take control_dim (drop ((old_step + step) * control_dim) active)))
       [0..<steps] overlap"

definition capture_overlap :: "ActionChunkView \<Rightarrow> ActionDeliveryGate \<Rightarrow> ActionDeliveryGate" where
  "capture_overlap replacement g0 =
     (let g = g0\<lparr>g_overlap_steps := 0\<rparr>; config = g_config g; chunk = g_active_chunk g; from = acd_valid_from_ns (acv_descriptor replacement)
      in if \<not> g_active g \<or> dc_overlap_steps config = 0 \<or> from < acd_valid_from_ns chunk then g
         else
           (let elapsed = from - acd_valid_from_ns chunk;
                timed_step = unat (elapsed div dc_step_period_ns config);
                old_step = max (g_next_step g) timed_step
            in if old_step \<ge> unat (acd_step_count chunk) then g
               else
                 (let steps = min (dc_overlap_steps config)
                        (min (unat (acd_step_count chunk) - old_step) (unat (acd_step_count (acv_descriptor replacement))))
                  in g\<lparr>g_overlap_steps := steps,
                       g_overlap_values := copy_overlap (dc_control_dim config) old_step steps (g_active_values g) (g_overlap_values g)\<rparr>)))"

definition install_chunk :: "ActionChunkView \<Rightarrow> ActionDeliveryGate \<Rightarrow> ActionDeliveryGate" where
  "install_chunk chunk g0 =
     (let g = capture_overlap chunk g0; d = acv_descriptor chunk
      in counted (adc_accepted_update (\<lambda>n. n + 1))
           (g\<lparr>g_active_values := blit (g_active_values g) 0 (acv_values chunk), g_active_chunk := d, g_next_step := 0,
              g_session_id := acd_session_id d, g_newest_generation := acd_generation d, g_newest_sequence := acd_sequence d,
              g_active := True, g_session_bound := True\<rparr>))"

text \<open>The early returns of \<open>accept_impl\<close>: the result and the counter that is incremented.\<close>

definition accept_refusal ::
  "ActionChunkView \<Rightarrow> u64 \<Rightarrow> bool \<Rightarrow> ActionDeliveryGate \<Rightarrow>
   (ActionChunkAcceptResult \<times> (ActionDeliveryCounters \<Rightarrow> ActionDeliveryCounters)) option" where
  "accept_refusal chunk now_ns values_validated g =
     (let d = acv_descriptor chunk; config = g_config g; period = dc_step_period_ns config
      in if acd_control_dim d = 0 \<or> acd_step_count d = 0 \<or> unat (acd_step_count d) > kMaxActionDim div unat (acd_control_dim d) \<or>
            ucast (acd_step_count d) > (U64_MAX - acd_valid_from_ns d) div period
         then Some (AR_kInvalid, count_invalid)
         else
           (let expected_values = unat (acd_control_dim d) * unat (acd_step_count d);
                expected_valid_until = acd_valid_from_ns d + ucast (acd_step_count d) * period
            in if acd_struct_size d \<noteq> sizeof_ActionChunkDescriptor \<or> acd_protocol_version d \<noteq> kActionChunkProtocolVersion \<or>
                  unat (acd_control_dim d) \<noteq> dc_control_dim config \<or> expected_values \<noteq> g_model_action_values g \<or>
                  length (acv_values chunk) \<noteq> expected_values \<or> g_model_digest g \<noteq> acd_model_digest d \<or>
                  acd_produced_ns d > now_ns \<or>
                  (acd_source_timestamp_ns d \<noteq> 0 \<and> acd_produced_ns d < acd_source_timestamp_ns d) \<or>
                  acd_valid_from_ns d \<ge> acd_valid_until_ns d \<or> acd_valid_until_ns d \<noteq> expected_valid_until \<or>
                  (dc_max_source_age_ns config \<noteq> 0 \<and> acd_source_timestamp_ns d = 0)
               then Some (AR_kInvalid, count_invalid)
               else if \<not> values_validated \<and> list_ex (\<lambda>v. \<not> isfinite v) (acv_values chunk)
                 then Some (AR_kUnsafe, count_unsafe)
               else if (acd_source_timestamp_ns d \<noteq> 0 \<and> now_ns < acd_source_timestamp_ns d) \<or>
                       (acd_source_deadline_ns d \<noteq> 0 \<and> acd_source_deadline_ns d < acd_source_timestamp_ns d)
                 then Some (AR_kInvalid, count_invalid)
               else
                 (let source_too_old = dc_max_source_age_ns config \<noteq> 0 \<and> acd_source_timestamp_ns d \<noteq> 0 \<and>
                        now_ns - acd_source_timestamp_ns d > dc_max_source_age_ns config
                  in if now_ns \<ge> acd_valid_until_ns d \<or> source_too_old \<or> (acd_source_deadline_ns d \<noteq> 0 \<and> now_ns > acd_source_deadline_ns d)
                     then Some (AR_kExpired, count_expired)
                     else if dc_unsafe_policy config = UAP_kReject \<and> \<not> within_absolute_limits (acv_values chunk) g
                       then Some (AR_kUnsafe, count_unsafe)
                     else if g_session_bound g \<and> acd_session_id d \<noteq> g_session_id g
                       then Some (AR_kSessionMismatch, count_session)
                     else if g_session_bound g \<and> (acd_generation d \<le> g_newest_generation g \<or> acd_sequence d \<le> g_newest_sequence g)
                       then Some (AR_kStale, count_stale)
                     else None)))"

definition accept_impl :: "ActionChunkView \<Rightarrow> u64 \<Rightarrow> bool \<Rightarrow> ActionDeliveryGate \<Rightarrow> ActionChunkAcceptResult \<times> ActionDeliveryGate" where
  "accept_impl chunk now_ns values_validated g =
     (case accept_refusal chunk now_ns values_validated g of
        Some (result, count_it) \<Rightarrow> (result, counted count_it g)
      | None \<Rightarrow>
          if g_active g then (AR_kReplaced, counted (adc_replaced_update (\<lambda>n. n + 1)) (install_chunk chunk g))
          else (AR_kAccepted, install_chunk chunk g))"

definition accept_chunk :: "ActionChunkView \<Rightarrow> u64 \<Rightarrow> ActionDeliveryGate \<Rightarrow> ActionChunkAcceptResult \<times> ActionDeliveryGate" where
  "accept_chunk chunk now_ns g = accept_impl chunk now_ns False g"

definition accept_action :: "ActionMessage \<Rightarrow> u64 \<Rightarrow> u64 \<Rightarrow> ActionDeliveryGate \<Rightarrow> ActionChunkAcceptResult \<times> ActionDeliveryGate" where
  "accept_action action now_ns valid_from_ns g =
     (case make_action_chunk action (dc_control_dim (g_config g)) now_ns valid_from_ns (dc_step_period_ns (g_config g)) of
        Inl e \<Rightarrow>
          let result = map_chunk_error e
          in (result,
              if result = AR_kExpired then counted count_expired g
              else if result = AR_kUnsafe then counted count_unsafe g
              else counted count_invalid g)
      | Inr chunk \<Rightarrow> accept_impl chunk now_ns True g)"

subsection \<open>Publishing a step\<close>

definition candidate_value :: "(fp \<Rightarrow> fp \<Rightarrow> fp \<Rightarrow> fp) \<Rightarrow> bool \<Rightarrow> fp \<Rightarrow> nat \<Rightarrow> ActionDeliveryGate \<Rightarrow> fp" where
  "candidate_value lerp blended blend position g =
     (let fresh = g_active_values g ! position
      in if blended then lerp (g_overlap_values g ! position) fresh blend else fresh)"

text \<open>The safe value of one component, or \<open>None\<close> when the policy rejects it.\<close>

definition safe_value :: "u64 \<Rightarrow> nat \<Rightarrow> fp \<Rightarrow> ActionDeliveryGate \<Rightarrow> fp option" where
  "safe_value elapsed_steps component candidate g =
     (let lower = g_lower g ! component; upper = g_upper g ! component; last_value = g_output g ! component;
          allowed_delta = double_mul (g_max_delta g ! component) (round64 (of_nat (unat elapsed_steps)));
          absolute_safe = fp_le lower candidate \<and> fp_le candidate upper;
          delta_safe = \<not> g_has_last_output g \<or> fp_le (fp_abs (double_sub candidate last_value)) allowed_delta
      in if dc_unsafe_policy (g_config g) = UAP_kReject \<and> (\<not> absolute_safe \<or> \<not> delta_safe) then None
         else
           (let safe = fp_clamp candidate lower upper
            in Some (if g_has_last_output g
                 then fp_clamp (to_float (fp_clamp safe (double_sub last_value allowed_delta) (double_add last_value allowed_delta))) lower upper
                 else safe)))"

text \<open>The loop over the components: the buffer \<open>pending_output_\<close>, and the number of clamped values unless the loop returned.\<close>

fun fill_pending :: "(nat \<Rightarrow> fp) \<Rightarrow> u64 \<Rightarrow> ActionDeliveryGate \<Rightarrow> nat list \<Rightarrow> fp list \<Rightarrow> nat \<Rightarrow> fp list \<times> nat option" where
  "fill_pending candidate elapsed_steps g [] pending_out clamped_values = (pending_out, Some clamped_values)"
| "fill_pending candidate elapsed_steps g (component # rest) pending_out clamped_values =
     (case safe_value elapsed_steps component (candidate component) g of
        None \<Rightarrow> (pending_out, None)
      | Some safe \<Rightarrow>
          fill_pending candidate elapsed_steps g rest (pending_out[component := safe])
            (if fp_eq safe (candidate component) then clamped_values else clamped_values + 1))"

definition elapsed_publish_steps :: "u64 \<Rightarrow> ActionDeliveryGate \<Rightarrow> u64" where
  "elapsed_publish_steps now_ns g =
     (if g_has_last_output g \<and> now_ns > g_last_publish_ns g
      then max 1 ((now_ns - g_last_publish_ns g) div dc_step_period_ns (g_config g)) else 1)"

definition publish_step :: "(fp \<Rightarrow> fp \<Rightarrow> fp \<Rightarrow> fp) \<Rightarrow> u64 \<Rightarrow> nat \<Rightarrow> ActionDeliveryGate \<Rightarrow> (ActionStepError + ActionStepView) \<times> ActionDeliveryGate" where
  "publish_step lerp now_ns step g0 =
     (let g = counted (adc_skipped_steps_update (\<lambda>n. n + of_nat (step - g_next_step g0))) g0;
          blended = step < g_overlap_steps g;
          blend = (if blended then float_div (round32 (of_nat (step + 1))) (round32 (of_nat (g_overlap_steps g + 1))) else Fin 1);
          n = dc_control_dim (g_config g); offset = step * n; chunk = g_active_chunk g;
          (pending_out, clamped_values) = fill_pending (\<lambda>component. candidate_value lerp blended blend (offset + component) g)
             (elapsed_publish_steps now_ns g) g [0..<n] (g_pending_output g) 0
      in (case clamped_values of
            None \<Rightarrow> (Inl ASE_kUnsafe, counted count_unsafe (g\<lparr>g_pending_output := pending_out, g_active := False\<rparr>))
          | Some k \<Rightarrow>
              (let g1 = g\<lparr>g_pending_output := pending_out, g_output := blit (g_output g) 0 (take n pending_out),
                    g_counters := (g_counters g)\<lparr>adc_clamped_values := adc_clamped_values (g_counters g) + of_nat k,
                      adc_published := adc_published (g_counters g) + 1,
                      adc_blended := adc_blended (g_counters g) + (if blended then 1 else 0)\<rparr>,
                    g_next_step := step + 1, g_last_publish_ns := now_ns, g_has_last_output := True,
                    g_active := (g_active g \<and> step + 1 \<noteq> unat (acd_step_count chunk))\<rparr>
               in (Inr \<lparr>asv_values = take n (g_output g1), asv_sequence = acd_sequence chunk, asv_session_id = acd_session_id chunk,
                        asv_generation = acd_generation chunk, asv_step_index = of_nat step, asv_blended = blended, asv_clamped = (k \<noteq> 0)\<rparr>,
                   g1))))"

definition gate_next :: "(fp \<Rightarrow> fp \<Rightarrow> fp \<Rightarrow> fp) \<Rightarrow> u64 \<Rightarrow> ActionDeliveryGate \<Rightarrow> (ActionStepError + ActionStepView) \<times> ActionDeliveryGate" where
  "gate_next lerp now_ns g =
     (let chunk = g_active_chunk g; config = g_config g
      in if \<not> g_active g then (Inl ASE_kEmpty, g)
         else if g_has_last_output g \<and> now_ns < g_last_publish_ns g then (Inl ASE_kInvalidTime, g)
         else if now_ns < acd_valid_from_ns chunk then (Inl ASE_kNotReady, g)
         else if acd_source_timestamp_ns chunk \<noteq> 0 \<and> now_ns < acd_source_timestamp_ns chunk then (Inl ASE_kInvalidTime, g)
         else
           (let source_too_old = dc_max_source_age_ns config \<noteq> 0 \<and> acd_source_timestamp_ns chunk \<noteq> 0 \<and>
                  now_ns - acd_source_timestamp_ns chunk > dc_max_source_age_ns config
            in if now_ns \<ge> acd_valid_until_ns chunk \<or> source_too_old
               then (Inl ASE_kExpired, counted count_expired (g\<lparr>g_active := False\<rparr>))
               else
                 (let step = unat ((now_ns - acd_valid_from_ns chunk) div dc_step_period_ns config)
                  in if step \<ge> unat (acd_step_count chunk)
                     then (Inl ASE_kExpired, counted count_expired (g\<lparr>g_active := False\<rparr>))
                     else if step < g_next_step g then (Inl ASE_kNotReady, g)
                     else publish_step lerp now_ns step g)))"

definition gate_reset :: "ActionDeliveryGate \<Rightarrow> ActionDeliveryGate" where
  "gate_reset g = g\<lparr>g_active := False, g_session_bound := False, g_has_last_output := False, g_next_step := 0, g_overlap_steps := 0,
     g_session_id := 0, g_newest_generation := 0, g_newest_sequence := 0, g_last_publish_ns := 0\<rparr>"

section \<open>Runs of a gate\<close>

text \<open>What the standard promises of \<open>std::lerp\<close>: finite for finite arguments and a weight in \<open>[0, 1]\<close>, and of type \<open>float\<close>.\<close>

definition lerp_ok :: "(fp \<Rightarrow> fp \<Rightarrow> fp \<Rightarrow> fp) \<Rightarrow> bool" where
  "lerp_ok lerp \<longleftrightarrow>
     (\<forall>a b t. isfinite a \<and> is_float a \<and> isfinite b \<and> is_float b \<and> isfinite t \<and> 0 \<le> fp_val t \<and> fp_val t \<le> 1 \<longrightarrow>
        isfinite (lerp a b t) \<and> is_float (lerp a b t))"

text \<open>One call on a gate. Floats in messages and chunks are of type \<open>float\<close>.\<close>

datatype gate_call =
  Call_Action ActionMessage u64 u64 | Call_Chunk ActionChunkView u64 | Call_Next u64 | Call_Reset

fun call_typed :: "gate_call \<Rightarrow> bool" where
  "call_typed (Call_Action m _ _) = (\<forall>v \<in> set (am_action m). is_float v)"
| "call_typed (Call_Chunk c _) = (\<forall>v \<in> set (acv_values c). is_float v)"
| "call_typed _ = True"

fun gate_apply :: "(fp \<Rightarrow> fp \<Rightarrow> fp \<Rightarrow> fp) \<Rightarrow> gate_call \<Rightarrow> ActionDeliveryGate \<Rightarrow> ActionDeliveryGate" where
  "gate_apply lerp (Call_Action m now from) g = snd (accept_action m now from g)"
| "gate_apply lerp (Call_Chunk c now) g = snd (accept_chunk c now g)"
| "gate_apply lerp (Call_Next now) g = snd (gate_next lerp now g)"
| "gate_apply lerp Call_Reset g = gate_reset g"

end
