(* ===== verification/Action_Delivery_Correct.thy ===== *)
theory Action_Delivery_Correct
  imports Action_Delivery
begin

text \<open>
  Correctness of the action gate: an invariant of every reachable gate, from which follow that
  each published value is finite, inside its absolute limits and, up to the rounding of the code,
  within the allowed change of the value published before; and that steps leave the gate in order.
\<close>

section \<open>Rounding facts of the gate\<close>

lemma round_fp_power:
  assumes "0 < p" "emin \<le> e" "e \<le> emax"
  shows "round_fp p emin emax (2 powi e) = Fin (2 powi e)"
proof -
  have i: "ilog2 (2 powi e) = e" by (rule ilog2_unique) (simp_all add: powi_less_iff)
  have "(2 powi e :: rat) / 2 powi ulp_exp p emin (2 powi e) = 2 powi (int p - 1)"
    using assms(2) by (simp add: ulp_exp_def i flip: power_int_diff)
  then have "on_grid p emin (2 powi e)" using assms(1) by (simp add: on_grid_def power_int_nonneg_exp)
  then have r: "round_abs p emin (2 powi e) = 2 powi e" by (simp add: round_abs_fixed_pos)
  moreover have "(2 powi e :: rat) < 2 powi (emax + 1)" using assms(3) by (simp add: powi_less_iff)
  moreover have "- (2 powi (emax + 1)) < (2 powi e :: rat)"
    by (rule less_trans [of _ 0]) simp_all
  ultimately show ?thesis by (simp add: round_fp_def)
qed

lemma round_zero [simp]: "round32 0 = Fin 0" "round64 0 = Fin 0"
proof -
  have "(0 :: rat) < 2 powi 128" "(0 :: rat) < 2 powi 1024" by (rule zero_less_power_int; simp)+
  then show "round32 0 = Fin 0" "round64 0 = Fin 0"
    by (simp_all add: round32_def round64_def round_fp_def round_abs_def)
qed

lemma fp_between_finite: "fp_le (Fin a) v \<Longrightarrow> fp_le v (Fin b) \<Longrightarrow> \<exists>r. v = Fin r \<and> a \<le> r \<and> r \<le> b"
  by (cases v) (auto simp: fp_le_simps)

lemma round64_nat: "k \<le> 2 ^ 64 \<Longrightarrow> \<exists>r. round64 (of_nat k) = Fin r \<and> 0 \<le> r"
proof -
  assume "k \<le> 2 ^ 64"
  then have "(of_nat k :: rat) \<le> of_nat (2 ^ 64)" unfolding of_nat_le_iff .
  then have n: "(of_nat k :: rat) \<le> 2 powi 64" by simp
  have "round64 (2 powi 64) = Fin (2 powi 64)" unfolding round64_def by (rule round_fp_power) simp_all
  with fp_between_finite [of 0 "round64 (of_nat k)" "2 powi 64"] round64_mono [of 0 "of_nat k"] round64_mono [OF n]
  show ?thesis by auto
qed

lemma round64_u64: "\<exists>r. round64 (of_nat (unat (n :: u64))) = Fin r \<and> 0 \<le> r"
  by (rule round64_nat, rule le_trans [OF unat_u64_le_max]) simp

lemma round32_small: "1 \<le> m \<Longrightarrow> m \<le> 2048 \<Longrightarrow> \<exists>r. round32 (of_nat m) = Fin r \<and> 1 \<le> r"
proof -
  assume m: "1 \<le> m" "m \<le> 2048"
  have "(of_nat m :: rat) \<le> of_nat 2048" unfolding of_nat_le_iff by (rule m(2))
  then have "(of_nat m :: rat) \<le> 2 powi 11" by simp
  moreover have "round32 (2 powi 11) = Fin (2 powi 11)" "round32 1 = Fin 1"
    using round_fp_power [of 24 "-126" 11 127] round_fp_power [of 24 "-126" 0 127] by (simp_all add: round32_def)
  moreover have "1 \<le> (of_nat m :: rat)" using m(1) by simp
  ultimately show ?thesis using fp_between_finite [of 1 "round32 (of_nat m)" "2 powi 11"] round32_mono [of 1 "of_nat m"] round32_mono [of "of_nat m" "2 powi 11"]
    by auto
qed

lemma blend_weight:
  assumes "k < n" "n \<le> 1024"
  shows "\<exists>r. float_div (round32 (of_nat (k + 1))) (round32 (of_nat (n + 1))) = Fin r \<and> 0 \<le> r \<and> r \<le> 1"
proof -
  obtain a where a: "round32 (of_nat (k + 1)) = Fin a" "1 \<le> a" using round32_small [of "k + 1"] assms by auto
  obtain b where b: "round32 (of_nat (n + 1)) = Fin b" "1 \<le> b" using round32_small [of "n + 1"] assms by auto
  have "fp_le (Fin a) (Fin b)" unfolding a(1) [symmetric] b(1) [symmetric] by (rule round32_mono) (use assms in simp)
  then have "0 \<le> a / b" "a / b \<le> 1" using a(2) b(2) by (simp_all add: fp_le_simps)
  moreover have "round32 1 = Fin 1" using round_fp_power [of 24 "-126" 0 127] by (simp add: round32_def)
  ultimately have "\<exists>r. round32 (a / b) = Fin r \<and> 0 \<le> r \<and> r \<le> 1"
    using fp_between_finite [of 0 "round32 (a / b)" 1] round32_mono [of 0 "a / b"] round32_mono [of "a / b" 1] by auto
  then show ?thesis using a(1) b by simp
qed

section \<open>One safe value\<close>

definition good :: "fp \<Rightarrow> bool" where
  "good v \<longleftrightarrow> isfinite v \<and> is_float v"

lemma good_Fin: "good v \<longleftrightarrow> (\<exists>r. v = Fin r \<and> round32 r = Fin r)"
  by (cases v) (auto simp: good_def)

definition allowed_change :: "ActionDeliveryGate \<Rightarrow> u64 \<Rightarrow> nat \<Rightarrow> fp" where
  "allowed_change g elapsed_steps i = double_mul (g_max_delta g ! i) (round64 (of_nat (unat elapsed_steps)))"

definition change_bounded :: "ActionDeliveryGate \<Rightarrow> u64 \<Rightarrow> nat \<Rightarrow> fp \<Rightarrow> bool" where
  "change_bounded g elapsed_steps i v \<longleftrightarrow>
     fp_le (to_float (double_sub (g_output g ! i) (allowed_change g elapsed_steps i))) v \<and>
     fp_le v (to_float (double_add (g_output g ! i) (allowed_change g elapsed_steps i)))"

lemma allowed_change_nonneg:
  assumes "isfinite (g_max_delta g ! i)" "\<not> fp_lt (g_max_delta g ! i) (Fin 0)"
  shows "allowed_change g n i = Inf False \<or> (\<exists>a. allowed_change g n i = Fin a \<and> 0 \<le> a)"
proof -
  obtain d where d: "g_max_delta g ! i = Fin d" "0 \<le> d" using assms by (cases "g_max_delta g ! i") auto
  obtain r where r: "round64 (of_nat (unat n)) = Fin r" "0 \<le> r" using round64_u64 by blast
  have "fp_le (Fin 0) (round64 (d * r))" using round64_mono [of 0 "d * r"] d(2) r(2) by simp
  then show ?thesis unfolding allowed_change_def d(1) r(1) by (cases "round64 (d * r)") (auto simp: fp_le_simps)
qed

lemma delta_window:
  assumes "good o'" "allowed = Inf False \<or> (\<exists>a. allowed = Fin a \<and> 0 \<le> a)"
  shows "fp_le (double_sub o' allowed) o'" "fp_le o' (double_add o' allowed)"
proof -
  obtain x where x: "o' = Fin x" "round64 x = Fin x" using assms(1) float_is_double by (auto simp: good_Fin)
  show "fp_le (double_sub o' allowed) o'" "fp_le o' (double_add o' allowed)"
    using assms(2) round64_mono [of "x - a" x for a] round64_mono [of x "x + a" for a]
    by (auto simp: x double_sub_def fp_le_simps)
qed

lemma safe_value_ok:
  assumes s: "safe_value n i c g = Some v"
    and c: "good c" and lim: "good (g_lower g ! i)" "good (g_upper g ! i)" "fp_le (g_lower g ! i) (g_upper g ! i)"
    and d: "isfinite (g_max_delta g ! i)" "\<not> fp_lt (g_max_delta g ! i) (Fin 0)"
    and last: "g_has_last_output g \<Longrightarrow> good (g_output g ! i) \<and> fp_le (g_lower g ! i) (g_output g ! i) \<and> fp_le (g_output g ! i) (g_upper g ! i)"
  shows "good v \<and> fp_le (g_lower g ! i) v \<and> fp_le v (g_upper g ! i) \<and> (g_has_last_output g \<longrightarrow> change_bounded g n i v)"
proof -
  let ?lo = "g_lower g ! i" and ?hi = "g_upper g ! i" and ?o = "g_output g ! i" and ?a = "allowed_change g n i"
  let ?s = "fp_clamp c ?lo ?hi"
  have cn: "c \<noteq> NaN" using c by (auto simp: good_Fin)
  have gs: "good ?s" using fp_clamp_cases [of c ?lo ?hi] c lim by auto
  have fin: "good w" if "fp_le ?lo w" "fp_le w ?hi" "is_float w" for w
    using that lim fp_between_finite [of _ w] by (fastforce simp: good_Fin)
  show ?thesis
  proof (cases "g_has_last_output g")
    case False
    then have "v = ?s" using s by (auto simp: safe_value_def Let_def split: if_splits)
    then show ?thesis using gs fp_clamp_bounds [OF cn lim(3)] False by simp
  next
    case True
    let ?dl = "double_sub ?o ?a" and ?du = "double_add ?o ?a"
    let ?y = "fp_clamp ?s ?dl ?du"
    have v: "v = fp_clamp (to_float ?y) ?lo ?hi"
      using s True by (auto simp: safe_value_def allowed_change_def Let_def split: if_splits)
    note o' = last [OF True]
    note w = delta_window [OF conjunct1 [OF o'] allowed_change_nonneg [OF d], of n]
    have sn: "?s \<noteq> NaN" using gs by (auto simp: good_Fin)
    have y: "fp_le ?dl ?y" "fp_le ?y ?du" using fp_clamp_bounds [OF sn fp_le_trans [OF w]] by blast+
    have of: "to_float ?o = ?o" using o' by (auto simp: good_Fin)
    have tf: "fp_le (to_float ?dl) (to_float ?y)" "fp_le (to_float ?y) (to_float ?du)"
      "fp_le (to_float ?dl) ?o" "fp_le ?o (to_float ?du)"
      using to_float_mono [OF y(1)] to_float_mono [OF y(2)] to_float_mono [OF w(1)] to_float_mono [OF w(2)] unfolding of by blast+
    have tn: "to_float ?y \<noteq> NaN" using tf(1) by (auto simp: fp_le_simps)
    have b: "fp_le ?lo v" "fp_le v ?hi" unfolding v using fp_clamp_bounds [OF tn lim(3)] by blast+
    have "is_float v" unfolding v using fp_clamp_cases [of "to_float ?y" ?lo ?hi] to_float_float lim by (auto simp: good_def)
    moreover have "change_bounded g n i v"
      unfolding change_bounded_def v using fp_clamp_between [OF tf] o' by blast
    ultimately show ?thesis using b fin by blast
  qed
qed

lemma fill_pending_ok:
  assumes "fill_pending cand n g cs buf k = (buf', Some k')" "distinct cs" "\<forall>i \<in> set cs. i < length buf"
  shows "length buf' = length buf \<and> (\<forall>i \<in> set cs. safe_value n i (cand i) g = Some (buf' ! i)) \<and> (\<forall>i. i \<notin> set cs \<longrightarrow> buf' ! i = buf ! i)"
  using assms
proof (induction cs arbitrary: buf k)
  case (Cons c cs)
  obtain v where v: "safe_value n c (cand c) g = Some v" using Cons.prems(1) by (auto split: option.splits)
  obtain k1 where "fill_pending cand n g cs (buf[c := v]) k1 = (buf', Some k')" using Cons.prems(1) v by auto
  from Cons.IH [OF this] Cons.prems(2,3) v show ?case by (auto simp: nth_list_update)
qed simp

lemma fill_pending_length: "length (fst (fill_pending cand n g cs buf k)) = length buf"
  by (induction cs arbitrary: buf k) (auto split: option.splits)

section \<open>The invariant\<close>

definition gate_inv :: "ActionDeliveryGate \<Rightarrow> bool" where
  "gate_inv g \<longleftrightarrow>
     0 < dc_control_dim (g_config g) \<and> dc_control_dim (g_config g) \<le> kMaxActionDim \<and> dc_overlap_steps (g_config g) \<le> kMaxActionDim \<and>
     g_model_action_values g \<le> kMaxActionDim \<and> g_overlap_steps g \<le> kMaxActionDim \<and>
     length (g_active_values g) = kMaxActionDim \<and> length (g_overlap_values g) = kMaxActionDim \<and>
     length (g_output g) = kMaxActionDim \<and> length (g_pending_output g) = kMaxActionDim \<and>
     (\<forall>v \<in> set (g_active_values g) \<union> set (g_overlap_values g). good v) \<and>
     (\<forall>i < dc_control_dim (g_config g). good (g_lower g ! i) \<and> good (g_upper g ! i) \<and> fp_le (g_lower g ! i) (g_upper g ! i) \<and>
        isfinite (g_max_delta g ! i) \<and> \<not> fp_lt (g_max_delta g ! i) (Fin 0)) \<and>
     (g_active g \<longrightarrow> dc_control_dim (g_config g) * unat (acd_step_count (g_active_chunk g)) = g_model_action_values g \<and>
        g_session_bound g \<and> acd_session_id (g_active_chunk g) = g_session_id g \<and>
        acd_generation (g_active_chunk g) = g_newest_generation g) \<and>
     (g_has_last_output g \<longrightarrow> (\<forall>i < dc_control_dim (g_config g). good (g_output g ! i) \<and>
        fp_le (g_lower g ! i) (g_output g ! i) \<and> fp_le (g_output g ! i) (g_upper g ! i)))"

definition limits_typed :: "ActionSafetyLimits \<Rightarrow> bool" where
  "limits_typed l \<longleftrightarrow> (\<forall>v \<in> set (lim_lower l) \<union> set (lim_upper l) \<union> set (lim_max_delta l). is_float v)"

definition gate_init :: "ActionDeliveryGate \<Rightarrow> bool" where
  "gate_init g \<longleftrightarrow> (\<exists>model config limits. limits_typed limits \<and> gate_create model config limits = Inr g)"

text \<open>A call with values of type \<open>float\<close> and a \<open>std::lerp\<close> that keeps its promise.\<close>

inductive gate_step :: "(fp \<Rightarrow> fp \<Rightarrow> fp \<Rightarrow> fp) \<Rightarrow> ActionDeliveryGate \<Rightarrow> ActionDeliveryGate \<Rightarrow> bool" for lerp where
  "lerp_ok lerp \<Longrightarrow> call_typed call \<Longrightarrow> gate_step lerp g (gate_apply lerp call g)"

lemma set_blit: "off + length src \<le> length dst \<Longrightarrow> set (blit dst off src) \<subseteq> set dst \<union> set src"
  using set_take_subset [of off dst] set_drop_subset [of "off + length src" dst] by (auto simp: blit_def)

lemma gate_create_inv:
  assumes "gate_create model config limits = Inr g" "limits_typed limits"
  shows "gate_inv g"
proof -
  let ?n = "dc_control_dim config"
  have n: "0 < ?n" "?n \<le> kMaxActionDim" "unat (fmm_action_dim model) \<le> kMaxActionDim"
    "dc_overlap_steps config \<le> unat (fmm_action_dim model) div ?n"
    and len: "length (lim_lower limits) = ?n" "length (lim_upper limits) = ?n" "length (lim_max_delta limits) = ?n"
    and ok: "\<forall>i < ?n. limit_ok (lim_lower limits ! i) (lim_upper limits ! i) (lim_max_delta limits ! i)"
    and g: "g = (make_gate model config)\<lparr>g_lower := blit (g_lower (make_gate model config)) 0 (lim_lower limits),
      g_upper := blit (g_upper (make_gate model config)) 0 (lim_upper limits),
      g_max_delta := blit (g_max_delta (make_gate model config)) 0 (lim_max_delta limits)\<rparr>"
    using assms(1) by (auto simp: gate_create_def valid_model_def Let_def list_ex_iff split: if_splits)
  have ov: "dc_overlap_steps config \<le> kMaxActionDim" using n(3,4) div_le_dividend le_trans by blast
  have at: "blit (replicate kMaxActionDim (Fin 0)) 0 xs ! i = xs ! i" if "length xs = ?n" "i < ?n" for xs i
    using that n(2) by (simp add: nth_blit)
  have "good (lim_lower limits ! i) \<and> good (lim_upper limits ! i) \<and> fp_le (lim_lower limits ! i) (lim_upper limits ! i) \<and>
      isfinite (lim_max_delta limits ! i) \<and> \<not> fp_lt (lim_max_delta limits ! i) (Fin 0)" if "i < ?n" for i
    using ok [rule_format, OF that] assms(2) len that nth_mem [of i "lim_lower limits"] nth_mem [of i "lim_upper limits"]
    by (auto simp: limit_ok_def limits_typed_def good_def fp_gt_def isfinite_conv fp_le_simps)
  then show ?thesis
    using n ov at len by (auto simp: gate_inv_def g make_gate_def Let_def good_def)
qed

lemma gate_reset_inv: "gate_inv g \<Longrightarrow> gate_inv (gate_reset g)"
  by (simp add: gate_inv_def gate_reset_def)

lemma gate_inv_counted [simp]: "gate_inv (counted f g) \<longleftrightarrow> gate_inv g"
  by (simp add: gate_inv_def)

lemma copy_overlap_ok:
  assumes "length act = N" "length ov = N" "(k + old) * n \<le> N" "\<forall>v \<in> set act \<union> set ov. good v"
  shows "length (copy_overlap n old k act ov) = N \<and> (\<forall>v \<in> set (copy_overlap n old k act ov). good v)"
  using assms(3)
proof (induction k)
  case 0
  then show ?case using assms(2,4) by (simp add: copy_overlap_def)
next
  case (Suc k)
  let ?b = "copy_overlap n old k act ov" and ?src = "take n (drop ((old + k) * n) act)"
  have IH: "length ?b = N" "\<forall>v \<in> set ?b. good v" using Suc by (auto simp: algebra_simps)
  have "k * n + length ?src \<le> length ?b" using Suc.prems IH(1) by (simp add: algebra_simps)
  moreover have "set ?src \<subseteq> set act" using set_take_subset set_drop_subset by fast
  ultimately have "set (blit ?b (k * n) ?src) \<subseteq> set ?b \<union> set act" "length (blit ?b (k * n) ?src) = N"
    using set_blit [of "k * n" ?src ?b] IH(1) by auto
  then show ?case using IH(2) assms(4) unfolding copy_overlap_def by auto
qed

lemma capture_overlap_inv:
  assumes "gate_inv g" "unat (acd_step_count (acv_descriptor chunk)) \<le> kMaxActionDim"
  shows "gate_inv (capture_overlap chunk g)"
proof -
  note I = assms(1) [unfolded gate_inv_def]
  have zero: "gate_inv (g\<lparr>g_overlap_steps := 0\<rparr>)" using I by (simp add: gate_inv_def)
  let ?n = "dc_control_dim (g_config g)" and ?cnt = "unat (acd_step_count (g_active_chunk g))"
  have copied: "gate_inv (g\<lparr>g_overlap_steps := k, g_overlap_values := copy_overlap ?n old k (g_active_values g) (g_overlap_values g)\<rparr>)"
    if "g_active g" "old < ?cnt" "k \<le> ?cnt - old" "k \<le> kMaxActionDim" for k old
  proof -
    have "(k + old) * ?n \<le> ?cnt * ?n" using that(2,3) by (intro mult_right_mono) simp_all
    also have "\<dots> \<le> kMaxActionDim" using I that(1) by (simp add: mult.commute)
    finally have "length (copy_overlap ?n old k (g_active_values g) (g_overlap_values g)) = kMaxActionDim \<and>
        (\<forall>v \<in> set (copy_overlap ?n old k (g_active_values g) (g_overlap_values g)). good v)"
      using I by (intro copy_overlap_ok) auto
    then show ?thesis using I that(4) by (auto simp: gate_inv_def)
  qed
  let ?old = "max (g_next_step g) (unat ((acd_valid_from_ns (acv_descriptor chunk) - acd_valid_from_ns (g_active_chunk g)) div
      dc_step_period_ns (g_config g)))"
  let ?k = "min (dc_overlap_steps (g_config g)) (min (?cnt - ?old) (unat (acd_step_count (acv_descriptor chunk))))"
  have k: "?k \<le> ?cnt - ?old" "?k \<le> kMaxActionDim" using I by linarith+
  show ?thesis using zero copied [OF _ _ k] by (simp add: capture_overlap_def Let_def not_le)
qed

lemma install_chunk_inv:
  assumes "gate_inv g" "length (acv_values chunk) = g_model_action_values g" "\<forall>v \<in> set (acv_values chunk). good v"
    "dc_control_dim (g_config g) * unat (acd_step_count (acv_descriptor chunk)) = g_model_action_values g"
  shows "gate_inv (install_chunk chunk g)"
proof -
  let ?g = "capture_overlap chunk g"
  have same: "g_config ?g = g_config g" "g_model_action_values ?g = g_model_action_values g"
    by (simp_all add: capture_overlap_def Let_def)
  have "unat (acd_step_count (acv_descriptor chunk)) \<le> dc_control_dim (g_config g) * unat (acd_step_count (acv_descriptor chunk))"
    using assms(1) by (simp add: gate_inv_def)
  then have "unat (acd_step_count (acv_descriptor chunk)) \<le> kMaxActionDim" using assms(1,4) by (simp add: gate_inv_def)
  note I = capture_overlap_inv [OF assms(1) this, unfolded gate_inv_def]
  have "0 + length (acv_values chunk) \<le> length (g_active_values ?g)" using I assms(2) same by simp
  from set_blit [OF this] have "\<forall>v \<in> set (blit (g_active_values ?g) 0 (acv_values chunk)). good v"
    using I assms(3) by blast
  moreover have "length (blit (g_active_values ?g) 0 (acv_values chunk)) = kMaxActionDim" using I assms(2) same by simp
  ultimately show ?thesis
    unfolding install_chunk_def Let_def gate_inv_counted using I assms(4) same by (auto simp: gate_inv_def)
qed

lemma accept_refusal_None:
  assumes "accept_refusal chunk now v g = None"
  shows "length (acv_values chunk) = g_model_action_values g"
    "dc_control_dim (g_config g) * unat (acd_step_count (acv_descriptor chunk)) = g_model_action_values g"
    "\<not> v \<Longrightarrow> \<forall>x \<in> set (acv_values chunk). isfinite x"
    "g_session_bound g \<Longrightarrow> acd_session_id (acv_descriptor chunk) = g_session_id g \<and>
       g_newest_generation g < acd_generation (acv_descriptor chunk) \<and> g_newest_sequence g < acd_sequence (acv_descriptor chunk)"
  using assms by (simp_all add: accept_refusal_def Let_def list_ex_iff not_le split: if_splits)

lemma accept_impl_cases:
  obtains (rejected) f where "snd (accept_impl chunk now v g) = counted f g"
  | (accepted) f where "accept_refusal chunk now v g = None" "snd (accept_impl chunk now v g) = counted f (install_chunk chunk g)"
proof (cases "accept_refusal chunk now v g")
  case None
  then show ?thesis using accepted [of id] accepted by (cases "g_active g") (simp_all add: accept_impl_def)
next
  case (Some r)
  then show ?thesis using rejected by (cases r) (simp add: accept_impl_def)
qed

lemma accept_impl_inv:
  assumes "gate_inv g" "\<forall>x \<in> set (acv_values chunk). is_float x" "v \<Longrightarrow> \<forall>x \<in> set (acv_values chunk). isfinite x"
  shows "gate_inv (snd (accept_impl chunk now v g))"
proof (cases rule: accept_impl_cases [of chunk now v g])
  case (rejected f)
  then show ?thesis using assms(1) by simp
next
  case (accepted f)
  note N = accept_refusal_None [OF accepted(1)]
  have "\<forall>x \<in> set (acv_values chunk). good x" using assms(2,3) N(3) by (auto simp: good_def)
  then show ?thesis using install_chunk_inv [OF assms(1) N(1) _ N(2)] accepted(2) by simp
qed

lemma make_action_chunk_finite:
  assumes "make_action_chunk m n now from period = Inr chunk"
  shows "set (acv_values chunk) \<subseteq> set (am_action m) \<and> (\<forall>x \<in> set (acv_values chunk). isfinite x)"
  using assms set_take_subset [of "unat (fam_action_dim (am_metadata m))" "am_action m"]
  by (auto simp: make_action_chunk_def Let_def list_ex_iff split: if_splits)

lemma accept_action_inv:
  assumes "gate_inv g" "\<forall>x \<in> set (am_action m). is_float x"
  shows "gate_inv (snd (accept_action m now from g))"
proof (cases "make_action_chunk m (dc_control_dim (g_config g)) now from (dc_step_period_ns (g_config g))")
  case (Inl e)
  then show ?thesis using assms(1) by (simp add: accept_action_def Let_def)
next
  case (Inr chunk)
  from make_action_chunk_finite [OF this] accept_impl_inv [OF assms(1), of chunk True now] assms(2) Inr
  show ?thesis by (auto simp: accept_action_def)
qed

section \<open>Publishing\<close>

lemma gate_next_ok:
  assumes "gate_next lerp now g = (Inr view, g')"
  shows "g_active g \<and> acd_valid_from_ns (g_active_chunk g) \<le> now \<and> now < acd_valid_until_ns (g_active_chunk g) \<and>
    \<not> (g_has_last_output g \<and> now < g_last_publish_ns g) \<and>
    (\<exists>step. step = unat ((now - acd_valid_from_ns (g_active_chunk g)) div dc_step_period_ns (g_config g)) \<and>
       g_next_step g \<le> step \<and> step < unat (acd_step_count (g_active_chunk g)) \<and> publish_step lerp now step g = (Inr view, g'))"
  using assms by (simp add: gate_next_def Let_def not_le not_less split: if_splits)

lemma candidate_good:
  assumes "gate_inv g" "lerp_ok lerp" "step < g_overlap_steps g \<longleftrightarrow> blended"
    and blend: "blended \<Longrightarrow> blend = float_div (round32 (of_nat (step + 1))) (round32 (of_nat (g_overlap_steps g + 1)))"
    and pos: "position < kMaxActionDim"
  shows "good (candidate_value lerp blended blend position g)"
proof -
  note I = assms(1) [unfolded gate_inv_def]
  have a: "good (g_active_values g ! position)" "good (g_overlap_values g ! position)"
    using I pos nth_mem [of position "g_active_values g"] nth_mem [of position "g_overlap_values g"] by auto
  show ?thesis
  proof (cases blended)
    case True
    obtain r where "blend = Fin r" "0 \<le> r" "r \<le> 1"
      using blend_weight [of step "g_overlap_steps g"] blend [OF True] assms(3) True I by (auto simp: kMaxActionDim_def)
    then show ?thesis using a True assms(2) by (simp add: candidate_value_def lerp_ok_def good_def)
  next
    case False
    then show ?thesis using a by (simp add: candidate_value_def)
  qed
qed

definition step_safe :: "ActionDeliveryGate \<Rightarrow> u64 \<Rightarrow> fp list \<Rightarrow> bool" where
  "step_safe g now vs \<longleftrightarrow>
     length vs = dc_control_dim (g_config g) \<and>
     (\<forall>i < dc_control_dim (g_config g). good (vs ! i) \<and> fp_le (g_lower g ! i) (vs ! i) \<and> fp_le (vs ! i) (g_upper g ! i) \<and>
        (g_has_last_output g \<longrightarrow> change_bounded g (elapsed_publish_steps now g) i (vs ! i)))"

lemma publish_step_cases:
  assumes inv: "gate_inv g" "lerp_ok lerp" "g_active g" "step < unat (acd_step_count (g_active_chunk g))"
  obtains (unsafe) pend f where "publish_step lerp now step g = (Inl ASE_kUnsafe, counted f (g\<lparr>g_pending_output := pend, g_active := False\<rparr>))"
      "length pend = kMaxActionDim"
  | (published) pend vs view g' where "step_safe g now vs" "length pend = kMaxActionDim"
      "publish_step lerp now step g = (Inr view, g')"
      "g' = g\<lparr>g_pending_output := pend, g_output := blit (g_output g) 0 vs, g_next_step := step + 1, g_last_publish_ns := now,
         g_has_last_output := True, g_active := g_active g', g_counters := g_counters g'\<rparr>"
      "asv_values view = vs" "asv_generation view = acd_generation (g_active_chunk g)" "asv_session_id view = acd_session_id (g_active_chunk g)"
      "asv_step_index view = of_nat step" "g_active g' \<Longrightarrow> step + 1 \<noteq> unat (acd_step_count (g_active_chunk g))"
proof -
  note I = inv(1) [unfolded gate_inv_def]
  define g1 where "g1 = counted (adc_skipped_steps_update (\<lambda>n. n + of_nat (step - g_next_step g))) g"
  define blend where "blend = (if step < g_overlap_steps g1 then float_div (round32 (of_nat (step + 1))) (round32 (of_nat (g_overlap_steps g1 + 1))) else Fin 1)"
  define n where "n = dc_control_dim (g_config g1)"
  have n_g: "n = dc_control_dim (g_config g)" by (simp add: n_def g1_def)
  define cand where "cand = (\<lambda>component. candidate_value lerp (step < g_overlap_steps g1) blend (step * n + component) g1)"
  obtain pend res where fill: "fill_pending cand (elapsed_publish_steps now g1) g1 [0..<n] (g_pending_output g1) 0 = (pend, res)"
    by fastforce
  have plen: "length pend = kMaxActionDim"
    using fill_pending_length [of cand "elapsed_publish_steps now g1" g1 "[0..<n]" "g_pending_output g1" 0] I by (simp add: fill) (simp add: g1_def)
  note P = publish_step_def [of lerp now step g, unfolded Let_def, folded g1_def, folded blend_def n_def, folded cand_def, unfolded fill prod.case]
  show ?thesis
  proof (cases res)
    case None
    then have "\<exists>f. publish_step lerp now step g = (Inl ASE_kUnsafe, counted f (g\<lparr>g_pending_output := pend, g_active := False\<rparr>))"
      by (auto simp: P g1_def)
    then show ?thesis using unsafe plen by blast
  next
    case (Some k)
    have n: "0 < n" "n \<le> kMaxActionDim" using I by (simp_all add: n_g)
    note F = fill_pending_ok [OF fill [unfolded Some]]
    have pos: "step * n + i < kMaxActionDim" if "i < n" for i
    proof -
      have "step * n + i < (step + 1) * n" using that by simp
      also have "\<dots> \<le> unat (acd_step_count (g_active_chunk g)) * n" using inv(4) by (intro mult_right_mono) simp_all
      also have "\<dots> \<le> kMaxActionDim" using I inv(3) by (simp add: n_g mult.commute)
      finally show ?thesis .
    qed
    have cg: "good (cand i)" if "i < n" for i
      unfolding cand_def using pos [OF that] inv(1,2)
      by (intro candidate_good [where step = step]) (simp_all add: g1_def blend_def)
    have sv: "safe_value (elapsed_publish_steps now g1) i (cand i) g1 = Some (pend ! i)" if "i < n" for i
      using F that n I by (simp add: g1_def)
    have same: "g_lower g1 = g_lower g" "g_upper g1 = g_upper g" "g_has_last_output g1 = g_has_last_output g" "g_output g1 = g_output g"
      "g_max_delta g1 = g_max_delta g" "elapsed_publish_steps now g1 = elapsed_publish_steps now g"
      "change_bounded g1 = change_bounded g"
      by (simp_all add: g1_def elapsed_publish_steps_def change_bounded_def allowed_change_def fun_eq_iff)
    have "good (pend ! i) \<and> fp_le (g_lower g ! i) (pend ! i) \<and> fp_le (pend ! i) (g_upper g ! i) \<and>
        (g_has_last_output g \<longrightarrow> change_bounded g (elapsed_publish_steps now g) i (pend ! i))" if "i < n" for i
      using safe_value_ok [OF sv [OF that] cg [OF that]] I that unfolding same n_g by blast
    then have "step_safe g now (take n pend)" using n plen by (simp add: step_safe_def n_g)
    moreover obtain view g' where V: "publish_step lerp now step g = (Inr view, g')"
      "g' = g\<lparr>g_pending_output := pend, g_output := blit (g_output g) 0 (take n pend), g_next_step := step + 1, g_last_publish_ns := now,
         g_has_last_output := True, g_active := g_active g', g_counters := g_counters g'\<rparr>"
      "asv_values view = take n (blit (g_output g) 0 (take n pend))" "asv_generation view = acd_generation (g_active_chunk g)"
      "asv_session_id view = acd_session_id (g_active_chunk g)" "asv_step_index view = of_nat step"
      "g_active g' \<Longrightarrow> step + 1 \<noteq> unat (acd_step_count (g_active_chunk g))"
      using Some by (cases "publish_step lerp now step g") (auto simp: P g1_def)
    moreover have "take n (blit (g_output g) 0 (take n pend)) = take n pend" using n plen by (simp add: blit_def)
    ultimately show ?thesis using published [OF _ plen V(1,2) _ V(4-7)] V(3) by simp
  qed
qed

lemma publish_step_inv:
  assumes "gate_inv g" "lerp_ok lerp" "g_active g" "step < unat (acd_step_count (g_active_chunk g))"
  shows "gate_inv (snd (publish_step lerp now step g))"
  using assms
proof (cases rule: publish_step_cases [where now = now])
  case (unsafe pend f)
  then show ?thesis using assms(1) by (simp add: gate_inv_def)
next
  case (published pend vs view g')
  note I = assms(1) [unfolded gate_inv_def]
  note S = published(1) [unfolded step_safe_def]
  let ?out = "blit (g_output g) 0 vs"
  have out: "length ?out = kMaxActionDim" "\<forall>i < dc_control_dim (g_config g). ?out ! i = vs ! i"
    using I S by (auto simp: nth_blit)
  have "gate_inv (g\<lparr>g_pending_output := pend, g_output := ?out, g_next_step := step + 1, g_last_publish_ns := now,
         g_has_last_output := True, g_active := g_active g', g_counters := g_counters g'\<rparr>)"
    using I S out published(2) assms(3) by (auto simp: gate_inv_def)
  then show ?thesis using published(3,4) by simp
qed

lemma gate_next_inv:
  assumes "gate_inv g" "lerp_ok lerp"
  shows "gate_inv (snd (gate_next lerp now g))"
proof -
  have off: "gate_inv (g\<lparr>g_active := False, g_counters := c\<rparr>)" for c using assms(1) by (simp add: gate_inv_def)
  show ?thesis
    unfolding gate_next_def Let_def using assms(1) off publish_step_inv [OF assms] by simp
qed

lemma gate_apply_inv:
  assumes "gate_inv g" "lerp_ok lerp" "call_typed call"
  shows "gate_inv (gate_apply lerp call g)"
proof (cases call)
  case (Call_Chunk chunk now)
  then show ?thesis using accept_impl_inv [OF assms(1), of chunk False now] assms(3) by (simp add: accept_chunk_def)
qed (use assms accept_action_inv gate_next_inv gate_reset_inv in simp_all)

interpretation gate_machine: inductive_invariant gate_init "gate_step lerp" gate_inv for lerp
proof unfold_locales
  show "gate_init g \<Longrightarrow> gate_inv g" for g by (auto simp: gate_init_def gate_create_inv)
  show "gate_step lerp g h \<Longrightarrow> gate_inv g \<Longrightarrow> gate_inv h" for g h
    by (induction rule: gate_step.induct) (rule gate_apply_inv)
qed

section \<open>The order of publication\<close>

fun gate_run :: "(fp \<Rightarrow> fp \<Rightarrow> fp \<Rightarrow> fp) \<Rightarrow> gate_call list \<Rightarrow> ActionDeliveryGate \<Rightarrow> ActionStepView list \<times> ActionDeliveryGate" where
  "gate_run lerp [] g = ([], g)"
| "gate_run lerp (call # calls) g =
     (let (views, g') = gate_run lerp calls (gate_apply lerp call g)
      in (case call of
            Call_Next now \<Rightarrow> (case fst (gate_next lerp now g) of Inr view \<Rightarrow> view # views | Inl _ \<Rightarrow> views)
          | _ \<Rightarrow> views, g'))"

definition published_before :: "ActionStepView \<Rightarrow> ActionStepView \<Rightarrow> bool" where
  "published_before v w \<longleftrightarrow>
     asv_generation v < asv_generation w \<or> asv_generation v = asv_generation w \<and> asv_step_index v < asv_step_index w"

text \<open>A view that can still be published from a state of a bound session.\<close>

definition still_due :: "ActionDeliveryGate \<Rightarrow> ActionStepView \<Rightarrow> bool" where
  "still_due g v \<longleftrightarrow> g_session_bound g \<longrightarrow> asv_session_id v = g_session_id g \<and>
     (g_newest_generation g < asv_generation v \<or>
      g_newest_generation g = asv_generation v \<and> g_next_step g \<le> unat (asv_step_index v))"

lemma gate_next_published:
  assumes "gate_inv g" "lerp_ok lerp" "gate_next lerp now g = (Inr v, g')"
  shows "step_safe g now (asv_values v)" "g_session_bound g" "still_due g v"
    "asv_generation v = g_newest_generation g" "asv_session_id v = g_session_id g"
    "g_session_bound g'" "g_session_id g' = g_session_id g" "g_newest_generation g' = g_newest_generation g"
    "g_next_step g' = unat (asv_step_index v) + 1"
    "unat (asv_step_index v) = unat ((now - acd_valid_from_ns (g_active_chunk g)) div dc_step_period_ns (g_config g))"
    "take (dc_control_dim (g_config g)) (g_output g') = asv_values v" "g_last_publish_ns g' = now" "g_has_last_output g'"
    "g_config g' = g_config g"
proof -
  obtain step where act: "g_active g"
    and st: "step = unat ((now - acd_valid_from_ns (g_active_chunk g)) div dc_step_period_ns (g_config g))"
      "g_next_step g \<le> step" "step < unat (acd_step_count (g_active_chunk g))" "publish_step lerp now step g = (Inr v, g')"
    using gate_next_ok [OF assms(3)] by blast
  have idx: "unat (of_nat step :: u32) = step"
    using less_trans [OF st(3) unsigned_less [where 'a = nat]] by (simp add: unat_of_nat)
  have I: "g_session_bound g" "acd_session_id (g_active_chunk g) = g_session_id g" "acd_generation (g_active_chunk g) = g_newest_generation g"
    using assms(1) act by (simp_all add: gate_inv_def)
  obtain pend where P: "step_safe g now (asv_values v)"
    "g' = g\<lparr>g_pending_output := pend, g_output := blit (g_output g) 0 (asv_values v), g_next_step := step + 1, g_last_publish_ns := now,
         g_has_last_output := True, g_active := g_active g', g_counters := g_counters g'\<rparr>"
    and V: "asv_generation v = g_newest_generation g" "asv_session_id v = g_session_id g" "asv_step_index v = of_nat step"
    using assms(1,2) act st(3) by (cases rule: publish_step_cases [where now = now]) (use st(4) I in auto)
  show "step_safe g now (asv_values v)" "g_session_bound g" "asv_generation v = g_newest_generation g" "asv_session_id v = g_session_id g"
    by (fact P(1) I(1) V(1,2))+
  show "still_due g v" using V idx st(2) by (simp add: still_due_def)
  show "g_session_bound g'" "g_session_id g' = g_session_id g" "g_newest_generation g' = g_newest_generation g"
    "g_next_step g' = unat (asv_step_index v) + 1"
    using I(1) V(3) idx by (subst P(2); simp)+
  show "unat (asv_step_index v) = unat ((now - acd_valid_from_ns (g_active_chunk g)) div dc_step_period_ns (g_config g))"
    using V(3) idx st(1) by simp
  have "length (asv_values v) = dc_control_dim (g_config g)" using P(1) by (simp add: step_safe_def)
  then show "take (dc_control_dim (g_config g)) (g_output g') = asv_values v" "g_last_publish_ns g' = now" "g_has_last_output g'"
    "g_config g' = g_config g"
    by (subst P(2); simp add: blit_def)+
qed

text \<open>The number of steps since the last publication, without a machine width.\<close>

lemma elapsed_steps_exact:
  assumes "g_has_last_output g" "\<not> now < g_last_publish_ns g"
  shows "unat (elapsed_publish_steps now g) = max 1 ((unat now - unat (g_last_publish_ns g)) div unat (dc_step_period_ns (g_config g)))"
proof (cases "now = g_last_publish_ns g")
  case True
  then show ?thesis by (simp add: elapsed_publish_steps_def)
next
  case False
  then have lt: "g_last_publish_ns g < now" using assms(2) by simp
  have "unat (max a b) = max (unat a) (unat b)" for a b :: u64 by (simp add: max_def word_le_nat_alt)
  then show ?thesis using lt assms(1) by (simp add: elapsed_publish_steps_def unat_div unat_sub less_imp_le)
qed

text \<open>What the next change is measured against stays as it is until the next publication or reset.\<close>

lemma gate_apply_reference:
  assumes "call \<noteq> Call_Reset" "fst (gate_run lerp [call] g) = []"
  shows "g_output (gate_apply lerp call g) = g_output g \<and> g_last_publish_ns (gate_apply lerp call g) = g_last_publish_ns g \<and>
    g_has_last_output (gate_apply lerp call g) = g_has_last_output g \<and> g_config (gate_apply lerp call g) = g_config g"
proof -
  have accept: "g_output (snd (accept_impl chunk now v g)) = g_output g \<and> g_last_publish_ns (snd (accept_impl chunk now v g)) = g_last_publish_ns g \<and>
      g_has_last_output (snd (accept_impl chunk now v g)) = g_has_last_output g \<and> g_config (snd (accept_impl chunk now v g)) = g_config g" for chunk now v
    by (cases rule: accept_impl_cases [of chunk now v g]) (simp_all add: install_chunk_def capture_overlap_def Let_def)
  show ?thesis
  proof (cases call)
    case (Call_Next now)
    then show ?thesis using assms(2)
      by (auto simp: gate_next_def publish_step_def Let_def split: if_splits prod.splits option.splits)
  next
    case (Call_Action m now start)
    then show ?thesis using accept by (auto simp: accept_action_def Let_def split: sum.splits)
  next
    case (Call_Chunk chunk now)
    then show ?thesis using accept by (simp add: accept_chunk_def)
  qed (use assms in simp)
qed

lemma gate_run_reference:
  assumes "gate_run lerp calls g = ([], g')" "Call_Reset \<notin> set calls"
  shows "g_output g' = g_output g \<and> g_last_publish_ns g' = g_last_publish_ns g \<and> g_has_last_output g' = g_has_last_output g \<and>
    g_config g' = g_config g"
  using assms
proof (induction calls arbitrary: g)
  case (Cons call calls)
  have "gate_run lerp calls (gate_apply lerp call g) = ([], g')" "fst (gate_run lerp [call] g) = []"
    using Cons.prems(1) by (auto simp: Let_def split: prod.splits gate_call.splits sum.splits if_splits)
  with Cons.IH [of "gate_apply lerp call g"] gate_apply_reference [of call lerp g] Cons.prems(2) show ?case by fastforce
qed simp

lemma accept_impl_due:
  assumes "still_due (snd (accept_impl chunk now x g)) v"
  shows "still_due g v \<and> (g_session_bound g \<longrightarrow> g_session_bound (snd (accept_impl chunk now x g)))"
proof (cases rule: accept_impl_cases [of chunk now x g])
  case (rejected f)
  then show ?thesis using assms by (simp add: still_due_def)
next
  case (accepted f)
  have "g_session_bound (install_chunk chunk g)" "g_session_id (install_chunk chunk g) = acd_session_id (acv_descriptor chunk)"
    "g_newest_generation (install_chunk chunk g) = acd_generation (acv_descriptor chunk)"
    by (simp_all add: install_chunk_def Let_def)
  then show ?thesis using assms accept_refusal_None(4) [OF accepted(1)] accepted(2) by (auto simp: still_due_def)
qed

lemma accept_action_due:
  assumes "still_due (snd (accept_action m now from g)) v"
  shows "still_due g v"
proof (cases "make_action_chunk m (dc_control_dim (g_config g)) now from (dc_step_period_ns (g_config g))")
  case (Inl e)
  then show ?thesis using assms by (simp add: accept_action_def Let_def still_due_def split: if_splits)
next
  case (Inr chunk)
  then show ?thesis using assms accept_impl_due [of chunk now True g v] by (simp add: accept_action_def)
qed

lemma gate_next_failed:
  assumes "gate_inv g" "lerp_ok lerp" "fst (gate_next lerp now g) = Inl e"
  shows "still_due (snd (gate_next lerp now g)) v \<longleftrightarrow> still_due g v"
proof -
  have "still_due (snd (publish_step lerp now step g)) v \<longleftrightarrow> still_due g v"
    if "fst (publish_step lerp now step g) = Inl e" "g_active g" "step < unat (acd_step_count (g_active_chunk g))" for step
    using assms(1,2) that(2,3) by (cases rule: publish_step_cases [where now = now]) (use that(1) in \<open>simp_all add: still_due_def\<close>)
  moreover have "still_due (g\<lparr>g_active := False, g_counters := c\<rparr>) v \<longleftrightarrow> still_due g v" for c by (simp add: still_due_def)
  ultimately show ?thesis using assms(3) unfolding gate_next_def Let_def by (simp split: if_splits) blast
qed

lemma gate_run_sorted:
  assumes "gate_inv g" "lerp_ok lerp" "\<forall>c \<in> set calls. call_typed c" "Call_Reset \<notin> set calls" "gate_run lerp calls g = (views, g')"
  shows "sorted_wrt published_before views \<and> (\<forall>v \<in> set views. still_due g v)"
  using assms(1,3-5)
proof (induction calls arbitrary: g views)
  case (Cons call calls)
  obtain rest where rest: "gate_run lerp calls (gate_apply lerp call g) = (rest, g')"
    using Cons.prems(4) by (auto simp: Let_def split: prod.splits)
  have inv: "gate_inv (gate_apply lerp call g)" using gate_apply_inv [OF Cons.prems(1) assms(2)] Cons.prems(2) by simp
  have IH: "sorted_wrt published_before rest" "\<forall>v \<in> set rest. still_due (gate_apply lerp call g) v"
    using Cons.IH [OF inv _ _ rest] Cons.prems(2,3) by simp_all
  consider (next_ok) now v g1 where "call = Call_Next now" "gate_next lerp now g = (Inr v, g1)" "views = v # rest"
    | (other) "views = rest" "\<forall>v. still_due (gate_apply lerp call g) v \<longrightarrow> still_due g v"
  proof (cases call)
    case (Call_Next now)
    show ?thesis
    proof (cases "fst (gate_next lerp now g)")
      case (Inl e)
      then show ?thesis using other rest Cons.prems(4) Call_Next gate_next_failed [OF Cons.prems(1) assms(2) Inl] by simp
    next
      case (Inr v)
      then have "gate_next lerp now g = (Inr v, snd (gate_next lerp now g))" by (metis prod.collapse)
      from next_ok [OF Call_Next this] show ?thesis using Inr rest Cons.prems(4) Call_Next by simp
    qed
  next
    case (Call_Action m now start)
    then show ?thesis using other rest Cons.prems(4) accept_action_due by simp
  next
    case (Call_Chunk chunk now)
    then show ?thesis using other rest Cons.prems(4) accept_impl_due [of chunk now False g] by (simp add: accept_chunk_def)
  next
    case Call_Reset
    then show ?thesis using Cons.prems(3) by simp
  qed
  then show ?case
  proof cases
    case next_ok
    note P = gate_next_published [OF Cons.prems(1) assms(2) next_ok(2)]
    have g1: "gate_apply lerp call g = g1" using next_ok by simp
    have "published_before v w \<and> still_due g w" if "w \<in> set rest" for w
      using IH(2) [rule_format, OF that] P unfolding g1 published_before_def still_due_def word_less_nat_alt by auto
    then show ?thesis using IH(1) P(3) next_ok(3) by simp
  next
    case other
    then show ?thesis using IH by simp
  qed
qed simp

section \<open>An example gate\<close>

fun demo_lerp :: "fp \<Rightarrow> fp \<Rightarrow> fp \<Rightarrow> fp" where
  "demo_lerp (Fin a) (Fin b) (Fin t) = round32 (a + t * (b - a))"
| "demo_lerp _ _ _ = NaN"

lemma demo_lerp_ok: "lerp_ok demo_lerp"
proof -
  have "isfinite (round32 (a + t * (b - a)))"
    if t: "0 \<le> t" "t \<le> 1" and ab: "round32 a = Fin a" "round32 b = Fin b" for a b t :: rat
  proof -
    have c: "t * (b - a) \<le> max 0 (b - a)" "min 0 (b - a) \<le> t * (b - a)"
      using t by (auto simp: max_def min_def mult_left_le_one_le mult_le_cancel_right1 mult_nonneg_nonneg mult_nonneg_nonpos not_le)
    have "round32 (max a b) = Fin (max a b)" "round32 (min a b) = Fin (min a b)" using ab by (simp_all add: max_def min_def)
    moreover have "min a b \<le> a + t * (b - a)" "a + t * (b - a) \<le> max a b" using c by linarith+
    ultimately show ?thesis
      using fp_between_finite [of "min a b" "round32 (a + t * (b - a))" "max a b"] round32_mono by fastforce
  qed
  then show ?thesis by (auto simp: lerp_ok_def isfinite_conv round32_float)
qed

definition demo_gate_model :: fe_model_metadata where
  "demo_gate_model = \<lparr>fmm_struct_size = 96, fmm_protocol_version = FE_PROTOCOL_VERSION, fmm_architecture = 0, fmm_precision = 0,
     fmm_model_digest = replicate 16 0, fmm_d_model = 1, fmm_n_layers = 1, fmm_d_inner = 1, fmm_d_state = 1, fmm_d_conv = 1,
     fmm_action_dim = 2, fmm_condition_dim = 1, fmm_decode_snapshot_bytes = 0\<rparr>"

definition demo_gate_config :: ActionDeliveryConfig where
  "demo_gate_config = \<lparr>dc_control_dim = 1, dc_overlap_steps = 0, dc_step_period_ns = 10, dc_max_source_age_ns = 0, dc_unsafe_policy = UAP_kReject\<rparr>"

definition demo_limits :: ActionSafetyLimits where
  "demo_limits = \<lparr>lim_lower = [Fin (-1)], lim_upper = [Fin 1], lim_max_delta = [Fin 1]\<rparr>"

definition demo_chunk :: ActionChunkView where
  "demo_chunk = \<lparr>acv_descriptor = default_chunk_descriptor\<lparr>acd_control_dim := 1, acd_step_count := 2, acd_sequence := 1, acd_session_id := 7,
     acd_generation := 1, acd_produced_ns := 100, acd_valid_from_ns := 100, acd_valid_until_ns := 120\<rparr>, acv_values = [Fin 1, Fin 0]\<rparr>"

definition demo_gate :: ActionDeliveryGate where
  "demo_gate = (make_gate demo_gate_model demo_gate_config)\<lparr>g_lower := blit (replicate kMaxActionDim (Fin 0)) 0 [Fin (-1)],
     g_upper := blit (replicate kMaxActionDim (Fin 0)) 0 [Fin 1], g_max_delta := blit (replicate kMaxActionDim (Fin 0)) 0 [Fin 1]\<rparr>"

lemma round32_units: "round32 1 = Fin 1" "round32 (-1) = Fin (-1)"
proof -
  show "round32 1 = Fin 1" using round_fp_power [of 24 "-126" 0 127] by (simp add: round32_def)
  then show "round32 (-1) = Fin (-1)" by (simp add: round32_def round_fp_def round_abs_def Let_def split: if_splits)
qed

lemma demo_gate_create: "gate_create demo_gate_model demo_gate_config demo_limits = Inr demo_gate"
  by (simp add: gate_create_def valid_model_def demo_gate_model_def demo_gate_config_def demo_limits_def limit_ok_def fp_gt_def
      sizeof_fe_model_metadata_def kMaxActionDim_def demo_gate_def make_gate_def Let_def)

lemma demo_gate_init: "gate_init demo_gate"
proof -
  have "limits_typed demo_limits" by (simp add: limits_typed_def demo_limits_def round32_units)
  then show ?thesis unfolding gate_init_def using demo_gate_create by blast
qed

lemma demo_accept: "accept_chunk demo_chunk 100 demo_gate = (AR_kAccepted, install_chunk demo_chunk demo_gate)"
  by (simp add: accept_chunk_def accept_impl_def accept_refusal_def demo_chunk_def demo_gate_def make_gate_def Let_def
      default_chunk_descriptor_def demo_gate_model_def demo_gate_config_def kMaxActionDim_def within_absolute_limits_def fp_gt_def blit_def)

lemma demo_reach: "reach gate_init (gate_step demo_lerp) (install_chunk demo_chunk demo_gate)"
proof -
  have "call_typed (Call_Chunk demo_chunk 100)" by (simp add: demo_chunk_def round32_units)
  then have "gate_step demo_lerp demo_gate (install_chunk demo_chunk demo_gate)"
    using gate_step.intros [OF demo_lerp_ok, of "Call_Chunk demo_chunk 100" demo_gate] by (simp add: demo_accept)
  then show ?thesis using demo_gate_init by (blast intro: reach.intros)
qed

lemmas gate_eval = gate_next_def publish_step_def install_chunk_def capture_overlap_def demo_chunk_def demo_gate_def make_gate_def Let_def
  default_chunk_descriptor_def demo_gate_model_def demo_gate_config_def kMaxActionDim_def blit_def candidate_value_def safe_value_def
  fp_clamp_def fp_le_simps take_Suc hd_conv_nth elapsed_publish_steps_def double_sub_def

lemma round64_units: "round64 1 = Fin 1" "round64 2 = Fin 2" "round64 (-1) = Fin (-1)"
proof -
  show "round64 1 = Fin 1" "round64 2 = Fin 2"
    using round_fp_power [of 53 "-1022" 0 1023] round_fp_power [of 53 "-1022" 1 1023] by (simp_all add: round64_def)
  show "round64 (-1) = Fin (-1)" using float_is_double round32_units(2) by blast
qed

lemma demo_next:
  "\<exists>view g. gate_next demo_lerp 105 (install_chunk demo_chunk demo_gate) = (Inr view, g) \<and> asv_values view = [Fin 1]"
  by (simp add: gate_eval)

section \<open>Properties\<close>

text \<open>
  C18: Whatever messages, chunks and clock readings a gate has seen, every step it publishes has one
  finite value per control component, each inside the absolute limits of its component and, once a
  step has been published, between the last published value minus and plus the allowed change: the
  configured change per step times the number of whole step periods since that publication, at least
  one, with the roundings of the code. What was published and when stays the reference of the next
  change until the next publication or a reset. The step belongs to the newest accepted chunk of the
  bound session and to the present time: inside the validity window of the chunk.
\<close>

theorem gate_publishes_safe:
  assumes "reach gate_init (gate_step lerp) g" and "lerp_ok lerp" and "gate_next lerp now g = (Inr view, g')"
  shows "length (asv_values view) = dc_control_dim (g_config g) \<and>
    (\<forall>i < dc_control_dim (g_config g).
       let v = asv_values view ! i; last_value = g_output g ! i;
           steps = max 1 ((unat now - unat (g_last_publish_ns g)) div unat (dc_step_period_ns (g_config g)));
           change = double_mul (g_max_delta g ! i) (round64 (of_nat steps))
       in isfinite v \<and> fp_le (g_lower g ! i) v \<and> fp_le v (g_upper g ! i) \<and>
          (g_has_last_output g \<longrightarrow>
             fp_le (to_float (double_sub last_value change)) v \<and> fp_le v (to_float (double_add last_value change)))) \<and>
    (\<forall>calls g''. gate_run lerp calls g' = ([], g'') \<and> Call_Reset \<notin> set calls \<longrightarrow>
       take (dc_control_dim (g_config g'')) (g_output g'') = asv_values view \<and> g_last_publish_ns g'' = now \<and> g_has_last_output g'') \<and>
    asv_generation view = g_newest_generation g \<and> asv_session_id view = g_session_id g \<and>
    acd_valid_from_ns (g_active_chunk g) \<le> now \<and> now < acd_valid_until_ns (g_active_chunk g)"
proof -
  note P = gate_next_published [OF gate_machine.reach_inv [OF assms(1)] assms(2,3)]
  note ok = gate_next_ok [OF assms(3)]
  have "take (dc_control_dim (g_config g'')) (g_output g'') = asv_values view \<and> g_last_publish_ns g'' = now \<and> g_has_last_output g''"
    if "gate_run lerp calls g' = ([], g'')" "Call_Reset \<notin> set calls" for calls g''
    using gate_run_reference [OF that] P(11-14) by simp
  moreover have "g_has_last_output g \<Longrightarrow> unat (elapsed_publish_steps now g) =
      max 1 ((unat now - unat (g_last_publish_ns g)) div unat (dc_step_period_ns (g_config g)))"
    using elapsed_steps_exact ok by blast
  ultimately show ?thesis
    using P(1,4,5) ok by (auto simp: step_safe_def good_def change_bounded_def allowed_change_def Let_def)
qed

theorem gate_publishes_safe_witness:
  "\<exists>view g. gate_next demo_lerp 105 (install_chunk demo_chunk demo_gate) = (Inr view, g) \<and> asv_values view = [Fin 1] \<and>
     fp_le (g_lower (install_chunk demo_chunk demo_gate) ! 0) (Fin 1) \<and> fp_le (Fin 1) (g_upper (install_chunk demo_chunk demo_gate) ! 0)"
proof -
  obtain view g where v: "gate_next demo_lerp 105 (install_chunk demo_chunk demo_gate) = (Inr view, g)" "asv_values view = [Fin 1]"
    using demo_next by blast
  have "0 < dc_control_dim (g_config (install_chunk demo_chunk demo_gate))" by (simp add: gate_eval)
  with gate_publishes_safe [OF demo_reach demo_lerp_ok v(1)] v show ?thesis by (metis nth_Cons_0)
qed

text \<open>
  C19: Between two resets a gate publishes the steps of one session only, in order: a later view has
  a newer generation, or the same generation and a higher step index. No step is published twice.
\<close>

theorem gate_publishes_in_order:
  assumes "reach gate_init (gate_step lerp) g" and "lerp_ok lerp" and "\<forall>c \<in> set calls. call_typed c"
    and "Call_Reset \<notin> set calls" and "gate_run lerp calls g = (views, g')"
  shows "sorted_wrt published_before views \<and> (g_session_bound g \<longrightarrow> (\<forall>v \<in> set views. asv_session_id v = g_session_id g))"
  using gate_run_sorted [OF gate_machine.reach_inv [OF assms(1)] assms(2-5)] by (auto simp: still_due_def)

theorem gate_publishes_in_order_witness:
  "\<exists>v w g. gate_run demo_lerp [Call_Next 105, Call_Next 106, Call_Next 115] (install_chunk demo_chunk demo_gate) = ([v, w], g) \<and>
     published_before v w"
proof -
  let ?calls = "[Call_Next 105, Call_Next 106, Call_Next 115]" and ?g = "install_chunk demo_chunk demo_gate"
  have "length (fst (gate_run demo_lerp ?calls ?g)) = 2"
    by (simp add: gate_eval round64_units)
  then obtain v w g where r: "gate_run demo_lerp ?calls ?g = ([v, w], g)"
    by (cases "gate_run demo_lerp ?calls ?g") (auto simp: length_Suc_conv numeral_2_eq_2)
  from gate_publishes_in_order [OF demo_reach demo_lerp_ok _ _ r] r show ?thesis by auto
qed

end
