(* ===== verification/Ring_Objects.thy ===== *)
theory Ring_Objects
  imports Shared_Ring
begin

text \<open>
  relay/shared\_memory/shared\_memory\_ring.\{h,cc\}, the object behind a ring: creating, opening, moving
  and releasing a \<open>SharedMemoryRing\<close> (the POSIX variant). The operating system is a state: the
  named shared-memory objects, the open descriptors and the mappings. Which system calls fail is a
  parameter (\<open>OsFaults\<close>); a call that does not fail does what POSIX says, on this state. A descriptor
  is a number that is not in use.
\<close>

section \<open>Definitions\<close>

subsection \<open>The operating system\<close>

text \<open>An object has a size and the contents a mapping of it shows; \<open>os_objects\<close> survives the unlinking of its name.\<close>

record ShmObject =
  so_bytes :: nat
  so_mem :: RingMem

record Os =
  os_names :: "string \<rightharpoonup> nat"
  os_objects :: "nat \<Rightarrow> ShmObject"
  os_descriptors :: "nat \<rightharpoonup> nat"
  os_mappings :: "(nat \<times> nat) multiset"
  os_next_object :: nat
  os_next_descriptor :: nat

record OsFaults =
  of_shm_open :: bool
  of_ftruncate :: bool
  of_fstat :: bool
  of_mmap :: bool

text \<open>The contents of a new object after \<open>ftruncate\<close>: zero bytes.\<close>

definition zero_mem :: "nat \<Rightarrow> RingMem" where
  "zero_mem bytes = \<lparr>rg_magic = 0, rg_version = 0, rg_capacity = 0, rg_slot_bytes = 0, rg_mapping_bytes = 0,
     rg_write_sequence = 0, rg_read_sequence = 0, rg_slots = replicate (bytes - sizeof_RingHeader) 0\<rparr>"

definition os_open_descriptor :: "nat \<Rightarrow> Os \<Rightarrow> nat \<times> Os" where
  "os_open_descriptor object os =
     (os_next_descriptor os, os\<lparr>os_descriptors := (os_descriptors os)(os_next_descriptor os \<mapsto> object),
        os_next_descriptor := Suc (os_next_descriptor os)\<rparr>)"

text \<open>\<open>shm_open\<close> with \<open>O_CREAT | O_EXCL\<close>, and without: the descriptor, or \<open>None\<close> for a negative answer.\<close>

definition shm_open_create :: "OsFaults \<Rightarrow> string \<Rightarrow> Os \<Rightarrow> nat option \<times> Os" where
  "shm_open_create faults name os =
     (if of_shm_open faults \<or> name \<in> dom (os_names os) then (None, os)
      else let object = os_next_object os;
               os1 = os\<lparr>os_names := (os_names os)(name \<mapsto> object), os_next_object := Suc object,
                 os_objects := (os_objects os)(object := \<lparr>so_bytes = 0, so_mem = zero_mem 0\<rparr>)\<rparr>
           in case os_open_descriptor object os1 of (fd, os2) \<Rightarrow> (Some fd, os2))"

definition shm_open_existing :: "OsFaults \<Rightarrow> string \<Rightarrow> Os \<Rightarrow> nat option \<times> Os" where
  "shm_open_existing faults name os =
     (if of_shm_open faults then (None, os)
      else case os_names os name of
          None \<Rightarrow> (None, os)
        | Some object \<Rightarrow> (case os_open_descriptor object os of (fd, os1) \<Rightarrow> (Some fd, os1)))"

definition os_object :: "nat \<Rightarrow> Os \<Rightarrow> nat" where
  "os_object fd os = the (os_descriptors os fd)"

definition os_ftruncate :: "OsFaults \<Rightarrow> nat \<Rightarrow> nat \<Rightarrow> Os \<Rightarrow> bool \<times> Os" where
  "os_ftruncate faults fd bytes os =
     (if of_ftruncate faults then (False, os)
      else (True, os\<lparr>os_objects := (os_objects os)(os_object fd os := \<lparr>so_bytes = bytes, so_mem = zero_mem bytes\<rparr>)\<rparr>))"

definition os_mmap :: "OsFaults \<Rightarrow> nat \<Rightarrow> nat \<Rightarrow> Os \<Rightarrow> nat option \<times> Os" where
  "os_mmap faults fd bytes os =
     (if of_mmap faults then (None, os)
      else (Some (os_object fd os), os\<lparr>os_mappings := add_mset (os_object fd os, bytes) (os_mappings os)\<rparr>))"

definition os_munmap :: "nat \<Rightarrow> nat \<Rightarrow> Os \<Rightarrow> Os" where
  "os_munmap object bytes os = os\<lparr>os_mappings := os_mappings os - {#(object, bytes)#}\<rparr>"

definition os_close :: "nat \<Rightarrow> Os \<Rightarrow> Os" where
  "os_close fd os = os\<lparr>os_descriptors := (os_descriptors os)(fd := None)\<rparr>"

definition os_unlink :: "string \<Rightarrow> Os \<Rightarrow> Os" where
  "os_unlink name os = os\<lparr>os_names := (os_names os)(name := None)\<rparr>"

subsection \<open>The handle\<close>

text \<open>\<open>smr_mapping\<close> is the mapped object, \<open>smr_descriptor\<close> is \<open>None\<close> for -1.\<close>

record SharedMemoryRing =
  smr_mapping :: "nat option"
  smr_mapping_bytes :: nat
  smr_name :: string
  smr_unlink_on_destroy :: bool
  smr_descriptor :: "nat option"

definition null_ring :: SharedMemoryRing where
  "null_ring = \<lparr>smr_mapping = None, smr_mapping_bytes = 0, smr_name = [], smr_unlink_on_destroy = False, smr_descriptor = None\<rparr>"

definition smr_create :: "OsFaults \<Rightarrow> string \<Rightarrow> RingConfig \<Rightarrow> bool \<Rightarrow> Os \<Rightarrow> (string + SharedMemoryRing) \<times> Os" where
  "smr_create faults name config unlink_on_destroy os =
     (let bytes = unat (required_bytes config)
      in if name = [] \<or> bytes = 0 then (Inl ''Ring name, power-of-two capacity, or slot size is invalid'', os)
         else let name = posix_name name
              in case shm_open_create faults name os of
                   (None, os1) \<Rightarrow> (Inl ''shm_open create failed for shared-memory ring'', os1)
                 | (Some fd, os1) \<Rightarrow>
                     (case os_ftruncate faults fd bytes os1 of
                        (False, os2) \<Rightarrow> (Inl ''ftruncate failed for shared-memory ring'', os_unlink name (os_close fd os2))
                      | (True, os2) \<Rightarrow>
                          (case os_mmap faults fd bytes os2 of
                             (None, os3) \<Rightarrow> (Inl ''mmap failed for shared-memory ring'', os_unlink name (os_close fd os3))
                           | (Some mapping, os3) \<Rightarrow>
                               (Inr \<lparr>smr_mapping = Some mapping, smr_mapping_bytes = bytes, smr_name = name,
                                  smr_unlink_on_destroy = unlink_on_destroy, smr_descriptor = Some fd\<rparr>,
                                os3\<lparr>os_objects := (os_objects os3)(mapping := (os_objects os3 mapping)\<lparr>so_mem := format_ring config\<rparr>)\<rparr>))))"

definition smr_open :: "OsFaults \<Rightarrow> string \<Rightarrow> Os \<Rightarrow> (string + SharedMemoryRing) \<times> Os" where
  "smr_open faults name os =
     (if name = [] then (Inl ''Shared-memory ring name is empty'', os)
      else let name = posix_name name
           in case shm_open_existing faults name os of
                (None, os1) \<Rightarrow> (Inl ''shm_open failed for shared-memory ring'', os1)
              | (Some fd, os1) \<Rightarrow>
                  if of_fstat faults then (Inl ''fstat failed for shared-memory ring'', os_close fd os1)
                  else let bytes = so_bytes (os_objects os1 (os_object fd os1))
                       in case os_mmap faults fd bytes os1 of
                            (None, os2) \<Rightarrow> (Inl ''mmap failed for shared-memory ring'', os_close fd os2)
                          | (Some mapping, os2) \<Rightarrow>
                              (case validate_mapping (Some (so_mem (os_objects os2 mapping))) bytes of
                                 Inl e \<Rightarrow> (Inl e, os_close fd (os_munmap mapping bytes os2))
                               | Inr _ \<Rightarrow>
                                   (Inr \<lparr>smr_mapping = Some mapping, smr_mapping_bytes = bytes, smr_name = name,
                                      smr_unlink_on_destroy = False, smr_descriptor = Some fd\<rparr>, os2)))"

definition smr_release :: "SharedMemoryRing \<Rightarrow> Os \<Rightarrow> SharedMemoryRing \<times> Os" where
  "smr_release ring os =
     (let os1 = (case smr_mapping ring of None \<Rightarrow> os | Some mapping \<Rightarrow> os_munmap mapping (smr_mapping_bytes ring) os);
          os2 = (case smr_descriptor ring of None \<Rightarrow> os1 | Some fd \<Rightarrow> os_close fd os1);
          os3 = (if smr_unlink_on_destroy ring \<and> smr_name ring \<noteq> [] then os_unlink (smr_name ring) os2 else os2)
      in (ring\<lparr>smr_mapping := None, smr_descriptor := None, smr_mapping_bytes := 0, smr_unlink_on_destroy := False\<rparr>, os3))"

text \<open>
  Move assignment from another object: the new value of the target and what is left of the source.
  A string moved from is empty in every implementation the build supports; nothing below depends on it.
\<close>

definition smr_move_assign :: "SharedMemoryRing \<Rightarrow> SharedMemoryRing \<Rightarrow> Os \<Rightarrow> SharedMemoryRing \<times> SharedMemoryRing \<times> Os" where
  "smr_move_assign target other os =
     (case smr_release target os of
        (_, os1) \<Rightarrow>
          (\<lparr>smr_mapping = smr_mapping other, smr_mapping_bytes = smr_mapping_bytes other, smr_name = smr_name other,
             smr_unlink_on_destroy = smr_unlink_on_destroy other, smr_descriptor = smr_descriptor other\<rparr>,
           other\<lparr>smr_mapping := None, smr_mapping_bytes := 0, smr_name := [], smr_unlink_on_destroy := False, smr_descriptor := None\<rparr>,
           os1))"

definition smr_move_construct :: "SharedMemoryRing \<Rightarrow> Os \<Rightarrow> SharedMemoryRing \<times> SharedMemoryRing \<times> Os" where
  "smr_move_construct other os = smr_move_assign null_ring other os"

definition smr_valid :: "SharedMemoryRing \<Rightarrow> bool" where
  "smr_valid ring \<longleftrightarrow> smr_mapping ring \<noteq> None"

text \<open>The memory a handle works on: what \<open>config\<close>, \<open>size\<close>, \<open>try_push\<close> and \<open>try_pop\<close> of the ring see.\<close>

definition smr_memory :: "SharedMemoryRing \<Rightarrow> Os \<Rightarrow> RingMem option" where
  "smr_memory ring os = map_option (\<lambda>object. so_mem (os_objects os object)) (smr_mapping ring)"

definition smr_store :: "SharedMemoryRing \<Rightarrow> RingMem option \<Rightarrow> Os \<Rightarrow> Os" where
  "smr_store ring memory os =
     (case (smr_mapping ring, memory) of
        (Some object, Some m) \<Rightarrow> os\<lparr>os_objects := (os_objects os)(object := (os_objects os object)\<lparr>so_mem := m\<rparr>)\<rparr>
      | _ \<Rightarrow> os)"

definition smr_try_push :: "byte list \<Rightarrow> SharedMemoryRing \<Rightarrow> Os \<Rightarrow> RingResult \<times> Os" where
  "smr_try_push payload ring os =
     (case ring_try_push payload (smr_memory ring os) of (r, memory) \<Rightarrow> (r, smr_store ring memory os))"

definition smr_try_pop :: "byte list \<Rightarrow> SharedMemoryRing \<Rightarrow> Os \<Rightarrow> RingResult \<times> nat \<times> byte list \<times> Os" where
  "smr_try_pop destination ring os =
     (case ring_try_pop destination (smr_memory ring os) of
        (r, n, destination', memory) \<Rightarrow> (r, n, destination', smr_store ring memory os))"

end
