(* ===== verification/Ring_Objects_Correct.thy ===== *)
theory Ring_Objects_Correct
  imports Ring_Objects
begin

text \<open>
  Ownership of the operating system's objects by ring handles, over any sequence of operations on
  any number of handles with any system call failing: descriptors and mappings are exactly those of
  the live handles, and every valid handle works on a well-formed ring.
\<close>

section \<open>Definitions\<close>

definition empty_os :: Os where
  "empty_os = \<lparr>os_names = Map.empty, os_objects = (\<lambda>_. \<lparr>so_bytes = 0, so_mem = zero_mem 0\<rparr>), os_descriptors = Map.empty,
     os_mappings = {#}, os_next_object = 0, os_next_descriptor = 3\<rparr>"

text \<open>The live handles of all processes, and the operations on them; \<open>rw_destroy\<close> is the destructor.\<close>

inductive ring_world :: "Os \<Rightarrow> SharedMemoryRing multiset \<Rightarrow> bool" where
  rw_init: "ring_world empty_os {#}"
| rw_create: "ring_world os hs \<Longrightarrow> smr_create faults name config unlink os = (r, os') \<Longrightarrow>
    ring_world os' (case r of Inl _ \<Rightarrow> hs | Inr h \<Rightarrow> add_mset h hs)"
| rw_open: "ring_world os hs \<Longrightarrow> smr_open faults name os = (r, os') \<Longrightarrow>
    ring_world os' (case r of Inl _ \<Rightarrow> hs | Inr h \<Rightarrow> add_mset h hs)"
| rw_push: "ring_world os hs \<Longrightarrow> h \<in># hs \<Longrightarrow> smr_try_push payload h os = (res, os') \<Longrightarrow> ring_world os' hs"
| rw_pop: "ring_world os hs \<Longrightarrow> h \<in># hs \<Longrightarrow> smr_try_pop destination h os = (res, n, destination', os') \<Longrightarrow> ring_world os' hs"
| rw_construct: "ring_world os (add_mset other hs) \<Longrightarrow> smr_move_construct other os = (h, other', os') \<Longrightarrow>
    ring_world os' (add_mset h (add_mset other' hs))"
| rw_assign: "ring_world os (add_mset target (add_mset other hs)) \<Longrightarrow> smr_move_assign target other os = (h, other', os') \<Longrightarrow>
    ring_world os' (add_mset h (add_mset other' hs))"
| rw_destroy: "ring_world os (add_mset h hs) \<Longrightarrow> smr_release h os = (h', os') \<Longrightarrow> ring_world os' hs"

text \<open>What a handle holds.\<close>

definition held_mappings :: "SharedMemoryRing \<Rightarrow> (nat \<times> nat) multiset" where
  "held_mappings h = (case smr_mapping h of None \<Rightarrow> {#} | Some object \<Rightarrow> {#(object, smr_mapping_bytes h)#})"

definition held_descriptors :: "SharedMemoryRing \<Rightarrow> nat multiset" where
  "held_descriptors h = (case smr_descriptor h of None \<Rightarrow> {#} | Some fd \<Rightarrow> {#fd#})"

text \<open>A well-formed ring object: \<open>validate_mapping\<close> accepts it, and the ring in it is in order.\<close>

definition object_ok :: "ShmObject \<Rightarrow> bool" where
  "object_ok ob \<longleftrightarrow> ring_invar (so_mem ob) \<and> validate_mapping (Some (so_mem ob)) (so_bytes ob) = Inr () \<and>
     so_bytes ob = unat (rg_mapping_bytes (so_mem ob))"

definition objects_ok :: "Os \<Rightarrow> bool" where
  "objects_ok os \<longleftrightarrow>
     (\<forall>name object. os_names os name = Some object \<longrightarrow> object < os_next_object os \<and> object_ok (os_objects os object)) \<and>
     (\<forall>object n. (object, n) \<in># os_mappings os \<longrightarrow>
        object < os_next_object os \<and> object_ok (os_objects os object) \<and> n = so_bytes (os_objects os object))"

definition world_inv :: "Os \<Rightarrow> SharedMemoryRing multiset \<Rightarrow> bool" where
  "world_inv os hs \<longleftrightarrow> objects_ok os \<and>
     os_mappings os = \<Sum>\<^sub># (image_mset held_mappings hs) \<and>
     finite (dom (os_descriptors os)) \<and> mset_set (dom (os_descriptors os)) = \<Sum>\<^sub># (image_mset held_descriptors hs) \<and>
     (\<forall>fd \<in> dom (os_descriptors os). fd < os_next_descriptor os)"

section \<open>Lemmas\<close>

lemmas os_defs = os_open_descriptor_def shm_open_create_def shm_open_existing_def os_object_def os_ftruncate_def os_mmap_def
  os_munmap_def os_close_def os_unlink_def

lemma fresh_upd: "n \<notin> dom d \<Longrightarrow> (d(n \<mapsto> ob))(n := None) = d"
  by (auto simp: fun_eq_iff domIff)

lemma close_descriptor:
  assumes "finite (dom d)" "mset_set (dom d) = add_mset fd ds"
  shows "mset_set (dom (d(fd := None))) = ds"
proof -
  have "fd \<in> dom d" using assms by (metis elem_mset_set union_single_eq_member)
  then show ?thesis using assms by (simp add: mset_set.remove)
qed

lemma format_object_ok:
  assumes "unat (required_bytes c) \<noteq> 0"
  shows "object_ok \<lparr>so_bytes = unat (required_bytes c), so_mem = format_ring c\<rparr>"
proof -
  have ne: "required_bytes c \<noteq> 0" using assms by auto
  then obtain k where "unat (required_bytes c) = sizeof_RingHeader + unat (slot_stride (rc_slot_bytes c)) * 2 ^ k"
    by (rule required_bytesE) auto
  then show ?thesis
    using format_ring_invar(1) [OF ne] ne
    by (cases c) (auto simp: object_ok_def validate_mapping_def Let_def format_ring_def)
qed

lemma validate_mapping_upd [simp]:
  "validate_mapping (Some (r\<lparr>rg_slots := b, rg_write_sequence := w, rg_read_sequence := rd\<rparr>)) n = validate_mapping (Some r) n"
  by (simp add: validate_mapping_def)

lemma ring_op_object_ok:
  assumes "object_ok ob" "ring_try_push payload (Some (so_mem ob)) = (res, Some m) \<or> ring_try_pop dest (Some (so_mem ob)) = (res', n, dest', Some m)"
  shows "object_ok (ob\<lparr>so_mem := m\<rparr>)"
proof -
  let ?r = "so_mem ob"
  have inv: "ring_invar ?r" using assms(1) by (simp add: object_ok_def)
  have push: "ring_invar ((fill_slot (rg_write_sequence ?r) payload ?r)\<lparr>rg_write_sequence := rg_write_sequence ?r + 1\<rparr>)"
    if "length payload \<le> unat (rg_slot_bytes ?r)" "ring_used ?r < unat (rg_capacity ?r)"
    using ring_push_invar(1) [OF inv that] .
  have pop: "ring_invar (?r\<lparr>rg_read_sequence := rg_read_sequence ?r + 1\<rparr>)" if "ring_contents ?r \<noteq> []"
    using ring_pop_invar(1) [OF inv] that by (cases "ring_used ?r") (simp_all add: ring_contents_def)
  have "m = ?r \<or> (\<exists>b w rd. m = ?r\<lparr>rg_slots := b, rg_write_sequence := w, rg_read_sequence := rd\<rparr> \<and> ring_invar m)"
    using assms(2)
  proof
    assume p: "ring_try_push payload (Some ?r) = (res, Some m)"
    show ?thesis
    proof (cases "length payload \<le> unat (rg_slot_bytes ?r) \<and> ring_used ?r < unat (rg_capacity ?r)")
      case True
      then have m: "m = (fill_slot (rg_write_sequence ?r) payload ?r)\<lparr>rg_write_sequence := rg_write_sequence ?r + 1\<rparr>"
        using p ring_try_push_eq [of payload ?r] by simp
      moreover have "m = ?r\<lparr>rg_slots := rg_slots m, rg_write_sequence := rg_write_sequence m, rg_read_sequence := rg_read_sequence m\<rparr>"
        unfolding m by (simp add: fill_slot_def put_slot_defs)
      ultimately show ?thesis using push True by blast
    next
      case False
      then show ?thesis using p ring_full_iff [of ?r] by (auto simp: ring_try_push_def Let_def split: if_splits)
    qed
  next
    assume p: "ring_try_pop dest (Some ?r) = (res', n, dest', Some m)"
    then have "m = ?r \<or> m = ?r\<lparr>rg_read_sequence := rg_read_sequence ?r + 1\<rparr> \<and> ring_contents ?r \<noteq> []"
      using ring_try_pop_eq [OF inv, of dest] by (cases "ring_contents ?r") (auto split: if_splits)
    moreover have "?r\<lparr>rg_read_sequence := rd\<rparr> = ?r\<lparr>rg_slots := rg_slots ?r, rg_write_sequence := rg_write_sequence ?r, rg_read_sequence := rd\<rparr>" for rd
      by simp
    ultimately show ?thesis using pop by blast
  qed
  then show ?thesis using assms(1) by (auto simp: object_ok_def)
qed

lemma world_inv_handle:
  assumes "world_inv os hs" "h \<in># hs" "smr_mapping h = Some object"
  shows "(object, smr_mapping_bytes h) \<in># os_mappings os" "object < os_next_object os" "object_ok (os_objects os object)"
    "smr_mapping_bytes h = so_bytes (os_objects os object)"
proof -
  have "(object, smr_mapping_bytes h) \<in># held_mappings h" using assms(3) by (simp add: held_mappings_def)
  then show m: "(object, smr_mapping_bytes h) \<in># os_mappings os" using assms(1,2) by (auto simp: world_inv_def)
  have "objects_ok os" using assms(1) by (simp add: world_inv_def)
  then show "object < os_next_object os" "object_ok (os_objects os object)" "smr_mapping_bytes h = so_bytes (os_objects os object)"
    using m unfolding objects_ok_def by blast+
qed

text \<open>Each operation keeps the account.\<close>

lemma store_world_inv:
  assumes inv: "world_inv os hs" and h: "h \<in># hs"
    and ok: "\<And>object m. smr_mapping h = Some object \<Longrightarrow> memory = Some m \<Longrightarrow> object_ok ((os_objects os object)\<lparr>so_mem := m\<rparr>)"
  shows "world_inv (smr_store h memory os) hs"
proof (cases "smr_mapping h")
  case None
  then show ?thesis using inv by (simp add: smr_store_def)
next
  case (Some object)
  show ?thesis
  proof (cases memory)
    case None
    then show ?thesis using inv Some by (simp add: smr_store_def)
  next
    case m: (Some m)
    have "object_ok ((os_objects os object)\<lparr>so_mem := m\<rparr>)" using ok Some m by simp
    moreover have "objects_ok os" using inv by (simp add: world_inv_def)
    ultimately have "objects_ok (smr_store h memory os)" using Some m by (auto simp: smr_store_def objects_ok_def)
    then show ?thesis using inv Some m by (simp add: smr_store_def world_inv_def)
  qed
qed

lemma release_world_inv:
  assumes inv: "world_inv os (add_mset h hs)" and run: "smr_release h os = (h', os')"
  shows "world_inv os' hs" "held_mappings h' = {#}" "held_descriptors h' = {#}"
proof -
  let ?os1 = "case smr_mapping h of None \<Rightarrow> os | Some m \<Rightarrow> os_munmap m (smr_mapping_bytes h) os"
  let ?os2 = "case smr_descriptor h of None \<Rightarrow> ?os1 | Some fd \<Rightarrow> os_close fd ?os1"
  have os': "os' = (if smr_unlink_on_destroy h \<and> smr_name h \<noteq> [] then os_unlink (smr_name h) ?os2 else ?os2)"
    and h': "smr_mapping h' = None" "smr_descriptor h' = None"
    using run by (auto simp: smr_release_def Let_def)
  show "held_mappings h' = {#}" "held_descriptors h' = {#}" using h' by (simp_all add: held_mappings_def held_descriptors_def)
  have same: "os_objects ?os2 = os_objects os" "os_next_object ?os2 = os_next_object os" "os_next_descriptor ?os2 = os_next_descriptor os"
    "os_names ?os2 = os_names os"
    by (auto simp: os_munmap_def os_close_def split: option.splits)
  have maps: "os_mappings ?os2 = os_mappings os - held_mappings h"
    by (auto simp: os_munmap_def os_close_def held_mappings_def split: option.splits)
  have "os_mappings os = held_mappings h + \<Sum>\<^sub># (image_mset held_mappings hs)" using inv by (simp add: world_inv_def)
  then have maps': "os_mappings ?os2 = \<Sum>\<^sub># (image_mset held_mappings hs)" using maps by simp
  have sub: "set_mset (os_mappings ?os2) \<subseteq> set_mset (os_mappings os)" using maps by (metis in_diffD subsetI)
  have fds: "finite (dom (os_descriptors ?os2)) \<and> mset_set (dom (os_descriptors ?os2)) = \<Sum>\<^sub># (image_mset held_descriptors hs) \<and>
    dom (os_descriptors ?os2) \<subseteq> dom (os_descriptors os)"
  proof (cases "smr_descriptor h")
    case None
    then have "os_descriptors ?os2 = os_descriptors os" by (auto simp: os_munmap_def split: option.splits)
    then show ?thesis using inv None by (simp add: world_inv_def held_descriptors_def)
  next
    case (Some fd)
    then have d: "os_descriptors ?os2 = (os_descriptors os)(fd := None)" by (auto simp: os_munmap_def os_close_def split: option.splits)
    have "finite (dom (os_descriptors os))" "mset_set (dom (os_descriptors os)) = add_mset fd (\<Sum>\<^sub># (image_mset held_descriptors hs))"
      using inv Some by (simp_all add: world_inv_def held_descriptors_def)
    from close_descriptor [OF this] this(1) show ?thesis unfolding d by auto
  qed
  have "objects_ok os" using inv by (simp add: world_inv_def)
  then have ok: "objects_ok ?os2" using sub unfolding objects_ok_def same by blast
  have w: "world_inv ?os2 hs"
    using inv same(3) maps' fds ok unfolding world_inv_def by auto
  then have "objects_ok (os_unlink name ?os2)" for name using ok by (auto simp: os_unlink_def objects_ok_def)
  then have "world_inv (os_unlink name ?os2) hs" for name using w by (simp add: os_unlink_def world_inv_def)
  then show "world_inv os' hs" using w os' by simp
qed

lemma move_world_inv:
  assumes inv: "world_inv os (add_mset target (add_mset other hs))" and run: "smr_move_assign target other os = (h, other', os')"
  shows "world_inv os' (add_mset h (add_mset other' hs))"
proof -
  obtain t' where rel: "smr_release target os = (t', os')" using run by (auto simp: smr_move_assign_def split: prod.splits)
  have "held_mappings h = held_mappings other" "held_descriptors h = held_descriptors other" "held_mappings other' = {#}" "held_descriptors other' = {#}"
    using run by (auto simp: smr_move_assign_def held_mappings_def held_descriptors_def split: prod.splits option.splits)
  then show ?thesis using release_world_inv(1) [OF inv rel] by (simp add: world_inv_def)
qed

lemma null_world_inv: "world_inv os hs \<Longrightarrow> world_inv os (add_mset null_ring hs)"
  by (simp add: world_inv_def held_mappings_def held_descriptors_def null_ring_def)

text \<open>A descriptor that is opened and closed again leaves no trace.\<close>

lemma add_handle_world_inv:
  assumes inv: "world_inv os hs" and ok: "object_ok (os_objects os' object)" "object < os_next_object os'" "n = so_bytes (os_objects os' object)"
    and os': "os_mappings os' = add_mset (object, n) (os_mappings os)"
      "os_descriptors os' = (os_descriptors os)(os_next_descriptor os \<mapsto> object)" "os_next_descriptor os' = Suc (os_next_descriptor os)"
    and rest: "os_next_object os \<le> os_next_object os'" "\<And>ob. ob < os_next_object os \<Longrightarrow> os_objects os' ob = os_objects os ob"
      "\<And>name ob. os_names os' name = Some ob \<Longrightarrow> ob = object \<or> os_names os name = Some ob"
    and h: "smr_mapping h = Some object" "smr_mapping_bytes h = n" "smr_descriptor h = Some (os_next_descriptor os)"
  shows "world_inv os' (add_mset h hs)"
proof -
  have old: "objects_ok os" using inv by (simp add: world_inv_def)
  have "objects_ok os'"
    unfolding objects_ok_def
  proof (intro conjI allI impI)
    fix name ob assume a: "os_names os' name = Some ob"
    have "ob = object \<or> (ob < os_next_object os \<and> object_ok (os_objects os ob))" using rest(3) [OF a] old by (auto simp: objects_ok_def)
    then show "ob < os_next_object os'" "object_ok (os_objects os' ob)" using ok rest(1,2) by auto
  next
    fix ob k assume "(ob, k) \<in># os_mappings os'"
    then have "ob = object \<and> k = n \<or> (ob < os_next_object os \<and> object_ok (os_objects os ob) \<and> k = so_bytes (os_objects os ob))"
      using old by (auto simp: os' objects_ok_def)
    then show "ob < os_next_object os'" "object_ok (os_objects os' ob)" "k = so_bytes (os_objects os' ob)" using ok rest(1,2) by auto
  qed
  moreover have "os_next_descriptor os \<notin> dom (os_descriptors os)" using inv by (auto simp: world_inv_def)
  ultimately show ?thesis
    using inv h by (auto simp: world_inv_def os' held_mappings_def held_descriptors_def less_Suc_eq)
qed

lemma weaken_world_inv:
  assumes inv: "world_inv os hs" and os': "os_mappings os' = os_mappings os" "os_descriptors os' = os_descriptors os"
      "os_next_descriptor os \<le> os_next_descriptor os'" "os_names os' = os_names os" "os_next_object os \<le> os_next_object os'"
      "\<And>ob. ob < os_next_object os \<Longrightarrow> os_objects os' ob = os_objects os ob"
  shows "world_inv os' hs"
proof -
  have "objects_ok os" using inv by (simp add: world_inv_def)
  then have "objects_ok os'" using os'(5,6) unfolding objects_ok_def os'(1,4) by (metis less_le_trans)
  moreover have "fd < os_next_descriptor os'" if "fd \<in> dom (os_descriptors os)" for fd
    using inv os'(3) that unfolding world_inv_def by (metis less_le_trans)
  ultimately show ?thesis using inv os'(1,2) by (simp add: world_inv_def)
qed

lemma create_world_inv:
  assumes inv: "world_inv os hs" and run: "smr_create faults name config unlink os = (r, os')"
  shows "world_inv os' (case r of Inl _ \<Rightarrow> hs | Inr h \<Rightarrow> add_mset h hs)"
proof -
  let ?n = "unat (required_bytes config)" and ?name = "posix_name name"
  consider "name = [] \<or> ?n = 0 \<or> of_shm_open faults \<or> ?name \<in> dom (os_names os)"
    | "name \<noteq> []" "?n \<noteq> 0" "\<not> of_shm_open faults" "?name \<notin> dom (os_names os)" by blast
  then show ?thesis
  proof cases
    case 1
    then have "os' = os" "isl r" using run by (auto simp: smr_create_def shm_open_create_def Let_def split: if_splits)
    then show ?thesis using inv by (cases r) simp_all
  next
    case 2
    have fd: "os_next_descriptor os \<notin> dom (os_descriptors os)" using inv by (auto simp: world_inv_def)
    have ok: "object_ok \<lparr>so_bytes = ?n, so_mem = format_ring config\<rparr>" by (rule format_object_ok [OF 2(2)])
    show ?thesis
    proof (cases "of_ftruncate faults \<or> of_mmap faults")
      case True
      then have "isl r" "os_mappings os' = os_mappings os" "os_descriptors os' = os_descriptors os" "os_names os' = os_names os"
        "os_next_descriptor os \<le> os_next_descriptor os'" "os_next_object os \<le> os_next_object os'"
        "\<And>ob. ob < os_next_object os \<Longrightarrow> os_objects os' ob = os_objects os ob"
        using 2 run fresh_upd [OF fd] fresh_upd [OF 2(4)] by (auto simp: smr_create_def Let_def os_defs split: if_splits)
      then show ?thesis using weaken_world_inv [OF inv] by (cases r) auto
    next
      case False
      then obtain h where h: "r = Inr h" "smr_mapping h = Some (os_next_object os)" "smr_mapping_bytes h = ?n"
        "smr_descriptor h = Some (os_next_descriptor os)"
        using 2 run by (auto simp: smr_create_def Let_def os_defs)
      have "world_inv os' (add_mset h hs)"
        by (rule add_handle_world_inv [OF inv, where object = "os_next_object os" and n = ?n])
          (use 2 run False h ok in \<open>auto simp: smr_create_def Let_def os_defs split: if_splits\<close>)
      then show ?thesis by (simp add: h(1))
    qed
  qed
qed

lemma open_cases:
  assumes inv: "world_inv os hs" and run: "smr_open faults name os = (r, os')"
  obtains (failed) "isl r" "name = [] \<or> of_shm_open faults \<or> of_fstat faults \<or> of_mmap faults \<or> os_names os (posix_name name) = None"
      "os_mappings os' = os_mappings os" "os_descriptors os' = os_descriptors os" "os_names os' = os_names os"
      "os_next_descriptor os \<le> os_next_descriptor os'" "os_next_object os' = os_next_object os" "os_objects os' = os_objects os"
  | (opened) h object where "r = Inr h" "os_names os (posix_name name) = Some object" "smr_mapping h = Some object"
      "smr_mapping_bytes h = so_bytes (os_objects os object)" "smr_descriptor h = Some (os_next_descriptor os)"
      "os_mappings os' = add_mset (object, so_bytes (os_objects os object)) (os_mappings os)"
      "os_descriptors os' = (os_descriptors os)(os_next_descriptor os \<mapsto> object)" "os_names os' = os_names os"
      "os_next_descriptor os' = Suc (os_next_descriptor os)" "os_next_object os' = os_next_object os" "os_objects os' = os_objects os"
proof -
  have fd: "os_next_descriptor os \<notin> dom (os_descriptors os)" using inv by (auto simp: world_inv_def)
  show thesis
  proof (cases "name = [] \<or> of_shm_open faults \<or> of_fstat faults \<or> of_mmap faults \<or> os_names os (posix_name name) = None")
    case True
    then show ?thesis
      using run fresh_upd [OF fd] by (intro failed) (auto simp: smr_open_def Let_def os_defs split: if_splits option.splits)
  next
    case False
    then obtain object where ob: "os_names os (posix_name name) = Some object" by auto
    then have "object_ok (os_objects os object)" using inv by (simp add: world_inv_def objects_ok_def)
    then have v: "validate_mapping (Some (so_mem (os_objects os object))) (so_bytes (os_objects os object)) = Inr ()"
      unfolding object_ok_def by blast
    show ?thesis
      using False run ob v by (intro opened) (auto simp: smr_open_def Let_def os_defs)
  qed
qed

lemma open_world_inv:
  assumes inv: "world_inv os hs" and run: "smr_open faults name os = (r, os')"
  shows "world_inv os' (case r of Inl _ \<Rightarrow> hs | Inr h \<Rightarrow> add_mset h hs)"
  using inv run
proof (cases rule: open_cases)
  case failed
  then show ?thesis using weaken_world_inv [OF inv, of os'] by (cases r) auto
next
  case (opened h object)
  have "object < os_next_object os" "object_ok (os_objects os object)" using inv opened(2) by (simp_all add: world_inv_def objects_ok_def)
  then have "world_inv os' (add_mset h hs)"
    using opened by (intro add_handle_world_inv [OF inv, where object = object and n = "so_bytes (os_objects os object)"]) auto
  then show ?thesis by (simp add: opened(1))
qed

lemma ring_world_inv: "ring_world os hs \<Longrightarrow> world_inv os hs"
proof (induction rule: ring_world.induct)
  case rw_init
  show ?case by (simp add: world_inv_def objects_ok_def empty_os_def)
next
  case (rw_push os hs h payload res os')
  obtain m where m: "ring_try_push payload (smr_memory h os) = (res, m)" "os' = smr_store h m os"
    using rw_push.hyps(3) by (auto simp: smr_try_push_def split: prod.splits)
  show ?case unfolding m(2)
  proof (rule store_world_inv [OF rw_push.IH rw_push.hyps(2)])
    fix object mem assume a: "smr_mapping h = Some object" "m = Some mem"
    show "object_ok ((os_objects os object)\<lparr>so_mem := mem\<rparr>)"
      by (rule ring_op_object_ok [OF world_inv_handle(3) [OF rw_push.IH rw_push.hyps(2) a(1)], OF disjI1])
        (use m(1) a in \<open>simp add: smr_memory_def\<close>)
  qed
next
  case (rw_pop os hs h destination res n destination' os')
  obtain m where m: "ring_try_pop destination (smr_memory h os) = (res, n, destination', m)" "os' = smr_store h m os"
    using rw_pop.hyps(3) by (auto simp: smr_try_pop_def split: prod.splits)
  show ?case unfolding m(2)
  proof (rule store_world_inv [OF rw_pop.IH rw_pop.hyps(2)])
    fix object mem assume a: "smr_mapping h = Some object" "m = Some mem"
    show "object_ok ((os_objects os object)\<lparr>so_mem := mem\<rparr>)"
      by (rule ring_op_object_ok [OF world_inv_handle(3) [OF rw_pop.IH rw_pop.hyps(2) a(1)], OF disjI2])
        (use m(1) a in \<open>simp add: smr_memory_def\<close>)
  qed
next
  case (rw_construct os other hs h other' os')
  then show ?case using move_world_inv [OF null_world_inv] by (simp add: smr_move_construct_def)
qed (auto intro: create_world_inv open_world_inv move_world_inv release_world_inv(1))

section \<open>Properties\<close>

text \<open>
  C33: Ring handles own the operating system's objects exactly. After any sequence of creating,
  opening, moving, using and destroying rings, in which any system call may fail at any time, the
  mappings are those of the valid handles, the open descriptors are those of the handles, each
  held once, so nothing leaks on an error path and nothing is closed or unmapped twice; every valid
  handle works on a ring that is in order; and opening an existing ring fails only when a system call does.
\<close>

theorem ring_handles_own:
  assumes "ring_world os hs"
  shows "os_mappings os = \<Sum>\<^sub># (image_mset held_mappings hs) \<and>
    finite (dom (os_descriptors os)) \<and> mset_set (dom (os_descriptors os)) = \<Sum>\<^sub># (image_mset held_descriptors hs) \<and>
    (\<forall>h \<in># hs. smr_valid h \<longrightarrow> (\<exists>r. smr_memory h os = Some r \<and> ring_invar r \<and> smr_mapping_bytes h = unat (rg_mapping_bytes r))) \<and>
    (\<forall>faults name. isl (fst (smr_open faults name os)) \<longrightarrow>
       name = [] \<or> of_shm_open faults \<or> of_fstat faults \<or> of_mmap faults \<or> os_names os (posix_name name) = None)"
proof -
  have inv: "world_inv os hs" using ring_world_inv [OF assms] .
  have "\<exists>r. smr_memory h os = Some r \<and> ring_invar r \<and> smr_mapping_bytes h = unat (rg_mapping_bytes r)" if "h \<in># hs" "smr_valid h" for h
    using that world_inv_handle [OF inv that(1)] by (auto simp: smr_valid_def smr_memory_def object_ok_def)
  moreover have "name = [] \<or> of_shm_open faults \<or> of_fstat faults \<or> of_mmap faults \<or> os_names os (posix_name name) = None"
    if "isl (fst (smr_open faults name os))" for faults name
  proof -
    obtain r os' where run: "smr_open faults name os = (r, os')" by fastforce
    from inv run show ?thesis by (cases rule: open_cases) (use that run in auto)
  qed
  ultimately show ?thesis using inv by (simp add: world_inv_def)
qed

definition no_faults :: OsFaults where
  "no_faults = \<lparr>of_shm_open = False, of_ftruncate = False, of_fstat = False, of_mmap = False\<rparr>"

theorem ring_handles_own_witness:
  "\<exists>h os. smr_create no_faults ''ring'' \<lparr>rc_capacity = 2, rc_slot_bytes = 8\<rparr> True empty_os = (Inr h, os) \<and>
     os_mappings os = {#(0, 320)#} \<and> mset_set (dom (os_descriptors os)) = {#3#}"
proof -
  let ?c = "\<lparr>rc_capacity = 2, rc_slot_bytes = 8\<rparr>"
  obtain h os where run: "smr_create no_faults ''ring'' ?c True empty_os = (Inr h, os)"
    "held_mappings h = {#(0, 320)#}" "held_descriptors h = {#3#}"
    by (simp add: smr_create_def Let_def os_defs no_faults_def empty_os_def demo_ring_config held_mappings_def held_descriptors_def)
  have "ring_world os {#h#}" using rw_create [OF rw_init run(1)] by simp
  from ring_handles_own [OF this] run show ?thesis by auto
qed

end
