(* ===== verification/Wire_Image.thy ===== *)
theory Wire_Image
  imports Job_Messages Job_Control Byte_Codec
begin

text \<open>
  The memory images of the relay messages that travel through a ring (relay/protocol/messages.h,
  job\_messages.h, job\_control.h). A message is sent as the bytes of its object, \<open>wire_bytes\<close> cutting
  off the unused part of the payload array, and received by overwriting the bytes of an object. The
  structs have no padding (their sizes are asserted in the source), fields are little-endian in
  declaration order, and an enumeration has the width of its underlying type.
\<close>

section \<open>Definitions\<close>

subsection \<open>Images\<close>

definition envelope_image :: "MessageEnvelope \<Rightarrow> byte list" where
  "envelope_image e = le_bytes (me_magic e) @ le_bytes (me_version e) @ le_bytes (me_kind e) @ le_bytes (me_struct_size e) @
     le_bytes (me_flags e) @ le_bytes (me_sequence e) @ le_bytes (me_session_id e)"

definition descriptor_image :: "JobDescriptor \<Rightarrow> byte list" where
  "descriptor_image d = le_bytes (jd_protocol_version d) @ le_bytes (jd_kind d) @ le_bytes (jd_reserved d) @ jd_model_digest d @
     le_bytes (jd_state_schema d) @ le_bytes (jd_session_id d) @ le_bytes (jd_generation d) @ le_bytes (jd_deadline_ns d) @
     le_bytes (jd_total_work_units d)"

definition progress_image :: "JobProgress \<Rightarrow> byte list" where
  "progress_image p = le_bytes (jp_state p) @ le_bytes (jp_reserved0 p) @ le_bytes (jp_reserved1 p) @
     le_bytes (jp_completed_work_units p) @ le_bytes (jp_remaining_work_units p)"

definition request_image :: "JobRequestMessage \<Rightarrow> byte list" where
  "request_image m = envelope_image (jrq_envelope m) @ le_bytes (jrqm_struct_size (jrq_metadata m)) @
     le_bytes (jrqm_service_class (jrq_metadata m)) @ descriptor_image (jrqm_descriptor (jrq_metadata m)) @
     le_bytes (jrqm_timestamp_ns (jrq_metadata m)) @ le_bytes (jrqm_payload_bytes (jrq_metadata m)) @ jrq_payload m"

definition result_image :: "JobResultMessage \<Rightarrow> byte list" where
  "result_image m = envelope_image (jrs_envelope m) @ le_bytes (jrsm_struct_size (jrs_metadata m)) @
     le_bytes (jrsm_service_class (jrs_metadata m)) @ descriptor_image (jrsm_descriptor (jrs_metadata m)) @
     progress_image (jrsm_progress (jrs_metadata m)) @ le_bytes (jrsm_timestamp_ns (jrs_metadata m)) @
     le_bytes (jrsm_payload_bytes (jrs_metadata m)) @ jrs_payload m"

definition control_request_image :: "JobControlRequest \<Rightarrow> byte list" where
  "control_request_image m = envelope_image (jcq_envelope m) @ le_bytes (jcqm_struct_size (jcq_metadata m)) @
     le_bytes (jcqm_protocol_version (jcq_metadata m)) @ le_bytes (jcqm_operation (jcq_metadata m)) @
     le_bytes (jcqm_worker_index (jcq_metadata m)) @ le_bytes (jcqm_reserved (jcq_metadata m))"

definition control_status_image :: "JobControlStatus \<Rightarrow> byte list" where
  "control_status_image s = le_bytes (jcs_worker_count s) @ le_bytes (jcs_accepting_workers s) @ le_bytes (jcs_busy_workers s) @
     le_bytes (jcs_queued_jobs s) @ le_bytes (jcs_draining_mask s) @ le_bytes (jcs_drained_mask s) @ le_bytes (jcs_bound_mask s) @
     le_bytes (jcs_quarantined_mask s) @ le_bytes (jcs_worker_failures s) @ le_bytes (jcs_worker_quarantines s) @
     le_bytes (jcs_qos_rejections s) @ le_bytes (jcs_requests_received s) @ le_bytes (jcs_requests_accepted s) @
     le_bytes (jcs_requests_rejected s) @ le_bytes (jcs_results_published s) @ le_bytes (jcs_corrupt_inputs s) @
     le_bytes (jcs_publish_blocked s)"

definition control_response_image :: "JobControlResponse \<Rightarrow> byte list" where
  "control_response_image m = envelope_image (jcr_envelope m) @ le_bytes (jcrm_struct_size (jcr_metadata m)) @
     le_bytes (jcrm_protocol_version (jcr_metadata m)) @ le_bytes (jcrm_operation (jcr_metadata m)) @
     le_bytes (jcrm_code (jcr_metadata m)) @ le_bytes (jcrm_worker_index (jcr_metadata m)) @
     le_bytes (jcrm_reserved (jcr_metadata m)) @ control_status_image (jcrm_status (jcr_metadata m))"

definition wire_bytes_request :: "JobRequestMessage \<Rightarrow> byte list" where
  "wire_bytes_request m = take (wire_size_request m) (request_image m)"

definition wire_bytes_result :: "JobResultMessage \<Rightarrow> byte list" where
  "wire_bytes_result m = take (wire_size_result m) (result_image m)"

subsection \<open>Objects from their bytes\<close>

definition read_envelope :: "byte list \<Rightarrow> nat \<Rightarrow> MessageEnvelope" where
  "read_envelope bs off = \<lparr>me_magic = read_le bs off, me_version = read_le bs (off + 4), me_kind = read_le bs (off + 6),
     me_struct_size = read_le bs (off + 8), me_flags = read_le bs (off + 12), me_sequence = read_le bs (off + 16),
     me_session_id = read_le bs (off + 24)\<rparr>"

definition read_descriptor :: "byte list \<Rightarrow> nat \<Rightarrow> JobDescriptor" where
  "read_descriptor bs off = \<lparr>jd_protocol_version = read_le bs off, jd_kind = read_le bs (off + 4), jd_reserved = read_le bs (off + 6),
     jd_model_digest = take 16 (drop (off + 8) bs), jd_state_schema = read_le bs (off + 24), jd_session_id = read_le bs (off + 32),
     jd_generation = read_le bs (off + 40), jd_deadline_ns = read_le bs (off + 48), jd_total_work_units = read_le bs (off + 56)\<rparr>"

definition read_progress :: "byte list \<Rightarrow> nat \<Rightarrow> JobProgress" where
  "read_progress bs off = \<lparr>jp_state = read_le bs off, jp_reserved0 = read_le bs (off + 2), jp_reserved1 = read_le bs (off + 4),
     jp_completed_work_units = read_le bs (off + 8), jp_remaining_work_units = read_le bs (off + 16)\<rparr>"

definition read_request :: "byte list \<Rightarrow> JobRequestMessage" where
  "read_request bs = \<lparr>jrq_envelope = read_envelope bs 0,
     jrq_metadata = \<lparr>jrqm_struct_size = read_le bs 32, jrqm_service_class = read_le bs 36, jrqm_descriptor = read_descriptor bs 40,
       jrqm_timestamp_ns = read_le bs 104, jrqm_payload_bytes = read_le bs 112\<rparr>,
     jrq_payload = drop 120 bs\<rparr>"

definition read_result :: "byte list \<Rightarrow> JobResultMessage" where
  "read_result bs = \<lparr>jrs_envelope = read_envelope bs 0,
     jrs_metadata = \<lparr>jrsm_struct_size = read_le bs 32, jrsm_service_class = read_le bs 36, jrsm_descriptor = read_descriptor bs 40,
       jrsm_progress = read_progress bs 104, jrsm_timestamp_ns = read_le bs 128, jrsm_payload_bytes = read_le bs 136\<rparr>,
     jrs_payload = drop 144 bs\<rparr>"

definition read_control :: "byte list \<Rightarrow> ControlMessage" where
  "read_control bs = \<lparr>ctl_envelope = read_envelope bs 0, ctl_reason = read_le bs 32\<rparr>"

definition read_control_request :: "byte list \<Rightarrow> JobControlRequest" where
  "read_control_request bs = \<lparr>jcq_envelope = read_envelope bs 0,
     jcq_metadata = \<lparr>jcqm_struct_size = read_le bs 32, jcqm_protocol_version = read_le bs 36, jcqm_operation = read_le bs 40,
       jcqm_worker_index = read_le bs 44, jcqm_reserved = read_le bs 48\<rparr>\<rparr>"

definition read_control_status :: "byte list \<Rightarrow> nat \<Rightarrow> JobControlStatus" where
  "read_control_status bs off = \<lparr>jcs_worker_count = read_le bs off, jcs_accepting_workers = read_le bs (off + 4),
     jcs_busy_workers = read_le bs (off + 8), jcs_queued_jobs = read_le bs (off + 12), jcs_draining_mask = read_le bs (off + 16),
     jcs_drained_mask = read_le bs (off + 20), jcs_bound_mask = read_le bs (off + 24), jcs_quarantined_mask = read_le bs (off + 28),
     jcs_worker_failures = read_le bs (off + 32), jcs_worker_quarantines = read_le bs (off + 40), jcs_qos_rejections = read_le bs (off + 48),
     jcs_requests_received = read_le bs (off + 56), jcs_requests_accepted = read_le bs (off + 64), jcs_requests_rejected = read_le bs (off + 72),
     jcs_results_published = read_le bs (off + 80), jcs_corrupt_inputs = read_le bs (off + 88), jcs_publish_blocked = read_le bs (off + 96)\<rparr>"

definition read_control_response :: "byte list \<Rightarrow> JobControlResponse" where
  "read_control_response bs = \<lparr>jcr_envelope = read_envelope bs 0,
     jcr_metadata = \<lparr>jcrm_struct_size = read_le bs 32, jcrm_protocol_version = read_le bs 36, jcrm_operation = read_le bs 40,
       jcrm_code = read_le bs 44, jcrm_worker_index = read_le bs 48, jcrm_reserved = read_le bs 52,
       jcrm_status = read_control_status bs 56\<rparr>\<rparr>"

section \<open>Lemmas\<close>

lemma read_le_here: "8 dvd LENGTH('a) \<Longrightarrow> read_le (le_bytes (w :: 'a::len word) @ ys) 0 = w"
  by (rule read_le_le_bytes) simp_all

lemma read_le_last: "8 dvd LENGTH('a) \<Longrightarrow> read_le (le_bytes (w :: 'a::len word)) 0 = w"
  using read_le_here [of w "[]"] by simp

lemma read_le_skip: "length xs \<le> off \<Longrightarrow> (read_le (xs @ ys) off :: 'a::len word) = read_le ys (off - length xs)"
  by (rule read_le_cong) (simp add: nth_append)

named_theorems image_simps

lemmas [image_simps] = read_le_here read_le_last read_le_skip

lemma length_images [simp]:
  "length (envelope_image e) = 32" "length (jd_model_digest d) = 16 \<Longrightarrow> length (descriptor_image d) = 64" "length (progress_image p) = 24"
  "length (control_request_image q) = 56" "length (control_status_image s) = 104" "length (control_response_image r) = 160"
  by (simp_all add: envelope_image_def descriptor_image_def progress_image_def control_request_image_def control_status_image_def
      control_response_image_def)

lemma read_envelope_image: "read_envelope (envelope_image e @ ys) 0 = e"
  by (simp add: read_envelope_def envelope_image_def image_simps)

lemma read_envelope_skip: "length xs \<le> off \<Longrightarrow> read_envelope (xs @ ys) off = read_envelope ys (off - length xs)"
  by (simp add: read_envelope_def image_simps)

lemma read_descriptor_image: "length (jd_model_digest d) = 16 \<Longrightarrow> read_descriptor (descriptor_image d @ ys) 0 = d"
  by (simp add: read_descriptor_def descriptor_image_def image_simps)

lemma read_descriptor_skip: "length xs \<le> off \<Longrightarrow> read_descriptor (xs @ ys) off = read_descriptor ys (off - length xs)"
  by (simp add: read_descriptor_def image_simps)

lemma read_progress_image: "read_progress (progress_image p @ ys) 0 = p"
  by (simp add: read_progress_def progress_image_def image_simps)

lemma read_progress_skip: "length xs \<le> off \<Longrightarrow> read_progress (xs @ ys) off = read_progress ys (off - length xs)"
  by (simp add: read_progress_def image_simps Suc_diff_le)

lemma read_status_image: "read_control_status (control_status_image s) 0 = s"
  by (simp add: read_control_status_def control_status_image_def image_simps)

lemma read_status_skip: "length xs \<le> off \<Longrightarrow> read_control_status (xs @ ys) off = read_control_status ys (off - length xs)"
  by (simp add: read_control_status_def image_simps)

lemmas [image_simps] = read_envelope_image read_envelope_skip read_descriptor_image read_descriptor_skip
  read_progress_image read_progress_skip read_status_image read_status_skip

lemma request_image_back: "length (jd_model_digest (jrqm_descriptor (jrq_metadata m))) = 16 \<Longrightarrow> read_request (request_image m) = m"
  by (simp add: read_request_def request_image_def image_simps)

lemma result_image_back: "length (jd_model_digest (jrsm_descriptor (jrs_metadata m))) = 16 \<Longrightarrow> read_result (result_image m) = m"
  by (simp add: read_result_def result_image_def image_simps)

lemma control_request_image_back: "read_control_request (control_request_image m) = m"
  by (simp add: read_control_request_def control_request_image_def image_simps)

lemma control_response_image_back: "read_control_response (control_response_image m) = m"
  by (simp add: read_control_response_def control_response_image_def image_simps)

end
