(* ===== verification/Job_Service.thy ===== *)
theory Job_Service
  imports Wire_Image Shared_Ring Job_Pool
begin

text \<open>
  relay/worker/job\_service.\{h,cc\}: the coordinator between the request ring, the worker pool and the
  result ring. The rings are the mapped memory of \<open>Shared_Ring\<close>; the pool is part of the state. A
  message buffer is the object, which a ring fills through its bytes. Creating and opening the rings
  are parameters (\<open>create_ring\<close>, \<open>open_ring\<close>), as is running out of memory for the two buffers
  (\<open>buffers\<close> is \<open>None\<close> when they are allocated, else what the exception says, if anything).
\<close>

section \<open>Definitions\<close>

datatype JobServiceResult = JS_kIdle | JS_kProgress | JS_kBackpressured | JS_kStopped | JS_kCorruptInput | JS_kTransportError

record JobTransportStats =
  jts_requests_received :: u64
  jts_requests_accepted :: u64
  jts_requests_rejected :: u64
  jts_results_published :: u64
  jts_corrupt_inputs :: u64
  jts_publish_blocked :: u64

definition zero_transport_stats :: JobTransportStats where
  "zero_transport_stats = \<lparr>jts_requests_received = 0, jts_requests_accepted = 0, jts_requests_rejected = 0,
     jts_results_published = 0, jts_corrupt_inputs = 0, jts_publish_blocked = 0\<rparr>"

record 'b JobService =
  js_requests :: "RingMem option"
  js_results :: "RingMem option"
  js_pool :: "'b JobWorkerPool"
  js_request :: JobRequestMessage
  js_rejection :: JobResultMessage
  js_stats :: JobTransportStats
  js_rejection_pending :: bool
  js_stopped :: bool

definition sizeof_JobRequestMessage :: u32 where "sizeof_JobRequestMessage = 65656"
definition sizeof_JobResultMessage :: u32 where "sizeof_JobResultMessage = 65680"

definition usable_ring :: "RingMem \<Rightarrow> u32 \<Rightarrow> bool" where
  "usable_ring r slot_bytes \<longleftrightarrow> rc_capacity (ring_config (Some r)) \<ge> 2 \<and> rc_slot_bytes (ring_config (Some r)) \<ge> slot_bytes"

definition make_service :: "RingMem \<Rightarrow> RingMem \<Rightarrow> 'b JobWorkerPool \<Rightarrow> 'b JobService" where
  "make_service requests results pool =
     \<lparr>js_requests = Some requests, js_results = Some results, js_pool = pool, js_request = default_request, js_rejection = default_result,
      js_stats = zero_transport_stats, js_rejection_pending = False, js_stopped = False\<rparr>"

definition with_buffers :: "string option option \<Rightarrow> 'a \<Rightarrow> string + 'a" where
  "with_buffers buffers service =
     (case buffers of
        None \<Rightarrow> Inr service
      | Some (Some what) \<Rightarrow> Inl (''Failed to allocate generic job service buffers: '' @ what)
      | Some None \<Rightarrow> Inl ''Failed to allocate generic job service buffers'')"

definition service_create ::
  "(string \<Rightarrow> RingConfig \<Rightarrow> string + RingMem) \<Rightarrow> string option option \<Rightarrow> string \<Rightarrow> string \<Rightarrow> 'b JobWorkerPool \<Rightarrow> u32 \<Rightarrow> string + 'b JobService" where
  "service_create create_ring buffers request_name result_name pool capacity =
     (case create_ring request_name \<lparr>rc_capacity = capacity, rc_slot_bytes = sizeof_JobRequestMessage\<rparr> of
        Inl e \<Rightarrow> Inl e
      | Inr requests \<Rightarrow>
          (case create_ring result_name \<lparr>rc_capacity = capacity, rc_slot_bytes = sizeof_JobResultMessage\<rparr> of
             Inl e \<Rightarrow> Inl e
           | Inr results \<Rightarrow> with_buffers buffers (make_service requests results pool)))"

definition service_connect ::
  "(string \<Rightarrow> string + RingMem) \<Rightarrow> string option option \<Rightarrow> string \<Rightarrow> string \<Rightarrow> 'b JobWorkerPool \<Rightarrow> string + 'b JobService" where
  "service_connect open_ring buffers request_name result_name pool =
     (case open_ring request_name of
        Inl e \<Rightarrow> Inl e
      | Inr requests \<Rightarrow>
          (case open_ring result_name of
             Inl e \<Rightarrow> Inl e
           | Inr results \<Rightarrow>
               if \<not> usable_ring requests sizeof_JobRequestMessage \<or> \<not> usable_ring results sizeof_JobResultMessage
               then Inl ''Generic job ring slot capacity is incompatible with this service build''
               else with_buffers buffers (make_service requests results pool)))"

abbreviation stats_upd :: "(JobTransportStats \<Rightarrow> JobTransportStats) \<Rightarrow> 'b JobService \<Rightarrow> 'b JobService" where
  "stats_upd f s \<equiv> s\<lparr>js_stats := f (js_stats s)\<rparr>"

abbreviation (input) "count_corrupt \<equiv> jts_corrupt_inputs_update (\<lambda>n. n + 1)"

definition service_publish :: "JobResultMessage \<Rightarrow> 'b JobService \<Rightarrow> JobServiceResult \<times> 'b JobService" where
  "service_publish result s =
     (case ring_try_push (wire_bytes_result result) (js_results s) of
        (RR_kSuccess, ring) \<Rightarrow> (JS_kProgress, stats_upd (jts_results_published_update (\<lambda>n. n + 1)) (s\<lparr>js_results := ring\<rparr>))
      | (RR_kFull, ring) \<Rightarrow> (JS_kBackpressured, stats_upd (jts_publish_blocked_update (\<lambda>n. n + 1)) (s\<lparr>js_results := ring\<rparr>))
      | (_, ring) \<Rightarrow> (JS_kTransportError, s\<lparr>js_results := ring\<rparr>))"

text \<open>The three parts of \<open>poll\<close>: what is left of an earlier rejection, a result of the pool, a new request.\<close>

definition poll_rejection :: "'b JobService \<Rightarrow> JobServiceResult option \<times> bool \<times> 'b JobService" where
  "poll_rejection s =
     (if js_rejection_pending s
      then case service_publish (js_rejection s) s of
          (published, s1) \<Rightarrow>
            if published \<noteq> JS_kProgress then (Some published, False, s1)
            else (None, True, s1\<lparr>js_rejection_pending := False\<rparr>)
      else (None, False, s))"

definition poll_result :: "'b JobService \<Rightarrow> JobServiceResult option \<times> bool \<times> 'b JobService" where
  "poll_result s =
     (case ready_result (js_pool s) of
        (None, pool) \<Rightarrow> (None, False, s\<lparr>js_pool := pool\<rparr>)
      | (Some result, pool) \<Rightarrow>
          (case service_publish result (s\<lparr>js_pool := pool\<rparr>) of
             (published, s1) \<Rightarrow>
               if published \<noteq> JS_kProgress then (Some published, False, s1)
               else (None, True, s1\<lparr>js_pool := release_ready_result (js_pool s1)\<rparr>)))"

text \<open>\<open>clock_ns\<close> is what the steady clock shows; it is read when the caller gives no time.\<close>

definition submit_request :: "u64 \<Rightarrow> u64 \<Rightarrow> 'b JobService \<Rightarrow> JobServiceResult \<times> 'b JobService" where
  "submit_request clock_ns now_ns s0 =
     (let s = stats_upd (jts_requests_received_update (\<lambda>n. n + 1)) s0
      in case pool_submit (js_request s) (if now_ns = 0 then clock_ns else now_ns) (Some (js_rejection s)) (js_pool s) of
           (submitted, rejection, pool1) \<Rightarrow>
             let s1 = s\<lparr>js_pool := pool1, js_rejection := the rejection\<rparr>
             in if submitted = JSR_kAccepted then (JS_kProgress, stats_upd (jts_requests_accepted_update (\<lambda>n. n + 1)) s1)
                else
                  let s2 = stats_upd (jts_requests_rejected_update (\<lambda>n. n + 1)) s1
                  in if validate_result (js_rejection s2) \<noteq> PR_kSuccess then (JS_kTransportError, s2)
                     else (case service_publish (js_rejection s2) (s2\<lparr>js_rejection_pending := True\<rparr>) of
                         (published, s3) \<Rightarrow>
                           (published, if published = JS_kProgress then s3\<lparr>js_rejection_pending := False\<rparr> else s3)))"

definition handle_message :: "u64 \<Rightarrow> u64 \<Rightarrow> nat \<Rightarrow> 'b JobService \<Rightarrow> JobServiceResult \<times> 'b JobService" where
  "handle_message clock_ns now_ns bytes_read s =
     (let request = js_request s; kind = me_kind (jrq_envelope request)
      in if bytes_read < sizeof_MessageEnvelope then (JS_kCorruptInput, stats_upd count_corrupt s)
         else if kind = MessageKind_kShutdown
           then (if bytes_read \<noteq> 40 then (JS_kCorruptInput, stats_upd count_corrupt s)
                 else if \<not> valid_envelope (ctl_envelope (read_control (take 40 (request_image request)))) MessageKind_kShutdown 40
                   then (JS_kCorruptInput, stats_upd count_corrupt s)
                 else (JS_kStopped, s\<lparr>js_stopped := True\<rparr>))
         else if kind \<noteq> MessageKind_kJobRequest \<or> bytes_read \<noteq> wire_size_request request \<or> validate_request request \<noteq> PR_kSuccess
           then (JS_kCorruptInput, stats_upd count_corrupt s)
         else submit_request clock_ns now_ns s)"

definition empty_request_metadata :: JobRequestMetadata where
  "empty_request_metadata = \<lparr>jrqm_struct_size = 0, jrqm_service_class = ServiceClass_kBestEffort, jrqm_descriptor = default_descriptor,
     jrqm_timestamp_ns = 0, jrqm_payload_bytes = 0\<rparr>"

definition poll_request :: "u64 \<Rightarrow> u64 \<Rightarrow> bool \<Rightarrow> 'b JobService \<Rightarrow> JobServiceResult \<times> 'b JobService" where
  "poll_request clock_ns now_ns made_progress s =
     (let cleared = (js_request s)\<lparr>jrq_envelope := default_envelope, jrq_metadata := empty_request_metadata\<rparr>
      in case ring_try_pop (request_image cleared) (js_requests s) of
           (received, bytes_read, destination, ring) \<Rightarrow>
             let s1 = s\<lparr>js_requests := ring, js_request := read_request destination\<rparr>
             in if received = RR_kEmpty then (if made_progress then JS_kProgress else JS_kIdle, s1)
                else if received = RR_kCorrupt then (JS_kCorruptInput, stats_upd count_corrupt s1)
                else if received \<noteq> RR_kSuccess then (JS_kTransportError, s1)
                else handle_message clock_ns now_ns bytes_read s1)"

definition service_poll :: "u64 \<Rightarrow> u64 \<Rightarrow> 'b JobService \<Rightarrow> JobServiceResult \<times> 'b JobService" where
  "service_poll clock_ns now_ns s =
     (if js_stopped s then (JS_kStopped, s)
      else case poll_rejection s of
          (Some r, _, s1) \<Rightarrow> (r, s1)
        | (None, progress1, s1) \<Rightarrow>
            (case poll_result s1 of
               (Some r, _, s2) \<Rightarrow> (r, s2)
             | (None, progress2, s2) \<Rightarrow> poll_request clock_ns now_ns (progress1 \<or> progress2) s2))"

definition job_service_result_to_string :: "JobServiceResult \<Rightarrow> string" where
  "job_service_result_to_string r =
     (case r of
        JS_kIdle \<Rightarrow> ''idle''
      | JS_kProgress \<Rightarrow> ''progress''
      | JS_kBackpressured \<Rightarrow> ''backpressured''
      | JS_kStopped \<Rightarrow> ''stopped''
      | JS_kCorruptInput \<Rightarrow> ''corrupt input''
      | JS_kTransportError \<Rightarrow> ''transport error'')"

end
