(* ===== verification/Job_Control_Service.thy ===== *)
theory Job_Control_Service
  imports Job_Service
begin

text \<open>
  relay/worker/job\_control\_service.\{h,cc\}: the operator's endpoint of the worker pool. The pool and the
  transport counters belong to others and are arguments; a call returns the pool it leaves. The
  status is read at one moment: the flags it reports belong to the thread that polls.
\<close>

section \<open>Definitions\<close>

datatype JobControlServiceResult = JCS_kIdle | JCS_kProgress | JCS_kBackpressured | JCS_kStopped | JCS_kCorruptInput | JCS_kTransportError

record JobControlService =
  jcv_requests :: "RingMem option"
  jcv_responses :: "RingMem option"
  jcv_request :: JobControlRequest
  jcv_response :: JobControlResponse
  jcv_response_pending :: bool
  jcv_stop_after_publish :: bool
  jcv_stopped :: bool

definition make_control_service :: "RingMem \<Rightarrow> RingMem \<Rightarrow> JobControlService" where
  "make_control_service requests responses =
     \<lparr>jcv_requests = Some requests, jcv_responses = Some responses, jcv_request = default_control_request,
      jcv_response = default_control_response, jcv_response_pending = False, jcv_stop_after_publish = False, jcv_stopped = False\<rparr>"

definition map_drain_result :: "WorkerDrainResult \<Rightarrow> JobControlCode" where
  "map_drain_result result =
     (case result of
        WDR_kStarted \<Rightarrow> ControlCode_kSuccess
      | WDR_kAlreadyDraining \<Rightarrow> ControlCode_kAlreadyDraining
      | WDR_kWouldStrandWork \<Rightarrow> ControlCode_kWouldStrandWork
      | WDR_kInvalidWorker \<Rightarrow> ControlCode_kInvalidWorker)"

definition map_recovery_result :: "WorkerRecoveryResult \<Rightarrow> JobControlCode" where
  "map_recovery_result result =
     (case result of
        WRR_kRecovered \<Rightarrow> ControlCode_kSuccess
      | WRR_kNotQuarantined \<Rightarrow> ControlCode_kWorkerNotQuarantined
      | WRR_kNotDrained \<Rightarrow> ControlCode_kWorkerNotDrained
      | WRR_kInvalidWorker \<Rightarrow> ControlCode_kInvalidWorker)"

definition control_create ::
  "(string \<Rightarrow> RingConfig \<Rightarrow> string + RingMem) \<Rightarrow> string \<Rightarrow> string \<Rightarrow> u32 \<Rightarrow> string + JobControlService" where
  "control_create create_ring request_name response_name capacity =
     (case create_ring request_name \<lparr>rc_capacity = capacity, rc_slot_bytes = of_nat sizeof_JobControlRequest\<rparr> of
        Inl e \<Rightarrow> Inl e
      | Inr requests \<Rightarrow>
          (case create_ring response_name \<lparr>rc_capacity = capacity, rc_slot_bytes = of_nat sizeof_JobControlResponse\<rparr> of
             Inl e \<Rightarrow> Inl e
           | Inr responses \<Rightarrow> Inr (make_control_service requests responses)))"

definition control_connect :: "(string \<Rightarrow> string + RingMem) \<Rightarrow> string \<Rightarrow> string \<Rightarrow> string + JobControlService" where
  "control_connect open_ring request_name response_name =
     (case open_ring request_name of
        Inl e \<Rightarrow> Inl e
      | Inr requests \<Rightarrow>
          (case open_ring response_name of
             Inl e \<Rightarrow> Inl e
           | Inr responses \<Rightarrow>
               if \<not> usable_ring requests (of_nat sizeof_JobControlRequest) \<or> \<not> usable_ring responses (of_nat sizeof_JobControlResponse)
               then Inl ''Generic job control rings are incompatible with this service build''
               else Inr (make_control_service requests responses)))"

text \<open>The loop over the workers sets the bit of each worker with a property; each mask is its own accumulator.\<close>

definition flag_mask :: "(nat \<Rightarrow> bool) \<Rightarrow> nat \<Rightarrow> u32" where
  "flag_mask flag workers = fold (\<lambda>index mask. if flag index then mask OR push_bit index 1 else mask) [0 ..< workers] 0"

definition capture_status :: "JobTransportStats \<Rightarrow> 'b JobWorkerPool \<Rightarrow> JobControlStatus" where
  "capture_status stats p =
     (let workers = length (jp_slots p)
      in \<lparr>jcs_worker_count = of_nat workers, jcs_accepting_workers = of_nat (accepting_worker_count p),
          jcs_busy_workers = of_nat (pool_busy_count p), jcs_queued_jobs = of_nat (length (jp_queue_order p)),
          jcs_draining_mask = flag_mask (\<lambda>i. worker_draining i p) workers,
          jcs_drained_mask = flag_mask (\<lambda>i. worker_drained i p) workers,
          jcs_bound_mask = flag_mask (\<lambda>i. wb_bound (pool_worker_binding i p)) workers,
          jcs_quarantined_mask = flag_mask (\<lambda>i. worker_quarantined i p) workers,
          jcs_worker_failures = jp_failure_count p, jcs_worker_quarantines = jp_quarantine_count p,
          jcs_qos_rejections = jp_qos_rejection_count p,
          jcs_requests_received = jts_requests_received stats, jcs_requests_accepted = jts_requests_accepted stats,
          jcs_requests_rejected = jts_requests_rejected stats, jcs_results_published = jts_results_published stats,
          jcs_corrupt_inputs = jts_corrupt_inputs stats, jcs_publish_blocked = jts_publish_blocked stats\<rparr>)"

text \<open>What the request does to the pool: the code of the answer and the pool.\<close>

definition apply_operation :: "JobControlRequest \<Rightarrow> 'b JobWorkerPool \<Rightarrow> JobControlCode \<times> 'b JobWorkerPool" where
  "apply_operation request p =
     (let operation = jcqm_operation (jcq_metadata request); index = unat (jcqm_worker_index (jcq_metadata request))
      in if operation = ControlOp_kDrainWorker
           then (case request_worker_drain index p of (r, p') \<Rightarrow> (map_drain_result r, p'))
         else if operation = ControlOp_kResumeWorker
           then (if index \<ge> length (jp_slots p) then (ControlCode_kInvalidWorker, p)
                 else if worker_quarantined index p then (ControlCode_kWorkerQuarantined, p)
                 else (case resume_worker index p of
                     (resumed, p') \<Rightarrow> (if resumed then ControlCode_kSuccess else ControlCode_kWorkerNotDrained, p')))
         else if operation = ControlOp_kRecoverWorker
           then (case recover_worker index p of (r, p') \<Rightarrow> (map_recovery_result r, p'))
         else (ControlCode_kSuccess, p))"

definition build_response :: "JobTransportStats \<Rightarrow> JobControlRequest \<Rightarrow> JobControlService \<Rightarrow> 'b JobWorkerPool \<Rightarrow> JobControlService \<times> 'b JobWorkerPool" where
  "build_response stats request s p =
     (case apply_operation request p of
        (code, p') \<Rightarrow>
          let r = default_control_response;
              r1 = r\<lparr>jcr_envelope := (jcr_envelope r)\<lparr>me_struct_size := of_nat sizeof_JobControlResponse,
                       me_sequence := me_sequence (jcq_envelope request), me_session_id := me_session_id (jcq_envelope request)\<rparr>,
                     jcr_metadata := (jcr_metadata r)\<lparr>jcrm_operation := jcqm_operation (jcq_metadata request),
                       jcrm_worker_index := jcqm_worker_index (jcq_metadata request), jcrm_code := code,
                       jcrm_status := capture_status stats p'\<rparr>\<rparr>
          in (s\<lparr>jcv_response := r1,
                jcv_stop_after_publish := (jcqm_operation (jcq_metadata request) = ControlOp_kShutdown \<or> jcv_stop_after_publish s)\<rparr>, p'))"

definition publish_pending :: "JobControlService \<Rightarrow> JobControlServiceResult \<times> JobControlService" where
  "publish_pending s =
     (case ring_try_push (control_response_image (jcv_response s)) (jcv_responses s) of
        (RR_kSuccess, ring) \<Rightarrow>
          let s1 = s\<lparr>jcv_responses := ring, jcv_response_pending := False, jcv_stopped := (jcv_stop_after_publish s \<or> jcv_stopped s)\<rparr>
          in (if jcv_stopped s1 then JCS_kStopped else JCS_kProgress, s1)
      | (RR_kFull, ring) \<Rightarrow> (JCS_kBackpressured, s\<lparr>jcv_responses := ring\<rparr>)
      | (_, ring) \<Rightarrow> (JCS_kTransportError, s\<lparr>jcv_responses := ring\<rparr>))"

definition control_poll ::
  "JobTransportStats \<Rightarrow> JobControlService \<Rightarrow> 'b JobWorkerPool \<Rightarrow> JobControlServiceResult \<times> JobControlService \<times> 'b JobWorkerPool" where
  "control_poll stats s p =
     (if jcv_stopped s then (JCS_kStopped, s, p)
      else if jcv_response_pending s then (case publish_pending s of (r, s') \<Rightarrow> (r, s', p))
      else case ring_try_pop (control_request_image default_control_request) (jcv_requests s) of
          (received, bytes_read, destination, ring) \<Rightarrow>
            let s1 = s\<lparr>jcv_requests := ring, jcv_request := read_control_request destination\<rparr>
            in if received = RR_kEmpty then (JCS_kIdle, s1, p)
               else if received = RR_kCorrupt then (JCS_kCorruptInput, s1, p)
               else if received \<noteq> RR_kSuccess then (JCS_kTransportError, s1, p)
               else if bytes_read \<noteq> sizeof_JobControlRequest \<or> validate_control_request (jcv_request s1) \<noteq> PR_kSuccess
                 then (JCS_kCorruptInput, s1, p)
               else (case build_response stats (jcv_request s1) s1 p of
                   (s2, p') \<Rightarrow> (case publish_pending (s2\<lparr>jcv_response_pending := True\<rparr>) of (r, s3) \<Rightarrow> (r, s3, p'))))"

definition job_control_service_result_to_string :: "JobControlServiceResult \<Rightarrow> string" where
  "job_control_service_result_to_string r =
     (case r of
        JCS_kIdle \<Rightarrow> ''idle''
      | JCS_kProgress \<Rightarrow> ''progress''
      | JCS_kBackpressured \<Rightarrow> ''backpressured''
      | JCS_kStopped \<Rightarrow> ''stopped''
      | JCS_kCorruptInput \<Rightarrow> ''corrupt_input''
      | JCS_kTransportError \<Rightarrow> ''transport_error'')"

end
