(* ===== verification/Job_Clients.thy ===== *)
theory Job_Clients
  imports Job_Control_Service
begin

text \<open>
  relay/client/client\_result.h, job\_client.\{h,cc\} and job\_control\_client.\{h,cc\}: the endpoints that
  processes use to send job requests and operator requests and to take the answers. Creating and
  opening rings are parameters, as in the services.
\<close>

section \<open>Definitions\<close>

datatype ClientResult = CR_kSuccess | CR_kEmpty | CR_kFull | CR_kInvalidRequest | CR_kIncompatible | CR_kCorrupt | CR_kTransportError

definition client_result_to_string :: "ClientResult \<Rightarrow> string" where
  "client_result_to_string result =
     (case result of
        CR_kSuccess \<Rightarrow> ''success''
      | CR_kEmpty \<Rightarrow> ''empty''
      | CR_kFull \<Rightarrow> ''full''
      | CR_kInvalidRequest \<Rightarrow> ''invalid request''
      | CR_kIncompatible \<Rightarrow> ''incompatible model''
      | CR_kCorrupt \<Rightarrow> ''corrupt message''
      | CR_kTransportError \<Rightarrow> ''transport error'')"

subsection \<open>Job client\<close>

record JobClient =
  jcl_requests :: "RingMem option"
  jcl_results :: "RingMem option"

definition map_ring_result :: "RingResult \<Rightarrow> ClientResult" where
  "map_ring_result result =
     (case result of
        RR_kSuccess \<Rightarrow> CR_kSuccess
      | RR_kEmpty \<Rightarrow> CR_kEmpty
      | RR_kFull \<Rightarrow> CR_kFull
      | RR_kCorrupt \<Rightarrow> CR_kCorrupt
      | RR_kTooLarge \<Rightarrow> CR_kTransportError
      | RR_kDestinationTooSmall \<Rightarrow> CR_kTransportError)"

definition job_client_create :: "(string \<Rightarrow> RingConfig \<Rightarrow> string + RingMem) \<Rightarrow> string \<Rightarrow> string \<Rightarrow> u32 \<Rightarrow> string + JobClient" where
  "job_client_create create_ring request_name result_name capacity =
     (case create_ring request_name \<lparr>rc_capacity = capacity, rc_slot_bytes = sizeof_JobRequestMessage\<rparr> of
        Inl e \<Rightarrow> Inl e
      | Inr requests \<Rightarrow>
          (case create_ring result_name \<lparr>rc_capacity = capacity, rc_slot_bytes = sizeof_JobResultMessage\<rparr> of
             Inl e \<Rightarrow> Inl e
           | Inr results \<Rightarrow> Inr \<lparr>jcl_requests = Some requests, jcl_results = Some results\<rparr>))"

definition job_client_connect :: "(string \<Rightarrow> string + RingMem) \<Rightarrow> string \<Rightarrow> string \<Rightarrow> string + JobClient" where
  "job_client_connect open_ring request_name result_name =
     (case open_ring request_name of
        Inl e \<Rightarrow> Inl e
      | Inr requests \<Rightarrow>
          (case open_ring result_name of
             Inl e \<Rightarrow> Inl e
           | Inr results \<Rightarrow>
               if \<not> usable_ring requests sizeof_JobRequestMessage \<or> \<not> usable_ring results sizeof_JobResultMessage
               then Inl ''Generic job ring slot capacity is incompatible with this client build''
               else Inr \<lparr>jcl_requests = Some requests, jcl_results = Some results\<rparr>))"

definition control_image :: "ControlMessage \<Rightarrow> byte list" where
  "control_image m = envelope_image (ctl_envelope m) @ le_bytes (ctl_reason m)"

text \<open>The answer, and the ring it leaves behind in the shared memory.\<close>

definition job_client_send_shutdown ::
  "(string \<Rightarrow> string + RingMem) \<Rightarrow> string \<Rightarrow> u64 \<Rightarrow> u64 \<Rightarrow> u64 \<Rightarrow> string + ClientResult \<times> RingMem option" where
  "job_client_send_shutdown open_ring request_name sequence session_id reason =
     (case open_ring request_name of
        Inl e \<Rightarrow> Inl e
      | Inr requests \<Rightarrow>
          if \<not> usable_ring requests 40 then Inl ''Generic job request ring cannot hold a control message''
          else (case ring_try_push (control_image (make_shutdown_message sequence session_id reason)) (Some requests) of
              (r, ring) \<Rightarrow> Inr (map_ring_result r, ring)))"

definition job_client_submit :: "JobRequestMessage \<Rightarrow> JobClient \<Rightarrow> ClientResult \<times> JobClient" where
  "job_client_submit request c =
     (if validate_request request \<noteq> PR_kSuccess then (CR_kInvalidRequest, c)
      else case ring_try_push (wire_bytes_request request) (jcl_requests c) of
          (r, ring) \<Rightarrow> (map_ring_result r, c\<lparr>jcl_requests := ring\<rparr>))"

definition empty_result_metadata :: JobResultMetadata where
  "empty_result_metadata = \<lparr>jrsm_struct_size = 0, jrsm_service_class = ServiceClass_kBestEffort, jrsm_descriptor = default_descriptor,
     jrsm_progress = default_progress, jrsm_timestamp_ns = 0, jrsm_payload_bytes = 0\<rparr>"

text \<open>The answer, the message object and the client.\<close>

definition job_client_receive :: "JobResultMessage \<Rightarrow> JobClient \<Rightarrow> ClientResult \<times> JobResultMessage \<times> JobClient" where
  "job_client_receive result c =
     (let cleared = result\<lparr>jrs_envelope := default_envelope, jrs_metadata := empty_result_metadata\<rparr>
      in case ring_try_pop (result_image cleared) (jcl_results c) of
           (received, bytes_read, destination, ring) \<Rightarrow>
             let m = read_result destination; c' = c\<lparr>jcl_results := ring\<rparr>
             in if received \<noteq> RR_kSuccess then (map_ring_result received, m, c')
                else if bytes_read \<noteq> wire_size_result m \<or> validate_result m \<noteq> PR_kSuccess then (CR_kCorrupt, m, c')
                else (CR_kSuccess, m, c'))"

definition job_client_shutdown :: "u64 \<Rightarrow> u64 \<Rightarrow> u64 \<Rightarrow> JobClient \<Rightarrow> ClientResult \<times> JobClient" where
  "job_client_shutdown sequence session_id reason c =
     (case ring_try_push (control_image (make_shutdown_message sequence session_id reason)) (jcl_requests c) of
        (r, ring) \<Rightarrow> (map_ring_result r, c\<lparr>jcl_requests := ring\<rparr>))"

subsection \<open>Job control client\<close>

record JobControlClient =
  jcc_requests :: "RingMem option"
  jcc_responses :: "RingMem option"

definition map_control_ring_result :: "RingResult \<Rightarrow> ClientResult" where
  "map_control_ring_result result =
     (case result of
        RR_kSuccess \<Rightarrow> CR_kSuccess
      | RR_kEmpty \<Rightarrow> CR_kEmpty
      | RR_kFull \<Rightarrow> CR_kFull
      | RR_kTooLarge \<Rightarrow> CR_kIncompatible
      | RR_kDestinationTooSmall \<Rightarrow> CR_kIncompatible
      | RR_kCorrupt \<Rightarrow> CR_kCorrupt)"

definition control_client_create ::
  "(string \<Rightarrow> RingConfig \<Rightarrow> string + RingMem) \<Rightarrow> string \<Rightarrow> string \<Rightarrow> u32 \<Rightarrow> string + JobControlClient" where
  "control_client_create create_ring request_name response_name capacity =
     (case create_ring request_name \<lparr>rc_capacity = capacity, rc_slot_bytes = of_nat sizeof_JobControlRequest\<rparr> of
        Inl e \<Rightarrow> Inl e
      | Inr requests \<Rightarrow>
          (case create_ring response_name \<lparr>rc_capacity = capacity, rc_slot_bytes = of_nat sizeof_JobControlResponse\<rparr> of
             Inl e \<Rightarrow> Inl e
           | Inr responses \<Rightarrow> Inr \<lparr>jcc_requests = Some requests, jcc_responses = Some responses\<rparr>))"

definition control_client_connect :: "(string \<Rightarrow> string + RingMem) \<Rightarrow> string \<Rightarrow> string \<Rightarrow> string + JobControlClient" where
  "control_client_connect open_ring request_name response_name =
     (case open_ring request_name of
        Inl e \<Rightarrow> Inl e
      | Inr requests \<Rightarrow>
          (case open_ring response_name of
             Inl e \<Rightarrow> Inl e
           | Inr responses \<Rightarrow>
               if \<not> usable_ring requests (of_nat sizeof_JobControlRequest) \<or> \<not> usable_ring responses (of_nat sizeof_JobControlResponse)
               then Inl ''Generic job control rings are incompatible with this client build''
               else Inr \<lparr>jcc_requests = Some requests, jcc_responses = Some responses\<rparr>))"

definition control_client_submit :: "JobControlRequest \<Rightarrow> JobControlClient \<Rightarrow> ClientResult \<times> JobControlClient" where
  "control_client_submit request c =
     (if validate_control_request request \<noteq> PR_kSuccess then (CR_kInvalidRequest, c)
      else case ring_try_push (control_request_image request) (jcc_requests c) of
          (r, ring) \<Rightarrow> (map_control_ring_result r, c\<lparr>jcc_requests := ring\<rparr>))"

definition control_client_receive :: "JobControlClient \<Rightarrow> ClientResult \<times> JobControlResponse \<times> JobControlClient" where
  "control_client_receive c =
     (case ring_try_pop (control_response_image default_control_response) (jcc_responses c) of
        (result, bytes_read, destination, ring) \<Rightarrow>
          let m = read_control_response destination; c' = c\<lparr>jcc_responses := ring\<rparr>
          in if result \<noteq> RR_kSuccess then (map_control_ring_result result, m, c')
             else if bytes_read \<noteq> sizeof_JobControlResponse \<or> validate_control_response m \<noteq> PR_kSuccess then (CR_kCorrupt, m, c')
             else (CR_kSuccess, m, c'))"

end
