(* ===== verification/Job_Service_Correct.thy ===== *)
theory Job_Service_Correct
  imports Job_Service Job_Pool_Properties
begin

text \<open>
  The job service from end to end: clients put byte strings into the request ring and take byte
  strings out of the result ring, worker threads and other coordinator calls change the pool, and
  \<open>poll\<close> moves messages between them. Every request is accounted for: it waits in the request ring,
  is pending in the pool, or has exactly one answer, which the client took, waits in the result
  ring, or is the rejection the service still has to send.
\<close>

section \<open>Definitions\<close>

text \<open>The request a byte string carries: what \<open>poll\<close> makes of it in a fresh buffer.\<close>

definition cleared :: "JobRequestMessage \<Rightarrow> JobRequestMessage" where
  "cleared m = m\<lparr>jrq_envelope := default_envelope, jrq_metadata := empty_request_metadata\<rparr>"

definition received_into :: "JobRequestMessage \<Rightarrow> byte list \<Rightarrow> JobRequestMessage" where
  "received_into m bs = read_request (blit (request_image (cleared m)) 0 bs)"

definition is_request :: "nat \<Rightarrow> JobRequestMessage \<Rightarrow> bool" where
  "is_request n m \<longleftrightarrow> sizeof_MessageEnvelope \<le> n \<and> me_kind (jrq_envelope m) = MessageKind_kJobRequest \<and> n = wire_size_request m \<and>
     validate_request m = PR_kSuccess"

definition wire_view :: "byte list \<Rightarrow> request_view option" where
  "wire_view bs =
     (let m = received_into default_request bs in if is_request (length bs) m then Some (view_request m) else None)"

definition carried :: "byte list \<Rightarrow> request_view multiset" where
  "carried bs = (case wire_view bs of None \<Rightarrow> {#} | Some v \<Rightarrow> {#v#})"

definition waiting :: "'b JobService \<Rightarrow> request_view multiset" where
  "waiting s = sum_list (map carried (ring_contents (the (js_requests s))))"

definition outgoing :: "'b JobService \<Rightarrow> byte list multiset" where
  "outgoing s = mset (ring_contents (the (js_results s))) +
     (if js_rejection_pending s then {#wire_bytes_result (js_rejection s)#} else {#})"

text \<open>Runs of the service with its clients: the requests sent and the byte strings taken as results.\<close>

inductive service_history :: "'b JobService \<Rightarrow> request_view multiset \<Rightarrow> byte list multiset \<Rightarrow> bool" where
  sh_init: "pool_init p \<Longrightarrow> ring_invar requests \<Longrightarrow> ring_contents requests = [] \<Longrightarrow> ring_invar results \<Longrightarrow>
    ring_contents results = [] \<Longrightarrow> unat (rg_slot_bytes requests) \<le> unat sizeof_JobRequestMessage \<Longrightarrow>
    service_history (make_service requests results p) {#} {#}"
| sh_send: "service_history s sent got \<Longrightarrow> ring_try_push bs (js_requests s) = (RR_kSuccess, ring) \<Longrightarrow>
    service_history (s\<lparr>js_requests := ring\<rparr>) (sent + carried bs) got"
| sh_take: "service_history s sent got \<Longrightarrow> ring_try_pop dest (js_results s) = (RR_kSuccess, n, dest', ring) \<Longrightarrow>
    service_history (s\<lparr>js_results := ring\<rparr>) sent (add_mset (take n dest') got)"
| sh_pool: "service_history s sent got \<Longrightarrow> pool_quiet (js_pool s) p \<Longrightarrow> service_history (s\<lparr>js_pool := p\<rparr>) sent got"
| sh_poll: "service_history s sent got \<Longrightarrow> service_poll clock_ns now_ns s = (r, s') \<Longrightarrow> service_history s' sent got"

text \<open>
  The invariant: the rings and buffers are well formed, and the requests sent are those that wait,
  those the pool accepted and those rejected, with the answers released or rejected so far on their
  way to the client.
\<close>

definition service_account ::
  "'b JobService \<Rightarrow> request_view multiset \<Rightarrow> byte list multiset \<Rightarrow> request_view multiset
    \<Rightarrow> (request_view \<times> JobResultMessage) multiset \<Rightarrow> (request_view \<times> JobResultMessage) multiset \<Rightarrow> bool" where
  "service_account s sent got accepted released rejected \<longleftrightarrow>
     (\<exists>rq. js_requests s = Some rq \<and> ring_invar rq \<and> unat (rg_slot_bytes rq) \<le> 65656) \<and>
     (\<exists>rs. js_results s = Some rs \<and> ring_invar rs) \<and>
     request_wf (js_request s) \<and> result_wf (js_rejection s) \<and> pool_history (js_pool s) accepted released \<and>
     sent = waiting s + accepted + image_mset fst rejected \<and> (\<forall>(v, m) \<in># rejected. answers v m) \<and>
     got + outgoing s = image_mset (wire_bytes_result \<circ> snd) (released + rejected)"

section \<open>Lemmas\<close>

subsection \<open>Receiving a request\<close>

lemma length_request_image: "length (jd_model_digest (jrqm_descriptor (jrq_metadata m))) = 16 \<Longrightarrow> length (request_image m) = 120 + length (jrq_payload m)"
  by (simp add: request_image_def)

lemma length_cleared: "length (request_image (cleared m)) = 120 + length (jrq_payload m)"
  by (simp add: length_request_image cleared_def empty_request_metadata_def default_descriptor_def FE_MODEL_DIGEST_BYTES_def)

lemma read_le_prefix:
  "off + LENGTH('a) div 8 \<le> length xs \<Longrightarrow> (read_le (xs @ ys) off :: 'a::len word) = read_le xs off"
  by (rule read_le_cong) (simp add: nth_append)

lemma read_request_prefix:
  assumes "120 \<le> length bs"
  shows "read_request (bs @ ys) = (read_request bs)\<lparr>jrq_payload := drop 120 bs @ ys\<rparr>"
  using assms by (simp add: read_request_def read_envelope_def read_descriptor_def read_le_prefix)

lemma received_into_long:
  assumes "120 \<le> length bs" "length bs \<le> 120 + length (jrq_payload m)"
  shows "received_into m bs = (read_request bs)\<lparr>jrq_payload := drop 120 bs @ drop (length bs - 120) (jrq_payload m)\<rparr>"
proof -
  have "drop (length bs) (request_image (cleared m)) = drop (length bs - 120) (jrq_payload m)"
  proof -
    have "request_image (cleared m) = take 120 (request_image (cleared m)) @ jrq_payload m"
    proof -
      have "drop 120 (request_image (cleared m)) = jrq_payload m"
        by (simp add: request_image_def cleared_def empty_request_metadata_def default_descriptor_def FE_MODEL_DIGEST_BYTES_def)
      then show ?thesis by (metis append_take_drop_id)
    qed
    then have "drop (length bs) (request_image (cleared m)) = drop (length bs) (take 120 (request_image (cleared m)) @ jrq_payload m)" by simp
    also have "\<dots> = drop (length bs - 120) (jrq_payload m)" using assms(1) by (simp add: length_cleared)
    finally show ?thesis .
  qed
  then show ?thesis using read_request_prefix [OF assms(1)] by (simp add: received_into_def blit_def)
qed

lemma wire_size_request_ge: "120 \<le> wire_size_request m"
  by (simp add: wire_size_request_def wire_simps)

lemma validate_request_header: "validate_request (m\<lparr>jrq_payload := p\<rparr>) = validate_request m" "wire_size_request (m\<lparr>jrq_payload := p\<rparr>) = wire_size_request m"
  by (simp_all add: validate_request_def wire_size_request_def Let_def)

lemma received_request:
  assumes "request_wf m" "length bs \<le> 65656"
  shows "request_wf (received_into m bs)"
    "is_request (length bs) (received_into m bs) \<longleftrightarrow> wire_view bs \<noteq> None"
    "is_request (length bs) (received_into m bs) \<Longrightarrow> wire_view bs = Some (view_request (received_into m bs))"
proof -
  have len: "length (jrq_payload m) = 65536" "length (jrq_payload default_request) = 65536"
    using assms(1) by (simp_all add: request_wf_def wire_simps default_request_def)
  show "request_wf (received_into m bs)"
    using assms(2) len by (simp add: received_into_def read_request_def request_wf_def blit_def length_cleared wire_simps)
  have *: "is_request (length bs) (received_into m bs) = is_request (length bs) (received_into default_request bs) \<and>
    (is_request (length bs) (received_into m bs) \<longrightarrow> view_request (received_into m bs) = view_request (received_into default_request bs))"
  proof (cases "120 \<le> length bs")
    case False
    then show ?thesis using wire_size_request_ge by (auto simp: is_request_def)
  next
    case True
    note L = received_into_long [OF True] 
    have m: "received_into m bs = (read_request bs)\<lparr>jrq_payload := drop 120 bs @ drop (length bs - 120) (jrq_payload m)\<rparr>"
      "received_into default_request bs = (read_request bs)\<lparr>jrq_payload := drop 120 bs @ drop (length bs - 120) (jrq_payload default_request)\<rparr>"
      using L assms(2) len by simp_all
    have n: "min (unat (jrqm_payload_bytes (jrq_metadata (read_request bs)))) kMaxJobPayloadBytes \<le> length bs - 120"
      if "length bs = wire_size_request (read_request bs)"
      using that by (simp add: wire_size_request_def wire_simps clamp_dim_def)
    then show ?thesis
      by (auto simp: m is_request_def validate_request_header view_request_def request_payload_values_def clamp_dim_def)
  qed
  show "is_request (length bs) (received_into m bs) \<longleftrightarrow> wire_view bs \<noteq> None"
    using * unfolding wire_view_def Let_def by (simp del: not_None_eq)
  show "is_request (length bs) (received_into m bs) \<Longrightarrow> wire_view bs = Some (view_request (received_into m bs))"
    using * unfolding wire_view_def Let_def by simp
qed

text \<open>A valid message survives the trip through the ring.\<close>

lemma wire_view_request:
  assumes valid: "validate_request m = PR_kSuccess" and wf: "request_wf m"
    and dig: "length (jd_model_digest (jrqm_descriptor (jrq_metadata m))) = 16"
  shows "wire_view (wire_bytes_request m) = Some (view_request m)" "length (wire_bytes_request m) = wire_size_request m"
proof -
  let ?bs = "wire_bytes_request m" and ?n = "min (unat (jrqm_payload_bytes (jrq_metadata m))) kMaxJobPayloadBytes"
  have pay: "length (jrq_payload m) = 65536" "length (jrq_payload default_request) = 65536"
    using wf by (simp_all add: request_wf_def wire_simps default_request_def)
  have n: "wire_size_request m = 120 + ?n" "?n \<le> 65536" by (simp_all add: wire_size_request_def wire_simps)
  show len: "length ?bs = wire_size_request m"
    using n pay by (simp add: wire_bytes_request_def length_request_image [OF dig])
  have split: "request_image m = ?bs @ drop (wire_size_request m) (request_image m)" by (simp add: wire_bytes_request_def)
  have "read_request (request_image m) = (read_request ?bs)\<lparr>jrq_payload := drop 120 ?bs @ drop (wire_size_request m) (request_image m)\<rparr>"
    by (subst split, rule read_request_prefix) (simp add: len n)
  then have head: "(read_request ?bs)\<lparr>jrq_payload := p\<rparr> = m\<lparr>jrq_payload := p\<rparr>" for p
    using request_image_back [OF dig] by (metis JobRequestMessage.surjective JobRequestMessage.update_convs(3))
  have "drop 120 (request_image m) = jrq_payload m" by (simp add: request_image_def dig)
  then have tail: "drop 120 ?bs = take ?n (jrq_payload m)" by (simp add: wire_bytes_request_def n(1) drop_take)
  have "received_into default_request ?bs = m\<lparr>jrq_payload := take ?n (jrq_payload m) @ drop ?n (jrq_payload default_request)\<rparr>"
    using received_into_long [of ?bs default_request] len n pay(2) head tail by simp
  moreover have "me_kind (jrq_envelope m) = MessageKind_kJobRequest"
    using valid by (auto simp: validate_request_def Let_def split: if_splits)
  ultimately show "wire_view ?bs = Some (view_request m)"
    using valid len n pay(1)
    by (simp add: wire_view_def Let_def is_request_def validate_request_header view_request_def request_payload_values_def wire_simps)
qed

subsection \<open>Publishing\<close>

text \<open>Publishing a result appends its bytes or changes nothing but the counters.\<close>

lemma publish_cases:
  assumes "service_publish m s = (r, s')" "js_results s = Some rs" "ring_invar rs"
  obtains rs' where "js_results s' = Some rs'" "ring_invar rs'" "rg_slot_bytes rs' = rg_slot_bytes rs"
    "ring_contents rs' = ring_contents rs @ (if r = JS_kProgress then [wire_bytes_result m] else [])"
    "s' = s\<lparr>js_results := js_results s', js_stats := js_stats s'\<rparr>"
proof -
  obtain res ring where push: "ring_try_push (wire_bytes_result m) (Some rs) = (res, ring)" by fastforce
  show thesis
    using assms(3) push
  proof (cases rule: try_push_cases)
    case (pushed r')
    then show ?thesis using that assms(1,2) push by (auto simp: service_publish_def)
  next
    case refused
    then show ?thesis
      using that assms push by (auto simp: service_publish_def split: RingResult.splits)
  qed
qed

subsection \<open>The account\<close>

lemma poll_rejection_account:
  assumes acc: "service_account s sent got accepted released rejected" and run: "poll_rejection s = (r, progress, s')"
  shows "service_account s' sent got accepted released rejected \<and> (r = None \<longrightarrow> \<not> js_rejection_pending s')"
proof (cases "js_rejection_pending s")
  case False
  then show ?thesis using assms by (simp add: poll_rejection_def)
next
  case True
  obtain p s1 where pub: "service_publish (js_rejection s) s = (p, s1)" by fastforce
  obtain rs where rs: "js_results s = Some rs" "ring_invar rs" using acc by (auto simp: service_account_def)
  from pub rs obtain rs' where c: "js_results s1 = Some rs'" "ring_invar rs'" 
    "ring_contents rs' = ring_contents rs @ (if p = JS_kProgress then [wire_bytes_result (js_rejection s)] else [])"
    "s1 = s\<lparr>js_results := js_results s1, js_stats := js_stats s1\<rparr>" by (rule publish_cases)
  have f: "js_requests s1 = js_requests s" "js_request s1 = js_request s" "js_rejection s1 = js_rejection s" "js_pool s1 = js_pool s"
    "js_rejection_pending s1" "waiting s1 = waiting s"
    using True by (subst c(4), simp add: waiting_def)+
  show ?thesis
    using acc run True pub rs c(1-3) f
    by (auto simp: poll_rejection_def service_account_def outgoing_def waiting_def split: if_splits)
qed

lemma poll_result_account:
  assumes acc: "service_account s sent got accepted released rejected" and idle: "\<not> js_rejection_pending s"
    and run: "poll_result s = (r, progress, s')"
  shows "\<exists>released'. service_account s' sent got accepted released' rejected \<and> \<not> js_rejection_pending s'"
proof -
  obtain m p where ready: "ready_result (js_pool s) = (m, p)" by fastforce
  have hist: "pool_history (js_pool s) accepted released" using acc by (simp add: service_account_def)
  have inv: "pool_inv (js_pool s)" using pool_history_inv [OF hist] .
  have quiet: "pool_history p accepted released" using ph_quiet [OF hist pq_ready] ready by simp
  let ?s = "s\<lparr>js_pool := p\<rparr>"
  have acc': "service_account ?s sent got accepted released rejected"
    using acc quiet idle by (simp add: service_account_def waiting_def outgoing_def)
  show ?thesis
  proof (cases m)
    case None
    then show ?thesis using acc' run ready idle by (auto simp: poll_result_def)
  next
    case (Some res)
    obtain i where i: "jp_ready_index p = Some i" "res = sl_result (jp_slots p ! i)"
      using ready_result_ok [OF inv] ready Some by (auto simp: ready_answer_def)
    let ?released = "add_mset (view_request (sl_request (jp_slots p ! i)), res) released"
    have rel: "pool_history (release_ready_result p) accepted ?released"
      using ph_release [OF quiet] i by simp
    obtain pb s1 where pub: "service_publish res ?s = (pb, s1)" by fastforce
    obtain rs where rs: "js_results ?s = Some rs" "ring_invar rs" using acc' by (auto simp: service_account_def)
    from pub rs obtain rs' where c: "js_results s1 = Some rs'" "ring_invar rs'" 
      "ring_contents rs' = ring_contents rs @ (if pb = JS_kProgress then [wire_bytes_result res] else [])"
      "s1 = ?s\<lparr>js_results := js_results s1, js_stats := js_stats s1\<rparr>" by (rule publish_cases)
    have f: "js_requests s1 = js_requests s" "js_request s1 = js_request s" "js_rejection s1 = js_rejection s" "js_pool s1 = p"
      "\<not> js_rejection_pending s1"
      using idle by (subst c(4), simp)+
    show ?thesis
    proof (cases "pb = JS_kProgress")
      case True
      then have s': "s' = s1\<lparr>js_pool := release_ready_result p\<rparr>" using run ready Some pub f(4) by (simp add: poll_result_def)
      have "service_account s' sent got accepted ?released rejected"
        using acc' rel rs c(1-3) f True idle by (simp add: s' service_account_def outgoing_def waiting_def)
      then show ?thesis using f(5) s' by auto
    next
      case False
      then have s': "s' = s1" using run ready Some pub by (simp add: poll_result_def)
      have "service_account s' sent got accepted released rejected"
        using acc' quiet rs c(1-3) f False idle by (simp add: s' service_account_def outgoing_def waiting_def)
      then show ?thesis using f(5) s' by auto
    qed
  qed
qed

lemma pool_submit_answer:
  assumes hist: "pool_history p accepted released" and "request_wf rq" and "result_wf d" and valid: "validate_request rq = PR_kSuccess"
    and run: "pool_submit rq t (Some d) p = (r, d', p')"
  shows "pool_history p' (if r = JSR_kAccepted then add_mset (view_request rq) accepted else accepted) released"
    "\<exists>m. d' = Some m \<and> result_wf m \<and> (r \<noteq> JSR_kAccepted \<longrightarrow> answers (view_request rq) m)"
proof -
  show "pool_history p' (if r = JSR_kAccepted then add_mset (view_request rq) accepted else accepted) released"
    by (rule ph_submit [OF hist assms(2) run])
  show "\<exists>m. d' = Some m \<and> result_wf m \<and> (r \<noteq> JSR_kAccepted \<longrightarrow> answers (view_request rq) m)"
  proof (cases "r = JSR_kAccepted")
    case True
    then show ?thesis using run assms(3) by (auto simp: pool_submit_def Let_def split_def split: if_splits)
  next
    case False
    obtain q where q: "publish_rejection (Some d) rq t (rejection_code r) q = (d', p')"
      using pool_submit_rejection [OF run False] by blast
    have range: "ResultCode_kRejectedStale \<le> rejection_code r" "rejection_code r \<le> ResultCode_kRejectedQos"
      by (cases r; simp add: rejection_code_def enum_simps word_le_nat_alt)+
    have wf: "result_wf (d\<lparr>jrs_envelope := default_envelope, jrs_metadata := jrs_metadata default_result\<rparr>)"
      using assms(3) by (simp add: result_wf_def)
    show ?thesis
      using rejected_result_for [OF valid wf range, of t] q
      by (auto simp: publish_rejection_def Let_def split_def answers_result_for)
  qed
qed

lemma submit_account:
  assumes acc: "service_account s sent got accepted released rejected" and idle: "\<not> js_rejection_pending s"
    and valid: "validate_request (js_request s) = PR_kSuccess" and run: "submit_request clock_ns now_ns s = (r, s')"
  shows "\<exists>accepted' rejected'. service_account s' (add_mset (view_request (js_request s)) sent) got accepted' released rejected'"
proof -
  let ?v = "view_request (js_request s)" and ?t = "if now_ns = 0 then clock_ns else now_ns"
  obtain sub d' p where pool: "pool_submit (js_request s) ?t (Some (js_rejection s)) (js_pool s) = (sub, d', p)" using prod_cases3 by blast
  have hyps: "pool_history (js_pool s) accepted released" "request_wf (js_request s)" "result_wf (js_rejection s)"
    using acc by (simp_all add: service_account_def)
  obtain m where m: "d' = Some m" "result_wf m" "sub \<noteq> JSR_kAccepted \<Longrightarrow> answers ?v m"
    using pool_submit_answer(2) [OF hyps valid pool] by blast
  note hist = pool_submit_answer(1) [OF hyps valid pool]
  show ?thesis
  proof (cases "sub = JSR_kAccepted")
    case True
    then have "service_account s' (add_mset ?v sent) got (add_mset ?v accepted) released rejected"
      using run acc hist m(2) pool idle
      by (auto simp: submit_request_def Let_def m(1) service_account_def waiting_def outgoing_def)
    then show ?thesis by blast
  next
    case False
    then have ans: "answers ?v m" "validate_result m = PR_kSuccess" using m(3) by (simp_all add: answers_def)
    let ?s = "s\<lparr>js_pool := p, js_rejection := m, js_stats := jts_requests_rejected_update (\<lambda>n. n + 1)
      (jts_requests_received_update (\<lambda>n. n + 1) (js_stats s)), js_rejection_pending := True\<rparr>"
    obtain pb s1 where pub: "service_publish m ?s = (pb, s1)" by fastforce
    have s': "s' = (if pb = JS_kProgress then s1\<lparr>js_rejection_pending := False\<rparr> else s1)"
      using run pool False ans(2) pub by (auto simp: submit_request_def Let_def m(1))
    obtain rs where rs: "js_results ?s = Some rs" "ring_invar rs" using acc by (auto simp: service_account_def)
    from pub rs obtain rs' where c: "js_results s1 = Some rs'" "ring_invar rs'"
      "ring_contents rs' = ring_contents rs @ (if pb = JS_kProgress then [wire_bytes_result m] else [])"
      "s1 = ?s\<lparr>js_results := js_results s1, js_stats := js_stats s1\<rparr>" by (rule publish_cases)
    have f: "js_requests s1 = js_requests s" "js_request s1 = js_request s" "js_rejection s1 = m" "js_pool s1 = p" "js_rejection_pending s1"
      by (subst c(4), simp)+
    have "service_account s' (add_mset ?v sent) got accepted released (add_mset (?v, m) rejected)"
      using acc hist m(2) ans(1) False rs c(1-3) f idle
      by (auto simp: s' service_account_def waiting_def outgoing_def)
    then show ?thesis by blast
  qed
qed

lemma account_view [simp]:
  "outgoing (s\<lparr>js_stats := st\<rparr>) = outgoing s" "outgoing (s\<lparr>js_stopped := b\<rparr>) = outgoing s"
  "outgoing (s\<lparr>js_requests := ring\<rparr>) = outgoing s" "outgoing (s\<lparr>js_request := q\<rparr>) = outgoing s"
  "waiting (s\<lparr>js_stats := st\<rparr>) = waiting s" "waiting (s\<lparr>js_stopped := b\<rparr>) = waiting s" "waiting (s\<lparr>js_request := q\<rparr>) = waiting s"
  by (simp_all add: outgoing_def waiting_def)

lemma account_fields:
  assumes "service_account s sent got accepted released rejected"
  shows "service_account (s\<lparr>js_stats := st\<rparr>) sent got accepted released rejected"
    "service_account (s\<lparr>js_stopped := b\<rparr>) sent got accepted released rejected"
  using assms by (simp_all add: service_account_def)

lemma handle_account:
  assumes acc: "service_account s sent got accepted released rejected" and idle: "\<not> js_rejection_pending s"
    and run: "handle_message clock_ns now_ns n s = (r, s')"
  shows "\<exists>accepted' rejected'. service_account s' (if is_request n (js_request s) then add_mset (view_request (js_request s)) sent else sent)
    got accepted' released rejected'"
proof (cases "is_request n (js_request s)")
  case True
  then have "submit_request clock_ns now_ns s = (r, s')" "validate_request (js_request s) = PR_kSuccess"
    using run by (auto simp: is_request_def handle_message_def Let_def enum_simps)
  then show ?thesis using submit_account [OF acc idle] True by simp
next
  case False
  then obtain st b where "s' = s\<lparr>js_stats := st\<rparr> \<or> s' = s\<lparr>js_stopped := b\<rparr>"
    using run unfolding is_request_def handle_message_def Let_def by (auto split: if_splits)
  then show ?thesis using account_fields [OF acc] False by auto
qed

lemma poll_request_account:
  assumes acc: "service_account s sent got accepted released rejected" and idle: "\<not> js_rejection_pending s"
    and run: "poll_request clock_ns now_ns progress s = (r, s')"
  shows "\<exists>accepted' rejected'. service_account s' sent got accepted' released rejected'"
proof -
  obtain rq where rq: "js_requests s = Some rq" "ring_invar rq" "unat (rg_slot_bytes rq) \<le> 65656" and wf: "request_wf (js_request s)"
    using acc by (auto simp: service_account_def)
  have cleared: "(js_request s)\<lparr>jrq_envelope := default_envelope, jrq_metadata := empty_request_metadata\<rparr> = cleared (js_request s)"
    by (simp add: cleared_def)
  have wf': "request_wf (cleared (js_request s))" using wf by (simp add: cleared_def request_wf_def)
  have dig: "length (jd_model_digest (jrqm_descriptor (jrq_metadata (cleared (js_request s))))) = 16"
    by (simp add: cleared_def empty_request_metadata_def default_descriptor_def FE_MODEL_DIGEST_BYTES_def)
  obtain res n dest ring where pop: "ring_try_pop (request_image (cleared (js_request s))) (Some rq) = (res, n, dest, ring)"
    using prod_cases4 by blast
  note run' = run [unfolded poll_request_def Let_def cleared rq(1) pop prod.case]
  from rq(2) pop show ?thesis
  proof (cases rule: try_pop_cases)
    case kept
    let ?s = "s\<lparr>js_requests := ring, js_request := read_request dest\<rparr>"
    have "service_account ?s sent got accepted released rejected"
      using acc kept(2,3) rq wf' request_image_back [OF dig] by (simp add: service_account_def waiting_def)
    moreover have "s' = ?s" using run' kept(1) by auto
    ultimately show ?thesis by blast
  next
    case (popped r' bs)
    let ?s = "s\<lparr>js_requests := ring, js_request := read_request dest\<rparr>"
    have dest: "read_request dest = received_into (js_request s) bs" using popped(8) by (simp add: received_into_def)
    have len: "length bs \<le> 65656" using popped(6) rq(3) by simp
    note rec = received_request [OF wf len]
    let ?sent = "waiting ?s + accepted + image_mset fst rejected"
    have acc': "service_account ?s ?sent got accepted released rejected"
      using acc popped(2,3,5) rq rec(1) dest by (simp add: service_account_def)
    have h: "handle_message clock_ns now_ns n ?s = (r, s')" using run' popped(1) by simp
    have idle': "\<not> js_rejection_pending ?s" using idle by simp
    have q: "js_request ?s = received_into (js_request s) bs" using dest by simp
    obtain accepted' rejected' where a: "service_account s' (if is_request n (js_request ?s) then add_mset (view_request (js_request ?s)) ?sent else ?sent)
      got accepted' released rejected'" using handle_account [OF acc' idle' h] by blast
    have c: "carried bs = (if is_request n (js_request ?s) then {#view_request (js_request ?s)#} else {#})"
    proof (cases "is_request (length bs) (received_into (js_request s) bs)")
      case True
      then show ?thesis using rec(3) [OF True] by (simp add: q [simplified] popped(7) carried_def)
    next
      case False
      then have "wire_view bs = None" using rec(2) by (simp del: not_None_eq)
      then show ?thesis using False by (simp add: q [simplified] popped(7) carried_def)
    qed
    have "sent = waiting s + accepted + image_mset fst rejected" using acc by (simp add: service_account_def)
    also have "waiting s = carried bs + waiting ?s" using popped(2,4) rq(1) by (simp add: waiting_def)
    finally have eq: "sent = (if is_request n (js_request ?s) then add_mset (view_request (js_request ?s)) ?sent else ?sent)"
      unfolding c by simp
    show ?thesis using a [folded eq] by blast
  qed
qed

lemma poll_account:
  assumes acc: "service_account s sent got accepted released rejected" and run: "service_poll clock_ns now_ns s = (r, s')"
  shows "\<exists>accepted' released' rejected'. service_account s' sent got accepted' released' rejected'"
proof (cases "js_stopped s")
  case True
  then show ?thesis using assms by (auto simp: service_poll_def)
next
  case False
  obtain r1 g1 s1 where p1: "poll_rejection s = (r1, g1, s1)" using prod_cases3 by blast
  note a1 = poll_rejection_account [OF acc p1]
  obtain r2 g2 s2 where p2: "poll_result s1 = (r2, g2, s2)" using prod_cases3 by blast
  show ?thesis
  proof (cases r1)
    case (Some x)
    then show ?thesis using a1 run p1 False by (auto simp: service_poll_def)
  next
    case None
    with a1 p2 obtain released' where a2: "service_account s2 sent got accepted released' rejected" "\<not> js_rejection_pending s2"
      using poll_result_account by blast
    show ?thesis
    proof (cases r2)
      case (Some x)
      then show ?thesis using a2 run p1 p2 None False by (auto simp: service_poll_def)
    next
      case none: None
      then have "poll_request clock_ns now_ns (g1 \<or> g2) s2 = (r, s')" using run p1 p2 None False by (simp add: service_poll_def)
      then show ?thesis using poll_request_account [OF a2] by blast
    qed
  qed
qed

lemma history_account:
  assumes "service_history s sent got"
  shows "\<exists>accepted released rejected. service_account s sent got accepted released rejected"
  using assms
proof (induction rule: service_history.induct)
  case (sh_init p requests results)
  then have "service_account (make_service requests results p) {#} {#} {#} {#} {#}"
    using ph_init by (auto simp: service_account_def make_service_def waiting_def outgoing_def default_request_def default_result_def
        request_wf_def result_wf_def sizeof_JobRequestMessage_def)
  then show ?case by blast
next
  case (sh_send s sent got bs ring)
  then obtain accepted released rejected rq where a: "service_account s sent got accepted released rejected"
    and rq: "js_requests s = Some rq" "ring_invar rq" "unat (rg_slot_bytes rq) \<le> 65656" by (auto simp: service_account_def)
  from rq(2) sh_send.hyps(2) [unfolded rq(1)]
  have "service_account (s\<lparr>js_requests := ring\<rparr>) (sent + carried bs) got accepted released rejected"
  proof (cases rule: try_push_cases)
    case (pushed r')
    then show ?thesis using a rq by (auto simp: service_account_def waiting_def outgoing_def)
  qed simp
  then show ?case by blast
next
  case (sh_take s sent got dest n dest' ring)
  then obtain accepted released rejected rs where a: "service_account s sent got accepted released rejected"
    and rs: "js_results s = Some rs" "ring_invar rs" by (auto simp: service_account_def)
  from rs(2) sh_take.hyps(2) [unfolded rs(1)]
  have "service_account (s\<lparr>js_results := ring\<rparr>) sent (add_mset (take n dest') got) accepted released rejected"
  proof (cases rule: try_pop_cases)
    case (popped r' bs)
    then show ?thesis using a rs by (auto simp: service_account_def waiting_def outgoing_def blit_def)
  qed auto
  then show ?case by blast
next
  case (sh_pool s sent got p)
  then obtain accepted released rejected where a: "service_account s sent got accepted released rejected" by blast
  then have "service_account (s\<lparr>js_pool := p\<rparr>) sent got accepted released rejected"
    using ph_quiet sh_pool.hyps(2) by (auto simp: service_account_def waiting_def outgoing_def)
  then show ?case by blast
next
  case (sh_poll s sent got clock_ns now_ns r s')
  then show ?case using poll_account by blast
qed

section \<open>Properties\<close>

text \<open>
  C2: Every request that reaches the service is answered exactly once. Over any interleaving of
  clients that send messages, valid or not, clients that take results, workers and other coordinator
  calls on the pool, and polls, the requests sent are exactly those that wait in the request ring, those
  pending in the pool and those answered; the byte strings the clients took, those in the result
  ring and the rejection still to be published are exactly the answers, one for each; and every
  answer is valid and carries its request's descriptor, sequence number and service class. A full
  result ring loses or repeats no answer.
\<close>

theorem service_answers_every_request:
  assumes "service_history s sent got"
  shows "\<exists>answered. sent = waiting s + pending (js_pool s) + image_mset fst answered \<and>
    (\<forall>(v, m) \<in># answered. answers v m) \<and> got + outgoing s = image_mset (wire_bytes_result \<circ> snd) answered"
proof -
  obtain accepted released rejected where a: "service_account s sent got accepted released rejected"
    using history_account [OF assms] by blast
  then have "accepted = pending (js_pool s) + image_mset fst released \<and> (\<forall>(v, m) \<in># released. answers v m)"
    by (intro pool_history_conserves) (simp add: service_account_def)
  with a show ?thesis
    by (intro exI [of _ "released + rejected"]) (auto simp: service_account_def ac_simps)
qed

definition demo_config :: RingConfig where "demo_config = \<lparr>rc_capacity = 2, rc_slot_bytes = 256\<rparr>"

lemma demo_config_ok: "ring_invar (format_ring demo_config)" "ring_contents (format_ring demo_config) = []"
  "rg_slot_bytes (format_ring demo_config) = 256" "ring_used (format_ring demo_config) = 0" "rg_capacity (format_ring demo_config) = 2"
proof -
  have "has_single_bit 2" unfolding has_single_bit_def list_ex_iff by (rule bexI [of _ 1]) simp_all
  then have "required_bytes demo_config \<noteq> 0"
    by (simp add: demo_config_def required_bytes_def Let_def slot_stride_def align_up_def kAlignment_def
        sizeof_SlotHeader_def sizeof_RingHeader_def)
  then show "ring_invar (format_ring demo_config)" "ring_contents (format_ring demo_config) = []" by (rule format_ring_invar)+
  show "rg_slot_bytes (format_ring demo_config) = 256" "ring_used (format_ring demo_config) = 0" "rg_capacity (format_ring demo_config) = 2"
    by (simp_all add: format_ring_def demo_config_def ring_used_def)
qed

theorem service_answers_every_request_witness:
  "\<exists>s :: nat JobService. service_history s {#view_request count_request#} {#} \<and>
     waiting s + pending (js_pool s) = {#view_request count_request#} \<and> outgoing s = {#}"
proof -
  let ?r = "format_ring demo_config" and ?bs = "wire_bytes_request count_request"
  let ?s = "make_service ?r ?r demo_pool"
  have "length (jd_model_digest (jrqm_descriptor (jrq_metadata count_request))) = 16"
    by (simp add: count_request_ok(2)) (simp add: count_descriptor_def)
  note wv = wire_view_request [OF count_request_ok(1,4) this]
  have len: "length ?bs = 120" using wv(2) by (simp add: wire_size_request_def count_request_ok wire_simps)
  have init: "service_history ?s {#} {#}"
    using demo_config_ok by (intro sh_init demo_pool_init) (simp_all add: sizeof_JobRequestMessage_def)
  obtain ring where push: "ring_try_push ?bs (js_requests ?s) = (RR_kSuccess, ring)"
    using ring_try_push_eq [of ?bs ?r] len demo_config_ok by (simp add: make_service_def)
  have hist: "service_history (?s\<lparr>js_requests := ring\<rparr>) {#view_request count_request#} {#}"
    using sh_send [OF init push] wv(1) by (simp add: carried_def)
  have out: "outgoing (?s\<lparr>js_requests := ring\<rparr>) = {#}" by (simp add: outgoing_def make_service_def demo_config_ok)
  show ?thesis
    using service_answers_every_request [OF hist] out hist by (intro exI [of _ "?s\<lparr>js_requests := ring\<rparr>"]) auto
qed

end
