(* ===== verification/Job_Control_Correct.thy ===== *)
theory Job_Control_Correct
  imports Job_Clients Job_Service_Correct
begin

text \<open>
  The operator's protocol from end to end: a control client and the control service over their two
  rings, with the pool they govern working in between. Every request is answered in order by one
  valid response of its own.
\<close>

section \<open>Definitions\<close>

definition control_answers :: "JobControlRequest \<Rightarrow> JobControlResponse \<Rightarrow> bool" where
  "control_answers q r \<longleftrightarrow> validate_control_response r = PR_kSuccess \<and>
     me_sequence (jcr_envelope r) = me_sequence (jcq_envelope q) \<and> me_session_id (jcr_envelope r) = me_session_id (jcq_envelope q) \<and>
     jcrm_operation (jcr_metadata r) = jcqm_operation (jcq_metadata q) \<and>
     jcrm_worker_index (jcr_metadata r) = jcqm_worker_index (jcq_metadata q)"

text \<open>The request a byte string carries, if any; the requests that wait, and the responses on their way.\<close>

definition control_carried :: "byte list \<Rightarrow> JobControlRequest list" where
  "control_carried bs =
     (let q = read_control_request bs
      in if length bs = sizeof_JobControlRequest \<and> validate_control_request q = PR_kSuccess then [q] else [])"

definition control_waiting :: "JobControlService \<Rightarrow> JobControlRequest list" where
  "control_waiting s = concat (map control_carried (ring_contents (the (jcv_requests s))))"

definition control_outgoing :: "JobControlService \<Rightarrow> byte list list" where
  "control_outgoing s = ring_contents (the (jcv_responses s)) @
     (if jcv_response_pending s then [control_response_image (jcv_response s)] else [])"

text \<open>The client of the rings the service has mapped.\<close>

definition client_of :: "JobControlService \<Rightarrow> JobControlClient" where
  "client_of s = \<lparr>jcc_requests = jcv_requests s, jcc_responses = jcv_responses s\<rparr>"

text \<open>
  Runs: the client submits and receives, somebody puts arbitrary bytes into the request ring, the
  pool works, the service polls. \<open>sent\<close> are the requests put into the ring, \<open>got\<close> the responses received.
\<close>

inductive control_history :: "JobControlService \<Rightarrow> 'b JobWorkerPool \<Rightarrow> JobControlRequest list \<Rightarrow> JobControlResponse list \<Rightarrow> bool" where
  ch_init: "reach pool_init pool_step p \<Longrightarrow> length (jp_slots p) \<le> 8 \<Longrightarrow> ring_invar requests \<Longrightarrow> ring_contents requests = [] \<Longrightarrow>
    ring_invar responses \<Longrightarrow> ring_contents responses = [] \<Longrightarrow> control_history (make_control_service requests responses) p [] []"
| ch_submit: "control_history s p sent got \<Longrightarrow> control_client_submit q (client_of s) = (r, c) \<Longrightarrow>
    control_history (s\<lparr>jcv_requests := jcc_requests c\<rparr>) p (if r = CR_kSuccess then sent @ [q] else sent) got"
| ch_receive: "control_history s p sent got \<Longrightarrow> control_client_receive (client_of s) = (r, m, c) \<Longrightarrow>
    control_history (s\<lparr>jcv_responses := jcc_responses c\<rparr>) p sent (if r = CR_kSuccess then got @ [m] else got)"
| ch_noise: "control_history s p sent got \<Longrightarrow> ring_try_push bs (jcv_requests s) = (RR_kSuccess, ring) \<Longrightarrow>
    control_history (s\<lparr>jcv_requests := ring\<rparr>) p (sent @ control_carried bs) got"
| ch_pool: "control_history s p sent got \<Longrightarrow> pool_step p p' \<Longrightarrow> control_history s p' sent got"
| ch_poll: "control_history s p sent got \<Longrightarrow> control_poll stats s p = (r, s', p') \<Longrightarrow> control_history s' p' sent got"

definition shutdown_request :: "JobControlRequest \<Rightarrow> bool" where
  "shutdown_request q \<longleftrightarrow> jcqm_operation (jcq_metadata q) = ControlOp_kShutdown"

definition control_account ::
  "JobControlService \<Rightarrow> 'b JobWorkerPool \<Rightarrow> JobControlRequest list \<Rightarrow> JobControlResponse list
    \<Rightarrow> JobControlRequest list \<Rightarrow> JobControlResponse list \<Rightarrow> bool" where
  "control_account s p sent got handled on_way \<longleftrightarrow>
     reach pool_init pool_step p \<and> length (jp_slots p) \<le> 8 \<and>
     (\<exists>rq. jcv_requests s = Some rq \<and> ring_invar rq) \<and> (\<exists>rs. jcv_responses s = Some rs \<and> ring_invar rs) \<and>
     sent = handled @ control_waiting s \<and> list_all2 control_answers handled (got @ on_way) \<and>
     control_outgoing s = map control_response_image on_way \<and>
     (jcv_stop_after_publish s \<longrightarrow> handled \<noteq> [] \<and> shutdown_request (last handled) \<and> jcv_response_pending s \<noteq> jcv_stopped s) \<and>
     (jcv_stopped s \<longrightarrow> jcv_stop_after_publish s)"

section \<open>Lemmas\<close>

subsection \<open>The status\<close>

lemma bit_flag_mask: "bit (flag_mask flag n) i \<longleftrightarrow> i < n \<and> i < 32 \<and> flag i"
proof (induction n)
  case 0
  then show ?case by (simp add: flag_mask_def)
next
  case (Suc n)
  have "flag_mask flag (Suc n) = (if flag n then flag_mask flag n OR push_bit n 1 else flag_mask flag n)" by (simp add: flag_mask_def)
  then show ?case using Suc by (auto simp: bit_or_iff bit_exp_iff less_Suc_eq)
qed

lemma flag_mask_subset: "(\<And>i. i < n \<Longrightarrow> f i \<Longrightarrow> g i) \<Longrightarrow> flag_mask f n AND NOT (flag_mask g n) = 0"
  by (rule bit_eqI) (auto simp: bit_and_iff bit_not_iff bit_flag_mask)

lemma flag_mask_bounded: "n \<le> 8 \<Longrightarrow> flag_mask f n AND NOT (worker_mask (of_nat n)) = 0"
  by (rule bit_eqI) (auto simp: bit_and_iff bit_not_iff bit_flag_mask worker_mask_bit)

lemma and_not_or: "(a OR b) AND NOT m = (a AND NOT m) OR (b AND NOT m)" for a b m :: "'a::len word"
  by (rule bit_eqI) (auto simp: bit_and_iff bit_or_iff bit_not_iff)

lemma small_u32: "m \<le> n \<Longrightarrow> n \<le> 8 \<Longrightarrow> (of_nat m :: u32) \<le> of_nat n"
  by (simp add: word_le_nat_alt unat_of_nat)

lemma capture_status_valid:
  assumes inv: "pool_inv p" and n: "length (jp_slots p) \<le> 8"
  shows "let s = capture_status stats p in jcs_worker_count s \<le> kMaxJobControlWorkers \<and> jcs_accepting_workers s \<le> jcs_worker_count s \<and>
    jcs_busy_workers s \<le> jcs_worker_count s \<and>
    (jcs_draining_mask s OR jcs_drained_mask s OR jcs_bound_mask s OR jcs_quarantined_mask s) AND NOT (worker_mask (jcs_worker_count s)) = 0 \<and>
    jcs_drained_mask s AND NOT (jcs_draining_mask s) = 0 \<and> jcs_quarantined_mask s AND NOT (jcs_draining_mask s) = 0"
proof -
  have slot: "slot_ok (jp_slots p ! i)" if "i < length (jp_slots p)" for i using pool_inv_slot(1) [OF inv that] .
  have "flag_mask (\<lambda>i. worker_drained i p) (length (jp_slots p)) AND NOT (flag_mask (\<lambda>i. worker_draining i p) (length (jp_slots p))) = 0"
    "flag_mask (\<lambda>i. worker_quarantined i p) (length (jp_slots p)) AND NOT (flag_mask (\<lambda>i. worker_draining i p) (length (jp_slots p))) = 0"
    using slot by (auto intro!: flag_mask_subset simp: worker_drained_def worker_quarantined_def worker_draining_def slot_ok_def)
  moreover have "(of_nat (length (jp_slots p)) :: u32) \<le> kMaxJobControlWorkers"
    using n by (simp add: kMaxJobControlWorkers_def word_le_nat_alt unat_of_nat)
  ultimately show ?thesis
    using n by (simp add: capture_status_def Let_def and_not_or flag_mask_bounded small_u32 accepting_worker_count_def pool_busy_count_def)
qed

lemma apply_operation_code:
  assumes "apply_operation q p = (code, p')"
  shows "valid_job_control_code code"
  using assms
  by (auto simp: apply_operation_def Let_def valid_job_control_code_def enum_simps word_le_nat_alt map_drain_result_def map_recovery_result_def
      split: if_splits prod.splits WorkerDrainResult.splits WorkerRecoveryResult.splits)

lemma apply_operation_pool:
  assumes "apply_operation q p = (code, p')"
  shows "p' = p \<or> pool_step p p'"
proof -
  have "p' = p \<or> pool_quiet p p'"
    using assms pq_drain [of p "unat (jcqm_worker_index (jcq_metadata q))"] pq_resume [of p "unat (jcqm_worker_index (jcq_metadata q))"]
      pq_recover [of p "unat (jcqm_worker_index (jcq_metadata q))"]
    by (auto simp: apply_operation_def Let_def split: if_splits prod.splits)
  then show ?thesis using ps_quiet by blast
qed

lemma pool_lanes_kept:
  assumes "reach pool_init pool_step p" "length (jp_slots p) \<le> 8" "p' = p \<or> pool_step p p'"
  shows "reach pool_init pool_step p'" "length (jp_slots p') \<le> 8"
  using assms pool_step_lanes [OF _ pool_machine.reach_inv [OF assms(1)]] reach_step by auto

lemma build_response_answers:
  assumes valid: "validate_control_request q = PR_kSuccess" and pool: "reach pool_init pool_step p" "length (jp_slots p) \<le> 8"
    and run: "build_response stats q s p = (s', p')"
  shows "control_answers q (jcv_response s')" "reach pool_init pool_step p'" "length (jp_slots p') \<le> 8"
    "s' = s\<lparr>jcv_response := jcv_response s', jcv_stop_after_publish := (shutdown_request q \<or> jcv_stop_after_publish s)\<rparr>"
proof -
  obtain code where op: "apply_operation q p = (code, p')" using run by (auto simp: build_response_def Let_def split: prod.splits)
  show p': "reach pool_init pool_step p'" "length (jp_slots p') \<le> 8"
    using pool_lanes_kept [OF pool apply_operation_pool [OF op]] by simp_all
  show "s' = s\<lparr>jcv_response := jcv_response s', jcv_stop_after_publish := (shutdown_request q \<or> jcv_stop_after_publish s)\<rparr>"
    using run op by (auto simp: build_response_def Let_def shutdown_request_def)
  have q: "valid_job_control_operation (jcqm_operation (jcq_metadata q))"
    "valid_worker_target (jcqm_operation (jcq_metadata q)) (jcqm_worker_index (jcq_metadata q))"
    using valid by (auto simp: validate_control_request_def split: if_splits)
  let ?r = default_control_response
  have r: "jcv_response s' = ?r\<lparr>jcr_envelope := (jcr_envelope ?r)\<lparr>me_struct_size := of_nat sizeof_JobControlResponse,
        me_sequence := me_sequence (jcq_envelope q), me_session_id := me_session_id (jcq_envelope q)\<rparr>,
      jcr_metadata := (jcr_metadata ?r)\<lparr>jcrm_operation := jcqm_operation (jcq_metadata q),
        jcrm_worker_index := jcqm_worker_index (jcq_metadata q), jcrm_code := code, jcrm_status := capture_status stats p'\<rparr>\<rparr>"
    using run op by (auto simp: build_response_def Let_def)
  have status: "jcrm_status (jcr_metadata (jcv_response s')) = capture_status stats p'" by (simp add: r)
  have env: "valid_envelope (jcr_envelope (jcv_response s')) MessageKind_kJobControlResponse sizeof_JobControlResponse"
    by (simp add: r valid_envelope_def default_control_response_def default_envelope_def wire_simps)
  note cap = capture_status_valid [OF pool_machine.reach_inv [OF p'(1)] p'(2), of stats, unfolded Let_def, folded status]
  have "validate_control_response (jcv_response s') = PR_kSuccess"
    unfolding validate_control_response_def Let_def
    using env cap q apply_operation_code [OF op]
    by (simp add: not_le [symmetric]) (simp add: r default_control_response_def wire_simps)
  then show "control_answers q (jcv_response s')" by (simp add: control_answers_def r)
qed

subsection \<open>The account\<close>

lemma control_carried_image: "validate_control_request q = PR_kSuccess \<Longrightarrow> control_carried (control_request_image q) = [q]"
  by (simp add: control_carried_def control_request_image_back wire_simps)

lemma control_outgoing_requests [simp]: "control_outgoing (s\<lparr>jcv_requests := ring\<rparr>) = control_outgoing s"
  by (simp add: control_outgoing_def)

lemma publish_pending_account:
  assumes acc: "control_account s p sent got handled on_way" and pend: "jcv_response_pending s" "\<not> jcv_stopped s"
    and run: "publish_pending s = (r, s')"
  shows "control_account s' p sent got handled on_way"
proof -
  obtain rs where rs: "jcv_responses s = Some rs" "ring_invar rs" using acc by (auto simp: control_account_def)
  obtain res ring where push: "ring_try_push (control_response_image (jcv_response s)) (Some rs) = (res, ring)" by fastforce
  from rs(2) push show ?thesis
  proof (cases rule: try_push_cases)
    case (pushed r')
    then have "s' = s\<lparr>jcv_responses := Some r', jcv_response_pending := False, jcv_stopped := jcv_stop_after_publish s\<rparr>"
      using run push rs(1) pend(2) by (auto simp: publish_pending_def Let_def)
    then show ?thesis
      using acc pushed(3,4) rs(1) pend by (auto simp: control_account_def control_outgoing_def control_waiting_def)
  next
    case refused
    then have "s' = s" using run push rs(1) by (auto simp: publish_pending_def split: RingResult.splits)
    then show ?thesis using acc by simp
  qed
qed

lemma control_poll_account:
  assumes acc: "control_account s p sent got handled on_way" and run: "control_poll stats s p = (r, s', p')"
  shows "\<exists>handled' on_way'. control_account s' p' sent got handled' on_way'"
proof -
  obtain rq where rq: "jcv_requests s = Some rq" "ring_invar rq" using acc by (auto simp: control_account_def)
  let ?dest = "control_request_image default_control_request"
  obtain res n dest ring where pop: "ring_try_pop ?dest (Some rq) = (res, n, dest, ring)" using prod_cases4 by blast
  let ?s = "s\<lparr>jcv_requests := ring, jcv_request := read_control_request dest\<rparr>"
  consider "jcv_stopped s" | "\<not> jcv_stopped s" "jcv_response_pending s" | "\<not> jcv_stopped s" "\<not> jcv_response_pending s" by blast
  then show ?thesis
  proof cases
    case 1
    then show ?thesis using assms by (auto simp: control_poll_def)
  next
    case 2
    then obtain s1 where "publish_pending s = (r, s1)" "s' = s1" "p' = p" using run by (auto simp: control_poll_def split: prod.splits)
    then show ?thesis using publish_pending_account [OF acc 2(2,1)] by blast
  next
    case 3
    note run' = run [unfolded control_poll_def Let_def rq(1) pop prod.case]
    from rq(2) pop show ?thesis
    proof (cases rule: try_pop_cases)
      case kept
      then have "s' = ?s" "p' = p" using run' 3 by auto
      then show ?thesis using acc kept(2) rq by (auto simp: control_account_def control_waiting_def control_outgoing_def)
    next
      case (popped r' bs)
      have wait: "control_waiting s = control_carried bs @ control_waiting ?s"
        using popped(2,4) rq(1) by (simp add: control_waiting_def)
      have out: "control_outgoing ?s = control_outgoing s" by (simp add: control_outgoing_def)
      show ?thesis
      proof (cases "control_carried bs")
        case Nil
        have "n \<noteq> sizeof_JobControlRequest \<or> validate_control_request (read_control_request dest) \<noteq> PR_kSuccess"
          using Nil popped(7,8) by (auto simp: control_carried_def Let_def blit_def wire_simps split: if_splits)
        then have "s' = ?s" "p' = p" using run' 3 popped(1) by (auto split: if_splits)
        then have "control_account s' p' sent got handled on_way"
          using acc popped(2,3) wait out Nil by (auto simp: control_account_def)
        then show ?thesis by blast
      next
        case (Cons q qs)
        then have q: "qs = []" "q = read_control_request bs" "length bs = sizeof_JobControlRequest" "validate_control_request q = PR_kSuccess"
          by (auto simp: control_carried_def Let_def split: if_splits)
        have dest: "read_control_request dest = q" using popped(8) q(2,3) by (simp add: blit_def wire_simps)
        obtain s2 p2 where build: "build_response stats q ?s p = (s2, p2)" by fastforce
        have pool: "reach pool_init pool_step p" "length (jp_slots p) \<le> 8" using acc by (simp_all add: control_account_def)
        note b = build_response_answers [OF q(4) pool build]
        let ?s2 = "s2\<lparr>jcv_response_pending := True\<rparr>"
        have pub: "publish_pending ?s2 = (r, s')" "p' = p2"
          using run' 3 popped(1,7) q(3,4) build by (auto simp: dest split: prod.splits)
        have f: "jcv_requests s2 = ring" "jcv_responses s2 = jcv_responses s" "jcv_stopped s2 = jcv_stopped s"
          "jcv_stop_after_publish s2 = (shutdown_request q \<or> jcv_stop_after_publish s)"
          by (subst b(4), simp)+
        have stop: "\<not> jcv_stop_after_publish s" using acc 3 by (auto simp: control_account_def)
        have "control_waiting ?s2 = control_waiting ?s" by (simp add: control_waiting_def f(1))
        moreover have "control_outgoing ?s2 = control_outgoing s @ [control_response_image (jcv_response s2)]"
          using 3 by (simp add: control_outgoing_def f(2))
        moreover have "list_all2 control_answers (handled @ [q]) (got @ on_way @ [jcv_response s2])"
          using acc b(1) by (simp add: control_account_def list_all2_appendI append_assoc [symmetric] del: append_assoc)
        ultimately have "control_account ?s2 p2 sent got (handled @ [q]) (on_way @ [jcv_response s2])"
          using acc b(2,3) f popped(2,3) wait Cons q(1) stop 3 by (auto simp: control_account_def)
        then have "control_account s' p2 sent got (handled @ [q]) (on_way @ [jcv_response s2])"
          by (rule publish_pending_account [OF _ _ _ pub(1)]) (use f(3) 3 in simp_all)
        then show ?thesis using pub(2) by blast
      qed
    qed
  qed
qed

lemma client_receive_account:
  assumes acc: "control_account s p sent got handled on_way" and run: "control_client_receive (client_of s) = (r, m, c)"
  shows "\<exists>on_way'. control_account (s\<lparr>jcv_responses := jcc_responses c\<rparr>) p sent (if r = CR_kSuccess then got @ [m] else got) handled on_way'"
    "r = CR_kSuccess \<or> r = CR_kEmpty"
proof -
  obtain rs where rs: "jcv_responses s = Some rs" "ring_invar rs" using acc by (auto simp: control_account_def)
  let ?dest = "control_response_image default_control_response"
  obtain res n dest ring where pop: "ring_try_pop ?dest (Some rs) = (res, n, dest, ring)" using prod_cases4 by blast
  note run' = run [unfolded control_client_receive_def Let_def client_of_def JobControlClient.simps rs(1) pop prod.case]
  have out: "ring_contents rs @ (if jcv_response_pending s then [control_response_image (jcv_response s)] else []) = map control_response_image on_way"
    using acc rs(1) by (simp add: control_account_def control_outgoing_def)
  from rs(2) pop have "(\<exists>on_way'. control_account (s\<lparr>jcv_responses := jcc_responses c\<rparr>) p sent (if r = CR_kSuccess then got @ [m] else got) handled on_way')
    \<and> (r = CR_kSuccess \<or> r = CR_kEmpty)"
  proof (cases rule: try_pop_cases)
    case kept
    have "res = RR_kEmpty"
    proof (cases "ring_contents rs")
      case Nil
      then show ?thesis using pop ring_try_pop_eq [OF rs(2), of ?dest] by simp
    next
      case (Cons bs xs)
      then obtain a where "bs = control_response_image a" using out by (cases on_way) auto
      then show ?thesis using pop Cons ring_try_pop_eq [OF rs(2), of ?dest] kept(1) by simp
    qed
    then have r: "r = CR_kEmpty" "jcc_responses c = ring" using run' by (auto simp: map_control_ring_result_def)
    have "s\<lparr>jcv_responses := jcc_responses c\<rparr> = s" using r(2) kept(2) rs(1) by simp
    then show ?thesis using acc r(1) by auto
  next
    case (popped r' bs)
    then obtain a rest where a: "on_way = a # rest" "bs = control_response_image a"
        "ring_contents r' @ (if jcv_response_pending s then [control_response_image (jcv_response s)] else []) = map control_response_image rest"
      using out by (cases on_way) auto
    have all: "list_all2 control_answers handled (got @ a # rest)" using acc a(1) by (simp add: control_account_def)
    then have "validate_control_response a = PR_kSuccess" by (auto simp: list_all2_append2 list_all2_Cons2 control_answers_def)
    moreover have dest: "dest = control_response_image a" using popped(8) a(2) by (simp add: blit_def)
    ultimately have r: "r = CR_kSuccess" "m = a" "jcc_responses c = ring"
      using run' popped(1,7) a(2) by (auto simp: control_response_image_back wire_simps)
    have "control_account (s\<lparr>jcv_responses := ring\<rparr>) p sent (got @ [a]) handled rest"
      using acc popped(2,3) a(3) all
      by (cases "jcv_response_pending s") (simp_all add: control_account_def control_outgoing_def control_waiting_def)
    then show ?thesis using r by auto
  qed
  then show "\<exists>on_way'. control_account (s\<lparr>jcv_responses := jcc_responses c\<rparr>) p sent (if r = CR_kSuccess then got @ [m] else got) handled on_way'"
    "r = CR_kSuccess \<or> r = CR_kEmpty" by blast+
qed

lemma control_send_account:
  assumes acc: "control_account s p sent got handled on_way" and push: "ring_try_push bs (jcv_requests s) = (res, ring)"
  shows "control_account (s\<lparr>jcv_requests := ring\<rparr>) p (if res = RR_kSuccess then sent @ control_carried bs else sent) got handled on_way"
proof -
  obtain rq where rq: "jcv_requests s = Some rq" "ring_invar rq" using acc by (auto simp: control_account_def)
  from rq(2) push [unfolded rq(1)] show ?thesis
  proof (cases rule: try_push_cases)
    case (pushed r')
    then show ?thesis using acc rq(1) by (simp add: control_account_def control_waiting_def)
  next
    case refused
    then have "s\<lparr>jcv_requests := ring\<rparr> = s" using rq(1) by simp
    then show ?thesis using acc refused(1) by simp
  qed
qed

lemma control_history_account: "control_history s p sent got \<Longrightarrow> \<exists>handled on_way. control_account s p sent got handled on_way"
proof (induction rule: control_history.induct)
  case (ch_init p requests responses)
  then have "control_account (make_control_service requests responses) p [] [] [] []"
    by (simp add: control_account_def make_control_service_def control_waiting_def control_outgoing_def)
  then show ?case by blast
next
  case (ch_submit s p sent got q r c)
  then obtain handled on_way where a: "control_account s p sent got handled on_way" by blast
  show ?case
  proof (cases "validate_control_request q = PR_kSuccess")
    case False
    then have "r = CR_kInvalidRequest" "s\<lparr>jcv_requests := jcc_requests c\<rparr> = s"
      using ch_submit.hyps(2) by (auto simp: control_client_submit_def client_of_def)
    then show ?thesis using a by auto
  next
    case True
    obtain res ring where push: "ring_try_push (control_request_image q) (jcv_requests s) = (res, ring)" by fastforce
    then have "r = map_control_ring_result res" "jcc_requests c = ring"
      using ch_submit.hyps(2) True by (auto simp: control_client_submit_def client_of_def)
    moreover have "map_control_ring_result res = CR_kSuccess \<longleftrightarrow> res = RR_kSuccess" by (cases res) (simp_all add: map_control_ring_result_def)
    ultimately have "control_account (s\<lparr>jcv_requests := jcc_requests c\<rparr>) p (if r = CR_kSuccess then sent @ [q] else sent) got handled on_way"
      using control_send_account [OF a push] True control_carried_image by (cases "res = RR_kSuccess") simp_all
    then show ?thesis by blast
  qed
next
  case (ch_receive s p sent got r m c)
  then show ?case using client_receive_account(1) by blast
next
  case (ch_noise s p sent got bs ring)
  then obtain handled on_way where "control_account s p sent got handled on_way" by blast
  from control_send_account [OF this ch_noise.hyps(2)] show ?case by auto
next
  case (ch_pool s p sent got p')
  then obtain handled on_way where a: "control_account s p sent got handled on_way" by blast
  then have "reach pool_init pool_step p'" "length (jp_slots p') \<le> 8"
    using pool_lanes_kept [of p p'] ch_pool.hyps(2) by (auto simp: control_account_def)
  then show ?case using a by (auto simp: control_account_def)
next
  case (ch_poll s p sent got stats r s' p')
  then show ?case using control_poll_account by blast
qed

section \<open>Properties\<close>

text \<open>
  C3: The operator's requests are answered in order. For a pool of at most eight lanes, and over any
  interleaving of the client, the service, the working pool and foreign messages in the request
  ring, the requests sent are those handled followed by those that wait; the responses received and
  those on their way answer the handled requests one by one, each valid, with its request's
  sequence number, session, operation and worker; the client never finds a response corrupt; and
  once the service has stopped, the last request it handled is the shutdown, whose response has been
  published.
\<close>

theorem control_answers_in_order:
  assumes "control_history s p sent got"
  shows "\<exists>handled on_way. sent = handled @ control_waiting s \<and> list_all2 control_answers handled (got @ on_way) \<and>
    control_outgoing s = map control_response_image on_way \<and>
    fst (control_client_receive (client_of s)) \<in> {CR_kSuccess, CR_kEmpty} \<and>
    (jcv_stopped s \<longrightarrow> handled \<noteq> [] \<and> shutdown_request (last handled) \<and> \<not> jcv_response_pending s)"
proof -
  obtain handled on_way where a: "control_account s p sent got handled on_way" using control_history_account [OF assms] by blast
  obtain r m c where run: "control_client_receive (client_of s) = (r, m, c)" using prod_cases3 by blast
  show ?thesis
    using a client_receive_account(2) [OF a run] run
    by (intro exI [of _ handled] exI [of _ on_way]) (auto simp: control_account_def)
qed

theorem control_answers_in_order_witness:
  "\<exists>s. control_history s demo_pool [make_job_control_request 7 1 ControlOp_kStatus kAllJobWorkers] [] \<and>
     (\<exists>handled on_way. [make_job_control_request 7 1 ControlOp_kStatus kAllJobWorkers] = handled @ control_waiting s \<and>
       list_all2 control_answers handled on_way)"
proof -
  let ?r = "format_ring demo_config" and ?q = "make_job_control_request 7 1 ControlOp_kStatus kAllJobWorkers"
  let ?s = "make_control_service ?r ?r"
  have init: "control_history ?s demo_pool [] []"
    using demo_config_ok by (intro ch_init demo_pool_reach) (simp_all add: demo_pool_sel)
  have valid: "validate_control_request ?q = PR_kSuccess"
    by (simp add: make_job_control_request_def validate_control_request_def valid_envelope_def default_control_request_def default_envelope_def
        wire_simps valid_job_control_operation_def valid_worker_target_def requires_worker_def enum_simps word_le_nat_alt)
  obtain ring where push: "ring_try_push (control_request_image ?q) (jcv_requests ?s) = (RR_kSuccess, ring)"
    using ring_try_push_eq [of "control_request_image ?q" ?r] demo_config_ok by (simp add: make_control_service_def)
  have "control_history (?s\<lparr>jcv_requests := ring\<rparr>) demo_pool [?q] []"
    using ch_noise [OF init push] control_carried_image [OF valid] by simp
  with control_answers_in_order [OF this] show ?thesis by auto
qed

end
