(* ===== verification/Float_Image.thy ===== *)
theory Float_Image
  imports FE_Rounding Byte_Codec
begin

text \<open>
  The 32-bit pattern of a \<open>float\<close> (IEEE binary32) and the value of a pattern. The type \<open>fp\<close> has one
  zero and one NaN, so \<open>float_bits\<close> gives the pattern of +0 and of the default quiet NaN for them.
\<close>

section \<open>Definitions\<close>

definition magnitude_bits :: "rat \<Rightarrow> int" where
  "magnitude_bits x = (let u = ulp_exp 24 (-126) x in (u + 149) * 2 ^ 23 + \<lfloor>x / 2 powi u\<rfloor>)"

fun float_bits :: "fp \<Rightarrow> u32" where
  "float_bits (Fin x) = (if x = 0 then 0 else if x < 0 then 0x80000000 + of_int (magnitude_bits (- x)) else of_int (magnitude_bits x))"
| "float_bits (Inf negative) = (if negative then 0xFF800000 else 0x7F800000)"
| "float_bits NaN = 0x7FC00000"

definition bits_float :: "u32 \<Rightarrow> fp" where
  "bits_float w =
     (let n = unat w; negative = (2 ^ 31 \<le> n); e = (n mod 2 ^ 31) div 2 ^ 23; m = n mod 2 ^ 23
      in if e = 255 then (if m = 0 then Inf negative else NaN)
         else let x = (if e = 0 then of_nat m * 2 powi (-149) else of_nat (m + 2 ^ 23) * 2 powi (int e - 150))
              in Fin (if negative then - x else x))"

text \<open>An array of floats in memory.\<close>

definition floats_image :: "fp list \<Rightarrow> byte list" where
  "floats_image xs = concat (map (\<lambda>x. le_bytes (float_bits x)) xs)"

definition read_floats :: "nat \<Rightarrow> byte list \<Rightarrow> fp list" where
  "read_floats n bs = map (\<lambda>i. bits_float (read_le bs (4 * i))) [0 ..< n]"

section \<open>Lemmas\<close>

text \<open>A positive number of the format: its significand and the exponent of its last place.\<close>

lemma float_magnitude:
  assumes pos: "0 < x" and float: "round32 x = Fin x"
  obtains u k where "- 149 \<le> u" "u \<le> 104" "0 \<le> k" "k < 2 ^ 24" "u = - 149 \<or> 2 ^ 23 \<le> k" "x = of_int k * 2 powi u"
    "magnitude_bits x = (u + 149) * 2 ^ 23 + k"
proof -
  let ?u = "ulp_exp 24 (-126) x"
  have fixed: "round_abs 24 (-126) x = x" and bound: "x < 2 powi 128"
    using float by (auto simp: round32_def round_fp_def Let_def split: if_splits)
  have "on_grid 24 (-126) x" using round_abs_fixed_pos [OF pos] fixed by blast
  then obtain k where k: "x / 2 powi ?u = of_int k" by (auto simp: on_grid_def elim: Ints_cases)
  then have x: "x = of_int k * 2 powi ?u" by (simp add: field_simps)
  note b = ilog2_bounds [OF pos]
  have "(2 powi ilog2 x :: rat) < 2 powi 128" using b bound by linarith
  then have l: "ilog2 x \<le> 127" unfolding powi_less_iff by simp
  have u: "- 149 \<le> ?u" "?u \<le> 104" using l by (simp_all add: ulp_exp_def)
  have k0: "0 \<le> k" using pos k by (metis divide_nonneg_pos less_imp_le of_int_0_le_iff power_int_not_zero zero_less_power_int zero_less_numeral)
  have "x < 2 powi (?u + 24)"
  proof -
    have "(2 powi (ilog2 x + 1) :: rat) \<le> 2 powi (?u + 24)" by (simp add: powi_le_iff ulp_exp_def)
    then show ?thesis using b by linarith
  qed
  then have "(of_int k :: rat) < 2 powi 24"
    unfolding powi_split k [symmetric] by (simp add: divide_less_eq mult.commute)
  then have "(of_int k :: rat) < of_int (2 ^ 24)" by (simp add: power_int_def)
  then have k24: "k < 2 ^ 24" unfolding of_int_less_iff .
  have k23: "2 ^ 23 \<le> k" if "?u \<noteq> - 149"
  proof -
    have "?u = ilog2 x - 23" using that by (auto simp: ulp_exp_def max_def split: if_splits)
    then have "(2 powi (23 + ?u) :: rat) \<le> x" using b by simp
    then have "(2 powi 23 :: rat) \<le> of_int k" unfolding powi_split k [symmetric] by (simp add: le_divide_eq)
    then have "(of_int (2 ^ 23) :: rat) \<le> of_int k" by (simp add: power_int_def)
    then show ?thesis unfolding of_int_le_iff .
  qed
  have "magnitude_bits x = (?u + 149) * 2 ^ 23 + k" by (simp add: magnitude_bits_def Let_def k)
  with that u k0 k24 k23 x show thesis by blast
qed

lemma magnitude_range:
  assumes "0 < x" "round32 x = Fin x"
  shows "magnitude_bits x < 2 ^ 31" "0 \<le> magnitude_bits x"
proof -
  obtain u k where "- 149 \<le> u" "u \<le> 104" "0 \<le> k" "k < 2 ^ 24" "magnitude_bits x = (u + 149) * 2 ^ 23 + k"
    using float_magnitude [OF assms] by metis
  then show "magnitude_bits x < 2 ^ 31" "0 \<le> magnitude_bits x" by simp_all
qed

lemma magnitude_back:
  assumes x: "0 < x" "round32 x = Fin x" and n: "n mod 2 ^ 31 = nat (magnitude_bits x)"
  obtains e m where "e = (n mod 2 ^ 31) div 2 ^ 23" "m = n mod 2 ^ 23" "e \<noteq> 255"
    "x = (if e = 0 then of_nat m * 2 powi (-149) else of_nat (m + 2 ^ 23) * 2 powi (int e - 150))"
proof -
  obtain u k where uk: "- 149 \<le> u" "u \<le> 104" "0 \<le> k" "k < 2 ^ 24" "u = - 149 \<or> 2 ^ 23 \<le> k" "x = of_int k * 2 powi u"
    "magnitude_bits x = (u + 149) * 2 ^ 23 + k" using float_magnitude [OF x] .
  define N where "N = nat (magnitude_bits x)"
  have e: "(n mod 2 ^ 31) div 2 ^ 23 = N div 2 ^ 23" using n by (simp add: N_def)
  have "n mod 2 ^ 23 = n mod 2 ^ 31 mod 2 ^ 23" by (simp add: mod_mod_cancel)
  then have m: "n mod 2 ^ 23 = N mod 2 ^ 23" using n by (simp only: N_def)
  show thesis
  proof (cases "k < 2 ^ 23")
    case True
    then have u: "u = - 149" using uk(5) by linarith
    then have "N = nat k" by (simp add: N_def uk(7))
    moreover have "nat k < 2 ^ 23" using True uk(3) by (simp add: nat_less_iff)
    ultimately have "N div 2 ^ 23 = 0" "N mod 2 ^ 23 = nat k" by simp_all
    moreover have "x = of_nat (nat k) * 2 powi (-149)" using uk(3,6) u by simp
    ultimately show ?thesis using that [of 0 "nat k"] e m by simp
  next
    case False
    define f where "f = nat (u + 150)"
    define r where "r = nat (k - 2 ^ 23)"
    have r: "r < 2 ^ 23" using uk(4) False by (simp add: r_def nat_less_iff)
    have "int N = int (f * 2 ^ 23 + r)" using uk(1,3) False by (simp add: N_def uk(7) f_def r_def)
    then have N: "N = f * 2 ^ 23 + r" by linarith
    have div: "N div 2 ^ 23 = f" "N mod 2 ^ 23 = r" using r by (simp_all add: N)
    have f: "f \<noteq> 0" "f \<noteq> 255" using uk(1,2) by (simp_all add: f_def)
    have "int f - 150 = u" using uk(1) by (simp add: f_def)
    moreover have "(of_nat (r + 2 ^ 23) :: rat) = of_int k" using False by (simp add: r_def)
    ultimately have "x = of_nat (r + 2 ^ 23) * 2 powi (int f - 150)" using uk(6) by (simp only:)
    then show ?thesis using that [of f r] e m div f by (simp only: if_False simp_thms)
  qed
qed

lemma bits_float_parts:
  assumes "n = unat w" "e = (n mod 2 ^ 31) div 2 ^ 23" "m = n mod 2 ^ 23" "e \<noteq> 255"
    "x = (if e = 0 then of_nat m * 2 powi (-149) else of_nat (m + 2 ^ 23) * 2 powi (int e - 150))"
  shows "bits_float w = Fin (if 2 ^ 31 \<le> n then - x else x)"
  unfolding bits_float_def Let_def assms(1) [symmetric] assms(2) [symmetric] assms(3) [symmetric] assms(5) [symmetric]
  using assms(4) by (simp only: if_False)

lemma unat_of_int_small: "0 \<le> i \<Longrightarrow> i < 2 ^ 31 \<Longrightarrow> unat (of_int i :: u32) = nat i"
  by (simp add: unat_eq_nat_uint uint_word_of_int take_bit_int_eq_self)

lemma bits_float_bits: "is_float x \<Longrightarrow> bits_float (float_bits x) = x"
proof (cases x)
  case (Fin q)
  assume "is_float x"
  then have fl: "round32 q = Fin q" by (simp add: Fin)
  consider "q = 0" | "0 < q" | "0 < - q" by linarith
  then show ?thesis
  proof cases
    case 1
    then show ?thesis by (simp add: Fin bits_float_def Let_def)
  next
    case 2
    let ?b = "magnitude_bits q"
    note r = magnitude_range [OF 2 fl]
    have n: "unat (float_bits x) = nat ?b" using 2 unat_of_int_small [OF r(2,1)] by (simp add: Fin)
    have lt: "nat ?b < 2 ^ 31" using r by (simp add: nat_less_iff)
    then have mod: "nat ?b mod 2 ^ 31 = nat ?b" by simp
    obtain e m where em: "e = (nat ?b mod 2 ^ 31) div 2 ^ 23" "m = nat ?b mod 2 ^ 23" "e \<noteq> 255"
      "q = (if e = 0 then of_nat m * 2 powi (-149) else of_nat (m + 2 ^ 23) * 2 powi (int e - 150))"
      using magnitude_back [OF 2 fl mod] .
    have "bits_float (float_bits x) = Fin (if 2 ^ 31 \<le> nat ?b then - q else q)"
      by (rule bits_float_parts [OF n [symmetric] em])
    then show ?thesis using lt by (simp only: not_le [symmetric] if_False Fin)
  next
    case 3
    let ?b = "magnitude_bits (- q)"
    have "round_abs 24 (-126) (- q) = - round_abs 24 (-126) q" by (auto simp: round_abs_def)
    then have fl': "round32 (- q) = Fin (- q)" using fl by (auto simp: round32_def round_fp_def Let_def split: if_splits)
    note r = magnitude_range [OF 3 fl']
    have lt: "nat ?b < 2 ^ 31" using r by (simp add: nat_less_iff)
    have small: "unat (of_int ?b :: u32) = nat ?b" using unat_of_int_small [OF r(2,1)] .
    have "unat (0x80000000 + of_int ?b :: u32) = 2 ^ 31 + nat ?b"
      using lt by (simp add: unat_word_ariths small)
    then have n: "unat (float_bits x) = 2 ^ 31 + nat ?b" using 3 by (simp add: Fin)
    have mod: "(2 ^ 31 + nat ?b) mod 2 ^ 31 = nat ?b" using lt by simp
    obtain e m where em: "e = ((2 ^ 31 + nat ?b) mod 2 ^ 31) div 2 ^ 23" "m = (2 ^ 31 + nat ?b) mod 2 ^ 23" "e \<noteq> 255"
      "- q = (if e = 0 then of_nat m * 2 powi (-149) else of_nat (m + 2 ^ 23) * 2 powi (int e - 150))"
      using magnitude_back [OF 3 fl' mod] .
    have "bits_float (float_bits x) = Fin (if 2 ^ 31 \<le> 2 ^ 31 + nat ?b then - (- q) else - q)"
      by (rule bits_float_parts [OF n [symmetric] em])
    then show ?thesis by (simp only: le_add1 if_True minus_minus Fin)
  qed
qed (simp_all add: bits_float_def Let_def)

lemma length_floats_image [simp]: "length (floats_image xs) = 4 * length xs"
  by (induction xs) (simp_all add: floats_image_def)

lemma read_floats_image:
  assumes "\<forall>x \<in> set xs. is_float x"
  shows "read_floats (length xs) (floats_image xs @ ys) = xs"
  using assms
proof (induction xs)
  case Nil
  then show ?case by (simp add: read_floats_def)
next
  case (Cons x xs)
  have "floats_image (x # xs) @ ys = le_bytes (float_bits x) @ (floats_image xs @ ys)" by (simp add: floats_image_def)
  moreover have "read_floats (Suc n) (le_bytes (w :: u32) @ bs) = bits_float w # read_floats n bs" for n w bs
  proof -
    have "(read_le (le_bytes w @ bs) 0 :: u32) = w" by (rule read_le_le_bytes) simp_all
    moreover have "(read_le (le_bytes w @ bs) (4 + 4 * i) :: u32) = read_le bs (4 * i)" for i
      by (rule read_le_cong) (simp add: nth_append)
    ultimately show ?thesis unfolding read_floats_def upt_conv_Cons [OF zero_less_Suc] map_Suc_upt [symmetric] by simp
  qed
  ultimately show ?case using Cons by (simp add: bits_float_bits)
qed

end
