(* ===== verification/Message_Image.thy ===== *)
theory Message_Image
  imports Wire_Image Float_Image Job_Events
begin

text \<open>
  The memory images of the messages with floats and of the events (relay/protocol/messages.h,
  job\_events.h): conditions and actions travel as the used part of their objects, events as whole
  objects.
\<close>

section \<open>Definitions\<close>

definition condition_metadata_image :: "fe_condition_metadata \<Rightarrow> byte list" where
  "condition_metadata_image d = le_bytes (fcm_struct_size d) @ le_bytes (fcm_protocol_version d) @ le_bytes (fcm_solver d) @
     le_bytes (fcm_reserved d) @ fcm_model_digest d @ le_bytes (fcm_timestamp_ns d) @ le_bytes (fcm_deadline_ns d) @
     le_bytes (fcm_generation d) @ le_bytes (fcm_condition_dim d) @ le_bytes (fcm_action_dim d) @ le_bytes (fcm_solver_steps d) @
     le_bytes (fcm_remaining_nfe d)"

definition action_metadata_image :: "fe_action_metadata \<Rightarrow> byte list" where
  "action_metadata_image d = le_bytes (fam_struct_size d) @ le_bytes (fam_protocol_version d) @ le_bytes (fam_solver d) @
     le_bytes (fam_status d) @ fam_model_digest d @ le_bytes (fam_timestamp_ns d) @ le_bytes (fam_deadline_ns d) @
     le_bytes (fam_generation d) @ le_bytes (fam_condition_dim d) @ le_bytes (fam_action_dim d) @ le_bytes (fam_remaining_nfe d)"

definition condition_image :: "ConditionMessage \<Rightarrow> byte list" where
  "condition_image m = envelope_image (cm_envelope m) @ condition_metadata_image (cm_metadata m) @ floats_image (cm_payload m)"

definition action_image :: "ActionMessage \<Rightarrow> byte list" where
  "action_image m = envelope_image (am_envelope m) @ action_metadata_image (am_metadata m) @ floats_image (am_action m)"

definition timing_image :: "JobEventTiming \<Rightarrow> byte list" where
  "timing_image t = le_bytes (jet_queue_ns t) @ le_bytes (jet_execution_ns t) @ le_bytes (jet_end_to_end_ns t) @ le_bytes (jet_cancellation_ns t)"

definition event_image :: "JobEventMessage \<Rightarrow> byte list" where
  "event_image m =
     (let d = jev_metadata m
      in envelope_image (jev_envelope m) @ le_bytes (jem_struct_size d) @ le_bytes (jem_protocol_version d) @ le_bytes (jem_event d) @
         descriptor_image (jem_descriptor d) @ progress_image (jem_progress d) @ le_bytes (jem_timestamp_ns d) @ timing_image (jem_timing d) @
         le_bytes (jem_related_generation d) @ le_bytes (jem_worker_index d) @ le_bytes (jem_peer_worker_index d) @ le_bytes (jem_queue_depth d) @
         le_bytes (jem_result_code d) @ le_bytes (jem_service_class d) @ le_bytes (jem_reserved2 d))"

definition wire_bytes_condition :: "ConditionMessage \<Rightarrow> byte list" where
  "wire_bytes_condition m = take (wire_size_condition m) (condition_image m)"

definition wire_bytes_action :: "ActionMessage \<Rightarrow> byte list" where
  "wire_bytes_action m = take (wire_size_action m) (action_image m)"

definition wire_size_event :: "JobEventMessage \<Rightarrow> nat" where
  "wire_size_event m = sizeof_JobEventMessage"

definition wire_bytes_event :: "JobEventMessage \<Rightarrow> byte list" where
  "wire_bytes_event m = event_image m"

definition read_condition_metadata :: "byte list \<Rightarrow> nat \<Rightarrow> fe_condition_metadata" where
  "read_condition_metadata bs off = \<lparr>fcm_struct_size = read_le bs off, fcm_protocol_version = read_le bs (off + 4),
     fcm_solver = read_le bs (off + 8), fcm_reserved = read_le bs (off + 12), fcm_model_digest = take 16 (drop (off + 16) bs),
     fcm_timestamp_ns = read_le bs (off + 32), fcm_deadline_ns = read_le bs (off + 40), fcm_generation = read_le bs (off + 48),
     fcm_condition_dim = read_le bs (off + 56), fcm_action_dim = read_le bs (off + 64), fcm_solver_steps = read_le bs (off + 72),
     fcm_remaining_nfe = read_le bs (off + 80)\<rparr>"

definition read_action_metadata :: "byte list \<Rightarrow> nat \<Rightarrow> fe_action_metadata" where
  "read_action_metadata bs off = \<lparr>fam_struct_size = read_le bs off, fam_protocol_version = read_le bs (off + 4),
     fam_solver = read_le bs (off + 8), fam_status = read_le bs (off + 12), fam_model_digest = take 16 (drop (off + 16) bs),
     fam_timestamp_ns = read_le bs (off + 32), fam_deadline_ns = read_le bs (off + 40), fam_generation = read_le bs (off + 48),
     fam_condition_dim = read_le bs (off + 56), fam_action_dim = read_le bs (off + 64), fam_remaining_nfe = read_le bs (off + 72)\<rparr>"

text \<open>Objects whose bytes have been overwritten; the payload arrays have their declared lengths.\<close>

definition read_condition :: "byte list \<Rightarrow> ConditionMessage" where
  "read_condition bs = \<lparr>cm_envelope = read_envelope bs 0, cm_metadata = read_condition_metadata bs 32,
     cm_payload = read_floats (kMaxConditionDim + kMaxActionDim) (drop 120 bs)\<rparr>"

definition read_action :: "byte list \<Rightarrow> ActionMessage" where
  "read_action bs = \<lparr>am_envelope = read_envelope bs 0, am_metadata = read_action_metadata bs 32,
     am_action = read_floats kMaxActionDim (drop 112 bs)\<rparr>"

section \<open>Lemmas\<close>

lemma length_metadata_images [simp]:
  "length (fcm_model_digest d) = 16 \<Longrightarrow> length (condition_metadata_image d) = 88"
  "length (fam_model_digest a) = 16 \<Longrightarrow> length (action_metadata_image a) = 80"
  by (simp_all add: condition_metadata_image_def action_metadata_image_def)

lemma length_event_image: "length (jd_model_digest (jem_descriptor (jev_metadata m))) = 16 \<Longrightarrow> length (wire_bytes_event m) = wire_size_event m"
  by (simp add: wire_bytes_event_def wire_size_event_def event_image_def Let_def timing_image_def wire_simps)

lemma read_metadata_images:
  "length (fcm_model_digest d) = 16 \<Longrightarrow> read_condition_metadata (condition_metadata_image d @ ys) 0 = d"
  "length (fam_model_digest a) = 16 \<Longrightarrow> read_action_metadata (action_metadata_image a @ ys) 0 = a"
  by (simp_all add: read_condition_metadata_def condition_metadata_image_def read_action_metadata_def action_metadata_image_def image_simps)

lemma read_metadata_skip:
  "length xs \<le> off \<Longrightarrow> read_condition_metadata (xs @ ys) off = read_condition_metadata ys (off - length xs)"
  "length xs \<le> off \<Longrightarrow> read_action_metadata (xs @ ys) off = read_action_metadata ys (off - length xs)"
  by (simp_all add: read_condition_metadata_def read_action_metadata_def image_simps)

lemma take_floats_image: "take (4 * n) (floats_image xs) = floats_image (take n xs)"
proof (induction xs arbitrary: n)
  case Nil
  then show ?case by (simp add: floats_image_def)
next
  case (Cons x xs)
  then show ?case by (cases n) (simp_all add: floats_image_def)
qed

lemma take_read_floats: "take n (read_floats k bs) = read_floats (min n k) bs"
  by (cases "n \<le> k") (simp_all add: read_floats_def take_map min_def)

text \<open>
  A receiver copies the wire bytes over the bytes of an object: it reads the sender's envelope and
  metadata and, in the used part of the payload, the sender's floats.
\<close>

lemma action_received:
  assumes dig: "length (fam_model_digest (am_metadata m)) = 16" and len: "length (am_action m) = kMaxActionDim"
    and fl: "\<forall>x \<in> set (am_action m). is_float x"
  defines "n \<equiv> clamp_dim (fam_action_dim (am_metadata m)) kMaxActionDim"
  shows "length (wire_bytes_action m) = wire_size_action m"
    "\<exists>rest. read_action (wire_bytes_action m @ ys) = m\<lparr>am_action := take n (am_action m) @ rest\<rparr>"
proof -
  have n: "n \<le> 1024" "length (am_action m) = 1024" using len by (simp_all add: n_def clamp_dim_def wire_simps)
  have size: "wire_size_action m = 112 + 4 * n" by (simp add: wire_size_action_def n_def Let_def wire_simps)
  have w: "wire_bytes_action m = envelope_image (am_envelope m) @ action_metadata_image (am_metadata m) @ floats_image (take n (am_action m))"
    using dig by (simp add: wire_bytes_action_def action_image_def size take_floats_image)
  show "length (wire_bytes_action m) = wire_size_action m" using dig n by (simp add: w size)
  have fl': "\<forall>x \<in> set (take n (am_action m)). is_float x" using fl by (meson in_set_takeD)
  have "take n (read_floats 1024 (floats_image (take n (am_action m)) @ ys)) = take n (am_action m)"
    using read_floats_image [OF fl', of ys] n by (simp add: take_read_floats)
  then obtain rest where "read_floats 1024 (floats_image (take n (am_action m)) @ ys) = take n (am_action m) @ rest"
    by (metis append_take_drop_id)
  then show "\<exists>rest. read_action (wire_bytes_action m @ ys) = m\<lparr>am_action := take n (am_action m) @ rest\<rparr>"
    using dig by (intro exI [of _ rest]) (simp add: w read_action_def image_simps read_metadata_skip read_metadata_images wire_simps)
qed

lemma condition_received:
  assumes dig: "length (fcm_model_digest (cm_metadata m)) = 16" and len: "length (cm_payload m) = kMaxConditionDim + kMaxActionDim"
    and fl: "\<forall>x \<in> set (take n (cm_payload m)). is_float x"
    and n: "n = clamp_dim (fcm_condition_dim (cm_metadata m)) kMaxConditionDim + clamp_dim (fcm_action_dim (cm_metadata m)) kMaxActionDim"
  shows "length (wire_bytes_condition m) = wire_size_condition m"
    "\<exists>rest. read_condition (wire_bytes_condition m @ ys) = m\<lparr>cm_payload := take n (cm_payload m) @ rest\<rparr>"
proof -
  have b: "n \<le> 5120" "length (cm_payload m) = 5120" using len by (simp_all add: n clamp_dim_def wire_simps)
  have size: "wire_size_condition m = 120 + 4 * n" by (simp add: wire_size_condition_def n Let_def wire_simps)
  have w: "wire_bytes_condition m = envelope_image (cm_envelope m) @ condition_metadata_image (cm_metadata m) @ floats_image (take n (cm_payload m))"
    using dig by (simp add: wire_bytes_condition_def condition_image_def size take_floats_image)
  show "length (wire_bytes_condition m) = wire_size_condition m" using dig b by (simp add: w size)
  have "take n (read_floats 5120 (floats_image (take n (cm_payload m)) @ ys)) = take n (cm_payload m)"
    using read_floats_image [OF fl, of ys] b by (simp add: take_read_floats)
  then obtain rest where "read_floats 5120 (floats_image (take n (cm_payload m)) @ ys) = take n (cm_payload m) @ rest"
    by (metis append_take_drop_id)
  then show "\<exists>rest. read_condition (wire_bytes_condition m @ ys) = m\<lparr>cm_payload := take n (cm_payload m) @ rest\<rparr>"
    using dig by (intro exI [of _ rest]) (simp add: w read_condition_def image_simps read_metadata_skip read_metadata_images wire_simps)
qed

end
