(* ===== verification/Relay_Client.thy ===== *)
theory Relay_Client
  imports Message_Image Job_Clients Job_Service_Correct
begin

text \<open>
  relay/client/relay\_client.\{h,cc\}: the endpoint that submits conditions to a head worker and takes its
  actions. The rings it creates or opens are parameters. What it sends is what a worker reads, and
  what it hands out is the action a worker sent.
\<close>

section \<open>Definitions\<close>

record RelayRequest =
  rr_sequence :: u64
  rr_session_id :: u64
  rr_timestamp_ns :: u64
  rr_deadline_ns :: u64
  rr_generation :: u64
  rr_solver_steps :: u64
  rr_solver :: u32
  rr_condition :: "fp list"
  rr_noise :: "fp list"

record RelayClient =
  rcl_conditions :: "RingMem option"
  rcl_actions :: "RingMem option"
  rcl_model :: fe_model_metadata
  rcl_outbound :: ConditionMessage

definition default_action :: ActionMessage where
  "default_action = \<lparr>am_envelope = default_envelope\<lparr>me_kind := MessageKind_kAction\<rparr>,
     am_metadata = \<lparr>fam_struct_size = 0, fam_protocol_version = 0, fam_solver = 0, fam_status = 0,
       fam_model_digest = replicate 16 0, fam_timestamp_ns = 0, fam_deadline_ns = 0, fam_generation = 0,
       fam_condition_dim = 0, fam_action_dim = 0, fam_remaining_nfe = 0\<rparr>,
     am_action = replicate kMaxActionDim (Fin 0)\<rparr>"

definition sizeof_ConditionMessage :: u32 where "sizeof_ConditionMessage = 20600"
definition sizeof_ActionMessage :: u32 where "sizeof_ActionMessage = 4208"

definition validate_model :: "fe_model_metadata \<Rightarrow> string + unit" where
  "validate_model model =
     (if unat (fmm_struct_size model) < sizeof_fe_model_metadata \<or> fmm_protocol_version model \<noteq> FE_PROTOCOL_VERSION \<or>
         fmm_condition_dim model = 0 \<or> fmm_action_dim model = 0 \<or> unat (fmm_condition_dim model) > kMaxConditionDim \<or>
         unat (fmm_action_dim model) > kMaxActionDim
      then Inl ''Relay client requires compatible flow-head model metadata'' else Inr ())"

definition make_relay_client :: "RingMem \<Rightarrow> RingMem \<Rightarrow> fe_model_metadata \<Rightarrow> RelayClient" where
  "make_relay_client conditions actions model =
     \<lparr>rcl_conditions = Some conditions, rcl_actions = Some actions, rcl_model = model, rcl_outbound = default_condition\<rparr>"

definition relay_client_create ::
  "(string \<Rightarrow> RingConfig \<Rightarrow> string + RingMem) \<Rightarrow> string \<Rightarrow> string \<Rightarrow> fe_model_metadata \<Rightarrow> u32 \<Rightarrow> string + RelayClient" where
  "relay_client_create create_ring condition_name action_name model capacity =
     (case validate_model model of
        Inl e \<Rightarrow> Inl e
      | Inr _ \<Rightarrow>
          (case create_ring condition_name \<lparr>rc_capacity = capacity, rc_slot_bytes = sizeof_ConditionMessage\<rparr> of
             Inl e \<Rightarrow> Inl e
           | Inr conditions \<Rightarrow>
               (case create_ring action_name \<lparr>rc_capacity = capacity, rc_slot_bytes = sizeof_ActionMessage\<rparr> of
                  Inl e \<Rightarrow> Inl e
                | Inr actions \<Rightarrow> Inr (make_relay_client conditions actions model))))"

definition relay_client_connect ::
  "(string \<Rightarrow> string + RingMem) \<Rightarrow> string \<Rightarrow> string \<Rightarrow> fe_model_metadata \<Rightarrow> string + RelayClient" where
  "relay_client_connect open_ring condition_name action_name model =
     (case validate_model model of
        Inl e \<Rightarrow> Inl e
      | Inr _ \<Rightarrow>
          (case open_ring condition_name of
             Inl e \<Rightarrow> Inl e
           | Inr conditions \<Rightarrow>
               (case open_ring action_name of
                  Inl e \<Rightarrow> Inl e
                | Inr actions \<Rightarrow>
                    if \<not> usable_ring conditions sizeof_ConditionMessage \<or> \<not> usable_ring actions sizeof_ActionMessage
                    then Inl ''Relay ring slot capacity is incompatible with this client build''
                    else Inr (make_relay_client conditions actions model))))"

definition relay_client_send_shutdown ::
  "(string \<Rightarrow> string + RingMem) \<Rightarrow> string \<Rightarrow> u64 \<Rightarrow> u64 \<Rightarrow> u64 \<Rightarrow> string + ClientResult \<times> RingMem option" where
  "relay_client_send_shutdown open_ring condition_name sequence session_id reason =
     (case open_ring condition_name of
        Inl e \<Rightarrow> Inl e
      | Inr conditions \<Rightarrow>
          if \<not> usable_ring conditions 40 then Inl ''Relay condition ring cannot hold a control message''
          else (case ring_try_push (control_image (make_shutdown_message sequence session_id reason)) (Some conditions) of
              (r, ring) \<Rightarrow> Inr (map_ring_result r, ring)))"

definition relay_client_submit :: "RelayRequest \<Rightarrow> RelayClient \<Rightarrow> ClientResult \<times> RelayClient" where
  "relay_client_submit request c =
     (case make_condition_message (rcl_outbound c) (rcl_model c) (rr_sequence request) (rr_session_id request) (rr_timestamp_ns request)
          (rr_deadline_ns request) (rr_generation request) (rr_solver_steps request) (rr_solver request) (rr_condition request) (rr_noise request) of
        (built, outbound) \<Rightarrow>
          let c1 = c\<lparr>rcl_outbound := outbound\<rparr>
          in if built \<noteq> PR_kSuccess then (CR_kInvalidRequest, c1)
             else (case ring_try_push (wire_bytes_condition outbound) (rcl_conditions c1) of
                 (r, ring) \<Rightarrow> (map_ring_result r, c1\<lparr>rcl_conditions := ring\<rparr>)))"

definition relay_client_receive :: "RelayClient \<Rightarrow> ClientResult \<times> ActionMessage \<times> RelayClient" where
  "relay_client_receive c =
     (case ring_try_pop (action_image default_action) (rcl_actions c) of
        (result, bytes_read, destination, ring) \<Rightarrow>
          let m = read_action destination; c' = c\<lparr>rcl_actions := ring\<rparr>
          in if result \<noteq> RR_kSuccess then (map_ring_result result, m, c')
             else if bytes_read \<noteq> wire_size_action m \<or> validate_action m \<noteq> PR_kSuccess then (CR_kCorrupt, m, c')
             else if \<not> compatible_action m (rcl_model c) then (CR_kIncompatible, m, c')
             else (CR_kSuccess, m, c'))"

definition relay_client_shutdown :: "u64 \<Rightarrow> u64 \<Rightarrow> u64 \<Rightarrow> RelayClient \<Rightarrow> ClientResult \<times> RelayClient" where
  "relay_client_shutdown sequence session_id reason c =
     (case ring_try_push (control_image (make_shutdown_message sequence session_id reason)) (rcl_conditions c) of
        (r, ring) \<Rightarrow> (map_ring_result r, c\<lparr>rcl_conditions := ring\<rparr>))"

text \<open>A client on rings in order, and the byte strings in its rings.\<close>

definition relay_wf :: "RelayClient \<Rightarrow> bool" where
  "relay_wf c \<longleftrightarrow> (\<exists>r. rcl_conditions c = Some r \<and> ring_invar r) \<and> (\<exists>r. rcl_actions c = Some r \<and> ring_invar r) \<and>
     validate_model (rcl_model c) = Inr () \<and> length (fmm_model_digest (rcl_model c)) = 16 \<and>
     length (cm_payload (rcl_outbound c)) = kMaxConditionDim + kMaxActionDim"

definition conditions_of :: "RelayClient \<Rightarrow> byte list list" where
  "conditions_of c = ring_contents (the (rcl_conditions c))"

definition actions_of :: "RelayClient \<Rightarrow> byte list list" where
  "actions_of c = ring_contents (the (rcl_actions c))"

section \<open>Lemmas\<close>

lemma condition_header:
  "compatible_condition (m\<lparr>cm_payload := p\<rparr>) model = compatible_condition m model"
  "wire_size_condition (m\<lparr>cm_payload := p\<rparr>) = wire_size_condition m"
  by (simp_all add: compatible_condition_def validate_condition_def wire_size_condition_def Let_def)

lemma action_header:
  "compatible_action (m\<lparr>am_action := p\<rparr>) model = compatible_action m model"
  "validate_action (m\<lparr>am_action := p\<rparr>) = validate_action m"
  "wire_size_action (m\<lparr>am_action := p\<rparr>) = wire_size_action m"
  by (simp_all add: compatible_action_def validate_action_def wire_size_action_def Let_def)

lemma map_ring_result_success: "map_ring_result r = CR_kSuccess \<longleftrightarrow> r = RR_kSuccess"
  by (cases r) (simp_all add: map_ring_result_def)

text \<open>What a receiver reads of the values of a condition.\<close>

lemma condition_values_prefix:
  assumes n: "n = clamp_dim (fcm_condition_dim (cm_metadata m)) kMaxConditionDim + clamp_dim (fcm_action_dim (cm_metadata m)) kMaxActionDim"
    and len: "n \<le> length (cm_payload m)"
  shows "condition_values (m\<lparr>cm_payload := take n (cm_payload m) @ rest\<rparr>) = condition_values m"
    "noise_values (m\<lparr>cm_payload := take n (cm_payload m) @ rest\<rparr>) = noise_values m"
    "take n (cm_payload m) = condition_values m @ noise_values m"
  using len by (simp_all add: condition_values_def noise_values_def Let_def n take_add)

lemma relay_submit_arrives:
  assumes wf: "relay_wf c" and fl: "\<forall>x \<in> set (rr_condition q @ rr_noise q). is_float x" and run: "relay_client_submit q c = (CR_kSuccess, c')"
  shows "\<exists>bs. conditions_of c' = conditions_of c @ [bs] \<and> (\<forall>ys. let m = read_condition (bs @ ys) in
    compatible_condition m (rcl_model c) \<and> length bs = wire_size_condition m \<and> condition_values m = rr_condition q \<and> noise_values m = rr_noise q \<and>
    me_sequence (cm_envelope m) = rr_sequence q \<and> me_session_id (cm_envelope m) = rr_session_id q)"
proof -
  let ?made = "make_condition_message (rcl_outbound c) (rcl_model c) (rr_sequence q) (rr_session_id q) (rr_timestamp_ns q)
    (rr_deadline_ns q) (rr_generation q) (rr_solver_steps q) (rr_solver q) (rr_condition q) (rr_noise q)"
  obtain built m where made: "?made = (built, m)" by fastforce
  have len: "length (cm_payload (rcl_outbound c)) = kMaxConditionDim + kMaxActionDim" using wf by (simp add: relay_wf_def)
  have ok: "built = PR_kSuccess" using run made by (auto simp: relay_client_submit_def Let_def split: if_splits)
  note b = condition_message_built [OF len, where model = "rcl_model c" and sq = "rr_sequence q" and sid = "rr_session_id q"
    and ts = "rr_timestamp_ns q" and dl = "rr_deadline_ns q" and gen = "rr_generation q" and steps = "rr_solver_steps q"
    and solver = "rr_solver q" and condition = "rr_condition q" and noise = "rr_noise q", unfolded made ok prod.case ProtocolResult.case]
  have dig: "length (fcm_model_digest (cm_metadata m)) = 16" using b wf by (simp add: compatible_condition_def relay_wf_def)
  have lm: "length (cm_payload m) = kMaxConditionDim + kMaxActionDim" using b len by simp
  define n where "n = clamp_dim (fcm_condition_dim (cm_metadata m)) kMaxConditionDim + clamp_dim (fcm_action_dim (cm_metadata m)) kMaxActionDim"
  have nl: "n \<le> length (cm_payload m)" by (simp add: n_def lm clamp_dim_def)
  note v = condition_values_prefix [OF n_def nl]
  have "\<forall>x \<in> set (take n (cm_payload m)). is_float x" using fl b by (simp add: v(3))
  note r = condition_received [OF dig lm this n_def]
  obtain rg where rg: "rcl_conditions c = Some rg" "ring_invar rg" using wf by (auto simp: relay_wf_def)
  obtain res ring where push: "ring_try_push (wire_bytes_condition m) (Some rg) = (res, ring)" by fastforce
  have "res = RR_kSuccess" "rcl_conditions c' = ring"
    using run made ok push rg(1) by (auto simp: relay_client_submit_def Let_def map_ring_result_success)
  with rg(2) push have "conditions_of c' = conditions_of c @ [wire_bytes_condition m]"
    by (cases rule: try_push_cases) (simp_all add: conditions_of_def rg(1))
  moreover have "let m' = read_condition (wire_bytes_condition m @ ys) in
    compatible_condition m' (rcl_model c) \<and> length (wire_bytes_condition m) = wire_size_condition m' \<and> condition_values m' = rr_condition q \<and>
    noise_values m' = rr_noise q \<and> me_sequence (cm_envelope m') = rr_sequence q \<and> me_session_id (cm_envelope m') = rr_session_id q" for ys
  proof -
    obtain rest where "read_condition (wire_bytes_condition m @ ys) = m\<lparr>cm_payload := take n (cm_payload m) @ rest\<rparr>" using r(2) by blast
    then show ?thesis using b r(1) v(1,2) by (simp add: Let_def condition_header)
  qed
  ultimately show ?thesis by blast
qed

lemma relay_receive_returns:
  assumes wf: "relay_wf c" and front: "actions_of c = wire_bytes_action a # rest" and comp: "compatible_action a (rcl_model c)"
    and len: "length (am_action a) = kMaxActionDim" and fl: "\<forall>x \<in> set (am_action a). is_float x"
  shows "\<exists>m c'. relay_client_receive c = (CR_kSuccess, m, c') \<and> actions_of c' = rest \<and>
    am_envelope m = am_envelope a \<and> am_metadata m = am_metadata a \<and>
    take (unat (fam_action_dim (am_metadata a))) (am_action m) = take (unat (fam_action_dim (am_metadata a))) (am_action a)"
proof -
  let ?n = "clamp_dim (fam_action_dim (am_metadata a)) kMaxActionDim"
  have dig: "length (fam_model_digest (am_metadata a)) = 16" using comp wf by (simp add: compatible_action_def relay_wf_def)
  have v: "validate_action a = PR_kSuccess" "unat (fam_action_dim (am_metadata a)) \<le> kMaxActionDim"
    using comp by (auto simp: compatible_action_def validate_action_def Let_def split: if_splits)
  then have n: "?n = unat (fam_action_dim (am_metadata a))" by (simp add: clamp_dim_def)
  note r = action_received [OF dig len fl]
  obtain rg where rg: "rcl_actions c = Some rg" "ring_invar rg" using wf by (auto simp: relay_wf_def)
  let ?dest = "action_image default_action"
  have small: "length (wire_bytes_action a) \<le> length ?dest"
    by (simp add: r(1) wire_size_action_def Let_def clamp_dim_def wire_simps action_image_def default_action_def)
  obtain res k dest ring where pop: "ring_try_pop ?dest (Some rg) = (res, k, dest, ring)" using prod_cases4 by blast
  have "res = RR_kSuccess \<and> k = wire_size_action a \<and> dest = wire_bytes_action a @ drop (length (wire_bytes_action a)) ?dest \<and>
    ring_contents (the ring) = rest"
    using rg(2) pop
  proof (cases rule: try_pop_cases)
    case (popped r' bs)
    then show ?thesis using front r(1) by (simp add: actions_of_def rg(1) blit_def)
  next
    case kept
    then show ?thesis using pop ring_try_pop_eq [OF rg(2), of ?dest] front small by (simp add: actions_of_def rg(1))
  qed
  moreover obtain tail where "read_action (wire_bytes_action a @ drop (length (wire_bytes_action a)) ?dest) = a\<lparr>am_action := take ?n (am_action a) @ tail\<rparr>"
    using r(2) by blast
  moreover have "take ?n (take ?n (am_action a) @ tail) = take ?n (am_action a)" using len v(2) by (simp add: n)
  ultimately show ?thesis
    using pop rg(1) comp v(1) by (auto simp: relay_client_receive_def Let_def action_header actions_of_def n)
qed

section \<open>Properties\<close>

text \<open>
  C39: What a relay client and a worker exchange survives the trip through shared memory. When the
  client reports a condition as submitted, one byte string was appended to the condition ring, and
  a worker that copies it over any object reads a message that is valid for the model, has the
  length it claims, and carries the submitted condition, noise, sequence number and session; and
  when a compatible action is the next in the action ring, the client returns it with its envelope,
  metadata and action values and leaves the others.
\<close>

theorem relay_client_transfers:
  assumes "relay_wf c"
  shows "(\<forall>q c'. (\<forall>x \<in> set (rr_condition q @ rr_noise q). is_float x) \<and> relay_client_submit q c = (CR_kSuccess, c') \<longrightarrow>
      (\<exists>bs. conditions_of c' = conditions_of c @ [bs] \<and> (\<forall>ys. let m = read_condition (bs @ ys) in
        compatible_condition m (rcl_model c) \<and> length bs = wire_size_condition m \<and>
        condition_values m = rr_condition q \<and> noise_values m = rr_noise q \<and>
        me_sequence (cm_envelope m) = rr_sequence q \<and> me_session_id (cm_envelope m) = rr_session_id q))) \<and>
    (\<forall>a rest. actions_of c = wire_bytes_action a # rest \<and> compatible_action a (rcl_model c) \<and>
        length (am_action a) = kMaxActionDim \<and> (\<forall>x \<in> set (am_action a). is_float x) \<longrightarrow>
      (\<exists>m c'. relay_client_receive c = (CR_kSuccess, m, c') \<and> actions_of c' = rest \<and>
        am_envelope m = am_envelope a \<and> am_metadata m = am_metadata a \<and>
        take (unat (fam_action_dim (am_metadata a))) (am_action m) = take (unat (fam_action_dim (am_metadata a))) (am_action a)))"
  using relay_submit_arrives [OF assms] relay_receive_returns [OF assms] by blast

definition demo_request :: RelayRequest where
  "demo_request = \<lparr>rr_sequence = 1, rr_session_id = 2, rr_timestamp_ns = 10, rr_deadline_ns = 20, rr_generation = 3, rr_solver_steps = 4,
     rr_solver = 1, rr_condition = [Fin 1, Fin 2], rr_noise = [Fin 3]\<rparr>"

lemma demo_floats: "is_float (Fin 1)" "is_float (Fin 2)" "is_float (Fin 3)"
  by code_simp+

theorem relay_client_transfers_witness:
  "\<exists>c bs. relay_client_submit demo_request (make_relay_client (format_ring demo_config) (format_ring demo_config) demo_model) = (CR_kSuccess, c) \<and>
     conditions_of c = [bs] \<and> condition_values (read_condition bs) = [Fin 1, Fin 2] \<and> noise_values (read_condition bs) = [Fin 3]"
proof -
  let ?c = "make_relay_client (format_ring demo_config) (format_ring demo_config) demo_model"
  have len: "length (cm_payload default_condition) = kMaxConditionDim + kMaxActionDim" by (simp add: default_condition_def)
  have wf: "relay_wf ?c"
    using demo_config_ok by (simp add: relay_wf_def make_relay_client_def len validate_model_def demo_model_def sizeof_fe_model_metadata_def wire_simps)
  let ?made = "make_condition_message default_condition demo_model 1 2 10 20 3 4 1 [Fin 1, Fin 2] [Fin 3]"
  obtain built m where made: "?made = (built, m)" by fastforce
  have ok: "built = PR_kSuccess" using made by (auto simp: make_condition_message_def demo_model_def wire_simps Let_def)
  have dims: "fcm_condition_dim (cm_metadata m) = 2" "fcm_action_dim (cm_metadata m) = 1"
    using made by (auto simp: make_condition_message_def demo_model_def wire_simps Let_def)
  have "length (wire_bytes_condition m) \<le> 132"
    by (simp add: wire_bytes_condition_def wire_size_condition_def Let_def dims clamp_dim_def wire_simps)
  then obtain ring where "ring_try_push (wire_bytes_condition m) (Some (format_ring demo_config)) = (RR_kSuccess, ring)"
    using ring_try_push_eq [of "wire_bytes_condition m" "format_ring demo_config"] demo_config_ok by simp
  then have run: "relay_client_submit demo_request ?c = (CR_kSuccess, ?c\<lparr>rcl_outbound := m, rcl_conditions := ring\<rparr>)"
    using made ok by (simp add: relay_client_submit_def demo_request_def make_relay_client_def map_ring_result_def)
  have fl: "\<forall>x \<in> set (rr_condition demo_request @ rr_noise demo_request). is_float x" using demo_floats by (simp add: demo_request_def)
  have empty: "conditions_of ?c = []" by (simp add: conditions_of_def make_relay_client_def demo_config_ok)
  obtain bs where bs: "conditions_of (?c\<lparr>rcl_outbound := m, rcl_conditions := ring\<rparr>) = conditions_of ?c @ [bs]"
    "\<forall>ys. let m = read_condition (bs @ ys) in condition_values m = rr_condition demo_request \<and> noise_values m = rr_noise demo_request"
    using relay_client_transfers [OF wf] fl run unfolding Let_def by blast
  have "condition_values (read_condition bs) = [Fin 1, Fin 2] \<and> noise_values (read_condition bs) = [Fin 3]"
    using spec [OF bs(2), of "[]"] by (simp add: Let_def demo_request_def)
  with run bs(1) empty show ?thesis by auto
qed

end
