(* ===== verification/Thread_Pool.thy ===== *)
theory Thread_Pool
  imports FE_Prelude
begin

text \<open>
  core/arena/spmc\_ring.h and thread\_pool.\{h,cc\}: the task ring of one producer and many consumers, the pool
  of worker threads that spin on it, and \<open>parallel_for\<close>. The functions \<open>spmc_try_push\<close> and \<open>spmc_try_pop\<close>
  are a call that runs alone. For the pool, every access to shared memory is a step of its own: a
  load or store of a counter, of a sequence number or of a slot, the compare-exchange of \<open>tail_\<close>,
  the atomic additions. A thread's program counter holds its local variables. Beside the shared
  memory the state records the tasks published, executed and accounted for.
\<close>

section \<open>Definitions\<close>

subsection \<open>The ring\<close>

record 't SpmcRing =
  sr_slots :: "'t list"
  sr_sequence :: "u64 list"
  sr_head :: u64
  sr_tail :: u64
  sr_ok :: bool

definition single_bit :: "nat \<Rightarrow> bool" where
  "single_bit n \<longleftrightarrow> list_ex (\<lambda>k. n = 2 ^ k) [0 ..< 64]"

text \<open>\<open>None\<close>: the loop over the sequence numbers leaves the span.\<close>

definition spmc_create :: "'t list \<Rightarrow> u64 list \<Rightarrow> 't SpmcRing option" where
  "spmc_create slots sequence =
     (if length sequence < length slots then None
      else Some \<lparr>sr_slots = slots, sr_sequence = map of_nat [0 ..< length slots] @ drop (length slots) sequence,
             sr_head = 0, sr_tail = 0, sr_ok = single_bit (length slots)\<rparr>)"

definition spmc_index :: "'t SpmcRing \<Rightarrow> u64 \<Rightarrow> nat" where
  "spmc_index r pos = unat (pos AND (of_nat (length (sr_slots r)) - 1))"

definition spmc_sequence :: "'t SpmcRing \<Rightarrow> u64 \<Rightarrow> u64" where
  "spmc_sequence r pos = sr_sequence r ! spmc_index r pos"

definition put_slot :: "u64 \<Rightarrow> 't \<Rightarrow> 't SpmcRing \<Rightarrow> 't SpmcRing" where
  "put_slot pos v r = r\<lparr>sr_slots := (sr_slots r)[spmc_index r pos := v]\<rparr>"

definition put_sequence :: "u64 \<Rightarrow> u64 \<Rightarrow> 't SpmcRing \<Rightarrow> 't SpmcRing" where
  "put_sequence pos q r = r\<lparr>sr_sequence := (sr_sequence r)[spmc_index r pos := q]\<rparr>"

definition spmc_try_push :: "'t \<Rightarrow> 't SpmcRing \<Rightarrow> bool \<times> 't SpmcRing" where
  "spmc_try_push v r =
     (if \<not> sr_ok r then (False, r)
      else let pos = sr_head r
           in if spmc_sequence r pos \<noteq> pos then (False, r)
              else (True, (put_sequence pos (pos + 1) (put_slot pos v r))\<lparr>sr_head := pos + 1\<rparr>))"

text \<open>Alone, a compare-exchange that is repeated when it fails spuriously succeeds in the end.\<close>

definition spmc_try_pop :: "'t SpmcRing \<Rightarrow> 't option \<times> 't SpmcRing" where
  "spmc_try_pop r =
     (if \<not> sr_ok r then (None, r)
      else let pos = sr_tail r
           in if spmc_sequence r pos \<noteq> pos + 1 then (None, r)
              else (Some (sr_slots r ! spmc_index r pos),
                    put_sequence pos (pos + of_nat (length (sr_slots r))) (r\<lparr>sr_tail := pos + 1\<rparr>)))"

subsection \<open>The pool\<close>

text \<open>The producer runs \<open>enqueue\<close> for one task after the other, each until it succeeds, then \<open>wait\<close>.\<close>

datatype 't enqueue_pc =
    P_Next
  | P_Counted 't \<comment> \<open>pending_ incremented\<close>
  | P_Loaded 't u64 \<comment> \<open>head_ loaded\<close>
  | P_Free 't u64 \<comment> \<open>the sequence number matched\<close>
  | P_Stored 't u64 \<comment> \<open>slot written\<close>
  | P_Published u64 \<comment> \<open>sequence number stored\<close>
  | P_Moved \<comment> \<open>head_ stored\<close>
  | P_Notify \<comment> \<open>work_epoch_ incremented\<close>
  | P_Failed \<comment> \<open>the ring is full\<close>
  | P_Returned \<comment> \<open>\<open>wait\<close> has seen no pending task\<close>
  | P_Stopping \<comment> \<open>destructor: stop_ set\<close>
  | P_Notify_All \<comment> \<open>destructor: work_epoch_ incremented\<close>
  | P_Stopped

text \<open>Which of the two calls of \<open>try_pop\<close> in the loop of a worker: with the idle spins, or with the epoch seen before.\<close>

datatype attempt = First nat | Second u64

datatype 't worker_pc =
    W_Start attempt
  | W_Loaded attempt u64 \<comment> \<open>tail_ loaded\<close>
  | W_Seen attempt u64 \<comment> \<open>the sequence number matched\<close>
  | W_Claimed u64 \<comment> \<open>compare-exchange succeeded\<close>
  | W_Read u64 't \<comment> \<open>slot read\<close>
  | W_Run 't \<comment> \<open>sequence number stored\<close>
  | W_Ran \<comment> \<open>task executed\<close>
  | W_Empty attempt \<comment> \<open>\<open>try_pop\<close> has returned false\<close>
  | W_Observe
  | W_Sleep u64 \<comment> \<open>inside \<open>atomic::wait\<close>, about to compare\<close>
  | W_Blocked u64 \<comment> \<open>inside \<open>atomic::wait\<close>, until notified\<close>
  | W_Exit

record 't ThreadPool =
  tp_ring :: "'t SpmcRing"
  tp_pending :: u64
  tp_epoch :: u64
  tp_stop :: bool
  tp_producer :: "'t enqueue_pc"
  tp_workers :: "'t worker_pc list"
  tp_todo :: "'t list"
  tp_pushed :: "'t list"
  tp_executed :: "'t list"
  tp_finished :: nat

definition k_idle_spin :: nat where "k_idle_spin = 4096"

text \<open>The constructor: \<open>workers\<close> is the room for threads.\<close>

definition pool_threads :: "'t SpmcRing \<Rightarrow> nat \<Rightarrow> nat \<Rightarrow> nat" where
  "pool_threads ring workers num_threads = (if sr_ok ring then min num_threads workers else 0)"

definition thread_pool_create :: "'t SpmcRing \<Rightarrow> nat \<Rightarrow> nat \<Rightarrow> 't list \<Rightarrow> 't ThreadPool" where
  "thread_pool_create ring workers num_threads tasks =
     \<lparr>tp_ring = ring, tp_pending = 0, tp_epoch = 0, tp_stop = False, tp_producer = P_Next,
      tp_workers = replicate (pool_threads ring workers num_threads) (W_Start (First 0)),
      tp_todo = tasks, tp_pushed = [], tp_executed = [], tp_finished = 0\<rparr>"

definition set_worker :: "nat \<Rightarrow> 't worker_pc \<Rightarrow> 't ThreadPool \<Rightarrow> 't ThreadPool" where
  "set_worker w pc s = s\<lparr>tp_workers := (tp_workers s)[w := pc]\<rparr>"

fun unblock :: "'t worker_pc \<Rightarrow> 't worker_pc" where
  "unblock (W_Blocked e) = W_Sleep e"
| "unblock pc = pc"

text \<open>\<open>enqueue\<close>; \<open>notify_one\<close> wakes one of the blocked workers, whichever it is.\<close>

inductive enqueue_step :: "'t ThreadPool \<Rightarrow> 't ThreadPool \<Rightarrow> bool" where
  e_count: "tp_producer s = P_Next \<Longrightarrow> tp_todo s = t # ts \<Longrightarrow>
    enqueue_step s (s\<lparr>tp_producer := P_Counted t, tp_pending := tp_pending s + 1\<rparr>)"
| e_invalid: "tp_producer s = P_Counted t \<Longrightarrow> \<not> sr_ok (tp_ring s) \<Longrightarrow> enqueue_step s (s\<lparr>tp_producer := P_Failed\<rparr>)"
| e_head: "tp_producer s = P_Counted t \<Longrightarrow> sr_ok (tp_ring s) \<Longrightarrow>
    enqueue_step s (s\<lparr>tp_producer := P_Loaded t (sr_head (tp_ring s))\<rparr>)"
| e_full: "tp_producer s = P_Loaded t pos \<Longrightarrow> spmc_sequence (tp_ring s) pos \<noteq> pos \<Longrightarrow> enqueue_step s (s\<lparr>tp_producer := P_Failed\<rparr>)"
| e_free: "tp_producer s = P_Loaded t pos \<Longrightarrow> spmc_sequence (tp_ring s) pos = pos \<Longrightarrow> enqueue_step s (s\<lparr>tp_producer := P_Free t pos\<rparr>)"
| e_slot: "tp_producer s = P_Free t pos \<Longrightarrow> enqueue_step s (s\<lparr>tp_producer := P_Stored t pos, tp_ring := put_slot pos t (tp_ring s)\<rparr>)"
| e_publish: "tp_producer s = P_Stored t pos \<Longrightarrow>
    enqueue_step s (s\<lparr>tp_producer := P_Published pos, tp_ring := put_sequence pos (pos + 1) (tp_ring s),
      tp_pushed := tp_pushed s @ [t], tp_todo := tl (tp_todo s)\<rparr>)"
| e_move: "tp_producer s = P_Published pos \<Longrightarrow>
    enqueue_step s (s\<lparr>tp_producer := P_Moved, tp_ring := (tp_ring s)\<lparr>sr_head := pos + 1\<rparr>\<rparr>)"
| e_epoch: "tp_producer s = P_Moved \<Longrightarrow> enqueue_step s (s\<lparr>tp_producer := P_Notify, tp_epoch := tp_epoch s + 1\<rparr>)"
| e_notify_one: "tp_producer s = P_Notify \<Longrightarrow> w < length (tp_workers s) \<Longrightarrow> tp_workers s ! w = W_Blocked e \<Longrightarrow>
    enqueue_step s (set_worker w (W_Sleep e) (s\<lparr>tp_producer := P_Next\<rparr>))"
| e_notify_none: "tp_producer s = P_Notify \<Longrightarrow> \<forall>pc \<in> set (tp_workers s). unblock pc = pc \<Longrightarrow>
    enqueue_step s (s\<lparr>tp_producer := P_Next\<rparr>)"
| e_undo: "tp_producer s = P_Failed \<Longrightarrow> enqueue_step s (s\<lparr>tp_producer := P_Next, tp_pending := tp_pending s - 1\<rparr>)"

text \<open>\<open>wait\<close> after the last task, and the destructor.\<close>

inductive wait_step :: "'t ThreadPool \<Rightarrow> 't ThreadPool \<Rightarrow> bool" where
  wait_done: "tp_producer s = P_Next \<Longrightarrow> tp_todo s = [] \<Longrightarrow> tp_pending s = 0 \<Longrightarrow> wait_step s (s\<lparr>tp_producer := P_Returned\<rparr>)"
| wait_again: "tp_producer s = P_Next \<Longrightarrow> tp_todo s = [] \<Longrightarrow> tp_pending s \<noteq> 0 \<Longrightarrow> wait_step s s"

inductive destroy_step :: "'t ThreadPool \<Rightarrow> 't ThreadPool \<Rightarrow> bool" where
  d_stop: "tp_producer s = P_Returned \<Longrightarrow> destroy_step s (s\<lparr>tp_producer := P_Stopping, tp_stop := True\<rparr>)"
| d_epoch: "tp_producer s = P_Stopping \<Longrightarrow> destroy_step s (s\<lparr>tp_producer := P_Notify_All, tp_epoch := tp_epoch s + 1\<rparr>)"
| d_notify: "tp_producer s = P_Notify_All \<Longrightarrow>
    destroy_step s (s\<lparr>tp_producer := P_Stopped, tp_workers := map unblock (tp_workers s)\<rparr>)"

inductive pop_step :: "nat \<Rightarrow> 't ThreadPool \<Rightarrow> 't ThreadPool \<Rightarrow> bool" for w where
  w_invalid: "tp_workers s ! w = W_Start a \<Longrightarrow> \<not> sr_ok (tp_ring s) \<Longrightarrow> pop_step w s (set_worker w (W_Empty a) s)"
| w_tail: "tp_workers s ! w = W_Start a \<Longrightarrow> sr_ok (tp_ring s) \<Longrightarrow> pop_step w s (set_worker w (W_Loaded a (sr_tail (tp_ring s))) s)"
| w_none: "tp_workers s ! w = W_Loaded a pos \<Longrightarrow> spmc_sequence (tp_ring s) pos \<noteq> pos + 1 \<Longrightarrow> pop_step w s (set_worker w (W_Empty a) s)"
| w_some: "tp_workers s ! w = W_Loaded a pos \<Longrightarrow> spmc_sequence (tp_ring s) pos = pos + 1 \<Longrightarrow> pop_step w s (set_worker w (W_Seen a pos) s)"
| w_claim: "tp_workers s ! w = W_Seen a pos \<Longrightarrow> sr_tail (tp_ring s) = pos \<Longrightarrow>
    pop_step w s (set_worker w (W_Claimed pos) (s\<lparr>tp_ring := (tp_ring s)\<lparr>sr_tail := pos + 1\<rparr>\<rparr>))"
| w_retry: "tp_workers s ! w = W_Seen a pos \<Longrightarrow> pop_step w s (set_worker w (W_Loaded a (sr_tail (tp_ring s))) s)"
| w_read: "tp_workers s ! w = W_Claimed pos \<Longrightarrow>
    pop_step w s (set_worker w (W_Read pos (sr_slots (tp_ring s) ! spmc_index (tp_ring s) pos)) s)"
| w_release: "tp_workers s ! w = W_Read pos t \<Longrightarrow>
    pop_step w s (set_worker w (W_Run t) (s\<lparr>tp_ring := put_sequence pos (pos + of_nat (length (sr_slots (tp_ring s)))) (tp_ring s)\<rparr>))"

text \<open>The loop of a worker around \<open>try_pop\<close>; \<open>atomic::wait\<close> compares the epoch, returns when it has
  changed and blocks otherwise; a notified worker compares again.\<close>

inductive loop_step :: "nat \<Rightarrow> 't ThreadPool \<Rightarrow> 't ThreadPool \<Rightarrow> bool" for w where
  l_run: "tp_workers s ! w = W_Run t \<Longrightarrow> loop_step w s (set_worker w W_Ran (s\<lparr>tp_executed := tp_executed s @ [t]\<rparr>))"
| l_count: "tp_workers s ! w = W_Ran \<Longrightarrow>
    loop_step w s (set_worker w (W_Start (First 0)) (s\<lparr>tp_pending := tp_pending s - 1, tp_finished := Suc (tp_finished s)\<rparr>))"
| l_stop: "tp_workers s ! w = W_Empty a \<Longrightarrow> tp_stop s \<Longrightarrow> loop_step w s (set_worker w W_Exit s)"
| l_spin: "tp_workers s ! w = W_Empty (First n) \<Longrightarrow> \<not> tp_stop s \<Longrightarrow> n < k_idle_spin \<Longrightarrow> loop_step w s (set_worker w (W_Start (First (Suc n))) s)"
| l_idle: "tp_workers s ! w = W_Empty (First n) \<Longrightarrow> \<not> tp_stop s \<Longrightarrow> k_idle_spin \<le> n \<Longrightarrow> loop_step w s (set_worker w W_Observe s)"
| l_observe: "tp_workers s ! w = W_Observe \<Longrightarrow> loop_step w s (set_worker w (W_Start (Second (tp_epoch s))) s)"
| l_sleep: "tp_workers s ! w = W_Empty (Second e) \<Longrightarrow> \<not> tp_stop s \<Longrightarrow> loop_step w s (set_worker w (W_Sleep e) s)"
| l_wake: "tp_workers s ! w = W_Sleep e \<Longrightarrow> tp_epoch s \<noteq> e \<Longrightarrow> loop_step w s (set_worker w (W_Start (First 0)) s)"
| l_block: "tp_workers s ! w = W_Sleep e \<Longrightarrow> tp_epoch s = e \<Longrightarrow> loop_step w s (set_worker w (W_Blocked e) s)"

inductive thread_step :: "'t ThreadPool \<Rightarrow> 't ThreadPool \<Rightarrow> bool" where
  ts_enqueue: "enqueue_step s t \<Longrightarrow> thread_step s t"
| ts_wait: "wait_step s t \<Longrightarrow> thread_step s t"
| ts_destroy: "destroy_step s t \<Longrightarrow> thread_step s t"
| ts_pop: "w < length (tp_workers s) \<Longrightarrow> pop_step w s t \<Longrightarrow> thread_step s t"
| ts_loop: "w < length (tp_workers s) \<Longrightarrow> loop_step w s t \<Longrightarrow> thread_step s t"

subsection \<open>parallel\_for\<close>

text \<open>The ranges the loop of \<open>parallel_for\<close> enqueues: iteration \<open>i\<close> of \<open>n\<close>.\<close>

fun chunk_loop :: "u64 \<Rightarrow> u64 \<Rightarrow> nat \<Rightarrow> nat \<Rightarrow> (u64 \<times> u64) list" where
  "chunk_loop extent sz i 0 = []"
| "chunk_loop extent sz i (Suc left) =
     (if \<not> of_nat i * sz < extent then []
      else let lo = of_nat i * sz; hi = (if lo + sz < extent then lo + sz else extent)
           in (lo, hi) # chunk_loop extent sz (Suc i) left)"

text \<open>\<open>Inl\<close>: the caller runs the one range itself. \<open>Inr\<close>: the tasks for the pool.\<close>

definition parallel_for :: "nat \<Rightarrow> u64 \<Rightarrow> nat \<Rightarrow> (u64 \<times> u64) + (u64 \<times> u64) list" where
  "parallel_for nthreads extent task_count =
     (let n = min (min nthreads task_count) (unat extent)
      in if n \<le> 1 then Inl (0, extent)
         else let sz = (extent + of_nat n - 1) div of_nat n in Inr (chunk_loop extent sz 0 n))"

end
