(* ===== verification/Thread_Pool_Ring.thy ===== *)
theory Thread_Pool_Ring
  imports Thread_Pool
begin

text \<open>
  The task ring of core/arena/spmc\_ring.h under concurrent calls: what the sequence numbers say
  about a position. A position is free, published, held (claimed, its slot not yet given back) or
  given back. \<open>ring_inv\<close> relates the ring to the multiset of the positions held and to the tasks
  published so far; one lemma for every access of \<open>try_push\<close> and \<open>try_pop\<close> that writes.
\<close>

section \<open>The invariant of the ring\<close>

text \<open>Position \<open>q\<close>, the next to be written into its slot, is free.\<close>

definition position_free :: "nat \<Rightarrow> nat multiset \<Rightarrow> nat \<Rightarrow> nat \<Rightarrow> bool" where
  "position_free cap h taken q \<longleftrightarrow> q < cap \<or> (q - cap < taken \<and> q - cap \<notin># h)"

text \<open>The slot of the position \<open>q\<close>: the sequence number and, unless it is free, the task one lap before.\<close>

definition slot_ok :: "'t SpmcRing \<Rightarrow> nat multiset \<Rightarrow> 't list \<Rightarrow> nat \<Rightarrow> bool" where
  "slot_ok r h pushed q \<longleftrightarrow>
     (if position_free (length (sr_slots r)) h (unat (sr_tail r)) q
      then sr_sequence r ! (q mod length (sr_slots r)) = of_nat q
      else sr_sequence r ! (q mod length (sr_slots r)) = of_nat (q - length (sr_slots r) + 1) \<and>
           sr_slots r ! (q mod length (sr_slots r)) = pushed ! (q - length (sr_slots r)))"

definition ring_slots_ok :: "'t SpmcRing \<Rightarrow> nat multiset \<Rightarrow> 't list \<Rightarrow> bool" where
  "ring_slots_ok r h pushed \<longleftrightarrow>
     (\<forall>q. length pushed \<le> q \<longrightarrow> q < length pushed + length (sr_slots r) \<longrightarrow> slot_ok r h pushed q)"

definition ring_shape :: "'t SpmcRing \<Rightarrow> nat \<Rightarrow> bool" where
  "ring_shape r n \<longleftrightarrow> sr_ok r \<and> 2 \<le> length (sr_slots r) \<and> (\<exists>k. length (sr_slots r) = 2 ^ k) \<and>
     length (sr_slots r) \<le> length (sr_sequence r) \<and> n + length (sr_slots r) < 2 ^ 64"

definition held_ok :: "nat \<Rightarrow> nat multiset \<Rightarrow> nat \<Rightarrow> nat \<Rightarrow> bool" where
  "held_ok cap h taken n \<longleftrightarrow> taken \<le> n \<and> n \<le> taken + cap \<and>
     (\<forall>p. count h p \<le> 1) \<and> (\<forall>p \<in># h. p < taken \<and> n \<le> p + cap)"

definition ring_inv :: "'t SpmcRing \<Rightarrow> nat multiset \<Rightarrow> 't list \<Rightarrow> bool" where
  "ring_inv r h pushed \<longleftrightarrow> ring_shape r (length pushed) \<and>
     held_ok (length (sr_slots r)) h (unat (sr_tail r)) (length pushed) \<and> ring_slots_ok r h pushed"

section \<open>Positions\<close>

lemma of_nat_u64_eq: "a < 2 ^ 64 \<Longrightarrow> b < 2 ^ 64 \<Longrightarrow> (of_nat a :: u64) = of_nat b \<longleftrightarrow> a = b"
  by (simp add: word_unat_eq_iff unat_of_nat)

lemma unat_succ: "unat (p :: u64) < n \<Longrightarrow> n < 2 ^ 64 \<Longrightarrow> unat (p + 1) = Suc (unat p)"
  by (simp add: unat_word_ariths)

lemma spmc_index_mod:
  assumes "length (sr_slots r) = 2 ^ k" "length (sr_slots r) < 2 ^ 64"
  shows "spmc_index r pos = unat pos mod length (sr_slots r)"
proof -
  have "(of_nat (length (sr_slots r)) - 1 :: u64) = mask k" by (simp add: assms(1) mask_eq_exp_minus_1)
  then show ?thesis by (simp add: spmc_index_def assms(1) take_bit_eq_mask [symmetric] unsigned_take_bit_eq take_bit_nat_def)
qed

lemma ring_index:
  assumes "ring_shape r n"
  shows "spmc_index r pos = unat pos mod length (sr_slots r)"
proof -
  obtain k where "length (sr_slots r) = 2 ^ k" using assms by (auto simp: ring_shape_def)
  moreover have "length (sr_slots r) < 2 ^ 64" using assms by (simp add: ring_shape_def)
  ultimately show ?thesis by (rule spmc_index_mod)
qed

lemma ring_shape_bounds:
  assumes "ring_shape r n"
  shows "q mod length (sr_slots r) < length (sr_slots r)" "q mod length (sr_slots r) < length (sr_sequence r)"
proof -
  have c: "2 \<le> length (sr_slots r)" "length (sr_slots r) \<le> length (sr_sequence r)" using assms by (simp_all add: ring_shape_def)
  show "q mod length (sr_slots r) < length (sr_slots r)" by (rule mod_less_divisor) (use c in linarith)
  then show "q mod length (sr_slots r) < length (sr_sequence r)" using c by linarith
qed

lemma window_distinct:
  fixes a b :: nat
  assumes "n \<le> a" "a < n + c" "n \<le> b" "b < n + c" "a mod c = b mod c"
  shows "a = b"
proof -
  have "a = b" if le: "a \<le> b" and lt: "b < a + c" and eq: "a mod c = b mod c" for a b :: nat
  proof -
    have "c dvd b - a" using mod_eq_dvd_iff_nat [OF le, of c] eq by simp
    moreover have "b - a < c" using le lt by linarith
    ultimately have "b - a = 0" using nat_dvd_not_less by blast
    then show ?thesis using le by simp
  qed
  from this [of a b] this [of b a] show ?thesis using assms by linarith
qed

lemma next_distinct: "(n :: nat) < q \<Longrightarrow> q < n + c \<Longrightarrow> q mod c \<noteq> n mod c"
  using window_distinct [of n q c n] by auto

text \<open>The fields the accesses change, with the index read as a remainder.\<close>

lemma put_slot_simps [simp]:
  "sr_sequence (put_slot pos v r) = sr_sequence r" "sr_tail (put_slot pos v r) = sr_tail r"
  "sr_head (put_slot pos v r) = sr_head r" "length (sr_slots (put_slot pos v r)) = length (sr_slots r)"
  "ring_shape (put_slot pos v r) n = ring_shape r n"
  by (simp_all add: put_slot_def ring_shape_def)

lemma put_sequence_simps [simp]:
  "sr_slots (put_sequence pos q r) = sr_slots r" "sr_tail (put_sequence pos q r) = sr_tail r"
  "sr_head (put_sequence pos q r) = sr_head r"
  "ring_shape (put_sequence pos q r) n = ring_shape r n"
  by (simp_all add: put_sequence_def ring_shape_def)

lemma put_slot_nth:
  "ring_shape r n \<Longrightarrow> sr_slots (put_slot pos v r) ! (q mod length (sr_slots r)) =
     (if q mod length (sr_slots r) = unat pos mod length (sr_slots r) then v else sr_slots r ! (q mod length (sr_slots r)))"
  by (simp add: put_slot_def ring_index ring_shape_bounds nth_list_update)

lemma put_sequence_nth:
  "ring_shape r n \<Longrightarrow> sr_sequence (put_sequence pos s r) ! (q mod length (sr_slots r)) =
     (if q mod length (sr_slots r) = unat pos mod length (sr_slots r) then s else sr_sequence r ! (q mod length (sr_slots r)))"
  by (simp add: put_sequence_def ring_index ring_shape_bounds nth_list_update)

lemma ring_inv_parts:
  assumes "ring_inv r h pushed"
  shows "ring_shape r (length pushed)" "held_ok (length (sr_slots r)) h (unat (sr_tail r)) (length pushed)" "ring_slots_ok r h pushed"
    "length pushed + length (sr_slots r) < 2 ^ 64" "2 \<le> length (sr_slots r)"
    "unat (sr_tail r) \<le> length pushed" "length pushed \<le> unat (sr_tail r) + length (sr_slots r)" "sr_ok r"
  using assms by (simp_all add: ring_inv_def ring_shape_def held_ok_def)

lemma slot_okD:
  assumes "ring_inv r h pushed" "length pushed \<le> q" "q < length pushed + length (sr_slots r)"
  shows "slot_ok r h pushed q"
  using assms by (simp add: ring_inv_def ring_slots_ok_def)

section \<open>The accesses\<close>

subsection \<open>Reading sequence numbers\<close>

lemma next_sequence:
  assumes inv: "ring_inv r h pushed" and pos: "unat pos = length pushed"
  shows "spmc_sequence r pos = of_nat (if position_free (length (sr_slots r)) h (unat (sr_tail r)) (length pushed)
    then length pushed else length pushed - length (sr_slots r) + 1)"
proof -
  have "slot_ok r h pushed (length pushed)" using ring_inv_parts(5) [OF inv] by (intro slot_okD [OF inv]) linarith+
  then show ?thesis unfolding spmc_sequence_def ring_index [OF ring_inv_parts(1) [OF inv]] pos
    by (cases "position_free (length (sr_slots r)) h (unat (sr_tail r)) (length pushed)") (simp_all add: slot_ok_def)
qed

lemma ring_free:
  assumes inv: "ring_inv r h pushed" and pos: "unat pos = length pushed"
  shows "spmc_sequence r pos = pos \<longleftrightarrow> position_free (length (sr_slots r)) h (unat (sr_tail r)) (length pushed)"
proof -
  let ?c = "length (sr_slots r)" and ?n = "length pushed"
  note b = ring_inv_parts(4,5) [OF inv]
  have p: "pos = of_nat ?n" using pos [symmetric] by simp
  have "(of_nat (?n - ?c + 1) :: u64) \<noteq> of_nat ?n" if "\<not> position_free ?c h (unat (sr_tail r)) ?n"
  proof -
    have "?c \<le> ?n" using that by (auto simp: position_free_def)
    then show ?thesis using b by (subst of_nat_u64_eq) auto
  qed
  then show ?thesis using next_sequence [OF inv pos] by (auto simp: p)
qed

lemma ring_seen:
  assumes inv: "ring_inv r h pushed" and le: "unat pos \<le> unat (sr_tail r)" and match: "spmc_sequence r pos = pos + 1"
  shows "unat pos < length pushed"
proof (rule ccontr)
  let ?c = "length (sr_slots r)" and ?n = "length pushed"
  assume "\<not> ?thesis"
  then have pos: "unat pos = ?n" using le ring_inv_parts(6) [OF inv] by simp
  note b = ring_inv_parts(4,5) [OF inv]
  have p: "pos + 1 = of_nat (?n + 1)" using pos [symmetric] by simp
  have "(of_nat k :: u64) \<noteq> of_nat (?n + 1)" if "k \<le> ?n" for k using that b by (subst of_nat_u64_eq) auto
  moreover have "?n - ?c + 1 \<le> ?n" if "\<not> position_free ?c h (unat (sr_tail r)) ?n" using that b by (auto simp: position_free_def)
  moreover have "of_nat (if position_free ?c h (unat (sr_tail r)) ?n then ?n else ?n - ?c + 1) = (of_nat (?n + 1) :: u64)"
    using match next_sequence [OF inv pos] p by simp
  ultimately show False by (cases "position_free ?c h (unat (sr_tail r)) ?n") (simp_all only: if_True if_False not_False_eq_True)
qed

text \<open>A position that is published and not given back still has its task in its slot.\<close>

lemma occupied_slot:
  assumes inv: "ring_inv r h pushed" and p: "unat pos < length pushed" and near: "length pushed \<le> unat pos + length (sr_slots r)"
    and occ: "unat pos \<in># h \<or> unat (sr_tail r) \<le> unat pos"
  shows "spmc_sequence r pos = pos + 1" "sr_slots r ! spmc_index r pos = pushed ! unat pos"
proof -
  have nf: "\<not> position_free (length (sr_slots r)) h (unat (sr_tail r)) (unat pos + length (sr_slots r))"
    using occ by (auto simp: position_free_def)
  have "slot_ok r h pushed (unat pos + length (sr_slots r))" using p near by (intro slot_okD [OF inv]) simp_all
  then show "spmc_sequence r pos = pos + 1" "sr_slots r ! spmc_index r pos = pushed ! unat pos"
    using nf by (simp_all add: slot_ok_def spmc_sequence_def ring_index [OF ring_inv_parts(1) [OF inv]])
qed

subsection \<open>try\_push\<close>

lemma ring_store:
  assumes inv: "ring_inv r h pushed" and pos: "unat pos = length pushed"
    and free: "position_free (length (sr_slots r)) h (unat (sr_tail r)) (length pushed)"
  shows "ring_inv (put_slot pos v r) h pushed"
    "sr_slots (put_slot pos v r) ! (length pushed mod length (sr_slots r)) = v"
proof -
  note shape = ring_inv_parts(1) [OF inv]
  have "slot_ok (put_slot pos v r) h pushed q" if q: "length pushed \<le> q" "q < length pushed + length (sr_slots r)" for q
  proof (cases "q = length pushed")
    case True
    then show ?thesis using slot_okD [OF inv q] free by (simp add: slot_ok_def)
  next
    case False
    then have "q mod length (sr_slots r) \<noteq> unat pos mod length (sr_slots r)"
      using next_distinct [of "length pushed" q "length (sr_slots r)"] ring_inv_parts(5) [OF inv] q pos by simp
    then show ?thesis using slot_okD [OF inv q] by (simp add: slot_ok_def put_slot_nth [OF shape])
  qed
  then show "ring_inv (put_slot pos v r) h pushed" using inv by (simp add: ring_inv_def ring_slots_ok_def)
  show "sr_slots (put_slot pos v r) ! (length pushed mod length (sr_slots r)) = v" by (simp add: put_slot_nth [OF shape] pos)
qed

lemma held_publish:
  assumes "held_ok cap h taken n" "position_free cap h taken n" "0 < cap"
  shows "held_ok cap h taken (Suc n)"
proof -
  have "Suc n \<le> p + cap" if "p \<in># h" for p
  proof -
    have "n \<le> p + cap" using that assms(1) by (simp add: held_ok_def)
    moreover have "n \<noteq> p + cap" using that assms(2) by (auto simp: position_free_def)
    ultimately show ?thesis by linarith
  qed
  moreover have "Suc n \<le> taken + cap" using assms by (auto simp: held_ok_def position_free_def)
  ultimately show ?thesis using assms(1) by (simp add: held_ok_def)
qed

lemma ring_publish:
  assumes inv: "ring_inv r h pushed" and pos: "unat pos = length pushed"
    and free: "position_free (length (sr_slots r)) h (unat (sr_tail r)) (length pushed)"
    and slot: "sr_slots r ! (length pushed mod length (sr_slots r)) = v"
    and room: "Suc (length pushed) + length (sr_slots r) < 2 ^ 64"
  shows "ring_inv (put_sequence pos (pos + 1) r) h (pushed @ [v])"
proof -
  let ?c = "length (sr_slots r)" and ?n = "length pushed"
  note shape = ring_inv_parts(1) [OF inv] and taken = ring_inv_parts(6) [OF inv]
  have "slot_ok (put_sequence pos (pos + 1) r) h (pushed @ [v]) q" if q: "Suc ?n \<le> q" "q < Suc ?n + ?c" for q
  proof (cases "q = ?n + ?c")
    case True
    moreover have "\<not> position_free ?c h (unat (sr_tail r)) (?n + ?c)" using taken by (simp add: position_free_def)
    ultimately show ?thesis using slot by (simp add: slot_ok_def put_sequence_nth [OF shape] nth_append pos [symmetric])
  next
    case False
    then have "q mod ?c \<noteq> unat pos mod ?c" using next_distinct [of ?n q ?c] ring_inv_parts(5) [OF inv] q pos False by simp
    moreover have "slot_ok r h pushed q" using q False by (intro slot_okD [OF inv]) simp_all
    moreover have "position_free ?c h (unat (sr_tail r)) q \<or> q - ?c < ?n" using q False by (auto simp: position_free_def)
    ultimately show ?thesis by (auto simp: slot_ok_def put_sequence_nth [OF shape] nth_append)
  qed
  moreover have "held_ok ?c h (unat (sr_tail r)) (Suc ?n)"
    by (rule held_publish [OF ring_inv_parts(2) [OF inv] free]) (use ring_inv_parts(5) [OF inv] in linarith)
  moreover have "ring_shape r (Suc ?n)" using shape room by (simp add: ring_shape_def)
  ultimately show ?thesis by (simp add: ring_inv_def ring_slots_ok_def)
qed

lemma ring_head:
  "ring_inv (r\<lparr>sr_head := p\<rparr>) h pushed = ring_inv r h pushed"
  by (simp add: ring_inv_def ring_shape_def ring_slots_ok_def slot_ok_def)

subsection \<open>try\_pop\<close>

lemma free_claim:
  assumes "held_ok cap h taken n"
  shows "position_free cap (add_mset taken h) (Suc taken) q = position_free cap h taken q"
  using assms by (auto simp: position_free_def)

lemma held_claim:
  assumes "held_ok cap h taken n" "taken < n"
  shows "held_ok cap (add_mset taken h) (Suc taken) n"
proof -
  have "taken \<notin># h" using assms(1) by (auto simp: held_ok_def)
  then show ?thesis using assms by (auto simp: held_ok_def not_in_iff)
qed

lemma ring_claim:
  assumes inv: "ring_inv r h pushed" and less: "unat (sr_tail r) < length pushed"
  shows "ring_inv (r\<lparr>sr_tail := sr_tail r + 1\<rparr>) (add_mset (unat (sr_tail r)) h) pushed"
    "unat (sr_tail r + 1) = Suc (unat (sr_tail r))"
proof -
  note shape = ring_inv_parts(1) [OF inv] and held = ring_inv_parts(2) [OF inv]
  show succ: "unat (sr_tail r + 1) = Suc (unat (sr_tail r))" using unat_succ [OF less] ring_inv_parts(4) [OF inv] by linarith
  have "ring_shape (r\<lparr>sr_tail := sr_tail r + 1\<rparr>) (length pushed)" using shape by (simp add: ring_shape_def)
  then show "ring_inv (r\<lparr>sr_tail := sr_tail r + 1\<rparr>) (add_mset (unat (sr_tail r)) h) pushed"
    using inv by (simp add: ring_inv_def ring_slots_ok_def slot_ok_def succ free_claim [OF held] held_claim [OF held less])
qed

lemma free_release: "position_free cap h taken q \<Longrightarrow> position_free cap (h - {#p#}) taken q"
  by (auto simp: position_free_def dest: in_diffD)

lemma held_release: "held_ok cap h taken n \<Longrightarrow> held_ok cap (h - {#p#}) taken n"
  by (auto simp: held_ok_def dest: in_diffD intro: order_trans [OF diff_le_self])

lemma ring_release:
  assumes inv: "ring_inv r h pushed" and pos: "unat pos \<in># h"
  shows "ring_inv (put_sequence pos (pos + of_nat (length (sr_slots r))) r) (h - {#unat pos#}) pushed"
proof -
  let ?c = "length (sr_slots r)" and ?p = "unat pos" and ?n = "length pushed"
  note shape = ring_inv_parts(1) [OF inv] and held = ring_inv_parts(2) [OF inv]
  have p: "?p < unat (sr_tail r)" "?n \<le> ?p + ?c" "count h ?p = 1"
    using held pos by (auto simp: held_ok_def le_antisym)
  then have notin: "?p \<notin># h - {#?p#}" by (simp add: not_in_iff)
  have "slot_ok (put_sequence pos (pos + of_nat ?c) r) (h - {#?p#}) pushed q" if q: "?n \<le> q" "q < ?n + ?c" for q
  proof (cases "q = ?p + ?c")
    case True
    moreover have "position_free ?c (h - {#?p#}) (unat (sr_tail r)) (?p + ?c)" using p notin by (simp add: position_free_def)
    ultimately show ?thesis by (simp add: slot_ok_def put_sequence_nth [OF shape])
  next
    case False
    have "?p + ?c < ?n + ?c" using p ring_inv_parts(6) [OF inv] by linarith
    then have "q mod ?c \<noteq> ?p mod ?c" using window_distinct [of ?n q ?c "?p + ?c"] q p False by auto
    moreover have "position_free ?c (h - {#?p#}) (unat (sr_tail r)) q = position_free ?c h (unat (sr_tail r)) q"
    proof -
      have "q - ?c \<noteq> ?p" if "?c \<le> q" using False that by linarith
      then show ?thesis by (cases "q < ?c") (auto simp: position_free_def in_diff_count dest: in_diffD)
    qed
    ultimately show ?thesis using slot_okD [OF inv q] by (simp add: slot_ok_def put_sequence_nth [OF shape])
  qed
  then show ?thesis using shape held_release [OF held] by (simp add: ring_inv_def ring_slots_ok_def)
qed

end
