(* ===== verification/Thread_Pool_Correct.thy ===== *)
theory Thread_Pool_Correct
  imports Thread_Pool_Ring
begin

text \<open>
  The pool of core/arena/thread\_pool.\{h,cc\} under every interleaving of the producer and the
  workers. \<open>thread_inv\<close> accounts for every task: published and unclaimed, in the hands of exactly
  one worker, or executed; and for the counter \<open>pending_\<close> that \<open>wait\<close> reads.
\<close>

section \<open>The invariant\<close>

text \<open>The positions of tasks that are claimed and whose slots are not yet given back.\<close>

fun pc_held :: "'t worker_pc \<Rightarrow> nat multiset" where
  "pc_held (W_Claimed pos) = {#unat pos#}"
| "pc_held (W_Read pos t) = {#unat pos#}"
| "pc_held _ = {#}"

text \<open>The tasks a worker has claimed and not executed.\<close>

fun pc_tasks :: "'t list \<Rightarrow> 't worker_pc \<Rightarrow> 't multiset" where
  "pc_tasks pushed (W_Claimed pos) = {#pushed ! unat pos#}"
| "pc_tasks pushed (W_Read pos t) = {#t#}"
| "pc_tasks pushed (W_Run t) = {#t#}"
| "pc_tasks pushed _ = {#}"

fun pc_ran :: "'t worker_pc \<Rightarrow> nat" where
  "pc_ran W_Ran = 1"
| "pc_ran _ = 0"

definition held :: "'t ThreadPool \<Rightarrow> nat multiset" where
  "held s = sum_list (map pc_held (tp_workers s))"

definition in_hand :: "'t ThreadPool \<Rightarrow> 't multiset" where
  "in_hand s = sum_list (map (pc_tasks (tp_pushed s)) (tp_workers s))"

definition just_ran :: "'t ThreadPool \<Rightarrow> nat" where
  "just_ran s = sum_list (map pc_ran (tp_workers s))"

text \<open>The task the producer has counted in \<open>pending_\<close> before it is published.\<close>

fun pc_counted :: "'t enqueue_pc \<Rightarrow> nat" where
  "pc_counted (P_Counted t) = 1"
| "pc_counted (P_Loaded t pos) = 1"
| "pc_counted (P_Free t pos) = 1"
| "pc_counted (P_Stored t pos) = 1"
| "pc_counted P_Failed = 1"
| "pc_counted _ = 0"

definition next_free :: "'t ThreadPool \<Rightarrow> bool" where
  "next_free s \<longleftrightarrow> position_free (length (sr_slots (tp_ring s))) (held s) (unat (sr_tail (tp_ring s))) (length (tp_pushed s))"

definition next_task :: "'t ThreadPool \<Rightarrow> 't \<Rightarrow> bool" where
  "next_task s t \<longleftrightarrow> (\<exists>ts. tp_todo s = t # ts)"

fun enqueue_ok :: "'t ThreadPool \<Rightarrow> 't enqueue_pc \<Rightarrow> bool" where
  "enqueue_ok s (P_Counted t) = next_task s t"
| "enqueue_ok s (P_Loaded t pos) = (next_task s t \<and> unat pos = length (tp_pushed s))"
| "enqueue_ok s (P_Free t pos) = (next_task s t \<and> unat pos = length (tp_pushed s) \<and> next_free s)"
| "enqueue_ok s (P_Stored t pos) = (next_task s t \<and> unat pos = length (tp_pushed s) \<and> next_free s \<and>
     sr_slots (tp_ring s) ! (length (tp_pushed s) mod length (sr_slots (tp_ring s))) = t)"
| "enqueue_ok s (P_Published pos) = (Suc (unat pos) = length (tp_pushed s))"
| "enqueue_ok s P_Returned = (tp_todo s = [] \<and> length (tp_pushed s) \<le> tp_finished s)"
| "enqueue_ok s P_Stopping = (tp_todo s = [] \<and> length (tp_pushed s) \<le> tp_finished s)"
| "enqueue_ok s P_Notify_All = (tp_todo s = [] \<and> length (tp_pushed s) \<le> tp_finished s)"
| "enqueue_ok s P_Stopped = (tp_todo s = [] \<and> length (tp_pushed s) \<le> tp_finished s)"
| "enqueue_ok s _ = True"

fun worker_ok :: "'t SpmcRing \<Rightarrow> 't list \<Rightarrow> 't worker_pc \<Rightarrow> bool" where
  "worker_ok r pushed (W_Loaded a pos) = (unat pos \<le> unat (sr_tail r))"
| "worker_ok r pushed (W_Seen a pos) = (unat pos < length pushed)"
| "worker_ok r pushed (W_Claimed pos) = (unat pos < length pushed)"
| "worker_ok r pushed (W_Read pos t) = (unat pos < length pushed \<and> t = pushed ! unat pos)"
| "worker_ok r pushed _ = True"

fun head_at :: "'t enqueue_pc \<Rightarrow> nat \<Rightarrow> nat" where
  "head_at (P_Published _) n = n - 1"
| "head_at _ n = n"

definition work_ok :: "'t ThreadPool \<Rightarrow> bool" where
  "work_ok s \<longleftrightarrow> mset (take (unat (sr_tail (tp_ring s))) (tp_pushed s)) = mset (tp_executed s) + in_hand s"

definition count_ok :: "'t ThreadPool \<Rightarrow> bool" where
  "count_ok s \<longleftrightarrow> length (tp_executed s) = tp_finished s + just_ran s \<and>
     tp_pending s + of_nat (tp_finished s) = of_nat (pc_counted (tp_producer s) + length (tp_pushed s))"

definition tasks_ok :: "'t list \<Rightarrow> 't ThreadPool \<Rightarrow> bool" where
  "tasks_ok tasks s \<longleftrightarrow> tasks = tp_pushed s @ tp_todo s \<and> length (tp_pushed s) + length (tp_todo s) + length (sr_slots (tp_ring s)) < 2 ^ 64 \<and>
     unat (sr_head (tp_ring s)) = head_at (tp_producer s) (length (tp_pushed s))"

definition thread_inv :: "'t list \<Rightarrow> 't ThreadPool \<Rightarrow> bool" where
  "thread_inv tasks s \<longleftrightarrow> ring_inv (tp_ring s) (held s) (tp_pushed s) \<and> tasks_ok tasks s \<and>
     enqueue_ok s (tp_producer s) \<and> list_all (worker_ok (tp_ring s) (tp_pushed s)) (tp_workers s) \<and> work_ok s \<and> count_ok s"

section \<open>Workers\<close>

lemma set_worker_simps [simp]:
  "tp_ring (set_worker w pc s) = tp_ring s" "tp_pending (set_worker w pc s) = tp_pending s"
  "tp_epoch (set_worker w pc s) = tp_epoch s" "tp_stop (set_worker w pc s) = tp_stop s"
  "tp_producer (set_worker w pc s) = tp_producer s" "tp_todo (set_worker w pc s) = tp_todo s"
  "tp_pushed (set_worker w pc s) = tp_pushed s" "tp_executed (set_worker w pc s) = tp_executed s"
  "tp_finished (set_worker w pc s) = tp_finished s" "tp_workers (set_worker w pc s) = (tp_workers s)[w := pc]"
  by (simp_all add: set_worker_def)

lemma pc_held_unblock [simp]: "pc_held (unblock pc) = pc_held pc" by (cases pc) simp_all
lemma pc_tasks_unblock [simp]: "pc_tasks pushed (unblock pc) = pc_tasks pushed pc" by (cases pc) simp_all
lemma pc_ran_unblock [simp]: "pc_ran (unblock pc) = pc_ran pc" by (cases pc) simp_all
lemma worker_ok_unblock [simp]: "worker_ok r pushed (unblock pc) = worker_ok r pushed pc" by (cases pc) simp_all

lemma held_member:
  assumes "w < length (tp_workers s)" "p \<in># pc_held (tp_workers s ! w)"
  shows "p \<in># held s"
  using assms nth_mem [OF assms(1)] by (auto simp: held_def)

lemma enqueue_ok_mono:
  assumes "enqueue_ok s pc" "tp_todo t = tp_todo s" "tp_pushed t = tp_pushed s" "sr_slots (tp_ring t) = sr_slots (tp_ring s)"
    "tp_finished s \<le> tp_finished t" "next_free s \<Longrightarrow> next_free t"
  shows "enqueue_ok t pc"
  using assms by (cases pc) (auto simp: next_task_def)

lemma worker_ok_mono:
  "worker_ok r pushed pc \<Longrightarrow> unat (sr_tail r) \<le> unat (sr_tail r') \<Longrightarrow> worker_ok r' pushed pc"
  by (cases pc) auto

text \<open>
  A step of worker \<open>w\<close> to \<open>pc\<close>: what it does to the ring, to the tasks executed and to the counters
  balances what it does to the positions and tasks it holds.
\<close>

lemma worker_inv:
  assumes inv: "thread_inv tasks s" and w: "w < length (tp_workers s)"
    and t: "t = set_worker w pc (s\<lparr>tp_ring := r, tp_executed := ex, tp_pending := pend, tp_finished := fin\<rparr>)"
    and ring: "ring_inv r h (tp_pushed s)" "h + pc_held (tp_workers s ! w) = held s + pc_held pc"
    and same: "sr_slots r = sr_slots (tp_ring s)" "sr_head r = sr_head (tp_ring s)" "unat (sr_tail (tp_ring s)) \<le> unat (sr_tail r)"
    and free: "next_free s \<Longrightarrow> position_free (length (sr_slots r)) h (unat (sr_tail r)) (length (tp_pushed s))"
    and ok: "worker_ok r (tp_pushed s) pc"
    and work: "mset ex + pc_tasks (tp_pushed s) pc + mset (take (unat (sr_tail (tp_ring s))) (tp_pushed s)) =
      mset (tp_executed s) + pc_tasks (tp_pushed s) (tp_workers s ! w) + mset (take (unat (sr_tail r)) (tp_pushed s))"
    and counts: "length ex + tp_finished s + pc_ran (tp_workers s ! w) = length (tp_executed s) + fin + pc_ran pc"
      "tp_finished s \<le> fin" "pend + of_nat fin = tp_pending s + of_nat (tp_finished s)"
  shows "thread_inv tasks t"
proof -
  note I = inv [unfolded thread_inv_def]
  have "held t + pc_held (tp_workers s ! w) = held s + pc_held pc" unfolding held_def t using sum_list_map_update [OF w] by simp
  then have held: "held t = h" using ring(2) by (metis add_right_cancel)
  have hand: "in_hand t + pc_tasks (tp_pushed s) (tp_workers s ! w) = in_hand s + pc_tasks (tp_pushed s) pc"
    unfolding in_hand_def t using sum_list_map_update [OF w, of "pc_tasks (tp_pushed s)"] by simp
  have ran: "just_ran t + pc_ran (tp_workers s ! w) = just_ran s + pc_ran pc"
    unfolding just_ran_def t using sum_list_map_update [OF w, of pc_ran] by simp
  have "enqueue_ok t (tp_producer t)"
    by (rule enqueue_ok_mono [of s]) (use I same counts free held in \<open>simp_all add: t next_free_def\<close>)
  moreover have "list_all (worker_ok r (tp_pushed s)) (tp_workers t)"
  proof -
    have "list_all (worker_ok r (tp_pushed s)) (tp_workers s)"
      using I same(3) by (auto simp: list_all_iff intro: worker_ok_mono)
    then show ?thesis using ok w by (auto simp: t list_all_length nth_list_update)
  qed
  moreover have "work_ok t"
  proof -
    have "mset (take (unat (sr_tail r)) (tp_pushed s)) + (mset (tp_executed s) + in_hand s + pc_tasks (tp_pushed s) (tp_workers s ! w)) =
        (mset ex + in_hand t) + (mset (tp_executed s) + in_hand s + pc_tasks (tp_pushed s) (tp_workers s ! w))"
    proof -
      have "mset (take (unat (sr_tail (tp_ring s))) (tp_pushed s)) = mset (tp_executed s) + in_hand s" using I by (simp add: work_ok_def)
      then show ?thesis using work hand by (simp add: ac_simps)
    qed
    then show ?thesis by (simp add: work_ok_def t)
  qed
  moreover have "count_ok t" using I counts ran by (simp add: count_ok_def t)
  moreover have "tasks_ok tasks t" using I same by (simp add: tasks_ok_def t)
  ultimately show ?thesis using ring(1) held by (simp add: thread_inv_def t)
qed

text \<open>A step that changes nothing but the worker's program counter.\<close>

lemma worker_move:
  assumes inv: "thread_inv tasks s" and w: "w < length (tp_workers s)"
    and same: "pc_held pc = pc_held (tp_workers s ! w)" "pc_ran pc = pc_ran (tp_workers s ! w)"
      "pc_tasks (tp_pushed s) pc = pc_tasks (tp_pushed s) (tp_workers s ! w)"
    and ok: "worker_ok (tp_ring s) (tp_pushed s) pc"
  shows "thread_inv tasks (set_worker w pc s)"
  by (rule worker_inv [OF inv w, where pc = pc and r = "tp_ring s" and ex = "tp_executed s" and pend = "tp_pending s" and fin = "tp_finished s" and h = "held s"])
    (use inv same ok in \<open>simp_all add: thread_inv_def next_free_def\<close>)

lemma worker_okD: "thread_inv tasks s \<Longrightarrow> w < length (tp_workers s) \<Longrightarrow> worker_ok (tp_ring s) (tp_pushed s) (tp_workers s ! w)"
  by (simp add: thread_inv_def list_all_length)

lemma claim_inv:
  assumes inv: "thread_inv tasks s" and w: "w < length (tp_workers s)" and pc: "tp_workers s ! w = W_Seen a pos"
    and tail: "sr_tail (tp_ring s) = pos"
  shows "thread_inv tasks (set_worker w (W_Claimed pos) (s\<lparr>tp_ring := (tp_ring s)\<lparr>sr_tail := pos + 1\<rparr>\<rparr>))"
proof -
  have ring: "ring_inv (tp_ring s) (held s) (tp_pushed s)" using inv by (simp add: thread_inv_def)
  have less: "unat (sr_tail (tp_ring s)) < length (tp_pushed s)" using worker_okD [OF inv w] by (simp add: pc tail)
  note c = ring_claim [OF ring less, unfolded tail]
  show ?thesis
    by (rule worker_inv [OF inv w, where pc = "W_Claimed pos" and r = "(tp_ring s)\<lparr>sr_tail := pos + 1\<rparr>" and ex = "tp_executed s" and pend = "tp_pending s" and fin = "tp_finished s" and h = "add_mset (unat pos) (held s)"])
      (use c less in \<open>simp_all add: pc tail next_free_def free_claim [OF ring_inv_parts(2) [OF ring]] take_Suc_conv_app_nth free_claim [OF ring_inv_parts(2) [OF ring], unfolded tail]\<close>)
qed

lemma read_inv:
  assumes inv: "thread_inv tasks s" and w: "w < length (tp_workers s)" and pc: "tp_workers s ! w = W_Claimed pos"
  shows "thread_inv tasks (set_worker w (W_Read pos (sr_slots (tp_ring s) ! spmc_index (tp_ring s) pos)) s)"
proof -
  have ring: "ring_inv (tp_ring s) (held s) (tp_pushed s)" using inv by (simp add: thread_inv_def)
  have mem: "unat pos \<in># held s" using held_member [OF w] by (simp add: pc)
  have less: "unat pos < length (tp_pushed s)" using worker_okD [OF inv w] by (simp add: pc)
  have "length (tp_pushed s) \<le> unat pos + length (sr_slots (tp_ring s))" using ring_inv_parts(2) [OF ring] mem by (simp add: held_ok_def)
  from occupied_slot(2) [OF ring less this] mem show ?thesis
    by (intro worker_move [OF inv w]) (simp_all add: pc less)
qed

lemma release_inv:
  assumes inv: "thread_inv tasks s" and w: "w < length (tp_workers s)" and pc: "tp_workers s ! w = W_Read pos v"
  shows "thread_inv tasks (set_worker w (W_Run v)
    (s\<lparr>tp_ring := put_sequence pos (pos + of_nat (length (sr_slots (tp_ring s)))) (tp_ring s)\<rparr>))"
proof -
  have ring: "ring_inv (tp_ring s) (held s) (tp_pushed s)" using inv by (simp add: thread_inv_def)
  have mem: "unat pos \<in># held s" using held_member [OF w] by (simp add: pc)
  show ?thesis
    by (rule worker_inv [OF inv w, where pc = "W_Run v" and r = "put_sequence pos (pos + of_nat (length (sr_slots (tp_ring s)))) (tp_ring s)" and ex = "tp_executed s" and pend = "tp_pending s" and fin = "tp_finished s" and h = "held s - {#unat pos#}"])
      (use ring_release [OF ring mem] mem in \<open>simp_all add: pc next_free_def free_release\<close>)
qed

lemma pop_step_inv:
  assumes step: "pop_step w s t" and inv: "thread_inv tasks s" and w: "w < length (tp_workers s)"
  shows "thread_inv tasks t"
  using step
proof (cases rule: pop_step.cases)
  case (w_some a pos)
  have ring: "ring_inv (tp_ring s) (held s) (tp_pushed s)" using inv by (simp add: thread_inv_def)
  have "unat pos < length (tp_pushed s)" by (rule ring_seen [OF ring]) (use worker_okD [OF inv w] w_some in simp_all)
  then show ?thesis unfolding w_some(1) by (intro worker_move [OF inv w]) (simp_all add: w_some)
qed (use w in \<open>auto intro: worker_move [OF inv] claim_inv [OF inv] read_inv [OF inv] release_inv [OF inv]\<close>)

lemma loop_step_inv:
  assumes step: "loop_step w s t" and inv: "thread_inv tasks s" and w: "w < length (tp_workers s)"
  shows "thread_inv tasks t"
  using step
proof (cases rule: loop_step.cases)
  case (l_run v)
  show ?thesis
    by (rule worker_inv [OF inv w, where pc = W_Ran and r = "tp_ring s" and ex = "tp_executed s @ [v]" and pend = "tp_pending s" and fin = "tp_finished s" and h = "held s"])
      (use inv l_run in \<open>simp_all add: thread_inv_def next_free_def\<close>)
next
  case l_count
  show ?thesis
    by (rule worker_inv [OF inv w, where pc = "W_Start (First 0)" and r = "tp_ring s" and ex = "tp_executed s" and pend = "tp_pending s - 1" and fin = "Suc (tp_finished s)" and h = "held s"])
      (use inv l_count in \<open>simp_all add: thread_inv_def next_free_def\<close>)
qed (use w in \<open>auto intro: worker_move [OF inv]\<close>)

section \<open>The producer\<close>

lemma held_simps [simp]:
  "held (s\<lparr>tp_producer := pc\<rparr>) = held s" "held (s\<lparr>tp_pending := p\<rparr>) = held s" "held (s\<lparr>tp_ring := r\<rparr>) = held s"
  "held (s\<lparr>tp_pushed := ps\<rparr>) = held s" "held (s\<lparr>tp_todo := ts\<rparr>) = held s" "held (s\<lparr>tp_epoch := e\<rparr>) = held s"
  "held (s\<lparr>tp_stop := b\<rparr>) = held s"
  by (simp_all add: held_def)

lemma in_hand_simps [simp]:
  "in_hand (s\<lparr>tp_producer := pc\<rparr>) = in_hand s" "in_hand (s\<lparr>tp_pending := p\<rparr>) = in_hand s" "in_hand (s\<lparr>tp_ring := r\<rparr>) = in_hand s"
  "in_hand (s\<lparr>tp_todo := ts\<rparr>) = in_hand s" "in_hand (s\<lparr>tp_epoch := e\<rparr>) = in_hand s"
  "in_hand (s\<lparr>tp_stop := b\<rparr>) = in_hand s"
  by (simp_all add: in_hand_def)

lemma just_ran_simps [simp]:
  "just_ran (s\<lparr>tp_producer := pc\<rparr>) = just_ran s" "just_ran (s\<lparr>tp_pending := p\<rparr>) = just_ran s" "just_ran (s\<lparr>tp_ring := r\<rparr>) = just_ran s"
  "just_ran (s\<lparr>tp_pushed := ps\<rparr>) = just_ran s" "just_ran (s\<lparr>tp_todo := ts\<rparr>) = just_ran s" "just_ran (s\<lparr>tp_epoch := e\<rparr>) = just_ran s"
  "just_ran (s\<lparr>tp_stop := b\<rparr>) = just_ran s"
  by (simp_all add: just_ran_def)

lemmas thread_inv_defs = thread_inv_def tasks_ok_def work_ok_def count_ok_def next_task_def next_free_def

text \<open>Tasks published later do not change what the workers hold.\<close>

lemma pc_tasks_append: "worker_ok r pushed pc \<Longrightarrow> pc_tasks (pushed @ [v]) pc = pc_tasks pushed pc"
  by (cases pc) (simp_all add: nth_append)

lemma worker_ok_append: "worker_ok r pushed pc \<Longrightarrow> worker_ok (put_sequence pos q r) (pushed @ [v]) pc"
  by (cases pc) (simp_all add: nth_append)

lemma publish_inv:
  assumes inv: "thread_inv tasks s" and pc: "tp_producer s = P_Stored v pos"
  shows "thread_inv tasks (s\<lparr>tp_producer := P_Published pos, tp_ring := put_sequence pos (pos + 1) (tp_ring s),
      tp_pushed := tp_pushed s @ [v], tp_todo := tl (tp_todo s)\<rparr>)" (is "thread_inv tasks ?t")
proof -
  note I = inv [unfolded thread_inv_defs]
  have pos: "unat pos = length (tp_pushed s)" and todo: "tp_todo s = v # tl (tp_todo s)" using I by (auto simp: pc next_task_def)
  have ok: "list_all (worker_ok (tp_ring s) (tp_pushed s)) (tp_workers s)" using I by blast
  have len: "length (tp_todo s) = Suc (length (tl (tp_todo s)))" by (subst todo) simp
  have "ring_inv (put_sequence pos (pos + 1) (tp_ring s)) (held s) (tp_pushed s @ [v])"
  proof (rule ring_publish [OF _ pos])
    show "Suc (length (tp_pushed s)) + length (sr_slots (tp_ring s)) < 2 ^ 64" using I len by linarith
  qed (use I in \<open>simp_all add: pc next_free_def\<close>)
  moreover have "tasks_ok tasks ?t" using I len todo by (simp add: tasks_ok_def pc del: length_tl)
  moreover have "list_all (worker_ok (tp_ring ?t) (tp_pushed ?t)) (tp_workers ?t)"
    using ok by (auto simp: list_all_iff worker_ok_append)
  moreover have "work_ok ?t"
  proof -
    have "in_hand ?t = in_hand s" unfolding in_hand_def using ok pc_tasks_append by (fastforce simp: list_all_iff intro!: arg_cong [where f = sum_list])
    moreover have "unat (sr_tail (tp_ring s)) \<le> length (tp_pushed s)" using I ring_inv_parts(6) by blast
    ultimately show ?thesis using I by (simp add: work_ok_def)
  qed
  moreover have "count_ok ?t" using I by (simp add: count_ok_def pc)
  ultimately show ?thesis using pos by (simp add: thread_inv_def)
qed

lemma store_inv:
  assumes inv: "thread_inv tasks s" and pc: "tp_producer s = P_Free v pos"
  shows "thread_inv tasks (s\<lparr>tp_producer := P_Stored v pos, tp_ring := put_slot pos v (tp_ring s)\<rparr>)"
proof -
  have I: "ring_inv (tp_ring s) (held s) (tp_pushed s)" "unat pos = length (tp_pushed s)" "next_free s"
    using inv by (simp_all add: thread_inv_def pc)
  note st = ring_store [OF I(1,2) I(3) [unfolded next_free_def], of v]
  have "list_all (worker_ok (put_slot pos v (tp_ring s)) (tp_pushed s)) (tp_workers s)"
    using inv by (auto simp: thread_inv_def list_all_iff intro: worker_ok_mono)
  then show ?thesis using inv st by (simp add: thread_inv_defs pc)
qed

lemma head_moved: "list_all (worker_ok (r\<lparr>sr_head := p\<rparr>) pushed) ws = list_all (worker_ok r pushed) ws"
proof -
  have "worker_ok (r\<lparr>sr_head := p\<rparr>) pushed pc = worker_ok r pushed pc" for pc by (cases pc) simp_all
  then show ?thesis by (simp add: list_all_iff)
qed

lemma move_inv:
  assumes inv: "thread_inv tasks s" and pc: "tp_producer s = P_Published pos"
  shows "thread_inv tasks (s\<lparr>tp_producer := P_Moved, tp_ring := (tp_ring s)\<lparr>sr_head := pos + 1\<rparr>\<rparr>)"
proof -
  note I = inv [unfolded thread_inv_defs]
  have n: "Suc (unat pos) = length (tp_pushed s)" using I by (simp add: pc)
  have "unat (pos + 1) = Suc (unat pos)"
    by (rule unat_succ [of _ "length (tp_pushed s)"]) (use n ring_inv_parts(4) [of "tp_ring s"] I in \<open>auto\<close>)
  then show ?thesis using I n by (simp add: thread_inv_defs pc ring_head head_moved)
qed

lemma enqueue_step_inv:
  assumes step: "enqueue_step s t" and inv: "thread_inv tasks s"
  shows "thread_inv tasks t"
  using step
proof (cases rule: enqueue_step.cases)
  case (e_free v pos)
  have I: "ring_inv (tp_ring s) (held s) (tp_pushed s)" "unat pos = length (tp_pushed s)"
    using inv by (simp_all add: thread_inv_def e_free)
  then show ?thesis using inv ring_free [OF I] by (simp add: thread_inv_defs e_free)
next
  case (e_notify_one w e)
  have "thread_inv tasks (s\<lparr>tp_producer := P_Next\<rparr>)" using inv by (simp add: thread_inv_defs e_notify_one)
  then show ?thesis unfolding e_notify_one(1) by (rule worker_move) (simp_all add: e_notify_one)
next
  case (e_slot v pos)
  then show ?thesis using store_inv [OF inv] by simp
next
  case (e_publish v pos)
  then show ?thesis using publish_inv [OF inv] by simp
next
  case (e_move pos)
  then show ?thesis using move_inv [OF inv] by simp
qed (use inv in \<open>simp_all add: thread_inv_defs diff_add_eq\<close>)

text \<open>The tasks executed and in hand are among those published.\<close>

lemma work_bound:
  assumes inv: "thread_inv tasks s"
  shows "length (tp_executed s) + size (in_hand s) = unat (sr_tail (tp_ring s))"
    "unat (sr_tail (tp_ring s)) \<le> length (tp_pushed s)" "tp_finished s \<le> length (tp_executed s)"
proof -
  show le: "unat (sr_tail (tp_ring s)) \<le> length (tp_pushed s)" using inv ring_inv_parts(6) by (auto simp: thread_inv_def)
  have "size (mset (take (unat (sr_tail (tp_ring s))) (tp_pushed s))) = size (mset (tp_executed s) + in_hand s)"
    using inv by (simp add: thread_inv_def work_ok_def)
  then show "length (tp_executed s) + size (in_hand s) = unat (sr_tail (tp_ring s))" using le by simp
  show "tp_finished s \<le> length (tp_executed s)" using inv by (simp add: thread_inv_def count_ok_def)
qed

lemma wait_step_inv:
  assumes step: "wait_step s t" and inv: "thread_inv tasks s"
  shows "thread_inv tasks t"
  using step
proof (cases rule: wait_step.cases)
  case wait_done
  note I = inv [unfolded thread_inv_defs]
  have "(of_nat (tp_finished s) :: u64) = of_nat (length (tp_pushed s))" using I by (simp add: wait_done)
  moreover have "length (tp_pushed s) < 2 ^ 64" using ring_inv_parts(4) [of "tp_ring s"] I by fastforce
  ultimately have "tp_finished s = length (tp_pushed s)" using work_bound [OF inv] of_nat_u64_eq by fastforce
  then show ?thesis using inv by (simp add: thread_inv_defs wait_done)
qed (use inv in simp)

lemma destroy_step_inv:
  assumes step: "destroy_step s t" and inv: "thread_inv tasks s"
  shows "thread_inv tasks t"
  using step inv
  by (cases rule: destroy_step.cases) (simp_all add: thread_inv_defs list_all_iff held_def in_hand_def just_ran_def comp_def)

lemma thread_step_inv: "thread_step s t \<Longrightarrow> thread_inv tasks s \<Longrightarrow> thread_inv tasks t"
  by (induction rule: thread_step.induct)
    (blast intro: enqueue_step_inv wait_step_inv destroy_step_inv pop_step_inv loop_step_inv)+

end
