(* ===== verification/Thread_Pool_Wakeup.thy ===== *)
theory Thread_Pool_Wakeup
  imports Thread_Pool_Correct
begin

text \<open>
  Sleeping and waking in core/arena/thread\_pool.cc: a worker blocks in \<open>work_epoch_.wait\<close> on the
  epoch it has seen before its second look at the ring, \<open>enqueue\<close> increments the epoch and notifies
  one worker, the destructor notifies all. The invariant of this theory says why no wakeup is lost.
\<close>

section \<open>The invariant\<close>

fun attempt_before :: "u64 \<Rightarrow> attempt \<Rightarrow> bool" where
  "attempt_before epoch (First n) = True"
| "attempt_before epoch (Second e) = (unat e \<le> unat epoch)"

text \<open>The epochs the workers remember are not later than the epoch.\<close>

fun epoch_le :: "u64 \<Rightarrow> 't worker_pc \<Rightarrow> bool" where
  "epoch_le epoch (W_Start a) = attempt_before epoch a"
| "epoch_le epoch (W_Loaded a pos) = attempt_before epoch a"
| "epoch_le epoch (W_Seen a pos) = attempt_before epoch a"
| "epoch_le epoch (W_Empty a) = attempt_before epoch a"
| "epoch_le epoch (W_Sleep e) = (unat e \<le> unat epoch)"
| "epoch_le epoch (W_Blocked e) = (unat e \<le> unat epoch)"
| "epoch_le epoch _ = True"

text \<open>The epoch against the number of tasks published.\<close>

fun epoch_at :: "'t enqueue_pc \<Rightarrow> nat \<Rightarrow> nat \<Rightarrow> bool" where
  "epoch_at (P_Published _) n e = (Suc e = n)"
| "epoch_at P_Moved n e = (Suc e = n)"
| "epoch_at P_Notify_All n e = (e = Suc n)"
| "epoch_at P_Stopped n e = (e = Suc n)"
| "epoch_at _ n e = (e = n)"

definition epoch_ok :: "'t ThreadPool \<Rightarrow> bool" where
  "epoch_ok s \<longleftrightarrow> epoch_at (tp_producer s) (length (tp_pushed s)) (unat (tp_epoch s)) \<and> list_all (epoch_le (tp_epoch s)) (tp_workers s)"

fun stopping :: "'t enqueue_pc \<Rightarrow> bool" where
  "stopping P_Stopping = True"
| "stopping P_Notify_All = True"
| "stopping P_Stopped = True"
| "stopping _ = False"

text \<open>After the destructor has incremented the epoch no worker waits for it to change.\<close>

fun stop_pc :: "'t enqueue_pc \<Rightarrow> u64 \<Rightarrow> 't worker_pc \<Rightarrow> bool" where
  "stop_pc P_Notify_All epoch pc = (pc \<noteq> W_Sleep epoch \<and> pc \<noteq> W_Blocked epoch)"
| "stop_pc P_Stopped epoch pc = (pc \<noteq> W_Sleep epoch \<and> unblock pc = pc)"
| "stop_pc P_Stopping epoch pc = True"
| "stop_pc _ epoch pc = (pc \<noteq> W_Exit)"

definition stop_ok :: "'t ThreadPool \<Rightarrow> bool" where
  "stop_ok s \<longleftrightarrow> tp_stop s = stopping (tp_producer s) \<and> list_all (stop_pc (tp_producer s) (tp_epoch s)) (tp_workers s)"

text \<open>A worker that will look at the ring again, or is at work, without being notified.\<close>

fun alert :: "u64 \<Rightarrow> u64 \<Rightarrow> 't worker_pc \<Rightarrow> bool" where
  "alert epoch tail (W_Loaded (Second e) pos) = (e \<noteq> epoch \<or> pos = tail)"
| "alert epoch tail (W_Empty (Second e)) = (e \<noteq> epoch)"
| "alert epoch tail (W_Sleep e) = (e \<noteq> epoch)"
| "alert epoch tail (W_Blocked e) = False"
| "alert epoch tail W_Exit = False"
| "alert epoch tail _ = True"

fun blocked_before :: "u64 \<Rightarrow> 't worker_pc \<Rightarrow> bool" where
  "blocked_before epoch (W_Blocked e) = (e \<noteq> epoch)"
| "blocked_before epoch _ = False"

fun publishing :: "'t enqueue_pc \<Rightarrow> bool" where
  "publishing (P_Published _) = True"
| "publishing P_Moved = True"
| "publishing _ = False"

definition unclaimed :: "'t ThreadPool \<Rightarrow> bool" where
  "unclaimed s \<longleftrightarrow> unat (sr_tail (tp_ring s)) < length (tp_pushed s)"

definition wake_ok :: "'t ThreadPool \<Rightarrow> bool" where
  "wake_ok s \<longleftrightarrow> (unclaimed s \<and> tp_workers s \<noteq> [] \<and> \<not> publishing (tp_producer s) \<longrightarrow>
     list_ex (alert (tp_epoch s) (sr_tail (tp_ring s))) (tp_workers s) \<or>
     tp_producer s = P_Notify \<and> list_all (blocked_before (tp_epoch s)) (tp_workers s))"

definition sleep_inv :: "'t ThreadPool \<Rightarrow> bool" where
  "sleep_inv s \<longleftrightarrow> epoch_ok s \<and> stop_ok s \<and> wake_ok s"

text \<open>A new pool on a ring of at least two slots, before the producer enqueues \<open>tasks\<close>.\<close>

definition pool_start :: "'t list \<Rightarrow> 't ThreadPool \<Rightarrow> bool" where
  "pool_start tasks s \<longleftrightarrow> (\<exists>slots sequence ring workers num_threads.
     spmc_create slots sequence = Some ring \<and> sr_ok ring \<and> 2 \<le> length slots \<and>
     length tasks + length slots < 2 ^ 64 \<and> s = thread_pool_create ring workers num_threads tasks)"

section \<open>Steps of a worker\<close>

lemma stop_pc_before [simp]: "\<not> stopping p \<Longrightarrow> stop_pc p epoch = (\<lambda>pc. pc \<noteq> W_Exit)"
  by (cases p) (auto simp: fun_eq_iff)

lemma list_all_update: "list_all P xs \<Longrightarrow> P y \<Longrightarrow> list_all P (xs[i := y])"
  using set_update_subset_insert [of xs i y] by (auto simp: list_all_iff)

lemma list_ex_update: "i < length xs \<Longrightarrow> list_ex P xs \<Longrightarrow> (P (xs ! i) \<Longrightarrow> P y) \<Longrightarrow> list_ex P (xs[i := y])"
  by (auto simp: list_ex_length nth_list_update) metis

lemma list_ex_update_new: "i < length xs \<Longrightarrow> P y \<Longrightarrow> list_ex P (xs[i := y])"
  by (auto simp: list_ex_length nth_list_update)

lemma worker_wake:
  assumes wake: "wake_ok s" and w: "w < length (tp_workers s)"
    and t: "tp_workers t = (tp_workers s)[w := pc]" "tp_producer t = tp_producer s" "tp_epoch t = tp_epoch s" "tp_pushed t = tp_pushed s"
    and nb: "\<not> blocked_before (tp_epoch s) (tp_workers s ! w)"
    and pc: "alert (tp_epoch s) (sr_tail (tp_ring t)) pc \<or> sr_tail (tp_ring t) = sr_tail (tp_ring s) \<and>
      (unclaimed s \<longrightarrow> \<not> alert (tp_epoch s) (sr_tail (tp_ring s)) (tp_workers s ! w))"
  shows "wake_ok t"
proof (cases "alert (tp_epoch s) (sr_tail (tp_ring t)) pc")
  case True
  then show ?thesis by (simp add: wake_ok_def t list_ex_update_new [OF w])
next
  case False
  then have tl: "sr_tail (tp_ring t) = sr_tail (tp_ring s)" "unclaimed s \<Longrightarrow> \<not> alert (tp_epoch s) (sr_tail (tp_ring s)) (tp_workers s ! w)"
    using pc by simp_all
  have "\<not> list_all (blocked_before (tp_epoch s)) (tp_workers s)" using nb w by (auto simp: list_all_length)
  then show ?thesis using wake tl list_ex_update [OF w, of "alert (tp_epoch s) (sr_tail (tp_ring s))" pc]
    by (auto simp: wake_ok_def t unclaimed_def)
qed

lemma unclaimed_seen:
  assumes inv: "thread_inv tasks s" and un: "unclaimed s"
  shows "spmc_sequence (tp_ring s) (sr_tail (tp_ring s)) = sr_tail (tp_ring s) + 1"
proof -
  have ring: "ring_inv (tp_ring s) (held s) (tp_pushed s)" using inv by (simp add: thread_inv_def)
  show ?thesis by (rule occupied_slot(1) [OF ring]) (use un ring_inv_parts(7) [OF ring] in \<open>simp_all add: unclaimed_def\<close>)
qed

lemma alert_loaded [simp]: "alert epoch tail (W_Loaded a tail)" by (cases a) simp_all

lemma worker_sleep:
  assumes inv: "sleep_inv s" and w: "w < length (tp_workers s)"
    and t: "tp_workers t = (tp_workers s)[w := pc]" "tp_producer t = tp_producer s" "tp_epoch t = tp_epoch s"
      "tp_pushed t = tp_pushed s" "tp_stop t = tp_stop s"
    and nb: "\<not> blocked_before (tp_epoch s) (tp_workers s ! w)"
    and new: "epoch_le (tp_epoch s) pc" "stop_pc (tp_producer s) (tp_epoch s) pc"
    and al: "alert (tp_epoch s) (sr_tail (tp_ring t)) pc \<or> sr_tail (tp_ring t) = sr_tail (tp_ring s) \<and>
      (unclaimed s \<longrightarrow> \<not> alert (tp_epoch s) (sr_tail (tp_ring s)) (tp_workers s ! w))"
  shows "sleep_inv t"
proof -
  have "epoch_ok t" "stop_ok t" using inv new by (simp_all add: sleep_inv_def epoch_ok_def stop_ok_def t list_all_update)
  then show ?thesis using worker_wake [OF _ w t(1-4) nb al] inv by (simp add: sleep_inv_def)
qed

lemma sleep_invD:
  assumes "sleep_inv s" "w < length (tp_workers s)"
  shows "epoch_le (tp_epoch s) (tp_workers s ! w)" "stop_pc (tp_producer s) (tp_epoch s) (tp_workers s ! w)" "tp_stop s = stopping (tp_producer s)"
  using assms by (simp_all add: sleep_inv_def epoch_ok_def stop_ok_def list_all_length)

text \<open>Program counters the destructor has nothing to say about.\<close>

lemma stop_pc_running: "pc \<noteq> W_Exit \<Longrightarrow> unblock pc = pc \<Longrightarrow> (\<And>e. pc \<noteq> W_Sleep e) \<Longrightarrow> stop_pc p epoch pc"
  by (cases p; cases pc) simp_all

lemma pop_step_sleep:
  assumes step: "pop_step w s t" and inv: "thread_inv tasks s" "sleep_inv s" and w: "w < length (tp_workers s)"
  shows "sleep_inv t"
  using step
proof (cases rule: pop_step.cases)
  case (w_none a pos)
  have "\<not> alert (tp_epoch s) (sr_tail (tp_ring s)) (W_Loaded a pos) \<or> alert (tp_epoch s) (sr_tail (tp_ring s)) (W_Empty a)" if "unclaimed s"
    using w_none(3) unclaimed_seen [OF inv(1) that] by (cases a) auto
  then show ?thesis using sleep_invD(1) [OF inv(2) w]
    by (intro worker_sleep [OF inv(2) w, where pc = "W_Empty a"]) (auto simp: w_none(1,2) stop_pc_running)
next
  case (w_invalid a)
  then show ?thesis using inv(1) ring_inv_parts(8) by (auto simp: thread_inv_def)
qed (use sleep_invD(1) [OF inv(2) w] in \<open>auto intro!: worker_sleep [OF inv(2) w] stop_pc_running\<close>)

text \<open>While the destructor runs every task has been executed.\<close>

lemma stopping_claimed:
  assumes inv: "thread_inv tasks s" and stop: "stopping (tp_producer s)"
  shows "\<not> unclaimed s"
proof -
  have "length (tp_pushed s) \<le> tp_finished s" using inv stop by (cases "tp_producer s") (simp_all add: thread_inv_def)
  then show ?thesis using work_bound [OF inv] by (simp add: unclaimed_def)
qed

lemma loop_step_sleep:
  assumes step: "loop_step w s t" and inv: "thread_inv tasks s" "sleep_inv s" and w: "w < length (tp_workers s)"
  shows "sleep_inv t"
  using step
proof (cases rule: loop_step.cases)
  case (l_stop a)
  note D = sleep_invD [OF inv(2) w]
  have stop: "stopping (tp_producer s)" using D(3) l_stop by simp
  show ?thesis
    by (rule worker_sleep [OF inv(2) w, where pc = W_Exit])
      (use l_stop stop stopping_claimed [OF inv(1) stop] in \<open>cases "tp_producer s"; simp\<close>)+
next
  case (l_sleep e)
  note D = sleep_invD [OF inv(2) w]
  have "stop_pc (tp_producer s) (tp_epoch s) (W_Sleep e)" using D(3) l_sleep by (cases "tp_producer s") simp_all
  then show ?thesis using D l_sleep by (intro worker_sleep [OF inv(2) w, where pc = "W_Sleep e"]) auto
next
  case (l_block e)
  note D = sleep_invD [OF inv(2) w]
  have "stop_pc (tp_producer s) (tp_epoch s) (W_Blocked e)" using D(2) l_block by (cases "tp_producer s") simp_all
  then show ?thesis using D l_block by (intro worker_sleep [OF inv(2) w, where pc = "W_Blocked e"]) auto
qed (use sleep_invD(1) [OF inv(2) w] in \<open>auto intro!: worker_sleep [OF inv(2) w] stop_pc_running\<close>)

section \<open>Steps of the producer\<close>

text \<open>Steps that change neither the workers nor what they look at.\<close>

lemma producer_sleep:
  assumes inv: "sleep_inv s" and t: "tp_workers t = tp_workers s" "tp_epoch t = tp_epoch s"
      "sr_tail (tp_ring t) = sr_tail (tp_ring s)" "tp_pushed t = tp_pushed s" "tp_stop t = tp_stop s"
    and pcs: "tp_producer s \<noteq> P_Notify" "publishing (tp_producer s) \<Longrightarrow> publishing (tp_producer t)"
      "\<And>n e. epoch_at (tp_producer s) n e \<Longrightarrow> epoch_at (tp_producer t) n e"
      "stopping (tp_producer s) = stopping (tp_producer t)"
      "\<And>e pc. stop_pc (tp_producer s) e pc \<Longrightarrow> stop_pc (tp_producer t) e pc"
  shows "sleep_inv t"
proof -
  have "list_all (stop_pc (tp_producer t) (tp_epoch s)) (tp_workers s)" using inv pcs(5) by (simp add: sleep_inv_def stop_ok_def list_all_iff)
  then show ?thesis using inv pcs(1-4) by (auto simp: sleep_inv_def epoch_ok_def stop_ok_def wake_ok_def unclaimed_def t)
qed

lemma unat_epoch_succ:
  assumes "thread_inv tasks s" "unat (tp_epoch s) \<le> length (tp_pushed s)"
  shows "unat (tp_epoch s + 1) = Suc (unat (tp_epoch s))"
proof (rule unat_succ [of _ "Suc (length (tp_pushed s))"])
  have "ring_inv (tp_ring s) (held s) (tp_pushed s)" using assms(1) by (simp add: thread_inv_def)
  from ring_inv_parts(4,5) [OF this] show "Suc (length (tp_pushed s)) < 2 ^ 64" by linarith
qed (use assms in simp)

lemma attempt_later: "attempt_before e a \<Longrightarrow> unat e \<le> unat e' \<Longrightarrow> attempt_before e' a" by (cases a) simp_all
lemma epoch_later: "epoch_le e pc \<Longrightarrow> unat e \<le> unat e' \<Longrightarrow> epoch_le e' pc" by (cases pc) (auto intro: attempt_later)

text \<open>When the epoch moves on, every worker that is not blocked looks at the ring again.\<close>

lemma epoch_moves:
  assumes "epoch_le e pc" "unat e < unat e'" "pc \<noteq> W_Exit"
  shows "alert e' tail pc \<or> blocked_before e' pc"
proof -
  have ne: "f \<noteq> e'" if "unat f \<le> unat e" for f :: u64 using that assms(2) by auto
  have "alert e' tail (W_Loaded a pos)" "alert e' tail (W_Empty a)" if "attempt_before e a" for a pos
    using that ne by (cases a; simp)+
  then show ?thesis using assms ne by (cases pc) auto
qed

lemma epoch_step_sleep:
  assumes inv: "thread_inv tasks s" "sleep_inv s" and pc: "tp_producer s = P_Moved"
  shows "sleep_inv (s\<lparr>tp_producer := P_Notify, tp_epoch := tp_epoch s + 1\<rparr>)"
proof -
  have I: "Suc (unat (tp_epoch s)) = length (tp_pushed s)" "list_all (epoch_le (tp_epoch s)) (tp_workers s)"
    "\<not> tp_stop s" "list_all (\<lambda>pc. pc \<noteq> W_Exit) (tp_workers s)"
    using inv(2) by (simp_all add: sleep_inv_def epoch_ok_def stop_ok_def pc list_all_iff)
  have e: "unat (tp_epoch s + 1) = Suc (unat (tp_epoch s))" using unat_epoch_succ [OF inv(1)] I(1) by simp
  have "list_all (epoch_le (tp_epoch s + 1)) (tp_workers s)" using I(2) e by (auto simp: list_all_iff intro: epoch_later)
  moreover have "\<forall>pc \<in> set (tp_workers s). alert (tp_epoch s + 1) (sr_tail (tp_ring s)) pc \<or> blocked_before (tp_epoch s + 1) pc"
  proof
    fix pc assume "pc \<in> set (tp_workers s)"
    then have "epoch_le (tp_epoch s) pc" "pc \<noteq> W_Exit" using I(2,4) by (simp_all add: list_all_iff)
    then show "alert (tp_epoch s + 1) (sr_tail (tp_ring s)) pc \<or> blocked_before (tp_epoch s + 1) pc"
      using epoch_moves [of "tp_epoch s" pc "tp_epoch s + 1"] by (simp add: e)
  qed
  ultimately show ?thesis using I e
    by (auto simp: sleep_inv_def epoch_ok_def stop_ok_def wake_ok_def list_all_iff list_ex_iff)
qed

lemma notify_one_sleep:
  assumes inv: "sleep_inv s" and pc: "tp_producer s = P_Notify" and w: "w < length (tp_workers s)" "tp_workers s ! w = W_Blocked e"
  shows "sleep_inv (set_worker w (W_Sleep e) (s\<lparr>tp_producer := P_Next\<rparr>))"
proof -
  have "epoch_le (tp_epoch s) (W_Blocked e)" using sleep_invD(1) [OF inv w(1)] by (simp add: w)
  moreover have "list_ex (alert (tp_epoch s) (sr_tail (tp_ring s))) ((tp_workers s)[w := W_Sleep e])"
    if "unclaimed s" "tp_workers s \<noteq> []"
  proof (cases "list_ex (alert (tp_epoch s) (sr_tail (tp_ring s))) (tp_workers s)")
    case True
    then show ?thesis by (rule list_ex_update [OF w(1)]) (simp add: w)
  next
    case False
    then have "list_all (blocked_before (tp_epoch s)) (tp_workers s)" using inv that by (simp add: sleep_inv_def wake_ok_def pc)
    then have "blocked_before (tp_epoch s) (tp_workers s ! w)" using w(1) by (simp add: list_all_length)
    then show ?thesis by (intro list_ex_update_new [OF w(1)]) (simp add: w)
  qed
  ultimately show ?thesis using inv
    by (auto simp: sleep_inv_def epoch_ok_def stop_ok_def wake_ok_def unclaimed_def pc intro!: list_all_update)
qed

lemma enqueue_step_sleep:
  assumes step: "enqueue_step s t" and inv: "thread_inv tasks s" "sleep_inv s"
  shows "sleep_inv t"
  using step
proof (cases rule: enqueue_step.cases)
  case (e_publish v pos)
  then show ?thesis using inv(2) by (simp add: sleep_inv_def epoch_ok_def stop_ok_def wake_ok_def)
next
  case e_epoch
  then show ?thesis using epoch_step_sleep [OF inv] by simp
next
  case (e_notify_one w e)
  then show ?thesis using notify_one_sleep [OF inv(2)] by simp
next
  case e_notify_none
  have "\<not> list_all (blocked_before (tp_epoch s)) (tp_workers s)" if ne: "tp_workers s \<noteq> []"
  proof
    assume all: "list_all (blocked_before (tp_epoch s)) (tp_workers s)"
    obtain pc where "pc \<in> set (tp_workers s)" using ne by (cases "tp_workers s") auto
    then have "blocked_before (tp_epoch s) pc" "unblock pc = pc" using all e_notify_none by (simp_all add: list_all_iff)
    then show False by (cases pc) simp_all
  qed
  then show ?thesis using inv(2) by (auto simp: sleep_inv_def epoch_ok_def stop_ok_def wake_ok_def unclaimed_def e_notify_none)
qed (rule producer_sleep [OF inv(2)]; simp)+

lemma wait_step_sleep:
  assumes step: "wait_step s t" and inv: "sleep_inv s"
  shows "sleep_inv t"
  using step
proof (cases rule: wait_step.cases)
  case wait_done
  show ?thesis by (rule producer_sleep [OF inv]) (simp_all add: wait_done)
qed (use inv in simp)

lemma destroy_step_sleep:
  assumes step: "destroy_step s t" and inv: "thread_inv tasks s" "sleep_inv s" and inv': "thread_inv tasks t"
  shows "sleep_inv t"
  using step
proof (cases rule: destroy_step.cases)
  case d_stop
  have "wake_ok t" using stopping_claimed [OF inv'] by (simp add: wake_ok_def d_stop)
  then show ?thesis using inv(2) by (simp add: sleep_inv_def epoch_ok_def stop_ok_def d_stop list_all_iff)
next
  case d_epoch
  have I: "unat (tp_epoch s) = length (tp_pushed s)" "list_all (epoch_le (tp_epoch s)) (tp_workers s)" "tp_stop s"
    using inv(2) by (simp_all add: sleep_inv_def epoch_ok_def stop_ok_def d_epoch)
  have e: "unat (tp_epoch s + 1) = Suc (unat (tp_epoch s))" using unat_epoch_succ [OF inv(1)] I(1) by simp
  have "list_all (epoch_le (tp_epoch s + 1)) (tp_workers s)" using I(2) e by (auto simp: list_all_iff intro: epoch_later)
  moreover have "list_all (stop_pc P_Notify_All (tp_epoch s + 1)) (tp_workers s)" using I(2) e by (auto simp: list_all_iff)
  moreover have "wake_ok t" using stopping_claimed [OF inv'] by (simp add: wake_ok_def d_epoch)
  ultimately show ?thesis using I e by (simp add: sleep_inv_def epoch_ok_def stop_ok_def d_epoch)
next
  case d_notify
  have "epoch_le e (unblock pc) = epoch_le e pc" for e and pc :: "'a worker_pc" by (cases pc) simp_all
  moreover have "stop_pc P_Stopped e (unblock pc)" if "stop_pc P_Notify_All e pc" for e and pc :: "'a worker_pc"
    using that by (cases pc) auto
  moreover have "wake_ok t" using stopping_claimed [OF inv'] by (simp add: wake_ok_def d_notify)
  ultimately show ?thesis using inv(2) by (auto simp: sleep_inv_def epoch_ok_def stop_ok_def d_notify list_all_iff)
qed

lemma thread_step_sleep:
  assumes step: "thread_step s t" and inv: "thread_inv tasks s" "sleep_inv s"
  shows "sleep_inv t"
  using step
proof (cases rule: thread_step.cases)
  case ts_destroy
  then show ?thesis using destroy_step_sleep [OF _ inv thread_step_inv [OF step inv(1)]] by simp
qed (use inv in \<open>auto intro: enqueue_step_sleep wait_step_sleep pop_step_sleep loop_step_sleep\<close>)

section \<open>The pool\<close>

lemma created_ring:
  assumes new: "spmc_create slots sequence = Some ring" and ok: "sr_ok ring" and c: "2 \<le> length slots" "length slots < 2 ^ 64"
  shows "ring_inv ring {#} []" "sr_head ring = 0" "sr_tail ring = 0" "length (sr_slots ring) = length slots"
proof -
  have r: "length slots \<le> length sequence" "single_bit (length slots)"
    "ring = \<lparr>sr_slots = slots, sr_sequence = map of_nat [0 ..< length slots] @ drop (length slots) sequence,
       sr_head = 0, sr_tail = 0, sr_ok = True\<rparr>"
    using new ok by (auto simp: spmc_create_def split: if_splits)
  have "\<exists>k. length slots = 2 ^ k" using r(2) by (auto simp: single_bit_def list_ex_iff)
  moreover have "slot_ok ring {#} [] q" if "q < length slots" for q
    using that by (simp add: slot_ok_def position_free_def r(3) nth_append)
  ultimately show "ring_inv ring {#} []" using c r(1)
    by (simp add: ring_inv_def ring_shape_def held_ok_def ring_slots_ok_def r(3))
qed (use new in \<open>auto simp: spmc_create_def split: if_splits\<close>)

lemma sum_list_replicate_zero: "sum_list (replicate n (0 :: 'a :: monoid_add)) = 0"
  by (induction n) simp_all

lemma pool_start_inv:
  assumes "pool_start tasks s"
  shows "thread_inv tasks s" "sleep_inv s"
proof -
  obtain slots sequence ring workers num_threads where
    new: "spmc_create slots sequence = Some ring" "sr_ok ring" "2 \<le> length slots" "length tasks + length slots < 2 ^ 64"
    and s: "s = thread_pool_create ring workers num_threads tasks"
    using assms by (auto simp: pool_start_def)
  note r = created_ring [OF new(1-3)]
  show "thread_inv tasks s" using r new(4)
    by (simp add: thread_inv_defs s thread_pool_create_def held_def in_hand_def just_ran_def list_all_iff sum_list_replicate_zero)
  show "sleep_inv s" using r new(4)
    by (simp add: sleep_inv_def epoch_ok_def stop_ok_def wake_ok_def unclaimed_def s thread_pool_create_def list_all_iff)
qed

interpretation pool: inductive_invariant "pool_start tasks" thread_step "\<lambda>s. thread_inv tasks s \<and> sleep_inv s" for tasks
  by unfold_locales (auto intro: pool_start_inv thread_step_inv thread_step_sleep)

text \<open>Executed tasks and the tasks in hand when \<open>wait\<close> has returned.\<close>

lemma returned_done:
  assumes inv: "thread_inv tasks s" and pc: "tp_producer s = P_Returned"
  shows "mset (tp_executed s) = mset tasks" "in_hand s = {#}" "tp_pending s = 0"
proof -
  note I = inv [unfolded thread_inv_defs pc]
  have n: "length (tp_pushed s) \<le> tp_finished s" "tasks = tp_pushed s" using I by simp_all
  have eq: "unat (sr_tail (tp_ring s)) = length (tp_pushed s)" "size (in_hand s) = 0" "tp_finished s = length (tp_pushed s)"
    using work_bound [OF inv] n by linarith+
  then show "in_hand s = {#}" by simp
  then show "mset (tp_executed s) = mset tasks" using I eq n by simp
  show "tp_pending s = 0" using I eq by simp
qed

text \<open>A worker that is not blocked can take a step, and so can the producer unless it waits for pending tasks.\<close>

lemma worker_enabled:
  assumes w: "w < length (tp_workers s)" and pc: "tp_workers s ! w \<noteq> W_Exit" "unblock (tp_workers s ! w) = tp_workers s ! w"
  shows "\<exists>t. thread_step s t \<and> t \<noteq> s"
proof -
  have go: ?thesis if "thread_step s (set_worker w pc' s')" "pc' \<noteq> tp_workers s ! w" "tp_workers s' = tp_workers s" for pc' s'
    using that w by (metis nth_list_update_eq set_worker_simps(10))
  note pop = pop_step.intros [THEN ts_pop [OF w]] and loop = loop_step.intros [THEN ts_loop [OF w]]
  show ?thesis
  proof (cases "tp_workers s ! w")
    case (W_Start a)
    then show ?thesis by (cases "sr_ok (tp_ring s)") (auto intro: go [OF pop(1)] go [OF pop(2)])
  next
    case (W_Loaded a pos)
    then show ?thesis
      by (cases "spmc_sequence (tp_ring s) pos = pos + 1") (auto intro: go [OF pop(3)] go [OF pop(4)])
  next
    case (W_Seen a pos)
    show ?thesis by (rule go [OF pop(6) [OF W_Seen]]) (simp_all add: W_Seen)
  next
    case (W_Claimed pos)
    show ?thesis by (rule go [OF pop(7) [OF W_Claimed]]) (simp_all add: W_Claimed)
  next
    case (W_Read pos t)
    show ?thesis by (rule go [OF pop(8) [OF W_Read]]) (simp_all add: W_Read)
  next
    case (W_Run t)
    show ?thesis by (rule go [OF loop(1) [OF W_Run]]) (simp_all add: W_Run)
  next
    case W_Ran
    show ?thesis by (rule go [OF loop(2) [OF W_Ran]]) (simp_all add: W_Ran)
  next
    case (W_Empty a)
    show ?thesis
    proof (cases "tp_stop s")
      case True
      show ?thesis by (rule go [OF loop(3) [OF W_Empty True]]) (simp_all add: W_Empty)
    next
      case False
      show ?thesis
      proof (cases a)
        case (First n)
        with W_Empty False show ?thesis
          by (cases "n < k_idle_spin") (auto intro: go [OF loop(4)] go [OF loop(5)] simp: not_less)
      next
        case (Second e)
        with W_Empty False show ?thesis by (auto intro: go [OF loop(7)])
      qed
    qed
  next
    case W_Observe
    show ?thesis by (rule go [OF loop(6) [OF W_Observe]]) (simp_all add: W_Observe)
  next
    case (W_Sleep e)
    then show ?thesis by (cases "tp_epoch s = e") (auto intro: go [OF loop(8)] go [OF loop(9)])
  qed (use pc in simp_all)
qed

lemma producer_enabled:
  assumes stop: "tp_producer s \<noteq> P_Stopped" and wait: "tp_producer s = P_Next \<Longrightarrow> tp_todo s = [] \<Longrightarrow> tp_pending s = 0"
  shows "\<exists>t. thread_step s t \<and> t \<noteq> s"
proof -
  have go: ?thesis if "thread_step s t" "tp_producer t \<noteq> tp_producer s" for t using that by auto
  note enq = enqueue_step.intros [THEN ts_enqueue] and des = destroy_step.intros [THEN ts_destroy]
  show ?thesis
  proof (cases "tp_producer s")
    case P_Next
    show ?thesis
    proof (cases "tp_todo s")
      case Nil
      show ?thesis by (rule go [OF ts_wait [OF wait_done [OF P_Next Nil wait [OF P_Next Nil]]]]) (simp add: P_Next)
    next
      case (Cons t ts)
      show ?thesis by (rule go [OF enq(1) [OF P_Next Cons]]) (simp add: P_Next)
    qed
  next
    case (P_Counted t)
    then show ?thesis by (cases "sr_ok (tp_ring s)") (auto intro: go [OF enq(2)] go [OF enq(3)])
  next
    case (P_Loaded t pos)
    then show ?thesis by (cases "spmc_sequence (tp_ring s) pos = pos") (auto intro: go [OF enq(4)] go [OF enq(5)])
  next
    case (P_Free t pos)
    show ?thesis by (rule go [OF enq(6) [OF P_Free]]) (simp add: P_Free)
  next
    case (P_Stored t pos)
    show ?thesis by (rule go [OF enq(7) [OF P_Stored]]) (simp add: P_Stored)
  next
    case (P_Published pos)
    show ?thesis by (rule go [OF enq(8) [OF P_Published]]) (simp add: P_Published)
  next
    case P_Moved
    show ?thesis by (rule go [OF enq(9) [OF P_Moved]]) (simp add: P_Moved)
  next
    case P_Notify
    show ?thesis
    proof (cases "\<forall>pc \<in> set (tp_workers s). unblock pc = pc")
      case True
      show ?thesis by (rule go [OF enq(11) [OF P_Notify True]]) (simp add: P_Notify)
    next
      case False
      then obtain w where w: "w < length (tp_workers s)" "unblock (tp_workers s ! w) \<noteq> tp_workers s ! w" by (auto simp: in_set_conv_nth)
      then obtain e where e: "tp_workers s ! w = W_Blocked e" by (cases "tp_workers s ! w") auto
      show ?thesis by (rule go [OF enq(10) [OF P_Notify w(1) e]]) (simp add: P_Notify)
    qed
  next
    case P_Failed
    show ?thesis by (rule go [OF enq(12) [OF P_Failed]]) (simp add: P_Failed)
  next
    case P_Returned
    show ?thesis by (rule go [OF des(1) [OF P_Returned]]) (simp add: P_Returned)
  next
    case P_Stopping
    show ?thesis by (rule go [OF des(2) [OF P_Stopping]]) (simp add: P_Stopping)
  next
    case P_Notify_All
    show ?thesis by (rule go [OF des(3) [OF P_Notify_All]]) (simp add: P_Notify_All)
  qed (use stop in simp)
qed

text \<open>Blocked workers leave nothing undone once the producer has notified.\<close>

lemma asleep_done:
  assumes inv: "thread_inv tasks s" "sleep_inv s" and ne: "tp_workers s \<noteq> []"
    and asleep: "\<forall>pc \<in> set (tp_workers s). unblock pc \<noteq> pc \<or> pc = W_Sleep (tp_epoch s)"
    and quiet: "\<not> publishing (tp_producer s)" "tp_producer s \<noteq> P_Notify"
  shows "mset (tp_executed s) = mset (tp_pushed s)" "tp_finished s = length (tp_pushed s)"
proof -
  have pcs: "(\<exists>e. pc = W_Blocked e) \<or> pc = W_Sleep (tp_epoch s)" if "pc \<in> set (tp_workers s)" for pc
    using asleep that by (cases pc) auto
  have "\<not> alert (tp_epoch s) tail pc" if "pc \<in> set (tp_workers s)" for pc tail using pcs [OF that] by auto
  then have un: "\<not> unclaimed s" using inv(2) ne quiet by (auto simp: sleep_inv_def wake_ok_def list_ex_iff)
  have "set_mset (in_hand s) = {}" using pcs by (fastforce simp: in_hand_def)
  moreover have "just_ran s = 0" using pcs by (fastforce simp: just_ran_def)
  ultimately have idle: "in_hand s = {#}" "just_ran s = 0" by simp_all
  have "unat (sr_tail (tp_ring s)) = length (tp_pushed s)" using un work_bound(2) [OF inv(1)] by (simp add: unclaimed_def)
  then show "mset (tp_executed s) = mset (tp_pushed s)" "tp_finished s = length (tp_pushed s)"
    using inv(1) idle work_bound(1) [OF inv(1)] by (simp_all add: thread_inv_def work_ok_def count_ok_def)
qed

end
