(* ===== verification/Thread_Pool_Properties.thy ===== *)
theory Thread_Pool_Properties
  imports Thread_Pool_Wakeup
begin

text \<open>
  What the pool of core/arena/thread\_pool.\{h,cc\} promises: every task exactly once, no lost wakeup,
  and \<open>parallel_for\<close> covers its range. Calls that run alone are sequences of steps whose effect is
  that of \<open>spmc_try_push\<close> and \<open>spmc_try_pop\<close>; the witnesses are built from them.
\<close>

section \<open>Definitions\<close>

definition task_range :: "u64 \<times> u64 \<Rightarrow> nat list" where
  "task_range t = [unat (fst t) ..< unat (snd t)]"

abbreviation thread_steps :: "'t ThreadPool \<Rightarrow> 't ThreadPool \<Rightarrow> bool" where
  "thread_steps \<equiv> thread_step\<^sup>*\<^sup>*"

text \<open>A pool of two workers that is given two ranges, and when they are done.\<close>

definition demo_tasks :: "(u64 \<times> u64) list" where "demo_tasks = [(0, 1), (1, 2)]"

definition demo_ring :: "(u64 \<times> u64) SpmcRing" where
  "demo_ring = \<lparr>sr_slots = [(0, 0), (0, 0)], sr_sequence = [0, 1], sr_head = 0, sr_tail = 0, sr_ok = True\<rparr>"

definition demo_done :: "(u64 \<times> u64) ThreadPool" where
  "demo_done = \<lparr>tp_ring = \<lparr>sr_slots = demo_tasks, sr_sequence = [2, 3], sr_head = 2, sr_tail = 2, sr_ok = True\<rparr>,
     tp_pending = 0, tp_epoch = 2, tp_stop = False, tp_producer = P_Next, tp_workers = [W_Start (First 0), W_Start (First 0)],
     tp_todo = [], tp_pushed = demo_tasks, tp_executed = demo_tasks, tp_finished = 2\<rparr>"

section \<open>Calls that run alone\<close>

lemma reach_steps: "reach init step s \<Longrightarrow> step\<^sup>*\<^sup>* s t \<Longrightarrow> reach init step t"
  by (rotate_tac, induction rule: rtranclp_induct) (auto intro: reach_step)

lemma step_then: "thread_step s t \<Longrightarrow> thread_steps t u \<Longrightarrow> thread_steps s u"
  by (rule converse_rtranclp_into_rtranclp)

lemma steps_refl: "s = t \<Longrightarrow> thread_steps s t" by simp

lemma enqueue_alone:
  assumes pc: "tp_producer s = P_Next" and todo: "tp_todo s = v # ts" and push: "spmc_try_push v (tp_ring s) = (True, r)"
    and awake: "\<forall>pc \<in> set (tp_workers s). unblock pc = pc"
  shows "thread_steps s (s\<lparr>tp_ring := r, tp_pending := tp_pending s + 1, tp_epoch := tp_epoch s + 1,
    tp_pushed := tp_pushed s @ [v], tp_todo := ts\<rparr>)"
proof -
  let ?r = "tp_ring s" and ?pos = "sr_head (tp_ring s)"
  have ok: "sr_ok ?r" "spmc_sequence ?r ?pos = ?pos" and
    r: "r = (put_sequence ?pos (?pos + 1) (put_slot ?pos v ?r))\<lparr>sr_head := ?pos + 1\<rparr>"
    using push by (auto simp: spmc_try_push_def Let_def split: if_splits)
  note steps = ts_enqueue [OF e_count] ts_enqueue [OF e_head] ts_enqueue [OF e_free] ts_enqueue [OF e_slot]
    ts_enqueue [OF e_publish] ts_enqueue [OF e_move] ts_enqueue [OF e_epoch] ts_enqueue [OF e_notify_none]
  show ?thesis
    apply (rule step_then, rule steps(1) [OF pc todo])
    apply (rule step_then, rule steps(2), simp, simp add: ok)
    apply (rule step_then, rule steps(3), simp, simp add: ok)
    apply (rule step_then, rule steps(4), simp)
    apply (rule step_then, rule steps(5), simp)
    apply (rule step_then, rule steps(6), simp)
    apply (rule step_then, rule steps(7), simp)
    apply (rule step_then, rule steps(8), simp, simp add: awake)
    apply (rule steps_refl, rule ThreadPool.equality; simp add: pc todo r)
    done
qed

lemma work_alone:
  assumes w: "w < length (tp_workers s)" and pc: "tp_workers s ! w = W_Start a" and pop: "spmc_try_pop (tp_ring s) = (Some v, r)"
  shows "thread_steps s (s\<lparr>tp_ring := r, tp_workers := (tp_workers s)[w := W_Start (First 0)], tp_executed := tp_executed s @ [v],
    tp_pending := tp_pending s - 1, tp_finished := Suc (tp_finished s)\<rparr>)"
proof -
  let ?r = "tp_ring s" and ?pos = "sr_tail (tp_ring s)"
  have ok: "sr_ok ?r" "spmc_sequence ?r ?pos = ?pos + 1" and v: "v = sr_slots ?r ! spmc_index ?r ?pos" and
    r: "r = put_sequence ?pos (?pos + of_nat (length (sr_slots ?r))) (?r\<lparr>sr_tail := ?pos + 1\<rparr>)"
    using pop by (auto simp: spmc_try_pop_def Let_def split: if_splits)
  have idx: "spmc_index (?r\<lparr>sr_tail := q\<rparr>) ?pos = spmc_index ?r ?pos" for q by (simp add: spmc_index_def)
  show ?thesis
    apply (rule step_then, rule ts_pop [OF w w_tail [OF pc ok(1)]])
    apply (rule step_then, rule ts_pop [of w, OF _ w_some], simp add: w, simp add: w, simp add: ok)
    apply (rule step_then, rule ts_pop [of w, OF _ w_claim], simp add: w, simp add: w, simp)
    apply (rule step_then, rule ts_pop [of w, OF _ w_read], simp add: w, simp add: w)
    apply (rule step_then, rule ts_pop [of w, OF _ w_release], simp add: w, simp add: w)
    apply (rule step_then, rule ts_loop [of w, OF _ l_run], simp add: w, simp add: w)
    apply (rule step_then, rule ts_loop [of w, OF _ l_count], simp add: w, simp add: w)
    apply (rule steps_refl, rule ThreadPool.equality; simp add: r v idx)
    done
qed

lemma empty_alone:
  assumes w: "w < length (tp_workers s)" and pc: "tp_workers s ! w = W_Start a" and pop: "spmc_try_pop (tp_ring s) = (None, r)" and ok: "sr_ok (tp_ring s)"
  shows "thread_steps s (set_worker w (W_Empty a) s)"
proof -
  have none: "spmc_sequence (tp_ring s) (sr_tail (tp_ring s)) \<noteq> sr_tail (tp_ring s) + 1"
    using pop ok by (auto simp: spmc_try_pop_def Let_def split: if_splits)
  show ?thesis
    apply (rule step_then, rule ts_pop [OF w w_tail [OF pc ok]])
    apply (rule step_then, rule ts_pop [of w, OF _ w_none], simp add: w, simp add: w, simp add: none)
    apply (rule steps_refl, rule ThreadPool.equality; simp)
    done
qed

lemma spin_alone:
  assumes w: "w < length (tp_workers s)" and pc: "tp_workers s ! w = W_Start (First 0)" and pop: "spmc_try_pop (tp_ring s) = (None, r)"
    and ok: "sr_ok (tp_ring s)" and stop: "\<not> tp_stop s"
  shows "n \<le> k_idle_spin \<Longrightarrow> thread_steps s (set_worker w (W_Start (First n)) s)"
proof (induction n)
  case 0
  then show ?case using pc list_update_id [of "tp_workers s" w] by (simp add: set_worker_def)
next
  case (Suc n)
  let ?t = "set_worker w (W_Start (First n)) s"
  have "thread_steps ?t (set_worker w (W_Empty (First n)) ?t)" by (rule empty_alone) (use w pop ok in simp_all)
  moreover have "thread_step (set_worker w (W_Empty (First n)) ?t) (set_worker w (W_Start (First (Suc n))) (set_worker w (W_Empty (First n)) ?t))"
    by (rule ts_loop [of w, OF _ l_spin]) (use w stop Suc in simp_all)
  ultimately show ?case using Suc by (simp add: set_worker_def)
qed

lemma block_alone:
  assumes w: "w < length (tp_workers s)" and pc: "tp_workers s ! w = W_Start (First 0)" and pop: "spmc_try_pop (tp_ring s) = (None, r)"
    and ok: "sr_ok (tp_ring s)" and stop: "\<not> tp_stop s"
  shows "thread_steps s (set_worker w (W_Blocked (tp_epoch s)) s)"
proof -
  let ?t = "set_worker w (W_Start (First k_idle_spin)) s" and ?u = "set_worker w (W_Start (Second (tp_epoch s))) s"
  have "thread_steps s ?t" by (rule spin_alone [OF assms order_refl])
  also have "thread_steps ?t (set_worker w (W_Empty (First k_idle_spin)) ?t)" by (rule empty_alone) (use w pop ok in simp_all)
  also have "thread_steps (set_worker w (W_Empty (First k_idle_spin)) ?t) ?u"
    apply (rule step_then, rule ts_loop [of w, OF _ l_idle], simp add: w, simp add: w, simp add: stop, simp)
    apply (rule step_then, rule ts_loop [of w, OF _ l_observe], simp add: w, simp add: w)
    apply (simp add: set_worker_def)
    done
  also have "thread_steps ?u (set_worker w (W_Empty (Second (tp_epoch s))) ?u)" by (rule empty_alone) (use w pop ok in simp_all)
  also have "thread_steps (set_worker w (W_Empty (Second (tp_epoch s))) ?u) (set_worker w (W_Blocked (tp_epoch s)) s)"
    apply (rule step_then, rule ts_loop [of w, OF _ l_sleep], simp add: w, simp add: w, simp add: stop)
    apply (rule step_then, rule ts_loop [of w, OF _ l_block], simp add: w, simp add: w, simp)
    apply (simp add: set_worker_def)
    done
  finally show ?thesis .
qed

section \<open>A ring of one slot\<close>

text \<open>
  One slot is a power of two and passes the constructor's test. A second task then overwrites the
  first, and the sequence number steps past the one the workers wait for: neither is ever taken.
\<close>

lemma one_slot_ring_loses_tasks:
  assumes "spmc_create [x] [q] = Some r"
  shows "sr_ok r \<and> (\<exists>r1 r2. spmc_try_push a r = (True, r1) \<and> spmc_try_push b r1 = (True, r2) \<and> spmc_try_pop r2 = (None, r2))"
proof -
  have "single_bit 1" by (auto simp: single_bit_def list_ex_iff intro!: bexI [of _ 0])
  then have "r = \<lparr>sr_slots = [x], sr_sequence = [0], sr_head = 0, sr_tail = 0, sr_ok = True\<rparr>"
    using assms by (simp add: spmc_create_def)
  then show ?thesis by (simp add: spmc_try_push_def spmc_try_pop_def spmc_sequence_def spmc_index_def put_slot_def put_sequence_def)
qed

section \<open>parallel\_for\<close>

lemma task_range_pair: "task_range (lo, hi) = [unat lo ..< unat hi]"
  by (simp add: task_range_def)

lemma chunk_loop_ranges:
  assumes "T = unat extent" "unat sz = z" "(i + left) * z < 2 ^ 64" "T \<le> (i + left) * z"
  shows "concat (map task_range (chunk_loop extent sz i left)) = [i * z ..< T]"
  using assms
proof (induction left arbitrary: i)
  case (Suc left)
  have le: "i * z \<le> (i + Suc left) * z" "Suc i * z \<le> (i + Suc left) * z" by (rule mult_le_mono1, simp)+
  have i: "unat (of_nat i * sz :: u64) = i * z"
  proof (cases "z = 0")
    case False
    then have "i \<le> i * z" by simp
    then have "i < 2 ^ 64" using le Suc.prems by linarith
    then have "unat (of_nat i :: u64) = i" by (simp add: unat_of_nat)
    then show ?thesis using le Suc.prems by (subst unat_mult_no_overflow) simp_all
  qed (use Suc.prems in \<open>simp add: unat_eq_0\<close>)
  have "i * z + z < 2 ^ 64" using le_less_trans [OF le(2) Suc.prems(3)] by (simp add: add.commute)
  then have j: "unat (of_nat i * sz + sz) = Suc i * z" using Suc.prems(2) i by (subst unat_add_no_overflow) simp_all
  have IH: "concat (map task_range (chunk_loop extent sz (Suc i) left)) = [Suc i * z ..< T]" using Suc by simp
  show ?case
  proof (cases "i * z < T")
    case True
    have lt: "of_nat i * sz < extent" using True i Suc.prems(1) by (simp add: word_less_nat_alt)
    show ?thesis
    proof (cases "Suc i * z < T")
      case True
      then have "of_nat i * sz + sz < extent" using j Suc.prems(1) by (simp add: word_less_nat_alt)
      moreover have "[i * z ..< T] = [i * z ..< Suc i * z] @ [Suc i * z ..< T]"
        using upt_add_eq_append [of "i * z" "Suc i * z" "T - Suc i * z"] True by simp
      ultimately show ?thesis using lt IH i j by (simp add: task_range_pair Let_def)
    next
      case False
      then have "\<not> of_nat i * sz + sz < extent" using j Suc.prems(1) by (simp add: word_less_nat_alt)
      moreover have "[Suc i * z ..< T] = []" using False by simp
      ultimately show ?thesis using lt IH i Suc.prems(1) by (simp add: task_range_pair Let_def)
    qed
  next
    case False
    then show ?thesis using i Suc.prems(1) by (simp add: word_less_nat_alt)
  qed
qed simp

lemma parallel_for_ranges:
  assumes "parallel_for nthreads extent task_count = Inr cs" "unat extent + nthreads \<le> 2 ^ 64"
  shows "concat (map task_range cs) = [0 ..< unat extent]"
proof -
  define n where "n = min (min nthreads task_count) (unat extent)"
  define z where "z = (unat extent + n - 1) div n"
  have n: "1 < n" "n \<le> nthreads" and cs: "cs = chunk_loop extent ((extent + of_nat n - 1) div of_nat n) 0 n"
    using assms(1) by (auto simp: parallel_for_def n_def [symmetric] Let_def split: if_splits) (simp add: n_def)
  have b: "unat extent + n \<le> 2 ^ 64" using assms(2) n by linarith
  have N: "unat (of_nat n :: u64) = n" using n b by (auto simp: unat_of_nat n_def)
  have m: "unat (of_nat (n - 1) :: u64) = n - 1" by (rule unat_of_nat_u64) (use b n in simp)
  have "unat (extent + of_nat n - 1) = unat extent + n - 1"
  proof -
    have "unat extent + (n - 1) \<le> SIZE_MAX" using b n by simp
    from unat_add_no_overflow [of extent "of_nat (n - 1)", unfolded m, OF this] n show ?thesis by (simp add: of_nat_diff add_diff_eq)
  qed
  then have sz: "unat ((extent + of_nat n - 1) div of_nat n) = z" by (simp add: unat_div N z_def)
  have "n * z \<le> unat extent + n - 1" by (simp add: z_def)
  moreover have "unat extent \<le> n * z"
  proof -
    have "unat extent + n - 1 = n * z + (unat extent + n - 1) mod n" by (simp add: z_def)
    moreover have "(unat extent + n - 1) mod n < n" using n by simp
    ultimately show ?thesis using n by linarith
  qed
  ultimately show ?thesis unfolding cs using b n by (subst chunk_loop_ranges [OF refl sz]) simp_all
qed

section \<open>A run with two tasks\<close>

lemma single_bit_two: "single_bit 2"
  by (auto simp: single_bit_def list_ex_iff intro!: bexI [of _ 1])

lemma demo_run: "reach (pool_start demo_tasks) thread_step demo_done"
proof -
  let ?s0 = "thread_pool_create demo_ring 2 2 demo_tasks"
  note D = thread_pool_create_def pool_threads_def demo_ring_def demo_tasks_def numeral_2_eq_2
  have "spmc_create [(0, 0), (0, 0)] [0, 0] = Some demo_ring"
    using single_bit_two by (simp add: spmc_create_def demo_ring_def numeral_2_eq_2)
  then have 0: "pool_start demo_tasks ?s0"
    unfolding pool_start_def by (intro exI conjI, assumption) (simp_all add: demo_ring_def demo_tasks_def)
  note S = spmc_try_push_def spmc_try_pop_def spmc_sequence_def spmc_index_def put_slot_def put_sequence_def
  have "thread_steps ?s0 demo_done"
    apply (rule rtranclp_trans, rule enqueue_alone, simp add: D, simp add: D, simp add: D S, simp add: D)
    apply (rule rtranclp_trans, rule enqueue_alone, simp add: D, simp add: D, simp add: D S, simp add: D)
    apply (rule rtranclp_trans, rule work_alone [of 0], simp add: D, simp add: D, simp add: D S)
    apply (rule rtranclp_trans, rule work_alone [of 1], simp add: D, simp add: D, simp add: D S)
    apply (rule steps_refl, simp add: D S demo_done_def)
    done
  with 0 show ?thesis by (blast intro: reach_steps reach_init)
qed

lemma demo_returned: "reach (pool_start demo_tasks) thread_step (demo_done\<lparr>tp_producer := P_Returned\<rparr>)"
  by (rule reach_step [OF demo_run ts_wait [OF wait_done]]) (simp_all add: demo_done_def)

lemma demo_asleep: "reach (pool_start demo_tasks) thread_step (demo_done\<lparr>tp_workers := [W_Blocked 2, W_Blocked 2]\<rparr>)"
proof -
  note S = demo_done_def demo_tasks_def spmc_try_pop_def spmc_sequence_def spmc_index_def numeral_2_eq_2
  have "thread_steps demo_done (demo_done\<lparr>tp_workers := [W_Blocked 2, W_Blocked 2]\<rparr>)"
    apply (rule rtranclp_trans, rule block_alone [of 0], simp add: S, simp add: S, simp add: S, simp add: S, simp add: S)
    apply (rule rtranclp_trans, rule block_alone [of 1], simp add: S, simp add: S, simp add: S, simp add: S, simp add: S)
    apply (rule steps_refl, rule ThreadPool.equality; simp add: demo_done_def)
    done
  with demo_run show ?thesis by (rule reach_steps)
qed

lemma mset_concat_perm: "mset xs = mset ys \<Longrightarrow> mset (concat (map f xs)) = mset (concat (map f ys))"
  by (simp add: mset_concat sum_mset_sum_list [symmetric] comp_def)

section \<open>Properties\<close>

text \<open>
  C6: whatever the interleaving, no task is executed twice and none that was not enqueued; when
  \<open>wait\<close> has returned, every task has been executed exactly once and no worker still has one.
\<close>

theorem thread_pool_runs_once:
  assumes "reach (pool_start tasks) thread_step s"
  shows "mset (tp_executed s) \<subseteq># mset tasks \<and>
    (tp_producer s = P_Returned \<longrightarrow> mset (tp_executed s) = mset tasks \<and> in_hand s = {#} \<and> tp_pending s = 0)"
proof -
  have inv: "thread_inv tasks s" using pool.reach_inv [OF assms] by simp
  have "mset (tp_executed s) \<subseteq># mset (take (unat (sr_tail (tp_ring s))) (tp_pushed s))" using inv by (simp add: thread_inv_def work_ok_def)
  also have "\<dots> \<subseteq># mset (tp_pushed s)" by (metis append_take_drop_id mset_append mset_subset_eq_add_left)
  also have "\<dots> \<subseteq># mset tasks" using inv by (auto simp: thread_inv_def tasks_ok_def)
  finally show ?thesis using returned_done [OF inv] by simp
qed

theorem thread_pool_runs_once_witness:
  "\<exists>s. reach (pool_start demo_tasks) thread_step s \<and> tp_producer s = P_Returned \<and> mset (tp_executed s) = mset [(0, 1), (1, 2)]"
  using thread_pool_runs_once [OF demo_returned] demo_returned by (auto simp: demo_tasks_def)

text \<open>
  C16: no wakeup is lost and the pool never deadlocks. When every worker is blocked, whatever epoch it
  has waited for, or about to block on the present epoch, and the producer is not between publishing a
  task and notifying a worker, then every task enqueued so far has been executed; after the destructor
  has notified, no worker is blocked; and some thread can always take a step that changes the state, until the
  destructor has finished and every worker has left its loop.
\<close>

theorem no_lost_wakeup:
  assumes "reach (pool_start tasks) thread_step s" "tp_workers s \<noteq> []"
  shows "((\<forall>pc \<in> set (tp_workers s). (\<exists>e. pc = W_Blocked e) \<or> pc = W_Sleep (tp_epoch s)) \<and>
      \<not> publishing (tp_producer s) \<and> tp_producer s \<noteq> P_Notify \<longrightarrow> mset (tp_executed s) = mset (tp_pushed s)) \<and>
    (tp_producer s = P_Stopped \<longrightarrow> (\<forall>pc \<in> set (tp_workers s). \<forall>e. pc \<noteq> W_Blocked e \<and> (pc = W_Sleep e \<longrightarrow> e \<noteq> tp_epoch s))) \<and>
    ((\<exists>t. thread_step s t \<and> t \<noteq> s) \<or> tp_producer s = P_Stopped \<and> set (tp_workers s) = {W_Exit})"
proof (intro conjI impI)
  have inv: "thread_inv tasks s" "sleep_inv s" using pool.reach_inv [OF assms(1)] by simp_all
  show "mset (tp_executed s) = mset (tp_pushed s)"
    if "(\<forall>pc \<in> set (tp_workers s). (\<exists>e. pc = W_Blocked e) \<or> pc = W_Sleep (tp_epoch s)) \<and>
      \<not> publishing (tp_producer s) \<and> tp_producer s \<noteq> P_Notify"
    using that by (intro asleep_done(1) [OF inv assms(2)]) fastforce+
  have stopped: "\<forall>pc \<in> set (tp_workers s). pc \<noteq> W_Sleep (tp_epoch s) \<and> unblock pc = pc" if "tp_producer s = P_Stopped"
    using that inv(2) by (simp add: sleep_inv_def stop_ok_def list_all_iff)
  then show "\<forall>pc \<in> set (tp_workers s). \<forall>e. pc \<noteq> W_Blocked e \<and> (pc = W_Sleep e \<longrightarrow> e \<noteq> tp_epoch s)" if "tp_producer s = P_Stopped"
    using that by fastforce
  show "(\<exists>t. thread_step s t \<and> t \<noteq> s) \<or> tp_producer s = P_Stopped \<and> set (tp_workers s) = {W_Exit}"
  proof (rule disjCI)
    assume n: "\<not> (tp_producer s = P_Stopped \<and> set (tp_workers s) = {W_Exit})"
    show "\<exists>t. thread_step s t \<and> t \<noteq> s"
    proof (cases "tp_producer s = P_Stopped \<or> tp_producer s = P_Next \<and> tp_todo s = [] \<and> tp_pending s \<noteq> 0")
      case False
      then show ?thesis using producer_enabled [of s] by blast
    next
      case True
      have "\<exists>pc \<in> set (tp_workers s). pc \<noteq> W_Exit \<and> unblock pc = pc"
      proof (rule ccontr)
        assume c: "\<not> ?thesis"
        have "set (tp_workers s) = {W_Exit}" if "tp_producer s = P_Stopped"
          using stopped [OF that] c assms(2) by (cases "tp_workers s") auto
        then have next_pc: "tp_producer s = P_Next" using True n by blast
        then have "\<forall>pc \<in> set (tp_workers s). pc \<noteq> W_Exit" using inv(2) by (simp add: sleep_inv_def stop_ok_def list_all_iff)
        then have "tp_finished s = length (tp_pushed s)"
          using c by (intro asleep_done(2) [OF inv assms(2)]) (auto simp: next_pc)
        then show False using True inv(1) next_pc by (simp add: thread_inv_def count_ok_def)
      qed
      then show ?thesis using worker_enabled [of _ s] by (auto simp: in_set_conv_nth)
    qed
  qed
qed

theorem no_lost_wakeup_witness:
  "\<exists>s. reach (pool_start demo_tasks) thread_step s \<and> tp_workers s = [W_Blocked (tp_epoch s), W_Blocked (tp_epoch s)] \<and>
     mset (tp_executed s) = mset (tp_pushed s) \<and> (\<exists>t. thread_step s t \<and> t \<noteq> s)"
  using no_lost_wakeup [OF demo_asleep] demo_asleep by (auto simp: demo_done_def)

text \<open>
  C17: \<open>parallel_for\<close> on a pool, the range cut into tasks that the pool executes in any order: when it
  returns, the callable has been applied to every index below \<open>extent\<close> exactly once.
\<close>

theorem parallel_for_covers:
  assumes "parallel_for nthreads extent task_count = Inr cs" "unat extent + nthreads \<le> 2 ^ 64"
    and "reach (pool_start cs) thread_step s" "tp_producer s = P_Returned"
  shows "mset (concat (map task_range (tp_executed s))) = mset [0 ..< unat extent]"
proof -
  have "thread_inv cs s" using pool.reach_inv [OF assms(3)] by simp
  then have "mset (tp_executed s) = mset cs" using returned_done(1) assms(4) by blast
  then have "mset (concat (map task_range (tp_executed s))) = mset (concat (map task_range cs))"
    by (rule mset_concat_perm)
  then show ?thesis using parallel_for_ranges [OF assms(1,2)] by simp
qed

theorem parallel_for_covers_witness:
  "\<exists>s. reach (pool_start [(0, 1), (1, 2)]) thread_step s \<and> parallel_for 2 2 2 = Inr [(0, 1), (1, 2)] \<and>
     mset (concat (map task_range (tp_executed s))) = {#0, 1#}"
proof -
  have cut: "parallel_for 2 2 2 = Inr [(0, 1), (1, 2)]" by code_simp
  have "mset (concat (map task_range (tp_executed (demo_done\<lparr>tp_producer := P_Returned\<rparr>)))) = mset [0 ..< unat (2 :: u64)]"
    by (rule parallel_for_covers [OF cut]) (use demo_returned in \<open>simp_all add: demo_tasks_def\<close>)
  moreover have "mset [0 ..< unat (2 :: u64)] = {#0, 1#}" by (simp add: upt_rec)
  moreover have "reach (pool_start [(0, 1), (1, 2)]) thread_step (demo_done\<lparr>tp_producer := P_Returned\<rparr>)"
    using demo_returned by (simp add: demo_tasks_def)
  ultimately show ?thesis using cut by metis
qed

end
