(* ===== verification/Trace.thy ===== *)
theory Trace
  imports Relay_Client Job_Service Message_Image
begin

text \<open>
  relay/protocol/trace.\{h,cc\}: a trace is a file of recorded messages. A message is written in a
  canonical little-endian form behind a header with its kind, its sequence number, its size and a
  checksum. A message that is copied into an object, or an object that is filled field by field, is
  the list of its bytes; the record it represents is read from them (\<open>Wire_Image\<close>, \<open>Message_Image\<close>).
  A file is the list of its bytes. The outcome of opening a file and of an allocation, and the number of bytes
  \<open>std::fwrite\<close> accepts, are parameters.
\<close>

section \<open>Definitions\<close>

subsection \<open>Fields\<close>

definition kTraceMagicV1 :: "byte list" where "kTraceMagicV1 = map (\<lambda>c. of_nat (of_char c)) ''FETRACE1''"
definition kTraceMagicV2 :: "byte list" where "kTraceMagicV2 = map (\<lambda>c. of_nat (of_char c)) ''FETRACE2''"
definition kTraceVersionV1 :: u32 where "kTraceVersionV1 = 1"
definition kTraceVersionV2 :: u32 where "kTraceVersionV2 = 2"
definition kRecordMagicV1 :: u32 where "kRecordMagicV1 = 0x31434552"
definition kRecordMagicV2 :: u32 where "kRecordMagicV2 = 0x32434552"
definition kFileHeaderBytes :: nat where "kFileHeaderBytes = 16"
definition kRecordHeaderBytes :: nat where "kRecordHeaderBytes = 32"
definition kEnvelopeBytes :: nat where "kEnvelopeBytes = 32"
definition kConditionPayloadOffset :: nat where "kConditionPayloadOffset = kEnvelopeBytes + 88"
definition kActionPayloadOffset :: nat where "kActionPayloadOffset = kEnvelopeBytes + 80"
definition kJobRequestPayloadOffset :: nat where "kJobRequestPayloadOffset = kEnvelopeBytes + 88"
definition kJobResultPayloadOffset :: nat where "kJobResultPayloadOffset = kEnvelopeBytes + 112"

definition kMaxTraceMessageBytes :: nat where
  "kMaxTraceMessageBytes = foldr max [unat sizeof_ConditionMessage, unat sizeof_JobRequestMessage, unat sizeof_JobResultMessage,
     sizeof_JobEventMessage] 0"

definition encode_envelope :: "byte list \<Rightarrow> MessageEnvelope \<Rightarrow> byte list" where
  "encode_envelope d0 e =
     (let d1 = write_le d0 0 (me_magic e);
          d2 = write_le d1 4 (me_version e);
          d3 = write_le d2 6 (me_kind e);
          d4 = write_le d3 8 (me_struct_size e);
          d5 = write_le d4 12 (me_flags e);
          d6 = write_le d5 16 (me_sequence e)
      in write_le d6 24 (me_session_id e))"

definition decode_envelope :: "byte list \<Rightarrow> MessageEnvelope" where
  "decode_envelope source = \<lparr>me_magic = read_le source 0, me_version = read_le source 4, me_kind = read_le source 6,
     me_struct_size = read_le source 8, me_flags = read_le source 12, me_sequence = read_le source 16, me_session_id = read_le source 24\<rparr>"

text \<open>\<open>subspan\<close> is an offset \<open>off\<close>.\<close>

definition encode_condition_metadata :: "byte list \<Rightarrow> nat \<Rightarrow> fe_condition_metadata \<Rightarrow> byte list" where
  "encode_condition_metadata d0 off m =
     (let d1 = write_le d0 off (fcm_struct_size m);
          d2 = write_le d1 (off + 4) (fcm_protocol_version m);
          d3 = write_le d2 (off + 8) (fcm_solver m);
          d4 = write_le d3 (off + 12) (fcm_reserved m);
          d5 = blit d4 (off + 16) (fcm_model_digest m);
          d6 = write_le d5 (off + 32) (fcm_timestamp_ns m);
          d7 = write_le d6 (off + 40) (fcm_deadline_ns m);
          d8 = write_le d7 (off + 48) (fcm_generation m);
          d9 = write_le d8 (off + 56) (fcm_condition_dim m);
          d10 = write_le d9 (off + 64) (fcm_action_dim m);
          d11 = write_le d10 (off + 72) (fcm_solver_steps m)
      in write_le d11 (off + 80) (fcm_remaining_nfe m))"

definition decode_condition_metadata :: "byte list \<Rightarrow> nat \<Rightarrow> fe_condition_metadata" where
  "decode_condition_metadata source off =
     \<lparr>fcm_struct_size = read_le source off, fcm_protocol_version = read_le source (off + 4), fcm_solver = read_le source (off + 8),
      fcm_reserved = read_le source (off + 12), fcm_model_digest = take 16 (drop (off + 16) source),
      fcm_timestamp_ns = read_le source (off + 32), fcm_deadline_ns = read_le source (off + 40),
      fcm_generation = read_le source (off + 48), fcm_condition_dim = read_le source (off + 56),
      fcm_action_dim = read_le source (off + 64), fcm_solver_steps = read_le source (off + 72),
      fcm_remaining_nfe = read_le source (off + 80)\<rparr>"

definition encode_action_metadata :: "byte list \<Rightarrow> nat \<Rightarrow> fe_action_metadata \<Rightarrow> byte list" where
  "encode_action_metadata d0 off m =
     (let d1 = write_le d0 off (fam_struct_size m);
          d2 = write_le d1 (off + 4) (fam_protocol_version m);
          d3 = write_le d2 (off + 8) (fam_solver m);
          d4 = write_le d3 (off + 12) (fam_status m);
          d5 = blit d4 (off + 16) (fam_model_digest m);
          d6 = write_le d5 (off + 32) (fam_timestamp_ns m);
          d7 = write_le d6 (off + 40) (fam_deadline_ns m);
          d8 = write_le d7 (off + 48) (fam_generation m);
          d9 = write_le d8 (off + 56) (fam_condition_dim m);
          d10 = write_le d9 (off + 64) (fam_action_dim m)
      in write_le d10 (off + 72) (fam_remaining_nfe m))"

definition decode_action_metadata :: "byte list \<Rightarrow> nat \<Rightarrow> fe_action_metadata" where
  "decode_action_metadata source off =
     \<lparr>fam_struct_size = read_le source off, fam_protocol_version = read_le source (off + 4), fam_solver = read_le source (off + 8),
      fam_status = read_le source (off + 12), fam_model_digest = take 16 (drop (off + 16) source),
      fam_timestamp_ns = read_le source (off + 32), fam_deadline_ns = read_le source (off + 40),
      fam_generation = read_le source (off + 48), fam_condition_dim = read_le source (off + 56),
      fam_action_dim = read_le source (off + 64), fam_remaining_nfe = read_le source (off + 72)\<rparr>"

definition encode_job_descriptor :: "byte list \<Rightarrow> nat \<Rightarrow> JobDescriptor \<Rightarrow> byte list" where
  "encode_job_descriptor d0 off m =
     (let d1 = write_le d0 off (jd_protocol_version m);
          d2 = write_le d1 (off + 4) (jd_kind m);
          d3 = write_le d2 (off + 6) (jd_reserved m);
          d4 = blit d3 (off + 8) (jd_model_digest m);
          d5 = write_le d4 (off + 24) (jd_state_schema m);
          d6 = write_le d5 (off + 32) (jd_session_id m);
          d7 = write_le d6 (off + 40) (jd_generation m);
          d8 = write_le d7 (off + 48) (jd_deadline_ns m)
      in write_le d8 (off + 56) (jd_total_work_units m))"

definition decode_job_descriptor :: "byte list \<Rightarrow> nat \<Rightarrow> JobDescriptor" where
  "decode_job_descriptor source off =
     \<lparr>jd_protocol_version = read_le source off, jd_kind = read_le source (off + 4), jd_reserved = read_le source (off + 6),
      jd_model_digest = take 16 (drop (off + 8) source), jd_state_schema = read_le source (off + 24),
      jd_session_id = read_le source (off + 32), jd_generation = read_le source (off + 40),
      jd_deadline_ns = read_le source (off + 48), jd_total_work_units = read_le source (off + 56)\<rparr>"

definition encode_job_progress :: "byte list \<Rightarrow> nat \<Rightarrow> JobProgress \<Rightarrow> byte list" where
  "encode_job_progress d0 off m =
     (let d1 = write_le d0 off (jp_state m);
          d2 = write_le d1 (off + 2) (jp_reserved0 m);
          d3 = write_le d2 (off + 4) (jp_reserved1 m);
          d4 = write_le d3 (off + 8) (jp_completed_work_units m)
      in write_le d4 (off + 16) (jp_remaining_work_units m))"

definition decode_job_progress :: "byte list \<Rightarrow> nat \<Rightarrow> JobProgress" where
  "decode_job_progress source off =
     \<lparr>jp_state = read_le source off, jp_reserved0 = read_le source (off + 2), jp_reserved1 = read_le source (off + 4),
      jp_completed_work_units = read_le source (off + 8), jp_remaining_work_units = read_le source (off + 16)\<rparr>"

definition encode_job_request_metadata :: "byte list \<Rightarrow> nat \<Rightarrow> JobRequestMetadata \<Rightarrow> byte list" where
  "encode_job_request_metadata d0 off m =
     (let d1 = write_le d0 off (jrqm_struct_size m);
          d2 = write_le d1 (off + 4) (jrqm_service_class m);
          d3 = encode_job_descriptor d2 (off + 8) (jrqm_descriptor m);
          d4 = write_le d3 (off + 72) (jrqm_timestamp_ns m)
      in write_le d4 (off + 80) (jrqm_payload_bytes m))"

definition decode_job_request_metadata :: "byte list \<Rightarrow> nat \<Rightarrow> JobRequestMetadata" where
  "decode_job_request_metadata source off =
     \<lparr>jrqm_struct_size = read_le source off, jrqm_service_class = read_le source (off + 4),
      jrqm_descriptor = decode_job_descriptor source (off + 8), jrqm_timestamp_ns = read_le source (off + 72),
      jrqm_payload_bytes = read_le source (off + 80)\<rparr>"

definition encode_job_result_metadata :: "byte list \<Rightarrow> nat \<Rightarrow> JobResultMetadata \<Rightarrow> byte list" where
  "encode_job_result_metadata d0 off m =
     (let d1 = write_le d0 off (jrsm_struct_size m);
          d2 = write_le d1 (off + 4) (jrsm_service_class m);
          d3 = encode_job_descriptor d2 (off + 8) (jrsm_descriptor m);
          d4 = encode_job_progress d3 (off + 72) (jrsm_progress m);
          d5 = write_le d4 (off + 96) (jrsm_timestamp_ns m)
      in write_le d5 (off + 104) (jrsm_payload_bytes m))"

definition decode_job_result_metadata :: "byte list \<Rightarrow> nat \<Rightarrow> JobResultMetadata" where
  "decode_job_result_metadata source off =
     \<lparr>jrsm_struct_size = read_le source off, jrsm_service_class = read_le source (off + 4),
      jrsm_descriptor = decode_job_descriptor source (off + 8), jrsm_progress = decode_job_progress source (off + 72),
      jrsm_timestamp_ns = read_le source (off + 96), jrsm_payload_bytes = read_le source (off + 104)\<rparr>"

definition encode_job_event_metadata :: "byte list \<Rightarrow> nat \<Rightarrow> JobEventMetadata \<Rightarrow> byte list" where
  "encode_job_event_metadata d0 off m =
     (let d1 = write_le d0 off (jem_struct_size m);
          d2 = write_le d1 (off + 4) (jem_protocol_version m);
          d3 = write_le d2 (off + 6) (jem_event m);
          d4 = encode_job_descriptor d3 (off + 8) (jem_descriptor m);
          d5 = encode_job_progress d4 (off + 72) (jem_progress m);
          d6 = write_le d5 (off + 96) (jem_timestamp_ns m);
          d7 = write_le d6 (off + 104) (jet_queue_ns (jem_timing m));
          d8 = write_le d7 (off + 112) (jet_execution_ns (jem_timing m));
          d9 = write_le d8 (off + 120) (jet_end_to_end_ns (jem_timing m));
          d10 = write_le d9 (off + 128) (jet_cancellation_ns (jem_timing m));
          d11 = write_le d10 (off + 136) (jem_related_generation m);
          d12 = write_le d11 (off + 144) (jem_worker_index m);
          d13 = write_le d12 (off + 148) (jem_peer_worker_index m);
          d14 = write_le d13 (off + 152) (jem_queue_depth m);
          d15 = write_le d14 (off + 156) (jem_result_code m);
          d16 = write_le d15 (off + 160) (jem_service_class m)
      in write_le d16 (off + 164) (jem_reserved2 m))"

definition decode_job_event_metadata :: "byte list \<Rightarrow> nat \<Rightarrow> JobEventMetadata" where
  "decode_job_event_metadata source off =
     \<lparr>jem_struct_size = read_le source off, jem_protocol_version = read_le source (off + 4), jem_event = read_le source (off + 6),
      jem_descriptor = decode_job_descriptor source (off + 8), jem_progress = decode_job_progress source (off + 72),
      jem_timestamp_ns = read_le source (off + 96),
      jem_timing = \<lparr>jet_queue_ns = read_le source (off + 104), jet_execution_ns = read_le source (off + 112),
        jet_end_to_end_ns = read_le source (off + 120), jet_cancellation_ns = read_le source (off + 128)\<rparr>,
      jem_related_generation = read_le source (off + 136), jem_worker_index = read_le source (off + 144),
      jem_peer_worker_index = read_le source (off + 148), jem_queue_depth = read_le source (off + 152),
      jem_result_code = read_le source (off + 156), jem_service_class = read_le source (off + 160),
      jem_reserved2 = read_le source (off + 164)\<rparr>"

text \<open>An event read from the bytes of its object, and the control message.\<close>

definition read_event :: "byte list \<Rightarrow> JobEventMessage" where
  "read_event bs = \<lparr>jev_envelope = read_envelope bs 0, jev_metadata = decode_job_event_metadata bs 32\<rparr>"

definition default_control :: ControlMessage where
  "default_control = \<lparr>ctl_envelope = default_envelope\<lparr>me_kind := MessageKind_kShutdown\<rparr>, ctl_reason = 0\<rparr>"

definition sizeof_ControlMessage :: nat where "sizeof_ControlMessage = 40"

definition trace_valid_kind :: "MessageKind \<Rightarrow> bool" where
  "trace_valid_kind kind \<longleftrightarrow> kind = MessageKind_kCondition \<or> kind = MessageKind_kAction \<or> kind = MessageKind_kShutdown \<or>
     kind = MessageKind_kJobRequest \<or> kind = MessageKind_kJobResult \<or> kind = MessageKind_kJobEvent"

text \<open>A float is written and read as its bit pattern.\<close>

definition write_float :: "byte list \<Rightarrow> nat \<Rightarrow> u32 \<Rightarrow> byte list" where
  "write_float destination offset bits = write_le destination offset bits"

definition read_float :: "byte list \<Rightarrow> nat \<Rightarrow> u32" where
  "read_float source offset = read_le source offset"

subsection \<open>Messages\<close>

text \<open>
  \<open>encode_message\<close>, one definition for each branch: \<open>object\<close> is the message the source bytes are
  copied into, \<open>destination\<close> already holds the envelope.
\<close>

definition encode_condition :: "byte list \<Rightarrow> byte list \<Rightarrow> (string + nat) \<times> byte list" where
  "encode_condition source destination =
     (if length source > unat sizeof_ConditionMessage then (Inl ''Relay trace condition message is too large'', destination)
      else let object = blit (condition_image default_condition) 0 source; message = read_condition object
           in if validate_condition message \<noteq> PR_kSuccess \<or> wire_size_condition message \<noteq> length source
              then (Inl ''Relay trace condition message is invalid'', destination)
              else let d1 = encode_condition_metadata destination kEnvelopeBytes (cm_metadata message);
                       d2 = fold (\<lambda>i d. write_float d (kConditionPayloadOffset + i * 4) (read_float object (kConditionPayloadOffset + i * 4)))
                              [0 ..< length (condition_values message) + length (noise_values message)] d1
                   in (Inr (length source), d2))"

definition encode_action :: "byte list \<Rightarrow> byte list \<Rightarrow> (string + nat) \<times> byte list" where
  "encode_action source destination =
     (if length source > unat sizeof_ActionMessage then (Inl ''Relay trace action message is too large'', destination)
      else let object = blit (action_image default_action) 0 source; message = read_action object
           in if validate_action message \<noteq> PR_kSuccess \<or> wire_size_action message \<noteq> length source
              then (Inl ''Relay trace action message is invalid'', destination)
              else let d1 = encode_action_metadata destination kEnvelopeBytes (am_metadata message);
                       d2 = fold (\<lambda>i d. write_float d (kActionPayloadOffset + i * 4) (read_float object (kActionPayloadOffset + i * 4)))
                              [0 ..< unat (fam_action_dim (am_metadata message))] d1
                   in (Inr (length source), d2))"

definition encode_job_request :: "byte list \<Rightarrow> byte list \<Rightarrow> (string + nat) \<times> byte list" where
  "encode_job_request source destination =
     (if length source > unat sizeof_JobRequestMessage then (Inl ''Relay trace job request is too large'', destination)
      else let message = read_request (blit (request_image default_request) 0 source)
           in if validate_request message \<noteq> PR_kSuccess \<or> wire_size_request message \<noteq> length source
              then (Inl ''Relay trace job request is invalid'', destination)
              else let d1 = encode_job_request_metadata destination kEnvelopeBytes (jrq_metadata message)
                   in (Inr (length source), blit d1 kJobRequestPayloadOffset (request_payload_values message)))"

definition encode_job_result :: "byte list \<Rightarrow> byte list \<Rightarrow> (string + nat) \<times> byte list" where
  "encode_job_result source destination =
     (if length source > unat sizeof_JobResultMessage then (Inl ''Relay trace job result is too large'', destination)
      else let message = read_result (blit (result_image default_result) 0 source)
           in if validate_result message \<noteq> PR_kSuccess \<or> wire_size_result message \<noteq> length source
              then (Inl ''Relay trace job result is invalid'', destination)
              else let d1 = encode_job_result_metadata destination kEnvelopeBytes (jrs_metadata message)
                   in (Inr (length source), blit d1 kJobResultPayloadOffset (result_payload_values message)))"

definition encode_job_event :: "byte list \<Rightarrow> byte list \<Rightarrow> (string + nat) \<times> byte list" where
  "encode_job_event source destination =
     (if length source \<noteq> sizeof_JobEventMessage then (Inl ''Relay trace job event size is invalid'', destination)
      else let message = read_event (blit (event_image default_event) 0 source)
           in if validate_event message \<noteq> PR_kSuccess then (Inl ''Relay trace job event is invalid'', destination)
              else (Inr (length source), encode_job_event_metadata destination kEnvelopeBytes (jev_metadata message)))"

definition encode_control :: "byte list \<Rightarrow> byte list \<Rightarrow> (string + nat) \<times> byte list" where
  "encode_control source destination =
     (if length source \<noteq> sizeof_ControlMessage then (Inl ''Relay trace control message size is invalid'', destination)
      else let message = read_control (blit (control_image default_control) 0 source)
           in if \<not> valid_envelope (ctl_envelope message) MessageKind_kShutdown sizeof_ControlMessage
              then (Inl ''Relay trace control message is invalid'', destination)
              else (Inr (length source), write_le destination kEnvelopeBytes (ctl_reason message)))"

definition encode_message :: "byte list \<Rightarrow> byte list \<Rightarrow> (string + nat) \<times> byte list" where
  "encode_message source destination =
     (if length source < kEnvelopeBytes \<or> length source > length destination
      then (Inl ''Relay trace message size is invalid'', destination)
      else let envelope = read_envelope source 0
           in if me_magic envelope \<noteq> kMessageMagic \<or> me_version envelope \<noteq> kMessageVersion \<or> \<not> trace_valid_kind (me_kind envelope) \<or>
                 unat (me_struct_size envelope) \<noteq> length source
              then (Inl ''Relay trace message envelope is invalid'', destination)
              else let d = encode_envelope destination envelope
                   in if me_kind envelope = MessageKind_kCondition then encode_condition source d
                      else if me_kind envelope = MessageKind_kAction then encode_action source d
                      else if me_kind envelope = MessageKind_kJobRequest then encode_job_request source d
                      else if me_kind envelope = MessageKind_kJobResult then encode_job_result source d
                      else if me_kind envelope = MessageKind_kJobEvent then encode_job_event source d
                      else encode_control source d)"

text \<open>\<open>decode_message\<close>: \<open>envelope\<close> is decoded; the object is filled field by field and its bytes are copied out.\<close>

definition copy_out :: "byte list \<Rightarrow> byte list \<Rightarrow> byte list \<Rightarrow> (string + nat) \<times> byte list" where
  "copy_out source destination object = (Inr (length source), blit destination 0 (take (length source) object))"

definition decode_condition :: "byte list \<Rightarrow> byte list \<Rightarrow> MessageEnvelope \<Rightarrow> (string + nat) \<times> byte list" where
  "decode_condition source destination envelope =
     (if length source < kConditionPayloadOffset \<or> (length source - kConditionPayloadOffset) mod 4 \<noteq> 0
      then (Inl ''Relay trace encoded condition size is invalid'', destination)
      else let metadata = decode_condition_metadata source kEnvelopeBytes;
               message = default_condition\<lparr>cm_envelope := envelope, cm_metadata := metadata\<rparr>
           in if wire_size_condition message \<noteq> length source
              then (Inl ''Relay trace encoded condition dimensions are invalid'', destination)
              else let payload = fold (\<lambda>i p. write_float p (i * 4) (read_float source (kConditionPayloadOffset + i * 4)))
                         [0 ..< length (condition_values message) + length (noise_values message)] (floats_image (cm_payload message));
                       object = envelope_image envelope @ condition_metadata_image metadata @ payload
                   in if validate_condition (read_condition object) \<noteq> PR_kSuccess
                      then (Inl ''Relay trace decoded condition is invalid'', destination)
                      else copy_out source destination object)"

text \<open>\<open>None\<close>: the loop over the values runs past the end of the array and of the source.\<close>

definition decode_action :: "byte list \<Rightarrow> byte list \<Rightarrow> MessageEnvelope \<Rightarrow> ((string + nat) \<times> byte list) option" where
  "decode_action source destination envelope =
     (if length source < kActionPayloadOffset \<or> (length source - kActionPayloadOffset) mod 4 \<noteq> 0
      then Some (Inl ''Relay trace encoded action size is invalid'', destination)
      else let metadata = decode_action_metadata source kEnvelopeBytes;
               message = default_action\<lparr>am_envelope := envelope, am_metadata := metadata\<rparr>
           in if wire_size_action message \<noteq> length source
              then Some (Inl ''Relay trace encoded action dimensions are invalid'', destination)
              else if unat (fam_action_dim metadata) > length (am_action message) then None
              else let payload = fold (\<lambda>i p. write_float p (i * 4) (read_float source (kActionPayloadOffset + i * 4)))
                         [0 ..< unat (fam_action_dim metadata)] (floats_image (am_action message));
                       object = envelope_image envelope @ action_metadata_image metadata @ payload
                   in if validate_action (read_action object) \<noteq> PR_kSuccess
                      then Some (Inl ''Relay trace decoded action is invalid'', destination)
                      else Some (copy_out source destination object))"

definition decode_job_request :: "byte list \<Rightarrow> byte list \<Rightarrow> MessageEnvelope \<Rightarrow> (string + nat) \<times> byte list" where
  "decode_job_request source destination envelope =
     (if length source < kJobRequestPayloadOffset \<or> length source - kJobRequestPayloadOffset > kMaxJobPayloadBytes
      then (Inl ''Relay trace encoded job request size is invalid'', destination)
      else let message = default_request\<lparr>jrq_envelope := envelope, jrq_metadata := decode_job_request_metadata source kEnvelopeBytes\<rparr>
           in if wire_size_request message \<noteq> length source
              then (Inl ''Relay trace encoded job request payload is invalid'', destination)
              else let message = message\<lparr>jrq_payload := blit (jrq_payload message) 0 (drop kJobRequestPayloadOffset source)\<rparr>
                   in if validate_request message \<noteq> PR_kSuccess
                      then (Inl ''Relay trace decoded job request is invalid'', destination)
                      else copy_out source destination (request_image message))"

definition decode_job_result :: "byte list \<Rightarrow> byte list \<Rightarrow> MessageEnvelope \<Rightarrow> (string + nat) \<times> byte list" where
  "decode_job_result source destination envelope =
     (if length source < kJobResultPayloadOffset \<or> length source - kJobResultPayloadOffset > kMaxJobPayloadBytes
      then (Inl ''Relay trace encoded job result size is invalid'', destination)
      else let message = default_result\<lparr>jrs_envelope := envelope, jrs_metadata := decode_job_result_metadata source kEnvelopeBytes\<rparr>
           in if wire_size_result message \<noteq> length source
              then (Inl ''Relay trace encoded job result payload is invalid'', destination)
              else let message = message\<lparr>jrs_payload := blit (jrs_payload message) 0 (drop kJobResultPayloadOffset source)\<rparr>
                   in if validate_result message \<noteq> PR_kSuccess
                      then (Inl ''Relay trace decoded job result is invalid'', destination)
                      else copy_out source destination (result_image message))"

definition decode_job_event :: "byte list \<Rightarrow> byte list \<Rightarrow> MessageEnvelope \<Rightarrow> (string + nat) \<times> byte list" where
  "decode_job_event source destination envelope =
     (if length source \<noteq> sizeof_JobEventMessage then (Inl ''Relay trace encoded job event size is invalid'', destination)
      else let message = default_event\<lparr>jev_envelope := envelope, jev_metadata := decode_job_event_metadata source kEnvelopeBytes\<rparr>
           in if validate_event message \<noteq> PR_kSuccess then (Inl ''Relay trace decoded job event is invalid'', destination)
              else copy_out source destination (event_image message))"

definition decode_control :: "byte list \<Rightarrow> byte list \<Rightarrow> MessageEnvelope \<Rightarrow> (string + nat) \<times> byte list" where
  "decode_control source destination envelope =
     (if length source \<noteq> sizeof_ControlMessage then (Inl ''Relay trace encoded control size is invalid'', destination)
      else let message = default_control\<lparr>ctl_envelope := envelope, ctl_reason := read_le source kEnvelopeBytes\<rparr>
           in if \<not> valid_envelope (ctl_envelope message) MessageKind_kShutdown sizeof_ControlMessage
              then (Inl ''Relay trace decoded control message is invalid'', destination)
              else copy_out source destination (control_image message))"

definition decode_message :: "byte list \<Rightarrow> byte list \<Rightarrow> ((string + nat) \<times> byte list) option" where
  "decode_message source destination =
     (if length source < kEnvelopeBytes \<or> length source > length destination
      then Some (Inl ''Relay trace encoded message size is invalid'', destination)
      else let envelope = decode_envelope source
           in if me_magic envelope \<noteq> kMessageMagic \<or> me_version envelope \<noteq> kMessageVersion \<or> \<not> trace_valid_kind (me_kind envelope) \<or>
                 unat (me_struct_size envelope) \<noteq> length source
              then Some (Inl ''Relay trace encoded envelope is invalid'', destination)
              else if me_kind envelope = MessageKind_kCondition then Some (decode_condition source destination envelope)
              else if me_kind envelope = MessageKind_kAction then decode_action source destination envelope
              else if me_kind envelope = MessageKind_kJobRequest then Some (decode_job_request source destination envelope)
              else if me_kind envelope = MessageKind_kJobResult then Some (decode_job_result source destination envelope)
              else if me_kind envelope = MessageKind_kJobEvent then Some (decode_job_event source destination envelope)
              else Some (decode_control source destination envelope))"

subsection \<open>Files\<close>

record TraceRecord =
  tr_kind :: MessageKind
  tr_sequence :: u64
  tr_message :: "byte list"

record TraceWriter =
  tw_file :: "byte list option"
  tw_encoded :: "byte list"

record TraceReader =
  td_file :: "byte list option" \<comment> \<open>the bytes not yet read\<close>
  td_version :: u32

text \<open>\<open>fwrite n m\<close>: how many of \<open>m\<close> bytes go to a file that has \<open>n\<close>.\<close>

definition write_all :: "(nat \<Rightarrow> nat \<Rightarrow> nat) \<Rightarrow> byte list \<Rightarrow> byte list \<Rightarrow> bool \<times> byte list" where
  "write_all fwrite file data =
     (let n = min (fwrite (length file) (length data)) (length data) in (n = length data, file @ take n data))"

definition trace_writer_open :: "(string \<Rightarrow> bool) \<Rightarrow> (nat \<Rightarrow> nat \<Rightarrow> nat) \<Rightarrow> string option \<Rightarrow> string + TraceWriter" where
  "trace_writer_open fopen fwrite path =
     (case path of
        None \<Rightarrow> Inl ''Trace path is null''
      | Some p \<Rightarrow>
          if \<not> fopen p then Inl ''Failed to create Relay trace''
          else let h0 = blit (replicate kFileHeaderBytes 0) 0 kTraceMagicV2;
                   h1 = write_le h0 8 kTraceVersionV2;
                   header = write_le h1 12 (of_nat kFileHeaderBytes :: u32);
                   (ok, file) = write_all fwrite [] header
               in if \<not> ok then Inl ''Failed to write Relay trace header''
                  else Inr \<lparr>tw_file = Some file, tw_encoded = replicate kMaxTraceMessageBytes 0\<rparr>)"

definition record_header :: "MessageEnvelope \<Rightarrow> byte list \<Rightarrow> byte list" where
  "record_header envelope encoded =
     (let r0 = write_le (replicate kRecordHeaderBytes 0) 0 kRecordMagicV2;
          r1 = write_le r0 4 (ucast kTraceVersionV2 :: u16);
          r2 = write_le r1 6 (me_kind envelope);
          r3 = write_le r2 8 (of_nat (length encoded) :: u32);
          r4 = write_le r3 12 (0 :: u32);
          r5 = write_le r4 16 (me_sequence envelope)
      in write_le r5 24 (checksum64 encoded))"

definition trace_append :: "(nat \<Rightarrow> nat \<Rightarrow> nat) \<Rightarrow> byte list \<Rightarrow> TraceWriter \<Rightarrow> (string + unit) \<times> TraceWriter" where
  "trace_append fwrite message w =
     (case tw_file w of
        None \<Rightarrow> (Inl ''Relay trace message is invalid'', w)
      | Some file \<Rightarrow>
          if length message > 2 ^ 32 - 1 then (Inl ''Relay trace message is invalid'', w)
          else case encode_message message (tw_encoded w) of
            (Inl e, buffer) \<Rightarrow> (Inl e, w\<lparr>tw_encoded := buffer\<rparr>)
          | (Inr encoded_size, buffer) \<Rightarrow>
              let encoded = take encoded_size buffer;
                  envelope = decode_envelope encoded;
                  (ok1, file1) = write_all fwrite file (record_header envelope encoded);
                  (ok2, file2) = (if ok1 then write_all fwrite file1 encoded else (False, file1));
                  w2 = w\<lparr>tw_encoded := buffer, tw_file := Some file2\<rparr>
              in if \<not> ok2 then (Inl ''Failed to append Relay trace record'', w2) else (Inr (), w2))"

definition trace_reader_open :: "(string \<Rightarrow> byte list option) \<Rightarrow> string option \<Rightarrow> string + TraceReader" where
  "trace_reader_open fopen path =
     (case path of
        None \<Rightarrow> Inl ''Trace path is null''
      | Some p \<Rightarrow>
          (case fopen p of
             None \<Rightarrow> Inl ''Failed to open Relay trace''
           | Some file \<Rightarrow>
               if length file < kFileHeaderBytes then Inl ''Relay trace header is truncated''
               else let header = take kFileHeaderBytes file;
                        magic = take 8 header;
                        version = (read_le header 8 :: u32);
                        header_bytes = (read_le header 12 :: u32);
                        v2 = (magic = kTraceMagicV2 \<and> version = kTraceVersionV2);
                        v1 = (magic = kTraceMagicV1 \<and> version = kTraceVersionV1)
                    in if (\<not> v1 \<and> \<not> v2) \<or> unat header_bytes \<noteq> kFileHeaderBytes
                       then Inl ''Relay trace header is incompatible or corrupt''
                       else Inr \<lparr>td_file = Some (drop kFileHeaderBytes file), td_version = version\<rparr>))"

text \<open>\<open>alloc n\<close>: whether a vector can be resized to \<open>n\<close> bytes. \<open>None\<close>: decoding leaves the bounds of an array.\<close>

definition trace_next :: "(nat \<Rightarrow> bool) \<Rightarrow> TraceReader \<Rightarrow> ((string + TraceRecord option) \<times> TraceReader) option" where
  "trace_next alloc r =
     (case td_file r of
        None \<Rightarrow> Some (Inl ''Relay trace reader is closed'', r)
      | Some file \<Rightarrow>
          let bytes = min kRecordHeaderBytes (length file);
              header = blit (replicate kRecordHeaderBytes 0) 0 (take bytes file);
              r1 = r\<lparr>td_file := Some (drop bytes file)\<rparr>
          in if bytes = 0 then Some (Inr None, r1)
             else
               let expected_magic = (if td_version r = kTraceVersionV2 then kRecordMagicV2 else kRecordMagicV1);
                   record_magic = (read_le header 0 :: u32);
                   record_version = (read_le header 4 :: u16);
                   kind = (read_le header 6 :: MessageKind);
                   message_bytes = unat (read_le header 8 :: u32);
                   reserved = (read_le header 12 :: u32);
                   sequence = (read_le header 16 :: u64);
                   expected_checksum = (read_le header 24 :: u64)
               in if bytes \<noteq> kRecordHeaderBytes \<or> record_magic \<noteq> expected_magic \<or> ucast record_version \<noteq> td_version r \<or>
                     reserved \<noteq> 0 \<or> \<not> trace_valid_kind kind \<or> message_bytes < kEnvelopeBytes \<or> message_bytes > kMaxTraceMessageBytes
                  then Some (Inl ''Relay trace record header is incompatible or corrupt'', r1)
                  else if \<not> alloc message_bytes then Some (Inl ''Out of memory reading Relay trace record'', r1)
                  else
                    let rest = drop bytes file;
                        encoded = take message_bytes rest;
                        r2 = r1\<lparr>td_file := Some (drop message_bytes rest)\<rparr>
                    in if length encoded \<noteq> message_bytes \<or> checksum64 encoded \<noteq> expected_checksum
                       then Some (Inl ''Relay trace record payload is truncated or corrupt'', r2)
                       else case (if td_version r = kTraceVersionV1 then Some (Inr encoded)
                                  else if \<not> alloc message_bytes then Some (Inl ''Out of memory decoding Relay trace record'')
                                  else case decode_message encoded (replicate message_bytes 0) of
                                         None \<Rightarrow> None
                                       | Some (Inl e, _) \<Rightarrow> Some (Inl e)
                                       | Some (Inr _, decoded) \<Rightarrow> Some (Inr decoded)) of
                         None \<Rightarrow> None
                       | Some (Inl e) \<Rightarrow> Some (Inl e, r2)
                       | Some (Inr message) \<Rightarrow>
                           let envelope = read_envelope message 0
                           in if me_magic envelope \<noteq> kMessageMagic \<or> me_version envelope \<noteq> kMessageVersion \<or> me_kind envelope \<noteq> kind \<or>
                                 me_sequence envelope \<noteq> sequence \<or> unat (me_struct_size envelope) \<noteq> length message
                              then Some (Inl ''Relay trace record envelope does not match its index'', r2)
                              else Some (Inr (Some \<lparr>tr_kind = kind, tr_sequence = sequence, tr_message = message\<rparr>), r2))"

end
