(* ===== verification/Trace_Correct.thy ===== *)
theory Trace_Correct
  imports Trace
begin

text \<open>
  The canonical form of a message in a trace is the message itself: what \<open>encode_message\<close> accepts it
  copies field by field, and \<open>decode_message\<close> accepts the same messages and gives them back. From this
  follow that a trace replays the messages appended to it and that a reader returns no other messages
  than a writer accepts.
\<close>

section \<open>Messages a trace holds\<close>

text \<open>The messages that pass the checks, by their bytes.\<close>

definition good_condition :: "byte list \<Rightarrow> bool" where
  "good_condition bs \<longleftrightarrow>
     (let m = \<lparr>cm_envelope = read_envelope bs 0, cm_metadata = read_condition_metadata bs 32, cm_payload = []\<rparr>
      in 120 \<le> length bs \<and> validate_condition m = PR_kSuccess \<and> wire_size_condition m = length bs)"

definition good_action :: "byte list \<Rightarrow> bool" where
  "good_action bs \<longleftrightarrow>
     (let m = \<lparr>am_envelope = read_envelope bs 0, am_metadata = read_action_metadata bs 32, am_action = []\<rparr>
      in 112 \<le> length bs \<and> validate_action m = PR_kSuccess \<and> wire_size_action m = length bs)"

definition good_request :: "byte list \<Rightarrow> bool" where
  "good_request bs \<longleftrightarrow> 120 \<le> length bs \<and> validate_request (read_request bs) = PR_kSuccess \<and> wire_size_request (read_request bs) = length bs"

definition good_result :: "byte list \<Rightarrow> bool" where
  "good_result bs \<longleftrightarrow> 144 \<le> length bs \<and> validate_result (read_result bs) = PR_kSuccess \<and> wire_size_result (read_result bs) = length bs"

definition good_message :: "byte list \<Rightarrow> bool" where
  "good_message bs \<longleftrightarrow>
     (let e = read_envelope bs 0
      in 32 \<le> length bs \<and> me_magic e = kMessageMagic \<and> me_version e = kMessageVersion \<and> unat (me_struct_size e) = length bs \<and>
         (me_kind e = MessageKind_kCondition \<and> good_condition bs \<or> me_kind e = MessageKind_kAction \<and> good_action bs \<or>
          me_kind e = MessageKind_kJobRequest \<and> good_request bs \<or> me_kind e = MessageKind_kJobResult \<and> good_result bs \<or>
          me_kind e = MessageKind_kJobEvent \<and> length bs = 200 \<and> validate_event (read_event bs) = PR_kSuccess \<or>
          me_kind e = MessageKind_kShutdown \<and> valid_envelope e MessageKind_kShutdown 40 \<and> length bs = 40))"

text \<open>An action whose dimension exceeds the array is cut to the array in \<open>wire_size\<close>, and not in the loop.\<close>

definition action_overflow :: "byte list \<Rightarrow> bool" where
  "action_overflow bs \<longleftrightarrow> length bs = 4208 \<and> unat (fam_action_dim (read_action_metadata bs 32)) > 1024"

text \<open>The results of the checks: an error with the buffer as it was, or success.\<close>

definition refused :: "byte list \<Rightarrow> (string + nat) \<times> byte list \<Rightarrow> bool" where
  "refused d r \<longleftrightarrow> (\<exists>e. r = (Inl e, d))"

definition copied :: "byte list \<Rightarrow> byte list \<Rightarrow> (string + nat) \<times> byte list \<Rightarrow> bool" where
  "copied source d r \<longleftrightarrow> (\<exists>d'. r = (Inr (length source), d') \<and> take (length source) d' = source \<and> length d' = length d)"

text \<open>Appending messages one after the other, and reading as many records.\<close>

fun append_all :: "(nat \<Rightarrow> nat \<Rightarrow> nat) \<Rightarrow> byte list list \<Rightarrow> TraceWriter \<Rightarrow> TraceWriter option" where
  "append_all fwrite [] w = Some w"
| "append_all fwrite (m # ms) w =
     (case trace_append fwrite m w of (Inl _, _) \<Rightarrow> None | (Inr _, w') \<Rightarrow> append_all fwrite ms w')"

fun replay :: "(nat \<Rightarrow> bool) \<Rightarrow> nat \<Rightarrow> TraceReader \<Rightarrow> (byte list list \<times> TraceReader) option" where
  "replay alloc 0 r = Some ([], r)"
| "replay alloc (Suc n) r =
     (case trace_next alloc r of
        Some (Inr (Some rec), r') \<Rightarrow> map_option (\<lambda>(ms, r''). (tr_message rec # ms, r'')) (replay alloc n r')
      | _ \<Rightarrow> None)"

definition record_bytes :: "byte list \<Rightarrow> byte list" where
  "record_bytes m = record_header (read_envelope m 0) m @ m"

definition demo_message :: "byte list" where
  "demo_message = control_image (make_shutdown_message 7 1 0)"

section \<open>Fields\<close>

lemma le_bytes_read:
  "off + LENGTH('a) div 8 \<le> length s \<Longrightarrow> le_bytes (read_le s off :: 'a::len word) = take (LENGTH('a) div 8) (drop off s)"
  by (rule nth_equalityI) (auto simp: le_bytes_def le_byte_read_le)

lemma slice_join:
  "take a (drop off s) @ take b (drop (off + a) s) = take (a + b) (drop off s)"
  "take a (drop off s) @ take b (drop (off + a) s) @ ys = take (a + b) (drop off s) @ ys"
  by (simp_all add: take_add add.commute)

lemma decode_read:
  "decode_envelope s = read_envelope s 0" "decode_condition_metadata s off = read_condition_metadata s off"
  "decode_action_metadata s off = read_action_metadata s off" "decode_job_descriptor s off = read_descriptor s off"
  "decode_job_progress s off = read_progress s off"
  by (simp_all add: decode_envelope_def read_envelope_def decode_condition_metadata_def read_condition_metadata_def
      decode_action_metadata_def read_action_metadata_def decode_job_descriptor_def read_descriptor_def
      decode_job_progress_def read_progress_def)

lemma read_metadata:
  "jrq_metadata (read_request bs) = decode_job_request_metadata bs 32" "jrs_metadata (read_result bs) = decode_job_result_metadata bs 32"
  by (simp_all add: read_request_def read_result_def decode_job_request_metadata_def decode_job_result_metadata_def decode_read)

text \<open>The bytes of a record that was read.\<close>

lemma image_of_read:
  "off + 32 \<le> length s \<Longrightarrow> envelope_image (read_envelope s off) = take 32 (drop off s)"
  "off + 64 \<le> length s \<Longrightarrow> descriptor_image (read_descriptor s off) = take 64 (drop off s)"
  "off + 24 \<le> length s \<Longrightarrow> progress_image (read_progress s off) = take 24 (drop off s)"
  "off + 88 \<le> length s \<Longrightarrow> condition_metadata_image (read_condition_metadata s off) = take 88 (drop off s)"
  "off + 80 \<le> length s \<Longrightarrow> action_metadata_image (read_action_metadata s off) = take 80 (drop off s)"
  by (simp_all add: envelope_image_def read_envelope_def descriptor_image_def read_descriptor_def progress_image_def read_progress_def
      condition_metadata_image_def read_condition_metadata_def action_metadata_image_def read_action_metadata_def le_bytes_read slice_join del: add_2_eq_Suc')

text \<open>Encoding what was read from \<open>s\<close> extends the agreement with \<open>s\<close>.\<close>

lemma length_encode [simp]:
  "length (encode_envelope d e) = length d"
  by (simp add: encode_envelope_def Let_def)

lemma encode_envelope_take:
  assumes "32 \<le> length d" "32 \<le> length s"
  shows "take 32 (encode_envelope d (read_envelope s 0)) = take 32 s"
  unfolding encode_envelope_def read_envelope_def Let_def MessageEnvelope.simps
  by (rule take_write_le_extendI)+ (use assms in simp_all)

lemma encode_descriptor_take:
  assumes "take off d = take off s" "m = off + 64" "m \<le> length d" "m \<le> length s"
  shows "take m (encode_job_descriptor d off (read_descriptor s off)) = take m s"
    "length (encode_job_descriptor d off (read_descriptor s off)) = length d"
proof -
  show "take m (encode_job_descriptor d off (read_descriptor s off)) = take m s"
    unfolding encode_job_descriptor_def read_descriptor_def Let_def JobDescriptor.simps
    by (rule take_write_le_extendI take_blit_extendI)+ (use assms in simp_all)
  show "length (encode_job_descriptor d off (read_descriptor s off)) = length d"
    using assms by (simp add: encode_job_descriptor_def read_descriptor_def Let_def)
qed

lemma encode_progress_take:
  assumes "take off d = take off s" "m = off + 24" "m \<le> length d" "m \<le> length s"
  shows "take m (encode_job_progress d off (read_progress s off)) = take m s"
    "length (encode_job_progress d off (read_progress s off)) = length d"
proof -
  show "take m (encode_job_progress d off (read_progress s off)) = take m s"
    unfolding encode_job_progress_def read_progress_def Let_def JobProgress.simps
    by (rule take_write_le_extendI)+ (use assms in simp_all)
  show "length (encode_job_progress d off (read_progress s off)) = length d"
    using assms by (simp add: encode_job_progress_def Let_def)
qed

lemma encode_condition_metadata_take:
  assumes "take off d = take off s" "off + 88 \<le> length d" "off + 88 \<le> length s"
  shows "take (off + 88) (encode_condition_metadata d off (read_condition_metadata s off)) = take (off + 88) s"
    "length (encode_condition_metadata d off (read_condition_metadata s off)) = length d"
proof -
  show "take (off + 88) (encode_condition_metadata d off (read_condition_metadata s off)) = take (off + 88) s"
    unfolding encode_condition_metadata_def read_condition_metadata_def Let_def fe_condition_metadata.simps
    by (rule take_write_le_extendI take_blit_extendI)+ (use assms in simp_all)
  show "length (encode_condition_metadata d off (read_condition_metadata s off)) = length d"
    using assms by (simp add: encode_condition_metadata_def read_condition_metadata_def Let_def)
qed

lemma encode_action_metadata_take:
  assumes "take off d = take off s" "off + 80 \<le> length d" "off + 80 \<le> length s"
  shows "take (off + 80) (encode_action_metadata d off (read_action_metadata s off)) = take (off + 80) s"
    "length (encode_action_metadata d off (read_action_metadata s off)) = length d"
proof -
  show "take (off + 80) (encode_action_metadata d off (read_action_metadata s off)) = take (off + 80) s"
    unfolding encode_action_metadata_def read_action_metadata_def Let_def fe_action_metadata.simps
    by (rule take_write_le_extendI take_blit_extendI)+ (use assms in simp_all)
  show "length (encode_action_metadata d off (read_action_metadata s off)) = length d"
    using assms by (simp add: encode_action_metadata_def read_action_metadata_def Let_def)
qed

lemma encode_request_metadata_take:
  assumes "take off d = take off s" "off + 88 \<le> length d" "off + 88 \<le> length s"
  shows "take (off + 88) (encode_job_request_metadata d off (decode_job_request_metadata s off)) = take (off + 88) s"
    "length (encode_job_request_metadata d off (decode_job_request_metadata s off)) = length d"
proof -
  define d2 where "d2 = write_le (write_le d off (read_le s off :: u32)) (off + 4) (read_le s (off + 4) :: u32)"
  have "take (off + 8) d2 = take (off + 8) s" "length d2 = length d"
    unfolding d2_def by ((rule take_write_le_extendI)+; use assms in simp) simp
  note D = encode_descriptor_take [where off = "off + 8" and m = "off + 72", OF this(1)] this(2)
  show "take (off + 88) (encode_job_request_metadata d off (decode_job_request_metadata s off)) = take (off + 88) s"
    unfolding encode_job_request_metadata_def decode_job_request_metadata_def Let_def JobRequestMetadata.simps decode_read d2_def [symmetric]
    by (rule take_write_le_extendI)+ (use assms D in simp_all)
  show "length (encode_job_request_metadata d off (decode_job_request_metadata s off)) = length d"
    unfolding encode_job_request_metadata_def decode_job_request_metadata_def Let_def JobRequestMetadata.simps decode_read d2_def [symmetric]
    using assms D by simp
qed

lemma encode_result_metadata_take:
  assumes "take off d = take off s" "off + 112 \<le> length d" "off + 112 \<le> length s"
  shows "take (off + 112) (encode_job_result_metadata d off (decode_job_result_metadata s off)) = take (off + 112) s"
    "length (encode_job_result_metadata d off (decode_job_result_metadata s off)) = length d"
proof -
  define d2 where "d2 = write_le (write_le d off (read_le s off :: u32)) (off + 4) (read_le s (off + 4) :: u32)"
  have "take (off + 8) d2 = take (off + 8) s" "length d2 = length d"
    unfolding d2_def by ((rule take_write_le_extendI)+; use assms in simp) simp
  note D = encode_descriptor_take [where off = "off + 8" and m = "off + 72", OF this(1)] this(2)
  define d3 where "d3 = encode_job_descriptor d2 (off + 8) (read_descriptor s (off + 8))"
  have d3: "take (off + 72) d3 = take (off + 72) s" "length d3 = length d" using D assms by (simp_all add: d3_def)
  note P = encode_progress_take [where off = "off + 72" and m = "off + 96", OF d3(1)] d3(2)
  show "take (off + 112) (encode_job_result_metadata d off (decode_job_result_metadata s off)) = take (off + 112) s"
    unfolding encode_job_result_metadata_def decode_job_result_metadata_def Let_def JobResultMetadata.simps decode_read d2_def [symmetric] d3_def [symmetric]
    by (rule take_write_le_extendI)+ (use assms P in simp_all)
  show "length (encode_job_result_metadata d off (decode_job_result_metadata s off)) = length d"
    unfolding encode_job_result_metadata_def decode_job_result_metadata_def Let_def JobResultMetadata.simps decode_read d2_def [symmetric] d3_def [symmetric]
    using assms P by simp
qed

lemma encode_event_metadata_take:
  assumes "take off d = take off s" "off + 168 \<le> length d" "off + 168 \<le> length s"
  shows "take (off + 168) (encode_job_event_metadata d off (decode_job_event_metadata s off)) = take (off + 168) s"
    "length (encode_job_event_metadata d off (decode_job_event_metadata s off)) = length d"
proof -
  define d2 where "d2 = write_le (write_le (write_le d off (read_le s off :: u32)) (off + 4) (read_le s (off + 4) :: u16)) (off + 6) (read_le s (off + 6) :: u16)"
  have "take (off + 8) d2 = take (off + 8) s" "length d2 = length d"
    unfolding d2_def by ((rule take_write_le_extendI)+; use assms in simp) simp
  note D = encode_descriptor_take [where off = "off + 8" and m = "off + 72", OF this(1)] this(2)
  define d3 where "d3 = encode_job_descriptor d2 (off + 8) (read_descriptor s (off + 8))"
  have d3: "take (off + 72) d3 = take (off + 72) s" "length d3 = length d" using D assms by (simp_all add: d3_def)
  note P = encode_progress_take [where off = "off + 72" and m = "off + 96", OF d3(1)] d3(2)
  show "take (off + 168) (encode_job_event_metadata d off (decode_job_event_metadata s off)) = take (off + 168) s"
    unfolding encode_job_event_metadata_def decode_job_event_metadata_def Let_def JobEventMetadata.simps JobEventTiming.simps decode_read
      d2_def [symmetric] d3_def [symmetric]
    by (rule take_write_le_extendI)+ (use assms P in simp_all)
  show "length (encode_job_event_metadata d off (decode_job_event_metadata s off)) = length d"
    unfolding encode_job_event_metadata_def decode_job_event_metadata_def Let_def JobEventMetadata.simps JobEventTiming.simps decode_read
      d2_def [symmetric] d3_def [symmetric]
    using assms P by simp
qed

lemma floats_take:
  assumes "take k d = take k s" "k + 4 * n \<le> length d" "k + 4 * n \<le> length s"
  shows "take (k + 4 * n) (fold (\<lambda>i d. write_float d (k + i * 4) (read_float s (k + i * 4))) [0 ..< n] d) = take (k + 4 * n) s"
    "length (fold (\<lambda>i d. write_float d (k + i * 4) (read_float s (k + i * 4))) [0 ..< n] d) = length d"
proof -
  show len: "length (fold (\<lambda>i d. write_float d (k + i * 4) (read_float s (k + i * 4))) [0 ..< n] d) = length d" for n
    by (induction n) (simp_all add: write_float_def)
  show "take (k + 4 * n) (fold (\<lambda>i d. write_float d (k + i * 4) (read_float s (k + i * 4))) [0 ..< n] d) = take (k + 4 * n) s"
    using assms(2,3)
  proof (induction n)
    case (Suc n)
    have "take (k + n * 4) (fold (\<lambda>i d. write_float d (k + i * 4) (read_float s (k + i * 4))) [0 ..< n] d) = take (k + n * 4) s"
      using Suc by (simp add: mult.commute)
    then show ?case using Suc.prems len [of n]
      by (simp add: write_float_def read_float_def) (rule take_write_le_extendI, simp_all)
  qed (use assms(1) in simp)
qed

text \<open>Reading looks at the bytes of the field only.\<close>

lemma read_le_take:
  assumes "take n a = take n b" "off + LENGTH('a) div 8 \<le> n" "n \<le> length a" "n \<le> length b"
  shows "(read_le a off :: 'a::len word) = read_le b off"
proof (rule read_le_cong)
  fix i assume "i < LENGTH('a) div 8"
  then have "off + i < n" using assms(2) by linarith
  then show "a ! (off + i) = b ! (off + i)" using assms(1) by (metis nth_take)
qed

lemma slice_take:
  assumes "take n a = take n b" "off + k \<le> n"
  shows "take k (drop off a) = take k (drop off b)"
proof -
  have *: "take k (drop off xs) = drop off (take (off + k) (take n xs))" for xs :: "'a list" using assms(2) by (simp add: drop_take min_def)
  show ?thesis unfolding * [of a] * [of b] assms(1) ..
qed

lemma read_agree:
  assumes "take n a = take n b" "n \<le> length a" "n \<le> length b"
  shows "off + 32 \<le> n \<Longrightarrow> read_envelope a off = read_envelope b off"
    "off + 64 \<le> n \<Longrightarrow> read_descriptor a off = read_descriptor b off"
    "off + 24 \<le> n \<Longrightarrow> read_progress a off = read_progress b off"
    "off + 88 \<le> n \<Longrightarrow> read_condition_metadata a off = read_condition_metadata b off"
    "off + 80 \<le> n \<Longrightarrow> read_action_metadata a off = read_action_metadata b off"
  by (simp_all add: read_envelope_def read_descriptor_def read_progress_def read_condition_metadata_def read_action_metadata_def
      read_le_take [OF assms(1) _ assms(2,3)] slice_take [OF assms(1)])

lemma decode_agree:
  assumes "take n a = take n b" "n \<le> length a" "n \<le> length b"
  shows "off + 88 \<le> n \<Longrightarrow> decode_job_request_metadata a off = decode_job_request_metadata b off"
    "off + 112 \<le> n \<Longrightarrow> decode_job_result_metadata a off = decode_job_result_metadata b off"
    "off + 168 \<le> n \<Longrightarrow> decode_job_event_metadata a off = decode_job_event_metadata b off"
  by (simp_all add: decode_job_request_metadata_def decode_job_result_metadata_def decode_job_event_metadata_def decode_read
      read_le_take [OF assms(1) _ assms(2,3)] read_agree [OF assms])

section \<open>Encoding\<close>

lemma payload_irrelevant:
  "validate_condition m = validate_condition (m\<lparr>cm_payload := p\<rparr>)" "wire_size_condition m = wire_size_condition (m\<lparr>cm_payload := p\<rparr>)"
  "validate_action a = validate_action (a\<lparr>am_action := p\<rparr>)" "wire_size_action a = wire_size_action (a\<lparr>am_action := p\<rparr>)"
  "validate_request q = validate_request (q\<lparr>jrq_payload := bs\<rparr>)" "wire_size_request q = wire_size_request (q\<lparr>jrq_payload := bs\<rparr>)"
  "validate_result t = validate_result (t\<lparr>jrs_payload := bs\<rparr>)" "wire_size_result t = wire_size_result (t\<lparr>jrs_payload := bs\<rparr>)"
  by (simp_all add: validate_condition_def wire_size_condition_def validate_action_def wire_size_action_def validate_request_def
      wire_size_request_def validate_result_def wire_size_result_def job_result_code_def Let_def)

lemma object_take: "length source \<le> length img \<Longrightarrow> take (length source) (blit img 0 source) = source"
  "length source \<le> length img \<Longrightarrow> length (blit img 0 source) = length img"
  by (simp_all add: blit_0)

lemma object_agree: "n \<le> length source \<Longrightarrow> take n (blit img 0 source) = take n source"
  by (simp add: blit_0)

lemmas trace_sizes = kEnvelopeBytes_def kConditionPayloadOffset_def kActionPayloadOffset_def kJobRequestPayloadOffset_def
  kJobResultPayloadOffset_def sizeof_ConditionMessage_def sizeof_ActionMessage_def sizeof_JobRequestMessage_def
  sizeof_JobResultMessage_def sizeof_ControlMessage_def wire_simps

lemma default_images:
  "length (condition_image default_condition) = 20600" "length (action_image default_action) = 4208"
  "length (request_image default_request) = 65656" "length (result_image default_result) = 65680"
  "length (event_image default_event) = 200" "length (control_image default_control) = 40"
  by (simp_all add: condition_image_def action_image_def request_image_def result_image_def event_image_def control_image_def
      default_condition_def default_action_def default_request_def default_result_def default_event_def default_descriptor_def
      default_progress_def timing_image_def Let_def wire_simps)

lemma wire_size_bounds:
  "120 \<le> wire_size_condition m" "wire_size_condition m \<le> 20600" "112 \<le> wire_size_action a" "wire_size_action a \<le> 4208"
  "wire_size_condition m mod 4 = 0" "wire_size_action a mod 4 = 0"
  by (simp_all add: wire_size_condition_def wire_size_action_def clamp_dim_def Let_def wire_simps mod_add_right_eq)

lemma job_size_bounds:
  "120 \<le> wire_size_request q" "wire_size_request q \<le> 65656" "144 \<le> wire_size_result t" "wire_size_result t \<le> 65680"
  by (simp_all add: wire_size_request_def wire_size_result_def wire_simps)

lemma good_bounds:
  "good_condition bs \<Longrightarrow> length bs \<le> 20600" "good_action bs \<Longrightarrow> length bs \<le> 4208"
  "good_request bs \<Longrightarrow> length bs \<le> 65656" "good_result bs \<Longrightarrow> length bs \<le> 65680"
  unfolding good_condition_def good_action_def good_request_def good_result_def Let_def
  using wire_size_bounds(2,4) job_size_bounds(2,4) by metis+

lemma action_size: "validate_action m = PR_kSuccess \<Longrightarrow> 112 + 4 * unat (fam_action_dim (am_metadata m)) = wire_size_action m"
  by (auto simp: validate_action_def wire_size_action_def clamp_dim_def Let_def wire_simps split: if_splits)

lemma read_condition_parts:
  "cm_envelope (read_condition bs) = read_envelope bs 0" "cm_metadata (read_condition bs) = read_condition_metadata bs 32"
  "length (cm_payload (read_condition bs)) = 5120"
  "am_envelope (read_action bs) = read_envelope bs 0" "am_metadata (read_action bs) = read_action_metadata bs 32"
  by (simp_all add: read_condition_def read_action_def read_floats_def wire_simps)

lemma values_count:
  assumes "length (cm_payload m) = 5120"
  shows "120 + 4 * (length (condition_values m) + length (noise_values m)) = wire_size_condition m"
  using assms by (simp add: condition_values_def noise_values_def wire_size_condition_def clamp_dim_def Let_def wire_simps)

lemma encode_condition_cases:
  assumes "32 \<le> length source" "length source \<le> length d" "take 32 d = take 32 source"
  shows "if good_condition source then copied source d (encode_condition source d) else refused d (encode_condition source d)"
proof -
  define object where "object = blit (condition_image default_condition) 0 source"
  define m where "m = read_condition object"
  have enc: "encode_condition source d =
    (if length source > 20600 then (Inl ''Relay trace condition message is too large'', d)
     else if validate_condition m \<noteq> PR_kSuccess \<or> wire_size_condition m \<noteq> length source
     then (Inl ''Relay trace condition message is invalid'', d)
     else (Inr (length source), fold (\<lambda>i d. write_float d (120 + i * 4) (read_float object (120 + i * 4)))
        [0 ..< length (condition_values m) + length (noise_values m)] (encode_condition_metadata d 32 (cm_metadata m))))"
    by (simp add: encode_condition_def object_def m_def Let_def trace_sizes)
  show ?thesis
  proof (cases "length source \<le> 20600")
    case small: True
    note len = object_take(2) [of source "condition_image default_condition", unfolded default_images, OF small, folded object_def]
    have agree: "k \<le> length source \<Longrightarrow> take k object = take k source" for k by (simp add: object_def object_agree)
    have m: "m = \<lparr>cm_envelope = read_envelope object 0, cm_metadata = read_condition_metadata object 32, cm_payload = cm_payload m\<rparr>"
      by (simp add: m_def read_condition_def)
    have fields: "read_envelope object 0 = read_envelope source 0" "read_condition_metadata object 32 = read_condition_metadata source 32"
      if "120 \<le> length source"
      using read_agree(1,4) [OF agree [OF that] _ that] len by simp_all
    have good: "good_condition source \<longleftrightarrow> validate_condition m = PR_kSuccess \<and> wire_size_condition m = length source"
    proof (cases "120 \<le> length source")
      case True
      have "\<lparr>cm_envelope = read_envelope source 0, cm_metadata = read_condition_metadata source 32, cm_payload = []\<rparr> = m\<lparr>cm_payload := []\<rparr>"
        by (subst m) (simp add: fields [OF True])
      then show ?thesis using True payload_irrelevant(1,2) [of m "[]"] by (simp add: good_condition_def Let_def)
    next
      case False
      then show ?thesis using wire_size_bounds(1) [of m] by (auto simp: good_condition_def)
    qed
    have "copied source d (encode_condition source d)" if g: "good_condition source"
    proof -
      have 120: "120 \<le> length source" using g by (simp add: good_condition_def Let_def)
      have n: "120 + 4 * (length (condition_values m) + length (noise_values m)) = length source"
        using good g values_count [of m] by (simp add: m_def read_condition_parts)
      have "take 32 d = take 32 object" using assms agree by simp
      from encode_condition_metadata_take [where off = 32, OF this] 120 assms len
      have md: "take 120 (encode_condition_metadata d 32 (cm_metadata m)) = take 120 object"
        "length (encode_condition_metadata d 32 (cm_metadata m)) = length d"
        by (simp_all add: m_def read_condition_parts)
      note F = floats_take [where k = 120 and n = "length (condition_values m) + length (noise_values m)", OF md(1), unfolded n md(2) len, OF assms(2) small]
      show ?thesis unfolding enc copied_def using F small good g agree [of "length source"] by simp
    qed
    then show ?thesis using good by (auto simp: refused_def enc)
  next
    case False
    then have "\<not> good_condition source" using good_bounds(1) by blast
    then show ?thesis using False by (simp add: enc refused_def)
  qed
qed

lemma encode_action_cases:
  assumes "32 \<le> length source" "length source \<le> length d" "take 32 d = take 32 source"
  shows "if good_action source then copied source d (encode_action source d) else refused d (encode_action source d)"
proof -
  define object where "object = blit (action_image default_action) 0 source"
  define m where "m = read_action object"
  have enc: "encode_action source d =
    (if length source > 4208 then (Inl ''Relay trace action message is too large'', d)
     else if validate_action m \<noteq> PR_kSuccess \<or> wire_size_action m \<noteq> length source
     then (Inl ''Relay trace action message is invalid'', d)
     else (Inr (length source), fold (\<lambda>i d. write_float d (112 + i * 4) (read_float object (112 + i * 4)))
        [0 ..< unat (fam_action_dim (am_metadata m))] (encode_action_metadata d 32 (am_metadata m))))"
    by (simp add: encode_action_def object_def m_def Let_def trace_sizes)
  show ?thesis
  proof (cases "length source \<le> 4208")
    case small: True
    note len = object_take(2) [of source "action_image default_action", unfolded default_images, OF small, folded object_def]
    have agree: "k \<le> length source \<Longrightarrow> take k object = take k source" for k by (simp add: object_def object_agree)
    have m: "m = \<lparr>am_envelope = read_envelope object 0, am_metadata = read_action_metadata object 32, am_action = am_action m\<rparr>"
      by (simp add: m_def read_action_def)
    have fields: "read_envelope object 0 = read_envelope source 0" "read_action_metadata object 32 = read_action_metadata source 32"
      if "112 \<le> length source"
      using read_agree(1,5) [OF agree [OF that] _ that] len by simp_all
    have good: "good_action source \<longleftrightarrow> validate_action m = PR_kSuccess \<and> wire_size_action m = length source"
    proof (cases "112 \<le> length source")
      case True
      have "\<lparr>am_envelope = read_envelope source 0, am_metadata = read_action_metadata source 32, am_action = []\<rparr> = m\<lparr>am_action := []\<rparr>"
        by (subst m) (simp add: fields [OF True])
      then show ?thesis using True payload_irrelevant(3,4) [of m "[]"] by (simp add: good_action_def Let_def)
    next
      case False
      then show ?thesis using wire_size_bounds(3) [of m] by (auto simp: good_action_def)
    qed
    have "copied source d (encode_action source d)" if g: "good_action source"
    proof -
      have 112: "112 \<le> length source" using g by (simp add: good_action_def Let_def)
      have n: "112 + 4 * unat (fam_action_dim (am_metadata m)) = length source"
        using good g action_size [of m] by simp
      have "take 32 d = take 32 object" using assms agree by simp
      from encode_action_metadata_take [where off = 32, OF this] 112 assms len
      have md: "take 112 (encode_action_metadata d 32 (am_metadata m)) = take 112 object"
        "length (encode_action_metadata d 32 (am_metadata m)) = length d"
        by (simp_all add: m_def read_condition_parts)
      note F = floats_take [where k = 112 and n = "unat (fam_action_dim (am_metadata m))", OF md(1), unfolded n md(2) len, OF assms(2) small]
      show ?thesis unfolding enc copied_def using F small good g agree [of "length source"] by simp
    qed
    then show ?thesis using good by (auto simp: refused_def enc)
  next
    case False
    then have "\<not> good_action source" using good_bounds(2) by blast
    then show ?thesis using False by (simp add: enc refused_def)
  qed
qed

lemma encode_request_cases:
  assumes "32 \<le> length source" "length source \<le> length d" "take 32 d = take 32 source"
  shows "if good_request source then copied source d (encode_job_request source d) else refused d (encode_job_request source d)"
proof -
  define object where "object = blit (request_image default_request) 0 source"
  define m where "m = read_request object"
  have enc: "encode_job_request source d =
    (if length source > 65656 then (Inl ''Relay trace job request is too large'', d)
     else if validate_request m \<noteq> PR_kSuccess \<or> wire_size_request m \<noteq> length source
     then (Inl ''Relay trace job request is invalid'', d)
     else (Inr (length source), blit (encode_job_request_metadata d 32 (jrq_metadata m)) 120 (request_payload_values m)))"
    by (simp add: encode_job_request_def object_def m_def Let_def trace_sizes)
  show ?thesis
  proof (cases "length source \<le> 65656")
    case small: True
    note len = object_take(2) [of source "request_image default_request", unfolded default_images, OF small, folded object_def]
    have agree: "k \<le> length source \<Longrightarrow> take k object = take k source" for k by (simp add: object_def object_agree)
    have good: "good_request source \<longleftrightarrow> validate_request m = PR_kSuccess \<and> wire_size_request m = length source"
    proof (cases "120 \<le> length source")
      case True
      have "read_request source = m\<lparr>jrq_payload := drop 120 source\<rparr>"
        using read_agree(1) [OF agree [OF True] _ True, of 0] decode_agree(1) [OF agree [OF True] _ True, of 32] len
        by (simp add: m_def read_request_def decode_job_request_metadata_def decode_read)
      then show ?thesis using True payload_irrelevant(5,6) [of m "drop 120 source"] by (simp add: good_request_def)
    next
      case False
      then show ?thesis using job_size_bounds(1) [of m] by (auto simp: good_request_def)
    qed
    have "copied source d (encode_job_request source d)" if g: "good_request source"
    proof -
      have 120: "120 \<le> length source" using g by (simp add: good_request_def)
      have "take 32 d = take 32 object" using assms agree by simp
      from encode_request_metadata_take [where off = 32, OF this] 120 assms len
      have md: "take 120 (encode_job_request_metadata d 32 (jrq_metadata m)) = take 120 object"
        "length (encode_job_request_metadata d 32 (jrq_metadata m)) = length d"
        by (simp_all add: m_def read_metadata)
      have v: "request_payload_values m = take (length source - 120) (drop 120 object)"
      proof -
        have "request_payload_values m = take (min (unat (jrqm_payload_bytes (jrq_metadata m))) 65536) (drop 120 object)"
          by (simp add: request_payload_values_def m_def read_request_def wire_simps)
        moreover have "length source - 120 = min (unat (jrqm_payload_bytes (jrq_metadata m))) 65536"
          using good g by (auto simp: wire_size_request_def wire_simps)
        ultimately show ?thesis by simp
      qed
      have "take (length source) (blit (encode_job_request_metadata d 32 (jrq_metadata m)) 120 (request_payload_values m)) = take (length source) object"
        by (rule take_blit_extendI [OF md(1)]) (use md v 120 len small assms in simp_all)
      then show ?thesis unfolding enc copied_def using small good g agree [of "length source"] md v 120 len assms by simp
    qed
    then show ?thesis using good by (auto simp: refused_def enc)
  next
    case False
    then have "\<not> good_request source" using good_bounds(3) by blast
    then show ?thesis using False by (simp add: enc refused_def)
  qed
qed

lemma encode_result_cases:
  assumes "32 \<le> length source" "length source \<le> length d" "take 32 d = take 32 source"
  shows "if good_result source then copied source d (encode_job_result source d) else refused d (encode_job_result source d)"
proof -
  define object where "object = blit (result_image default_result) 0 source"
  define m where "m = read_result object"
  have enc: "encode_job_result source d =
    (if length source > 65680 then (Inl ''Relay trace job result is too large'', d)
     else if validate_result m \<noteq> PR_kSuccess \<or> wire_size_result m \<noteq> length source
     then (Inl ''Relay trace job result is invalid'', d)
     else (Inr (length source), blit (encode_job_result_metadata d 32 (jrs_metadata m)) 144 (result_payload_values m)))"
    by (simp add: encode_job_result_def object_def m_def Let_def trace_sizes)
  show ?thesis
  proof (cases "length source \<le> 65680")
    case small: True
    note len = object_take(2) [of source "result_image default_result", unfolded default_images, OF small, folded object_def]
    have agree: "k \<le> length source \<Longrightarrow> take k object = take k source" for k by (simp add: object_def object_agree)
    have good: "good_result source \<longleftrightarrow> validate_result m = PR_kSuccess \<and> wire_size_result m = length source"
    proof (cases "144 \<le> length source")
      case True
      have "read_result source = m\<lparr>jrs_payload := drop 144 source\<rparr>"
        using read_agree(1) [OF agree [OF True] _ True, of 0] decode_agree(2) [OF agree [OF True] _ True, of 32] len
        by (simp add: m_def read_result_def decode_job_result_metadata_def decode_read)
      then show ?thesis using True payload_irrelevant(7,8) [of m "drop 144 source"] by (simp add: good_result_def)
    next
      case False
      then show ?thesis using job_size_bounds(3) [of m] by (auto simp: good_result_def)
    qed
    have "copied source d (encode_job_result source d)" if g: "good_result source"
    proof -
      have 144: "144 \<le> length source" using g by (simp add: good_result_def)
      have "take 32 d = take 32 object" using assms agree by simp
      from encode_result_metadata_take [where off = 32, OF this] 144 assms len
      have md: "take 144 (encode_job_result_metadata d 32 (jrs_metadata m)) = take 144 object"
        "length (encode_job_result_metadata d 32 (jrs_metadata m)) = length d"
        by (simp_all add: m_def read_metadata)
      have v: "result_payload_values m = take (length source - 144) (drop 144 object)"
      proof -
        have "result_payload_values m = take (min (unat (jrsm_payload_bytes (jrs_metadata m))) 65536) (drop 144 object)"
          by (simp add: result_payload_values_def m_def read_result_def wire_simps)
        moreover have "length source - 144 = min (unat (jrsm_payload_bytes (jrs_metadata m))) 65536"
          using good g by (auto simp: wire_size_result_def wire_simps)
        ultimately show ?thesis by simp
      qed
      have "take (length source) (blit (encode_job_result_metadata d 32 (jrs_metadata m)) 144 (result_payload_values m)) = take (length source) object"
        by (rule take_blit_extendI [OF md(1)]) (use md v 144 len small assms in simp_all)
      then show ?thesis unfolding enc copied_def using small good g agree [of "length source"] md v 144 len assms by simp
    qed
    then show ?thesis using good by (auto simp: refused_def enc)
  next
    case False
    then have "\<not> good_result source" using good_bounds(4) by blast
    then show ?thesis using False by (simp add: enc refused_def)
  qed
qed

lemma encode_event_cases:
  assumes "32 \<le> length source" "length source \<le> length d" "take 32 d = take 32 source"
  shows "if length source = 200 \<and> validate_event (read_event source) = PR_kSuccess then copied source d (encode_job_event source d)
    else refused d (encode_job_event source d)"
proof (cases "length source = 200")
  case True
  have object: "blit (event_image default_event) 0 source = source" using True by (simp add: blit_0 default_images)
  have md: "take 200 (encode_job_event_metadata d 32 (decode_job_event_metadata source 32)) = take 200 source"
    "length (encode_job_event_metadata d 32 (decode_job_event_metadata source 32)) = length d"
    using encode_event_metadata_take [where off = 32 and d = d and s = source] assms True by simp_all
  then show ?thesis using True by (simp add: encode_job_event_def object read_event_def Let_def trace_sizes copied_def refused_def)
qed (simp add: encode_job_event_def refused_def wire_simps)

lemma encode_control_cases:
  assumes "32 \<le> length source" "length source \<le> length d" "take 32 d = take 32 source"
  shows "if length source = 40 \<and> valid_envelope (read_envelope source 0) MessageKind_kShutdown 40 then copied source d (encode_control source d)
    else refused d (encode_control source d)"
proof (cases "length source = 40")
  case True
  have object: "blit (control_image default_control) 0 source = source" using True by (simp add: blit_0 default_images)
  have "take 40 (write_le d 32 (read_le source 32 :: u64)) = take 40 source"
    by (rule take_write_le_extendI) (use assms True in simp_all)
  then show ?thesis using True by (simp add: encode_control_def object read_control_def Let_def trace_sizes copied_def refused_def)
qed (simp add: encode_control_def refused_def trace_sizes)

text \<open>\<open>encode_message\<close> accepts exactly the good messages, and copies them.\<close>

lemma encode_message_cases:
  assumes "length source \<le> length d"
  shows "if good_message source then copied source d (encode_message source d)
    else (\<exists>e d'. encode_message source d = (Inl e, d') \<and> length d' = length d)"
proof (cases "32 \<le> length source")
  case True
  define e where "e = read_envelope source 0"
  let ?d = "encode_envelope d e"
  have d: "length source \<le> length ?d" "take 32 ?d = take 32 source" using assms encode_envelope_take [of d source] True by (simp_all add: e_def)
  have copied: "copied source ?d r = copied source d r" for r by (simp add: copied_def)
  have refused: "refused ?d r \<Longrightarrow> \<exists>e d'. r = (Inl e, d') \<and> length d' = length d" for r by (auto simp: refused_def)
  note C = encode_condition_cases [OF True d] encode_action_cases [OF True d] encode_request_cases [OF True d] encode_result_cases [OF True d]
    encode_event_cases [OF True d] encode_control_cases [OF True d]
  consider "\<not> (me_magic e = kMessageMagic \<and> me_version e = kMessageVersion \<and> trace_valid_kind (me_kind e) \<and> unat (me_struct_size e) = length source)"
    | "me_magic e = kMessageMagic" "me_version e = kMessageVersion" "unat (me_struct_size e) = length source" "trace_valid_kind (me_kind e)" by blast
  then show ?thesis
  proof cases
    case 1
    then have "\<not> good_message source" by (auto simp: good_message_def e_def trace_valid_kind_def)
    moreover have "encode_message source d = (Inl ''Relay trace message envelope is invalid'', d)"
      using 1 True assms by (simp add: encode_message_def e_def Let_def kEnvelopeBytes_def)
    ultimately show ?thesis by simp
  next
    case 2
    note E = encode_message_def e_def [symmetric] Let_def kEnvelopeBytes_def good_message_def enum_simps
    have "me_kind e \<in> {1, 2, 3, 4, 5, 6}" using 2(4) by (auto simp: trace_valid_kind_def enum_simps)
    then consider "me_kind e = 1" | "me_kind e = 2" | "me_kind e = 3" | "me_kind e = 4" | "me_kind e = 5" | "me_kind e = 6" by blast
    then show ?thesis
      by cases (use C 2 True assms refused in \<open>auto simp: E copied e_def [symmetric] split: if_splits\<close>)
  qed
next
  case False
  then show ?thesis by (simp add: encode_message_def good_message_def Let_def kEnvelopeBytes_def)
qed

section \<open>Decoding\<close>

lemma copy_out_same:
  assumes "length destination = length source" "take (length source) object = source"
  shows "copy_out source destination object = (Inr (length source), source)"
  using assms by (simp add: copy_out_def blit_0)

text \<open>Floats copied into a payload that follows a prefix of the source.\<close>

lemma floats_fill:
  assumes "k + 4 * n = length source" "4 * n \<le> length p"
  shows "take (length source) (take k source @ fold (\<lambda>i p. write_float p (i * 4) (read_float source (k + i * 4))) [0 ..< n] p) = source"
proof -
  have read: "read_float source (k + i * 4) = read_float (drop k source) (0 + i * 4)" if "i < n" for i
    unfolding read_float_def by (rule read_le_cong) (use that assms in \<open>simp add: ac_simps\<close>)
  have "fold (\<lambda>i p. write_float p (i * 4) (read_float source (k + i * 4))) [0 ..< n] p =
      fold (\<lambda>i p. write_float p (0 + i * 4) (read_float (drop k source) (0 + i * 4))) [0 ..< n] p"
    by (rule fold_cong) (simp_all add: read)
  moreover have "take (4 * n) (fold (\<lambda>i p. write_float p (0 + i * 4) (read_float (drop k source) (0 + i * 4))) [0 ..< n] p) = drop k source"
    using floats_take(1) [where k = 0 and n = n and d = p and s = "drop k source"] assms by simp
  ultimately show ?thesis using assms(1) [symmetric] by simp
qed

lemma decode_condition_cases:
  assumes len: "32 \<le> length source" "length d = length source" and e: "e = read_envelope source 0"
  shows "if good_condition source then decode_condition source d e = (Inr (length source), source) else refused d (decode_condition source d e)"
proof (cases "120 \<le> length source")
  case True
  define md where "md = read_condition_metadata source 32"
  define m where "m = default_condition\<lparr>cm_envelope := e, cm_metadata := md\<rparr>"
  define n where "n = length (condition_values m) + length (noise_values m)"
  define object where "object = envelope_image e @ condition_metadata_image md @
    fold (\<lambda>i p. write_float p (i * 4) (read_float source (120 + i * 4))) [0 ..< n] (floats_image (cm_payload m))"
  have dec: "decode_condition source d e =
    (if (length source - 120) mod 4 \<noteq> 0 then (Inl ''Relay trace encoded condition size is invalid'', d)
     else if wire_size_condition m \<noteq> length source then (Inl ''Relay trace encoded condition dimensions are invalid'', d)
     else if validate_condition (read_condition object) \<noteq> PR_kSuccess then (Inl ''Relay trace decoded condition is invalid'', d)
     else copy_out source d object)"
    using True by (simp add: decode_condition_def decode_read md_def m_def n_def object_def Let_def trace_sizes)
  have pay: "length (cm_payload m) = 5120" by (simp add: m_def default_condition_def wire_simps)
  have n: "120 + 4 * n = wire_size_condition m" using values_count [OF pay] by (simp add: n_def)
  have good: "good_condition source \<longleftrightarrow> validate_condition m = PR_kSuccess \<and> wire_size_condition m = length source"
  proof -
    have "\<lparr>cm_envelope = read_envelope source 0, cm_metadata = read_condition_metadata source 32, cm_payload = []\<rparr> = m\<lparr>cm_payload := []\<rparr>"
      by (simp add: m_def e md_def default_condition_def)
    then show ?thesis using True payload_irrelevant(1,2) [of m "[]"] by (simp add: good_condition_def Let_def)
  qed
  show ?thesis
  proof (cases "wire_size_condition m = length source")
    case size: True
    have prefix: "envelope_image e @ condition_metadata_image md = take 120 source"
      using image_of_read(1) [of 0 source] image_of_read(4) [of 32 source] True slice_join(1) [of 32 0 source 88] by (simp add: e md_def)
    have mod: "(length source - 120) mod 4 = 0" using n size by presburger
    have obj: "take (length source) object = source"
      using floats_fill [of 120 n source "floats_image (cm_payload m)"] n size pay wire_size_bounds(2) [of m]
      by (simp add: object_def prefix [symmetric])
    then have "length source \<le> length object" by (metis length_take min.absorb_iff2 min.commute)
    then have "read_envelope object 0 = read_envelope source 0" "read_condition_metadata object 32 = read_condition_metadata source 32"
      using read_agree(1,4) [of "length source" object source] obj True by simp_all
    then have "read_condition object = m\<lparr>cm_payload := cm_payload (read_condition object)\<rparr>"
      by (simp add: read_condition_def m_def e md_def)
    then have "validate_condition (read_condition object) = validate_condition m"
      using payload_irrelevant(1) [of m "cm_payload (read_condition object)"] by simp
    then show ?thesis using dec mod size good copy_out_same [OF len(2) obj] by (simp add: refused_def)
  next
    case False
    then show ?thesis using dec good by (simp add: refused_def)
  qed
next
  case False
  then show ?thesis by (simp add: decode_condition_def good_condition_def refused_def Let_def trace_sizes)
qed

lemma decode_action_cases:
  assumes len: "32 \<le> length source" "length d = length source" and e: "e = read_envelope source 0"
  shows "if action_overflow source then decode_action source d e = None
    else if good_action source then decode_action source d e = Some (Inr (length source), source)
    else (\<exists>msg. decode_action source d e = Some (Inl msg, d))"
proof (cases "112 \<le> length source")
  case True
  define md where "md = read_action_metadata source 32"
  define m where "m = default_action\<lparr>am_envelope := e, am_metadata := md\<rparr>"
  define n where "n = unat (fam_action_dim md)"
  define object where "object = envelope_image e @ action_metadata_image md @
    fold (\<lambda>i p. write_float p (i * 4) (read_float source (112 + i * 4))) [0 ..< n] (floats_image (am_action m))"
  have dec: "decode_action source d e =
    (if (length source - 112) mod 4 \<noteq> 0 then Some (Inl ''Relay trace encoded action size is invalid'', d)
     else if wire_size_action m \<noteq> length source then Some (Inl ''Relay trace encoded action dimensions are invalid'', d)
     else if n > 1024 then None
     else if validate_action (read_action object) \<noteq> PR_kSuccess then Some (Inl ''Relay trace decoded action is invalid'', d)
     else Some (copy_out source d object))"
    using True by (simp add: decode_action_def decode_read md_def m_def n_def object_def default_action_def Let_def trace_sizes)
  have good: "good_action source \<longleftrightarrow> validate_action m = PR_kSuccess \<and> wire_size_action m = length source"
  proof -
    have "\<lparr>am_envelope = read_envelope source 0, am_metadata = read_action_metadata source 32, am_action = []\<rparr> = m\<lparr>am_action := []\<rparr>"
      by (simp add: m_def e md_def default_action_def)
    then show ?thesis using True payload_irrelevant(3,4) [of m "[]"] by (simp add: good_action_def Let_def)
  qed
  have same: "validate_action (read_action object) = validate_action m"
  proof -
    have "length (fam_model_digest md) = 16" using True by (simp add: md_def read_action_metadata_def)
    then have "read_action object = m\<lparr>am_action := am_action (read_action object)\<rparr>"
      by (simp add: read_action_def object_def m_def read_envelope_image read_metadata_skip read_metadata_images)
    then show ?thesis using payload_irrelevant(3) [of m "am_action (read_action object)"] by simp
  qed
  have over: "action_overflow source \<longleftrightarrow> wire_size_action m = length source \<and> n > 1024"
    by (auto simp: action_overflow_def wire_size_action_def clamp_dim_def m_def n_def md_def Let_def wire_simps)
  show ?thesis
  proof (cases "good_action source")
    case g: True
    have n: "112 + 4 * n = length source" using action_size [of m] good g by (simp add: n_def m_def)
    then have mod: "(length source - 112) mod 4 = 0" by presburger
    have prefix: "envelope_image e @ action_metadata_image md = take 112 source"
      using image_of_read(1) [of 0 source] image_of_read(5) [of 32 source] True slice_join(1) [of 32 0 source 80] by (simp add: e md_def)
    have "length (am_action m) = 1024" by (simp add: m_def default_action_def wire_simps)
    then have obj: "take (length source) object = source"
      using floats_fill [of 112 n source "floats_image (am_action m)"] n good_bounds(2) [OF g] by (simp add: object_def prefix [symmetric])
    have "n \<le> 1024" using n good_bounds(2) [OF g] by simp
    then show ?thesis using dec mod good g same over copy_out_same [OF len(2) obj] by simp
  next
    case False
    show ?thesis
    proof (cases "action_overflow source")
      case True
      then have "(length source - 112) mod 4 = 0" by (simp add: action_overflow_def)
      then show ?thesis using True dec over by simp
    next
      case f: False
      then show ?thesis using dec good same over False by auto
    qed
  qed
next
  case False
  then show ?thesis by (simp add: decode_action_def good_action_def action_overflow_def Let_def trace_sizes)
qed

lemma request_metadata_read:
  assumes "off + 88 \<le> length s"
  defines "m \<equiv> decode_job_request_metadata s off"
  shows "le_bytes (jrqm_struct_size m) @ le_bytes (jrqm_service_class m) @ descriptor_image (jrqm_descriptor m) @
    le_bytes (jrqm_timestamp_ns m) @ le_bytes (jrqm_payload_bytes m) = take 88 (drop off s)"
  using assms(1) by (simp add: m_def decode_job_request_metadata_def decode_read le_bytes_read image_of_read slice_join)

lemma result_metadata_read:
  assumes "off + 112 \<le> length s"
  defines "m \<equiv> decode_job_result_metadata s off"
  shows "le_bytes (jrsm_struct_size m) @ le_bytes (jrsm_service_class m) @ descriptor_image (jrsm_descriptor m) @
    progress_image (jrsm_progress m) @ le_bytes (jrsm_timestamp_ns m) @ le_bytes (jrsm_payload_bytes m) = take 112 (drop off s)"
  using assms(1) by (simp add: m_def decode_job_result_metadata_def decode_read le_bytes_read image_of_read slice_join)

lemma event_metadata_read:
  assumes "off + 168 \<le> length s"
  defines "m \<equiv> decode_job_event_metadata s off"
  shows "le_bytes (jem_struct_size m) @ le_bytes (jem_protocol_version m) @ le_bytes (jem_event m) @ descriptor_image (jem_descriptor m) @
    progress_image (jem_progress m) @ le_bytes (jem_timestamp_ns m) @ timing_image (jem_timing m) @ le_bytes (jem_related_generation m) @
    le_bytes (jem_worker_index m) @ le_bytes (jem_peer_worker_index m) @ le_bytes (jem_queue_depth m) @ le_bytes (jem_result_code m) @
    le_bytes (jem_service_class m) @ le_bytes (jem_reserved2 m) = take 168 (drop off s)"
  using assms(1) by (simp add: m_def decode_job_event_metadata_def decode_read timing_image_def le_bytes_read image_of_read slice_join)

text \<open>A message behind its envelope: the prefix of the source up to the payload.\<close>

lemma prefix_join: "32 + k \<le> length s \<Longrightarrow> envelope_image (read_envelope s 0) @ take k (drop 32 s) = take (32 + k) s"
  using image_of_read(1) [of 0 s] slice_join(1) [of 32 0 s k] by simp

lemma request_object:
  assumes "120 \<le> length s"
  shows "request_image \<lparr>jrq_envelope = read_envelope s 0, jrq_metadata = decode_job_request_metadata s 32, jrq_payload = p\<rparr> = take 120 s @ p"
proof -
  have "envelope_image (read_envelope s 0) @ take 88 (drop 32 s) = take 120 s" using prefix_join [of 88 s] assms by simp
  then have "take 120 s @ p = envelope_image (read_envelope s 0) @ take 88 (drop 32 s) @ p" by (metis append_assoc)
  then show ?thesis using request_metadata_read [of 32 s, symmetric] assms by (simp add: request_image_def)
qed

lemma result_object:
  assumes "144 \<le> length s"
  shows "result_image \<lparr>jrs_envelope = read_envelope s 0, jrs_metadata = decode_job_result_metadata s 32, jrs_payload = p\<rparr> = take 144 s @ p"
proof -
  have "envelope_image (read_envelope s 0) @ take 112 (drop 32 s) = take 144 s" using prefix_join [of 112 s] assms by simp
  then have "take 144 s @ p = envelope_image (read_envelope s 0) @ take 112 (drop 32 s) @ p" by (metis append_assoc)
  then show ?thesis using result_metadata_read [of 32 s, symmetric] assms by (simp add: result_image_def)
qed

lemma event_object:
  assumes "length s = 200"
  shows "event_image (read_event s) = s"
proof -
  have "envelope_image (read_envelope s 0) @ take 168 (drop 32 s) = s" using prefix_join [of 168 s] assms by simp
  then show ?thesis using event_metadata_read [of 32 s] assms by (simp add: event_image_def read_event_def Let_def)
qed

lemma filled: "k + length p \<ge> length s \<Longrightarrow> k \<le> length s \<Longrightarrow> take (length s) (take k s @ blit p 0 (drop k s)) = s"
  by (simp add: blit_0)

lemma decode_request_cases:
  assumes len: "32 \<le> length source" "length d = length source" and e: "e = read_envelope source 0"
  shows "if good_request source then decode_job_request source d e = (Inr (length source), source) else refused d (decode_job_request source d e)"
proof (cases "120 \<le> length source")
  case True
  define m where "m = \<lparr>jrq_envelope = e, jrq_metadata = decode_job_request_metadata source 32, jrq_payload = replicate kMaxJobPayloadBytes 0\<rparr>"
  define m' where "m' = m\<lparr>jrq_payload := blit (jrq_payload m) 0 (drop 120 source)\<rparr>"
  have dec: "decode_job_request source d e =
    (if length source - 120 > kMaxJobPayloadBytes then (Inl ''Relay trace encoded job request size is invalid'', d)
     else if wire_size_request m \<noteq> length source then (Inl ''Relay trace encoded job request payload is invalid'', d)
     else if validate_request m' \<noteq> PR_kSuccess then (Inl ''Relay trace decoded job request is invalid'', d)
     else copy_out source d (request_image m'))"
    using True by (simp add: decode_job_request_def m_def m'_def Let_def trace_sizes default_request_def)
  have "read_request source = m\<lparr>jrq_payload := drop 120 source\<rparr>"
    by (simp add: m_def e read_request_def decode_job_request_metadata_def decode_read)
  then have good: "good_request source \<longleftrightarrow> validate_request m = PR_kSuccess \<and> wire_size_request m = length source"
    using True payload_irrelevant(5,6) [of m "drop 120 source"] by (simp add: good_request_def)
  have v: "validate_request m' = validate_request m" using payload_irrelevant(5) [of m] by (simp add: m'_def)
  show ?thesis
  proof (cases "good_request source")
    case g: True
    have "take (length source) (request_image m') = source"
      using request_object [OF True] filled [of source 120 "replicate kMaxJobPayloadBytes 0"] good_bounds(3) [OF g] True
      by (simp add: m'_def m_def e wire_simps)
    then show ?thesis using dec v good g good_bounds(3) [OF g] copy_out_same [OF len(2)] by (simp add: wire_simps)
  next
    case False
    then show ?thesis using dec v good by (simp add: refused_def)
  qed
next
  case False
  then show ?thesis by (simp add: decode_job_request_def good_request_def refused_def Let_def trace_sizes)
qed

lemma decode_result_cases:
  assumes len: "32 \<le> length source" "length d = length source" and e: "e = read_envelope source 0"
  shows "if good_result source then decode_job_result source d e = (Inr (length source), source) else refused d (decode_job_result source d e)"
proof (cases "144 \<le> length source")
  case True
  define m where "m = \<lparr>jrs_envelope = e, jrs_metadata = decode_job_result_metadata source 32, jrs_payload = replicate kMaxJobPayloadBytes 0\<rparr>"
  define m' where "m' = m\<lparr>jrs_payload := blit (jrs_payload m) 0 (drop 144 source)\<rparr>"
  have dec: "decode_job_result source d e =
    (if length source - 144 > kMaxJobPayloadBytes then (Inl ''Relay trace encoded job result size is invalid'', d)
     else if wire_size_result m \<noteq> length source then (Inl ''Relay trace encoded job result payload is invalid'', d)
     else if validate_result m' \<noteq> PR_kSuccess then (Inl ''Relay trace decoded job result is invalid'', d)
     else copy_out source d (result_image m'))"
    using True by (simp add: decode_job_result_def m_def m'_def Let_def trace_sizes default_result_def)
  have "read_result source = m\<lparr>jrs_payload := drop 144 source\<rparr>"
    by (simp add: m_def e read_result_def decode_job_result_metadata_def decode_read)
  then have good: "good_result source \<longleftrightarrow> validate_result m = PR_kSuccess \<and> wire_size_result m = length source"
    using True payload_irrelevant(7,8) [of m "drop 144 source"] by (simp add: good_result_def)
  have v: "validate_result m' = validate_result m" using payload_irrelevant(7) [of m] by (simp add: m'_def)
  show ?thesis
  proof (cases "good_result source")
    case g: True
    have "take (length source) (result_image m') = source"
      using result_object [OF True] filled [of source 144 "replicate kMaxJobPayloadBytes 0"] good_bounds(4) [OF g] True
      by (simp add: m'_def m_def e wire_simps)
    then show ?thesis using dec v good g good_bounds(4) [OF g] copy_out_same [OF len(2)] by (simp add: wire_simps)
  next
    case False
    then show ?thesis using dec v good by (simp add: refused_def)
  qed
next
  case False
  then show ?thesis by (simp add: decode_job_result_def good_result_def refused_def Let_def trace_sizes)
qed

lemma decode_event_cases:
  assumes len: "32 \<le> length source" "length d = length source" and e: "e = read_envelope source 0"
  shows "if length source = 200 \<and> validate_event (read_event source) = PR_kSuccess then decode_job_event source d e = (Inr (length source), source)
    else refused d (decode_job_event source d e)"
proof (cases "length source = 200")
  case True
  have "default_event\<lparr>jev_envelope := e, jev_metadata := decode_job_event_metadata source 32\<rparr> = read_event source"
    by (simp add: read_event_def e default_event_def)
  then show ?thesis using True event_object [OF True] copy_out_same [OF len(2), of source]
    by (simp add: decode_job_event_def refused_def Let_def trace_sizes)
qed (simp add: decode_job_event_def refused_def wire_simps)

lemma decode_control_cases:
  assumes len: "32 \<le> length source" "length d = length source" and e: "e = read_envelope source 0"
  shows "if length source = 40 \<and> valid_envelope e MessageKind_kShutdown 40 then decode_control source d e = (Inr (length source), source)
    else refused d (decode_control source d e)"
proof (cases "length source = 40")
  case True
  have "control_image (default_control\<lparr>ctl_envelope := e, ctl_reason := read_le source 32\<rparr>) = source"
    using prefix_join [of 8 source] True by (simp add: control_image_def e le_bytes_read)
  then show ?thesis using True copy_out_same [OF len(2), of source]
    by (simp add: decode_control_def refused_def Let_def trace_sizes)
qed (simp add: decode_control_def refused_def trace_sizes)

text \<open>\<open>decode_message\<close> accepts the same messages, and gives them back.\<close>

lemma decode_message_good:
  assumes g: "good_message source" and len: "length d = length source"
  shows "decode_message source d = Some (Inr (length source), source)"
proof -
  define e where "e = read_envelope source 0"
  have 32: "32 \<le> length source" using g by (simp add: good_message_def Let_def)
  have "\<not> action_overflow source" if "good_action source"
    using that by (auto simp: good_action_def action_overflow_def validate_action_def Let_def wire_simps split: if_splits)
  then show ?thesis using g 32 len decode_condition_cases [OF 32 len e_def] decode_action_cases [OF 32 len e_def] decode_request_cases [OF 32 len e_def]
    decode_result_cases [OF 32 len e_def] decode_event_cases [OF 32 len e_def] decode_control_cases [OF 32 len e_def]
    by (auto simp: decode_message_def good_message_def decode_read e_def [symmetric] Let_def kEnvelopeBytes_def trace_valid_kind_def enum_simps)
qed

lemma decode_message_sound:
  assumes dec: "decode_message source d = Some (Inr n, d')" and len: "length d = length source"
  shows "good_message source" "d' = source"
proof -
  define e where "e = read_envelope source 0"
  have 32: "32 \<le> length source" using dec by (auto simp: decode_message_def kEnvelopeBytes_def split: if_splits)
  have ok: "me_magic e = kMessageMagic" "me_version e = kMessageVersion" "trace_valid_kind (me_kind e)" "unat (me_struct_size e) = length source"
    using dec by (auto simp: decode_message_def decode_read e_def Let_def split: if_splits)
  note C = decode_condition_cases [OF 32 len e_def] decode_action_cases [OF 32 len e_def] decode_request_cases [OF 32 len e_def]
    decode_result_cases [OF 32 len e_def] decode_event_cases [OF 32 len e_def] decode_control_cases [OF 32 len e_def]
  show good: "good_message source"
    using dec 32 len ok C
    by (auto simp: decode_message_def good_message_def decode_read e_def [symmetric] Let_def kEnvelopeBytes_def trace_valid_kind_def enum_simps
        refused_def split: if_splits)
  show "d' = source" using decode_message_good [OF good len] dec by simp
qed

lemma good_message_size: "good_message m \<Longrightarrow> 32 \<le> length m" "good_message m \<Longrightarrow> length m \<le> 65680"
  using good_bounds [of m] by (auto simp: good_message_def Let_def)

text \<open>
  A record whose action dimension exceeds the array passes the test on the size, which cuts the dimension
  to the array; the loop that copies the values does not.
\<close>

lemma trace_action_overflow:
  assumes "action_overflow source" "length d = length source" "e = read_envelope source 0"
    and "me_magic e = kMessageMagic" "me_version e = kMessageVersion" "me_kind e = MessageKind_kAction" "unat (me_struct_size e) = 4208"
  shows "decode_message source d = None"
proof -
  have len: "length source = 4208" using assms(1) by (simp add: action_overflow_def)
  then show ?thesis using decode_action_cases [of source d e] assms
    by (simp add: decode_message_def decode_read Let_def kEnvelopeBytes_def trace_valid_kind_def enum_simps)
qed

lemma trace_action_overflow_exists: "\<exists>source. decode_message source (replicate (length source) 0) = None"
proof -
  let ?e = "default_envelope\<lparr>me_kind := MessageKind_kAction, me_struct_size := 4208\<rparr>"
  let ?d = "am_metadata default_action\<lparr>fam_action_dim := 1025\<rparr>"
  let ?s = "envelope_image ?e @ action_metadata_image ?d @ replicate 4096 0"
  have e: "read_envelope ?s 0 = ?e" by (rule read_envelope_image)
  have dig: "length (fam_model_digest ?d) = 16" by (simp add: default_action_def)
  have md: "read_action_metadata ?s 32 = ?d" using dig by (simp add: read_metadata_skip read_metadata_images)
  have len: "length ?s = 4208" using dig by simp
  have over: "action_overflow ?s" unfolding action_overflow_def md using len by simp
  have "decode_message ?s (replicate (length ?s) 0) = None"
    by (rule trace_action_overflow [OF over _ refl, unfolded e]) (simp_all add: default_envelope_def)
  then show ?thesis by blast
qed

section \<open>Files\<close>

lemma kMaxTraceMessageBytes_val: "kMaxTraceMessageBytes = 65680"
  by (simp add: kMaxTraceMessageBytes_def trace_sizes)

lemma length_record_header [simp]: "length (record_header e m) = 32"
  by (simp add: record_header_def Let_def kRecordHeaderBytes_def)

lemma record_header_fields:
  "read_le (record_header e m) 0 = kRecordMagicV2" "read_le (record_header e m) 4 = (2 :: u16)" "read_le (record_header e m) 6 = me_kind e"
  "read_le (record_header e m) 8 = (of_nat (length m) :: u32)" "read_le (record_header e m) 12 = (0 :: u32)"
  "read_le (record_header e m) 16 = me_sequence e" "read_le (record_header e m) 24 = checksum64 m"
  by (simp_all add: record_header_def Let_def kRecordHeaderBytes_def kTraceVersionV2_def header_read_simps)

lemma write_all_ok: "write_all fwrite file data = (True, file') \<Longrightarrow> file' = file @ data"
  by (auto simp: write_all_def Let_def)

lemma trace_append_ok:
  assumes ok: "trace_append fwrite m w = (Inr u, w')" and buffer: "length (tw_encoded w) = 65680" and content: "tw_file w = Some file"
  shows "good_message m" "tw_file w' = Some (file @ record_bytes m)" "length (tw_encoded w') = 65680"
proof -
  have "length m \<le> 65680"
  proof (rule ccontr)
    assume "\<not> ?thesis"
    then have "encode_message m (tw_encoded w) = (Inl ''Relay trace message size is invalid'', tw_encoded w)"
      using buffer by (simp add: encode_message_def kEnvelopeBytes_def)
    then show False using ok content by (simp add: trace_append_def split: if_splits)
  qed
  then have le: "length m \<le> length (tw_encoded w)" using buffer by simp
  show good: "good_message m"
  proof (rule ccontr)
    assume "\<not> good_message m"
    then obtain e d' where "encode_message m (tw_encoded w) = (Inl e, d')" using encode_message_cases [OF le] by auto
    then show False using ok content by (simp add: trace_append_def split: if_splits)
  qed
  then obtain d' where d': "encode_message m (tw_encoded w) = (Inr (length m), d')" "take (length m) d' = m" "length d' = 65680"
    using encode_message_cases [OF le] buffer by (auto simp: copied_def)
  obtain f1 f2 where f: "write_all fwrite file (record_header (read_envelope m 0) m) = (True, f1)" "write_all fwrite f1 m = (True, f2)"
    "w' = w\<lparr>tw_encoded := d', tw_file := Some f2\<rparr>"
    using ok d' content by (auto simp: trace_append_def decode_read Let_def split: if_splits prod.splits)
  then show "tw_file w' = Some (file @ record_bytes m)" "length (tw_encoded w') = 65680"
    using write_all_ok [OF f(1)] write_all_ok [OF f(2)] d'(3) by (simp_all add: record_bytes_def)
qed

lemma trace_append_good:
  assumes good: "good_message m" and buffer: "length (tw_encoded w) = 65680" and content: "tw_file w = Some file" and room: "\<And>n k. k \<le> fwrite n k"
  shows "\<exists>w'. trace_append fwrite m w = (Inr (), w')"
proof -
  have le: "length m \<le> length (tw_encoded w)" using good_message_size(2) [OF good] buffer by simp
  obtain d' where d': "encode_message m (tw_encoded w) = (Inr (length m), d')" "take (length m) d' = m"
    using encode_message_cases [OF le] good by (auto simp: copied_def)
  have "write_all fwrite f x = (True, f @ x)" for f x using room [of "length x" "length f"] by (simp add: write_all_def Let_def min_absorb2)
  then show ?thesis using d' content good_message_size(2) [OF good] by (simp add: trace_append_def decode_read Let_def)
qed

lemma trace_next_record:
  assumes good: "good_message m" and content: "td_file r = Some (record_bytes m @ rest)" and v: "td_version r = kTraceVersionV2" and alloc: "alloc (length m)"
  shows "trace_next alloc r = Some (Inr (Some \<lparr>tr_kind = me_kind (read_envelope m 0), tr_sequence = me_sequence (read_envelope m 0), tr_message = m\<rparr>),
    r\<lparr>td_file := Some rest\<rparr>)"
proof -
  let ?h = "record_header (read_envelope m 0) m"
  note size = good_message_size [OF good]
  have h: "take 32 (record_bytes m @ rest) = ?h" "drop 32 (record_bytes m @ rest) = m @ rest" by (simp_all add: record_bytes_def)
  have hb: "blit (replicate 32 0) 0 ?h = ?h" by (simp add: blit_0)
  have n: "unat (of_nat (length m) :: u32) = length m" using size(2) by (simp add: unat_of_nat)
  have e: "me_magic (read_envelope m 0) = kMessageMagic" "me_version (read_envelope m 0) = kMessageVersion" "trace_valid_kind (me_kind (read_envelope m 0))"
    "unat (me_struct_size (read_envelope m 0)) = length m"
    using good by (auto simp: good_message_def Let_def trace_valid_kind_def)
  have dec: "decode_message m (replicate (length m) 0) = Some (Inr (length m), m)" by (rule decode_message_good [OF good]) simp
  have min: "min 32 (length (record_bytes m @ rest)) = 32" by (simp add: record_bytes_def)
  show ?thesis
    unfolding trace_next_def content option.case Let_def kRecordHeaderBytes_def min h hb record_header_fields n
    using e dec alloc size v by (simp add: kEnvelopeBytes_def kMaxTraceMessageBytes_val kTraceVersionV2_def kTraceVersionV1_def)
qed

lemma trace_header:
  assumes "trace_writer_open fopen fwrite path = Inr w"
  obtains header where "tw_file w = Some header" "length (tw_encoded w) = 65680"
    "\<And>rest p. trace_reader_open (\<lambda>_. Some (header @ rest)) (Some p) = Inr \<lparr>td_file = Some rest, td_version = kTraceVersionV2\<rparr>"
proof -
  define header where "header = write_le (write_le (blit (replicate 16 0) 0 kTraceMagicV2) 8 kTraceVersionV2) 12 (16 :: u32)"
  have "tw_file w = Some header \<and> length (tw_encoded w) = 65680"
    using assms write_all_ok [of fwrite "[]" header]
    by (auto simp: trace_writer_open_def header_def Let_def kFileHeaderBytes_def kMaxTraceMessageBytes_val split: option.splits if_splits prod.splits)
  moreover have m: "length kTraceMagicV2 = 8" by (simp add: kTraceMagicV2_def)
  then have h: "length header = 16" "take 8 header = kTraceMagicV2" "read_le header 8 = kTraceVersionV2" "read_le header 12 = (16 :: u32)"
    by (simp_all add: header_def header_read_simps)
  have "trace_reader_open (\<lambda>_. Some (header @ rest)) (Some p) = Inr \<lparr>td_file = Some rest, td_version = kTraceVersionV2\<rparr>" for rest p
    using h by (simp add: trace_reader_open_def Let_def kFileHeaderBytes_def)
  ultimately show thesis using that by blast
qed

lemma append_all_ok:
  assumes "append_all fwrite ms w = Some w'" "length (tw_encoded w) = 65680" "tw_file w = Some content"
  shows "(\<forall>m \<in> set ms. good_message m) \<and> tw_file w' = Some (content @ concat (map record_bytes ms))"
  using assms
proof (induction ms arbitrary: w content)
  case (Cons m ms)
  obtain u w1 where a: "trace_append fwrite m w = (Inr u, w1)" "append_all fwrite ms w1 = Some w'"
    using Cons.prems(1) by (auto split: prod.splits sum.splits)
  note ok = trace_append_ok [OF a(1) Cons.prems(2,3)]
  from Cons.IH [OF a(2) ok(3,2)] ok(1) show ?case by simp
qed simp

lemma replay_records:
  assumes "\<forall>m \<in> set ms. good_message m" "td_file r = Some (concat (map record_bytes ms) @ rest)" "td_version r = kTraceVersionV2" "\<And>n. alloc n"
  shows "replay alloc (length ms) r = Some (ms, r\<lparr>td_file := Some rest\<rparr>)"
  using assms
proof (induction ms arbitrary: r)
  case (Cons m ms)
  have nx: "trace_next alloc r = Some (Inr (Some \<lparr>tr_kind = me_kind (read_envelope m 0), tr_sequence = me_sequence (read_envelope m 0), tr_message = m\<rparr>),
    r\<lparr>td_file := Some (concat (map record_bytes ms) @ rest)\<rparr>)"
    by (rule trace_next_record) (use Cons.prems in simp_all)
  have "replay alloc (length ms) (r\<lparr>td_file := Some (concat (map record_bytes ms) @ rest)\<rparr>) = Some (ms, r\<lparr>td_file := Some rest\<rparr>)"
    using Cons.IH [of "r\<lparr>td_file := Some (concat (map record_bytes ms) @ rest)\<rparr>", OF _ _ _ Cons.prems(4)] Cons.prems(1,3) by simp
  then show ?case by (simp add: nx)
qed simp

lemma demo_message_good: "good_message demo_message"
proof -
  have "read_envelope demo_message 0 = ctl_envelope (make_shutdown_message 7 1 0)" "length demo_message = 40"
    by (simp_all add: demo_message_def control_image_def read_envelope_image)
  then show ?thesis by (simp add: good_message_def Let_def valid_envelope_def make_shutdown_message_def default_envelope_def enum_simps)
qed

section \<open>Properties\<close>

text \<open>
  C26: a trace replays. Whatever messages are appended to a new trace without an error, a reader of the
  file returns the same bytes in the same order and then the end of the trace.
\<close>

theorem trace_replays:
  assumes "trace_writer_open fopen fwrite path = Inr w" "append_all fwrite ms w = Some w'" "tw_file w' = Some file" "\<forall>n. alloc n"
  shows "\<exists>r r'. trace_reader_open (\<lambda>_. Some file) (Some p) = Inr r \<and> replay alloc (length ms) r = Some (ms, r') \<and>
    trace_next alloc r' = Some (Inr None, r')"
proof -
  obtain header where h: "tw_file w = Some header" "length (tw_encoded w) = 65680"
    "\<And>rest p. trace_reader_open (\<lambda>_. Some (header @ rest)) (Some p) = Inr \<lparr>td_file = Some rest, td_version = kTraceVersionV2\<rparr>"
    using trace_header [OF assms(1)] by metis
  have a: "\<forall>m \<in> set ms. good_message m" "file = header @ concat (map record_bytes ms)"
    using append_all_ok [OF assms(2) h(2,1)] assms(3) by simp_all
  let ?r = "\<lparr>td_file = Some (concat (map record_bytes ms)), td_version = kTraceVersionV2\<rparr>"
  have "replay alloc (length ms) ?r = Some (ms, ?r\<lparr>td_file := Some []\<rparr>)" using replay_records [of ms ?r "[]" alloc] a(1) assms(4) by simp
  moreover have "trace_next alloc (?r\<lparr>td_file := Some []\<rparr>) = Some (Inr None, ?r\<lparr>td_file := Some []\<rparr>)" by (simp add: trace_next_def Let_def)
  ultimately show ?thesis using h(3) a(2) by blast
qed

theorem trace_replays_witness:
  "\<exists>file r r'. trace_reader_open (\<lambda>_. Some file) (Some ''t'') = Inr r \<and> replay (\<lambda>_. True) 2 r = Some ([demo_message, demo_message], r')"
proof -
  let ?fw = "\<lambda>n k :: nat. k"
  obtain w where w: "trace_writer_open (\<lambda>_. True) ?fw (Some ''t'') = Inr w" by (simp add: trace_writer_open_def write_all_def Let_def)
  obtain header where h: "tw_file w = Some header" "length (tw_encoded w) = 65680" using trace_header [OF w] by metis
  obtain w1 where w1: "trace_append ?fw demo_message w = (Inr (), w1)" using trace_append_good [OF demo_message_good h(2,1), of ?fw] by auto
  note o1 = trace_append_ok [OF w1 h(2,1)]
  obtain w2 where w2: "trace_append ?fw demo_message w1 = (Inr (), w2)" using trace_append_good [OF demo_message_good o1(3,2), of ?fw] by auto
  have a: "append_all ?fw [demo_message, demo_message] w = Some w2" using w1 w2 by simp
  have "length [demo_message, demo_message] = 2" by simp
  with trace_replays [OF w a trace_append_ok(2) [OF w2 o1(3,2)], of "\<lambda>_. True" "''t''"] show ?thesis by (metis TrueI)
qed

text \<open>
  C27: a reader of the present format returns only messages that a writer accepts, under the kind and
  the sequence number of their envelopes, with the bytes as they are in the file.
\<close>

theorem trace_reader_sound:
  assumes "trace_next alloc r = Some (Inr (Some rec), r')" "td_version r = kTraceVersionV2" "length buffer = kMaxTraceMessageBytes"
  shows "\<exists>header d rest. td_file r = Some (header @ tr_message rec @ rest) \<and> length header = 32 \<and> td_file r' = Some rest \<and>
    encode_message (tr_message rec) buffer = (Inr (length (tr_message rec)), d) \<and>
    tr_kind rec = me_kind (read_envelope (tr_message rec) 0) \<and> tr_sequence rec = me_sequence (read_envelope (tr_message rec) 0)"
proof -
  obtain content where f: "td_file r = Some content" using assms(1) by (auto simp: trace_next_def split: option.splits)
  define header where "header = blit (replicate 32 0) 0 (take 32 content)"
  define n where "n = unat (read_le header 8 :: u32)"
  define encoded where "encoded = take n (drop 32 content)"
  note N = assms(1) [unfolded trace_next_def f option.case Let_def kRecordHeaderBytes_def]
  have len: "32 \<le> length content" using N by (auto split: if_splits simp: min_def)
  then have min: "min 32 (length content) = 32" by simp
  note N = N [unfolded min, folded header_def, folded n_def, folded encoded_def, unfolded assms(2)]
  have "length encoded = n" "n \<le> 65680"
    using N by (auto simp: kTraceVersionV1_def kTraceVersionV2_def kMaxTraceMessageBytes_val split: if_splits)
  moreover obtain k message where dec: "decode_message encoded (replicate n 0) = Some (Inr k, message)"
    and rec: "rec = \<lparr>tr_kind = me_kind (read_envelope message 0), tr_sequence = me_sequence (read_envelope message 0), tr_message = message\<rparr>"
    and r': "r' = r\<lparr>td_file := Some (drop n (drop 32 content))\<rparr>"
    using N by (auto simp: kTraceVersionV1_def kTraceVersionV2_def split: if_splits option.splits prod.splits sum.splits)
  ultimately have good: "good_message encoded" "message = encoded" using decode_message_sound [OF dec] by simp_all
  have le: "length encoded \<le> length buffer" using \<open>length encoded = n\<close> \<open>n \<le> 65680\<close> assms(3) by (simp add: kMaxTraceMessageBytes_val)
  obtain d where "encode_message encoded buffer = (Inr (length encoded), d)" using encode_message_cases [OF le] good(1) by (auto simp: copied_def)
  moreover have "content = take 32 content @ encoded @ drop n (drop 32 content)" by (simp add: encoded_def del: drop_drop)
  ultimately show ?thesis using f len good(2) unfolding rec r' by (intro exI [of _ "take 32 content"] exI [of _ d] exI [of _ "drop n (drop 32 content)"]) simp
qed

theorem trace_reader_sound_witness:
  "\<exists>r r' d. trace_next (\<lambda>_. True) r = Some (Inr (Some \<lparr>tr_kind = MessageKind_kShutdown, tr_sequence = 7, tr_message = demo_message\<rparr>), r') \<and>
     encode_message demo_message (replicate kMaxTraceMessageBytes 0) = (Inr 40, d)"
proof -
  let ?r = "\<lparr>td_file = Some (record_bytes demo_message @ []), td_version = kTraceVersionV2\<rparr>"
  have e: "read_envelope demo_message 0 = ctl_envelope (make_shutdown_message 7 1 0)" "length demo_message = 40"
    by (simp_all add: demo_message_def control_image_def read_envelope_image)
  have n: "trace_next (\<lambda>_. True) ?r = Some (Inr (Some \<lparr>tr_kind = MessageKind_kShutdown, tr_sequence = 7, tr_message = demo_message\<rparr>), ?r\<lparr>td_file := Some []\<rparr>)"
    using trace_next_record [OF demo_message_good, of ?r "[]" "\<lambda>_. True"] by (simp add: e make_shutdown_message_def default_envelope_def)
  from trace_reader_sound [OF n, of "replicate kMaxTraceMessageBytes 0"] n show ?thesis by (auto simp: e)
qed

end
