(* ===== verification/Metrics.thy ===== *)
theory Metrics
  imports Message_Image Text_Scan
begin

text \<open>
  relay/telemetry/metrics.\{h,cc\}: the latency histogram, the counters of the relay and of the jobs, and
  their output in the text format of Prometheus.
\<close>

section \<open>Definitions\<close>

subsection \<open>Latencies\<close>

record WorkerTiming =
  wt_dispatched_ns :: u64
  wt_started_ns :: u64
  wt_finished_ns :: u64

record LatencyHistogram =
  lh_buckets :: "u64 list"
  lh_count :: u64
  lh_sum_ns :: u64
  lh_min_ns :: u64
  lh_max_ns :: u64

definition kBuckets :: nat where "kBuckets = 65"

definition default_histogram :: LatencyHistogram where
  "default_histogram = \<lparr>lh_buckets = replicate kBuckets 0, lh_count = 0, lh_sum_ns = 0, lh_min_ns = 0, lh_max_ns = 0\<rparr>"

definition metrics_elapsed :: "u64 \<Rightarrow> u64 \<Rightarrow> u64" where
  "metrics_elapsed start end_ns = (if end_ns \<ge> start then end_ns - start else 0)"

definition metrics_saturating_add :: "u64 \<Rightarrow> u64 \<Rightarrow> u64" where
  "metrics_saturating_add left right = (if left > U64_MAX - right then U64_MAX else left + right)"

fun bit_width :: "nat \<Rightarrow> nat" where
  "bit_width n = (if n = 0 then 0 else Suc (bit_width (n div 2)))"

definition latency_bucket :: "u64 \<Rightarrow> nat" where
  "latency_bucket nanoseconds = (if nanoseconds \<le> 1 then 0 else bit_width (unat (nanoseconds - 1)))"

definition latency_observe :: "u64 \<Rightarrow> LatencyHistogram \<Rightarrow> LatencyHistogram" where
  "latency_observe nanoseconds h =
     (let i = min (latency_bucket nanoseconds) (length (lh_buckets h) - 1)
      in \<lparr>lh_buckets = (lh_buckets h)[i := lh_buckets h ! i + 1],
          lh_count = lh_count h + 1,
          lh_sum_ns = metrics_saturating_add (lh_sum_ns h) nanoseconds,
          lh_min_ns = (if lh_count h = 0 then nanoseconds else min (lh_min_ns h) nanoseconds),
          lh_max_ns = max (lh_max_ns h) nanoseconds\<rparr>)"

subsection \<open>The relay\<close>

record RelayMetricCounters =
  rmc_conditions_received :: u64
  rmc_conditions_corrupt :: u64
  rmc_conditions_accepted :: u64
  rmc_actions_published :: u64
  rmc_actions_dropped :: u64
  rmc_inference_complete :: u64
  rmc_inference_cancelled :: u64
  rmc_inference_failed :: u64
  rmc_rejected_stale :: u64
  rmc_rejected_deadline :: u64
  rmc_rejected_capacity :: u64
  rmc_expired :: u64
  rmc_queue_high_watermark :: u64
  rmc_busy_workers_high_watermark :: u64
  rmc_worker_failures :: u64

record RelayMetrics =
  rm_counters :: RelayMetricCounters
  rm_queue_latency :: LatencyHistogram
  rm_execution_latency :: LatencyHistogram
  rm_end_to_end_latency :: LatencyHistogram

definition default_relay_counters :: RelayMetricCounters where
  "default_relay_counters = \<lparr>rmc_conditions_received = 0, rmc_conditions_corrupt = 0, rmc_conditions_accepted = 0,
     rmc_actions_published = 0, rmc_actions_dropped = 0, rmc_inference_complete = 0, rmc_inference_cancelled = 0,
     rmc_inference_failed = 0, rmc_rejected_stale = 0, rmc_rejected_deadline = 0, rmc_rejected_capacity = 0, rmc_expired = 0,
     rmc_queue_high_watermark = 0, rmc_busy_workers_high_watermark = 0, rmc_worker_failures = 0\<rparr>"

definition default_relay_metrics :: RelayMetrics where
  "default_relay_metrics = \<lparr>rm_counters = default_relay_counters, rm_queue_latency = default_histogram,
     rm_execution_latency = default_histogram, rm_end_to_end_latency = default_histogram\<rparr>"

definition record_condition :: "bool \<Rightarrow> RelayMetrics \<Rightarrow> RelayMetrics" where
  "record_condition valid m =
     (let c = rm_counters m; c1 = c\<lparr>rmc_conditions_received := rmc_conditions_received c + 1\<rparr>
      in m\<lparr>rm_counters := (if valid then c1 else c1\<lparr>rmc_conditions_corrupt := rmc_conditions_corrupt c1 + 1\<rparr>)\<rparr>)"

definition record_accepted :: "nat \<Rightarrow> RelayMetrics \<Rightarrow> RelayMetrics" where
  "record_accepted queue_depth m =
     (let c = rm_counters m
      in m\<lparr>rm_counters := c\<lparr>rmc_conditions_accepted := rmc_conditions_accepted c + 1,
             rmc_queue_high_watermark := max (rmc_queue_high_watermark c) (of_nat queue_depth)\<rparr>\<rparr>)"

definition action_counters :: "ActionMessage \<Rightarrow> RelayMetricCounters \<Rightarrow> RelayMetricCounters" where
  "action_counters action c =
     (if action_code action = RelayAction_kRejectedStale then c\<lparr>rmc_rejected_stale := rmc_rejected_stale c + 1\<rparr>
      else if action_code action = RelayAction_kRejectedDeadline then c\<lparr>rmc_rejected_deadline := rmc_rejected_deadline c + 1\<rparr>
      else if action_code action = RelayAction_kRejectedCapacity then c\<lparr>rmc_rejected_capacity := rmc_rejected_capacity c + 1\<rparr>
      else if action_code action = RelayAction_kExpired then c\<lparr>rmc_expired := rmc_expired c + 1\<rparr>
      else if action_code action = RelayAction_kInference then
        (if fam_status (am_metadata action) = FE_ACTION_COMPLETE then c\<lparr>rmc_inference_complete := rmc_inference_complete c + 1\<rparr>
         else if fam_status (am_metadata action) = FE_ACTION_CANCELLED then c\<lparr>rmc_inference_cancelled := rmc_inference_cancelled c + 1\<rparr>
         else if fam_status (am_metadata action) = FE_ACTION_FAILED then c\<lparr>rmc_inference_failed := rmc_inference_failed c + 1\<rparr>
         else c)
      else c)"

definition record_action :: "ActionMessage \<Rightarrow> u64 \<Rightarrow> WorkerTiming \<Rightarrow> RelayMetrics \<Rightarrow> RelayMetrics" where
  "record_action action published_ns timing m =
     (let c = rm_counters m;
          stamp = fam_timestamp_ns (am_metadata action);
          m1 = m\<lparr>rm_counters := action_counters action (c\<lparr>rmc_actions_published := rmc_actions_published c + 1\<rparr>)\<rparr>;
          m2 = (if stamp \<noteq> 0 then m1\<lparr>rm_end_to_end_latency := latency_observe (metrics_elapsed stamp published_ns) (rm_end_to_end_latency m1)\<rparr> else m1)
      in if wt_started_ns timing \<noteq> 0
         then m2\<lparr>rm_queue_latency := latency_observe (metrics_elapsed stamp (wt_started_ns timing)) (rm_queue_latency m2),
                 rm_execution_latency := latency_observe (metrics_elapsed (wt_started_ns timing) (wt_finished_ns timing)) (rm_execution_latency m2)\<rparr>
         else m2)"

definition record_action_drop :: "RelayMetrics \<Rightarrow> RelayMetrics" where
  "record_action_drop m = (let c = rm_counters m in m\<lparr>rm_counters := c\<lparr>rmc_actions_dropped := rmc_actions_dropped c + 1\<rparr>\<rparr>)"

definition relay_observe_workers :: "nat \<Rightarrow> u64 \<Rightarrow> RelayMetrics \<Rightarrow> RelayMetrics" where
  "relay_observe_workers busy failures m =
     (let c = rm_counters m
      in m\<lparr>rm_counters := c\<lparr>rmc_busy_workers_high_watermark := max (rmc_busy_workers_high_watermark c) (of_nat busy),
             rmc_worker_failures := failures\<rparr>\<rparr>)"

subsection \<open>Jobs\<close>

record JobMetricCounters =
  jmc_events :: u64
  jmc_admitted :: u64
  jmc_dispatched :: u64
  jmc_started :: u64
  jmc_progress :: u64
  jmc_completed :: u64
  jmc_cancelled :: u64
  jmc_failed :: u64
  jmc_rejected :: u64
  jmc_rejected_stale :: u64
  jmc_rejected_deadline :: u64
  jmc_rejected_capacity :: u64
  jmc_adapter_not_found :: u64
  jmc_invalid_request :: u64
  jmc_rejected_qos :: u64
  jmc_preempted :: u64
  jmc_migrations_started :: u64
  jmc_migrations_completed :: u64
  jmc_completed_work_units :: u64
  jmc_queue_high_watermark :: u64
  jmc_busy_workers_high_watermark :: u64
  jmc_worker_failures :: u64
  jmc_worker_quarantines :: u64
  jmc_events_dropped :: u64

record JobMetrics =
  jm_total :: JobMetricCounters
  jm_kinds :: "JobMetricCounters list"
  jm_queue_latency :: LatencyHistogram
  jm_execution_latency :: LatencyHistogram
  jm_end_to_end_latency :: LatencyHistogram
  jm_cancellation_latency :: LatencyHistogram

definition default_job_counters :: JobMetricCounters where
  "default_job_counters = \<lparr>jmc_events = 0, jmc_admitted = 0, jmc_dispatched = 0, jmc_started = 0, jmc_progress = 0, jmc_completed = 0,
     jmc_cancelled = 0, jmc_failed = 0, jmc_rejected = 0, jmc_rejected_stale = 0, jmc_rejected_deadline = 0, jmc_rejected_capacity = 0,
     jmc_adapter_not_found = 0, jmc_invalid_request = 0, jmc_rejected_qos = 0, jmc_preempted = 0, jmc_migrations_started = 0,
     jmc_migrations_completed = 0, jmc_completed_work_units = 0, jmc_queue_high_watermark = 0, jmc_busy_workers_high_watermark = 0,
     jmc_worker_failures = 0, jmc_worker_quarantines = 0, jmc_events_dropped = 0\<rparr>"

definition default_job_metrics :: JobMetrics where
  "default_job_metrics = \<lparr>jm_total = default_job_counters, jm_kinds = replicate 3 default_job_counters,
     jm_queue_latency = default_histogram, jm_execution_latency = default_histogram, jm_end_to_end_latency = default_histogram,
     jm_cancellation_latency = default_histogram\<rparr>"

definition job_kind_index :: "JobKind \<Rightarrow> nat" where
  "job_kind_index kind =
     (if kind = JobKind_kIterative then 0 else if kind = JobKind_kStreaming then 1 else if kind = JobKind_kSpeculative then 2 else 3)"

definition job_kind_name :: "nat \<Rightarrow> string" where
  "job_kind_name i = (if i = 0 then ''iterative'' else if i = 1 then ''streaming'' else if i = 2 then ''speculative'' else ''unknown'')"

definition rejection_counters :: "JobResultCode \<Rightarrow> JobMetricCounters \<Rightarrow> JobMetricCounters" where
  "rejection_counters code c =
     (if code = ResultCode_kRejectedStale then c\<lparr>jmc_rejected_stale := jmc_rejected_stale c + 1\<rparr>
      else if code = ResultCode_kRejectedDeadline then c\<lparr>jmc_rejected_deadline := jmc_rejected_deadline c + 1\<rparr>
      else if code = ResultCode_kRejectedCapacity then c\<lparr>jmc_rejected_capacity := jmc_rejected_capacity c + 1\<rparr>
      else if code = ResultCode_kAdapterNotFound then c\<lparr>jmc_adapter_not_found := jmc_adapter_not_found c + 1\<rparr>
      else if code = ResultCode_kInvalidRequest then c\<lparr>jmc_invalid_request := jmc_invalid_request c + 1\<rparr>
      else if code = ResultCode_kRejectedQos then c\<lparr>jmc_rejected_qos := jmc_rejected_qos c + 1\<rparr>
      else c)"

definition event_counters :: "JobEventMetadata \<Rightarrow> JobMetricCounters \<Rightarrow> JobMetricCounters" where
  "event_counters d c =
     (if jem_event d = EventKind_kAdmitted then
        c\<lparr>jmc_admitted := jmc_admitted c + 1, jmc_queue_high_watermark := max (jmc_queue_high_watermark c) (ucast (jem_queue_depth d))\<rparr>
      else if jem_event d = EventKind_kDispatched then c\<lparr>jmc_dispatched := jmc_dispatched c + 1\<rparr>
      else if jem_event d = EventKind_kStarted then c\<lparr>jmc_started := jmc_started c + 1\<rparr>
      else if jem_event d = EventKind_kProgress then c\<lparr>jmc_progress := jmc_progress c + 1\<rparr>
      else if jem_event d = EventKind_kPreempted then c\<lparr>jmc_preempted := jmc_preempted c + 1\<rparr>
      else if jem_event d = EventKind_kMigrationStarted then c\<lparr>jmc_migrations_started := jmc_migrations_started c + 1\<rparr>
      else if jem_event d = EventKind_kMigrationCompleted then c\<lparr>jmc_migrations_completed := jmc_migrations_completed c + 1\<rparr>
      else if jem_event d = EventKind_kCompleted then c\<lparr>jmc_completed := jmc_completed c + 1\<rparr>
      else if jem_event d = EventKind_kCancelled then c\<lparr>jmc_cancelled := jmc_cancelled c + 1\<rparr>
      else if jem_event d = EventKind_kFailed then c\<lparr>jmc_failed := jmc_failed c + 1\<rparr>
      else if jem_event d = EventKind_kRejected then rejection_counters (jem_result_code d) (c\<lparr>jmc_rejected := jmc_rejected c + 1\<rparr>)
      else c)"

definition record_job_counters :: "JobEventMessage \<Rightarrow> JobMetricCounters \<Rightarrow> JobMetricCounters" where
  "record_job_counters event c0 =
     (let d = jev_metadata event;
          c = event_counters d (c0\<lparr>jmc_events := jmc_events c0 + 1\<rparr>)
      in if jem_event d = EventKind_kCompleted \<or> jem_event d = EventKind_kCancelled \<or> jem_event d = EventKind_kFailed \<or>
            jem_event d = EventKind_kRejected
         then c\<lparr>jmc_completed_work_units :=
                 metrics_saturating_add (jmc_completed_work_units c) (jp_completed_work_units (jem_progress d))\<rparr>
         else c)"

definition observe_timing :: "JobEventTiming \<Rightarrow> JobMetrics \<Rightarrow> JobMetrics" where
  "observe_timing t m =
     (let m1 = m\<lparr>jm_queue_latency := latency_observe (jet_queue_ns t) (jm_queue_latency m),
                  jm_execution_latency := latency_observe (jet_execution_ns t) (jm_execution_latency m),
                  jm_end_to_end_latency := latency_observe (jet_end_to_end_ns t) (jm_end_to_end_latency m)\<rparr>
      in if jet_cancellation_ns t \<noteq> 0
         then m1\<lparr>jm_cancellation_latency := latency_observe (jet_cancellation_ns t) (jm_cancellation_latency m1)\<rparr> else m1)"

definition job_metrics_record :: "JobEventMessage \<Rightarrow> JobMetrics \<Rightarrow> JobMetrics" where
  "job_metrics_record event m =
     (if validate_event event \<noteq> PR_kSuccess then m
      else let d = jev_metadata event;
               m1 = m\<lparr>jm_total := record_job_counters event (jm_total m)\<rparr>;
               i = job_kind_index (jd_kind (jem_descriptor d));
               m2 = (if i < length (jm_kinds m1) then m1\<lparr>jm_kinds := (jm_kinds m1)[i := record_job_counters event (jm_kinds m1 ! i)]\<rparr> else m1)
           in if jem_event d = EventKind_kCompleted \<or> jem_event d = EventKind_kCancelled \<or> jem_event d = EventKind_kFailed \<or>
                 (jem_event d = EventKind_kRejected \<and> jem_worker_index d \<noteq> kNoWorker)
              then observe_timing (jem_timing d) m2 else m2)"

definition job_observe_workers :: "nat \<Rightarrow> u64 \<Rightarrow> u64 \<Rightarrow> JobMetrics \<Rightarrow> JobMetrics" where
  "job_observe_workers busy failures quarantines m =
     (let c = jm_total m
      in m\<lparr>jm_total := c\<lparr>jmc_busy_workers_high_watermark := max (jmc_busy_workers_high_watermark c) (of_nat busy),
             jmc_worker_failures := failures, jmc_worker_quarantines := quarantines\<rparr>\<rparr>)"

definition record_event_drops :: "u64 \<Rightarrow> JobMetrics \<Rightarrow> JobMetrics" where
  "record_event_drops dropped m = m\<lparr>jm_total := (jm_total m)\<lparr>jmc_events_dropped := dropped\<rparr>\<rparr>"

definition counters_of_kind :: "JobKind \<Rightarrow> JobMetrics \<Rightarrow> JobMetricCounters option" where
  "counters_of_kind kind m = (let i = job_kind_index kind in if i < length (jm_kinds m) then Some (jm_kinds m ! i) else None)"

subsection \<open>Prometheus text\<close>

definition number :: "u64 \<Rightarrow> string" where "number v = to_chars (unat v)"

definition newline :: string where "newline = [CHR 0x0A]"

definition write_counter :: "string \<Rightarrow> string \<Rightarrow> u64 \<Rightarrow> string" where
  "write_counter prefix name v = prefix @ ''_'' @ name @ '' '' @ number v @ newline"

fun cumulative :: "u64 \<Rightarrow> u64 list \<Rightarrow> u64 list" where
  "cumulative acc [] = []"
| "cumulative acc (b # bs) = (let acc' = metrics_saturating_add acc b in acc' # cumulative acc' bs)"

definition bucket_bound :: "nat \<Rightarrow> string" where
  "bucket_bound i = (if i < 64 then number (push_bit i 1) else ''+Inf'')"

definition write_histogram :: "string \<Rightarrow> string \<Rightarrow> LatencyHistogram \<Rightarrow> string" where
  "write_histogram prefix name h =
     concat (map (\<lambda>(i, c). prefix @ ''_'' @ name @ ''_bucket{le='' @ [quote] @ bucket_bound i @ [quote] @ ''} '' @ number c @ newline)
       (enumerate 0 (cumulative 0 (lh_buckets h)))) @
     prefix @ ''_'' @ name @ ''_count '' @ number (lh_count h) @ newline @
     prefix @ ''_'' @ name @ ''_sum '' @ number (lh_sum_ns h) @ newline @
     prefix @ ''_'' @ name @ ''_min '' @ number (lh_min_ns h) @ newline @
     prefix @ ''_'' @ name @ ''_max '' @ number (lh_max_ns h) @ newline"

definition write_prometheus_relay :: "RelayMetrics \<Rightarrow> string \<Rightarrow> string" where
  "write_prometheus_relay m prefix =
     (let c = rm_counters m
      in concat (map (\<lambda>(name, v). write_counter prefix name v)
           [(''conditions_received_total'', rmc_conditions_received c), (''conditions_corrupt_total'', rmc_conditions_corrupt c),
            (''conditions_accepted_total'', rmc_conditions_accepted c), (''actions_published_total'', rmc_actions_published c),
            (''actions_dropped_total'', rmc_actions_dropped c), (''inference_complete_total'', rmc_inference_complete c),
            (''inference_cancelled_total'', rmc_inference_cancelled c), (''inference_failed_total'', rmc_inference_failed c),
            (''rejected_stale_total'', rmc_rejected_stale c), (''rejected_deadline_total'', rmc_rejected_deadline c),
            (''rejected_capacity_total'', rmc_rejected_capacity c), (''expired_total'', rmc_expired c),
            (''queue_high_watermark'', rmc_queue_high_watermark c), (''busy_workers_high_watermark'', rmc_busy_workers_high_watermark c),
            (''worker_failures_total'', rmc_worker_failures c)]) @
         write_histogram prefix ''queue_latency_ns'' (rm_queue_latency m) @
         write_histogram prefix ''execution_latency_ns'' (rm_execution_latency m) @
         write_histogram prefix ''end_to_end_latency_ns'' (rm_end_to_end_latency m))"

definition write_job_kind_counter :: "string \<Rightarrow> string \<Rightarrow> string \<Rightarrow> u64 \<Rightarrow> string" where
  "write_job_kind_counter prefix name kind v = prefix @ ''_'' @ name @ ''{kind='' @ [quote] @ kind @ [quote] @ ''} '' @ number v @ newline"

definition write_kind :: "string \<Rightarrow> nat \<Rightarrow> JobMetricCounters \<Rightarrow> string" where
  "write_kind prefix i k =
     write_job_kind_counter prefix ''completed_by_kind_total'' (job_kind_name i) (jmc_completed k) @
     write_job_kind_counter prefix ''cancelled_by_kind_total'' (job_kind_name i) (jmc_cancelled k) @
     write_job_kind_counter prefix ''failed_by_kind_total'' (job_kind_name i) (jmc_failed k) @
     write_job_kind_counter prefix ''rejected_by_kind_total'' (job_kind_name i) (jmc_rejected k) @
     write_job_kind_counter prefix ''completed_work_units_by_kind_total'' (job_kind_name i) (jmc_completed_work_units k)"

text \<open>\<open>counters(kind)\<close> is not null for the three kinds, whose codes are 1 to 3.\<close>

definition write_prometheus_job :: "JobMetrics \<Rightarrow> string \<Rightarrow> string" where
  "write_prometheus_job m prefix =
     (let c = jm_total m
      in concat (map (\<lambda>(name, v). write_counter prefix name v)
           [(''events_total'', jmc_events c), (''admitted_total'', jmc_admitted c), (''dispatched_total'', jmc_dispatched c),
            (''started_total'', jmc_started c), (''progress_total'', jmc_progress c), (''completed_total'', jmc_completed c),
            (''cancelled_total'', jmc_cancelled c), (''failed_total'', jmc_failed c), (''rejected_total'', jmc_rejected c),
            (''rejected_stale_total'', jmc_rejected_stale c), (''rejected_deadline_total'', jmc_rejected_deadline c),
            (''rejected_capacity_total'', jmc_rejected_capacity c), (''adapter_not_found_total'', jmc_adapter_not_found c),
            (''invalid_request_total'', jmc_invalid_request c), (''rejected_qos_total'', jmc_rejected_qos c),
            (''preempted_total'', jmc_preempted c), (''migrations_started_total'', jmc_migrations_started c),
            (''migrations_completed_total'', jmc_migrations_completed c), (''completed_work_units_total'', jmc_completed_work_units c),
            (''queue_high_watermark'', jmc_queue_high_watermark c), (''busy_workers_high_watermark'', jmc_busy_workers_high_watermark c),
            (''worker_failures_total'', jmc_worker_failures c), (''worker_quarantines_total'', jmc_worker_quarantines c),
            (''events_dropped_total'', jmc_events_dropped c)]) @
         concat (map (\<lambda>i. write_kind prefix i (the (counters_of_kind (of_nat (Suc i)) m))) [0 ..< 3]) @
         write_histogram prefix ''queue_latency_ns'' (jm_queue_latency m) @
         write_histogram prefix ''execution_latency_ns'' (jm_execution_latency m) @
         write_histogram prefix ''end_to_end_latency_ns'' (jm_end_to_end_latency m) @
         write_histogram prefix ''cancellation_latency_ns'' (jm_cancellation_latency m))"

end
