(* ===== verification/Metrics_Correct.thy ===== *)
theory Metrics_Correct
  imports Metrics
begin

text \<open>
  What the metrics of relay/telemetry/metrics.cc report: the cumulative buckets of a histogram count
  the observations up to their bounds, and the counters and histograms of jobs are those of the valid events.
\<close>

section \<open>Histograms\<close>

text \<open>The observations in a bucket.\<close>

definition in_bucket :: "u64 list \<Rightarrow> nat \<Rightarrow> nat" where
  "in_bucket xs j = length (filter (\<lambda>x. latency_bucket x = j) xs)"

definition observed :: "u64 list \<Rightarrow> LatencyHistogram" where
  "observed xs = fold latency_observe xs default_histogram"

text \<open>
  What the counters of a list of events have to be: the number of the events, the number of the events of each
  kind, the number of the rejections for each reason, the work units of the jobs that ended, saturating,
  and the longest queue seen at an admission.
\<close>

definition ends_job :: "JobEventMetadata \<Rightarrow> bool" where
  "ends_job d \<longleftrightarrow> jem_event d \<in> {EventKind_kCompleted, EventKind_kCancelled, EventKind_kFailed, EventKind_kRejected}"

definition event_tally :: "((JobMetricCounters \<Rightarrow> u64) \<times> JobEventKind) list" where
  "event_tally = [(jmc_admitted, EventKind_kAdmitted), (jmc_dispatched, EventKind_kDispatched), (jmc_started, EventKind_kStarted),
     (jmc_progress, EventKind_kProgress), (jmc_preempted, EventKind_kPreempted), (jmc_migrations_started, EventKind_kMigrationStarted),
     (jmc_migrations_completed, EventKind_kMigrationCompleted), (jmc_completed, EventKind_kCompleted),
     (jmc_cancelled, EventKind_kCancelled), (jmc_failed, EventKind_kFailed), (jmc_rejected, EventKind_kRejected)]"

definition rejection_tally :: "((JobMetricCounters \<Rightarrow> u64) \<times> JobResultCode) list" where
  "rejection_tally = [(jmc_rejected_stale, ResultCode_kRejectedStale), (jmc_rejected_deadline, ResultCode_kRejectedDeadline),
     (jmc_rejected_capacity, ResultCode_kRejectedCapacity), (jmc_adapter_not_found, ResultCode_kAdapterNotFound),
     (jmc_invalid_request, ResultCode_kInvalidRequest), (jmc_rejected_qos, ResultCode_kRejectedQos)]"

definition tallies :: "JobEventMetadata list \<Rightarrow> JobMetricCounters \<Rightarrow> bool" where
  "tallies ds c \<longleftrightarrow>
     jmc_events c = of_nat (length ds) \<and>
     list_all (\<lambda>(f, kind). f c = of_nat (length (filter (\<lambda>d. jem_event d = kind) ds))) event_tally \<and>
     list_all (\<lambda>(f, code). f c = of_nat (length (filter (\<lambda>d. jem_event d = EventKind_kRejected \<and> jem_result_code d = code) ds))) rejection_tally \<and>
     unat (jmc_completed_work_units c) =
       min SIZE_MAX (\<Sum>d \<leftarrow> filter ends_job ds. unat (jp_completed_work_units (jem_progress d))) \<and>
     unat (jmc_queue_high_watermark c) =
       fold max (map (\<lambda>d. unat (jem_queue_depth d)) (filter (\<lambda>d. jem_event d = EventKind_kAdmitted) ds)) 0"

text \<open>An event whose timing is observed: the end of a job that reached a worker.\<close>

definition finished_event :: "JobEventMetadata \<Rightarrow> bool" where
  "finished_event d \<longleftrightarrow> ends_job d \<and> (jem_event d = EventKind_kRejected \<longrightarrow> jem_worker_index d \<noteq> kNoWorker)"

subsection \<open>Buckets\<close>

declare bit_width.simps [simp del]

lemma bit_width_le: "bit_width n \<le> k \<longleftrightarrow> n < 2 ^ k"
proof (induction n arbitrary: k rule: bit_width.induct)
  case (1 n)
  show ?case
  proof (cases "n = 0")
    case False
    have w: "bit_width n = Suc (bit_width (n div 2))" using False by (simp add: bit_width.simps [of n])
    show ?thesis
    proof (cases k)
      case (Suc j)
      have "n div 2 < 2 ^ j \<longleftrightarrow> n < 2 ^ Suc j" by (simp add: div_less_iff_less_mult mult.commute)
      then show ?thesis unfolding w Suc Suc_le_mono using 1 [OF False, of j] by blast
    qed (simp add: w False)
  qed (simp add: bit_width.simps)
qed

lemma latency_bucket_le: "latency_bucket x \<le> k \<longleftrightarrow> unat x \<le> 2 ^ k"
proof (cases "x \<le> 1")
  case True
  then have "unat x \<le> 1" by (simp add: word_le_nat_alt)
  then show ?thesis using True by (simp add: latency_bucket_def order_trans [OF _ one_le_power])
next
  case False
  then have "unat (x - 1) = unat x - 1" "1 < unat x" by (simp_all add: unat_sub word_le_nat_alt)
  then show ?thesis using False by (auto simp: latency_bucket_def bit_width_le)
qed

lemma latency_bucket_max: "latency_bucket x \<le> 64"
  using unsigned_less [where w = x and 'a = nat] by (simp add: latency_bucket_le)

lemma observed_snoc: "observed (xs @ [x]) = latency_observe x (observed xs)"
  by (simp add: observed_def)

lemma observed_buckets:
  "length (lh_buckets (observed xs)) = 65" "j < 65 \<Longrightarrow> lh_buckets (observed xs) ! j = of_nat (in_bucket xs j)"
proof -
  have "length (lh_buckets (observed xs)) = 65 \<and> (\<forall>j < 65. lh_buckets (observed xs) ! j = of_nat (in_bucket xs j))"
  proof (induction xs rule: rev_induct)
    case Nil
    then show ?case by (simp add: observed_def default_histogram_def kBuckets_def in_bucket_def)
  next
    case (snoc x xs)
    have "latency_bucket x < 65" using latency_bucket_max [of x] by simp
    then show ?case using snoc by (auto simp: observed_snoc latency_observe_def Let_def in_bucket_def nth_list_update min_def)
  qed
  then show "length (lh_buckets (observed xs)) = 65" "j < 65 \<Longrightarrow> lh_buckets (observed xs) ! j = of_nat (in_bucket xs j)" by simp_all
qed

lemma in_bucket_upto: "sum_list (map (in_bucket xs) [0 ..< Suc k]) = length (filter (\<lambda>x. unat x \<le> 2 ^ k) xs)"
proof -
  have "sum_list (map (in_bucket xs) [0 ..< n]) = length (filter (\<lambda>x. latency_bucket x < n) xs)" for n
  proof (induction n)
    case (Suc n)
    have "length (filter (\<lambda>x. latency_bucket x < Suc n) xs) = length (filter (\<lambda>x. latency_bucket x < n) xs) + in_bucket xs n"
      unfolding in_bucket_def by (induction xs) (auto simp: less_Suc_eq)
    then show ?case using Suc by simp
  qed simp
  from this [of "Suc k"] show ?thesis by (simp add: less_Suc_eq_le latency_bucket_le)
qed

lemma cumulative_nth:
  "unat acc + sum_list (map unat bs) \<le> SIZE_MAX \<Longrightarrow> k < length bs \<Longrightarrow>
    unat (cumulative acc bs ! k) = unat acc + sum_list (map unat (take (Suc k) bs))"
proof (induction bs arbitrary: acc k)
  case (Cons b bs)
  have "unat acc + unat b \<le> SIZE_MAX" using Cons.prems by simp
  then have a: "metrics_saturating_add acc b = acc + b" "unat (acc + b) = unat acc + unat b"
    by (auto simp: metrics_saturating_add_def word_less_nat_alt unat_max_minus unat_add_no_overflow)
  then show ?case using Cons by (cases k) (simp_all add: Let_def)
qed simp

lemma observed_total:
  assumes "length xs \<le> SIZE_MAX" "n \<le> 65"
  shows "map unat (take n (lh_buckets (observed xs))) = map (in_bucket xs) [0 ..< n]"
proof (rule nth_equalityI)
  fix i assume "i < length (map unat (take n (lh_buckets (observed xs))))"
  then have i: "i < n" "i < 65" using observed_buckets(1) [of xs] assms(2) by simp_all
  have "in_bucket xs i \<le> SIZE_MAX" unfolding in_bucket_def using assms(1) length_filter_le order_trans by blast
  then show "map unat (take n (lh_buckets (observed xs))) ! i = map (in_bucket xs) [0 ..< n] ! i"
    using i observed_buckets(1) [of xs] observed_buckets(2) [OF i(2)] unat_of_nat_u64 [of "in_bucket xs i"] by simp
qed (use observed_buckets(1) [of xs] assms in simp)

lemma observed_cumulative:
  assumes "length xs \<le> SIZE_MAX" "k < 65"
  shows "unat (cumulative 0 (lh_buckets (observed xs)) ! k) = length (filter (\<lambda>x. unat x \<le> 2 ^ k) xs)"
proof -
  have "sum_list (map unat (lh_buckets (observed xs))) = length (filter (\<lambda>x. unat x \<le> 2 ^ 64) xs)"
  proof -
    have "Suc 64 = (65 :: nat)" by simp
    from in_bucket_upto [of xs 64, unfolded this] observed_total [OF assms(1) order_refl] observed_buckets(1) [of xs]
    show ?thesis by (metis order_refl take_all)
  qed
  also have "\<dots> \<le> SIZE_MAX" using assms(1) length_filter_le order_trans by blast
  finally have "unat (cumulative 0 (lh_buckets (observed xs)) ! k) = sum_list (map unat (take (Suc k) (lh_buckets (observed xs))))"
    using cumulative_nth [of 0 "lh_buckets (observed xs)" k] assms(2) observed_buckets(1) [of xs] by simp
  then show ?thesis using observed_total [OF assms(1), of "Suc k"] in_bucket_upto [of xs k] assms(2) by (simp del: upt_Suc)
qed

lemma observed_count: "lh_count (observed xs) = of_nat (length xs)"
  by (induction xs rule: rev_induct) (simp_all add: observed_snoc latency_observe_def Let_def observed_def default_histogram_def)

lemma observed_range:
  assumes "xs \<noteq> []" "length xs \<le> SIZE_MAX"
  shows "lh_min_ns (observed xs) = Min (set xs) \<and> lh_max_ns (observed xs) = Max (set xs)"
  using assms
proof (induction xs rule: rev_induct)
  case (snoc x xs)
  show ?case
  proof (cases "xs = []")
    case True
    then show ?thesis by (simp add: observed_snoc latency_observe_def Let_def observed_def default_histogram_def max_def)
  next
    case False
    have "unat (of_nat (length xs) :: u64) = length xs" using snoc.prems by (intro unat_of_nat_u64) simp
    then have "(of_nat (length xs) :: u64) \<noteq> 0" using False by (metis length_0_conv unat_0)
    moreover have "Min (insert x (set xs)) = min (Min (set xs)) x" "Max (insert x (set xs)) = max (Max (set xs)) x"
      using False by (simp_all add: Min_insert Max_insert min.commute max.commute)
    ultimately show ?thesis using snoc False by (simp add: observed_snoc latency_observe_def Let_def observed_count)
  qed
qed simp

subsection \<open>Sums\<close>

lemma saturating_add_min: "unat (metrics_saturating_add a b) = min SIZE_MAX (unat a + unat b)"
proof (cases "unat a + unat b \<le> SIZE_MAX")
  case True
  then show ?thesis by (auto simp: metrics_saturating_add_def word_less_nat_alt unat_max_minus unat_add_no_overflow)
next
  case False
  moreover have "unat b \<le> SIZE_MAX" using unsigned_less [where w = b and 'a = nat] by simp
  ultimately have "SIZE_MAX - unat b < unat a" by linarith
  then have "U64_MAX - b < a" unfolding word_less_nat_alt unat_max_minus .
  then show ?thesis using False by (simp add: metrics_saturating_add_def)
qed

lemma observed_sum: "unat (lh_sum_ns (observed xs)) = min SIZE_MAX (sum_list (map unat xs))"
  by (induction xs rule: rev_induct)
    (simp_all add: observed_snoc latency_observe_def Let_def saturating_add_min observed_def default_histogram_def)

section \<open>Job counters\<close>

lemma recorded:
  "jmc_events (record_job_counters e c) = jmc_events c + 1"
  "jmc_admitted (record_job_counters e c) = jmc_admitted c + (if jem_event (jev_metadata e) = EventKind_kAdmitted then 1 else 0)"
  "jmc_dispatched (record_job_counters e c) = jmc_dispatched c + (if jem_event (jev_metadata e) = EventKind_kDispatched then 1 else 0)"
  "jmc_started (record_job_counters e c) = jmc_started c + (if jem_event (jev_metadata e) = EventKind_kStarted then 1 else 0)"
  "jmc_progress (record_job_counters e c) = jmc_progress c + (if jem_event (jev_metadata e) = EventKind_kProgress then 1 else 0)"
  "jmc_preempted (record_job_counters e c) = jmc_preempted c + (if jem_event (jev_metadata e) = EventKind_kPreempted then 1 else 0)"
  "jmc_migrations_started (record_job_counters e c) = jmc_migrations_started c + (if jem_event (jev_metadata e) = EventKind_kMigrationStarted then 1 else 0)"
  "jmc_migrations_completed (record_job_counters e c) = jmc_migrations_completed c + (if jem_event (jev_metadata e) = EventKind_kMigrationCompleted then 1 else 0)"
  "jmc_completed (record_job_counters e c) = jmc_completed c + (if jem_event (jev_metadata e) = EventKind_kCompleted then 1 else 0)"
  "jmc_cancelled (record_job_counters e c) = jmc_cancelled c + (if jem_event (jev_metadata e) = EventKind_kCancelled then 1 else 0)"
  "jmc_failed (record_job_counters e c) = jmc_failed c + (if jem_event (jev_metadata e) = EventKind_kFailed then 1 else 0)"
  "jmc_rejected (record_job_counters e c) = jmc_rejected c + (if jem_event (jev_metadata e) = EventKind_kRejected then 1 else 0)"
  by (simp_all add: record_job_counters_def event_counters_def rejection_counters_def Let_def enum_simps)

definition counters_of :: "JobEventMessage list \<Rightarrow> JobMetricCounters" where
  "counters_of es = fold record_job_counters es default_job_counters"

lemma counters_of_snoc: "counters_of (es @ [e]) = record_job_counters e (counters_of es)"
  by (simp add: counters_of_def)

lemma event_counters_other:
  "jmc_completed_work_units (event_counters d c) = jmc_completed_work_units c"
  "jmc_queue_high_watermark (event_counters d c) =
     (if jem_event d = EventKind_kAdmitted then max (jmc_queue_high_watermark c) (ucast (jem_queue_depth d)) else jmc_queue_high_watermark c)"
  by (simp_all add: event_counters_def rejection_counters_def)

lemma rejected_recorded:
  fixes e c
  defines "code k \<equiv> jem_event (jev_metadata e) = EventKind_kRejected \<and> jem_result_code (jev_metadata e) = k"
  shows "jmc_rejected_stale (record_job_counters e c) = jmc_rejected_stale c + (if code ResultCode_kRejectedStale then 1 else 0)"
    "jmc_rejected_deadline (record_job_counters e c) = jmc_rejected_deadline c + (if code ResultCode_kRejectedDeadline then 1 else 0)"
    "jmc_rejected_capacity (record_job_counters e c) = jmc_rejected_capacity c + (if code ResultCode_kRejectedCapacity then 1 else 0)"
    "jmc_adapter_not_found (record_job_counters e c) = jmc_adapter_not_found c + (if code ResultCode_kAdapterNotFound then 1 else 0)"
    "jmc_invalid_request (record_job_counters e c) = jmc_invalid_request c + (if code ResultCode_kInvalidRequest then 1 else 0)"
    "jmc_rejected_qos (record_job_counters e c) = jmc_rejected_qos c + (if code ResultCode_kRejectedQos then 1 else 0)"
  unfolding code_def by (simp_all add: record_job_counters_def event_counters_def rejection_counters_def Let_def enum_simps)

lemma rejections_recorded:
  "(f, code) \<in> set rejection_tally \<Longrightarrow> f (record_job_counters e c) =
     f c + (if jem_event (jev_metadata e) = EventKind_kRejected \<and> jem_result_code (jev_metadata e) = code then 1 else 0)"
  unfolding rejection_tally_def by (auto simp only: list.set insert_iff empty_iff prod.inject rejected_recorded)

lemma events_recorded:
  "(f, kind) \<in> set event_tally \<Longrightarrow> f (record_job_counters e c) = f c + (if jem_event (jev_metadata e) = kind then 1 else 0)"
  unfolding event_tally_def by (auto simp only: list.set insert_iff empty_iff prod.inject recorded)

lemma work_recorded:
  "unat (jmc_completed_work_units (record_job_counters e c)) =
     (if ends_job (jev_metadata e)
      then min SIZE_MAX (unat (jmc_completed_work_units c) + unat (jp_completed_work_units (jem_progress (jev_metadata e))))
      else unat (jmc_completed_work_units c))"
  by (simp add: record_job_counters_def event_counters_other ends_job_def Let_def saturating_add_min)

lemma watermark_recorded:
  "unat (jmc_queue_high_watermark (record_job_counters e c)) =
     (if jem_event (jev_metadata e) = EventKind_kAdmitted
      then max (unat (jmc_queue_high_watermark c)) (unat (jem_queue_depth (jev_metadata e)))
      else unat (jmc_queue_high_watermark c))"
proof -
  have m: "unat (max a b) = max (unat a) (unat b)" for a b :: u64 by (simp add: max_def word_le_nat_alt)
  have u: "unat (ucast x :: u64) = unat x" for x :: u32
    using unsigned_less [where w = x and 'a = nat] by (simp add: unsigned_ucast_eq take_bit_nat_eq_self)
  show ?thesis
    by (simp add: record_job_counters_def event_counters_other Let_def m u)
qed

lemma counters_of_tallies: "tallies (map jev_metadata es) (counters_of es)"
proof (induction es rule: rev_induct)
  case Nil
  show ?case by (simp add: tallies_def counters_of_def default_job_counters_def event_tally_def rejection_tally_def)
next
  case (snoc e es)
  note IH = snoc [unfolded tallies_def list_all_iff]
  have "list_all (\<lambda>(f, kind). f (counters_of (es @ [e])) =
      of_nat (length (filter (\<lambda>d. jem_event d = kind) (map jev_metadata (es @ [e]))))) event_tally"
    using IH unfolding list_all_iff counters_of_snoc by (auto simp: events_recorded)
  moreover have "list_all (\<lambda>(f, code). f (counters_of (es @ [e])) =
      of_nat (length (filter (\<lambda>d. jem_event d = EventKind_kRejected \<and> jem_result_code d = code) (map jev_metadata (es @ [e]))))) rejection_tally"
    using IH unfolding list_all_iff counters_of_snoc by (auto simp: rejections_recorded)
  moreover have "unat (jmc_completed_work_units (counters_of (es @ [e]))) =
      min SIZE_MAX (\<Sum>d \<leftarrow> filter ends_job (map jev_metadata (es @ [e])). unat (jp_completed_work_units (jem_progress d)))"
    using IH by (auto simp: counters_of_snoc work_recorded min_def)
  moreover have "unat (jmc_queue_high_watermark (counters_of (es @ [e]))) =
      fold max (map (\<lambda>d. unat (jem_queue_depth d)) (filter (\<lambda>d. jem_event d = EventKind_kAdmitted) (map jev_metadata (es @ [e])))) 0"
    using IH by (simp add: counters_of_snoc watermark_recorded max.commute)
  ultimately show ?case using IH by (simp add: tallies_def counters_of_snoc recorded)
qed

definition metrics_of :: "JobEventMessage list \<Rightarrow> JobMetrics" where
  "metrics_of evs = fold job_metrics_record evs default_job_metrics"

definition valid_events :: "JobEventMessage list \<Rightarrow> JobEventMessage list" where
  "valid_events evs = filter (\<lambda>e. validate_event e = PR_kSuccess) evs"

definition finished_timings :: "JobEventMessage list \<Rightarrow> JobEventTiming list" where
  "finished_timings evs = map (\<lambda>e. jem_timing (jev_metadata e)) (filter (\<lambda>e. finished_event (jev_metadata e)) (valid_events evs))"

lemma metrics_of_snoc: "metrics_of (evs @ [e]) = job_metrics_record e (metrics_of evs)"
  by (simp add: metrics_of_def)

lemma valid_events_snoc: "valid_events (evs @ [e]) = valid_events evs @ (if validate_event e = PR_kSuccess then [e] else [])"
  by (simp add: valid_events_def)

lemma finished_timings_snoc:
  "finished_timings (evs @ [e]) = finished_timings evs @
     (if validate_event e = PR_kSuccess \<and> finished_event (jev_metadata e) then [jem_timing (jev_metadata e)] else [])"
  by (simp add: finished_timings_def valid_events_snoc)

lemma finished_code:
  "finished_event d \<longleftrightarrow> jem_event d = EventKind_kCompleted \<or> jem_event d = EventKind_kCancelled \<or> jem_event d = EventKind_kFailed \<or>
     (jem_event d = EventKind_kRejected \<and> jem_worker_index d \<noteq> kNoWorker)"
  by (auto simp: finished_event_def ends_job_def enum_simps)

lemmas metrics_step = metrics_of_snoc valid_events_snoc finished_timings_snoc finished_code job_metrics_record_def observe_timing_def
  observed_snoc counters_of_snoc Let_def

lemma metrics_total: "jm_total (metrics_of evs) = counters_of (valid_events evs)"
  by (induction evs rule: rev_induct)
    (simp_all add: metrics_step, simp add: metrics_of_def valid_events_def default_job_metrics_def counters_of_def)

lemma metrics_kinds:
  "length (jm_kinds (metrics_of evs)) = 3 \<and> (\<forall>i < 3. jm_kinds (metrics_of evs) ! i =
     counters_of (filter (\<lambda>e. job_kind_index (jd_kind (jem_descriptor (jev_metadata e))) = i) (valid_events evs)))"
  by (induction evs rule: rev_induct)
    (simp_all add: metrics_step nth_list_update, simp add: metrics_of_def valid_events_def default_job_metrics_def counters_of_def)

lemma metrics_latencies:
  "jm_queue_latency (metrics_of evs) = observed (map jet_queue_ns (finished_timings evs)) \<and>
   jm_execution_latency (metrics_of evs) = observed (map jet_execution_ns (finished_timings evs)) \<and>
   jm_end_to_end_latency (metrics_of evs) = observed (map jet_end_to_end_ns (finished_timings evs)) \<and>
   jm_cancellation_latency (metrics_of evs) = observed (filter (\<lambda>t. t \<noteq> 0) (map jet_cancellation_ns (finished_timings evs)))"
  by (induction evs rule: rev_induct)
    (simp_all add: metrics_step, simp add: metrics_of_def finished_timings_def valid_events_def default_job_metrics_def observed_def)

section \<open>Properties\<close>

text \<open>
  C24: the cumulative buckets a histogram reports count exactly the observations up to their bounds
  (\<open>2 ^ k\<close> nanoseconds in the bucket line \<open>k\<close>, and all of them in the last line); the count, the saturating sum and the
  extremes are those of the observations.
\<close>

theorem histogram_reports:
  assumes "length xs < 2 ^ 64" "k < 64"
  shows "unat (cumulative 0 (lh_buckets (observed xs)) ! k) = length (filter (\<lambda>x. unat x \<le> 2 ^ k) xs) \<and>
    unat (cumulative 0 (lh_buckets (observed xs)) ! 64) = length xs \<and> unat (lh_count (observed xs)) = length xs \<and>
    unat (lh_sum_ns (observed xs)) = min SIZE_MAX (sum_list (map unat xs)) \<and>
    (xs \<noteq> [] \<longrightarrow> lh_min_ns (observed xs) = Min (set xs) \<and> lh_max_ns (observed xs) = Max (set xs))"
proof -
  have n: "length xs \<le> SIZE_MAX" using assms(1) by simp
  have "unat x \<le> 2 ^ 64" for x :: u64 using unsigned_less [where w = x and 'a = nat] by simp
  then have all: "filter (\<lambda>x. unat x \<le> 2 ^ 64) xs = xs" by simp
  show ?thesis
  proof (intro conjI impI)
    show "unat (cumulative 0 (lh_buckets (observed xs)) ! k) = length (filter (\<lambda>x. unat x \<le> 2 ^ k) xs)"
      using observed_cumulative [OF n] assms(2) by simp
    show "unat (cumulative 0 (lh_buckets (observed xs)) ! 64) = length xs"
      using observed_cumulative [OF n, of 64] by (simp only: all)
    show "unat (lh_count (observed xs)) = length xs" unfolding observed_count by (rule unat_of_nat_u64 [OF n])
    show "unat (lh_sum_ns (observed xs)) = min SIZE_MAX (sum_list (map unat xs))" by (rule observed_sum)
  qed (use observed_range [OF _ n] in simp_all)
qed

theorem histogram_reports_witness:
  "unat (cumulative 0 (lh_buckets (observed [3, 1000, 4, 5])) ! 2) = 2 \<and> unat (lh_count (observed [3, 1000, 4, 5])) = 4"
  using histogram_reports [of "[3, 1000, 4, 5]" 2] by simp

text \<open>
  C25: what the metrics of the jobs report after any sequence of events. In the totals, and in the counters of
  each kind of job for the events of that kind, the counters of events, of each kind of event and of each reason of
  rejection are the numbers of the valid events of that sort, the work units are the sum over the jobs that
  ended, up to the largest 64-bit number, and the high watermark is the longest queue at an admission.
  The four latency histograms hold exactly the timings of the jobs that ended on a worker. (The
  counters of workers and dropped events are set by other calls.)
\<close>

theorem job_metrics_tally:
  fixes evs :: "JobEventMessage list"
  defines "m \<equiv> fold job_metrics_record evs default_job_metrics" and "valid \<equiv> filter (\<lambda>e. validate_event e = PR_kSuccess) evs"
  defines "timings \<equiv> map jem_timing (filter finished_event (map jev_metadata valid))"
  shows "tallies (map jev_metadata valid) (jm_total m) \<and>
    list_all (\<lambda>kind. case counters_of_kind kind m of None \<Rightarrow> False
        | Some c \<Rightarrow> tallies (filter (\<lambda>d. jd_kind (jem_descriptor d) = kind) (map jev_metadata valid)) c)
      [JobKind_kIterative, JobKind_kStreaming, JobKind_kSpeculative] \<and>
    jm_queue_latency m = observed (map jet_queue_ns timings) \<and> jm_execution_latency m = observed (map jet_execution_ns timings) \<and>
    jm_end_to_end_latency m = observed (map jet_end_to_end_ns timings) \<and>
    jm_cancellation_latency m = observed (filter (\<lambda>t. t \<noteq> 0) (map jet_cancellation_ns timings))"
proof -
  have defs: "m = metrics_of evs" "valid = valid_events evs" "timings = finished_timings evs"
    by (simp_all add: m_def valid_def timings_def metrics_of_def valid_events_def finished_timings_def filter_map comp_def)
  have kind: "case counters_of_kind kind m of None \<Rightarrow> False
      | Some c \<Rightarrow> tallies (filter (\<lambda>d. jd_kind (jem_descriptor d) = kind) (map jev_metadata valid)) c"
    if "kind \<in> {JobKind_kIterative, JobKind_kStreaming, JobKind_kSpeculative}" for kind
  proof -
    have i: "job_kind_index kind < 3" using that by (auto simp: job_kind_index_def)
    have "job_kind_index k = job_kind_index kind \<longleftrightarrow> k = kind" for k
      using that by (auto simp: job_kind_index_def enum_simps)
    then have "jm_kinds m ! job_kind_index kind = counters_of (filter (\<lambda>e. jd_kind (jem_descriptor (jev_metadata e)) = kind) valid)"
      using metrics_kinds [of evs] i by (simp add: defs)
    then show ?thesis
      using counters_of_tallies [of "filter (\<lambda>e. jd_kind (jem_descriptor (jev_metadata e)) = kind) valid"] metrics_kinds [of evs] i
      by (simp add: counters_of_kind_def Let_def defs filter_map comp_def)
  qed
  have "tallies (map jev_metadata valid) (jm_total m)"
    using counters_of_tallies [of valid] by (simp add: defs metrics_total)
  then show ?thesis using kind metrics_latencies [of evs] by (simp add: defs)
qed

end
