(* ===== verification/Metrics_Export.thy ===== *)
theory Metrics_Export
  imports Metrics
begin

text \<open>
  The JSON and OTLP texts of relay/telemetry/metrics.cc and the export of a text to a file.
\<close>

section \<open>Definitions\<close>

subsection \<open>JSON\<close>

definition json_key :: "string \<Rightarrow> string" where "json_key name = [quote] @ name @ [quote] @ '':''"

definition json_text :: "string \<Rightarrow> string \<Rightarrow> string" where
  "json_text name t = json_key name @ [quote] @ t @ [quote]"

text \<open>Members with numbers; every member but the first, which follows an opening brace or a comma, has a comma before it.\<close>

fun json_members :: "string \<Rightarrow> (string \<times> u64) list \<Rightarrow> string" where
  "json_members separator [] = []"
| "json_members separator ((name, v) # ms) = separator @ json_key name @ number v @ json_members '','' ms"

definition json_array :: "(nat \<Rightarrow> string) \<Rightarrow> nat \<Rightarrow> string" where
  "json_array element n = concat (map (\<lambda>i. (if i = 0 then [] else '','') @ element i) [0 ..< n])"

definition relay_latency_json :: "string \<Rightarrow> LatencyHistogram \<Rightarrow> string" where
  "relay_latency_json name h =
     json_key name @ json_members ''{'' [(''count'', lh_count h), (''min'', lh_min_ns h), (''max'', lh_max_ns h), (''sum'', lh_sum_ns h)]"

definition write_metrics_json_relay :: "RelayMetrics \<Rightarrow> string" where
  "write_metrics_json_relay m =
     (let c = rm_counters m
      in json_members ''{''
         [(''conditions_received'', rmc_conditions_received c), (''conditions_corrupt'', rmc_conditions_corrupt c),
          (''conditions_accepted'', rmc_conditions_accepted c), (''actions_published'', rmc_actions_published c),
          (''actions_dropped'', rmc_actions_dropped c), (''inference_complete'', rmc_inference_complete c),
          (''inference_cancelled'', rmc_inference_cancelled c), (''inference_failed'', rmc_inference_failed c),
          (''rejected_stale'', rmc_rejected_stale c), (''rejected_deadline'', rmc_rejected_deadline c),
          (''rejected_capacity'', rmc_rejected_capacity c), (''expired'', rmc_expired c),
          (''queue_high_watermark'', rmc_queue_high_watermark c),
          (''busy_workers_high_watermark'', rmc_busy_workers_high_watermark c),
          (''worker_failures'', rmc_worker_failures c)] @
         '','' @ json_key ''latency_ns'' @ ''{'' @
         relay_latency_json ''queue'' (rm_queue_latency m) @ ''},'' @
         relay_latency_json ''execution'' (rm_execution_latency m) @ ''},'' @
         relay_latency_json ''end_to_end'' (rm_end_to_end_latency m) @ ''}}}'' @ newline)"

definition kind_json :: "JobMetrics \<Rightarrow> nat \<Rightarrow> string" where
  "kind_json m i =
     (let k = the (counters_of_kind (of_nat (Suc i)) m)
      in json_key (job_kind_name i) @
         json_members ''{'' [(''completed'', jmc_completed k), (''cancelled'', jmc_cancelled k), (''failed'', jmc_failed k),
           (''rejected'', jmc_rejected k), (''completed_work_units'', jmc_completed_work_units k)] @ ''}'')"

definition job_latency_json :: "string \<Rightarrow> LatencyHistogram \<Rightarrow> string" where
  "job_latency_json name h = json_key name @ json_members ''{'' [(''count'', lh_count h), (''sum'', lh_sum_ns h)]"

definition write_metrics_json_job :: "JobMetrics \<Rightarrow> string" where
  "write_metrics_json_job m =
     (let c = jm_total m
      in json_members ''{''
         [(''events'', jmc_events c), (''admitted'', jmc_admitted c), (''dispatched'', jmc_dispatched c),
          (''started'', jmc_started c), (''completed'', jmc_completed c), (''cancelled'', jmc_cancelled c),
          (''failed'', jmc_failed c), (''rejected'', jmc_rejected c), (''rejected_qos'', jmc_rejected_qos c),
          (''preempted'', jmc_preempted c), (''migrations_started'', jmc_migrations_started c),
          (''migrations_completed'', jmc_migrations_completed c), (''completed_work_units'', jmc_completed_work_units c),
          (''worker_failures'', jmc_worker_failures c), (''worker_quarantines'', jmc_worker_quarantines c),
          (''events_dropped'', jmc_events_dropped c)] @
         '','' @ json_key ''kinds'' @ ''{'' @ json_array (kind_json m) 3 @ ''},'' @ json_key ''latency_ns'' @ ''{'' @
         job_latency_json ''queue'' (jm_queue_latency m) @ ''},'' @
         job_latency_json ''execution'' (jm_execution_latency m) @ ''},'' @
         job_latency_json ''end_to_end'' (jm_end_to_end_latency m) @ ''},'' @
         job_latency_json ''cancellation'' (jm_cancellation_latency m) @ ''}}}'' @ newline)"

subsection \<open>OTLP\<close>

text \<open>The writers of a metric; the flag \<open>first\<close>, which the C++ passes by reference, is false after each of them.\<close>

definition write_otlp_sum :: "string \<Rightarrow> u64 \<Rightarrow> bool \<Rightarrow> string" where
  "write_otlp_sum name v first =
     (if first then [] else '','') @ ''{'' @ json_text ''name'' (''flowedge.relay.'' @ name) @ '','' @ json_text ''unit'' ''1'' @ '','' @
     json_key ''sum'' @ ''{'' @ json_text ''aggregationTemporality'' ''AGGREGATION_TEMPORALITY_CUMULATIVE'' @ '','' @
     json_key ''isMonotonic'' @ ''true,'' @ json_key ''dataPoints'' @ ''[{'' @ json_text ''asInt'' (number v) @ ''}]}}''"

definition write_otlp_histogram :: "string \<Rightarrow> LatencyHistogram \<Rightarrow> bool \<Rightarrow> string" where
  "write_otlp_histogram name h first =
     (if first then [] else '','') @ ''{'' @ json_text ''name'' (''flowedge.relay.'' @ name) @ '','' @ json_text ''unit'' ''ns'' @ '','' @
     json_key ''histogram'' @ ''{'' @ json_text ''aggregationTemporality'' ''AGGREGATION_TEMPORALITY_CUMULATIVE'' @ '','' @
     json_key ''dataPoints'' @ ''[{'' @ json_text ''count'' (number (lh_count h)) @
     json_members '','' [(''sum'', lh_sum_ns h), (''min'', lh_min_ns h), (''max'', lh_max_ns h)] @ '','' @
     json_key ''bucketCounts'' @ ''['' @ json_array (\<lambda>i. [quote] @ number (lh_buckets h ! i) @ [quote]) (length (lh_buckets h)) @ ''],'' @
     json_key ''explicitBounds'' @ ''['' @ json_array (\<lambda>i. number (push_bit i 1)) 64 @ '']}]}}''"

definition write_otlp_job_kind_sum :: "string \<Rightarrow> string \<Rightarrow> u64 \<Rightarrow> bool \<Rightarrow> string" where
  "write_otlp_job_kind_sum name kind v first =
     (if first then [] else '','') @ ''{'' @ json_text ''name'' (''flowedge.relay.job.'' @ name) @ '','' @ json_text ''unit'' ''1'' @ '','' @
     json_key ''sum'' @ ''{'' @ json_text ''aggregationTemporality'' ''AGGREGATION_TEMPORALITY_CUMULATIVE'' @ '','' @
     json_key ''isMonotonic'' @ ''true,'' @ json_key ''dataPoints'' @ ''[{'' @ json_key ''attributes'' @ ''[{'' @
     json_text ''key'' ''job.kind'' @ '','' @ json_key ''value'' @ ''{'' @ json_text ''stringValue'' kind @ ''}}],'' @
     json_text ''asInt'' (number v) @ ''}]}}''"

definition otlp_head :: "string \<Rightarrow> string \<Rightarrow> string" where
  "otlp_head service_name scope =
     ''{'' @ json_key ''resourceMetrics'' @ ''[{'' @ json_key ''resource'' @ ''{'' @ json_key ''attributes'' @ ''[{'' @
     json_text ''key'' ''service.name'' @ '','' @ json_key ''value'' @ ''{'' @ json_text ''stringValue'' service_name @ ''}}]},'' @
     json_key ''scopeMetrics'' @ ''[{'' @ json_key ''scope'' @ ''{'' @ json_text ''name'' scope @ ''},'' @ json_key ''metrics'' @ ''[''"

fun write_otlp_sums :: "(string \<times> u64) list \<Rightarrow> bool \<Rightarrow> string" where
  "write_otlp_sums [] first = []"
| "write_otlp_sums ((name, v) # ms) first = write_otlp_sum name v first @ write_otlp_sums ms False"

definition write_otlp_json_relay :: "RelayMetrics \<Rightarrow> string \<Rightarrow> string" where
  "write_otlp_json_relay m service_name =
     (let c = rm_counters m
      in otlp_head service_name ''flowedge.relay'' @
         write_otlp_sums
         [(''conditions_received_total'', rmc_conditions_received c),
          (''conditions_corrupt_total'', rmc_conditions_corrupt c),
          (''conditions_accepted_total'', rmc_conditions_accepted c),
          (''actions_published_total'', rmc_actions_published c), (''actions_dropped_total'', rmc_actions_dropped c),
          (''inference_complete_total'', rmc_inference_complete c),
          (''inference_cancelled_total'', rmc_inference_cancelled c),
          (''inference_failed_total'', rmc_inference_failed c), (''rejected_stale_total'', rmc_rejected_stale c),
          (''rejected_deadline_total'', rmc_rejected_deadline c), (''rejected_capacity_total'', rmc_rejected_capacity c),
          (''expired_total'', rmc_expired c), (''queue_high_watermark'', rmc_queue_high_watermark c),
          (''busy_workers_high_watermark'', rmc_busy_workers_high_watermark c),
          (''worker_failures_total'', rmc_worker_failures c)] True @
         write_otlp_histogram ''queue_latency'' (rm_queue_latency m) False @
         write_otlp_histogram ''execution_latency'' (rm_execution_latency m) False @
         write_otlp_histogram ''end_to_end_latency'' (rm_end_to_end_latency m) False @ '']}]}]}'' @ newline)"

definition write_otlp_kind :: "JobMetrics \<Rightarrow> nat \<Rightarrow> string" where
  "write_otlp_kind m i =
     (let k = the (counters_of_kind (of_nat (Suc i)) m)
      in write_otlp_job_kind_sum ''completed_by_kind_total'' (job_kind_name i) (jmc_completed k) False @
         write_otlp_job_kind_sum ''completed_work_units_by_kind_total'' (job_kind_name i) (jmc_completed_work_units k) False)"

definition write_otlp_json_job :: "JobMetrics \<Rightarrow> string \<Rightarrow> string" where
  "write_otlp_json_job m service_name =
     (let c = jm_total m
      in otlp_head service_name ''flowedge.relay.jobs'' @
         write_otlp_sums
         [(''job.events_total'', jmc_events c), (''job.admitted_total'', jmc_admitted c),
          (''job.completed_total'', jmc_completed c), (''job.cancelled_total'', jmc_cancelled c),
          (''job.failed_total'', jmc_failed c), (''job.rejected_total'', jmc_rejected c),
          (''job.rejected_qos_total'', jmc_rejected_qos c), (''job.preempted_total'', jmc_preempted c),
          (''job.migrations_completed_total'', jmc_migrations_completed c),
          (''job.completed_work_units_total'', jmc_completed_work_units c),
          (''job.worker_failures_total'', jmc_worker_failures c),
          (''job.worker_quarantines_total'', jmc_worker_quarantines c)] True @
         concat (map (write_otlp_kind m) [0 ..< 3]) @
         write_otlp_histogram ''job.queue_latency'' (jm_queue_latency m) False @
         write_otlp_histogram ''job.execution_latency'' (jm_execution_latency m) False @
         write_otlp_histogram ''job.end_to_end_latency'' (jm_end_to_end_latency m) False @
         write_otlp_histogram ''job.cancellation_latency'' (jm_cancellation_latency m) False @ '']}]}]}'' @ newline)"

subsection \<open>Export\<close>

text \<open>
  The file system is a parameter: whether the file can be opened for truncation, and whether the stream
  still is good after a text was written to it. The result is the content of the file or the message of the error.
  The messages for an exception (of the allocator) are not modelled.
\<close>

record export_target =
  et_opens :: bool
  et_writes :: "string \<Rightarrow> bool"

definition export_text :: "string \<Rightarrow> export_target \<Rightarrow> string \<Rightarrow> string + string" where
  "export_text what target content =
     (if \<not> et_opens target then Inl (''failed to open '' @ what)
      else if \<not> et_writes target content then Inl (''failed to write '' @ what)
      else Inr content)"

definition export_prometheus_relay :: "export_target \<Rightarrow> RelayMetrics \<Rightarrow> string + string" where
  "export_prometheus_relay target m = export_text ''Prometheus metrics file'' target (write_prometheus_relay m ''flowedge_relay'')"

definition export_metrics_json_relay :: "export_target \<Rightarrow> RelayMetrics \<Rightarrow> string + string" where
  "export_metrics_json_relay target m = export_text ''JSON metrics file'' target (write_metrics_json_relay m)"

definition export_otlp_json_relay :: "export_target \<Rightarrow> RelayMetrics \<Rightarrow> string \<Rightarrow> string + string" where
  "export_otlp_json_relay target m service_name =
     export_text ''OTLP JSON metrics file'' target (write_otlp_json_relay m service_name)"

definition export_prometheus_job :: "export_target \<Rightarrow> JobMetrics \<Rightarrow> string + string" where
  "export_prometheus_job target m =
     export_text ''generic job Prometheus metrics file'' target (write_prometheus_job m ''flowedge_relay_job'')"

definition export_metrics_json_job :: "export_target \<Rightarrow> JobMetrics \<Rightarrow> string + string" where
  "export_metrics_json_job target m = export_text ''generic job JSON metrics file'' target (write_metrics_json_job m)"

definition export_otlp_json_job :: "export_target \<Rightarrow> JobMetrics \<Rightarrow> string \<Rightarrow> string + string" where
  "export_otlp_json_job target m service_name =
     export_text ''generic job OTLP JSON metrics file'' target (write_otlp_json_job m service_name)"

end
