(* ===== verification/Kernels.thy ===== *)
theory Kernels
  imports Float_Image Thread_Pool
begin

text \<open>
  The portable kernels of core/kernels/cpu/kernels\_scalar.cc, the element-wise operations of
  core/kernels/span\_ops.h and the weight dispatch of core/loader/weight\_ops.h.

  A span of floats is the list of its values; a matrix is stored row by row. The arithmetic is a parameter:
  \<open>FloatMath\<close> has the rounded operations and the functions of \<open><cmath>\<close>. \<open>fm_mac acc a b\<close> is the value of
  \<open>acc + a * b\<close>, which a compiler may round once or twice; it is taken to decide alike everywhere. No law of
  arithmetic is assumed here: what is proved of these functions holds bit for bit.
\<close>

section \<open>Definitions\<close>

subsection \<open>Arithmetic\<close>

record FloatMath =
  fm_add :: "fp \<Rightarrow> fp \<Rightarrow> fp"
  fm_mul :: "fp \<Rightarrow> fp \<Rightarrow> fp"
  fm_div :: "fp \<Rightarrow> fp \<Rightarrow> fp"
  fm_mac :: "fp \<Rightarrow> fp \<Rightarrow> fp \<Rightarrow> fp"
  fm_exp :: "fp \<Rightarrow> fp"
  fm_log1p :: "fp \<Rightarrow> fp"
  fm_sqrt :: "fp \<Rightarrow> fp"
  fm_size :: "nat \<Rightarrow> fp"

definition fmax_zero :: "fp \<Rightarrow> fp" where
  "fmax_zero v = (if fp_gt v (Fin 0) then v else Fin 0)"

text \<open>The span of \<open>n\<close> values at \<open>data + r * n\<close>.\<close>

definition row :: "nat \<Rightarrow> 'a list \<Rightarrow> nat \<Rightarrow> 'a list" where
  "row n v r = take n (drop (r * n) v)"

subsection \<open>Element-wise operations\<close>

definition add_inplace :: "FloatMath \<Rightarrow> fp list \<Rightarrow> fp list \<Rightarrow> fp list" where
  "add_inplace M x y = map (\<lambda>i. fm_add M (x ! i) (y ! i)) [0 ..< length x]"

definition add3_inplace :: "FloatMath \<Rightarrow> fp list \<Rightarrow> fp list \<Rightarrow> fp list \<Rightarrow> fp list" where
  "add3_inplace M x y z = map (\<lambda>i. fm_add M (x ! i) (fm_add M (y ! i) (z ! i))) [0 ..< length x]"

definition add_scaled :: "FloatMath \<Rightarrow> fp list \<Rightarrow> fp list \<Rightarrow> fp \<Rightarrow> fp list" where
  "add_scaled M x dx scale = map (\<lambda>i. fm_mac M (x ! i) scale (dx ! i)) [0 ..< length x]"

definition scaled_sum :: "FloatMath \<Rightarrow> fp list \<Rightarrow> fp list \<Rightarrow> fp \<Rightarrow> fp list" where
  "scaled_sum M x dx scale = map (\<lambda>i. fm_mac M (x ! i) scale (dx ! i)) [0 ..< length x]"

definition add_heun :: "FloatMath \<Rightarrow> fp list \<Rightarrow> fp list \<Rightarrow> fp list \<Rightarrow> fp \<Rightarrow> fp list" where
  "add_heun M x k1 k2 dt =
     map (\<lambda>i. fm_mac M (x ! i) (fm_mul M (Fin (1 / 2)) dt) (fm_add M (k1 ! i) (k2 ! i))) [0 ..< length x]"

definition add_rk4 :: "FloatMath \<Rightarrow> fp list \<Rightarrow> fp list \<Rightarrow> fp list \<Rightarrow> fp list \<Rightarrow> fp list \<Rightarrow> fp \<Rightarrow> fp list" where
  "add_rk4 M x k1 k2 k3 k4 dt =
     map (\<lambda>i. fm_mac M (x ! i) (fm_div M dt (Fin 6))
       (fm_add M (fm_mac M (fm_mac M (k1 ! i) (Fin 2) (k2 ! i)) (Fin 2) (k3 ! i)) (k4 ! i))) [0 ..< length x]"

definition silu :: "FloatMath \<Rightarrow> fp list \<Rightarrow> fp list" where
  "silu M x = map (\<lambda>v. fm_div M v (fm_add M (Fin 1) (fm_exp M (fp_neg v)))) x"

definition gate_silu :: "FloatMath \<Rightarrow> fp list \<Rightarrow> fp list \<Rightarrow> fp list" where
  "gate_silu M a g =
     map (\<lambda>i. let v = g ! i in fm_mul M (a ! i) (fm_div M v (fm_add M (Fin 1) (fm_exp M (fp_neg v))))) [0 ..< length a]"

definition softplus :: "FloatMath \<Rightarrow> fp list \<Rightarrow> fp list" where
  "softplus M x = map (\<lambda>v. fm_add M (fmax_zero v) (fm_log1p M (fm_exp M (fp_neg (fp_abs v))))) x"

subsection \<open>Normalisation and convolution\<close>

definition rmsnorm_row :: "FloatMath \<Rightarrow> fp list \<Rightarrow> fp list \<Rightarrow> nat \<Rightarrow> fp list" where
  "rmsnorm_row M ir weight width =
     (let ss = fold (\<lambda>i ss. fm_mac M ss (ir ! i) (ir ! i)) [0 ..< width] (Fin 0);
          scale = fm_div M (Fin 1) (fm_sqrt M (fm_add M (fm_div M ss (fm_size M width)) (round32 (1 / 100000))))
      in map (\<lambda>i. fm_mul M (fm_mul M (ir ! i) scale) (weight ! i)) [0 ..< width])"

definition rmsnorm :: "FloatMath \<Rightarrow> fp list \<Rightarrow> fp list \<Rightarrow> nat \<Rightarrow> nat \<Rightarrow> fp list" where
  "rmsnorm M inp weight rows width = concat (map (\<lambda>r. rmsnorm_row M (row width inp r) weight width) [0 ..< rows])"

text \<open>One tap of the convolution of a channel: \<open>yc[t] += wk * xc[t - start]\<close> from \<open>start\<close> on.\<close>

definition conv_tap :: "FloatMath \<Rightarrow> fp \<Rightarrow> fp list \<Rightarrow> nat \<Rightarrow> fp list \<Rightarrow> fp list" where
  "conv_tap M wk xc start yc = map (\<lambda>t. if start \<le> t then fm_mac M (yc ! t) wk (xc ! (t - start)) else yc ! t) [0 ..< length yc]"

definition conv1d_channel :: "FloatMath \<Rightarrow> fp list \<Rightarrow> fp list \<Rightarrow> fp \<Rightarrow> nat \<Rightarrow> nat \<Rightarrow> fp list" where
  "conv1d_channel M xc wc bc len taps =
     fold (\<lambda>k yc. conv_tap M (wc ! k) xc (taps - 1 - k) yc) [0 ..< taps] (replicate len bc)"

definition conv1d_causal :: "FloatMath \<Rightarrow> fp list \<Rightarrow> fp list \<Rightarrow> fp list \<Rightarrow> nat \<Rightarrow> nat \<Rightarrow> nat \<Rightarrow> fp list" where
  "conv1d_causal M x weight bias channels len taps =
     concat (map (\<lambda>c. conv1d_channel M (row len x c) (row taps weight c) (bias ! c) len taps) [0 ..< channels])"

definition conv1d_step :: "FloatMath \<Rightarrow> fp list \<Rightarrow> fp list \<Rightarrow> fp list \<Rightarrow> nat \<Rightarrow> nat \<Rightarrow> fp list" where
  "conv1d_step M window weight bias channels taps =
     map (\<lambda>c. fold (\<lambda>k acc. fm_mac M acc (row taps weight c ! k) (row taps window c ! k)) [0 ..< taps] (bias ! c)) [0 ..< channels]"

subsection \<open>Matrix products\<close>

text \<open>
  The data of a weight, read as its \<open>dtype\<close> says. A weight of another type is not used: \<open>is_matmul_weight\<close>
  admits these two.
\<close>

datatype WeightView = W_F32 "fp list" | W_BF16 "u16 list"

datatype MatmulWeightType = MW_kF32 | MW_kBF16

definition bf16_float :: "u16 \<Rightarrow> fp" where
  "bf16_float w = bits_float (push_bit 16 (ucast w))"

fun weight_floats :: "WeightView \<Rightarrow> fp list" where
  "weight_floats (W_F32 w) = w"
| "weight_floats (W_BF16 w) = map bf16_float w"

definition dot :: "FloatMath \<Rightarrow> fp list \<Rightarrow> fp list \<Rightarrow> nat \<Rightarrow> fp" where
  "dot M ir wr in_dim = fold (\<lambda>i acc. fm_mac M acc (ir ! i) (wr ! i)) [0 ..< in_dim] (Fin 0)"

text \<open>The writes of the lambda \<open>op\<close> for the outputs from \<open>lo\<close> to \<open>hi\<close>.\<close>

definition matmul_op :: "FloatMath \<Rightarrow> fp list \<Rightarrow> fp list \<Rightarrow> nat \<Rightarrow> nat \<Rightarrow> nat \<Rightarrow> nat list \<Rightarrow> fp list \<Rightarrow> fp list" where
  "matmul_op M inp w rows in_dim out_dim outputs out =
     fold (\<lambda>o' out. fold (\<lambda>r out. out[r * out_dim + o' := dot M (row in_dim inp r) (row in_dim w o') in_dim]) [0 ..< rows] out) outputs out"

text \<open>What is in the output after the product.\<close>

definition matmul :: "FloatMath \<Rightarrow> fp list \<Rightarrow> fp list \<Rightarrow> nat \<Rightarrow> nat \<Rightarrow> nat \<Rightarrow> fp list" where
  "matmul M inp w rows in_dim out_dim =
     concat (map (\<lambda>r. map (\<lambda>o'. dot M (row in_dim inp r) (row in_dim w o') in_dim) [0 ..< out_dim]) [0 ..< rows])"

definition matmul_weight :: "FloatMath \<Rightarrow> fp list \<Rightarrow> WeightView \<Rightarrow> nat \<Rightarrow> nat \<Rightarrow> nat \<Rightarrow> fp list" where
  "matmul_weight M inp w rows in_dim out_dim = matmul M inp (weight_floats w) rows in_dim out_dim"

definition matmul_saturating_mul :: "nat \<Rightarrow> nat \<Rightarrow> nat" where
  "matmul_saturating_mul lhs rhs = (if lhs \<noteq> 0 \<and> rhs > SIZE_MAX div lhs then SIZE_MAX else lhs * rhs)"

fun bit_floor :: "nat \<Rightarrow> nat" where
  "bit_floor n = (if n \<le> 1 then n else 2 * bit_floor (n div 2))"

definition matmul_task_count :: "nat \<Rightarrow> nat \<Rightarrow> nat \<Rightarrow> nat \<Rightarrow> MatmulWeightType \<Rightarrow> nat" where
  "matmul_task_count available rows in_dim out_dim weight_type =
     (if available < 2 \<or> rows = 0 \<or> in_dim = 0 \<or> out_dim < 128 then 1
      else let work = matmul_saturating_mul (matmul_saturating_mul rows in_dim) out_dim;
               work_per_task = (case weight_type of MW_kBF16 \<Rightarrow> 524288 | MW_kF32 \<Rightarrow> 786432);
               work_limited = 1 + (work - 1) div work_per_task;
               output_limited = out_dim div 64;
               useful = min available (min work_limited output_limited)
           in if useful \<ge> 2 then bit_floor useful else 1)"

subsection \<open>The selective scan\<close>

text \<open>The pass over the channels for one state \<open>n\<close> of one token.\<close>

definition scan_state :: "FloatMath \<Rightarrow> fp list \<Rightarrow> fp list \<Rightarrow> fp list \<Rightarrow> fp list \<Rightarrow> fp list \<Rightarrow> nat \<Rightarrow> nat \<Rightarrow> fp list \<times> fp list \<Rightarrow> fp list \<times> fp list" where
  "scan_state M dt ut bt ct a_neg d_inner n st =
     (case st of (y, hs) \<Rightarrow>
        let an = row d_inner a_neg n; hn = row d_inner hs n;
            hn' = map (\<lambda>c. fm_mac M (fm_mul M (fm_mul M (dt ! c) (bt ! n)) (ut ! c)) (fm_exp M (fm_mul M (dt ! c) (an ! c))) (hn ! c)) [0 ..< d_inner];
            y' = map (\<lambda>c. fm_mac M (y ! c) (hn' ! c) (ct ! n)) [0 ..< d_inner]
        in (y', blit hs (n * d_inner) hn'))"

definition scan_token :: "FloatMath \<Rightarrow> fp list \<Rightarrow> fp list \<Rightarrow> fp list \<Rightarrow> fp list \<Rightarrow> fp list \<Rightarrow> fp list \<Rightarrow> nat \<Rightarrow> nat \<Rightarrow> fp list \<Rightarrow> fp list \<times> fp list" where
  "scan_token M dt ut bt ct a_neg dk d_inner d_state hs =
     fold (scan_state M dt ut bt ct a_neg d_inner) [0 ..< d_state] (map (\<lambda>c. fm_mul M (dk ! c) (ut ! c)) [0 ..< d_inner], hs)"

definition discretize_and_scan ::
  "FloatMath \<Rightarrow> fp list \<Rightarrow> fp list \<Rightarrow> fp list \<Rightarrow> fp list \<Rightarrow> fp list \<Rightarrow> fp list \<Rightarrow> fp list \<Rightarrow> nat \<Rightarrow> nat \<Rightarrow> nat \<Rightarrow> bool \<Rightarrow> nat \<Rightarrow> fp list \<times> fp list" where
  "discretize_and_scan M delta a_neg b u c_proj d_skip h len d_inner d_state reset_state row_stride0 =
     (let row_stride = (if row_stride0 = 0 then d_state else row_stride0);
          hs = (if reset_state then blit h 0 (replicate (d_inner * d_state) (Fin 0)) else h)
      in fold (\<lambda>t (ys, hs).
           case scan_token M (row d_inner delta t) (row d_inner u t) (drop (t * row_stride) b) (drop (t * row_stride) c_proj)
                  a_neg d_skip d_inner d_state hs of
             (y, hs') \<Rightarrow> (ys @ y, hs')) [0 ..< len] ([], hs))"

end
