(* ===== verification/Mamba.thy ===== *)
theory Mamba
  imports Kernels Model_Weights Arena
begin

text \<open>
  core/models/mamba/mamba.\{h,cc\} with the key builder of core/loader/tensor\_key.h: the state-space network, over a whole sequence (\<open>forward\<close>) and
  token by token with a state that is carried from call to call (\<open>decode\<close>). Builds without CUDA.

  The weights are immutable, so a pointer to weights is the list of the values it points to. A scratch span of
  the arena is the list written to it; running out of scratch, which the code does not test for, is not modelled.
\<close>

section \<open>Definitions\<close>

record MambaConfig =
  mc_d_model :: nat
  mc_d_inner :: nat
  mc_d_state :: nat
  mc_d_conv :: nat
  mc_dt_rank :: nat
  mc_n_layers :: nat
  mc_vocab :: nat

record MambaLayer =
  ml_norm :: "fp list"
  ml_in_proj :: WeightView
  ml_conv_w :: "fp list"
  ml_conv_b :: "fp list"
  ml_x_proj :: WeightView
  ml_dt_w :: WeightView
  ml_dt_b :: "fp list"
  ml_a_neg :: "fp list"
  ml_d :: "fp list"
  ml_out_proj :: WeightView

record Mamba =
  mb_cfg :: MambaConfig
  mb_layers :: "MambaLayer list"
  mb_emb :: "fp list"
  mb_norm_f :: "fp list"
  mb_ok :: bool

definition kMaxLayers :: nat where "kMaxLayers = 64"

subsection \<open>Construction\<close>

definition is_matmul_weight :: "TensorRef \<Rightarrow> bool" where
  "is_matmul_weight t \<longleftrightarrow> is_f32 t \<or> is_bf16 t"

definition is_vector_f32 :: "TensorRef option \<Rightarrow> nat \<Rightarrow> bool" where
  "is_vector_f32 tensor n = (case tensor of None \<Rightarrow> False | Some t \<Rightarrow> tr_ndim t = 1 \<and> tr_shape t ! 0 = n \<and> is_f32 t)"

definition is_matrix_weight :: "TensorRef option \<Rightarrow> nat \<Rightarrow> nat \<Rightarrow> bool" where
  "is_matrix_weight tensor rows columns =
     (case tensor of None \<Rightarrow> False
      | Some t \<Rightarrow> tr_ndim t = 2 \<and> tr_shape t ! 0 = rows \<and> tr_shape t ! 1 = columns \<and> is_matmul_weight t)"

definition is_conv_weight :: "TensorRef option \<Rightarrow> nat \<Rightarrow> nat \<Rightarrow> bool" where
  "is_conv_weight tensor channels taps =
     (case tensor of None \<Rightarrow> False
      | Some t \<Rightarrow> tr_ndim t = 3 \<and> tr_shape t ! 0 = channels \<and> tr_shape t ! 1 = 1 \<and> tr_shape t ! 2 = taps \<and> is_f32 t)"

text \<open>The values at an address.\<close>

definition mem_floats :: "(nat \<Rightarrow> byte) \<Rightarrow> nat \<Rightarrow> nat \<Rightarrow> fp list" where
  "mem_floats mem addr n = read_floats n (map mem [addr ..< addr + 4 * n])"

definition mem_bf16 :: "(nat \<Rightarrow> byte) \<Rightarrow> nat \<Rightarrow> nat \<Rightarrow> u16 list" where
  "mem_bf16 mem addr n = map (\<lambda>i. read_le (map mem [addr + 2 * i ..< addr + 2 * i + 2]) 0) [0 ..< n]"

definition weight_view :: "(nat \<Rightarrow> byte) \<Rightarrow> TensorRef option \<Rightarrow> nat \<Rightarrow> WeightView" where
  "weight_view mem tensor n =
     (case tensor of None \<Rightarrow> W_F32 []
      | Some t \<Rightarrow> if is_bf16 t then W_BF16 (mem_bf16 mem (tr_data t) n) else W_F32 (mem_floats mem (tr_data t) n))"

definition vector_view :: "(nat \<Rightarrow> byte) \<Rightarrow> TensorRef option \<Rightarrow> nat \<Rightarrow> fp list" where
  "vector_view mem tensor n = (case tensor of None \<Rightarrow> [] | Some t \<Rightarrow> mem_floats mem (as_f32 t) n)"

text \<open>\<open>TensorKeyBuilder\<close>: pieces that fit into the buffer one after the other; the empty view otherwise.\<close>

definition built_key :: "nat \<Rightarrow> string list \<Rightarrow> string" where
  "built_key capacity pieces = (if length (concat pieces) \<le> capacity then concat pieces else [])"

definition layer_key :: "nat \<Rightarrow> string \<Rightarrow> string" where
  "layer_key i sub = built_key 96 [''backbone.layers.'', to_chars i, ''.'', sub]"

definition layer_tensor :: "TensorRef list \<Rightarrow> nat \<Rightarrow> string \<Rightarrow> TensorRef option" where
  "layer_tensor ts i sub = find_tensor_ref ts (layer_key i sub)"

text \<open>The tests a layer has to pass; they include those of \<open>layer_weight\<close> and \<open>layer_weight_f32\<close> but for \<open>A_log\<close>, which has to be F32.\<close>

definition layer_wellformed :: "TensorRef list \<Rightarrow> MambaConfig \<Rightarrow> nat \<Rightarrow> bool" where
  "layer_wellformed ts cfg n \<longleftrightarrow>
     (case layer_tensor ts n ''mixer.A_log'' of None \<Rightarrow> False | Some t \<Rightarrow> is_f32 t) \<and>
     is_vector_f32 (layer_tensor ts n ''norm.weight'') (mc_d_model cfg) \<and>
     is_matrix_weight (layer_tensor ts n ''mixer.in_proj.weight'') (2 * mc_d_inner cfg) (mc_d_model cfg) \<and>
     is_conv_weight (layer_tensor ts n ''mixer.conv1d.weight'') (mc_d_inner cfg) (mc_d_conv cfg) \<and>
     is_vector_f32 (layer_tensor ts n ''mixer.conv1d.bias'') (mc_d_inner cfg) \<and>
     is_matrix_weight (layer_tensor ts n ''mixer.x_proj.weight'') (mc_dt_rank cfg + 2 * mc_d_state cfg) (mc_d_inner cfg) \<and>
     is_matrix_weight (layer_tensor ts n ''mixer.dt_proj.weight'') (mc_d_inner cfg) (mc_dt_rank cfg) \<and>
     is_vector_f32 (layer_tensor ts n ''mixer.dt_proj.bias'') (mc_d_inner cfg) \<and>
     is_matrix_weight (layer_tensor ts n ''mixer.A_log'') (mc_d_inner cfg) (mc_d_state cfg) \<and>
     is_vector_f32 (layer_tensor ts n ''mixer.D'') (mc_d_inner cfg) \<and>
     is_matrix_weight (layer_tensor ts n ''mixer.out_proj.weight'') (mc_d_model cfg) (mc_d_inner cfg)"

text \<open>\<open>A[n,c] = -exp(A_log[c,n])\<close>, transposed once.\<close>

definition negated_exponential :: "FloatMath \<Rightarrow> fp list \<Rightarrow> nat \<Rightarrow> nat \<Rightarrow> fp list" where
  "negated_exponential M a_log d_inner d_state =
     concat (map (\<lambda>n. map (\<lambda>c. fp_neg (fm_exp M (a_log ! (c * d_state + n)))) [0 ..< d_inner]) [0 ..< d_state])"

definition load_layer :: "FloatMath \<Rightarrow> (nat \<Rightarrow> byte) \<Rightarrow> TensorRef list \<Rightarrow> MambaConfig \<Rightarrow> nat \<Rightarrow> MambaLayer" where
  "load_layer M mem ts cfg n =
     (let dm = mc_d_model cfg; di = mc_d_inner cfg; ds = mc_d_state cfg; dr = mc_dt_rank cfg; dc = mc_d_conv cfg
      in \<lparr>ml_norm = vector_view mem (layer_tensor ts n ''norm.weight'') dm,
          ml_in_proj = weight_view mem (layer_tensor ts n ''mixer.in_proj.weight'') (2 * di * dm),
          ml_conv_w = vector_view mem (layer_tensor ts n ''mixer.conv1d.weight'') (di * dc),
          ml_conv_b = vector_view mem (layer_tensor ts n ''mixer.conv1d.bias'') di,
          ml_x_proj = weight_view mem (layer_tensor ts n ''mixer.x_proj.weight'') ((dr + 2 * ds) * di),
          ml_dt_w = weight_view mem (layer_tensor ts n ''mixer.dt_proj.weight'') (di * dr),
          ml_dt_b = vector_view mem (layer_tensor ts n ''mixer.dt_proj.bias'') di,
          ml_a_neg = negated_exponential M (vector_view mem (layer_tensor ts n ''mixer.A_log'') (di * ds)) di ds,
          ml_d = vector_view mem (layer_tensor ts n ''mixer.D'') di,
          ml_out_proj = weight_view mem (layer_tensor ts n ''mixer.out_proj.weight'') (dm * di)\<rparr>)"

text \<open>The loop over the layers from \<open>n\<close> on: the layers found, or \<open>None\<close> when one is malformed or the arena is full.\<close>

fun load_layers :: "FloatMath \<Rightarrow> (nat \<Rightarrow> byte) \<Rightarrow> TensorRef list \<Rightarrow> MambaConfig \<Rightarrow> nat \<Rightarrow> nat \<Rightarrow> Arena \<Rightarrow> MambaLayer list option \<times> Arena" where
  "load_layers M mem ts cfg n 0 arena = (Some [], arena)"
| "load_layers M mem ts cfg n (Suc left) arena =
     (if layer_tensor ts n ''norm.weight'' = None then (Some [], arena)
      else if \<not> layer_wellformed ts cfg n then (None, arena)
      else (case arena_alloc_array 4 kSimdAlign (mc_d_state cfg * mc_d_inner cfg) arena of
          (None, arena1) \<Rightarrow> (None, arena1)
        | (Some _, arena1) \<Rightarrow>
            (case load_layers M mem ts cfg (Suc n) left arena1 of
               (None, arena2) \<Rightarrow> (None, arena2)
             | (Some ls, arena2) \<Rightarrow> (Some (load_layer M mem ts cfg n # ls), arena2))))"

definition empty_mamba :: Mamba where
  "empty_mamba = \<lparr>mb_cfg = \<lparr>mc_d_model = 0, mc_d_inner = 0, mc_d_state = 0, mc_d_conv = 0, mc_dt_rank = 0, mc_n_layers = 0, mc_vocab = 0\<rparr>,
     mb_layers = [], mb_emb = [], mb_norm_f = [], mb_ok = False\<rparr>"

text \<open>The constructor. A network that is not \<open>valid()\<close> is only tested for that; its other fields are not set here.\<close>

definition mamba_open :: "FloatMath \<Rightarrow> (nat \<Rightarrow> byte) \<Rightarrow> TensorRef list \<Rightarrow> Arena \<Rightarrow> Mamba \<times> Arena" where
  "mamba_open M mem ts arena =
     (case (find_tensor_ref ts ''backbone.embeddings.weight'', find_tensor_ref ts ''backbone.layers.0.mixer.A_log'',
            find_tensor_ref ts ''backbone.layers.0.mixer.conv1d.weight'', find_tensor_ref ts ''backbone.layers.0.mixer.x_proj.weight'',
            find_tensor_ref ts ''backbone.norm_f.weight'') of
        (Some emb, Some a0, Some cv0, Some xp0, Some nf) \<Rightarrow>
          let cfg = \<lparr>mc_d_model = tr_shape emb ! 1, mc_d_inner = tr_shape a0 ! 0, mc_d_state = tr_shape a0 ! 1, mc_d_conv = tr_shape cv0 ! 2,
                     mc_dt_rank = tr_shape xp0 ! 0 - 2 * tr_shape a0 ! 1, mc_n_layers = 0, mc_vocab = tr_shape emb ! 0\<rparr>
          in if tr_ndim emb \<noteq> 2 \<or> tr_ndim a0 \<noteq> 2 \<or> tr_ndim cv0 \<noteq> 3 \<or> tr_ndim xp0 \<noteq> 2 then (empty_mamba, arena)
             else if mc_vocab cfg = 0 \<or> mc_d_model cfg = 0 \<or> mc_d_inner cfg = 0 \<or> mc_d_state cfg = 0 \<or> mc_d_conv cfg = 0 \<or>
                     tr_shape xp0 ! 0 < 2 * mc_d_state cfg then (empty_mamba, arena)
             else if mc_dt_rank cfg = 0 \<or> \<not> is_f32 emb \<or> \<not> is_f32 a0 \<or> \<not> is_vector_f32 (Some nf) (mc_d_model cfg) \<or>
                     \<not> is_conv_weight (Some cv0) (mc_d_inner cfg) (mc_d_conv cfg) \<or>
                     \<not> is_matrix_weight (Some xp0) (mc_dt_rank cfg + 2 * mc_d_state cfg) (mc_d_inner cfg) then (empty_mamba, arena)
             else (case load_layers M mem ts cfg 0 kMaxLayers arena of
                 (None, arena1) \<Rightarrow> (empty_mamba, arena1)
               | (Some ls, arena1) \<Rightarrow>
                   (\<lparr>mb_cfg = cfg\<lparr>mc_n_layers := length ls\<rparr>, mb_layers = ls,
                     mb_emb = vector_view mem (Some emb) (mc_vocab cfg * mc_d_model cfg), mb_norm_f = vector_view mem (Some nf) (mc_d_model cfg),
                     mb_ok = (0 < length ls)\<rparr>, arena1))
      | _ \<Rightarrow> (empty_mamba, arena))"

definition mamba_state_size :: "Mamba \<Rightarrow> nat" where
  "mamba_state_size m = mc_n_layers (mb_cfg m) * mc_d_inner (mb_cfg m) * (mc_d_conv (mb_cfg m) + mc_d_state (mb_cfg m))"

subsection \<open>A whole sequence\<close>

definition layer_forward :: "FloatMath \<Rightarrow> MambaConfig \<Rightarrow> MambaLayer \<Rightarrow> fp list \<Rightarrow> nat \<Rightarrow> fp list" where
  "layer_forward M cfg lw hidden l =
     (let dm = mc_d_model cfg; di = mc_d_inner cfg; ds = mc_d_state cfg; dr = mc_dt_rank cfg; wd = dr + 2 * ds;
          normed = rmsnorm M hidden (ml_norm lw) l dm;
          xz = matmul_weight M normed (ml_in_proj lw) l dm (2 * di);
          x_cm = concat (map (\<lambda>c. map (\<lambda>t. xz ! (t * (2 * di) + c)) [0 ..< l]) [0 ..< di]);
          z = concat (map (\<lambda>t. map (\<lambda>c. xz ! (t * (2 * di) + (di + c))) [0 ..< di]) [0 ..< l]);
          x_conv = silu M (conv1d_causal M x_cm (ml_conv_w lw) (ml_conv_b lw) di l (mc_d_conv cfg));
          x_sm = concat (map (\<lambda>t. map (\<lambda>c. x_conv ! (c * l + t)) [0 ..< di]) [0 ..< l]);
          dbl = matmul_weight M x_sm (ml_x_proj lw) l di wd;
          dt_in = concat (map (\<lambda>t. map (\<lambda>k. dbl ! (t * wd + k)) [0 ..< dr]) [0 ..< l]);
          dt0 = matmul_weight M dt_in (ml_dt_w lw) l dr di;
          dt = softplus M (concat (map (\<lambda>t. map (\<lambda>o'. fm_add M (dt0 ! (t * di + o')) (ml_dt_b lw ! o')) [0 ..< di]) [0 ..< l]));
          scanned = discretize_and_scan M dt (ml_a_neg lw) (drop dr dbl) x_sm (drop (dr + ds) dbl) (ml_d lw)
            (replicate (ds * di) NaN) l di ds True wd;
          out = matmul_weight M (gate_silu M (fst scanned) z) (ml_out_proj lw) l di dm
      in add_inplace M hidden out)"

definition mamba_forward :: "FloatMath \<Rightarrow> Mamba \<Rightarrow> fp list \<Rightarrow> nat \<Rightarrow> fp list" where
  "mamba_forward M m input seq_len =
     (let cfg = mb_cfg m;
          hidden = fold (\<lambda>i hidden. layer_forward M cfg (mb_layers m ! i) hidden seq_len) [0 ..< mc_n_layers cfg] (take (seq_len * mc_d_model cfg) input)
      in rmsnorm M hidden (mb_norm_f m) seq_len (mc_d_model cfg))"

subsection \<open>One token\<close>

text \<open>The hidden vector and the state of the layer, before and after.\<close>

definition decode_layer :: "FloatMath \<Rightarrow> MambaConfig \<Rightarrow> MambaLayer \<Rightarrow> fp list \<Rightarrow> fp list \<Rightarrow> fp list \<times> fp list" where
  "decode_layer M cfg lw hidden lstate =
     (let dm = mc_d_model cfg; di = mc_d_inner cfg; ds = mc_d_state cfg; dr = mc_dt_rank cfg; dc = mc_d_conv cfg; wd = dr + 2 * ds;
          conv_win = take (di * dc) lstate;
          h = take (ds * di) (drop (di * dc) lstate);
          normed = rmsnorm M hidden (ml_norm lw) 1 dm;
          xz = matmul_weight M normed (ml_in_proj lw) 1 dm (2 * di);
          conv_win' = concat (map (\<lambda>c. drop 1 (row dc conv_win c) @ [xz ! c]) [0 ..< di]);
          z = map (\<lambda>c. xz ! (di + c)) [0 ..< di];
          x_conv = silu M (conv1d_step M conv_win' (ml_conv_w lw) (ml_conv_b lw) di dc);
          dbl = matmul_weight M x_conv (ml_x_proj lw) 1 di wd;
          dt_in = map (\<lambda>k. dbl ! k) [0 ..< dr];
          dt0 = matmul_weight M dt_in (ml_dt_w lw) 1 dr di;
          dt = softplus M (map (\<lambda>o'. fm_add M (dt0 ! o') (ml_dt_b lw ! o')) [0 ..< di]);
          scanned = discretize_and_scan M dt (ml_a_neg lw) (drop dr dbl) x_conv (drop (dr + ds) dbl) (ml_d lw) h 1 di ds False wd;
          out = matmul_weight M (gate_silu M (fst scanned) z) (ml_out_proj lw) 1 di dm
      in (add_inplace M hidden out, conv_win' @ snd scanned @ drop (di * dc + ds * di) lstate))"

definition decode_layers :: "FloatMath \<Rightarrow> Mamba \<Rightarrow> nat \<Rightarrow> fp list \<Rightarrow> fp list \<Rightarrow> fp list \<times> fp list" where
  "decode_layers M m n x state =
     (let cfg = mb_cfg m; per = mc_d_inner cfg * (mc_d_conv cfg + mc_d_state cfg)
      in fold (\<lambda>i (out, state).
           case decode_layer M cfg (mb_layers m ! i) out (row per state i) of
             (out', lstate') \<Rightarrow> (out', blit state (i * per) lstate')) [0 ..< n] (x, state))"

definition mamba_decode :: "FloatMath \<Rightarrow> Mamba \<Rightarrow> fp list \<Rightarrow> fp list \<Rightarrow> fp list \<times> fp list" where
  "mamba_decode M m x state =
     (case decode_layers M m (mc_n_layers (mb_cfg m)) (take (mc_d_model (mb_cfg m)) x) state of
        (out, state') \<Rightarrow> (rmsnorm M out (mb_norm_f m) 1 (mc_d_model (mb_cfg m)), state'))"

end
