(* ===== verification/Kernels_Correct.thy ===== *)
theory Kernels_Correct
  imports Kernels Thread_Pool_Properties
begin

text \<open>
  Facts on the portable kernels: they work row by row, and a matrix product that the thread pool computes in
  pieces, in any order, is the product computed by one thread.
\<close>

section \<open>Matrices\<close>

text \<open>The product of one row.\<close>

definition mat_vec :: "FloatMath \<Rightarrow> fp list \<Rightarrow> fp list \<Rightarrow> nat \<Rightarrow> nat \<Rightarrow> fp list" where
  "mat_vec M v w n m = map (\<lambda>o'. dot M v (row n w o') n) [0 ..< m]"

lemma length_mat_vec [simp]: "length (mat_vec M v w n m) = m"
  by (simp add: mat_vec_def)

lemma length_concat_rows: "\<forall>r \<in> set rs. length r = n \<Longrightarrow> length (concat rs) = length rs * n"
  by (induction rs) auto

lemma row_concat: "\<forall>r \<in> set rs. length r = n \<Longrightarrow> t < length rs \<Longrightarrow> row n (concat rs) t = rs ! t"
proof (induction rs arbitrary: t)
  case (Cons r rs)
  then show ?case by (cases t) (auto simp: row_def)
qed simp

lemma nth_row: "i < n \<Longrightarrow> row n v t ! i = drop (t * n) v ! i"
  by (simp add: row_def)

lemma nth_concat_rows:
  assumes "\<forall>r \<in> set rs. length r = n" "t < length rs" "i < n"
  shows "concat rs ! (t * n + i) = rs ! t ! i"
proof -
  have "t * n + n \<le> length rs * n" using assms(2) by (metis Suc_leI add.commute mult_Suc mult_le_mono1)
  then have "t * n \<le> length (concat rs)" unfolding length_concat_rows [OF assms(1)] by linarith
  then have "concat rs ! (t * n + i) = row n (concat rs) t ! i" using assms(3) by (simp add: nth_row)
  then show ?thesis using row_concat [OF assms(1,2)] by simp
qed

lemma length_row: "(t + 1) * n \<le> length v \<Longrightarrow> length (row n v t) = n"
  by (auto simp: row_def)

lemma concat_rows: "length v = l * n \<Longrightarrow> concat (map (row n v) [0 ..< l]) = v"
proof (induction l arbitrary: v)
  case (Suc l)
  let ?w = "take (l * n) v"
  have "map (row n v) [0 ..< l] = map (row n ?w) [0 ..< l]"
  proof (rule map_cong [OF refl])
    fix t assume "t \<in> set [0 ..< l]"
    then have "t * n + n \<le> l * n" by (metis Suc_leI add.commute atLeastLessThan_iff mult_Suc mult_le_mono1 set_upt)
    then show "row n v t = row n ?w t" by (simp add: row_def drop_take min_def)
  qed
  moreover have "row n v l = drop (l * n) v" using Suc.prems by (simp add: row_def)
  moreover have "concat (map (row n ?w) [0 ..< l]) = ?w" using Suc.prems by (intro Suc.IH) simp
  ultimately show ?case by (simp del: map_eq_conv)
qed simp

lemma map_upt_rows: "map (\<lambda>r. f (row n (concat rs) r)) [0 ..< length rs] = map f rs" if "\<forall>r \<in> set rs. length r = n"
  by (rule nth_equalityI) (simp_all add: row_concat [OF that])

lemma matmul_rows:
  "\<forall>r \<in> set rs. length r = n \<Longrightarrow> matmul M (concat rs) w (length rs) n m = concat (map (\<lambda>r. mat_vec M r w n m) rs)"
  unfolding matmul_def mat_vec_def [symmetric] by (subst map_upt_rows [where f = "\<lambda>r. mat_vec M r w n m"]) simp_all

lemma rmsnorm_rows:
  "\<forall>r \<in> set rs. length r = n \<Longrightarrow> rmsnorm M (concat rs) w (length rs) n = concat (map (\<lambda>r. rmsnorm_row M r w n) rs)"
  unfolding rmsnorm_def by (subst map_upt_rows [where f = "\<lambda>r. rmsnorm_row M r w n"]) simp_all

lemma matmul_one: "length v = n \<Longrightarrow> matmul M v w 1 n m = mat_vec M v w n m"
  using matmul_rows [of "[v]" n M w m] by simp

lemma rmsnorm_one: "length v = n \<Longrightarrow> rmsnorm M v w 1 n = rmsnorm_row M v w n"
  using rmsnorm_rows [of "[v]" n M w] by simp

lemma length_rmsnorm_row [simp]: "length (rmsnorm_row M v w n) = n"
  by (simp add: rmsnorm_row_def Let_def)

lemma silu_concat: "silu M (concat rs) = concat (map (silu M) rs)"
  by (induction rs) (simp_all add: silu_def)

lemma softplus_concat: "softplus M (concat rs) = concat (map (softplus M) rs)"
  by (induction rs) (simp_all add: softplus_def)

lemma length_elementwise [simp]:
  "length (silu M x) = length x" "length (softplus M x) = length x" "length (gate_silu M a g) = length a"
  "length (add_inplace M x y) = length x" "length (conv1d_step M win w b n k) = n"
  by (simp_all add: silu_def softplus_def gate_silu_def add_inplace_def conv1d_step_def)

lemma map_index_append:
  assumes "length u = length v"
  shows "map (\<lambda>i. f ((u @ u') ! i) ((v @ v') ! i)) [0 ..< length u + length u'] =
    map (\<lambda>i. f (u ! i) (v ! i)) [0 ..< length u] @ map (\<lambda>i. f (u' ! i) (v' ! i)) [0 ..< length u']"
  by (rule nth_equalityI) (auto simp: nth_append assms)

lemma elementwise_concat:
  assumes "\<forall>r \<in> set (map fst ps). length r = n" "\<forall>r \<in> set (map snd ps). length r = n"
  shows "map (\<lambda>i. f (concat (map fst ps) ! i) (concat (map snd ps) ! i)) [0 ..< length (concat (map fst ps))] =
    concat (map (\<lambda>(u, v). map (\<lambda>i. f (u ! i) (v ! i)) [0 ..< length u]) ps)"
  using assms
proof (induction ps)
  case (Cons p ps)
  have l: "length (fst p) = length (snd p)" using Cons.prems by simp
  have "map (\<lambda>i. f ((fst p @ concat (map fst ps)) ! i) ((snd p @ concat (map snd ps)) ! i)) [0 ..< length (fst p) + length (concat (map fst ps))] =
    map (\<lambda>i. f (fst p ! i) (snd p ! i)) [0 ..< length (fst p)] @ concat (map (\<lambda>(u, v). map (\<lambda>i. f (u ! i) (v ! i)) [0 ..< length u]) ps)"
    unfolding map_index_append [OF l] using Cons by simp
  then show ?case by (cases p) simp
qed simp

section \<open>A product in pieces\<close>

lemma matmul_length: "length (matmul M inp w rows n m) = rows * m"
  by (simp add: matmul_def length_concat o_def sum_list_replicate map_replicate_const)

lemma nth_matmul: "r < rows \<Longrightarrow> j < m \<Longrightarrow> matmul M inp w rows n m ! (r * m + j) = dot M (row n inp r) (row n w j) n"
  unfolding matmul_def by (subst nth_concat_rows [where n = m]) auto

text \<open>The writes for the outputs \<open>js\<close> put exactly their columns of the product into the buffer.\<close>

lemma matmul_column:
  assumes "length out = rows * m" "j < m" "k \<le> rows"
  shows "fold (\<lambda>r out. out[r * m + j := dot M (row n inp r) (row n w j) n]) [0 ..< k] out =
    map (\<lambda>i. if i mod m = j \<and> i div m < k then matmul M inp w rows n m ! i else out ! i) [0 ..< rows * m]"
  using assms(3)
proof (induction k)
  case 0
  then show ?case using assms(1) by (simp add: list_eq_iff_nth_eq)
next
  case (Suc k)
  have pos: "k * m + j < rows * m"
  proof -
    have "k * m + m \<le> rows * m" using Suc.prems by (metis add.commute mult_Suc mult_le_mono1)
    then show ?thesis using assms(2) by linarith
  qed
  have here: "i = k * m + j" if "i mod m = j" "i div m = k" for i using that by (metis div_mult_mod_eq)
  show ?case
  proof (rule nth_equalityI)
    fix i assume "i < length (fold (\<lambda>r out. out[r * m + j := dot M (row n inp r) (row n w j) n]) [0 ..< Suc k] out)"
    then have i: "i < rows * m" using Suc by simp
    show "fold (\<lambda>r out. out[r * m + j := dot M (row n inp r) (row n w j) n]) [0 ..< Suc k] out ! i =
      map (\<lambda>i. if i mod m = j \<and> i div m < Suc k then matmul M inp w rows n m ! i else out ! i) [0 ..< rows * m] ! i"
    proof (cases "i = k * m + j")
      case True
      then show ?thesis using Suc pos assms(2) by (simp add: nth_matmul)
    next
      case False
      then show ?thesis using Suc i here [of i] by (auto simp: less_Suc_eq nth_list_update)
    qed
  qed (use Suc in simp)
qed

lemma matmul_op_columns:
  assumes "length out = rows * m" "\<forall>j \<in> set js. j < m"
  shows "matmul_op M inp w rows n m js out =
    map (\<lambda>i. if i mod m \<in> set js then matmul M inp w rows n m ! i else out ! i) [0 ..< rows * m]"
  using assms
proof (induction js arbitrary: out)
  case Nil
  then show ?case by (simp add: matmul_op_def list_eq_iff_nth_eq)
next
  case (Cons j js)
  let ?out1 = "map (\<lambda>i. if i mod m = j then matmul M inp w rows n m ! i else out ! i) [0 ..< rows * m]"
  have "fold (\<lambda>r out. out[r * m + j := dot M (row n inp r) (row n w j) n]) [0 ..< rows] out = ?out1"
    using Cons.prems by (subst matmul_column) (auto simp: less_mult_imp_div_less)
  then have "matmul_op M inp w rows n m (j # js) out = matmul_op M inp w rows n m js ?out1" by (simp add: matmul_op_def)
  then show ?case using Cons by (auto simp: list_eq_iff_nth_eq)
qed

text \<open>Any order of the outputs fills the buffer with the product.\<close>

lemma matmul_op_all:
  assumes "length out = rows * m" "set js = {0 ..< m}"
  shows "matmul_op M inp w rows n m js out = matmul M inp w rows n m"
proof (rule nth_equalityI)
  show "length (matmul_op M inp w rows n m js out) = length (matmul M inp w rows n m)"
    using assms by (subst matmul_op_columns) (simp_all add: matmul_length)
  fix i assume "i < length (matmul_op M inp w rows n m js out)"
  then have i: "i < rows * m" using assms by (subst (asm) matmul_op_columns) simp_all
  then have "0 < m" by (cases m) auto
  then show "matmul_op M inp w rows n m js out ! i = matmul M inp w rows n m ! i"
    using assms i by (subst matmul_op_columns) simp_all
qed

section \<open>Properties\<close>

text \<open>
  a matrix product that \<open>matmul\<close> hands to the thread pool in ranges of outputs: whatever the interleaving of
  the workers, when the pool returns the output holds the product that one thread computes, bit for bit.
\<close>

theorem matmul_on_pool:
  assumes "parallel_for nthreads (of_nat out_dim) tasks = Inr cs"
    and "out_dim + nthreads < 2 ^ 64" "reach (pool_start cs) thread_step s" "tp_producer s = P_Returned" "length out = rows * out_dim"
  shows "fold (\<lambda>c. matmul_op M inp w rows in_dim out_dim (task_range c)) (tp_executed s) out = matmul M inp w rows in_dim out_dim \<and>
    matmul_op M inp w rows in_dim out_dim [0 ..< out_dim] out = matmul M inp w rows in_dim out_dim"
proof
  have u: "unat (of_nat out_dim :: u64) = out_dim" using assms(2) by (intro unat_of_nat_u64) simp
  have "thread_inv cs s" using pool.reach_inv [OF assms(3)] by simp
  then have "mset (tp_executed s) = mset cs" using returned_done(1) assms(4) by blast
  then have "set (tp_executed s) = set cs" by (rule mset_eq_setD)
  then have "set (concat (map task_range (tp_executed s))) = set (concat (map task_range cs))" by simp
  also have "\<dots> = {0 ..< out_dim}" using parallel_for_ranges [OF assms(1)] u assms(2) by simp
  finally have all: "set (concat (map task_range (tp_executed s))) = {0 ..< out_dim}" .
  have "fold (\<lambda>c. matmul_op M inp w rows in_dim out_dim (task_range c)) cs' out =
      matmul_op M inp w rows in_dim out_dim (concat (map task_range cs')) out" for cs'
    by (induction cs' arbitrary: out) (simp_all add: matmul_op_def)
  then show "fold (\<lambda>c. matmul_op M inp w rows in_dim out_dim (task_range c)) (tp_executed s) out = matmul M inp w rows in_dim out_dim"
    using matmul_op_all [OF assms(5) all] by simp
  show "matmul_op M inp w rows in_dim out_dim [0 ..< out_dim] out = matmul M inp w rows in_dim out_dim"
    by (rule matmul_op_all [OF assms(5)]) simp
qed

text \<open>Arithmetic on the rational values, for concrete runs.\<close>

definition add_value :: "fp \<Rightarrow> fp \<Rightarrow> fp" where
  "add_value acc p = (if p = Fin 0 then acc else case (acc, p) of (Fin a, Fin b) \<Rightarrow> Fin (a + b) | _ \<Rightarrow> NaN)"

fun on_values :: "(rat \<Rightarrow> rat \<Rightarrow> rat) \<Rightarrow> fp \<Rightarrow> fp \<Rightarrow> fp" where
  "on_values f (Fin a) (Fin b) = Fin (f a b)"
| "on_values f _ _ = NaN"

definition plain_math :: FloatMath where
  "plain_math = \<lparr>fm_add = on_values (+), fm_mul = on_values (*), fm_div = on_values (/),
     fm_mac = (\<lambda>acc a b. add_value acc (on_values (*) a b)), fm_exp = (\<lambda>x. on_values (+) (Fin 1) x), fm_log1p = id, fm_sqrt = id,
     fm_size = (\<lambda>n. Fin (of_nat n))\<rparr>"

theorem matmul_on_pool_witness:
  "\<exists>s. reach (pool_start [(0, 1), (1, 2)]) thread_step s \<and>
     fold (\<lambda>c. matmul_op plain_math [Fin 5, Fin 7] [Fin 1, Fin 2, Fin 3, Fin 4] 1 2 2 (task_range c)) (tp_executed s) [NaN, NaN] = [Fin 19, Fin 43]"
proof -
  have cut: "parallel_for 2 (of_nat 2) 2 = Inr [(0, 1), (1, 2)]" by code_simp
  have "matmul plain_math [Fin 5, Fin 7] [Fin 1, Fin 2, Fin 3, Fin 4] 1 2 2 = [Fin 19, Fin 43]"
    by (simp add: matmul_def dot_def row_def plain_math_def add_value_def numeral_2_eq_2)
  with matmul_on_pool [OF cut _ demo_returned [unfolded demo_tasks_def], of "[NaN, NaN]" 1 plain_math "[Fin 5, Fin 7]" "[Fin 1, Fin 2, Fin 3, Fin 4]" 2]
    demo_returned [unfolded demo_tasks_def]
  show ?thesis by (intro exI [of _ "demo_done\<lparr>tp_producer := P_Returned\<rparr>"]) simp
qed

end
