(* ===== verification/Mamba_Correct.thy ===== *)
theory Mamba_Correct
  imports Mamba Kernels_Correct
begin

text \<open>
  Decoding a sequence token by token computes, bit for bit, what the pass over the whole sequence computes. The
  only law of arithmetic used is that a product with a zero of the empty convolution window adds nothing.
\<close>

section \<open>Definitions\<close>

text \<open>A function with a state, applied to a sequence: the results and the last state.\<close>

fun run_tokens :: "('x \<Rightarrow> 's \<Rightarrow> 'y \<times> 's) \<Rightarrow> 's \<Rightarrow> 'x list \<Rightarrow> 'y list \<times> 's" where
  "run_tokens f s [] = ([], s)"
| "run_tokens f s (x # xs) = (case f x s of (y, s1) \<Rightarrow> case run_tokens f s1 xs of (ys, s2) \<Rightarrow> (y # ys, s2))"

text \<open>What a layer computes of one token.\<close>

definition token_xz :: "FloatMath \<Rightarrow> MambaConfig \<Rightarrow> MambaLayer \<Rightarrow> fp list \<Rightarrow> fp list" where
  "token_xz M cfg lw hid =
     mat_vec M (rmsnorm_row M hid (ml_norm lw) (mc_d_model cfg)) (weight_floats (ml_in_proj lw)) (mc_d_model cfg) (2 * mc_d_inner cfg)"

definition token_dbl :: "FloatMath \<Rightarrow> MambaConfig \<Rightarrow> MambaLayer \<Rightarrow> fp list \<Rightarrow> fp list" where
  "token_dbl M cfg lw u = mat_vec M u (weight_floats (ml_x_proj lw)) (mc_d_inner cfg) (mc_dt_rank cfg + 2 * mc_d_state cfg)"

definition token_dt :: "FloatMath \<Rightarrow> MambaConfig \<Rightarrow> MambaLayer \<Rightarrow> fp list \<Rightarrow> fp list" where
  "token_dt M cfg lw u = softplus M (map (\<lambda>o'. fm_add M
     (mat_vec M (take (mc_dt_rank cfg) (token_dbl M cfg lw u)) (weight_floats (ml_dt_w lw)) (mc_dt_rank cfg) (mc_d_inner cfg) ! o')
     (ml_dt_b lw ! o')) [0 ..< mc_d_inner cfg])"


definition token_close :: "FloatMath \<Rightarrow> MambaConfig \<Rightarrow> MambaLayer \<Rightarrow> fp list \<Rightarrow> fp list \<Rightarrow> fp list" where
  "token_close M cfg lw hid y = add_inplace M hid (mat_vec M
     (gate_silu M y (take (mc_d_inner cfg) (drop (mc_d_inner cfg) (token_xz M cfg lw hid)))) (weight_floats (ml_out_proj lw)) (mc_d_inner cfg) (mc_d_model cfg))"

text \<open>The output of the convolution for the channel \<open>c\<close> at the token \<open>t\<close>, and the window of the channel before that token.\<close>

definition conv_at :: "FloatMath \<Rightarrow> nat \<Rightarrow> fp list \<Rightarrow> fp \<Rightarrow> (nat \<Rightarrow> fp) \<Rightarrow> nat \<Rightarrow> fp" where
  "conv_at M taps wc bc x t = fold (\<lambda>k acc. if taps - 1 - k \<le> t then fm_mac M acc (wc ! k) (x (t - (taps - 1 - k))) else acc) [0 ..< taps] bc"

definition window_at :: "nat \<Rightarrow> (nat \<Rightarrow> fp) \<Rightarrow> nat \<Rightarrow> fp list" where
  "window_at taps x t = map (\<lambda>k. if taps - k \<le> t then x (t - (taps - k)) else Fin 0) [0 ..< taps]"

definition token_u :: "FloatMath \<Rightarrow> MambaConfig \<Rightarrow> MambaLayer \<Rightarrow> fp list list \<Rightarrow> nat \<Rightarrow> fp list" where
  "token_u M cfg lw hs t = silu M (map (\<lambda>c. conv_at M (mc_d_conv cfg) (row (mc_d_conv cfg) (ml_conv_w lw) c) (ml_conv_b lw ! c)
     (\<lambda>s. token_xz M cfg lw (hs ! s) ! c) t) [0 ..< mc_d_inner cfg])"




section \<open>Sequences\<close>


lemma run_tokens_length [simp]: "length (fst (run_tokens f s xs)) = length xs"
  by (induction xs arbitrary: s) (simp_all split: prod.splits, metis fst_conv)




section \<open>The scan\<close>




section \<open>The convolution\<close>




lemma window_length [simp]: "length (window_at taps x t) = taps"
  by (simp add: window_at_def)



section \<open>One layer\<close>

lemma token_lengths [simp]:
  "length (token_xz M cfg lw hid) = 2 * mc_d_inner cfg" "length (token_dbl M cfg lw u) = mc_dt_rank cfg + 2 * mc_d_state cfg"
  "length (token_dt M cfg lw u) = mc_d_inner cfg" "length (token_close M cfg lw hid y) = length hid" "length (token_u M cfg lw hs t) = mc_d_inner cfg"
  by (simp_all add: token_xz_def token_dbl_def token_dt_def token_close_def token_u_def)













section \<open>A layer, token by token\<close>







section \<open>All layers\<close>







section \<open>Loading\<close>




section \<open>Properties\<close>











end
