(* ===== verification/Spec2Isabelle.thy ===== *)
theory Spec2Isabelle
  imports Snapshot Arena Deadline_Flow Job_Control Ring_Concurrency Job_Pool_Properties
    Deployment_Profile_Correct Model_Weights_Correct Action_Delivery_Correct Ring_Objects_Correct
    Job_Control_Correct Relay_Client Thread_Pool_Properties Trace_Correct Metrics_Correct Metrics_Export
    Mamba_Correct
begin

text \<open>
  \<^bold>\<open>FlowEdge: a verification library.\<close>

  FlowEdge runs generative robot policies on edge devices. Its core (\<open>src/src/core\<close>) loads a
  checkpoint into one arena, computes actions with it and can freeze and restore its decode state;
  its relay (\<open>src/src/relay\<close>) connects processes: clients put condition messages and job requests
  into shared-memory rings, a worker takes them out, orders them by deadline, runs jobs on a pool
  of worker threads, and answers with actions, results and telemetry events. The library models
  the parts that decide, order, encode and account, and of the arithmetic on tensors the portable kernels
  and the Mamba network, over float operations that are parameters.

  \<^bold>\<open>Conventions.\<close> A struct is a record, an enum a datatype (or its wire code as a word where the
  source stores it as an integer), a method a function from the state to the result and the new
  state, in the order of the source. \<open>std::expected\<close> is a sum with the error on the left,
  \<open>std::optional\<close> is \<open>option\<close>. Fixed-width integers on the wire are words (\<open>u8\<close> to \<open>u64\<close>); sizes that
  the source guards against overflow are natural numbers with the guards written against
  \<open>SIZE_MAX\<close>. Floats are bit patterns where they are only copied, and the type \<open>fp\<close> (finite rational,
  infinity, NaN) where they are compared or computed with. Clocks, operating system calls, file contents, user
  backends and allocation failure are arguments of the functions that consult them. Functions are
  total: loops are structural recursion or have a termination proof, so no fuel is used.

  \<^bold>\<open>Shared theories.\<close> \<open>FE_Prelude\<close>: word and list lemmas, the \<open>reach\<close> relation with its invariant
  rule, and the locale of a bounded FIFO queue (\<open>bounded_fifo\<close>) that the ring and the event buffer
  interpret. \<open>FE_Float\<close>: comparisons of floats. \<open>FE_Rounding\<close>: the single and double precision formats,
  rounding to nearest even, and the operations the action gate uses, with their monotonicity. \<open>Std_Heap\<close>: \<open>std::push_heap\<close>, \<open>pop_heap\<close>, \<open>make_heap\<close> and
  \<open>max_element\<close>, with the multiset and order lemmas the schedulers rest on. \<open>Text_Scan\<close>: the parts of
  \<open>std::string_view\<close>, \<open>from_chars\<close> and \<open>to_chars\<close> that the two JSON readers use.

  \<^bold>\<open>Core.\<close>
  \<^item> \<open>Byte_Codec\<close> (protocol/byte\_codec.h, relay/jobs/state\_codec.h): little-endian fields at an offset
    and the bounded cursors; reading back what was written.
  \<^item> \<open>Model_Identity\<close> (protocol/model\_identity.\{h,cc\}): the content hash and fingerprints, and that a
    changed trailing byte changes them. \<open>Snapshot\<close> (protocol/snapshot.\{h,cc\}): export and import of
    decode state are inverse on what import accepts, and corruption behind the last block is found.
  \<^item> \<open>Arena\<close> (arena/arena.h): granted blocks are aligned, in bounds, disjoint; sub-arenas too.
  \<^item> \<open>Thread_Pool\<close>, \<open>Thread_Pool_Ring\<close>, \<open>Thread_Pool_Correct\<close>, \<open>Thread_Pool_Wakeup\<close>, \<open>Thread_Pool_Properties\<close>
    (arena/spmc\_ring.h, thread\_pool.\{h,cc\}): the pool of threads behind \<open>parallel_for\<close>, one step for every
    access to shared memory, the accesses of all threads in one order. Every task runs exactly once, no
    wakeup is lost, the pool never deadlocks, and the tasks of \<open>parallel_for\<close> cover the range. A ring of one slot is excluded: it loses tasks.
  \<^item> \<open>Deadline_Flow\<close> (protocol/deadline\_flow.h): the selected plan is feasible and best, in every
    reachable state of the latency estimates.
  \<^item> \<open>Deployment_Profile\<close>, \<open>Deployment_Profile_Correct\<close> (protocol/deployment\_profile.\{h,cc\}): validation,
    parsing and printing of profiles; printing and parsing are inverse, and every parsed profile is valid.
  \<^item> \<open>Safetensors\<close>, \<open>Model_Weights\<close>, \<open>Model_Weights_Correct\<close> (loader/safetensors.\{h,cc\}): the header scan,
    the metadata lookup, and the passes that size, load and inspect a checkpoint. All passes visit one
    list of entries, from which follow the safety of loading, that loading cannot fail after
    sizing, and that the lookup of shapes agrees with the loaded tensors.
  \<^item> \<open>Kernels\<close>, \<open>Kernels_Correct\<close> (kernels/cpu/kernels\_scalar.cc, kernels/kernels.h, kernels/span\_ops.h, loader/weight\_ops.h):
    the portable kernels over an arithmetic that is a parameter; a matrix product handed to the thread pool
    is the product one thread computes, bit for bit, whatever the interleaving.
  \<^item> \<open>Mamba\<close>, \<open>Mamba_Correct\<close> (models/mamba/mamba.\{h,cc\}, loader/tensor\_key.h): the state-space network; decoding token
    by token with the carried state gives, bit for bit, the outputs of the pass over the whole sequence.

  \<^bold>\<open>Relay.\<close>
  \<^item> \<open>Messages\<close>, \<open>Job_Messages\<close>, \<open>Job_Events\<close>, \<open>Job_Control\<close> (protocol/*.h, telemetry/job\_event\_buffer):
    construction and validation of every message kind, and the event buffer as a bounded queue.
  \<^item> \<open>Shared_Ring\<close>, \<open>Ring_Concurrency\<close> (shared\_memory/shared\_memory\_ring.cc): the ring on its mapped
    bytes refines a FIFO queue across the wrap-around of its counters, also under every interleaving
    of the atomic steps of one producer and one consumer; arbitrary slot bytes cannot lead out of bounds.
    \<open>Ring_Objects\<close>, \<open>Ring_Objects_Correct\<close>: the handles of rings over a model of the POSIX shared-memory
    objects; whatever fails, descriptors and mappings are exactly those of the live handles.
  \<^item> \<open>Edf_Scheduler\<close> (scheduler/edf\_scheduler.\{h,cc\}): slots are conserved, the earliest unexpired message
    is served first, and submission refuses a deadline exactly when list scheduling in unbounded
    integers misses one.
  \<^item> \<open>State_Capsule\<close>, \<open>Cooperative_Job\<close>, \<open>Job_Registry\<close> (jobs/): capsules round-trip; the job state machine
    over an arbitrary backend keeps its progress valid and ends; requests reach the backend of their route.
  \<^item> \<open>Job_Pool\<close>, \<open>Job_Pool_Invariant\<close>, \<open>Job_Pool_Correct\<close>, \<open>Job_Pool_Properties\<close> (worker/job\_worker\_pool*): the
    coordinator calls and the steps of the worker threads as a transition system; no accepted request
    is lost or answered twice, whatever the interleaving; queued work is never stranded by draining or
    quarantine; dispatch takes the earliest request, by an order defined apart from the comparison of the
    code; submission is classified by its causes; admission is sound; lanes finish.
  \<^item> \<open>Wire_Image\<close> (protocol/messages.h, job\_messages.h, job\_control.h): messages as the bytes of their objects.
    \<open>Job_Service\<close>, \<open>Job_Service_Correct\<close> (worker/job\_service.\{h,cc\}): the coordinator between rings and pool;
    from the bytes a client sends to the bytes a client takes, every request is answered exactly once.
  \<^item> \<open>Job_Control_Service\<close>, \<open>Job_Clients\<close>, \<open>Job_Control_Correct\<close> (worker/job\_control\_service.\{h,cc\}, client/job\_client.\{h,cc\},
    client/job\_control\_client.\{h,cc\}): the operator's endpoint of the pool and the clients; operator requests
    are answered in order, each by a valid response of its own, while the pool works.
  \<^item> \<open>Float_Image\<close>, \<open>Message_Image\<close>, \<open>Relay_Client\<close> (protocol/messages.h, job\_events.h, client/relay\_client.\{h,cc\}): floats
    as bit patterns, the remaining messages as bytes, and the client of the head workers; conditions and
    actions arrive as they were sent.
  \<^item> \<open>Trace\<close>, \<open>Trace_Correct\<close> (protocol/trace.\{h,cc\}): recorded messages in a file; a trace replays what was
    appended, and a reader returns only messages a writer accepts. A record with an oversized action leaves
    the bounds of an array in the reader: the result \<open>None\<close> of \<open>trace_next\<close>.
  \<^item> \<open>Metrics\<close>, \<open>Metrics_Export\<close>, \<open>Metrics_Correct\<close> (telemetry/metrics.\{h,cc\}): counters, latency histograms and their
    texts; the cumulative buckets count the observations up to their bounds, and the counters and histograms
    of jobs are exactly those of the valid events.
  \<^item> \<open>Action_Delivery\<close>, \<open>Action_Delivery_Correct\<close> (protocol/action\_chunks.h, client/action\_delivery.\{h,cc\}): the gate
    between policy and robot; what it publishes is finite, in the limits, limited in rate by the steps elapsed, and in order.

  \<^bold>\<open>Not modelled.\<close> The vector and CUDA kernels and those of the diffusion head (core/kernels), the
  other networks and the policy heads (core/models, core/heads) and the engine that drives them
  (core/runtime, core/api): floating-point arithmetic whose results no theorem here pins down. The Python bindings, tools, benchmarks,
  examples and tests. The pinning of threads, processor topology and signals. Memory orders weaker
  than sequential consistency. The Windows variants
  of the file mapping and the shared-memory objects.
\<close>

end
